(* ===== verification/Kernel_Prelude.thy ===== *)
theory Kernel_Prelude
  imports "HOL-Library.Word"
begin

text \<open>Shared vocabulary of the development: the machine integers of the kernel as words with
  Rust's checked and saturating arithmetic, the \<^verbatim>\<open>Result\<close> type with the \<^verbatim>\<open>?\<close> operator written as
  \<open>and_then\<close>, big-endian bytes, and the generic lemmas on them that the component theories use.

  The collections: \<open>result_elims\<close> turns a successful chain of steps into the success of each step;
  \<open>checked_arith\<close> reads a checked operation as a fact of natural numbers; \<open>codec_simps\<close> and
  \<open>codec_dests\<close> carry the round trips of Kernel_Canonical.\<close>

section \<open>Types\<close>

type_synonym byte = "8 word"
type_synonym u16 = "16 word"
type_synonym u32 = "32 word"
type_synonym u64 = "64 word"
type_synonym bytes = "byte list"

text \<open>A fixed byte array \<^verbatim>\<open>[u8; N]\<close> is the word of \<open>8 * N\<close> bits whose big-endian bytes it holds:
  every array of that length is exactly one such word (\<open>from_be_bytes_to_be\<close> and
  \<open>to_be_bytes_from_be\<close>), and the derived order of the array is the order of the words.\<close>

type_synonym bytes32 = "256 word"
type_synonym bytes33 = "264 word"
type_synonym bytes64 = "512 word"

datatype ('a, 'e) result = Ok 'a | Err 'e

named_theorems result_elims
named_theorems checked_arith
named_theorems codec_simps
named_theorems codec_dests
named_theorems codec_lengths
named_theorems codec_bounds

section \<open>Results\<close>

definition and_then :: "('a, 'e) result \<Rightarrow> ('a \<Rightarrow> ('b, 'e) result) \<Rightarrow> ('b, 'e) result" where
  "and_then m k = (case m of Ok x \<Rightarrow> k x | Err e \<Rightarrow> Err e)"

definition map_err :: "('e \<Rightarrow> 'f) \<Rightarrow> ('a, 'e) result \<Rightarrow> ('a, 'f) result" where
  "map_err f m = (case m of Ok x \<Rightarrow> Ok x | Err e \<Rightarrow> Err (f e))"

definition ok_or :: "'e \<Rightarrow> 'a option \<Rightarrow> ('a, 'e) result" where
  "ok_or e m = (case m of Some x \<Rightarrow> Ok x | None \<Rightarrow> Err e)"

definition ensure :: "bool \<Rightarrow> 'e \<Rightarrow> (unit, 'e) result" where
  "ensure b e = (if b then Ok () else Err e)"

definition is_ok :: "('a, 'e) result \<Rightarrow> bool" where
  "is_ok m = (case m of Ok x \<Rightarrow> True | Err e \<Rightarrow> False)"

text \<open>A loop that runs a fallible step over a list and stops at the first error.\<close>

fun try_fold :: "('s \<Rightarrow> 'a \<Rightarrow> ('s, 'e) result) \<Rightarrow> 's \<Rightarrow> 'a list \<Rightarrow> ('s, 'e) result" where
  "try_fold f s [] = Ok s"
| "try_fold f s (x # xs) = and_then (f s x) (\<lambda>s'. try_fold f s' xs)"

fun try_map :: "('a \<Rightarrow> ('b, 'e) result) \<Rightarrow> 'a list \<Rightarrow> ('b list, 'e) result" where
  "try_map f [] = Ok []"
| "try_map f (x # xs) = and_then (f x) (\<lambda>y. and_then (try_map f xs) (\<lambda>ys. Ok (y # ys)))"

section \<open>Checked arithmetic\<close>

definition checked_add :: "u64 \<Rightarrow> u64 \<Rightarrow> u64 option" where
  "checked_add a b = (if unat a + unat b < 2 ^ 64 then Some (a + b) else None)"

definition checked_sub :: "u64 \<Rightarrow> u64 \<Rightarrow> u64 option" where
  "checked_sub a b = (if b \<le> a then Some (a - b) else None)"

definition checked_mul :: "u64 \<Rightarrow> u64 \<Rightarrow> u64 option" where
  "checked_mul a b = (if unat a * unat b < 2 ^ 64 then Some (a * b) else None)"

definition saturating_add :: "u64 \<Rightarrow> u64 \<Rightarrow> u64" where
  "saturating_add a b = (if unat a + unat b < 2 ^ 64 then a + b else - 1)"

definition saturating_sub :: "u64 \<Rightarrow> u64 \<Rightarrow> u64" where
  "saturating_sub a b = (if b \<le> a then a - b else 0)"

text \<open>\<^verbatim>\<open>u64::try_from(n).unwrap_or(u64::MAX)\<close> of a \<^verbatim>\<open>usize\<close>.\<close>

definition u64_of_usize :: "nat \<Rightarrow> u64" where
  "u64_of_usize n = (if n < 2 ^ 64 then of_nat n else - 1)"

fun checked_sum :: "('a \<Rightarrow> u64) \<Rightarrow> u64 \<Rightarrow> 'a list \<Rightarrow> u64 option" where
  "checked_sum f acc [] = Some acc"
| "checked_sum f acc (x # xs) = (case checked_add acc (f x) of None \<Rightarrow> None | Some t \<Rightarrow> checked_sum f t xs)"

section \<open>Big-endian bytes\<close>

primrec be_of_nat :: "nat \<Rightarrow> nat \<Rightarrow> bytes" where
  "be_of_nat 0 m = []"
| "be_of_nat (Suc n) m = be_of_nat n (m div 256) @ [of_nat (m mod 256)]"

definition nat_of_be :: "bytes \<Rightarrow> nat" where
  "nat_of_be bs = foldl (\<lambda>a b. 256 * a + unat b) 0 bs"

definition to_be_bytes :: "'a::len word \<Rightarrow> bytes" where
  "to_be_bytes w = be_of_nat (LENGTH('a) div 8) (unat w)"

definition from_be_bytes :: "bytes \<Rightarrow> 'a::len word" where
  "from_be_bytes bs = of_nat (nat_of_be bs)"

definition ascii :: "string \<Rightarrow> bytes" where
  "ascii s = map (\<lambda>c. of_nat (of_char c)) s"

section \<open>Lemmas\<close>

subsection \<open>Results\<close>

lemma and_then_simps [simp]:
  "and_then (Ok x) k = k x"
  "and_then (Err e) k = Err e"
  by (simp_all add: and_then_def)

lemma map_err_simps [simp]:
  "map_err f (Ok x) = Ok x"
  "map_err f (Err e) = Err (f e)"
  by (simp_all add: map_err_def)

lemma ok_or_simps [simp]:
  "ok_or e (Some x) = Ok x"
  "ok_or e None = Err e"
  by (simp_all add: ok_or_def)

lemma is_ok_simps [simp]:
  "is_ok (Ok x)"
  "\<not> is_ok (Err e)"
  by (simp_all add: is_ok_def)

lemma and_then_eq_Ok [result_elims]:
  "and_then m k = Ok y \<longleftrightarrow> (\<exists>x. m = Ok x \<and> k x = Ok y)"
  by (cases m) auto

lemma and_then_eq_Err:
  "and_then m k = Err e \<longleftrightarrow> m = Err e \<or> (\<exists>x. m = Ok x \<and> k x = Err e)"
  by (cases m) auto

lemma and_then_assoc:
  "and_then (and_then m k) h = and_then m (\<lambda>x. and_then (k x) h)"
  by (cases m) auto

lemma map_err_eq_Ok [result_elims]: "map_err f m = Ok y \<longleftrightarrow> m = Ok y"
  by (cases m) auto

lemma ok_or_eq_Ok [result_elims]: "ok_or e m = Ok y \<longleftrightarrow> m = Some y"
  by (cases m) auto

lemma ok_or_eq_Err: "ok_or e m = Err e' \<longleftrightarrow> m = None \<and> e' = e"
  by (cases m) auto

lemma ensure_eq_Ok [result_elims]: "ensure b e = Ok u \<longleftrightarrow> b"
  by (simp add: ensure_def)

lemma if_Err_eq_Ok [result_elims]: "(if b then Err e else m) = Ok y \<longleftrightarrow> \<not> b \<and> m = Ok y"
  by simp

lemma if_Ok_Err_eq_Ok [result_elims]: "(if b then m else Err e) = Ok y \<longleftrightarrow> b \<and> m = Ok y"
  by simp

lemma is_ok_iff: "is_ok m \<longleftrightarrow> (\<exists>x. m = Ok x)"
  by (cases m) auto

lemma try_fold_append:
  "try_fold f s (xs @ ys) = and_then (try_fold f s xs) (\<lambda>s'. try_fold f s' ys)"
  by (induction xs arbitrary: s) (simp_all add: and_then_assoc)

text \<open>The rule of a loop invariant: what every step keeps, the loop keeps.\<close>

lemma try_fold_invariant:
  assumes "try_fold f s xs = Ok s'" and "P s"
    and "\<And>s x s'. \<lbrakk>P s; x \<in> set xs; f s x = Ok s'\<rbrakk> \<Longrightarrow> P s'"
  shows "P s'"
  using assms
proof (induction xs arbitrary: s)
  case (Cons x xs)
  from Cons.prems(1) obtain t where t: "f s x = Ok t" "try_fold f t xs = Ok s'"
    by (auto simp: and_then_eq_Ok)
  have "P t" by (rule Cons.prems(3) [OF Cons.prems(2) _ t(1)]) simp
  with t(2) show ?case by (rule Cons.IH) (rule Cons.prems(3), simp_all)
qed simp

lemma try_map_Ok_iff:
  "try_map f xs = Ok ys \<longleftrightarrow> list_all2 (\<lambda>x y. f x = Ok y) xs ys"
proof (induction xs arbitrary: ys)
  case (Cons x xs) show ?case by (cases ys) (simp_all add: and_then_eq_Ok Cons)
qed auto

subsection \<open>Checked arithmetic\<close>

lemma unat_u64_less: "unat (w :: u64) < 2 ^ 64"
  using unsigned_less [of w, where 'a = nat] by simp

lemma unat_byte_less: "unat (b :: byte) < 256"
  using unsigned_less [of b, where 'a = nat] by simp

lemma checked_add_Some [checked_arith]:
  "checked_add a b = Some c \<Longrightarrow> unat c = unat a + unat b"
  by (auto simp: checked_add_def unat_word_ariths split: if_splits)

lemma checked_add_None: "checked_add a b = None \<longleftrightarrow> 2 ^ 64 \<le> unat a + unat b"
  by (auto simp: checked_add_def)

lemma checked_add_iff: "checked_add a b = Some c \<longleftrightarrow> unat c = unat a + unat b"
proof
  assume *: "unat c = unat a + unat b"
  then have "unat a + unat b < 2 ^ 64" using unat_u64_less [of c] by simp
  moreover have "c = a + b" using * calculation by (simp add: word_unat_eq_iff unat_word_ariths)
  ultimately show "checked_add a b = Some c" by (simp add: checked_add_def)
qed (rule checked_add_Some)

lemma checked_sub_Some [checked_arith]:
  "checked_sub a b = Some c \<Longrightarrow> unat a = unat c + unat b"
  by (auto simp: checked_sub_def unat_sub word_le_nat_alt split: if_splits)

lemma checked_sub_None: "checked_sub a b = None \<longleftrightarrow> unat a < unat b"
  by (auto simp: checked_sub_def word_le_nat_alt)

lemma checked_sub_iff: "checked_sub a b = Some c \<longleftrightarrow> unat a = unat c + unat b"
proof
  assume *: "unat a = unat c + unat b"
  then have "b \<le> a" by (simp add: word_le_nat_alt)
  moreover have "a = c + b" using * unat_u64_less [of a] by (simp add: word_unat_eq_iff unat_word_ariths)
  ultimately show "checked_sub a b = Some c" by (simp add: checked_sub_def)
qed (rule checked_sub_Some)

lemma checked_mul_Some [checked_arith]:
  "checked_mul a b = Some c \<Longrightarrow> unat c = unat a * unat b"
  by (auto simp: checked_mul_def unat_word_ariths split: if_splits)

lemma checked_mul_None: "checked_mul a b = None \<longleftrightarrow> 2 ^ 64 \<le> unat a * unat b"
  by (auto simp: checked_mul_def)

lemma unat_saturating_add: "unat (saturating_add a b) = min (unat a + unat b) (2 ^ 64 - 1)"
  by (auto simp: saturating_add_def unat_word_ariths unsigned_minus_1_eq_mask mask_eq_exp_minus_1)

lemma unat_saturating_sub: "unat (saturating_sub a b) = unat a - unat b"
  by (auto simp: saturating_sub_def unat_sub word_le_nat_alt)

lemma checked_sum_Some_iff:
  "checked_sum f acc xs = Some t \<longleftrightarrow> unat t = unat acc + (\<Sum>x\<leftarrow>xs. unat (f x))"
proof (induction xs arbitrary: acc)
  case Nil show ?case by (auto simp: word_unat_eq_iff)
next
  case (Cons x xs)
  show ?case
  proof (cases "checked_add acc (f x)")
    case None
    then have "2 ^ 64 \<le> unat acc + unat (f x)" by (simp add: checked_add_None)
    then show ?thesis using None unat_u64_less [of t] by simp
  next
    case (Some u) then show ?thesis using Cons checked_add_Some [OF Some] by (simp add: add.assoc)
  qed
qed

lemma checked_sum_Some [checked_arith]:
  "checked_sum f acc xs = Some t \<Longrightarrow> unat t = unat acc + (\<Sum>x\<leftarrow>xs. unat (f x))"
  by (simp add: checked_sum_Some_iff)

lemma checked_sum_None:
  "checked_sum f acc xs = None \<longleftrightarrow> 2 ^ 64 \<le> unat acc + (\<Sum>x\<leftarrow>xs. unat (f x))"
proof (cases "checked_sum f acc xs")
  case None
  let ?s = "unat acc + (\<Sum>x\<leftarrow>xs. unat (f x))"
  have "checked_sum f acc xs = Some (of_nat ?s)" if "?s < 2 ^ 64"
    using that unfolding checked_sum_Some_iff by (simp del: of_nat_add add: unat_of_nat)
  then show ?thesis using None by (auto simp: not_less [symmetric])
next
  case (Some t) then show ?thesis using checked_sum_Some [OF Some] unat_u64_less [of t] by simp
qed

subsection \<open>Big-endian bytes\<close>

lemma length_be_of_nat [simp]: "length (be_of_nat n m) = n"
  by (induction n arbitrary: m) simp_all

lemma be_of_nat_numeral [simp]:
  "be_of_nat (numeral k) m = be_of_nat (pred_numeral k) (m div 256) @ [of_nat (m mod 256)]"
  by (simp add: numeral_eq_Suc [of k])

lemma nat_of_be_snoc [simp]: "nat_of_be (bs @ [b]) = 256 * nat_of_be bs + unat b"
  by (simp add: nat_of_be_def)

lemma nat_of_be_Nil [simp]: "nat_of_be [] = 0"
  by (simp add: nat_of_be_def)

lemma nat_of_be_bound: "nat_of_be bs < 256 ^ length bs"
proof (induction bs rule: rev_induct)
  case (snoc b bs)
  have "unat b < 256" using unat_byte_less [of b] by simp
  with snoc show ?case by simp
qed simp

lemma nat_of_be_of_nat: "nat_of_be (be_of_nat n m) = m mod 256 ^ n"
proof (induction n arbitrary: m)
  case (Suc n)
  have "unat (of_nat (m mod 256) :: byte) = m mod 256"
    by (simp add: unat_of_nat)
  then show ?case by (simp add: Suc mod_mult2_eq)
qed simp

lemma be_of_nat_of_be: "be_of_nat (length bs) (nat_of_be bs) = bs"
proof (induction bs rule: rev_induct)
  case (snoc b bs)
  have "unat b < 256" using unat_byte_less [of b] by simp
  with snoc show ?case by simp
qed simp

lemma length_to_be_bytes: "length (to_be_bytes (w :: 'a::len word)) = LENGTH('a) div 8"
  by (simp add: to_be_bytes_def)

lemma from_be_bytes_to_be:
  fixes w :: "'a::len word"
  assumes "8 dvd LENGTH('a)"
  shows "from_be_bytes (to_be_bytes w) = w"
proof -
  obtain k where k: "LENGTH('a) = 8 * k" using assms by (auto elim: dvdE)
  have "(256::nat) ^ (LENGTH('a) div 8) = 2 ^ LENGTH('a)" by (simp add: k power_mult)
  then show ?thesis
    using unsigned_less [of w, where 'a = nat] by (simp add: from_be_bytes_def to_be_bytes_def nat_of_be_of_nat)
qed

lemma to_be_bytes_from_be:
  fixes bs :: bytes
  assumes "8 dvd LENGTH('a::len)" and "length bs = LENGTH('a) div 8"
  shows "to_be_bytes (from_be_bytes bs :: 'a word) = bs"
proof -
  obtain k where k: "LENGTH('a) = 8 * k" using assms(1) by (auto elim: dvdE)
  have "nat_of_be bs < 2 ^ LENGTH('a)"
    using nat_of_be_bound [of bs] assms(2) by (simp add: k power_mult)
  then show ?thesis
    using be_of_nat_of_be [of bs] assms(2) by (simp add: from_be_bytes_def to_be_bytes_def unat_of_nat)
qed

lemma to_be_bytes_inject:
  fixes v w :: "'a::len word"
  assumes "8 dvd LENGTH('a)"
  shows "to_be_bytes v = to_be_bytes w \<longleftrightarrow> v = w"
  by (metis assms from_be_bytes_to_be)

lemma length_ascii [simp]: "length (ascii s) = length s"
  by (simp add: ascii_def)

subsection \<open>Lists\<close>

lemma take_add_append:
  "m + n \<le> length xs \<Longrightarrow> take (m + n) xs = take m xs @ take n (drop m xs)"
  by (simp add: take_add)

lemma add_le_twice: "a \<le> m \<Longrightarrow> b \<le> m \<Longrightarrow> a + b \<le> 2 * (m :: nat)"
  by simp

lemma sum_list_unat_map: "(\<Sum>x\<leftarrow>map g xs. f x) = (\<Sum>x\<leftarrow>xs. f (g x))"
  by (simp add: comp_def)

end
