(* ===== verification/Kernel_Canonical.thy ===== *)
theory Kernel_Canonical
  imports Kernel_Prelude
begin

text \<open>Canonical byte encoding (src/crates/kernel/src/canonical.rs): envelopes, the primitive codecs,
  options and bounded lists, and the interface every codec of the kernel satisfies.

  An \<^verbatim>\<open>Encode\<close> implementation is modelled by the bytes it streams to its writer, its
  \<^verbatim>\<open>encoded_size\<close> and its \<^verbatim>\<open>MAX_ENCODED_SIZE\<close>; a \<^verbatim>\<open>Decode\<close> implementation by a function from a buffer to the
  value and the number of bytes consumed. The locale \<open>codec\<close> states what the pair promises: decoding
  inverts encoding whatever follows, a successful decode consumed exactly the encoding of its result
  (so a value has one encoding), and the reported sizes are the true ones.\<close>

section \<open>Definitions\<close>

definition ENVELOPE_SIZE :: nat where "ENVELOPE_SIZE = 2"
definition FORMAT_VERSION :: byte where "FORMAT_VERSION = 1"

subsection \<open>Type tags\<close>

definition TAG_BLOCK_HEIGHT :: byte where "TAG_BLOCK_HEIGHT = 1"
definition TAG_FEES :: byte where "TAG_FEES = 2"
definition TAG_PARTIES :: byte where "TAG_PARTIES = 3"
definition TAG_COIN :: byte where "TAG_COIN = 4"
definition TAG_EDGE :: byte where "TAG_EDGE = 5"
definition TAG_FUNDING :: byte where "TAG_FUNDING = 6"
definition TAG_PAYOUT :: byte where "TAG_PAYOUT = 7"
definition TAG_WEBAUTHN_ASSERTION :: byte where "TAG_WEBAUTHN_ASSERTION = 9"
definition TAG_AUTH :: byte where "TAG_AUTH = 10"
definition TAG_TERMS :: byte where "TAG_TERMS = 11"
definition TAG_PROOF :: byte where "TAG_PROOF = 12"
definition TAG_TX :: byte where "TAG_TX = 13"
definition TAG_EARNED_CERTIFICATE :: byte where "TAG_EARNED_CERTIFICATE = 20"
definition TAG_PAYMENT_CLOSE_START :: byte where "TAG_PAYMENT_CLOSE_START = 21"
definition TAG_PAYMENT_CLOSE_RESPONSE :: byte where "TAG_PAYMENT_CLOSE_RESPONSE = 22"
definition TAG_PAYMENT_CLOSE_PENDING :: byte where "TAG_PAYMENT_CLOSE_PENDING = 23"
definition TAG_REGISTRY_CHUNK :: byte where "TAG_REGISTRY_CHUNK = 24"
definition TAG_BOND_LEASE :: byte where "TAG_BOND_LEASE = 31"
definition TAG_PARTY_AUTH :: byte where "TAG_PARTY_AUTH = 32"

subsection \<open>Writers\<close>

text \<open>A writer over a fixed buffer; \<open>None\<close> is the panic on a buffer that is too small.\<close>

record buffer_writer =
  bw_buf :: bytes
  bw_pos :: nat

definition buffer_writer_new :: "bytes \<Rightarrow> buffer_writer" where
  "buffer_writer_new buf = \<lparr>bw_buf = buf, bw_pos = 0\<rparr>"

definition buffer_write :: "buffer_writer \<Rightarrow> bytes \<Rightarrow> buffer_writer option" where
  "buffer_write w bs =
    (let end = bw_pos w + length bs in
     if length (bw_buf w) < end then None
     else Some \<lparr>bw_buf = take (bw_pos w) (bw_buf w) @ bs @ drop end (bw_buf w), bw_pos = end\<rparr>)"

definition write_to :: "('a \<Rightarrow> bytes) \<Rightarrow> 'a \<Rightarrow> bytes \<Rightarrow> (bytes \<times> nat) option" where
  "write_to enc x buf = map_option (\<lambda>w. (bw_buf w, bw_pos w)) (buffer_write (buffer_writer_new buf) (enc x))"

subsection \<open>Decoding errors\<close>

datatype decode_error =
    InsufficientBytes nat nat  \<comment> \<open>needed, got\<close>
  | InvalidTag byte
  | InvalidLength nat nat  \<comment> \<open>got, max\<close>
  | InvalidConsumption nat nat  \<comment> \<open>consumed, available\<close>
  | TrailingBytes nat
  | NonCanonical string

type_synonym 'a decoder = "bytes \<Rightarrow> ('a \<times> nat, decode_error) result"

subsection \<open>Envelopes and fields\<close>

definition decode_exact :: "'a decoder \<Rightarrow> bytes \<Rightarrow> ('a, decode_error) result" where
  "decode_exact dec buf =
    and_then (dec buf) (\<lambda>(v, consumed).
      if consumed = length buf then Ok v
      else if consumed < length buf then Err (TrailingBytes (length buf - consumed))
      else Err (InvalidConsumption consumed (length buf)))"

definition decode_fixed :: "nat \<Rightarrow> bytes decoder" where
  "decode_fixed n buf =
    (if length buf < n then Err (InsufficientBytes n (length buf)) else Ok (take n buf, n))"

definition encode_envelope :: "byte \<Rightarrow> bytes" where
  "encode_envelope type_tag = [FORMAT_VERSION, type_tag]"

definition decode_envelope :: "bytes \<Rightarrow> byte \<Rightarrow> (nat, decode_error) result" where
  "decode_envelope buf expected_tag =
    and_then (decode_fixed ENVELOPE_SIZE buf) (\<lambda>(header, consumed).
      case header of
        [] \<Rightarrow> Err (InsufficientBytes ENVELOPE_SIZE 0)
      | version # rest \<Rightarrow>
          if version \<noteq> FORMAT_VERSION then Err (InvalidTag version)
          else (case rest of
              [] \<Rightarrow> Err (InsufficientBytes ENVELOPE_SIZE 1)
            | type_tag # _ \<Rightarrow> if type_tag \<noteq> expected_tag then Err (InvalidTag type_tag) else Ok consumed))"

definition peek_envelope_tag :: "bytes \<Rightarrow> (byte, decode_error) result" where
  "peek_envelope_tag buf =
    and_then (decode_fixed ENVELOPE_SIZE buf) (\<lambda>(header, _).
      case header of
        _ # type_tag # _ \<Rightarrow> Ok type_tag
      | _ \<Rightarrow> Err (InsufficientBytes ENVELOPE_SIZE 1))"

text \<open>\<^verbatim>\<open>decode_field\<close> advances the caller's offset; the model returns the new offset with the value.\<close>

definition decode_field :: "'a decoder \<Rightarrow> bytes \<Rightarrow> nat \<Rightarrow> ('a \<times> nat, decode_error) result" where
  "decode_field dec buf consumed =
    (if length buf < consumed then Err (InvalidConsumption consumed (length buf))
     else let rest = drop consumed buf in
       and_then (dec rest) (\<lambda>(v, field_consumed).
         if length rest < field_consumed then Err (InvalidConsumption field_consumed (length rest))
         else Ok (v, consumed + field_consumed)))"

subsection \<open>Primitive codecs\<close>

definition encode_u8 :: "byte \<Rightarrow> bytes" where "encode_u8 b = [b]"
definition encoded_size_u8 :: "byte \<Rightarrow> nat" where "encoded_size_u8 b = 1"
definition max_encoded_size_u8 :: nat where "max_encoded_size_u8 = 1"

definition decode_u8 :: "byte decoder" where
  "decode_u8 buf = (case buf of [] \<Rightarrow> Err (InsufficientBytes 1 (length buf)) | b # _ \<Rightarrow> Ok (b, 1))"

text \<open>The fixed-width integers and byte arrays all write their big-endian bytes.\<close>

definition encode_word :: "'a::len word \<Rightarrow> bytes" where
  "encode_word w = to_be_bytes w"

definition encoded_size_word :: "'a::len word \<Rightarrow> nat" where
  "encoded_size_word w = LENGTH('a) div 8"

definition decode_word :: "'a::len word decoder" where
  "decode_word buf =
    and_then (decode_fixed (LENGTH('a) div 8) buf) (\<lambda>(bs, n). Ok (from_be_bytes bs, n))"

definition encode_u16 :: "u16 \<Rightarrow> bytes" where "encode_u16 = encode_word"
definition encoded_size_u16 :: "u16 \<Rightarrow> nat" where "encoded_size_u16 n = 2"
definition max_encoded_size_u16 :: nat where "max_encoded_size_u16 = 2"
definition decode_u16 :: "u16 decoder" where
  "decode_u16 buf = (if length buf < 2 then Err (InsufficientBytes 2 (length buf))
     else Ok (from_be_bytes (take 2 buf), 2))"

definition encode_u32 :: "u32 \<Rightarrow> bytes" where "encode_u32 = encode_word"
definition encoded_size_u32 :: "u32 \<Rightarrow> nat" where "encoded_size_u32 n = 4"
definition max_encoded_size_u32 :: nat where "max_encoded_size_u32 = 4"
definition decode_u32 :: "u32 decoder" where
  "decode_u32 buf = (if length buf < 4 then Err (InsufficientBytes 4 (length buf))
     else Ok (from_be_bytes (take 4 buf), 4))"

definition encode_u64 :: "u64 \<Rightarrow> bytes" where "encode_u64 = encode_word"
definition encoded_size_u64 :: "u64 \<Rightarrow> nat" where "encoded_size_u64 n = 8"
definition max_encoded_size_u64 :: nat where "max_encoded_size_u64 = 8"
definition decode_u64 :: "u64 decoder" where
  "decode_u64 buf = (if length buf < 8 then Err (InsufficientBytes 8 (length buf))
     else Ok (from_be_bytes (take 8 buf), 8))"

text \<open>\<^verbatim>\<open>usize\<close> is written as a \<^verbatim>\<open>u64\<close>; on the 64-bit targets its values are the naturals below \<open>2 ^ 64\<close>.\<close>

definition encode_usize :: "nat \<Rightarrow> bytes" where "encode_usize n = encode_u64 (u64_of_usize n)"
definition encoded_size_usize :: "nat \<Rightarrow> nat" where "encoded_size_usize n = 8"
definition max_encoded_size_usize :: nat where "max_encoded_size_usize = 8"
definition decode_usize :: "nat decoder" where
  "decode_usize buf = and_then (decode_u64 buf) (\<lambda>(v, consumed). Ok (unat v, consumed))"

subsection \<open>Options and bounded lists\<close>

definition ABSENT :: byte where "ABSENT = 0"
definition PRESENT :: byte where "PRESENT = 1"

fun encode_option :: "('a \<Rightarrow> bytes) \<Rightarrow> 'a option \<Rightarrow> bytes" where
  "encode_option enc None = encode_u8 ABSENT"
| "encode_option enc (Some x) = encode_u8 PRESENT @ enc x"

fun encoded_size_option :: "('a \<Rightarrow> nat) \<Rightarrow> 'a option \<Rightarrow> nat" where
  "encoded_size_option sz None = max_encoded_size_u8"
| "encoded_size_option sz (Some x) = max_encoded_size_u8 + sz x"

definition max_encoded_size_option :: "nat \<Rightarrow> nat" where
  "max_encoded_size_option max_size = max_encoded_size_u8 + max_size"

definition decode_option :: "'a decoder \<Rightarrow> 'a option decoder" where
  "decode_option dec buf =
    and_then (decode_field decode_u8 buf 0) (\<lambda>(flag, consumed).
      if flag = ABSENT then Ok (None, consumed)
      else if flag = PRESENT then
        and_then (decode_field dec buf consumed) (\<lambda>(v, consumed). Ok (Some v, consumed))
      else Err (InvalidTag flag))"

definition encode_list :: "('a \<Rightarrow> bytes) \<Rightarrow> 'a list \<Rightarrow> bytes" where
  "encode_list enc xs = encode_usize (length xs) @ concat (map enc xs)"

definition encoded_size_list :: "('a \<Rightarrow> nat) \<Rightarrow> 'a list \<Rightarrow> nat" where
  "encoded_size_list sz xs = foldl (\<lambda>s x. s + sz x) max_encoded_size_usize xs"

definition max_encoded_size_list :: "nat \<Rightarrow> nat \<Rightarrow> nat" where
  "max_encoded_size_list N max_size = max_encoded_size_usize + N * max_size"

fun decode_items :: "'a decoder \<Rightarrow> bytes \<Rightarrow> nat \<Rightarrow> nat \<Rightarrow> ('a list \<times> nat, decode_error) result" where
  "decode_items dec buf 0 consumed = Ok ([], consumed)"
| "decode_items dec buf (Suc n) consumed =
    and_then (decode_field dec buf consumed) (\<lambda>(x, consumed).
      and_then (decode_items dec buf n consumed) (\<lambda>(xs, consumed). Ok (x # xs, consumed)))"

definition decode_list :: "nat \<Rightarrow> 'a decoder \<Rightarrow> 'a list decoder" where
  "decode_list N dec buf =
    and_then (decode_usize buf) (\<lambda>(len, consumed).
      if N < len then Err (InvalidLength len N) else decode_items dec buf len consumed)"

section \<open>The codec interface\<close>

locale codec =
  fixes enc :: "'a \<Rightarrow> bytes"
    and dec :: "'a decoder"
    and size_of :: "'a \<Rightarrow> nat"
    and max_size :: nat
    and wf :: "'a \<Rightarrow> bool"
  assumes round_trip: "wf x \<Longrightarrow> dec (enc x @ rest) = Ok (x, length (enc x))"
    and canonical: "dec buf = Ok (x, n) \<Longrightarrow> wf x \<and> n \<le> length buf \<and> take n buf = enc x"
    and sized: "wf x \<Longrightarrow> length (enc x) = size_of x"
    and bounded: "wf x \<Longrightarrow> size_of x \<le> max_size"
begin

lemma round_trip_end: "wf x \<Longrightarrow> dec (enc x) = Ok (x, length (enc x))"
  using round_trip [of x "[]"] by simp

lemma field_canonical:
  assumes "decode_field dec buf c = Ok (x, c')"
  shows "wf x \<and> c \<le> c' \<and> c' \<le> length buf \<and> take c' buf = take c buf @ enc x"
proof -
  from assms obtain n where n: "dec (drop c buf) = Ok (x, n)" "c' = c + n" "c \<le> length buf"
    by (auto simp: decode_field_def Let_def and_then_eq_Ok split: if_splits)
  with canonical [OF n(1)] show ?thesis by (auto simp: take_add_append)
qed

lemma exact_iff: "decode_exact dec buf = Ok x \<longleftrightarrow> wf x \<and> buf = enc x"
proof
  assume "decode_exact dec buf = Ok x"
  then have "dec buf = Ok (x, length buf)"
    by (auto simp: decode_exact_def and_then_eq_Ok split: if_splits)
  then show "wf x \<and> buf = enc x" using canonical by fastforce
qed (simp add: decode_exact_def round_trip_end)

lemma exact_round_trip: "wf x \<Longrightarrow> decode_exact dec (enc x) = Ok x"
  by (simp add: exact_iff)

lemma exact_trailing:
  assumes "wf x" and "rest \<noteq> []"
  shows "decode_exact dec (enc x @ rest) = Err (TrailingBytes (length rest))"
  using assms by (simp add: decode_exact_def round_trip)

lemma prefix_free:
  assumes "wf x" "wf y" "enc x @ r = enc y @ s"
  shows "x = y \<and> r = s"
  using round_trip [OF assms(1), of r] round_trip [OF assms(2), of s] assms(3) by auto

lemma enc_inj: "wf x \<Longrightarrow> wf y \<Longrightarrow> enc x = enc y \<Longrightarrow> x = y"
  using prefix_free [of x y "[]" "[]"] by simp

lemma enc_le: "wf x \<Longrightarrow> length (enc x) \<le> max_size"
  using sized bounded by simp

lemma write_to_fits:
  assumes "wf x" and "max_size \<le> length buf"
  shows "write_to enc x buf = Some (enc x @ drop (size_of x) buf, size_of x)"
  using assms enc_le [OF assms(1)]
  by (simp add: write_to_def buffer_write_def buffer_writer_new_def Let_def sized [OF assms(1)])

lemma items_round_trip:
  assumes "list_all wf xs" and "drop c buf = concat (map enc xs) @ rest" and "c \<le> length buf"
  shows "decode_items dec buf (length xs) c = Ok (xs, c + length (concat (map enc xs)))"
  using assms
proof (induction xs arbitrary: c)
  case (Cons x xs)
  let ?c = "c + length (enc x)"
  from Cons.prems have d: "drop c buf = enc x @ concat (map enc xs) @ rest" and w: "wf x" "list_all wf xs"
    by simp_all
  have le: "?c \<le> length buf" using arg_cong [OF d, of length] Cons.prems(3) by simp
  have "drop ?c buf = drop (length (enc x)) (drop c buf)" by (simp add: add.commute)
  then have "drop ?c buf = concat (map enc xs) @ rest" unfolding d by simp
  then have "decode_items dec buf (length xs) ?c = Ok (xs, ?c + length (concat (map enc xs)))"
    using Cons.IH w le by blast
  moreover have "decode_field dec buf c = Ok (x, ?c)"
    using Cons.prems(3) unfolding decode_field_def d Let_def round_trip [OF w(1)] by simp
  ultimately show ?case by (simp add: add.assoc)
qed simp

lemma items_canonical:
  assumes "decode_items dec buf n c = Ok (xs, c')"
  shows "list_all wf xs \<and> length xs = n \<and> c \<le> c' \<and> (c \<le> length buf \<longrightarrow> c' \<le> length buf)
    \<and> take c' buf = take c buf @ concat (map enc xs)"
  using assms
proof (induction n arbitrary: c xs)
  case (Suc n)
  then obtain x c1 ys where f: "decode_field dec buf c = Ok (x, c1)"
    and i: "decode_items dec buf n c1 = Ok (ys, c')" and xs: "xs = x # ys"
    by (auto simp: and_then_eq_Ok)
  show ?case using field_canonical [OF f] Suc.IH [OF i] by (auto simp: xs)
qed simp

end

section \<open>Lemmas\<close>

lemma encode_envelope_length [simp]: "length (encode_envelope t) = ENVELOPE_SIZE"
  by (simp add: encode_envelope_def ENVELOPE_SIZE_def)

lemma decode_envelope_encode [codec_simps]:
  "decode_envelope (encode_envelope t @ rest) t = Ok ENVELOPE_SIZE"
  by (simp add: decode_envelope_def encode_envelope_def decode_fixed_def ENVELOPE_SIZE_def)

lemma decode_envelope_canonical [codec_dests]:
  assumes "decode_envelope buf t = Ok n"
  shows "n = ENVELOPE_SIZE \<and> n \<le> length buf \<and> take n buf = encode_envelope t"
  using assms
  by (cases buf; cases "tl buf")
    (auto simp: decode_envelope_def encode_envelope_def decode_fixed_def ENVELOPE_SIZE_def and_then_eq_Ok
      split: if_splits)

lemma peek_envelope_tag_encode [simp]: "peek_envelope_tag (encode_envelope t @ rest) = Ok t"
  by (simp add: peek_envelope_tag_def encode_envelope_def decode_fixed_def ENVELOPE_SIZE_def)

lemma envelope_tag_inject [simp]: "encode_envelope s @ r = encode_envelope t @ q \<longleftrightarrow> s = t \<and> r = q"
  by (auto simp: encode_envelope_def)

text \<open>Every type whose codec is its big-endian bytes is an instance of this lemma.\<close>

lemma word_codec:
  assumes "8 dvd LENGTH('a::len)"
    and "\<And>buf. dec buf = (if length buf < LENGTH('a) div 8 then Err (InsufficientBytes (LENGTH('a) div 8) (length buf))
      else Ok (from_be_bytes (take (LENGTH('a) div 8) buf), LENGTH('a) div 8))"
    and "\<And>x. size_of x = LENGTH('a) div 8" and "max_size = LENGTH('a) div 8"
  shows "codec (encode_word :: 'a word \<Rightarrow> bytes) dec size_of max_size (\<lambda>_. True)"
proof
  fix x :: "'a word" and rest buf :: bytes and n
  show "dec (encode_word x @ rest) = Ok (x, length (encode_word x))"
    by (simp add: assms(2) encode_word_def length_to_be_bytes from_be_bytes_to_be assms(1))
  show "True \<and> n \<le> length buf \<and> take n buf = encode_word x" if "dec buf = Ok (x, n)"
    using that by (auto simp: assms(2) encode_word_def to_be_bytes_from_be assms(1) split: if_splits)
qed (simp_all add: assms(3,4) encode_word_def length_to_be_bytes)


interpretation u8_codec: codec encode_u8 decode_u8 encoded_size_u8 max_encoded_size_u8 "\<lambda>_. True"
proof
  fix x n and buf rest :: bytes
  show "decode_u8 (encode_u8 x @ rest) = Ok (x, length (encode_u8 x))"
    by (simp add: decode_u8_def encode_u8_def)
  show "True \<and> n \<le> length buf \<and> take n buf = encode_u8 x" if "decode_u8 buf = Ok (x, n)"
    using that by (auto simp: decode_u8_def encode_u8_def split: list.splits)
qed (simp_all add: encode_u8_def encoded_size_u8_def max_encoded_size_u8_def)

interpretation u16_codec: codec encode_u16 decode_u16 encoded_size_u16 max_encoded_size_u16 "\<lambda>_. True"
  unfolding encode_u16_def
  by (rule word_codec) (simp_all add: decode_u16_def encoded_size_u16_def max_encoded_size_u16_def)

interpretation u32_codec: codec encode_u32 decode_u32 encoded_size_u32 max_encoded_size_u32 "\<lambda>_. True"
  unfolding encode_u32_def
  by (rule word_codec) (simp_all add: decode_u32_def encoded_size_u32_def max_encoded_size_u32_def)

interpretation u64_codec: codec encode_u64 decode_u64 encoded_size_u64 max_encoded_size_u64 "\<lambda>_. True"
  unfolding encode_u64_def
  by (rule word_codec) (simp_all add: decode_u64_def encoded_size_u64_def max_encoded_size_u64_def)

lemma unat_u64_of_usize: "n < 2 ^ 64 \<Longrightarrow> unat (u64_of_usize n) = n"
  by (simp add: u64_of_usize_def unat_of_nat)

lemma u64_of_usize_unat [simp]: "u64_of_usize (unat v) = v"
  using unat_u64_less [of v] by (simp add: u64_of_usize_def)

interpretation usize_codec: codec encode_usize decode_usize encoded_size_usize max_encoded_size_usize "\<lambda>n. n < 2 ^ 64"
proof
  fix x n :: nat and buf rest :: bytes
  show "decode_usize (encode_usize x @ rest) = Ok (x, length (encode_usize x))" if "x < 2 ^ 64"
    using that by (simp add: decode_usize_def encode_usize_def u64_codec.round_trip unat_u64_of_usize del: unat_of_nat)
  show "x < 2 ^ 64 \<and> n \<le> length buf \<and> take n buf = encode_usize x" if d: "decode_usize buf = Ok (x, n)"
  proof -
    from d obtain v where v: "decode_u64 buf = Ok (v, n)" and x: "x = unat v"
      by (auto simp: decode_usize_def and_then_eq_Ok)
    show ?thesis using u64_codec.canonical [OF v] unat_u64_less [of v] by (simp add: x encode_usize_def)
  qed
qed (simp_all add: encode_usize_def encoded_size_usize_def max_encoded_size_usize_def
    u64_codec.sized encoded_size_u64_def)

lemmas primitive_round_trips [codec_simps] =
  u8_codec.round_trip u16_codec.round_trip u32_codec.round_trip u64_codec.round_trip usize_codec.round_trip

lemmas primitive_canonical [codec_dests] =
  u8_codec.field_canonical u16_codec.field_canonical u32_codec.field_canonical
  u64_codec.field_canonical usize_codec.field_canonical

lemmas primitive_lengths [codec_lengths] =
  u8_codec.sized u16_codec.sized u32_codec.sized u64_codec.sized usize_codec.sized

lemmas primitive_sizes =
  encoded_size_u8_def max_encoded_size_u8_def encoded_size_u16_def max_encoded_size_u16_def
  encoded_size_u32_def max_encoded_size_u32_def encoded_size_u64_def max_encoded_size_u64_def
  encoded_size_usize_def max_encoded_size_usize_def ENVELOPE_SIZE_def

lemma encoded_size_list_eq: "encoded_size_list sz xs = max_encoded_size_usize + (\<Sum>x\<leftarrow>xs. sz x)"
proof -
  have "foldl (\<lambda>s x. s + sz x) a xs = a + (\<Sum>x\<leftarrow>xs. sz x)" for a
    by (induction xs arbitrary: a) simp_all
  then show ?thesis by (simp add: encoded_size_list_def)
qed

context codec
begin

lemma option_codec:
  "codec (encode_option enc) (decode_option dec) (encoded_size_option size_of)
    (max_encoded_size_option max_size) (pred_option wf)"
proof
  fix x n and buf rest :: bytes
  show "decode_option dec (encode_option enc x @ rest) = Ok (x, length (encode_option enc x))"
    if "pred_option wf x"
    using that by (cases x)
      (simp_all add: decode_option_def decode_field_def codec_simps round_trip ABSENT_def PRESENT_def)
  show "pred_option wf x \<and> n \<le> length buf \<and> take n buf = encode_option enc x"
    if "decode_option dec buf = Ok (x, n)"
    using that
    by (auto simp: decode_option_def and_then_eq_Ok split: if_splits
        dest!: u8_codec.field_canonical field_canonical)
  show "length (encode_option enc x) = encoded_size_option size_of x" if "pred_option wf x"
    using that by (cases x) (simp_all add: encode_u8_def max_encoded_size_u8_def sized)
  show "encoded_size_option size_of x \<le> max_encoded_size_option max_size" if "pred_option wf x"
    using that by (cases x) (simp_all add: max_encoded_size_option_def bounded)
qed

lemma list_codec:
  assumes N: "N < 2 ^ 64"
  shows "codec (encode_list enc) (decode_list N dec) (encoded_size_list size_of)
    (max_encoded_size_list N max_size) (\<lambda>xs. length xs \<le> N \<and> list_all wf xs)"
proof
  fix xs n and buf rest :: bytes
  show "decode_list N dec (encode_list enc xs @ rest) = Ok (xs, length (encode_list enc xs))"
    if "length xs \<le> N \<and> list_all wf xs"
    using that N items_round_trip [of xs "length (encode_usize (length xs))" "encode_list enc xs @ rest" rest]
    by (simp add: decode_list_def encode_list_def codec_simps)
  show "(length xs \<le> N \<and> list_all wf xs) \<and> n \<le> length buf \<and> take n buf = encode_list enc xs"
    if d: "decode_list N dec buf = Ok (xs, n)"
  proof -
    from d obtain len c where h: "decode_usize buf = Ok (len, c)" "len \<le> N"
      and i: "decode_items dec buf len c = Ok (xs, n)"
      by (auto simp: decode_list_def and_then_eq_Ok split: if_splits)
    show ?thesis using usize_codec.canonical [OF h(1)] items_canonical [OF i] h(2) by (simp add: encode_list_def)
  qed
  show "length (encode_list enc xs) = encoded_size_list size_of xs" if "length xs \<le> N \<and> list_all wf xs"
    using that N sized
    by (auto simp: encode_list_def encoded_size_list_eq length_concat codec_lengths list_all_iff primitive_sizes
        comp_def intro!: arg_cong [where f = sum_list])
  show "encoded_size_list size_of xs \<le> max_encoded_size_list N max_size" if w: "length xs \<le> N \<and> list_all wf xs"
  proof -
    have "(\<Sum>x\<leftarrow>xs. size_of x) \<le> (\<Sum>x\<leftarrow>xs. max_size)"
      using w bounded by (intro sum_list_mono) (simp add: list_all_iff)
    also have "\<dots> \<le> N * max_size" using w by (simp add: sum_list_triv)
    finally show ?thesis by (simp add: encoded_size_list_eq max_encoded_size_list_def)
  qed
qed

end

end
