(* ===== verification/Xet_Hash.thy ===== *)
theory Xet_Hash
  imports Kernel_Prelude
begin

text \<open>The Xet hash the kernel commits with (src/crates/xet/src/lib.rs): the keys, the chunk hash and the
  allocation-free \<^verbatim>\<open>SingleChunkHasher\<close>. BLAKE3 is not part of the repository, so its keyed hash is a
  parameter \<open>b3\<close>, a function of the 32-byte key and the message; the incremental hasher is the bytes it
  has absorbed, which is what its \<^verbatim>\<open>update\<close> is documented to do. No theorem assumes anything of \<open>b3\<close>
  unless it says so.\<close>

section \<open>Definitions\<close>

type_synonym blake3 = "bytes32 \<Rightarrow> bytes \<Rightarrow> bytes32"
type_synonym xet_hash = bytes32

definition DATA_KEY :: bytes32 where
  "DATA_KEY = from_be_bytes
    [102, 151, 245, 119, 91, 149, 80, 222, 49, 53, 203, 172, 165, 151, 24, 28, 157, 228, 33, 16,
     155, 235, 43, 88, 180, 208, 176, 75, 147, 173, 242, 41]"

definition INTERNAL_NODE_KEY :: bytes32 where
  "INTERNAL_NODE_KEY = from_be_bytes
    [1, 126, 197, 199, 165, 71, 41, 150, 253, 148, 102, 102, 180, 138, 2, 230, 93, 221, 83, 111, 55,
     199, 109, 210, 248, 99, 82, 230, 74, 83, 113, 63]"

definition ZERO_KEY :: bytes32 where "ZERO_KEY = 0"
definition MIN_CHUNK_SIZE :: nat where "MIN_CHUNK_SIZE = 8 * 1024"
definition XET_HASH_ZERO :: xet_hash where "XET_HASH_ZERO = 0"

definition chunk_hash :: "blake3 \<Rightarrow> bytes \<Rightarrow> xet_hash" where
  "chunk_hash b3 bs = b3 DATA_KEY bs"

record single_chunk_hasher =
  sch_leaf :: bytes
  sch_len :: nat

definition sch_new :: single_chunk_hasher where
  "sch_new = \<lparr>sch_leaf = [], sch_len = 0\<rparr>"

text \<open>\<open>None\<close> is the panic of the assertion.\<close>

definition sch_update :: "single_chunk_hasher \<Rightarrow> bytes \<Rightarrow> single_chunk_hasher option" where
  "sch_update h bs =
    (if sch_len h < MIN_CHUNK_SIZE \<and> length bs < MIN_CHUNK_SIZE - sch_len h
     then Some \<lparr>sch_leaf = sch_leaf h @ bs, sch_len = sch_len h + length bs\<rparr>
     else None)"

definition sch_finalize :: "blake3 \<Rightarrow> single_chunk_hasher \<Rightarrow> xet_hash" where
  "sch_finalize b3 h =
    (if sch_len h = 0 then XET_HASH_ZERO
     else b3 ZERO_KEY (to_be_bytes (b3 DATA_KEY (sch_leaf h))))"

fun sch_updates :: "single_chunk_hasher \<Rightarrow> bytes list \<Rightarrow> single_chunk_hasher option" where
  "sch_updates h [] = Some h"
| "sch_updates h (bs # rest) = (case sch_update h bs of None \<Rightarrow> None | Some h' \<Rightarrow> sch_updates h' rest)"

text \<open>The commitment the kernel computes over a complete preimage: a fresh hasher fed the preimage and
  finalized. The kernel feeds it field by field; \<open>sch_updates_commit\<close> shows the two agree for every
  preimage shorter than a chunk and that the assertion then never fires.\<close>

definition xet_commit :: "blake3 \<Rightarrow> bytes \<Rightarrow> xet_hash" where
  "xet_commit b3 bs = sch_finalize b3 \<lparr>sch_leaf = bs, sch_len = length bs\<rparr>"

text \<open>\<^verbatim>\<open>canonical::hash\<close>: the commitment to a domain followed by a value's canonical bytes.\<close>

definition commit_hash :: "blake3 \<Rightarrow> bytes \<Rightarrow> bytes \<Rightarrow> xet_hash" where
  "commit_hash b3 domain canonical_bytes = xet_commit b3 (domain @ canonical_bytes)"

section \<open>Lemmas\<close>

lemma sch_updates_Some:
  assumes "sch_len h = length (sch_leaf h)" and "sch_len h + length (concat parts) < MIN_CHUNK_SIZE"
  shows "sch_updates h parts
    = Some \<lparr>sch_leaf = sch_leaf h @ concat parts, sch_len = sch_len h + length (concat parts)\<rparr>"
  using assms
proof (induction parts arbitrary: h)
  case (Cons p parts)
  let ?h = "\<lparr>sch_leaf = sch_leaf h @ p, sch_len = sch_len h + length p\<rparr>"
  have "sch_update h p = Some ?h" using Cons.prems by (simp add: sch_update_def)
  moreover have "sch_updates ?h parts
    = Some \<lparr>sch_leaf = sch_leaf ?h @ concat parts, sch_len = sch_len ?h + length (concat parts)\<rparr>"
    using Cons.prems by (intro Cons.IH) simp_all
  ultimately show ?case by (simp add: add.assoc)
qed simp

lemma sch_updates_panic:
  assumes "sch_updates h parts = Some h'" and "sch_len h = length (sch_leaf h)"
    and "parts \<noteq> []"
  shows "sch_len h + length (concat parts) < MIN_CHUNK_SIZE"
  using assms
proof (induction parts arbitrary: h)
  case (Cons p parts)
  then obtain h1 where h1: "sch_update h p = Some h1" "sch_updates h1 parts = Some h'"
    by (auto split: option.splits)
  then have l: "sch_len h1 = sch_len h + length p" "sch_len h1 = length (sch_leaf h1)" "sch_len h1 < MIN_CHUNK_SIZE"
    using Cons.prems(2) by (auto simp: sch_update_def split: if_splits)
  show ?case
  proof (cases "parts = []")
    case True then show ?thesis using l by simp
  next
    case False
    then have "sch_len h1 + length (concat parts) < MIN_CHUNK_SIZE" using Cons.IH [OF h1(2) l(2)] by simp
    then show ?thesis using l by simp
  qed
qed simp

lemma sch_updates_commit:
  assumes "length (concat parts) < MIN_CHUNK_SIZE"
  shows "map_option (sch_finalize b3) (sch_updates sch_new parts) = Some (xet_commit b3 (concat parts))"
  using sch_updates_Some [of sch_new parts] assms by (simp add: sch_new_def xet_commit_def)

text \<open>Equal commitments give equal preimages wherever \<open>b3\<close> does not collide: on the two preimages under
  the data key, and on the two leaf hashes under the zero key.\<close>

lemma xet_commit_eq_iff:
  assumes "p \<noteq> []" "q \<noteq> []"
    and "b3 DATA_KEY p = b3 DATA_KEY q \<Longrightarrow> p = q"
    and "b3 ZERO_KEY (to_be_bytes (b3 DATA_KEY p)) = b3 ZERO_KEY (to_be_bytes (b3 DATA_KEY q))
      \<Longrightarrow> b3 DATA_KEY p = b3 DATA_KEY q"
  shows "xet_commit b3 p = xet_commit b3 q \<longleftrightarrow> p = q"
  using assms by (auto simp: xet_commit_def sch_finalize_def)

end
