(* ===== verification/Kernel_Primitive.thy ===== *)
theory Kernel_Primitive
  imports Kernel_Canonical Xet_Hash
begin

text \<open>Byte-level primitives of the kernel: the chain-version constants (consts.rs), keys, object
  identifiers and their derivations (primitive.rs), the network id (network.rs), and the block context
  with its resource pricing (context.rs). All paths are under src/crates/kernel/src/.

  The byte newtypes are words of their width, so \<^verbatim>\<open>Key\<close> is a 264-bit word and every 32-byte identifier
  or commitment a 256-bit one. A \<^verbatim>\<open>NetworkId\<close> is the list of its live bytes, one to sixty-three of them.\<close>

section \<open>Constants\<close>

definition HASH_LENGTH :: nat where "HASH_LENGTH = 32"
definition ID_LENGTH :: nat where "ID_LENGTH = HASH_LENGTH"
definition KEY_LENGTH :: nat where "KEY_LENGTH = 33"
definition P256_COORDINATE_LENGTH :: nat where "P256_COORDINATE_LENGTH = 32"
definition SIG_LENGTH :: nat where "SIG_LENGTH = 64"
definition MAX_WEBAUTHN_DATA_LENGTH :: nat where "MAX_WEBAUTHN_DATA_LENGTH = 2048"
definition MAX_PARTY_INPUTS :: nat where "MAX_PARTY_INPUTS = 4"
definition MAX_EDGE_INPUTS :: nat where "MAX_EDGE_INPUTS = MAX_PARTY_INPUTS * 2"
definition MAX_EDGE_OUTPUTS :: nat where "MAX_EDGE_OUTPUTS = 4"
definition MAX_OMIT_RESPONSE_BLOCKS :: u64 where "MAX_OMIT_RESPONSE_BLOCKS = 4096"
definition RESPONSE_FINALIZATION_BLOCKS :: u64 where "RESPONSE_FINALIZATION_BLOCKS = 2"
definition RESPONSE_POLL_BLOCKS :: u64 where "RESPONSE_POLL_BLOCKS = 4"
definition RESPONSE_PROPAGATION_BLOCKS :: u64 where "RESPONSE_PROPAGATION_BLOCKS = 1"
definition RESPONSE_INCLUSION_BLOCKS :: u64 where "RESPONSE_INCLUSION_BLOCKS = 8"
definition MIN_OMIT_RESPONSE_BLOCKS :: u64 where
  "MIN_OMIT_RESPONSE_BLOCKS = RESPONSE_FINALIZATION_BLOCKS + RESPONSE_POLL_BLOCKS
    + RESPONSE_PROPAGATION_BLOCKS + RESPONSE_INCLUSION_BLOCKS + 1"
definition MAX_START_VALIDITY_BLOCKS :: u64 where "MAX_START_VALIDITY_BLOCKS = 64"
definition MAX_FREEZE_AUTH_BLOCKS :: u64 where "MAX_FREEZE_AUTH_BLOCKS = 64"
definition REGISTRY_CHUNK_DATA_CAPACITY :: nat where "REGISTRY_CHUNK_DATA_CAPACITY = 120"
definition MAX_REGISTRY_CHUNKS :: nat where "MAX_REGISTRY_CHUNKS = 255"
definition MAX_REGISTRY_MUTATIONS :: nat where "MAX_REGISTRY_MUTATIONS = 2"

subsection \<open>Domain separators\<close>

definition COIN_GENESIS :: bytes where "COIN_GENESIS = ascii ''hellas.edge.genesis.v1''"
definition COIN_PAYOUT :: bytes where "COIN_PAYOUT = ascii ''hellas.edge.coin.v1''"
definition EDGE_OPEN :: bytes where "EDGE_OPEN = ascii ''hellas.edge.edge.v1''"
definition OPEN_DOMAIN :: bytes where "OPEN_DOMAIN = ascii ''hellas.edge.open.v1''"
definition CLOSE_DOMAIN :: bytes where "CLOSE_DOMAIN = ascii ''hellas.edge.close.v1''"
definition TERMS_BASIC :: bytes where "TERMS_BASIC = ascii ''hellas.terms.basic.v2''"
definition TERMS_WORK_PAYMENT :: bytes where "TERMS_WORK_PAYMENT = ascii ''hellas.terms.work-payment.v4''"
definition TERMS_WORK_STAKE_BOND :: bytes where
  "TERMS_WORK_STAKE_BOND = ascii ''hellas.terms.work-stake-bond.v4''"
definition WORK_EARNED_CERTIFICATE :: bytes where
  "WORK_EARNED_CERTIFICATE = ascii ''hellas.work.earned-cumulative.v2''"
definition WORK_NO_EARNED_CERTIFICATE :: bytes where
  "WORK_NO_EARNED_CERTIFICATE = ascii ''hellas.work.no-earned-certificate.v2''"
definition WORK_SETTLEMENT_STATE :: bytes where
  "WORK_SETTLEMENT_STATE = ascii ''hellas.work.settlement-state.v2''"
definition WORK_START_PAYMENT_CLOSE :: bytes where
  "WORK_START_PAYMENT_CLOSE = ascii ''hellas.work.start-payment-close.v2''"
definition WORK_START_PAYMENT_CLOSE_ID :: bytes where
  "WORK_START_PAYMENT_CLOSE_ID = ascii ''hellas.work.start-payment-close-id.v2''"
definition WORK_RESPOND_PAYMENT_CLOSE :: bytes where
  "WORK_RESPOND_PAYMENT_CLOSE = ascii ''hellas.work.respond-payment-close.v2''"
definition WORK_ADJUDICATED_PAYMENT_CLOSE :: bytes where
  "WORK_ADJUDICATED_PAYMENT_CLOSE = ascii ''hellas.work.adjudicated-payment-close.v4''"
definition WORK_FREEZE_CLOSE :: bytes where "WORK_FREEZE_CLOSE = ascii ''hellas.work.freeze-close.v2''"
definition OWNER_RESHAPE :: bytes where "OWNER_RESHAPE = ascii ''hellas.owner.reshape.v2''"
definition COIN_RESHAPE :: bytes where "COIN_RESHAPE = ascii ''hellas.owner.coin.v2''"
definition REGISTRY_CHUNK_ID :: bytes where "REGISTRY_CHUNK_ID = ascii ''hellas.registry.chunk-id.v2''"

lemmas domain_defs =
  COIN_GENESIS_def COIN_PAYOUT_def EDGE_OPEN_def OPEN_DOMAIN_def CLOSE_DOMAIN_def TERMS_BASIC_def
  TERMS_WORK_PAYMENT_def TERMS_WORK_STAKE_BOND_def WORK_EARNED_CERTIFICATE_def
  WORK_NO_EARNED_CERTIFICATE_def WORK_SETTLEMENT_STATE_def WORK_START_PAYMENT_CLOSE_def
  WORK_START_PAYMENT_CLOSE_ID_def WORK_RESPOND_PAYMENT_CLOSE_def WORK_ADJUDICATED_PAYMENT_CLOSE_def
  WORK_FREEZE_CLOSE_def OWNER_RESHAPE_def COIN_RESHAPE_def REGISTRY_CHUNK_ID_def

lemmas bound_defs =
  HASH_LENGTH_def ID_LENGTH_def KEY_LENGTH_def P256_COORDINATE_LENGTH_def SIG_LENGTH_def
  MAX_WEBAUTHN_DATA_LENGTH_def MAX_PARTY_INPUTS_def MAX_EDGE_INPUTS_def MAX_EDGE_OUTPUTS_def
  REGISTRY_CHUNK_DATA_CAPACITY_def MAX_REGISTRY_CHUNKS_def MAX_REGISTRY_MUTATIONS_def

section \<open>Keys and identifiers\<close>

type_synonym key = bytes33
type_synonym coin_id = xet_hash
type_synonym edge_id = xet_hash
type_synonym terms_hash = xet_hash
type_synonym payload_hash = xet_hash
type_synonym sig = bytes64
type_synonym protocol_code = byte

definition encode_key :: "key \<Rightarrow> bytes" where "encode_key = encode_word"
definition encoded_size_key :: "key \<Rightarrow> nat" where "encoded_size_key k = KEY_LENGTH"
definition max_encoded_size_key :: nat where "max_encoded_size_key = KEY_LENGTH"
definition decode_key :: "key decoder" where
  "decode_key buf = and_then (decode_fixed KEY_LENGTH buf) (\<lambda>(bs, n). Ok (from_be_bytes bs, n))"

text \<open>A raw \<^verbatim>\<open>[u8; 32]\<close> field.\<close>

definition encode_bytes32 :: "bytes32 \<Rightarrow> bytes" where "encode_bytes32 = encode_word"
definition encoded_size_bytes32 :: "bytes32 \<Rightarrow> nat" where "encoded_size_bytes32 h = 32"
definition max_encoded_size_bytes32 :: nat where "max_encoded_size_bytes32 = 32"
definition decode_bytes32 :: "bytes32 decoder" where
  "decode_bytes32 buf = and_then (decode_fixed 32 buf) (\<lambda>(bs, n). Ok (from_be_bytes bs, n))"

definition encode_coin_id :: "coin_id \<Rightarrow> bytes" where "encode_coin_id = encode_word"
definition encoded_size_coin_id :: "coin_id \<Rightarrow> nat" where "encoded_size_coin_id i = ID_LENGTH"
definition max_encoded_size_coin_id :: nat where "max_encoded_size_coin_id = ID_LENGTH"
definition decode_coin_id :: "coin_id decoder" where
  "decode_coin_id buf = and_then (decode_fixed ID_LENGTH buf) (\<lambda>(bs, n). Ok (from_be_bytes bs, n))"

definition encode_edge_id :: "edge_id \<Rightarrow> bytes" where "encode_edge_id = encode_word"
definition encoded_size_edge_id :: "edge_id \<Rightarrow> nat" where "encoded_size_edge_id i = ID_LENGTH"
definition max_encoded_size_edge_id :: nat where "max_encoded_size_edge_id = ID_LENGTH"
definition decode_edge_id :: "edge_id decoder" where
  "decode_edge_id buf = and_then (decode_fixed ID_LENGTH buf) (\<lambda>(bs, n). Ok (from_be_bytes bs, n))"

definition encode_terms_hash :: "terms_hash \<Rightarrow> bytes" where "encode_terms_hash = encode_word"
definition encoded_size_terms_hash :: "terms_hash \<Rightarrow> nat" where "encoded_size_terms_hash h = HASH_LENGTH"
definition max_encoded_size_terms_hash :: nat where "max_encoded_size_terms_hash = HASH_LENGTH"
definition decode_terms_hash :: "terms_hash decoder" where
  "decode_terms_hash buf = and_then (decode_fixed HASH_LENGTH buf) (\<lambda>(bs, n). Ok (from_be_bytes bs, n))"

definition encode_payload_hash :: "payload_hash \<Rightarrow> bytes" where "encode_payload_hash = encode_word"
definition encoded_size_payload_hash :: "payload_hash \<Rightarrow> nat" where "encoded_size_payload_hash h = HASH_LENGTH"
definition max_encoded_size_payload_hash :: nat where "max_encoded_size_payload_hash = HASH_LENGTH"
definition decode_payload_hash :: "payload_hash decoder" where
  "decode_payload_hash buf = and_then (decode_fixed HASH_LENGTH buf) (\<lambda>(bs, n). Ok (from_be_bytes bs, n))"

definition encode_sig :: "sig \<Rightarrow> bytes" where "encode_sig = encode_word"
definition encoded_size_sig :: "sig \<Rightarrow> nat" where "encoded_size_sig s = SIG_LENGTH"
definition max_encoded_size_sig :: nat where "max_encoded_size_sig = SIG_LENGTH"
definition decode_sig :: "sig decoder" where
  "decode_sig buf = and_then (decode_fixed SIG_LENGTH buf) (\<lambda>(bs, n). Ok (from_be_bytes bs, n))"

definition encode_protocol_code :: "protocol_code \<Rightarrow> bytes" where "encode_protocol_code = encode_u8"
definition encoded_size_protocol_code :: "protocol_code \<Rightarrow> nat" where "encoded_size_protocol_code c = 1"
definition max_encoded_size_protocol_code :: nat where "max_encoded_size_protocol_code = 1"
definition decode_protocol_code :: "protocol_code decoder" where
  "decode_protocol_code buf = and_then (decode_u8 buf) (\<lambda>(b, n). Ok (b, n))"

datatype party = Maker | Taker

fun party_tag :: "party \<Rightarrow> byte" where
  "party_tag Maker = 0"
| "party_tag Taker = 1"

definition party_from_tag :: "byte \<Rightarrow> party option" where
  "party_from_tag t = (if t = 0 then Some Maker else if t = 1 then Some Taker else None)"

definition encode_party :: "party \<Rightarrow> bytes" where "encode_party p = [party_tag p]"
definition encoded_size_party :: "party \<Rightarrow> nat" where "encoded_size_party p = 1"
definition max_encoded_size_party :: nat where "max_encoded_size_party = 1"
definition decode_party :: "party decoder" where
  "decode_party buf =
    and_then (decode_u8 buf) (\<lambda>(byte, consumed).
      ok_or (InvalidTag byte) (map_option (\<lambda>p. (p, consumed)) (party_from_tag byte)))"

section \<open>The network id\<close>

type_synonym network_id = bytes

definition MAX_NETWORK_ID_LENGTH :: nat where "MAX_NETWORK_ID_LENGTH = 63"

definition network_id_new :: "bytes \<Rightarrow> network_id option" where
  "network_id_new source =
    (if source = [] \<or> MAX_NETWORK_ID_LENGTH < length source then None else Some source)"

definition wf_network_id :: "network_id \<Rightarrow> bool" where
  "wf_network_id n \<longleftrightarrow> network_id_new n = Some n"

definition encode_network_id :: "network_id \<Rightarrow> bytes" where
  "encode_network_id n = [of_nat (length n)] @ n"
definition encoded_size_network_id :: "network_id \<Rightarrow> nat" where
  "encoded_size_network_id n = 1 + length n"
definition max_encoded_size_network_id :: nat where
  "max_encoded_size_network_id = 1 + MAX_NETWORK_ID_LENGTH"

section \<open>Derived coin ids\<close>

definition coin_id_genesis :: "blake3 \<Rightarrow> u32 \<Rightarrow> coin_id" where
  "coin_id_genesis b3 index = commit_hash b3 COIN_GENESIS (encode_u32 index)"

definition coin_id_reshape_preimage :: "network_id \<Rightarrow> coin_id list \<Rightarrow> nat \<Rightarrow> key \<Rightarrow> bytes" where
  "coin_id_reshape_preimage network inputs index owner =
    COIN_RESHAPE @ encode_network_id network @ encode_list encode_coin_id inputs
      @ encode_usize index @ encode_key owner"

definition coin_id_reshape :: "blake3 \<Rightarrow> network_id \<Rightarrow> coin_id list \<Rightarrow> nat \<Rightarrow> key \<Rightarrow> coin_id" where
  "coin_id_reshape b3 network inputs index owner
    = xet_commit b3 (coin_id_reshape_preimage network inputs index owner)"

definition coin_id_payout_preimage :: "edge_id \<Rightarrow> nat \<Rightarrow> key \<Rightarrow> bytes" where
  "coin_id_payout_preimage edge index owner =
    COIN_PAYOUT @ encode_edge_id edge @ encode_usize index @ encode_key owner"

definition coin_id_payout :: "blake3 \<Rightarrow> edge_id \<Rightarrow> nat \<Rightarrow> key \<Rightarrow> coin_id" where
  "coin_id_payout b3 edge index owner = xet_commit b3 (coin_id_payout_preimage edge index owner)"

section \<open>Block context and resource pricing\<close>

type_synonym block_hash = bytes32
type_synonym block_height = u64

record cost =
  cost_base :: u64
  cost_slots :: u64
  cost_proofs :: u64

definition cost_new :: "u64 \<Rightarrow> u64 \<Rightarrow> u64 \<Rightarrow> cost" where
  "cost_new b s p = \<lparr>cost_base = b, cost_slots = s, cost_proofs = p\<rparr>"

definition cost_zero :: cost where "cost_zero = cost_new 0 0 0"

definition cost_checked_add :: "cost \<Rightarrow> cost \<Rightarrow> cost option" where
  "cost_checked_add c d =
    Option.bind (checked_add (cost_base c) (cost_base d)) (\<lambda>b.
    Option.bind (checked_add (cost_slots c) (cost_slots d)) (\<lambda>s.
    Option.bind (checked_add (cost_proofs c) (cost_proofs d)) (\<lambda>p.
    Some (cost_new b s p))))"

definition cost_fits :: "cost \<Rightarrow> cost \<Rightarrow> bool" where
  "cost_fits c budget \<longleftrightarrow> cost_base c \<le> cost_base budget \<and> cost_slots c \<le> cost_slots budget
    \<and> cost_proofs c \<le> cost_proofs budget"

record fees =
  fees_base :: u64
  fees_slot :: u64
  fees_proof :: u64
  fees_lifetime :: u64

definition fees_new :: "u64 \<Rightarrow> u64 \<Rightarrow> u64 \<Rightarrow> u64 \<Rightarrow> fees" where
  "fees_new b s p l = \<lparr>fees_base = b, fees_slot = s, fees_proof = p, fees_lifetime = l\<rparr>"

definition fees_zero :: fees where "fees_zero = fees_new 0 0 0 0"

definition fees_charge :: "fees \<Rightarrow> cost \<Rightarrow> u64 option" where
  "fees_charge f c =
    Option.bind (checked_mul (fees_base f) (cost_base c)) (\<lambda>b.
    Option.bind (checked_mul (fees_slot f) (cost_slots c)) (\<lambda>s.
    Option.bind (checked_mul (fees_proof f) (cost_proofs c)) (\<lambda>p.
    Option.bind (checked_add b s) (\<lambda>bs. checked_add bs p))))"

definition encode_fees :: "fees \<Rightarrow> bytes" where
  "encode_fees f = encode_envelope TAG_FEES @ encode_u64 (fees_base f) @ encode_u64 (fees_slot f)
    @ encode_u64 (fees_proof f) @ encode_u64 (fees_lifetime f)"
definition max_encoded_size_fees :: nat where
  "max_encoded_size_fees = ENVELOPE_SIZE + 4 * max_encoded_size_u64"
definition encoded_size_fees :: "fees \<Rightarrow> nat" where "encoded_size_fees f = max_encoded_size_fees"
definition decode_fees :: "fees decoder" where
  "decode_fees buf =
    and_then (decode_envelope buf TAG_FEES) (\<lambda>consumed.
    and_then (decode_field decode_u64 buf consumed) (\<lambda>(base, consumed).
    and_then (decode_field decode_u64 buf consumed) (\<lambda>(slot, consumed).
    and_then (decode_field decode_u64 buf consumed) (\<lambda>(proof_price, consumed).
    and_then (decode_field decode_u64 buf consumed) (\<lambda>(lifetime, consumed).
    Ok (fees_new base slot proof_price lifetime, consumed))))))"

definition encode_block_height :: "block_height \<Rightarrow> bytes" where
  "encode_block_height h = encode_envelope TAG_BLOCK_HEIGHT @ encode_u64 h"
definition max_encoded_size_block_height :: nat where
  "max_encoded_size_block_height = ENVELOPE_SIZE + max_encoded_size_u64"
definition encoded_size_block_height :: "block_height \<Rightarrow> nat" where
  "encoded_size_block_height h = max_encoded_size_block_height"
definition decode_block_height :: "block_height decoder" where
  "decode_block_height buf =
    and_then (decode_envelope buf TAG_BLOCK_HEIGHT) (\<lambda>consumed.
    and_then (decode_field decode_u64 buf consumed) (\<lambda>(v, consumed). Ok (v, consumed)))"

record ctx =
  ctx_network :: network_id
  ctx_block_height :: block_height
  ctx_previous_hash :: block_hash
  ctx_fees :: fees

definition context_with_fees :: "network_id \<Rightarrow> block_height \<Rightarrow> block_hash \<Rightarrow> fees \<Rightarrow> ctx" where
  "context_with_fees network height previous f =
    \<lparr>ctx_network = network, ctx_block_height = height, ctx_previous_hash = previous, ctx_fees = f\<rparr>"

definition context_new :: "network_id \<Rightarrow> block_height \<Rightarrow> block_hash \<Rightarrow> ctx" where
  "context_new network height previous = context_with_fees network height previous fees_zero"

definition context_fee :: "ctx \<Rightarrow> cost \<Rightarrow> u64 option" where
  "context_fee ctx c = fees_charge (ctx_fees ctx) c"

section \<open>Lemmas\<close>

lemma word_codec_fixed:
  assumes "8 dvd LENGTH('a::len)" and "k = LENGTH('a) div 8"
    and "\<And>buf. dec buf = and_then (decode_fixed k buf) (\<lambda>(bs, n). Ok (from_be_bytes bs, n))"
    and "\<And>x. size_of x = k" and "max_size = k"
  shows "codec (encode_word :: 'a word \<Rightarrow> bytes) dec size_of max_size (\<lambda>_. True)"
  using assms by (intro word_codec) (simp_all add: decode_fixed_def)

interpretation key_codec: codec encode_key decode_key encoded_size_key max_encoded_size_key "\<lambda>_. True"
  unfolding encode_key_def
  by (rule word_codec_fixed) (auto simp: decode_key_def encoded_size_key_def max_encoded_size_key_def KEY_LENGTH_def)

interpretation bytes32_codec: codec encode_bytes32 decode_bytes32 encoded_size_bytes32 max_encoded_size_bytes32 "\<lambda>_. True"
  unfolding encode_bytes32_def
  by (rule word_codec_fixed) (auto simp: decode_bytes32_def encoded_size_bytes32_def max_encoded_size_bytes32_def)

interpretation coin_id_codec: codec encode_coin_id decode_coin_id encoded_size_coin_id max_encoded_size_coin_id "\<lambda>_. True"
  unfolding encode_coin_id_def
  by (rule word_codec_fixed)
    (auto simp: decode_coin_id_def encoded_size_coin_id_def max_encoded_size_coin_id_def ID_LENGTH_def HASH_LENGTH_def)

interpretation edge_id_codec: codec encode_edge_id decode_edge_id encoded_size_edge_id max_encoded_size_edge_id "\<lambda>_. True"
  unfolding encode_edge_id_def
  by (rule word_codec_fixed)
    (auto simp: decode_edge_id_def encoded_size_edge_id_def max_encoded_size_edge_id_def ID_LENGTH_def HASH_LENGTH_def)

interpretation terms_hash_codec: codec encode_terms_hash decode_terms_hash encoded_size_terms_hash max_encoded_size_terms_hash "\<lambda>_. True"
  unfolding encode_terms_hash_def
  by (rule word_codec_fixed)
    (auto simp: decode_terms_hash_def encoded_size_terms_hash_def max_encoded_size_terms_hash_def HASH_LENGTH_def)

interpretation payload_hash_codec: codec encode_payload_hash decode_payload_hash encoded_size_payload_hash max_encoded_size_payload_hash "\<lambda>_. True"
  unfolding encode_payload_hash_def
  by (rule word_codec_fixed)
    (auto simp: decode_payload_hash_def encoded_size_payload_hash_def max_encoded_size_payload_hash_def HASH_LENGTH_def)

interpretation sig_codec: codec encode_sig decode_sig encoded_size_sig max_encoded_size_sig "\<lambda>_. True"
  unfolding encode_sig_def
  by (rule word_codec_fixed) (auto simp: decode_sig_def encoded_size_sig_def max_encoded_size_sig_def SIG_LENGTH_def)

interpretation protocol_code_codec: codec encode_protocol_code decode_protocol_code
  encoded_size_protocol_code max_encoded_size_protocol_code "\<lambda>_. True"
proof -
  have "decode_protocol_code = decode_u8" by (rule ext) (auto simp: decode_protocol_code_def and_then_def split: result.splits)
  moreover have "encoded_size_protocol_code = encoded_size_u8"
    by (rule ext) (simp add: encoded_size_protocol_code_def encoded_size_u8_def)
  ultimately show "codec encode_protocol_code decode_protocol_code
      encoded_size_protocol_code max_encoded_size_protocol_code (\<lambda>_. True)"
    using u8_codec.codec_axioms
    by (simp add: encode_protocol_code_def max_encoded_size_protocol_code_def max_encoded_size_u8_def)
qed

lemma party_from_tag_tag [simp]: "party_from_tag (party_tag p) = Some p"
  by (cases p) (simp_all add: party_from_tag_def)

lemma party_from_tag_Some: "party_from_tag t = Some p \<longleftrightarrow> t = party_tag p"
  by (cases p) (auto simp: party_from_tag_def)

lemma party_tag_inject [simp]: "party_tag p = party_tag q \<longleftrightarrow> p = q"
  by (metis option.inject party_from_tag_tag)

interpretation party_codec: codec encode_party decode_party encoded_size_party max_encoded_size_party "\<lambda>_. True"
proof
  fix x n and buf rest :: bytes
  show "decode_party (encode_party x @ rest) = Ok (x, length (encode_party x))"
    by (simp add: decode_party_def encode_party_def decode_u8_def)
  show "True \<and> n \<le> length buf \<and> take n buf = encode_party x" if "decode_party buf = Ok (x, n)"
    using that
    by (auto simp: decode_party_def encode_party_def decode_u8_def and_then_eq_Ok ok_or_eq_Ok party_from_tag_Some
        split: list.splits)
qed (simp_all add: encode_party_def encoded_size_party_def max_encoded_size_party_def)

lemmas id_round_trips [codec_simps] =
  key_codec.round_trip bytes32_codec.round_trip coin_id_codec.round_trip edge_id_codec.round_trip
  terms_hash_codec.round_trip payload_hash_codec.round_trip sig_codec.round_trip
  protocol_code_codec.round_trip party_codec.round_trip

lemmas id_canonical [codec_dests] =
  key_codec.field_canonical bytes32_codec.field_canonical coin_id_codec.field_canonical
  edge_id_codec.field_canonical terms_hash_codec.field_canonical payload_hash_codec.field_canonical
  sig_codec.field_canonical protocol_code_codec.field_canonical party_codec.field_canonical

lemmas id_lengths [codec_lengths] =
  key_codec.sized bytes32_codec.sized coin_id_codec.sized edge_id_codec.sized terms_hash_codec.sized
  payload_hash_codec.sized sig_codec.sized protocol_code_codec.sized party_codec.sized

lemmas id_sizes =
  encoded_size_key_def max_encoded_size_key_def encoded_size_bytes32_def max_encoded_size_bytes32_def
  encoded_size_coin_id_def max_encoded_size_coin_id_def encoded_size_edge_id_def max_encoded_size_edge_id_def
  encoded_size_terms_hash_def max_encoded_size_terms_hash_def encoded_size_payload_hash_def
  max_encoded_size_payload_hash_def encoded_size_sig_def max_encoded_size_sig_def
  encoded_size_protocol_code_def max_encoded_size_protocol_code_def encoded_size_party_def
  max_encoded_size_party_def

text \<open>A fixed-width encoding has its maximal size.\<close>

lemma fixed_sizes:
  "encoded_size_u8 b = max_encoded_size_u8" "encoded_size_u16 v = max_encoded_size_u16"
  "encoded_size_u32 w = max_encoded_size_u32" "encoded_size_u64 x = max_encoded_size_u64"
  "encoded_size_usize n = max_encoded_size_usize" "encoded_size_key k = max_encoded_size_key"
  "encoded_size_bytes32 h = max_encoded_size_bytes32" "encoded_size_coin_id h = max_encoded_size_coin_id"
  "encoded_size_edge_id h = max_encoded_size_edge_id" "encoded_size_terms_hash h = max_encoded_size_terms_hash"
  "encoded_size_payload_hash h = max_encoded_size_payload_hash" "encoded_size_sig s = max_encoded_size_sig"
  "encoded_size_protocol_code b = max_encoded_size_protocol_code" "encoded_size_party p = max_encoded_size_party"
  "encoded_size_fees f = max_encoded_size_fees" "encoded_size_block_height x = max_encoded_size_block_height"
  by (simp_all add: primitive_sizes id_sizes encoded_size_fees_def encoded_size_block_height_def)

interpretation fees_codec: codec encode_fees decode_fees encoded_size_fees max_encoded_size_fees "\<lambda>_. True"
proof
  fix x n and buf rest :: bytes
  show "decode_fees (encode_fees x @ rest) = Ok (x, length (encode_fees x))"
    by (simp add: decode_fees_def encode_fees_def decode_field_def codec_simps fees_new_def)
  show "True \<and> n \<le> length buf \<and> take n buf = encode_fees x" if "decode_fees buf = Ok (x, n)"
    using that
    by (auto simp: decode_fees_def encode_fees_def fees_new_def and_then_eq_Ok dest!: codec_dests)
qed (simp_all add: encode_fees_def encoded_size_fees_def max_encoded_size_fees_def codec_lengths primitive_sizes)

interpretation block_height_codec: codec encode_block_height decode_block_height
  encoded_size_block_height max_encoded_size_block_height "\<lambda>_. True"
proof
  fix x n and buf rest :: bytes
  show "decode_block_height (encode_block_height x @ rest) = Ok (x, length (encode_block_height x))"
    by (simp add: decode_block_height_def encode_block_height_def decode_field_def codec_simps)
  show "True \<and> n \<le> length buf \<and> take n buf = encode_block_height x" if "decode_block_height buf = Ok (x, n)"
    using that
    by (auto simp: decode_block_height_def encode_block_height_def and_then_eq_Ok dest!: codec_dests)
qed (simp_all add: encode_block_height_def encoded_size_block_height_def max_encoded_size_block_height_def
    codec_lengths primitive_sizes)

lemmas context_round_trips [codec_simps] = fees_codec.round_trip block_height_codec.round_trip
lemmas context_canonical [codec_dests] = fees_codec.field_canonical block_height_codec.field_canonical
lemmas context_lengths [codec_lengths] = fees_codec.sized block_height_codec.sized

subsection \<open>Network ids\<close>

lemma wf_network_id_iff: "wf_network_id n \<longleftrightarrow> n \<noteq> [] \<and> length n \<le> 63"
  by (auto simp: wf_network_id_def network_id_new_def MAX_NETWORK_ID_LENGTH_def)

lemma encode_network_id_length: "length (encode_network_id n) = encoded_size_network_id n"
  by (simp add: encode_network_id_def encoded_size_network_id_def)

lemma encode_network_id_le: "wf_network_id n \<Longrightarrow> length (encode_network_id n) \<le> max_encoded_size_network_id"
  by (simp add: encode_network_id_length encoded_size_network_id_def max_encoded_size_network_id_def
      MAX_NETWORK_ID_LENGTH_def wf_network_id_iff)

text \<open>The length prefix makes the encoding prefix-free, so a network id never runs into the next field.\<close>

lemma encode_network_id_prefix_free:
  assumes "wf_network_id m" "wf_network_id n" "encode_network_id m @ r = encode_network_id n @ s"
  shows "m = n \<and> r = s"
proof -
  have "(of_nat (length m) :: byte) = of_nat (length n)" using assms(3) by (simp add: encode_network_id_def)
  then have "unat (of_nat (length m) :: byte) = unat (of_nat (length n) :: byte)" by simp
  then have "length m = length n" using assms(1,2) by (simp add: wf_network_id_iff unat_of_nat)
  then show ?thesis using assms(3) by (simp add: encode_network_id_def)
qed

subsection \<open>Fees\<close>

lemma fees_charge_Some:
  assumes "fees_charge f c = Some t"
  shows "unat t = unat (fees_base f) * unat (cost_base c) + unat (fees_slot f) * unat (cost_slots c)
    + unat (fees_proof f) * unat (cost_proofs c)"
  using assms by (auto simp: fees_charge_def bind_eq_Some_conv dest!: checked_arith)

lemma fees_charge_mono:
  assumes "fees_charge f c = Some t"
    and "unat (cost_base d) \<le> unat (cost_base c)" "unat (cost_slots d) \<le> unat (cost_slots c)"
    and "unat (cost_proofs d) \<le> unat (cost_proofs c)"
  shows "\<exists>u. fees_charge f d = Some u \<and> unat u \<le> unat t"
proof -
  let ?b = "unat (fees_base f) * unat (cost_base d)" and ?s = "unat (fees_slot f) * unat (cost_slots d)"
    and ?p = "unat (fees_proof f) * unat (cost_proofs d)"
  have le: "?b + ?s + ?p \<le> unat t"
    unfolding fees_charge_Some [OF assms(1)] using assms(2-4) by (intro add_mono mult_le_mono2)
  then have "?b + ?s + ?p < 2 ^ 64" using unat_u64_less [of t] by linarith
  then have "fees_charge f d = Some (fees_base f * cost_base d + fees_slot f * cost_slots d
      + fees_proof f * cost_proofs d)"
    by (simp add: fees_charge_def checked_mul_def checked_add_def unat_word_ariths)
  with le show ?thesis using fees_charge_Some by auto
qed

end
