(* ===== verification/Kernel_Error.thy ===== *)
theory Kernel_Error
  imports Kernel_Primitive
begin

text \<open>The kernel's error values (src/crates/kernel/src/error.rs), one constructor per variant. Reason
  variants of different enums that share a Rust name carry their enum's name as a prefix.\<close>

type_synonym registry_chunk_id = xet_hash

datatype insert_error = Exists | Unavailable

datatype bond_lease_fault = Lease_Partial | Lease_Shape | Lease_Body | Lease_Edge

datatype pending_close_fault = Pending_Shape | Pending_Body | Pending_Edge

datatype registry_diff_error = DiffFull | DiffDuplicate registry_chunk_id

datatype invalid_open_reason =
    Open_FeeOverflow
  | Open_ReserveOverflow
  | Open_FundingOverflow
  | Open_FundingInsufficient
  | Open_TimeoutNotFuture
  | Open_LifetimeFeeOverflow
  | Open_TermsPayoutOverflow
  | Open_TermsValueMismatch
  | Open_FundingUnauthorized
  | Open_FundingNotDelegated
  | Open_PayoutDelegateNotSigner
  | Open_BasicAuthNotOwner
  | Open_TimeoutPayoutNotCommitted
  | Open_BadSignature
  | Open_WorkStakeValueZero
  | Open_JobPriceCapZero
  | Open_WorkStakeReturnRouting
  | Open_WorkStakeMakerUnfunded
  | Open_WorkStakeTakerFunded
  | Open_WorkPaymentTakerFunded
  | Open_WorkPaymentMakerUnfunded
  | Open_WorkResponseWindowOutOfRange
  | Open_WorkStartValidityOutOfRange
  | Open_WorkPaymentReserveTooSmall
  | Open_WorkPaymentCapacityUnfunded
  | Open_WorkBondTermsMismatch
  | Open_WorkBondAlreadyLeased
  | Open_WorkBondLeaseFault bond_lease_fault

datatype invalid_move_reason =
    Move_TermsMismatch
  | Move_NotAPaymentChannel
  | Move_OutsideValidityWindow
  | Move_ValiditySpanTooWide
  | Move_ClosePending
  | Move_ClosePendingMissing
  | Move_ClosePendingFault pending_close_fault
  | Move_StartIdMismatch
  | Move_ResponderNotBeneficiary
  | Move_AlreadyResponded
  | Move_ResponseWindowClosed
  | Move_CertificateNotBound
  | Move_CertificateNotPositive
  | Move_CertificateNotIncreasing
  | Move_CertificateOverCapacity
  | Move_ReserveTooSmall
  | Move_DeadlineOverflow
  | Move_BadSignature
  | Move_BadCertificateSignature

datatype invalid_close_reason =
    Close_PayoutOverflow
  | Close_ReserveTooSmall
  | Close_ValueMismatch
  | Close_KindForbidden

datatype invalid_proof_reason =
    Proof_TermsMismatch
  | Proof_BadSignature
  | Proof_ProofExpired
  | Proof_TimeoutNotReached
  | Proof_PayoutMismatch
  | Proof_PayoutNotCommitted
  | Proof_ClosePendingMissing
  | Proof_ClosePendingFault pending_close_fault
  | Proof_ResponseWindowOpen
  | Proof_ContestMismatch
  | Proof_FreezeOutsideValidityWindow
  | Proof_FreezeBelowSettled
  | Proof_BondLeaseFault bond_lease_fault
  | Proof_PayoutOverCapacity

datatype invalid_reshape_reason =
    Reshape_ZeroOutput
  | Reshape_ForeignDelegation
  | Reshape_NoInputs
  | Reshape_OwnerMismatch
  | Reshape_ValueOverflow
  | Reshape_ValueMismatch
  | Reshape_BadSignature

datatype apply_error =
    MissingCoin coin_id
  | CoinChanged coin_id
  | MissingEdge edge_id
  | EdgeChanged edge_id
  | MissingRegistryChunk registry_chunk_id
  | RegistryChunkChanged registry_chunk_id
  | OutputExists coin_id
  | EdgeExists edge_id
  | DuplicateInput coin_id
  | InvalidOpen edge_id invalid_open_reason
  | InvalidClose edge_id invalid_close_reason
  | InvalidProof edge_id invalid_proof_reason
  | InvalidMove edge_id invalid_move_reason
  | InvalidReshape invalid_reshape_reason
  | RegistryDiffRejected registry_diff_error
  | CoinInsertRejected coin_id insert_error
  | EdgeInsertRejected edge_id insert_error
  | RegistryChunkInsertRejected registry_chunk_id insert_error

record batch_error =
  be_index :: nat
  be_source :: apply_error

type_synonym 'a kernel_result = "('a, apply_error) result"

end
