(* ===== verification/Kernel_Object.thy ===== *)
theory Kernel_Object
  imports Kernel_Error
begin

unbundle bit_operations_syntax

text \<open>The objects of the chain and the witnesses that move them: authorizations (tx/auth.rs), close kinds
  (tx/proof.rs), payouts and funding (tx/payout.rs, tx/funding.rs), coins, party keys and edges
  (object.rs), all under src/crates/kernel/src/, with their codecs.\<close>

section \<open>Authorizations\<close>

record webauthn_assertion =
  wa_r :: bytes32
  wa_s :: bytes32
  wa_pub_key_x :: bytes32
  wa_pub_key_y :: bytes32
  wa_data :: bytes

definition wf_webauthn_assertion :: "webauthn_assertion \<Rightarrow> bool" where
  "wf_webauthn_assertion a \<longleftrightarrow> length (wa_data a) \<le> MAX_WEBAUTHN_DATA_LENGTH"

definition encode_webauthn_assertion :: "webauthn_assertion \<Rightarrow> bytes" where
  "encode_webauthn_assertion a = encode_envelope TAG_WEBAUTHN_ASSERTION
    @ encode_bytes32 (wa_r a) @ encode_bytes32 (wa_s a) @ encode_bytes32 (wa_pub_key_x a)
    @ encode_bytes32 (wa_pub_key_y a) @ encode_list encode_u8 (wa_data a)"
definition encoded_size_webauthn_assertion :: "webauthn_assertion \<Rightarrow> nat" where
  "encoded_size_webauthn_assertion a = ENVELOPE_SIZE
    + encoded_size_bytes32 (wa_r a) + encoded_size_bytes32 (wa_s a) + encoded_size_bytes32 (wa_pub_key_x a)
    + encoded_size_bytes32 (wa_pub_key_y a) + encoded_size_list encoded_size_u8 (wa_data a)"
definition max_encoded_size_webauthn_assertion :: nat where
  "max_encoded_size_webauthn_assertion = ENVELOPE_SIZE + 4 * max_encoded_size_bytes32
    + max_encoded_size_list MAX_WEBAUTHN_DATA_LENGTH max_encoded_size_u8"
definition decode_webauthn_assertion :: "webauthn_assertion decoder" where
  "decode_webauthn_assertion buf =
    and_then (decode_envelope buf TAG_WEBAUTHN_ASSERTION) (\<lambda>consumed.
    and_then (decode_field decode_bytes32 buf consumed) (\<lambda>(r, consumed).
    and_then (decode_field decode_bytes32 buf consumed) (\<lambda>(s, consumed).
    and_then (decode_field decode_bytes32 buf consumed) (\<lambda>(x, consumed).
    and_then (decode_field decode_bytes32 buf consumed) (\<lambda>(y, consumed).
    and_then (decode_field (decode_list MAX_WEBAUTHN_DATA_LENGTH decode_u8) buf consumed) (\<lambda>(d, consumed).
    Ok (\<lparr>wa_r = r, wa_s = s, wa_pub_key_x = x, wa_pub_key_y = y, wa_data = d\<rparr>, consumed)))))))"

datatype auth = Native sig | WebAuthn webauthn_assertion

fun wf_auth :: "auth \<Rightarrow> bool" where
  "wf_auth (Native s) = True"
| "wf_auth (WebAuthn a) = wf_webauthn_assertion a"

definition NATIVE_TAG :: byte where "NATIVE_TAG = 0"
definition WEBAUTHN_TAG :: byte where "WEBAUTHN_TAG = 1"

definition encode_auth :: "auth \<Rightarrow> bytes" where
  "encode_auth a = encode_envelope TAG_AUTH @ (case a of
      Native s \<Rightarrow> encode_u8 NATIVE_TAG @ encode_sig s
    | WebAuthn w \<Rightarrow> encode_u8 WEBAUTHN_TAG @ encode_webauthn_assertion w)"
definition encoded_size_auth :: "auth \<Rightarrow> nat" where
  "encoded_size_auth a = ENVELOPE_SIZE + max_encoded_size_u8 + (case a of
      Native s \<Rightarrow> encoded_size_sig s
    | WebAuthn w \<Rightarrow> encoded_size_webauthn_assertion w)"
definition max_encoded_size_auth :: nat where
  "max_encoded_size_auth = ENVELOPE_SIZE + max_encoded_size_u8 + max_encoded_size_webauthn_assertion"
definition decode_auth :: "auth decoder" where
  "decode_auth buf =
    and_then (decode_envelope buf TAG_AUTH) (\<lambda>consumed.
    and_then (decode_field decode_u8 buf consumed) (\<lambda>(variant, consumed).
    if variant = NATIVE_TAG then
      and_then (decode_field decode_sig buf consumed) (\<lambda>(s, consumed). Ok (Native s, consumed))
    else if variant = WEBAUTHN_TAG then
      and_then (decode_field decode_webauthn_assertion buf consumed) (\<lambda>(w, consumed). Ok (WebAuthn w, consumed))
    else Err (InvalidTag variant)))"

datatype authority = Owner | Signer

fun authority_tag :: "authority \<Rightarrow> byte" where
  "authority_tag Owner = 0"
| "authority_tag Signer = 1"

definition authority_from_tag :: "byte \<Rightarrow> authority option" where
  "authority_from_tag t = (if t = 0 then Some Owner else if t = 1 then Some Signer else None)"

definition encode_authority :: "authority \<Rightarrow> bytes" where "encode_authority a = encode_u8 (authority_tag a)"
definition max_encoded_size_authority :: nat where "max_encoded_size_authority = max_encoded_size_u8"
definition encoded_size_authority :: "authority \<Rightarrow> nat" where
  "encoded_size_authority a = max_encoded_size_authority"
definition decode_authority :: "authority decoder" where
  "decode_authority buf =
    and_then (decode_u8 buf) (\<lambda>(byte, consumed).
      ok_or (InvalidTag byte) (map_option (\<lambda>a. (a, consumed)) (authority_from_tag byte)))"

record party_auth =
  pa_authority :: authority
  pa_auth :: auth

definition wf_party_auth :: "party_auth \<Rightarrow> bool" where "wf_party_auth p = wf_auth (pa_auth p)"

definition is_owner :: "party_auth \<Rightarrow> bool" where
  "is_owner p = (case pa_authority p of Owner \<Rightarrow> True | Signer \<Rightarrow> False)"

definition encode_party_auth :: "party_auth \<Rightarrow> bytes" where
  "encode_party_auth p =
    encode_envelope TAG_PARTY_AUTH @ encode_authority (pa_authority p) @ encode_auth (pa_auth p)"
definition encoded_size_party_auth :: "party_auth \<Rightarrow> nat" where
  "encoded_size_party_auth p
    = ENVELOPE_SIZE + encoded_size_authority (pa_authority p) + encoded_size_auth (pa_auth p)"
definition max_encoded_size_party_auth :: nat where
  "max_encoded_size_party_auth = ENVELOPE_SIZE + max_encoded_size_authority + max_encoded_size_auth"
definition decode_party_auth :: "party_auth decoder" where
  "decode_party_auth buf =
    and_then (decode_envelope buf TAG_PARTY_AUTH) (\<lambda>consumed.
    and_then (decode_field decode_authority buf consumed) (\<lambda>(a, consumed).
    and_then (decode_field decode_auth buf consumed) (\<lambda>(w, consumed).
    Ok (\<lparr>pa_authority = a, pa_auth = w\<rparr>, consumed))))"

text \<open>The verifier boundary (verifier.rs): \<open>verify_sig\<close> is the host's, and a host that does not
  override \<^verbatim>\<open>verify_auth\<close> rejects WebAuthn. The kernel itself only calls \<open>verify_auth\<close>, so that
  function is the parameter of the transition model.\<close>

type_synonym verifier = "auth \<Rightarrow> key \<Rightarrow> payload_hash \<Rightarrow> bool"

fun default_verify_auth :: "(sig \<Rightarrow> key \<Rightarrow> payload_hash \<Rightarrow> bool) \<Rightarrow> verifier" where
  "default_verify_auth verify_sig (Native s) party_key hash = verify_sig s party_key hash"
| "default_verify_auth verify_sig (WebAuthn a) party_key hash = False"

section \<open>Close kinds\<close>

datatype close_kind = Mutual | Timeout | Freeze | Adjudicated

definition close_kind_all :: "close_kind list" where
  "close_kind_all = [Mutual, Timeout, Freeze, Adjudicated]"

fun close_kind_tag :: "close_kind \<Rightarrow> byte" where
  "close_kind_tag Mutual = 0"
| "close_kind_tag Timeout = 1"
| "close_kind_tag Freeze = 3"
| "close_kind_tag Adjudicated = 4"

fun close_kind_proofs :: "close_kind \<Rightarrow> u64" where
  "close_kind_proofs Timeout = 1"
| "close_kind_proofs Adjudicated = 1"
| "close_kind_proofs Mutual = 2"
| "close_kind_proofs Freeze = 2"

definition close_kind_bit :: "close_kind \<Rightarrow> byte" where
  "close_kind_bit k = push_bit (unat (close_kind_tag k)) 1"

type_synonym close_kind_set = byte

definition cks_empty :: close_kind_set where "cks_empty = 0"
definition cks_with :: "close_kind_set \<Rightarrow> close_kind \<Rightarrow> close_kind_set" where
  "cks_with s k = s OR close_kind_bit k"
definition cks_contains :: "close_kind_set \<Rightarrow> close_kind \<Rightarrow> bool" where
  "cks_contains s k \<longleftrightarrow> s AND close_kind_bit k \<noteq> 0"

definition CKS_BASIC :: close_kind_set where
  "CKS_BASIC = cks_with (cks_with cks_empty Mutual) Timeout"
definition CKS_WORK_STAKE_BOND :: close_kind_set where
  "CKS_WORK_STAKE_BOND = cks_with cks_empty Timeout"
definition CKS_WORK_PAYMENT :: close_kind_set where
  "CKS_WORK_PAYMENT = cks_with (cks_with cks_empty Freeze) Adjudicated"
definition CKS_PERMITTED :: "close_kind_set list" where
  "CKS_PERMITTED = [CKS_BASIC, CKS_WORK_STAKE_BOND, CKS_WORK_PAYMENT]"

definition wf_close_kind_set :: "close_kind_set \<Rightarrow> bool" where
  "wf_close_kind_set s \<longleftrightarrow> s \<in> set CKS_PERMITTED"

definition encode_close_kind_set :: "close_kind_set \<Rightarrow> bytes" where "encode_close_kind_set s = encode_u8 s"
definition max_encoded_size_close_kind_set :: nat where "max_encoded_size_close_kind_set = max_encoded_size_u8"
definition encoded_size_close_kind_set :: "close_kind_set \<Rightarrow> nat" where
  "encoded_size_close_kind_set s = max_encoded_size_close_kind_set"
definition decode_close_kind_set :: "close_kind_set decoder" where
  "decode_close_kind_set buf =
    and_then (decode_field decode_u8 buf 0) (\<lambda>(bits, consumed).
      if bits \<notin> set CKS_PERMITTED then Err (InvalidTag bits) else Ok (bits, consumed))"

section \<open>Coins and payouts\<close>

record coin =
  coin_owner :: key
  coin_delegate :: "key option"
  coin_value :: u64

definition coin_issue :: "key \<Rightarrow> key option \<Rightarrow> u64 \<Rightarrow> coin" where
  "coin_issue owner delegate v = \<lparr>coin_owner = owner, coin_delegate = delegate, coin_value = v\<rparr>"

definition encode_coin :: "coin \<Rightarrow> bytes" where
  "encode_coin c = encode_envelope TAG_COIN @ encode_key (coin_owner c)
    @ encode_option encode_key (coin_delegate c) @ encode_u64 (coin_value c)"
definition encoded_size_coin :: "coin \<Rightarrow> nat" where
  "encoded_size_coin c = ENVELOPE_SIZE + max_encoded_size_key
    + encoded_size_option encoded_size_key (coin_delegate c) + max_encoded_size_u64"
definition max_encoded_size_coin :: nat where
  "max_encoded_size_coin = ENVELOPE_SIZE + max_encoded_size_key
    + max_encoded_size_option max_encoded_size_key + max_encoded_size_u64"
definition decode_coin :: "coin decoder" where
  "decode_coin buf =
    and_then (decode_envelope buf TAG_COIN) (\<lambda>consumed.
    and_then (decode_field decode_key buf consumed) (\<lambda>(owner, consumed).
    and_then (decode_field (decode_option decode_key) buf consumed) (\<lambda>(delegate, consumed).
    and_then (decode_field decode_u64 buf consumed) (\<lambda>(v, consumed).
    Ok (coin_issue owner delegate v, consumed)))))"

record payout =
  payout_owner :: key
  payout_delegate :: "key option"
  payout_value :: u64

definition payout_delegated :: "key \<Rightarrow> key option \<Rightarrow> u64 \<Rightarrow> payout" where
  "payout_delegated owner delegate v
    = \<lparr>payout_owner = owner, payout_delegate = delegate, payout_value = v\<rparr>"

definition payout_new :: "key \<Rightarrow> u64 \<Rightarrow> payout" where
  "payout_new owner v = payout_delegated owner None v"

definition payout_id :: "blake3 \<Rightarrow> payout \<Rightarrow> edge_id \<Rightarrow> nat \<Rightarrow> coin_id" where
  "payout_id b3 p edge index = coin_id_payout b3 edge index (payout_owner p)"

definition payout_coin :: "payout \<Rightarrow> coin" where
  "payout_coin p = coin_issue (payout_owner p) (payout_delegate p) (payout_value p)"

definition close_coin :: "blake3 \<Rightarrow> payout \<Rightarrow> edge_id \<Rightarrow> nat \<Rightarrow> coin_id \<times> coin" where
  "close_coin b3 p edge index = (payout_id b3 p edge index, payout_coin p)"

definition encode_payout :: "payout \<Rightarrow> bytes" where
  "encode_payout p = encode_envelope TAG_PAYOUT @ encode_key (payout_owner p)
    @ encode_option encode_key (payout_delegate p) @ encode_u64 (payout_value p)"
definition encoded_size_payout :: "payout \<Rightarrow> nat" where
  "encoded_size_payout p = ENVELOPE_SIZE + max_encoded_size_key
    + encoded_size_option encoded_size_key (payout_delegate p) + max_encoded_size_u64"
definition max_encoded_size_payout :: nat where
  "max_encoded_size_payout = ENVELOPE_SIZE + max_encoded_size_key
    + max_encoded_size_option max_encoded_size_key + max_encoded_size_u64"
definition decode_payout :: "payout decoder" where
  "decode_payout buf =
    and_then (decode_envelope buf TAG_PAYOUT) (\<lambda>consumed.
    and_then (decode_field decode_key buf consumed) (\<lambda>(owner, consumed).
    and_then (decode_field (decode_option decode_key) buf consumed) (\<lambda>(delegate, consumed).
    and_then (decode_field decode_u64 buf consumed) (\<lambda>(v, consumed).
    Ok (payout_delegated owner delegate v, consumed)))))"

type_synonym payouts = "payout list"

definition wf_payouts :: "payouts \<Rightarrow> bool" where
  "wf_payouts ps \<longleftrightarrow> length ps \<le> MAX_EDGE_OUTPUTS"

section \<open>Funding\<close>

record funding =
  funding_maker :: "coin_id list"
  funding_taker :: "coin_id list"

definition wf_funding :: "funding \<Rightarrow> bool" where
  "wf_funding f \<longleftrightarrow> length (funding_maker f) \<le> MAX_PARTY_INPUTS \<and> length (funding_taker f) \<le> MAX_PARTY_INPUTS"

definition funding_len :: "funding \<Rightarrow> nat" where
  "funding_len f = length (funding_maker f) + length (funding_taker f)"

definition funding_iter :: "funding \<Rightarrow> coin_id list" where
  "funding_iter f = funding_maker f @ funding_taker f"

definition encode_funding :: "funding \<Rightarrow> bytes" where
  "encode_funding f = encode_envelope TAG_FUNDING @ encode_list encode_coin_id (funding_maker f)
    @ encode_list encode_coin_id (funding_taker f)"
definition encoded_size_funding :: "funding \<Rightarrow> nat" where
  "encoded_size_funding f = ENVELOPE_SIZE + encoded_size_list encoded_size_coin_id (funding_maker f)
    + encoded_size_list encoded_size_coin_id (funding_taker f)"
definition max_encoded_size_funding :: nat where
  "max_encoded_size_funding = ENVELOPE_SIZE + 2 * max_encoded_size_list MAX_PARTY_INPUTS max_encoded_size_coin_id"
definition decode_funding :: "funding decoder" where
  "decode_funding buf =
    and_then (decode_envelope buf TAG_FUNDING) (\<lambda>consumed.
    and_then (decode_field (decode_list MAX_PARTY_INPUTS decode_coin_id) buf consumed) (\<lambda>(m, consumed).
    and_then (decode_field (decode_list MAX_PARTY_INPUTS decode_coin_id) buf consumed) (\<lambda>(t, consumed).
    Ok (\<lparr>funding_maker = m, funding_taker = t\<rparr>, consumed))))"

section \<open>Party keys\<close>

record party_keys =
  pk_owner :: key
  pk_signer :: key
  pk_payout_delegate :: "key option"

definition party_keys_new :: "key \<Rightarrow> key \<Rightarrow> key option \<Rightarrow> party_keys" where
  "party_keys_new owner signer d = \<lparr>pk_owner = owner, pk_signer = signer, pk_payout_delegate = d\<rparr>"

definition party_keys_sole :: "key \<Rightarrow> party_keys" where
  "party_keys_sole k = party_keys_new k k None"

definition pk_key :: "party_keys \<Rightarrow> authority \<Rightarrow> key" where
  "pk_key p a = (case a of Owner \<Rightarrow> pk_owner p | Signer \<Rightarrow> pk_signer p)"

definition authority_of :: "party_keys \<Rightarrow> key \<Rightarrow> authority option" where
  "authority_of p k = (if k = pk_owner p then Some Owner else if k = pk_signer p then Some Signer else None)"

definition pk_payout :: "party_keys \<Rightarrow> u64 \<Rightarrow> bool \<Rightarrow> payout" where
  "pk_payout p v owner_signed =
    payout_delegated (pk_owner p) (if owner_signed then None else pk_payout_delegate p) v"

definition pk_is_destination :: "party_keys \<Rightarrow> payout \<Rightarrow> bool \<Rightarrow> bool" where
  "pk_is_destination p pay owner_signed \<longleftrightarrow> pay = pk_payout p (payout_value pay) owner_signed"

definition encode_party_keys :: "party_keys \<Rightarrow> bytes" where
  "encode_party_keys p = encode_key (pk_owner p) @ encode_key (pk_signer p)
    @ encode_option encode_key (pk_payout_delegate p)"
definition encoded_size_party_keys :: "party_keys \<Rightarrow> nat" where
  "encoded_size_party_keys p = 2 * max_encoded_size_key
    + encoded_size_option encoded_size_key (pk_payout_delegate p)"
definition max_encoded_size_party_keys :: nat where
  "max_encoded_size_party_keys = 2 * max_encoded_size_key + max_encoded_size_option max_encoded_size_key"
definition decode_party_keys :: "party_keys decoder" where
  "decode_party_keys buf =
    and_then (decode_field decode_key buf 0) (\<lambda>(owner, consumed).
    and_then (decode_field decode_key buf consumed) (\<lambda>(signer, consumed).
    and_then (decode_field (decode_option decode_key) buf consumed) (\<lambda>(d, consumed).
    Ok (party_keys_new owner signer d, consumed))))"

record parties =
  parties_maker :: party_keys
  parties_taker :: party_keys

definition parties_new :: "party_keys \<Rightarrow> party_keys \<Rightarrow> parties" where
  "parties_new m t = \<lparr>parties_maker = m, parties_taker = t\<rparr>"

definition parties_is_destination :: "parties \<Rightarrow> payout \<Rightarrow> bool \<Rightarrow> bool" where
  "parties_is_destination ps pay owner_signed \<longleftrightarrow>
    pk_is_destination (parties_maker ps) pay owner_signed \<or> pk_is_destination (parties_taker ps) pay owner_signed"

fun keys_of :: "party \<Rightarrow> parties \<Rightarrow> party_keys" where
  "keys_of Maker ps = parties_maker ps"
| "keys_of Taker ps = parties_taker ps"

definition encode_parties :: "parties \<Rightarrow> bytes" where
  "encode_parties ps = encode_envelope TAG_PARTIES @ encode_party_keys (parties_maker ps)
    @ encode_party_keys (parties_taker ps)"
definition encoded_size_parties :: "parties \<Rightarrow> nat" where
  "encoded_size_parties ps = ENVELOPE_SIZE + encoded_size_party_keys (parties_maker ps)
    + encoded_size_party_keys (parties_taker ps)"
definition max_encoded_size_parties :: nat where
  "max_encoded_size_parties = ENVELOPE_SIZE + 2 * max_encoded_size_party_keys"
definition decode_parties :: "parties decoder" where
  "decode_parties buf =
    and_then (decode_envelope buf TAG_PARTIES) (\<lambda>consumed.
    and_then (decode_field decode_party_keys buf consumed) (\<lambda>(m, consumed).
    and_then (decode_field decode_party_keys buf consumed) (\<lambda>(t, consumed).
    Ok (parties_new m t, consumed))))"

section \<open>Edges\<close>

record edge_values =
  ev_value :: u64
  ev_reserve :: u64
  ev_close_fees :: fees

definition ev_close_value :: "edge_values \<Rightarrow> cost \<Rightarrow> u64 option" where
  "ev_close_value v close_cost =
    Option.bind (fees_charge (ev_close_fees v) close_cost) (\<lambda>fee.
    Option.bind (checked_sub (ev_reserve v) fee) (\<lambda>surplus.
    checked_add (ev_value v) surplus))"

record edge =
  edge_value :: u64
  edge_reserve :: u64
  edge_close_fees :: fees
  edge_timeout :: block_height
  edge_parties :: parties
  edge_terms :: terms_hash
  edge_allowed :: close_kind_set

definition wf_edge :: "edge \<Rightarrow> bool" where "wf_edge e = wf_close_kind_set (edge_allowed e)"

definition edge_new ::
  "u64 \<Rightarrow> u64 \<Rightarrow> fees \<Rightarrow> block_height \<Rightarrow> parties \<Rightarrow> terms_hash \<Rightarrow> close_kind_set \<Rightarrow> edge" where
  "edge_new v reserve close_fees timeout ps terms allowed =
    \<lparr>edge_value = v, edge_reserve = reserve, edge_close_fees = close_fees, edge_timeout = timeout,
     edge_parties = ps, edge_terms = terms, edge_allowed = allowed\<rparr>"

definition edge_open ::
  "u64 \<Rightarrow> parties \<Rightarrow> terms_hash \<Rightarrow> u64 \<times> u64 \<times> u64 \<times> fees \<Rightarrow> block_height \<Rightarrow> close_kind_set
    \<Rightarrow> (edge, invalid_open_reason) result" where
  "edge_open funded ps terms debits timeout allowed =
    (case debits of (open_fee, lifetime_fee, reserve, close_fees) \<Rightarrow>
      and_then (ok_or Open_FundingInsufficient
        (Option.bind (checked_sub funded open_fee) (\<lambda>after_open_fee.
         Option.bind (checked_sub after_open_fee lifetime_fee) (\<lambda>after_fee.
         checked_sub after_fee reserve))))
      (\<lambda>v. Ok (edge_new v reserve close_fees timeout ps terms allowed)))"

definition edge_values_of :: "edge \<Rightarrow> edge_values" where
  "edge_values_of e =
    \<lparr>ev_value = edge_value e, ev_reserve = edge_reserve e, ev_close_fees = edge_close_fees e\<rparr>"

definition edge_close_value :: "edge \<Rightarrow> cost \<Rightarrow> u64 option" where
  "edge_close_value e close_cost = ev_close_value (edge_values_of e) close_cost"

definition edge_total :: "(coin_id \<times> coin) list \<Rightarrow> u64 option" where
  "edge_total coins = checked_sum (\<lambda>(_, c). coin_value c) 0 coins"

definition edge_closes :: "edge \<Rightarrow> (coin_id \<times> coin) list \<Rightarrow> cost \<Rightarrow> (u64, invalid_close_reason) result" where
  "edge_closes e coins close_cost =
    and_then (ok_or Close_ReserveTooSmall (edge_close_value e close_cost)) (\<lambda>expected.
      case edge_total coins of
        None \<Rightarrow> Err Close_PayoutOverflow
      | Some paid \<Rightarrow> if paid \<noteq> expected then Err Close_ValueMismatch else Ok expected)"

definition edge_allows :: "edge \<Rightarrow> close_kind \<Rightarrow> bool" where
  "edge_allows e k = cks_contains (edge_allowed e) k"

definition encode_edge :: "edge \<Rightarrow> bytes" where
  "encode_edge e = encode_envelope TAG_EDGE @ encode_u64 (edge_value e) @ encode_u64 (edge_reserve e)
    @ encode_fees (edge_close_fees e) @ encode_block_height (edge_timeout e)
    @ encode_parties (edge_parties e) @ encode_terms_hash (edge_terms e)
    @ encode_close_kind_set (edge_allowed e)"
definition max_encoded_size_edge :: nat where
  "max_encoded_size_edge = ENVELOPE_SIZE + 2 * max_encoded_size_u64 + max_encoded_size_fees
    + max_encoded_size_block_height + max_encoded_size_parties + max_encoded_size_terms_hash
    + max_encoded_size_close_kind_set"
definition encoded_size_edge :: "edge \<Rightarrow> nat" where
  "encoded_size_edge e = max_encoded_size_edge - max_encoded_size_parties + encoded_size_parties (edge_parties e)"
definition decode_edge :: "edge decoder" where
  "decode_edge buf =
    and_then (decode_envelope buf TAG_EDGE) (\<lambda>consumed.
    and_then (decode_field decode_u64 buf consumed) (\<lambda>(v, consumed).
    and_then (decode_field decode_u64 buf consumed) (\<lambda>(reserve, consumed).
    and_then (decode_field decode_fees buf consumed) (\<lambda>(close_fees, consumed).
    and_then (decode_field decode_block_height buf consumed) (\<lambda>(timeout, consumed).
    and_then (decode_field decode_parties buf consumed) (\<lambda>(ps, consumed).
    and_then (decode_field decode_terms_hash buf consumed) (\<lambda>(terms, consumed).
    and_then (decode_field decode_close_kind_set buf consumed) (\<lambda>(allowed, consumed).
    Ok (edge_new v reserve close_fees timeout ps terms allowed, consumed)))))))))"

section \<open>Genesis seeds\<close>

record genesis =
  genesis_id :: coin_id
  genesis_coin :: coin

definition genesis_new :: "coin_id \<Rightarrow> key \<Rightarrow> u64 \<Rightarrow> genesis" where
  "genesis_new i owner v = \<lparr>genesis_id = i, genesis_coin = coin_issue owner None v\<rparr>"

section \<open>Codecs\<close>

interpretation webauthn_data_codec: codec "encode_list encode_u8" "decode_list MAX_WEBAUTHN_DATA_LENGTH decode_u8"
  "encoded_size_list encoded_size_u8" "max_encoded_size_list MAX_WEBAUTHN_DATA_LENGTH max_encoded_size_u8"
  "\<lambda>xs. length xs \<le> MAX_WEBAUTHN_DATA_LENGTH"
  using u8_codec.list_codec [of MAX_WEBAUTHN_DATA_LENGTH] by (simp add: list_all_iff MAX_WEBAUTHN_DATA_LENGTH_def)

interpretation key_option_codec: codec "encode_option encode_key" "decode_option decode_key"
  "encoded_size_option encoded_size_key" "max_encoded_size_option max_encoded_size_key" "\<lambda>_. True"
  using key_codec.option_codec by (simp add: option.pred_True)

interpretation party_coins_codec: codec "encode_list encode_coin_id" "decode_list MAX_PARTY_INPUTS decode_coin_id"
  "encoded_size_list encoded_size_coin_id" "max_encoded_size_list MAX_PARTY_INPUTS max_encoded_size_coin_id"
  "\<lambda>xs. length xs \<le> MAX_PARTY_INPUTS"
  using coin_id_codec.list_codec [of MAX_PARTY_INPUTS] by (simp add: list_all_iff MAX_PARTY_INPUTS_def)

lemmas collection_round_trips [codec_simps] =
  webauthn_data_codec.round_trip key_option_codec.round_trip party_coins_codec.round_trip
lemmas collection_canonical [codec_dests] =
  webauthn_data_codec.field_canonical key_option_codec.field_canonical party_coins_codec.field_canonical
lemmas collection_lengths [codec_lengths] =
  webauthn_data_codec.sized key_option_codec.sized party_coins_codec.sized
lemmas collection_bounds [codec_bounds] =
  webauthn_data_codec.bounded key_option_codec.bounded party_coins_codec.bounded

interpretation webauthn_codec: codec encode_webauthn_assertion decode_webauthn_assertion encoded_size_webauthn_assertion max_encoded_size_webauthn_assertion wf_webauthn_assertion
proof
  fix x n and buf rest :: bytes
  show "decode_webauthn_assertion (encode_webauthn_assertion x @ rest) = Ok (x, length (encode_webauthn_assertion x))" if "wf_webauthn_assertion x"
    using that by (simp add: decode_webauthn_assertion_def encode_webauthn_assertion_def decode_field_def codec_simps wf_webauthn_assertion_def )
  show "wf_webauthn_assertion x \<and> n \<le> length buf \<and> take n buf = encode_webauthn_assertion x" if "decode_webauthn_assertion buf = Ok (x, n)"
    using that
    by (auto simp: decode_webauthn_assertion_def encode_webauthn_assertion_def and_then_eq_Ok wf_webauthn_assertion_def  dest!: codec_dests)
qed (auto simp: encode_webauthn_assertion_def encoded_size_webauthn_assertion_def max_encoded_size_webauthn_assertion_def codec_lengths codec_bounds
    wf_webauthn_assertion_def fixed_sizes)

lemmas webauthn_assertion_round_trip [codec_simps] = webauthn_codec.round_trip
lemmas webauthn_assertion_canonical [codec_dests] = webauthn_codec.field_canonical
lemmas webauthn_assertion_length [codec_lengths] = webauthn_codec.sized
lemmas webauthn_assertion_bound [codec_bounds] = webauthn_codec.bounded

lemma sig_fits_assertion: "max_encoded_size_sig \<le> max_encoded_size_webauthn_assertion"
  by (simp add: max_encoded_size_webauthn_assertion_def id_sizes SIG_LENGTH_def)

interpretation auth_codec: codec encode_auth decode_auth encoded_size_auth max_encoded_size_auth wf_auth
proof
  fix x n and buf rest :: bytes
  show "decode_auth (encode_auth x @ rest) = Ok (x, length (encode_auth x))" if "wf_auth x"
    using that by (cases x)
      (simp_all add: decode_auth_def encode_auth_def decode_field_def codec_simps NATIVE_TAG_def WEBAUTHN_TAG_def)
  show "wf_auth x \<and> n \<le> length buf \<and> take n buf = encode_auth x" if "decode_auth buf = Ok (x, n)"
    using that
    by (auto simp: decode_auth_def encode_auth_def and_then_eq_Ok split: if_splits dest!: codec_dests)
  show "length (encode_auth x) = encoded_size_auth x" if "wf_auth x"
    using that by (cases x) (simp_all add: encode_auth_def encoded_size_auth_def codec_lengths fixed_sizes)
  show "encoded_size_auth x \<le> max_encoded_size_auth" if "wf_auth x"
    using that by (cases x)
      (simp_all add: encoded_size_auth_def max_encoded_size_auth_def codec_bounds fixed_sizes sig_fits_assertion)
qed

lemmas auth_round_trip [codec_simps] = auth_codec.round_trip
lemmas auth_canonical [codec_dests] = auth_codec.field_canonical
lemmas auth_length [codec_lengths] = auth_codec.sized
lemmas auth_bound [codec_bounds] = auth_codec.bounded

lemma authority_from_tag_Some: "authority_from_tag t = Some a \<longleftrightarrow> t = authority_tag a"
  by (cases a) (auto simp: authority_from_tag_def)

interpretation authority_codec: codec encode_authority decode_authority encoded_size_authority
  max_encoded_size_authority "\<lambda>_. True"
proof
  fix x n and buf rest :: bytes
  show "decode_authority (encode_authority x @ rest) = Ok (x, length (encode_authority x))"
    by (cases x) (simp_all add: decode_authority_def encode_authority_def codec_simps authority_from_tag_def)
  show "True \<and> n \<le> length buf \<and> take n buf = encode_authority x" if "decode_authority buf = Ok (x, n)"
    using that
    by (auto simp: decode_authority_def encode_authority_def and_then_eq_Ok ok_or_eq_Ok authority_from_tag_Some
        dest: u8_codec.canonical)
qed (simp_all add: encode_authority_def encoded_size_authority_def max_encoded_size_authority_def codec_lengths fixed_sizes)

lemmas authority_round_trip [codec_simps] = authority_codec.round_trip
lemmas authority_canonical [codec_dests] = authority_codec.field_canonical
lemmas authority_length [codec_lengths] = authority_codec.sized

interpretation party_auth_codec: codec encode_party_auth decode_party_auth encoded_size_party_auth max_encoded_size_party_auth wf_party_auth
proof
  fix x n and buf rest :: bytes
  show "decode_party_auth (encode_party_auth x @ rest) = Ok (x, length (encode_party_auth x))" if "wf_party_auth x"
    using that by (simp add: decode_party_auth_def encode_party_auth_def decode_field_def codec_simps wf_party_auth_def )
  show "wf_party_auth x \<and> n \<le> length buf \<and> take n buf = encode_party_auth x" if "decode_party_auth buf = Ok (x, n)"
    using that
    by (auto simp: decode_party_auth_def encode_party_auth_def and_then_eq_Ok wf_party_auth_def  dest!: codec_dests)
qed (auto simp: encode_party_auth_def encoded_size_party_auth_def max_encoded_size_party_auth_def codec_lengths codec_bounds
    wf_party_auth_def encoded_size_authority_def)

lemmas party_auth_round_trip [codec_simps] = party_auth_codec.round_trip
lemmas party_auth_canonical [codec_dests] = party_auth_codec.field_canonical
lemmas party_auth_length [codec_lengths] = party_auth_codec.sized
lemmas party_auth_bound [codec_bounds] = party_auth_codec.bounded

interpretation close_kind_set_codec: codec encode_close_kind_set decode_close_kind_set
  encoded_size_close_kind_set max_encoded_size_close_kind_set wf_close_kind_set
proof
  fix x n and buf rest :: bytes
  show "decode_close_kind_set (encode_close_kind_set x @ rest) = Ok (x, length (encode_close_kind_set x))"
    if "wf_close_kind_set x"
    using that
    by (simp add: decode_close_kind_set_def encode_close_kind_set_def decode_field_def codec_simps wf_close_kind_set_def)
  show "wf_close_kind_set x \<and> n \<le> length buf \<and> take n buf = encode_close_kind_set x"
    if "decode_close_kind_set buf = Ok (x, n)"
    using that
    by (auto simp: decode_close_kind_set_def encode_close_kind_set_def and_then_eq_Ok wf_close_kind_set_def
        split: if_splits dest!: codec_dests)
qed (simp_all add: encode_close_kind_set_def encoded_size_close_kind_set_def max_encoded_size_close_kind_set_def
    codec_lengths fixed_sizes)

lemmas close_kind_set_round_trip [codec_simps] = close_kind_set_codec.round_trip
lemmas close_kind_set_canonical [codec_dests] = close_kind_set_codec.field_canonical
lemmas close_kind_set_length [codec_lengths] = close_kind_set_codec.sized

interpretation coin_codec: codec encode_coin decode_coin encoded_size_coin max_encoded_size_coin "\<lambda>_. True"
proof
  fix x n and buf rest :: bytes
  show "decode_coin (encode_coin x @ rest) = Ok (x, length (encode_coin x))"
    by (simp add: decode_coin_def encode_coin_def decode_field_def codec_simps coin_issue_def)
  show "True \<and> n \<le> length buf \<and> take n buf = encode_coin x" if "decode_coin buf = Ok (x, n)"
    using that
    by (auto simp: decode_coin_def encode_coin_def and_then_eq_Ok coin_issue_def dest!: codec_dests)
qed (auto simp: encode_coin_def encoded_size_coin_def max_encoded_size_coin_def codec_lengths codec_bounds
    fixed_sizes)

lemmas coin_round_trip [codec_simps] = coin_codec.round_trip
lemmas coin_canonical [codec_dests] = coin_codec.field_canonical
lemmas coin_length [codec_lengths] = coin_codec.sized
lemmas coin_bound [codec_bounds] = coin_codec.bounded

interpretation payout_codec: codec encode_payout decode_payout encoded_size_payout max_encoded_size_payout "\<lambda>_. True"
proof
  fix x n and buf rest :: bytes
  show "decode_payout (encode_payout x @ rest) = Ok (x, length (encode_payout x))"
    by (simp add: decode_payout_def encode_payout_def decode_field_def codec_simps payout_delegated_def)
  show "True \<and> n \<le> length buf \<and> take n buf = encode_payout x" if "decode_payout buf = Ok (x, n)"
    using that
    by (auto simp: decode_payout_def encode_payout_def and_then_eq_Ok payout_delegated_def dest!: codec_dests)
qed (auto simp: encode_payout_def encoded_size_payout_def max_encoded_size_payout_def codec_lengths codec_bounds
    fixed_sizes)

lemmas payout_round_trip [codec_simps] = payout_codec.round_trip
lemmas payout_canonical [codec_dests] = payout_codec.field_canonical
lemmas payout_length [codec_lengths] = payout_codec.sized
lemmas payout_bound [codec_bounds] = payout_codec.bounded

interpretation funding_codec: codec encode_funding decode_funding encoded_size_funding max_encoded_size_funding wf_funding
proof
  fix x n and buf rest :: bytes
  show "decode_funding (encode_funding x @ rest) = Ok (x, length (encode_funding x))" if "wf_funding x"
    using that by (simp add: decode_funding_def encode_funding_def decode_field_def codec_simps wf_funding_def )
  show "wf_funding x \<and> n \<le> length buf \<and> take n buf = encode_funding x" if "decode_funding buf = Ok (x, n)"
    using that
    by (auto simp: decode_funding_def encode_funding_def and_then_eq_Ok wf_funding_def  dest!: codec_dests)
qed (auto simp: encode_funding_def encoded_size_funding_def max_encoded_size_funding_def codec_lengths codec_bounds
    wf_funding_def add_le_twice)

lemmas funding_round_trip [codec_simps] = funding_codec.round_trip
lemmas funding_canonical [codec_dests] = funding_codec.field_canonical
lemmas funding_length [codec_lengths] = funding_codec.sized
lemmas funding_bound [codec_bounds] = funding_codec.bounded

interpretation party_keys_codec: codec encode_party_keys decode_party_keys encoded_size_party_keys max_encoded_size_party_keys "\<lambda>_. True"
proof
  fix x n and buf rest :: bytes
  show "decode_party_keys (encode_party_keys x @ rest) = Ok (x, length (encode_party_keys x))"
    by (simp add: decode_party_keys_def encode_party_keys_def decode_field_def codec_simps party_keys_new_def)
  show "True \<and> n \<le> length buf \<and> take n buf = encode_party_keys x" if "decode_party_keys buf = Ok (x, n)"
    using that
    by (auto simp: decode_party_keys_def encode_party_keys_def and_then_eq_Ok party_keys_new_def dest!: codec_dests)
qed (auto simp: encode_party_keys_def encoded_size_party_keys_def max_encoded_size_party_keys_def codec_lengths codec_bounds
    fixed_sizes)

lemmas party_keys_round_trip [codec_simps] = party_keys_codec.round_trip
lemmas party_keys_canonical [codec_dests] = party_keys_codec.field_canonical
lemmas party_keys_length [codec_lengths] = party_keys_codec.sized
lemmas party_keys_bound [codec_bounds] = party_keys_codec.bounded

interpretation parties_codec: codec encode_parties decode_parties encoded_size_parties max_encoded_size_parties "\<lambda>_. True"
proof
  fix x n and buf rest :: bytes
  show "decode_parties (encode_parties x @ rest) = Ok (x, length (encode_parties x))"
    by (simp add: decode_parties_def encode_parties_def decode_field_def codec_simps parties_new_def)
  show "True \<and> n \<le> length buf \<and> take n buf = encode_parties x" if "decode_parties buf = Ok (x, n)"
    using that
    by (auto simp: decode_parties_def encode_parties_def and_then_eq_Ok parties_new_def dest!: codec_dests)
qed (auto simp: encode_parties_def encoded_size_parties_def max_encoded_size_parties_def codec_lengths codec_bounds
    add_le_twice)

lemmas parties_round_trip [codec_simps] = parties_codec.round_trip
lemmas parties_canonical [codec_dests] = parties_codec.field_canonical
lemmas parties_length [codec_lengths] = parties_codec.sized
lemmas parties_bound [codec_bounds] = parties_codec.bounded

interpretation edge_codec: codec encode_edge decode_edge encoded_size_edge max_encoded_size_edge wf_edge
proof
  fix x n and buf rest :: bytes
  show "decode_edge (encode_edge x @ rest) = Ok (x, length (encode_edge x))" if "wf_edge x"
    using that by (simp add: decode_edge_def encode_edge_def decode_field_def codec_simps wf_edge_def edge_new_def)
  show "wf_edge x \<and> n \<le> length buf \<and> take n buf = encode_edge x" if "decode_edge buf = Ok (x, n)"
    using that
    by (auto simp: decode_edge_def encode_edge_def and_then_eq_Ok wf_edge_def edge_new_def dest!: codec_dests)
qed (auto simp: encode_edge_def encoded_size_edge_def max_encoded_size_edge_def codec_lengths codec_bounds
    wf_edge_def fixed_sizes encoded_size_close_kind_set_def)

lemmas edge_round_trip [codec_simps] = edge_codec.round_trip
lemmas edge_canonical [codec_dests] = edge_codec.field_canonical
lemmas edge_length [codec_lengths] = edge_codec.sized
lemmas edge_bound [codec_bounds] = edge_codec.bounded

end
