(* ===== verification/Kernel_Terms.thy ===== *)
theory Kernel_Terms
  imports Kernel_Object
begin

text \<open>Edge terms (src/crates/kernel/src/terms.rs): the three bodies, the commitment each carries, the
  accessors every guard reads, and the codec. A \<open>terms\<close> value pairs a body with its hash; \<open>wf_terms\<close>
  says the hash is the body's, which the only constructor and the decoder establish.\<close>

section \<open>Definitions\<close>

record work_stake_bond_terms =
  wsb_parties :: parties
  wsb_timeout :: block_height
  wsb_timeout_outputs :: payouts
  wsb_max_job_price :: u64

record work_payment_terms =
  wp_bond_edge :: edge_id
  wp_bond_terms :: work_stake_bond_terms
  wp_private_policy_commitment :: bytes32
  wp_omit_response_blocks :: u64
  wp_start_validity_blocks :: u64
  wp_omission_bond :: u64

datatype terms_body =
    Basic protocol_code parties block_height payouts
  | WorkPayment work_payment_terms
  | WorkStakeBond work_stake_bond_terms

record kterms =
  terms_body_of :: terms_body
  terms_hash_of :: terms_hash

datatype terms_profile =
    ProfileBasic
  | ProfileWorkPayment work_payment_terms
  | ProfileWorkStakeBond work_stake_bond_terms

definition BASIC_TAG :: byte where "BASIC_TAG = 0"
definition WORK_PAYMENT_TAG :: byte where "WORK_PAYMENT_TAG = 2"
definition WORK_STAKE_BOND_TAG :: byte where "WORK_STAKE_BOND_TAG = 4"

subsection \<open>Well-formed bodies: bounded payout lists\<close>

definition wf_work_stake_bond_terms :: "work_stake_bond_terms \<Rightarrow> bool" where
  "wf_work_stake_bond_terms b \<longleftrightarrow> wf_payouts (wsb_timeout_outputs b)"

definition wf_work_payment_terms :: "work_payment_terms \<Rightarrow> bool" where
  "wf_work_payment_terms p \<longleftrightarrow> wf_work_stake_bond_terms (wp_bond_terms p)"

fun wf_terms_body :: "terms_body \<Rightarrow> bool" where
  "wf_terms_body (Basic _ _ _ outs) = wf_payouts outs"
| "wf_terms_body (WorkPayment p) = wf_work_payment_terms p"
| "wf_terms_body (WorkStakeBond b) = wf_work_stake_bond_terms b"

subsection \<open>Codecs of the bodies\<close>

definition encode_payouts :: "payouts \<Rightarrow> bytes" where "encode_payouts = encode_list encode_payout"
definition encoded_size_payouts :: "payouts \<Rightarrow> nat" where
  "encoded_size_payouts = encoded_size_list encoded_size_payout"
definition max_encoded_size_payouts :: nat where
  "max_encoded_size_payouts = max_encoded_size_list MAX_EDGE_OUTPUTS max_encoded_size_payout"
definition decode_payouts :: "payouts decoder" where
  "decode_payouts = decode_list MAX_EDGE_OUTPUTS decode_payout"

definition encode_work_stake_bond_terms :: "work_stake_bond_terms \<Rightarrow> bytes" where
  "encode_work_stake_bond_terms b = encode_parties (wsb_parties b) @ encode_block_height (wsb_timeout b)
    @ encode_payouts (wsb_timeout_outputs b) @ encode_u64 (wsb_max_job_price b)"
definition encoded_size_work_stake_bond_terms :: "work_stake_bond_terms \<Rightarrow> nat" where
  "encoded_size_work_stake_bond_terms b = encoded_size_parties (wsb_parties b) + max_encoded_size_block_height
    + encoded_size_payouts (wsb_timeout_outputs b) + max_encoded_size_u64"
definition max_encoded_size_work_stake_bond_terms :: nat where
  "max_encoded_size_work_stake_bond_terms = max_encoded_size_parties + max_encoded_size_block_height
    + max_encoded_size_payouts + max_encoded_size_u64"
definition decode_work_stake_bond_terms :: "work_stake_bond_terms decoder" where
  "decode_work_stake_bond_terms buf =
    and_then (decode_field decode_parties buf 0) (\<lambda>(ps, consumed).
    and_then (decode_field decode_block_height buf consumed) (\<lambda>(timeout, consumed).
    and_then (decode_field decode_payouts buf consumed) (\<lambda>(outs, consumed).
    and_then (decode_field decode_u64 buf consumed) (\<lambda>(price, consumed).
    Ok (\<lparr>wsb_parties = ps, wsb_timeout = timeout, wsb_timeout_outputs = outs, wsb_max_job_price = price\<rparr>,
        consumed)))))"

definition encode_work_stake_bond_witness :: "work_stake_bond_terms \<Rightarrow> bytes" where
  "encode_work_stake_bond_witness b =
    encode_envelope TAG_TERMS @ encode_u8 WORK_STAKE_BOND_TAG @ encode_work_stake_bond_terms b"
definition max_encoded_size_work_stake_bond_witness :: nat where
  "max_encoded_size_work_stake_bond_witness
    = ENVELOPE_SIZE + max_encoded_size_u8 + max_encoded_size_work_stake_bond_terms"
definition encoded_size_work_stake_bond_witness :: "work_stake_bond_terms \<Rightarrow> nat" where
  "encoded_size_work_stake_bond_witness b
    = ENVELOPE_SIZE + max_encoded_size_u8 + encoded_size_work_stake_bond_terms b"
definition decode_work_stake_bond_witness :: "work_stake_bond_terms decoder" where
  "decode_work_stake_bond_witness buf =
    and_then (decode_envelope buf TAG_TERMS) (\<lambda>consumed.
    and_then (decode_field decode_u8 buf consumed) (\<lambda>(variant, consumed).
    if variant \<noteq> WORK_STAKE_BOND_TAG then Err (InvalidTag variant)
    else and_then (decode_field decode_work_stake_bond_terms buf consumed) (\<lambda>(b, consumed). Ok (b, consumed))))"

definition encode_work_payment_terms :: "work_payment_terms \<Rightarrow> bytes" where
  "encode_work_payment_terms p = encode_edge_id (wp_bond_edge p)
    @ encode_work_stake_bond_witness (wp_bond_terms p) @ encode_bytes32 (wp_private_policy_commitment p)
    @ encode_u64 (wp_omit_response_blocks p) @ encode_u64 (wp_start_validity_blocks p)
    @ encode_u64 (wp_omission_bond p)"
definition encoded_size_work_payment_terms :: "work_payment_terms \<Rightarrow> nat" where
  "encoded_size_work_payment_terms p = max_encoded_size_edge_id
    + encoded_size_work_stake_bond_witness (wp_bond_terms p) + HASH_LENGTH + 3 * max_encoded_size_u64"
definition max_encoded_size_work_payment_terms :: nat where
  "max_encoded_size_work_payment_terms = max_encoded_size_edge_id
    + max_encoded_size_work_stake_bond_witness + HASH_LENGTH + 3 * max_encoded_size_u64"
definition decode_work_payment_terms :: "work_payment_terms decoder" where
  "decode_work_payment_terms buf =
    and_then (decode_field decode_edge_id buf 0) (\<lambda>(bond_edge, consumed).
    if length buf < consumed then Err (InvalidConsumption consumed (length buf))
    else and_then (decode_work_stake_bond_witness (drop consumed buf)) (\<lambda>(bond_terms, witness_size).
    let consumed = consumed + witness_size in
    and_then (decode_field decode_bytes32 buf consumed) (\<lambda>(commitment, consumed).
    and_then (decode_field decode_u64 buf consumed) (\<lambda>(omit, consumed).
    and_then (decode_field decode_u64 buf consumed) (\<lambda>(validity, consumed).
    and_then (decode_field decode_u64 buf consumed) (\<lambda>(omission_bond, consumed).
    Ok (\<lparr>wp_bond_edge = bond_edge, wp_bond_terms = bond_terms, wp_private_policy_commitment = commitment,
         wp_omit_response_blocks = omit, wp_start_validity_blocks = validity, wp_omission_bond = omission_bond\<rparr>,
        consumed)))))))"

definition BASIC_BODY_SIZE :: nat where
  "BASIC_BODY_SIZE = max_encoded_size_protocol_code + max_encoded_size_parties + max_encoded_size_block_height
    + max_encoded_size_payouts"

definition encode_terms_body :: "terms_body \<Rightarrow> bytes" where
  "encode_terms_body body = encode_envelope TAG_TERMS @ (case body of
      Basic protocol ps timeout outs \<Rightarrow> encode_u8 BASIC_TAG @ encode_protocol_code protocol @ encode_parties ps
        @ encode_block_height timeout @ encode_payouts outs
    | WorkPayment p \<Rightarrow> encode_u8 WORK_PAYMENT_TAG @ encode_work_payment_terms p
    | WorkStakeBond b \<Rightarrow> encode_u8 WORK_STAKE_BOND_TAG @ encode_work_stake_bond_terms b)"
definition encoded_size_terms_body :: "terms_body \<Rightarrow> nat" where
  "encoded_size_terms_body body = ENVELOPE_SIZE + max_encoded_size_u8 + (case body of
      Basic protocol ps timeout outs \<Rightarrow> encoded_size_protocol_code protocol + encoded_size_parties ps
        + encoded_size_block_height timeout + encoded_size_payouts outs
    | WorkPayment p \<Rightarrow> encoded_size_work_payment_terms p
    | WorkStakeBond b \<Rightarrow> encoded_size_work_stake_bond_terms b)"
definition max_encoded_size_terms_body :: nat where
  "max_encoded_size_terms_body =
    (let max_body = BASIC_BODY_SIZE;
         max_body = (if max_body < max_encoded_size_work_stake_bond_terms
           then max_encoded_size_work_stake_bond_terms else max_body);
         max_body = (if max_body < max_encoded_size_work_payment_terms
           then max_encoded_size_work_payment_terms else max_body)
     in ENVELOPE_SIZE + max_encoded_size_u8 + max_body)"
definition decode_terms_body :: "terms_body decoder" where
  "decode_terms_body buf =
    and_then (decode_envelope buf TAG_TERMS) (\<lambda>consumed.
    and_then (decode_field decode_u8 buf consumed) (\<lambda>(variant, consumed).
    if variant = BASIC_TAG then
      and_then (decode_field decode_protocol_code buf consumed) (\<lambda>(protocol, consumed).
      and_then (decode_field decode_parties buf consumed) (\<lambda>(ps, consumed).
      and_then (decode_field decode_block_height buf consumed) (\<lambda>(timeout, consumed).
      and_then (decode_field decode_payouts buf consumed) (\<lambda>(outs, consumed).
      Ok (Basic protocol ps timeout outs, consumed)))))
    else if variant = WORK_PAYMENT_TAG then
      and_then (decode_field decode_work_payment_terms buf consumed) (\<lambda>(p, consumed). Ok (WorkPayment p, consumed))
    else if variant = WORK_STAKE_BOND_TAG then
      and_then (decode_field decode_work_stake_bond_terms buf consumed) (\<lambda>(b, consumed). Ok (WorkStakeBond b, consumed))
    else Err (InvalidTag variant)))"

subsection \<open>Commitments\<close>

fun terms_domain :: "terms_body \<Rightarrow> bytes" where
  "terms_domain (Basic _ _ _ _) = TERMS_BASIC"
| "terms_domain (WorkPayment _) = TERMS_WORK_PAYMENT"
| "terms_domain (WorkStakeBond _) = TERMS_WORK_STAKE_BOND"

definition terms_preimage :: "terms_body \<Rightarrow> bytes" where
  "terms_preimage body = terms_domain body @ encode_terms_body body"

definition compute_hash :: "blake3 \<Rightarrow> terms_body \<Rightarrow> terms_hash" where
  "compute_hash b3 body = commit_hash b3 (terms_domain body) (encode_terms_body body)"

definition terms_commit :: "blake3 \<Rightarrow> terms_body \<Rightarrow> kterms" where
  "terms_commit b3 body = \<lparr>terms_body_of = body, terms_hash_of = compute_hash b3 body\<rparr>"

definition terms_basic :: "blake3 \<Rightarrow> protocol_code \<Rightarrow> parties \<Rightarrow> block_height \<Rightarrow> payouts \<Rightarrow> kterms" where
  "terms_basic b3 protocol ps timeout outs = terms_commit b3 (Basic protocol ps timeout outs)"
definition terms_work_payment :: "blake3 \<Rightarrow> work_payment_terms \<Rightarrow> kterms" where
  "terms_work_payment b3 p = terms_commit b3 (WorkPayment p)"
definition terms_work_stake_bond :: "blake3 \<Rightarrow> work_stake_bond_terms \<Rightarrow> kterms" where
  "terms_work_stake_bond b3 b = terms_commit b3 (WorkStakeBond b)"

definition work_stake_bond_terms_hash :: "blake3 \<Rightarrow> work_stake_bond_terms \<Rightarrow> terms_hash" where
  "work_stake_bond_terms_hash b3 b = xet_commit b3 (TERMS_WORK_STAKE_BOND @ encode_work_stake_bond_witness b)"

definition bond_terms_hash :: "blake3 \<Rightarrow> work_payment_terms \<Rightarrow> terms_hash" where
  "bond_terms_hash b3 p = work_stake_bond_terms_hash b3 (wp_bond_terms p)"

definition wf_terms :: "blake3 \<Rightarrow> kterms \<Rightarrow> bool" where
  "wf_terms b3 t \<longleftrightarrow> wf_terms_body (terms_body_of t) \<and> terms_hash_of t = compute_hash b3 (terms_body_of t)"

subsection \<open>Accessors\<close>

definition wp_parties :: "work_payment_terms \<Rightarrow> parties" where
  "wp_parties p = (let bond = wsb_parties (wp_bond_terms p) in
    parties_new (parties_taker bond) (parties_maker bond))"

definition wp_admission_horizon :: "work_payment_terms \<Rightarrow> block_height" where
  "wp_admission_horizon p = wsb_timeout (wp_bond_terms p)"

definition terms_profile_of :: "kterms \<Rightarrow> terms_profile" where
  "terms_profile_of t = (case terms_body_of t of
      Basic _ _ _ _ \<Rightarrow> ProfileBasic
    | WorkPayment p \<Rightarrow> ProfileWorkPayment p
    | WorkStakeBond b \<Rightarrow> ProfileWorkStakeBond b)"

definition basic_protocol :: "kterms \<Rightarrow> protocol_code option" where
  "basic_protocol t = (case terms_body_of t of Basic protocol _ _ _ \<Rightarrow> Some protocol | _ \<Rightarrow> None)"

definition terms_parties :: "kterms \<Rightarrow> parties" where
  "terms_parties t = (case terms_body_of t of
      Basic _ ps _ _ \<Rightarrow> ps | WorkPayment p \<Rightarrow> wp_parties p | WorkStakeBond b \<Rightarrow> wsb_parties b)"

definition terms_timeout :: "kterms \<Rightarrow> block_height" where
  "terms_timeout t = (case terms_body_of t of
      Basic _ _ timeout _ \<Rightarrow> timeout | WorkPayment p \<Rightarrow> wp_admission_horizon p | WorkStakeBond b \<Rightarrow> wsb_timeout b)"

definition terms_timeout_outputs :: "kterms \<Rightarrow> payouts option" where
  "terms_timeout_outputs t = (case terms_body_of t of
      Basic _ _ _ outs \<Rightarrow> Some outs | WorkPayment _ \<Rightarrow> None | WorkStakeBond b \<Rightarrow> Some (wsb_timeout_outputs b))"

definition terms_allowed_closes :: "kterms \<Rightarrow> close_kind_set" where
  "terms_allowed_closes t = (case terms_body_of t of
      Basic _ _ _ _ \<Rightarrow> CKS_BASIC | WorkPayment _ \<Rightarrow> CKS_WORK_PAYMENT | WorkStakeBond _ \<Rightarrow> CKS_WORK_STAKE_BOND)"

subsection \<open>Codec of committed terms\<close>

definition encode_terms :: "kterms \<Rightarrow> bytes" where "encode_terms t = encode_terms_body (terms_body_of t)"
definition encoded_size_terms :: "kterms \<Rightarrow> nat" where
  "encoded_size_terms t = encoded_size_terms_body (terms_body_of t)"
definition max_encoded_size_terms :: nat where "max_encoded_size_terms = max_encoded_size_terms_body"
definition decode_terms :: "blake3 \<Rightarrow> kterms decoder" where
  "decode_terms b3 buf =
    and_then (decode_terms_body buf) (\<lambda>(body, consumed).
      Ok (\<lparr>terms_body_of = body, terms_hash_of = compute_hash b3 body\<rparr>, consumed))"

section \<open>Codecs\<close>

interpretation payouts_codec: codec encode_payouts decode_payouts encoded_size_payouts max_encoded_size_payouts wf_payouts
  using payout_codec.list_codec [of MAX_EDGE_OUTPUTS]
  by (simp add: encode_payouts_def decode_payouts_def encoded_size_payouts_def max_encoded_size_payouts_def
      wf_payouts_def [abs_def] list_all_iff MAX_EDGE_OUTPUTS_def)

lemmas payouts_round_trip [codec_simps] = payouts_codec.round_trip
lemmas payouts_canonical [codec_dests] = payouts_codec.field_canonical
lemmas payouts_length [codec_lengths] = payouts_codec.sized
lemmas payouts_bound [codec_bounds] = payouts_codec.bounded

interpretation work_stake_bond_terms_codec: codec encode_work_stake_bond_terms decode_work_stake_bond_terms encoded_size_work_stake_bond_terms max_encoded_size_work_stake_bond_terms wf_work_stake_bond_terms
proof
  fix x n and buf rest :: bytes
  show "decode_work_stake_bond_terms (encode_work_stake_bond_terms x @ rest) = Ok (x, length (encode_work_stake_bond_terms x))" if "wf_work_stake_bond_terms x"
    using that by (simp add: decode_work_stake_bond_terms_def encode_work_stake_bond_terms_def decode_field_def codec_simps wf_work_stake_bond_terms_def  )
  show "wf_work_stake_bond_terms x \<and> n \<le> length buf \<and> take n buf = encode_work_stake_bond_terms x" if "decode_work_stake_bond_terms buf = Ok (x, n)"
    using that
    by (auto simp: decode_work_stake_bond_terms_def encode_work_stake_bond_terms_def and_then_eq_Ok wf_work_stake_bond_terms_def  split: if_splits dest!: codec_dests)
qed (auto simp: encode_work_stake_bond_terms_def encoded_size_work_stake_bond_terms_def max_encoded_size_work_stake_bond_terms_def codec_lengths codec_bounds
    wf_work_stake_bond_terms_def fixed_sizes add_mono)

lemmas work_stake_bond_terms_round_trip [codec_simps] = work_stake_bond_terms_codec.round_trip
lemmas work_stake_bond_terms_canonical [codec_dests] = work_stake_bond_terms_codec.field_canonical
lemmas work_stake_bond_terms_length [codec_lengths] = work_stake_bond_terms_codec.sized
lemmas work_stake_bond_terms_bound [codec_bounds] = work_stake_bond_terms_codec.bounded

interpretation work_stake_bond_witness_codec: codec encode_work_stake_bond_witness decode_work_stake_bond_witness
  encoded_size_work_stake_bond_witness max_encoded_size_work_stake_bond_witness wf_work_stake_bond_terms
proof
  fix x n and buf rest :: bytes
  show "decode_work_stake_bond_witness (encode_work_stake_bond_witness x @ rest)
      = Ok (x, length (encode_work_stake_bond_witness x))" if "wf_work_stake_bond_terms x"
    using that by (simp add: decode_work_stake_bond_witness_def encode_work_stake_bond_witness_def
        decode_field_def codec_simps)
  show "wf_work_stake_bond_terms x \<and> n \<le> length buf \<and> take n buf = encode_work_stake_bond_witness x"
    if "decode_work_stake_bond_witness buf = Ok (x, n)"
    using that
    by (auto simp: decode_work_stake_bond_witness_def encode_work_stake_bond_witness_def and_then_eq_Ok
        split: if_splits dest!: codec_dests)
qed (auto simp: encode_work_stake_bond_witness_def encoded_size_work_stake_bond_witness_def
    max_encoded_size_work_stake_bond_witness_def codec_lengths codec_bounds fixed_sizes)

lemmas work_stake_bond_witness_round_trip [codec_simps] = work_stake_bond_witness_codec.round_trip
lemmas work_stake_bond_witness_canonical [codec_dests] = work_stake_bond_witness_codec.field_canonical
lemmas work_stake_bond_witness_length [codec_lengths] = work_stake_bond_witness_codec.sized
lemmas work_stake_bond_witness_bound [codec_bounds] = work_stake_bond_witness_codec.bounded

interpretation work_payment_terms_codec: codec encode_work_payment_terms decode_work_payment_terms
  encoded_size_work_payment_terms max_encoded_size_work_payment_terms wf_work_payment_terms
proof
  fix x n and buf rest :: bytes
  show "decode_work_payment_terms (encode_work_payment_terms x @ rest) = Ok (x, length (encode_work_payment_terms x))"
    if "wf_work_payment_terms x"
    using that by (simp add: decode_work_payment_terms_def encode_work_payment_terms_def decode_field_def
        codec_simps wf_work_payment_terms_def)
  show "wf_work_payment_terms x \<and> n \<le> length buf \<and> take n buf = encode_work_payment_terms x"
    if "decode_work_payment_terms buf = Ok (x, n)"
    using that
    by (auto simp: decode_work_payment_terms_def encode_work_payment_terms_def and_then_eq_Ok Let_def
        wf_work_payment_terms_def take_add_append split: if_splits
        dest!: codec_dests work_stake_bond_witness_codec.canonical)
qed (auto simp: encode_work_payment_terms_def encoded_size_work_payment_terms_def
    max_encoded_size_work_payment_terms_def codec_lengths codec_bounds fixed_sizes wf_work_payment_terms_def
    max_encoded_size_bytes32_def HASH_LENGTH_def)

lemmas work_payment_terms_round_trip [codec_simps] = work_payment_terms_codec.round_trip
lemmas work_payment_terms_canonical [codec_dests] = work_payment_terms_codec.field_canonical
lemmas work_payment_terms_length [codec_lengths] = work_payment_terms_codec.sized
lemmas work_payment_terms_bound [codec_bounds] = work_payment_terms_codec.bounded

lemma max_terms_body_ge:
  "ENVELOPE_SIZE + max_encoded_size_u8 + BASIC_BODY_SIZE \<le> max_encoded_size_terms_body"
  "ENVELOPE_SIZE + max_encoded_size_u8 + max_encoded_size_work_payment_terms \<le> max_encoded_size_terms_body"
  "ENVELOPE_SIZE + max_encoded_size_u8 + max_encoded_size_work_stake_bond_terms \<le> max_encoded_size_terms_body"
  by (auto simp: max_encoded_size_terms_body_def Let_def)

interpretation terms_body_codec: codec encode_terms_body decode_terms_body encoded_size_terms_body
  max_encoded_size_terms_body wf_terms_body
proof
  fix x n and buf rest :: bytes
  show "decode_terms_body (encode_terms_body x @ rest) = Ok (x, length (encode_terms_body x))" if "wf_terms_body x"
    using that by (cases x)
      (simp_all add: decode_terms_body_def encode_terms_body_def decode_field_def codec_simps
        BASIC_TAG_def WORK_PAYMENT_TAG_def WORK_STAKE_BOND_TAG_def)
  show "wf_terms_body x \<and> n \<le> length buf \<and> take n buf = encode_terms_body x" if "decode_terms_body buf = Ok (x, n)"
    using that
    by (auto simp: decode_terms_body_def encode_terms_body_def and_then_eq_Ok split: if_splits dest!: codec_dests)
  show "length (encode_terms_body x) = encoded_size_terms_body x" if "wf_terms_body x"
    using that by (cases x) (simp_all add: encode_terms_body_def encoded_size_terms_body_def codec_lengths fixed_sizes)
  show "encoded_size_terms_body x \<le> max_encoded_size_terms_body" if w: "wf_terms_body x"
  proof (cases x)
    case (Basic protocol ps timeout outs)
    with w have "encoded_size_terms_body x \<le> ENVELOPE_SIZE + max_encoded_size_u8 + BASIC_BODY_SIZE"
      by (simp add: encoded_size_terms_body_def BASIC_BODY_SIZE_def fixed_sizes codec_bounds add_mono)
    with max_terms_body_ge(1) show ?thesis by (rule order_trans [rotated])
  next
    case (WorkPayment p)
    with w have "encoded_size_terms_body x \<le> ENVELOPE_SIZE + max_encoded_size_u8 + max_encoded_size_work_payment_terms"
      by (simp add: encoded_size_terms_body_def codec_bounds)
    with max_terms_body_ge(2) show ?thesis by (rule order_trans [rotated])
  next
    case (WorkStakeBond b)
    with w have "encoded_size_terms_body x \<le> ENVELOPE_SIZE + max_encoded_size_u8 + max_encoded_size_work_stake_bond_terms"
      by (simp add: encoded_size_terms_body_def codec_bounds)
    with max_terms_body_ge(3) show ?thesis by (rule order_trans [rotated])
  qed
qed

lemmas terms_body_round_trip [codec_simps] = terms_body_codec.round_trip
lemmas terms_body_canonical [codec_dests] = terms_body_codec.field_canonical
lemmas terms_body_length [codec_lengths] = terms_body_codec.sized
lemmas terms_body_bound [codec_bounds] = terms_body_codec.bounded

interpretation terms_codec: codec encode_terms "decode_terms b3" encoded_size_terms max_encoded_size_terms "wf_terms b3"
  for b3 :: blake3
proof
  fix x n and buf rest :: bytes
  show "decode_terms b3 (encode_terms x @ rest) = Ok (x, length (encode_terms x))" if "wf_terms b3 x"
    using that by (simp add: decode_terms_def encode_terms_def codec_simps wf_terms_def)
  show "wf_terms b3 x \<and> n \<le> length buf \<and> take n buf = encode_terms x" if "decode_terms b3 buf = Ok (x, n)"
    using that
    by (auto simp: decode_terms_def encode_terms_def wf_terms_def and_then_eq_Ok dest!: terms_body_codec.canonical)
qed (simp_all add: encode_terms_def encoded_size_terms_def max_encoded_size_terms_def wf_terms_def codec_lengths
    codec_bounds)

lemmas terms_round_trip [codec_simps] = terms_codec.round_trip
lemmas terms_canonical [codec_dests] = terms_codec.field_canonical
lemmas terms_length [codec_lengths] = terms_codec.sized
lemmas terms_bound [codec_bounds] = terms_codec.bounded

section \<open>Lemmas\<close>

text \<open>The hash a payment names its bond by is the one a bond edge opened under these terms stores.\<close>

lemma work_stake_bond_terms_hash_commit:
  "work_stake_bond_terms_hash b3 b = terms_hash_of (terms_work_stake_bond b3 b)"
  by (simp add: work_stake_bond_terms_hash_def terms_work_stake_bond_def terms_commit_def compute_hash_def
      commit_hash_def encode_terms_body_def encode_work_stake_bond_witness_def)

lemma wf_terms_commit: "wf_terms_body body \<Longrightarrow> wf_terms b3 (terms_commit b3 body)"
  by (simp add: wf_terms_def terms_commit_def)

lemma terms_allowed_closes_permitted [simp]: "wf_close_kind_set (terms_allowed_closes t)"
  by (auto simp: terms_allowed_closes_def wf_close_kind_set_def CKS_PERMITTED_def split: terms_body.splits)

end
