(* ===== verification/Kernel_Registry.thy ===== *)
theory Kernel_Registry
  imports Kernel_Object
begin

text \<open>Registry chunks (src/crates/kernel/src/registry.rs): the namespaces and record tags, the slot id
  derivation, the fixed-size chunk a value is split into with its canonical encoding, and the bounded,
  duplicate-free diff one operation writes. The chunk's data array is a byte list that the
  well-formedness predicate fixes to its 120 bytes.\<close>

section \<open>Definitions\<close>

definition REGISTRY_CHUNK_VERSION :: byte where "REGISTRY_CHUNK_VERSION = 2"
definition MAX_REGISTRY_VALUE_LEN :: nat where
  "MAX_REGISTRY_VALUE_LEN = MAX_REGISTRY_CHUNKS * REGISTRY_CHUNK_DATA_CAPACITY"

datatype registry_namespace = NsPaymentClose | NsBondLease

fun namespace_tag :: "registry_namespace \<Rightarrow> byte" where
  "namespace_tag NsPaymentClose = 0"
| "namespace_tag NsBondLease = 1"

definition namespace_from_tag :: "byte \<Rightarrow> registry_namespace option" where
  "namespace_from_tag t = (if t = 0 then Some NsPaymentClose else if t = 1 then Some NsBondLease else None)"

definition encode_registry_namespace :: "registry_namespace \<Rightarrow> bytes" where
  "encode_registry_namespace ns = [namespace_tag ns]"
definition encoded_size_registry_namespace :: "registry_namespace \<Rightarrow> nat" where
  "encoded_size_registry_namespace ns = 1"
definition max_encoded_size_registry_namespace :: nat where "max_encoded_size_registry_namespace = 1"
definition decode_registry_namespace :: "registry_namespace decoder" where
  "decode_registry_namespace buf =
    and_then (decode_u8 buf) (\<lambda>(byte, consumed).
      ok_or (InvalidTag byte) (map_option (\<lambda>ns. (ns, consumed)) (namespace_from_tag byte)))"

datatype registry_record_tag = RecPaymentPending | RecBondLease

fun record_tag_tag :: "registry_record_tag \<Rightarrow> byte" where
  "record_tag_tag RecPaymentPending = 0"
| "record_tag_tag RecBondLease = 1"

definition record_tag_from_tag :: "byte \<Rightarrow> registry_record_tag option" where
  "record_tag_from_tag t = (if t = 0 then Some RecPaymentPending else if t = 1 then Some RecBondLease else None)"

definition encode_registry_record_tag :: "registry_record_tag \<Rightarrow> bytes" where
  "encode_registry_record_tag r = [record_tag_tag r]"
definition encoded_size_registry_record_tag :: "registry_record_tag \<Rightarrow> nat" where
  "encoded_size_registry_record_tag r = 1"
definition max_encoded_size_registry_record_tag :: nat where "max_encoded_size_registry_record_tag = 1"
definition decode_registry_record_tag :: "registry_record_tag decoder" where
  "decode_registry_record_tag buf =
    and_then (decode_u8 buf) (\<lambda>(byte, consumed).
      ok_or (InvalidTag byte) (map_option (\<lambda>r. (r, consumed)) (record_tag_from_tag byte)))"

subsection \<open>Chunk ids\<close>

definition registry_chunk_id_preimage :: "network_id \<Rightarrow> registry_namespace \<Rightarrow> bytes32 \<Rightarrow> byte \<Rightarrow> bytes" where
  "registry_chunk_id_preimage network ns logical_key chunk_index =
    REGISTRY_CHUNK_ID @ encode_network_id network @ encode_registry_namespace ns
      @ encode_bytes32 logical_key @ encode_u8 chunk_index"

definition registry_chunk_id_derive ::
  "blake3 \<Rightarrow> network_id \<Rightarrow> registry_namespace \<Rightarrow> bytes32 \<Rightarrow> byte \<Rightarrow> registry_chunk_id" where
  "registry_chunk_id_derive b3 network ns logical_key chunk_index
    = xet_commit b3 (registry_chunk_id_preimage network ns logical_key chunk_index)"

definition encode_registry_chunk_id :: "registry_chunk_id \<Rightarrow> bytes" where "encode_registry_chunk_id = encode_word"
definition encoded_size_registry_chunk_id :: "registry_chunk_id \<Rightarrow> nat" where
  "encoded_size_registry_chunk_id i = ID_LENGTH"
definition max_encoded_size_registry_chunk_id :: nat where "max_encoded_size_registry_chunk_id = ID_LENGTH"
definition decode_registry_chunk_id :: "registry_chunk_id decoder" where
  "decode_registry_chunk_id buf = and_then (decode_fixed ID_LENGTH buf) (\<lambda>(bs, n). Ok (from_be_bytes bs, n))"

subsection \<open>Chunks\<close>

record registry_chunk =
  rc_namespace :: registry_namespace
  rc_record_tag :: registry_record_tag
  rc_chunk_index :: byte
  rc_chunk_count :: byte
  rc_value_len :: u16
  rc_data_len :: byte
  rc_data :: bytes

definition chunk_count_for :: "nat \<Rightarrow> byte option" where
  "chunk_count_for value_len =
    (if value_len = 0 \<or> MAX_REGISTRY_VALUE_LEN < value_len then None
     else Some (of_nat ((value_len + REGISTRY_CHUNK_DATA_CAPACITY - 1) div REGISTRY_CHUNK_DATA_CAPACITY)))"

definition chunk_split ::
  "registry_namespace \<Rightarrow> registry_record_tag \<Rightarrow> bytes \<Rightarrow> byte \<Rightarrow> registry_chunk option" where
  "chunk_split ns r v chunk_index =
    (case chunk_count_for (length v) of
       None \<Rightarrow> None
     | Some chunk_count \<Rightarrow>
         if chunk_count \<le> chunk_index then None
         else let start = unat chunk_index * REGISTRY_CHUNK_DATA_CAPACITY in
           if length v < start then None
           else let live = take REGISTRY_CHUNK_DATA_CAPACITY (drop start v) in
             if 2 ^ 16 \<le> length v then None
             else if 2 ^ 8 \<le> length live then None
             else Some \<lparr>rc_namespace = ns, rc_record_tag = r, rc_chunk_index = chunk_index,
                rc_chunk_count = chunk_count, rc_value_len = of_nat (length v),
                rc_data_len = of_nat (length live),
                rc_data = live @ replicate (REGISTRY_CHUNK_DATA_CAPACITY - length live) 0\<rparr>)"

definition chunk_data :: "registry_chunk \<Rightarrow> bytes" where
  "chunk_data c =
    (if length (rc_data c) < unat (rc_data_len c) then [] else take (unat (rc_data_len c)) (rc_data c))"

definition expected_data_len :: "u16 \<Rightarrow> byte \<Rightarrow> byte \<Rightarrow> byte option" where
  "expected_data_len value_len chunk_index chunk_count =
    (let index = unat chunk_index in
     if index + 1 < unat chunk_count then Some (of_nat REGISTRY_CHUNK_DATA_CAPACITY)
     else if unat value_len < index * REGISTRY_CHUNK_DATA_CAPACITY then None
     else let remainder = unat value_len - index * REGISTRY_CHUNK_DATA_CAPACITY in
       if remainder = 0 \<or> REGISTRY_CHUNK_DATA_CAPACITY < remainder then None
       else Some (of_nat remainder))"

definition wf_registry_chunk :: "registry_chunk \<Rightarrow> bool" where
  "wf_registry_chunk c \<longleftrightarrow>
    chunk_count_for (unat (rc_value_len c)) = Some (rc_chunk_count c)
    \<and> rc_chunk_index c < rc_chunk_count c
    \<and> expected_data_len (rc_value_len c) (rc_chunk_index c) (rc_chunk_count c) = Some (rc_data_len c)
    \<and> length (rc_data c) = REGISTRY_CHUNK_DATA_CAPACITY
    \<and> unat (rc_data_len c) \<le> length (rc_data c)
    \<and> list_all (\<lambda>b. b = 0) (drop (unat (rc_data_len c)) (rc_data c))"

definition encode_registry_chunk :: "registry_chunk \<Rightarrow> bytes" where
  "encode_registry_chunk c = encode_envelope TAG_REGISTRY_CHUNK @ encode_u8 REGISTRY_CHUNK_VERSION
    @ encode_registry_namespace (rc_namespace c) @ encode_registry_record_tag (rc_record_tag c)
    @ encode_u8 (rc_chunk_index c) @ encode_u8 (rc_chunk_count c) @ encode_u16 (rc_value_len c)
    @ encode_u8 (rc_data_len c) @ rc_data c"
definition max_encoded_size_registry_chunk :: nat where
  "max_encoded_size_registry_chunk = ENVELOPE_SIZE + 6 * max_encoded_size_u8 + max_encoded_size_u16
    + REGISTRY_CHUNK_DATA_CAPACITY"
definition encoded_size_registry_chunk :: "registry_chunk \<Rightarrow> nat" where
  "encoded_size_registry_chunk c = max_encoded_size_registry_chunk"

definition decode_registry_chunk :: "registry_chunk decoder" where
  "decode_registry_chunk buf =
    and_then (decode_envelope buf TAG_REGISTRY_CHUNK) (\<lambda>consumed.
    and_then (decode_field decode_u8 buf consumed) (\<lambda>(version, consumed).
    if version \<noteq> REGISTRY_CHUNK_VERSION then Err (InvalidTag version) else
    and_then (decode_field decode_registry_namespace buf consumed) (\<lambda>(ns, consumed).
    and_then (decode_field decode_registry_record_tag buf consumed) (\<lambda>(r, consumed).
    and_then (decode_field decode_u8 buf consumed) (\<lambda>(chunk_index, consumed).
    and_then (decode_field decode_u8 buf consumed) (\<lambda>(chunk_count, consumed).
    and_then (decode_field decode_u16 buf consumed) (\<lambda>(value_len, consumed).
    and_then (decode_field decode_u8 buf consumed) (\<lambda>(data_len, consumed).
    and_then (decode_field (decode_fixed REGISTRY_CHUNK_DATA_CAPACITY) buf consumed) (\<lambda>(d, consumed).
    if chunk_count_for (unat value_len) \<noteq> Some chunk_count
      then Err (NonCanonical ''RegistryChunk.chunk_count'')
    else if chunk_count \<le> chunk_index then Err (NonCanonical ''RegistryChunk.chunk_index'')
    else if expected_data_len value_len chunk_index chunk_count \<noteq> Some data_len
      then Err (NonCanonical ''RegistryChunk.data_len'')
    else if length d < unat data_len then Err (NonCanonical ''RegistryChunk.data_len'')
    else if list_ex (\<lambda>b. b \<noteq> 0) (drop (unat data_len) d) then Err (NonCanonical ''RegistryChunk.data'')
    else Ok (\<lparr>rc_namespace = ns, rc_record_tag = r, rc_chunk_index = chunk_index, rc_chunk_count = chunk_count,
              rc_value_len = value_len, rc_data_len = data_len, rc_data = d\<rparr>, consumed))))))))))"

subsection \<open>Mutations and diffs\<close>

record registry_mutation =
  rm_id :: registry_chunk_id
  rm_chunk :: "registry_chunk option"

definition mutation_write :: "registry_chunk_id \<Rightarrow> registry_chunk \<Rightarrow> registry_mutation" where
  "mutation_write i c = \<lparr>rm_id = i, rm_chunk = Some c\<rparr>"
definition mutation_delete :: "registry_chunk_id \<Rightarrow> registry_mutation" where
  "mutation_delete i = \<lparr>rm_id = i, rm_chunk = None\<rparr>"

type_synonym registry_diff = "registry_mutation list"

definition diff_empty :: registry_diff where "diff_empty = []"

definition diff_contains :: "registry_diff \<Rightarrow> registry_chunk_id \<Rightarrow> bool" where
  "diff_contains d i \<longleftrightarrow> list_ex (\<lambda>m. rm_id m = i) d"

definition diff_push :: "registry_diff \<Rightarrow> registry_mutation \<Rightarrow> (registry_diff, registry_diff_error) result" where
  "diff_push d m =
    (if diff_contains d (rm_id m) then Err (DiffDuplicate (rm_id m))
     else if MAX_REGISTRY_MUTATIONS \<le> length d then Err DiffFull
     else Ok (d @ [m]))"

text \<open>What \<^verbatim>\<open>push\<close> keeps: a diff that exists is bounded and names no slot twice.\<close>

definition wf_registry_diff :: "registry_diff \<Rightarrow> bool" where
  "wf_registry_diff d \<longleftrightarrow> length d \<le> MAX_REGISTRY_MUTATIONS \<and> distinct (map rm_id d)"

section \<open>Codecs\<close>

lemma namespace_from_tag_Some: "namespace_from_tag t = Some ns \<longleftrightarrow> t = namespace_tag ns"
  by (cases ns) (auto simp: namespace_from_tag_def)

lemma record_tag_from_tag_Some: "record_tag_from_tag t = Some r \<longleftrightarrow> t = record_tag_tag r"
  by (cases r) (auto simp: record_tag_from_tag_def)

lemma namespace_tag_inject [simp]: "namespace_tag a = namespace_tag b \<longleftrightarrow> a = b"
  by (cases a; cases b) simp_all

interpretation registry_namespace_codec: codec encode_registry_namespace decode_registry_namespace
  encoded_size_registry_namespace max_encoded_size_registry_namespace "\<lambda>_. True"
proof
  fix x n and buf rest :: bytes
  show "decode_registry_namespace (encode_registry_namespace x @ rest) = Ok (x, length (encode_registry_namespace x))"
    by (cases x) (simp_all add: decode_registry_namespace_def encode_registry_namespace_def decode_u8_def namespace_from_tag_def)
  show "True \<and> n \<le> length buf \<and> take n buf = encode_registry_namespace x" if "decode_registry_namespace buf = Ok (x, n)"
    using that
    by (auto simp: decode_registry_namespace_def encode_registry_namespace_def decode_u8_def and_then_eq_Ok
        ok_or_eq_Ok namespace_from_tag_Some split: list.splits)
qed (simp_all add: encode_registry_namespace_def encoded_size_registry_namespace_def max_encoded_size_registry_namespace_def)

interpretation registry_record_tag_codec: codec encode_registry_record_tag decode_registry_record_tag
  encoded_size_registry_record_tag max_encoded_size_registry_record_tag "\<lambda>_. True"
proof
  fix x n and buf rest :: bytes
  show "decode_registry_record_tag (encode_registry_record_tag x @ rest) = Ok (x, length (encode_registry_record_tag x))"
    by (cases x) (simp_all add: decode_registry_record_tag_def encode_registry_record_tag_def decode_u8_def record_tag_from_tag_def)
  show "True \<and> n \<le> length buf \<and> take n buf = encode_registry_record_tag x" if "decode_registry_record_tag buf = Ok (x, n)"
    using that
    by (auto simp: decode_registry_record_tag_def encode_registry_record_tag_def decode_u8_def and_then_eq_Ok
        ok_or_eq_Ok record_tag_from_tag_Some split: list.splits)
qed (simp_all add: encode_registry_record_tag_def encoded_size_registry_record_tag_def max_encoded_size_registry_record_tag_def)

interpretation registry_chunk_id_codec: codec encode_registry_chunk_id decode_registry_chunk_id
  encoded_size_registry_chunk_id max_encoded_size_registry_chunk_id "\<lambda>_. True"
  unfolding encode_registry_chunk_id_def
  by (rule word_codec_fixed)
    (auto simp: decode_registry_chunk_id_def encoded_size_registry_chunk_id_def
      max_encoded_size_registry_chunk_id_def ID_LENGTH_def HASH_LENGTH_def)

lemma byte_array_codec: "codec (\<lambda>x. x) (decode_fixed N) length N (\<lambda>x. length x = N)"
  by unfold_locales (auto simp: decode_fixed_def split: if_splits)

interpretation chunk_data_codec: codec "\<lambda>x. x" "decode_fixed REGISTRY_CHUNK_DATA_CAPACITY" length
  REGISTRY_CHUNK_DATA_CAPACITY "\<lambda>x. length x = REGISTRY_CHUNK_DATA_CAPACITY"
  by (rule byte_array_codec)

lemmas registry_round_trips [codec_simps] = registry_namespace_codec.round_trip
  registry_record_tag_codec.round_trip registry_chunk_id_codec.round_trip chunk_data_codec.round_trip
lemmas registry_canonical [codec_dests] = registry_namespace_codec.field_canonical
  registry_record_tag_codec.field_canonical registry_chunk_id_codec.field_canonical
  chunk_data_codec.field_canonical
lemmas registry_lengths [codec_lengths] = registry_namespace_codec.sized
  registry_record_tag_codec.sized registry_chunk_id_codec.sized

interpretation registry_chunk_codec: codec encode_registry_chunk decode_registry_chunk
  encoded_size_registry_chunk max_encoded_size_registry_chunk wf_registry_chunk
proof
  fix x n and buf rest :: bytes
  show "decode_registry_chunk (encode_registry_chunk x @ rest) = Ok (x, length (encode_registry_chunk x))"
    if "wf_registry_chunk x"
    using that
    by (simp add: decode_registry_chunk_def encode_registry_chunk_def decode_field_def codec_simps
        wf_registry_chunk_def not_le not_less list_ex_iff list_all_iff)
  show "wf_registry_chunk x \<and> n \<le> length buf \<and> take n buf = encode_registry_chunk x"
    if "decode_registry_chunk buf = Ok (x, n)"
    using that
    by (auto simp: decode_registry_chunk_def encode_registry_chunk_def and_then_eq_Ok wf_registry_chunk_def
        not_le not_less list_ex_iff list_all_iff split: if_splits dest!: codec_dests)
qed (auto simp: encode_registry_chunk_def encoded_size_registry_chunk_def max_encoded_size_registry_chunk_def
    codec_lengths primitive_sizes wf_registry_chunk_def encoded_size_registry_namespace_def
    encoded_size_registry_record_tag_def)

lemmas registry_chunk_round_trip [codec_simps] = registry_chunk_codec.round_trip
lemmas registry_chunk_canonical [codec_dests] = registry_chunk_codec.field_canonical

section \<open>Splitting and reassembling a value\<close>

lemma chunk_count_for_Some:
  assumes "chunk_count_for n = Some k"
  shows "0 < n" "n \<le> 30600" "unat k = (n + 119) div 120" "0 < k" "n \<le> unat k * 120" "(unat k - 1) * 120 < n"
proof -
  from assms show n: "0 < n" "n \<le> 30600"
    by (auto simp: chunk_count_for_def MAX_REGISTRY_VALUE_LEN_def bound_defs split: if_splits)
  with assms have k: "k = of_nat ((n + 119) div 120)"
    by (auto simp: chunk_count_for_def bound_defs add.commute split: if_splits)
  have lt: "(n + 119) div 120 < 256" using n by simp
  with k show u: "unat k = (n + 119) div 120" by (simp add: unat_of_nat)
  then have "0 < unat k" using n(1) by simp
  then show "0 < k" by (simp add: word_less_nat_alt)
  let ?q = "(n + 119) div 120"
  have "?q * 120 + (n + 119) mod 120 = n + 119" by (rule div_mult_mod_eq)
  moreover have "(n + 119) mod 120 < 120" by simp
  ultimately show "n \<le> unat k * 120" "(unat k - 1) * 120 < n"
    unfolding u using n(1) by (simp_all add: diff_mult_distrib)
qed

lemma unat_of_nat_byte: "n < 256 \<Longrightarrow> unat (of_nat n :: byte) = n"
  by (simp add: unat_of_nat)

lemma unat_of_nat_u16: "n < 65536 \<Longrightarrow> unat (of_nat n :: u16) = n"
  by (simp add: unat_of_nat)

lemma chunk_split_Some_iff:
  "chunk_split ns r v i = Some c \<longleftrightarrow>
    (\<exists>k. chunk_count_for (length v) = Some k \<and> i < k \<and>
      (let live = take 120 (drop (unat i * 120) v) in
       c = \<lparr>rc_namespace = ns, rc_record_tag = r, rc_chunk_index = i, rc_chunk_count = k,
         rc_value_len = of_nat (length v), rc_data_len = of_nat (length live),
         rc_data = live @ replicate (120 - length live) 0\<rparr>))"
proof (cases "chunk_count_for (length v)")
  case None then show ?thesis by (simp add: chunk_split_def)
next
  case (Some k)
  note cc = chunk_count_for_Some [OF Some]
  have start: "unat i * 120 \<le> length v" if "i < k"
  proof -
    have "unat i \<le> unat k - 1" using that by (simp add: word_less_nat_alt)
    then have "unat i * 120 \<le> (unat k - 1) * 120" by simp
    then show ?thesis using cc(6) by linarith
  qed
  then show ?thesis using Some cc(2)
    by (auto simp: chunk_split_def Let_def bound_defs not_le not_less)
qed

lemma chunk_split_in_range:
  assumes "chunk_count_for (length v) = Some k" and "i < k"
  shows "\<exists>c. chunk_split ns r v i = Some c"
  using assms chunk_split_Some_iff [of ns r v i] by (simp add: Let_def)

lemma chunk_split_live:
  assumes "chunk_count_for n = Some k" and "i < k"
  shows "n - unat i * 120 > 0"
    and "unat i + 1 < unat k \<Longrightarrow> 120 \<le> n - unat i * 120"
    and "\<not> unat i + 1 < unat k \<Longrightarrow> n - unat i * 120 \<le> 120"
proof -
  note cc = chunk_count_for_Some [OF assms(1)]
  have ik: "unat i < unat k" using assms(2) by (simp add: word_less_nat_alt)
  then have "unat i * 120 \<le> (unat k - 1) * 120" by simp
  then show "n - unat i * 120 > 0" using cc(6) by linarith
  show "120 \<le> n - unat i * 120" if "unat i + 1 < unat k"
  proof -
    have "(unat i + 1) * 120 \<le> (unat k - 1) * 120" using that by simp
    then show ?thesis using cc(6) by simp
  qed
  show "n - unat i * 120 \<le> 120" if "\<not> unat i + 1 < unat k"
  proof -
    have "unat k = unat i + 1" using that ik by simp
    then show ?thesis using cc(5) by simp
  qed
qed

text \<open>A split chunk is a well-formed chunk that carries its slice of the value.\<close>

lemma chunk_split_wf:
  assumes "chunk_split ns r v i = Some c"
  shows "wf_registry_chunk c" and "chunk_data c = take 120 (drop (unat i * 120) v)"
    and "rc_namespace c = ns" "rc_record_tag c = r" "rc_chunk_index c = i"
    and "chunk_count_for (length v) = Some (rc_chunk_count c)" "unat (rc_value_len c) = length v"
proof -
  from assms obtain k where k: "chunk_count_for (length v) = Some k" "i < k"
    and c: "c = \<lparr>rc_namespace = ns, rc_record_tag = r, rc_chunk_index = i, rc_chunk_count = k,
         rc_value_len = of_nat (length v), rc_data_len = of_nat (min 120 (length v - unat i * 120)),
         rc_data = take 120 (drop (unat i * 120) v) @ replicate (120 - (length v - unat i * 120)) 0\<rparr>"
    unfolding chunk_split_Some_iff by (auto simp: Let_def min.commute)
  note live = chunk_split_live [OF k]
  have len: "length v < 65536" using chunk_count_for_Some(2) [OF k(1)] by simp
  then have vl: "unat (of_nat (length v) :: u16) = length v" by (rule unat_of_nat_u16)
  have dl: "unat (of_nat (min 120 (length v - unat i * 120)) :: byte) = min 120 (length v - unat i * 120)"
    by (rule unat_of_nat_byte) simp
  have "expected_data_len (of_nat (length v)) i k = Some (of_nat (min 120 (length v - unat i * 120)))"
    using live by (cases "unat i + 1 < unat k") (auto simp: expected_data_len_def Let_def vl bound_defs min_def)
  then show "wf_registry_chunk c"
    using k by (auto simp: c wf_registry_chunk_def vl dl bound_defs list_all_iff)
  show "chunk_data c = take 120 (drop (unat i * 120) v)"
    by (cases "length v - unat i * 120 \<le> 120") (simp_all add: c chunk_data_def unat_of_nat_byte)
  show "rc_namespace c = ns" "rc_record_tag c = r" "rc_chunk_index c = i"
    "chunk_count_for (length v) = Some (rc_chunk_count c)" "unat (rc_value_len c) = length v"
    using k vl by (simp_all add: c)
qed

lemma concat_slices: "concat (map (\<lambda>i. take n (drop (i * n) v)) [0..<k]) = take (k * n) v"
proof (induction k)
  case (Suc k)
  have "take (k * n) v @ take n (drop (k * n) v) = take (k * n + n) v" by (simp add: take_add)
  with Suc show ?case by (simp add: add.commute)
qed simp

text \<open>The slices of all chunks in order are the value.\<close>

lemma chunk_split_concat:
  assumes "chunk_count_for (length v) = Some k"
    and "\<And>i. i < unat k \<Longrightarrow> chunk_split ns r v (of_nat i) = Some (cs i)"
  shows "concat (map (\<lambda>i. chunk_data (cs i)) [0..<unat k]) = v"
proof -
  have "chunk_data (cs i) = take 120 (drop (i * 120) v)" if "i < unat k" for i
  proof -
    have "unat (of_nat i :: byte) = i" using that unat_byte_less [of k] by (intro unat_of_nat_byte) simp
    then show ?thesis using chunk_split_wf(2) [OF assms(2) [OF that]] by simp
  qed
  then have "map (\<lambda>i. chunk_data (cs i)) [0..<unat k] = map (\<lambda>i. take 120 (drop (i * 120) v)) [0..<unat k]"
    by simp
  then have "concat (map (\<lambda>i. chunk_data (cs i)) [0..<unat k]) = take (unat k * 120) v"
    by (simp only: concat_slices)
  then show ?thesis using chunk_count_for_Some(5) [OF assms(1)] by simp
qed

text \<open>The slot preimage determines the network, the namespace, the key and the index.\<close>

lemma registry_chunk_id_preimage_inject:
  assumes "wf_network_id m" "wf_network_id n"
    and "registry_chunk_id_preimage m a k i = registry_chunk_id_preimage n b l j"
  shows "m = n \<and> a = b \<and> k = l \<and> i = j"
proof -
  from assms(3) have "encode_network_id m @ encode_registry_namespace a @ encode_bytes32 k @ encode_u8 i
      = encode_network_id n @ encode_registry_namespace b @ encode_bytes32 l @ encode_u8 j"
    by (simp add: registry_chunk_id_preimage_def)
  from encode_network_id_prefix_free [OF assms(1,2) this] have "m = n"
    and "encode_registry_namespace a @ encode_bytes32 k @ encode_u8 i
      = encode_registry_namespace b @ encode_bytes32 l @ encode_u8 j" by blast+
  then show ?thesis
    using bytes32_codec.prefix_free [of k "encode_u8 i" l "encode_u8 j"]
    by (auto simp: encode_registry_namespace_def encode_u8_def)
qed

lemma registry_chunk_id_preimage_length:
  "wf_network_id n \<Longrightarrow> length (registry_chunk_id_preimage n ns k i) < MIN_CHUNK_SIZE"
  using encode_network_id_le [of n]
  by (simp add: registry_chunk_id_preimage_def codec_lengths primitive_sizes id_sizes REGISTRY_CHUNK_ID_def
      MIN_CHUNK_SIZE_def max_encoded_size_network_id_def MAX_NETWORK_ID_LENGTH_def
      encoded_size_registry_namespace_def)

subsection \<open>Diffs\<close>

lemma wf_diff_empty [simp]: "wf_registry_diff diff_empty"
  by (simp add: wf_registry_diff_def diff_empty_def)

lemma diff_push_Ok_iff:
  "diff_push d m = Ok d' \<longleftrightarrow> rm_id m \<notin> rm_id ` set d \<and> length d < MAX_REGISTRY_MUTATIONS \<and> d' = d @ [m]"
  by (auto simp: diff_push_def diff_contains_def list_ex_iff not_le image_iff) metis

lemma diff_push_wf: "diff_push d m = Ok d' \<Longrightarrow> wf_registry_diff d \<Longrightarrow> wf_registry_diff d'"
  by (auto simp: diff_push_Ok_iff wf_registry_diff_def)

end
