(* ===== verification/Kernel_Store.thy ===== *)
theory Kernel_Store
  imports Kernel_Registry
begin

text \<open>The object-store boundary (src/crates/kernel/src/store.rs). The kernel is generic over the
  \<^verbatim>\<open>Batch\<close> trait, so the model's transitions take its operations as a record \<open>batch_ops\<close>. The locale
  \<open>batch\<close> is the contract the trait documents: an insert fills an empty slot and nothing else, a remove
  empties its slot and returns what was there, and only finitely many slots are live. The clients'
  lemmas are proved here once for every store that honours it; Working_Set interprets it for the
  chain's own working set.\<close>

section \<open>Definitions\<close>

record 's batch_ops =
  b_coin :: "'s \<Rightarrow> coin_id \<Rightarrow> coin option"
  b_insert_coin :: "'s \<Rightarrow> coin_id \<Rightarrow> coin \<Rightarrow> ('s, insert_error) result"
  b_remove_coin :: "'s \<Rightarrow> coin_id \<Rightarrow> coin option \<times> 's"
  b_edge :: "'s \<Rightarrow> edge_id \<Rightarrow> edge option"
  b_insert_edge :: "'s \<Rightarrow> edge_id \<Rightarrow> edge \<Rightarrow> ('s, insert_error) result"
  b_remove_edge :: "'s \<Rightarrow> edge_id \<Rightarrow> edge option \<times> 's"
  b_registry_chunk :: "'s \<Rightarrow> registry_chunk_id \<Rightarrow> registry_chunk option"
  b_insert_registry_chunk :: "'s \<Rightarrow> registry_chunk_id \<Rightarrow> registry_chunk \<Rightarrow> ('s, insert_error) result"
  b_remove_registry_chunk :: "'s \<Rightarrow> registry_chunk_id \<Rightarrow> registry_chunk option \<times> 's"

text \<open>A store hands out batches and takes a committed one back; a batch that is not committed leaves the
  store as it was, which in the model is the caller keeping the old store.\<close>

record ('st, 's) store_ops =
  st_begin :: "'st \<Rightarrow> 's"
  st_commit :: "'s \<Rightarrow> 'st"
  st_batch :: "'s batch_ops"

subsection \<open>Registry writes\<close>

definition mutation_fold :: "'s batch_ops \<Rightarrow> 's \<Rightarrow> registry_mutation \<Rightarrow> ('s, apply_error) result" where
  "mutation_fold ops s m =
    (case rm_chunk m of
       Some c \<Rightarrow>
         let s1 = snd (b_remove_registry_chunk ops s (rm_id m)) in
         map_err (RegistryChunkInsertRejected (rm_id m)) (b_insert_registry_chunk ops s1 (rm_id m) c)
     | None \<Rightarrow>
         (case b_remove_registry_chunk ops s (rm_id m) of
            (removed, s1) \<Rightarrow>
              and_then (ok_or (MissingRegistryChunk (rm_id m)) removed) (\<lambda>_. Ok s1)))"

definition diff_fold :: "'s batch_ops \<Rightarrow> 's \<Rightarrow> registry_diff \<Rightarrow> ('s, apply_error) result" where
  "diff_fold ops s d = try_fold (mutation_fold ops) s d"

subsection \<open>Genesis seeds\<close>

definition genesis_insert :: "'s batch_ops \<Rightarrow> 's \<Rightarrow> genesis \<Rightarrow> ('s, insert_error) result" where
  "genesis_insert ops s g = b_insert_coin ops s (genesis_id g) (genesis_coin g)"

subsection \<open>Coin and edge writes\<close>

text \<open>The private mutations of event.rs.\<close>

definition insert_coin :: "'s batch_ops \<Rightarrow> 's \<Rightarrow> coin_id \<times> coin \<Rightarrow> ('s, apply_error) result" where
  "insert_coin ops s c = map_err (CoinInsertRejected (fst c)) (b_insert_coin ops s (fst c) (snd c))"

definition remove_coin :: "'s batch_ops \<Rightarrow> 's \<Rightarrow> coin_id \<times> coin \<Rightarrow> ('s, apply_error) result" where
  "remove_coin ops s c =
    (case b_remove_coin ops s (fst c) of (removed, s1) \<Rightarrow>
      case removed of
        Some r \<Rightarrow> if r = snd c then Ok s1 else Err (CoinChanged (fst c))
      | None \<Rightarrow> Err (MissingCoin (fst c)))"

definition insert_coins :: "'s batch_ops \<Rightarrow> 's \<Rightarrow> (coin_id \<times> coin) list \<Rightarrow> ('s, apply_error) result" where
  "insert_coins ops s cs = try_fold (insert_coin ops) s cs"

definition remove_coins :: "'s batch_ops \<Rightarrow> 's \<Rightarrow> (coin_id \<times> coin) list \<Rightarrow> ('s, apply_error) result" where
  "remove_coins ops s cs = try_fold (remove_coin ops) s cs"

definition insert_edge :: "'s batch_ops \<Rightarrow> 's \<Rightarrow> edge_id \<times> edge \<Rightarrow> ('s, apply_error) result" where
  "insert_edge ops s e = map_err (EdgeInsertRejected (fst e)) (b_insert_edge ops s (fst e) (snd e))"

definition remove_edge :: "'s batch_ops \<Rightarrow> 's \<Rightarrow> edge_id \<times> edge \<Rightarrow> ('s, apply_error) result" where
  "remove_edge ops s e =
    (case b_remove_edge ops s (fst e) of (removed, s1) \<Rightarrow>
      case removed of
        Some r \<Rightarrow> if r = snd e then Ok s1 else Err (EdgeChanged (fst e))
      | None \<Rightarrow> Err (MissingEdge (fst e)))"

subsection \<open>The value a store holds\<close>

definition coin_supply :: "(coin_id \<Rightarrow> coin option) \<Rightarrow> nat" where
  "coin_supply m = (\<Sum>i \<in> dom m. unat (coin_value (the (m i))))"

definition edge_locked :: "edge \<Rightarrow> nat" where
  "edge_locked e = unat (edge_value e) + unat (edge_reserve e)"

definition edge_supply :: "(edge_id \<Rightarrow> edge option) \<Rightarrow> nat" where
  "edge_supply m = (\<Sum>i \<in> dom m. edge_locked (the (m i)))"

definition total_value :: "'s batch_ops \<Rightarrow> 's \<Rightarrow> nat" where
  "total_value ops s = coin_supply (b_coin ops s) + edge_supply (b_edge ops s)"

definition coins_value :: "(coin_id \<times> coin) list \<Rightarrow> nat" where
  "coins_value cs = (\<Sum>c\<leftarrow>cs. unat (coin_value (snd c)))"

section \<open>Lemmas on supplies\<close>

lemma coin_supply_insert:
  "finite (dom m) \<Longrightarrow> m i = None \<Longrightarrow> coin_supply (m(i \<mapsto> c)) = coin_supply m + unat (coin_value c)"
  by (simp add: coin_supply_def domIff cong: sum.cong_simp)
    (rule sum.cong, auto)

lemma coin_supply_remove:
  assumes "finite (dom m)" "m i = Some c"
  shows "coin_supply m = coin_supply (m(i := None)) + unat (coin_value c)"
proof -
  have "m = (m(i := None))(i \<mapsto> c)" using assms(2) by auto
  then show ?thesis using coin_supply_insert [of "m(i := None)" i c] assms(1) by simp
qed

lemma edge_supply_insert:
  "finite (dom m) \<Longrightarrow> m i = None \<Longrightarrow> edge_supply (m(i \<mapsto> e)) = edge_supply m + edge_locked e"
  by (simp add: edge_supply_def domIff cong: sum.cong_simp)
    (rule sum.cong, auto)

lemma edge_supply_remove:
  assumes "finite (dom m)" "m i = Some e"
  shows "edge_supply m = edge_supply (m(i := None)) + edge_locked e"
proof -
  have "m = (m(i := None))(i \<mapsto> e)" using assms(2) by auto
  then show ?thesis using edge_supply_insert [of "m(i := None)" i e] assms(1) by simp
qed

section \<open>The batch interface\<close>

locale batch =
  fixes ops :: "'s batch_ops" and inv :: "'s \<Rightarrow> bool"
  assumes finite_live: "inv s \<Longrightarrow> finite (dom (b_coin ops s)) \<and> finite (dom (b_edge ops s))"
    and insert_coin_Ok: "inv s \<Longrightarrow> b_insert_coin ops s i c = Ok s' \<Longrightarrow>
      inv s' \<and> b_coin ops s i = None \<and> b_coin ops s' = (b_coin ops s)(i \<mapsto> c)
      \<and> b_edge ops s' = b_edge ops s \<and> b_registry_chunk ops s' = b_registry_chunk ops s"
    and insert_coin_Err: "inv s \<Longrightarrow> b_insert_coin ops s i c = Err z \<Longrightarrow>
      z = Exists \<longleftrightarrow> b_coin ops s i \<noteq> None"
    and remove_coin_result: "inv s \<Longrightarrow> b_remove_coin ops s i = (r, s') \<Longrightarrow>
      inv s' \<and> r = b_coin ops s i \<and> b_coin ops s' = (b_coin ops s)(i := None)
      \<and> b_edge ops s' = b_edge ops s \<and> b_registry_chunk ops s' = b_registry_chunk ops s"
    and insert_edge_Ok: "inv s \<Longrightarrow> b_insert_edge ops s j e = Ok s' \<Longrightarrow>
      inv s' \<and> b_edge ops s j = None \<and> b_edge ops s' = (b_edge ops s)(j \<mapsto> e)
      \<and> b_coin ops s' = b_coin ops s \<and> b_registry_chunk ops s' = b_registry_chunk ops s"
    and insert_edge_Err: "inv s \<Longrightarrow> b_insert_edge ops s j e = Err x \<Longrightarrow>
      x = Exists \<longleftrightarrow> b_edge ops s j \<noteq> None"
    and remove_edge_result: "inv s \<Longrightarrow> b_remove_edge ops s j = (q, s') \<Longrightarrow>
      inv s' \<and> q = b_edge ops s j \<and> b_edge ops s' = (b_edge ops s)(j := None)
      \<and> b_coin ops s' = b_coin ops s \<and> b_registry_chunk ops s' = b_registry_chunk ops s"
    and insert_registry_Ok: "inv s \<Longrightarrow> b_insert_registry_chunk ops s k rc = Ok s' \<Longrightarrow>
      inv s' \<and> b_registry_chunk ops s k = None \<and> b_registry_chunk ops s' = (b_registry_chunk ops s)(k \<mapsto> rc)
      \<and> b_coin ops s' = b_coin ops s \<and> b_edge ops s' = b_edge ops s"
    and insert_registry_Err: "inv s \<Longrightarrow> b_insert_registry_chunk ops s k rc = Err y \<Longrightarrow>
      y = Exists \<longleftrightarrow> b_registry_chunk ops s k \<noteq> None"
    and remove_registry_result: "inv s \<Longrightarrow> b_remove_registry_chunk ops s k = (u, s') \<Longrightarrow>
      inv s' \<and> u = b_registry_chunk ops s k \<and> b_registry_chunk ops s' = (b_registry_chunk ops s)(k := None)
      \<and> b_coin ops s' = b_coin ops s \<and> b_edge ops s' = b_edge ops s"
begin

subsection \<open>Coins\<close>

lemma insert_coin_step:
  assumes "inv s" "insert_coin ops s c = Ok s'"
  shows "inv s' \<and> b_coin ops s (fst c) = None \<and> b_coin ops s' = (b_coin ops s)(fst c \<mapsto> snd c)
    \<and> b_edge ops s' = b_edge ops s \<and> b_registry_chunk ops s' = b_registry_chunk ops s
    \<and> total_value ops s' = total_value ops s + unat (coin_value (snd c))"
  using assms insert_coin_Ok [of s "fst c" "snd c" s'] finite_live [of s]
  by (simp add: insert_coin_def map_err_eq_Ok total_value_def coin_supply_insert)

lemma remove_coin_step:
  assumes "inv s" "remove_coin ops s c = Ok s'"
  shows "inv s' \<and> b_coin ops s (fst c) = Some (snd c) \<and> b_coin ops s' = (b_coin ops s)(fst c := None)
    \<and> b_edge ops s' = b_edge ops s \<and> b_registry_chunk ops s' = b_registry_chunk ops s
    \<and> total_value ops s = total_value ops s' + unat (coin_value (snd c))"
proof -
  obtain r t where b: "b_remove_coin ops s (fst c) = (r, t)" by fastforce
  with assms(2) have "r = Some (snd c)" "s' = t"
    by (auto simp: remove_coin_def split: option.splits if_splits)
  with remove_coin_result [OF assms(1) b] finite_live [OF assms(1)] show ?thesis
    by (auto simp: total_value_def coin_supply_remove)
qed

lemma insert_coins_step:
  assumes "inv s" "insert_coins ops s cs = Ok s'"
  shows "inv s' \<and> b_edge ops s' = b_edge ops s \<and> b_registry_chunk ops s' = b_registry_chunk ops s
    \<and> b_coin ops s' = b_coin ops s ++ map_of cs \<and> distinct (map fst cs)
    \<and> (\<forall>c \<in> set cs. b_coin ops s (fst c) = None)
    \<and> total_value ops s' = total_value ops s + coins_value cs"
  using assms
proof (induction cs arbitrary: s)
  case Nil then show ?case by (simp add: insert_coins_def coins_value_def)
next
  case (Cons c cs)
  from Cons.prems(2) obtain t where t: "insert_coin ops s c = Ok t" and rest: "insert_coins ops t cs = Ok s'"
    by (auto simp: insert_coins_def and_then_eq_Ok)
  note step = insert_coin_step [OF Cons.prems(1) t]
  then have IH: "inv s' \<and> b_edge ops s' = b_edge ops t \<and> b_registry_chunk ops s' = b_registry_chunk ops t
    \<and> b_coin ops s' = b_coin ops t ++ map_of cs \<and> distinct (map fst cs)
    \<and> (\<forall>c \<in> set cs. b_coin ops t (fst c) = None)
    \<and> total_value ops s' = total_value ops t + coins_value cs"
    using Cons.IH rest by blast
  have new: "fst c \<notin> fst ` set cs" using IH step by auto
  then have "(b_coin ops s)(fst c \<mapsto> snd c) ++ map_of cs = b_coin ops s ++ (map_of cs)(fst c \<mapsto> snd c)"
    by (simp add: map_add_upd_left dom_map_of_conv_image_fst)
  then have "b_coin ops s' = b_coin ops s ++ map_of (c # cs)" using IH step by (cases c) simp
  then show ?case using IH step new by (auto simp del: map_of.simps simp: coins_value_def split: if_splits)
qed

lemma remove_coins_step:
  assumes "inv s" "remove_coins ops s cs = Ok s'"
  shows "inv s' \<and> b_edge ops s' = b_edge ops s \<and> b_registry_chunk ops s' = b_registry_chunk ops s
    \<and> b_coin ops s' = (\<lambda>i. if i \<in> fst ` set cs then None else b_coin ops s i) \<and> distinct (map fst cs)
    \<and> (\<forall>c \<in> set cs. b_coin ops s (fst c) = Some (snd c))
    \<and> total_value ops s = total_value ops s' + coins_value cs"
  using assms
proof (induction cs arbitrary: s)
  case Nil then show ?case by (simp add: remove_coins_def coins_value_def)
next
  case (Cons c cs)
  from Cons.prems(2) obtain t where t: "remove_coin ops s c = Ok t" and rest: "remove_coins ops t cs = Ok s'"
    by (auto simp: remove_coins_def and_then_eq_Ok)
  note step = remove_coin_step [OF Cons.prems(1) t]
  then have IH: "inv s' \<and> b_edge ops s' = b_edge ops t \<and> b_registry_chunk ops s' = b_registry_chunk ops t
    \<and> b_coin ops s' = (\<lambda>i. if i \<in> fst ` set cs then None else b_coin ops t i) \<and> distinct (map fst cs)
    \<and> (\<forall>c \<in> set cs. b_coin ops t (fst c) = Some (snd c))
    \<and> total_value ops t = total_value ops s' + coins_value cs"
    using Cons.IH rest by blast
  have new: "fst c \<notin> fst ` set cs" using IH step by auto
  then show ?case using IH step by (auto simp: coins_value_def fun_eq_iff split: if_splits)
qed

subsection \<open>Edges\<close>

lemma insert_edge_step:
  assumes "inv s" "insert_edge ops s e = Ok s'"
  shows "inv s' \<and> b_edge ops s (fst e) = None \<and> b_edge ops s' = (b_edge ops s)(fst e \<mapsto> snd e)
    \<and> b_coin ops s' = b_coin ops s \<and> b_registry_chunk ops s' = b_registry_chunk ops s
    \<and> total_value ops s' = total_value ops s + edge_locked (snd e)"
  using assms insert_edge_Ok [of s "fst e" "snd e" s'] finite_live [of s]
  by (simp add: insert_edge_def map_err_eq_Ok total_value_def edge_supply_insert)

lemma remove_edge_step:
  assumes "inv s" "remove_edge ops s e = Ok s'"
  shows "inv s' \<and> b_edge ops s (fst e) = Some (snd e) \<and> b_edge ops s' = (b_edge ops s)(fst e := None)
    \<and> b_coin ops s' = b_coin ops s \<and> b_registry_chunk ops s' = b_registry_chunk ops s
    \<and> total_value ops s = total_value ops s' + edge_locked (snd e)"
proof -
  obtain r t where b: "b_remove_edge ops s (fst e) = (r, t)" by fastforce
  with assms(2) have "r = Some (snd e)" "s' = t"
    by (auto simp: remove_edge_def split: option.splits if_splits)
  with remove_edge_result [OF assms(1) b] finite_live [OF assms(1)] show ?thesis
    by (auto simp: total_value_def edge_supply_remove)
qed

subsection \<open>Registry chunks\<close>

lemma mutation_step:
  assumes "inv s" "mutation_fold ops s m = Ok s'"
  shows "inv s' \<and> b_coin ops s' = b_coin ops s \<and> b_edge ops s' = b_edge ops s
    \<and> b_registry_chunk ops s' = (b_registry_chunk ops s)(rm_id m := rm_chunk m)
    \<and> (rm_chunk m = None \<longrightarrow> b_registry_chunk ops s (rm_id m) \<noteq> None)"
proof -
  obtain r t where b: "b_remove_registry_chunk ops s (rm_id m) = (r, t)" by fastforce
  note removed = remove_registry_result [OF assms(1) b]
  show ?thesis
  proof (cases "rm_chunk m")
    case None
    with assms(2) b have "s' = t" "r \<noteq> None" by (auto simp: mutation_fold_def and_then_eq_Ok ok_or_eq_Ok)
    with removed None show ?thesis by auto
  next
    case (Some c)
    with assms(2) b have "b_insert_registry_chunk ops t (rm_id m) c = Ok s'"
      by (simp add: mutation_fold_def Let_def map_err_eq_Ok)
    with removed insert_registry_Ok Some show ?thesis by fastforce
  qed
qed

end

end
