(* ===== verification/Kernel_Work.thy ===== *)
theory Kernel_Work
  imports Kernel_Terms Kernel_Store
begin

text \<open>Work payments (src/crates/kernel/src/work.rs): what a payment edge can settle, the exact payouts of
  its two exits, the client's cumulative certificate, the start and response of the bounded close
  contest, and the pending record that carries the contest between them. A pair of flags \<open>(maker, taker)\<close>
  is the source's \<^verbatim>\<open>[bool; 2]\<close>. Every digest is the keyed hash of a preimage that has a definition of
  its own.\<close>

section \<open>Settlement\<close>

definition WORK_CLOSE_VERSION :: byte where "WORK_CLOSE_VERSION = 3"
definition WORK_PENDING_VERSION :: byte where "WORK_PENDING_VERSION = 4"
definition WORK_PAYMENT_CLOSE_SLOTS :: u64 where "WORK_PAYMENT_CLOSE_SLOTS = 4"

definition work_payment_close_cost :: "close_kind \<Rightarrow> cost" where
  "work_payment_close_cost k = cost_new 1 WORK_PAYMENT_CLOSE_SLOTS (close_kind_proofs k)"

definition work_payment_reserve_cost :: cost where
  "work_payment_reserve_cost = work_payment_close_cost Freeze"

definition route_minimum :: "edge_values \<Rightarrow> u64 option" where
  "route_minimum v =
    Option.bind (ev_close_value v (work_payment_close_cost Freeze)) (\<lambda>freeze.
    Option.bind (ev_close_value v (work_payment_close_cost Adjudicated)) (\<lambda>adjudicated.
    Some (if freeze < adjudicated then freeze else adjudicated)))"

definition close_route_minimum :: "edge \<Rightarrow> u64 option" where
  "close_route_minimum e = route_minimum (edge_values_of e)"

record settlement =
  st_freeze_total :: u64
  st_adjudicated_total :: u64
  st_capacity :: u64
  st_omission_bond :: u64

definition work_payment_settlement :: "edge_values \<Rightarrow> u64 \<Rightarrow> settlement option" where
  "work_payment_settlement v omission_bond =
    Option.bind (ev_close_value v (work_payment_close_cost Freeze)) (\<lambda>freeze_total.
    Option.bind (ev_close_value v (work_payment_close_cost Adjudicated)) (\<lambda>adjudicated_total.
    Option.bind (Option.bind (route_minimum v) (\<lambda>m. checked_sub m omission_bond)) (\<lambda>capacity.
    Some \<lparr>st_freeze_total = freeze_total, st_adjudicated_total = adjudicated_total,
          st_capacity = capacity, st_omission_bond = omission_bond\<rparr>)))"

definition payment_capacity :: "edge \<Rightarrow> u64 \<Rightarrow> u64 option" where
  "payment_capacity e omission_bond =
    map_option st_capacity (work_payment_settlement (edge_values_of e) omission_bond)"

definition split_payouts ::
  "parties \<Rightarrow> u64 \<Rightarrow> u64 \<Rightarrow> bool \<times> bool \<Rightarrow> (payouts, invalid_proof_reason) result" where
  "split_payouts ps route_total provider_total owner_signed =
    and_then (ok_or Proof_PayoutOverCapacity (checked_sub route_total provider_total)) (\<lambda>client_total.
    Ok [pk_payout (parties_taker ps) provider_total (snd owner_signed),
        pk_payout (parties_maker ps) client_total (fst owner_signed)])"

definition adjudicated_payouts ::
  "settlement \<Rightarrow> parties \<Rightarrow> u64 \<Rightarrow> bool \<Rightarrow> bool \<times> bool \<Rightarrow> (payouts, invalid_proof_reason) result" where
  "adjudicated_payouts st ps final_cumulative penalty_due owner_signed =
    (let penalty = if penalty_due then st_omission_bond st else 0 in
     and_then (ok_or Proof_PayoutOverCapacity (checked_add final_cumulative penalty)) (\<lambda>provider.
     split_payouts ps (st_adjudicated_total st) provider owner_signed))"

definition freeze_payouts ::
  "settlement \<Rightarrow> parties \<Rightarrow> u64 \<Rightarrow> u64 \<Rightarrow> bool \<times> bool \<Rightarrow> (payouts, invalid_proof_reason) result" where
  "freeze_payouts st ps earned penalty owner_signed =
    and_then (ok_or Proof_PayoutOverCapacity (checked_add earned penalty)) (\<lambda>provider.
    split_payouts ps (st_freeze_total st) provider owner_signed)"

section \<open>The certificate\<close>

record earned_certificate =
  ec_payment_edge :: edge_id
  ec_payment_terms_hash :: terms_hash
  ec_earned_cumulative :: u64

definition EARNED_CERTIFICATE_SIZE :: nat where
  "EARNED_CERTIFICATE_SIZE = ENVELOPE_SIZE + max_encoded_size_u8 + max_encoded_size_edge_id
    + max_encoded_size_terms_hash + max_encoded_size_u64"

definition encode_earned_certificate :: "earned_certificate \<Rightarrow> bytes" where
  "encode_earned_certificate c = encode_envelope TAG_EARNED_CERTIFICATE @ encode_u8 WORK_CLOSE_VERSION
    @ encode_edge_id (ec_payment_edge c) @ encode_terms_hash (ec_payment_terms_hash c)
    @ encode_u64 (ec_earned_cumulative c)"
definition encoded_size_earned_certificate :: "earned_certificate \<Rightarrow> nat" where
  "encoded_size_earned_certificate c = EARNED_CERTIFICATE_SIZE"
definition max_encoded_size_earned_certificate :: nat where
  "max_encoded_size_earned_certificate = EARNED_CERTIFICATE_SIZE"
definition decode_earned_certificate :: "earned_certificate decoder" where
  "decode_earned_certificate buf =
    and_then (decode_envelope buf TAG_EARNED_CERTIFICATE) (\<lambda>consumed.
    and_then (decode_field decode_u8 buf consumed) (\<lambda>(version, consumed).
    if version \<noteq> WORK_CLOSE_VERSION then Err (InvalidTag version) else
    and_then (decode_field decode_edge_id buf consumed) (\<lambda>(payment_edge, consumed).
    and_then (decode_field decode_terms_hash buf consumed) (\<lambda>(terms_hash, consumed).
    and_then (decode_field decode_u64 buf consumed) (\<lambda>(earned, consumed).
    Ok (\<lparr>ec_payment_edge = payment_edge, ec_payment_terms_hash = terms_hash,
         ec_earned_cumulative = earned\<rparr>, consumed))))))"

definition earned_preimage :: "network_id \<Rightarrow> earned_certificate \<Rightarrow> bytes" where
  "earned_preimage network c = WORK_EARNED_CERTIFICATE @ encode_network_id network
    @ encode_edge_id (ec_payment_edge c) @ encode_terms_hash (ec_payment_terms_hash c)
    @ encode_earned_certificate c"

definition certificate_digest :: "blake3 \<Rightarrow> network_id \<Rightarrow> earned_certificate \<Rightarrow> payload_hash" where
  "certificate_digest b3 network c = xet_commit b3 (earned_preimage network c)"

definition no_earned_preimage :: "edge_id \<Rightarrow> terms_hash \<Rightarrow> bytes" where
  "no_earned_preimage payment_edge terms =
    WORK_NO_EARNED_CERTIFICATE @ encode_edge_id payment_edge @ encode_terms_hash terms"

definition no_earned_digest :: "blake3 \<Rightarrow> edge_id \<Rightarrow> terms_hash \<Rightarrow> payload_hash" where
  "no_earned_digest b3 payment_edge terms = xet_commit b3 (no_earned_preimage payment_edge terms)"

definition settlement_preimage :: "network_id \<Rightarrow> edge_id \<Rightarrow> terms_hash \<Rightarrow> u64 \<Rightarrow> bytes" where
  "settlement_preimage network payment_edge terms amount = WORK_SETTLEMENT_STATE @ encode_network_id network
    @ encode_edge_id payment_edge @ encode_terms_hash terms @ encode_u64 amount"

definition settlement_commitment :: "blake3 \<Rightarrow> network_id \<Rightarrow> edge_id \<Rightarrow> terms_hash \<Rightarrow> u64 \<Rightarrow> bytes32" where
  "settlement_commitment b3 network payment_edge terms amount
    = xet_commit b3 (settlement_preimage network payment_edge terms amount)"

section \<open>The start\<close>

type_synonym start_id = bytes32

definition encode_start_id :: "start_id \<Rightarrow> bytes" where "encode_start_id = encode_word"
definition encoded_size_start_id :: "start_id \<Rightarrow> nat" where "encoded_size_start_id i = ID_LENGTH"
definition max_encoded_size_start_id :: nat where "max_encoded_size_start_id = ID_LENGTH"
definition decode_start_id :: "start_id decoder" where
  "decode_start_id buf = and_then (decode_fixed ID_LENGTH buf) (\<lambda>(bs, n). Ok (from_be_bytes bs, n))"

record payment_close_start =
  ps_payment_edge :: edge_id
  ps_terms :: kterms
  ps_opener_role :: party
  ps_valid_from_height :: u64
  ps_valid_through_height :: u64
  ps_certificate :: "(earned_certificate \<times> party_auth) option"
  ps_action :: party_auth

definition CERTIFICATE_ABSENT :: byte where "CERTIFICATE_ABSENT = 0"
definition CERTIFICATE_PRESENT :: byte where "CERTIFICATE_PRESENT = 1"

definition start_preimage ::
  "network_id \<Rightarrow> edge_id \<Rightarrow> terms_hash \<Rightarrow> party \<Rightarrow> u64 \<times> u64 \<Rightarrow> payload_hash \<Rightarrow> bytes" where
  "start_preimage network payment_edge terms opener_role validity earned = WORK_START_PAYMENT_CLOSE
    @ encode_network_id network @ encode_edge_id payment_edge @ encode_terms_hash terms
    @ encode_party opener_role @ encode_u64 (fst validity) @ encode_u64 (snd validity)
    @ encode_payload_hash earned"

definition start_digest ::
  "blake3 \<Rightarrow> network_id \<Rightarrow> edge_id \<Rightarrow> terms_hash \<Rightarrow> party \<Rightarrow> u64 \<times> u64 \<Rightarrow> payload_hash \<Rightarrow> payload_hash" where
  "start_digest b3 network payment_edge terms opener_role validity earned
    = xet_commit b3 (start_preimage network payment_edge terms opener_role validity earned)"

definition close_start_digest :: "blake3 \<Rightarrow> payment_close_start \<Rightarrow> network_id \<Rightarrow> payload_hash" where
  "close_start_digest b3 start network =
    (let terms = terms_hash_of (ps_terms start);
         earned = (case ps_certificate start of
             None \<Rightarrow> no_earned_digest b3 (ps_payment_edge start) terms
           | Some (certificate, _) \<Rightarrow> certificate_digest b3 network certificate)
     in start_digest b3 network (ps_payment_edge start) terms (ps_opener_role start)
          (ps_valid_from_height start, ps_valid_through_height start) earned)"

definition close_start_cost :: "payment_close_start \<Rightarrow> cost" where
  "close_start_cost start = (let proofs = (case ps_certificate start of Some _ \<Rightarrow> 2 | None \<Rightarrow> 1) in cost_new 1 2 proofs)"

definition start_id_preimage :: "payload_hash \<Rightarrow> u64 \<Rightarrow> bytes" where
  "start_id_preimage digest inclusion_height =
    WORK_START_PAYMENT_CLOSE_ID @ encode_payload_hash digest @ encode_u64 inclusion_height"

definition start_id_of :: "blake3 \<Rightarrow> payload_hash \<Rightarrow> u64 \<Rightarrow> start_id" where
  "start_id_of b3 digest inclusion_height = xet_commit b3 (start_id_preimage digest inclusion_height)"

definition wf_payment_close_start :: "blake3 \<Rightarrow> payment_close_start \<Rightarrow> bool" where
  "wf_payment_close_start b3 start \<longleftrightarrow> wf_terms b3 (ps_terms start) \<and> wf_party_auth (ps_action start)
    \<and> pred_option (\<lambda>(_, a). wf_party_auth a) (ps_certificate start)"

definition encode_payment_close_start :: "payment_close_start \<Rightarrow> bytes" where
  "encode_payment_close_start start = encode_envelope TAG_PAYMENT_CLOSE_START @ encode_u8 WORK_CLOSE_VERSION
    @ encode_edge_id (ps_payment_edge start) @ encode_terms (ps_terms start)
    @ encode_party (ps_opener_role start) @ encode_u64 (ps_valid_from_height start)
    @ encode_u64 (ps_valid_through_height start)
    @ (case ps_certificate start of
         Some (certificate, a) \<Rightarrow>
           encode_u8 CERTIFICATE_PRESENT @ encode_earned_certificate certificate @ encode_party_auth a
       | None \<Rightarrow> encode_u8 CERTIFICATE_ABSENT)
    @ encode_party_auth (ps_action start)"
definition encoded_size_payment_close_start :: "payment_close_start \<Rightarrow> nat" where
  "encoded_size_payment_close_start start =
    (let certificate = (case ps_certificate start of
         Some (certificate, a) \<Rightarrow> encoded_size_earned_certificate certificate + encoded_size_party_auth a
       | None \<Rightarrow> 0)
     in ENVELOPE_SIZE + max_encoded_size_u8 + max_encoded_size_edge_id + encoded_size_terms (ps_terms start)
       + max_encoded_size_party + 2 * max_encoded_size_u64 + max_encoded_size_u8 + certificate
       + encoded_size_party_auth (ps_action start))"
definition max_encoded_size_payment_close_start :: nat where
  "max_encoded_size_payment_close_start = ENVELOPE_SIZE + max_encoded_size_u8 + max_encoded_size_edge_id
    + max_encoded_size_terms + max_encoded_size_party + 2 * max_encoded_size_u64 + max_encoded_size_u8
    + EARNED_CERTIFICATE_SIZE + 2 * max_encoded_size_party_auth"
definition decode_payment_close_start :: "blake3 \<Rightarrow> payment_close_start decoder" where
  "decode_payment_close_start b3 buf =
    and_then (decode_envelope buf TAG_PAYMENT_CLOSE_START) (\<lambda>consumed.
    and_then (decode_field decode_u8 buf consumed) (\<lambda>(version, consumed).
    if version \<noteq> WORK_CLOSE_VERSION then Err (InvalidTag version) else
    and_then (decode_field decode_edge_id buf consumed) (\<lambda>(payment_edge, consumed).
    and_then (decode_field (decode_terms b3) buf consumed) (\<lambda>(terms, consumed).
    and_then (decode_field decode_party buf consumed) (\<lambda>(opener_role, consumed).
    and_then (decode_field decode_u64 buf consumed) (\<lambda>(valid_from, consumed).
    and_then (decode_field decode_u64 buf consumed) (\<lambda>(valid_through, consumed).
    and_then (decode_field decode_u8 buf consumed) (\<lambda>(flag, consumed).
    and_then
      (if flag = CERTIFICATE_ABSENT then Ok (None, consumed)
       else if flag = CERTIFICATE_PRESENT then
         and_then (decode_field decode_earned_certificate buf consumed) (\<lambda>(certificate, consumed).
         and_then (decode_field decode_party_auth buf consumed) (\<lambda>(a, consumed).
         Ok (Some (certificate, a), consumed)))
       else Err (InvalidTag flag)) (\<lambda>(certificate, consumed).
    and_then (decode_field decode_party_auth buf consumed) (\<lambda>(action, consumed).
    Ok (\<lparr>ps_payment_edge = payment_edge, ps_terms = terms, ps_opener_role = opener_role,
         ps_valid_from_height = valid_from, ps_valid_through_height = valid_through,
         ps_certificate = certificate, ps_action = action\<rparr>, consumed)))))))))))"

section \<open>The response\<close>

record payment_close_response =
  pr_payment_edge :: edge_id
  pr_start_id :: start_id
  pr_responder_role :: party
  pr_certificate :: earned_certificate
  pr_certificate_auth :: party_auth
  pr_action :: party_auth

definition close_response_cost :: "payment_close_response \<Rightarrow> cost" where
  "close_response_cost response = cost_new 1 2 2"

definition response_preimage ::
  "network_id \<Rightarrow> edge_id \<Rightarrow> terms_hash \<Rightarrow> start_id \<Rightarrow> party \<Rightarrow> payload_hash \<Rightarrow> bytes" where
  "response_preimage network payment_edge terms start responder_role earned = WORK_RESPOND_PAYMENT_CLOSE
    @ encode_network_id network @ encode_edge_id payment_edge @ encode_terms_hash terms
    @ encode_start_id start @ encode_party responder_role @ encode_payload_hash earned"

definition response_digest ::
  "blake3 \<Rightarrow> network_id \<Rightarrow> edge_id \<Rightarrow> terms_hash \<Rightarrow> start_id \<Rightarrow> party \<Rightarrow> payload_hash \<Rightarrow> payload_hash" where
  "response_digest b3 network payment_edge terms start responder_role earned
    = xet_commit b3 (response_preimage network payment_edge terms start responder_role earned)"

definition wf_payment_close_response :: "payment_close_response \<Rightarrow> bool" where
  "wf_payment_close_response r \<longleftrightarrow> wf_party_auth (pr_certificate_auth r) \<and> wf_party_auth (pr_action r)"

definition encode_payment_close_response :: "payment_close_response \<Rightarrow> bytes" where
  "encode_payment_close_response r = encode_envelope TAG_PAYMENT_CLOSE_RESPONSE @ encode_u8 WORK_CLOSE_VERSION
    @ encode_edge_id (pr_payment_edge r) @ encode_start_id (pr_start_id r) @ encode_party (pr_responder_role r)
    @ encode_earned_certificate (pr_certificate r) @ encode_party_auth (pr_certificate_auth r)
    @ encode_party_auth (pr_action r)"
definition max_encoded_size_payment_close_response :: nat where
  "max_encoded_size_payment_close_response = ENVELOPE_SIZE + max_encoded_size_u8 + max_encoded_size_edge_id
    + max_encoded_size_start_id + max_encoded_size_party + EARNED_CERTIFICATE_SIZE
    + 2 * max_encoded_size_party_auth"
definition encoded_size_payment_close_response :: "payment_close_response \<Rightarrow> nat" where
  "encoded_size_payment_close_response r = max_encoded_size_payment_close_response
    - 2 * max_encoded_size_party_auth + encoded_size_party_auth (pr_certificate_auth r)
    + encoded_size_party_auth (pr_action r)"
definition decode_payment_close_response :: "payment_close_response decoder" where
  "decode_payment_close_response buf =
    and_then (decode_envelope buf TAG_PAYMENT_CLOSE_RESPONSE) (\<lambda>consumed.
    and_then (decode_field decode_u8 buf consumed) (\<lambda>(version, consumed).
    if version \<noteq> WORK_CLOSE_VERSION then Err (InvalidTag version) else
    and_then (decode_field decode_edge_id buf consumed) (\<lambda>(payment_edge, consumed).
    and_then (decode_field decode_start_id buf consumed) (\<lambda>(start, consumed).
    and_then (decode_field decode_party buf consumed) (\<lambda>(responder_role, consumed).
    and_then (decode_field decode_earned_certificate buf consumed) (\<lambda>(certificate, consumed).
    and_then (decode_field decode_party_auth buf consumed) (\<lambda>(certificate_auth, consumed).
    and_then (decode_field decode_party_auth buf consumed) (\<lambda>(action, consumed).
    Ok (\<lparr>pr_payment_edge = payment_edge, pr_start_id = start, pr_responder_role = responder_role,
         pr_certificate = certificate, pr_certificate_auth = certificate_auth, pr_action = action\<rparr>,
        consumed)))))))))"

section \<open>The pending record\<close>

record pending_close =
  pc_payment_edge :: edge_id
  pc_opener_role :: party
  pc_start_id :: start_id
  pc_response_deadline :: u64
  pc_start_cumulative :: u64
  pc_final_cumulative :: u64
  pc_responded :: bool
  pc_penalty_due :: bool
  pc_penalty_amount :: u64
  pc_owner_signed :: "bool \<times> bool"

definition FLAG_CLEAR :: byte where "FLAG_CLEAR = 0"
definition FLAG_SET :: byte where "FLAG_SET = 1"

definition pending_opened ::
  "edge_id \<Rightarrow> party \<Rightarrow> start_id \<Rightarrow> u64 \<Rightarrow> u64 \<times> u64 \<Rightarrow> bool \<Rightarrow> pending_close" where
  "pending_opened payment_edge opener_role start response_deadline claim owner_signed =
    (let owner_flags = (case opener_role of Maker \<Rightarrow> (owner_signed, False) | Taker \<Rightarrow> (False, owner_signed));
         (claimed, omission_bond) = claim
     in \<lparr>pc_payment_edge = payment_edge, pc_opener_role = opener_role, pc_start_id = start,
         pc_response_deadline = response_deadline, pc_start_cumulative = claimed,
         pc_final_cumulative = claimed, pc_responded = False, pc_penalty_due = False,
         pc_penalty_amount = omission_bond, pc_owner_signed = owner_flags\<rparr>)"

definition start_claim :: "payment_close_start \<Rightarrow> u64" where
  "start_claim start = (case ps_certificate start of None \<Rightarrow> 0 | Some (c, _) \<Rightarrow> ec_earned_cumulative c)"

definition from_accepted_start :: "blake3 \<Rightarrow> network_id \<Rightarrow> u64 \<Rightarrow> payment_close_start \<Rightarrow> pending_close option" where
  "from_accepted_start b3 network height start =
    (case terms_profile_of (ps_terms start) of
       ProfileWorkPayment payment \<Rightarrow>
         Option.bind (checked_add height (wp_omit_response_blocks payment)) (\<lambda>deadline.
         Some (pending_opened (ps_payment_edge start) (ps_opener_role start)
           (start_id_of b3 (close_start_digest b3 start network) height) deadline
           (start_claim start, wp_omission_bond payment) (is_owner (ps_action start))))
     | _ \<Rightarrow> None)"

definition pending_penalty :: "pending_close \<Rightarrow> u64" where
  "pending_penalty p = (if pc_penalty_due p then pc_penalty_amount p else 0)"

definition responded_at :: "pending_close \<Rightarrow> u64 \<Rightarrow> bool \<Rightarrow> pending_close" where
  "responded_at p amount owner_signed =
    p\<lparr>pc_final_cumulative := amount, pc_responded := True,
      pc_penalty_due := pc_penalty_due p \<or> pc_opener_role p = Maker,
      pc_owner_signed := (fst (pc_owner_signed p), snd (pc_owner_signed p) \<or> owner_signed)\<rparr>"

definition with_accepted_response :: "pending_close \<Rightarrow> payment_close_response \<Rightarrow> pending_close" where
  "with_accepted_response p response =
    responded_at p (ec_earned_cumulative (pr_certificate response)) (is_owner (pr_action response))"

definition freeze_penalty :: "pending_close \<Rightarrow> u64 \<Rightarrow> u64" where
  "freeze_penalty p earned =
    (if pc_penalty_due p \<or> (pc_opener_role p = Maker \<and> pc_start_cumulative p < earned)
     then pc_penalty_amount p else 0)"

definition work_flag :: "bool \<Rightarrow> byte" where
  "work_flag v = (if v then FLAG_SET else FLAG_CLEAR)"

definition decode_flag :: "bytes \<Rightarrow> nat \<Rightarrow> string \<Rightarrow> (bool \<times> nat, decode_error) result" where
  "decode_flag buf consumed field =
    and_then (decode_field decode_u8 buf consumed) (\<lambda>(flag, consumed).
      if flag = FLAG_CLEAR then Ok (False, consumed)
      else if flag = FLAG_SET then Ok (True, consumed)
      else Err (NonCanonical field))"

definition PENDING_CLOSE_SIZE :: nat where
  "PENDING_CLOSE_SIZE = ENVELOPE_SIZE + max_encoded_size_u8 + max_encoded_size_edge_id + max_encoded_size_party
    + max_encoded_size_start_id + 3 * max_encoded_size_u64 + 2 * max_encoded_size_u8 + max_encoded_size_u64
    + 2 * max_encoded_size_u8"

definition encode_pending_close :: "pending_close \<Rightarrow> bytes" where
  "encode_pending_close p = encode_envelope TAG_PAYMENT_CLOSE_PENDING @ encode_u8 WORK_PENDING_VERSION
    @ encode_edge_id (pc_payment_edge p) @ encode_party (pc_opener_role p) @ encode_start_id (pc_start_id p)
    @ encode_u64 (pc_response_deadline p) @ encode_u64 (pc_start_cumulative p)
    @ encode_u64 (pc_final_cumulative p) @ encode_u8 (work_flag (pc_responded p))
    @ encode_u8 (work_flag (pc_penalty_due p)) @ encode_u64 (pc_penalty_amount p)
    @ encode_u8 (work_flag (fst (pc_owner_signed p))) @ encode_u8 (work_flag (snd (pc_owner_signed p)))"
definition encoded_size_pending_close :: "pending_close \<Rightarrow> nat" where
  "encoded_size_pending_close p = PENDING_CLOSE_SIZE"
definition max_encoded_size_pending_close :: nat where
  "max_encoded_size_pending_close = PENDING_CLOSE_SIZE"
definition decode_pending_close :: "pending_close decoder" where
  "decode_pending_close buf =
    and_then (decode_envelope buf TAG_PAYMENT_CLOSE_PENDING) (\<lambda>consumed.
    and_then (decode_field decode_u8 buf consumed) (\<lambda>(version, consumed).
    if version \<noteq> WORK_PENDING_VERSION then Err (InvalidTag version) else
    and_then (decode_field decode_edge_id buf consumed) (\<lambda>(payment_edge, consumed).
    and_then (decode_field decode_party buf consumed) (\<lambda>(opener_role, consumed).
    and_then (decode_field decode_start_id buf consumed) (\<lambda>(start, consumed).
    and_then (decode_field decode_u64 buf consumed) (\<lambda>(deadline, consumed).
    and_then (decode_field decode_u64 buf consumed) (\<lambda>(start_cumulative, consumed).
    and_then (decode_field decode_u64 buf consumed) (\<lambda>(final_cumulative, consumed).
    and_then (decode_flag buf consumed ''PendingPaymentClose.responded'') (\<lambda>(responded, consumed).
    and_then (decode_flag buf consumed ''PendingPaymentClose.penalty_due'') (\<lambda>(penalty_due, consumed).
    and_then (decode_field decode_u64 buf consumed) (\<lambda>(penalty_amount, consumed).
    and_then (decode_flag buf consumed ''PendingPaymentClose.maker_owner_signed'') (\<lambda>(maker, consumed).
    and_then (decode_flag buf consumed ''PendingPaymentClose.taker_owner_signed'') (\<lambda>(taker, consumed).
    Ok (\<lparr>pc_payment_edge = payment_edge, pc_opener_role = opener_role, pc_start_id = start,
         pc_response_deadline = deadline, pc_start_cumulative = start_cumulative,
         pc_final_cumulative = final_cumulative, pc_responded = responded, pc_penalty_due = penalty_due,
         pc_penalty_amount = penalty_amount, pc_owner_signed = (maker, taker)\<rparr>, consumed))))))))))))))"

type_synonym contest_commitment = bytes32

definition adjudicated_preimage :: "network_id \<Rightarrow> edge_id \<Rightarrow> terms_hash \<Rightarrow> pending_close \<Rightarrow> bytes" where
  "adjudicated_preimage network payment_edge terms p = WORK_ADJUDICATED_PAYMENT_CLOSE
    @ encode_network_id network @ encode_edge_id payment_edge @ encode_terms_hash terms
    @ encode_start_id (pc_start_id p) @ encode_u64 (pc_response_deadline p)
    @ encode_u64 (pc_start_cumulative p) @ encode_u64 (pc_final_cumulative p)
    @ encode_u8 (work_flag (pc_penalty_due p)) @ encode_u64 (pc_penalty_amount p)
    @ encode_u8 (work_flag (fst (pc_owner_signed p))) @ encode_u8 (work_flag (snd (pc_owner_signed p)))"

definition contest_commitment_of ::
  "blake3 \<Rightarrow> pending_close \<Rightarrow> network_id \<Rightarrow> edge_id \<Rightarrow> terms_hash \<Rightarrow> contest_commitment" where
  "contest_commitment_of b3 p network payment_edge terms
    = xet_commit b3 (adjudicated_preimage network payment_edge terms p)"

definition pending_to_chunk :: "pending_close \<Rightarrow> registry_chunk option" where
  "pending_to_chunk p =
    Option.bind (write_to encode_pending_close p (replicate PENDING_CLOSE_SIZE 0)) (\<lambda>(buf, written).
      if length buf < written then None
      else chunk_split NsPaymentClose RecPaymentPending (take written buf) 0)"

definition pending_from_chunk :: "registry_chunk \<Rightarrow> edge_id \<Rightarrow> (pending_close, pending_close_fault) result" where
  "pending_from_chunk c payment_edge =
    (if rc_namespace c \<noteq> NsPaymentClose \<or> rc_record_tag c \<noteq> RecPaymentPending \<or> rc_chunk_count c \<noteq> 1
        \<or> rc_chunk_index c \<noteq> 0 \<or> unat (rc_value_len c) \<noteq> PENDING_CLOSE_SIZE
     then Err Pending_Shape
     else and_then (map_err (\<lambda>_. Pending_Body) (decode_exact decode_pending_close (chunk_data c))) (\<lambda>p.
       if pc_payment_edge p \<noteq> payment_edge then Err Pending_Edge else Ok p))"

definition pending_payment_close_slot :: "blake3 \<Rightarrow> network_id \<Rightarrow> edge_id \<Rightarrow> registry_chunk_id" where
  "pending_payment_close_slot b3 network payment_edge
    = registry_chunk_id_derive b3 network NsPaymentClose payment_edge 0"

datatype pending_slot = PendingAbsent | PendingPresent pending_close | PendingFaulty pending_close_fault

definition parse_pending_close :: "registry_chunk option \<Rightarrow> edge_id \<Rightarrow> pending_slot" where
  "parse_pending_close c payment_edge =
    (case c of
       None \<Rightarrow> PendingAbsent
     | Some c \<Rightarrow> (case pending_from_chunk c payment_edge of
           Ok p \<Rightarrow> PendingPresent p
         | Err fault \<Rightarrow> PendingFaulty fault))"

definition read_pending_close ::
  "'s batch_ops \<Rightarrow> 's \<Rightarrow> blake3 \<Rightarrow> network_id \<Rightarrow> edge_id \<Rightarrow> (pending_close option, pending_close_fault) result" where
  "read_pending_close ops s b3 network payment_edge =
    (case parse_pending_close (b_registry_chunk ops s (pending_payment_close_slot b3 network payment_edge))
        payment_edge of
       PendingAbsent \<Rightarrow> Ok None
     | PendingPresent p \<Rightarrow> Ok (Some p)
     | PendingFaulty fault \<Rightarrow> Err fault)"

section \<open>The freeze\<close>

definition freeze_preimage ::
  "blake3 \<Rightarrow> network_id \<Rightarrow> edge_id \<Rightarrow> terms_hash \<Rightarrow> u64 \<Rightarrow> u64 \<times> u64 \<Rightarrow> bytes" where
  "freeze_preimage b3 network payment_edge terms earned validity = WORK_FREEZE_CLOSE
    @ encode_network_id network @ encode_edge_id payment_edge @ encode_terms_hash terms
    @ encode_bytes32 (settlement_commitment b3 network payment_edge terms earned)
    @ encode_u64 (fst validity) @ encode_u64 (snd validity)"

definition freeze_digest ::
  "blake3 \<Rightarrow> network_id \<Rightarrow> edge_id \<Rightarrow> terms_hash \<Rightarrow> u64 \<Rightarrow> u64 \<times> u64 \<Rightarrow> payload_hash" where
  "freeze_digest b3 network payment_edge terms earned validity
    = xet_commit b3 (freeze_preimage b3 network payment_edge terms earned validity)"

section \<open>Codecs\<close>

interpretation earned_certificate_codec: codec encode_earned_certificate decode_earned_certificate encoded_size_earned_certificate max_encoded_size_earned_certificate "\<lambda>_. True"
proof
  fix x n and buf rest :: bytes
  show "decode_earned_certificate (encode_earned_certificate x @ rest) = Ok (x, length (encode_earned_certificate x))"
    by (simp add: decode_earned_certificate_def encode_earned_certificate_def decode_field_def codec_simps  )
  show "True \<and> n \<le> length buf \<and> take n buf = encode_earned_certificate x" if "decode_earned_certificate buf = Ok (x, n)"
    using that
    by (auto simp: decode_earned_certificate_def encode_earned_certificate_def and_then_eq_Ok  split: if_splits dest!: codec_dests)
qed (auto simp: encode_earned_certificate_def encoded_size_earned_certificate_def max_encoded_size_earned_certificate_def codec_lengths codec_bounds
    fixed_sizes EARNED_CERTIFICATE_SIZE_def)

lemmas earned_certificate_round_trip [codec_simps] = earned_certificate_codec.round_trip
lemmas earned_certificate_canonical [codec_dests] = earned_certificate_codec.field_canonical
lemmas earned_certificate_length [codec_lengths] = earned_certificate_codec.sized
lemmas earned_certificate_bound [codec_bounds] = earned_certificate_codec.bounded

interpretation start_id_codec: codec encode_start_id decode_start_id encoded_size_start_id max_encoded_size_start_id "\<lambda>_. True"
  unfolding encode_start_id_def
  by (rule word_codec_fixed)
    (auto simp: decode_start_id_def encoded_size_start_id_def max_encoded_size_start_id_def ID_LENGTH_def HASH_LENGTH_def)

lemmas start_id_round_trip [codec_simps] = start_id_codec.round_trip
lemmas start_id_canonical [codec_dests] = start_id_codec.field_canonical
lemmas start_id_length [codec_lengths] = start_id_codec.sized
lemmas start_id_bound [codec_bounds] = start_id_codec.bounded

lemma work_fixed_sizes:
  "encoded_size_start_id i = max_encoded_size_start_id"
  "encoded_size_earned_certificate c = EARNED_CERTIFICATE_SIZE"
  by (simp_all add: encoded_size_start_id_def max_encoded_size_start_id_def encoded_size_earned_certificate_def)

interpretation payment_close_start_codec: codec encode_payment_close_start "decode_payment_close_start b3" encoded_size_payment_close_start max_encoded_size_payment_close_start "wf_payment_close_start b3" for b3 :: blake3
proof
  fix x n and buf rest :: bytes
  show "decode_payment_close_start b3 (encode_payment_close_start x @ rest) = Ok (x, length (encode_payment_close_start x))" if "wf_payment_close_start b3 x"
    using that by (cases "ps_certificate x"; cases "the (ps_certificate x)")
      (simp_all add: CERTIFICATE_ABSENT_def CERTIFICATE_PRESENT_def decode_payment_close_start_def encode_payment_close_start_def decode_field_def codec_simps wf_payment_close_start_def  )
  show "wf_payment_close_start b3 x \<and> n \<le> length buf \<and> take n buf = encode_payment_close_start x" if "decode_payment_close_start b3 buf = Ok (x, n)"
    using that
    by (auto simp: decode_payment_close_start_def encode_payment_close_start_def and_then_eq_Ok wf_payment_close_start_def  split: if_splits dest!: codec_dests)
  show "length (encode_payment_close_start x) = encoded_size_payment_close_start x" if "wf_payment_close_start b3 x"
    using that by (auto simp: encode_payment_close_start_def encoded_size_payment_close_start_def Let_def
        wf_payment_close_start_def codec_lengths fixed_sizes split: option.splits)
  show "encoded_size_payment_close_start x \<le> max_encoded_size_payment_close_start"
    if w: "wf_payment_close_start b3 x"
  proof -
    have "encoded_size_terms (ps_terms x) \<le> max_encoded_size_terms"
      "encoded_size_party_auth (ps_action x) \<le> max_encoded_size_party_auth"
      using w by (auto simp: wf_payment_close_start_def codec_bounds)
    moreover have "(case ps_certificate x of None \<Rightarrow> 0
        | Some (c, a) \<Rightarrow> encoded_size_earned_certificate c + encoded_size_party_auth a)
        \<le> EARNED_CERTIFICATE_SIZE + max_encoded_size_party_auth"
      using w by (auto simp: wf_payment_close_start_def codec_bounds work_fixed_sizes split: option.splits)
    ultimately show ?thesis
      by (simp add: encoded_size_payment_close_start_def max_encoded_size_payment_close_start_def Let_def)
  qed
qed

lemmas payment_close_start_round_trip [codec_simps] = payment_close_start_codec.round_trip
lemmas payment_close_start_canonical [codec_dests] = payment_close_start_codec.field_canonical
lemmas payment_close_start_length [codec_lengths] = payment_close_start_codec.sized
lemmas payment_close_start_bound [codec_bounds] = payment_close_start_codec.bounded

interpretation payment_close_response_codec: codec encode_payment_close_response decode_payment_close_response encoded_size_payment_close_response max_encoded_size_payment_close_response wf_payment_close_response
proof
  fix x n and buf rest :: bytes
  show "decode_payment_close_response (encode_payment_close_response x @ rest) = Ok (x, length (encode_payment_close_response x))" if "wf_payment_close_response x"
    using that by (simp add: decode_payment_close_response_def encode_payment_close_response_def decode_field_def codec_simps wf_payment_close_response_def  )
  show "wf_payment_close_response x \<and> n \<le> length buf \<and> take n buf = encode_payment_close_response x" if "decode_payment_close_response buf = Ok (x, n)"
    using that
    by (auto simp: decode_payment_close_response_def encode_payment_close_response_def and_then_eq_Ok wf_payment_close_response_def  split: if_splits dest!: codec_dests)
qed (auto simp: encode_payment_close_response_def encoded_size_payment_close_response_def max_encoded_size_payment_close_response_def codec_lengths codec_bounds
    wf_payment_close_response_def fixed_sizes work_fixed_sizes add_le_twice)

lemmas payment_close_response_round_trip [codec_simps] = payment_close_response_codec.round_trip
lemmas payment_close_response_canonical [codec_dests] = payment_close_response_codec.field_canonical
lemmas payment_close_response_length [codec_lengths] = payment_close_response_codec.sized
lemmas payment_close_response_bound [codec_bounds] = payment_close_response_codec.bounded

text \<open>A flag is a field whose codec writes one of two bytes.\<close>

definition encode_flag :: "bool \<Rightarrow> bytes" where "encode_flag v = encode_u8 (work_flag v)"
definition decode_flag_byte :: "string \<Rightarrow> bool decoder" where
  "decode_flag_byte field buf = and_then (decode_u8 buf) (\<lambda>(b, n).
    if b = FLAG_CLEAR then Ok (False, n) else if b = FLAG_SET then Ok (True, n) else Err (NonCanonical field))"

interpretation flag_codec: codec encode_flag "decode_flag_byte field" "\<lambda>_. 1" 1 "\<lambda>_. True" for field
  by unfold_locales
    (auto simp: encode_flag_def decode_flag_byte_def encode_u8_def decode_u8_def work_flag_def FLAG_CLEAR_def
      FLAG_SET_def and_then_eq_Ok split: list.splits if_splits)

lemma decode_flag_field: "decode_flag buf c field = decode_field (decode_flag_byte field) buf c"
  by (auto simp: decode_flag_def decode_flag_byte_def decode_field_def decode_u8_def Let_def and_then_assoc
      and_then_def split: list.splits)

lemmas flag_round_trip [codec_simps] = flag_codec.round_trip
lemmas flag_canonical [codec_dests] = flag_codec.field_canonical
lemmas flag_length [codec_lengths] = flag_codec.sized

lemmas pending_flags = decode_flag_field encode_flag_def [symmetric]

interpretation pending_close_codec: codec encode_pending_close decode_pending_close encoded_size_pending_close max_encoded_size_pending_close "\<lambda>_. True"
proof
  fix x n and buf rest :: bytes
  show "decode_pending_close (encode_pending_close x @ rest) = Ok (x, length (encode_pending_close x))"
    by (simp add: decode_pending_close_def encode_pending_close_def decode_field_def codec_simps pending_flags)
  show "True \<and> n \<le> length buf \<and> take n buf = encode_pending_close x" if "decode_pending_close buf = Ok (x, n)"
    using that
    by (auto simp: decode_pending_close_def encode_pending_close_def and_then_eq_Ok pending_flags split: if_splits dest!: codec_dests)
qed (auto simp: encode_pending_close_def encoded_size_pending_close_def pending_flags max_encoded_size_pending_close_def codec_lengths codec_bounds
    fixed_sizes work_fixed_sizes PENDING_CLOSE_SIZE_def max_encoded_size_u8_def)

lemmas pending_close_round_trip [codec_simps] = pending_close_codec.round_trip
lemmas pending_close_canonical [codec_dests] = pending_close_codec.field_canonical
lemmas pending_close_length [codec_lengths] = pending_close_codec.sized
lemmas pending_close_bound [codec_bounds] = pending_close_codec.bounded


section \<open>Lemmas\<close>

subsection \<open>Settlement arithmetic\<close>

lemma ev_close_value_Some:
  "ev_close_value v c = Some t \<longleftrightarrow>
    (\<exists>fee. fees_charge (ev_close_fees v) c = Some fee \<and> unat fee \<le> unat (ev_reserve v)
      \<and> unat t + unat fee = unat (ev_value v) + unat (ev_reserve v))"
proof
  assume "ev_close_value v c = Some t"
  then show "\<exists>fee. fees_charge (ev_close_fees v) c = Some fee \<and> unat fee \<le> unat (ev_reserve v)
      \<and> unat t + unat fee = unat (ev_value v) + unat (ev_reserve v)"
    by (auto simp: ev_close_value_def bind_eq_Some_conv dest!: checked_arith)
next
  assume "\<exists>fee. fees_charge (ev_close_fees v) c = Some fee \<and> unat fee \<le> unat (ev_reserve v)
      \<and> unat t + unat fee = unat (ev_value v) + unat (ev_reserve v)"
  then obtain fee where f: "fees_charge (ev_close_fees v) c = Some fee" "unat fee \<le> unat (ev_reserve v)"
    "unat t + unat fee = unat (ev_value v) + unat (ev_reserve v)" by blast
  then have "checked_sub (ev_reserve v) fee = Some (ev_reserve v - fee)"
    by (simp add: checked_sub_def word_le_nat_alt)
  moreover have "checked_add (ev_value v) (ev_reserve v - fee) = Some t"
    using f by (simp add: checked_add_iff unat_sub word_le_nat_alt)
  ultimately show "ev_close_value v c = Some t" using f(1) by (simp add: ev_close_value_def)
qed

text \<open>The freeze verifies two signatures and the adjudicated close one, at the same slots: an edge that can
  price the freeze can price both exits, and the freeze distributes the smaller total.\<close>

lemma close_cost_fields [simp]:
  "cost_base (work_payment_close_cost k) = 1"
  "cost_slots (work_payment_close_cost k) = 4"
  "cost_proofs (work_payment_close_cost k) = close_kind_proofs k"
  by (simp_all add: work_payment_close_cost_def cost_new_def WORK_PAYMENT_CLOSE_SLOTS_def)

lemma freeze_is_dearer:
  assumes "ev_close_value v (work_payment_close_cost Freeze) = Some f"
    and "ev_close_value v (work_payment_close_cost Adjudicated) = Some a"
  shows "unat f \<le> unat a"
proof -
  from assms obtain ff af where
    "fees_charge (ev_close_fees v) (work_payment_close_cost Freeze) = Some ff"
    "unat f + unat ff = unat (ev_value v) + unat (ev_reserve v)"
    "fees_charge (ev_close_fees v) (work_payment_close_cost Adjudicated) = Some af"
    "unat a + unat af = unat (ev_value v) + unat (ev_reserve v)"
    by (auto simp: ev_close_value_Some)
  moreover then have "unat af \<le> unat ff"
    using fees_charge_mono [of "ev_close_fees v" "work_payment_close_cost Freeze" ff "work_payment_close_cost Adjudicated"]
    by simp
  ultimately show ?thesis by simp
qed

lemma route_minimum_freeze:
  "route_minimum v = Some m \<longleftrightarrow> ev_close_value v (work_payment_close_cost Freeze) = Some m
    \<and> ev_close_value v (work_payment_close_cost Adjudicated) \<noteq> None"
  using freeze_is_dearer [of v]
  by (fastforce simp: route_minimum_def bind_eq_Some_conv word_less_nat_alt word_unat_eq_iff split: if_splits)

lemma settlement_Some:
  assumes "work_payment_settlement v omission_bond = Some st"
  shows "ev_close_value v (work_payment_close_cost Freeze) = Some (st_freeze_total st)"
    and "ev_close_value v (work_payment_close_cost Adjudicated) = Some (st_adjudicated_total st)"
    and "unat (st_capacity st) + unat omission_bond = unat (st_freeze_total st)"
    and "unat (st_freeze_total st) \<le> unat (st_adjudicated_total st)"
    and "st_omission_bond st = omission_bond"
proof -
  from assms obtain f a m c where *: "ev_close_value v (work_payment_close_cost Freeze) = Some f"
    "ev_close_value v (work_payment_close_cost Adjudicated) = Some a"
    "route_minimum v = Some m" "checked_sub m omission_bond = Some c"
    "st = \<lparr>st_freeze_total = f, st_adjudicated_total = a, st_capacity = c, st_omission_bond = omission_bond\<rparr>"
    unfolding work_payment_settlement_def bind_eq_Some_conv by blast
  from * show "ev_close_value v (work_payment_close_cost Freeze) = Some (st_freeze_total st)"
    "ev_close_value v (work_payment_close_cost Adjudicated) = Some (st_adjudicated_total st)"
    "st_omission_bond st = omission_bond" by simp_all
  from * have "m = f" by (simp add: route_minimum_freeze)
  then show "unat (st_capacity st) + unat omission_bond = unat (st_freeze_total st)"
    using * by (auto dest!: checked_arith)
  show "unat (st_freeze_total st) \<le> unat (st_adjudicated_total st)" using * freeze_is_dearer by simp
qed

lemma split_payouts_Ok:
  assumes "unat provider \<le> unat route_total"
  shows "\<exists>client. split_payouts ps route_total provider flags
      = Ok [pk_payout (parties_taker ps) provider (snd flags), pk_payout (parties_maker ps) client (fst flags)]
    \<and> unat provider + unat client = unat route_total"
  using assms
  by (intro exI [of _ "route_total - provider"])
    (simp add: split_payouts_def checked_sub_def word_le_nat_alt unat_sub)

text \<open>Within capacity neither exit can fail: provider and client shares are exact.\<close>

lemma adjudicated_payouts_within_capacity:
  assumes "work_payment_settlement v omission_bond = Some st" and "unat final \<le> unat (st_capacity st)"
  shows "\<exists>provider client. adjudicated_payouts st ps final penalty_due flags
      = Ok [pk_payout (parties_taker ps) provider (snd flags), pk_payout (parties_maker ps) client (fst flags)]
    \<and> unat provider = unat final + (if penalty_due then unat omission_bond else 0)
    \<and> unat provider + unat client = unat (st_adjudicated_total st)"
proof -
  note st = settlement_Some [OF assms(1)]
  let ?pen = "if penalty_due then st_omission_bond st else 0"
  have le: "unat final + unat ?pen \<le> unat (st_adjudicated_total st)" using st assms(2) by (auto split: if_splits)
  then have lt: "unat final + unat ?pen < 2 ^ 64" using unat_u64_less [of "st_adjudicated_total st"] by linarith
  then have p: "checked_add final ?pen = Some (final + ?pen)" by (simp add: checked_add_def)
  then have "unat (final + ?pen) = unat final + unat ?pen" by (rule checked_add_Some)
  moreover with le obtain client where "split_payouts ps (st_adjudicated_total st) (final + ?pen) flags
      = Ok [pk_payout (parties_taker ps) (final + ?pen) (snd flags), pk_payout (parties_maker ps) client (fst flags)]"
    "unat (final + ?pen) + unat client = unat (st_adjudicated_total st)"
    using split_payouts_Ok [of "final + ?pen" "st_adjudicated_total st" ps flags] by auto
  ultimately show ?thesis using p st(5)
    by (intro exI [of _ "final + ?pen"] exI [of _ client]) (simp add: adjudicated_payouts_def Let_def)
qed

lemma freeze_payouts_within_capacity:
  assumes "work_payment_settlement v omission_bond = Some st" and "unat earned \<le> unat (st_capacity st)"
    and "unat penalty \<le> unat omission_bond"
  shows "\<exists>provider client. freeze_payouts st ps earned penalty flags
      = Ok [pk_payout (parties_taker ps) provider (snd flags), pk_payout (parties_maker ps) client (fst flags)]
    \<and> unat provider = unat earned + unat penalty
    \<and> unat provider + unat client = unat (st_freeze_total st)"
proof -
  note st = settlement_Some [OF assms(1)]
  have le: "unat earned + unat penalty \<le> unat (st_freeze_total st)" using st(3) assms(2,3) by simp
  then have "unat earned + unat penalty < 2 ^ 64" using unat_u64_less [of "st_freeze_total st"] by linarith
  then have p: "checked_add earned penalty = Some (earned + penalty)" by (simp add: checked_add_def)
  with le obtain client where "split_payouts ps (st_freeze_total st) (earned + penalty) flags
      = Ok [pk_payout (parties_taker ps) (earned + penalty) (snd flags), pk_payout (parties_maker ps) client (fst flags)]"
    "unat (earned + penalty) + unat client = unat (st_freeze_total st)"
    using split_payouts_Ok [of "earned + penalty" "st_freeze_total st" ps flags] checked_add_Some [OF p] by auto
  then show ?thesis using p checked_add_Some [OF p]
    by (intro exI [of _ "earned + penalty"] exI [of _ client]) (simp add: freeze_payouts_def)
qed

subsection \<open>The pending record\<close>

lemma pending_close_104: "length (encode_pending_close p) = 104"
  by (simp add: pending_close_codec.sized encoded_size_pending_close_def PENDING_CLOSE_SIZE_def primitive_sizes
      id_sizes bound_defs max_encoded_size_start_id_def ENVELOPE_SIZE_def)

lemma pending_close_size: "PENDING_CLOSE_SIZE = 104"
  using pending_close_104 pending_close_codec.sized by (simp add: encoded_size_pending_close_def)

lemma pending_to_chunk_split:
  "pending_to_chunk p = chunk_split NsPaymentClose RecPaymentPending (encode_pending_close p) 0"
  using pending_close_codec.write_to_fits [of "replicate PENDING_CLOSE_SIZE 0" p]
  by (simp add: pending_to_chunk_def max_encoded_size_pending_close_def encoded_size_pending_close_def
      pending_close_size pending_close_104)

text \<open>A record always fits one chunk, and the chunk reads back as the record, under its own edge only.\<close>

lemma pending_to_chunk_parse:
  "\<exists>c. pending_to_chunk p = Some c \<and> wf_registry_chunk c
    \<and> parse_pending_close (Some c) (pc_payment_edge p) = PendingPresent p
    \<and> (\<forall>e. e \<noteq> pc_payment_edge p \<longrightarrow> parse_pending_close (Some c) e = PendingFaulty Pending_Edge)"
proof -
  have one: "chunk_count_for (length (encode_pending_close p)) = Some 1"
    by (simp add: chunk_count_for_def pending_close_104 MAX_REGISTRY_VALUE_LEN_def bound_defs)
  then obtain c where c: "pending_to_chunk p = Some c"
    using chunk_split_in_range unfolding pending_to_chunk_split by force
  note w = chunk_split_wf [OF c [unfolded pending_to_chunk_split]]
  have "decode_exact decode_pending_close (chunk_data c) = Ok p"
    using w(2) by (simp add: pending_close_104 pending_close_codec.exact_round_trip)
  moreover have "rc_chunk_count c = 1" using w(6) one by simp
  ultimately show ?thesis using c w
    by (auto simp: parse_pending_close_def pending_from_chunk_def pending_close_size pending_close_104)
qed

text \<open>Absence is not a fault, and a fault is not absence.\<close>

lemma read_pending_close_None:
  "read_pending_close ops s b3 network e = Ok None \<longleftrightarrow>
    b_registry_chunk ops s (pending_payment_close_slot b3 network e) = None"
  by (auto simp: read_pending_close_def parse_pending_close_def split: option.splits result.splits pending_slot.splits)

lemma read_pending_close_Some:
  assumes "read_pending_close ops s b3 network e = Ok (Some p)"
  shows "pc_payment_edge p = e"
    and "\<exists>c. b_registry_chunk ops s (pending_payment_close_slot b3 network e) = Some c
      \<and> chunk_data c = encode_pending_close p"
  using assms
  by (auto simp: read_pending_close_def parse_pending_close_def pending_from_chunk_def and_then_eq_Ok map_err_eq_Ok
      pending_close_codec.exact_iff split: option.splits result.splits pending_slot.splits if_splits)

subsection \<open>Preimages\<close>

lemmas work_preimage_defs = earned_preimage_def no_earned_preimage_def settlement_preimage_def start_preimage_def
  start_id_preimage_def response_preimage_def adjudicated_preimage_def freeze_preimage_def

lemma work_preimages_fit_one_chunk:
  assumes "wf_network_id n"
  shows "length (earned_preimage n c) < MIN_CHUNK_SIZE"
    and "length (no_earned_preimage e t) < MIN_CHUNK_SIZE"
    and "length (settlement_preimage n e t amount) < MIN_CHUNK_SIZE"
    and "length (start_preimage n e t role validity h) < MIN_CHUNK_SIZE"
    and "length (start_id_preimage h height) < MIN_CHUNK_SIZE"
    and "length (response_preimage n e t i role h) < MIN_CHUNK_SIZE"
    and "length (adjudicated_preimage n e t p) < MIN_CHUNK_SIZE"
    and "length (freeze_preimage b3 n e t amount validity) < MIN_CHUNK_SIZE"
  using encode_network_id_le [OF assms]
  by (simp_all add: work_preimage_defs domain_defs codec_lengths primitive_sizes id_sizes bound_defs
      MIN_CHUNK_SIZE_def max_encoded_size_network_id_def MAX_NETWORK_ID_LENGTH_def encoded_size_start_id_def
      encoded_size_earned_certificate_def EARNED_CERTIFICATE_SIZE_def ENVELOPE_SIZE_def)

lemma start_preimage_inject:
  assumes "wf_network_id m" "wf_network_id n"
    and "start_preimage m e t r v h = start_preimage n e' t' r' v' h'"
  shows "m = n \<and> e = e' \<and> t = t' \<and> r = r' \<and> v = v' \<and> h = h'"
proof -
  from assms(3) have "encode_network_id m @ encode_edge_id e @ encode_terms_hash t @ encode_party r
      @ encode_u64 (fst v) @ encode_u64 (snd v) @ encode_payload_hash h
    = encode_network_id n @ encode_edge_id e' @ encode_terms_hash t' @ encode_party r'
      @ encode_u64 (fst v') @ encode_u64 (snd v') @ encode_payload_hash h'"
    by (simp add: start_preimage_def)
  from encode_network_id_prefix_free [OF assms(1,2) this] show ?thesis
    by (auto dest!: edge_id_codec.prefix_free [OF TrueI TrueI] terms_hash_codec.prefix_free [OF TrueI TrueI]
        party_codec.prefix_free [OF TrueI TrueI] u64_codec.prefix_free [OF TrueI TrueI]
        payload_hash_codec.enc_inj [OF TrueI TrueI] simp: prod_eq_iff)
qed

lemma response_preimage_inject:
  assumes "wf_network_id m" "wf_network_id n"
    and "response_preimage m e t i r h = response_preimage n e' t' i' r' h'"
  shows "m = n \<and> e = e' \<and> t = t' \<and> i = i' \<and> r = r' \<and> h = h'"
proof -
  from assms(3) have "encode_network_id m @ encode_edge_id e @ encode_terms_hash t @ encode_start_id i
      @ encode_party r @ encode_payload_hash h
    = encode_network_id n @ encode_edge_id e' @ encode_terms_hash t' @ encode_start_id i'
      @ encode_party r' @ encode_payload_hash h'"
    by (simp add: response_preimage_def)
  from encode_network_id_prefix_free [OF assms(1,2) this] show ?thesis
    by (auto dest!: edge_id_codec.prefix_free [OF TrueI TrueI] terms_hash_codec.prefix_free [OF TrueI TrueI]
        start_id_codec.prefix_free [OF TrueI TrueI] party_codec.prefix_free [OF TrueI TrueI]
        payload_hash_codec.enc_inj [OF TrueI TrueI])
qed

end
