(* ===== verification/Kernel_Lease.thy ===== *)
theory Kernel_Lease
  imports Kernel_Store
begin

text \<open>Bond leases (src/crates/kernel/src/lease.rs): the record that makes one payment channel the sole
  holder of one work-stake bond, its two registry chunks, and the reader that keeps absence, a whole
  lease and a fault apart.\<close>

section \<open>Definitions\<close>

definition BOND_LEASE_VERSION :: byte where "BOND_LEASE_VERSION = 2"
definition BOND_LEASE_CHUNKS :: byte where "BOND_LEASE_CHUNKS = 2"

record bond_lease =
  bl_bond_edge :: edge_id
  bl_payment_edge :: edge_id
  bl_payment_terms_hash :: terms_hash
  bl_private_policy_commitment :: bytes32
  bl_admission_horizon :: u64

definition BOND_LEASE_SIZE :: nat where
  "BOND_LEASE_SIZE = ENVELOPE_SIZE + max_encoded_size_u8 + 2 * max_encoded_size_edge_id
    + max_encoded_size_terms_hash + HASH_LENGTH + max_encoded_size_u64"

definition lease_opened :: "edge_id \<Rightarrow> edge_id \<Rightarrow> terms_hash \<Rightarrow> bytes32 \<Rightarrow> u64 \<Rightarrow> bond_lease" where
  "lease_opened bond_edge payment_edge terms commitment horizon =
    \<lparr>bl_bond_edge = bond_edge, bl_payment_edge = payment_edge, bl_payment_terms_hash = terms,
     bl_private_policy_commitment = commitment, bl_admission_horizon = horizon\<rparr>"

subsection \<open>Codec\<close>

definition encode_bond_lease :: "bond_lease \<Rightarrow> bytes" where
  "encode_bond_lease l = encode_envelope TAG_BOND_LEASE @ encode_u8 BOND_LEASE_VERSION
    @ encode_edge_id (bl_bond_edge l) @ encode_edge_id (bl_payment_edge l)
    @ encode_terms_hash (bl_payment_terms_hash l) @ encode_bytes32 (bl_private_policy_commitment l)
    @ encode_u64 (bl_admission_horizon l)"
definition encoded_size_bond_lease :: "bond_lease \<Rightarrow> nat" where "encoded_size_bond_lease l = BOND_LEASE_SIZE"
definition max_encoded_size_bond_lease :: nat where "max_encoded_size_bond_lease = BOND_LEASE_SIZE"
definition decode_bond_lease :: "bond_lease decoder" where
  "decode_bond_lease buf =
    and_then (decode_envelope buf TAG_BOND_LEASE) (\<lambda>consumed.
    and_then (decode_field decode_u8 buf consumed) (\<lambda>(version, consumed).
    if version \<noteq> BOND_LEASE_VERSION then Err (InvalidTag version) else
    and_then (decode_field decode_edge_id buf consumed) (\<lambda>(bond_edge, consumed).
    and_then (decode_field decode_edge_id buf consumed) (\<lambda>(payment_edge, consumed).
    and_then (decode_field decode_terms_hash buf consumed) (\<lambda>(terms, consumed).
    and_then (decode_field decode_bytes32 buf consumed) (\<lambda>(commitment, consumed).
    and_then (decode_field decode_u64 buf consumed) (\<lambda>(horizon, consumed).
    Ok (\<lparr>bl_bond_edge = bond_edge, bl_payment_edge = payment_edge, bl_payment_terms_hash = terms,
         bl_private_policy_commitment = commitment, bl_admission_horizon = horizon\<rparr>, consumed))))))))"

subsection \<open>Chunks\<close>

definition lease_to_chunks :: "bond_lease \<Rightarrow> (registry_chunk \<times> registry_chunk) option" where
  "lease_to_chunks l =
    Option.bind (write_to encode_bond_lease l (replicate BOND_LEASE_SIZE 0)) (\<lambda>(buf, written).
      if length buf < written then None
      else Option.bind (chunk_split NsBondLease RecBondLease (take written buf) 0) (\<lambda>c0.
        Option.bind (chunk_split NsBondLease RecBondLease (take written buf) 1) (\<lambda>c1. Some (c0, c1))))"

text \<open>The reassembly loop. Its buffer is modelled by the bytes written so far.\<close>

fun lease_gather :: "nat \<Rightarrow> bytes \<Rightarrow> registry_chunk list \<Rightarrow> (bytes, bond_lease_fault) result" where
  "lease_gather index written [] = Ok written"
| "lease_gather index written (c # cs) =
    (if 2 ^ 8 \<le> index then Err Lease_Shape
     else if rc_namespace c \<noteq> NsBondLease \<or> rc_record_tag c \<noteq> RecBondLease
        \<or> rc_chunk_count c \<noteq> BOND_LEASE_CHUNKS \<or> rc_chunk_index c \<noteq> of_nat index
        \<or> unat (rc_value_len c) \<noteq> BOND_LEASE_SIZE
     then Err Lease_Shape
     else if BOND_LEASE_SIZE < length written + length (chunk_data c) then Err Lease_Shape
     else lease_gather (Suc index) (written @ chunk_data c) cs)"

definition lease_from_chunks :: "registry_chunk \<times> registry_chunk \<Rightarrow> edge_id \<Rightarrow> (bond_lease, bond_lease_fault) result" where
  "lease_from_chunks cs bond_edge =
    and_then (lease_gather 0 [] [fst cs, snd cs]) (\<lambda>written.
    if length written \<noteq> BOND_LEASE_SIZE then Err Lease_Shape
    else and_then (map_err (\<lambda>_. Lease_Body) (decode_exact decode_bond_lease written)) (\<lambda>l.
      if bl_bond_edge l \<noteq> bond_edge then Err Lease_Edge else Ok l))"

definition bond_lease_slot :: "blake3 \<Rightarrow> network_id \<Rightarrow> edge_id \<Rightarrow> byte \<Rightarrow> registry_chunk_id" where
  "bond_lease_slot b3 network bond_edge chunk_index
    = registry_chunk_id_derive b3 network NsBondLease bond_edge chunk_index"

definition bond_lease_slots :: "blake3 \<Rightarrow> network_id \<Rightarrow> edge_id \<Rightarrow> registry_chunk_id \<times> registry_chunk_id" where
  "bond_lease_slots b3 network bond_edge =
    (bond_lease_slot b3 network bond_edge 0, bond_lease_slot b3 network bond_edge 1)"

datatype lease_slots = LeaseAbsent | LeasePresent bond_lease | LeaseFaulty bond_lease_fault

definition parse_bond_lease :: "registry_chunk option \<times> registry_chunk option \<Rightarrow> edge_id \<Rightarrow> lease_slots" where
  "parse_bond_lease slots bond_edge =
    (case slots of
       (None, None) \<Rightarrow> LeaseAbsent
     | (Some c0, Some c1) \<Rightarrow> (case lease_from_chunks (c0, c1) bond_edge of
           Ok l \<Rightarrow> LeasePresent l
         | Err fault \<Rightarrow> LeaseFaulty fault)
     | (Some _, None) \<Rightarrow> LeaseFaulty Lease_Partial
     | (None, Some _) \<Rightarrow> LeaseFaulty Lease_Partial)"

definition read_bond_lease ::
  "'s batch_ops \<Rightarrow> 's \<Rightarrow> blake3 \<Rightarrow> network_id \<Rightarrow> edge_id \<Rightarrow> (bond_lease option, bond_lease_fault) result" where
  "read_bond_lease ops s b3 network bond_edge =
    (let slots = bond_lease_slots b3 network bond_edge;
         stored = (b_registry_chunk ops s (fst slots), b_registry_chunk ops s (snd slots))
     in case parse_bond_lease stored bond_edge of
          LeaseAbsent \<Rightarrow> Ok None
        | LeasePresent l \<Rightarrow> Ok (Some l)
        | LeaseFaulty fault \<Rightarrow> Err fault)"

definition create_mutations :: "blake3 \<Rightarrow> network_id \<Rightarrow> bond_lease \<Rightarrow> registry_mutation list option" where
  "create_mutations b3 network l =
    (let slots = bond_lease_slots b3 network (bl_bond_edge l) in
     Option.bind (lease_to_chunks l) (\<lambda>chunks.
     Some [mutation_write (fst slots) (fst chunks), mutation_write (snd slots) (snd chunks)]))"

definition delete_mutations :: "blake3 \<Rightarrow> network_id \<Rightarrow> edge_id \<Rightarrow> registry_mutation list" where
  "delete_mutations b3 network bond_edge =
    (let slots = bond_lease_slots b3 network bond_edge in
     [mutation_delete (fst slots), mutation_delete (snd slots)])"

section \<open>The lease codec\<close>

interpretation bond_lease_codec: codec encode_bond_lease decode_bond_lease encoded_size_bond_lease max_encoded_size_bond_lease "\<lambda>_. True"
proof
  fix x n and buf rest :: bytes
  show "decode_bond_lease (encode_bond_lease x @ rest) = Ok (x, length (encode_bond_lease x))"
    by (simp add: decode_bond_lease_def encode_bond_lease_def decode_field_def codec_simps  )
  show "True \<and> n \<le> length buf \<and> take n buf = encode_bond_lease x" if "decode_bond_lease buf = Ok (x, n)"
    using that
    by (auto simp: decode_bond_lease_def encode_bond_lease_def and_then_eq_Ok  split: if_splits dest!: codec_dests)
qed (auto simp: encode_bond_lease_def encoded_size_bond_lease_def max_encoded_size_bond_lease_def codec_lengths codec_bounds
    fixed_sizes BOND_LEASE_SIZE_def max_encoded_size_bytes32_def HASH_LENGTH_def)

lemmas bond_lease_round_trip [codec_simps] = bond_lease_codec.round_trip
lemmas bond_lease_canonical [codec_dests] = bond_lease_codec.field_canonical
lemmas bond_lease_length [codec_lengths] = bond_lease_codec.sized
lemmas bond_lease_bound [codec_bounds] = bond_lease_codec.bounded

section \<open>Lemmas\<close>

lemma bond_lease_size: "BOND_LEASE_SIZE = 139"
  by (simp add: BOND_LEASE_SIZE_def primitive_sizes id_sizes bound_defs)

lemma bond_lease_139: "length (encode_bond_lease l) = 139"
  by (simp add: bond_lease_codec.sized encoded_size_bond_lease_def bond_lease_size)

lemma lease_chunk_count: "chunk_count_for (length (encode_bond_lease l)) = Some BOND_LEASE_CHUNKS"
  by (simp add: chunk_count_for_def bond_lease_139 MAX_REGISTRY_VALUE_LEN_def bound_defs BOND_LEASE_CHUNKS_def)

lemma lease_to_chunks_split:
  "lease_to_chunks l = Option.bind (chunk_split NsBondLease RecBondLease (encode_bond_lease l) 0) (\<lambda>c0.
    Option.bind (chunk_split NsBondLease RecBondLease (encode_bond_lease l) 1) (\<lambda>c1. Some (c0, c1)))"
  using bond_lease_codec.write_to_fits [of "replicate BOND_LEASE_SIZE 0" l]
  by (simp add: lease_to_chunks_def max_encoded_size_bond_lease_def encoded_size_bond_lease_def
      bond_lease_size bond_lease_139)

text \<open>Every lease packs into two well-formed chunks that read back as it.\<close>

lemma lease_to_chunks_parse:
  "\<exists>c0 c1. lease_to_chunks l = Some (c0, c1) \<and> wf_registry_chunk c0 \<and> wf_registry_chunk c1
    \<and> lease_from_chunks (c0, c1) (bl_bond_edge l) = Ok l"
proof -
  have "(0 :: byte) < BOND_LEASE_CHUNKS" "(1 :: byte) < BOND_LEASE_CHUNKS"
    by (simp_all add: BOND_LEASE_CHUNKS_def)
  then obtain c0 c1 where c0: "chunk_split NsBondLease RecBondLease (encode_bond_lease l) 0 = Some c0"
    and c1: "chunk_split NsBondLease RecBondLease (encode_bond_lease l) 1 = Some c1"
    using chunk_split_in_range [OF lease_chunk_count] by meson
  note w0 = chunk_split_wf [OF c0] and w1 = chunk_split_wf [OF c1]
  have "chunk_data c0 @ chunk_data c1 = encode_bond_lease l"
    using w0(2) w1(2) by (simp add: bond_lease_139)
  moreover have "rc_chunk_count c0 = BOND_LEASE_CHUNKS" "rc_chunk_count c1 = BOND_LEASE_CHUNKS"
    using w0(6) w1(6) by (simp_all add: lease_chunk_count)
  moreover have "length (chunk_data c0) = 120" "length (chunk_data c1) = 19"
    using w0(2) w1(2) by (simp_all add: bond_lease_139)
  ultimately have "lease_from_chunks (c0, c1) (bl_bond_edge l) = Ok l"
    using w0 w1
    by (simp add: lease_from_chunks_def bond_lease_size bond_lease_139 bond_lease_codec.exact_round_trip)
  then show ?thesis using c0 c1 w0(1) w1(1) by (simp add: lease_to_chunks_split)
qed

lemma parse_bond_lease_Absent [simp]: "parse_bond_lease slots e = LeaseAbsent \<longleftrightarrow> slots = (None, None)"
  by (auto simp: parse_bond_lease_def split: option.splits prod.splits result.splits)

lemma lease_from_chunks_edge: "lease_from_chunks cs e = Ok l \<Longrightarrow> bl_bond_edge l = e"
  by (auto simp: lease_from_chunks_def and_then_eq_Ok split: if_splits)

text \<open>Only two empty slots read as an unleased bond.\<close>

lemma read_bond_lease_None:
  "read_bond_lease ops s b3 network e = Ok None \<longleftrightarrow>
    b_registry_chunk ops s (bond_lease_slot b3 network e 0) = None
    \<and> b_registry_chunk ops s (bond_lease_slot b3 network e 1) = None"
  by (auto simp: read_bond_lease_def Let_def bond_lease_slots_def parse_bond_lease_def
      split: lease_slots.splits option.splits result.splits)

lemma read_bond_lease_Some:
  assumes "read_bond_lease ops s b3 network e = Ok (Some l)"
  shows "bl_bond_edge l = e"
    and "b_registry_chunk ops s (bond_lease_slot b3 network e 0) \<noteq> None"
    and "b_registry_chunk ops s (bond_lease_slot b3 network e 1) \<noteq> None"
  using assms
  by (auto simp: read_bond_lease_def Let_def bond_lease_slots_def parse_bond_lease_def
      split: lease_slots.splits option.splits result.splits dest: lease_from_chunks_edge)

lemma create_mutations_Some:
  "\<exists>c0 c1. create_mutations b3 network l
      = Some [mutation_write (bond_lease_slot b3 network (bl_bond_edge l) 0) c0,
              mutation_write (bond_lease_slot b3 network (bl_bond_edge l) 1) c1]
    \<and> lease_from_chunks (c0, c1) (bl_bond_edge l) = Ok l"
proof -
  obtain c0 c1 where "lease_to_chunks l = Some (c0, c1)" "lease_from_chunks (c0, c1) (bl_bond_edge l) = Ok l"
    using lease_to_chunks_parse [of l] by blast
  then show ?thesis
    by (intro exI [of _ c0] exI [of _ c1]) (simp add: create_mutations_def Let_def bond_lease_slots_def)
qed

end
