(* ===== verification/Kernel_Event.thy ===== *)
theory Kernel_Event
  imports Kernel_Store
begin

text \<open>Events, changes and effects (src/crates/kernel/src/event.rs): what a validated operation will
  commit, how it is folded into a batch, and what it reports. The lemmas inside the \<open>batch\<close> context
  account for every unit of value an effect moves.\<close>

section \<open>Definitions\<close>

datatype event_kind =
    EdgeOpened "coin_id list" edge_id
  | EdgeClosed edge_id "coin_id list"
  | CoinsReshaped "coin_id list" "coin_id list"

record event =
  ev_kind :: event_kind

record apply_outcome =
  ao_public_event :: "event option"
  ao_registry :: registry_diff

text \<open>The diff of an ordered batch holds at most \<open>N\<close> outcomes; \<open>None\<close> is the out-of-range index of a push
  past the end.\<close>

type_synonym diff = "apply_outcome list"

definition batch_diff_empty :: diff where "batch_diff_empty = []"

definition batch_diff_push :: "nat \<Rightarrow> diff \<Rightarrow> apply_outcome \<Rightarrow> diff option" where
  "batch_diff_push N d outcome = (if length d < N then Some (d @ [outcome]) else None)"

definition batch_diff_outcome :: "diff \<Rightarrow> nat \<Rightarrow> apply_outcome option" where
  "batch_diff_outcome d index = (if length d \<le> index then None else Some (d ! index))"

definition batch_diff_event :: "diff \<Rightarrow> nat \<Rightarrow> event option" where
  "batch_diff_event d index = Option.bind (batch_diff_outcome d index) ao_public_event"

definition batch_diff_registry :: "diff \<Rightarrow> nat \<Rightarrow> registry_diff option" where
  "batch_diff_registry d index = map_option ao_registry (batch_diff_outcome d index)"

definition batch_diff_events :: "diff \<Rightarrow> event list" where
  "batch_diff_events d = List.map_filter ao_public_event d"

datatype effect =
    EffectOpen "(coin_id \<times> coin) list" "edge_id \<times> edge"
  | EffectClose "edge_id \<times> edge" "(coin_id \<times> coin) list"
  | EffectReshape "(coin_id \<times> coin) list" "(coin_id \<times> coin) list"

datatype change =
    Public event effect registry_diff
  | Private registry_diff

definition change_ids :: "(coin_id \<times> coin) list \<Rightarrow> coin_id list" where
  "change_ids coins = map fst coins"

definition change_open :: "(coin_id \<times> coin) list \<Rightarrow> edge_id \<times> edge \<Rightarrow> change" where
  "change_open inputs out =
    Public \<lparr>ev_kind = EdgeOpened (change_ids inputs) (fst out)\<rparr> (EffectOpen inputs out) diff_empty"

definition change_close :: "edge_id \<times> edge \<Rightarrow> (coin_id \<times> coin) list \<Rightarrow> change" where
  "change_close inp outputs =
    Public \<lparr>ev_kind = EdgeClosed (fst inp) (change_ids outputs)\<rparr> (EffectClose inp outputs) diff_empty"

definition change_reshape :: "(coin_id \<times> coin) list \<Rightarrow> (coin_id \<times> coin) list \<Rightarrow> change" where
  "change_reshape inputs outputs =
    Public \<lparr>ev_kind = CoinsReshaped (change_ids inputs) (change_ids outputs)\<rparr>
      (EffectReshape inputs outputs) diff_empty"

definition change_private :: "registry_diff \<Rightarrow> change" where
  "change_private registry = Private registry"

fun change_with_registry :: "change \<Rightarrow> registry_diff \<Rightarrow> change" where
  "change_with_registry (Public ev eff _) d = Public ev eff d"
| "change_with_registry (Private _) d = Private d"

fun change_outcome :: "change \<Rightarrow> apply_outcome" where
  "change_outcome (Public ev _ registry) = \<lparr>ao_public_event = Some ev, ao_registry = registry\<rparr>"
| "change_outcome (Private registry) = \<lparr>ao_public_event = None, ao_registry = registry\<rparr>"

fun effect_fold :: "'s batch_ops \<Rightarrow> 's \<Rightarrow> effect \<Rightarrow> 's kernel_result" where
  "effect_fold ops s (EffectOpen coins e) =
    and_then (remove_coins ops s coins) (\<lambda>s. insert_edge ops s e)"
| "effect_fold ops s (EffectClose e coins) =
    and_then (remove_edge ops s e) (\<lambda>s. insert_coins ops s coins)"
| "effect_fold ops s (EffectReshape inputs outputs) =
    and_then (remove_coins ops s inputs) (\<lambda>s. insert_coins ops s outputs)"

fun change_fold :: "'s batch_ops \<Rightarrow> 's \<Rightarrow> change \<Rightarrow> 's kernel_result" where
  "change_fold ops s (Public _ eff registry) =
    and_then (effect_fold ops s eff) (\<lambda>s. diff_fold ops s registry)"
| "change_fold ops s (Private registry) = diff_fold ops s registry"

subsection \<open>The accounting of an effect\<close>

fun effect_removed :: "effect \<Rightarrow> nat" where
  "effect_removed (EffectOpen coins e) = coins_value coins"
| "effect_removed (EffectClose e coins) = edge_locked (snd e)"
| "effect_removed (EffectReshape inputs outputs) = coins_value inputs"

fun effect_added :: "effect \<Rightarrow> nat" where
  "effect_added (EffectOpen coins e) = edge_locked (snd e)"
| "effect_added (EffectClose e coins) = coins_value coins"
| "effect_added (EffectReshape inputs outputs) = coins_value outputs"

fun change_removed :: "change \<Rightarrow> nat" where
  "change_removed (Public _ eff _) = effect_removed eff"
| "change_removed (Private _) = 0"

fun change_added :: "change \<Rightarrow> nat" where
  "change_added (Public _ eff _) = effect_added eff"
| "change_added (Private _) = 0"

fun change_registry :: "change \<Rightarrow> registry_diff" where
  "change_registry (Public _ _ registry) = registry"
| "change_registry (Private registry) = registry"

subsection \<open>The abstract ledger\<close>

text \<open>What a batch holds, and what a change does to it: the specification the folds implement.\<close>

record ledger =
  l_coins :: "coin_id \<Rightarrow> coin option"
  l_edges :: "edge_id \<Rightarrow> edge option"
  l_registry :: "registry_chunk_id \<Rightarrow> registry_chunk option"

definition ledger_of :: "'s batch_ops \<Rightarrow> 's \<Rightarrow> ledger" where
  "ledger_of ops s = \<lparr>l_coins = b_coin ops s, l_edges = b_edge ops s, l_registry = b_registry_chunk ops s\<rparr>"

definition spend :: "(coin_id \<times> coin) list \<Rightarrow> (coin_id \<Rightarrow> coin option) \<Rightarrow> coin_id \<Rightarrow> coin option" where
  "spend coins m = (\<lambda>i. if i \<in> fst ` set coins then None else m i)"

fun effect_spec :: "effect \<Rightarrow> ledger \<Rightarrow> ledger" where
  "effect_spec (EffectOpen coins e) l =
    l\<lparr>l_coins := spend coins (l_coins l), l_edges := (l_edges l)(fst e \<mapsto> snd e)\<rparr>"
| "effect_spec (EffectClose e coins) l =
    l\<lparr>l_coins := l_coins l ++ map_of coins, l_edges := (l_edges l)(fst e := None)\<rparr>"
| "effect_spec (EffectReshape inputs outputs) l =
    l\<lparr>l_coins := spend inputs (l_coins l) ++ map_of outputs\<rparr>"

definition diff_spec :: "registry_diff \<Rightarrow> ledger \<Rightarrow> ledger" where
  "diff_spec d l = l\<lparr>l_registry := foldl (\<lambda>r m. r(rm_id m := rm_chunk m)) (l_registry l) d\<rparr>"

fun change_spec :: "change \<Rightarrow> ledger \<Rightarrow> ledger" where
  "change_spec (Public _ eff registry) l = diff_spec registry (effect_spec eff l)"
| "change_spec (Private registry) l = diff_spec registry l"

text \<open>Where a change may be applied: each coin and the edge it removes is there, just as it says, and no coin or
  edge it enters is there already. A coin is spent or issued once, and a registry chunk it deletes is there.\<close>

fun effect_applies :: "effect \<Rightarrow> ledger \<Rightarrow> bool" where
  "effect_applies (EffectOpen coins e) l \<longleftrightarrow>
    distinct (map fst coins) \<and> (\<forall>c \<in> set coins. l_coins l (fst c) = Some (snd c)) \<and> l_edges l (fst e) = None"
| "effect_applies (EffectClose e coins) l \<longleftrightarrow>
    l_edges l (fst e) = Some (snd e) \<and> distinct (map fst coins) \<and> (\<forall>c \<in> set coins. l_coins l (fst c) = None)"
| "effect_applies (EffectReshape inputs outputs) l \<longleftrightarrow>
    distinct (map fst inputs) \<and> (\<forall>c \<in> set inputs. l_coins l (fst c) = Some (snd c))
    \<and> distinct (map fst outputs) \<and> (\<forall>c \<in> set outputs. spend inputs (l_coins l) (fst c) = None)"

definition diff_applies :: "registry_diff \<Rightarrow> ledger \<Rightarrow> bool" where
  "diff_applies d l \<longleftrightarrow> (\<forall>m \<in> set d. rm_chunk m = None \<longrightarrow> l_registry l (rm_id m) \<noteq> None)"

fun change_applies :: "change \<Rightarrow> ledger \<Rightarrow> bool" where
  "change_applies (Public _ eff registry) l \<longleftrightarrow> effect_applies eff l \<and> diff_applies registry l"
| "change_applies (Private registry) l \<longleftrightarrow> diff_applies registry l"

text \<open>The event announces exactly the coins and the edge its effect moves.\<close>

fun event_announces :: "event_kind \<Rightarrow> effect \<Rightarrow> bool" where
  "event_announces (EdgeOpened inputs out) (EffectOpen coins e) \<longleftrightarrow> inputs = map fst coins \<and> out = fst e"
| "event_announces (EdgeClosed inp outputs) (EffectClose e coins) \<longleftrightarrow> inp = fst e \<and> outputs = map fst coins"
| "event_announces (CoinsReshaped inputs outputs) (EffectReshape ins outs) \<longleftrightarrow>
    inputs = map fst ins \<and> outputs = map fst outs"
| "event_announces _ _ \<longleftrightarrow> False"

fun change_coherent :: "change \<Rightarrow> bool" where
  "change_coherent (Public ev eff registry) \<longleftrightarrow> event_announces (ev_kind ev) eff \<and> wf_registry_diff registry"
| "change_coherent (Private registry) \<longleftrightarrow> wf_registry_diff registry"

section \<open>Lemmas\<close>

lemma change_coherent_intros [simp]:
  "change_coherent (change_open inputs out)"
  "change_coherent (change_close inp outputs)"
  "change_coherent (change_reshape inputs outputs)"
  "change_coherent (change_private d) \<longleftrightarrow> wf_registry_diff d"
  by (simp_all add: change_open_def change_close_def change_reshape_def change_private_def change_ids_def)

lemma change_coherent_with_registry:
  "change_coherent c \<Longrightarrow> wf_registry_diff d \<Longrightarrow> change_coherent (change_with_registry c d)"
  by (cases c) simp_all

lemma change_registry_simps [simp]:
  "change_registry (change_with_registry c d) = d"
  "change_removed (change_with_registry c d) = change_removed c"
  "change_added (change_with_registry c d) = change_added c"
  "ao_registry (change_outcome c) = change_registry c"
  by (cases c; simp)+

lemma change_coherent_registry: "change_coherent c \<Longrightarrow> wf_registry_diff (change_registry c)"
  by (cases c) simp_all

lemma foldl_upd_other:
  "i \<notin> rm_id ` set d \<Longrightarrow> foldl (\<lambda>r m. r(rm_id m := rm_chunk m)) r d i = r i"
  by (induction d arbitrary: r) simp_all

lemma foldl_upd_named:
  "distinct (map rm_id d) \<Longrightarrow> m \<in> set d \<Longrightarrow> foldl (\<lambda>r m. r(rm_id m := rm_chunk m)) r d (rm_id m) = rm_chunk m"
  by (induction d arbitrary: r) (auto simp: foldl_upd_other)

text \<open>The registry after a change: the slots it names end where it says, and no other slot moves.\<close>

lemma change_spec_registry:
  assumes "change_coherent c"
  shows "m \<in> set (change_registry c) \<Longrightarrow> l_registry (change_spec c l) (rm_id m) = rm_chunk m"
    and "i \<notin> rm_id ` set (change_registry c) \<Longrightarrow> l_registry (change_spec c l) i = l_registry l i"
proof -
  have eff: "l_registry (effect_spec eff l) = l_registry l" for eff by (cases eff) simp_all
  have d: "distinct (map rm_id (change_registry c))"
    using assms by (cases c) (simp_all add: wf_registry_diff_def)
  show "m \<in> set (change_registry c) \<Longrightarrow> l_registry (change_spec c l) (rm_id m) = rm_chunk m"
    using d by (cases c) (simp_all add: diff_spec_def foldl_upd_named)
  show "i \<notin> rm_id ` set (change_registry c) \<Longrightarrow> l_registry (change_spec c l) i = l_registry l i"
    by (cases c) (simp_all add: diff_spec_def foldl_upd_other eff)
qed

context batch
begin

lemma effect_step:
  assumes "inv s" "effect_fold ops s eff = Ok s'"
  shows "inv s' \<and> ledger_of ops s' = effect_spec eff (ledger_of ops s)
    \<and> total_value ops s' + effect_removed eff = total_value ops s + effect_added eff"
proof (cases eff)
  case (EffectOpen coins e)
  with assms(2) obtain t where r: "remove_coins ops s coins = Ok t" and i: "insert_edge ops t e = Ok s'"
    by (auto simp: and_then_eq_Ok)
  note removed = remove_coins_step [OF assms(1) r]
  then have "inv t" by simp
  with removed insert_edge_step [OF _ i] EffectOpen show ?thesis by (simp add: ledger_of_def spend_def)
next
  case (EffectClose e coins)
  with assms(2) obtain t where r: "remove_edge ops s e = Ok t" and i: "insert_coins ops t coins = Ok s'"
    by (auto simp: and_then_eq_Ok)
  note removed = remove_edge_step [OF assms(1) r]
  then have "inv t" by simp
  with removed insert_coins_step [OF _ i] EffectClose show ?thesis by (simp add: ledger_of_def)
next
  case (EffectReshape inputs outputs)
  with assms(2) obtain t where r: "remove_coins ops s inputs = Ok t" and i: "insert_coins ops t outputs = Ok s'"
    by (auto simp: and_then_eq_Ok)
  note removed = remove_coins_step [OF assms(1) r]
  then have "inv t" by simp
  with removed insert_coins_step [OF _ i] EffectReshape show ?thesis by (simp add: ledger_of_def spend_def)
qed

lemma diff_refines:
  assumes "inv s" "diff_fold ops s d = Ok s'"
  shows "inv s' \<and> ledger_of ops s' = diff_spec d (ledger_of ops s) \<and> total_value ops s' = total_value ops s"
  using assms
proof (induction d arbitrary: s)
  case Nil then show ?case by (simp add: diff_fold_def diff_spec_def)
next
  case (Cons m d)
  from Cons.prems(2) obtain t where t: "mutation_fold ops s m = Ok t" and rest: "diff_fold ops t d = Ok s'"
    by (auto simp: diff_fold_def and_then_eq_Ok)
  note step = mutation_step [OF Cons.prems(1) t]
  then show ?case using Cons.IH [OF _ rest] by (simp add: total_value_def ledger_of_def diff_spec_def)
qed

text \<open>Folding a change implements its specification, and the ledger's value moves by exactly what the
  effect adds and removes.\<close>

lemma change_step:
  assumes "inv s" "change_fold ops s c = Ok s'"
  shows "inv s' \<and> ledger_of ops s' = change_spec c (ledger_of ops s)
    \<and> total_value ops s' + change_removed c = total_value ops s + change_added c"
proof (cases c)
  case (Public ev eff registry)
  with assms(2) obtain t where t: "effect_fold ops s eff = Ok t" and d: "diff_fold ops t registry = Ok s'"
    by (auto simp: and_then_eq_Ok)
  with effect_step [OF assms(1) t] diff_refines [OF _ d] Public show ?thesis by simp
next
  case (Private registry)
  with diff_refines [OF assms(1), of registry s'] assms(2) show ?thesis by simp
qed

text \<open>And a change is folded only where it may be applied.\<close>

lemma effect_guard:
  assumes "inv s" "effect_fold ops s eff = Ok s'"
  shows "effect_applies eff (ledger_of ops s) \<and> b_registry_chunk ops s' = b_registry_chunk ops s"
proof (cases eff)
  case (EffectOpen coins e)
  with assms(2) obtain t where r: "remove_coins ops s coins = Ok t" and i: "insert_edge ops t e = Ok s'"
    by (auto simp: and_then_eq_Ok)
  note removed = remove_coins_step [OF assms(1) r]
  then have "inv t" by simp
  from removed insert_edge_step [OF this i] EffectOpen show ?thesis by (simp add: ledger_of_def)
next
  case (EffectClose e coins)
  with assms(2) obtain t where r: "remove_edge ops s e = Ok t" and i: "insert_coins ops t coins = Ok s'"
    by (auto simp: and_then_eq_Ok)
  note removed = remove_edge_step [OF assms(1) r]
  then have "inv t" by simp
  from removed insert_coins_step [OF this i] EffectClose show ?thesis by (simp add: ledger_of_def)
next
  case (EffectReshape inputs outputs)
  with assms(2) obtain t where r: "remove_coins ops s inputs = Ok t" and i: "insert_coins ops t outputs = Ok s'"
    by (auto simp: and_then_eq_Ok)
  note removed = remove_coins_step [OF assms(1) r]
  then have "inv t" by simp
  from removed insert_coins_step [OF this i] EffectReshape show ?thesis by (simp add: ledger_of_def spend_def)
qed

lemma diff_guard:
  assumes "inv s" "diff_fold ops s d = Ok s'" "distinct (map rm_id d)"
  shows "\<forall>m \<in> set d. rm_chunk m = None \<longrightarrow> b_registry_chunk ops s (rm_id m) \<noteq> None"
  using assms
proof (induction d arbitrary: s)
  case (Cons m d)
  from Cons.prems(2) obtain t where t: "mutation_fold ops s m = Ok t" and rest: "diff_fold ops t d = Ok s'"
    by (auto simp: diff_fold_def and_then_eq_Ok)
  note step = mutation_step [OF Cons.prems(1) t]
  have other: "b_registry_chunk ops t (rm_id x) = b_registry_chunk ops s (rm_id x)" if "x \<in> set d" for x
  proof -
    have "rm_id x \<noteq> rm_id m" using Cons.prems(3) that by (metis distinct.simps(2) image_eqI list.set_map list.simps(9))
    then show ?thesis using step by simp
  qed
  have "\<forall>x \<in> set d. rm_chunk x = None \<longrightarrow> b_registry_chunk ops t (rm_id x) \<noteq> None"
    using Cons.IH [OF _ rest] Cons.prems(3) step by simp
  then show ?case using other step by (simp del: not_None_eq)
qed simp

lemma change_guard:
  assumes "inv s" "change_fold ops s c = Ok s'" "change_coherent c"
  shows "change_applies c (ledger_of ops s)"
proof (cases c)
  case (Public ev eff registry)
  with assms(2) obtain t where t: "effect_fold ops s eff = Ok t" and d: "diff_fold ops t registry = Ok s'"
    by (auto simp: and_then_eq_Ok)
  have "inv t" using effect_step [OF assms(1) t] by simp
  from effect_guard [OF assms(1) t] diff_guard [OF this d] assms(3) Public show ?thesis
    by (simp add: diff_applies_def ledger_of_def wf_registry_diff_def)
next
  case (Private registry)
  with diff_guard [OF assms(1), of registry s'] assms(2,3) show ?thesis
    by (simp add: diff_applies_def ledger_of_def wf_registry_diff_def)
qed

end

end
