(* ===== verification/Kernel_Tx.thy ===== *)
theory Kernel_Tx
  imports Kernel_Work Kernel_Lease Kernel_Event
begin

text \<open>Transactions (src/crates/kernel/src/tx/mod.rs, tx/proof.rs, tx/reshape.rs): close proofs, reshapes,
  moves and the transaction type with their codecs, the hashes the parties sign, the derived object ids,
  and the deterministic resource costs.\<close>

section \<open>Close proofs\<close>

definition MUTUAL_TAG :: byte where "MUTUAL_TAG = 0"
definition TIMEOUT_TAG :: byte where "TIMEOUT_TAG = 1"
definition FREEZE_TAG :: byte where "FREEZE_TAG = 3"
definition ADJUDICATED_TAG :: byte where "ADJUDICATED_TAG = 4"

definition encode_contest_commitment :: "contest_commitment \<Rightarrow> bytes" where
  "encode_contest_commitment c = encode_bytes32 c"
definition encoded_size_contest_commitment :: "contest_commitment \<Rightarrow> nat" where
  "encoded_size_contest_commitment c = max_encoded_size_bytes32"
definition max_encoded_size_contest_commitment :: nat where
  "max_encoded_size_contest_commitment = max_encoded_size_bytes32"
definition decode_contest_commitment :: "contest_commitment decoder" where
  "decode_contest_commitment buf =
    and_then (decode_field decode_bytes32 buf 0) (\<lambda>(bs, consumed). Ok (bs, consumed))"

datatype close_proof =
    MutualProof party_auth party_auth
  | TimeoutProof kterms "party_auth option"
  | FreezeProof u64 u64 u64 party_auth party_auth  \<comment> \<open>earned, valid from, valid through, maker, taker\<close>
  | AdjudicatedProof contest_commitment

definition freeze_owner_signed :: "party_auth \<Rightarrow> party_auth \<Rightarrow> pending_close option \<Rightarrow> bool \<times> bool" where
  "freeze_owner_signed maker taker pending =
    (let previous = (case pending of None \<Rightarrow> (False, False) | Some p \<Rightarrow> pc_owner_signed p)
     in (is_owner maker \<or> fst previous, is_owner taker \<or> snd previous))"

fun payment_close_owner_signed :: "close_proof \<Rightarrow> pending_close option \<Rightarrow> (bool \<times> bool) option" where
  "payment_close_owner_signed (FreezeProof _ _ _ maker taker) pending
    = Some (freeze_owner_signed maker taker pending)"
| "payment_close_owner_signed (AdjudicatedProof _) pending = map_option pc_owner_signed pending"
| "payment_close_owner_signed (MutualProof _ _) pending = None"
| "payment_close_owner_signed (TimeoutProof _ _) pending = None"

fun proof_kind :: "close_proof \<Rightarrow> close_kind" where
  "proof_kind (MutualProof _ _) = Mutual"
| "proof_kind (TimeoutProof _ _) = Timeout"
| "proof_kind (FreezeProof _ _ _ _ _) = Freeze"
| "proof_kind (AdjudicatedProof _) = Adjudicated"

definition proof_cost :: "close_proof \<Rightarrow> cost" where
  "proof_cost p = cost_new 0 0 (close_kind_proofs (proof_kind p))"

fun wf_close_proof :: "blake3 \<Rightarrow> close_proof \<Rightarrow> bool" where
  "wf_close_proof b3 (MutualProof m t) \<longleftrightarrow> wf_party_auth m \<and> wf_party_auth t"
| "wf_close_proof b3 (TimeoutProof terms ow) \<longleftrightarrow> wf_terms b3 terms \<and> pred_option wf_party_auth ow"
| "wf_close_proof b3 (FreezeProof _ _ _ m t) \<longleftrightarrow> wf_party_auth m \<and> wf_party_auth t"
| "wf_close_proof b3 (AdjudicatedProof _) \<longleftrightarrow> True"

definition FREEZE_BODY_SIZE :: nat where
  "FREEZE_BODY_SIZE = 3 * max_encoded_size_u64 + 2 * max_encoded_size_party_auth"

definition MAX_PROOF_BODY :: nat where
  "MAX_PROOF_BODY =
    (let m = 2 * max_encoded_size_party_auth;
         timeout = max_encoded_size_terms + max_encoded_size_option max_encoded_size_party_auth;
         m = (if m < timeout then timeout else m);
         m = (if m < FREEZE_BODY_SIZE then FREEZE_BODY_SIZE else m)
     in if m < max_encoded_size_contest_commitment then max_encoded_size_contest_commitment else m)"

definition encode_close_proof :: "close_proof \<Rightarrow> bytes" where
  "encode_close_proof p = encode_envelope TAG_PROOF @ (case p of
      MutualProof m t \<Rightarrow> encode_u8 MUTUAL_TAG @ encode_party_auth m @ encode_party_auth t
    | TimeoutProof terms ow \<Rightarrow> encode_u8 TIMEOUT_TAG @ encode_terms terms @ encode_option encode_party_auth ow
    | FreezeProof earned from through m t \<Rightarrow> encode_u8 FREEZE_TAG @ encode_u64 earned @ encode_u64 from
        @ encode_u64 through @ encode_party_auth m @ encode_party_auth t
    | AdjudicatedProof c \<Rightarrow> encode_u8 ADJUDICATED_TAG @ encode_contest_commitment c)"
definition encoded_size_close_proof :: "close_proof \<Rightarrow> nat" where
  "encoded_size_close_proof p = ENVELOPE_SIZE + max_encoded_size_u8 + (case p of
      MutualProof m t \<Rightarrow> encoded_size_party_auth m + encoded_size_party_auth t
    | TimeoutProof terms ow \<Rightarrow> encoded_size_terms terms + encoded_size_option encoded_size_party_auth ow
    | FreezeProof earned from through m t \<Rightarrow>
        3 * max_encoded_size_u64 + encoded_size_party_auth m + encoded_size_party_auth t
    | AdjudicatedProof c \<Rightarrow> encoded_size_contest_commitment c)"
definition max_encoded_size_close_proof :: nat where
  "max_encoded_size_close_proof = ENVELOPE_SIZE + max_encoded_size_u8 + MAX_PROOF_BODY"
definition decode_close_proof :: "blake3 \<Rightarrow> close_proof decoder" where
  "decode_close_proof b3 buf =
    and_then (decode_envelope buf TAG_PROOF) (\<lambda>consumed.
    and_then (decode_field decode_u8 buf consumed) (\<lambda>(variant, consumed).
    if variant = MUTUAL_TAG then
      and_then (decode_field decode_party_auth buf consumed) (\<lambda>(m, consumed).
      and_then (decode_field decode_party_auth buf consumed) (\<lambda>(t, consumed).
      Ok (MutualProof m t, consumed)))
    else if variant = TIMEOUT_TAG then
      and_then (decode_field (decode_terms b3) buf consumed) (\<lambda>(terms, consumed).
      and_then (decode_field (decode_option decode_party_auth) buf consumed) (\<lambda>(ow, consumed).
      Ok (TimeoutProof terms ow, consumed)))
    else if variant = FREEZE_TAG then
      and_then (decode_field decode_u64 buf consumed) (\<lambda>(earned, consumed).
      and_then (decode_field decode_u64 buf consumed) (\<lambda>(from, consumed).
      and_then (decode_field decode_u64 buf consumed) (\<lambda>(through, consumed).
      and_then (decode_field decode_party_auth buf consumed) (\<lambda>(m, consumed).
      and_then (decode_field decode_party_auth buf consumed) (\<lambda>(t, consumed).
      Ok (FreezeProof earned from through m t, consumed))))))
    else if variant = ADJUDICATED_TAG then
      and_then (decode_field decode_contest_commitment buf consumed) (\<lambda>(c, consumed).
      Ok (AdjudicatedProof c, consumed))
    else Err (InvalidTag variant)))"

section \<open>Reshapes\<close>

record reshape =
  rs_inputs :: "coin_id list"
  rs_outputs :: payouts
  rs_auth :: auth

definition wf_reshape :: "reshape \<Rightarrow> bool" where
  "wf_reshape r \<longleftrightarrow> length (rs_inputs r) \<le> MAX_EDGE_INPUTS \<and> wf_payouts (rs_outputs r) \<and> wf_auth (rs_auth r)"

definition encode_edge_inputs :: "coin_id list \<Rightarrow> bytes" where "encode_edge_inputs = encode_list encode_coin_id"
definition encoded_size_edge_inputs :: "coin_id list \<Rightarrow> nat" where
  "encoded_size_edge_inputs = encoded_size_list encoded_size_coin_id"
definition max_encoded_size_edge_inputs :: nat where
  "max_encoded_size_edge_inputs = max_encoded_size_list MAX_EDGE_INPUTS max_encoded_size_coin_id"
definition decode_edge_inputs :: "coin_id list decoder" where
  "decode_edge_inputs = decode_list MAX_EDGE_INPUTS decode_coin_id"

definition reshape_payload_preimage :: "network_id \<Rightarrow> coin_id list \<Rightarrow> payouts \<Rightarrow> bytes" where
  "reshape_payload_preimage network inputs outputs =
    OWNER_RESHAPE @ encode_network_id network @ encode_edge_inputs inputs @ encode_payouts outputs"

definition reshape_payload_hash :: "blake3 \<Rightarrow> network_id \<Rightarrow> coin_id list \<Rightarrow> payouts \<Rightarrow> payload_hash" where
  "reshape_payload_hash b3 network inputs outputs
    = xet_commit b3 (reshape_payload_preimage network inputs outputs)"

definition reshape_output_ids :: "blake3 \<Rightarrow> network_id \<Rightarrow> coin_id list \<Rightarrow> payouts \<Rightarrow> coin_id list" where
  "reshape_output_ids b3 network inputs outputs =
    map (\<lambda>(index, p). coin_id_reshape b3 network inputs index (payout_owner p)) (enumerate 0 outputs)"

definition reshape_cost :: "reshape \<Rightarrow> cost" where
  "reshape_cost r = cost_new 1 (u64_of_usize (length (rs_inputs r) + length (rs_outputs r))) 1"

definition encode_reshape :: "reshape \<Rightarrow> bytes" where
  "encode_reshape r = encode_edge_inputs (rs_inputs r) @ encode_payouts (rs_outputs r) @ encode_auth (rs_auth r)"
definition encoded_size_reshape :: "reshape \<Rightarrow> nat" where
  "encoded_size_reshape r = encoded_size_edge_inputs (rs_inputs r) + encoded_size_payouts (rs_outputs r)
    + encoded_size_auth (rs_auth r)"
definition max_encoded_size_reshape :: nat where
  "max_encoded_size_reshape = max_encoded_size_edge_inputs + max_encoded_size_payouts + max_encoded_size_auth"
definition decode_reshape :: "reshape decoder" where
  "decode_reshape buf =
    and_then (decode_field decode_edge_inputs buf 0) (\<lambda>(inputs, consumed).
    and_then (decode_field decode_payouts buf consumed) (\<lambda>(outputs, consumed).
    and_then (decode_field decode_auth buf consumed) (\<lambda>(a, consumed).
    Ok (\<lparr>rs_inputs = inputs, rs_outputs = outputs, rs_auth = a\<rparr>, consumed))))"

section \<open>Moves\<close>

datatype move =
    StartPaymentClose payment_close_start
  | RespondPaymentClose payment_close_response

fun wf_move :: "blake3 \<Rightarrow> move \<Rightarrow> bool" where
  "wf_move b3 (StartPaymentClose start) = wf_payment_close_start b3 start"
| "wf_move b3 (RespondPaymentClose response) = wf_payment_close_response response"

fun move_cost :: "move \<Rightarrow> cost" where
  "move_cost (StartPaymentClose start) = close_start_cost start"
| "move_cost (RespondPaymentClose response) = close_response_cost response"

definition encode_move :: "move \<Rightarrow> bytes" where
  "encode_move m = (case m of
      StartPaymentClose start \<Rightarrow> encode_payment_close_start start
    | RespondPaymentClose response \<Rightarrow> encode_payment_close_response response)"
definition encoded_size_move :: "move \<Rightarrow> nat" where
  "encoded_size_move m = (case m of
      StartPaymentClose start \<Rightarrow> encoded_size_payment_close_start start
    | RespondPaymentClose response \<Rightarrow> encoded_size_payment_close_response response)"
definition max_encoded_size_move :: nat where
  "max_encoded_size_move =
    (if max_encoded_size_payment_close_response < max_encoded_size_payment_close_start
     then max_encoded_size_payment_close_start else max_encoded_size_payment_close_response)"
definition decode_move :: "blake3 \<Rightarrow> move decoder" where
  "decode_move b3 buf =
    and_then (peek_envelope_tag buf) (\<lambda>tag.
    if tag = TAG_PAYMENT_CLOSE_START then
      and_then (decode_payment_close_start b3 buf) (\<lambda>(start, consumed). Ok (StartPaymentClose start, consumed))
    else if tag = TAG_PAYMENT_CLOSE_RESPONSE then
      and_then (decode_payment_close_response buf) (\<lambda>(response, consumed).
        Ok (RespondPaymentClose response, consumed))
    else Err (InvalidTag tag))"

section \<open>Transactions\<close>

definition OPEN_TAG :: byte where "OPEN_TAG = 0"
definition CLOSE_TAG :: byte where "CLOSE_TAG = 1"
definition MOVE_TAG :: byte where "MOVE_TAG = 2"
definition OWNER_TAG :: byte where "OWNER_TAG = 3"

datatype tx =
    TxOpen funding kterms party_auth party_auth
  | TxClose edge_id close_proof payouts
  | TxMove move
  | TxOwner reshape

fun wf_tx :: "blake3 \<Rightarrow> tx \<Rightarrow> bool" where
  "wf_tx b3 (TxOpen f terms m t) \<longleftrightarrow> wf_funding f \<and> wf_terms b3 terms \<and> wf_party_auth m \<and> wf_party_auth t"
| "wf_tx b3 (TxClose inp p outs) \<longleftrightarrow> wf_close_proof b3 p \<and> wf_payouts outs"
| "wf_tx b3 (TxMove m) \<longleftrightarrow> wf_move b3 m"
| "wf_tx b3 (TxOwner r) \<longleftrightarrow> wf_reshape r"

definition timeout_close :: "edge_id \<Rightarrow> kterms \<Rightarrow> tx option" where
  "timeout_close edge terms =
    Option.bind (terms_timeout_outputs terms) (\<lambda>outputs. Some (TxClose edge (TimeoutProof terms None) outputs))"

definition edge_id_preimage :: "funding \<Rightarrow> terms_hash \<Rightarrow> bytes" where
  "edge_id_preimage f terms = EDGE_OPEN @ encode_terms_hash terms
    @ encode_list encode_coin_id (funding_maker f) @ encode_list encode_coin_id (funding_taker f)"

definition edge_id_from :: "blake3 \<Rightarrow> funding \<Rightarrow> terms_hash \<Rightarrow> edge_id" where
  "edge_id_from b3 f terms = xet_commit b3 (edge_id_preimage f terms)"

definition edge_id_of :: "blake3 \<Rightarrow> funding \<Rightarrow> kterms \<Rightarrow> edge_id" where
  "edge_id_of b3 f terms = edge_id_from b3 f (terms_hash_of terms)"

definition open_preimage :: "network_id \<Rightarrow> edge_id \<Rightarrow> bytes" where
  "open_preimage network edge = OPEN_DOMAIN @ encode_network_id network @ encode_edge_id edge"

definition open_hash :: "blake3 \<Rightarrow> network_id \<Rightarrow> funding \<Rightarrow> kterms \<Rightarrow> payload_hash" where
  "open_hash b3 network f terms = xet_commit b3 (open_preimage network (edge_id_of b3 f terms))"

definition close_output_ids :: "blake3 \<Rightarrow> edge_id \<Rightarrow> payouts \<Rightarrow> coin_id list" where
  "close_output_ids b3 edge outputs = map (\<lambda>(index, p). payout_id b3 p edge index) (enumerate 0 outputs)"

definition close_preimage :: "network_id \<Rightarrow> edge_id \<Rightarrow> close_kind \<Rightarrow> terms_hash \<Rightarrow> payouts \<Rightarrow> bytes" where
  "close_preimage network inp k terms outputs = CLOSE_DOMAIN @ encode_network_id network @ encode_edge_id inp
    @ encode_u8 (close_kind_tag k) @ encode_terms_hash terms @ encode_payouts outputs"

definition close_payload_hash ::
  "blake3 \<Rightarrow> network_id \<Rightarrow> edge_id \<Rightarrow> close_kind \<Rightarrow> terms_hash \<Rightarrow> payouts \<Rightarrow> payload_hash" where
  "close_payload_hash b3 network inp k terms outputs
    = xet_commit b3 (close_preimage network inp k terms outputs)"

definition encode_tx :: "tx \<Rightarrow> bytes" where
  "encode_tx t = encode_envelope TAG_TX @ (case t of
      TxOpen f terms ma ta \<Rightarrow> encode_u8 OPEN_TAG @ encode_funding f @ encode_terms terms
        @ encode_party_auth ma @ encode_party_auth ta
    | TxClose inp p outs \<Rightarrow> encode_u8 CLOSE_TAG @ encode_edge_id inp @ encode_close_proof p @ encode_payouts outs
    | TxMove m \<Rightarrow> encode_u8 MOVE_TAG @ encode_move m
    | TxOwner r \<Rightarrow> encode_u8 OWNER_TAG @ encode_reshape r)"
definition encoded_size_tx :: "tx \<Rightarrow> nat" where
  "encoded_size_tx t = ENVELOPE_SIZE + max_encoded_size_u8 + (case t of
      TxOpen f terms ma ta \<Rightarrow> encoded_size_funding f + encoded_size_terms terms
        + encoded_size_party_auth ma + encoded_size_party_auth ta
    | TxClose inp p outs \<Rightarrow> encoded_size_edge_id inp + encoded_size_close_proof p + encoded_size_payouts outs
    | TxMove m \<Rightarrow> encoded_size_move m
    | TxOwner r \<Rightarrow> encoded_size_reshape r)"
definition max_encoded_size_tx :: nat where
  "max_encoded_size_tx =
    (let open_size = max_encoded_size_funding + max_encoded_size_terms + 2 * max_encoded_size_party_auth;
         close_size = max_encoded_size_edge_id + max_encoded_size_close_proof + max_encoded_size_payouts;
         max_body = (if close_size < open_size then open_size else close_size);
         max_body = (if max_body < max_encoded_size_move then max_encoded_size_move else max_body);
         max_body = (if max_body < max_encoded_size_reshape then max_encoded_size_reshape else max_body)
     in ENVELOPE_SIZE + max_encoded_size_u8 + max_body)"
definition decode_tx :: "blake3 \<Rightarrow> tx decoder" where
  "decode_tx b3 buf =
    and_then (decode_envelope buf TAG_TX) (\<lambda>consumed.
    and_then (decode_field decode_u8 buf consumed) (\<lambda>(variant, consumed).
    if variant = OPEN_TAG then
      and_then (decode_field decode_funding buf consumed) (\<lambda>(f, consumed).
      and_then (decode_field (decode_terms b3) buf consumed) (\<lambda>(terms, consumed).
      and_then (decode_field decode_party_auth buf consumed) (\<lambda>(ma, consumed).
      and_then (decode_field decode_party_auth buf consumed) (\<lambda>(ta, consumed).
      Ok (TxOpen f terms ma ta, consumed)))))
    else if variant = CLOSE_TAG then
      and_then (decode_field decode_edge_id buf consumed) (\<lambda>(inp, consumed).
      and_then (decode_field (decode_close_proof b3) buf consumed) (\<lambda>(p, consumed).
      and_then (decode_field decode_payouts buf consumed) (\<lambda>(outs, consumed).
      Ok (TxClose inp p outs, consumed))))
    else if variant = MOVE_TAG then
      and_then (decode_field (decode_move b3) buf consumed) (\<lambda>(m, consumed). Ok (TxMove m, consumed))
    else if variant = OWNER_TAG then
      and_then (decode_field decode_reshape buf consumed) (\<lambda>(r, consumed). Ok (TxOwner r, consumed))
    else Err (InvalidTag variant)))"

section \<open>Costs\<close>

definition WORK_BOND_TIMEOUT_EXTRA_SLOTS :: u64 where "WORK_BOND_TIMEOUT_EXTRA_SLOTS = 4"
definition OPEN_WITNESSES :: u64 where "OPEN_WITNESSES = 2"

definition is_work_bond :: "kterms \<Rightarrow> bool" where
  "is_work_bond terms = (case terms_profile_of terms of ProfileWorkStakeBond _ \<Rightarrow> True | _ \<Rightarrow> False)"

definition timeout_close_cost :: "nat \<Rightarrow> bool \<Rightarrow> cost" where
  "timeout_close_cost outputs work_bond =
    (let extra = (if work_bond then WORK_BOND_TIMEOUT_EXTRA_SLOTS else 1)
     in cost_new 1 (saturating_add (u64_of_usize outputs) extra) (close_kind_proofs Timeout))"

definition kind_close_cost :: "nat \<Rightarrow> close_kind \<Rightarrow> cost" where
  "kind_close_cost outputs k =
    (if k = Freeze \<or> k = Adjudicated then work_payment_close_cost k
     else cost_new 1 (saturating_add (u64_of_usize outputs) 1) (close_kind_proofs k))"

definition close_cost :: "nat \<Rightarrow> close_proof \<Rightarrow> cost" where
  "close_cost outputs p = (case p of
      TimeoutProof terms _ \<Rightarrow> timeout_close_cost outputs (is_work_bond terms)
    | _ \<Rightarrow> kind_close_cost outputs (proof_kind p))"

definition open_cost :: "nat \<Rightarrow> kterms \<Rightarrow> cost" where
  "open_cost coins terms =
    (let inputs = u64_of_usize coins in
     case terms_profile_of terms of
       ProfileWorkPayment _ \<Rightarrow> cost_new 1 (saturating_add inputs 4) OPEN_WITNESSES
     | _ \<Rightarrow> cost_new 1 (saturating_add inputs 1) OPEN_WITNESSES)"

definition open_reserve_cost :: "kterms \<Rightarrow> cost" where
  "open_reserve_cost terms = (case terms_profile_of terms of
      ProfileWorkPayment _ \<Rightarrow> work_payment_reserve_cost
    | ProfileWorkStakeBond _ \<Rightarrow>
        cost_new 1 (saturating_add (u64_of_usize MAX_EDGE_OUTPUTS) WORK_BOND_TIMEOUT_EXTRA_SLOTS)
          (close_kind_proofs Mutual)
    | ProfileBasic \<Rightarrow> kind_close_cost MAX_EDGE_OUTPUTS Mutual)"

definition tx_cost :: "tx \<Rightarrow> cost" where
  "tx_cost t = (case t of
      TxOpen f terms _ _ \<Rightarrow> open_cost (funding_len f) terms
    | TxClose _ p outs \<Rightarrow> close_cost (length outs) p
    | TxMove m \<Rightarrow> move_cost m
    | TxOwner r \<Rightarrow> reshape_cost r)"

definition verify_party :: "verifier \<Rightarrow> party_auth \<Rightarrow> party_keys \<Rightarrow> payload_hash \<Rightarrow> bool" where
  "verify_party vf a p hash = vf (pa_auth a) (pk_key p (pa_authority a)) hash"

fun duplicate :: "'a list \<Rightarrow> 'a option" where
  "duplicate [] = None"
| "duplicate (x # xs) = (if x \<in> set xs then Some x else duplicate xs)"

section \<open>Codecs\<close>

interpretation contest_commitment_codec: codec encode_contest_commitment decode_contest_commitment
  encoded_size_contest_commitment max_encoded_size_contest_commitment "\<lambda>_. True"
proof
  fix x n and buf rest :: bytes
  show "decode_contest_commitment (encode_contest_commitment x @ rest) = Ok (x, length (encode_contest_commitment x))"
    by (simp add: decode_contest_commitment_def encode_contest_commitment_def decode_field_def codec_simps)
  show "True \<and> n \<le> length buf \<and> take n buf = encode_contest_commitment x"
    if "decode_contest_commitment buf = Ok (x, n)"
    using that by (auto simp: decode_contest_commitment_def encode_contest_commitment_def and_then_eq_Ok
        dest!: codec_dests)
qed (simp_all add: encode_contest_commitment_def encoded_size_contest_commitment_def
    max_encoded_size_contest_commitment_def codec_lengths fixed_sizes)

lemmas contest_commitment_round_trip [codec_simps] = contest_commitment_codec.round_trip
lemmas contest_commitment_canonical [codec_dests] = contest_commitment_codec.field_canonical
lemmas contest_commitment_length [codec_lengths] = contest_commitment_codec.sized
lemmas contest_commitment_bound [codec_bounds] = contest_commitment_codec.bounded

interpretation party_auth_option_codec: codec "encode_option encode_party_auth" "decode_option decode_party_auth"
  "encoded_size_option encoded_size_party_auth" "max_encoded_size_option max_encoded_size_party_auth"
  "pred_option wf_party_auth"
  by (rule party_auth_codec.option_codec)

lemmas party_auth_option_round_trip [codec_simps] = party_auth_option_codec.round_trip
lemmas party_auth_option_canonical [codec_dests] = party_auth_option_codec.field_canonical
lemmas party_auth_option_length [codec_lengths] = party_auth_option_codec.sized
lemmas party_auth_option_bound [codec_bounds] = party_auth_option_codec.bounded

interpretation edge_inputs_codec: codec encode_edge_inputs decode_edge_inputs encoded_size_edge_inputs
  max_encoded_size_edge_inputs "\<lambda>xs. length xs \<le> MAX_EDGE_INPUTS"
  using coin_id_codec.list_codec [of MAX_EDGE_INPUTS]
  by (simp add: encode_edge_inputs_def decode_edge_inputs_def encoded_size_edge_inputs_def
      max_encoded_size_edge_inputs_def list_all_iff MAX_EDGE_INPUTS_def MAX_PARTY_INPUTS_def)

lemmas edge_inputs_round_trip [codec_simps] = edge_inputs_codec.round_trip
lemmas edge_inputs_canonical [codec_dests] = edge_inputs_codec.field_canonical
lemmas edge_inputs_length [codec_lengths] = edge_inputs_codec.sized
lemmas edge_inputs_bound [codec_bounds] = edge_inputs_codec.bounded

lemma max_proof_body_ge:
  "2 * max_encoded_size_party_auth \<le> MAX_PROOF_BODY"
  "max_encoded_size_terms + max_encoded_size_option max_encoded_size_party_auth \<le> MAX_PROOF_BODY"
  "FREEZE_BODY_SIZE \<le> MAX_PROOF_BODY"
  "max_encoded_size_contest_commitment \<le> MAX_PROOF_BODY"
  by (auto simp: MAX_PROOF_BODY_def Let_def)

interpretation close_proof_codec: codec encode_close_proof "decode_close_proof b3" encoded_size_close_proof
  max_encoded_size_close_proof "wf_close_proof b3" for b3 :: blake3
proof
  fix x n and buf rest :: bytes
  show "decode_close_proof b3 (encode_close_proof x @ rest) = Ok (x, length (encode_close_proof x))"
    if "wf_close_proof b3 x"
    using that by (cases x)
      (simp_all add: decode_close_proof_def encode_close_proof_def decode_field_def codec_simps
        MUTUAL_TAG_def TIMEOUT_TAG_def FREEZE_TAG_def ADJUDICATED_TAG_def)
  show "wf_close_proof b3 x \<and> n \<le> length buf \<and> take n buf = encode_close_proof x"
    if "decode_close_proof b3 buf = Ok (x, n)"
    using that
    by (auto simp: decode_close_proof_def encode_close_proof_def and_then_eq_Ok split: if_splits dest!: codec_dests)
  show "length (encode_close_proof x) = encoded_size_close_proof x" if "wf_close_proof b3 x"
    using that by (cases x)
      (auto simp: encode_close_proof_def encoded_size_close_proof_def codec_lengths fixed_sizes)
  show "encoded_size_close_proof x \<le> max_encoded_size_close_proof" if w: "wf_close_proof b3 x"
  proof (cases x)
    case (MutualProof m t)
    with w have "encoded_size_party_auth m + encoded_size_party_auth t \<le> 2 * max_encoded_size_party_auth"
      by (intro add_le_twice) (simp_all add: codec_bounds)
    then show ?thesis using MutualProof max_proof_body_ge(1)
      by (simp add: encoded_size_close_proof_def max_encoded_size_close_proof_def)
  next
    case (TimeoutProof terms ow)
    with w have "encoded_size_terms terms + encoded_size_option encoded_size_party_auth ow
        \<le> max_encoded_size_terms + max_encoded_size_option max_encoded_size_party_auth"
      by (intro add_mono) (auto simp: codec_bounds)
    then show ?thesis using TimeoutProof max_proof_body_ge(2)
      by (simp add: encoded_size_close_proof_def max_encoded_size_close_proof_def)
  next
    case (FreezeProof earned lo hi m t)
    with w have "encoded_size_party_auth m + encoded_size_party_auth t \<le> 2 * max_encoded_size_party_auth"
      by (intro add_le_twice) (simp_all add: codec_bounds)
    then show ?thesis using FreezeProof max_proof_body_ge(3)
      by (simp add: encoded_size_close_proof_def max_encoded_size_close_proof_def FREEZE_BODY_SIZE_def)
  next
    case (AdjudicatedProof c)
    then show ?thesis using max_proof_body_ge(4)
      by (simp add: encoded_size_close_proof_def max_encoded_size_close_proof_def
          encoded_size_contest_commitment_def max_encoded_size_contest_commitment_def)
  qed
qed

lemmas close_proof_round_trip [codec_simps] = close_proof_codec.round_trip
lemmas close_proof_canonical [codec_dests] = close_proof_codec.field_canonical
lemmas close_proof_length [codec_lengths] = close_proof_codec.sized
lemmas close_proof_bound [codec_bounds] = close_proof_codec.bounded

interpretation reshape_codec: codec encode_reshape decode_reshape encoded_size_reshape max_encoded_size_reshape wf_reshape
proof
  fix x n and buf rest :: bytes
  show "decode_reshape (encode_reshape x @ rest) = Ok (x, length (encode_reshape x))" if "wf_reshape x"
    using that by (simp add: decode_reshape_def encode_reshape_def decode_field_def codec_simps wf_reshape_def  )
  show "wf_reshape x \<and> n \<le> length buf \<and> take n buf = encode_reshape x" if "decode_reshape buf = Ok (x, n)"
    using that
    by (auto simp: decode_reshape_def encode_reshape_def and_then_eq_Ok wf_reshape_def  split: if_splits dest!: codec_dests)
qed (auto simp: encode_reshape_def encoded_size_reshape_def max_encoded_size_reshape_def codec_lengths codec_bounds
    wf_reshape_def add_mono)

lemmas reshape_round_trip [codec_simps] = reshape_codec.round_trip
lemmas reshape_canonical [codec_dests] = reshape_codec.field_canonical
lemmas reshape_length [codec_lengths] = reshape_codec.sized
lemmas reshape_bound [codec_bounds] = reshape_codec.bounded

interpretation move_codec: codec encode_move "decode_move b3" encoded_size_move max_encoded_size_move
  "wf_move b3" for b3 :: blake3
proof
  fix x n and buf rest :: bytes
  show "decode_move b3 (encode_move x @ rest) = Ok (x, length (encode_move x))" if w: "wf_move b3 x"
  proof (cases x)
    case (StartPaymentClose start)
    have "peek_envelope_tag (encode_payment_close_start start @ rest) = Ok TAG_PAYMENT_CLOSE_START"
      by (simp add: encode_payment_close_start_def)
    then show ?thesis using w StartPaymentClose by (simp add: decode_move_def encode_move_def codec_simps)
  next
    case (RespondPaymentClose response)
    have "peek_envelope_tag (encode_payment_close_response response @ rest) = Ok TAG_PAYMENT_CLOSE_RESPONSE"
      by (simp add: encode_payment_close_response_def)
    then show ?thesis using w RespondPaymentClose
      by (simp add: decode_move_def encode_move_def codec_simps TAG_PAYMENT_CLOSE_START_def
          TAG_PAYMENT_CLOSE_RESPONSE_def)
  qed
  show "wf_move b3 x \<and> n \<le> length buf \<and> take n buf = encode_move x" if "decode_move b3 buf = Ok (x, n)"
    using that
    by (auto simp: decode_move_def encode_move_def and_then_eq_Ok split: if_splits
        dest!: payment_close_start_codec.canonical payment_close_response_codec.canonical)
  show "length (encode_move x) = encoded_size_move x" if "wf_move b3 x"
    using that by (cases x) (simp_all add: encode_move_def encoded_size_move_def codec_lengths)
  show "encoded_size_move x \<le> max_encoded_size_move" if w: "wf_move b3 x"
  proof -
    have "max_encoded_size_payment_close_start \<le> max_encoded_size_move"
      "max_encoded_size_payment_close_response \<le> max_encoded_size_move"
      by (simp_all add: max_encoded_size_move_def)
    then show ?thesis using w payment_close_start_codec.bounded payment_close_response_codec.bounded
      by (cases x) (auto simp: encoded_size_move_def intro: order_trans)
  qed
qed

lemmas move_round_trip [codec_simps] = move_codec.round_trip
lemmas move_canonical [codec_dests] = move_codec.field_canonical
lemmas move_length [codec_lengths] = move_codec.sized
lemmas move_bound [codec_bounds] = move_codec.bounded

lemma max_tx_body_ge:
  "ENVELOPE_SIZE + max_encoded_size_u8 + (max_encoded_size_funding + max_encoded_size_terms
    + 2 * max_encoded_size_party_auth) \<le> max_encoded_size_tx"
  "ENVELOPE_SIZE + max_encoded_size_u8 + (max_encoded_size_edge_id + max_encoded_size_close_proof
    + max_encoded_size_payouts) \<le> max_encoded_size_tx"
  "ENVELOPE_SIZE + max_encoded_size_u8 + max_encoded_size_move \<le> max_encoded_size_tx"
  "ENVELOPE_SIZE + max_encoded_size_u8 + max_encoded_size_reshape \<le> max_encoded_size_tx"
  by (auto simp: max_encoded_size_tx_def Let_def)

lemma tx_size_bound:
  assumes "wf_tx b3 x"
  shows "encoded_size_tx x \<le> max_encoded_size_tx"
proof (cases x)
  case (TxOpen f terms ma ta)
  with assms have "encoded_size_funding f \<le> max_encoded_size_funding" "encoded_size_terms terms \<le> max_encoded_size_terms"
    "encoded_size_party_auth ma + encoded_size_party_auth ta \<le> 2 * max_encoded_size_party_auth"
    by (auto simp: codec_bounds intro: add_le_twice)
  then show ?thesis using TxOpen max_tx_body_ge(1) by (simp add: encoded_size_tx_def)
next
  case (TxClose inp p outs)
  with assms have "encoded_size_close_proof p \<le> max_encoded_size_close_proof"
    "encoded_size_payouts outs \<le> max_encoded_size_payouts"
    by (auto simp: codec_bounds)
  then show ?thesis using TxClose max_tx_body_ge(2) by (simp add: encoded_size_tx_def fixed_sizes)
next
  case (TxMove m)
  with assms have "encoded_size_move m \<le> max_encoded_size_move" by (auto simp: codec_bounds)
  then show ?thesis using TxMove max_tx_body_ge(3) by (simp add: encoded_size_tx_def)
next
  case (TxOwner r)
  with assms have "encoded_size_reshape r \<le> max_encoded_size_reshape" by (auto simp: codec_bounds)
  then show ?thesis using TxOwner max_tx_body_ge(4) by (simp add: encoded_size_tx_def)
qed

interpretation tx_codec: codec encode_tx "decode_tx b3" encoded_size_tx max_encoded_size_tx "wf_tx b3"
  for b3 :: blake3
proof
  fix x n and buf rest :: bytes
  show "decode_tx b3 (encode_tx x @ rest) = Ok (x, length (encode_tx x))" if "wf_tx b3 x"
    using that by (cases x)
      (simp_all add: decode_tx_def encode_tx_def decode_field_def codec_simps OPEN_TAG_def CLOSE_TAG_def
        MOVE_TAG_def OWNER_TAG_def)
  show "wf_tx b3 x \<and> n \<le> length buf \<and> take n buf = encode_tx x" if "decode_tx b3 buf = Ok (x, n)"
    using that
    by (auto simp: decode_tx_def encode_tx_def and_then_eq_Ok split: if_splits dest!: codec_dests)
  show "length (encode_tx x) = encoded_size_tx x" if "wf_tx b3 x"
    using that by (cases x) (auto simp: encode_tx_def encoded_size_tx_def codec_lengths fixed_sizes)
qed (rule tx_size_bound)

section \<open>Lemmas\<close>

lemma duplicate_None: "duplicate xs = None \<longleftrightarrow> distinct xs"
  by (induction xs) auto

end
