(* ===== verification/Kernel_Tx_Work.thy ===== *)
theory Kernel_Tx_Work
  imports Kernel_Tx
begin

text \<open>The work-payment transitions (src/crates/kernel/src/tx/work.rs): opening a close contest, answering
  it, the two payment exits, and the lease a payment open takes out. Guards appear in the order of the
  source. \<open>b3\<close> is the keyed hash, \<open>vf\<close> the host's signature verifier, \<open>ops\<close> and \<open>s\<close> the batch.\<close>

section \<open>Shared checks\<close>

datatype window_fault = WindowOutside | WindowTooWide

definition check_validity_window :: "u64 \<Rightarrow> u64 \<times> u64 \<Rightarrow> u64 \<Rightarrow> (unit, window_fault) result" where
  "check_validity_window height validity max_span =
    (case validity of (lo, hi) \<Rightarrow>
      if height < lo \<or> hi < height then Err WindowOutside
      else (case checked_sub hi lo of
          None \<Rightarrow> Err WindowTooWide
        | Some gap \<Rightarrow> (case checked_add gap 1 of
              None \<Rightarrow> Err WindowTooWide
            | Some span \<Rightarrow> if max_span < span then Err WindowTooWide else Ok ())))"

fun move_window_fault :: "window_fault \<Rightarrow> invalid_move_reason" where
  "move_window_fault WindowOutside = Move_OutsideValidityWindow"
| "move_window_fault WindowTooWide = Move_ValiditySpanTooWide"

definition check_certificate ::
  "earned_certificate \<Rightarrow> edge_id \<Rightarrow> terms_hash \<Rightarrow> (unit, invalid_move_reason) result" where
  "check_certificate c inp terms =
    (if ec_payment_edge c = inp \<and> ec_payment_terms_hash c = terms then Ok () else Err Move_CertificateNotBound)"

definition check_capacity :: "edge \<Rightarrow> u64 \<Rightarrow> u64 \<Rightarrow> (unit, invalid_move_reason) result" where
  "check_capacity e omission_bond amount =
    and_then (ok_or Move_ReserveTooSmall (payment_capacity e omission_bond)) (\<lambda>capacity.
    if capacity < amount then Err Move_CertificateOverCapacity else Ok ())"

definition check_split ::
  "parties \<Rightarrow> u64 \<times> u64 \<Rightarrow> bool \<times> bool \<Rightarrow> payouts \<Rightarrow> (unit, invalid_proof_reason) result" where
  "check_split ps amounts owner_signed outputs =
    and_then (split_payouts ps (fst amounts) (snd amounts) owner_signed) (\<lambda>expected.
    if outputs = expected then Ok () else Err Proof_PayoutMismatch)"

definition one_mutation :: "registry_mutation \<Rightarrow> registry_diff kernel_result" where
  "one_mutation m = and_then (map_err RegistryDiffRejected (diff_push diff_empty m)) (\<lambda>d. Ok d)"

definition read_pending ::
  "'s batch_ops \<Rightarrow> 's \<Rightarrow> blake3 \<Rightarrow> ctx \<Rightarrow> edge_id \<Rightarrow> (pending_close option, pending_close_fault) result" where
  "read_pending ops s b3 context inp = read_pending_close ops s b3 (ctx_network context) inp"

section \<open>Starting a contest\<close>

definition check_start_certificate ::
  "edge \<Rightarrow> u64 \<Rightarrow> edge_id \<Rightarrow> payment_close_start \<Rightarrow> (unit, invalid_move_reason) result" where
  "check_start_certificate e omission_bond inp start =
    (case ps_certificate start of
       None \<Rightarrow> Ok ()
     | Some (certificate, _) \<Rightarrow>
         and_then (check_certificate certificate inp (edge_terms e)) (\<lambda>_.
         if ec_earned_cumulative certificate = 0 then Err Move_CertificateNotPositive
         else check_capacity e omission_bond (ec_earned_cumulative certificate)))"

definition apply_start ::
  "blake3 \<Rightarrow> verifier \<Rightarrow> 's batch_ops \<Rightarrow> 's \<Rightarrow> ctx \<Rightarrow> payment_close_start \<Rightarrow> change kernel_result" where
  "apply_start b3 vf ops s context start =
    (let inp = ps_payment_edge start;
         reject = InvalidMove inp;
         network = ctx_network context
     in and_then (ok_or (MissingEdge inp) (b_edge ops s inp)) (\<lambda>e.
     if terms_hash_of (ps_terms start) \<noteq> edge_terms e then Err (reject Move_TermsMismatch)
     else case terms_profile_of (ps_terms start) of
       ProfileWorkPayment payment \<Rightarrow>
         let height = ctx_block_height context in
         and_then (map_err (\<lambda>fault. reject (move_window_fault fault))
           (check_validity_window height (ps_valid_from_height start, ps_valid_through_height start)
             (wp_start_validity_blocks payment))) (\<lambda>_.
         and_then (map_err (\<lambda>fault. reject (Move_ClosePendingFault fault)) (read_pending ops s b3 context inp)) (\<lambda>pending.
         if pending \<noteq> None then Err (reject Move_ClosePending)
         else and_then (ok_or (reject Move_DeadlineOverflow) (from_accepted_start b3 network height start)) (\<lambda>rec.
         and_then (map_err reject (check_start_certificate e (wp_omission_bond payment) inp start)) (\<lambda>_.
         if (case ps_certificate start of
               Some (certificate, a) \<Rightarrow>
                 \<not> verify_party vf a (parties_maker (edge_parties e)) (certificate_digest b3 network certificate)
             | None \<Rightarrow> False)
         then Err (reject Move_BadCertificateSignature)
         else if \<not> verify_party vf (ps_action start) (keys_of (ps_opener_role start) (edge_parties e))
             (close_start_digest b3 start network)
         then Err (reject Move_BadSignature)
         else and_then (ok_or (reject (Move_ClosePendingFault Pending_Body)) (pending_to_chunk rec)) (\<lambda>chunk.
         and_then (one_mutation (mutation_write (pending_payment_close_slot b3 network inp) chunk)) (\<lambda>d.
         Ok (change_private d)))))))
     | _ \<Rightarrow> Err (reject Move_NotAPaymentChannel)))"

section \<open>Answering it\<close>

definition check_response ::
  "blake3 \<Rightarrow> verifier \<Rightarrow> 's batch_ops \<Rightarrow> 's \<Rightarrow> ctx \<Rightarrow> payment_close_response \<Rightarrow> pending_close kernel_result" where
  "check_response b3 vf ops s context response =
    (let inp = pr_payment_edge response;
         reject = InvalidMove inp;
         network = ctx_network context
     in and_then (ok_or (MissingEdge inp) (b_edge ops s inp)) (\<lambda>e.
     if \<not> edge_allows e Adjudicated then Err (reject Move_NotAPaymentChannel)
     else and_then (map_err (\<lambda>fault. reject (Move_ClosePendingFault fault)) (read_pending ops s b3 context inp)) (\<lambda>pending.
     and_then (ok_or (reject Move_ClosePendingMissing) pending) (\<lambda>rec.
     if pc_start_id rec \<noteq> pr_start_id response then Err (reject Move_StartIdMismatch)
     else if pr_responder_role response \<noteq> Taker then Err (reject Move_ResponderNotBeneficiary)
     else if pc_responded rec then Err (reject Move_AlreadyResponded)
     else if pc_response_deadline rec \<le> ctx_block_height context then Err (reject Move_ResponseWindowClosed)
     else let certificate = pr_certificate response in
       and_then (map_err reject (check_certificate certificate inp (edge_terms e))) (\<lambda>_.
       if ec_earned_cumulative certificate \<le> pc_final_cumulative rec
       then Err (reject Move_CertificateNotIncreasing)
       else and_then (map_err reject
         (check_capacity e (pc_penalty_amount rec) (ec_earned_cumulative certificate))) (\<lambda>_.
       let earned_digest = certificate_digest b3 network certificate;
           digest = response_digest b3 network inp (edge_terms e) (pc_start_id rec)
             (pr_responder_role response) earned_digest
       in if \<not> verify_party vf (pr_action response) (keys_of (pr_responder_role response) (edge_parties e)) digest
         then Err (reject Move_BadSignature)
         else if \<not> verify_party vf (pr_certificate_auth response) (parties_maker (edge_parties e)) earned_digest
         then Err (reject Move_BadCertificateSignature)
         else Ok (with_accepted_response rec response)))))))"

definition apply_response ::
  "blake3 \<Rightarrow> verifier \<Rightarrow> 's batch_ops \<Rightarrow> 's \<Rightarrow> ctx \<Rightarrow> payment_close_response \<Rightarrow> change kernel_result" where
  "apply_response b3 vf ops s context response =
    (let inp = pr_payment_edge response in
     and_then (check_response b3 vf ops s context response) (\<lambda>advanced.
     and_then (ok_or (InvalidMove inp (Move_ClosePendingFault Pending_Body)) (pending_to_chunk advanced)) (\<lambda>chunk.
     and_then (one_mutation (mutation_write (pending_payment_close_slot b3 (ctx_network context) inp) chunk)) (\<lambda>d.
     Ok (change_private d)))))"

section \<open>The two exits\<close>

record close_subject =
  cs_input :: edge_id
  cs_edge :: edge
  cs_total :: u64
  cs_outputs :: payouts

definition check_adjudicated ::
  "blake3 \<Rightarrow> 's batch_ops \<Rightarrow> 's \<Rightarrow> ctx \<Rightarrow> close_subject \<Rightarrow> contest_commitment
    \<Rightarrow> (registry_mutation option, invalid_proof_reason) result" where
  "check_adjudicated b3 ops s context close commitment =
    (let inp = cs_input close; e = cs_edge close in
     and_then (map_err Proof_ClosePendingFault (read_pending ops s b3 context inp)) (\<lambda>pending.
     and_then (ok_or Proof_ClosePendingMissing pending) (\<lambda>rec.
     if \<not> pc_responded rec \<and> ctx_block_height context < pc_response_deadline rec then Err Proof_ResponseWindowOpen
     else and_then (ok_or Proof_PayoutOverCapacity
         (checked_add (pc_final_cumulative rec) (pending_penalty rec))) (\<lambda>provider.
     and_then (check_split (edge_parties e) (cs_total close, provider) (pc_owner_signed rec) (cs_outputs close)) (\<lambda>_.
     if commitment \<noteq> contest_commitment_of b3 rec (ctx_network context) inp (edge_terms e)
     then Err Proof_ContestMismatch
     else Ok (Some (mutation_delete (pending_payment_close_slot b3 (ctx_network context) inp))))))))"

definition check_freeze ::
  "blake3 \<Rightarrow> verifier \<Rightarrow> 's batch_ops \<Rightarrow> 's \<Rightarrow> ctx \<Rightarrow> close_subject
    \<Rightarrow> u64 \<times> (u64 \<times> u64) \<times> party_auth \<times> party_auth
    \<Rightarrow> (registry_mutation option, invalid_proof_reason) result" where
  "check_freeze b3 vf ops s context close freeze =
    (case freeze of (earned, validity, maker_auth, taker_auth) \<Rightarrow>
     let inp = cs_input close; e = cs_edge close; network = ctx_network context in
     and_then (map_err (\<lambda>_. Proof_FreezeOutsideValidityWindow)
       (check_validity_window (ctx_block_height context) validity MAX_FREEZE_AUTH_BLOCKS)) (\<lambda>_.
     and_then (map_err Proof_ClosePendingFault (read_pending ops s b3 context inp)) (\<lambda>pending.
     and_then
       (case pending of
          None \<Rightarrow> Ok earned
        | Some rec \<Rightarrow>
            if earned < pc_final_cumulative rec then Err Proof_FreezeBelowSettled
            else ok_or Proof_PayoutOverCapacity (checked_add earned (freeze_penalty rec earned))) (\<lambda>provider.
     let owner_signed = freeze_owner_signed maker_auth taker_auth pending in
     and_then (check_split (edge_parties e) (cs_total close, provider) owner_signed (cs_outputs close)) (\<lambda>_.
     let digest = freeze_digest b3 network inp (edge_terms e) earned validity in
     if \<not> verify_party vf maker_auth (parties_maker (edge_parties e)) digest
        \<or> \<not> verify_party vf taker_auth (parties_taker (edge_parties e)) digest
     then Err Proof_BadSignature
     else Ok (map_option (\<lambda>_. mutation_delete (pending_payment_close_slot b3 network inp)) pending))))))"

section \<open>The lease a payment open takes out\<close>

definition push_mutations :: "registry_mutation list \<Rightarrow> registry_diff kernel_result" where
  "push_mutations ms = try_fold (\<lambda>d m. map_err RegistryDiffRejected (diff_push d m)) diff_empty ms"

definition open_bond_lease ::
  "blake3 \<Rightarrow> 's batch_ops \<Rightarrow> 's \<Rightarrow> ctx \<Rightarrow> edge_id \<Rightarrow> kterms \<Rightarrow> registry_diff kernel_result" where
  "open_bond_lease b3 ops s context out terms =
    (case terms_profile_of terms of
       ProfileWorkPayment payment \<Rightarrow>
         let reject = InvalidOpen out; network = ctx_network context in
         and_then (ok_or (MissingEdge (wp_bond_edge payment)) (b_edge ops s (wp_bond_edge payment))) (\<lambda>bond.
         if edge_terms bond \<noteq> bond_terms_hash b3 payment then Err (reject Open_WorkBondTermsMismatch)
         else and_then (map_err (\<lambda>fault. reject (Open_WorkBondLeaseFault fault))
           (read_bond_lease ops s b3 network (wp_bond_edge payment))) (\<lambda>held.
         if held \<noteq> None then Err (reject Open_WorkBondAlreadyLeased)
         else let lease = lease_opened (wp_bond_edge payment) out (terms_hash_of terms)
             (wp_private_policy_commitment payment) (wp_admission_horizon payment)
         in and_then (ok_or (reject (Open_WorkBondLeaseFault Lease_Body)) (create_mutations b3 network lease)) (\<lambda>ms.
         push_mutations ms)))
     | _ \<Rightarrow> Ok diff_empty)"

definition check_payment_capacity :: "edge \<Rightarrow> work_payment_terms \<Rightarrow> (unit, invalid_open_reason) result" where
  "check_payment_capacity e payment =
    and_then (ok_or Open_WorkPaymentReserveTooSmall (close_route_minimum e)) (\<lambda>route.
    and_then (ok_or Open_WorkPaymentCapacityUnfunded (checked_sub route (wp_omission_bond payment))) (\<lambda>capacity.
    if capacity = 0 then Err Open_WorkPaymentCapacityUnfunded else Ok ()))"

section \<open>Lemmas\<close>

lemma one_mutation_Ok [simp]: "one_mutation m = Ok [m]"
  by (simp add: one_mutation_def diff_push_def diff_contains_def diff_empty_def MAX_REGISTRY_MUTATIONS_def)

lemma push_mutations_wf:
  assumes "push_mutations ms = Ok d" shows "wf_registry_diff d"
  using assms unfolding push_mutations_def
  by (rule try_fold_invariant) (auto simp: map_err_eq_Ok intro: diff_push_wf)

lemma check_validity_window_Ok:
  assumes "check_validity_window height (lo, hi) max_span = Ok u"
  shows "lo \<le> height" "height \<le> hi" "unat hi - unat lo < unat max_span"
  using assms
  by (auto simp: check_validity_window_def word_le_nat_alt word_less_nat_alt not_less split: if_splits option.splits
      dest!: checked_arith)

lemma check_capacity_Ok:
  "check_capacity e omission_bond amount = Ok u \<longleftrightarrow>
    (\<exists>st. work_payment_settlement (edge_values_of e) omission_bond = Some st \<and> unat amount \<le> unat (st_capacity st))"
  by (auto simp: check_capacity_def payment_capacity_def and_then_eq_Ok ok_or_eq_Ok word_less_nat_alt not_less
      split: if_splits)

end
