(* ===== verification/Kernel_Tx_Open.thy ===== *)
theory Kernel_Tx_Open
  imports Kernel_Tx_Work
begin

text \<open>The admission arithmetic of an open (src/crates/kernel/src/tx/open.rs): the two fees an open burns,
  the reserve it locks, the value that remains in the edge, what the committed timeout may distribute, the
  profile rules, and the store-free projection an endpoint computes before it holds any coin.\<close>

section \<open>Definitions\<close>

record open_debits =
  od_open_fee :: u64
  od_lifetime_fee :: u64
  od_edge :: edge
  od_timeout_payout :: "u64 option"

record funding_shape =
  fs_maker :: bool
  fs_taker :: bool

definition funding_shape_of :: "funding \<Rightarrow> funding_shape" where
  "funding_shape_of f = \<lparr>fs_maker = (funding_maker f \<noteq> []), fs_taker = (funding_taker f \<noteq> [])\<rparr>"

definition open_lifetime_fee :: "block_height \<Rightarrow> fees \<Rightarrow> kterms \<Rightarrow> (u64, invalid_open_reason) result" where
  "open_lifetime_fee height f terms =
    (case checked_sub (terms_timeout terms) height of
       None \<Rightarrow> Err Open_TimeoutNotFuture
     | Some blocks \<Rightarrow>
         if blocks = 0 then Err Open_TimeoutNotFuture
         else ok_or Open_LifetimeFeeOverflow (checked_mul (fees_lifetime f) blocks))"

definition timeout_payout :: "edge_values \<Rightarrow> kterms \<Rightarrow> (u64 option, invalid_open_reason) result" where
  "timeout_payout v terms =
    (case terms_timeout_outputs terms of
       None \<Rightarrow> Ok None
     | Some outputs \<Rightarrow>
         let c = timeout_close_cost (length outputs) (is_work_bond terms)
         in ok_or Open_ReserveOverflow (map_option Some (ev_close_value v c)))"

definition compute_open_debits ::
  "block_height \<Rightarrow> fees \<Rightarrow> nat \<Rightarrow> u64 option \<Rightarrow> kterms \<Rightarrow> (open_debits, invalid_open_reason) result" where
  "compute_open_debits height f coins funded terms =
    and_then (ok_or Open_FeeOverflow (fees_charge f (open_cost coins terms))) (\<lambda>open_fee.
    and_then (open_lifetime_fee height f terms) (\<lambda>lifetime_fee.
    and_then (ok_or Open_ReserveOverflow (fees_charge f (open_reserve_cost terms))) (\<lambda>reserve.
    and_then (ok_or Open_FundingOverflow funded) (\<lambda>funded.
    and_then (edge_open funded (terms_parties terms) (terms_hash_of terms) (open_fee, lifetime_fee, reserve, f)
      (terms_timeout terms) (terms_allowed_closes terms)) (\<lambda>e.
    and_then (timeout_payout (edge_values_of e) terms) (\<lambda>payout.
    Ok \<lparr>od_open_fee = open_fee, od_lifetime_fee = lifetime_fee, od_edge = e, od_timeout_payout = payout\<rparr>))))))"

definition payout_total :: "payouts \<Rightarrow> u64 option" where
  "payout_total outputs = checked_sum payout_value 0 outputs"

definition check_timeout_payout :: "open_debits \<Rightarrow> kterms \<Rightarrow> (unit, invalid_open_reason) result" where
  "check_timeout_payout debits terms =
    (case (od_timeout_payout debits, terms_timeout_outputs terms) of
       (Some required, Some outputs) \<Rightarrow>
         and_then (ok_or Open_TermsPayoutOverflow (payout_total outputs)) (\<lambda>committed.
         if committed \<noteq> required then Err Open_TermsValueMismatch
         else if list_all (\<lambda>p. parties_is_destination (terms_parties terms) p False) outputs then Ok ()
         else Err Open_TimeoutPayoutNotCommitted)
     | _ \<Rightarrow> Ok ())"

definition paid_solely_to :: "payouts \<Rightarrow> party_keys \<Rightarrow> bool" where
  "paid_solely_to outputs p \<longleftrightarrow> outputs \<noteq> [] \<and> list_all (\<lambda>pay. pk_is_destination p pay False) outputs"

definition check_work_bond_policy :: "work_stake_bond_terms \<Rightarrow> (unit, invalid_open_reason) result" where
  "check_work_bond_policy bond =
    (if wsb_max_job_price bond = 0 then Err Open_JobPriceCapZero
     else if paid_solely_to (wsb_timeout_outputs bond) (parties_maker (wsb_parties bond)) then Ok ()
     else Err Open_WorkStakeReturnRouting)"

definition check_work_payment_terms :: "work_payment_terms \<Rightarrow> (unit, invalid_open_reason) result" where
  "check_work_payment_terms payment =
    and_then (check_work_bond_policy (wp_bond_terms payment)) (\<lambda>_.
    if wp_omit_response_blocks payment < MIN_OMIT_RESPONSE_BLOCKS
      \<or> MAX_OMIT_RESPONSE_BLOCKS < wp_omit_response_blocks payment
    then Err Open_WorkResponseWindowOutOfRange
    else if wp_start_validity_blocks payment = 0 \<or> MAX_START_VALIDITY_BLOCKS < wp_start_validity_blocks payment
    then Err Open_WorkStartValidityOutOfRange
    else Ok ())"

definition check_work_profile_open ::
  "edge \<Rightarrow> funding_shape \<Rightarrow> kterms \<Rightarrow> (unit, invalid_open_reason) result" where
  "check_work_profile_open e shape terms =
    (case terms_profile_of terms of
       ProfileBasic \<Rightarrow> Ok ()
     | ProfileWorkStakeBond bond \<Rightarrow>
         and_then (check_work_bond_policy bond) (\<lambda>_.
         if \<not> fs_maker shape then Err Open_WorkStakeMakerUnfunded
         else if edge_value e = 0 then Err Open_WorkStakeValueZero
         else if fs_taker shape then Err Open_WorkStakeTakerFunded
         else Ok ())
     | ProfileWorkPayment payment \<Rightarrow>
         and_then (check_work_payment_terms payment) (\<lambda>_.
         if fs_taker shape then Err Open_WorkPaymentTakerFunded
         else if \<not> fs_maker shape then Err Open_WorkPaymentMakerUnfunded
         else check_payment_capacity e payment))"

subsection \<open>The projection\<close>

record open_funding =
  of_maker :: "(coin_id \<times> u64) list"
  of_taker :: "(coin_id \<times> u64) list"

definition open_funding_funding :: "open_funding \<Rightarrow> funding" where
  "open_funding_funding f = \<lparr>funding_maker = map fst (of_maker f), funding_taker = map fst (of_taker f)\<rparr>"

definition open_funding_len :: "open_funding \<Rightarrow> nat" where
  "open_funding_len f = length (of_maker f) + length (of_taker f)"

definition open_funding_shape :: "open_funding \<Rightarrow> funding_shape" where
  "open_funding_shape f = \<lparr>fs_maker = (of_maker f \<noteq> []), fs_taker = (of_taker f \<noteq> [])\<rparr>"

definition open_funding_total :: "open_funding \<Rightarrow> u64 option" where
  "open_funding_total f =
    Option.bind (checked_sum snd 0 (of_maker f)) (\<lambda>m.
    Option.bind (checked_sum snd 0 (of_taker f)) (\<lambda>t. checked_add m t))"

record open_proj =
  op_edge :: edge_id
  op_open_fee :: u64
  op_lifetime_fee :: u64
  op_values :: edge_values
  op_timeout_payout :: "u64 option"

definition open_projection ::
  "blake3 \<Rightarrow> block_height \<Rightarrow> fees \<Rightarrow> open_funding \<Rightarrow> kterms \<Rightarrow> (open_proj, invalid_open_reason) result" where
  "open_projection b3 height f fund terms =
    and_then (compute_open_debits height f (open_funding_len fund) (open_funding_total fund) terms) (\<lambda>debits.
    and_then (check_work_profile_open (od_edge debits) (open_funding_shape fund) terms) (\<lambda>_.
    Ok \<lparr>op_edge = edge_id_of b3 (open_funding_funding fund) terms, op_open_fee = od_open_fee debits,
        op_lifetime_fee = od_lifetime_fee debits, op_values = edge_values_of (od_edge debits),
        op_timeout_payout = od_timeout_payout debits\<rparr>))"

section \<open>Lemmas\<close>

lemma edge_open_Ok:
  assumes "edge_open funded ps terms (open_fee, lifetime_fee, reserve, f) timeout allowed = Ok e"
  shows "unat funded = unat (edge_value e) + unat reserve + unat open_fee + unat lifetime_fee"
    and "e = edge_new (edge_value e) reserve f timeout ps terms allowed"
  using assms
  by (auto simp: edge_open_def and_then_eq_Ok ok_or_eq_Ok bind_eq_Some_conv edge_new_def dest!: checked_arith)

text \<open>What an open debits: fees burnt, reserve locked at the block's schedule, and the rest in the edge.\<close>

lemma compute_open_debits_Ok:
  assumes "compute_open_debits height f coins funded terms = Ok d"
  shows "\<exists>v. funded = Some v \<and> unat v = edge_locked (od_edge d) + unat (od_open_fee d) + unat (od_lifetime_fee d)"
    and "fees_charge f (open_cost coins terms) = Some (od_open_fee d)"
    and "open_lifetime_fee height f terms = Ok (od_lifetime_fee d)"
    and "fees_charge f (open_reserve_cost terms) = Some (edge_reserve (od_edge d))"
    and "edge_close_fees (od_edge d) = f" "edge_timeout (od_edge d) = terms_timeout terms"
    and "edge_parties (od_edge d) = terms_parties terms" "edge_terms (od_edge d) = terms_hash_of terms"
    and "edge_allowed (od_edge d) = terms_allowed_closes terms"
    and "timeout_payout (edge_values_of (od_edge d)) terms = Ok (od_timeout_payout d)"
proof -
  from assms obtain open_fee lifetime_fee reserve v e payout where *:
    "fees_charge f (open_cost coins terms) = Some open_fee" "open_lifetime_fee height f terms = Ok lifetime_fee"
    "fees_charge f (open_reserve_cost terms) = Some reserve" "funded = Some v"
    "edge_open v (terms_parties terms) (terms_hash_of terms) (open_fee, lifetime_fee, reserve, f)
      (terms_timeout terms) (terms_allowed_closes terms) = Ok e"
    "timeout_payout (edge_values_of e) terms = Ok payout"
    "d = \<lparr>od_open_fee = open_fee, od_lifetime_fee = lifetime_fee, od_edge = e, od_timeout_payout = payout\<rparr>"
    unfolding compute_open_debits_def and_then_eq_Ok ok_or_eq_Ok by auto
  from edge_open_Ok(2) [OF *(5)] have e: "edge_reserve e = reserve" "edge_close_fees e = f"
    "edge_timeout e = terms_timeout terms" "edge_parties e = terms_parties terms"
    "edge_terms e = terms_hash_of terms" "edge_allowed e = terms_allowed_closes terms"
    by (metis edge.select_convs edge_new_def)+
  from edge_open_Ok(1) [OF *(5)] e * show
    "\<exists>v. funded = Some v \<and> unat v = edge_locked (od_edge d) + unat (od_open_fee d) + unat (od_lifetime_fee d)"
    "fees_charge f (open_cost coins terms) = Some (od_open_fee d)"
    "open_lifetime_fee height f terms = Ok (od_lifetime_fee d)"
    "fees_charge f (open_reserve_cost terms) = Some (edge_reserve (od_edge d))"
    "edge_close_fees (od_edge d) = f" "edge_timeout (od_edge d) = terms_timeout terms"
    "edge_parties (od_edge d) = terms_parties terms" "edge_terms (od_edge d) = terms_hash_of terms"
    "edge_allowed (od_edge d) = terms_allowed_closes terms"
    "timeout_payout (edge_values_of (od_edge d)) terms = Ok (od_timeout_payout d)"
    by (simp_all add: edge_locked_def)
qed

lemma open_lifetime_fee_Ok:
  assumes "open_lifetime_fee height f terms = Ok fee"
  shows "height < terms_timeout terms"
    and "unat fee = unat (fees_lifetime f) * (unat (terms_timeout terms) - unat height)"
proof -
  from assms obtain blocks where b: "checked_sub (terms_timeout terms) height = Some blocks" "blocks \<noteq> 0"
    "checked_mul (fees_lifetime f) blocks = Some fee"
    by (auto simp: open_lifetime_fee_def ok_or_eq_Ok split: option.splits if_splits)
  then have "unat (terms_timeout terms) = unat blocks + unat height" "0 < unat blocks"
    by (auto dest: checked_sub_Some simp: unat_gt_0)
  with b(3) show "height < terms_timeout terms"
    "unat fee = unat (fees_lifetime f) * (unat (terms_timeout terms) - unat height)"
    by (auto simp: word_less_nat_alt dest: checked_mul_Some)
qed

text \<open>The projection's funding total is the sum an apply takes over the coins in maker-then-taker order.\<close>

lemma open_funding_total_sum:
  "open_funding_total f = checked_sum snd 0 (of_maker f @ of_taker f)"
proof (cases "checked_sum snd 0 (of_maker f @ of_taker f)")
  case None
  then have big: "2 ^ 64 \<le> (\<Sum>x\<leftarrow>of_maker f. unat (snd x)) + (\<Sum>x\<leftarrow>of_taker f. unat (snd x))"
    by (simp add: checked_sum_None)
  have "open_funding_total f = None"
  proof (rule ccontr)
    assume "open_funding_total f \<noteq> None"
    then obtain m t v where "checked_sum snd 0 (of_maker f) = Some m" "checked_sum snd 0 (of_taker f) = Some t"
      "checked_add m t = Some v" by (auto simp: open_funding_total_def bind_eq_Some_conv)
    then show False using big unat_u64_less [of v] by (auto dest!: checked_arith)
  qed
  then show ?thesis using None by simp
next
  case (Some v)
  then have v: "unat v = (\<Sum>x\<leftarrow>of_maker f. unat (snd x)) + (\<Sum>x\<leftarrow>of_taker f. unat (snd x))"
    by (simp add: checked_sum_Some_iff)
  obtain m t where mt: "checked_sum snd 0 (of_maker f) = Some m" "checked_sum snd 0 (of_taker f) = Some t"
    using v unat_u64_less [of v]
    by (cases "checked_sum snd 0 (of_maker f)"; cases "checked_sum snd 0 (of_taker f)") (auto simp: checked_sum_None)
  then have "checked_add m t = Some v" using v by (simp add: checked_add_iff checked_sum_Some_iff)
  then show ?thesis using mt Some by (simp add: open_funding_total_def)
qed

end
