(* ===== verification/Kernel_Apply.thy ===== *)
theory Kernel_Apply
  imports Kernel_Tx_Open
begin

text \<open>The transition functions (src/crates/kernel/src/tx/mod.rs and tx/reshape.rs): opening an edge,
  closing it by each of its proofs, the moves, and the owner's reshape. A transition reads the batch and
  returns the change it will commit or the first reason it refuses; it never writes.\<close>

section \<open>Opening\<close>

definition open_inputs :: "funding \<Rightarrow> coin_id list" where
  "open_inputs f = take (funding_len f) (funding_iter f)"

definition load_coins :: "'s batch_ops \<Rightarrow> 's \<Rightarrow> coin_id list \<Rightarrow> (coin_id \<times> coin) list kernel_result" where
  "load_coins ops s ids = try_map (\<lambda>i. and_then (ok_or (MissingCoin i) (b_coin ops s i)) (\<lambda>c. Ok (i, c))) ids"

definition open_coins :: "'s batch_ops \<Rightarrow> 's \<Rightarrow> funding \<Rightarrow> (coin_id \<times> coin) list kernel_result" where
  "open_coins ops s f = load_coins ops s (funding_iter f)"

definition check_funding_ownership ::
  "edge_id \<Rightarrow> (coin_id \<times> coin) list \<Rightarrow> nat \<Rightarrow> parties \<Rightarrow> unit kernel_result" where
  "check_funding_ownership out coins maker_len ps =
    (if list_ex (\<lambda>(index, (_, c)).
          let expected = (if index < maker_len then parties_maker ps else parties_taker ps)
          in coin_owner c \<noteq> pk_owner expected) (enumerate 0 coins)
     then Err (InvalidOpen out Open_FundingUnauthorized) else Ok ())"

definition check_party_authority ::
  "party_keys \<Rightarrow> party_auth \<Rightarrow> (coin_id \<times> coin) list \<Rightarrow> (unit, invalid_open_reason) result" where
  "check_party_authority p a coins =
    (if is_owner a then Ok ()
     else let signer = Some (pk_signer p) in
       if list_ex (\<lambda>(_, c). coin_delegate c \<noteq> signer) coins then Err Open_FundingNotDelegated
       else if pk_payout_delegate p \<noteq> None \<and> pk_payout_delegate p \<noteq> signer
       then Err Open_PayoutDelegateNotSigner
       else Ok ())"

definition check_open_authority ::
  "kterms \<Rightarrow> (coin_id \<times> coin) list \<times> nat \<Rightarrow> party_auth \<Rightarrow> party_auth \<Rightarrow> (unit, invalid_open_reason) result" where
  "check_open_authority terms fund maker_auth taker_auth =
    (case fund of (coins, maker_len) \<Rightarrow>
      if terms_profile_of terms = ProfileBasic \<and> \<not> (is_owner maker_auth \<and> is_owner taker_auth)
      then Err Open_BasicAuthNotOwner
      else let ps = terms_parties terms; mid = min maker_len (length coins) in
        and_then (check_party_authority (parties_maker ps) maker_auth (take mid coins)) (\<lambda>_.
        check_party_authority (parties_taker ps) taker_auth (drop mid coins)))"

definition check_open_auth ::
  "blake3 \<Rightarrow> verifier \<Rightarrow> network_id \<Rightarrow> edge_id \<Rightarrow> funding \<Rightarrow> kterms \<Rightarrow> party_auth \<Rightarrow> party_auth
    \<Rightarrow> unit kernel_result" where
  "check_open_auth b3 vf network out f terms maker_auth taker_auth =
    (let hash = open_hash b3 network f terms; ps = terms_parties terms in
     if \<not> verify_party vf maker_auth (parties_maker ps) hash
        \<or> \<not> verify_party vf taker_auth (parties_taker ps) hash
     then Err (InvalidOpen out Open_BadSignature) else Ok ())"

definition apply_open ::
  "blake3 \<Rightarrow> verifier \<Rightarrow> 's batch_ops \<Rightarrow> 's \<Rightarrow> ctx \<Rightarrow> funding \<Rightarrow> kterms \<Rightarrow> party_auth \<Rightarrow> party_auth
    \<Rightarrow> change kernel_result" where
  "apply_open b3 vf ops s context f terms maker_auth taker_auth =
    (let out = edge_id_from b3 f (terms_hash_of terms) in
     case duplicate (open_inputs f) of
       Some i \<Rightarrow> Err (DuplicateInput i)
     | None \<Rightarrow>
         if b_edge ops s out \<noteq> None then Err (EdgeExists out)
         else and_then (open_coins ops s f) (\<lambda>coins.
         and_then (check_funding_ownership out coins (length (funding_maker f)) (terms_parties terms)) (\<lambda>_.
         and_then (map_err (InvalidOpen out) (compute_open_debits (ctx_block_height context) (ctx_fees context)
           (funding_len f) (checked_sum (\<lambda>(_, c). coin_value c) 0 coins) terms)) (\<lambda>debits.
         and_then (map_err (InvalidOpen out) (check_timeout_payout debits terms)) (\<lambda>_.
         and_then (map_err (InvalidOpen out)
           (check_open_authority terms (coins, length (funding_maker f)) maker_auth taker_auth)) (\<lambda>_.
         and_then (map_err (InvalidOpen out)
           (check_work_profile_open (od_edge debits) (funding_shape_of f) terms)) (\<lambda>_.
         and_then (open_bond_lease b3 ops s context out terms) (\<lambda>registry.
         and_then (check_open_auth b3 vf (ctx_network context) out f terms maker_auth taker_auth) (\<lambda>_.
         Ok (change_with_registry (change_open coins (out, od_edge debits)) registry))))))))))"

section \<open>Closing\<close>

definition check_close_outputs ::
  "blake3 \<Rightarrow> 's batch_ops \<Rightarrow> 's \<Rightarrow> edge_id \<Rightarrow> payouts \<Rightarrow> unit kernel_result" where
  "check_close_outputs b3 ops s inp outputs =
    try_fold (\<lambda>_ (index, p). let i = payout_id b3 p inp index in
      if b_coin ops s i \<noteq> None then Err (OutputExists i) else Ok ()) () (enumerate 0 outputs)"

definition close_coins :: "blake3 \<Rightarrow> edge_id \<Rightarrow> payouts \<Rightarrow> (coin_id \<times> coin) list" where
  "close_coins b3 inp outputs = map (\<lambda>(index, p). close_coin b3 p inp index) (enumerate 0 outputs)"

type_synonym staged_registry = "registry_mutation list"

text \<open>\<^verbatim>\<open>[Option<RegistryMutation>; 2]\<close> is only ever flattened, so it is the list of its present entries.\<close>

definition one_staged :: "registry_mutation option \<Rightarrow> staged_registry" where
  "one_staged m = (case m of None \<Rightarrow> [] | Some m \<Rightarrow> [m])"

definition check_timeout ::
  "blake3 \<Rightarrow> verifier \<Rightarrow> 's batch_ops \<Rightarrow> 's \<Rightarrow> ctx \<Rightarrow> close_subject \<Rightarrow> kterms \<Rightarrow> party_auth option
    \<Rightarrow> (staged_registry, invalid_proof_reason) result" where
  "check_timeout b3 vf ops s context close terms ow =
    (let inp = cs_input close; e = cs_edge close; outputs = cs_outputs close; network = ctx_network context in
     if terms_hash_of terms \<noteq> edge_terms e then Err Proof_TermsMismatch
     else and_then (if is_work_bond terms
         then map_err Proof_BondLeaseFault (read_bond_lease ops s b3 network inp) else Ok None) (\<lambda>lease.
     let live_lease = Option.bind lease (\<lambda>l. if b_edge ops s (bl_payment_edge l) \<noteq> None then Some l else None) in
     if \<not> (is_work_bond terms \<and> live_lease = None) \<and> ctx_block_height context < edge_timeout e
     then Err Proof_TimeoutNotReached
     else case terms_timeout_outputs terms of
       None \<Rightarrow> Err Proof_PayoutMismatch
     | Some committed \<Rightarrow>
         and_then (case ow of
             None \<Rightarrow> Ok ()
           | Some a \<Rightarrow>
               if \<not> is_work_bond terms \<or> \<not> is_owner a then Err Proof_BadSignature
               else let hash = close_payload_hash b3 network inp Timeout (edge_terms e) outputs in
                 if \<not> verify_party vf a (parties_maker (edge_parties e)) hash then Err Proof_BadSignature
                 else Ok ()) (\<lambda>_.
         if length committed \<noteq> length outputs
            \<or> list_ex (\<lambda>(expected, actual).
                 (if ow \<noteq> None then payout_new (payout_owner expected) (payout_value expected) else expected)
                   \<noteq> actual) (zip committed outputs)
         then Err Proof_PayoutMismatch
         else Ok (case lease of None \<Rightarrow> [] | Some _ \<Rightarrow> delete_mutations b3 network inp))))"

definition check_mutual ::
  "blake3 \<Rightarrow> verifier \<Rightarrow> ctx \<Rightarrow> close_subject \<Rightarrow> party_auth \<Rightarrow> party_auth
    \<Rightarrow> (staged_registry, invalid_proof_reason) result" where
  "check_mutual b3 vf context close maker taker =
    (let inp = cs_input close; e = cs_edge close; outputs = cs_outputs close; ps = edge_parties e in
     if edge_timeout e \<le> ctx_block_height context then Err Proof_ProofExpired
     else if \<not> list_all (\<lambda>p. pk_is_destination (parties_maker ps) p (is_owner maker)
          \<or> pk_is_destination (parties_taker ps) p (is_owner taker)) outputs
     then Err Proof_PayoutNotCommitted
     else let hash = close_payload_hash b3 (ctx_network context) inp Mutual (edge_terms e) outputs in
       if verify_party vf maker (parties_maker ps) hash \<and> verify_party vf taker (parties_taker ps) hash
       then Ok [] else Err Proof_BadSignature)"

definition check_proof ::
  "blake3 \<Rightarrow> verifier \<Rightarrow> 's batch_ops \<Rightarrow> 's \<Rightarrow> ctx \<Rightarrow> close_subject \<Rightarrow> close_proof
    \<Rightarrow> (staged_registry, invalid_proof_reason) result" where
  "check_proof b3 vf ops s context close p =
    (case p of
       MutualProof maker taker \<Rightarrow> check_mutual b3 vf context close maker taker
     | TimeoutProof terms ow \<Rightarrow> check_timeout b3 vf ops s context close terms ow
     | FreezeProof earned lo hi maker taker \<Rightarrow>
         and_then (check_freeze b3 vf ops s context close (earned, (lo, hi), maker, taker)) (\<lambda>m. Ok (one_staged m))
     | AdjudicatedProof commitment \<Rightarrow>
         and_then (check_adjudicated b3 ops s context close commitment) (\<lambda>m. Ok (one_staged m)))"

definition apply_close ::
  "blake3 \<Rightarrow> verifier \<Rightarrow> 's batch_ops \<Rightarrow> 's \<Rightarrow> ctx \<Rightarrow> edge_id \<Rightarrow> close_proof \<Rightarrow> payouts \<Rightarrow> change kernel_result" where
  "apply_close b3 vf ops s context inp p outputs =
    and_then (check_close_outputs b3 ops s inp outputs) (\<lambda>_.
    let coins = close_coins b3 inp outputs in
    and_then (ok_or (MissingEdge inp) (b_edge ops s inp)) (\<lambda>e.
    if \<not> edge_allows e (proof_kind p) then Err (InvalidClose inp Close_KindForbidden)
    else and_then (map_err (InvalidClose inp) (edge_closes e coins (close_cost (length outputs) p))) (\<lambda>funded.
    let subject = \<lparr>cs_input = inp, cs_edge = e, cs_total = funded, cs_outputs = outputs\<rparr> in
    and_then (map_err (InvalidProof inp) (check_proof b3 vf ops s context subject p)) (\<lambda>staged.
    and_then (push_mutations staged) (\<lambda>registry.
    Ok (change_with_registry (change_close (inp, e) coins) registry))))))"

section \<open>Reshaping\<close>

definition check_reshape_outputs :: "key \<Rightarrow> payouts \<Rightarrow> unit kernel_result" where
  "check_reshape_outputs owner outputs =
    try_fold (\<lambda>_ p.
      if payout_value p = 0 then Err (InvalidReshape Reshape_ZeroOutput)
      else if payout_delegate p \<noteq> None \<and> payout_owner p \<noteq> owner then Err (InvalidReshape Reshape_ForeignDelegation)
      else Ok ()) () outputs"

definition reshape_coins ::
  "blake3 \<Rightarrow> 's batch_ops \<Rightarrow> 's \<Rightarrow> network_id \<Rightarrow> coin_id list \<Rightarrow> payouts \<Rightarrow> (coin_id \<times> coin) list kernel_result" where
  "reshape_coins b3 ops s network inputs outputs =
    try_map (\<lambda>(index, p). let i = coin_id_reshape b3 network inputs index (payout_owner p) in
      if b_coin ops s i \<noteq> None then Err (OutputExists i) else Ok (i, payout_coin p)) (enumerate 0 outputs)"

definition apply_reshape ::
  "blake3 \<Rightarrow> verifier \<Rightarrow> 's batch_ops \<Rightarrow> 's \<Rightarrow> ctx \<Rightarrow> reshape \<Rightarrow> change kernel_result" where
  "apply_reshape b3 vf ops s context r =
    (case duplicate (rs_inputs r) of
       Some i \<Rightarrow> Err (DuplicateInput i)
     | None \<Rightarrow>
         and_then (load_coins ops s (rs_inputs r)) (\<lambda>coins.
         case coins of
           [] \<Rightarrow> Err (InvalidReshape Reshape_NoInputs)
         | (_, first) # _ \<Rightarrow>
             let owner = coin_owner first in
             if list_ex (\<lambda>(_, c). coin_owner c \<noteq> owner) coins then Err (InvalidReshape Reshape_OwnerMismatch)
             else and_then (check_reshape_outputs owner (rs_outputs r)) (\<lambda>_.
             and_then (ok_or (InvalidReshape Reshape_ValueOverflow) (checked_sum (\<lambda>(_, c). coin_value c) 0 coins)) (\<lambda>held.
             and_then (ok_or (InvalidReshape Reshape_ValueOverflow)
               (checked_sum payout_value 0 (rs_outputs r))) (\<lambda>issued.
             if held \<noteq> issued then Err (InvalidReshape Reshape_ValueMismatch)
             else let network = ctx_network context in
               and_then (reshape_coins b3 ops s network (rs_inputs r) (rs_outputs r)) (\<lambda>issued_coins.
               let hash = reshape_payload_hash b3 network (rs_inputs r) (rs_outputs r) in
               if \<not> vf (rs_auth r) owner hash then Err (InvalidReshape Reshape_BadSignature)
               else Ok (change_reshape coins issued_coins)))))))"

section \<open>Every transaction\<close>

fun apply_move ::
  "blake3 \<Rightarrow> verifier \<Rightarrow> 's batch_ops \<Rightarrow> 's \<Rightarrow> ctx \<Rightarrow> move \<Rightarrow> change kernel_result" where
  "apply_move b3 vf ops s context (StartPaymentClose start) = apply_start b3 vf ops s context start"
| "apply_move b3 vf ops s context (RespondPaymentClose response) = apply_response b3 vf ops s context response"

fun tx_apply :: "blake3 \<Rightarrow> verifier \<Rightarrow> 's batch_ops \<Rightarrow> 's \<Rightarrow> ctx \<Rightarrow> tx \<Rightarrow> change kernel_result" where
  "tx_apply b3 vf ops s context (TxOpen f terms ma ta) = apply_open b3 vf ops s context f terms ma ta"
| "tx_apply b3 vf ops s context (TxClose inp p outs) = apply_close b3 vf ops s context inp p outs"
| "tx_apply b3 vf ops s context (TxMove m) = apply_move b3 vf ops s context m"
| "tx_apply b3 vf ops s context (TxOwner r) = apply_reshape b3 vf ops s context r"

section \<open>What a transaction burns\<close>

text \<open>The price of a cost in unbounded arithmetic, and the value each transaction takes out of circulation:
  an open its admission fee and its rent, a close the fee its edge committed to, everything else nothing.\<close>

definition cost_price :: "fees \<Rightarrow> cost \<Rightarrow> nat" where
  "cost_price f c = unat (fees_base f) * unat (cost_base c) + unat (fees_slot f) * unat (cost_slots c)
    + unat (fees_proof f) * unat (cost_proofs c)"

fun tx_burn :: "ctx \<Rightarrow> (edge_id \<Rightarrow> edge option) \<Rightarrow> tx \<Rightarrow> nat" where
  "tx_burn context edges (TxOpen f terms _ _) =
    cost_price (ctx_fees context) (open_cost (funding_len f) terms)
    + unat (fees_lifetime (ctx_fees context)) * (unat (terms_timeout terms) - unat (ctx_block_height context))"
| "tx_burn context edges (TxClose inp p outs) =
    (case edges inp of None \<Rightarrow> 0 | Some e \<Rightarrow> cost_price (edge_close_fees e) (close_cost (length outs) p))"
| "tx_burn context edges (TxMove _) = 0"
| "tx_burn context edges (TxOwner _) = 0"

section \<open>Inversion of accepted transitions\<close>

lemma load_coins_Ok:
  assumes "load_coins ops s ids = Ok cs"
  shows "map fst cs = ids" and "\<forall>c \<in> set cs. b_coin ops s (fst c) = Some (snd c)"
  using assms unfolding load_coins_def
  by (induction ids arbitrary: cs) (fastforce simp: and_then_eq_Ok ok_or_eq_Ok)+

lemma open_inputs_iter [simp]: "open_inputs f = funding_iter f"
  by (simp add: open_inputs_def funding_iter_def funding_len_def)

lemma apply_open_Ok:
  assumes "apply_open b3 vf ops s context f terms ma ta = Ok c"
  defines "out \<equiv> edge_id_from b3 f (terms_hash_of terms)"
  obtains coins debits registry where
    "c = change_with_registry (change_open coins (out, od_edge debits)) registry"
    "distinct (funding_iter f)" "b_edge ops s out = None"
    "map fst coins = funding_iter f" "\<forall>x \<in> set coins. b_coin ops s (fst x) = Some (snd x)"
    "check_funding_ownership out coins (length (funding_maker f)) (terms_parties terms) = Ok ()"
    "compute_open_debits (ctx_block_height context) (ctx_fees context) (funding_len f)
      (checked_sum (\<lambda>(_, c). coin_value c) 0 coins) terms = Ok debits"
    "check_timeout_payout debits terms = Ok ()"
    "check_open_authority terms (coins, length (funding_maker f)) ma ta = Ok ()"
    "check_work_profile_open (od_edge debits) (funding_shape_of f) terms = Ok ()"
    "open_bond_lease b3 ops s context out terms = Ok registry"
    "check_open_auth b3 vf (ctx_network context) out f terms ma ta = Ok ()"
proof -
  from assms(1) have d: "duplicate (funding_iter f) = None"
    by (simp add: apply_open_def Let_def split: option.splits)
  then have "distinct (funding_iter f)" by (simp add: duplicate_None)
  moreover from assms(1) d obtain coins where l: "load_coins ops s (funding_iter f) = Ok coins"
    by (auto simp: apply_open_def Let_def open_coins_def and_then_eq_Ok split: if_splits)
  ultimately show thesis
    using assms(1) d that [of coins] load_coins_Ok [OF l] unfolding out_def
    by (auto simp: apply_open_def Let_def open_coins_def and_then_eq_Ok map_err_eq_Ok split: if_splits)
qed

lemma apply_close_Ok:
  assumes "apply_close b3 vf ops s context inp p outs = Ok c"
  obtains e funded staged registry where
    "c = change_with_registry (change_close (inp, e) (close_coins b3 inp outs)) registry"
    "check_close_outputs b3 ops s inp outs = Ok ()" "b_edge ops s inp = Some e" "edge_allows e (proof_kind p)"
    "edge_closes e (close_coins b3 inp outs) (close_cost (length outs) p) = Ok funded"
    "check_proof b3 vf ops s context \<lparr>cs_input = inp, cs_edge = e, cs_total = funded, cs_outputs = outs\<rparr> p = Ok staged"
    "push_mutations staged = Ok registry"
  using assms by (auto simp: apply_close_def Let_def and_then_eq_Ok map_err_eq_Ok ok_or_eq_Ok split: if_splits)

lemma apply_start_Ok:
  assumes "apply_start b3 vf ops s context start = Ok c"
  obtains e payment rec chunk where
    "b_edge ops s (ps_payment_edge start) = Some e"
    "terms_hash_of (ps_terms start) = edge_terms e"
    "terms_profile_of (ps_terms start) = ProfileWorkPayment payment"
    "check_validity_window (ctx_block_height context) (ps_valid_from_height start, ps_valid_through_height start)
      (wp_start_validity_blocks payment) = Ok ()"
    "read_pending ops s b3 context (ps_payment_edge start) = Ok None"
    "from_accepted_start b3 (ctx_network context) (ctx_block_height context) start = Some rec"
    "check_start_certificate e (wp_omission_bond payment) (ps_payment_edge start) start = Ok ()"
    "\<forall>certificate a. ps_certificate start = Some (certificate, a) \<longrightarrow>
      verify_party vf a (parties_maker (edge_parties e)) (certificate_digest b3 (ctx_network context) certificate)"
    "verify_party vf (ps_action start) (keys_of (ps_opener_role start) (edge_parties e))
      (close_start_digest b3 start (ctx_network context))"
    "pending_to_chunk rec = Some chunk"
    "c = change_private [mutation_write (pending_payment_close_slot b3 (ctx_network context) (ps_payment_edge start)) chunk]"
  using assms
  by (auto simp: apply_start_def Let_def and_then_eq_Ok map_err_eq_Ok ok_or_eq_Ok
      split: if_splits terms_profile.splits option.splits)

lemma check_response_Ok:
  assumes "check_response b3 vf ops s context response = Ok p"
  obtains e rec where
    "b_edge ops s (pr_payment_edge response) = Some e" "edge_allows e Adjudicated"
    "read_pending ops s b3 context (pr_payment_edge response) = Ok (Some rec)"
    "pc_start_id rec = pr_start_id response" "pr_responder_role response = Taker" "\<not> pc_responded rec"
    "ctx_block_height context < pc_response_deadline rec"
    "check_certificate (pr_certificate response) (pr_payment_edge response) (edge_terms e) = Ok ()"
    "pc_final_cumulative rec < ec_earned_cumulative (pr_certificate response)"
    "check_capacity e (pc_penalty_amount rec) (ec_earned_cumulative (pr_certificate response)) = Ok ()"
    "verify_party vf (pr_action response) (parties_taker (edge_parties e))
      (response_digest b3 (ctx_network context) (pr_payment_edge response) (edge_terms e) (pc_start_id rec) Taker
        (certificate_digest b3 (ctx_network context) (pr_certificate response)))"
    "verify_party vf (pr_certificate_auth response) (parties_maker (edge_parties e))
      (certificate_digest b3 (ctx_network context) (pr_certificate response))"
    "p = with_accepted_response rec response"
  using assms
  by (auto simp: check_response_def Let_def and_then_eq_Ok map_err_eq_Ok ok_or_eq_Ok not_le split: if_splits)

lemma apply_response_Ok:
  assumes "apply_response b3 vf ops s context response = Ok c"
  obtains p chunk where "check_response b3 vf ops s context response = Ok p" "pending_to_chunk p = Some chunk"
    "c = change_private [mutation_write (pending_payment_close_slot b3 (ctx_network context) (pr_payment_edge response)) chunk]"
  using assms by (auto simp: apply_response_def Let_def and_then_eq_Ok ok_or_eq_Ok)

lemma apply_reshape_Ok:
  assumes "apply_reshape b3 vf ops s context r = Ok c"
  obtains coins i first rest issued amount where
    "distinct (rs_inputs r)" "map fst coins = rs_inputs r" "\<forall>x \<in> set coins. b_coin ops s (fst x) = Some (snd x)"
    "coins = (i, first) # rest" "\<forall>x \<in> set coins. coin_owner (snd x) = coin_owner first"
    "check_reshape_outputs (coin_owner first) (rs_outputs r) = Ok ()"
    "checked_sum (\<lambda>(_, c). coin_value c) 0 coins = Some amount" "checked_sum payout_value 0 (rs_outputs r) = Some amount"
    "reshape_coins b3 ops s (ctx_network context) (rs_inputs r) (rs_outputs r) = Ok issued"
    "vf (rs_auth r) (coin_owner first) (reshape_payload_hash b3 (ctx_network context) (rs_inputs r) (rs_outputs r))"
    "c = change_reshape coins issued"
proof -
  from assms have d: "duplicate (rs_inputs r) = None" by (simp add: apply_reshape_def split: option.splits)
  with assms obtain coins where "load_coins ops s (rs_inputs r) = Ok coins" "coins \<noteq> []"
    by (cases "load_coins ops s (rs_inputs r)") (fastforce simp: apply_reshape_def)+
  then obtain i first rest where l: "load_coins ops s (rs_inputs r) = Ok coins" "coins = (i, first) # rest"
    by (cases coins) auto
  show thesis
    using assms d l that [of coins i first rest] load_coins_Ok [OF l(1)]
    d [unfolded duplicate_None]
    by (auto simp: apply_reshape_def and_then_eq_Ok ok_or_eq_Ok Let_def list_ex_iff case_prod_unfold split: if_splits)
qed

section \<open>Accounting\<close>

lemma fees_charge_price: "fees_charge f c = Some t \<Longrightarrow> unat t = cost_price f c"
  by (simp add: fees_charge_Some cost_price_def)

lemma checked_sum_coins: "checked_sum (\<lambda>(_, c). coin_value c) 0 coins = Some v \<Longrightarrow> unat v = coins_value coins"
  by (simp add: checked_sum_Some_iff coins_value_def case_prod_unfold)

lemma edge_closes_Ok:
  assumes "edge_closes e coins k = Ok funded"
  shows "edge_locked e = coins_value coins + cost_price (edge_close_fees e) k"
    and "unat funded = coins_value coins" and "edge_close_value e k = Some funded"
proof -
  from assms have v: "edge_close_value e k = Some funded" and t: "edge_total coins = Some funded"
    by (auto simp: edge_closes_def and_then_eq_Ok ok_or_eq_Ok split: option.splits if_splits)
  show "edge_close_value e k = Some funded" by (fact v)
  show f: "unat funded = coins_value coins" using t by (simp add: edge_total_def checked_sum_coins)
  from v obtain fee where "fees_charge (edge_close_fees e) k = Some fee"
    "unat funded + unat fee = unat (edge_value e) + unat (edge_reserve e)"
    by (auto simp: edge_close_value_def ev_close_value_Some edge_values_of_def)
  then show "edge_locked e = coins_value coins + cost_price (edge_close_fees e) k"
    using f by (simp add: edge_locked_def fees_charge_price)
qed

lemma open_bond_lease_wf: "open_bond_lease b3 ops s context out terms = Ok d \<Longrightarrow> wf_registry_diff d"
  by (auto simp: open_bond_lease_def Let_def and_then_eq_Ok map_err_eq_Ok ok_or_eq_Ok
      split: terms_profile.splits if_splits intro: push_mutations_wf)

lemma payout_coin_value [simp]: "coin_value (payout_coin p) = payout_value p"
  by (simp add: payout_coin_def coin_issue_def)

lemma reshape_coins_Ok:
  assumes "reshape_coins b3 ops s network inputs outputs = Ok issued"
  shows "issued = map (\<lambda>(index, p). (coin_id_reshape b3 network inputs index (payout_owner p), payout_coin p))
      (enumerate 0 outputs)"
    and "\<forall>x \<in> set issued. b_coin ops s (fst x) = None"
    and "coins_value issued = (\<Sum>p\<leftarrow>outputs. unat (payout_value p))"
proof -
  have gen: "issued = map (\<lambda>(index, p). (coin_id_reshape b3 network inputs index (payout_owner p), payout_coin p)) ps
      \<and> (\<forall>x \<in> set issued. b_coin ops s (fst x) = None)"
    if "try_map (\<lambda>(index, p). let i = coin_id_reshape b3 network inputs index (payout_owner p) in
      if b_coin ops s i \<noteq> None then Err (OutputExists i) else Ok (i, payout_coin p)) ps = Ok issued" for ps
    using that by (induction ps arbitrary: issued) (fastforce simp: and_then_eq_Ok Let_def split: if_splits)+
  from gen [OF assms [unfolded reshape_coins_def]] show
    i: "issued = map (\<lambda>(index, p). (coin_id_reshape b3 network inputs index (payout_owner p), payout_coin p))
      (enumerate 0 outputs)" and "\<forall>x \<in> set issued. b_coin ops s (fst x) = None" by blast+
  have "coins_value (map (\<lambda>(index, p). (g index p, payout_coin p)) (enumerate n outputs))
      = (\<Sum>p\<leftarrow>outputs. unat (payout_value p))" for g :: "nat \<Rightarrow> payout \<Rightarrow> coin_id" and n
    by (induction outputs arbitrary: n) (simp_all add: coins_value_def)
  then show "coins_value issued = (\<Sum>p\<leftarrow>outputs. unat (payout_value p))" unfolding i .
qed

text \<open>Every accepted transaction's change is coherent and balanced up to exactly what it burns.\<close>

lemma apply_open_balance:
  assumes "apply_open b3 vf ops s context f terms ma ta = Ok c"
  shows "change_coherent c \<and> change_removed c = change_added c + tx_burn context edges (TxOpen f terms ma ta)"
proof -
  from assms obtain coins debits registry where
    c: "c = change_with_registry (change_open coins (edge_id_from b3 f (terms_hash_of terms), od_edge debits)) registry"
    and d: "compute_open_debits (ctx_block_height context) (ctx_fees context) (funding_len f)
      (checked_sum (\<lambda>(_, c). coin_value c) 0 coins) terms = Ok debits"
    and r: "open_bond_lease b3 ops s context (edge_id_from b3 f (terms_hash_of terms)) terms = Ok registry"
    by (rule apply_open_Ok)
  note od = compute_open_debits_Ok [OF d]
  have "coins_value coins = edge_locked (od_edge debits) + unat (od_open_fee debits) + unat (od_lifetime_fee debits)"
    using od(1) checked_sum_coins by force
  moreover have "unat (od_open_fee debits) = cost_price (ctx_fees context) (open_cost (funding_len f) terms)"
    using od(2) by (rule fees_charge_price)
  moreover note open_lifetime_fee_Ok(2) [OF od(3)]
  ultimately show ?thesis
    using c r by (auto simp: change_open_def open_bond_lease_wf change_ids_def)
qed

lemma apply_close_balance:
  assumes "apply_close b3 vf ops s context inp p outs = Ok c"
  shows "change_coherent c \<and> change_removed c = change_added c + tx_burn context (b_edge ops s) (TxClose inp p outs)"
proof -
  from assms obtain e funded staged registry where
    c: "c = change_with_registry (change_close (inp, e) (close_coins b3 inp outs)) registry"
    and e: "b_edge ops s inp = Some e"
    and f: "edge_closes e (close_coins b3 inp outs) (close_cost (length outs) p) = Ok funded"
    and r: "push_mutations staged = Ok registry"
    by (rule apply_close_Ok)
  show ?thesis using c e edge_closes_Ok(1) [OF f] push_mutations_wf [OF r]
    by (simp add: change_close_def change_ids_def)
qed

lemma apply_reshape_balance:
  assumes "apply_reshape b3 vf ops s context r = Ok c"
  shows "change_coherent c \<and> change_removed c = change_added c"
proof -
  from assms obtain coins i first rest issued amount where
    "checked_sum (\<lambda>(_, c). coin_value c) 0 coins = Some amount" "checked_sum payout_value 0 (rs_outputs r) = Some amount"
    "reshape_coins b3 ops s (ctx_network context) (rs_inputs r) (rs_outputs r) = Ok issued"
    "c = change_reshape coins issued"
    by (rule apply_reshape_Ok)
  then show ?thesis using reshape_coins_Ok(3)
    by (fastforce simp: change_reshape_def change_ids_def checked_sum_coins [symmetric] checked_sum_Some_iff)
qed

lemma apply_move_balance:
  assumes "apply_move b3 vf ops s context m = Ok c"
  shows "change_coherent c \<and> change_removed c = change_added c"
  using assms
  by (cases m) (auto elim!: apply_start_Ok apply_response_Ok simp: change_private_def wf_registry_diff_def
      MAX_REGISTRY_MUTATIONS_def)

lemma tx_apply_balance:
  assumes "tx_apply b3 vf ops s context t = Ok c"
  shows "change_coherent c" and "change_removed c = change_added c + tx_burn context (b_edge ops s) t"
proof -
  have "change_coherent c \<and> change_removed c = change_added c + tx_burn context (b_edge ops s) t"
  proof (cases t)
    case TxOpen with assms apply_open_balance show ?thesis by force
  next
    case TxClose with assms apply_close_balance show ?thesis by force
  next
    case TxMove with assms apply_move_balance show ?thesis by force
  next
    case TxOwner with assms apply_reshape_balance show ?thesis by force
  qed
  then show "change_coherent c" and "change_removed c = change_added c + tx_burn context (b_edge ops s) t"
    by blast+
qed

end
