(* ===== verification/Kernel_State.thy ===== *)
theory Kernel_State
  imports Kernel_Apply
begin

text \<open>Applying operations to a store (src/crates/kernel/src/state.rs, block.rs): one operation, an ordered
  batch, a block, and the unbounded iterator form. A function that takes \<^verbatim>\<open>&mut self\<close> returns its result
  with the store it leaves; where the source indexes past an array, the model returns \<open>None\<close>.\<close>

section \<open>Definitions\<close>

definition fold_change :: "'s batch_ops \<Rightarrow> 's \<Rightarrow> change \<Rightarrow> (apply_outcome \<times> 's) kernel_result" where
  "fold_change ops s c = and_then (change_fold ops s c) (\<lambda>s'. Ok (change_outcome c, s'))"

definition fold_one ::
  "blake3 \<Rightarrow> verifier \<Rightarrow> 's batch_ops \<Rightarrow> 's \<Rightarrow> ctx \<Rightarrow> tx \<Rightarrow> (apply_outcome \<times> 's) kernel_result" where
  "fold_one b3 vf ops s context t = and_then (tx_apply b3 vf ops s context t) (\<lambda>c. fold_change ops s c)"

definition state_genesis :: "('st, 's) store_ops \<Rightarrow> 'st \<Rightarrow> genesis list \<Rightarrow> ('st, insert_error) result" where
  "state_genesis sto store seeds =
    and_then (try_fold (genesis_insert (st_batch sto)) (st_begin sto store) seeds) (\<lambda>s. Ok (st_commit sto s))"

definition state_apply ::
  "blake3 \<Rightarrow> verifier \<Rightarrow> ('st, 's) store_ops \<Rightarrow> 'st \<Rightarrow> ctx \<Rightarrow> tx \<Rightarrow> apply_outcome kernel_result \<times> 'st" where
  "state_apply b3 vf sto store context t =
    (case fold_one b3 vf (st_batch sto) (st_begin sto store) context t of
       Ok (outcome, s) \<Rightarrow> (Ok outcome, st_commit sto s)
     | Err e \<Rightarrow> (Err e, store))"

fun fold_all ::
  "nat \<Rightarrow> blake3 \<Rightarrow> verifier \<Rightarrow> 's batch_ops \<Rightarrow> ctx \<Rightarrow> nat \<Rightarrow> 's \<Rightarrow> diff \<Rightarrow> tx list
    \<Rightarrow> (diff \<times> 's, batch_error) result option" where
  "fold_all N b3 vf ops context index s d [] = Some (Ok (d, s))"
| "fold_all N b3 vf ops context index s d (t # ts) =
    (case fold_one b3 vf ops s context t of
       Err e \<Rightarrow> Some (Err \<lparr>be_index = index, be_source = e\<rparr>)
     | Ok (outcome, s') \<Rightarrow>
         Option.bind (batch_diff_push N d outcome) (\<lambda>d'. fold_all N b3 vf ops context (Suc index) s' d' ts))"

definition apply_all ::
  "nat \<Rightarrow> blake3 \<Rightarrow> verifier \<Rightarrow> ('st, 's) store_ops \<Rightarrow> 'st \<Rightarrow> ctx \<Rightarrow> tx list
    \<Rightarrow> ((diff, batch_error) result \<times> 'st) option" where
  "apply_all N b3 vf sto store context ts =
    Option.bind (fold_all N b3 vf (st_batch sto) context 0 (st_begin sto store) batch_diff_empty ts) (\<lambda>r.
      Some (case r of Ok (d, s) \<Rightarrow> (Ok d, st_commit sto s) | Err e \<Rightarrow> (Err e, store)))"

record block =
  block_context :: ctx
  block_ops :: "tx list"

definition apply_block ::
  "nat \<Rightarrow> blake3 \<Rightarrow> verifier \<Rightarrow> ('st, 's) store_ops \<Rightarrow> 'st \<Rightarrow> block
    \<Rightarrow> ((diff, batch_error) result \<times> 'st) option" where
  "apply_block N b3 vf sto store blk = apply_all N b3 vf sto store (block_context blk) (block_ops blk)"

fun ops_cost :: "cost \<Rightarrow> tx list \<Rightarrow> cost option" where
  "ops_cost acc [] = Some acc"
| "ops_cost acc (t # ts) = Option.bind (cost_checked_add acc (tx_cost t)) (\<lambda>acc. ops_cost acc ts)"

definition block_cost :: "block \<Rightarrow> cost option" where
  "block_cost blk = ops_cost cost_zero (block_ops blk)"

definition block_fee :: "block \<Rightarrow> u64 option" where
  "block_fee blk = Option.bind (block_cost blk) (context_fee (block_context blk))"

definition block_fits :: "block \<Rightarrow> cost \<Rightarrow> bool" where
  "block_fits blk budget = (case block_cost blk of None \<Rightarrow> False | Some c \<Rightarrow> cost_fits c budget)"

text \<open>\<^verbatim>\<open>apply_iter\<close> reports each outcome to a callback as it is staged; the callback's own state is threaded
  through and, like the source's, keeps what it saw when the batch later fails.\<close>

fun fold_iter ::
  "blake3 \<Rightarrow> verifier \<Rightarrow> 's batch_ops \<Rightarrow> ctx \<Rightarrow> (nat \<Rightarrow> apply_outcome \<Rightarrow> 'a \<Rightarrow> 'a) \<Rightarrow> nat \<Rightarrow> 's \<Rightarrow> 'a \<Rightarrow> tx list
    \<Rightarrow> ('s, batch_error) result \<times> 'a" where
  "fold_iter b3 vf ops context on_outcome index s a [] = (Ok s, a)"
| "fold_iter b3 vf ops context on_outcome index s a (t # ts) =
    (case fold_one b3 vf ops s context t of
       Err e \<Rightarrow> (Err \<lparr>be_index = index, be_source = e\<rparr>, a)
     | Ok (outcome, s') \<Rightarrow>
         fold_iter b3 vf ops context on_outcome (Suc index) s' (on_outcome index outcome a) ts)"

definition apply_iter ::
  "blake3 \<Rightarrow> verifier \<Rightarrow> ('st, 's) store_ops \<Rightarrow> 'st \<Rightarrow> ctx \<Rightarrow> (nat \<Rightarrow> apply_outcome \<Rightarrow> 'a \<Rightarrow> 'a) \<Rightarrow> 'a \<Rightarrow> tx list
    \<Rightarrow> (unit, batch_error) result \<times> 'st \<times> 'a" where
  "apply_iter b3 vf sto store context on_outcome a ts =
    (case fold_iter b3 vf (st_batch sto) context on_outcome 0 (st_begin sto store) a ts of
       (Ok s, a') \<Rightarrow> (Ok (), st_commit sto s, a')
     | (Err e, a') \<Rightarrow> (Err e, store, a'))"

subsection \<open>Specifications\<close>

text \<open>The plain sequential meaning of a batch: each operation sees what the earlier ones left.\<close>

fun run_ops ::
  "blake3 \<Rightarrow> verifier \<Rightarrow> 's batch_ops \<Rightarrow> ctx \<Rightarrow> 's \<Rightarrow> tx list \<Rightarrow> (apply_outcome list \<times> 's) kernel_result" where
  "run_ops b3 vf ops context s [] = Ok ([], s)"
| "run_ops b3 vf ops context s (t # ts) =
    and_then (fold_one b3 vf ops s context t) (\<lambda>(outcome, s').
    and_then (run_ops b3 vf ops context s' ts) (\<lambda>(outcomes, s''). Ok (outcome # outcomes, s'')))"

fun run_burn :: "blake3 \<Rightarrow> verifier \<Rightarrow> 's batch_ops \<Rightarrow> ctx \<Rightarrow> 's \<Rightarrow> tx list \<Rightarrow> nat" where
  "run_burn b3 vf ops context s [] = 0"
| "run_burn b3 vf ops context s (t # ts) =
    (case fold_one b3 vf ops s context t of
       Err e \<Rightarrow> 0
     | Ok (outcome, s') \<Rightarrow> tx_burn context (b_edge ops s) t + run_burn b3 vf ops context s' ts)"

section \<open>Lemmas\<close>

lemma fold_one_Ok:
  assumes "fold_one b3 vf ops s context t = Ok (outcome, s')"
  obtains c where "tx_apply b3 vf ops s context t = Ok c" "change_fold ops s c = Ok s'" "outcome = change_outcome c"
  using assms by (auto simp: fold_one_def fold_change_def and_then_eq_Ok)

text \<open>The bounded loop never runs out of room; it succeeds exactly as the sequential run does, and it fails
  with the index of the first operation that is refused where the earlier ones left the batch.\<close>

lemma fold_all_Ok:
  assumes "length d + length ts \<le> N"
  shows "fold_all N b3 vf ops context index s d ts = Some (Ok (d', s')) \<longleftrightarrow>
    (\<exists>outcomes. run_ops b3 vf ops context s ts = Ok (outcomes, s') \<and> d' = d @ outcomes)"
  using assms
proof (induction ts arbitrary: index s d)
  case (Cons t ts)
  show ?case
  proof (cases "fold_one b3 vf ops s context t")
    case (Ok r)
    obtain outcome s1 where "r = (outcome, s1)" by fastforce
    with Ok show ?thesis using Cons.IH [of "d @ [outcome]" "Suc index" s1] Cons.prems
      by (auto simp: batch_diff_push_def and_then_eq_Ok)
  qed simp
qed auto

lemma ex_nat_split: "(\<exists>n. P n) \<longleftrightarrow> P 0 \<or> (\<exists>n. P (Suc n))"
  by (metis not0_implies_Suc)

lemma fold_all_Err:
  assumes "length d + length ts \<le> N"
  shows "fold_all N b3 vf ops context index s d ts = Some (Err x) \<longleftrightarrow>
    (\<exists>n outcomes s1. n < length ts \<and> be_index x = index + n
      \<and> run_ops b3 vf ops context s (take n ts) = Ok (outcomes, s1)
      \<and> fold_one b3 vf ops s1 context (ts ! n) = Err (be_source x))"
  using assms
proof (induction ts arbitrary: index s d)
  case (Cons t ts)
  let ?P = "\<lambda>n. \<exists>outcomes s1. n < length (t # ts) \<and> be_index x = index + n
      \<and> run_ops b3 vf ops context s (take n (t # ts)) = Ok (outcomes, s1)
      \<and> fold_one b3 vf ops s1 context ((t # ts) ! n) = Err (be_source x)"
  have split: "(\<exists>n. ?P n) \<longleftrightarrow> ?P 0 \<or> (\<exists>n. ?P (Suc n))" by (rule ex_nat_split)
  show ?case
  proof (cases "fold_one b3 vf ops s context t")
    case (Err e)
    have "\<not> ?P (Suc n)" for n using Err by (simp add: and_then_eq_Ok)
    then have "(\<exists>n. ?P n) \<longleftrightarrow> ?P 0" using split by blast
    also have "\<dots> \<longleftrightarrow> x = \<lparr>be_index = index, be_source = e\<rparr>" using Err by auto
    finally show ?thesis using Err by auto
  next
    case (Ok r)
    obtain outcome s1 where r: "r = (outcome, s1)" by fastforce
    have step: "?P (Suc n) \<longleftrightarrow> (\<exists>outcomes s2. n < length ts \<and> be_index x = Suc index + n
      \<and> run_ops b3 vf ops context s1 (take n ts) = Ok (outcomes, s2)
      \<and> fold_one b3 vf ops s2 context (ts ! n) = Err (be_source x))" for n
      using Ok r by (auto simp: and_then_eq_Ok)
    have no: "\<not> ?P 0" using Ok by simp
    have P: "(\<exists>n. ?P n) \<longleftrightarrow> (\<exists>n outcomes s2. n < length ts \<and> be_index x = Suc index + n
      \<and> run_ops b3 vf ops context s1 (take n ts) = Ok (outcomes, s2)
      \<and> fold_one b3 vf ops s2 context (ts ! n) = Err (be_source x))"
      by (simp only: split step no simp_thms)
    have "fold_all N b3 vf ops context index s d (t # ts)
        = fold_all N b3 vf ops context (Suc index) s1 (d @ [outcome]) ts"
      using Ok r Cons.prems by (simp add: batch_diff_push_def)
    then show ?thesis using Cons.IH [of "d @ [outcome]" "Suc index" s1] Cons.prems P by simp
  qed
qed simp

lemma fold_all_total:
  "length d + length ts \<le> N \<Longrightarrow> \<exists>r. fold_all N b3 vf ops context index s d ts = Some r"
  by (induction ts arbitrary: index s d) (auto simp: batch_diff_push_def split: result.splits)

text \<open>The iterator form stages and commits the same thing, whatever its callback does.\<close>

lemma fold_iter_fold_all:
  assumes "length d + length ts \<le> N"
  shows "fold_all N b3 vf ops context index s d ts = Some r \<Longrightarrow>
    fst (fold_iter b3 vf ops context on_outcome index s a ts) = (case r of Ok (_, s') \<Rightarrow> Ok s' | Err e \<Rightarrow> Err e)"
  using assms
proof (induction ts arbitrary: index s d a)
  case (Cons t ts)
  show ?case
  proof (cases "fold_one b3 vf ops s context t")
    case (Ok q)
    obtain outcome s1 where "q = (outcome, s1)" by fastforce
    with Ok Cons.prems show ?thesis using Cons.IH [of "Suc index" s1 "d @ [outcome]" "on_outcome index outcome a"]
      by (simp add: batch_diff_push_def)
  qed (use Cons.prems in auto)
qed auto

context batch
begin

text \<open>One accepted operation keeps the batch well formed and moves the ledger by exactly what it burns.\<close>

lemma fold_one_value:
  assumes "inv s" "fold_one b3 vf ops s context t = Ok (outcome, s')"
  shows "inv s' \<and> total_value ops s' + tx_burn context (b_edge ops s) t = total_value ops s"
proof -
  from assms(2) obtain c where c: "tx_apply b3 vf ops s context t = Ok c" "change_fold ops s c = Ok s'"
    by (rule fold_one_Ok)
  note balance = tx_apply_balance [OF c(1)]
  from change_step [OF assms(1) c(2)] balance(2) show ?thesis by simp
qed

lemma run_ops_value:
  assumes "inv s" "run_ops b3 vf ops context s ts = Ok (outcomes, s')"
  shows "inv s' \<and> total_value ops s' + run_burn b3 vf ops context s ts = total_value ops s"
  using assms
proof (induction ts arbitrary: s outcomes)
  case (Cons t ts)
  then obtain outcome s1 outcomes1 where f: "fold_one b3 vf ops s context t = Ok (outcome, s1)"
    and r: "run_ops b3 vf ops context s1 ts = Ok (outcomes1, s')"
    by (auto simp: and_then_eq_Ok)
  note one = fold_one_value [OF Cons.prems(1) f]
  then show ?case using Cons.IH [OF _ r] f by simp
qed simp

lemma genesis_value:
  assumes "inv s" "try_fold (genesis_insert ops) s seeds = Ok s'"
  shows "inv s' \<and> b_edge ops s' = b_edge ops s \<and> total_value ops s' = total_value ops s
    + (\<Sum>g\<leftarrow>seeds. unat (coin_value (genesis_coin g)))"
  using assms
proof (induction seeds arbitrary: s)
  case (Cons g seeds)
  then obtain s1 where g: "genesis_insert ops s g = Ok s1" and r: "try_fold (genesis_insert ops) s1 seeds = Ok s'"
    by (auto simp: and_then_eq_Ok)
  from insert_coin_Ok [OF Cons.prems(1) g [unfolded genesis_insert_def]] finite_live [OF Cons.prems(1)]
  have "inv s1" "b_edge ops s1 = b_edge ops s"
    "total_value ops s1 = total_value ops s + unat (coin_value (genesis_coin g))"
    by (auto simp: total_value_def coin_supply_insert)
  then show ?case using Cons.IH [OF _ r] by simp
qed simp

end

end
