(* ===== verification/Working_Set.thy ===== *)
theory Working_Set
  imports Kernel_State
begin

text \<open>The chain's store (src/crates/chain/src/execution/working_set.rs): one entry per slot the block
  declared, \<open>None\<close> for an empty slot. A write to an undeclared slot is refused. A \<^verbatim>\<open>HashMap\<close> is a finite
  map; \<^verbatim>\<open>begin\<close> clones the maps into a batch and \<^verbatim>\<open>commit\<close> moves them back. The theory interprets the
  \<open>batch\<close> interface for it, so that every client lemma holds of the store consensus runs on.\<close>

section \<open>Definitions\<close>

record block_working_set =
  bws_coins :: "coin_id \<Rightarrow> coin option option"
  bws_edges :: "edge_id \<Rightarrow> edge option option"
  bws_registry :: "registry_chunk_id \<Rightarrow> registry_chunk option option"

definition bws_new :: block_working_set where
  "bws_new = \<lparr>bws_coins = (\<lambda>_. None), bws_edges = (\<lambda>_. None), bws_registry = (\<lambda>_. None)\<rparr>"

definition insert_coin_slot :: "block_working_set \<Rightarrow> coin_id \<Rightarrow> coin option \<Rightarrow> block_working_set" where
  "insert_coin_slot w i c = w\<lparr>bws_coins := (bws_coins w)(i \<mapsto> c)\<rparr>"
definition insert_edge_slot :: "block_working_set \<Rightarrow> edge_id \<Rightarrow> edge option \<Rightarrow> block_working_set" where
  "insert_edge_slot w i e = w\<lparr>bws_edges := (bws_edges w)(i \<mapsto> e)\<rparr>"
definition insert_registry_chunk_slot ::
  "block_working_set \<Rightarrow> registry_chunk_id \<Rightarrow> registry_chunk option \<Rightarrow> block_working_set" where
  "insert_registry_chunk_slot w i c = w\<lparr>bws_registry := (bws_registry w)(i \<mapsto> c)\<rparr>"

definition bws_coin :: "block_working_set \<Rightarrow> coin_id \<Rightarrow> coin option" where
  "bws_coin w i = Option.bind (bws_coins w i) (\<lambda>c. c)"
definition bws_edge :: "block_working_set \<Rightarrow> edge_id \<Rightarrow> edge option" where
  "bws_edge w i = Option.bind (bws_edges w i) (\<lambda>e. e)"
definition bws_registry_chunk :: "block_working_set \<Rightarrow> registry_chunk_id \<Rightarrow> registry_chunk option" where
  "bws_registry_chunk w i = Option.bind (bws_registry w i) (\<lambda>c. c)"

record working_batch =
  wb_coins :: "coin_id \<Rightarrow> coin option option"
  wb_edges :: "edge_id \<Rightarrow> edge option option"
  wb_registry :: "registry_chunk_id \<Rightarrow> registry_chunk option option"

definition bws_begin :: "block_working_set \<Rightarrow> working_batch" where
  "bws_begin w = \<lparr>wb_coins = bws_coins w, wb_edges = bws_edges w, wb_registry = bws_registry w\<rparr>"

definition wb_commit :: "working_batch \<Rightarrow> block_working_set" where
  "wb_commit b = \<lparr>bws_coins = wb_coins b, bws_edges = wb_edges b, bws_registry = wb_registry b\<rparr>"

text \<open>The three object kinds share the slot operations.\<close>

definition slot_get :: "('k \<Rightarrow> 'v option option) \<Rightarrow> 'k \<Rightarrow> 'v option" where
  "slot_get m k = Option.bind (m k) (\<lambda>v. v)"

definition slot_insert :: "('k \<Rightarrow> 'v option option) \<Rightarrow> 'k \<Rightarrow> 'v \<Rightarrow> ('k \<Rightarrow> 'v option option, insert_error) result" where
  "slot_insert m k v =
    (case m k of
       None \<Rightarrow> Err Unavailable
     | Some (Some _) \<Rightarrow> Err Exists
     | Some None \<Rightarrow> Ok (m(k \<mapsto> Some v)))"

definition slot_remove :: "('k \<Rightarrow> 'v option option) \<Rightarrow> 'k \<Rightarrow> 'v option \<times> ('k \<Rightarrow> 'v option option)" where
  "slot_remove m k = (case m k of None \<Rightarrow> (None, m) | Some slot \<Rightarrow> (slot, m(k \<mapsto> None)))"

definition wb_insert_coin :: "working_batch \<Rightarrow> coin_id \<Rightarrow> coin \<Rightarrow> (working_batch, insert_error) result" where
  "wb_insert_coin b i c = and_then (slot_insert (wb_coins b) i c) (\<lambda>m. Ok (b\<lparr>wb_coins := m\<rparr>))"
definition wb_remove_coin :: "working_batch \<Rightarrow> coin_id \<Rightarrow> coin option \<times> working_batch" where
  "wb_remove_coin b i = (case slot_remove (wb_coins b) i of (r, m) \<Rightarrow> (r, b\<lparr>wb_coins := m\<rparr>))"
definition wb_insert_edge :: "working_batch \<Rightarrow> edge_id \<Rightarrow> edge \<Rightarrow> (working_batch, insert_error) result" where
  "wb_insert_edge b i e = and_then (slot_insert (wb_edges b) i e) (\<lambda>m. Ok (b\<lparr>wb_edges := m\<rparr>))"
definition wb_remove_edge :: "working_batch \<Rightarrow> edge_id \<Rightarrow> edge option \<times> working_batch" where
  "wb_remove_edge b i = (case slot_remove (wb_edges b) i of (r, m) \<Rightarrow> (r, b\<lparr>wb_edges := m\<rparr>))"
definition wb_insert_registry_chunk ::
  "working_batch \<Rightarrow> registry_chunk_id \<Rightarrow> registry_chunk \<Rightarrow> (working_batch, insert_error) result" where
  "wb_insert_registry_chunk b i c = and_then (slot_insert (wb_registry b) i c) (\<lambda>m. Ok (b\<lparr>wb_registry := m\<rparr>))"
definition wb_remove_registry_chunk ::
  "working_batch \<Rightarrow> registry_chunk_id \<Rightarrow> registry_chunk option \<times> working_batch" where
  "wb_remove_registry_chunk b i = (case slot_remove (wb_registry b) i of (r, m) \<Rightarrow> (r, b\<lparr>wb_registry := m\<rparr>))"

definition wb_ops :: "working_batch batch_ops" where
  "wb_ops =
    \<lparr>b_coin = (\<lambda>b. slot_get (wb_coins b)), b_insert_coin = wb_insert_coin, b_remove_coin = wb_remove_coin,
     b_edge = (\<lambda>b. slot_get (wb_edges b)), b_insert_edge = wb_insert_edge, b_remove_edge = wb_remove_edge,
     b_registry_chunk = (\<lambda>b. slot_get (wb_registry b)), b_insert_registry_chunk = wb_insert_registry_chunk,
     b_remove_registry_chunk = wb_remove_registry_chunk\<rparr>"

definition bws_store :: "(block_working_set, working_batch) store_ops" where
  "bws_store = \<lparr>st_begin = bws_begin, st_commit = wb_commit, st_batch = wb_ops\<rparr>"

definition wb_inv :: "working_batch \<Rightarrow> bool" where
  "wb_inv b \<longleftrightarrow> finite (dom (wb_coins b)) \<and> finite (dom (wb_edges b)) \<and> finite (dom (wb_registry b))"

definition bws_inv :: "block_working_set \<Rightarrow> bool" where
  "bws_inv w \<longleftrightarrow> finite (dom (bws_coins w)) \<and> finite (dom (bws_edges w)) \<and> finite (dom (bws_registry w))"

definition bws_total :: "block_working_set \<Rightarrow> nat" where
  "bws_total w = coin_supply (bws_coin w) + edge_supply (bws_edge w)"

section \<open>The working set is a batch\<close>

lemma slot_insert_Ok:
  assumes "slot_insert m k v = Ok m'"
  shows "slot_get m k = None" "slot_get m' = (slot_get m)(k \<mapsto> v)" "dom m' = dom m"
proof -
  from assms have "m k = Some None" "m' = m(k \<mapsto> Some v)"
    by (auto simp: slot_insert_def split: option.splits)
  then show "slot_get m k = None" "slot_get m' = (slot_get m)(k \<mapsto> v)" "dom m' = dom m"
    by (auto simp: slot_get_def)
qed

lemma slot_insert_Err: "slot_insert m k v = Err e \<Longrightarrow> e = Exists \<longleftrightarrow> slot_get m k \<noteq> None"
  by (auto simp: slot_insert_def slot_get_def split: option.splits)

lemma slot_remove_result:
  assumes "slot_remove m k = (r, m')"
  shows "r = slot_get m k" "slot_get m' = (slot_get m)(k := None)" "dom m' = dom m"
proof -
  from assms have "r = slot_get m k \<and> m' = (if m k = None then m else m(k \<mapsto> None))"
    by (cases "m k") (auto simp: slot_remove_def slot_get_def)
  then show "r = slot_get m k" "slot_get m' = (slot_get m)(k := None)" "dom m' = dom m"
    by (auto simp: slot_get_def)
qed

lemma slot_get_dom: "dom (slot_get m) \<subseteq> dom m"
  by (auto simp: slot_get_def bind_eq_Some_conv)

lemma wb_ops_simps [simp]:
  "b_coin wb_ops b = slot_get (wb_coins b)" "b_insert_coin wb_ops = wb_insert_coin"
  "b_remove_coin wb_ops = wb_remove_coin"
  "b_edge wb_ops b = slot_get (wb_edges b)" "b_insert_edge wb_ops = wb_insert_edge"
  "b_remove_edge wb_ops = wb_remove_edge"
  "b_registry_chunk wb_ops b = slot_get (wb_registry b)"
  "b_insert_registry_chunk wb_ops = wb_insert_registry_chunk"
  "b_remove_registry_chunk wb_ops = wb_remove_registry_chunk"
  by (simp_all add: wb_ops_def)

lemmas wb_op_defs = wb_insert_coin_def wb_remove_coin_def wb_insert_edge_def wb_remove_edge_def
  wb_insert_registry_chunk_def wb_remove_registry_chunk_def

interpretation ws: batch wb_ops wb_inv
proof
  fix s assume "wb_inv s"
  then show "finite (dom (b_coin wb_ops s)) \<and> finite (dom (b_edge wb_ops s))"
    by (auto simp: wb_inv_def intro: finite_subset [OF slot_get_dom])
qed (auto simp: wb_inv_def wb_op_defs and_then_eq_Ok and_then_eq_Err slot_insert_Ok slot_insert_Err
    slot_remove_result split: prod.splits dest: slot_insert_Err slot_remove_result)

lemma ws_begin [simp]:
  "st_begin bws_store = bws_begin" "st_commit bws_store = wb_commit" "st_batch bws_store = wb_ops"
  "b_coin wb_ops (bws_begin w) = bws_coin w" "b_edge wb_ops (bws_begin w) = bws_edge w"
  "b_registry_chunk wb_ops (bws_begin w) = bws_registry_chunk w"
  "wb_inv (bws_begin w) = bws_inv w" "bws_begin (wb_commit b) = b" "wb_commit (bws_begin w) = w"
  by (auto simp: bws_store_def bws_begin_def wb_commit_def bws_coin_def bws_edge_def bws_registry_chunk_def
      slot_get_def wb_inv_def bws_inv_def fun_eq_iff)

lemma ws_slot_get [simp]:
  "slot_get (wb_coins (bws_begin w)) = bws_coin w" "slot_get (wb_edges (bws_begin w)) = bws_edge w"
  "slot_get (wb_registry (bws_begin w)) = bws_registry_chunk w"
  by (auto simp: bws_begin_def bws_coin_def bws_edge_def bws_registry_chunk_def slot_get_def)

lemma bws_total_commit: "bws_total (wb_commit b) = total_value wb_ops b"
proof -
  have "bws_coin (wb_commit b) = slot_get (wb_coins b)" "bws_edge (wb_commit b) = slot_get (wb_edges b)"
    by (auto simp: bws_coin_def bws_edge_def wb_commit_def slot_get_def)
  then show ?thesis by (simp add: bws_total_def total_value_def)
qed

lemma bws_total_begin: "total_value wb_ops (bws_begin w) = bws_total w"
  by (simp add: bws_total_def total_value_def del: wb_ops_simps)

end
