(* ===== verification/Kernel_Ledger.thy ===== *)
theory Kernel_Ledger
  imports Kernel_State
begin

text \<open>What holds of every ledger the kernel can build. A live edge is one some open admitted, under terms
  its stored hash names; a pending contest belongs to a live payment edge and stays within what that edge
  can pay. Both are invariants of every accepted transaction, and from them the exits follow: an edge can
  always afford the closes it allows, a timed-out edge can be timed out, and a contest whose window has
  closed can be settled.

  Terms are identified by their hash, so the statements are relative to a set \<open>T\<close> of terms bodies on which
  the hash does not collide.\<close>

section \<open>Definitions\<close>

definition opened_under :: "edge \<Rightarrow> kterms \<Rightarrow> bool" where
  "opened_under e terms \<longleftrightarrow> (\<exists>height f coins funded d shape.
    compute_open_debits height f coins funded terms = Ok d \<and> od_edge d = e
    \<and> check_timeout_payout d terms = Ok () \<and> check_work_profile_open e shape terms = Ok ())"

text \<open>The state of a contest: an opener's claim, at most one strictly higher answer, and a penalty owed
  only by a client who opened and was answered. Whatever happens next stays within capacity.\<close>

definition contest_ok :: "edge \<Rightarrow> pending_close \<Rightarrow> bool" where
  "contest_ok e p \<longleftrightarrow>
    (\<exists>st. work_payment_settlement (edge_values_of e) (pc_penalty_amount p) = Some st
      \<and> unat (pc_final_cumulative p) \<le> unat (st_capacity st))
    \<and> (pc_responded p \<longleftrightarrow> pc_start_cumulative p < pc_final_cumulative p)
    \<and> pc_start_cumulative p \<le> pc_final_cumulative p
    \<and> (pc_penalty_due p \<longleftrightarrow> pc_responded p \<and> pc_opener_role p = Maker)"

definition pending_at :: "blake3 \<Rightarrow> network_id \<Rightarrow> ledger \<Rightarrow> edge_id \<Rightarrow> pending_slot" where
  "pending_at b3 network l i = parse_pending_close (l_registry l (pending_payment_close_slot b3 network i)) i"

definition ledger_ok :: "blake3 \<Rightarrow> network_id \<Rightarrow> terms_body set \<Rightarrow> ledger \<Rightarrow> bool" where
  "ledger_ok b3 network T l \<longleftrightarrow>
    (\<forall>i e. l_edges l i = Some e \<longrightarrow>
      (\<exists>terms. wf_terms b3 terms \<and> terms_body_of terms \<in> T \<and> opened_under e terms))
    \<and> (\<forall>i p. pending_at b3 network l i = PendingPresent p \<longrightarrow>
      (\<exists>e. l_edges l i = Some e \<and> edge_allows e Adjudicated \<and> contest_ok e p))"

text \<open>The terms a transaction reveals, and that they are known ones carrying their own hash.\<close>

fun tx_terms :: "tx \<Rightarrow> kterms list" where
  "tx_terms (TxOpen _ terms _ _) = [terms]"
| "tx_terms (TxClose _ (TimeoutProof terms _) _) = [terms]"
| "tx_terms (TxClose _ _ _) = []"
| "tx_terms (TxMove (StartPaymentClose start)) = [ps_terms start]"
| "tx_terms (TxMove (RespondPaymentClose _)) = []"
| "tx_terms (TxOwner _) = []"

definition tx_known :: "blake3 \<Rightarrow> terms_body set \<Rightarrow> tx \<Rightarrow> bool" where
  "tx_known b3 T t \<longleftrightarrow> list_all (\<lambda>k. wf_terms b3 k \<and> terms_body_of k \<in> T) (tx_terms t)"

section \<open>Close kinds and reserves\<close>

lemma cks_table:
  "cks_contains CKS_BASIC k \<longleftrightarrow> k = Mutual \<or> k = Timeout"
  "cks_contains CKS_WORK_STAKE_BOND k \<longleftrightarrow> k = Timeout"
  "cks_contains CKS_WORK_PAYMENT k \<longleftrightarrow> k = Freeze \<or> k = Adjudicated"
  by (cases k; simp add: CKS_BASIC_def CKS_WORK_STAKE_BOND_def CKS_WORK_PAYMENT_def cks_contains_def cks_with_def
      cks_empty_def close_kind_bit_def push_bit_eq_mult)+

lemma terms_allows:
  "cks_contains (terms_allowed_closes terms) k \<longleftrightarrow> (case terms_profile_of terms of
      ProfileBasic \<Rightarrow> k = Mutual \<or> k = Timeout
    | ProfileWorkStakeBond _ \<Rightarrow> k = Timeout
    | ProfileWorkPayment _ \<Rightarrow> k = Freeze \<or> k = Adjudicated)"
  by (cases "terms_body_of terms") (simp_all add: terms_allowed_closes_def terms_profile_of_def cks_table)

lemma opened_under_fields:
  assumes "opened_under e terms"
  shows "edge_terms e = terms_hash_of terms" "edge_parties e = terms_parties terms"
    "edge_timeout e = terms_timeout terms" "edge_allowed e = terms_allowed_closes terms"
    "fees_charge (edge_close_fees e) (open_reserve_cost terms) = Some (edge_reserve e)"
    "edge_locked e < 2 ^ 64"
proof -
  from assms obtain height f coins funded d where d: "compute_open_debits height f coins funded terms = Ok d"
    and e: "od_edge d = e" unfolding opened_under_def by blast
  note od = compute_open_debits_Ok [OF d, unfolded e]
  from od show "edge_terms e = terms_hash_of terms" "edge_parties e = terms_parties terms"
    "edge_timeout e = terms_timeout terms" "edge_allowed e = terms_allowed_closes terms"
    "fees_charge (edge_close_fees e) (open_reserve_cost terms) = Some (edge_reserve e)" by simp_all
  from od(1) obtain v :: u64 where "unat v = edge_locked e + unat (od_open_fee d) + unat (od_lifetime_fee d)" by blast
  then show "edge_locked e < 2 ^ 64" using unat_u64_less [of v] by linarith
qed

lemma opened_under_allows:
  "opened_under e terms \<Longrightarrow> edge_allows e k \<longleftrightarrow> cks_contains (terms_allowed_closes terms) k"
  by (simp add: edge_allows_def opened_under_fields)

lemma unat_units: "n \<le> 4 \<Longrightarrow> unat (saturating_add (u64_of_usize n) 1) = n + 1"
  "n \<le> 4 \<Longrightarrow> unat (saturating_add (u64_of_usize n) 4) = n + 4"
  by (simp_all add: unat_saturating_add u64_of_usize_def unat_of_nat)

lemma cost_new_fields [simp]:
  "cost_base (cost_new a b c) = a" "cost_slots (cost_new a b c) = b" "cost_proofs (cost_new a b c) = c"
  by (simp_all add: cost_new_def)

text \<open>The reserve an open locks covers the cost of every close its terms allow, at every payout fanout.\<close>

lemma close_cost_within_reserve:
  assumes "cks_contains (terms_allowed_closes terms) (proof_kind p)" and "n \<le> MAX_EDGE_OUTPUTS"
    and "\<And>t ow. p = TimeoutProof t ow \<Longrightarrow> is_work_bond t = is_work_bond terms"
  shows "unat (cost_base (close_cost n p)) \<le> unat (cost_base (open_reserve_cost terms))
    \<and> unat (cost_slots (close_cost n p)) \<le> unat (cost_slots (open_reserve_cost terms))
    \<and> unat (cost_proofs (close_cost n p)) \<le> unat (cost_proofs (open_reserve_cost terms))"
proof -
  have n: "n \<le> 4" using assms(2) by (simp add: bound_defs)
  show ?thesis
    using assms(1,3) n unat_units [of n] unat_units [of 4]
    by (cases "terms_profile_of terms"; cases p)
      (simp_all add: terms_allows close_cost_def timeout_close_cost_def kind_close_cost_def open_reserve_cost_def
        is_work_bond_def work_payment_reserve_cost_def WORK_BOND_TIMEOUT_EXTRA_SLOTS_def bound_defs Let_def)
qed

lemma opened_close_value:
  assumes "opened_under e terms" "edge_allows e (proof_kind p)" "n \<le> MAX_EDGE_OUTPUTS"
    and "\<And>t ow. p = TimeoutProof t ow \<Longrightarrow> is_work_bond t = is_work_bond terms"
  shows "\<exists>v. edge_close_value e (close_cost n p) = Some v
    \<and> unat v + cost_price (edge_close_fees e) (close_cost n p) = edge_locked e"
proof -
  note f = opened_under_fields [OF assms(1)]
  have "cks_contains (terms_allowed_closes terms) (proof_kind p)"
    using assms(1,2) by (simp add: opened_under_allows)
  then have "unat (cost_base (close_cost n p)) \<le> unat (cost_base (open_reserve_cost terms))
    \<and> unat (cost_slots (close_cost n p)) \<le> unat (cost_slots (open_reserve_cost terms))
    \<and> unat (cost_proofs (close_cost n p)) \<le> unat (cost_proofs (open_reserve_cost terms))"
    using assms(3,4) by (rule close_cost_within_reserve)
  with fees_charge_mono [OF f(5)]
  obtain fee where fee: "fees_charge (edge_close_fees e) (close_cost n p) = Some fee" "unat fee \<le> unat (edge_reserve e)"
    by blast
  define v where "v = edge_value e + (edge_reserve e - fee)"
  have "unat (edge_reserve e - fee) = unat (edge_reserve e) - unat fee"
    using fee(2) by (simp add: unat_sub word_le_nat_alt)
  then have "unat v = unat (edge_value e) + (unat (edge_reserve e) - unat fee)"
    using f(6) by (simp add: v_def unat_word_ariths edge_locked_def)
  then have v: "unat v + unat fee = edge_locked e" using fee(2) by (simp add: edge_locked_def)
  then have "edge_close_value e (close_cost n p) = Some v"
    using fee by (simp add: edge_close_value_def ev_close_value_Some edge_values_of_def edge_locked_def)
  then show ?thesis using v fees_charge_price [OF fee(1)] by auto
qed

lemma opened_payment_capacity:
  assumes "opened_under e terms" "terms_profile_of terms = ProfileWorkPayment payment"
  shows "\<exists>st. work_payment_settlement (edge_values_of e) (wp_omission_bond payment) = Some st
    \<and> 0 < unat (st_capacity st)"
proof -
  from assms have "check_payment_capacity e payment = Ok ()"
    by (auto simp: opened_under_def check_work_profile_open_def and_then_eq_Ok split: if_splits)
  then obtain route capacity where r: "route_minimum (edge_values_of e) = Some route"
    and c: "checked_sub route (wp_omission_bond payment) = Some capacity" "capacity \<noteq> 0"
    by (auto simp: check_payment_capacity_def close_route_minimum_def and_then_eq_Ok ok_or_eq_Ok split: if_splits)
  from r obtain a where "ev_close_value (edge_values_of e) (work_payment_close_cost Freeze) = Some route"
    "ev_close_value (edge_values_of e) (work_payment_close_cost Adjudicated) = Some a"
    by (auto simp: route_minimum_freeze)
  then show ?thesis using r c by (simp add: work_payment_settlement_def unat_gt_0)
qed

section \<open>Accepting a close\<close>

lemma check_close_outputs_iff:
  "check_close_outputs b3 ops s i outs = Ok () \<longleftrightarrow> (\<forall>x \<in> set (close_output_ids b3 i outs). b_coin ops s x = None)"
proof -
  have "try_fold (\<lambda>_ (index, p). let i = payout_id b3 p i index in
      if b_coin ops s i \<noteq> None then Err (OutputExists i) else Ok ()) () ps = Ok ()
    \<longleftrightarrow> (\<forall>x \<in> set (map (\<lambda>(index, p). payout_id b3 p i index) ps). b_coin ops s x = None)" for ps
    by (induction ps) (auto simp: Let_def and_then_eq_Ok split: if_splits)
  then show ?thesis by (simp add: check_close_outputs_def close_output_ids_def)
qed

lemma edge_total_close_coins: "edge_total (close_coins b3 i outs) = payout_total outs"
proof -
  have "checked_sum (\<lambda>(_, c). coin_value c) acc (map (\<lambda>(index, p). close_coin b3 p i index) (enumerate n outs))
      = checked_sum payout_value acc outs" for acc n
    by (induction outs arbitrary: acc n) (simp_all add: close_coin_def split: option.splits)
  then show ?thesis by (simp add: edge_total_def close_coins_def payout_total_def)
qed

lemma apply_close_accepts:
  assumes "\<forall>x \<in> set (close_output_ids b3 i outs). b_coin ops s x = None"
    and "b_edge ops s i = Some e" "edge_allows e (proof_kind p)"
    and "edge_close_value e (close_cost (length outs) p) = Some v" "payout_total outs = Some v"
    and "check_proof b3 vf ops s context \<lparr>cs_input = i, cs_edge = e, cs_total = v, cs_outputs = outs\<rparr> p = Ok staged"
    and "push_mutations staged = Ok d"
  shows "apply_close b3 vf ops s context i p outs
    = Ok (change_with_registry (change_close (i, e) (close_coins b3 i outs)) d)"
  using assms
  by (simp add: apply_close_def check_close_outputs_iff [THEN iffD2] edge_closes_def edge_total_close_coins)

lemma push_mutations_two:
  "push_mutations [m, m'] = Ok [m, m'] \<longleftrightarrow> rm_id m \<noteq> rm_id m'"
  by (auto simp: push_mutations_def diff_push_def diff_contains_def diff_empty_def MAX_REGISTRY_MUTATIONS_def)

lemma push_mutations_one [simp]: "push_mutations [m] = Ok [m]" "push_mutations [] = Ok []"
  by (simp_all add: push_mutations_def diff_push_def diff_contains_def diff_empty_def MAX_REGISTRY_MUTATIONS_def)

text \<open>A readable lease occupies two different slots: its chunks carry different indices.\<close>

lemma leased_slots_distinct:
  assumes "read_bond_lease ops s b3 network i = Ok (Some l)"
  shows "bond_lease_slot b3 network i 0 \<noteq> bond_lease_slot b3 network i 1"
proof
  assume eq: "bond_lease_slot b3 network i 0 = bond_lease_slot b3 network i 1"
  from assms obtain c0 c1 where "b_registry_chunk ops s (bond_lease_slot b3 network i 0) = Some c0"
    "b_registry_chunk ops s (bond_lease_slot b3 network i 1) = Some c1" "lease_from_chunks (c0, c1) i = Ok l"
    by (auto simp: read_bond_lease_def Let_def bond_lease_slots_def parse_bond_lease_def
        split: lease_slots.splits option.splits result.splits)
  then show False using eq
    by (auto simp: lease_from_chunks_def and_then_eq_Ok split: if_splits)
qed

lemma opened_timeout_payout:
  assumes "opened_under e terms" "terms_timeout_outputs terms = Some outs"
  shows "\<exists>v. edge_close_value e (timeout_close_cost (length outs) (is_work_bond terms)) = Some v
    \<and> payout_total outs = Some v" and "list_all (\<lambda>p. parties_is_destination (edge_parties e) p False) outs"
proof -
  from assms(1) obtain height f coins funded d where d: "compute_open_debits height f coins funded terms = Ok d"
    and e: "od_edge d = e" and t: "check_timeout_payout d terms = Ok ()" unfolding opened_under_def by blast
  from compute_open_debits_Ok(10) [OF d] assms(2) obtain v where v: "od_timeout_payout d = Some v"
    "edge_close_value e (timeout_close_cost (length outs) (is_work_bond terms)) = Some v"
    by (cases "od_timeout_payout d") (auto simp: timeout_payout_def ok_or_eq_Ok edge_close_value_def e)
  with t assms(2) have "payout_total outs = Some v"
    "list_all (\<lambda>p. parties_is_destination (terms_parties terms) p False) outs"
    by (auto simp: check_timeout_payout_def and_then_eq_Ok ok_or_eq_Ok split: if_splits)
  with v opened_under_fields(2) [OF assms(1)] show
    "\<exists>v. edge_close_value e (timeout_close_cost (length outs) (is_work_bond terms)) = Some v
      \<and> payout_total outs = Some v" "list_all (\<lambda>p. parties_is_destination (edge_parties e) p False) outs"
    by simp_all
qed

text \<open>An edge opened under terms with a timeout can be timed out by anyone at its height.\<close>

lemma timeout_accepted:
  assumes "opened_under e terms" "b_edge ops s i = Some e" "terms_timeout_outputs terms = Some outs"
    and "\<forall>x \<in> set (close_output_ids b3 i outs). b_coin ops s x = None"
    and "edge_timeout e \<le> ctx_block_height context"
    and "is_work_bond terms \<Longrightarrow> \<exists>l. read_bond_lease ops s b3 (ctx_network context) i = Ok l"
  shows "\<exists>c. apply_close b3 vf ops s context i (TimeoutProof terms None) outs = Ok c"
proof -
  have allows: "edge_allows e (proof_kind (TimeoutProof terms None))"
    using assms(1,3) by (auto simp: opened_under_allows terms_allows terms_timeout_outputs_def terms_profile_of_def
        split: terms_body.splits)
  from opened_timeout_payout(1) [OF assms(1,3)] obtain v where
    v: "edge_close_value e (close_cost (length outs) (TimeoutProof terms None)) = Some v" "payout_total outs = Some v"
    by (auto simp: close_cost_def)
  from assms(6) obtain lease where lease: "(if is_work_bond terms
      then map_err Proof_BondLeaseFault (read_bond_lease ops s b3 (ctx_network context) i) else Ok None) = Ok lease"
    by (cases "is_work_bond terms") auto
  let ?staged = "case lease of None \<Rightarrow> [] | Some _ \<Rightarrow> delete_mutations b3 (ctx_network context) i"
  have "\<not> list_ex (\<lambda>(expected, actual). expected \<noteq> actual) (zip outs outs)"
    by (auto simp: list_ex_iff in_set_zip)
  then have "check_proof b3 vf ops s context \<lparr>cs_input = i, cs_edge = e, cs_total = v, cs_outputs = outs\<rparr>
      (TimeoutProof terms None) = Ok ?staged"
    using assms(3,5) lease opened_under_fields(1) [OF assms(1)]
    by (simp add: check_proof_def check_timeout_def Let_def not_less)
  moreover have "push_mutations ?staged = Ok ?staged"
  proof (cases lease)
    case (Some l)
    then have "read_bond_lease ops s b3 (ctx_network context) i = Ok (Some l)"
      using lease by (auto simp: map_err_eq_Ok split: if_splits)
    then show ?thesis using Some leased_slots_distinct
      by (fastforce simp: delete_mutations_def bond_lease_slots_def mutation_delete_def push_mutations_two)
  qed simp
  ultimately show ?thesis using apply_close_accepts [OF assms(4,2) allows v] by blast
qed

text \<open>A contest within capacity can be settled by anyone once it was answered or its window closed.\<close>

lemma adjudicated_accepted:
  assumes "contest_ok e p" "b_edge ops s i = Some e" "edge_allows e Adjudicated"
    and "read_pending_close ops s b3 (ctx_network context) i = Ok (Some p)"
    and "pc_responded p \<or> pc_response_deadline p \<le> ctx_block_height context"
  shows "\<exists>st outs. work_payment_settlement (edge_values_of e) (pc_penalty_amount p) = Some st
    \<and> adjudicated_payouts st (edge_parties e) (pc_final_cumulative p) (pc_penalty_due p) (pc_owner_signed p) = Ok outs
    \<and> ((\<forall>x \<in> set (close_output_ids b3 i outs). b_coin ops s x = None) \<longrightarrow>
      (\<exists>c. apply_close b3 vf ops s context i
        (AdjudicatedProof (contest_commitment_of b3 p (ctx_network context) i (edge_terms e))) outs = Ok c))"
proof -
  from assms(1) obtain st where st: "work_payment_settlement (edge_values_of e) (pc_penalty_amount p) = Some st"
    "unat (pc_final_cumulative p) \<le> unat (st_capacity st)" unfolding contest_ok_def by blast
  note tot = settlement_Some [OF st(1)]
  from adjudicated_payouts_within_capacity [OF st] obtain provider client where
    outs: "adjudicated_payouts st (edge_parties e) (pc_final_cumulative p) (pc_penalty_due p) (pc_owner_signed p)
      = Ok [pk_payout (parties_taker (edge_parties e)) provider (snd (pc_owner_signed p)),
            pk_payout (parties_maker (edge_parties e)) client (fst (pc_owner_signed p))]" (is "_ = Ok ?outs")
    and sum: "unat provider + unat client = unat (st_adjudicated_total st)" by blast
  let ?p = "AdjudicatedProof (contest_commitment_of b3 p (ctx_network context) i (edge_terms e))"
  have provider: "checked_add (pc_final_cumulative p) (pending_penalty p) = Some provider"
    and split: "split_payouts (edge_parties e) (st_adjudicated_total st) provider (pc_owner_signed p) = Ok ?outs"
    using outs tot(5) by (auto simp: adjudicated_payouts_def pending_penalty_def Let_def and_then_eq_Ok ok_or_eq_Ok
        split_payouts_def pk_payout_def payout_delegated_def split: if_splits)
  have "edge_close_value e (close_cost (length ?outs) ?p) = Some (st_adjudicated_total st)"
    using tot(2) by (simp add: close_cost_def kind_close_cost_def edge_close_value_def)
  moreover have "payout_total ?outs = Some (st_adjudicated_total st)"
    using sum by (simp add: payout_total_def checked_sum_Some_iff pk_payout_def payout_delegated_def del: checked_sum.simps)
  moreover have "check_proof b3 vf ops s context
      \<lparr>cs_input = i, cs_edge = e, cs_total = st_adjudicated_total st, cs_outputs = ?outs\<rparr> ?p
      = Ok [mutation_delete (pending_payment_close_slot b3 (ctx_network context) i)]"
    using assms(4,5) provider split
    by (auto simp: check_proof_def check_adjudicated_def read_pending_def Let_def check_split_def one_staged_def not_less)
  ultimately show ?thesis using st(1) outs assms(2,3) apply_close_accepts [of b3 i ?outs ops s e ?p]
    by (intro exI [of _ st] exI [of _ ?outs]) fastforce
qed

section \<open>The invariant\<close>

lemma pending_at_read:
  "pending_at b3 network (ledger_of ops s) i = PendingPresent p \<longleftrightarrow> read_pending_close ops s b3 network i = Ok (Some p)"
  by (auto simp: pending_at_def read_pending_close_def ledger_of_def split: pending_slot.splits)

lemma pending_present_cong:
  "l_registry l (pending_payment_close_slot b3 network i) = l_registry l' (pending_payment_close_slot b3 network i)
    \<Longrightarrow> pending_at b3 network l i = pending_at b3 network l' i"
  by (simp add: pending_at_def)

lemma change_edges:
  "l_edges (change_spec (change_with_registry (change_open coins out) d) l) = (l_edges l)(fst out \<mapsto> snd out)"
  "l_edges (change_spec (change_with_registry (change_close inp coins) d) l) = (l_edges l)(fst inp := None)"
  "l_edges (change_spec (change_reshape coins coins') l) = l_edges l"
  "l_edges (change_spec (change_private d) l) = l_edges l"
  by (simp_all add: change_open_def change_close_def change_reshape_def change_private_def diff_spec_def)

text \<open>A chunk a lease writes is never mistaken for a contest.\<close>

lemma lease_chunk_not_pending:
  "rc_namespace c = NsBondLease \<Longrightarrow> parse_pending_close (Some c) i = PendingFaulty Pending_Shape"
  by (simp add: parse_pending_close_def pending_from_chunk_def)

lemma push_mutations_set: "push_mutations ms = Ok d \<Longrightarrow> d = ms"
proof -
  have "d = d0 @ ms" if "try_fold (\<lambda>d m. map_err RegistryDiffRejected (diff_push d m)) d0 ms = Ok d" for d0
    using that by (induction ms arbitrary: d0) (fastforce simp: and_then_eq_Ok map_err_eq_Ok diff_push_Ok_iff)+
  from this [of diff_empty] show "push_mutations ms = Ok d \<Longrightarrow> d = ms"
    by (simp add: push_mutations_def diff_empty_def)
qed

lemma open_bond_lease_chunks:
  assumes "open_bond_lease b3 ops s context out terms = Ok d" "m \<in> set d"
  shows "\<exists>c. rm_chunk m = Some c \<and> rc_namespace c = NsBondLease"
proof -
  have ms: "\<exists>c. rm_chunk m = Some c \<and> rc_namespace c = NsBondLease"
    if "create_mutations b3 network l = Some ms" "m \<in> set ms" for network l ms
    using that
    by (auto simp: create_mutations_def Let_def lease_to_chunks_split mutation_write_def bind_eq_Some_conv
        chunk_split_wf(3))
  show ?thesis
  proof (cases "terms_profile_of terms")
    case (ProfileWorkPayment payment)
    with assms(1) obtain l ms where "create_mutations b3 (ctx_network context) l = Some ms" "push_mutations ms = Ok d"
      by (auto simp: open_bond_lease_def Let_def and_then_eq_Ok map_err_eq_Ok ok_or_eq_Ok split: if_splits)
    with ms push_mutations_set assms(2) show ?thesis by blast
  qed (use assms in \<open>auto simp: open_bond_lease_def diff_empty_def\<close>)
qed

text \<open>The staged registry writes of a close only delete, and a payment exit deletes its own contest.\<close>

lemma check_proof_staged:
  assumes "check_proof b3 vf ops s context close p = Ok staged"
  shows "\<forall>m \<in> set staged. rm_chunk m = None"
    and "\<lbrakk>proof_kind p = Freeze \<or> proof_kind p = Adjudicated;
      read_pending_close ops s b3 (ctx_network context) (cs_input close) = Ok (Some r)\<rbrakk>
      \<Longrightarrow> staged = [mutation_delete (pending_payment_close_slot b3 (ctx_network context) (cs_input close))]"
  using assms
  by (cases p; auto simp: check_proof_def check_mutual_def check_timeout_def check_freeze_def check_adjudicated_def
      Let_def and_then_eq_Ok one_staged_def delete_mutations_def mutation_delete_def read_pending_def map_err_eq_Ok
      ok_or_eq_Ok split: if_splits option.splits)+

lemma ledger_ok_edges:
  assumes "ledger_ok b3 network T l" "l_edges l i = Some e"
  obtains terms where "wf_terms b3 terms" "terms_body_of terms \<in> T" "opened_under e terms"
  using assms unfolding ledger_ok_def by blast

lemma ledger_ok_pending:
  assumes "ledger_ok b3 network T l" "pending_at b3 network l i = PendingPresent p"
  obtains e where "l_edges l i = Some e" "edge_allows e Adjudicated" "contest_ok e p"
  using assms unfolding ledger_ok_def by blast

text \<open>On a collision-free set of bodies, the terms an edge stores determine the terms themselves.\<close>

lemma known_terms_unique:
  assumes "inj_on (compute_hash b3) T" "wf_terms b3 t" "wf_terms b3 u"
    "terms_body_of t \<in> T" "terms_body_of u \<in> T" "terms_hash_of t = terms_hash_of u"
  shows "t = u"
  using assms inj_onD [of "compute_hash b3" T "terms_body_of t" "terms_body_of u"]
  by (simp add: wf_terms_def)

lemma ledger_of_simps [simp]:
  "l_coins (ledger_of ops s) = b_coin ops s" "l_edges (ledger_of ops s) = b_edge ops s"
  "l_registry (ledger_of ops s) = b_registry_chunk ops s"
  by (simp_all add: ledger_of_def)

lemma ledger_ok_open:
  assumes ok: "ledger_ok b3 network T (ledger_of ops s)" and known: "tx_known b3 T (TxOpen f terms ma ta)"
    and a: "apply_open b3 vf ops s context f terms ma ta = Ok c"
  shows "ledger_ok b3 network T (change_spec c (ledger_of ops s))"
proof -
  let ?out = "edge_id_from b3 f (terms_hash_of terms)"
  from a obtain coins debits d where
    c: "c = change_with_registry (change_open coins (?out, od_edge debits)) d" and new: "b_edge ops s ?out = None"
    and od: "compute_open_debits (ctx_block_height context) (ctx_fees context) (funding_len f)
      (checked_sum (\<lambda>(_, c). coin_value c) 0 coins) terms = Ok debits"
    and t: "check_timeout_payout debits terms = Ok ()"
    and w: "check_work_profile_open (od_edge debits) (funding_shape_of f) terms = Ok ()"
    and l: "open_bond_lease b3 ops s context ?out terms = Ok d"
    by (rule apply_open_Ok)
  have opened: "opened_under (od_edge debits) terms" unfolding opened_under_def using od t w by blast
  let ?l = "change_spec c (ledger_of ops s)"
  have edges: "l_edges ?l = (b_edge ops s)(?out \<mapsto> od_edge debits)" by (simp add: c change_edges)
  have coherent: "change_coherent c" using apply_open_balance [OF a] by blast
  have "\<exists>e. l_edges ?l i = Some e \<and> edge_allows e Adjudicated \<and> contest_ok e p"
    if p: "pending_at b3 network ?l i = PendingPresent p" for i p
  proof -
    let ?slot = "pending_payment_close_slot b3 network i"
    have "?slot \<notin> rm_id ` set (change_registry c)"
    proof
      assume "?slot \<in> rm_id ` set (change_registry c)"
      then obtain m where m: "m \<in> set (change_registry c)" "?slot = rm_id m" by blast
      then obtain ch where "rm_chunk m = Some ch" "rc_namespace ch = NsBondLease"
        using open_bond_lease_chunks [OF l] by (auto simp: c)
      then show False using p m change_spec_registry(1) [OF coherent m(1)]
        by (simp add: pending_at_def lease_chunk_not_pending)
    qed
    then have "pending_at b3 network (ledger_of ops s) i = PendingPresent p"
      using p change_spec_registry(2) [OF coherent] pending_present_cong by metis
    with ok obtain e where "b_edge ops s i = Some e" "edge_allows e Adjudicated" "contest_ok e p"
      by (auto elim: ledger_ok_pending)
    then show ?thesis using new by (auto simp: edges)
  qed
  moreover have "\<exists>terms. wf_terms b3 terms \<and> terms_body_of terms \<in> T \<and> opened_under e terms"
    if "l_edges ?l i = Some e" for i e
    using that ok opened known by (auto simp: edges tx_known_def ledger_ok_def split: if_splits)
  ultimately show ?thesis unfolding ledger_ok_def by blast
qed

lemma ledger_ok_close:
  assumes ok: "ledger_ok b3 network T (ledger_of ops s)" and net: "ctx_network context = network"
    and a: "apply_close b3 vf ops s context inp p outs = Ok c"
  shows "ledger_ok b3 network T (change_spec c (ledger_of ops s))"
proof -
  from a obtain e funded staged d where
    c: "c = change_with_registry (change_close (inp, e) (close_coins b3 inp outs)) d"
    and e: "b_edge ops s inp = Some e" and k: "edge_allows e (proof_kind p)"
    and st: "check_proof b3 vf ops s context \<lparr>cs_input = inp, cs_edge = e, cs_total = funded, cs_outputs = outs\<rparr> p = Ok staged"
    and d: "push_mutations staged = Ok d"
    by (rule apply_close_Ok)
  let ?l = "change_spec c (ledger_of ops s)"
  have edges: "l_edges ?l = (b_edge ops s)(inp := None)" by (simp add: c change_edges)
  have coherent: "change_coherent c" using apply_close_balance [OF a] by blast
  have dels: "\<forall>m \<in> set (change_registry c). rm_chunk m = None" and reg: "change_registry c = staged"
    using check_proof_staged(1) [OF st] push_mutations_set [OF d] by (auto simp: c)
  have "\<exists>e. l_edges ?l i = Some e \<and> edge_allows e Adjudicated \<and> contest_ok e r"
    if r: "pending_at b3 network ?l i = PendingPresent r" for i r
  proof -
    let ?slot = "pending_payment_close_slot b3 network i"
    have keep: "?slot \<notin> rm_id ` set (change_registry c)"
      using r dels change_spec_registry(1) [OF coherent]
      by (auto simp: pending_at_def parse_pending_close_def)
    then have before: "pending_at b3 network (ledger_of ops s) i = PendingPresent r"
      using r change_spec_registry(2) [OF coherent] pending_present_cong by metis
    with ok obtain e' where e': "b_edge ops s i = Some e'" "edge_allows e' Adjudicated" "contest_ok e' r"
      by (auto elim: ledger_ok_pending)
    have "i \<noteq> inp"
    proof
      assume i: "i = inp"
      from ok e obtain terms where "opened_under e terms" by (auto elim: ledger_ok_edges)
      then have "proof_kind p = Freeze \<or> proof_kind p = Adjudicated"
        using k e' e i by (auto simp: opened_under_allows terms_allows split: terms_profile.splits)
      then have "staged = [mutation_delete ?slot]"
        using check_proof_staged(2) [OF st] before i by (simp add: pending_at_read net)
      then show False using keep reg by (simp add: mutation_delete_def)
    qed
    then show ?thesis using e' by (simp add: edges)
  qed
  then show ?thesis using ok by (auto simp: ledger_ok_def edges split: if_splits)
qed

lemma ledger_ok_record:
  assumes ok: "ledger_ok b3 network T (ledger_of ops s)"
    and chunk: "pending_to_chunk rec = Some chunk" and inp: "pc_payment_edge rec = inp"
    and e: "b_edge ops s inp = Some e" "edge_allows e Adjudicated" "contest_ok e rec"
  shows "ledger_ok b3 network T (change_spec
    (change_private [mutation_write (pending_payment_close_slot b3 network inp) chunk]) (ledger_of ops s))"
    (is "ledger_ok _ _ _ ?l")
proof -
  have slot: "l_registry ?l = (b_registry_chunk ops s)(pending_payment_close_slot b3 network inp \<mapsto> chunk)"
    by (simp add: change_private_def diff_spec_def mutation_write_def)
  have "\<exists>e. l_edges ?l i = Some e \<and> edge_allows e Adjudicated \<and> contest_ok e p"
    if p: "pending_at b3 network ?l i = PendingPresent p" for i p
  proof (cases "pending_payment_close_slot b3 network i = pending_payment_close_slot b3 network inp")
    case True
    then have "parse_pending_close (Some chunk) i = PendingPresent p"
      using p by (simp add: pending_at_def slot)
    then have "i = inp \<and> p = rec" using pending_to_chunk_parse [of rec] chunk inp by (cases "i = inp") auto
    then show ?thesis using e by (simp add: change_edges)
  next
    case False
    then have "pending_at b3 network (ledger_of ops s) i = PendingPresent p"
      using p by (simp add: pending_at_def slot)
    with ok show ?thesis by (auto simp: change_edges elim: ledger_ok_pending)
  qed
  then show ?thesis using ok by (simp add: ledger_ok_def change_edges)
qed

lemma ledger_ok_start:
  assumes ok: "ledger_ok b3 (ctx_network context) T (ledger_of ops s)" and inj: "inj_on (compute_hash b3) T"
    and known: "tx_known b3 T (TxMove (StartPaymentClose start))"
    and a: "apply_start b3 vf ops s context start = Ok c"
  shows "ledger_ok b3 (ctx_network context) T (change_spec c (ledger_of ops s))"
proof -
  from a obtain e payment rec chunk where
    e: "b_edge ops s (ps_payment_edge start) = Some e" and h: "terms_hash_of (ps_terms start) = edge_terms e"
    and prof: "terms_profile_of (ps_terms start) = ProfileWorkPayment payment"
    and rec: "from_accepted_start b3 (ctx_network context) (ctx_block_height context) start = Some rec"
    and cert: "check_start_certificate e (wp_omission_bond payment) (ps_payment_edge start) start = Ok ()"
    and chunk: "pending_to_chunk rec = Some chunk"
    and c: "c = change_private [mutation_write (pending_payment_close_slot b3 (ctx_network context) (ps_payment_edge start)) chunk]"
    by (rule apply_start_Ok)
  from ok e obtain terms where t: "wf_terms b3 terms" "terms_body_of terms \<in> T" "opened_under e terms"
    by (auto elim: ledger_ok_edges)
  have "terms = ps_terms start"
    using known_terms_unique [OF inj t(1) _ t(2)] known h opened_under_fields(1) [OF t(3)]
    by (simp add: tx_known_def)
  then have opened: "opened_under e (ps_terms start)" using t(3) by simp
  then have allows: "edge_allows e Adjudicated" by (simp add: opened_under_allows terms_allows prof)
  from opened_payment_capacity [OF opened prof] obtain st where
    st: "work_payment_settlement (edge_values_of e) (wp_omission_bond payment) = Some st" by blast
  have claim: "unat (start_claim start) \<le> unat (st_capacity st)"
    using cert st by (auto simp: check_start_certificate_def start_claim_def and_then_eq_Ok check_capacity_Ok
        split: option.splits if_splits)
  from rec prof obtain deadline where r: "rec = pending_opened (ps_payment_edge start) (ps_opener_role start)
      (start_id_of b3 (close_start_digest b3 start (ctx_network context)) (ctx_block_height context)) deadline
      (start_claim start, wp_omission_bond payment) (is_owner (ps_action start))"
    by (auto simp: from_accepted_start_def bind_eq_Some_conv)
  have "contest_ok e rec" "pc_payment_edge rec = ps_payment_edge start"
    using st claim by (simp_all add: contest_ok_def r pending_opened_def)
  with ledger_ok_record [OF ok chunk _ e allows] show ?thesis by (simp add: c)
qed

lemma contest_ok_response:
  assumes "contest_ok e rec" "\<not> pc_responded rec" "pc_final_cumulative rec < amount"
    "check_capacity e (pc_penalty_amount rec) amount = Ok ()"
  shows "contest_ok e (responded_at rec amount owner_signed)"
proof -
  have "pc_start_cumulative rec < amount" using assms(1,3) unfolding contest_ok_def by (meson le_less_trans)
  then show ?thesis using assms by (auto simp: contest_ok_def responded_at_def check_capacity_Ok)
qed

lemma ledger_ok_response:
  assumes ok: "ledger_ok b3 (ctx_network context) T (ledger_of ops s)"
    and a: "apply_response b3 vf ops s context response = Ok c"
  shows "ledger_ok b3 (ctx_network context) T (change_spec c (ledger_of ops s))"
proof -
  from a obtain p chunk where p: "check_response b3 vf ops s context response = Ok p"
    and chunk: "pending_to_chunk p = Some chunk"
    and c: "c = change_private [mutation_write (pending_payment_close_slot b3 (ctx_network context) (pr_payment_edge response)) chunk]"
    by (rule apply_response_Ok)
  from p obtain e rec where e: "b_edge ops s (pr_payment_edge response) = Some e" "edge_allows e Adjudicated"
    and rec: "read_pending ops s b3 context (pr_payment_edge response) = Ok (Some rec)"
    and more: "\<not> pc_responded rec" "pc_final_cumulative rec < ec_earned_cumulative (pr_certificate response)"
      "check_capacity e (pc_penalty_amount rec) (ec_earned_cumulative (pr_certificate response)) = Ok ()"
    and pe: "p = with_accepted_response rec response"
    by (rule check_response_Ok)
  from rec have read: "read_pending_close ops s b3 (ctx_network context) (pr_payment_edge response) = Ok (Some rec)"
    by (simp add: read_pending_def map_err_eq_Ok)
  then have "contest_ok e rec" using ok e by (auto simp: pending_at_read [symmetric] elim: ledger_ok_pending)
  then have "contest_ok e p" using more by (simp add: pe with_accepted_response_def contest_ok_response)
  moreover have "pc_payment_edge p = pr_payment_edge response"
    using read_pending_close_Some [OF read] by (simp add: pe with_accepted_response_def responded_at_def)
  ultimately show ?thesis using ledger_ok_record [OF ok chunk _ e] by (simp add: c)
qed

lemma ledger_ok_apply:
  assumes ok: "ledger_ok b3 (ctx_network context) T (ledger_of ops s)" and inj: "inj_on (compute_hash b3) T"
    and known: "tx_known b3 T t" and a: "tx_apply b3 vf ops s context t = Ok c"
  shows "ledger_ok b3 (ctx_network context) T (change_spec c (ledger_of ops s))"
proof (cases t)
  case (TxOpen f terms ma ta)
  then show ?thesis using ledger_ok_open [OF ok] known a by simp
next
  case (TxClose inp p outs)
  then show ?thesis using ledger_ok_close [OF ok refl] a by simp
next
  case (TxMove m)
  then show ?thesis using ledger_ok_start [OF ok inj] ledger_ok_response [OF ok] known a
    by (cases m) simp_all
next
  case (TxOwner r)
  then obtain coins issued where "c = change_reshape coins issued"
    using a by (auto elim: apply_reshape_Ok)
  then have "l_edges (change_spec c (ledger_of ops s)) = b_edge ops s"
    "l_registry (change_spec c (ledger_of ops s)) = b_registry_chunk ops s"
    by (simp_all add: change_reshape_def diff_spec_def diff_empty_def)
  then show ?thesis using ok by (simp add: ledger_ok_def pending_at_def)
qed

end
