(* ===== verification/Kernel_Examples.thy ===== *)
theory Kernel_Examples
  imports Working_Set Kernel_Ledger
begin

text \<open>Concrete inputs on which the properties are evaluated: a hash that is cheap to compute, a verifier that
  accepts every signature, and three small ledgers - an owner's coin, a basic edge, and a payment edge with
  a contest. Nothing here models code.\<close>

section \<open>A computable hash\<close>

text \<open>Under the zero key the identity on 32 bytes, otherwise \<open>g\<close> of the message: a commitment is \<open>g\<close> of its
  preimage. \<open>last_byte\<close> is the simplest choice.\<close>

definition hash_by :: "(bytes \<Rightarrow> bytes32) \<Rightarrow> blake3" where
  "hash_by g = (\<lambda>k m. if k = ZERO_KEY then from_be_bytes m else g m)"

definition last_byte :: "bytes \<Rightarrow> bytes32" where
  "last_byte m = ucast (last m)"

definition ex_b3 :: blake3 where "ex_b3 = hash_by last_byte"

definition ex_vf :: verifier where "ex_vf = (\<lambda>_ _ _. True)"

lemma nat_of_be_append: "nat_of_be (xs @ [b]) = 256 * nat_of_be xs + unat b"
  by (induction xs rule: rev_induct) (simp_all add: nat_of_be_def)

lemma DATA_KEY_nonzero: "DATA_KEY \<noteq> ZERO_KEY"
  by (simp add: DATA_KEY_def ZERO_KEY_def from_be_bytes_def nat_of_be_def)

lemma hash_by_commit: "p \<noteq> [] \<Longrightarrow> xet_commit (hash_by g) p = g p"
  by (simp add: xet_commit_def sch_finalize_def hash_by_def DATA_KEY_nonzero from_be_bytes_to_be)

lemma last_to_be_bytes:
  fixes w :: "'a::len word"
  assumes "8 \<le> LENGTH('a)"
  shows "to_be_bytes w \<noteq> []" "last (to_be_bytes w) = ucast w"
proof -
  from assms obtain n where n: "LENGTH('a) div 8 = Suc n"
    by (metis One_nat_def Suc_le_D div_le_mono div_self zero_neq_numeral)
  have "of_nat (unat w mod 256) = (of_nat (unat w) :: byte)"
    by (rule word_unat_eq_iff [THEN iffD2]) (simp add: unsigned_ucast_eq take_bit_eq_mod unat_of_nat)
  then show "to_be_bytes w \<noteq> []" "last (to_be_bytes w) = ucast w"
    by (simp_all add: to_be_bytes_def n unsigned_ucast_eq)
qed

lemmas ex_encodings = encode_key_def encode_usize_def encode_u64_def encode_word_def encode_coin_id_def
  encode_edge_id_def encode_bytes32_def encode_u8_def encode_list_def last_to_be_bytes

lemma ex_commit: "p \<noteq> [] \<Longrightarrow> xet_commit ex_b3 p = last_byte p"
  by (simp add: ex_b3_def hash_by_commit)

lemma ex_reshape_id: "coin_id_reshape ex_b3 network inputs index owner = ucast (ucast owner :: byte)"
  by (simp add: coin_id_reshape_def coin_id_reshape_preimage_def ex_commit ex_encodings last_byte_def)

lemma ex_payout_id: "payout_id ex_b3 p edge index = ucast (ucast (payout_owner p) :: byte)"
  by (simp add: payout_id_def coin_id_payout_def coin_id_payout_preimage_def ex_commit ex_encodings last_byte_def)

lemma ex_edge_id: "funding_taker f = [] \<Longrightarrow> edge_id_from ex_b3 f h = 0"
  by (simp add: edge_id_from_def edge_id_preimage_def ex_commit ex_encodings last_byte_def u64_of_usize_def)

lemma ex_slot: "registry_chunk_id_derive ex_b3 network ns key index = ucast index"
  by (simp add: registry_chunk_id_derive_def registry_chunk_id_preimage_def ex_commit ex_encodings last_byte_def)

section \<open>An owner's coin\<close>

definition ex_ctx :: ctx where "ex_ctx = context_with_fees (ascii ''net'') 5 0 (fees_new 1 1 1 0)"

definition ex_owner :: party_auth where "ex_owner = \<lparr>pa_authority = Owner, pa_auth = Native 0\<rparr>"

definition ex_wallet :: block_working_set where
  "ex_wallet = \<lparr>bws_coins = [7 \<mapsto> Some (coin_issue 1 None 100), 1 \<mapsto> None, 2 \<mapsto> None],
    bws_edges = [0 \<mapsto> None], bws_registry = Map.empty\<rparr>"

definition ex_reshape :: tx where
  "ex_reshape = TxOwner \<lparr>rs_inputs = [7], rs_outputs = [payout_new 2 40, payout_new 1 60], rs_auth = Native 0\<rparr>"

definition ex_spent :: block_working_set where
  "ex_spent = \<lparr>bws_coins = [7 \<mapsto> None, 1 \<mapsto> Some (coin_issue 1 None 60), 2 \<mapsto> Some (coin_issue 2 None 40)],
    bws_edges = [0 \<mapsto> None], bws_registry = Map.empty\<rparr>"

lemmas ex_ledger_defs = ex_ctx_def ex_wallet_def ex_spent_def ex_owner_def context_with_fees_def fees_new_def coin_issue_def
  payout_new_def payout_delegated_def payout_coin_def slot_get_def slot_insert_def slot_remove_def wb_op_defs

lemmas ex_fold_defs = remove_coins_def insert_coins_def remove_coin_def insert_coin_def remove_edge_def insert_edge_def
  diff_fold_def diff_empty_def mutation_fold_def

lemma ex_reshape_apply:
  "tx_apply ex_b3 ex_vf wb_ops (bws_begin ex_wallet) ex_ctx ex_reshape =
    Ok (change_reshape [(7, coin_issue 1 None 100)] [(2, coin_issue 2 None 40), (1, coin_issue 1 None 60)])"
  by (simp add: ex_reshape_def apply_reshape_def load_coins_def ex_ledger_defs bws_begin_def
      check_reshape_outputs_def reshape_coins_def ex_reshape_id Let_def checked_add_def ex_vf_def)

lemma ex_reshape_state:
  "state_apply ex_b3 ex_vf bws_store ex_wallet ex_ctx ex_reshape
    = (Ok (change_outcome (change_reshape [(7, coin_issue 1 None 100)] [(2, coin_issue 2 None 40), (1, coin_issue 1 None 60)])),
       ex_spent)"
  by (simp add: state_apply_def fold_one_def ex_reshape_apply fold_change_def change_reshape_def)
    (simp add: ex_ledger_defs ex_fold_defs bws_begin_def wb_commit_def fun_eq_iff)

section \<open>A basic edge\<close>

definition ex_parties :: parties where "ex_parties = parties_new (party_keys_sole 1) (party_keys_sole 2)"

definition ex_body :: terms_body where "ex_body = Basic 0 ex_parties 10 [payout_new 1 91]"

definition ex_terms :: kterms where "ex_terms = terms_commit ex_b3 ex_body"

definition ex_open :: tx where
  "ex_open = TxOpen \<lparr>funding_maker = [7], funding_taker = []\<rparr> ex_terms ex_owner ex_owner"

definition ex_edge :: edge where
  "ex_edge = edge_new 87 8 (fees_new 1 1 1 0) 10 ex_parties 91 CKS_BASIC"

definition ex_opened :: block_working_set where
  "ex_opened = \<lparr>bws_coins = [7 \<mapsto> None, 1 \<mapsto> None, 2 \<mapsto> None],
    bws_edges = [0 \<mapsto> Some ex_edge], bws_registry = Map.empty\<rparr>"

definition ex_late :: ctx where "ex_late = ex_ctx\<lparr>ctx_block_height := 10\<rparr>"

definition ex_timeout :: tx where "ex_timeout = TxClose 0 (TimeoutProof ex_terms None) [payout_new 1 91]"

definition ex_closed :: block_working_set where
  "ex_closed = \<lparr>bws_coins = [7 \<mapsto> None, 1 \<mapsto> Some (coin_issue 1 None 91), 2 \<mapsto> None],
    bws_edges = [0 \<mapsto> None], bws_registry = Map.empty\<rparr>"

lemmas ex_edge_defs = ex_parties_def parties_new_def party_keys_sole_def party_keys_new_def ex_edge_def edge_new_def

lemma ex_terms_hash: "terms_hash_of ex_terms = 91"
  by (simp add: ex_terms_def terms_commit_def compute_hash_def commit_hash_def ex_body_def encode_terms_body_def
      encode_payouts_def encode_list_def encode_payout_def encode_u64_def encode_word_def ex_commit last_byte_def
      payout_new_def payout_delegated_def last_to_be_bytes)

lemma ex_terms_fields [simp]:
  "terms_hash_of ex_terms = 91" "terms_body_of ex_terms = ex_body" "terms_profile_of ex_terms = ProfileBasic"
  "terms_parties ex_terms = ex_parties" "terms_timeout ex_terms = 10" "is_work_bond ex_terms = False"
  "terms_timeout_outputs ex_terms = Some [payout_new 1 91]" "terms_allowed_closes ex_terms = CKS_BASIC"
  by (rule ex_terms_hash) (simp_all add: ex_terms_def terms_commit_def ex_body_def terms_profile_of_def terms_parties_def
      terms_timeout_def is_work_bond_def terms_timeout_outputs_def terms_allowed_closes_def)

lemma ex_debits:
  "compute_open_debits 5 (fees_new 1 1 1 0) 1 (Some 100) ex_terms =
    Ok \<lparr>od_open_fee = 5, od_lifetime_fee = 0, od_edge = ex_edge, od_timeout_payout = Some 91\<rparr>"
  by (simp add: compute_open_debits_def open_cost_def open_reserve_cost_def kind_close_cost_def cost_new_def
      OPEN_WITNESSES_def fees_new_def fees_charge_def open_lifetime_fee_def timeout_payout_def timeout_close_cost_def
      edge_open_def ev_close_value_def edge_values_of_def checked_add_def checked_sub_def checked_mul_def
      saturating_add_def u64_of_usize_def
      bound_defs Let_def ex_edge_def edge_new_def)

lemma ex_open_state:
  "state_apply ex_b3 ex_vf bws_store ex_wallet ex_ctx ex_open
    = (Ok (change_outcome (change_open [(7, coin_issue 1 None 100)] (0, ex_edge))), ex_opened)"
proof -
  let ?coins = "[(7, coin_issue 1 None 100)]"
  have "check_timeout_payout \<lparr>od_open_fee = 5, od_lifetime_fee = 0, od_edge = ex_edge, od_timeout_payout = Some 91\<rparr>
      ex_terms = Ok ()"
    by (simp add: check_timeout_payout_def payout_total_def checked_add_def parties_is_destination_def
        pk_is_destination_def pk_payout_def payout_new_def payout_delegated_def ex_edge_defs)
  moreover have "check_open_authority ex_terms (?coins, 1) ex_owner ex_owner = Ok ()"
    by (simp add: check_open_authority_def check_party_authority_def is_owner_def ex_owner_def Let_def)
  moreover have "check_funding_ownership 0 ?coins 1 ex_parties = Ok ()"
    by (simp add: check_funding_ownership_def Let_def ex_edge_defs coin_issue_def)
  ultimately have "tx_apply ex_b3 ex_vf wb_ops (bws_begin ex_wallet) ex_ctx ex_open
      = Ok (change_open ?coins (0, ex_edge))"
    using ex_debits
    by (simp add: ex_open_def apply_open_def Let_def ex_edge_id funding_iter_def funding_len_def open_coins_def
        load_coins_def bws_begin_def slot_get_def ex_wallet_def ex_ctx_def context_with_fees_def checked_add_def
        coin_issue_def check_work_profile_open_def open_bond_lease_def check_open_auth_def verify_party_def ex_vf_def
        change_open_def)
  then show ?thesis
    by (simp add: state_apply_def fold_one_def fold_change_def change_open_def)
      (simp add: ex_ledger_defs ex_fold_defs bws_begin_def wb_commit_def ex_opened_def fun_eq_iff)
qed

lemma ex_timeout_state:
  "state_apply ex_b3 ex_vf bws_store ex_opened ex_late ex_timeout
    = (Ok (change_outcome (change_close (0, ex_edge) [(1, coin_issue 1 None 91)])), ex_closed)"
proof -
  have "tx_apply ex_b3 ex_vf wb_ops (bws_begin ex_opened) ex_late ex_timeout
      = Ok (change_close (0, ex_edge) [(1, coin_issue 1 None 91)])"
    by (simp add: ex_timeout_def apply_close_def check_close_outputs_def ex_payout_id Let_def payout_new_def
        payout_delegated_def bws_begin_def slot_get_def ex_opened_def ex_edge_def edge_new_def close_coins_def close_coin_def
        edge_allows_def cks_table edge_closes_def edge_total_def edge_close_value_def ev_close_value_def edge_values_of_def
        close_cost_def timeout_close_cost_def cost_new_def fees_new_def fees_charge_def checked_add_def checked_sub_def
        checked_mul_def saturating_add_def u64_of_usize_def check_proof_def check_timeout_def ex_late_def ex_ctx_def
        context_with_fees_def payout_coin_def coin_issue_def change_close_def diff_empty_def)
  then show ?thesis
    by (simp add: state_apply_def fold_one_def fold_change_def change_close_def)
      (simp add: ex_ledger_defs ex_fold_defs bws_begin_def wb_commit_def ex_opened_def ex_closed_def fun_eq_iff)
qed

lemma state_apply_fold:
  "state_apply b3 vf bws_store w context t = (Ok outcome, w') \<Longrightarrow>
    fold_one b3 vf wb_ops (bws_begin w) context t = Ok (outcome, bws_begin w')"
  by (auto simp: state_apply_def split: result.splits)

lemmas ex_folds = ex_reshape_state [THEN state_apply_fold] ex_open_state [THEN state_apply_fold]
  ex_timeout_state [THEN state_apply_fold]

lemma ex_open_again: "fold_one ex_b3 ex_vf wb_ops (bws_begin ex_opened) ex_ctx ex_open = Err (EdgeExists 0)"
  by (simp add: fold_one_def ex_open_def apply_open_def Let_def ex_edge_id funding_iter_def bws_begin_def slot_get_def
      ex_opened_def)

section \<open>A payment edge with a contest\<close>

definition ex_bond :: work_stake_bond_terms where
  "ex_bond = \<lparr>wsb_parties = parties_new (party_keys_sole 2) (party_keys_sole 1), wsb_timeout = 500,
    wsb_timeout_outputs = [payout_new 2 50], wsb_max_job_price = 5\<rparr>"

definition ex_payment :: work_payment_terms where
  "ex_payment = \<lparr>wp_bond_edge = 9, wp_bond_terms = ex_bond, wp_private_policy_commitment = 0,
    wp_omit_response_blocks = 20, wp_start_validity_blocks = 10, wp_omission_bond = 3\<rparr>"

definition ex_payment_terms :: kterms where "ex_payment_terms = terms_work_payment ex_b3 ex_payment"

definition ex_payment_edge :: edge where
  "ex_payment_edge = edge_new 85 7 (fees_new 1 1 1 0) 500 ex_parties 3 CKS_WORK_PAYMENT"

definition ex_pending :: pending_close where
  "ex_pending = pending_opened 4 Maker 0 30 (10, 3) False"

definition ex_contest :: block_working_set where
  "ex_contest = \<lparr>bws_coins = [1 \<mapsto> None, 2 \<mapsto> None], bws_edges = [4 \<mapsto> Some ex_payment_edge],
    bws_registry = [0 \<mapsto> pending_to_chunk ex_pending]\<rparr>"

definition ex_quiet :: block_working_set where
  "ex_quiet = ex_contest\<lparr>bws_registry := [0 \<mapsto> None]\<rparr>"

definition ex_certificate :: earned_certificate where
  "ex_certificate = \<lparr>ec_payment_edge = 4, ec_payment_terms_hash = 3, ec_earned_cumulative = 20\<rparr>"

definition ex_response :: payment_close_response where
  "ex_response = \<lparr>pr_payment_edge = 4, pr_start_id = 0, pr_responder_role = Taker, pr_certificate = ex_certificate,
    pr_certificate_auth = ex_owner, pr_action = ex_owner\<rparr>"

definition ex_expired :: ctx where "ex_expired = ex_ctx\<lparr>ctx_block_height := 30\<rparr>"

lemma ex_pending_slot: "pending_payment_close_slot ex_b3 network e = 0"
  by (simp add: pending_payment_close_slot_def ex_slot)

lemma ex_contest_read:
  "read_pending_close wb_ops (bws_begin ex_contest) ex_b3 network 4 = Ok (Some ex_pending)"
proof -
  have "pc_payment_edge ex_pending = 4" by (simp add: ex_pending_def pending_opened_def)
  then show ?thesis using pending_to_chunk_parse [of ex_pending]
    by (auto simp: read_pending_close_def ex_pending_slot bws_begin_def slot_get_def ex_contest_def)
qed

lemma ex_payment_fields [simp]:
  "terms_profile_of ex_payment_terms = ProfileWorkPayment ex_payment" "terms_body_of ex_payment_terms = WorkPayment ex_payment"
  "terms_parties ex_payment_terms = ex_parties" "terms_timeout ex_payment_terms = 500"
  "terms_allowed_closes ex_payment_terms = CKS_WORK_PAYMENT" "terms_hash_of ex_payment_terms = 3"
  by (simp_all add: ex_payment_terms_def terms_work_payment_def terms_commit_def terms_profile_of_def terms_parties_def
      wp_parties_def ex_payment_def ex_bond_def ex_parties_def parties_new_def terms_timeout_def wp_admission_horizon_def
      terms_allowed_closes_def compute_hash_def commit_hash_def encode_terms_body_def encode_work_payment_terms_def
      encode_u64_def encode_word_def ex_commit last_byte_def last_to_be_bytes)

lemma ex_settlement:
  "work_payment_settlement (edge_values_of ex_payment_edge) 3 = Some \<lparr>st_freeze_total = 85,
    st_adjudicated_total = 86, st_capacity = 82, st_omission_bond = 3\<rparr>"
  by (simp add: work_payment_settlement_def route_minimum_def ev_close_value_def edge_values_of_def ex_payment_edge_def
      edge_new_def fees_new_def fees_charge_def work_payment_close_cost_def WORK_PAYMENT_CLOSE_SLOTS_def cost_new_def
      checked_add_def checked_sub_def checked_mul_def)

lemma ex_contest_ok: "contest_ok ex_payment_edge ex_pending"
  using ex_settlement by (simp add: contest_ok_def ex_pending_def pending_opened_def)

lemma ex_contest_live [simp]:
  "bws_edge ex_contest 4 = Some ex_payment_edge" "bws_coin ex_contest x = None" "bws_inv ex_contest"
  "edge_allows ex_payment_edge Adjudicated"
  by (simp_all add: bws_edge_def bws_coin_def bws_inv_def ex_contest_def edge_allows_def ex_payment_edge_def
      edge_new_def cks_table)

definition ex_payment_debits :: open_debits where
  "ex_payment_debits = \<lparr>od_open_fee = 8, od_lifetime_fee = 0, od_edge = ex_payment_edge, od_timeout_payout = None\<rparr>"

lemma ex_payment_checks:
  "compute_open_debits 5 (fees_new 1 1 1 0) 1 (Some 100) ex_payment_terms = Ok ex_payment_debits"
  "check_timeout_payout ex_payment_debits ex_payment_terms = Ok ()"
  "check_work_profile_open ex_payment_edge \<lparr>fs_maker = True, fs_taker = False\<rparr> ex_payment_terms = Ok ()"
proof -
  have "terms_timeout_outputs ex_payment_terms = None" "is_work_bond ex_payment_terms = False"
    by (simp_all add: terms_timeout_outputs_def is_work_bond_def)
  then show "compute_open_debits 5 (fees_new 1 1 1 0) 1 (Some 100) ex_payment_terms = Ok ex_payment_debits"
    by (simp add: compute_open_debits_def open_cost_def open_reserve_cost_def work_payment_reserve_cost_def
        work_payment_close_cost_def WORK_PAYMENT_CLOSE_SLOTS_def cost_new_def OPEN_WITNESSES_def fees_new_def fees_charge_def
        open_lifetime_fee_def timeout_payout_def edge_open_def checked_add_def checked_sub_def checked_mul_def
        saturating_add_def u64_of_usize_def Let_def ex_payment_edge_def edge_new_def ex_payment_debits_def)
  show "check_timeout_payout ex_payment_debits ex_payment_terms = Ok ()"
    by (simp add: check_timeout_payout_def ex_payment_debits_def)
  show "check_work_profile_open ex_payment_edge \<lparr>fs_maker = True, fs_taker = False\<rparr> ex_payment_terms = Ok ()"
    by (simp add: check_work_profile_open_def check_work_payment_terms_def check_work_bond_policy_def paid_solely_to_def
        pk_is_destination_def pk_payout_def ex_payment_def ex_bond_def parties_new_def party_keys_sole_def
        party_keys_new_def payout_new_def payout_delegated_def MIN_OMIT_RESPONSE_BLOCKS_def MAX_OMIT_RESPONSE_BLOCKS_def
        RESPONSE_FINALIZATION_BLOCKS_def RESPONSE_POLL_BLOCKS_def RESPONSE_PROPAGATION_BLOCKS_def
        RESPONSE_INCLUSION_BLOCKS_def MAX_START_VALIDITY_BLOCKS_def check_payment_capacity_def close_route_minimum_def
        route_minimum_def ev_close_value_def edge_values_of_def ex_payment_edge_def edge_new_def fees_new_def
        fees_charge_def work_payment_close_cost_def WORK_PAYMENT_CLOSE_SLOTS_def cost_new_def checked_add_def
        checked_sub_def checked_mul_def)
qed

lemma ex_opened_under: "opened_under ex_payment_edge ex_payment_terms"
  unfolding opened_under_def using ex_payment_checks by (fastforce simp: ex_payment_debits_def)

section \<open>Opening it against its bond\<close>

definition ex_bond_edge :: edge where
  "ex_bond_edge = edge_new 50 9 (fees_new 1 1 1 0) 500 (wsb_parties ex_bond) 5 CKS_WORK_STAKE_BOND"

definition ex_bonded :: block_working_set where
  "ex_bonded = \<lparr>bws_coins = [7 \<mapsto> Some (coin_issue 1 None 100)],
    bws_edges = [0 \<mapsto> None, 9 \<mapsto> Some ex_bond_edge], bws_registry = [0 \<mapsto> None, 1 \<mapsto> None]\<rparr>"

definition ex_payment_open :: tx where
  "ex_payment_open = TxOpen \<lparr>funding_maker = [7], funding_taker = []\<rparr> ex_payment_terms ex_owner ex_owner"

lemma ex_lease_slot: "bond_lease_slot ex_b3 network e i = ucast i"
  by (simp add: bond_lease_slot_def ex_slot)

lemma ex_bond_hash: "bond_terms_hash ex_b3 ex_payment = 5"
  by (simp add: bond_terms_hash_def work_stake_bond_terms_hash_def encode_work_stake_bond_witness_def
      encode_work_stake_bond_terms_def encode_u64_def encode_word_def ex_commit last_byte_def last_to_be_bytes
      ex_payment_def ex_bond_def)

lemma ex_payment_open_state:
  "\<exists>outcome w'. state_apply ex_b3 ex_vf bws_store ex_bonded ex_ctx ex_payment_open = (Ok outcome, w')"
proof -
  let ?coins = "[(7, coin_issue 1 None 100)]"
  let ?lease = "lease_opened 9 0 3 0 500"
  obtain c0 c1 where cm: "create_mutations ex_b3 (ctx_network ex_ctx) ?lease = Some [mutation_write 0 c0, mutation_write 1 c1]"
    using create_mutations_Some [of ex_b3 "ctx_network ex_ctx" ?lease] by (auto simp: ex_lease_slot)
  have "read_bond_lease wb_ops (bws_begin ex_bonded) ex_b3 (ctx_network ex_ctx) 9 = Ok None"
    by (simp add: read_bond_lease_None ex_lease_slot bws_registry_chunk_def ex_bonded_def)
  then have lease: "open_bond_lease ex_b3 wb_ops (bws_begin ex_bonded) ex_ctx 0 ex_payment_terms
      = Ok [mutation_write 0 c0, mutation_write 1 c1]"
    using cm push_mutations_two [of "mutation_write 0 c0" "mutation_write 1 c1"] ex_bond_hash
    by (simp add: open_bond_lease_def Let_def bws_edge_def ex_bonded_def ex_bond_edge_def edge_new_def
        wp_admission_horizon_def mutation_write_def) (simp add: ex_payment_def ex_bond_def)
  have "check_open_authority ex_payment_terms (?coins, 1) ex_owner ex_owner = Ok ()"
    by (simp add: check_open_authority_def check_party_authority_def is_owner_def ex_owner_def Let_def)
  moreover have "check_funding_ownership 0 ?coins 1 ex_parties = Ok ()"
    by (simp add: check_funding_ownership_def Let_def ex_edge_defs coin_issue_def)
  ultimately have "tx_apply ex_b3 ex_vf wb_ops (bws_begin ex_bonded) ex_ctx ex_payment_open
      = Ok (change_with_registry (change_open ?coins (0, ex_payment_edge)) [mutation_write 0 c0, mutation_write 1 c1])"
    using ex_payment_checks lease
    by (simp add: ex_payment_open_def apply_open_def Let_def ex_edge_id funding_iter_def funding_len_def open_coins_def
        load_coins_def bws_coin_def bws_edge_def ex_bonded_def ex_ctx_def context_with_fees_def checked_add_def
        coin_issue_def check_open_auth_def verify_party_def ex_vf_def ex_payment_debits_def funding_shape_of_def)
  then show ?thesis
    by (simp add: state_apply_def fold_one_def fold_change_def change_open_def)
      (simp add: ex_ledger_defs ex_fold_defs bws_begin_def ex_bonded_def mutation_write_def)
qed

end
