(* ===== verification/Ledger_Safety.thy ===== *)
theory Ledger_Safety
  imports Kernel_Examples
begin

text \<open>What an accepted operation may do to a ledger: it conserves value up to the fees it burns, it
  implements the abstract change it announces, it keeps the ledger invariant, and it cannot be replayed.
  Batches, blocks and the iterator form are the sequential run, all or nothing.\<close>

section \<open>Applying one operation to a working set\<close>

definition ws_ledger :: "block_working_set \<Rightarrow> ledger" where
  "ws_ledger w = ledger_of wb_ops (bws_begin w)"

lemma ws_ledger_simps [simp]:
  "l_coins (ws_ledger w) = bws_coin w" "l_edges (ws_ledger w) = bws_edge w"
  "l_registry (ws_ledger w) = bws_registry_chunk w"
  by (simp_all add: ws_ledger_def ledger_of_def del: wb_ops_simps)

lemma state_apply_Ok:
  assumes "state_apply b3 vf bws_store w context t = (Ok outcome, w')"
  obtains c where "tx_apply b3 vf wb_ops (bws_begin w) context t = Ok c"
    "change_fold wb_ops (bws_begin w) c = Ok (bws_begin w')" "outcome = change_outcome c"
proof -
  from assms obtain s where s: "fold_one b3 vf wb_ops (bws_begin w) context t = Ok (outcome, s)" "w' = wb_commit s"
    by (auto simp: state_apply_def split: result.splits)
  from s(1) obtain c where "tx_apply b3 vf wb_ops (bws_begin w) context t = Ok c"
    "change_fold wb_ops (bws_begin w) c = Ok s" "outcome = change_outcome c"
    by (rule fold_one_Ok)
  with s(2) that show thesis by simp
qed

lemma state_apply_Err:
  "tx_apply b3 vf wb_ops (bws_begin w) context t = Err e
    \<Longrightarrow> state_apply b3 vf bws_store w context t = (Err e, w)"
  by (simp add: state_apply_def fold_one_def)

lemma state_apply_spec:
  assumes "bws_inv w" "state_apply b3 vf bws_store w context t = (Ok outcome, w')"
  obtains c where "tx_apply b3 vf wb_ops (bws_begin w) context t = Ok c" "outcome = change_outcome c"
    "bws_inv w'" "ws_ledger w' = change_spec c (ws_ledger w)" "change_coherent c"
proof -
  from assms(2) obtain c where c: "tx_apply b3 vf wb_ops (bws_begin w) context t = Ok c"
    "change_fold wb_ops (bws_begin w) c = Ok (bws_begin w')" "outcome = change_outcome c"
    by (rule state_apply_Ok)
  note step = ws.change_step [OF _ c(2)]
  show thesis using that [OF c(1,3)] step assms(1) tx_apply_balance(1) [OF c(1)] by (simp add: ws_ledger_def)
qed

section \<open>Value\<close>

text \<open>C1. An accepted operation conserves value: the coins and edges of the working set it leaves, plus exactly
  the fee and rent the operation burns, are worth what they were before, as unbounded naturals; and the
  working set stays finite.\<close>

theorem state_apply_conserves:
  assumes "bws_inv w" and "state_apply b3 vf bws_store w context t = (Ok outcome, w')"
  shows "bws_inv w' \<and> bws_total w' + tx_burn context (bws_edge w) t = bws_total w"
proof -
  from assms(2) obtain s where s: "fold_one b3 vf wb_ops (bws_begin w) context t = Ok (outcome, s)" "w' = wb_commit s"
    by (auto simp: state_apply_def split: result.splits)
  note conserved = ws.fold_one_value [OF _ s(1)]
  have "bws_inv w' = wb_inv s" using s(2) ws_begin(7) [of w'] by simp
  then show ?thesis using conserved assms(1) s(2)
    by (simp add: bws_total_commit bws_total_begin del: wb_ops_simps)
qed

theorem state_apply_conserves_witness:
  "bws_inv ex_opened \<and> bws_total ex_opened + 5 = bws_total ex_wallet"
proof -
  have "bws_inv ex_wallet" by (simp add: bws_inv_def ex_wallet_def)
  moreover have "tx_burn ex_ctx (bws_edge ex_wallet) ex_open = 5"
    by (simp add: ex_open_def ex_ctx_def context_with_fees_def fees_new_def cost_price_def open_cost_def funding_len_def
        cost_new_def OPEN_WITNESSES_def saturating_add_def u64_of_usize_def Let_def)
  ultimately show ?thesis using state_apply_conserves [OF _ ex_open_state] by simp
qed

section \<open>The abstract change\<close>



section \<open>The ledger invariant\<close>

text \<open>C8. The ledger invariant is preserved by every accepted operation whose terms are known: every live
  edge was admitted by some open under the terms its hash names, and every contest record belongs to a
  live payment edge, stays within its capacity, has at most one strictly higher answer, and owes the
  penalty exactly when a client opened it and was answered.\<close>

theorem state_apply_ledger_ok:
  assumes "bws_inv w" and "ledger_ok b3 (ctx_network context) T (ws_ledger w)"
    and "inj_on (compute_hash b3) T" and "tx_known b3 T t"
    and "state_apply b3 vf bws_store w context t = (Ok outcome, w')"
  shows "ledger_ok b3 (ctx_network context) T (ws_ledger w')"
proof -
  from assms(1,5) obtain c where "tx_apply b3 vf wb_ops (bws_begin w) context t = Ok c"
    "ws_ledger w' = change_spec c (ws_ledger w)" by (rule state_apply_spec)
  then show ?thesis using ledger_ok_apply [OF _ assms(3,4)] assms(2) by (simp add: ws_ledger_def)
qed

theorem state_apply_ledger_ok_witness:
  "ledger_ok ex_b3 (ctx_network ex_ctx) {ex_body} (ws_ledger ex_opened)"
proof -
  have "ledger_ok ex_b3 (ctx_network ex_ctx) {ex_body} (ws_ledger ex_wallet)"
    by (simp add: ledger_ok_def bws_edge_def pending_at_def bws_registry_chunk_def ex_wallet_def
        parse_pending_close_def bind_eq_Some_conv)
  moreover have "tx_known ex_b3 {ex_body} ex_open"
    by (simp add: tx_known_def ex_open_def wf_terms_def ex_terms_def terms_commit_def del: ex_terms_fields)
      (simp add: ex_body_def wf_payouts_def bound_defs)
  moreover have "bws_inv ex_wallet" by (simp add: bws_inv_def ex_wallet_def)
  ultimately show ?thesis using state_apply_ledger_ok [OF _ _ _ _ ex_open_state, of "{ex_body}"] by simp
qed

section \<open>Declared slots\<close>

definition wb_slots :: "working_batch \<Rightarrow> coin_id set \<times> edge_id set \<times> registry_chunk_id set" where
  "wb_slots b = (dom (wb_coins b), dom (wb_edges b), dom (wb_registry b))"

lemma wb_slots_ops:
  "wb_insert_coin b i c = Ok b' \<Longrightarrow> wb_slots b' = wb_slots b"
  "wb_remove_coin b i = (rc, b') \<Longrightarrow> wb_slots b' = wb_slots b"
  "wb_insert_edge b j e = Ok b' \<Longrightarrow> wb_slots b' = wb_slots b"
  "wb_remove_edge b j = (re, b') \<Longrightarrow> wb_slots b' = wb_slots b"
  "wb_insert_registry_chunk b k ch = Ok b' \<Longrightarrow> wb_slots b' = wb_slots b"
  "wb_remove_registry_chunk b k = (rr, b') \<Longrightarrow> wb_slots b' = wb_slots b"
  unfolding wb_slots_def wb_op_defs
  by (clarsimp simp: and_then_eq_Ok split: prod.splits; drule slot_insert_Ok(3) slot_remove_result(3); simp)+

text \<open>The batch interface with the declared slots as part of the invariant.\<close>

interpretation ws_slots: batch wb_ops "\<lambda>b. wb_inv b \<and> wb_slots b = D" for D
proof (unfold_locales, goal_cases)
  case (1 s)
  then show ?case using ws.finite_live [of s] by simp
next
  case (2 s i c s')
  then show ?case using ws.insert_coin_Ok [of s i c s'] wb_slots_ops(1) [of s i c s'] by simp
next
  case (3 s i c z)
  then show ?case using ws.insert_coin_Err [of s i c z] by simp
next
  case (4 s i r s')
  then show ?case using ws.remove_coin_result [of s i r s'] wb_slots_ops(2) [of s i r s'] by simp
next
  case (5 s j e s')
  then show ?case using ws.insert_edge_Ok [of s j e s'] wb_slots_ops(3) [of s j e s'] by simp
next
  case (6 s j e x)
  then show ?case using ws.insert_edge_Err [of s j e x] by simp
next
  case (7 s j q s')
  then show ?case using ws.remove_edge_result [of s j q s'] wb_slots_ops(4) [of s j q s'] by simp
next
  case (8 s k rc s')
  then show ?case using ws.insert_registry_Ok [of s k rc s'] wb_slots_ops(5) [of s k rc s'] by simp
next
  case (9 s k rc y)
  then show ?case using ws.insert_registry_Err [of s k rc y] by simp
next
  case (10 s k u s')
  then show ?case using ws.remove_registry_result [of s k u s'] wb_slots_ops(6) [of s k u s'] by simp
qed

text \<open>The kernel never touches a slot the host did not declare: whatever the result, the declared slots
  after an operation are the declared slots before it, and a rejected operation changes nothing at all.\<close>

theorem state_apply_slots:
  assumes "bws_inv w" and "state_apply b3 vf bws_store w context t = (r, w')"
  shows "dom (bws_coins w') = dom (bws_coins w) \<and> dom (bws_edges w') = dom (bws_edges w)
    \<and> dom (bws_registry w') = dom (bws_registry w) \<and> ((\<exists>e. r = Err e) \<longrightarrow> w' = w)"
proof (cases r)
  case (Ok outcome)
  with assms(2) obtain c where c: "change_fold wb_ops (bws_begin w) c = Ok (bws_begin w')"
    by (auto elim: state_apply_Ok)
  from assms(1) have "wb_inv (bws_begin w)" by simp
  then show ?thesis using ws_slots.change_step [OF _ c, of "wb_slots (bws_begin w)"] Ok
    by (simp add: wb_slots_def bws_begin_def)
next
  case (Err e)
  with assms(2) show ?thesis by (auto simp: state_apply_def split: result.splits)
qed

theorem state_apply_slots_witness:
  "dom (bws_coins ex_opened) = {7, 1, 2} \<and> dom (bws_edges ex_opened) = {0}"
proof -
  have "bws_inv ex_wallet" by (simp add: bws_inv_def ex_wallet_def)
  from state_apply_slots [OF this ex_open_state] show ?thesis by (auto simp: ex_wallet_def)
qed

section \<open>Replay\<close>

lemma result_not_Ok: "(\<And>x. m \<noteq> Ok x) \<Longrightarrow> \<exists>e. m = Err e"
  by (cases m) auto

text \<open>A record the kernel just wrote is what the slot reads next.\<close>

lemma written_record_reads:
  assumes "pending_to_chunk rec = Some chunk" "pc_payment_edge rec = i"
    and "ledger_of ops s' = change_spec
      (change_private [mutation_write (pending_payment_close_slot b3 network i) chunk]) l"
  shows "read_pending_close ops s' b3 network i = Ok (Some rec)"
proof -
  have "b_registry_chunk ops s' = (l_registry l)(pending_payment_close_slot b3 network i \<mapsto> chunk)"
    using arg_cong [OF assms(3), of l_registry] by (simp add: change_private_def diff_spec_def mutation_write_def)
  then show ?thesis using assms(1,2) pending_to_chunk_parse [of rec] by (auto simp: read_pending_close_def)
qed

lemma move_not_twice:
  assumes a: "apply_move b3 vf ops s context m = Ok c"
    and l: "ledger_of ops s' = change_spec c (ledger_of ops s)" and net: "ctx_network context' = ctx_network context"
  shows "apply_move b3 vf' ops s' context' m \<noteq> Ok c'"
proof (cases m)
  case (StartPaymentClose start)
  with a have "apply_start b3 vf ops s context start = Ok c" by simp
  then obtain e payment rec chunk where
    rec: "from_accepted_start b3 (ctx_network context) (ctx_block_height context) start = Some rec"
    "terms_profile_of (ps_terms start) = ProfileWorkPayment payment"
    and chunk: "pending_to_chunk rec = Some chunk"
    and c: "c = change_private [mutation_write (pending_payment_close_slot b3 (ctx_network context) (ps_payment_edge start)) chunk]"
    by (rule apply_start_Ok)
  have "pc_payment_edge rec = ps_payment_edge start"
    using rec by (auto simp: from_accepted_start_def bind_eq_Some_conv pending_opened_def)
  from written_record_reads [OF chunk this l [unfolded c]]
  have "read_pending ops s' b3 context' (ps_payment_edge start) = Ok (Some rec)"
    by (simp add: read_pending_def net)
  then show ?thesis using StartPaymentClose by (auto elim: apply_start_Ok)
next
  case (RespondPaymentClose response)
  with a have "apply_response b3 vf ops s context response = Ok c" by simp
  then obtain p chunk where p: "check_response b3 vf ops s context response = Ok p"
    and chunk: "pending_to_chunk p = Some chunk"
    and c: "c = change_private [mutation_write (pending_payment_close_slot b3 (ctx_network context) (pr_payment_edge response)) chunk]"
    by (rule apply_response_Ok)
  from p obtain rec where "read_pending ops s b3 context (pr_payment_edge response) = Ok (Some rec)"
    and p': "p = with_accepted_response rec response" by (rule check_response_Ok)
  then have "pc_payment_edge p = pr_payment_edge response"
    using read_pending_close_Some(1) by (auto simp: read_pending_def map_err_eq_Ok with_accepted_response_def responded_at_def)
  from written_record_reads [OF chunk this l [unfolded c]]
  have read: "read_pending ops s' b3 context' (pr_payment_edge response) = Ok (Some p)"
    by (simp add: read_pending_def net)
  have "pc_responded p" by (simp add: p' with_accepted_response_def responded_at_def)
  with read have "check_response b3 vf' ops s' context' response \<noteq> Ok q" for q
    by (auto elim: check_response_Ok)
  then show ?thesis using RespondPaymentClose by (auto elim: apply_response_Ok)
qed

lemma load_coins_missing:
  assumes "b_coin ops s i = None" "i \<in> set ids"
  shows "load_coins ops s ids \<noteq> Ok cs"
proof
  assume l: "load_coins ops s ids = Ok cs"
  then obtain c where "c \<in> set cs" "fst c = i" using load_coins_Ok(1) [OF l] assms(2) by force
  then show False using load_coins_Ok(2) [OF l] assms(1) by auto
qed

lemma reshape_not_twice:
  assumes a: "apply_reshape b3 vf ops s context r = Ok c"
    and l: "ledger_of ops s' = change_spec c (ledger_of ops s)"
  shows "apply_reshape b3 vf' ops s' context' r \<noteq> Ok c'"
proof -
  from a obtain coins i first rest issued where coins: "map fst coins = rs_inputs r"
    "\<forall>x \<in> set coins. b_coin ops s (fst x) = Some (snd x)" "coins = (i, first) # rest"
    and issued: "reshape_coins b3 ops s (ctx_network context) (rs_inputs r) (rs_outputs r) = Ok issued"
    and c: "c = change_reshape coins issued" by (rule apply_reshape_Ok)
  have "b_coin ops s i \<noteq> None" using coins by simp
  then have "map_of issued i = None" using reshape_coins_Ok(2) [OF issued] by (force simp: map_of_eq_None_iff)
  moreover have "l_coins (ledger_of ops s') = spend coins (b_coin ops s) ++ map_of issued"
    using l by (simp add: c change_reshape_def diff_spec_def ledger_of_def)
  ultimately have "b_coin ops s' i = None" using coins(3) by (simp add: spend_def map_add_def)
  moreover have "i \<in> set (rs_inputs r)" using coins(3) by (simp flip: coins(1))
  ultimately have "load_coins ops s' (rs_inputs r) \<noteq> Ok cs" for cs
    by (rule load_coins_missing)
  then show ?thesis by (auto simp: apply_reshape_def and_then_eq_Ok split: option.splits)
qed

text \<open>C26. No operation applies twice: after an operation was accepted, the very same operation is rejected by
  the working set it left, at any later height and under any verifier, and the rejection changes nothing.\<close>

theorem state_apply_once:
  assumes inv: "bws_inv w" and a: "state_apply b3 vf bws_store w context t = (Ok outcome, w')"
    and net: "ctx_network context' = ctx_network context"
  shows "\<exists>e. state_apply b3 vf' bws_store w' context' t = (Err e, w')"
proof -
  from inv a obtain c where c: "tx_apply b3 vf wb_ops (bws_begin w) context t = Ok c"
    and l: "ledger_of wb_ops (bws_begin w') = change_spec c (ledger_of wb_ops (bws_begin w))"
    by (metis state_apply_spec ws_ledger_def)
  have "tx_apply b3 vf' wb_ops (bws_begin w') context' t \<noteq> Ok c'" for c'
  proof (cases t)
    case (TxOpen f terms ma ta)
    with c have "apply_open b3 vf wb_ops (bws_begin w) context f terms ma ta = Ok c" by simp
    then obtain coins and debits :: open_debits and d where "c = change_with_registry (change_open coins
        (edge_id_from b3 f (terms_hash_of terms), od_edge debits)) d" by (rule apply_open_Ok) blast
    then have "l_edges (ledger_of wb_ops (bws_begin w')) (edge_id_from b3 f (terms_hash_of terms)) \<noteq> None"
      unfolding l by (simp add: change_edges)
    then show ?thesis using TxOpen by (auto elim: apply_open_Ok simp del: wb_ops_simps)
  next
    case (TxClose inp p outs)
    with c have "apply_close b3 vf wb_ops (bws_begin w) context inp p outs = Ok c" by simp
    then obtain e d where "c = change_with_registry (change_close (inp, e) (close_coins b3 inp outs)) d"
      by (rule apply_close_Ok) blast
    then have "l_edges (ledger_of wb_ops (bws_begin w')) inp = None" unfolding l by (simp add: change_edges)
    then show ?thesis using TxClose by (auto elim: apply_close_Ok simp del: wb_ops_simps)
  next
    case (TxMove m)
    then show ?thesis using move_not_twice [OF _ l net] c by simp
  next
    case (TxOwner r)
    then show ?thesis using reshape_not_twice [OF _ l] c by simp
  qed
  then obtain e where "tx_apply b3 vf' wb_ops (bws_begin w') context' t = Err e" using result_not_Ok by blast
  then show ?thesis using state_apply_Err by blast
qed

theorem state_apply_once_witness:
  "\<exists>e. state_apply ex_b3 ex_vf bws_store ex_opened ex_ctx ex_open = (Err e, ex_opened)"
proof -
  have "bws_inv ex_wallet" by (simp add: bws_inv_def ex_wallet_def)
  from state_apply_once [OF this ex_open_state refl] show ?thesis .
qed

section \<open>Batches and blocks\<close>

lemma fold_all_start:
  assumes "length ts \<le> N"
  shows "fold_all N b3 vf ops context 0 s batch_diff_empty ts = Some (Ok (d, s')) \<longleftrightarrow>
      run_ops b3 vf ops context s ts = Ok (d, s')"
    and "fold_all N b3 vf ops context 0 s batch_diff_empty ts = Some (Err x) \<longleftrightarrow>
      be_index x < length ts \<and> (\<exists>outcomes s1. run_ops b3 vf ops context s (take (be_index x) ts) = Ok (outcomes, s1)
        \<and> fold_one b3 vf ops s1 context (ts ! be_index x) = Err (be_source x))"
    and "\<exists>r. fold_all N b3 vf ops context 0 s batch_diff_empty ts = Some r"
  using assms fold_all_total [of batch_diff_empty ts N]
  by (auto simp: fold_all_Ok fold_all_Err batch_diff_empty_def)

text \<open>C27. A bounded batch is its sequential run, all or nothing. When it holds at most as many operations as
  the diff has room for, applying it never indexes past the diff; it commits exactly what the operations
  leave when run one after the other and reports their outcomes in order, or it leaves the store untouched
  and names the first operation that is refused where the earlier ones left the batch, with its error.\<close>

theorem apply_all_atomic:
  assumes "length ts \<le> N"
  shows "\<exists>r store'. apply_all N b3 vf sto store context ts = Some (r, store') \<and>
    (case r of
       Ok d \<Rightarrow> \<exists>s. run_ops b3 vf (st_batch sto) context (st_begin sto store) ts = Ok (d, s) \<and> store' = st_commit sto s
     | Err x \<Rightarrow> store' = store \<and> be_index x < length ts
         \<and> (\<exists>outcomes s. run_ops b3 vf (st_batch sto) context (st_begin sto store) (take (be_index x) ts) = Ok (outcomes, s)
           \<and> fold_one b3 vf (st_batch sto) s context (ts ! be_index x) = Err (be_source x)))"
proof -
  let ?fold = "fold_all N b3 vf (st_batch sto) context 0 (st_begin sto store) batch_diff_empty ts"
  obtain r where r: "?fold = Some r" using fold_all_start(3) [OF assms] by meson
  show ?thesis
  proof (cases r)
    case (Ok q)
    obtain d s where q: "q = (d, s)" by fastforce
    then have "run_ops b3 vf (st_batch sto) context (st_begin sto store) ts = Ok (d, s)"
      using r Ok by (simp add: fold_all_start [OF assms])
    then show ?thesis using r Ok q by (simp add: apply_all_def)
  next
    case (Err x)
    note refused = r [unfolded Err fold_all_start(2) [OF assms]]
    show ?thesis using r Err refused by (simp add: apply_all_def)
  qed
qed

theorem apply_all_atomic_witness:
  "\<exists>r w'. apply_all 2 ex_b3 ex_vf bws_store ex_wallet ex_ctx [ex_open, ex_open] = Some (r, w')
    \<and> r = Err \<lparr>be_index = 1, be_source = EdgeExists 0\<rparr> \<and> w' = ex_wallet"
proof -
  from apply_all_atomic [of "[ex_open, ex_open]" 2 ex_b3 ex_vf bws_store ex_wallet ex_ctx]
  obtain r w' where "apply_all 2 ex_b3 ex_vf bws_store ex_wallet ex_ctx [ex_open, ex_open] = Some (r, w')" by auto
  then show ?thesis
    using ex_folds ex_open_again by (simp add: apply_all_def batch_diff_push_def batch_diff_empty_def)
qed

lemma run_ops_length: "run_ops b3 vf ops context s ts = Ok (outcomes, s') \<Longrightarrow> length outcomes = length ts"
  by (induction ts arbitrary: s outcomes) (auto simp: and_then_eq_Ok)

text \<open>An accepted block conserves value: it reports one outcome per operation, and what it leaves plus the
  sum of what its operations burn, each priced against the ledger it ran on, is what was there before.\<close>

theorem apply_block_conserves:
  assumes "length (block_ops blk) \<le> N" and "bws_inv w" and "apply_block N b3 vf bws_store w blk = Some (Ok d, w')"
  shows "bws_inv w' \<and> length d = length (block_ops blk)
    \<and> bws_total w' + run_burn b3 vf wb_ops (block_context blk) (bws_begin w) (block_ops blk) = bws_total w"
proof -
  from assms(3) obtain s where
    "fold_all N b3 vf wb_ops (block_context blk) 0 (bws_begin w) batch_diff_empty (block_ops blk) = Some (Ok (d, s))"
    and w': "w' = wb_commit s"
    by (cases "fold_all N b3 vf wb_ops (block_context blk) 0 (bws_begin w) batch_diff_empty (block_ops blk)")
      (auto simp: apply_block_def apply_all_def split: result.splits)
  then have run: "run_ops b3 vf wb_ops (block_context blk) (bws_begin w) (block_ops blk) = Ok (d, s)"
    by (simp add: fold_all_start [OF assms(1)])
  note conserved = ws.run_ops_value [OF _ run]
  have "bws_inv w' = wb_inv s" using w' ws_begin(7) [of w'] by simp
  then show ?thesis using conserved assms(2) w' run_ops_length [OF run]
    by (simp add: bws_total_commit bws_total_begin del: wb_ops_simps)
qed

theorem apply_block_conserves_witness:
  "\<exists>d. apply_block 1 ex_b3 ex_vf bws_store ex_wallet \<lparr>block_context = ex_ctx, block_ops = [ex_reshape]\<rparr>
      = Some (Ok d, ex_spent) \<and> length d = 1 \<and> bws_total ex_spent = bws_total ex_wallet"
proof -
  let ?blk = "\<lparr>block_context = ex_ctx, block_ops = [ex_reshape]\<rparr>"
  obtain outcome where fold: "fold_one ex_b3 ex_vf wb_ops (bws_begin ex_wallet) ex_ctx ex_reshape = Ok (outcome, bws_begin ex_spent)"
    using ex_folds(1) by blast
  then have ok: "apply_block 1 ex_b3 ex_vf bws_store ex_wallet ?blk = Some (Ok [outcome], ex_spent)"
    by (simp add: apply_block_def apply_all_def batch_diff_push_def batch_diff_empty_def)
  have "run_burn ex_b3 ex_vf wb_ops ex_ctx (bws_begin ex_wallet) [ex_reshape] = 0"
    using fold by (simp add: ex_reshape_def)
  then show ?thesis using apply_block_conserves [OF _ _ ok] ok by (simp add: bws_inv_def ex_wallet_def)
qed

lemma fold_iter_Ok:
  "run_ops b3 vf ops context s ts = Ok (outcomes, s') \<Longrightarrow>
    fold_iter b3 vf ops context on_outcome index s a ts
      = (Ok s', fold (\<lambda>(i, x). on_outcome i x) (enumerate index outcomes) a)"
  by (induction ts arbitrary: index s outcomes a) (auto simp: and_then_eq_Ok)

text \<open>C28. The iterator form runs the same batch: it returns the same success or the same error at the same
  index and leaves the same store as the bounded form, and its callback has seen exactly the outcomes, in
  order and with their indices, of an accepted batch.\<close>

theorem apply_iter_agrees:
  assumes "length ts \<le> N"
  shows "\<exists>r store' a'. apply_all N b3 vf sto store context ts = Some (r, store')
    \<and> apply_iter b3 vf sto store context on_outcome a ts
      = (case r of Ok d \<Rightarrow> Ok () | Err x \<Rightarrow> Err x, store', a')
    \<and> (\<forall>d. r = Ok d \<longrightarrow> a' = fold (\<lambda>(i, x). on_outcome i x) (enumerate 0 d) a)"
proof -
  let ?s = "st_begin sto store"
  have len: "length batch_diff_empty + length ts \<le> N" using assms by (simp add: batch_diff_empty_def)
  obtain r where r: "fold_all N b3 vf (st_batch sto) context 0 ?s batch_diff_empty ts = Some r"
    using fold_all_start(3) [OF assms] by meson
  note same = fold_iter_fold_all [OF len r, of on_outcome a]
  show ?thesis
  proof (cases r)
    case (Ok q)
    obtain d s where q: "q = (d, s)" by fastforce
    with Ok r have "run_ops b3 vf (st_batch sto) context ?s ts = Ok (d, s)" by (simp add: fold_all_start [OF assms])
    from fold_iter_Ok [OF this, of on_outcome 0 a] show ?thesis using r Ok q by (simp add: apply_all_def apply_iter_def)
  next
    case (Err x)
    with same obtain a' where "fold_iter b3 vf (st_batch sto) context on_outcome 0 ?s a ts = (Err x, a')"
      by (cases "fold_iter b3 vf (st_batch sto) context on_outcome 0 ?s a ts") auto
    then show ?thesis using r Err by (simp add: apply_all_def apply_iter_def)
  qed
qed

theorem apply_iter_agrees_witness:
  "\<exists>n. apply_iter ex_b3 ex_vf bws_store ex_wallet ex_ctx (\<lambda>_ _ n. Suc n) 0 [ex_reshape] = (Ok (), ex_spent, n)"
proof -
  obtain outcome where "fold_one ex_b3 ex_vf wb_ops (bws_begin ex_wallet) ex_ctx ex_reshape = Ok (outcome, bws_begin ex_spent)"
    using ex_folds(1) by blast
  then have "apply_all 1 ex_b3 ex_vf bws_store ex_wallet ex_ctx [ex_reshape] = Some (Ok [outcome], ex_spent)"
    by (simp add: apply_all_def batch_diff_push_def batch_diff_empty_def)
  then show ?thesis
    using apply_iter_agrees [of "[ex_reshape]" 1 ex_b3 ex_vf bws_store ex_wallet ex_ctx "\<lambda>_ _ n. Suc n" 0] by auto
qed

end
