(* ===== verification/Ledger_Authority.thy ===== *)
theory Ledger_Authority
  imports Ledger_Safety
begin

text \<open>Who may do what: whose signatures an open and a reshape need and over which coins, what each close of an
  edge may pay, what the bounded close contest admits, and that a stake bond backs one payment edge at a
  time.\<close>

section \<open>Opening\<close>

lemma check_party_authority_Ok:
  assumes "check_party_authority p a coins = Ok ()"
  shows "\<forall>x \<in> set coins. is_owner a \<or> coin_delegate (snd x) = Some (pk_signer p)"
    and "is_owner a \<or> pk_payout_delegate p = None \<or> pk_payout_delegate p = Some (pk_signer p)"
  using assms by (auto simp: check_party_authority_def Let_def list_ex_iff case_prod_unfold split: if_splits)

lemma check_funding_ownership_Ok:
  assumes "check_funding_ownership out (mc @ tc) (length mc) ps = Ok ()"
  shows "\<forall>x \<in> set mc. coin_owner (snd x) = pk_owner (parties_maker ps)"
    and "\<forall>x \<in> set tc. coin_owner (snd x) = pk_owner (parties_taker ps)"
proof -
  from assms have all: "\<forall>y \<in> set (enumerate 0 (mc @ tc)). coin_owner (snd (snd y))
      = pk_owner (if fst y < length mc then parties_maker ps else parties_taker ps)"
    by (simp add: check_funding_ownership_def list_ex_iff Let_def case_prod_unfold split: if_splits)
  have own: "coin_owner (snd ((mc @ tc) ! j)) = pk_owner (if j < length mc then parties_maker ps else parties_taker ps)"
    if "j < length (mc @ tc)" for j
    using bspec [OF all, of "(j, (mc @ tc) ! j)"] that by (simp add: in_set_enumerate_eq)
  show "\<forall>x \<in> set mc. coin_owner (snd x) = pk_owner (parties_maker ps)"
  proof
    fix x assume "x \<in> set mc"
    then obtain j where "j < length mc" "x = mc ! j" by (auto simp: in_set_conv_nth)
    with own [of j] show "coin_owner (snd x) = pk_owner (parties_maker ps)" by (simp add: nth_append)
  qed
  show "\<forall>x \<in> set tc. coin_owner (snd x) = pk_owner (parties_taker ps)"
  proof
    fix x assume "x \<in> set tc"
    then obtain j where "j < length tc" "x = tc ! j" by (auto simp: in_set_conv_nth)
    with own [of "length mc + j"] show "coin_owner (snd x) = pk_owner (parties_taker ps)" by (simp add: nth_append)
  qed
qed

text \<open>What one party of an open must have agreed to: a signature under the key its authority names, and coins
  that are its own and, when the node key signs, delegated to that key.\<close>

definition party_agreed ::
  "verifier \<Rightarrow> 's batch_ops \<Rightarrow> 's \<Rightarrow> party_keys \<Rightarrow> party_auth \<Rightarrow> coin_id list \<Rightarrow> payload_hash \<Rightarrow> bool" where
  "party_agreed vf ops s p a ids hash \<longleftrightarrow> verify_party vf a p hash
    \<and> (\<forall>i \<in> set ids. \<exists>c. b_coin ops s i = Some c \<and> coin_owner c = pk_owner p
        \<and> (is_owner a \<or> coin_delegate c = Some (pk_signer p)))
    \<and> (is_owner a \<or> pk_payout_delegate p = None \<or> pk_payout_delegate p = Some (pk_signer p))"

text \<open>C9. An open is authorised by both parties: each signed the open's network-bound hash with its owner key
  or its node key, every coin it spends is its own, and a node key only ever spends coins delegated to it,
  signs no basic edge, and cannot route payouts to a delegate other than itself or none.\<close>

theorem open_authorised:
  assumes a: "apply_open b3 vf ops s context f terms ma ta = Ok c"
  shows "party_agreed vf ops s (parties_maker (terms_parties terms)) ma (funding_maker f)
      (open_hash b3 (ctx_network context) f terms)
    \<and> party_agreed vf ops s (parties_taker (terms_parties terms)) ta (funding_taker f)
      (open_hash b3 (ctx_network context) f terms)
    \<and> (terms_profile_of terms = ProfileBasic \<longrightarrow> is_owner ma \<and> is_owner ta)"
proof -
  let ?out = "edge_id_from b3 f (terms_hash_of terms)" and ?ps = "terms_parties terms"
  from a obtain coins where ids: "map fst coins = funding_iter f"
    and live: "\<forall>x \<in> set coins. b_coin ops s (fst x) = Some (snd x)"
    and own: "check_funding_ownership ?out coins (length (funding_maker f)) ?ps = Ok ()"
    and auth: "check_open_authority terms (coins, length (funding_maker f)) ma ta = Ok ()"
    and sig: "check_open_auth b3 vf (ctx_network context) ?out f terms ma ta = Ok ()"
    by (rule apply_open_Ok)
  define mc tc where "mc = take (length (funding_maker f)) coins" and "tc = drop (length (funding_maker f)) coins"
  have len: "length coins = length (funding_maker f) + length (funding_taker f)"
    using arg_cong [OF ids, of length] by (simp add: funding_iter_def)
  have split: "coins = mc @ tc" "length mc = length (funding_maker f)" "map fst mc = funding_maker f" "map fst tc = funding_taker f"
    using ids len by (simp_all add: mc_def tc_def funding_iter_def flip: take_map drop_map)
  note owners = check_funding_ownership_Ok [OF own [unfolded split(1) split(2) [symmetric]]]
  have basic: "terms_profile_of terms = ProfileBasic \<longrightarrow> is_owner ma \<and> is_owner ta"
    and m: "check_party_authority (parties_maker ?ps) ma mc = Ok ()"
    and t: "check_party_authority (parties_taker ?ps) ta tc = Ok ()"
    using auth split by (auto simp: check_open_authority_def Let_def and_then_eq_Ok split: if_splits)
  have agreed: "\<forall>i \<in> set ids. \<exists>c. b_coin ops s i = Some c \<and> coin_owner c = pk_owner p
      \<and> (is_owner a \<or> coin_delegate c = Some (pk_signer p))"
    if "map fst cs = ids" "set cs \<subseteq> set coins" "\<forall>x \<in> set cs. coin_owner (snd x) = pk_owner p"
      "check_party_authority p a cs = Ok ()" for cs ids p a
    using that live check_party_authority_Ok(1) [of p a cs] by force
  show ?thesis
    using sig basic agreed [OF split(3) _ owners(1) m] agreed [OF split(4) _ owners(2) t]
      check_party_authority_Ok(2) [OF m] check_party_authority_Ok(2) [OF t]
    by (simp add: party_agreed_def check_open_auth_def Let_def split(1) split: if_splits)
qed

theorem open_authorised_witness:
  "party_agreed ex_vf wb_ops (bws_begin ex_wallet) (parties_maker ex_parties) ex_owner [7]
    (open_hash ex_b3 (ctx_network ex_ctx) \<lparr>funding_maker = [7], funding_taker = []\<rparr> ex_terms)"
proof -
  from state_apply_Ok [OF ex_open_state] obtain c where
    "tx_apply ex_b3 ex_vf wb_ops (bws_begin ex_wallet) ex_ctx ex_open = Ok c" by blast
  then have "apply_open ex_b3 ex_vf wb_ops (bws_begin ex_wallet) ex_ctx \<lparr>funding_maker = [7], funding_taker = []\<rparr>
      ex_terms ex_owner ex_owner = Ok c" by (simp add: ex_open_def)
  from open_authorised [OF this] show ?thesis by simp
qed

section \<open>Reshaping\<close>

lemma check_reshape_outputs_Ok:
  "check_reshape_outputs owner outs = Ok () \<longleftrightarrow>
    (\<forall>p \<in> set outs. payout_value p \<noteq> 0 \<and> (payout_delegate p = None \<or> payout_owner p = owner))"
  unfolding check_reshape_outputs_def by (induction outs) (auto simp: and_then_eq_Ok split: if_splits)

text \<open>C25. A reshape is its owner's act: it spends a non-empty list of different live coins that all belong to
  one key, that key signed the network-bound hash of the inputs and outputs, every output has value and
  carries a delegate only if that same key keeps it, and the outputs are worth exactly the inputs.\<close>

theorem reshape_authorised:
  assumes "apply_reshape b3 vf ops s context r = Ok c"
  shows "\<exists>owner coins. rs_inputs r \<noteq> [] \<and> distinct (rs_inputs r) \<and> map fst coins = rs_inputs r
    \<and> (\<forall>x \<in> set coins. b_coin ops s (fst x) = Some (snd x) \<and> coin_owner (snd x) = owner)
    \<and> vf (rs_auth r) owner (reshape_payload_hash b3 (ctx_network context) (rs_inputs r) (rs_outputs r))
    \<and> (\<forall>p \<in> set (rs_outputs r). payout_value p \<noteq> 0 \<and> (payout_delegate p = None \<or> payout_owner p = owner))
    \<and> coins_value coins = (\<Sum>p\<leftarrow>rs_outputs r. unat (payout_value p))"
proof -
  from assms obtain coins i first rest issued amount where *:
    "distinct (rs_inputs r)" "map fst coins = rs_inputs r" "\<forall>x \<in> set coins. b_coin ops s (fst x) = Some (snd x)"
    "coins = (i, first) # rest" "\<forall>x \<in> set coins. coin_owner (snd x) = coin_owner first"
    "check_reshape_outputs (coin_owner first) (rs_outputs r) = Ok ()"
    "checked_sum (\<lambda>(_, c). coin_value c) 0 coins = Some amount" "checked_sum payout_value 0 (rs_outputs r) = Some amount"
    "vf (rs_auth r) (coin_owner first) (reshape_payload_hash b3 (ctx_network context) (rs_inputs r) (rs_outputs r))"
    by (rule apply_reshape_Ok)
  have "coins_value coins = (\<Sum>p\<leftarrow>rs_outputs r. unat (payout_value p))"
    using checked_sum_coins [OF *(7)] *(8) by (simp add: checked_sum_Some_iff)
  moreover have "rs_inputs r \<noteq> []" using *(2,4) by auto
  ultimately show ?thesis using * check_reshape_outputs_Ok by blast
qed

theorem reshape_authorised_witness:
  "\<exists>owner coins. map fst coins = [7] \<and> coins_value coins = 100
    \<and> (\<forall>x \<in> set coins. bws_coin ex_wallet (fst x) = Some (snd x) \<and> coin_owner (snd x) = owner)"
  using reshape_authorised [OF ex_reshape_apply [unfolded ex_reshape_def tx_apply.simps]]
  by (force simp: payout_new_def payout_delegated_def simp del: wb_ops_simps)

section \<open>Closing\<close>

text \<open>Where a mutual close may pay a party: to the party's own key, with no other delegate than the one the edge
  commits to. The delegate goes when the party itself signed as owner, and stays when neither party did.\<close>

definition pays_party :: "party_keys \<Rightarrow> party_auth \<Rightarrow> party_auth \<Rightarrow> payout \<Rightarrow> bool" where
  "pays_party keys own other p \<longleftrightarrow> payout_owner p = pk_owner keys
    \<and> (payout_delegate p = None \<or> payout_delegate p = pk_payout_delegate keys)
    \<and> (is_owner own \<longrightarrow> payout_delegate p = None)
    \<and> (\<not> is_owner own \<and> \<not> is_owner other \<longrightarrow> payout_delegate p = pk_payout_delegate keys)"

text \<open>C24. A mutual close pays only where the parties agreed: it is accepted only before the edge's timeout,
  with both parties' signatures over the network, the edge, its terms and the exact payouts, and every
  payout goes to one of the two parties' own keys. The payout's delegate is the one the edge commits to when neither
  party signed as owner, and none when the paid party did; when only the other party did, it is one of these two.\<close>

theorem mutual_close_authorised:
  assumes "apply_close b3 vf ops s context inp (MutualProof maker taker) outs = Ok c"
  shows "\<exists>e. b_edge ops s inp = Some e \<and> ctx_block_height context < edge_timeout e
    \<and> verify_party vf maker (parties_maker (edge_parties e))
        (close_payload_hash b3 (ctx_network context) inp Mutual (edge_terms e) outs)
    \<and> verify_party vf taker (parties_taker (edge_parties e))
        (close_payload_hash b3 (ctx_network context) inp Mutual (edge_terms e) outs)
    \<and> (\<forall>p \<in> set outs. pays_party (parties_maker (edge_parties e)) maker taker p
        \<or> pays_party (parties_taker (edge_parties e)) taker maker p)"
proof -
  from assms obtain e funded staged where e: "b_edge ops s inp = Some e"
    and p: "check_proof b3 vf ops s context \<lparr>cs_input = inp, cs_edge = e, cs_total = funded, cs_outputs = outs\<rparr>
      (MutualProof maker taker) = Ok staged" by (rule apply_close_Ok)
  have pays: "pays_party keys own other p" if "pk_is_destination keys p (is_owner own)" for keys own other p
    using that [unfolded pk_is_destination_def pk_payout_def] by (cases p) (auto simp: pays_party_def payout_delegated_def)
  from e p pays show ?thesis
    by (auto simp: check_proof_def check_mutual_def Let_def not_le list_all_iff split: if_splits)
qed

definition ex_mutual_outs :: payouts where "ex_mutual_outs = [payout_new 1 40, payout_new 2 49]"

lemma ex_mutual_accepted:
  "\<exists>c. apply_close ex_b3 ex_vf wb_ops (bws_begin ex_opened) ex_ctx 0 (MutualProof ex_owner ex_owner) ex_mutual_outs = Ok c"
  by (simp add: apply_close_def check_close_outputs_def ex_payout_id Let_def payout_new_def ex_mutual_outs_def
      payout_delegated_def bws_begin_def slot_get_def ex_opened_def ex_edge_def edge_new_def close_coins_def close_coin_def
      edge_allows_def cks_table edge_closes_def edge_total_def edge_close_value_def ev_close_value_def edge_values_of_def
      close_cost_def kind_close_cost_def cost_new_def fees_new_def fees_charge_def checked_add_def checked_sub_def
      checked_mul_def saturating_add_def u64_of_usize_def check_proof_def check_mutual_def ex_ctx_def
      context_with_fees_def payout_coin_def coin_issue_def pk_is_destination_def pk_payout_def ex_parties_def
      parties_new_def party_keys_sole_def party_keys_new_def verify_party_def ex_vf_def)

theorem mutual_close_authorised_witness:
  "(\<exists>c. apply_close ex_b3 ex_vf wb_ops (bws_begin ex_opened) ex_ctx 0 (MutualProof ex_owner ex_owner) ex_mutual_outs = Ok c)
    \<and> pays_party (party_keys_sole 1) ex_owner ex_owner (payout_new 1 40) \<and> pays_party (party_keys_sole 2) ex_owner ex_owner (payout_new 2 49)"
proof -
  obtain c where ok: "apply_close ex_b3 ex_vf wb_ops (bws_begin ex_opened) ex_ctx 0
      (MutualProof ex_owner ex_owner) ex_mutual_outs = Ok c"
    using ex_mutual_accepted by blast
  have "bws_edge ex_opened 0 = Some ex_edge" by (simp add: bws_edge_def ex_opened_def)
  with mutual_close_authorised [OF ok] have "\<forall>p \<in> set ex_mutual_outs. pays_party (party_keys_sole 1) ex_owner ex_owner p
      \<or> pays_party (party_keys_sole 2) ex_owner ex_owner p"
    by (simp add: ex_edge_def edge_new_def ex_parties_def parties_new_def)
  with ok show ?thesis
    by (auto simp: ex_mutual_outs_def pays_party_def payout_new_def payout_delegated_def party_keys_sole_def party_keys_new_def)
qed

section \<open>The close contest\<close>

lemma check_split_Ok:
  assumes "check_split ps (amount, provider) flags outs = Ok u"
  shows "\<exists>client. outs = [pk_payout (parties_taker ps) provider (snd flags), pk_payout (parties_maker ps) client (fst flags)]
    \<and> unat provider + unat client = unat amount"
  using assms by (fastforce simp: check_split_def split_payouts_def and_then_eq_Ok ok_or_eq_Ok
      dest: checked_sub_Some split: if_splits)

text \<open>What a payment close owes the provider: never less than a standing contest has settled.\<close>

definition settled_amount :: "pending_close option \<Rightarrow> nat" where
  "settled_amount pending = (case pending of
      None \<Rightarrow> 0 | Some rec \<Rightarrow> unat (pc_final_cumulative rec) + unat (pending_penalty rec))"

text \<open>What it pays the provider, exactly. A freeze pays the amount both parties signed, and the omission bond on top
  when the contest owes it already or the client opened the contest below that amount; an adjudication pays
  what the contest settled. A payout loses its delegate when its party has signed as owner, in the proof or in the
  contest.\<close>

fun payment_due :: "close_proof \<Rightarrow> pending_close option \<Rightarrow> nat" where
  "payment_due (FreezeProof earned _ _ _ _) (Some rec) =
    unat earned + (if pc_penalty_due rec \<or> pc_opener_role rec = Maker \<and> pc_start_cumulative rec < earned
      then unat (pc_penalty_amount rec) else 0)"
| "payment_due (FreezeProof earned _ _ _ _) None = unat earned"
| "payment_due _ pending = settled_amount pending"

fun payment_owners :: "close_proof \<Rightarrow> pending_close option \<Rightarrow> bool \<times> bool" where
  "payment_owners (FreezeProof _ _ _ maker taker) (Some rec) =
    (is_owner maker \<or> fst (pc_owner_signed rec), is_owner taker \<or> snd (pc_owner_signed rec))"
| "payment_owners (FreezeProof _ _ _ maker taker) None = (is_owner maker, is_owner taker)"
| "payment_owners _ (Some rec) = pc_owner_signed rec"
| "payment_owners _ None = (False, False)"

lemma check_freeze_Ok:
  assumes "check_freeze b3 vf ops s context close (earned, validity, ma, ta) = Ok m"
  obtains pending provider where "read_pending ops s b3 context (cs_input close) = Ok pending"
    "settled_amount pending \<le> unat provider" "unat provider = payment_due (FreezeProof earned lo hi ma ta) pending"
    "check_split (edge_parties (cs_edge close)) (cs_total close, provider)
      (payment_owners (FreezeProof earned lo hi ma ta) pending) (cs_outputs close) = Ok ()"
    "m = map_option (\<lambda>_. mutation_delete (pending_payment_close_slot b3 (ctx_network context) (cs_input close))) pending"
proof -
  from assms obtain pending provider where p: "read_pending ops s b3 context (cs_input close) = Ok pending"
    and amount: "(case pending of None \<Rightarrow> Ok earned
      | Some rec \<Rightarrow> if earned < pc_final_cumulative rec then Err Proof_FreezeBelowSettled
          else ok_or Proof_PayoutOverCapacity (checked_add earned (freeze_penalty rec earned))) = Ok provider"
    and rest: "check_split (edge_parties (cs_edge close)) (cs_total close, provider) (freeze_owner_signed ma ta pending)
      (cs_outputs close) = Ok ()"
      "m = map_option (\<lambda>_. mutation_delete (pending_payment_close_slot b3 (ctx_network context) (cs_input close))) pending"
    by (auto simp: check_freeze_def Let_def and_then_eq_Ok map_err_eq_Ok split: if_splits)
  have owners: "freeze_owner_signed ma ta pending = payment_owners (FreezeProof earned lo hi ma ta) pending"
    by (cases pending) (simp_all add: freeze_owner_signed_def Let_def)
  have "settled_amount pending \<le> unat provider \<and> unat provider = payment_due (FreezeProof earned lo hi ma ta) pending"
  proof (cases pending)
    case (Some rec)
    with amount have le: "unat (pc_final_cumulative rec) \<le> unat earned"
      and sum: "checked_add earned (freeze_penalty rec earned) = Some provider"
      by (auto simp: ok_or_eq_Ok not_less word_le_nat_alt split: if_splits)
    have "unat (pending_penalty rec) \<le> unat (freeze_penalty rec earned)"
      by (simp add: pending_penalty_def freeze_penalty_def)
    with le checked_add_Some [OF sum] Some show ?thesis by (simp add: settled_amount_def freeze_penalty_def)
  qed (use amount in \<open>simp add: settled_amount_def\<close>)
  with p rest owners that show thesis by metis
qed

text \<open>C10. A payment edge pays exactly two outputs, the provider's and the client's, in that order, to their own
  keys, each without its delegate when that party has signed as owner. The provider gets exactly what is due: in a
  freeze the amount both parties signed, plus the omission bond when the contest owes it already or the client opened the contest
  below that amount; in an adjudication what the contest settled, its penalty included. Never is that less than
  the standing contest settled. The client gets the rest of what the edge locked, less the close fee, and the contest
  record, if any, is deleted by the same change.\<close>

theorem payment_close_pays:
  assumes a: "apply_close b3 vf ops s context inp p outs = Ok c"
    and kind: "proof_kind p = Freeze \<or> proof_kind p = Adjudicated"
  shows "\<exists>e pending provider client. b_edge ops s inp = Some e
    \<and> read_pending_close ops s b3 (ctx_network context) inp = Ok pending
    \<and> outs = [pk_payout (parties_taker (edge_parties e)) provider (snd (payment_owners p pending)),
              pk_payout (parties_maker (edge_parties e)) client (fst (payment_owners p pending))]
    \<and> unat provider = payment_due p pending \<and> settled_amount pending \<le> unat provider
    \<and> unat provider + unat client + cost_price (edge_close_fees e) (close_cost 2 p) = edge_locked e
    \<and> (pending \<noteq> None \<longrightarrow> l_registry (change_spec c l) (pending_payment_close_slot b3 (ctx_network context) inp) = None)"
proof -
  from a obtain e funded staged d where e: "b_edge ops s inp = Some e"
    and c: "c = change_with_registry (change_close (inp, e) (close_coins b3 inp outs)) d"
    and f: "edge_closes e (close_coins b3 inp outs) (close_cost (length outs) p) = Ok funded"
    and st: "check_proof b3 vf ops s context \<lparr>cs_input = inp, cs_edge = e, cs_total = funded, cs_outputs = outs\<rparr> p = Ok staged"
    and push: "push_mutations staged = Ok d" by (rule apply_close_Ok)
  obtain pending provider where read: "read_pending ops s b3 context inp = Ok pending"
    and settled: "settled_amount pending \<le> unat provider" "unat provider = payment_due p pending"
    and split: "check_split (edge_parties e) (funded, provider) (payment_owners p pending) outs = Ok ()"
    and del: "pending \<noteq> None \<longrightarrow> mutation_delete (pending_payment_close_slot b3 (ctx_network context) inp) \<in> set staged"
  proof (cases p)
    case (FreezeProof earned lo hi ma ta)
    with st obtain m where
      fr: "check_freeze b3 vf ops s context \<lparr>cs_input = inp, cs_edge = e, cs_total = funded, cs_outputs = outs\<rparr>
        (earned, (lo, hi), ma, ta) = Ok m" and m: "staged = one_staged m" by (auto simp: check_proof_def and_then_eq_Ok)
    from check_freeze_Ok [OF fr, of lo hi] obtain pending provider where "read_pending ops s b3 context inp = Ok pending"
      "settled_amount pending \<le> unat provider" "unat provider = payment_due p pending"
      "check_split (edge_parties e) (funded, provider) (payment_owners p pending) outs = Ok ()"
      "m = map_option (\<lambda>_. mutation_delete (pending_payment_close_slot b3 (ctx_network context) inp)) pending"
      using FreezeProof by auto
    then show thesis using that [of pending provider] m
      by (cases pending) (simp_all add: one_staged_def)
  next
    case (AdjudicatedProof commitment)
    with st obtain rec provider where "read_pending ops s b3 context inp = Ok (Some rec)"
      "checked_add (pc_final_cumulative rec) (pending_penalty rec) = Some provider"
      "check_split (edge_parties e) (funded, provider) (pc_owner_signed rec) outs = Ok ()"
      "staged = [mutation_delete (pending_payment_close_slot b3 (ctx_network context) inp)]"
      by (auto simp: check_proof_def check_adjudicated_def Let_def and_then_eq_Ok map_err_eq_Ok ok_or_eq_Ok
          one_staged_def split: if_splits)
    then show thesis using that [of "Some rec" provider] AdjudicatedProof
      by (simp add: settled_amount_def checked_add_Some)
  qed (use kind in auto)
  from check_split_Ok [OF split] obtain client where outs:
    "outs = [pk_payout (parties_taker (edge_parties e)) provider (snd (payment_owners p pending)),
             pk_payout (parties_maker (edge_parties e)) client (fst (payment_owners p pending))]"
    and total: "unat provider + unat client = unat funded" by blast
  have "unat provider + unat client + cost_price (edge_close_fees e) (close_cost 2 p) = edge_locked e"
    using edge_closes_Ok(1,2) [OF f] total outs by (simp add: numeral_2_eq_2)
  moreover have "l_registry (change_spec c l) (pending_payment_close_slot b3 (ctx_network context) inp) = None"
    if "pending \<noteq> None"
    using change_spec_registry(1) [of c "mutation_delete (pending_payment_close_slot b3 (ctx_network context) inp)" l]
      apply_close_balance [OF a] del that push_mutations_set [OF push] by (simp add: c mutation_delete_def)
  ultimately show ?thesis using e read settled outs unfolding read_pending_def
    by (intro exI [of _ e] exI [of _ pending] exI [of _ provider] exI [of _ client]) simp
qed

lemma ex_adjudicated:
  "\<exists>st outs c. work_payment_settlement (edge_values_of ex_payment_edge) 3 = Some st
    \<and> adjudicated_payouts st (edge_parties ex_payment_edge) 10 False (False, False) = Ok outs
    \<and> apply_close ex_b3 ex_vf wb_ops (bws_begin ex_contest) ex_expired 4 (AdjudicatedProof
      (contest_commitment_of ex_b3 ex_pending (ctx_network ex_expired) 4 (edge_terms ex_payment_edge))) outs = Ok c"
proof -
  have p: "pc_penalty_amount ex_pending = 3" "pc_final_cumulative ex_pending = 10" "pc_penalty_due ex_pending = False"
    "pc_owner_signed ex_pending = (False, False)" "pc_response_deadline ex_pending = 30"
    by (simp_all add: ex_pending_def pending_opened_def)
  have "pc_response_deadline ex_pending \<le> ctx_block_height ex_expired" by (simp add: p ex_expired_def)
  then show ?thesis
    using adjudicated_accepted [OF ex_contest_ok, of wb_ops "bws_begin ex_contest" 4 ex_b3 ex_expired ex_vf]
    by (simp add: ex_contest_read p del: wb_ops_simps)
qed

theorem payment_close_pays_witness:
  "\<exists>outs commitment c. apply_close ex_b3 ex_vf wb_ops (bws_begin ex_contest) ex_expired 4 (AdjudicatedProof commitment) outs = Ok c
    \<and> map payout_value outs = [10, 76]"
proof -
  obtain outs c commitment where ok: "apply_close ex_b3 ex_vf wb_ops (bws_begin ex_contest) ex_expired 4
      (AdjudicatedProof commitment) outs = Ok c" using ex_adjudicated by blast
  have e: "b_edge wb_ops (bws_begin ex_contest) 4 = Some ex_payment_edge" by simp
  have fee: "cost_price (edge_close_fees ex_payment_edge) (close_cost 2 (AdjudicatedProof commitment)) = 6"
    "edge_locked ex_payment_edge = 92"
    by (simp_all add: ex_payment_edge_def edge_new_def edge_locked_def close_cost_def kind_close_cost_def cost_price_def
        fees_new_def work_payment_close_cost_def WORK_PAYMENT_CLOSE_SLOTS_def cost_new_def)
  have due: "settled_amount (Some ex_pending) = 10"
    by (simp add: settled_amount_def ex_pending_def pending_opened_def pending_penalty_def)
  from payment_close_pays [OF ok, of undefined] obtain provider client :: u64 where
    "map payout_value outs = [provider, client]" "unat provider = 10" "unat provider + unat client + 6 = 92"
    using e fee due ex_contest_read [of "ctx_network ex_expired"]
    by (auto simp: pk_payout_def payout_delegated_def simp del: wb_ops_simps)
  then have "map payout_value outs = [10, 76]" by (auto simp: word_unat_eq_iff)
  with ok show ?thesis by (intro exI conjI)
qed


lemma ex_response_accepted:
  "\<exists>c. apply_response ex_b3 ex_vf wb_ops (bws_begin ex_contest) ex_ctx ex_response = Ok c"
proof -
  have "pc_start_id ex_pending = 0" "\<not> pc_responded ex_pending" "pc_response_deadline ex_pending = 30"
    "pc_final_cumulative ex_pending = 10" "pc_penalty_amount ex_pending = 3"
    by (simp_all add: ex_pending_def pending_opened_def)
  moreover have "check_capacity ex_payment_edge 3 20 = Ok ()" using ex_settlement by (simp add: check_capacity_Ok)
  moreover have "edge_terms ex_payment_edge = 3" by (simp add: ex_payment_edge_def edge_new_def)
  ultimately have "check_response ex_b3 ex_vf wb_ops (bws_begin ex_contest) ex_ctx ex_response
      = Ok (with_accepted_response ex_pending ex_response)"
    by (simp add: check_response_def ex_response_def ex_certificate_def read_pending_def ex_contest_read Let_def
        check_certificate_def verify_party_def ex_vf_def ex_ctx_def context_with_fees_def del: wb_ops_simps)
  then show ?thesis
    using pending_to_chunk_parse [of "with_accepted_response ex_pending ex_response"]
    by (auto simp: apply_response_def Let_def)
qed


text \<open>C12. Answering and settling exclude each other: at a height where some response to a contest would be
  accepted, no adjudicated close of that edge is, whatever commitment and payouts it carries; once the
  deadline is reached or the contest was answered, no response is accepted any more.\<close>

theorem contest_window_exclusive:
  assumes read: "read_pending_close ops s b3 (ctx_network context) inp = Ok (Some rec)"
  shows "((\<exists>response p. pr_payment_edge response = inp \<and> check_response b3 vf ops s context response = Ok p)
      \<longrightarrow> (\<forall>close commitment. cs_input close = inp
        \<longrightarrow> check_adjudicated b3 ops s context close commitment = Err Proof_ResponseWindowOpen))
    \<and> (pc_responded rec \<or> pc_response_deadline rec \<le> ctx_block_height context
      \<longrightarrow> (\<forall>response. pr_payment_edge response = inp \<longrightarrow> (\<exists>e. check_response b3 vf ops s context response = Err e)))"
proof -
  have only: "\<not> pc_responded rec \<and> ctx_block_height context < pc_response_deadline rec"
    if "check_response b3 vf ops s context response = Ok p" "pr_payment_edge response = inp" for response p
    using check_response_Ok [OF that(1)] read unfolding read_pending_def that(2) by (metis option.inject result.inject(1))
  have "check_adjudicated b3 ops s context close commitment = Err Proof_ResponseWindowOpen"
    if "\<not> pc_responded rec \<and> ctx_block_height context < pc_response_deadline rec" "cs_input close = inp"
    for close commitment
    using that read by (simp add: check_adjudicated_def Let_def read_pending_def)
  then show ?thesis using only result_not_Ok by (metis linorder_not_le)
qed

theorem contest_window_exclusive_witness:
  "(\<forall>outs commitment. check_adjudicated ex_b3 wb_ops (bws_begin ex_contest) ex_ctx
        \<lparr>cs_input = 4, cs_edge = ex_payment_edge, cs_total = 92, cs_outputs = outs\<rparr> commitment
      = Err Proof_ResponseWindowOpen)
    \<and> (\<exists>e. check_response ex_b3 ex_vf wb_ops (bws_begin ex_contest) ex_expired ex_response = Err e)"
proof -
  have edge: "pr_payment_edge ex_response = 4" by (simp add: ex_response_def)
  obtain p where "check_response ex_b3 ex_vf wb_ops (bws_begin ex_contest) ex_ctx ex_response = Ok p"
    using ex_response_accepted by (auto elim: apply_response_Ok)
  with contest_window_exclusive [OF ex_contest_read, of ex_vf ex_ctx] edge
  have "\<forall>close commitment. cs_input close = 4 \<longrightarrow>
      check_adjudicated ex_b3 wb_ops (bws_begin ex_contest) ex_ctx close commitment = Err Proof_ResponseWindowOpen"
    by blast
  then have "\<forall>outs commitment. check_adjudicated ex_b3 wb_ops (bws_begin ex_contest) ex_ctx
        \<lparr>cs_input = 4, cs_edge = ex_payment_edge, cs_total = 92, cs_outputs = outs\<rparr> commitment
      = Err Proof_ResponseWindowOpen"
    by simp
  moreover have "pc_response_deadline ex_pending \<le> ctx_block_height ex_expired"
    by (simp add: ex_pending_def pending_opened_def ex_expired_def)
  with contest_window_exclusive [OF ex_contest_read, of ex_vf ex_expired] edge
  have "\<exists>e. check_response ex_b3 ex_vf wb_ops (bws_begin ex_contest) ex_expired ex_response = Err e" by blast
  ultimately show ?thesis by blast
qed

section \<open>Bonds and leases\<close>

text \<open>Once an open's lease writes are applied, both slots of the bond are taken.\<close>

lemma lease_written:
  assumes a: "apply_open b3 vf ops s context f terms ma ta = Ok c"
    and prof: "terms_profile_of terms = ProfileWorkPayment payment"
    and l: "ledger_of ops s' = change_spec c (ledger_of ops s)"
  shows "\<exists>lease. read_bond_lease ops s' b3 (ctx_network context) (wp_bond_edge payment) = Ok (Some lease)
    \<and> bl_payment_edge lease = edge_id_from b3 f (terms_hash_of terms)"
proof -
  let ?out = "edge_id_from b3 f (terms_hash_of terms)"
  let ?lease = "lease_opened (wp_bond_edge payment) ?out (terms_hash_of terms)
    (wp_private_policy_commitment payment) (wp_admission_horizon payment)"
  let ?slot = "bond_lease_slot b3 (ctx_network context) (wp_bond_edge payment)"
  from a obtain coins and debits :: open_debits and d where
    c: "c = change_with_registry (change_open coins (?out, od_edge debits)) d"
    and d: "open_bond_lease b3 ops s context ?out terms = Ok d" by (rule apply_open_Ok)
  obtain c0 c1 where cm: "create_mutations b3 (ctx_network context) ?lease
      = Some [mutation_write (?slot 0) c0, mutation_write (?slot 1) c1]"
    and parse: "lease_from_chunks (c0, c1) (wp_bond_edge payment) = Ok ?lease"
    using create_mutations_Some [of b3 "ctx_network context" ?lease] by (auto simp: lease_opened_def)
  from d prof cm have "push_mutations [mutation_write (?slot 0) c0, mutation_write (?slot 1) c1] = Ok d"
    by (auto simp: open_bond_lease_def Let_def and_then_eq_Ok map_err_eq_Ok ok_or_eq_Ok split: if_splits)
  then have d: "d = [mutation_write (?slot 0) c0, mutation_write (?slot 1) c1]" by (rule push_mutations_set)
  have coherent: "change_coherent c" using apply_open_balance [OF a] by blast
  have "b_registry_chunk ops s' (?slot 0) = Some c0" "b_registry_chunk ops s' (?slot 1) = Some c1"
    using change_spec_registry(1) [OF coherent, of "mutation_write (?slot 0) c0" "ledger_of ops s"]
      change_spec_registry(1) [OF coherent, of "mutation_write (?slot 1) c1" "ledger_of ops s"]
      arg_cong [OF l, of l_registry]
    by (simp_all add: c d mutation_write_def)
  then have "read_bond_lease ops s' b3 (ctx_network context) (wp_bond_edge payment) = Ok (Some ?lease)"
    using parse by (simp add: read_bond_lease_def Let_def bond_lease_slots_def parse_bond_lease_def)
  then show ?thesis by (auto simp: lease_opened_def)
qed

text \<open>C13. A bond backs one payment edge at a time: once a payment edge was opened against a bond, the lease
  that names it stands, and every other open that names the same bond is rejected, whatever its funding,
  terms and signatures.\<close>

theorem bond_leased_once:
  assumes inv: "bws_inv w" and a: "state_apply b3 vf bws_store w context (TxOpen f terms ma ta) = (Ok outcome, w')"
    and prof: "terms_profile_of terms = ProfileWorkPayment payment" "terms_profile_of terms' = ProfileWorkPayment payment'"
    and bond: "wp_bond_edge payment' = wp_bond_edge payment" and net: "ctx_network context' = ctx_network context"
  shows "(\<exists>lease. read_bond_lease wb_ops (bws_begin w') b3 (ctx_network context) (wp_bond_edge payment) = Ok (Some lease)
      \<and> bl_payment_edge lease = edge_id_from b3 f (terms_hash_of terms))
    \<and> (\<exists>e. state_apply b3 vf' bws_store w' context' (TxOpen f' terms' ma' ta') = (Err e, w'))"
proof -
  obtain c where c: "apply_open b3 vf wb_ops (bws_begin w) context f terms ma ta = Ok c"
    and l: "ledger_of wb_ops (bws_begin w') = change_spec c (ledger_of wb_ops (bws_begin w))"
    using state_apply_spec [OF inv a] by (metis tx_apply.simps(1) ws_ledger_def)
  from lease_written [OF c prof(1) l] obtain lease where
    lease: "read_bond_lease wb_ops (bws_begin w') b3 (ctx_network context) (wp_bond_edge payment) = Ok (Some lease)"
      "bl_payment_edge lease = edge_id_from b3 f (terms_hash_of terms)" by blast
  have "open_bond_lease b3 wb_ops (bws_begin w') context' out terms' \<noteq> Ok d" for out d
    using lease(1) prof(2) bond net by (auto simp: open_bond_lease_def Let_def and_then_eq_Ok map_err_eq_Ok)
  then have "apply_open b3 vf' wb_ops (bws_begin w') context' f' terms' ma' ta' \<noteq> Ok c'" for c'
    by (auto elim: apply_open_Ok)
  then obtain e where "tx_apply b3 vf' wb_ops (bws_begin w') context' (TxOpen f' terms' ma' ta') = Err e"
    using result_not_Ok by (metis tx_apply.simps(1))
  then show ?thesis using state_apply_Err lease by blast
qed

theorem bond_leased_once_witness:
  "\<exists>outcome w' lease e. state_apply ex_b3 ex_vf bws_store ex_bonded ex_ctx ex_payment_open = (Ok outcome, w')
    \<and> read_bond_lease wb_ops (bws_begin w') ex_b3 (ctx_network ex_ctx) 9 = Ok (Some lease)
    \<and> state_apply ex_b3 ex_vf bws_store w' ex_ctx (TxOpen \<lparr>funding_maker = [8], funding_taker = []\<rparr>
        ex_payment_terms ex_owner ex_owner) = (Err e, w')"
proof -
  obtain outcome w' where run: "state_apply ex_b3 ex_vf bws_store ex_bonded ex_ctx ex_payment_open = (Ok outcome, w')"
    using ex_payment_open_state by blast
  note ok = run [unfolded ex_payment_open_def]
  have "bws_inv ex_bonded" by (simp add: bws_inv_def ex_bonded_def)
  from bond_leased_once [OF this ok ex_payment_fields(1) ex_payment_fields(1) refl refl] have
    "\<exists>lease. read_bond_lease wb_ops (bws_begin w') ex_b3 (ctx_network ex_ctx) (wp_bond_edge ex_payment) = Ok (Some lease)"
    "\<exists>e. state_apply ex_b3 ex_vf bws_store w' ex_ctx (TxOpen \<lparr>funding_maker = [8], funding_taker = []\<rparr>
        ex_payment_terms ex_owner ex_owner) = (Err e, w')" by blast+
  moreover have "wp_bond_edge ex_payment = 9" by (simp add: ex_payment_def)
  ultimately show ?thesis using run by metis
qed

lemma check_timeout_bond:
  assumes "check_timeout b3 vf ops s context \<lparr>cs_input = inp, cs_edge = e, cs_total = funded, cs_outputs = outs\<rparr> terms ow = Ok staged"
    and "is_work_bond terms"
  shows "\<exists>committed lease. terms_hash_of terms = edge_terms e
    \<and> read_bond_lease ops s b3 (ctx_network context) inp = Ok lease
    \<and> (edge_timeout e \<le> ctx_block_height context \<or> (\<forall>l. lease = Some l \<longrightarrow> b_edge ops s (bl_payment_edge l) = None))
    \<and> terms_timeout_outputs terms = Some committed
    \<and> outs = (case ow of None \<Rightarrow> committed | Some _ \<Rightarrow> map (\<lambda>p. payout_new (payout_owner p) (payout_value p)) committed)
    \<and> (\<forall>auth. ow = Some auth \<longrightarrow> is_owner auth \<and> verify_party vf auth (parties_maker (edge_parties e))
        (close_payload_hash b3 (ctx_network context) inp Timeout (edge_terms e) outs))
    \<and> staged = (case lease of None \<Rightarrow> [] | Some _ \<Rightarrow> delete_mutations b3 (ctx_network context) inp)"
proof -
  have zip: "outs = map f committed"
    if "length committed = length outs" "\<not> list_ex (\<lambda>(x, y). f x \<noteq> y) (zip committed outs)" for f and committed :: payouts
    using that by (intro nth_equalityI) (auto simp: list_ex_iff in_set_zip)
  from assms obtain lease committed where r: "terms_hash_of terms = edge_terms e"
    "read_bond_lease ops s b3 (ctx_network context) inp = Ok lease" "terms_timeout_outputs terms = Some committed"
    "\<not> (Option.bind lease (\<lambda>l. if b_edge ops s (bl_payment_edge l) \<noteq> None then Some l else None) \<noteq> None
        \<and> ctx_block_height context < edge_timeout e)"
    "length committed = length outs" "\<not> list_ex (\<lambda>(expected, actual).
      (if ow \<noteq> None then payout_new (payout_owner expected) (payout_value expected) else expected) \<noteq> actual) (zip committed outs)"
    "\<forall>auth. ow = Some auth \<longrightarrow> is_owner auth \<and> verify_party vf auth (parties_maker (edge_parties e))
        (close_payload_hash b3 (ctx_network context) inp Timeout (edge_terms e) outs)"
    "staged = (case lease of None \<Rightarrow> [] | Some _ \<Rightarrow> delete_mutations b3 (ctx_network context) inp)"
    by (auto simp: check_timeout_def Let_def and_then_eq_Ok map_err_eq_Ok split: if_splits option.splits)
  have "outs = (case ow of None \<Rightarrow> committed | Some _ \<Rightarrow> map (\<lambda>p. payout_new (payout_owner p) (payout_value p)) committed)"
    using zip [OF r(5,6)] by (cases ow) simp_all
  moreover have "edge_timeout e \<le> ctx_block_height context \<or> (\<forall>l. lease = Some l \<longrightarrow> b_edge ops s (bl_payment_edge l) = None)"
    using r(4) by (auto simp: not_less split: if_splits)
  ultimately show ?thesis using r by blast
qed

text \<open>C23. What releases a bond. A work bond is closed by its timeout only if its lease record can be read, and either
  the bond's own timeout is reached or no lease stands whose payment edge is still live: while one is, and the timeout is
  not reached, or when the record is faulty, every such close is refused. What it pays are the payouts the terms commit to, without
  delegates when a proof of the bond's owner comes with it, which then has to be the maker's signature as owner over the
  exact payouts. The bond is gone afterwards, and its lease with it.\<close>

theorem bond_release:
  assumes inv: "bws_inv w" and bond: "is_work_bond terms"
    and a: "state_apply b3 vf bws_store w context (TxClose inp (TimeoutProof terms ow) outs) = (Ok outcome, w')"
  shows "\<exists>e committed lease. bws_edge w inp = Some e \<and> terms_hash_of terms = edge_terms e
    \<and> read_bond_lease wb_ops (bws_begin w) b3 (ctx_network context) inp = Ok lease
    \<and> (edge_timeout e \<le> ctx_block_height context \<or> (\<forall>l. lease = Some l \<longrightarrow> bws_edge w (bl_payment_edge l) = None))
    \<and> terms_timeout_outputs terms = Some committed
    \<and> outs = (case ow of None \<Rightarrow> committed | Some _ \<Rightarrow> map (\<lambda>p. payout_new (payout_owner p) (payout_value p)) committed)
    \<and> (\<forall>auth. ow = Some auth \<longrightarrow> is_owner auth \<and> verify_party vf auth (parties_maker (edge_parties e))
        (close_payload_hash b3 (ctx_network context) inp Timeout (edge_terms e) outs))
    \<and> bws_edge w' inp = None \<and> read_bond_lease wb_ops (bws_begin w') b3 (ctx_network context) inp = Ok None"
proof -
  let ?net = "ctx_network context"
  obtain c where c: "apply_close b3 vf wb_ops (bws_begin w) context inp (TimeoutProof terms ow) outs = Ok c"
    and l: "ws_ledger w' = change_spec c (ws_ledger w)" and coh: "change_coherent c"
    using state_apply_spec [OF inv a] by (metis tx_apply.simps(2))
  from c obtain e funded staged d where ch: "c = change_with_registry (change_close (inp, e) (close_coins b3 inp outs)) d"
    and e: "b_edge wb_ops (bws_begin w) inp = Some e"
    and st: "check_timeout b3 vf wb_ops (bws_begin w) context \<lparr>cs_input = inp, cs_edge = e, cs_total = funded, cs_outputs = outs\<rparr>
      terms ow = Ok staged"
    and push: "push_mutations staged = Ok d" by (auto simp: check_proof_def elim!: apply_close_Ok)
  from check_timeout_bond [OF st bond] obtain committed lease where
    t: "terms_hash_of terms = edge_terms e" "read_bond_lease wb_ops (bws_begin w) b3 ?net inp = Ok lease"
      "edge_timeout e \<le> ctx_block_height context \<or> (\<forall>l. lease = Some l \<longrightarrow> b_edge wb_ops (bws_begin w) (bl_payment_edge l) = None)"
      "terms_timeout_outputs terms = Some committed"
      "outs = (case ow of None \<Rightarrow> committed | Some _ \<Rightarrow> map (\<lambda>p. payout_new (payout_owner p) (payout_value p)) committed)"
      "\<forall>auth. ow = Some auth \<longrightarrow> is_owner auth \<and> verify_party vf auth (parties_maker (edge_parties e))
        (close_payload_hash b3 ?net inp Timeout (edge_terms e) outs)"
    and staged: "staged = (case lease of None \<Rightarrow> [] | Some _ \<Rightarrow> delete_mutations b3 ?net inp)" by auto
  have reg: "change_registry c = staged" using push_mutations_set [OF push] by (simp add: ch)
  have slots: "bws_registry_chunk w' (bond_lease_slot b3 ?net inp i) = None" if "i = 0 \<or> i = 1" for i
  proof (cases lease)
    case None
    then have "bws_registry_chunk w (bond_lease_slot b3 ?net inp i) = None" using t(2) that by (auto simp: read_bond_lease_None)
    with change_spec_registry(2) [OF coh, of _ "ws_ledger w"] reg staged None l show ?thesis
      by (metis empty_iff image_is_empty list.set(1) option.simps(4) ws_ledger_simps(3))
  next
    case (Some x)
    then have "mutation_delete (bond_lease_slot b3 ?net inp i) \<in> set (change_registry c)"
      using reg staged that by (auto simp: delete_mutations_def bond_lease_slots_def)
    from change_spec_registry(1) [OF coh this, of "ws_ledger w"] l show ?thesis
      by (simp add: mutation_delete_def flip: ws_ledger_simps(3))
  qed
  have "bws_edge w' inp = None" using arg_cong [OF l, of l_edges] by (simp add: ch change_close_def diff_spec_def)
  moreover have "read_bond_lease wb_ops (bws_begin w') b3 ?net inp = Ok None" using slots by (simp add: read_bond_lease_None)
  ultimately show ?thesis using e t by (intro exI [of _ e] exI [of _ committed] exI [of _ lease]) simp
qed

definition ex_bond_close :: tx where
  "ex_bond_close = TxClose 9 (TimeoutProof (terms_work_stake_bond ex_b3 ex_bond) None) [payout_new 2 50]"

definition ex_leased :: "registry_chunk \<Rightarrow> registry_chunk \<Rightarrow> block_working_set" where
  "ex_leased c0 c1 = \<lparr>bws_coins = [2 \<mapsto> None],
    bws_edges = [0 \<mapsto> None, 9 \<mapsto> Some (edge_new 49 8 (fees_new 1 1 1 0) 500 (wsb_parties ex_bond)
      (compute_hash ex_b3 (WorkStakeBond ex_bond)) CKS_WORK_STAKE_BOND)],
    bws_registry = [0 \<mapsto> Some c0, 1 \<mapsto> Some c1]\<rparr>"

lemma ex_bond_close_state:
  assumes "lease_from_chunks (c0, c1) 9 = Ok (lease_opened 9 0 3 0 500)"
  shows "\<exists>outcome w'. state_apply ex_b3 ex_vf bws_store (ex_leased c0 c1) ex_ctx ex_bond_close = (Ok outcome, w')"
    and "read_bond_lease wb_ops (bws_begin (ex_leased c0 c1)) ex_b3 (ctx_network ex_ctx) 9 = Ok (Some (lease_opened 9 0 3 0 500))"
proof -
  show read: "read_bond_lease wb_ops (bws_begin (ex_leased c0 c1)) ex_b3 (ctx_network ex_ctx) 9 = Ok (Some (lease_opened 9 0 3 0 500))"
    using assms by (simp add: read_bond_lease_def Let_def bond_lease_slots_def ex_lease_slot parse_bond_lease_def
        bws_registry_chunk_def ex_leased_def)
  let ?t = "terms_work_stake_bond ex_b3 ex_bond"
  have t: "terms_hash_of ?t = compute_hash ex_b3 (WorkStakeBond ex_bond)" "is_work_bond ?t"
    "terms_timeout_outputs ?t = Some [payout_new 2 50]"
    by (simp_all add: terms_work_stake_bond_def terms_commit_def is_work_bond_def terms_profile_of_def
        terms_timeout_outputs_def ex_bond_def)
  let ?s = "bws_begin (ex_leased c0 c1)" and ?p = "TimeoutProof ?t None" and ?outs = "[payout_new 2 50]"
  let ?e = "edge_new 49 8 (fees_new 1 1 1 0) 500 (wsb_parties ex_bond) (compute_hash ex_b3 (WorkStakeBond ex_bond)) CKS_WORK_STAKE_BOND"
  have live: "b_edge wb_ops ?s 9 = Some ?e" "b_edge wb_ops ?s 0 = None" by (simp_all add: bws_edge_def ex_leased_def)
  have outputs: "check_close_outputs ex_b3 wb_ops ?s 9 ?outs = Ok ()"
    by (simp add: check_close_outputs_def ex_payout_id Let_def payout_new_def payout_delegated_def bws_coin_def ex_leased_def)
  have allows: "edge_allows ?e Timeout" by (simp add: edge_allows_def edge_new_def cks_table)
  have funded: "edge_closes ?e (close_coins ex_b3 9 ?outs) (close_cost 1 ?p) = Ok 50"
    using t(2) by (simp add: edge_closes_def edge_total_def edge_close_value_def ev_close_value_def edge_values_of_def edge_new_def
        close_coins_def close_coin_def ex_payout_id close_cost_def timeout_close_cost_def cost_new_def fees_new_def fees_charge_def
        checked_add_def checked_sub_def checked_mul_def saturating_add_def u64_of_usize_def payout_new_def payout_delegated_def
        payout_coin_def coin_issue_def WORK_BOND_TIMEOUT_EXTRA_SLOTS_def)
  have "check_timeout ex_b3 ex_vf wb_ops ?s ex_ctx \<lparr>cs_input = 9, cs_edge = ?e, cs_total = 50, cs_outputs = ?outs\<rparr> ?t None
      = Ok [mutation_delete 0, mutation_delete 1]"
    using t read live by (simp add: check_timeout_def Let_def lease_opened_def delete_mutations_def bond_lease_slots_def ex_lease_slot
        edge_new_def del: wb_ops_simps)
  then have "tx_apply ex_b3 ex_vf wb_ops ?s ex_ctx ex_bond_close
      = Ok (change_with_registry (change_close (9, ?e) (close_coins ex_b3 9 ?outs)) [mutation_delete 0, mutation_delete 1])"
    using outputs live allows funded push_mutations_two [of "mutation_delete 0" "mutation_delete 1"]
    by (simp add: ex_bond_close_def apply_close_def Let_def check_proof_def mutation_delete_def del: wb_ops_simps)
  then show "\<exists>outcome w'. state_apply ex_b3 ex_vf bws_store (ex_leased c0 c1) ex_ctx ex_bond_close = (Ok outcome, w')"
    by (simp add: state_apply_def fold_one_def fold_change_def change_close_def)
      (simp add: ex_ledger_defs ex_fold_defs bws_begin_def ex_leased_def mutation_delete_def close_coins_def close_coin_def ex_payout_id)
qed

theorem bond_release_witness:
  "\<exists>c0 c1 outcome w'. state_apply ex_b3 ex_vf bws_store (ex_leased c0 c1) ex_ctx ex_bond_close = (Ok outcome, w')
    \<and> read_bond_lease wb_ops (bws_begin (ex_leased c0 c1)) ex_b3 (ctx_network ex_ctx) 9 = Ok (Some (lease_opened 9 0 3 0 500))
    \<and> bws_edge (ex_leased c0 c1) 0 = None
    \<and> read_bond_lease wb_ops (bws_begin w') ex_b3 (ctx_network ex_ctx) 9 = Ok None"
proof -
  obtain c0 c1 where cs: "lease_from_chunks (c0, c1) 9 = Ok (lease_opened 9 0 3 0 500)"
    using create_mutations_Some [of ex_b3 "ctx_network ex_ctx" "lease_opened 9 0 3 0 500"] by (auto simp: lease_opened_def)
  from ex_bond_close_state(1) [OF cs] obtain outcome w' where
    run: "state_apply ex_b3 ex_vf bws_store (ex_leased c0 c1) ex_ctx ex_bond_close = (Ok outcome, w')" by blast
  have "bws_inv (ex_leased c0 c1)" by (simp add: bws_inv_def ex_leased_def)
  moreover have "is_work_bond (terms_work_stake_bond ex_b3 ex_bond)"
    by (simp add: terms_work_stake_bond_def terms_commit_def is_work_bond_def terms_profile_of_def)
  ultimately have "read_bond_lease wb_ops (bws_begin w') ex_b3 (ctx_network ex_ctx) 9 = Ok None"
    using bond_release run [unfolded ex_bond_close_def] by blast
  moreover have "bws_edge (ex_leased c0 c1) 0 = None" by (simp add: bws_edge_def ex_leased_def)
  ultimately show ?thesis using run ex_bond_close_state(2) [OF cs] by blast
qed

end
