(* ===== verification/Ledger_Exits.thy ===== *)
theory Ledger_Exits
  imports Ledger_Authority
begin

text \<open>What a ledger promises its users ahead of time: an open costs what its off-chain projection said, an
  edge can always pay for the closes it allows, and the two registry records, a pending contest and a bond
  lease, read back exactly as they were written and are never mistaken for one another's.\<close>

section \<open>Projecting an open\<close>

definition project_funding :: "(coin_id \<times> coin) list \<Rightarrow> (coin_id \<times> u64) list" where
  "project_funding coins = map (\<lambda>(i, c). (i, coin_value c)) coins"

lemma checked_sum_map: "checked_sum f acc (map g xs) = checked_sum (f \<circ> g) acc xs"
  by (induction xs arbitrary: acc) (auto split: option.splits)

text \<open>C31. An accepted open is what was projected for it: on the coins it spends, the projection at the block's
  height and fees succeeds and names the edge that is created, the values it locks, and fees that together
  with those values are exactly the coins' value.\<close>

theorem open_projection_agrees:
  assumes "apply_open b3 vf ops s context f terms ma ta = Ok c"
  shows "\<exists>maker taker pr e registry. map fst maker = funding_maker f \<and> map fst taker = funding_taker f
    \<and> list_all (\<lambda>(i, coin). b_coin ops s i = Some coin) (maker @ taker)
    \<and> c = change_with_registry (change_open (maker @ taker) (op_edge pr, e)) registry
    \<and> open_projection b3 (ctx_block_height context) (ctx_fees context)
        \<lparr>of_maker = project_funding maker, of_taker = project_funding taker\<rparr> terms = Ok pr
    \<and> op_values pr = edge_values_of e
    \<and> coins_value (maker @ taker) = edge_locked e + unat (op_open_fee pr) + unat (op_lifetime_fee pr)"
proof -
  from assms obtain coins and debits :: open_debits and registry where
    c: "c = change_with_registry (change_open coins (edge_id_from b3 f (terms_hash_of terms), od_edge debits)) registry"
    and ids: "map fst coins = funding_iter f" and coins: "\<forall>x \<in> set coins. b_coin ops s (fst x) = Some (snd x)"
    and d: "compute_open_debits (ctx_block_height context) (ctx_fees context) (funding_len f)
      (checked_sum (\<lambda>(_, c). coin_value c) 0 coins) terms = Ok debits"
    and profile: "check_work_profile_open (od_edge debits) (funding_shape_of f) terms = Ok ()"
    by (rule apply_open_Ok)
  define maker where "maker = take (length (funding_maker f)) coins"
  define taker where "taker = drop (length (funding_maker f)) coins"
  have mt: "maker @ taker = coins" by (simp add: maker_def taker_def)
  have m: "map fst maker = funding_maker f" and t: "map fst taker = funding_taker f"
    using ids by (simp_all add: maker_def taker_def take_map [symmetric] drop_map [symmetric] funding_iter_def)
  let ?fund = "\<lparr>of_maker = project_funding maker, of_taker = project_funding taker\<rparr>"
  have fund: "open_funding_funding ?fund = f"
    using m t by (cases f) (simp add: open_funding_funding_def project_funding_def comp_def case_prod_beta)
  have len: "open_funding_len ?fund = funding_len f"
    using m t by (metis (no_types, lifting) length_map funding_len_def open_funding_len_def open_funding.select_convs project_funding_def)
  have shape: "open_funding_shape ?fund = funding_shape_of f"
    using m t by (auto simp: open_funding_shape_def funding_shape_of_def project_funding_def)
  have total: "open_funding_total ?fund = checked_sum (\<lambda>(_, c). coin_value c) 0 coins"
    using checked_sum_map [of snd 0 "\<lambda>(i, c). (i, coin_value c)" coins]
    by (simp add: open_funding_total_sum project_funding_def comp_def case_prod_unfold mt flip: map_append)
  define pr where "pr = \<lparr>op_edge = edge_id_of b3 f terms, op_open_fee = od_open_fee debits,
        op_lifetime_fee = od_lifetime_fee debits, op_values = edge_values_of (od_edge debits),
        op_timeout_payout = od_timeout_payout debits\<rparr>"
  have pr: "open_projection b3 (ctx_block_height context) (ctx_fees context) ?fund terms = Ok pr"
    using d profile by (simp add: open_projection_def fund len shape total pr_def)
  from compute_open_debits_Ok(1) [OF d] obtain v where v: "checked_sum (\<lambda>(_, c). coin_value c) 0 coins = Some v"
    "unat v = edge_locked (od_edge debits) + unat (od_open_fee debits) + unat (od_lifetime_fee debits)" by blast
  then have value': "coins_value (maker @ taker)
      = edge_locked (od_edge debits) + unat (op_open_fee pr) + unat (op_lifetime_fee pr)"
    by (simp add: mt pr_def coins_value_def checked_sum_Some_iff case_prod_beta del: map_append sum_list_append)
  have all: "list_all (\<lambda>(i, coin). b_coin ops s i = Some coin) (maker @ taker)"
    using coins by (simp add: mt list_all_iff case_prod_beta del: list_all_append)
  show ?thesis
    by (rule exI [of _ maker], rule exI [of _ taker], rule exI [of _ pr], rule exI [of _ "od_edge debits"], rule exI [of _ registry])
      (use m t all pr value' c in \<open>simp add: mt pr_def edge_id_of_def\<close>)
qed

theorem open_projection_agrees_witness:
  "\<exists>pr e. open_projection ex_b3 5 (fees_new 1 1 1 0) \<lparr>of_maker = [(7, 100)], of_taker = []\<rparr> ex_terms = Ok pr
    \<and> op_values pr = edge_values_of e \<and> edge_locked e + unat (op_open_fee pr) + unat (op_lifetime_fee pr) = 100"
proof -
  obtain c where "tx_apply ex_b3 ex_vf wb_ops (bws_begin ex_wallet) ex_ctx ex_open = Ok c"
    using ex_open_state by (rule state_apply_Ok)
  then have "apply_open ex_b3 ex_vf wb_ops (bws_begin ex_wallet) ex_ctx \<lparr>funding_maker = [7], funding_taker = []\<rparr>
      ex_terms ex_owner ex_owner = Ok c" by (simp add: ex_open_def)
  from open_projection_agrees [OF this] obtain maker taker pr e where
    m: "map fst maker = funding_maker \<lparr>funding_maker = [7], funding_taker = []\<rparr>"
      "map fst taker = funding_taker \<lparr>funding_maker = [7], funding_taker = []\<rparr>"
    and coins: "list_all (\<lambda>(i, coin). b_coin wb_ops (bws_begin ex_wallet) i = Some coin) (maker @ taker)"
    and pr: "open_projection ex_b3 (ctx_block_height ex_ctx) (ctx_fees ex_ctx)
      \<lparr>of_maker = project_funding maker, of_taker = project_funding taker\<rparr> ex_terms = Ok pr" "op_values pr = edge_values_of e"
      "coins_value (maker @ taker) = edge_locked e + unat (op_open_fee pr) + unat (op_lifetime_fee pr)" by blast
  have "maker = [(7, coin_issue 1 None 100)]" "taker = []"
    using m coins by (auto simp: bws_coin_def ex_wallet_def)
  then show ?thesis using pr
    by (intro exI [of _ pr] exI [of _ e])
      (simp add: project_funding_def coins_value_def ex_ctx_def context_with_fees_def coin_issue_def)
qed

section \<open>Affording an exit\<close>

text \<open>C30. The reserve is enough: in every ledger the kernel builds, each close an edge allows, with any number
  of outputs and whatever proof of that kind carries it, leaves a value to pay out, which together with the
  price of the close at the edge's own fees is exactly what the edge holds.\<close>

theorem allowed_close_affordable:
  assumes "ledger_ok b3 network T l" "inj_on (compute_hash b3) T" "l_edges l i = Some e"
    and "edge_allows e (proof_kind p)" "n \<le> MAX_EDGE_OUTPUTS"
    and "\<forall>t ow. p = TimeoutProof t ow \<longrightarrow> wf_terms b3 t \<and> terms_body_of t \<in> T \<and> terms_hash_of t = edge_terms e"
  shows "\<exists>v. edge_close_value e (close_cost n p) = Some v
    \<and> unat v + cost_price (edge_close_fees e) (close_cost n p) = edge_locked e"
proof -
  from assms(1,3) obtain terms where t: "wf_terms b3 terms" "terms_body_of terms \<in> T" "opened_under e terms"
    unfolding ledger_ok_def by blast
  show ?thesis
  proof (rule opened_close_value [OF t(3) assms(4,5)])
    fix u ow assume "p = TimeoutProof u ow"
    with assms(6) have u: "wf_terms b3 u" "terms_body_of u \<in> T" "terms_hash_of u = terms_hash_of terms"
      by (auto simp: opened_under_fields(1) [OF t(3)])
    then have "u = terms" using known_terms_unique [OF assms(2) _ t(1) _ t(2)] by blast
    then show "is_work_bond u = is_work_bond terms" by simp
  qed
qed

theorem allowed_close_affordable_witness:
  "\<exists>v. edge_close_value ex_payment_edge (close_cost 2 (AdjudicatedProof 0)) = Some v
    \<and> unat v + cost_price (edge_close_fees ex_payment_edge) (close_cost 2 (AdjudicatedProof 0)) = edge_locked ex_payment_edge"
proof -
  define l where "l = \<lparr>l_coins = Map.empty, l_edges = [4 \<mapsto> ex_payment_edge], l_registry = Map.empty\<rparr>"
  have "wf_terms ex_b3 ex_payment_terms"
    unfolding ex_payment_terms_def terms_work_payment_def
    by (rule wf_terms_commit)
      (simp add: wf_work_payment_terms_def wf_work_stake_bond_terms_def ex_payment_def ex_bond_def wf_payouts_def bound_defs)
  then have "ledger_ok ex_b3 [] {WorkPayment ex_payment} l"
    using ex_opened_under by (auto simp: ledger_ok_def l_def pending_at_def parse_pending_close_def)
  moreover have "edge_allows ex_payment_edge (proof_kind (AdjudicatedProof 0))"
    by (simp add: opened_under_allows [OF ex_opened_under] cks_table)
  ultimately show ?thesis
    using allowed_close_affordable [of ex_b3 "[]" "{WorkPayment ex_payment}" l 4 ex_payment_edge "AdjudicatedProof 0" 2]
    by (simp add: l_def bound_defs)
qed

section \<open>Registry records\<close>

text \<open>C33. A contest record reads back: it has one chunk, whose bytes decode to it, and wherever a store holds
  that chunk in an edge's slot, reading that edge's contest returns the record to the edge it names and a
  fault to any other; only an empty slot reads as no contest.\<close>

theorem pending_record_reads_back:
  "(\<exists>chunk. pending_to_chunk p = Some chunk
      \<and> decode_exact decode_registry_chunk (encode_registry_chunk chunk) = Ok chunk
      \<and> (\<forall>e. b_registry_chunk ops s (pending_payment_close_slot b3 network e) = Some chunk \<longrightarrow>
          read_pending_close ops s b3 network e = (if e = pc_payment_edge p then Ok (Some p) else Err Pending_Edge)))
    \<and> (\<forall>e. read_pending_close ops s b3 network e = Ok None \<longleftrightarrow>
        b_registry_chunk ops s (pending_payment_close_slot b3 network e) = None)"
proof -
  obtain c where c: "pending_to_chunk p = Some c" "wf_registry_chunk c"
    "parse_pending_close (Some c) (pc_payment_edge p) = PendingPresent p"
    "\<forall>e. e \<noteq> pc_payment_edge p \<longrightarrow> parse_pending_close (Some c) e = PendingFaulty Pending_Edge"
    using pending_to_chunk_parse [of p] by blast
  have "decode_exact decode_registry_chunk (encode_registry_chunk c) = Ok c"
    using c(2) by (rule registry_chunk_codec.exact_round_trip)
  moreover have "read_pending_close ops s b3 network e = (if e = pc_payment_edge p then Ok (Some p) else Err Pending_Edge)"
    if "b_registry_chunk ops s (pending_payment_close_slot b3 network e) = Some c" for e
    using that c by (simp add: read_pending_close_def)
  ultimately show ?thesis using c(1) by (simp add: read_pending_close_None)
qed

theorem pending_record_reads_back_witness:
  "read_pending_close wb_ops (bws_begin ex_contest) ex_b3 [] 4 = Ok (Some ex_pending)
    \<and> read_pending_close wb_ops (bws_begin ex_contest) ex_b3 [] 3 = Err Pending_Edge"
proof -
  have edge: "pc_payment_edge ex_pending = 4" by (simp add: ex_pending_def pending_opened_def)
  have "b_registry_chunk wb_ops (bws_begin ex_contest) (pending_payment_close_slot ex_b3 [] e) = pending_to_chunk ex_pending" for e
    by (simp add: ex_pending_slot bws_registry_chunk_def ex_contest_def)
  then show ?thesis using pending_record_reads_back [of ex_pending wb_ops "bws_begin ex_contest" ex_b3 "[]"] edge by auto
qed

text \<open>C34. A bond lease reads back: it has two chunks, both decodable from their bytes, and wherever a store
  holds both in the bond's slots, reading the bond's lease returns it; one chunk alone is a fault, and only
  two empty slots read as no lease.\<close>

theorem lease_record_reads_back:
  "(\<exists>c0 c1. lease_to_chunks l = Some (c0, c1)
      \<and> decode_exact decode_registry_chunk (encode_registry_chunk c0) = Ok c0
      \<and> decode_exact decode_registry_chunk (encode_registry_chunk c1) = Ok c1
      \<and> (b_registry_chunk ops s (bond_lease_slot b3 network (bl_bond_edge l) 0) = Some c0
        \<and> b_registry_chunk ops s (bond_lease_slot b3 network (bl_bond_edge l) 1) = Some c1 \<longrightarrow>
          read_bond_lease ops s b3 network (bl_bond_edge l) = Ok (Some l)))
    \<and> (\<forall>e. read_bond_lease ops s b3 network e = Ok None \<longleftrightarrow>
        b_registry_chunk ops s (bond_lease_slot b3 network e 0) = None
        \<and> b_registry_chunk ops s (bond_lease_slot b3 network e 1) = None)
    \<and> (\<forall>e. (b_registry_chunk ops s (bond_lease_slot b3 network e 0) = None)
        \<noteq> (b_registry_chunk ops s (bond_lease_slot b3 network e 1) = None) \<longrightarrow>
        read_bond_lease ops s b3 network e = Err Lease_Partial)"
proof -
  obtain c0 c1 where c: "lease_to_chunks l = Some (c0, c1)" "wf_registry_chunk c0" "wf_registry_chunk c1"
    "lease_from_chunks (c0, c1) (bl_bond_edge l) = Ok l" using lease_to_chunks_parse [of l] by blast
  have "read_bond_lease ops s b3 network (bl_bond_edge l) = Ok (Some l)"
    if "b_registry_chunk ops s (bond_lease_slot b3 network (bl_bond_edge l) 0) = Some c0"
      "b_registry_chunk ops s (bond_lease_slot b3 network (bl_bond_edge l) 1) = Some c1"
    using that c(4) by (simp add: read_bond_lease_def Let_def bond_lease_slots_def parse_bond_lease_def)
  moreover have "read_bond_lease ops s b3 network e = Err Lease_Partial"
    if "(b_registry_chunk ops s (bond_lease_slot b3 network e 0) = None)
        \<noteq> (b_registry_chunk ops s (bond_lease_slot b3 network e 1) = None)" for e
    using that by (auto simp: read_bond_lease_def Let_def bond_lease_slots_def parse_bond_lease_def)
  ultimately show ?thesis
    using c(1) registry_chunk_codec.exact_round_trip [OF c(2)] registry_chunk_codec.exact_round_trip [OF c(3)]
    by (simp add: read_bond_lease_None)
qed

theorem lease_record_reads_back_witness:
  "\<exists>w. read_bond_lease wb_ops (bws_begin w) ex_b3 [] 9 = Ok (Some (lease_opened 9 4 3 0 500))"
proof -
  let ?l = "lease_opened 9 4 3 0 500"
  have e: "bl_bond_edge ?l = 9" by (simp add: lease_opened_def)
  obtain c0 c1 where c: "lease_to_chunks ?l = Some (c0, c1)" using lease_to_chunks_parse [of ?l] by blast
  define w where "w = \<lparr>bws_coins = Map.empty, bws_edges = Map.empty, bws_registry = [0 \<mapsto> Some c0, 1 \<mapsto> Some c1]\<rparr>"
  have "bws_registry_chunk w 0 = Some c0" "bws_registry_chunk w 1 = Some c1"
    by (simp_all add: bws_registry_chunk_def w_def)
  then have "read_bond_lease wb_ops (bws_begin w) ex_b3 [] 9 = Ok (Some ?l)"
    using lease_record_reads_back [of ?l wb_ops "bws_begin w" ex_b3 "[]"] c by (simp add: e ex_lease_slot)
  then show ?thesis by blast
qed

end
