(* ===== verification/Kernel_Messages.thy ===== *)
theory Kernel_Messages
  imports Kernel_Examples
begin

text \<open>What parties sign, and what travels: the seven messages a key of the kernel ever authorises, each
  under its own domain and bound to a network, and the canonical form of a transaction. The properties are
  that one signature covers one message, that the streamed hasher never refuses a message, and that a
  transaction has exactly one encoding.\<close>

section \<open>The messages under signature\<close>

datatype signed_message =
    MsgOpen network_id edge_id
  | MsgClose network_id edge_id close_kind terms_hash payouts
  | MsgReshape network_id "coin_id list" payouts
  | MsgCertificate network_id earned_certificate
  | MsgStart network_id edge_id terms_hash party "u64 \<times> u64" payload_hash
  | MsgResponse network_id edge_id terms_hash start_id party payload_hash
  | MsgFreeze network_id edge_id terms_hash u64 "u64 \<times> u64"

fun message_network :: "signed_message \<Rightarrow> network_id" where
  "message_network (MsgOpen n _) = n"
| "message_network (MsgClose n _ _ _ _) = n"
| "message_network (MsgReshape n _ _) = n"
| "message_network (MsgCertificate n _) = n"
| "message_network (MsgStart n _ _ _ _ _) = n"
| "message_network (MsgResponse n _ _ _ _ _) = n"
| "message_network (MsgFreeze n _ _ _ _) = n"

fun message_preimage :: "blake3 \<Rightarrow> signed_message \<Rightarrow> bytes" where
  "message_preimage b3 (MsgOpen n e) = open_preimage n e"
| "message_preimage b3 (MsgClose n e k t outs) = close_preimage n e k t outs"
| "message_preimage b3 (MsgReshape n ins outs) = reshape_payload_preimage n ins outs"
| "message_preimage b3 (MsgCertificate n c) = earned_preimage n c"
| "message_preimage b3 (MsgStart n e t r v h) = start_preimage n e t r v h"
| "message_preimage b3 (MsgResponse n e t i r h) = response_preimage n e t i r h"
| "message_preimage b3 (MsgFreeze n e t amount v) = freeze_preimage b3 n e t amount v"

fun wf_message :: "signed_message \<Rightarrow> bool" where
  "wf_message (MsgClose n _ _ _ outs) \<longleftrightarrow> wf_network_id n \<and> wf_payouts outs"
| "wf_message (MsgReshape n ins outs) \<longleftrightarrow> wf_network_id n \<and> length ins \<le> MAX_EDGE_INPUTS \<and> wf_payouts outs"
| "wf_message m \<longleftrightarrow> wf_network_id (message_network m)"

text \<open>The settlement a freeze message names is itself a commitment; it adds one preimage.\<close>

fun message_preimages :: "blake3 \<Rightarrow> signed_message \<Rightarrow> bytes set" where
  "message_preimages b3 (MsgFreeze n e t amount v) =
    {freeze_preimage b3 n e t amount v, settlement_preimage n e t amount}"
| "message_preimages b3 m = {message_preimage b3 m}"

fun message_digest :: "blake3 \<Rightarrow> signed_message \<Rightarrow> payload_hash" where
  "message_digest b3 (MsgOpen n e) = xet_commit b3 (open_preimage n e)"
| "message_digest b3 (MsgClose n e k t outs) = close_payload_hash b3 n e k t outs"
| "message_digest b3 (MsgReshape n ins outs) = reshape_payload_hash b3 n ins outs"
| "message_digest b3 (MsgCertificate n c) = certificate_digest b3 n c"
| "message_digest b3 (MsgStart n e t r v h) = start_digest b3 n e t r v h"
| "message_digest b3 (MsgResponse n e t i r h) = response_digest b3 n e t i r h"
| "message_digest b3 (MsgFreeze n e t amount v) = freeze_digest b3 n e t amount v"

lemma message_digest_commit: "message_digest b3 m = xet_commit b3 (message_preimage b3 m)"
  by (cases m) (simp_all add: close_payload_hash_def reshape_payload_hash_def certificate_digest_def
      start_digest_def response_digest_def freeze_digest_def)

text \<open>The domains as bytes: no two of them are prefixes of each other.\<close>

fun message_domain :: "signed_message \<Rightarrow> bytes" where
  "message_domain (MsgOpen _ _) = OPEN_DOMAIN"
| "message_domain (MsgClose _ _ _ _ _) = CLOSE_DOMAIN"
| "message_domain (MsgReshape _ _ _) = OWNER_RESHAPE"
| "message_domain (MsgCertificate _ _) = WORK_EARNED_CERTIFICATE"
| "message_domain (MsgStart _ _ _ _ _ _) = WORK_START_PAYMENT_CLOSE"
| "message_domain (MsgResponse _ _ _ _ _ _) = WORK_RESPOND_PAYMENT_CLOSE"
| "message_domain (MsgFreeze _ _ _ _ _) = WORK_FREEZE_CLOSE"

fun message_body :: "blake3 \<Rightarrow> signed_message \<Rightarrow> bytes" where
  "message_body b3 (MsgOpen n e) = encode_edge_id e"
| "message_body b3 (MsgClose n e k t outs) =
    encode_edge_id e @ encode_u8 (close_kind_tag k) @ encode_terms_hash t @ encode_payouts outs"
| "message_body b3 (MsgReshape n ins outs) = encode_edge_inputs ins @ encode_payouts outs"
| "message_body b3 (MsgCertificate n c) =
    encode_edge_id (ec_payment_edge c) @ encode_terms_hash (ec_payment_terms_hash c) @ encode_earned_certificate c"
| "message_body b3 (MsgStart n e t r v h) = encode_edge_id e @ encode_terms_hash t @ encode_party r
    @ encode_u64 (fst v) @ encode_u64 (snd v) @ encode_payload_hash h"
| "message_body b3 (MsgResponse n e t i r h) = encode_edge_id e @ encode_terms_hash t @ encode_start_id i
    @ encode_party r @ encode_payload_hash h"
| "message_body b3 (MsgFreeze n e t amount v) = encode_edge_id e @ encode_terms_hash t
    @ encode_bytes32 (settlement_commitment b3 n e t amount) @ encode_u64 (fst v) @ encode_u64 (snd v)"

lemma message_preimage_parts:
  "message_preimage b3 m = message_domain m @ encode_network_id (message_network m) @ message_body b3 m"
  by (cases m) (simp_all add: open_preimage_def close_preimage_def reshape_payload_preimage_def earned_preimage_def
      start_preimage_def response_preimage_def freeze_preimage_def)

lemma domain_prefix:
  "take 13 OPEN_DOMAIN = [104, 101, 108, 108, 97, 115, 46, 101, 100, 103, 101, 46, 111]"
  "take 13 CLOSE_DOMAIN = [104, 101, 108, 108, 97, 115, 46, 101, 100, 103, 101, 46, 99]"
  "take 13 OWNER_RESHAPE = [104, 101, 108, 108, 97, 115, 46, 111, 119, 110, 101, 114, 46]"
  "take 13 WORK_EARNED_CERTIFICATE = [104, 101, 108, 108, 97, 115, 46, 119, 111, 114, 107, 46, 101]"
  "take 13 WORK_START_PAYMENT_CLOSE = [104, 101, 108, 108, 97, 115, 46, 119, 111, 114, 107, 46, 115]"
  "take 13 WORK_RESPOND_PAYMENT_CLOSE = [104, 101, 108, 108, 97, 115, 46, 119, 111, 114, 107, 46, 114]"
  "take 13 WORK_FREEZE_CLOSE = [104, 101, 108, 108, 97, 115, 46, 119, 111, 114, 107, 46, 102]"
  by (simp_all add: domain_defs ascii_def)

lemma message_domain_prefix: "take 13 (message_preimage b3 m) = take 13 (message_domain m)"
proof -
  have "13 \<le> length (message_domain m)" by (cases m) (simp_all add: domain_defs ascii_def)
  then show ?thesis by (simp add: message_preimage_parts)
qed

lemma domain_distinct:
  "distinct [OPEN_DOMAIN, CLOSE_DOMAIN, OWNER_RESHAPE, WORK_EARNED_CERTIFICATE, WORK_START_PAYMENT_CLOSE,
    WORK_RESPOND_PAYMENT_CLOSE, WORK_FREEZE_CLOSE]"
proof -
  let ?ds = "[OPEN_DOMAIN, CLOSE_DOMAIN, OWNER_RESHAPE, WORK_EARNED_CERTIFICATE, WORK_START_PAYMENT_CLOSE,
    WORK_RESPOND_PAYMENT_CLOSE, WORK_FREEZE_CLOSE]"
  have "distinct (map (take 13) ?ds)" by (simp add: domain_prefix)
  then show ?thesis by (simp only: distinct_map)
qed

lemma message_domain_separates:
  assumes "message_preimage b3 m = message_preimage b3 m'"
  shows "message_domain m = message_domain m'"
proof -
  have "take 13 (message_domain m) = take 13 (message_domain m')"
    using assms message_domain_prefix by metis
  then show ?thesis by (cases m; cases m'; simp add: domain_prefix)
qed

lemma close_kind_tag_inject [simp]: "close_kind_tag a = close_kind_tag b \<longleftrightarrow> a = b"
  by (cases a; cases b) simp_all

lemmas message_prefix_free =
  edge_id_codec.prefix_free [OF TrueI TrueI] terms_hash_codec.prefix_free [OF TrueI TrueI]
  u8_codec.prefix_free [OF TrueI TrueI] u64_codec.prefix_free [OF TrueI TrueI]
  party_codec.prefix_free [OF TrueI TrueI] bytes32_codec.prefix_free [OF TrueI TrueI]
  start_id_codec.prefix_free [OF TrueI TrueI]

lemmas message_enc_inj =
  edge_id_codec.enc_inj [OF TrueI TrueI] u64_codec.enc_inj [OF TrueI TrueI]
  payload_hash_codec.enc_inj [OF TrueI TrueI] earned_certificate_codec.enc_inj [OF TrueI TrueI]

text \<open>Within one kind and network the body determines the message; a freeze's settlement commitment does so
  as far as the commitment does not collide.\<close>

lemma message_body_inject:
  assumes same: "message_domain m = message_domain m'" "message_network m = message_network m'"
    "message_body b3 m = message_body b3 m'" and wf: "wf_message m" "wf_message m'"
    and settled: "\<And>n e t a v a' v'. m = MsgFreeze n e t a v \<Longrightarrow> m' = MsgFreeze n e t a' v' \<Longrightarrow>
      settlement_commitment b3 n e t a = settlement_commitment b3 n e t a' \<Longrightarrow> a = a'"
  shows "m = m'"
proof (cases m)
  case (MsgOpen n e)
  with same domain_distinct show ?thesis by (cases m') (auto dest!: message_enc_inj)
next
  case (MsgClose n e k t outs)
  with same wf domain_distinct show ?thesis
    by (cases m') (auto dest!: message_prefix_free payouts_codec.enc_inj [rotated 2])
next
  case (MsgReshape n ins outs)
  with same wf domain_distinct show ?thesis
    by (cases m') (auto dest!: edge_inputs_codec.prefix_free [rotated 2] payouts_codec.enc_inj [rotated 2])
next
  case (MsgCertificate n c)
  with same domain_distinct show ?thesis by (cases m') (auto dest!: message_prefix_free message_enc_inj)
next
  case (MsgStart n e t r v h)
  with same domain_distinct show ?thesis
    by (cases m') (auto dest!: message_prefix_free message_enc_inj simp: prod_eq_iff)
next
  case (MsgResponse n e t i r h)
  with same domain_distinct show ?thesis by (cases m') (auto dest!: message_prefix_free message_enc_inj)
next
  case (MsgFreeze n e t a v)
  with same settled domain_distinct show ?thesis
    by (cases m') (auto dest!: message_prefix_free message_enc_inj simp: prod_eq_iff)
qed

text \<open>C29. One signature covers one message: as far as the commitment does not collide on the preimages
  involved, two well-formed messages have the same digest only when they are the same message, of the same
  kind, for the same network and with the same contents.\<close>

theorem message_digest_separates:
  assumes "wf_message m" "wf_message m'"
    and "inj_on (xet_commit b3) (message_preimages b3 m \<union> message_preimages b3 m')"
  shows "message_digest b3 m = message_digest b3 m' \<longleftrightarrow> m = m'"
proof
  assume "message_digest b3 m = message_digest b3 m'"
  moreover have "message_preimage b3 m \<in> message_preimages b3 m" for m by (cases m) simp_all
  ultimately have eq: "message_preimage b3 m = message_preimage b3 m'"
    using assms(3) by (auto simp: message_digest_commit dest: inj_onD)
  then have d: "message_domain m = message_domain m'" by (rule message_domain_separates)
  have "wf_network_id (message_network m)" if "wf_message m" for m using that by (cases m) simp_all
  with eq d assms(1,2) have "message_network m = message_network m' \<and> message_body b3 m = message_body b3 m'"
    by (auto simp: message_preimage_parts dest!: encode_network_id_prefix_free [rotated 2])
  then show "m = m'"
  proof (intro message_body_inject [OF d _ _ assms(1,2)])
    fix n e t a v a' v'
    assume m: "m = MsgFreeze n e t a v" "m' = MsgFreeze n e t a' v'"
      and c: "settlement_commitment b3 n e t a = settlement_commitment b3 n e t a'"
    have "settlement_preimage n e t a = settlement_preimage n e t a'"
      by (rule inj_onD [OF assms(3) c [unfolded settlement_commitment_def]]) (simp_all add: m)
    then show "a = a'" by (auto simp: settlement_preimage_def dest: message_enc_inj)
  qed auto
qed simp

theorem message_digest_separates_witness:
  "message_digest ex_b3 (MsgOpen (ascii ''a'') 1) \<noteq> message_digest ex_b3 (MsgOpen (ascii ''a'') 2)"
proof -
  let ?m = "\<lambda>e. MsgOpen (ascii ''a'') e"
  have wf: "wf_message (?m e)" for e
    by (simp add: wf_network_id_def network_id_new_def ascii_def MAX_NETWORK_ID_LENGTH_def)
  have "inj_on (xet_commit ex_b3) (message_preimages ex_b3 (?m 1) \<union> message_preimages ex_b3 (?m 2))"
    by (simp add: inj_on_def open_preimage_def ex_commit ex_encodings last_byte_def)
  from message_digest_separates [OF wf wf this] show ?thesis by simp
qed

lemmas message_sizes = domain_defs codec_lengths primitive_sizes id_sizes bound_defs MIN_CHUNK_SIZE_def
  max_encoded_size_network_id_def MAX_NETWORK_ID_LENGTH_def max_encoded_size_payouts_def max_encoded_size_list_def
  max_encoded_size_payout_def max_encoded_size_edge_inputs_def max_encoded_size_option_def

text \<open>C36. The streamed hasher, which panics at the chunk bound, never does so on a message: fed the preimage
  of any well-formed message in any pieces, it returns that message's digest.\<close>

theorem message_streams:
  assumes "wf_message m" "concat parts = message_preimage b3 m"
  shows "map_option (sch_finalize b3) (sch_updates sch_new parts) = Some (message_digest b3 m)"
proof -
  have net: "wf_network_id (message_network m)" using assms(1) by (cases m) simp_all
  have payouts: "length (encode_payouts outs) \<le> max_encoded_size_payouts" if "wf_payouts outs" for outs
    using payouts_codec.sized [OF that] payouts_codec.bounded [OF that] by simp
  have inputs: "length (encode_edge_inputs ins) \<le> max_encoded_size_edge_inputs" if "length ins \<le> MAX_EDGE_INPUTS" for ins
    using edge_inputs_codec.sized edge_inputs_codec.bounded that by (metis (no_types, lifting))
  have "length (message_preimage b3 m) < MIN_CHUNK_SIZE"
    using assms(1) net work_preimages_fit_one_chunk encode_network_id_le [OF net]
  proof (cases m)
    case (MsgClose n e k t outs)
    then show ?thesis using assms(1) encode_network_id_le [OF net] payouts [of outs]
      by (simp add: close_preimage_def message_sizes)
  next
    case (MsgReshape n ins outs)
    then show ?thesis using assms(1) encode_network_id_le [OF net] payouts [of outs] inputs [of ins]
      by (simp add: reshape_payload_preimage_def message_sizes)
  qed (simp_all add: open_preimage_def message_sizes)
  then show ?thesis using assms(2) by (simp add: sch_updates_commit message_digest_commit)
qed

theorem message_streams_witness:
  "map_option (sch_finalize ex_b3) (sch_updates sch_new [OPEN_DOMAIN, encode_network_id (ascii ''a''), encode_edge_id 1])
    = Some (message_digest ex_b3 (MsgOpen (ascii ''a'') 1))"
  by (rule message_streams)
    (simp_all add: wf_network_id_def network_id_new_def ascii_def MAX_NETWORK_ID_LENGTH_def open_preimage_def)

section \<open>The canonical transaction\<close>

text \<open>C35. A transaction has exactly one encoding: bytes decode to a transaction, with nothing left over, just
  when that transaction is well formed and the bytes are its encoding; and then they respect the declared
  maximum size.\<close>

theorem tx_decode_exact:
  "decode_exact (decode_tx b3) buf = Ok t \<longleftrightarrow>
    wf_tx b3 t \<and> buf = encode_tx t \<and> length buf \<le> max_encoded_size_tx"
  using tx_codec.exact_iff [of b3 buf t] tx_codec.sized [of b3 t] tx_codec.bounded [of b3 t] by auto

end
