(* ===== verification/Kernel_View.thy ===== *)
theory Kernel_View
  imports Kernel_Examples
begin

text \<open>The read-only view of a store (src/crates/kernel/src/view.rs): bounded arrays of live objects, packed
  and sorted by identifier, and the reassembly of a registry value from its chunks. A value is handed out
  exactly when every one of its chunks sits in its own slot and the slot past the end is empty.\<close>

section \<open>Definitions\<close>

record view =
  vw_coins :: "(coin_id \<times> coin) option list"
  vw_edges :: "(edge_id \<times> edge) option list"
  vw_registry :: "(registry_chunk_id \<times> registry_chunk) option list"

text \<open>The sort is unstable, so the order of equal identifiers is not fixed by the code; live identifiers
  are distinct.\<close>

definition pack_sorted :: "('k :: linorder \<times> 'v) option list \<Rightarrow> ('k \<times> 'v) option list" where
  "pack_sorted items =
    (let live = sort_key fst (List.map_filter id items)
     in map Some live @ replicate (length items - length live) None)"

definition view_with_registry ::
  "(coin_id \<times> coin) option list \<Rightarrow> (edge_id \<times> edge) option list
    \<Rightarrow> (registry_chunk_id \<times> registry_chunk) option list \<Rightarrow> view" where
  "view_with_registry coins edges registry =
    \<lparr>vw_coins = pack_sorted coins, vw_edges = pack_sorted edges, vw_registry = pack_sorted registry\<rparr>"

definition view_new :: "(coin_id \<times> coin) option list \<Rightarrow> (edge_id \<times> edge) option list \<Rightarrow> view" where
  "view_new coins edges = view_with_registry coins edges []"

definition view_coins :: "view \<Rightarrow> (coin_id \<times> coin) list" where
  "view_coins v = List.map_filter id (vw_coins v)"

definition view_edges :: "view \<Rightarrow> (edge_id \<times> edge) list" where
  "view_edges v = List.map_filter id (vw_edges v)"

definition view_registry_chunks :: "view \<Rightarrow> (registry_chunk_id \<times> registry_chunk) list" where
  "view_registry_chunks v = List.map_filter id (vw_registry v)"

definition view_coin :: "view \<Rightarrow> coin_id \<Rightarrow> coin option" where
  "view_coin v i = map_option snd (find (\<lambda>(k, _). k = i) (view_coins v))"

definition view_edge :: "view \<Rightarrow> edge_id \<Rightarrow> edge option" where
  "view_edge v i = map_option snd (find (\<lambda>(k, _). k = i) (view_edges v))"

definition view_registry_chunk :: "view \<Rightarrow> registry_chunk_id \<Rightarrow> registry_chunk option" where
  "view_registry_chunk v i = map_option snd (find (\<lambda>(k, _). k = i) (view_registry_chunks v))"

definition view_coin_len :: "view \<Rightarrow> nat" where "view_coin_len v = length (view_coins v)"
definition view_edge_len :: "view \<Rightarrow> nat" where "view_edge_len v = length (view_edges v)"
definition view_registry_len :: "view \<Rightarrow> nat" where "view_registry_len v = length (view_registry_chunks v)"

subsection \<open>Reassembling a value\<close>

text \<open>The loop over the chunks writes into the caller's buffer, also on the way to a refusal: it returns how
  much it wrote, if it ran to the end, and the buffer.\<close>

definition sibling_of :: "registry_namespace \<Rightarrow> registry_chunk \<Rightarrow> byte \<Rightarrow> registry_chunk \<Rightarrow> bool" where
  "sibling_of ns head index chunk \<longleftrightarrow>
    \<not> (rc_namespace chunk \<noteq> ns \<or> rc_record_tag chunk \<noteq> rc_record_tag head \<or> rc_chunk_index chunk \<noteq> index
      \<or> rc_chunk_count chunk \<noteq> rc_chunk_count head \<or> rc_value_len chunk \<noteq> rc_value_len head)"

fun registry_value_loop ::
  "(byte \<Rightarrow> registry_chunk option) \<Rightarrow> registry_namespace \<Rightarrow> registry_chunk \<Rightarrow> byte list \<Rightarrow> nat \<Rightarrow> bytes
    \<Rightarrow> nat option \<times> bytes" where
  "registry_value_loop at ns head [] written buf = (Some written, buf)"
| "registry_value_loop at ns head (index # rest) written buf =
    (case at index of
       None \<Rightarrow> (None, buf)
     | Some chunk \<Rightarrow>
         if \<not> sibling_of ns head index chunk then (None, buf)
         else let end' = written + length (chunk_data chunk) in
           if length buf < end' then (None, buf)
           else registry_value_loop at ns head rest end'
             (take written buf @ chunk_data chunk @ drop end' buf))"

definition view_slot ::
  "blake3 \<Rightarrow> view \<Rightarrow> network_id \<Rightarrow> registry_namespace \<Rightarrow> bytes32 \<Rightarrow> byte \<Rightarrow> registry_chunk option" where
  "view_slot b3 v network ns key index = view_registry_chunk v (registry_chunk_id_derive b3 network ns key index)"

definition registry_value ::
  "blake3 \<Rightarrow> view \<Rightarrow> network_id \<Rightarrow> registry_namespace \<Rightarrow> bytes32 \<Rightarrow> bytes
    \<Rightarrow> (registry_record_tag \<times> bytes) option \<times> bytes" where
  "registry_value b3 v network ns key buf =
    (let at = view_slot b3 v network ns key in
     case at 0 of
       None \<Rightarrow> (None, buf)
     | Some head \<Rightarrow>
         let count = rc_chunk_count head in
         (case registry_value_loop at ns head (map of_nat [0..<unat count]) 0 buf of
            (None, buf) \<Rightarrow> (None, buf)
          | (Some written, buf) \<Rightarrow>
              if written \<noteq> unat (rc_value_len head) then (None, buf)
              else if count < 255 \<and> at count \<noteq> None then (None, buf)
              else if length buf < written then (None, buf)
              else (Some (rc_record_tag head, take written buf), buf)))"

section \<open>Lemmas\<close>

lemma map_filter_pack: "List.map_filter id (map Some xs @ replicate n None) = xs"
  by (induction xs) (simp_all add: map_filter_simps, simp add: List.map_filter_def)

lemma live_pack_sorted: "List.map_filter id (pack_sorted items) = sort_key fst (List.map_filter id items)"
  by (simp add: pack_sorted_def Let_def map_filter_pack)

lemma find_key: "map_option snd (find (\<lambda>(k, _). k = i) xs) = map_of xs i"
  by (induction xs) auto

lemma map_of_sort_key:
  assumes "distinct (map fst xs)" shows "map_of (sort_key fst xs) = map_of xs"
proof -
  have "distinct (map fst (sort_key fst xs))" using assms by (simp add: distinct_map inj_on_def)
  then show ?thesis using assms map_of_eqI by (metis map_of_inject_set set_sort)
qed

text \<open>Looking an object up in a view is looking it up among the live entries the view was built from.\<close>

lemma view_lookup:
  assumes "distinct (map fst (List.map_filter id coins))" "distinct (map fst (List.map_filter id edges))"
    "distinct (map fst (List.map_filter id registry))"
  shows "view_coin (view_with_registry coins edges registry) = map_of (List.map_filter id coins)"
    and "view_edge (view_with_registry coins edges registry) = map_of (List.map_filter id edges)"
    and "view_registry_chunk (view_with_registry coins edges registry) = map_of (List.map_filter id registry)"
  using assms
  by (auto simp: view_coin_def view_edge_def view_registry_chunk_def view_coins_def view_edges_def
      view_registry_chunks_def view_with_registry_def live_pack_sorted find_key map_of_sort_key)

subsection \<open>The loop\<close>

lemma splice:
  assumes "a + length d \<le> length b"
  defines "b' \<equiv> take a b @ d @ drop (a + length d) b"
  shows "length b' = length b" "take (a + length d) b' = take a b @ d"
    and "a + length d \<le> w \<Longrightarrow> drop w b' = drop w b"
proof -
  have a: "a \<le> length b" using assms(1) by simp
  then show "length b' = length b" "take (a + length d) b' = take a b @ d"
    using assms(1) by (simp_all add: b'_def)
  assume w: "a + length d \<le> w"
  have "drop (a + length d) b' = drop (a + length d) b" using a by (simp add: b'_def)
  then have "drop (w - (a + length d)) (drop (a + length d) b') = drop (w - (a + length d)) (drop (a + length d) b)" by simp
  then show "drop w b' = drop w b" using w by simp
qed

lemma registry_value_loop_Some:
  assumes "registry_value_loop at ns head is written buf = (Some w, buf')" "written \<le> length buf"
  shows "(\<forall>i \<in> set is. \<exists>c. at i = Some c \<and> sibling_of ns head i c)
    \<and> w = written + length (concat (map (\<lambda>i. chunk_data (the (at i))) is)) \<and> w \<le> length buf
    \<and> buf' = take written buf @ concat (map (\<lambda>i. chunk_data (the (at i))) is) @ drop w buf"
  using assms
proof (induction "is" arbitrary: written buf)
  case (Cons i "is")
  then obtain c where c: "at i = Some c" "sibling_of ns head i c" "written + length (chunk_data c) \<le> length buf"
    and rest: "registry_value_loop at ns head is (written + length (chunk_data c))
      (take written buf @ chunk_data c @ drop (written + length (chunk_data c)) buf) = (Some w, buf')"
    by (auto simp: Let_def split: option.splits if_splits)
  note sp = splice [OF c(3)]
  from Cons.IH [OF rest] c(3) have "(\<forall>i \<in> set is. \<exists>c. at i = Some c \<and> sibling_of ns head i c)
    \<and> w = written + length (chunk_data c) + length (concat (map (\<lambda>i. chunk_data (the (at i))) is)) \<and> w \<le> length buf
    \<and> buf' = (take written buf @ chunk_data c) @ concat (map (\<lambda>i. chunk_data (the (at i))) is) @ drop w buf"
    by (simp only: sp) (auto simp: sp(3))
  then show ?case using c by simp
qed simp

lemma registry_value_loop_complete:
  assumes "\<forall>i \<in> set is. \<exists>c. at i = Some c \<and> sibling_of ns head i c"
    and "written + length (concat (map (\<lambda>i. chunk_data (the (at i))) is)) \<le> length buf"
  shows "\<exists>w buf'. registry_value_loop at ns head is written buf = (Some w, buf')"
  using assms
proof (induction "is" arbitrary: written buf)
  case (Cons i "is")
  then obtain c where c: "at i = Some c" "sibling_of ns head i c" by auto
  with Cons.prems(2) have "written + length (chunk_data c) \<le> length buf" by simp
  note sp = splice [OF this]
  have "\<exists>w buf'. registry_value_loop at ns head is (written + length (chunk_data c))
      (take written buf @ chunk_data c @ drop (written + length (chunk_data c)) buf) = (Some w, buf')"
    by (rule Cons.IH) (use Cons.prems c in \<open>simp_all only: sp, auto\<close>)
  then show ?case using c sp \<open>written + length (chunk_data c) \<le> length buf\<close> by (simp add: Let_def)
qed simp

subsection \<open>Chunks and values\<close>

lemma concat_nth_slice:
  assumes "\<forall>x \<in> set (butlast xs). length x = n" "i < length xs" "xs \<noteq> [] \<Longrightarrow> length (last xs) \<le> n"
  shows "take n (drop (i * n) (concat xs)) = xs ! i"
  using assms
proof (induction xs arbitrary: i)
  case (Cons x xs)
  show ?case
  proof (cases "xs = []")
    case True then show ?thesis using Cons.prems by simp
  next
    case False
    then have x: "length x = n" using Cons.prems(1) by simp
    show ?thesis
    proof (cases i)
      case (Suc j)
      have "take n (drop (j * n) (concat xs)) = xs ! j"
        using Cons.prems Suc False by (intro Cons.IH) simp_all
      then show ?thesis using x Suc by simp
    qed (use x in simp)
  qed
qed simp

text \<open>A well-formed chunk is fixed by its place and its live bytes.\<close>

lemma wf_chunk_data_length:
  assumes "wf_registry_chunk c"
  shows "length (chunk_data c) = min 120 (unat (rc_value_len c) - unat (rc_chunk_index c) * 120)"
    and "rc_data c = chunk_data c @ replicate (120 - length (chunk_data c)) 0"
    and "rc_data_len c = of_nat (length (chunk_data c))"
proof -
  let ?n = "unat (rc_value_len c)" and ?i = "unat (rc_chunk_index c)"
  have k: "chunk_count_for ?n = Some (rc_chunk_count c)" "rc_chunk_index c < rc_chunk_count c"
    and e: "expected_data_len (rc_value_len c) (rc_chunk_index c) (rc_chunk_count c) = Some (rc_data_len c)"
    and d: "length (rc_data c) = 120" "unat (rc_data_len c) \<le> 120"
      "list_all (\<lambda>b. b = 0) (drop (unat (rc_data_len c)) (rc_data c))"
    using assms by (auto simp: wf_registry_chunk_def bound_defs)
  have cd: "chunk_data c = take (unat (rc_data_len c)) (rc_data c)" using d by (simp add: chunk_data_def)
  then have len: "length (chunk_data c) = unat (rc_data_len c)" using d by simp
  then show "rc_data_len c = of_nat (length (chunk_data c))" by simp
  have "rc_data c = chunk_data c @ drop (unat (rc_data_len c)) (rc_data c)" by (simp add: cd)
  moreover have "drop (unat (rc_data_len c)) (rc_data c) = replicate (120 - length (chunk_data c)) 0"
    using d(3) by (intro replicate_eqI) (auto simp: d len list_all_iff)
  ultimately show "rc_data c = chunk_data c @ replicate (120 - length (chunk_data c)) 0" by metis
  show "length (chunk_data c) = min 120 (?n - ?i * 120)"
    using e chunk_split_live [OF k] unat_of_nat_byte [of 120] unat_of_nat_byte [of "?n - ?i * 120"]
    by (cases "?i + 1 < unat (rc_chunk_count c)")
      (auto simp: len expected_data_len_def Let_def bound_defs split: if_splits)
qed

lemma siblings_are_slices:
  assumes k: "chunk_count_for n = Some k"
    and c: "\<And>i. i < unat k \<Longrightarrow> wf_registry_chunk (c i) \<and> rc_namespace (c i) = ns \<and> rc_record_tag (c i) = r
      \<and> rc_chunk_index (c i) = of_nat i \<and> rc_chunk_count (c i) = k \<and> unat (rc_value_len (c i)) = n"
  defines "v \<equiv> concat (map (\<lambda>i. chunk_data (c i)) [0..<unat k])"
  shows "length v = n" and "\<And>i. i < unat k \<Longrightarrow> chunk_split ns r v (of_nat i) = Some (c i)"
proof -
  have idx: "unat (of_nat i :: byte) = i" if "i < unat k" for i
    using that unat_byte_less [of k] by (intro unat_of_nat_byte) simp
  have len: "length (chunk_data (c i)) = min 120 (n - i * 120)" if "i < unat k" for i
    using wf_chunk_data_length(1) [of "c i"] c [OF that] idx [OF that] by simp
  let ?u = "replicate n (0 :: byte)"
  have "map length (map (\<lambda>i. chunk_data (c i)) [0..<unat k]) = map length (map (\<lambda>i. take 120 (drop (i * 120) ?u)) [0..<unat k])"
    by (simp add: len min.commute)
  then have "length v = length (concat (map (\<lambda>i. take 120 (drop (i * 120) ?u)) [0..<unat k]))"
    unfolding v_def length_concat by (simp only:)
  then show n: "length v = n" using chunk_count_for_Some(5) [OF k] by (simp only: concat_slices) simp
  fix i assume i: "i < unat k"
  have full: "\<forall>x \<in> set (butlast (map (\<lambda>i. chunk_data (c i)) [0..<unat k])). length x = 120"
  proof -
    have "length (chunk_data (c i)) = 120" if "i < unat k - 1" for i
    proof -
      have "(of_nat i :: byte) < k" using that idx [of i] by (simp add: word_less_nat_alt)
      with chunk_split_live(2) [OF k, of "of_nat i"] that idx [of i] len [of i] show ?thesis by simp
    qed
    then show ?thesis by (auto simp: butlast_conv_take take_map)
  qed
  have last: "length (last (map (\<lambda>i. chunk_data (c i)) [0..<unat k])) \<le> 120"
    using i len [of "unat k - 1"] by (simp add: last_map)
  have "take 120 (drop (i * 120) v) = chunk_data (c i)"
    using concat_nth_slice [OF full, of i] last i by (simp add: v_def)
  moreover have "rc_value_len (c i) = of_nat n" using c [OF i] by auto
  ultimately have "c i = \<lparr>rc_namespace = ns, rc_record_tag = r, rc_chunk_index = of_nat i, rc_chunk_count = k,
      rc_value_len = of_nat (length v), rc_data_len = of_nat (length (take 120 (drop (i * 120) v))),
      rc_data = take 120 (drop (i * 120) v) @ replicate (120 - length (take 120 (drop (i * 120) v))) 0\<rparr>"
    using c [OF i] wf_chunk_data_length(2,3) [of "c i"] n by (intro registry_chunk.equality) simp_all
  moreover have "(of_nat i :: byte) < k" using i idx [OF i] by (simp add: word_less_nat_alt)
  ultimately show "chunk_split ns r v (of_nat i) = Some (c i)"
    unfolding chunk_split_Some_iff using k n idx [OF i] by (simp add: Let_def)
qed

lemma registry_value_Some:
  assumes wf: "\<forall>i c. view_registry_chunk v i = Some c \<longrightarrow> wf_registry_chunk c"
    and L: "fst (registry_value b3 v network ns key buf) = Some (r, bs)"
  shows "\<exists>k. chunk_count_for (length bs) = Some k \<and> length bs \<le> length buf
      \<and> (\<forall>i < k. view_slot b3 v network ns key i = chunk_split ns r bs i)
      \<and> (k < 255 \<longrightarrow> view_slot b3 v network ns key k = None)"
proof -
  let ?at = "view_slot b3 v network ns key"
  from L obtain head w buf' where head: "?at 0 = Some head"
    and loop: "registry_value_loop ?at ns head (map of_nat [0..<unat (rc_chunk_count head)]) 0 buf = (Some w, buf')"
    and w: "w = unat (rc_value_len head)" "rc_chunk_count head < 255 \<longrightarrow> ?at (rc_chunk_count head) = None"
      "r = rc_record_tag head" "bs = take w buf'"
    by (auto simp: registry_value_def Let_def split: option.splits prod.splits if_splits)
  let ?k = "rc_chunk_count head" and ?c = "\<lambda>i. the (?at (of_nat i))"
  note all = registry_value_loop_Some [OF loop, simplified]
  have "wf_registry_chunk head" using wf head by (auto simp: view_slot_def)
  then have k: "chunk_count_for w = Some ?k" by (simp add: wf_registry_chunk_def w(1))
  have c: "?at (of_nat i) = Some (?c i) \<and> wf_registry_chunk (?c i) \<and> sibling_of ns head (of_nat i) (?c i)"
    if "i < unat ?k" for i
  proof -
    from all have "\<forall>i \<in> {0..<unat ?k}. \<exists>c. ?at (of_nat i) = Some c \<and> sibling_of ns head (of_nat i) c" by blast
    with that obtain c where "?at (of_nat i) = Some c" "sibling_of ns head (of_nat i) c" by fastforce
    then show ?thesis using wf by (simp add: view_slot_def)
  qed
  have bs: "bs = concat (map (\<lambda>i. chunk_data (?c i)) [0..<unat ?k])"
    using all w(4) by (simp add: comp_def)
  note slices = siblings_are_slices [OF k, of ?c ns r, folded bs]
  have n: "length bs = w" by (rule slices) (use c w(1,3) in \<open>auto simp: sibling_of_def\<close>)
  have split: "chunk_split ns r bs (of_nat i) = Some (?c i)" if "i < unat ?k" for i
    by (rule slices) (use that c w(1,3) in \<open>auto simp: sibling_of_def\<close>)
  have "?at i = chunk_split ns r bs i" if "i < ?k" for i
  proof -
    have "unat i < unat ?k" using that by (simp add: word_less_nat_alt)
    from c [OF this] split [OF this] show ?thesis by simp
  qed
  then show ?thesis using k n all w(2) by auto
qed

lemma registry_value_complete:
  assumes k: "chunk_count_for (length bs) = Some k" and len: "length bs \<le> length buf"
    and at: "\<forall>i < k. view_slot b3 v network ns key i = chunk_split ns r bs i"
    and past: "k < 255 \<longrightarrow> view_slot b3 v network ns key k = None"
  shows "fst (registry_value b3 v network ns key buf) = Some (r, bs)"
proof -
  let ?at = "view_slot b3 v network ns key"
  have "0 < k" using chunk_count_for_Some(4) [OF k] .
  then obtain head where head: "?at 0 = Some head" using at chunk_split_in_range [OF k] by metis
  note h = chunk_split_wf [OF head [unfolded at [rule_format, OF \<open>0 < k\<close>]]]
  have hk: "rc_chunk_count head = k" using h(6) k by simp
  have idx: "(of_nat i :: byte) < k" if "i < unat k" for i
    using that unat_byte_less [of k] by (simp add: word_less_nat_alt unat_of_nat_byte)
  have c: "\<exists>c. ?at (of_nat i) = Some c \<and> chunk_split ns r bs (of_nat i) = Some c \<and> sibling_of ns head (of_nat i) c"
    if i: "i < unat k" for i
  proof -
    obtain c where c: "chunk_split ns r bs (of_nat i) = Some c" using chunk_split_in_range [OF k idx [OF i]] by blast
    note w = chunk_split_wf [OF c]
    have "rc_value_len c = rc_value_len head" using w(7) h(7) by (simp add: word_unat_eq_iff)
    then show ?thesis using c at idx [OF i] w h hk k by (auto simp: sibling_of_def)
  qed
  have bs: "concat (map (\<lambda>i. chunk_data (the (?at (of_nat i)))) [0..<unat k]) = bs"
    by (rule chunk_split_concat [OF k]) (use c in fastforce)
  have "\<exists>w buf'. registry_value_loop ?at ns head (map of_nat [0..<unat k]) 0 buf = (Some w, buf')"
  proof (rule registry_value_loop_complete)
    show "\<forall>i \<in> set (map of_nat [0..<unat k]). \<exists>c. ?at i = Some c \<and> sibling_of ns head i c" using c by fastforce
    show "0 + length (concat (map (\<lambda>i. chunk_data (the (?at i))) (map of_nat [0..<unat k]))) \<le> length buf"
      using bs len by (simp add: comp_def)
  qed
  then obtain w buf' where loop: "registry_value_loop ?at ns head (map of_nat [0..<unat k]) 0 buf = (Some w, buf')" by blast
  from registry_value_loop_Some [OF this] have "w = length bs" "buf' = bs @ drop w buf"
    by (simp_all add: comp_def bs)
  then show ?thesis using head loop hk h past len by (simp add: registry_value_def)
qed

section \<open>Property\<close>

text \<open>C32. Reassembly is the inverse of splitting: over well-formed chunks, a value is returned exactly when
  every slot of it holds the chunk that splitting that value puts there, the slot past the end is empty, and
  the buffer is long enough; so no other value, prefix or splice can ever be read.\<close>

theorem registry_value_iff:
  assumes wf: "\<forall>i c. view_registry_chunk v i = Some c \<longrightarrow> wf_registry_chunk c"
  shows "fst (registry_value b3 v network ns key buf) = Some (r, bs) \<longleftrightarrow>
    (\<exists>k. chunk_count_for (length bs) = Some k \<and> length bs \<le> length buf
      \<and> (\<forall>i < k. view_slot b3 v network ns key i = chunk_split ns r bs i)
      \<and> (k < 255 \<longrightarrow> view_slot b3 v network ns key k = None))"
  using registry_value_Some [OF wf] registry_value_complete by blast

theorem registry_value_iff_witness:
  "\<exists>v. fst (registry_value ex_b3 v [] NsBondLease 0 [0, 0, 0, 0]) = Some (RecBondLease, [1, 2, 3])"
proof -
  have k: "chunk_count_for (length [1, 2, 3 :: byte]) = Some 1"
    by (simp add: chunk_count_for_def MAX_REGISTRY_VALUE_LEN_def bound_defs)
  then obtain c where c: "chunk_split NsBondLease RecBondLease [1, 2, 3] 0 = Some c"
    using chunk_split_in_range [OF k, of 0] by auto
  define v where "v = view_with_registry [] [] [Some (0, c)]"
  have look: "view_registry_chunk v = [0 \<mapsto> c]"
    using view_lookup(3) [of "[]" "[]" "[Some (0, c)]"] by (simp add: v_def map_filter_simps)
  have slot: "view_slot ex_b3 v [] NsBondLease 0 i = (if i = 0 then Some c else None)" for i
  proof -
    have "(ucast i = (0 :: bytes32)) = (i = 0)" by transfer (simp add: take_bit_eq_mod)
    then show ?thesis by (simp add: view_slot_def look ex_slot)
  qed
  have "\<forall>i. i < (1 :: byte) \<longrightarrow> i = 0" by (simp add: word_less_nat_alt unat_eq_0)
  then have "fst (registry_value ex_b3 v [] NsBondLease 0 [0, 0, 0, 0]) = Some (RecBondLease, [1, 2, 3])"
    using registry_value_iff [of v ex_b3 "[]" NsBondLease 0 "[0, 0, 0, 0]" RecBondLease "[1, 2, 3]"]
      chunk_split_wf(1) [OF c] k c slot look by auto
  then show ?thesis by blast
qed

end
