(* ===== verification/Owner_Proof.thy ===== *)
theory Owner_Proof
  imports Kernel_Object
begin

text \<open>The authenticated owner tree (src/crates/chain/src/owner_proof.rs): commitments that carry a count and
  a balance, their node encodings, the store interface, reading and writing a path of a sparse Merkle tree of
  256 levels, and verifying one. The hash is a parameter: \<open>sha\<close> is SHA-256.\<close>

section \<open>Data\<close>

type_synonym u128 = "128 word"
type_synonym sha256 = "bytes \<Rightarrow> bytes32"
type_synonym settlement_key = key
type_synonym object_id = bytes32

definition OWNER_PAGE_LIMIT :: u32 where "OWNER_PAGE_LIMIT = 32"
definition OWNER_NODE_BYTES :: nat where "OWNER_NODE_BYTES = 163"
definition HOLDING_COIN :: byte where "HOLDING_COIN = 0"
definition HOLDING_EDGE :: byte where "HOLDING_EDGE = 1"
definition HOLDING_DELEGATED :: byte where "HOLDING_DELEGATED = 2"

record owner_commitment =
  oc_hash :: bytes32
  oc_count :: u64
  oc_balance :: u128

definition oc_default :: owner_commitment where
  "oc_default = \<lparr>oc_hash = 0, oc_count = 0, oc_balance = 0\<rparr>"

datatype owner_leaf = Summary owner_commitment | Holding byte u64

record owner_sibling =
  os_depth :: u16
  os_commitment :: owner_commitment

record owner_path_proof =
  pp_leaf :: "owner_leaf option"
  pp_siblings :: "owner_sibling list"

datatype owner_proof_error = OwnerStorage string | OwnerInvalid | OwnerBinding | OwnerPage

subsection \<open>The store interface\<close>

text \<open>\<^verbatim>\<open>OwnerTreeStore\<close>. A failed write leaves the store it was given, so a result travels beside the store.\<close>

record 's owner_store =
  ow_get :: "'s \<Rightarrow> bytes32 \<Rightarrow> (bytes option, owner_proof_error) result"
  ow_put :: "'s \<Rightarrow> bytes32 \<Rightarrow> bytes option \<Rightarrow> (unit, owner_proof_error) result \<times> 's"

definition and_store ::
  "('a, 'e) result \<times> 's \<Rightarrow> ('a \<Rightarrow> 's \<Rightarrow> ('b, 'e) result \<times> 's) \<Rightarrow> ('b, 'e) result \<times> 's" where
  "and_store m k = (case m of (Ok x, s) \<Rightarrow> k x s | (Err e, s) \<Rightarrow> (Err e, s))"

definition pure_store :: "('a, 'e) result \<Rightarrow> 's \<Rightarrow> ('a, 'e) result \<times> 's" where
  "pure_store r s = (r, s)"

section \<open>Keys and nodes\<close>

definition owner_key :: "sha256 \<Rightarrow> settlement_key \<Rightarrow> bytes32" where
  "owner_key sha owner = sha (to_be_bytes owner)"

definition holding_scope :: "sha256 \<Rightarrow> settlement_key \<Rightarrow> bytes32" where
  "holding_scope sha owner = sha (ascii ''hellas-owner-holdings-v1'' @ to_be_bytes owner)"

text \<open>Bit \<open>b\<close> of a key counts from the most significant one.\<close>

definition key_bit :: "bytes32 \<Rightarrow> nat \<Rightarrow> bool" where
  "key_bit key depth = bit key (255 - depth)"

definition clear_from :: "nat \<Rightarrow> bytes32 \<Rightarrow> bytes32" where
  "clear_from depth key = fold (\<lambda>b p. unset_bit (255 - b) p) [depth..<256] key"

definition node_preimage :: "bytes32 \<Rightarrow> bytes32 \<Rightarrow> nat \<Rightarrow> bytes" where
  "node_preimage scope key depth = ascii ''hellas-owner-node-v1'' @ to_be_bytes scope
    @ to_be_bytes (of_nat depth :: u16) @ to_be_bytes (clear_from depth key)"

definition node_key :: "sha256 \<Rightarrow> bytes32 \<Rightarrow> bytes32 \<Rightarrow> nat \<Rightarrow> bytes32" where
  "node_key sha scope key depth = sha (node_preimage scope key depth)"

definition write_commit :: "owner_commitment \<Rightarrow> bytes" where
  "write_commit c = to_be_bytes (oc_hash c) @ to_be_bytes (oc_count c) @ to_be_bytes (oc_balance c)"

definition commit_valid :: "owner_commitment \<Rightarrow> bool" where
  "commit_valid c \<longleftrightarrow> \<not> ((oc_count c = 0) \<noteq> (oc_hash c = 0) \<or> oc_count c = 0 \<and> oc_balance c \<noteq> 0)"

definition read_commit :: "bytes \<Rightarrow> (owner_commitment, owner_proof_error) result" where
  "read_commit bs =
    (if length bs \<noteq> 56 then Err OwnerInvalid
     else let c = \<lparr>oc_hash = from_be_bytes (take 32 bs), oc_count = from_be_bytes (take 8 (drop 32 bs)),
            oc_balance = from_be_bytes (drop 40 bs)\<rparr>
       in if \<not> commit_valid c then Err OwnerInvalid else Ok c)"

definition checked_add_u128 :: "u128 \<Rightarrow> u128 \<Rightarrow> u128 option" where
  "checked_add_u128 a b = (if unat a + unat b < 2 ^ 128 then Some (a + b) else None)"

definition branch_preimage :: "owner_commitment \<Rightarrow> owner_commitment \<Rightarrow> bytes" where
  "branch_preimage left right = ascii ''hellas-owner-branch-v1'' @ write_commit left @ write_commit right"

definition combine ::
  "sha256 \<Rightarrow> owner_commitment \<Rightarrow> owner_commitment \<Rightarrow> (owner_commitment, owner_proof_error) result" where
  "combine sha left right =
    and_then (ok_or OwnerInvalid (checked_add (oc_count left) (oc_count right))) (\<lambda>count.
    and_then (ok_or OwnerInvalid (checked_add_u128 (oc_balance left) (oc_balance right))) (\<lambda>balance.
    if count = 0 then Ok oc_default
    else Ok \<lparr>oc_hash = sha (branch_preimage left right), oc_count = count, oc_balance = balance\<rparr>))"

definition holding_valid :: "byte \<Rightarrow> u64 \<Rightarrow> bool" where
  "holding_valid k b \<longleftrightarrow>
    (if k = HOLDING_COIN then True else if k = HOLDING_EDGE \<or> k = HOLDING_DELEGATED then b = 0 else False)"

fun leaf_body :: "owner_leaf \<Rightarrow> bytes" where
  "leaf_body (Summary root) = 1 # write_commit root"
| "leaf_body (Holding k b) = 2 # k # to_be_bytes b"

definition leaf_preimage :: "bytes32 \<Rightarrow> bytes32 \<Rightarrow> owner_leaf \<Rightarrow> bytes" where
  "leaf_preimage scope key leaf =
    ascii ''hellas-owner-leaf-v1'' @ to_be_bytes scope @ to_be_bytes key @ leaf_body leaf"

definition leaf_commit ::
  "sha256 \<Rightarrow> bytes32 \<Rightarrow> bytes32 \<Rightarrow> owner_leaf option \<Rightarrow> (owner_commitment, owner_proof_error) result" where
  "leaf_commit sha scope key leaf =
    (case leaf of
       None \<Rightarrow> Ok oc_default
     | Some l \<Rightarrow>
         and_then (case l of
             Summary root \<Rightarrow> if scope \<noteq> 0 \<or> oc_count root = 0 then Err OwnerInvalid else Ok (oc_balance root)
           | Holding k b \<Rightarrow> if scope = 0 \<or> \<not> holding_valid k b then Err OwnerInvalid else Ok (ucast b)) (\<lambda>balance.
         Ok \<lparr>oc_hash = sha (leaf_preimage scope key l), oc_count = 1, oc_balance = balance\<rparr>))"

definition pad_node :: "bytes \<Rightarrow> bytes" where
  "pad_node bs = bs @ replicate (OWNER_NODE_BYTES - length bs) 0"

definition encode_leaf :: "owner_leaf \<Rightarrow> bytes" where
  "encode_leaf leaf = pad_node (leaf_body leaf)"

definition decode_leaf :: "bytes option \<Rightarrow> (owner_leaf option, owner_proof_error) result" where
  "decode_leaf raw =
    (case raw of
       None \<Rightarrow> Ok None
     | Some raw \<Rightarrow>
         if raw ! 0 = 1 \<and> list_all (\<lambda>b. b = 0) (drop 57 raw)
         then and_then (read_commit (take 56 (drop 1 raw))) (\<lambda>c. Ok (Some (Summary c)))
         else if raw ! 0 = 2 \<and> list_all (\<lambda>b. b = 0) (drop 10 raw)
         then Ok (Some (Holding (raw ! 1) (from_be_bytes (take 8 (drop 2 raw)))))
         else Err OwnerInvalid)"

definition decode_branch :: "bytes option \<Rightarrow> (owner_commitment \<times> owner_commitment, owner_proof_error) result" where
  "decode_branch raw =
    (case raw of
       None \<Rightarrow> Ok (oc_default, oc_default)
     | Some raw \<Rightarrow>
         if raw ! 0 \<noteq> 0 \<or> list_ex (\<lambda>b. b \<noteq> 0) (drop 113 raw) then Err OwnerInvalid
         else and_then (read_commit (take 56 (drop 1 raw))) (\<lambda>left.
           and_then (read_commit (take 56 (drop 57 raw))) (\<lambda>right. Ok (left, right))))"

definition encode_branch :: "owner_commitment \<Rightarrow> owner_commitment \<Rightarrow> bytes option" where
  "encode_branch left right =
    (if oc_count left = 0 \<and> oc_count right = 0 then None
     else Some (pad_node (0 # write_commit left @ write_commit right)))"

section \<open>Paths\<close>

fun path_loop ::
  "'s owner_store \<Rightarrow> sha256 \<Rightarrow> 's \<Rightarrow> bytes32 \<Rightarrow> bytes32 \<Rightarrow> nat list
    \<Rightarrow> (owner_sibling list, owner_proof_error) result" where
  "path_loop st sha s scope key [] = Ok []"
| "path_loop st sha s scope key (depth # depths) =
    and_then (ow_get st s (node_key sha scope key depth)) (\<lambda>raw.
    and_then (decode_branch raw) (\<lambda>(left, right).
    let sibling = if key_bit key depth then left else right in
    and_then (path_loop st sha s scope key depths) (\<lambda>siblings.
    Ok (if 0 < oc_count sibling then \<lparr>os_depth = of_nat depth, os_commitment = sibling\<rparr> # siblings else siblings))))"

definition owner_path ::
  "'s owner_store \<Rightarrow> sha256 \<Rightarrow> 's \<Rightarrow> bytes32 \<Rightarrow> bytes32 \<Rightarrow> (owner_path_proof, owner_proof_error) result" where
  "owner_path st sha s scope key =
    and_then (path_loop st sha s scope key [0..<256]) (\<lambda>siblings.
    and_then (ow_get st s (node_key sha scope key 256)) (\<lambda>raw.
    and_then (decode_leaf raw) (\<lambda>leaf. Ok \<lparr>pp_leaf = leaf, pp_siblings = siblings\<rparr>)))"

fun expand_loop ::
  "owner_sibling list \<Rightarrow> nat option \<Rightarrow> owner_commitment list \<Rightarrow> (owner_commitment list, owner_proof_error) result" where
  "expand_loop [] previous siblings = Ok siblings"
| "expand_loop (x # xs) previous siblings =
    (let depth = unat (os_depth x) in
     if 256 \<le> depth \<or> (case previous of None \<Rightarrow> False | Some p \<Rightarrow> depth \<le> p) \<or> oc_count (os_commitment x) = 0
     then Err OwnerInvalid
     else and_then (read_commit (write_commit (os_commitment x))) (\<lambda>_.
       expand_loop xs (Some depth) (siblings[depth := os_commitment x])))"

definition expand_siblings :: "owner_path_proof \<Rightarrow> (owner_commitment list, owner_proof_error) result" where
  "expand_siblings p =
    (if 256 < length (pp_siblings p) then Err OwnerInvalid
     else expand_loop (pp_siblings p) None (replicate 256 oc_default))"

fun update_loop ::
  "'s owner_store \<Rightarrow> sha256 \<Rightarrow> bytes32 \<Rightarrow> bytes32 \<Rightarrow> owner_commitment list \<Rightarrow> nat list \<Rightarrow> owner_commitment \<Rightarrow> 's
    \<Rightarrow> (owner_commitment, owner_proof_error) result \<times> 's" where
  "update_loop st sha scope key siblings [] current s = (Ok current, s)"
| "update_loop st sha scope key siblings (depth # depths) current s =
    (let sibling = siblings ! depth;
         lr = if key_bit key depth then (sibling, current) else (current, sibling)
     in and_store (pure_store (combine sha (fst lr) (snd lr)) s) (\<lambda>c s.
        and_store (ow_put st s (node_key sha scope key depth) (encode_branch (fst lr) (snd lr))) (\<lambda>_ s.
        update_loop st sha scope key siblings depths c s)))"

definition owner_update ::
  "'s owner_store \<Rightarrow> sha256 \<Rightarrow> 's \<Rightarrow> bytes32 \<Rightarrow> bytes32 \<Rightarrow> owner_leaf option
    \<Rightarrow> (owner_commitment, owner_proof_error) result \<times> 's" where
  "owner_update st sha s scope key leaf =
    and_store (pure_store (owner_path st sha s scope key) s) (\<lambda>p s.
    and_store (pure_store (expand_siblings p) s) (\<lambda>siblings s.
    and_store (pure_store (leaf_commit sha scope key leaf) s) (\<lambda>current s.
    and_store (ow_put st s (node_key sha scope key 256) (map_option encode_leaf leaf)) (\<lambda>_ s.
    update_loop st sha scope key siblings (rev [0..<256]) current s))))"

fun verify_loop ::
  "sha256 \<Rightarrow> bytes32 \<Rightarrow> owner_commitment list \<Rightarrow> nat list \<Rightarrow> owner_commitment \<Rightarrow> u64
    \<Rightarrow> (owner_commitment \<times> u64, owner_proof_error) result" where
  "verify_loop sha key siblings [] current rank = Ok (current, rank)"
| "verify_loop sha key siblings (depth # depths) current rank =
    (let sibling = siblings ! depth in
     and_then (read_commit (write_commit sibling)) (\<lambda>_.
     if key_bit key depth
     then and_then (ok_or OwnerInvalid (checked_add rank (oc_count sibling))) (\<lambda>rank.
       and_then (combine sha sibling current) (\<lambda>current. verify_loop sha key siblings depths current rank))
     else and_then (combine sha current sibling) (\<lambda>current. verify_loop sha key siblings depths current rank)))"

definition verify_path ::
  "sha256 \<Rightarrow> bytes32 \<Rightarrow> bytes32 \<Rightarrow> owner_path_proof \<Rightarrow> (owner_commitment \<times> u64, owner_proof_error) result" where
  "verify_path sha scope key p =
    and_then (expand_siblings p) (\<lambda>siblings.
    and_then (leaf_commit sha scope key (pp_leaf p)) (\<lambda>current.
    verify_loop sha key siblings (rev [0..<256]) current 0))"

definition owner_root :: "'s owner_store \<Rightarrow> sha256 \<Rightarrow> 's \<Rightarrow> (bytes32, owner_proof_error) result" where
  "owner_root st sha s =
    and_then (ow_get st s (node_key sha 0 0 0)) (\<lambda>raw.
    and_then (decode_branch raw) (\<lambda>(left, right).
    and_then (combine sha left right) (\<lambda>c. Ok (oc_hash c))))"

definition update_holding ::
  "'s owner_store \<Rightarrow> sha256 \<Rightarrow> 's \<Rightarrow> settlement_key \<Rightarrow> object_id \<Rightarrow> (byte \<times> u64) option
    \<Rightarrow> (unit, owner_proof_error) result \<times> 's" where
  "update_holding st sha s owner i v =
    and_store (owner_update st sha s (holding_scope sha owner) i (map_option (\<lambda>(k, b). Holding k b) v)) (\<lambda>holdings s.
    and_store (owner_update st sha s 0 (owner_key sha owner)
      (if oc_count holdings = 0 then None else Some (Summary holdings))) (\<lambda>_ s. (Ok (), s)))"

subsection \<open>The in-memory store\<close>

record memory_owner_tree =
  mot_nodes :: "bytes32 \<rightharpoonup> bytes"

definition mem_get_node :: "memory_owner_tree \<Rightarrow> bytes32 \<Rightarrow> (bytes option, owner_proof_error) result" where
  "mem_get_node t k = Ok (mot_nodes t k)"

definition mem_put_node ::
  "memory_owner_tree \<Rightarrow> bytes32 \<Rightarrow> bytes option \<Rightarrow> (unit, owner_proof_error) result \<times> memory_owner_tree" where
  "mem_put_node t k v =
    (case v of
       Some v \<Rightarrow> (Ok (), \<lparr>mot_nodes = (mot_nodes t)(k \<mapsto> v)\<rparr>)
     | None \<Rightarrow> (Ok (), \<lparr>mot_nodes = (mot_nodes t)(k := None)\<rparr>))"

definition mem_store :: "memory_owner_tree owner_store" where
  "mem_store = \<lparr>ow_get = mem_get_node, ow_put = mem_put_node\<rparr>"

end
