(* ===== verification/Owner_Tree.thy ===== *)
theory Owner_Tree
  imports Owner_Proof
begin

text \<open>The tree the nodes stand for. A map from keys to leaves has one commitment at every height and prefix,
  and a store is a forest of such trees when the nodes along the paths it was used for hold the commitments
  of the two halves below them. Updating a leaf keeps that and returns the new root; a path read from such a
  store verifies to the root and to the number of smaller keys.\<close>

section \<open>Prefixes\<close>

text \<open>A key with its low \<open>n\<close> bits cleared: the node at height \<open>n\<close>, or depth \<open>256 - n\<close>, on its path.\<close>

definition pref :: "nat \<Rightarrow> bytes32 \<Rightarrow> bytes32" where
  "pref n k = push_bit n (drop_bit n k)"

lemma bit_pref: "bit (pref n k) i \<longleftrightarrow> n \<le> i \<and> bit k i"
  by (auto simp: pref_def bit_push_bit_iff bit_drop_bit_eq dest: bit_imp_le_length)

lemma bit_fold_unset:
  "bit (fold (\<lambda>b p. unset_bit (255 - b) p) ds (k :: bytes32)) i \<longleftrightarrow> bit k i \<and> (\<forall>b \<in> set ds. i \<noteq> 255 - b)"
  by (induction ds arbitrary: k) (auto simp: bit_unset_bit_iff)

lemma clear_from_pref:
  assumes "d \<le> 256" shows "clear_from d k = pref (256 - d) k"
proof (rule bit_word_eqI)
  fix i assume "i < LENGTH(256)"
  then have i: "i < 256" by simp
  have "(\<forall>b \<in> set [d..<256]. i \<noteq> 255 - b) \<longleftrightarrow> 256 - d \<le> i"
  proof
    assume h: "\<forall>b \<in> set [d..<256]. i \<noteq> 255 - b"
    show "256 - d \<le> i"
    proof (rule ccontr)
      assume "\<not> 256 - d \<le> i"
      then have "255 - i \<in> set [d..<256]" "i = 255 - (255 - i)" using i assms by auto
      with h show False by blast
    qed
  qed auto
  then show "bit (clear_from d k) i = bit (pref (256 - d) k) i"
    by (auto simp: clear_from_def bit_fold_unset bit_pref)
qed

lemma pref_0 [simp]: "pref 0 k = k" by (simp add: pref_def)

lemma pref_256 [simp]: "pref 256 k = 0"
  by (rule bit_word_eqI) (simp add: bit_pref)

lemma pref_pref [simp]: "pref n (pref m k) = pref (max n m) k"
  by (rule bit_word_eqI) (auto simp: bit_pref)

lemma pref_set_bit [simp]: "i < n \<Longrightarrow> pref n (set_bit i k) = pref n k"
  by (rule bit_word_eqI) (auto simp: bit_pref bit_set_bit_iff)

lemma pref_Suc:
  assumes "n < 256"
  shows "pref n k = (if bit k n then set_bit n (pref (Suc n) k) else pref (Suc n) k)"
proof (rule bit_word_eqI)
  fix i assume "i < LENGTH(256)"
  then show "bit (pref n k) i = bit (if bit k n then set_bit n (pref (Suc n) k) else pref (Suc n) k) i"
    using assms by (cases "i = n") (auto simp: bit_pref bit_set_bit_iff)
qed

lemma pref_eq_mono: "pref n k = pref n k' \<Longrightarrow> n \<le> m \<Longrightarrow> pref m k = pref m k'"
  by (metis max.absorb1 pref_pref)

lemma unat_drop_bit: "unat (drop_bit n (k :: bytes32)) = unat k div 2 ^ n"
proof -
  have "unat (drop_bit n k) = drop_bit n (unat k)"
    by (rule bit_eqI) (auto simp: bit_unsigned_iff bit_drop_bit_eq dest: bit_imp_le_length)
  then show ?thesis by (simp only: drop_bit_eq_div)
qed

lemma pref_unat: "pref n k = pref n k' \<longleftrightarrow> unat k div 2 ^ n = unat k' div 2 ^ n"
proof -
  have "drop_bit n (pref n j) = drop_bit n j" for j
    by (rule bit_word_eqI) (simp add: bit_drop_bit_eq bit_pref)
  then have "pref n k = pref n k' \<longleftrightarrow> drop_bit n k = drop_bit n k'" by (metis pref_def)
  also have "\<dots> \<longleftrightarrow> unat k div 2 ^ n = unat k' div 2 ^ n"
    by (simp only: word_unat_eq_iff unat_drop_bit)
  finally show ?thesis .
qed

text \<open>Within one node, the keys of the left half come before those of the right half.\<close>

lemma left_before_right:
  assumes "pref (Suc n) k = pref (Suc n) k'" "\<not> bit k n" "bit k' n"
  shows "k < k'"
proof -
  have half: "unat j div 2 ^ n = 2 * (unat j div 2 ^ Suc n) + of_bool (bit j n)" for j :: bytes32
  proof -
    have "bit j n \<longleftrightarrow> bit (unat j) n" by (simp add: bit_unsigned_iff)
    then have "bit j n \<longleftrightarrow> odd (unat j div 2 ^ n)" by (simp only: bit_iff_odd)
    then show ?thesis by (auto simp: div_mult2_eq mult.commute [of 2 "2 ^ n"] elim: oddE evenE)
  qed
  have "unat k div 2 ^ n < unat k' div 2 ^ n"
    using assms half [of k] half [of k'] by (simp add: pref_unat)
  then have "unat k < unat k'" by (meson div_le_mono leD not_less)
  then show ?thesis by (simp add: word_less_nat_alt)
qed

section \<open>The commitment of a map\<close>

fun commit_at ::
  "sha256 \<Rightarrow> bytes32 \<Rightarrow> (bytes32 \<Rightarrow> owner_leaf option) \<Rightarrow> nat \<Rightarrow> bytes32 \<Rightarrow> (owner_commitment, owner_proof_error) result" where
  "commit_at sha scope M 0 p = leaf_commit sha scope p (M p)"
| "commit_at sha scope M (Suc n) p =
    and_then (commit_at sha scope M n p) (\<lambda>left.
    and_then (commit_at sha scope M n (set_bit n p)) (\<lambda>right. combine sha left right))"

text \<open>The other half of the node at height \<open>Suc n\<close> on a key's path.\<close>

definition sib :: "nat \<Rightarrow> bytes32 \<Rightarrow> bytes32" where
  "sib n k = (if bit k n then pref (Suc n) k else set_bit n (pref (Suc n) k))"

lemma pref_below:
  assumes "n < 256" "pref n k = pref (Suc n) p \<or> pref n k = set_bit n (pref (Suc n) p)"
  shows "pref (Suc n) k = pref (Suc n) p"
proof -
  have "pref (Suc n) (pref n k) = pref (Suc n) p"
    using assms(2) by (elim disjE) (simp_all only: pref_pref pref_set_bit max.idem lessI)
  then show ?thesis by (simp add: max_def)
qed

lemma child_pref:
  assumes "n < 256" "pref (Suc n) p = p"
  shows "pref n p = p" "pref n (set_bit n p) = set_bit n p" "p \<noteq> set_bit n p"
    "pref (Suc n) (set_bit n p) = p"
proof -
  have b: "\<not> bit p n" using assms(2) by (metis bit_pref not_less_eq_eq order_refl)
  then show "pref n p = p" using pref_Suc [OF assms(1), of p] assms(2) by simp
  show s: "pref (Suc n) (set_bit n p) = p" using assms by simp
  then show "pref n (set_bit n p) = set_bit n p"
    using pref_Suc [OF assms(1), of "set_bit n p"] assms(1) by (simp add: bit_set_bit_iff)
  have "bit (set_bit n p) n" using assms(1) by (simp add: bit_set_bit_iff)
  then show "p \<noteq> set_bit n p" using b by metis
qed

lemma commit_at_frame:
  assumes "n \<le> 256" "pref n p = p" "\<And>k. pref n k = p \<Longrightarrow> M k = M' k"
  shows "commit_at sha scope M n p = commit_at sha scope M' n p"
  using assms
proof (induction n arbitrary: p)
  case (Suc n)
  have p: "pref n p = p" "pref n (set_bit n p) = set_bit n p" using child_pref [of n p] Suc.prems by simp_all
  have below: "pref (Suc n) k = p" if "pref n k = p \<or> pref n k = set_bit n p" for k
    using pref_below [of n k p] that Suc.prems by auto
  have "commit_at sha scope M n p = commit_at sha scope M' n p"
    using below Suc.prems by (intro Suc.IH p) auto
  moreover have "commit_at sha scope M n (set_bit n p) = commit_at sha scope M' n (set_bit n p)"
    using below Suc.prems by (intro Suc.IH p) auto
  ultimately show ?case by simp
qed simp

lemma commit_at_Suc_path:
  assumes "n < 256"
  shows "commit_at sha scope M (Suc n) (pref (Suc n) k) =
    (if bit k n
     then and_then (commit_at sha scope M n (sib n k)) (\<lambda>l. and_then (commit_at sha scope M n (pref n k)) (combine sha l))
     else and_then (commit_at sha scope M n (pref n k)) (\<lambda>l. and_then (commit_at sha scope M n (sib n k)) (combine sha l)))"
  using pref_Suc [OF assms, of k] by (auto simp: sib_def)

lemma commit_at_sub:
  assumes "commit_at sha scope M 256 0 = Ok c" "n \<le> 256"
  shows "\<exists>c. commit_at sha scope M n (pref n k) = Ok c"
proof -
  have "\<exists>c. commit_at sha scope M (256 - m) (pref (256 - m) k) = Ok c" if "m \<le> 256" for m
    using that
  proof (induction m)
    case (Suc m)
    then have n: "256 - m = Suc (256 - Suc m)" "256 - Suc m < 256" by auto
    from Suc obtain c where "commit_at sha scope M (Suc (256 - Suc m)) (pref (Suc (256 - Suc m)) k) = Ok c"
      by (auto simp: n(1) simp del: commit_at.simps)
    then show ?case unfolding commit_at_Suc_path [OF n(2)] by (auto simp: and_then_eq_Ok split: if_splits)
  qed (use assms in simp)
  from this [of "256 - n"] assms(2) show ?thesis by simp
qed

lemma commit_at_sib:
  assumes "commit_at sha scope M 256 0 = Ok c" "n < 256"
  shows "\<exists>c. commit_at sha scope M n (sib n k) = Ok c"
proof -
  obtain c where "commit_at sha scope M (Suc n) (pref (Suc n) k) = Ok c"
    using commit_at_sub [OF assms(1), of "Suc n" k] assms(2) by auto
  then show ?thesis unfolding commit_at_Suc_path [OF assms(2)] by (auto simp: and_then_eq_Ok split: if_splits)
qed

subsection \<open>Counts, balances and ranks\<close>

definition keys_at :: "(bytes32 \<Rightarrow> owner_leaf option) \<Rightarrow> nat \<Rightarrow> bytes32 \<Rightarrow> bytes32 set" where
  "keys_at M n p = {k. pref n k = p \<and> M k \<noteq> None}"

fun leaf_balance :: "owner_leaf \<Rightarrow> nat" where
  "leaf_balance (Summary root) = unat (oc_balance root)"
| "leaf_balance (Holding _ b) = unat b"

lemma unat_widen [simp]: "unat (ucast (b :: u64) :: u128) = unat b"
proof -
  have "unat b < 2 ^ 128" using unsigned_less [of b, where 'a = nat] by simp
  then show ?thesis by (simp add: unsigned_ucast_eq take_bit_nat_eq_self)
qed

lemma finite_keys_at [simp]: "finite (keys_at M n p)" by (rule finite)

lemma keys_at_Suc:
  assumes "n < 256" "pref (Suc n) p = p"
  shows "keys_at M (Suc n) p = keys_at M n p \<union> keys_at M n (set_bit n p)"
    and "keys_at M n p \<inter> keys_at M n (set_bit n p) = {}"
proof -
  have "pref (Suc n) k = p \<longleftrightarrow> pref n k = p \<or> pref n k = set_bit n p" for k
  proof
    assume "pref (Suc n) k = p"
    then show "pref n k = p \<or> pref n k = set_bit n p" using pref_Suc [OF assms(1), of k] by auto
  next
    assume "pref n k = p \<or> pref n k = set_bit n p"
    then show "pref (Suc n) k = p" using pref_below [OF assms(1), of k p] assms(2) by auto
  qed
  then show "keys_at M (Suc n) p = keys_at M n p \<union> keys_at M n (set_bit n p)" by (auto simp: keys_at_def)
  show "keys_at M n p \<inter> keys_at M n (set_bit n p) = {}" using child_pref(3) [OF assms] by (auto simp: keys_at_def)
qed

lemma combine_Ok:
  assumes "combine sha l r = Ok c"
  shows "unat (oc_count c) = unat (oc_count l) + unat (oc_count r)"
    and "oc_count c \<noteq> 0 \<Longrightarrow> oc_hash c = sha (branch_preimage l r)"
    and "oc_count c \<noteq> 0 \<Longrightarrow> unat (oc_balance c) = unat (oc_balance l) + unat (oc_balance r)"
    and "oc_count c = 0 \<Longrightarrow> c = oc_default"
proof -
  from assms obtain n b where n: "checked_add (oc_count l) (oc_count r) = Some n"
    and b: "checked_add_u128 (oc_balance l) (oc_balance r) = Some b"
    and c: "c = (if n = 0 then oc_default else \<lparr>oc_hash = sha (branch_preimage l r), oc_count = n, oc_balance = b\<rparr>)"
    by (auto simp: combine_def and_then_eq_Ok ok_or_eq_Ok split: if_splits)
  have bal: "unat b = unat (oc_balance l) + unat (oc_balance r)"
    using b by (auto simp: checked_add_u128_def unat_word_ariths split: if_splits)
  show "unat (oc_count c) = unat (oc_count l) + unat (oc_count r)"
    using checked_add_Some [OF n] c by (auto simp: oc_default_def)
  show "oc_count c \<noteq> 0 \<Longrightarrow> oc_hash c = sha (branch_preimage l r)"
    "oc_count c \<noteq> 0 \<Longrightarrow> unat (oc_balance c) = unat (oc_balance l) + unat (oc_balance r)"
    "oc_count c = 0 \<Longrightarrow> c = oc_default"
    using c bal by (auto simp: oc_default_def split: if_splits)
qed

lemma commit_at_counts:
  assumes "n \<le> 256" "pref n p = p" "commit_at sha scope M n p = Ok c"
  shows "unat (oc_count c) = card (keys_at M n p)"
    and "unat (oc_balance c) = (\<Sum>k \<in> keys_at M n p. leaf_balance (the (M k)))"
    and "oc_count c = 0 \<Longrightarrow> c = oc_default"
proof -
  have "unat (oc_count c) = card (keys_at M n p)
    \<and> unat (oc_balance c) = (\<Sum>k \<in> keys_at M n p. leaf_balance (the (M k))) \<and> (oc_count c = 0 \<longrightarrow> c = oc_default)"
    using assms
  proof (induction n arbitrary: p c)
    case 0
    have "keys_at M 0 p = (if M p = None then {} else {p})" by (auto simp: keys_at_def)
    then show ?case using 0
      by (auto simp: leaf_commit_def oc_default_def and_then_eq_Ok split: option.splits owner_leaf.splits if_splits)
  next
    case (Suc n)
    then obtain l r where l: "commit_at sha scope M n p = Ok l" and r: "commit_at sha scope M n (set_bit n p) = Ok r"
      and c: "combine sha l r = Ok c" by (auto simp: and_then_eq_Ok)
    have n: "n < 256" "n \<le> 256" using Suc.prems by auto
    note ch = child_pref [OF n(1) Suc.prems(2)] and ks = keys_at_Suc [OF n(1) Suc.prems(2), of M]
    note L = Suc.IH [OF n(2) ch(1) l] and R = Suc.IH [OF n(2) ch(2) r]
    note co = combine_Ok [OF c]
    have "unat (oc_balance c) = unat (oc_balance l) + unat (oc_balance r)"
    proof (cases "oc_count c = 0")
      case True
      then have "oc_count l = 0" "oc_count r = 0" using co(1) by (simp_all add: unat_eq_0)
      then show ?thesis using co(4) [OF True] L R by (simp add: oc_default_def)
    qed (use co in simp)
    then show ?case using co(1,4) L R ks by (simp add: card_Un_disjoint sum.union_disjoint)
  qed
  then show "unat (oc_count c) = card (keys_at M n p)"
    "unat (oc_balance c) = (\<Sum>k \<in> keys_at M n p. leaf_balance (the (M k)))"
    "oc_count c = 0 \<Longrightarrow> c = oc_default" by auto
qed

end
