(* ===== verification/Owner_Verify.thy ===== *)
theory Owner_Verify
  imports Owner_Tree
begin

text \<open>Verification of owner paths is sound. Where the hash has no collision among the inputs of the tree and
  of the proof, a path that verifies to the commitment of a map shows the leaf the map has at the key, or its
  absence, and the number of smaller keys.\<close>

section \<open>The hashed inputs\<close>

definition tree_preimages :: "sha256 \<Rightarrow> bytes32 \<Rightarrow> (bytes32 \<Rightarrow> owner_leaf option) \<Rightarrow> bytes set" where
  "tree_preimages sha scope M =
    {leaf_preimage scope k l | k l. M k = Some l}
    \<union> {branch_preimage l r | l r. \<exists>n < 256. \<exists>p. pref (Suc n) p = p
        \<and> commit_at sha scope M n p = Ok l \<and> commit_at sha scope M n (set_bit n p) = Ok r}"

fun loop_preimages ::
  "sha256 \<Rightarrow> bytes32 \<Rightarrow> owner_commitment list \<Rightarrow> nat list \<Rightarrow> owner_commitment \<Rightarrow> bytes list" where
  "loop_preimages sha key siblings [] current = []"
| "loop_preimages sha key siblings (depth # depths) current =
    (let lr = if key_bit key depth then (siblings ! depth, current) else (current, siblings ! depth)
     in branch_preimage (fst lr) (snd lr) #
       (case combine sha (fst lr) (snd lr) of
          Ok c \<Rightarrow> loop_preimages sha key siblings depths c
        | Err _ \<Rightarrow> []))"

definition path_preimages :: "sha256 \<Rightarrow> bytes32 \<Rightarrow> bytes32 \<Rightarrow> owner_path_proof \<Rightarrow> bytes list" where
  "path_preimages sha scope key p =
    (case pp_leaf p of None \<Rightarrow> [] | Some l \<Rightarrow> [leaf_preimage scope key l]) @
    (case expand_siblings p of
       Err _ \<Rightarrow> []
     | Ok siblings \<Rightarrow>
         (case leaf_commit sha scope key (pp_leaf p) of
            Err _ \<Rightarrow> []
          | Ok current \<Rightarrow> loop_preimages sha key siblings (rev [0..<256]) current))"

section \<open>Nothing is lost by hashing\<close>

lemma length_write_commit [simp]: "length (write_commit c) = 56"
  by (simp add: write_commit_def length_to_be_bytes)

lemma write_commit_inj: "write_commit c = write_commit c' \<longleftrightarrow> c = c'"
  by (cases c, cases c') (auto simp: write_commit_def length_to_be_bytes to_be_bytes_inject)

lemma branch_preimage_inj: "branch_preimage l r = branch_preimage l' r' \<longleftrightarrow> l = l' \<and> r = r'"
  by (simp add: branch_preimage_def write_commit_inj)

lemma leaf_body_inj: "leaf_body l = leaf_body l' \<longleftrightarrow> l = l'"
  by (cases l; cases l') (simp_all add: write_commit_inj to_be_bytes_inject)

lemma leaf_preimage_inj: "leaf_preimage scope k l = leaf_preimage scope k l' \<longleftrightarrow> l = l'"
  by (simp add: leaf_preimage_def leaf_body_inj)

text \<open>An empty commitment is the default one: true of what \<^verbatim>\<open>combine\<close> and \<^verbatim>\<open>leaf_commit\<close> return,
  and of what \<^verbatim>\<open>read_commit\<close> accepts.\<close>

definition settled :: "owner_commitment \<Rightarrow> bool" where
  "settled c \<longleftrightarrow> (oc_count c = 0 \<longrightarrow> c = oc_default)"

lemma settled_combine: "combine sha l r = Ok c \<Longrightarrow> settled c"
  by (auto simp: settled_def dest: combine_Ok(4))

lemma settled_leaf: "leaf_commit sha scope k m = Ok c \<Longrightarrow> settled c"
  by (auto simp: settled_def leaf_commit_def and_then_eq_Ok split: option.splits)

lemma settled_valid: "commit_valid c \<Longrightarrow> settled c"
  by (cases c) (auto simp: settled_def commit_valid_def oc_default_def)

lemma settled_default [simp]: "settled oc_default" by (simp add: settled_def)

lemma settled_at:
  "commit_at sha scope M n p = Ok c \<Longrightarrow> settled c"
  by (cases n) (auto simp: and_then_eq_Ok intro: settled_leaf settled_combine)

lemma read_write_commit: "read_commit (write_commit c) = (if commit_valid c then Ok c else Err OwnerInvalid)"
proof -
  have "\<lparr>oc_hash = from_be_bytes (take 32 (write_commit c)), oc_count = from_be_bytes (take 8 (drop 32 (write_commit c))),
      oc_balance = from_be_bytes (drop 40 (write_commit c))\<rparr> = c"
    by (cases c) (simp add: write_commit_def length_to_be_bytes from_be_bytes_to_be)
  then show ?thesis unfolding read_commit_def Let_def by simp
qed

lemma combine_binds:
  assumes "combine sha l r = Ok c" "combine sha l' r' = Ok c'" "oc_hash c = oc_hash c'" "oc_count c = oc_count c'"
    and "inj_on sha B" "branch_preimage l r \<in> B" "branch_preimage l' r' \<in> B"
    and "settled l" "settled r" "settled l'" "settled r'"
  shows "l = l' \<and> r = r'"
proof (cases "oc_count c = 0")
  case True
  then have "oc_count l = 0" "oc_count r = 0" "oc_count l' = 0" "oc_count r' = 0"
    using combine_Ok(1) [OF assms(1)] combine_Ok(1) [OF assms(2)] assms(4) by (simp_all add: unat_eq_0)
  then show ?thesis using assms by (simp add: settled_def)
next
  case False
  then have "sha (branch_preimage l r) = sha (branch_preimage l' r')"
    using combine_Ok(2) [OF assms(1)] combine_Ok(2) [OF assms(2)] assms(3,4) by simp
  then show ?thesis using inj_on_eq_iff [OF assms(5-7)] by (simp add: branch_preimage_inj)
qed

lemma leaf_commit_binds:
  assumes "leaf_commit sha scope k m = Ok c" "leaf_commit sha scope k m' = Ok c" "inj_on sha B"
    and "\<And>l. m = Some l \<Longrightarrow> leaf_preimage scope k l \<in> B" "\<And>l. m' = Some l \<Longrightarrow> leaf_preimage scope k l \<in> B"
  shows "m = m'"
proof (cases m)
  case None
  then show ?thesis using assms(1,2) by (cases m') (auto simp: leaf_commit_def and_then_eq_Ok oc_default_def)
next
  case (Some l)
  then obtain l' where l': "m' = Some l'"
    using assms(1,2) by (cases m') (auto simp: leaf_commit_def and_then_eq_Ok oc_default_def)
  have "sha (leaf_preimage scope k l) = sha (leaf_preimage scope k l')"
    using assms(1,2) Some l' by (auto simp: leaf_commit_def and_then_eq_Ok)
  then show ?thesis using inj_on_eq_iff [OF assms(3) assms(4) [OF Some] assms(5) [OF l']] Some l'
    by (simp add: leaf_preimage_inj)
qed

section \<open>Climbing\<close>

text \<open>The keys that come before a key and leave its path above height \<open>n\<close>.\<close>

definition before :: "(bytes32 \<Rightarrow> owner_leaf option) \<Rightarrow> nat \<Rightarrow> bytes32 \<Rightarrow> bytes32 set" where
  "before M n key = {k. M k \<noteq> None \<and> k < key \<and> pref n k \<noteq> pref n key}"

lemma before_256 [simp]: "before M 256 key = {}" by (simp add: before_def)

lemma before_0: "before M 0 key = {k. M k \<noteq> None \<and> k < key}" by (auto simp: before_def)

lemma finite_before [simp]: "finite (before M n key)" by (rule finite)

lemma before_step:
  assumes "n < 256"
  shows "before M n key = before M (Suc n) key \<union> (if bit key n then keys_at M n (sib n key) else {})"
    and "before M (Suc n) key \<inter> (if bit key n then keys_at M n (sib n key) else {}) = {}"
proof -
  have up: "pref (Suc n) k = pref (Suc n) key" if "pref n k = pref n key \<or> pref n k = sib n key" for k
    using that pref_Suc [OF assms, of key] by (intro pref_below [OF assms]) (auto simp: sib_def split: if_splits)
  have bitk: "pref n k = (if bit k n then set_bit n (pref (Suc n) key) else pref (Suc n) key)"
    if "pref (Suc n) k = pref (Suc n) key" for k
    using that pref_Suc [OF assms, of k] by simp
  have ne: "pref (Suc n) key \<noteq> set_bit n (pref (Suc n) key)" using child_pref(3) [OF assms, of "pref (Suc n) key"] by simp
  have key: "pref n key = (if bit key n then set_bit n (pref (Suc n) key) else pref (Suc n) key)" using bitk by blast
  have "k \<in> before M n key \<longleftrightarrow> k \<in> before M (Suc n) key \<or> bit key n \<and> k \<in> keys_at M n (sib n key)" for k
  proof (cases "pref (Suc n) k = pref (Suc n) key")
    case True
    then have "k \<in> before M n key \<longleftrightarrow> M k \<noteq> None \<and> k < key \<and> bit k n \<noteq> bit key n"
      using bitk [OF True] key ne by (auto simp: before_def)
    also have "\<dots> \<longleftrightarrow> bit key n \<and> M k \<noteq> None \<and> \<not> bit k n"
      using left_before_right [of n k key] left_before_right [of n key k] True by (auto dest: order.asym)
    also have "\<dots> \<longleftrightarrow> bit key n \<and> k \<in> keys_at M n (sib n key)"
      using bitk [OF True] ne by (auto simp: keys_at_def sib_def)
    finally show ?thesis using True by (simp add: before_def)
  next
    case False
    then show ?thesis using up [of k] by (auto simp: before_def keys_at_def)
  qed
  then show "before M n key = before M (Suc n) key \<union> (if bit key n then keys_at M n (sib n key) else {})" by auto
  show "before M (Suc n) key \<inter> (if bit key n then keys_at M n (sib n key) else {}) = {}"
    by (auto simp: before_def keys_at_def dest: up [OF disjI2])
qed

lemma branch_in_tree:
  assumes "n < 256" "commit_at sha scope M n (pref n key) = Ok c" "commit_at sha scope M n (sib n key) = Ok d"
  shows "(if bit key n then branch_preimage d c else branch_preimage c d) \<in> tree_preimages sha scope M"
proof -
  have "\<exists>p. pref (Suc n) p = p \<and> commit_at sha scope M n p = Ok (if bit key n then d else c)
    \<and> commit_at sha scope M n (set_bit n p) = Ok (if bit key n then c else d)"
    using assms pref_Suc [OF assms(1), of key] by (intro exI [of _ "pref (Suc n) key"]) (auto simp: sib_def split: if_splits)
  then show ?thesis unfolding tree_preimages_def using assms(1) by (cases "bit key n") auto
qed

lemma verify_step:
  assumes "verify_loop sha key siblings (depth # depths) current rank = Ok r"
  obtains next' rank' where
    "combine sha (if key_bit key depth then siblings ! depth else current)
      (if key_bit key depth then current else siblings ! depth) = Ok next'"
    "unat rank' = unat rank + (if key_bit key depth then unat (oc_count (siblings ! depth)) else 0)"
    "commit_valid (siblings ! depth)" "verify_loop sha key siblings depths next' rank' = Ok r"
  using assms
  by (auto simp: Let_def read_write_commit and_then_eq_Ok ok_or_eq_Ok dest: checked_add_Some split: if_splits)

text \<open>A climb that ends at the root of a map was, at every height, at that map's node on the key's path.\<close>

lemma verify_loop_sound:
  assumes "verify_loop sha key siblings (rev [0..<m]) current rank = Ok (root, rank')" "m \<le> 256"
    and "commit_at sha scope M 256 0 = Ok root" "settled current"
    and "inj_on sha B" "tree_preimages sha scope M \<subseteq> B"
    and "set (loop_preimages sha key siblings (rev [0..<m]) current) \<subseteq> B"
  shows "commit_at sha scope M (256 - m) (pref (256 - m) key) = Ok current
    \<and> unat rank' = unat rank + card (before M (256 - m) key)"
  using assms
proof (induction m arbitrary: current rank)
  case (Suc m)
  define n where "n = 255 - m"
  have n: "n < 256" "256 - m = Suc n" "256 - Suc m = n" and bit: "key_bit key m = bit key n"
    using Suc.prems(2) by (simp_all add: n_def key_bit_def)
  let ?s = "siblings ! m"
  let ?l = "if bit key n then ?s else current" and ?r = "if bit key n then current else ?s"
  have "verify_loop sha key siblings (m # rev [0..<m]) current rank = Ok (root, rank')" using Suc.prems(1) by simp
  then obtain c rk where c: "combine sha ?l ?r = Ok c"
    and rk: "unat rk = unat rank + (if bit key n then unat (oc_count ?s) else 0)"
    and v: "commit_valid ?s" "verify_loop sha key siblings (rev [0..<m]) c rk = Ok (root, rank')"
    by (rule verify_step) (simp add: bit)
  have B: "branch_preimage ?l ?r \<in> B" "set (loop_preimages sha key siblings (rev [0..<m]) c) \<subseteq> B"
    using Suc.prems(7) c by (auto simp: Let_def bit split: if_splits)
  have IH: "commit_at sha scope M (Suc n) (pref (Suc n) key) = Ok c" "unat rank' = unat rk + card (before M (Suc n) key)"
    using Suc.IH [OF v(2) _ Suc.prems(3) settled_combine [OF c] Suc.prems(5,6) B(2)] Suc.prems(2) n by auto
  then obtain a d where ad: "commit_at sha scope M n (pref n key) = Ok a" "commit_at sha scope M n (sib n key) = Ok d"
      "combine sha (if bit key n then d else a) (if bit key n then a else d) = Ok c"
    unfolding commit_at_Suc_path [OF n(1)] by (auto simp: and_then_eq_Ok split: if_splits)
  have "?l = (if bit key n then d else a) \<and> ?r = (if bit key n then a else d)"
    using branch_in_tree [OF n(1) ad(1,2)] Suc.prems(6) Suc.prems(4) settled_valid [OF v(1)]
      settled_at [OF ad(1)] settled_at [OF ad(2)]
    by (intro combine_binds [OF c ad(3) refl refl Suc.prems(5) B(1)]) (auto split: if_splits)
  then have e: "current = a" "?s = d" by (auto split: if_splits)
  have "unat (oc_count d) = card (keys_at M n (sib n key))"
    using ad(2) n(1) child_pref [of n "pref (Suc n) key"] by (intro commit_at_counts) (auto simp: sib_def)
  then show ?case unfolding n(3) using ad(1) e rk IH(2) before_step [OF n(1), of M key]
    by (auto simp: card_Un_disjoint split: if_splits)
qed simp

lemma verify_path_sound:
  assumes "verify_path sha scope key p = Ok (root, rank)" "commit_at sha scope M 256 0 = Ok root"
    and "inj_on sha B" "tree_preimages sha scope M \<subseteq> B" "set (path_preimages sha scope key p) \<subseteq> B"
  shows "pp_leaf p = M key" "unat rank = card {k. M k \<noteq> None \<and> k < key}"
proof -
  from assms(1) obtain siblings current where x: "expand_siblings p = Ok siblings"
    and l: "leaf_commit sha scope key (pp_leaf p) = Ok current"
    and v: "verify_loop sha key siblings (rev [0..<256]) current 0 = Ok (root, rank)"
    by (auto simp: verify_path_def and_then_eq_Ok)
  have B: "set (loop_preimages sha key siblings (rev [0..<256]) current) \<subseteq> B"
    "\<And>l. pp_leaf p = Some l \<Longrightarrow> leaf_preimage scope key l \<in> B"
    using assms(5) x l by (auto simp: path_preimages_def)
  have "commit_at sha scope M 0 key = Ok current \<and> unat rank = card (before M 0 key)"
    using verify_loop_sound [OF v _ assms(2) settled_leaf [OF l] assms(3,4) B(1)] by simp
  then have "leaf_commit sha scope key (M key) = Ok current" "unat rank = card {k. M k \<noteq> None \<and> k < key}"
    by (simp_all add: before_0)
  moreover have "leaf_preimage scope key l' \<in> B" if "M key = Some l'" for l'
    using assms(4) that by (auto simp: tree_preimages_def)
  ultimately show "pp_leaf p = M key" "unat rank = card {k. M k \<noteq> None \<and> k < key}"
    using leaf_commit_binds [OF l _ assms(3) B(2), of "M key"] by simp_all
qed

end
