(* ===== verification/Owner_Forest.thy ===== *)
theory Owner_Forest
  imports Owner_Verify
begin

text \<open>The store as a forest. Every key in use has its path in the store: at each depth the commitments of the
  two halves, and the leaf at the bottom. Reading a path gives a proof that verifies to the root and the rank
  of the key; updating a leaf gives the root of the updated map, and a forest again.\<close>

section \<open>Node encodings\<close>

lemma decode_encode_branch:
  assumes "commit_valid l" "commit_valid r"
  shows "decode_branch (encode_branch l r) = Ok (l, r)"
proof (cases "oc_count l = 0 \<and> oc_count r = 0")
  case True
  then show ?thesis using settled_valid [OF assms(1)] settled_valid [OF assms(2)]
    by (simp add: encode_branch_def decode_branch_def settled_def)
next
  case False
  have "\<not> list_ex (\<lambda>b. b \<noteq> 0) (drop 112 (write_commit l @ write_commit r @ replicate 50 (0 :: byte)))"
    by (simp add: list_ex_iff)
  then show ?thesis using False assms
    by (auto simp: encode_branch_def decode_branch_def pad_node_def OWNER_NODE_BYTES_def read_write_commit drop_Cons')
qed

fun leaf_wf :: "owner_leaf \<Rightarrow> bool" where
  "leaf_wf (Summary root) = commit_valid root"
| "leaf_wf (Holding _ _) = True"

lemma decode_encode_leaf:
  assumes "\<And>l. m = Some l \<Longrightarrow> leaf_wf l"
  shows "decode_leaf (map_option encode_leaf m) = Ok m"
proof (cases m)
  case (Some l)
  then show ?thesis using assms [OF Some]
    by (cases l) (simp_all add: decode_leaf_def encode_leaf_def pad_node_def OWNER_NODE_BYTES_def read_write_commit
        drop_Cons' list_all_iff length_to_be_bytes from_be_bytes_to_be)
qed (simp add: decode_leaf_def)

lemma length_encode_leaf: "length (encode_leaf l) = OWNER_NODE_BYTES"
  by (cases l) (simp_all add: encode_leaf_def pad_node_def OWNER_NODE_BYTES_def length_to_be_bytes)

lemma length_encode_branch: "encode_branch l r = Some bs \<Longrightarrow> length bs = OWNER_NODE_BYTES"
  by (auto simp: encode_branch_def pad_node_def OWNER_NODE_BYTES_def split: if_splits)

section \<open>Valid commitments\<close>

lemma commit_at_valid:
  assumes "commit_at sha scope M n p = Ok c" "n \<le> 256" "pref n p = p" "0 \<notin> sha ` tree_preimages sha scope M"
  shows "commit_valid c"
proof (cases "oc_count c = 0")
  case True
  then show ?thesis using settled_at [OF assms(1)] by (simp add: settled_def commit_valid_def oc_default_def)
next
  case False
  have "oc_hash c \<in> sha ` tree_preimages sha scope M"
  proof (cases n)
    case 0
    then obtain l where "M p = Some l" "oc_hash c = sha (leaf_preimage scope p l)"
      using assms(1) False by (auto simp: leaf_commit_def oc_default_def and_then_eq_Ok split: option.splits)
    then show ?thesis by (intro image_eqI [of _ _ "leaf_preimage scope p l"]) (auto simp: tree_preimages_def)
  next
    case (Suc m)
    then obtain l r where "commit_at sha scope M m p = Ok l" "commit_at sha scope M m (set_bit m p) = Ok r"
      "combine sha l r = Ok c" using assms(1) by (auto simp: and_then_eq_Ok)
    then show ?thesis using Suc assms(2,3) combine_Ok(2) [of sha l r c] False
      by (intro image_eqI [of _ _ "branch_preimage l r"]) (auto simp: tree_preimages_def)
  qed
  then show ?thesis using assms(4) False by (auto simp: commit_valid_def)
qed

section \<open>The store\<close>

text \<open>What the tree relies on: a write is read back and touches no other node, and a node that can be read can
  be written.\<close>

locale owner_store_laws =
  fixes st :: "'s owner_store"
  assumes get_put: "ow_put st s k v = (Ok u, s') \<Longrightarrow> ow_get st s' k' = (if k' = k then Ok v else ow_get st s k')"
    and put_total: "ow_get st s k = Ok x \<Longrightarrow> \<exists>s'. ow_put st s k v = (Ok (), s')"

interpretation mem: owner_store_laws mem_store
  by unfold_locales (auto simp: mem_store_def mem_get_node_def mem_put_node_def split: option.splits)

definition node_preimages :: "(bytes32 \<times> bytes32) set \<Rightarrow> bytes set" where
  "node_preimages U = {node_preimage scope k d | scope k d. (scope, k) \<in> U \<and> d \<le> 256}"

text \<open>The path of one key: its branches and its leaf are those of the map.\<close>

definition path_stored :: "'s owner_store \<Rightarrow> sha256 \<Rightarrow> 's \<Rightarrow> bytes32 \<Rightarrow> (bytes32 \<Rightarrow> owner_leaf option) \<Rightarrow> bytes32 \<Rightarrow> bool" where
  "path_stored st sha s scope M k \<longleftrightarrow>
    (\<forall>n < 256. \<exists>l r. commit_at sha scope M n (pref (Suc n) k) = Ok l
      \<and> commit_at sha scope M n (set_bit n (pref (Suc n) k)) = Ok r \<and> commit_valid l \<and> commit_valid r
      \<and> ow_get st s (node_key sha scope k (255 - n)) = Ok (encode_branch l r))
    \<and> ow_get st s (node_key sha scope k 256) = Ok (map_option encode_leaf (M k))"

definition forest_ok ::
  "'s owner_store \<Rightarrow> sha256 \<Rightarrow> 's \<Rightarrow> (bytes32 \<times> bytes32) set \<Rightarrow> (bytes32 \<Rightarrow> bytes32 \<Rightarrow> owner_leaf option) \<Rightarrow> bool" where
  "forest_ok st sha s U F \<longleftrightarrow>
    (\<forall>(scope, k) \<in> U. path_stored st sha s scope (F scope) k)
    \<and> (\<forall>scope k l. F scope k = Some l \<longrightarrow> (scope, k) \<in> U \<and> leaf_wf l)"

section \<open>Reading a path\<close>

lemma path_stored_step:
  assumes "path_stored st sha s scope M k" "n < 256"
  obtains a d where "commit_at sha scope M n (pref n k) = Ok a" "commit_at sha scope M n (sib n k) = Ok d"
    "commit_valid a" "commit_valid d"
    "ow_get st s (node_key sha scope k (255 - n)) = Ok (encode_branch (if bit k n then d else a) (if bit k n then a else d))"
proof -
  obtain l r where *: "commit_at sha scope M n (pref (Suc n) k) = Ok l"
    "commit_at sha scope M n (set_bit n (pref (Suc n) k)) = Ok r" "commit_valid l" "commit_valid r"
    "ow_get st s (node_key sha scope k (255 - n)) = Ok (encode_branch l r)"
    using assms unfolding path_stored_def by blast
  show thesis
  proof (cases "bit k n")
    case True
    then show ?thesis using * pref_Suc [OF assms(2), of k] by (intro that [of r l]) (simp_all add: sib_def)
  next
    case False
    then show ?thesis using * pref_Suc [OF assms(2), of k] by (intro that [of l r]) (simp_all add: sib_def)
  qed
qed

definition sib_commit :: "sha256 \<Rightarrow> bytes32 \<Rightarrow> (bytes32 \<Rightarrow> owner_leaf option) \<Rightarrow> bytes32 \<Rightarrow> nat \<Rightarrow> owner_commitment" where
  "sib_commit sha scope M k d =
    (case commit_at sha scope M (255 - d) (sib (255 - d) k) of Ok c \<Rightarrow> c | Err _ \<Rightarrow> oc_default)"

definition sib_list :: "(nat \<Rightarrow> owner_commitment) \<Rightarrow> nat list \<Rightarrow> owner_sibling list" where
  "sib_list f ds = map (\<lambda>d. \<lparr>os_depth = of_nat d, os_commitment = f d\<rparr>) (filter (\<lambda>d. 0 < oc_count (f d)) ds)"

lemma sib_commit_valid:
  assumes "path_stored st sha s scope M k" "d < 256"
  shows "commit_valid (sib_commit sha scope M k d)"
    and "commit_at sha scope M (255 - d) (sib (255 - d) k) = Ok (sib_commit sha scope M k d)"
proof -
  have "255 - d < 256" by simp
  from path_stored_step [OF assms(1) this] obtain e where
    "commit_at sha scope M (255 - d) (sib (255 - d) k) = Ok e" "commit_valid e" by metis
  then show "commit_valid (sib_commit sha scope M k d)"
    "commit_at sha scope M (255 - d) (sib (255 - d) k) = Ok (sib_commit sha scope M k d)"
    by (simp_all add: sib_commit_def)
qed

lemma path_loop_stored:
  assumes "path_stored st sha s scope M k" "\<forall>d \<in> set ds. d < 256"
  shows "path_loop st sha s scope k ds = Ok (sib_list (sib_commit sha scope M k) ds)"
  using assms(2)
proof (induction ds)
  case (Cons d ds)
  define n where "n = 255 - d"
  have n: "n < 256" "255 - n = d" "bit k n = key_bit k d" using Cons.prems by (simp_all add: n_def key_bit_def)
  obtain a e where e: "commit_at sha scope M n (sib n k) = Ok e" "commit_valid a" "commit_valid e"
    "ow_get st s (node_key sha scope k d) = Ok (encode_branch (if bit k n then e else a) (if bit k n then a else e))"
    using path_stored_step [OF assms(1) n(1)] n(2) by metis
  have "sib_commit sha scope M k d = e" using e(1) by (simp add: sib_commit_def n_def)
  then show ?case using Cons e(2-4) n(3)
    by (cases "key_bit k d") (simp_all add: decode_encode_branch sib_list_def)
qed (simp add: sib_list_def)

lemma owner_path_stored:
  assumes "path_stored st sha s scope M k" "\<And>l. M k = Some l \<Longrightarrow> leaf_wf l"
  shows "owner_path st sha s scope k
    = Ok \<lparr>pp_leaf = M k, pp_siblings = sib_list (sib_commit sha scope M k) [0..<256]\<rparr>"
proof -
  have "ow_get st s (node_key sha scope k 256) = Ok (map_option encode_leaf (M k))"
    using assms(1) by (simp add: path_stored_def)
  moreover have "decode_leaf (map_option encode_leaf (M k)) = Ok (M k)" by (rule decode_encode_leaf) (rule assms(2))
  ultimately show ?thesis using path_loop_stored [OF assms(1), of "[0..<256]"] by (simp add: owner_path_def)
qed

lemma expand_sib_list:
  assumes "d \<le> 256" "\<And>i. i < 256 \<Longrightarrow> commit_valid (f i)" "case prev of None \<Rightarrow> True | Some p \<Rightarrow> p < d"
  shows "expand_loop (sib_list f [d..<256]) prev (map f [0..<d] @ replicate (256 - d) oc_default) = Ok (map f [0..<256])"
  using assms(1,3)
proof (induction "256 - d" arbitrary: d prev)
  case (Suc m)
  then have d: "d < 256" and up: "[d..<256] = d # [Suc d..<256]" by (simp_all add: upt_conv_Cons)
  have rep: "replicate (256 - d) oc_default = oc_default # replicate (256 - Suc d) oc_default"
    using d by (metis Suc_diff_Suc replicate_Suc)
  have IH: "expand_loop (sib_list f [Suc d..<256]) p (map f [0..<Suc d] @ replicate (256 - Suc d) oc_default)
      = Ok (map f [0..<256])" if "case p of None \<Rightarrow> True | Some p \<Rightarrow> p < Suc d" for p
    using Suc.hyps(2) d that by (intro Suc.hyps(1)) auto
  show ?case
  proof (cases "oc_count (f d) = 0")
    case True
    then have "f d = oc_default" using settled_valid [OF assms(2) [OF d]] by (simp add: settled_def)
    then show ?thesis using IH [of prev] Suc.prems(2) True unfolding up rep
      by (auto simp: sib_list_def split: option.splits)
  next
    case False
    have "unat (of_nat d :: u16) = d" using d by (simp add: unat_of_nat)
    then show ?thesis using IH [of "Some d"] Suc.prems(2) False d assms(2) [OF d] unfolding up rep
      by (auto simp: sib_list_def read_write_commit word_gt_0 list_update_append split: option.splits)
  qed
qed (simp add: sib_list_def)

lemma expand_siblings_stored:
  assumes "path_stored st sha s scope M k"
  shows "expand_siblings \<lparr>pp_leaf = leaf, pp_siblings = sib_list (sib_commit sha scope M k) [0..<256]\<rparr>
    = Ok (map (sib_commit sha scope M k) [0..<256])"
proof -
  have "length (sib_list (sib_commit sha scope M k) [0..<256]) \<le> length [0..<256]"
    unfolding sib_list_def length_map by (rule length_filter_le)
  then show ?thesis
    using expand_sib_list [of 0 "sib_commit sha scope M k" None] sib_commit_valid(1) [OF assms]
    by (simp add: expand_siblings_def)
qed

lemma verify_loop_complete:
  assumes "path_stored st sha s scope M k" "commit_at sha scope M 256 0 = Ok root" "m \<le> 256"
    and "commit_at sha scope M (256 - m) (pref (256 - m) k) = Ok current"
    and "unat rank + card (before M (256 - m) k) < 2 ^ 64"
  shows "verify_loop sha k (map (sib_commit sha scope M k) [0..<256]) (rev [0..<m]) current rank
    = Ok (root, of_nat (unat rank + card (before M (256 - m) k)))"
  using assms(3-5)
proof (induction m arbitrary: current rank)
  case 0
  then show ?case using assms(2) by simp
next
  case (Suc m)
  define n where "n = 255 - m"
  have n: "n < 256" "256 - m = Suc n" "256 - Suc m = n" and bit: "key_bit k m = bit k n"
    using Suc.prems(1) by (simp_all add: n_def key_bit_def)
  let ?d = "sib_commit sha scope M k m"
  have m: "m < 256" using Suc.prems(1) by simp
  have d: "commit_at sha scope M n (sib n k) = Ok ?d" "commit_valid ?d"
    using sib_commit_valid [OF assms(1) m] by (simp_all add: n_def)
  obtain c where c: "commit_at sha scope M (Suc n) (pref (Suc n) k) = Ok c"
    using commit_at_sub [OF assms(2), of "Suc n" k] n(1) by auto
  have cc: "combine sha (if bit k n then ?d else current) (if bit k n then current else ?d) = Ok c"
    using c d(1) Suc.prems(2) unfolding commit_at_Suc_path [OF n(1)] n(3) by (auto split: if_splits)
  have cnt: "unat (oc_count ?d) = card (keys_at M n (sib n k))"
    using d(1) n(1) child_pref [of n "pref (Suc n) k"] by (intro commit_at_counts) (auto simp: sib_def)
  have card: "card (before M n k) = card (before M (Suc n) k) + (if bit k n then unat (oc_count ?d) else 0)"
    using before_step [OF n(1), of M k] by (simp add: cnt card_Un_disjoint)
  have IH: "verify_loop sha k (map (sib_commit sha scope M k) [0..<256]) (rev [0..<m]) c rk
      = Ok (root, of_nat (unat rk + card (before M (Suc n) k)))"
    if "unat rk + card (before M (Suc n) k) < 2 ^ 64" for rk
    using Suc.IH [of c rk] that c m n(2) by simp
  have sum: "unat rank + card (before M n k) < 2 ^ 64" using Suc.prems(3) n(3) by simp
  show ?case
  proof (cases "bit k n")
    case True
    have lt: "unat rank + unat (oc_count ?d) < 2 ^ 64" using sum card True by simp
    then have u: "unat (rank + oc_count ?d) = unat rank + unat (oc_count ?d)" by (simp add: unat_word_ariths)
    then show ?thesis using IH [of "rank + oc_count ?d"] sum card True lt d(2) cc m bit unfolding n(3)
      by (simp add: read_write_commit checked_add_def add.assoc add.commute add.left_commute)
  next
    case False
    then show ?thesis using IH [of rank] sum card d(2) cc m bit unfolding n(3) by (simp add: read_write_commit)
  qed
qed

lemma card_before_less: "card (before M 0 k) < 2 ^ 64" if "commit_at sha scope M 256 0 = Ok root"
proof -
  have "card (before M 0 k) \<le> card (keys_at M 256 0)"
    by (rule card_mono) (auto simp: before_def keys_at_def)
  also have "\<dots> = unat (oc_count root)" using commit_at_counts(1) [OF _ _ that] by simp
  finally show ?thesis using unsigned_less [of "oc_count root", where 'a = nat] by simp
qed

text \<open>The path read for a key verifies to the root, with the number of keys before it.\<close>

lemma owner_path_complete:
  assumes "path_stored st sha s scope M k" "\<And>l. M k = Some l \<Longrightarrow> leaf_wf l" "commit_at sha scope M 256 0 = Ok root"
  shows "\<exists>p. owner_path st sha s scope k = Ok p \<and> pp_leaf p = M k
    \<and> verify_path sha scope k p = Ok (root, of_nat (card {j. M j \<noteq> None \<and> j < k}))"
proof -
  obtain c where c: "commit_at sha scope M 0 (pref 0 k) = Ok c" using commit_at_sub [OF assms(3), of 0 k] by auto
  have "verify_loop sha k (map (sib_commit sha scope M k) [0..<256]) (rev [0..<256]) c 0
      = Ok (root, of_nat (card (before M 0 k)))"
    using verify_loop_complete [OF assms(1,3), of 256 c 0] c card_before_less [OF assms(3), of k] by simp
  then show ?thesis using owner_path_stored [OF assms(1,2)] c
    by (auto simp: verify_path_def expand_siblings_stored [OF assms(1)] before_0)
qed

section \<open>Writing a path\<close>

definition branch_of :: "sha256 \<Rightarrow> bytes32 \<Rightarrow> (bytes32 \<Rightarrow> owner_leaf option) \<Rightarrow> bytes32 \<Rightarrow> nat \<Rightarrow> bytes option" where
  "branch_of sha scope M k d =
    (let n = 255 - d; p = pref (Suc n) k in
     case (commit_at sha scope M n p, commit_at sha scope M n (set_bit n p)) of
       (Ok l, Ok r) \<Rightarrow> encode_branch l r
     | _ \<Rightarrow> None)"

text \<open>A map whose commitments all exist and are accepted when read back.\<close>

definition tree_ok :: "sha256 \<Rightarrow> bytes32 \<Rightarrow> (bytes32 \<Rightarrow> owner_leaf option) \<Rightarrow> bool" where
  "tree_ok sha scope M \<longleftrightarrow> (\<exists>c. commit_at sha scope M 256 0 = Ok c) \<and> 0 \<notin> sha ` tree_preimages sha scope M"

lemma tree_ok_children:
  assumes "tree_ok sha scope M" "n < 256"
  obtains l r where "commit_at sha scope M n (pref (Suc n) k) = Ok l"
    "commit_at sha scope M n (set_bit n (pref (Suc n) k)) = Ok r" "commit_valid l" "commit_valid r"
    "branch_of sha scope M k (255 - n) = encode_branch l r"
proof -
  note ch = child_pref [OF assms(2), of "pref (Suc n) k", simplified]
  obtain c where "commit_at sha scope M 256 0 = Ok c" using assms(1) by (auto simp: tree_ok_def)
  then obtain l r where lr: "commit_at sha scope M n (pref (Suc n) k) = Ok l"
      "commit_at sha scope M n (set_bit n (pref (Suc n) k)) = Ok r"
    using commit_at_sub [of sha scope M c "Suc n" "pref (Suc n) k"] assms(2) by (auto simp: and_then_eq_Ok)
  moreover have "commit_valid l" "commit_valid r"
    using commit_at_valid [OF lr(1)] commit_at_valid [OF lr(2)] ch assms by (auto simp: tree_ok_def)
  moreover have "branch_of sha scope M k (255 - n) = encode_branch l r"
    using lr assms(2) by (simp add: branch_of_def)
  ultimately show thesis by (rule that)
qed

lemma path_stored_iff:
  assumes "tree_ok sha scope M"
  shows "path_stored st sha s scope M k \<longleftrightarrow>
    (\<forall>d < 256. ow_get st s (node_key sha scope k d) = Ok (branch_of sha scope M k d))
    \<and> ow_get st s (node_key sha scope k 256) = Ok (map_option encode_leaf (M k))"
proof -
  have "(\<forall>n < 256. \<exists>l r. commit_at sha scope M n (pref (Suc n) k) = Ok l
      \<and> commit_at sha scope M n (set_bit n (pref (Suc n) k)) = Ok r \<and> commit_valid l \<and> commit_valid r
      \<and> ow_get st s (node_key sha scope k (255 - n)) = Ok (encode_branch l r))
    \<longleftrightarrow> (\<forall>n < 256. ow_get st s (node_key sha scope k (255 - n)) = Ok (branch_of sha scope M k (255 - n)))"
    by (intro all_cong) (auto elim!: tree_ok_children [OF assms, where k = k])
  also have "\<dots> \<longleftrightarrow> (\<forall>d < 256. ow_get st s (node_key sha scope k d) = Ok (branch_of sha scope M k d))"
  proof (intro iffI allI impI)
    fix d :: nat
    assume h: "\<forall>n < 256. ow_get st s (node_key sha scope k (255 - n)) = Ok (branch_of sha scope M k (255 - n))" "d < 256"
    then show "ow_get st s (node_key sha scope k d) = Ok (branch_of sha scope M k d)"
      using spec [OF h(1), of "255 - d"] by simp
  qed simp
  finally show ?thesis unfolding path_stored_def by simp
qed

lemma node_key_inj:
  assumes "node_key sha scope k d = node_key sha scope' k' d'" "inj_on sha (node_preimages U)"
    and "(scope, k) \<in> U" "(scope', k') \<in> U" "d \<le> 256" "d' \<le> 256"
  shows "scope = scope' \<and> d = d' \<and> pref (256 - d) k = pref (256 - d) k'"
proof -
  have "node_preimage scope k d \<in> node_preimages U" "node_preimage scope' k' d' \<in> node_preimages U"
    using assms(3-6) by (auto simp: node_preimages_def)
  then have "node_preimage scope k d = node_preimage scope' k' d'"
    using assms(1,2) by (auto simp: node_key_def inj_on_eq_iff)
  then have *: "scope = scope'" "(of_nat d :: u16) = of_nat d'" "clear_from d k = clear_from d' k'"
    by (simp_all add: node_preimage_def length_to_be_bytes to_be_bytes_inject)
  then have "unat (of_nat d :: u16) = unat (of_nat d' :: u16)" by simp
  then have "d = d'" using assms(5,6) by (simp add: unat_of_nat)
  then show ?thesis using * assms(5) by (simp add: clear_from_pref)
qed

lemma node_key_cong:
  assumes "pref (256 - d) k = pref (256 - d) k'" "d \<le> 256"
  shows "node_key sha scope k d = node_key sha scope k' d"
  using assms by (simp add: node_key_def node_preimage_def clear_from_pref)

end
