(* ===== verification/Owner_Update.thy ===== *)
theory Owner_Update
  imports Owner_Forest
begin

text \<open>Updating the owner tree: one leaf, then one holding of an owner together with the owner's summary. Both
  keep the store a forest, of the updated maps.\<close>

section \<open>One leaf\<close>

lemma commit_at_upd:
  assumes "n \<le> 256" "pref n p = p" "pref n k \<noteq> p"
  shows "commit_at sha scope (M(k := v)) n p = commit_at sha scope M n p"
  using assms by (intro commit_at_frame) auto

lemma sib_commit_upd:
  assumes "d < 256" shows "sib_commit sha scope (M(k := v)) k d = sib_commit sha scope M k d"
proof -
  define n where "n = 255 - d"
  have n: "n < 256" by (simp add: n_def)
  have "pref n (sib n k) = sib n k" "pref n k \<noteq> sib n k"
    using child_pref [OF n, of "pref (Suc n) k"] pref_Suc [OF n, of k] by (auto simp: sib_def)
  then show ?thesis using n by (simp add: sib_commit_def n_def [symmetric] commit_at_upd)
qed

lemma branch_of_cong:
  assumes "d < 256" "pref (256 - d) k = pref (256 - d) k'"
  shows "branch_of sha scope M k d = branch_of sha scope M k' d"
proof -
  have "Suc (255 - d) = 256 - d" using assms(1) by simp
  then show ?thesis using assms(2) by (simp add: branch_of_def)
qed

lemma branch_of_upd:
  assumes "d < 256" "pref (256 - d) k \<noteq> pref (256 - d) k'"
  shows "branch_of sha scope (M(k := v)) k' d = branch_of sha scope M k' d"
proof -
  define n where "n = 255 - d"
  have n: "n < 256" "Suc n = 256 - d" using assms(1) by (auto simp: n_def)
  let ?p = "pref (Suc n) k'"
  have "pref n k \<noteq> ?p" "pref n k \<noteq> set_bit n ?p"
    using pref_below [OF n(1), of k k'] assms(2) n(2) by auto
  then have "commit_at sha scope (M(k := v)) n ?p = commit_at sha scope M n ?p"
    "commit_at sha scope (M(k := v)) n (set_bit n ?p) = commit_at sha scope M n (set_bit n ?p)"
    using child_pref [OF n(1), of ?p] n(1) by (auto intro!: commit_at_upd)
  then show ?thesis by (simp only: branch_of_def Let_def n_def [symmetric])
qed

context owner_store_laws
begin

lemma update_loop_stored:
  assumes "tree_ok sha scope M" "commit_at sha scope M 256 0 = Ok root" "(scope, k) \<in> U" "inj_on sha (node_preimages U)"
    and "m \<le> 256" "\<forall>d < m. \<exists>x. ow_get st s (node_key sha scope k d) = Ok x"
    and "commit_at sha scope M (256 - m) (pref (256 - m) k) = Ok current"
  shows "\<exists>s'. update_loop st sha scope k (map (sib_commit sha scope M k) [0..<256]) (rev [0..<m]) current s = (Ok root, s')
    \<and> (\<forall>d < m. ow_get st s' (node_key sha scope k d) = Ok (branch_of sha scope M k d))
    \<and> (\<forall>j. j \<notin> node_key sha scope k ` {..<m} \<longrightarrow> ow_get st s' j = ow_get st s j)"
  using assms(5-7)
proof (induction m arbitrary: current s)
  case 0
  then show ?case using assms(2) by simp
next
  case (Suc m)
  define n where "n = 255 - m"
  have m: "m < 256" using Suc.prems(1) by simp
  have n: "n < 256" "256 - m = Suc n" "256 - Suc m = n" "255 - n = m" and bit: "key_bit k m = bit k n"
    using Suc.prems(1) by (simp_all add: n_def key_bit_def)
  obtain l r where lr: "commit_at sha scope M n (pref (Suc n) k) = Ok l"
      "commit_at sha scope M n (set_bit n (pref (Suc n) k)) = Ok r" "branch_of sha scope M k m = encode_branch l r"
    using tree_ok_children [OF assms(1) n(1), of k] n(4) by metis
  have cur: "commit_at sha scope M n (pref n k) = Ok current" using Suc.prems(3) n(3) by simp
  have d: "current = (if bit k n then r else l)" "sib_commit sha scope M k m = (if bit k n then l else r)"
    using lr cur pref_Suc [OF n(1), of k] by (auto simp: sib_commit_def n_def [symmetric] sib_def split: if_splits)
  obtain c where c: "commit_at sha scope M (Suc n) (pref (Suc n) k) = Ok c" "combine sha l r = Ok c"
    using commit_at_sub [OF assms(2), of "Suc n" k] n(1) lr(1,2) by (auto simp: and_then_eq_Ok)
  obtain s1 where s1: "ow_put st s (node_key sha scope k m) (encode_branch l r) = (Ok (), s1)"
    using Suc.prems(2) put_total by blast
  note gp = get_put [OF s1]
  have "\<forall>d < m. \<exists>x. ow_get st s1 (node_key sha scope k d) = Ok x" using Suc.prems(2) by (auto simp: gp)
  then obtain s' where s': "update_loop st sha scope k (map (sib_commit sha scope M k) [0..<256]) (rev [0..<m]) c s1 = (Ok root, s')"
    "\<forall>d < m. ow_get st s' (node_key sha scope k d) = Ok (branch_of sha scope M k d)"
    "\<forall>j. j \<notin> node_key sha scope k ` {..<m} \<longrightarrow> ow_get st s' j = ow_get st s1 j"
    using Suc.IH [of s1 c] m c(1) n(2) by auto
  have new: "node_key sha scope k m \<notin> node_key sha scope k ` {..<m}"
    using node_key_inj [OF _ assms(4,3,3)] m by fastforce
  have "update_loop st sha scope k (map (sib_commit sha scope M k) [0..<256]) (m # rev [0..<m]) current s = (Ok root, s')"
    using s'(1) s1 c(2) d m bit by (simp add: and_store_def pure_store_def)
  moreover have "ow_get st s' (node_key sha scope k m) = Ok (branch_of sha scope M k m)"
    using s'(3) new lr(3) by (simp add: gp)
  ultimately show ?case using s'(2,3)
    by (intro exI [of _ s']) (auto simp: less_Suc_eq lessThan_Suc gp)
qed

lemma owner_update_nodes:
  assumes "path_stored st sha s scope M k" "\<And>l. M k = Some l \<Longrightarrow> leaf_wf l"
    and "tree_ok sha scope (M(k := v))" "commit_at sha scope (M(k := v)) 256 0 = Ok root"
    and "(scope, k) \<in> U" "inj_on sha (node_preimages U)"
  shows "\<exists>s'. owner_update st sha s scope k v = (Ok root, s')
    \<and> (\<forall>d < 256. ow_get st s' (node_key sha scope k d) = Ok (branch_of sha scope (M(k := v)) k d))
    \<and> ow_get st s' (node_key sha scope k 256) = Ok (map_option encode_leaf v)
    \<and> (\<forall>j. j \<notin> node_key sha scope k ` {..256} \<longrightarrow> ow_get st s' j = ow_get st s j)"
proof -
  have sibs: "map (sib_commit sha scope M k) [0..<256] = map (sib_commit sha scope (M(k := v)) k) [0..<256]"
    by (intro map_cong) (simp_all add: sib_commit_upd)
  obtain c where c: "commit_at sha scope (M(k := v)) (256 - 256) (pref (256 - 256) k) = Ok c"
    using commit_at_sub [OF assms(4), of 0 k] by auto
  have leafnode: "\<exists>x. ow_get st s (node_key sha scope k 256) = Ok x" using assms(1) by (simp add: path_stored_def)
  then obtain s1 where s1: "ow_put st s (node_key sha scope k 256) (map_option encode_leaf v) = (Ok (), s1)"
    using put_total by blast
  note gp = get_put [OF s1]
  have "\<exists>x. ow_get st s (node_key sha scope k d) = Ok x" if "d < 256" for d
  proof -
    have "255 - d < 256" "255 - (255 - d) = d" using that by simp_all
    then show ?thesis using path_stored_step [OF assms(1), of "255 - d"] by metis
  qed
  then have "\<forall>d < 256. \<exists>x. ow_get st s1 (node_key sha scope k d) = Ok x" by (simp add: gp)
  from update_loop_stored [OF assms(3-6) order_refl this c] obtain s' where
    s': "update_loop st sha scope k (map (sib_commit sha scope (M(k := v)) k) [0..<256]) (rev [0..<256]) c s1 = (Ok root, s')"
      "\<forall>d < 256. ow_get st s' (node_key sha scope k d) = Ok (branch_of sha scope (M(k := v)) k d)"
      "\<forall>j. j \<notin> node_key sha scope k ` {..<256} \<longrightarrow> ow_get st s' j = ow_get st s1 j" by blast
  have new: "node_key sha scope k 256 \<notin> node_key sha scope k ` {..<256}"
    using node_key_inj [OF _ assms(6,5,5)] by fastforce
  have "owner_update st sha s scope k v = (Ok root, s')"
    using c s1 s'(1) owner_path_stored [OF assms(1,2)]
    by (simp add: owner_update_def and_store_def pure_store_def expand_siblings_stored [OF assms(1)] sibs)
  moreover have "ow_get st s' (node_key sha scope k 256) = Ok (map_option encode_leaf v)" using s'(3) new by (simp add: gp)
  moreover have "ow_get st s' j = ow_get st s j" if "j \<notin> node_key sha scope k ` {..256}" for j
  proof -
    have "j \<notin> node_key sha scope k ` {..<256}" "j \<noteq> node_key sha scope k 256" using that by auto
    then show ?thesis using s'(3) by (simp add: gp)
  qed
  ultimately show ?thesis using s'(2) by (intro exI [of _ s']) simp
qed

text \<open>The forest the store holds becomes the forest with that leaf changed.\<close>

lemma owner_update_forest:
  assumes "forest_ok st sha s U F" "(scope, k) \<in> U" "inj_on sha (node_preimages U)"
    and "\<forall>(sc, k) \<in> U. tree_ok sha sc (F sc)" "tree_ok sha scope ((F scope)(k := v))"
    and "commit_at sha scope ((F scope)(k := v)) 256 0 = Ok root" "\<forall>l. v = Some l \<longrightarrow> leaf_wf l"
  shows "\<exists>s'. owner_update st sha s scope k v = (Ok root, s') \<and> forest_ok st sha s' U (F(scope := (F scope)(k := v)))
    \<and> (\<forall>j. j \<notin> sha ` node_preimages U \<longrightarrow> ow_get st s' j = ow_get st s j)"
proof -
  let ?M = "(F scope)(k := v)" and ?F = "F(scope := (F scope)(k := v))"
  have tr: "tree_ok sha sc (F sc)" if "(sc, j) \<in> U" for sc j using assms(4) that by auto
  have ps: "path_stored st sha s sc (F sc) j" if "(sc, j) \<in> U" for sc j using assms(1) that by (auto simp: forest_ok_def)
  have wf: "leaf_wf l" if "F scope k = Some l" for l using assms(1) that by (auto simp: forest_ok_def)
  obtain s' where u: "owner_update st sha s scope k v = (Ok root, s')"
    and br: "\<forall>d < 256. ow_get st s' (node_key sha scope k d) = Ok (branch_of sha scope ?M k d)"
    and lf: "ow_get st s' (node_key sha scope k 256) = Ok (map_option encode_leaf v)"
    and fr: "\<forall>j. j \<notin> node_key sha scope k ` {..256} \<longrightarrow> ow_get st s' j = ow_get st s j"
    using owner_update_nodes [OF ps [OF assms(2)] wf assms(5,6,2,3)] by blast
  have same: "ow_get st s' (node_key sha sc j d) = ow_get st s (node_key sha sc j d)"
    if "(sc, j) \<in> U" "d \<le> 256" "\<not> (sc = scope \<and> pref (256 - d) k = pref (256 - d) j)" for sc j d
    using fr node_key_inj [OF _ assms(3) that(1) assms(2) that(2)] that by fastforce
  have "path_stored st sha s' sc (?F sc) j" if j: "(sc, j) \<in> U" for sc j
  proof -
    have t: "tree_ok sha sc (?F sc)" using tr [OF j] assms(5) by simp
    have old: "\<forall>d < 256. ow_get st s (node_key sha sc j d) = Ok (branch_of sha sc (F sc) j d)"
      "ow_get st s (node_key sha sc j 256) = Ok (map_option encode_leaf (F sc j))"
      using path_stored_iff [OF tr [OF j], THEN iffD1, OF ps [OF j]] by simp_all
    have "ow_get st s' (node_key sha sc j d) = Ok (branch_of sha sc (?F sc) j d)" if d: "d < 256" for d
    proof (cases "sc = scope \<and> pref (256 - d) k = pref (256 - d) j")
      case True
      then have "node_key sha sc j d = node_key sha scope k d" "branch_of sha sc (?F sc) j d = branch_of sha scope ?M k d"
        using d node_key_cong [of d j k sha scope] branch_of_cong [OF d, of j k sha scope ?M] by simp_all
      then show ?thesis using br d by simp
    next
      case False
      then show ?thesis using same [OF j _ False] old(1) d branch_of_upd [OF d, of k j sha scope "F scope" v] by auto
    qed
    moreover have "ow_get st s' (node_key sha sc j 256) = Ok (map_option encode_leaf (?F sc j))"
      using lf same [OF j, of 256] old(2) by (cases "sc = scope \<and> k = j") auto
    ultimately show ?thesis by (intro path_stored_iff [OF t, THEN iffD2]) simp
  qed
  moreover have "(sc, j) \<in> U \<and> leaf_wf l" if "?F sc j = Some l" for sc j l
    using assms(1,2,7) that by (auto simp: forest_ok_def split: if_splits)
  moreover have "ow_get st s' j = ow_get st s j" if "j \<notin> sha ` node_preimages U" for j
  proof -
    have "node_key sha scope k d \<in> sha ` node_preimages U" if "d \<le> 256" for d
      using assms(2) that by (auto simp: node_key_def node_preimages_def intro!: imageI)
    then have "j \<notin> node_key sha scope k ` {..256}" using that by blast
    then show ?thesis using fr by blast
  qed
  ultimately show ?thesis using u by (auto simp: forest_ok_def)
qed

end

end
