(* ===== verification/Owner_State.thy ===== *)
theory Owner_State
  imports Owner_Update
begin

text \<open>What the owner tree is a tree of: for every owner, its holdings by object, and in scope zero the summary
  of each owner that holds something. Recording or removing one holding takes the forest of a set of holdings
  to the forest of the changed one.\<close>

section \<open>Which maps have a commitment\<close>

fun leaf_fits :: "bytes32 \<Rightarrow> owner_leaf \<Rightarrow> bool" where
  "leaf_fits scope (Summary root) \<longleftrightarrow> scope = 0 \<and> oc_count root \<noteq> 0"
| "leaf_fits scope (Holding k b) \<longleftrightarrow> scope \<noteq> 0 \<and> holding_valid k b"

lemma leaf_commit_total:
  assumes "\<And>l. m = Some l \<Longrightarrow> leaf_fits scope l"
  shows "\<exists>c. leaf_commit sha scope k m = Ok c"
proof (cases m)
  case (Some l)
  then show ?thesis using assms [OF Some] by (cases l) (auto simp: leaf_commit_def)
qed (simp add: leaf_commit_def)

lemma combine_total:
  assumes "unat (oc_count l) + unat (oc_count r) < 2 ^ 64" "unat (oc_balance l) + unat (oc_balance r) < 2 ^ 128"
  shows "\<exists>c. combine sha l r = Ok c"
  using assms by (simp add: combine_def checked_add_def checked_add_u128_def)

lemma commit_at_total:
  assumes "n \<le> 256" "pref n p = p" "\<And>k l. M k = Some l \<Longrightarrow> leaf_fits scope l"
    and "card (keys_at M n p) < 2 ^ 64" "(\<Sum>k \<in> keys_at M n p. leaf_balance (the (M k))) < 2 ^ 128"
  shows "\<exists>c. commit_at sha scope M n p = Ok c"
  using assms(1,2,4,5)
proof (induction n arbitrary: p)
  case 0
  then show ?case using leaf_commit_total [of "M p" scope sha p] assms(3) by auto
next
  case (Suc n)
  have n: "n < 256" "n \<le> 256" using Suc.prems by auto
  note ch = child_pref [OF n(1) Suc.prems(2)] and ks = keys_at_Suc [OF n(1) Suc.prems(2), of M]
  have sums: "card (keys_at M n p) + card (keys_at M n (set_bit n p)) < 2 ^ 64"
    "(\<Sum>k \<in> keys_at M n p. leaf_balance (the (M k))) + (\<Sum>k \<in> keys_at M n (set_bit n p). leaf_balance (the (M k))) < 2 ^ 128"
    using Suc.prems(3,4) ks by (simp_all add: card_Un_disjoint sum.union_disjoint)
  obtain l where l: "commit_at sha scope M n p = Ok l" using Suc.IH [OF n(2) ch(1)] sums by auto
  obtain r where r: "commit_at sha scope M n (set_bit n p) = Ok r" using Suc.IH [OF n(2) ch(2)] sums by auto
  have "\<exists>c. combine sha l r = Ok c"
    using combine_total [of l r] commit_at_counts [OF n(2) ch(1) l] commit_at_counts [OF n(2) ch(2) r] sums by auto
  then show ?case using l r by simp
qed

section \<open>Holdings and summaries\<close>

type_synonym holdings = "settlement_key \<Rightarrow> object_id \<Rightarrow> (byte \<times> u64) option"

definition hold_map :: "holdings \<Rightarrow> settlement_key \<Rightarrow> bytes32 \<Rightarrow> owner_leaf option" where
  "hold_map H o' = (\<lambda>i. map_option (\<lambda>(k, b). Holding k b) (H o' i))"

definition summary_of :: "sha256 \<Rightarrow> holdings \<Rightarrow> settlement_key \<Rightarrow> owner_leaf option" where
  "summary_of sha H o' =
    (case commit_at sha (holding_scope sha o') (hold_map H o') 256 0 of
       Ok c \<Rightarrow> if oc_count c = 0 then None else Some (Summary c)
     | Err _ \<Rightarrow> None)"

definition summaries :: "sha256 \<Rightarrow> settlement_key set \<Rightarrow> holdings \<Rightarrow> bytes32 \<Rightarrow> owner_leaf option" where
  "summaries sha Os H k =
    (if k \<in> owner_key sha ` Os then summary_of sha H (inv_into Os (owner_key sha) k) else None)"

definition owner_forest ::
  "sha256 \<Rightarrow> settlement_key set \<Rightarrow> holdings \<Rightarrow> bytes32 \<Rightarrow> bytes32 \<Rightarrow> owner_leaf option" where
  "owner_forest sha Os H scope =
    (if scope = 0 then summaries sha Os H
     else if scope \<in> holding_scope sha ` Os then hold_map H (inv_into Os (holding_scope sha) scope)
     else (\<lambda>_. None))"

definition owner_uses :: "sha256 \<Rightarrow> settlement_key set \<Rightarrow> object_id set \<Rightarrow> (bytes32 \<times> bytes32) set" where
  "owner_uses sha Os Is = {(holding_scope sha o', i) | o' i. o' \<in> Os \<and> i \<in> Is} \<union> {(0, owner_key sha o') | o'. o' \<in> Os}"

text \<open>The owners in use are told apart by their keys and scopes, and no scope is the summaries' one.\<close>

definition owners_apart :: "sha256 \<Rightarrow> settlement_key set \<Rightarrow> bool" where
  "owners_apart sha Os \<longleftrightarrow> inj_on (owner_key sha) Os \<and> inj_on (holding_scope sha) Os \<and> 0 \<notin> holding_scope sha ` Os"

text \<open>Holdings whose trees can be committed to: within the owners and objects in use, of known kinds, with a
  count and a balance that fit, and with no input hashed to the digest of the empty tree.\<close>

definition holdings_total :: "holdings \<Rightarrow> settlement_key set \<Rightarrow> nat" where
  "holdings_total H Os = (\<Sum>o' \<in> Os. \<Sum>i \<in> dom (H o'). unat (snd (the (H o' i))))"

definition holdings_ok :: "sha256 \<Rightarrow> settlement_key set \<Rightarrow> object_id set \<Rightarrow> holdings \<Rightarrow> bool" where
  "holdings_ok sha Os Is H \<longleftrightarrow>
    (\<forall>o' i k b. H o' i = Some (k, b) \<longrightarrow> o' \<in> Os \<and> i \<in> Is \<and> holding_valid k b)
    \<and> finite Os \<and> card Os < 2 ^ 64 \<and> card Is < 2 ^ 64 \<and> holdings_total H Os < 2 ^ 128
    \<and> (\<forall>o' \<in> Os. 0 \<notin> sha ` tree_preimages sha (holding_scope sha o') (hold_map H o'))
    \<and> 0 \<notin> sha ` tree_preimages sha 0 (summaries sha Os H)"

lemma dom_hold_map: "keys_at (hold_map H o') 256 0 = dom (H o')"
  by (auto simp: keys_at_def hold_map_def)

lemma hold_map_balance:
  "(\<Sum>i \<in> dom (H o'). leaf_balance (the (hold_map H o' i))) = (\<Sum>i \<in> dom (H o'). unat (snd (the (H o' i))))"
  by (rule sum.cong) (auto simp: hold_map_def)

lemma holdings_tree_ok:
  assumes "holdings_ok sha Os Is H" "owners_apart sha Os" "o' \<in> Os"
  shows "tree_ok sha (holding_scope sha o') (hold_map H o')"
    and "\<exists>c. commit_at sha (holding_scope sha o') (hold_map H o') 256 0 = Ok c
      \<and> unat (oc_count c) = card (dom (H o')) \<and> unat (oc_balance c) = (\<Sum>i \<in> dom (H o'). unat (snd (the (H o' i))))"
proof -
  have sc: "holding_scope sha o' \<noteq> 0" using assms(2,3) by (auto simp: owners_apart_def)
  have fit: "leaf_fits (holding_scope sha o') l" if "hold_map H o' i = Some l" for i l
    using that assms(1) sc by (auto simp: hold_map_def holdings_ok_def)
  have "card (dom (H o')) \<le> card Is"
    using assms(1) by (intro card_mono) (auto simp: holdings_ok_def)
  then have c: "card (keys_at (hold_map H o') 256 0) < 2 ^ 64" using assms(1) by (simp add: dom_hold_map holdings_ok_def)
  have "(\<Sum>i \<in> dom (H o'). unat (snd (the (H o' i)))) \<le> holdings_total H Os"
    unfolding holdings_total_def using assms(1,3) by (intro member_le_sum) (auto simp: holdings_ok_def)
  then have b: "(\<Sum>i \<in> keys_at (hold_map H o') 256 0. leaf_balance (the (hold_map H o' i))) < 2 ^ 128"
    using assms(1) by (simp add: dom_hold_map hold_map_balance holdings_ok_def)
  have "\<exists>r. commit_at sha (holding_scope sha o') (hold_map H o') 256 0 = Ok r"
    by (rule commit_at_total) (use fit c b in auto)
  then obtain r where r: "commit_at sha (holding_scope sha o') (hold_map H o') 256 0 = Ok r" by blast
  then show "tree_ok sha (holding_scope sha o') (hold_map H o')"
    using assms(1,3) by (auto simp: tree_ok_def holdings_ok_def)
  show "\<exists>c. commit_at sha (holding_scope sha o') (hold_map H o') 256 0 = Ok c
      \<and> unat (oc_count c) = card (dom (H o')) \<and> unat (oc_balance c) = (\<Sum>i \<in> dom (H o'). unat (snd (the (H o' i))))"
    using r commit_at_counts [OF order_refl _ r] by (simp add: dom_hold_map hold_map_balance)
qed

lemma summaries_at [simp]:
  "owners_apart sha Os \<Longrightarrow> o' \<in> Os \<Longrightarrow> summaries sha Os H (owner_key sha o') = summary_of sha H o'"
  by (simp add: summaries_def owners_apart_def)

lemma owner_forest_scope [simp]:
  "owners_apart sha Os \<Longrightarrow> o' \<in> Os \<Longrightarrow> owner_forest sha Os H (holding_scope sha o') = hold_map H o'"
  by (auto simp: owner_forest_def owners_apart_def)

lemma owner_forest_0 [simp]: "owner_forest sha Os H 0 = summaries sha Os H"
  by (simp add: owner_forest_def)

lemma summary_of_Some:
  assumes "holdings_ok sha Os Is H" "owners_apart sha Os" "o' \<in> Os" "summary_of sha H o' = Some l"
  obtains c where "l = Summary c" "commit_at sha (holding_scope sha o') (hold_map H o') 256 0 = Ok c" "oc_count c \<noteq> 0"
    "commit_valid c" "unat (oc_balance c) = (\<Sum>i \<in> dom (H o'). unat (snd (the (H o' i))))"
proof -
  obtain c where c: "commit_at sha (holding_scope sha o') (hold_map H o') 256 0 = Ok c"
    "unat (oc_balance c) = (\<Sum>i \<in> dom (H o'). unat (snd (the (H o' i))))"
    using holdings_tree_ok(2) [OF assms(1-3)] by auto
  moreover have "commit_valid c"
    using holdings_tree_ok(1) [OF assms(1-3)] by (intro commit_at_valid [OF c(1)]) (auto simp: tree_ok_def)
  ultimately show thesis using assms(4) by (intro that [of c]) (auto simp: summary_of_def split: if_splits)
qed

lemma summaries_tree_ok:
  assumes "holdings_ok sha Os Is H" "owners_apart sha Os"
  shows "tree_ok sha 0 (summaries sha Os H)"
proof -
  let ?S = "summaries sha Os H"
  have fit: "leaf_fits 0 l" if "?S k = Some l" for k l
  proof -
    from that obtain o' where "o' \<in> Os" "k = owner_key sha o'" by (auto simp: summaries_def split: if_splits)
    then show ?thesis using that assms(2) by (auto elim!: summary_of_Some [OF assms])
  qed
  have keys: "keys_at ?S 256 0 \<subseteq> owner_key sha ` Os" by (auto simp: keys_at_def summaries_def split: if_splits)
  have fin: "finite Os" using assms(1) by (simp add: holdings_ok_def)
  have "card (keys_at ?S 256 0) \<le> card Os"
    using card_mono [OF _ keys] card_image_le [OF fin, of "owner_key sha"] fin by simp
  then have c: "card (keys_at ?S 256 0) < 2 ^ 64" using assms(1) by (simp add: holdings_ok_def)
  let ?b = "\<lambda>k. if ?S k = None then 0 else leaf_balance (the (?S k))"
  have "(\<Sum>k \<in> keys_at ?S 256 0. leaf_balance (the (?S k))) = (\<Sum>k \<in> keys_at ?S 256 0. ?b k)"
    by (rule sum.cong) (auto simp: keys_at_def)
  also have "\<dots> \<le> (\<Sum>k \<in> owner_key sha ` Os. ?b k)" using keys fin by (intro sum_mono2) auto
  also have "\<dots> = (\<Sum>o' \<in> Os. ?b (owner_key sha o'))"
    using assms(2) by (intro sum.reindex [THEN trans]) (auto simp: owners_apart_def)
  also have "\<dots> \<le> holdings_total H Os"
    unfolding holdings_total_def using assms(2) by (intro sum_mono) (auto elim!: summary_of_Some [OF assms])
  finally have "(\<Sum>k \<in> keys_at ?S 256 0. leaf_balance (the (?S k))) < 2 ^ 128"
    using assms(1) by (simp add: holdings_ok_def)
  from commit_at_total [OF order_refl _ fit c this, where sha = sha] assms(1) show ?thesis
    by (simp add: tree_ok_def holdings_ok_def)
qed

section \<open>One holding\<close>

text \<open>Recording a holding changes its owner's map and that owner's summary, and nothing else.\<close>

definition set_holding :: "holdings \<Rightarrow> settlement_key \<Rightarrow> object_id \<Rightarrow> (byte \<times> u64) option \<Rightarrow> holdings" where
  "set_holding H o' i v = H(o' := (H o')(i := v))"

lemma hold_map_set:
  "hold_map (set_holding H o' i v) o' = (hold_map H o')(i := map_option (\<lambda>(k, b). Holding k b) v)"
  "o'' \<noteq> o' \<Longrightarrow> hold_map (set_holding H o' i v) o'' = hold_map H o''"
  by (auto simp: hold_map_def set_holding_def)

lemma owner_forest_set:
  assumes "owners_apart sha Os" "o' \<in> Os"
  shows "owner_forest sha Os (set_holding H o' i v)
    = (owner_forest sha Os H)
        (holding_scope sha o' := (hold_map H o')(i := map_option (\<lambda>(k, b). Holding k b) v),
         0 := (summaries sha Os H)(owner_key sha o' := summary_of sha (set_holding H o' i v) o'))"
proof
  fix scope
  let ?H = "set_holding H o' i v"
  have z: "holding_scope sha o' \<noteq> 0" using assms by (auto simp: owners_apart_def)
  have "summaries sha Os ?H k = ((summaries sha Os H)(owner_key sha o' := summary_of sha ?H o')) k" for k
  proof (cases "k \<in> owner_key sha ` Os")
    case True
    then obtain p where p: "p \<in> Os" "k = owner_key sha p" by auto
    have "p = o' \<longleftrightarrow> k = owner_key sha o'" using assms p by (auto simp: owners_apart_def inj_on_def)
    moreover have "summary_of sha ?H p = summary_of sha H p" if "p \<noteq> o'" using that by (simp add: summary_of_def hold_map_set)
    ultimately show ?thesis using p assms by auto
  next
    case False
    then show ?thesis using assms(2) by (auto simp: summaries_def)
  qed
  moreover have "owner_forest sha Os ?H scope = owner_forest sha Os H scope"
    if "scope \<noteq> 0" "scope \<noteq> holding_scope sha o'"
  proof (cases "scope \<in> holding_scope sha ` Os")
    case True
    then obtain p where p: "p \<in> Os" "scope = holding_scope sha p" by blast
    then have "p \<noteq> o'" using that by auto
    then show ?thesis using p assms(1) by (simp add: hold_map_set)
  qed (simp add: owner_forest_def that)
  ultimately show "owner_forest sha Os ?H scope = ((owner_forest sha Os H)
      (holding_scope sha o' := (hold_map H o')(i := map_option (\<lambda>(k, b). Holding k b) v),
       0 := (summaries sha Os H)(owner_key sha o' := summary_of sha ?H o'))) scope"
    using z assms by (auto simp: hold_map_set)
qed

definition owners_stored ::
  "'s owner_store \<Rightarrow> sha256 \<Rightarrow> settlement_key set \<Rightarrow> object_id set \<Rightarrow> 's \<Rightarrow> holdings \<Rightarrow> bool" where
  "owners_stored st sha Os Is s H \<longleftrightarrow>
    holdings_ok sha Os Is H \<and> forest_ok st sha s (owner_uses sha Os Is) (owner_forest sha Os H)"

definition hash_apart :: "sha256 \<Rightarrow> settlement_key set \<Rightarrow> object_id set \<Rightarrow> bool" where
  "hash_apart sha Os Is \<longleftrightarrow> owners_apart sha Os \<and> inj_on sha (node_preimages (owner_uses sha Os Is))"

lemma owner_uses_tree_ok:
  assumes "holdings_ok sha Os Is H" "owners_apart sha Os" "(sc, k) \<in> owner_uses sha Os Is"
  shows "tree_ok sha sc (owner_forest sha Os H sc)"
  using assms holdings_tree_ok(1) [OF assms(1,2)] summaries_tree_ok [OF assms(1,2)]
  by (auto simp: owner_uses_def)

context owner_store_laws
begin

lemma update_holding_stored:
  assumes "owners_stored st sha Os Is s H" "hash_apart sha Os Is" "o' \<in> Os" "i \<in> Is"
    and "holdings_ok sha Os Is (set_holding H o' i v)"
  shows "\<exists>s'. update_holding st sha s o' i v = (Ok (), s') \<and> owners_stored st sha Os Is s' (set_holding H o' i v)
    \<and> (\<forall>j. j \<notin> sha ` node_preimages (owner_uses sha Os Is) \<longrightarrow> ow_get st s' j = ow_get st s j)"
proof -
  let ?U = "owner_uses sha Os Is" and ?H = "set_holding H o' i v" and ?F = "owner_forest sha Os H"
  let ?sc = "holding_scope sha o'" and ?v = "map_option (\<lambda>(k, b). Holding k b) v"
  have ok: "holdings_ok sha Os Is H" "forest_ok st sha s ?U ?F" using assms(1) by (auto simp: owners_stored_def)
  have ap: "owners_apart sha Os" and inj: "inj_on sha (node_preimages ?U)" using assms(2) by (auto simp: hash_apart_def)
  have use: "(?sc, i) \<in> ?U" "(0, owner_key sha o') \<in> ?U" using assms(3,4) by (auto simp: owner_uses_def)
  have z: "?sc \<noteq> 0" using ap assms(3) by (auto simp: owners_apart_def)
  have old: "\<forall>(sc, k) \<in> ?U. tree_ok sha sc (?F sc)" using owner_uses_tree_ok [OF ok(1) ap] by blast
  obtain c where c: "commit_at sha ?sc (hold_map ?H o') 256 0 = Ok c"
    using holdings_tree_ok(2) [OF assms(5) ap assms(3)] by auto
  have t1: "tree_ok sha ?sc ((?F ?sc)(i := ?v))"
    using holdings_tree_ok(1) [OF assms(5) ap assms(3)] ap assms(3) by (simp add: hold_map_set)
  have wf1: "\<forall>l. ?v = Some l \<longrightarrow> leaf_wf l" by auto
  have c': "commit_at sha ?sc ((?F ?sc)(i := ?v)) 256 0 = Ok c" using c ap assms(3) by (simp add: hold_map_set)
  obtain s1 where s1: "owner_update st sha s ?sc i ?v = (Ok c, s1)"
    "forest_ok st sha s1 ?U (?F(?sc := (?F ?sc)(i := ?v)))"
    "\<forall>j. j \<notin> sha ` node_preimages ?U \<longrightarrow> ow_get st s1 j = ow_get st s j"
    using owner_update_forest [OF ok(2) use(1) inj old t1 c' wf1] by blast
  let ?F1 = "?F(?sc := (?F ?sc)(i := ?v))" and ?w = "if oc_count c = 0 then None else Some (Summary c)"
  have w: "?w = summary_of sha ?H o'" using c by (simp add: summary_of_def)
  have t2: "\<forall>(sc, k) \<in> ?U. tree_ok sha sc (?F1 sc)" using old t1 by auto
  have top: "(?F1 0)(owner_key sha o' := ?w) = summaries sha Os ?H"
    using z w owner_forest_set [OF ap assms(3), of H i v, THEN fun_cong, of 0] by simp
  obtain r where r: "commit_at sha 0 (summaries sha Os ?H) 256 0 = Ok r"
    using summaries_tree_ok [OF assms(5) ap] by (auto simp: tree_ok_def)
  have wf: "\<forall>l. ?w = Some l \<longrightarrow> leaf_wf l"
    unfolding w by (auto elim: summary_of_Some [OF assms(5) ap assms(3)])
  have r': "commit_at sha 0 ((?F1 0)(owner_key sha o' := ?w)) 256 0 = Ok r"
    "tree_ok sha 0 ((?F1 0)(owner_key sha o' := ?w))" unfolding top using r summaries_tree_ok [OF assms(5) ap] by auto
  obtain s2 where s2: "owner_update st sha s1 0 (owner_key sha o') ?w = (Ok r, s2)"
    "forest_ok st sha s2 ?U (?F1(0 := (?F1 0)(owner_key sha o' := ?w)))"
    "\<forall>j. j \<notin> sha ` node_preimages ?U \<longrightarrow> ow_get st s2 j = ow_get st s1 j"
    using owner_update_forest [OF s1(2) use(2) inj t2 r'(2,1) wf] by blast
  have "?F1(0 := (?F1 0)(owner_key sha o' := ?w)) = owner_forest sha Os ?H"
    using z w ap assms(3) by (simp add: owner_forest_set)
  then show ?thesis using s1 s2 assms(5)
    by (auto simp: update_holding_def and_store_def owners_stored_def)
qed

end

end
