(* ===== verification/Owner_Pages.thy ===== *)
theory Owner_Pages
  imports Owner_State
begin

text \<open>Pages of an owner's holdings (src/crates/chain/src/owner_proof.rs): walking the tree for the holdings at
  a range of ranks, and verifying a page against a finalized owner root. The textual form of a settlement key is
  the parameter \<open>b58\<close>.\<close>

section \<open>Pages\<close>

record holding_proof =
  hp_object_id :: bytes32
  hp_path :: owner_path_proof

record owner_page_proof =
  op_owner :: string
  op_summary :: owner_path_proof
  op_offset :: u64
  op_limit :: u32
  op_holdings :: "holding_proof list"
  op_after_key :: "bytes32 option"
  op_after_path :: "owner_path_proof option"

fun summary_commit :: "owner_leaf option \<Rightarrow> (owner_commitment, owner_proof_error) result" where
  "summary_commit None = Ok oc_default"
| "summary_commit (Some (Summary root)) = Ok root"
| "summary_commit (Some (Holding _ _)) = Err OwnerInvalid"

text \<open>The walk keeps its pending nodes on a stack, left halves first. A node is dropped when it is empty or has
  no rank in the page. No node is pushed below depth 256, the depth of the leaves.\<close>

type_synonym page_frame = "bytes32 \<times> nat \<times> u64 \<times> owner_commitment"

definition skip_frame :: "u64 \<Rightarrow> u64 \<Rightarrow> u64 \<Rightarrow> owner_commitment \<Rightarrow> bool" where
  "skip_frame offset stop rank commit \<longleftrightarrow>
    oc_count commit = 0 \<or> stop \<le> rank \<or> saturating_add rank (oc_count commit) \<le> offset"

function (sequential) page_loop ::
  "'s owner_store \<Rightarrow> sha256 \<Rightarrow> 's \<Rightarrow> bytes32 \<Rightarrow> u64 \<Rightarrow> u64 \<Rightarrow> page_frame list
    \<Rightarrow> (holding_proof list, owner_proof_error) result" where
  "page_loop st sha s scope offset stop [] = Ok []"
| "page_loop st sha s scope offset stop ((key, depth, rank, commit) # stack) =
    (if skip_frame offset stop rank commit then page_loop st sha s scope offset stop stack
     else if 256 \<le> depth
     then and_then (owner_path st sha s scope key) (\<lambda>p.
       and_then (page_loop st sha s scope offset stop stack) (\<lambda>hs. Ok (\<lparr>hp_object_id = key, hp_path = p\<rparr> # hs)))
     else and_then (ow_get st s (node_key sha scope key depth)) (\<lambda>raw.
       and_then (decode_branch raw) (\<lambda>(left, right).
       and_then (combine sha left right) (\<lambda>c.
       if c \<noteq> commit then Err OwnerInvalid
       else and_then (ok_or OwnerInvalid (checked_add rank (oc_count left))) (\<lambda>rank'.
         page_loop st sha s scope offset stop
           ((key, depth + 1, rank, left) # (set_bit (255 - depth) key, depth + 1, rank', right) # stack))))))"
  by pat_completeness auto

definition frame_cost :: "page_frame \<Rightarrow> nat" where
  "frame_cost f = (case f of (_, depth, _, _) \<Rightarrow> 2 * 2 ^ (257 - depth) - 1)"

lemma frame_cost_pos: "0 < frame_cost f"
proof -
  have "(1 :: nat) < 2 * 2 ^ n" for n by (induction n) simp_all
  then show ?thesis by (auto simp: frame_cost_def split: prod.splits)
qed

lemma frame_cost_halves:
  assumes "\<not> 256 \<le> depth"
  shows "frame_cost (k1, depth + 1, r1, c1) + frame_cost (k2, depth + 1, r2, c2) < frame_cost (k, depth, r, c)"
proof -
  define m where "m = 256 - depth"
  then have "257 - depth = Suc m" "257 - (depth + 1) = m" using assms by auto
  moreover have "(1 :: nat) \<le> 2 ^ m" by simp
  then have "4 * 2 ^ m - 2 < 4 * 2 ^ m - (1 :: nat)" by linarith
  ultimately show ?thesis by (simp add: frame_cost_def)
qed

termination page_loop
  by (relation "measure (\<lambda>(st, sha, s, scope, offset, stop, stack). sum_list (map frame_cost stack))")
    (use frame_cost_pos frame_cost_halves in \<open>auto simp: add.assoc [symmetric]\<close>)

definition prove_owner_page ::
  "'s owner_store \<Rightarrow> sha256 \<Rightarrow> (settlement_key \<Rightarrow> string) \<Rightarrow> 's \<Rightarrow> settlement_key \<Rightarrow> u64 \<Rightarrow> u32
    \<Rightarrow> (owner_page_proof, owner_proof_error) result" where
  "prove_owner_page st sha b58 s owner offset limit =
    (if limit = 0 \<or> OWNER_PAGE_LIMIT < limit then Err OwnerPage
     else and_then (owner_path st sha s 0 (owner_key sha owner)) (\<lambda>summary.
       and_then (summary_commit (pp_leaf summary)) (\<lambda>holdings_root.
       if oc_count holdings_root < offset then Err OwnerPage
       else let stop = min (saturating_add offset (ucast limit)) (oc_count holdings_root) in
         and_then (page_loop st sha s (holding_scope sha owner) offset stop [(0, 0, 0, holdings_root)]) (\<lambda>holdings.
         Ok \<lparr>op_owner = b58 owner, op_summary = summary, op_offset = offset, op_limit = limit,
           op_holdings = holdings, op_after_key = None, op_after_path = None\<rparr>))))"

definition prove_owner_page_after ::
  "'s owner_store \<Rightarrow> sha256 \<Rightarrow> (settlement_key \<Rightarrow> string) \<Rightarrow> 's \<Rightarrow> settlement_key \<Rightarrow> bytes32 option \<Rightarrow> u32
    \<Rightarrow> (owner_page_proof, owner_proof_error) result" where
  "prove_owner_page_after st sha b58 s owner after limit =
    (case after of
       None \<Rightarrow> prove_owner_page st sha b58 s owner 0 limit
     | Some key \<Rightarrow>
         and_then (owner_path st sha s (holding_scope sha owner) key) (\<lambda>cursor.
         and_then (verify_path sha (holding_scope sha owner) key cursor) (\<lambda>(_, rank).
         and_then (ok_or OwnerInvalid (checked_add rank (of_bool (pp_leaf cursor \<noteq> None)))) (\<lambda>offset.
         and_then (prove_owner_page st sha b58 s owner offset limit) (\<lambda>page.
         Ok (page\<lparr>op_after_key := Some key, op_after_path := Some cursor\<rparr>))))))"

fun is_holding :: "owner_leaf option \<Rightarrow> bool" where
  "is_holding (Some (Holding _ _)) = True"
| "is_holding _ = False"

fun verify_holdings ::
  "sha256 \<Rightarrow> settlement_key \<Rightarrow> owner_commitment \<Rightarrow> u64 \<Rightarrow> nat \<Rightarrow> holding_proof list \<Rightarrow> (unit, owner_proof_error) result" where
  "verify_holdings sha owner summary offset position [] = Ok ()"
| "verify_holdings sha owner summary offset position (h # hs) =
    (if \<not> is_holding (pp_leaf (hp_path h)) then Err OwnerInvalid
     else and_then (verify_path sha (holding_scope sha owner) (hp_object_id h) (hp_path h)) (\<lambda>(actual, rank).
       if actual \<noteq> summary \<or> rank \<noteq> offset + of_nat position then Err OwnerBinding
       else verify_holdings sha owner summary offset (position + 1) hs))"

definition verify_owner_page_at ::
  "sha256 \<Rightarrow> (settlement_key \<Rightarrow> string) \<Rightarrow> bytes32 \<Rightarrow> settlement_key \<Rightarrow> u64 \<Rightarrow> u32 \<Rightarrow> owner_page_proof
    \<Rightarrow> (owner_commitment, owner_proof_error) result" where
  "verify_owner_page_at sha b58 root owner offset limit p =
    (if op_owner p \<noteq> b58 owner \<or> op_offset p \<noteq> offset \<or> op_limit p \<noteq> limit then Err OwnerBinding
     else if limit = 0 \<or> OWNER_PAGE_LIMIT < limit then Err OwnerPage
     else and_then (verify_path sha 0 (owner_key sha owner) (op_summary p)) (\<lambda>(c, _).
       if oc_hash c \<noteq> root then Err OwnerBinding
       else and_then (summary_commit (pp_leaf (op_summary p))) (\<lambda>summary.
         if oc_count summary < offset
           \<or> of_nat (length (op_holdings p)) \<noteq> min (ucast limit) (oc_count summary - offset)
         then Err OwnerPage
         else and_then (verify_holdings sha owner summary offset 0 (op_holdings p)) (\<lambda>_. Ok summary))))"

definition verify_owner_page ::
  "sha256 \<Rightarrow> (settlement_key \<Rightarrow> string) \<Rightarrow> bytes32 \<Rightarrow> settlement_key \<Rightarrow> u64 \<Rightarrow> u32 \<Rightarrow> owner_page_proof
    \<Rightarrow> (owner_commitment, owner_proof_error) result" where
  "verify_owner_page sha b58 root owner offset limit p =
    (if op_after_key p \<noteq> None \<or> op_after_path p \<noteq> None then Err OwnerBinding
     else verify_owner_page_at sha b58 root owner offset limit p)"

definition verify_owner_page_after ::
  "sha256 \<Rightarrow> (settlement_key \<Rightarrow> string) \<Rightarrow> bytes32 \<Rightarrow> settlement_key \<Rightarrow> bytes32 option \<Rightarrow> u32 \<Rightarrow> owner_page_proof
    \<Rightarrow> (owner_commitment, owner_proof_error) result" where
  "verify_owner_page_after sha b58 root owner after limit p =
    and_then (case (after, op_after_key p, op_after_path p) of
        (None, None, None) \<Rightarrow> Ok 0
      | (Some requested, Some proved, Some path) \<Rightarrow>
          if requested = proved then
            and_then (verify_path sha (holding_scope sha owner) requested path) (\<lambda>(commitment, rank).
            and_then (summary_commit (pp_leaf (op_summary p))) (\<lambda>summary.
            if commitment \<noteq> summary then Err OwnerBinding
            else ok_or OwnerInvalid (checked_add rank (of_bool (pp_leaf path \<noteq> None)))))
          else Err OwnerBinding
      | _ \<Rightarrow> Err OwnerBinding) (\<lambda>offset.
    verify_owner_page_at sha b58 root owner offset limit p)"

section \<open>An accepted page is the owner's page\<close>

definition owner_digest :: "sha256 \<Rightarrow> settlement_key set \<Rightarrow> holdings \<Rightarrow> bytes32" where
  "owner_digest sha Os H = (case commit_at sha 0 (summaries sha Os H) 256 0 of Ok c \<Rightarrow> oc_hash c | Err _ \<Rightarrow> 0)"

definition owner_preimages :: "sha256 \<Rightarrow> settlement_key set \<Rightarrow> holdings \<Rightarrow> bytes set" where
  "owner_preimages sha Os H =
    tree_preimages sha 0 (summaries sha Os H) \<union> (\<Union>o' \<in> Os. tree_preimages sha (holding_scope sha o') (hold_map H o'))"

definition page_preimages :: "sha256 \<Rightarrow> settlement_key \<Rightarrow> owner_page_proof \<Rightarrow> bytes list" where
  "page_preimages sha owner p =
    path_preimages sha 0 (owner_key sha owner) (op_summary p)
    @ concat (map (\<lambda>h. path_preimages sha (holding_scope sha owner) (hp_object_id h) (hp_path h)) (op_holdings p))
    @ (case (op_after_key p, op_after_path p) of
         (Some k, Some path) \<Rightarrow> path_preimages sha (holding_scope sha owner) k path
       | _ \<Rightarrow> [])"

lemma verify_loop_root:
  assumes "verify_loop sha key siblings ds current rank = Ok (root, rank')" "ds \<noteq> []"
  shows "\<exists>l r. combine sha l r = Ok root \<and> branch_preimage l r \<in> set (loop_preimages sha key siblings ds current)"
  using assms
proof (induction ds arbitrary: current rank)
  case (Cons d ds)
  obtain c rk where c: "combine sha (if key_bit key d then siblings ! d else current)
      (if key_bit key d then current else siblings ! d) = Ok c" "verify_loop sha key siblings ds c rk = Ok (root, rank')"
    using verify_step [OF Cons.prems(1)] by metis
  show ?case
  proof (cases "ds = []")
    case True
    then show ?thesis using c
      by (intro exI [of _ "if key_bit key d then siblings ! d else current"] exI [of _ "if key_bit key d then current else siblings ! d"])
        (auto simp: Let_def)
  next
    case False
    have "set (loop_preimages sha key siblings ds c) \<subseteq> set (loop_preimages sha key siblings (d # ds) current)"
      using c(1) by (auto simp: Let_def split: if_splits)
    then show ?thesis using Cons.IH [OF c(2) False] by blast
  qed
qed simp

lemma verify_path_root:
  assumes "verify_path sha scope key p = Ok (c, rank)"
  shows "\<exists>l r. combine sha l r = Ok c \<and> branch_preimage l r \<in> set (path_preimages sha scope key p)"
proof -
  from assms obtain siblings current where x: "expand_siblings p = Ok siblings"
    "leaf_commit sha scope key (pp_leaf p) = Ok current"
    "verify_loop sha key siblings (rev [0..<256]) current 0 = Ok (c, rank)"
    by (auto simp: verify_path_def and_then_eq_Ok)
  have "rev [0..<256] \<noteq> []" by simp
  from verify_loop_root [OF x(3) this] x(1,2) show ?thesis by (auto simp: path_preimages_def)
qed

text \<open>Against a root digest alone: the digest fixes the count and the balance with it.\<close>

lemma combine_digest_binds:
  assumes "combine sha l r = Ok c" "combine sha l' r' = Ok c'" "oc_hash c = oc_hash c'"
    and "inj_on sha B" "0 \<notin> sha ` B" "branch_preimage l r \<in> B" "branch_preimage l' r' \<in> B"
  shows "c = c'"
proof -
  have z: "oc_hash x = 0 \<longleftrightarrow> oc_count x = 0" if "combine sha a b = Ok x" "branch_preimage a b \<in> B" for x a b
  proof -
    have "sha (branch_preimage a b) \<noteq> 0" using assms(5) that(2) by (metis image_eqI)
    then show ?thesis using combine_Ok(2,4) [OF that(1)] by (cases "oc_count x = 0") (auto simp: oc_default_def)
  qed
  show ?thesis
  proof (cases "oc_count c = 0")
    case True
    then have "oc_count c' = 0" using z [OF assms(1,6)] z [OF assms(2,7)] assms(3) by simp
    then show ?thesis using True combine_Ok(4) [OF assms(1)] combine_Ok(4) [OF assms(2)] by simp
  next
    case False
    then have "oc_count c' \<noteq> 0" using z [OF assms(1,6)] z [OF assms(2,7)] assms(3) by simp
    then have "sha (branch_preimage l r) = sha (branch_preimage l' r')"
      using False combine_Ok(2) [OF assms(1)] combine_Ok(2) [OF assms(2)] assms(3) by simp
    then have "l = l' \<and> r = r'" using inj_on_eq_iff [OF assms(4,6,7)] by (simp add: branch_preimage_inj)
    then show ?thesis using assms(1,2) by simp
  qed
qed

lemma verify_path_digest:
  assumes "verify_path sha scope key p = Ok (c, rank)" "commit_at sha scope M 256 0 = Ok c'" "oc_hash c = oc_hash c'"
    and "inj_on sha B" "0 \<notin> sha ` B" "tree_preimages sha scope M \<subseteq> B" "set (path_preimages sha scope key p) \<subseteq> B"
  shows "c = c'"
proof -
  obtain l r where lr: "combine sha l r = Ok c" "branch_preimage l r \<in> B"
    using verify_path_root [OF assms(1)] assms(7) by blast
  define n :: nat where "n = 255"
  have n: "256 = Suc n" "n < 256" by (simp_all add: n_def)
  have "commit_at sha scope M (Suc n) 0 = Ok c'" using assms(2) by (simp only: n(1))
  then obtain l' r' where lr': "commit_at sha scope M n 0 = Ok l'" "commit_at sha scope M n (set_bit n 0) = Ok r'"
    "combine sha l' r' = Ok c'" by (auto simp: and_then_eq_Ok)
  have "branch_preimage l' r' \<in> tree_preimages sha scope M"
    unfolding tree_preimages_def using lr'(1,2) n(2)
    by (intro UnI2 CollectI exI [of _ l'] exI [of _ r'] conjI refl exI [of _ n] exI [of _ "0 :: bytes32"])
      (simp_all add: pref_def)
  then show ?thesis using combine_digest_binds [OF lr(1) lr'(3) assms(3-5) lr(2)] assms(6) by blast
qed

lemma rank_nth:
  fixes K :: "bytes32 set"
  assumes "k \<in> K"
  shows "sorted_list_of_set K ! card {x \<in> K. x < k} = k" "card {x \<in> K. x < k} < card K"
proof -
  let ?xs = "sorted_list_of_set K"
  have fin: "finite K" by (rule finite)
  obtain i where i: "i < length ?xs" "?xs ! i = k" using assms fin by (metis in_set_conv_nth set_sorted_list_of_set)
  have sd: "sorted_wrt (<) ?xs" by (simp add: strict_sorted_list_of_set)
  have "{x \<in> K. x < k} = (\<lambda>j. ?xs ! j) ` {..<i}"
  proof (intro equalityI subsetI)
    fix x assume "x \<in> {x \<in> K. x < k}"
    then obtain j where "j < length ?xs" "?xs ! j = x" "x < k" using fin by (metis (mono_tags) in_set_conv_nth mem_Collect_eq set_sorted_list_of_set)
    moreover have "j < i"
    proof (rule ccontr)
      assume "\<not> j < i"
      then have "?xs ! i \<le> ?xs ! j" using \<open>j < length ?xs\<close> by (intro sorted_nth_mono) auto
      then show False using i(2) \<open>?xs ! j = x\<close> \<open>x < k\<close> by simp
    qed
    ultimately show "x \<in> (\<lambda>j. ?xs ! j) ` {..<i}" by auto
  next
    fix x assume "x \<in> (\<lambda>j. ?xs ! j) ` {..<i}"
    then obtain j where j: "j < i" "x = ?xs ! j" by auto
    then have "x < k" using sorted_wrt_nth_less [OF sd j(1) i(1)] i(2) by simp
    moreover have "x \<in> set ?xs" unfolding j(2) using j(1) i(1) by (intro nth_mem) simp
    ultimately show "x \<in> {x \<in> K. x < k}" using fin by simp
  qed
  moreover have "inj_on (\<lambda>j. ?xs ! j) {..<i}" using i(1) by (intro inj_on_nth) auto
  ultimately have "card {x \<in> K. x < k} = i" by (simp add: card_image)
  then show "?xs ! card {x \<in> K. x < k} = k" "card {x \<in> K. x < k} < card K" using i fin by simp_all
qed

lemma verify_holdings_nth:
  assumes "verify_holdings sha owner summary offset position hs = Ok ()" "j < length hs"
  shows "is_holding (pp_leaf (hp_path (hs ! j)))"
    "verify_path sha (holding_scope sha owner) (hp_object_id (hs ! j)) (hp_path (hs ! j))
      = Ok (summary, offset + of_nat (position + j))"
proof -
  have "is_holding (pp_leaf (hp_path (hs ! j))) \<and>
    verify_path sha (holding_scope sha owner) (hp_object_id (hs ! j)) (hp_path (hs ! j))
      = Ok (summary, offset + of_nat (position + j))"
    using assms
  proof (induction hs arbitrary: position j)
    case (Cons h hs)
    then show ?case
      by (cases j) (auto simp: and_then_eq_Ok add.assoc [symmetric] split: if_splits dest!: Cons.IH [of "position + 1"])
  qed simp
  then show "is_holding (pp_leaf (hp_path (hs ! j)))"
    "verify_path sha (holding_scope sha owner) (hp_object_id (hs ! j)) (hp_path (hs ! j))
      = Ok (summary, offset + of_nat (position + j))" by auto
qed

text \<open>What a client may conclude from an accepted page at a digest of the holdings.\<close>

definition page_of :: "holdings \<Rightarrow> settlement_key \<Rightarrow> nat \<Rightarrow> nat \<Rightarrow> (object_id \<times> owner_leaf option) list" where
  "page_of H owner offset limit =
    map (\<lambda>k. (k, hold_map H owner k)) (take limit (drop offset (sorted_list_of_set (dom (H owner)))))"

definition page_entries :: "owner_page_proof \<Rightarrow> (object_id \<times> owner_leaf option) list" where
  "page_entries p = map (\<lambda>h. (hp_object_id h, pp_leaf (hp_path h))) (op_holdings p)"

lemma summary_binds:
  assumes "holdings_ok sha Os Is H" "owners_apart sha Os" "owner \<in> Os"
    and "summary_commit (summary_of sha H owner) = Ok summary"
  shows "commit_at sha (holding_scope sha owner) (hold_map H owner) 256 0 = Ok summary"
    "unat (oc_count summary) = card (dom (H owner))"
    "unat (oc_balance summary) = (\<Sum>i \<in> dom (H owner). unat (snd (the (H owner i))))"
proof -
  obtain c where c: "commit_at sha (holding_scope sha owner) (hold_map H owner) 256 0 = Ok c"
      "unat (oc_count c) = card (dom (H owner))"
      "unat (oc_balance c) = (\<Sum>i \<in> dom (H owner). unat (snd (the (H owner i))))"
    using holdings_tree_ok(2) [OF assms(1-3)] by auto
  have "summary = c" using assms(4) c(1) settled_at [OF c(1)] by (auto simp: summary_of_def settled_def split: if_splits)
  then show "commit_at sha (holding_scope sha owner) (hold_map H owner) 256 0 = Ok summary"
    "unat (oc_count summary) = card (dom (H owner))"
    "unat (oc_balance summary) = (\<Sum>i \<in> dom (H owner). unat (snd (the (H owner i))))" using c by simp_all
qed

lemma page_at_sound:
  assumes "verify_owner_page_at sha b58 (owner_digest sha Os H) owner offset limit p = Ok summary"
    and "holdings_ok sha Os Is H" "owners_apart sha Os" "owner \<in> Os" "length (op_holdings p) < 2 ^ 64"
    and "inj_on sha B" "0 \<notin> sha ` B" "owner_preimages sha Os H \<subseteq> B" "set (page_preimages sha owner p) \<subseteq> B"
  shows "pp_leaf (op_summary p) = summary_of sha H owner" "summary_commit (summary_of sha H owner) = Ok summary"
    "page_entries p = page_of H owner (unat offset) (unat limit)"
proof -
  from assms(1) obtain c rank where v: "verify_path sha 0 (owner_key sha owner) (op_summary p) = Ok (c, rank)"
    and h: "oc_hash c = owner_digest sha Os H" and sm: "summary_commit (pp_leaf (op_summary p)) = Ok summary"
    and off: "offset \<le> oc_count summary" and len: "of_nat (length (op_holdings p)) = min (ucast limit) (oc_count summary - offset)"
    and vh: "verify_holdings sha owner summary offset 0 (op_holdings p) = Ok ()"
    by (auto simp: verify_owner_page_at_def and_then_eq_Ok not_less split: if_splits)
  obtain r where r: "commit_at sha 0 (summaries sha Os H) 256 0 = Ok r"
    using summaries_tree_ok [OF assms(2,3)] by (auto simp: tree_ok_def)
  have B: "tree_preimages sha 0 (summaries sha Os H) \<subseteq> B"
    "tree_preimages sha (holding_scope sha owner) (hold_map H owner) \<subseteq> B"
    "set (path_preimages sha 0 (owner_key sha owner) (op_summary p)) \<subseteq> B"
    using assms(4,8,9) by (auto simp: owner_preimages_def page_preimages_def)
  have "c = r" using verify_path_digest [OF v r _ assms(6,7) B(1,3)] h r by (simp add: owner_digest_def)
  then show leaf: "pp_leaf (op_summary p) = summary_of sha H owner"
    using verify_path_sound(1) [OF v _ assms(6) B(1,3)] r assms(3,4) by simp
  then show s: "summary_commit (summary_of sha H owner) = Ok summary" using sm by simp
  note b = summary_binds [OF assms(2-4) s]
  let ?K = "sorted_list_of_set (dom (H owner))"
  have "length (op_holdings p) = unat (of_nat (length (op_holdings p)) :: u64)" using assms(5) by (simp add: unat_of_nat)
  also have "\<dots> = min (unat (ucast limit :: u64)) (unat (oc_count summary - offset))" unfolding len by (simp add: min_def word_le_nat_alt)
  also have "\<dots> = min (unat limit) (card (dom (H owner)) - unat offset)"
    using off b(2) by (simp add: unat_sub unsigned_ucast_eq take_bit_nat_eq_self unsigned_less [THEN less_le_trans])
  finally have n: "length (op_holdings p) = length (take (unat limit) (drop (unat offset) ?K))" by simp
  have "(hp_object_id (op_holdings p ! j), pp_leaf (hp_path (op_holdings p ! j)))
      = (?K ! (unat offset + j), hold_map H owner (?K ! (unat offset + j)))" if j: "j < length (op_holdings p)" for j
  proof -
    let ?h = "op_holdings p ! j"
    have "?h \<in> set (op_holdings p)" using j by simp
    then have "set (path_preimages sha (holding_scope sha owner) (hp_object_id ?h) (hp_path ?h)) \<subseteq> B"
      using assms(9) by (auto simp: page_preimages_def)
    note vp = verify_path_sound [OF verify_holdings_nth(2) [OF vh j] b(1) assms(6) B(2) this]
    have lf: "hp_object_id ?h \<in> dom (H owner)"
      using verify_holdings_nth(1) [OF vh j] vp(1) by (cases "hold_map H owner (hp_object_id ?h)") (auto simp: hold_map_def)
    have "unat offset + j < 2 ^ 64" using n j b(2) unsigned_less [of "oc_count summary", where 'a = nat] by auto
    then have "unat (offset + of_nat j) = unat offset + j" by (simp add: unat_word_ariths unat_of_nat)
    moreover have "{k. hold_map H owner k \<noteq> None \<and> k < hp_object_id ?h} = {x \<in> dom (H owner). x < hp_object_id ?h}"
      by (auto simp: hold_map_def)
    ultimately have "card {x \<in> dom (H owner). x < hp_object_id ?h} = unat offset + j" using vp(2) by simp
    then show ?thesis using rank_nth(1) [OF lf] vp(1) by simp
  qed
  then show "page_entries p = page_of H owner (unat offset) (unat limit)"
    using n by (intro nth_equalityI) (auto simp: page_entries_def page_of_def)
qed

end
