(* ===== verification/Owner_Proto.thy ===== *)
theory Owner_Proto
  imports Owner_Pages
begin

text \<open>The wire form of owner pages: the messages of proto/hellas/chain/v1/light_client.proto and the conversions
  of src/crates/chain/src/owner_proof.rs to and from them.\<close>

section \<open>Messages\<close>

record pb_owner_commitment =
  pc_hash :: bytes
  pc_count :: u64
  pc_balance :: bytes

datatype pb_leaf_value = PbSummary pb_owner_commitment | PbHolding u32 u64

record pb_owner_leaf = pl_value :: "pb_leaf_value option"

record pb_owner_sibling =
  ps_depth :: u32
  ps_commitment :: "pb_owner_commitment option"

record pb_owner_path_proof =
  ppp_leaf :: "pb_owner_leaf option"
  ppp_siblings :: "pb_owner_sibling list"

record pb_holding_proof =
  ph_object_id :: bytes
  ph_path :: "pb_owner_path_proof option"

record pb_owner_page_proof =
  po_owner :: string
  po_summary :: "pb_owner_path_proof option"
  po_offset :: u64
  po_limit :: u32
  po_holdings :: "pb_holding_proof list"
  po_after_key :: "bytes option"
  po_after_path :: "pb_owner_path_proof option"

section \<open>Conversions\<close>

text \<open>\<^verbatim>\<open>try_into\<close> an array of a fixed length, or a narrower integer.\<close>

definition array_of :: "bytes \<Rightarrow> ('a::len word, owner_proof_error) result" where
  "array_of bs = (if length bs = LENGTH('a) div 8 then Ok (from_be_bytes bs) else Err OwnerInvalid)"

definition narrow :: "u32 \<Rightarrow> ('a::len word, owner_proof_error) result" where
  "narrow n = (if unat n < 2 ^ LENGTH('a) then Ok (ucast n) else Err OwnerInvalid)"

fun opt_result :: "('a \<Rightarrow> ('b, 'e) result) \<Rightarrow> 'a option \<Rightarrow> ('b option, 'e) result" where
  "opt_result f None = Ok None"
| "opt_result f (Some x) = and_then (f x) (\<lambda>y. Ok (Some y))"

definition commitment_into_proto :: "owner_commitment \<Rightarrow> pb_owner_commitment" where
  "commitment_into_proto c =
    \<lparr>pc_hash = to_be_bytes (oc_hash c), pc_count = oc_count c, pc_balance = to_be_bytes (oc_balance c)\<rparr>"

definition commitment_from_proto :: "pb_owner_commitment \<Rightarrow> (owner_commitment, owner_proof_error) result" where
  "commitment_from_proto v =
    and_then (array_of (pc_hash v)) (\<lambda>hash.
    and_then (array_of (pc_balance v)) (\<lambda>balance.
    Ok \<lparr>oc_hash = hash, oc_count = pc_count v, oc_balance = balance\<rparr>))"

definition path_into_proto :: "owner_path_proof \<Rightarrow> pb_owner_path_proof" where
  "path_into_proto p =
    \<lparr>ppp_leaf = map_option (\<lambda>leaf. \<lparr>pl_value = Some (case leaf of
         Summary c \<Rightarrow> PbSummary (commitment_into_proto c)
       | Holding k b \<Rightarrow> PbHolding (ucast k) b)\<rparr>) (pp_leaf p),
     ppp_siblings = map (\<lambda>s. \<lparr>ps_depth = ucast (os_depth s), ps_commitment = Some (commitment_into_proto (os_commitment s))\<rparr>)
       (pp_siblings p)\<rparr>"

definition leaf_from_proto :: "pb_owner_leaf \<Rightarrow> (owner_leaf, owner_proof_error) result" where
  "leaf_from_proto leaf =
    and_then (ok_or OwnerInvalid (pl_value leaf)) (\<lambda>v. case v of
      PbSummary c \<Rightarrow> and_then (commitment_from_proto c) (\<lambda>c. Ok (Summary c))
    | PbHolding k b \<Rightarrow> and_then (narrow k) (\<lambda>k. Ok (Holding k b)))"

definition sibling_from_proto :: "pb_owner_sibling \<Rightarrow> (owner_sibling, owner_proof_error) result" where
  "sibling_from_proto s =
    and_then (narrow (ps_depth s)) (\<lambda>depth.
    and_then (ok_or OwnerInvalid (ps_commitment s)) (\<lambda>c.
    and_then (commitment_from_proto c) (\<lambda>c. Ok \<lparr>os_depth = depth, os_commitment = c\<rparr>)))"

definition path_from_proto :: "pb_owner_path_proof \<Rightarrow> (owner_path_proof, owner_proof_error) result" where
  "path_from_proto v =
    and_then (opt_result leaf_from_proto (ppp_leaf v)) (\<lambda>leaf.
    and_then (try_map sibling_from_proto (ppp_siblings v)) (\<lambda>siblings.
    Ok \<lparr>pp_leaf = leaf, pp_siblings = siblings\<rparr>))"

definition page_into_proto :: "owner_page_proof \<Rightarrow> pb_owner_page_proof" where
  "page_into_proto p =
    \<lparr>po_owner = op_owner p, po_summary = Some (path_into_proto (op_summary p)), po_offset = op_offset p, po_limit = op_limit p,
     po_holdings = map (\<lambda>h. \<lparr>ph_object_id = to_be_bytes (hp_object_id h), ph_path = Some (path_into_proto (hp_path h))\<rparr>) (op_holdings p),
     po_after_key = map_option to_be_bytes (op_after_key p), po_after_path = map_option path_into_proto (op_after_path p)\<rparr>"

definition holding_from_proto :: "pb_holding_proof \<Rightarrow> (holding_proof, owner_proof_error) result" where
  "holding_from_proto h =
    and_then (array_of (ph_object_id h)) (\<lambda>i.
    and_then (ok_or OwnerInvalid (ph_path h)) (\<lambda>path.
    and_then (path_from_proto path) (\<lambda>path. Ok \<lparr>hp_object_id = i, hp_path = path\<rparr>)))"

definition page_from_proto :: "pb_owner_page_proof \<Rightarrow> (owner_page_proof, owner_proof_error) result" where
  "page_from_proto v =
    and_then (ok_or OwnerInvalid (po_summary v)) (\<lambda>summary.
    and_then (path_from_proto summary) (\<lambda>summary.
    and_then (try_map holding_from_proto (po_holdings v)) (\<lambda>holdings.
    and_then (opt_result array_of (po_after_key v)) (\<lambda>after_key.
    and_then (opt_result path_from_proto (po_after_path v)) (\<lambda>after_path.
    Ok \<lparr>op_owner = po_owner v, op_summary = summary, op_offset = po_offset v, op_limit = po_limit v,
      op_holdings = holdings, op_after_key = after_key, op_after_path = after_path\<rparr>)))))"

section \<open>One message per page\<close>

text \<open>Each conversion inverts the other, so each is proved in this form.\<close>

lemma array_of_iff:
  fixes w :: "'a::len word"
  assumes "8 dvd LENGTH('a)"
  shows "array_of bs = Ok w \<longleftrightarrow> bs = to_be_bytes w"
  using assms to_be_bytes_from_be [of bs, where 'a = 'a]
  by (auto simp: array_of_def from_be_bytes_to_be length_to_be_bytes)

lemma narrow_u16: "narrow n = Ok (w :: u16) \<longleftrightarrow> n = ucast w"
  using unsigned_less [of w, where 'a = nat]
  by (auto simp: narrow_def word_unat_eq_iff unsigned_ucast_eq take_bit_nat_eq_self)

lemma narrow_u8: "narrow n = Ok (w :: byte) \<longleftrightarrow> n = ucast w"
  using unsigned_less [of w, where 'a = nat]
  by (auto simp: narrow_def word_unat_eq_iff unsigned_ucast_eq take_bit_nat_eq_self)

lemma opt_result_iff:
  assumes "\<And>x y. f x = Ok y \<longleftrightarrow> x = g y"
  shows "opt_result f m = Ok n \<longleftrightarrow> m = map_option g n"
  by (cases m; cases n) (auto simp: and_then_eq_Ok assms)

lemma try_map_iff:
  assumes "\<And>x y. f x = Ok y \<longleftrightarrow> x = g y"
  shows "try_map f xs = Ok ys \<longleftrightarrow> xs = map g ys"
proof (induction xs arbitrary: ys)
  case (Cons x xs)
  show ?case by (cases ys) (auto simp: and_then_eq_Ok assms Cons)
qed auto

lemma commitment_from_iff: "commitment_from_proto v = Ok c \<longleftrightarrow> v = commitment_into_proto c"
  by (cases v, cases c) (auto simp: commitment_from_proto_def commitment_into_proto_def and_then_eq_Ok array_of_iff)

definition leaf_into :: "owner_leaf \<Rightarrow> pb_owner_leaf" where
  "leaf_into leaf = \<lparr>pl_value = Some (case leaf of
     Summary c \<Rightarrow> PbSummary (commitment_into_proto c) | Holding k b \<Rightarrow> PbHolding (ucast k) b)\<rparr>"

definition sibling_into :: "owner_sibling \<Rightarrow> pb_owner_sibling" where
  "sibling_into s = \<lparr>ps_depth = ucast (os_depth s), ps_commitment = Some (commitment_into_proto (os_commitment s))\<rparr>"

definition holding_into :: "holding_proof \<Rightarrow> pb_holding_proof" where
  "holding_into h = \<lparr>ph_object_id = to_be_bytes (hp_object_id h), ph_path = Some (path_into_proto (hp_path h))\<rparr>"

lemma leaf_from_iff: "leaf_from_proto v = Ok l \<longleftrightarrow> v = leaf_into l"
  by (cases v; cases l)
    (auto simp: leaf_from_proto_def leaf_into_def and_then_eq_Ok ok_or_eq_Ok commitment_from_iff narrow_u8 split: pb_leaf_value.split_asm)

lemma sibling_from_iff: "sibling_from_proto v = Ok s \<longleftrightarrow> v = sibling_into s"
  by (cases v; cases s)
    (auto simp: sibling_from_proto_def sibling_into_def and_then_eq_Ok ok_or_eq_Ok commitment_from_iff narrow_u16)

lemma path_into_alt: "path_into_proto p = \<lparr>ppp_leaf = map_option leaf_into (pp_leaf p), ppp_siblings = map sibling_into (pp_siblings p)\<rparr>"
  by (simp add: path_into_proto_def leaf_into_def [abs_def] sibling_into_def [abs_def])

lemma path_from_iff: "path_from_proto v = Ok p \<longleftrightarrow> v = path_into_proto p"
  by (cases v; cases p)
    (auto simp: path_from_proto_def path_into_alt and_then_eq_Ok opt_result_iff [OF leaf_from_iff] try_map_iff [OF sibling_from_iff])

lemma holding_from_iff: "holding_from_proto v = Ok h \<longleftrightarrow> v = holding_into h"
  by (cases v; cases h) (auto simp: holding_from_proto_def holding_into_def and_then_eq_Ok ok_or_eq_Ok array_of_iff path_from_iff)

lemma after_key_iff: "opt_result array_of m = Ok n \<longleftrightarrow> m = map_option to_be_bytes (n :: bytes32 option)"
  by (rule opt_result_iff) (simp add: array_of_iff)

text \<open>C37. The wire form of a page is unique. A page message converts to a page exactly when it is the message that
  page converts to: nothing is lost on the way out, every field is checked on the way in, and two different
  messages never stand for the same page.\<close>

theorem owner_page_message:
  "page_from_proto v = Ok p \<longleftrightarrow> v = page_into_proto p"
  by (cases v; cases p)
    (auto simp: page_from_proto_def page_into_proto_def and_then_eq_Ok ok_or_eq_Ok path_from_iff
      try_map_iff [OF holding_from_iff] after_key_iff opt_result_iff [OF path_from_iff] holding_into_def [abs_def])

end
