(* ===== verification/Chain_Domain.thy ===== *)
theory Chain_Domain
  imports Owner_Proof Working_Set
begin

text \<open>The chain's own data (src/crates/chain/src/domain.rs): the objects of its one namespace with their stored
  form, object ids, limits and transactions. A settlement key wraps a kernel key and is that key here. The codec
  crate that moves bytes in and out of buffers is not part of the repository: writing gives the tag and the
  payload, reading takes them; the size of a length prefix (\<open>vsize\<close>) and the bytes of a 16-bit index
  (\<open>w16\<close>) are parameters.\<close>

section \<open>Limits\<close>

definition MAX_TXS_PER_BLOCK :: nat where "MAX_TXS_PER_BLOCK = 256"
definition MAX_BLOCK_TX_BYTES :: nat where "MAX_BLOCK_TX_BYTES = 768 * 1024"
definition KERNEL_FEES :: fees where "KERNEL_FEES = fees_zero"
definition MAX_EDGE_LIFETIME_BLOCKS :: u64 where "MAX_EDGE_LIFETIME_BLOCKS = 1000000"

section \<open>Object ids\<close>

definition genesis_object_id :: "sha256 \<Rightarrow> (u16 \<Rightarrow> bytes) \<Rightarrow> u16 \<Rightarrow> object_id" where
  "genesis_object_id sha w16 index = sha (ascii ''hellas-genesis'' @ w16 index)"

definition coin_object_id :: "coin_id \<Rightarrow> object_id" where "coin_object_id i = i"
definition edge_object_id :: "edge_id \<Rightarrow> object_id" where "edge_object_id i = i"
definition registry_chunk_object_id :: "registry_chunk_id \<Rightarrow> object_id" where "registry_chunk_object_id i = i"

section \<open>Objects\<close>

record chain_coin =
  cc_owner :: settlement_key
  cc_delegate :: "settlement_key option"
  cc_value :: u64

definition chain_coin_owned :: "settlement_key \<Rightarrow> u64 \<Rightarrow> chain_coin" where
  "chain_coin_owned owner v = \<lparr>cc_owner = owner, cc_delegate = None, cc_value = v\<rparr>"

definition chain_coin_from :: "coin \<Rightarrow> chain_coin" where
  "chain_coin_from c = \<lparr>cc_owner = coin_owner c, cc_delegate = coin_delegate c, cc_value = coin_value c\<rparr>"

definition kernel_coin_from :: "chain_coin \<Rightarrow> coin" where
  "kernel_coin_from c = coin_issue (cc_owner c) (cc_delegate c) (cc_value c)"

datatype object_kind = KindCoin | KindEdge | KindRegistryChunk | KindOwnerData

datatype object =
    ObjCoin chain_coin
  | ObjEdge edge
  | ObjRegistryChunk registry_chunk
  | ObjOwnerData bytes

fun object_kind_of :: "object \<Rightarrow> object_kind" where
  "object_kind_of (ObjCoin _) = KindCoin"
| "object_kind_of (ObjEdge _) = KindEdge"
| "object_kind_of (ObjRegistryChunk _) = KindRegistryChunk"
| "object_kind_of (ObjOwnerData _) = KindOwnerData"

fun wf_object :: "object \<Rightarrow> bool" where
  "wf_object (ObjCoin _) = True"
| "wf_object (ObjEdge e) = wf_edge e"
| "wf_object (ObjRegistryChunk c) = wf_registry_chunk c"
| "wf_object (ObjOwnerData bs) \<longleftrightarrow> length bs = OWNER_NODE_BYTES"

subsection \<open>The stored form\<close>

definition COIN_TAG :: byte where "COIN_TAG = 0"
definition EDGE_TAG :: byte where "EDGE_TAG = 1"
definition REGISTRY_CHUNK_TAG :: byte where "REGISTRY_CHUNK_TAG = 2"
definition OWNER_DATA_TAG :: byte where "OWNER_DATA_TAG = 3"

definition larger :: "nat \<Rightarrow> nat \<Rightarrow> nat" where
  "larger left right = (if right < left then left else right)"

definition PAYLOAD_SIZE :: nat where
  "PAYLOAD_SIZE = larger OWNER_NODE_BYTES
    (larger max_encoded_size_coin (larger max_encoded_size_edge max_encoded_size_registry_chunk))"

datatype codec_error = CodecInvalid string string | CodecInvalidEnum byte | CodecInvalidLength nat

definition write_payload :: "('a \<Rightarrow> bytes) \<Rightarrow> 'a \<Rightarrow> bytes option" where
  "write_payload enc x = map_option fst (write_to enc x (replicate PAYLOAD_SIZE 0))"

definition read_payload :: "'a decoder \<Rightarrow> bytes \<Rightarrow> ('a, codec_error) result" where
  "read_payload dec payload =
    and_then (map_err (\<lambda>_. CodecInvalid ''Object'' ''invalid kernel canonical payload'') (dec payload)) (\<lambda>(v, consumed).
    if length payload < consumed then Err (CodecInvalid ''Object'' ''invalid kernel decode length'')
    else if list_ex (\<lambda>b. b \<noteq> 0) (drop consumed payload)
    then Err (CodecInvalid ''Object'' ''non-zero canonical payload padding'')
    else Ok v)"

fun object_write :: "object \<Rightarrow> (byte \<times> bytes) option" where
  "object_write (ObjCoin c) = map_option (Pair COIN_TAG) (write_payload encode_coin (kernel_coin_from c))"
| "object_write (ObjEdge e) = map_option (Pair EDGE_TAG) (write_payload encode_edge e)"
| "object_write (ObjOwnerData data) =
    (if length data \<noteq> OWNER_NODE_BYTES then None
     else Some (OWNER_DATA_TAG, data @ drop OWNER_NODE_BYTES (replicate PAYLOAD_SIZE 0)))"
| "object_write (ObjRegistryChunk c) = map_option (Pair REGISTRY_CHUNK_TAG) (write_payload encode_registry_chunk c)"

definition object_read :: "byte \<Rightarrow> bytes \<Rightarrow> (object, codec_error) result" where
  "object_read tag payload =
    (if tag = OWNER_DATA_TAG then
       (if list_ex (\<lambda>b. b \<noteq> 0) (drop OWNER_NODE_BYTES payload)
        then Err (CodecInvalid ''Object'' ''non-zero owner node padding'')
        else Ok (ObjOwnerData (take OWNER_NODE_BYTES payload)))
     else if tag = COIN_TAG then and_then (read_payload decode_coin payload) (\<lambda>c. Ok (ObjCoin (chain_coin_from c)))
     else if tag = EDGE_TAG then and_then (read_payload decode_edge payload) (\<lambda>e. Ok (ObjEdge e))
     else if tag = REGISTRY_CHUNK_TAG
     then and_then (read_payload decode_registry_chunk payload) (\<lambda>c. Ok (ObjRegistryChunk c))
     else Err (CodecInvalidEnum tag))"

section \<open>Transactions\<close>

definition KERNEL_TAG :: byte where "KERNEL_TAG = 2"

datatype transaction = Kernel tx

fun transaction_encode_size :: "(nat \<Rightarrow> nat) \<Rightarrow> transaction \<Rightarrow> nat" where
  "transaction_encode_size vsize (Kernel t) = 1 + vsize (encoded_size_tx t) + encoded_size_tx t"

fun transaction_write :: "transaction \<Rightarrow> byte \<times> nat \<times> bytes" where
  "transaction_write (Kernel t) = (KERNEL_TAG, encoded_size_tx t, encode_tx t)"

definition transaction_read :: "blake3 \<Rightarrow> byte \<Rightarrow> bytes \<Rightarrow> (transaction, codec_error) result" where
  "transaction_read b3 tag payload =
    (if tag = KERNEL_TAG then
       if max_encoded_size_tx < length payload then Err (CodecInvalidLength (length payload))
       else map_err (\<lambda>_. CodecInvalid ''Transaction'' ''invalid canonical kernel transaction'')
       (and_then (decode_exact (decode_tx b3) payload) (\<lambda>t. Ok (Kernel t)))
     else Err (CodecInvalidEnum tag))"

section \<open>The stored form is canonical\<close>

lemma PAYLOAD_SIZE_bounds:
  "max_encoded_size_coin \<le> PAYLOAD_SIZE" "max_encoded_size_edge \<le> PAYLOAD_SIZE"
  "max_encoded_size_registry_chunk \<le> PAYLOAD_SIZE" "OWNER_NODE_BYTES \<le> PAYLOAD_SIZE"
  by (simp_all add: PAYLOAD_SIZE_def larger_def)

lemma zero_padding_iff: "\<not> list_ex (\<lambda>b. b \<noteq> (0 :: byte)) xs \<longleftrightarrow> xs = replicate (length xs) 0"
  by (auto simp: list_ex_iff replicate_eqI) (metis in_set_replicate)

context codec
begin

lemma write_payload_fits:
  assumes "wf x" and "max_size \<le> PAYLOAD_SIZE"
  shows "write_payload enc x = Some (enc x @ replicate (PAYLOAD_SIZE - length (enc x)) 0)"
  using assms by (simp add: write_payload_def write_to_fits sized)

lemma payload_iff:
  assumes "max_size \<le> PAYLOAD_SIZE"
  shows "length payload = PAYLOAD_SIZE \<and> read_payload dec payload = Ok x \<longleftrightarrow> wf x \<and> write_payload enc x = Some payload"
proof (intro iffI conjI; elim conjE)
  assume len: "length payload = PAYLOAD_SIZE" and "read_payload dec payload = Ok x"
  then obtain n where d: "dec payload = Ok (x, n)" and z: "\<not> list_ex (\<lambda>b. b \<noteq> 0) (drop n payload)"
    by (auto simp: read_payload_def and_then_eq_Ok map_err_eq_Ok split: if_splits)
  from canonical [OF d] have wf: "wf x" and t: "n \<le> length payload" "take n payload = enc x" by simp_all
  then have "n = length (enc x)" by (metis length_take min.absorb2)
  with t z len have "payload = enc x @ replicate (PAYLOAD_SIZE - length (enc x)) 0"
    unfolding zero_padding_iff by (metis append_take_drop_id length_drop)
  with wf show "wf x" "write_payload enc x = Some payload" by (simp_all add: write_payload_fits assms)
next
  assume wf: "wf x" and w: "write_payload enc x = Some payload"
  have le: "length (enc x) \<le> PAYLOAD_SIZE" using enc_le [OF wf] assms by simp
  from w have p: "payload = enc x @ replicate (PAYLOAD_SIZE - length (enc x)) 0"
    by (simp add: write_payload_fits wf assms)
  then show "length payload = PAYLOAD_SIZE" using le by simp
  show "read_payload dec payload = Ok x"
    by (simp add: read_payload_def p round_trip wf list_ex_iff)
qed

end

lemma chain_coin_from_kernel [simp]: "chain_coin_from (kernel_coin_from c) = c"
  by (simp add: chain_coin_from_def kernel_coin_from_def coin_issue_def)

lemma kernel_coin_from_chain [simp]: "kernel_coin_from (chain_coin_from c) = c"
  by (simp add: chain_coin_from_def kernel_coin_from_def coin_issue_def)

lemma chain_coin_from_iff: "chain_coin_from k = c \<longleftrightarrow> k = kernel_coin_from c"
  by auto

lemma owner_payload_iff:
  fixes payload :: bytes
  shows "length payload = PAYLOAD_SIZE \<and> \<not> list_ex (\<lambda>b. b \<noteq> 0) (drop OWNER_NODE_BYTES payload)
      \<and> take OWNER_NODE_BYTES payload = data
    \<longleftrightarrow> length data = OWNER_NODE_BYTES \<and> payload = data @ replicate (PAYLOAD_SIZE - OWNER_NODE_BYTES) 0"
proof (intro iffI conjI; elim conjE)
  assume "length payload = PAYLOAD_SIZE" "\<not> list_ex (\<lambda>b. b \<noteq> 0) (drop OWNER_NODE_BYTES payload)"
    and t: "take OWNER_NODE_BYTES payload = data"
  then have "drop OWNER_NODE_BYTES payload = replicate (PAYLOAD_SIZE - OWNER_NODE_BYTES) 0"
    using zero_padding_iff [THEN iffD1, of "drop OWNER_NODE_BYTES payload"] by (metis length_drop)
  then show "payload = data @ replicate (PAYLOAD_SIZE - OWNER_NODE_BYTES) 0"
    using append_take_drop_id [of OWNER_NODE_BYTES payload] t by simp
  then show "length data = OWNER_NODE_BYTES"
    using \<open>length payload = PAYLOAD_SIZE\<close> PAYLOAD_SIZE_bounds(4) t by auto
next
  assume "length data = OWNER_NODE_BYTES" and "payload = data @ replicate (PAYLOAD_SIZE - OWNER_NODE_BYTES) 0"
  with PAYLOAD_SIZE_bounds(4) show "length payload = PAYLOAD_SIZE" "take OWNER_NODE_BYTES payload = data"
    "\<not> list_ex (\<lambda>b. b \<noteq> 0) (drop OWNER_NODE_BYTES payload)"
    by (simp_all add: list_ex_iff)
qed

lemmas object_tags = COIN_TAG_def EDGE_TAG_def REGISTRY_CHUNK_TAG_def OWNER_DATA_TAG_def

text \<open>C39. A byte string of the fixed stored size reads back as an object exactly when writing that object gives it:
  every well-formed object is written without a panic, it is read back unchanged, and no two byte strings
  (different padding included) read as one object.\<close>

theorem stored_object_canonical:
  "length payload = PAYLOAD_SIZE \<and> object_read tag payload = Ok obj
    \<longleftrightarrow> wf_object obj \<and> object_write obj = Some (tag, payload)"
proof (cases obj)
  case (ObjCoin c)
  with coin_codec.payload_iff [OF PAYLOAD_SIZE_bounds(1), of payload "kernel_coin_from c"] show ?thesis
    by (auto simp: object_read_def object_tags and_then_eq_Ok chain_coin_from_iff)
next
  case (ObjEdge e)
  with edge_codec.payload_iff [OF PAYLOAD_SIZE_bounds(2), of payload e] show ?thesis
    by (auto simp: object_read_def object_tags and_then_eq_Ok min_def split: if_splits)
next
  case (ObjRegistryChunk c)
  with registry_chunk_codec.payload_iff [OF PAYLOAD_SIZE_bounds(3), of payload c] show ?thesis
    by (auto simp: object_read_def object_tags and_then_eq_Ok min_def split: if_splits)
next
  case (ObjOwnerData d)
  with owner_payload_iff [of payload d] show ?thesis
    by (auto simp: object_read_def object_tags and_then_eq_Ok min_def split: if_splits)
qed

lemma object_write_total: "wf_object obj \<Longrightarrow> \<exists>tag payload. object_write obj = Some (tag, payload)"
  by (cases obj) (auto simp: coin_codec.write_payload_fits edge_codec.write_payload_fits
    registry_chunk_codec.write_payload_fits PAYLOAD_SIZE_bounds)

lemma transaction_read_write:
  "transaction_read b3 tag payload = Ok t \<and> n = length payload
    \<longleftrightarrow> (\<exists>k. t = Kernel k \<and> wf_tx b3 k \<and> transaction_write t = (tag, n, payload))"
  using tx_codec.bounded [of b3]
  by (cases t) (force simp: transaction_read_def not_less map_err_eq_Ok and_then_eq_Ok tx_codec.exact_iff tx_codec.sized [of b3])

end
