(* ===== verification/Chain_Execution.thy ===== *)
theory Chain_Execution
  imports Chain_Domain Owner_State
begin

text \<open>The chain's execution of blocks (src/crates/chain/src/execution/kernel.rs, owner_tree.rs): the host loads the
  slots a transaction may touch from its object database into a working set, runs the kernel on it, and replays the
  reported change into the database, where every object write also updates the owner tree. The database is an
  external authenticated store: its speculative batch is the parameter \<open>db\<close>, with a read that may fail and a write
  that stages one value.\<close>

section \<open>Errors\<close>

datatype execution_error =
    ObjectNotFound object_id
  | WrongObjectKind object_id object_kind object_kind  \<comment> \<open>expected, actual\<close>
  | RootMismatch string
  | Storage string
  | KernelHostContract apply_error
  | KernelApply apply_error
  | EdgeLifetimeExceeded u64 u64

fun is_transient_for_mempool :: "execution_error \<Rightarrow> bool" where
  "is_transient_for_mempool (ObjectNotFound _) = True"
| "is_transient_for_mempool (KernelApply (InvalidProof _ Proof_TimeoutNotReached)) = True"
| "is_transient_for_mempool _ = False"

fun is_fatal_storage :: "execution_error \<Rightarrow> bool" where
  "is_fatal_storage (Storage _) = True"
| "is_fatal_storage (KernelHostContract _) = True"
| "is_fatal_storage _ = False"

fun owner_error_text :: "owner_proof_error \<Rightarrow> string" where
  "owner_error_text (OwnerStorage e) = ''owner tree storage failed: '' @ e"
| "owner_error_text OwnerInvalid = ''invalid owner tree node or proof''"
| "owner_error_text OwnerBinding = ''owner proof does not match the finalized root or requested owner/page''"
| "owner_error_text OwnerPage = ''owner page limit or offset is invalid''"

section \<open>The object database\<close>

record 'd object_db =
  db_get :: "'d \<Rightarrow> object_id \<Rightarrow> (object option, string) result"
  db_write :: "'d \<Rightarrow> object_id \<Rightarrow> object option \<Rightarrow> 'd"

type_synonym 'd exec = "(unit, execution_error) result \<times> 'd"

definition store_err :: "('e \<Rightarrow> 'f) \<Rightarrow> ('a, 'e) result \<times> 's \<Rightarrow> ('a, 'f) result \<times> 's" where
  "store_err f m = (map_err f (fst m), snd m)"

text \<open>A loop over a list that stops at the first error.\<close>

fun for_each :: "('a \<Rightarrow> 'd \<Rightarrow> (unit, 'e) result \<times> 'd) \<Rightarrow> 'a list \<Rightarrow> 'd \<Rightarrow> (unit, 'e) result \<times> 'd" where
  "for_each f [] d = (Ok (), d)"
| "for_each f (x # xs) d = and_store (f x d) (\<lambda>_ d. for_each f xs d)"

section \<open>The owner tree inside the database\<close>

definition batch_get_node :: "'d object_db \<Rightarrow> 'd \<Rightarrow> bytes32 \<Rightarrow> (bytes option, owner_proof_error) result" where
  "batch_get_node db d key =
    and_then (map_err OwnerStorage (db_get db d key)) (\<lambda>found.
    case found of
      None \<Rightarrow> Ok None
    | Some (ObjOwnerData bs) \<Rightarrow> Ok (Some bs)
    | Some _ \<Rightarrow> Err OwnerInvalid)"

definition batch_put_node ::
  "'d object_db \<Rightarrow> 'd \<Rightarrow> bytes32 \<Rightarrow> bytes option \<Rightarrow> (unit, owner_proof_error) result \<times> 'd" where
  "batch_put_node db d key v =
    and_store (pure_store (batch_get_node db d key) d) (\<lambda>_ d. (Ok (), db_write db d key (map_option ObjOwnerData v)))"

definition batch_store :: "'d object_db \<Rightarrow> 'd owner_store" where
  "batch_store db = \<lparr>ow_get = batch_get_node db, ow_put = batch_put_node db\<rparr>"

definition stored_put_node :: "'d \<Rightarrow> bytes32 \<Rightarrow> bytes option \<Rightarrow> (unit, owner_proof_error) result \<times> 'd" where
  "stored_put_node d _ _ = (Err OwnerInvalid, d)"

definition stored_owner_tree :: "'d object_db \<Rightarrow> 'd owner_store" where
  "stored_owner_tree db = \<lparr>ow_get = batch_get_node db, ow_put = stored_put_node\<rparr>"

definition owner_tree_root :: "'d object_db \<Rightarrow> sha256 \<Rightarrow> 'd \<Rightarrow> (bytes32, owner_proof_error) result" where
  "owner_tree_root db sha d = owner_root (stored_owner_tree db) sha d"

subsection \<open>Who an object is filed under\<close>

definition coin_holdings :: "chain_coin \<Rightarrow> (settlement_key \<times> byte \<times> u64) list" where
  "coin_holdings c =
    (cc_owner c, HOLDING_COIN, cc_value c)
    # (case cc_delegate c of
         Some delegate \<Rightarrow> if delegate \<noteq> cc_owner c then [(delegate, HOLDING_DELEGATED, 0)] else []
       | None \<Rightarrow> [])"

definition edge_keys :: "parties \<Rightarrow> settlement_key list" where
  "edge_keys ps = sort (remdups (concat (map (\<lambda>party.
    [pk_owner party, pk_signer party] @ (case pk_payout_delegate party of Some k \<Rightarrow> [k] | None \<Rightarrow> []))
    [parties_maker ps, parties_taker ps])))"

fun ownership :: "object option \<Rightarrow> (settlement_key \<times> byte \<times> u64) list" where
  "ownership (Some (ObjCoin c)) = coin_holdings c"
| "ownership (Some (ObjEdge e)) = map (\<lambda>k. (k, HOLDING_EDGE, 0)) (edge_keys (edge_parties e))"
| "ownership _ = []"

fun is_owner_data :: "object option \<Rightarrow> bool" where
  "is_owner_data (Some (ObjOwnerData _)) = True"
| "is_owner_data _ = False"

definition write_owned :: "'d object_db \<Rightarrow> sha256 \<Rightarrow> 'd \<Rightarrow> object_id \<Rightarrow> object option \<Rightarrow> 'd exec" where
  "write_owned db sha d i v =
    and_store (pure_store (map_err Storage (db_get db d i)) d) (\<lambda>old d.
    if is_owner_data old \<or> is_owner_data v then (Err (Storage ''object namespace collides with owner metadata''), d)
    else and_store (for_each (\<lambda>(owner, _, _) d.
        store_err (\<lambda>e. Storage (owner_error_text e)) (update_holding (batch_store db) sha d owner i None)) (ownership old) d)
      (\<lambda>_ d. and_store (for_each (\<lambda>(owner, k, balance) d.
        store_err (\<lambda>e. Storage (owner_error_text e)) (update_holding (batch_store db) sha d owner i (Some (k, balance))))
        (ownership v) d)
      (\<lambda>_ d. (Ok (), db_write db d i v))))"

section \<open>Loading the slots of a transaction\<close>

definition load_coin_slot ::
  "'d object_db \<Rightarrow> 'd \<Rightarrow> block_working_set \<Rightarrow> coin_id \<Rightarrow> (block_working_set, execution_error) result" where
  "load_coin_slot db d w i =
    and_then (map_err Storage (db_get db d (coin_object_id i))) (\<lambda>found.
    case found of
      Some (ObjCoin c) \<Rightarrow> Ok (insert_coin_slot w i (Some (kernel_coin_from c)))
    | Some obj \<Rightarrow> Err (WrongObjectKind (coin_object_id i) KindCoin (object_kind_of obj))
    | None \<Rightarrow> Ok (insert_coin_slot w i None))"

definition load_edge_slot ::
  "'d object_db \<Rightarrow> 'd \<Rightarrow> block_working_set \<Rightarrow> edge_id \<Rightarrow> (block_working_set, execution_error) result" where
  "load_edge_slot db d w i =
    and_then (map_err Storage (db_get db d (edge_object_id i))) (\<lambda>found.
    case found of
      Some (ObjEdge e) \<Rightarrow> Ok (insert_edge_slot w i (Some e))
    | Some obj \<Rightarrow> Err (WrongObjectKind (edge_object_id i) KindEdge (object_kind_of obj))
    | None \<Rightarrow> Ok (insert_edge_slot w i None))"

definition load_registry_chunk_slot ::
  "'d object_db \<Rightarrow> 'd \<Rightarrow> block_working_set \<Rightarrow> registry_chunk_id \<Rightarrow> (block_working_set, execution_error) result" where
  "load_registry_chunk_slot db d w i =
    and_then (map_err Storage (db_get db d (registry_chunk_object_id i))) (\<lambda>found.
    case found of
      Some (ObjRegistryChunk c) \<Rightarrow> Ok (insert_registry_chunk_slot w i (Some c))
    | Some obj \<Rightarrow> Err (WrongObjectKind (registry_chunk_object_id i) KindRegistryChunk (object_kind_of obj))
    | None \<Rightarrow> Ok (insert_registry_chunk_slot w i None))"

definition leased_payment_edge :: "block_working_set \<Rightarrow> edge_id \<Rightarrow> registry_chunk_id \<times> registry_chunk_id \<Rightarrow> edge_id option" where
  "leased_payment_edge w bond slots =
    (case parse_bond_lease (bws_registry_chunk w (fst slots), bws_registry_chunk w (snd slots)) bond of
       LeasePresent lease \<Rightarrow> Some (bl_payment_edge lease)
     | LeaseAbsent \<Rightarrow> None
     | LeaseFaulty _ \<Rightarrow> None)"

fun load_kernel_slots ::
  "blake3 \<Rightarrow> 'd object_db \<Rightarrow> 'd \<Rightarrow> ctx \<Rightarrow> tx \<Rightarrow> (block_working_set, execution_error) result" where
  "load_kernel_slots b3 db d context (TxOpen f terms _ _) =
    and_then (try_fold (load_coin_slot db d) bws_new (funding_maker f @ funding_taker f)) (\<lambda>w.
    and_then (load_edge_slot db d w (edge_id_of b3 f terms)) (\<lambda>w.
    case terms_profile_of terms of
      ProfileWorkPayment payment \<Rightarrow>
        and_then (load_edge_slot db d w (wp_bond_edge payment)) (\<lambda>w.
        let slots = bond_lease_slots b3 (ctx_network context) (wp_bond_edge payment)
        in try_fold (load_registry_chunk_slot db d) w [fst slots, snd slots])
    | _ \<Rightarrow> Ok w))"
| "load_kernel_slots b3 db d context (TxClose inp p outs) =
    and_then (load_edge_slot db d bws_new inp) (\<lambda>w.
    and_then (try_fold (load_coin_slot db d) w (close_output_ids b3 inp outs)) (\<lambda>w.
    and_then (if proof_kind p = Freeze \<or> proof_kind p = Adjudicated
      then load_registry_chunk_slot db d w (pending_payment_close_slot b3 (ctx_network context) inp) else Ok w) (\<lambda>w.
    case p of
      TimeoutProof terms _ \<Rightarrow>
        (case terms_profile_of terms of
           ProfileWorkStakeBond _ \<Rightarrow>
             let slots = bond_lease_slots b3 (ctx_network context) inp in
             and_then (try_fold (load_registry_chunk_slot db d) w [fst slots, snd slots]) (\<lambda>w.
             case leased_payment_edge w inp slots of
               Some payment_edge \<Rightarrow> load_edge_slot db d w payment_edge
             | None \<Rightarrow> Ok w)
         | _ \<Rightarrow> Ok w)
    | _ \<Rightarrow> Ok w)))"
| "load_kernel_slots b3 db d context (TxMove action) =
    (let payment_edge = (case action of
         StartPaymentClose start \<Rightarrow> ps_payment_edge start
       | RespondPaymentClose response \<Rightarrow> pr_payment_edge response)
     in and_then (load_edge_slot db d bws_new payment_edge) (\<lambda>w.
        load_registry_chunk_slot db d w (pending_payment_close_slot b3 (ctx_network context) payment_edge)))"
| "load_kernel_slots b3 db d context (TxOwner r) =
    and_then (try_fold (load_coin_slot db d) bws_new (rs_inputs r)) (\<lambda>w.
    try_fold (load_coin_slot db d) w (reshape_output_ids b3 (ctx_network context) (rs_inputs r) (rs_outputs r)))"

section \<open>The verdict of the kernel\<close>

definition classify_kernel_error :: "block_working_set \<Rightarrow> apply_error \<Rightarrow> execution_error" where
  "classify_kernel_error w source =
    (case source of
       MissingCoin i \<Rightarrow> if bws_coin w i = None then ObjectNotFound (coin_object_id i) else KernelHostContract source
     | MissingEdge i \<Rightarrow> if bws_edge w i = None then ObjectNotFound (edge_object_id i) else KernelHostContract source
     | MissingRegistryChunk i \<Rightarrow>
         if bws_registry_chunk w i = None then ObjectNotFound (registry_chunk_object_id i) else KernelHostContract source
     | CoinChanged _ \<Rightarrow> KernelHostContract source
     | EdgeChanged _ \<Rightarrow> KernelHostContract source
     | RegistryChunkChanged _ \<Rightarrow> KernelHostContract source
     | CoinInsertRejected _ _ \<Rightarrow> KernelHostContract source
     | EdgeInsertRejected _ _ \<Rightarrow> KernelHostContract source
     | RegistryChunkInsertRejected _ _ \<Rightarrow> KernelHostContract source
     | RegistryDiffRejected _ \<Rightarrow> KernelHostContract source
     | OutputExists _ \<Rightarrow> KernelApply source
     | EdgeExists _ \<Rightarrow> KernelApply source
     | DuplicateInput _ \<Rightarrow> KernelApply source
     | InvalidOpen _ _ \<Rightarrow> KernelApply source
     | InvalidClose _ _ \<Rightarrow> KernelApply source
     | InvalidProof _ _ \<Rightarrow> KernelApply source
     | InvalidMove _ _ \<Rightarrow> KernelApply source
     | InvalidReshape _ \<Rightarrow> KernelApply source)"

definition check_open :: "ctx \<Rightarrow> tx \<Rightarrow> (unit, execution_error) result" where
  "check_open context t =
    (case t of
       TxOpen _ terms _ _ \<Rightarrow>
         let blocks = saturating_sub (terms_timeout terms) (ctx_block_height context) in
         if MAX_EDGE_LIFETIME_BLOCKS < blocks then Err (EdgeLifetimeExceeded blocks MAX_EDGE_LIFETIME_BLOCKS) else Ok ()
     | _ \<Rightarrow> Ok ())"

section \<open>Replaying the change into the database\<close>

definition replay_spent :: "'d object_db \<Rightarrow> sha256 \<Rightarrow> block_working_set \<Rightarrow> coin_id list \<Rightarrow> 'd \<Rightarrow> 'd exec" where
  "replay_spent db sha w = for_each (\<lambda>i d.
    if bws_coin w i \<noteq> None then (Err (KernelHostContract (CoinChanged i)), d)
    else write_owned db sha d (coin_object_id i) None)"

definition replay_issued :: "'d object_db \<Rightarrow> sha256 \<Rightarrow> block_working_set \<Rightarrow> coin_id list \<Rightarrow> 'd \<Rightarrow> 'd exec" where
  "replay_issued db sha w = for_each (\<lambda>i d.
    case bws_coin w i of
      None \<Rightarrow> (Err (KernelHostContract (MissingCoin i)), d)
    | Some c \<Rightarrow> write_owned db sha d (coin_object_id i) (Some (ObjCoin (chain_coin_from c))))"

fun replay_kernel_event :: "'d object_db \<Rightarrow> sha256 \<Rightarrow> 'd \<Rightarrow> block_working_set \<Rightarrow> event_kind \<Rightarrow> 'd exec" where
  "replay_kernel_event db sha d w (EdgeOpened inputs out) =
    and_store (replay_spent db sha w inputs d) (\<lambda>_ d.
    case bws_edge w out of
      None \<Rightarrow> (Err (KernelHostContract (MissingEdge out)), d)
    | Some e \<Rightarrow> write_owned db sha d (edge_object_id out) (Some (ObjEdge e)))"
| "replay_kernel_event db sha d w (EdgeClosed inp outputs) =
    (if bws_edge w inp \<noteq> None then (Err (KernelHostContract (EdgeChanged inp)), d)
     else and_store (write_owned db sha d (edge_object_id inp) None) (\<lambda>_ d. replay_issued db sha w outputs d))"
| "replay_kernel_event db sha d w (CoinsReshaped inputs outputs) =
    and_store (replay_spent db sha w inputs d) (\<lambda>_ d. replay_issued db sha w outputs d)"

definition replay_kernel_registry :: "'d object_db \<Rightarrow> 'd \<Rightarrow> block_working_set \<Rightarrow> registry_diff \<Rightarrow> 'd exec" where
  "replay_kernel_registry db d w registry = for_each (\<lambda>m d.
    if bws_registry_chunk w (rm_id m) \<noteq> rm_chunk m then (Err (KernelHostContract (RegistryChunkChanged (rm_id m))), d)
    else (Ok (), db_write db d (registry_chunk_object_id (rm_id m)) (map_option ObjRegistryChunk (rm_chunk m)))) registry d"

text \<open>The changes finalized replay observes.\<close>

type_synonym object_changes = "(object_id \<times> object option) list"

fun event_changes :: "block_working_set \<Rightarrow> event_kind \<Rightarrow> object_changes" where
  "event_changes w (EdgeOpened inputs out) =
    map (\<lambda>i. (coin_object_id i, None)) inputs @ [(edge_object_id out, map_option ObjEdge (bws_edge w out))]"
| "event_changes w (EdgeClosed inp outputs) =
    (edge_object_id inp, None)
    # map (\<lambda>i. (coin_object_id i, map_option (\<lambda>c. ObjCoin (chain_coin_from c)) (bws_coin w i))) outputs"
| "event_changes w (CoinsReshaped inputs outputs) =
    map (\<lambda>i. (coin_object_id i, None)) inputs
    @ map (\<lambda>i. (coin_object_id i, map_option (\<lambda>c. ObjCoin (chain_coin_from c)) (bws_coin w i))) outputs"

definition outcome_changes :: "block_working_set \<Rightarrow> apply_outcome \<Rightarrow> object_changes" where
  "outcome_changes w outcome =
    (case ao_public_event outcome of None \<Rightarrow> [] | Some ev \<Rightarrow> event_changes w (ev_kind ev))
    @ map (\<lambda>m. (registry_chunk_object_id (rm_id m), map_option ObjRegistryChunk (rm_chunk m))) (ao_registry outcome)"

section \<open>One transaction\<close>

text \<open>The observer of the changes is an optional list; it is returned beside the result and extended only when the
  transaction was applied.\<close>

definition apply_kernel_transaction_observed ::
  "blake3 \<Rightarrow> verifier \<Rightarrow> sha256 \<Rightarrow> 'd object_db \<Rightarrow> 'd \<Rightarrow> ctx \<Rightarrow> tx \<Rightarrow> object_changes option
    \<Rightarrow> 'd exec \<times> object_changes option" where
  "apply_kernel_transaction_observed b3 vf sha db d context t changes =
    (case check_open context t of
       Err e \<Rightarrow> ((Err e, d), changes)
     | Ok _ \<Rightarrow>
    (case load_kernel_slots b3 db d context t of
       Err e \<Rightarrow> ((Err e, d), changes)
     | Ok working \<Rightarrow>
    (case state_apply b3 vf bws_store working context t of
       (Err source, working) \<Rightarrow> ((Err (classify_kernel_error working source), d), changes)
     | (Ok outcome, working) \<Rightarrow>
    (case and_store (case ao_public_event outcome of
           Some ev \<Rightarrow> replay_kernel_event db sha d working (ev_kind ev)
         | None \<Rightarrow> (Ok (), d)) (\<lambda>_ d. replay_kernel_registry db d working (ao_registry outcome)) of
       (Err e, d) \<Rightarrow> ((Err e, d), changes)
     | (Ok _, d) \<Rightarrow> ((Ok (), d), map_option (\<lambda>cs. cs @ outcome_changes working outcome) changes)))))"

definition apply_kernel_transaction ::
  "blake3 \<Rightarrow> verifier \<Rightarrow> sha256 \<Rightarrow> 'd object_db \<Rightarrow> 'd \<Rightarrow> ctx \<Rightarrow> tx \<Rightarrow> 'd exec" where
  "apply_kernel_transaction b3 vf sha db d context t =
    fst (apply_kernel_transaction_observed b3 vf sha db d context t None)"

fun apply_transaction ::
  "blake3 \<Rightarrow> verifier \<Rightarrow> sha256 \<Rightarrow> 'd object_db \<Rightarrow> ctx \<Rightarrow> transaction \<Rightarrow> 'd \<Rightarrow> 'd exec" where
  "apply_transaction b3 vf sha db context (Kernel t) d = apply_kernel_transaction b3 vf sha db d context t"

section \<open>Genesis\<close>

text \<open>The indices of the allocations that fit 16 bits, in order; the rest is truncated.\<close>

definition genesis_coins :: "sha256 \<Rightarrow> (u16 \<Rightarrow> bytes) \<Rightarrow> (settlement_key \<times> u64) list \<Rightarrow> (object_id \<times> chain_coin) list" where
  "genesis_coins sha w16 allocations =
    map (\<lambda>(index, owner, balance). (genesis_object_id sha w16 (of_nat index), chain_coin_owned owner balance))
      (takeWhile (\<lambda>(index, _). index < 2 ^ 16) (enumerate 0 allocations))"

definition maybe_seed_genesis ::
  "sha256 \<Rightarrow> (u16 \<Rightarrow> bytes) \<Rightarrow> 'd object_db \<Rightarrow> ctx \<Rightarrow> (settlement_key \<times> u64) list \<Rightarrow> 'd \<Rightarrow> 'd exec" where
  "maybe_seed_genesis sha w16 db context allocations d =
    (if ctx_block_height context \<noteq> 1 then (Ok (), d)
     else for_each (\<lambda>(i, c) d. write_owned db sha d i (Some (ObjCoin c))) (genesis_coins sha w16 allocations) d)"

definition genesis_changes :: "sha256 \<Rightarrow> (u16 \<Rightarrow> bytes) \<Rightarrow> ctx \<Rightarrow> (settlement_key \<times> u64) list \<Rightarrow> object_changes" where
  "genesis_changes sha w16 context allocations =
    (if ctx_block_height context \<noteq> 1 then []
     else map (\<lambda>(i, c). (i, Some (ObjCoin c))) (genesis_coins sha w16 allocations))"

section \<open>Whole blocks\<close>

definition execute_all ::
  "blake3 \<Rightarrow> verifier \<Rightarrow> sha256 \<Rightarrow> (u16 \<Rightarrow> bytes) \<Rightarrow> 'd object_db \<Rightarrow> ctx \<Rightarrow> transaction list
    \<Rightarrow> (settlement_key \<times> u64) list \<Rightarrow> 'd \<Rightarrow> 'd exec" where
  "execute_all b3 vf sha w16 db context txs allocations d =
    and_store (maybe_seed_genesis sha w16 db context allocations d) (\<lambda>_ d.
    for_each (apply_transaction b3 vf sha db context) txs d)"

fun observe_transactions ::
  "blake3 \<Rightarrow> verifier \<Rightarrow> sha256 \<Rightarrow> 'd object_db \<Rightarrow> ctx \<Rightarrow> transaction list \<Rightarrow> object_changes \<Rightarrow> 'd
    \<Rightarrow> ('d \<times> object_changes, execution_error) result" where
  "observe_transactions b3 vf sha db context [] changes d = Ok (d, changes)"
| "observe_transactions b3 vf sha db context (Kernel t # txs) changes d =
    (case apply_kernel_transaction_observed b3 vf sha db d context t (Some changes) of
       ((Ok _, d), changes) \<Rightarrow> observe_transactions b3 vf sha db context txs (the changes) d
     | ((Err e, _), _) \<Rightarrow> Err e)"

definition execute_all_observed ::
  "blake3 \<Rightarrow> verifier \<Rightarrow> sha256 \<Rightarrow> (u16 \<Rightarrow> bytes) \<Rightarrow> 'd object_db \<Rightarrow> ctx \<Rightarrow> transaction list
    \<Rightarrow> (settlement_key \<times> u64) list \<Rightarrow> 'd \<Rightarrow> ('d \<times> object_changes, execution_error) result" where
  "execute_all_observed b3 vf sha w16 db context txs allocations d =
    (case maybe_seed_genesis sha w16 db context allocations d of
       (Ok _, d) \<Rightarrow>
         observe_transactions b3 vf sha db context txs (genesis_changes sha w16 context allocations) d
     | (Err e, _) \<Rightarrow> Err e)"

subsection \<open>Building a proposal\<close>

fun response_contest_was_removed :: "transaction \<Rightarrow> execution_error \<Rightarrow> bool" where
  "response_contest_was_removed (Kernel (TxMove (RespondPaymentClose response))) (ObjectNotFound i) \<longleftrightarrow>
    i = edge_object_id (pr_payment_edge response)"
| "response_contest_was_removed _ _ \<longleftrightarrow> False"

text \<open>The loop over the candidates: the batch, what was included and retained so far, and the bytes included. A
  \<^verbatim>\<open>usize\<close> is 64 bits wide.\<close>

definition saturating_add_usize :: "nat \<Rightarrow> nat \<Rightarrow> nat" where
  "saturating_add_usize a b = min (a + b) (2 ^ 64 - 1)"

fun proposal_loop ::
  "blake3 \<Rightarrow> verifier \<Rightarrow> sha256 \<Rightarrow> (nat \<Rightarrow> nat) \<Rightarrow> 'd object_db \<Rightarrow> ctx \<Rightarrow> nat \<Rightarrow> nat \<Rightarrow> transaction list
    \<Rightarrow> 'd \<Rightarrow> transaction list \<Rightarrow> transaction list \<Rightarrow> nat
    \<Rightarrow> ('d \<times> transaction list \<times> transaction list, execution_error) result" where
  "proposal_loop b3 vf sha vsize db context max_txs max_tx_bytes [] d included retained included_bytes =
    Ok (d, included, retained)"
| "proposal_loop b3 vf sha vsize db context max_txs max_tx_bytes (t # candidates) d included retained included_bytes =
    (let next_bytes = saturating_add_usize included_bytes (transaction_encode_size vsize t) in
     if max_txs \<le> length included \<or> max_tx_bytes < next_bytes then Ok (d, included, retained @ t # candidates)
     else case apply_transaction b3 vf sha db context t d of
       (Ok _, d) \<Rightarrow>
         proposal_loop b3 vf sha vsize db context max_txs max_tx_bytes candidates d (included @ [t]) retained next_bytes
     | (Err e, d) \<Rightarrow>
         if is_transient_for_mempool e \<and> \<not> response_contest_was_removed t e
         then proposal_loop b3 vf sha vsize db context max_txs max_tx_bytes candidates d included (retained @ [t])
           included_bytes
         else if is_fatal_storage e then Err e
         else proposal_loop b3 vf sha vsize db context max_txs max_tx_bytes candidates d included retained included_bytes)"

definition execute_proposal ::
  "blake3 \<Rightarrow> verifier \<Rightarrow> sha256 \<Rightarrow> (u16 \<Rightarrow> bytes) \<Rightarrow> (nat \<Rightarrow> nat) \<Rightarrow> 'd object_db \<Rightarrow> ctx \<Rightarrow> transaction list
    \<Rightarrow> (settlement_key \<times> u64) list \<Rightarrow> nat \<Rightarrow> nat \<Rightarrow> 'd
    \<Rightarrow> ('d \<times> transaction list \<times> transaction list, execution_error) result" where
  "execute_proposal b3 vf sha w16 vsize db context candidates allocations max_txs max_tx_bytes d =
    (case maybe_seed_genesis sha w16 db context allocations d of
       (Ok _, d) \<Rightarrow> proposal_loop b3 vf sha vsize db context max_txs max_tx_bytes candidates d [] [] 0
     | (Err e, _) \<Rightarrow> Err e)"

end
