(* ===== verification/Kernel_Reads.thy ===== *)
theory Kernel_Reads
  imports Kernel_Apply
begin

text \<open>What a transaction reads: the verdict of the kernel and the change it decides depend on the slots named here
  and on nothing else a batch holds. The chain's host relies on it when it loads only these slots.\<close>

section \<open>The slots of a transaction\<close>

fun tx_coin_slots :: "blake3 \<Rightarrow> ctx \<Rightarrow> tx \<Rightarrow> coin_id list" where
  "tx_coin_slots b3 context (TxOpen f terms _ _) = funding_maker f @ funding_taker f"
| "tx_coin_slots b3 context (TxClose inp p outs) = close_output_ids b3 inp outs"
| "tx_coin_slots b3 context (TxMove _) = []"
| "tx_coin_slots b3 context (TxOwner r) =
    rs_inputs r @ reshape_output_ids b3 (ctx_network context) (rs_inputs r) (rs_outputs r)"

fun move_edge :: "move \<Rightarrow> edge_id" where
  "move_edge (StartPaymentClose start) = ps_payment_edge start"
| "move_edge (RespondPaymentClose response) = pr_payment_edge response"

fun tx_edge_slots :: "blake3 \<Rightarrow> tx \<Rightarrow> edge_id list" where
  "tx_edge_slots b3 (TxOpen f terms _ _) =
    edge_id_of b3 f terms # (case terms_profile_of terms of ProfileWorkPayment payment \<Rightarrow> [wp_bond_edge payment] | _ \<Rightarrow> [])"
| "tx_edge_slots b3 (TxClose inp _ _) = [inp]"
| "tx_edge_slots b3 (TxMove m) = [move_edge m]"
| "tx_edge_slots b3 (TxOwner _) = []"

definition lease_slot_list :: "blake3 \<Rightarrow> ctx \<Rightarrow> edge_id \<Rightarrow> registry_chunk_id list" where
  "lease_slot_list b3 context i =
    (let slots = bond_lease_slots b3 (ctx_network context) i in [fst slots, snd slots])"

fun tx_registry_slots :: "blake3 \<Rightarrow> ctx \<Rightarrow> tx \<Rightarrow> registry_chunk_id list" where
  "tx_registry_slots b3 context (TxOpen f terms _ _) =
    (case terms_profile_of terms of ProfileWorkPayment payment \<Rightarrow> lease_slot_list b3 context (wp_bond_edge payment) | _ \<Rightarrow> [])"
| "tx_registry_slots b3 context (TxClose inp p outs) =
    (if proof_kind p = Freeze \<or> proof_kind p = Adjudicated
     then [pending_payment_close_slot b3 (ctx_network context) inp] else [])
    @ (case p of TimeoutProof terms _ \<Rightarrow> if is_work_bond terms then lease_slot_list b3 context inp else [] | _ \<Rightarrow> [])"
| "tx_registry_slots b3 context (TxMove m) = [pending_payment_close_slot b3 (ctx_network context) (move_edge m)]"
| "tx_registry_slots b3 context (TxOwner _) = []"

text \<open>The timeout of a stake bond also reads the payment edge its lease names.\<close>

fun tx_leased_edge :: "blake3 \<Rightarrow> 's batch_ops \<Rightarrow> 's \<Rightarrow> ctx \<Rightarrow> tx \<Rightarrow> edge_id option" where
  "tx_leased_edge b3 ops s context (TxClose inp (TimeoutProof terms _) outs) =
    (if is_work_bond terms
     then (case read_bond_lease ops s b3 (ctx_network context) inp of Ok (Some l) \<Rightarrow> Some (bl_payment_edge l) | _ \<Rightarrow> None)
     else None)"
| "tx_leased_edge b3 ops s context _ = None"

definition reads_agree ::
  "blake3 \<Rightarrow> ctx \<Rightarrow> tx \<Rightarrow> 's batch_ops \<Rightarrow> 's \<Rightarrow> 't batch_ops \<Rightarrow> 't \<Rightarrow> bool" where
  "reads_agree b3 context t ops s ops' s' \<longleftrightarrow>
    (\<forall>i \<in> set (tx_coin_slots b3 context t). b_coin ops s i = b_coin ops' s' i)
    \<and> (\<forall>i \<in> set (tx_edge_slots b3 t). b_edge ops s i = b_edge ops' s' i)
    \<and> (\<forall>i \<in> set (tx_registry_slots b3 context t). b_registry_chunk ops s i = b_registry_chunk ops' s' i)
    \<and> (\<forall>i. tx_leased_edge b3 ops s context t = Some i \<longrightarrow> b_edge ops s i = b_edge ops' s' i)"

section \<open>The kernel reads nothing else\<close>

lemma and_then_cong:
  "m = m' \<Longrightarrow> (\<And>x. m' = Ok x \<Longrightarrow> k x = k' x) \<Longrightarrow> and_then m k = and_then m' k'"
  by (cases m') simp_all

lemma try_map_cong:
  assumes "\<And>x. x \<in> set xs \<Longrightarrow> f x = g x"
  shows "try_map f xs = try_map g xs"
  using assms by (induction xs) simp_all

lemma try_fold_cong:
  assumes "\<And>x a. x \<in> set xs \<Longrightarrow> f a x = g a x"
  shows "try_fold f a xs = try_fold g a xs"
  using assms by (induction xs arbitrary: a) simp_all

lemma load_coins_cong:
  "(\<forall>i \<in> set ids. b_coin ops s i = b_coin ops' s' i) \<Longrightarrow> load_coins ops s ids = load_coins ops' s' ids"
  unfolding load_coins_def by (rule try_map_cong) simp

lemma read_bond_lease_cong:
  "(\<forall>i \<in> set (lease_slot_list b3 context e). b_registry_chunk ops s i = b_registry_chunk ops' s' i)
    \<Longrightarrow> read_bond_lease ops s b3 (ctx_network context) e = read_bond_lease ops' s' b3 (ctx_network context) e"
  by (simp add: read_bond_lease_def lease_slot_list_def Let_def)

lemma read_pending_cong:
  "b_registry_chunk ops s (pending_payment_close_slot b3 (ctx_network context) e)
    = b_registry_chunk ops' s' (pending_payment_close_slot b3 (ctx_network context) e)
    \<Longrightarrow> read_pending ops s b3 context e = read_pending ops' s' b3 context e"
  by (simp add: read_pending_def read_pending_close_def)

lemma check_close_outputs_cong:
  "(\<forall>i \<in> set (close_output_ids b3 inp outs). b_coin ops s i = b_coin ops' s' i)
    \<Longrightarrow> check_close_outputs b3 ops s inp outs = check_close_outputs b3 ops' s' inp outs"
  unfolding check_close_outputs_def close_output_ids_def
  by (rule try_fold_cong) (auto simp: Let_def)

lemma reshape_coins_cong:
  "(\<forall>i \<in> set (reshape_output_ids b3 network ins outs). b_coin ops s i = b_coin ops' s' i)
    \<Longrightarrow> reshape_coins b3 ops s network ins outs = reshape_coins b3 ops' s' network ins outs"
  unfolding reshape_coins_def reshape_output_ids_def
  by (rule try_map_cong) (auto simp: Let_def)

lemma check_timeout_cong:
  assumes "is_work_bond terms \<Longrightarrow> read_bond_lease ops s b3 (ctx_network context) (cs_input close)
      = read_bond_lease ops' s' b3 (ctx_network context) (cs_input close)"
    and "\<And>l. is_work_bond terms \<Longrightarrow> read_bond_lease ops s b3 (ctx_network context) (cs_input close) = Ok (Some l)
      \<Longrightarrow> b_edge ops s (bl_payment_edge l) = b_edge ops' s' (bl_payment_edge l)"
  shows "check_timeout b3 vf ops s context close terms ow = check_timeout b3 vf ops' s' context close terms ow"
proof -
  let ?lease = "\<lambda>ops s. if is_work_bond terms
    then map_err Proof_BondLeaseFault (read_bond_lease ops s b3 (ctx_network context) (cs_input close)) else Ok None"
  have lease: "?lease ops s = ?lease ops' s'" using assms(1) by simp
  have "Option.bind lease (\<lambda>l. if b_edge ops s (bl_payment_edge l) \<noteq> None then Some l else None)
      = Option.bind lease (\<lambda>l. if b_edge ops' s' (bl_payment_edge l) \<noteq> None then Some l else None)"
    if "?lease ops' s' = Ok lease" for lease
    using that assms by (cases lease) (auto simp: map_err_eq_Ok split: if_splits)
  then show ?thesis
    unfolding check_timeout_def Let_def by (intro if_cong refl and_then_cong lease) simp_all
qed

theorem tx_apply_reads:
  assumes "reads_agree b3 context t ops s ops' s'"
  shows "tx_apply b3 vf ops s context t = tx_apply b3 vf ops' s' context t"
proof (cases t)
  case (TxOpen f terms ma ta)
  with assms have coins: "load_coins ops s (funding_iter f) = load_coins ops' s' (funding_iter f)"
    and edge: "b_edge ops s (edge_id_from b3 f (terms_hash_of terms)) = b_edge ops' s' (edge_id_from b3 f (terms_hash_of terms))"
    by (auto simp: reads_agree_def edge_id_of_def funding_iter_def intro!: load_coins_cong)
  have "open_bond_lease b3 ops s context out terms = open_bond_lease b3 ops' s' context out terms" for out :: edge_id
  proof (cases "terms_profile_of terms")
    case (ProfileWorkPayment payment)
    with assms TxOpen have "b_edge ops s (wp_bond_edge payment) = b_edge ops' s' (wp_bond_edge payment)"
      "read_bond_lease ops s b3 (ctx_network context) (wp_bond_edge payment)
        = read_bond_lease ops' s' b3 (ctx_network context) (wp_bond_edge payment)"
      by (auto simp: reads_agree_def intro!: read_bond_lease_cong)
    then show ?thesis by (simp add: open_bond_lease_def ProfileWorkPayment Let_def cong: if_cong)
  qed (simp_all add: open_bond_lease_def)
  with coins edge TxOpen show ?thesis
    by (simp add: apply_open_def open_coins_def Let_def cong: if_cong option.case_cong)
next
  case (TxClose inp p outs)
  with assms have edge: "b_edge ops s inp = b_edge ops' s' inp" by (simp add: reads_agree_def)
  have "check_proof b3 vf ops s context \<lparr>cs_input = inp, cs_edge = e, cs_total = v, cs_outputs = outs\<rparr> p
      = check_proof b3 vf ops' s' context \<lparr>cs_input = inp, cs_edge = e, cs_total = v, cs_outputs = outs\<rparr> p" for e v
  proof (cases p)
    case (TimeoutProof terms ow)
    have lease: "is_work_bond terms \<Longrightarrow> read_bond_lease ops s b3 (ctx_network context) inp
        = read_bond_lease ops' s' b3 (ctx_network context) inp"
      using assms TxClose TimeoutProof by (intro read_bond_lease_cong) (auto simp: reads_agree_def)
    show ?thesis
      using assms TxClose TimeoutProof lease
      by (simp add: check_proof_def) (rule check_timeout_cong; auto simp: reads_agree_def)
  next
    case (FreezeProof earned lo hi ma ta)
    then have "read_pending ops s b3 context inp = read_pending ops' s' b3 context inp"
      using assms TxClose by (intro read_pending_cong) (simp add: reads_agree_def)
    then show ?thesis using FreezeProof by (simp add: check_proof_def check_freeze_def Let_def cong: if_cong)
  next
    case (AdjudicatedProof c)
    then have "read_pending ops s b3 context inp = read_pending ops' s' b3 context inp"
      using assms TxClose by (intro read_pending_cong) (simp add: reads_agree_def)
    then show ?thesis using AdjudicatedProof by (simp add: check_proof_def check_adjudicated_def Let_def cong: if_cong)
  qed (simp add: check_proof_def)
  with edge TxClose assms check_close_outputs_cong [of b3 inp outs ops s ops' s'] show ?thesis
    by (simp add: apply_close_def reads_agree_def Let_def cong: if_cong)
next
  case (TxMove m)
  with assms have edge: "b_edge ops s (move_edge m) = b_edge ops' s' (move_edge m)"
    and pending: "read_pending ops s b3 context (move_edge m) = read_pending ops' s' b3 context (move_edge m)"
    by (auto simp: reads_agree_def intro!: read_pending_cong)
  then show ?thesis
    using TxMove by (cases m) (simp_all add: apply_start_def apply_response_def check_response_def Let_def cong: if_cong terms_profile.case_cong)
next
  case (TxOwner r)
  with assms load_coins_cong [of "rs_inputs r" ops s ops' s']
    reshape_coins_cong [of b3 "ctx_network context" "rs_inputs r" "rs_outputs r" ops s ops' s'] show ?thesis
    by (simp add: apply_reshape_def reads_agree_def Let_def cong: if_cong list.case_cong option.case_cong)
qed

end
