(* ===== verification/Chain_Ledger.thy ===== *)
theory Chain_Ledger
  imports Chain_Execution Kernel_Reads Ledger_Safety
begin

text \<open>The chain's database as a ledger. The database holds the coins, edges and registry chunks of the kernel's ledger
  in one namespace beside the nodes of the owner tree. What the external store promises is \<open>db_laws\<close>: a read sees
  the last value written to its key. Executing a transaction then changes the objects by exactly the observed
  changes, and an accepted transaction is a step of the kernel on the ledger the whole database stands for.\<close>

section \<open>Objects\<close>

definition db_laws :: "'d object_db \<Rightarrow> bool" where
  "db_laws db \<longleftrightarrow> (\<forall>d k v k'. db_get db (db_write db d k v) k' = (if k' = k then Ok v else db_get db d k'))"

type_synonym objects = "object_id \<Rightarrow> object option"

definition object_at :: "(object option, string) result \<Rightarrow> object option" where
  "object_at r = (case r of Ok v \<Rightarrow> if is_owner_data v then None else v | Err _ \<Rightarrow> None)"

definition db_objects :: "'d object_db \<Rightarrow> 'd \<Rightarrow> objects" where
  "db_objects db d = (\<lambda>k. object_at (db_get db d k))"

definition apply_changes :: "object_changes \<Rightarrow> objects \<Rightarrow> objects" where
  "apply_changes cs m = foldl (\<lambda>m (i, v). m(i := v)) m cs"

lemma apply_changes_simps [simp]:
  "apply_changes [] m = m"
  "apply_changes ((i, v) # cs) m = apply_changes cs (m(i := v))"
  "apply_changes (cs @ cs') m = apply_changes cs' (apply_changes cs m)"
  by (simp_all add: apply_changes_def)

lemma db_get_write: "db_laws db \<Longrightarrow> db_get db (db_write db d k v) k' = (if k' = k then Ok v else db_get db d k')"
  by (simp add: db_laws_def)

lemma db_objects_write:
  "db_laws db \<Longrightarrow> \<not> is_owner_data v \<Longrightarrow> db_objects db (db_write db d i v) = (db_objects db d)(i := v)"
  by (auto simp: db_objects_def db_get_write object_at_def)

lemma db_objects_cases:
  "db_get db d i = Ok v \<Longrightarrow> \<not> is_owner_data v \<Longrightarrow> db_objects db d i = v"
  by (simp add: db_objects_def object_at_def)

section \<open>Stateful results\<close>

lemma and_store_simps [simp]:
  "and_store (Ok x, s) k = k x s" "and_store (Err e, s) k = (Err e, s)"
  by (simp_all add: and_store_def)

lemma and_store_Ok:
  assumes "and_store m k = (Ok y, s')"
  obtains x s where "m = (Ok x, s)" "k x s = (Ok y, s')"
  using assms by (cases m; cases "fst m") (auto simp: and_store_def)

lemma and_store_inv:
  assumes "P (snd m)" "\<And>x s. P s \<Longrightarrow> m = (Ok x, s) \<Longrightarrow> P (snd (k x s))"
  shows "P (snd (and_store m k))"
  using assms by (cases m; cases "fst m") (auto simp: and_store_def)

lemma for_each_append: "for_each f (xs @ ys) d = and_store (for_each f xs d) (\<lambda>_ d. for_each f ys d)"
  by (induction xs arbitrary: d) (auto simp: and_store_def split: prod.splits result.splits)

lemma for_each_inv:
  assumes "P d" "\<And>x d. x \<in> set xs \<Longrightarrow> P d \<Longrightarrow> P (snd (f x d))"
  shows "P (snd (for_each f xs d))"
  using assms
proof (induction xs arbitrary: d)
  case (Cons x xs)
  show ?case
    unfolding for_each.simps
    by (rule and_store_inv [where P = P]) (use Cons in auto)
qed simp

text \<open>A loop of single writes applies their changes in order.\<close>

lemma for_each_changes:
  assumes "\<And>x d d'. x \<in> set xs \<Longrightarrow> f x d = (Ok (), d') \<Longrightarrow> M d' = apply_changes (g x) (M d)"
    and "for_each f xs d = (Ok (), d')"
  shows "M d' = apply_changes (concat (map g xs)) (M d)"
  using assms
proof (induction xs arbitrary: d)
  case (Cons x xs)
  from Cons.prems(2) obtain u d1 where "f x d = (Ok u, d1)" "for_each f xs d1 = (Ok (), d')"
    by (auto elim: and_store_Ok)
  with Cons.IH [of d1] Cons.prems(1) [of x d d1] Cons.prems(1) show ?case by simp
qed simp

lemma store_err_snd [simp]: "snd (store_err f m) = snd m"
  by (simp add: store_err_def)

section \<open>The owner tree never touches an object\<close>

lemma pure_store_snd [simp]: "snd (pure_store r s) = s"
  by (simp add: pure_store_def)

lemma update_loop_inv:
  assumes put: "\<And>s k v. P s \<Longrightarrow> P (snd (ow_put st s k v))" and "P s"
  shows "P (snd (update_loop st sha scope key siblings depths current s))"
  using assms(2)
proof (induction depths arbitrary: current s)
  case (Cons depth depths)
  show ?case
    unfolding update_loop.simps Let_def
    by (intro and_store_inv [where P = P] Cons.IH put) (use Cons.prems in \<open>auto simp: pure_store_def\<close>)
qed simp

lemma owner_update_inv:
  assumes put: "\<And>s k v. P s \<Longrightarrow> P (snd (ow_put st s k v))" and "P s"
  shows "P (snd (owner_update st sha s scope key leaf))"
  unfolding owner_update_def
  by (intro and_store_inv [where P = P] update_loop_inv [of P, OF put] put) (use assms(2) in \<open>auto simp: pure_store_def\<close>)

lemma update_holding_inv:
  assumes put: "\<And>s k v. P s \<Longrightarrow> P (snd (ow_put st s k v))" and "P s"
  shows "P (snd (update_holding st sha s owner i v))"
  unfolding update_holding_def
  by (intro and_store_inv [where P = P] owner_update_inv [of P, OF put]) (use assms(2) in auto)

lemma batch_get_node_Ok: "batch_get_node db d k = Ok x \<longleftrightarrow> db_get db d k = Ok (map_option ObjOwnerData x)"
proof (cases "db_get db d k")
  case (Ok v)
  show ?thesis
  proof (cases v)
    case (Some obj)
    with Ok show ?thesis by (cases obj; cases x) (auto simp: batch_get_node_def)
  qed (cases x, auto simp: batch_get_node_def Ok)
qed (simp add: batch_get_node_def)

lemma is_owner_data_map [simp]: "is_owner_data (map_option ObjOwnerData v) \<longleftrightarrow> v \<noteq> None"
  by (cases v) simp_all

lemma batch_put_objects:
  assumes "db_laws db"
  shows "db_objects db (snd (ow_put (batch_store db) d k v)) = db_objects db d"
proof (cases "batch_get_node db d k")
  case (Ok x)
  then have "object_at (db_get db d k) = None"
    by (cases x) (auto simp: batch_get_node_Ok object_at_def)
  then show ?thesis
    using assms Ok by (auto simp: batch_store_def batch_put_node_def pure_store_def db_objects_def db_get_write
      object_at_def fun_eq_iff split: option.splits)
qed (simp add: batch_store_def batch_put_node_def pure_store_def)

lemma update_holding_objects:
  assumes "db_laws db"
  shows "db_objects db (snd (update_holding (batch_store db) sha d owner i v)) = db_objects db d"
  by (rule update_holding_inv [of "\<lambda>s. db_objects db s = db_objects db d"])
    (simp_all add: batch_put_objects [OF assms])

text \<open>A write stores its one object; the objects elsewhere stay.\<close>

lemma write_owned_objects:
  assumes laws: "db_laws db" and w: "write_owned db sha d i v = (Ok (), d')"
  shows "db_objects db d' = (db_objects db d)(i := v)"
proof -
  let ?P = "\<lambda>s. db_objects db s = db_objects db d"
  from w obtain old d1 d2 where nv: "\<not> is_owner_data v" and
    1: "for_each (\<lambda>(owner, _, _) d. store_err (\<lambda>e. Storage (owner_error_text e))
        (update_holding (batch_store db) sha d owner i None)) (ownership old) d = (Ok (), d1)" and
    2: "for_each (\<lambda>(owner, k, balance) d. store_err (\<lambda>e. Storage (owner_error_text e))
        (update_holding (batch_store db) sha d owner i (Some (k, balance)))) (ownership v) d1 = (Ok (), d2)" and
    3: "d' = db_write db d2 i v"
    unfolding write_owned_def by (auto elim!: and_store_Ok simp: pure_store_def split: if_splits)
  have "?P d1"
    using for_each_inv [of ?P d "ownership old", OF refl] 1 update_holding_objects [OF laws]
    by (metis (mono_tags, lifting) case_prod_unfold snd_conv store_err_snd)
  moreover have "?P d2" if "?P d1"
    using for_each_inv [of ?P d1 "ownership v", OF that] 2 update_holding_objects [OF laws]
    by (metis (mono_tags, lifting) case_prod_unfold snd_conv store_err_snd)
  ultimately show ?thesis using 3 by (simp add: db_objects_write [OF laws nv])
qed

section \<open>What the host replays is what it reports\<close>

lemma replay_spent_objects:
  assumes "db_laws db" "replay_spent db sha w ids d = (Ok (), d')"
  shows "db_objects db d' = apply_changes (map (\<lambda>i. (coin_object_id i, None)) ids) (db_objects db d)
    \<and> (\<forall>i \<in> set ids. bws_coin w i = None)"
  using assms(2)
proof (induction ids arbitrary: d)
  case (Cons i ids)
  from Cons.prems obtain d1 where "bws_coin w i = None" "write_owned db sha d (coin_object_id i) None = (Ok (), d1)"
    "replay_spent db sha w ids d1 = (Ok (), d')"
    unfolding replay_spent_def by (auto elim!: and_store_Ok split: if_splits)
  with Cons.IH [of d1] write_owned_objects [OF assms(1)] show ?case by (simp add: fun_upd_def)
qed (simp add: replay_spent_def)

definition coin_object :: "coin option \<Rightarrow> object option" where
  "coin_object c = map_option (\<lambda>c. ObjCoin (chain_coin_from c)) c"

lemma replay_issued_objects:
  assumes "db_laws db" "replay_issued db sha w ids d = (Ok (), d')"
  shows "db_objects db d' = apply_changes (map (\<lambda>i. (coin_object_id i, coin_object (bws_coin w i))) ids) (db_objects db d)
    \<and> (\<forall>i \<in> set ids. bws_coin w i \<noteq> None)"
  using assms(2)
proof (induction ids arbitrary: d)
  case (Cons i ids)
  from Cons.prems obtain c d1 where "bws_coin w i = Some c"
    "write_owned db sha d (coin_object_id i) (Some (ObjCoin (chain_coin_from c))) = (Ok (), d1)"
    "replay_issued db sha w ids d1 = (Ok (), d')"
    unfolding replay_issued_def by (auto elim!: and_store_Ok split: option.splits)
  with Cons.IH [of d1] write_owned_objects [OF assms(1)] show ?case
    by (simp add: coin_object_def fun_upd_def)
qed (simp add: replay_issued_def)

fun event_replayed :: "block_working_set \<Rightarrow> event_kind \<Rightarrow> bool" where
  "event_replayed w (EdgeOpened inputs out) \<longleftrightarrow> (\<forall>i \<in> set inputs. bws_coin w i = None) \<and> bws_edge w out \<noteq> None"
| "event_replayed w (EdgeClosed inp outputs) \<longleftrightarrow> bws_edge w inp = None \<and> (\<forall>i \<in> set outputs. bws_coin w i \<noteq> None)"
| "event_replayed w (CoinsReshaped inputs outputs) \<longleftrightarrow>
    (\<forall>i \<in> set inputs. bws_coin w i = None) \<and> (\<forall>i \<in> set outputs. bws_coin w i \<noteq> None)"

lemma replay_event_objects:
  assumes laws: "db_laws db" and "replay_kernel_event db sha d w ev = (Ok (), d')"
  shows "db_objects db d' = apply_changes (event_changes w ev) (db_objects db d) \<and> event_replayed w ev"
proof (cases ev)
  case (EdgeOpened inputs out)
  with assms(2) obtain d1 e where "replay_spent db sha w inputs d = (Ok (), d1)" "bws_edge w out = Some e"
    "write_owned db sha d1 (edge_object_id out) (Some (ObjEdge e)) = (Ok (), d')"
    by (auto elim!: and_store_Ok split: option.splits)
  with replay_spent_objects [OF laws] write_owned_objects [OF laws] EdgeOpened show ?thesis by simp
next
  case (EdgeClosed inp outputs)
  with assms(2) obtain d1 where "bws_edge w inp = None" "write_owned db sha d (edge_object_id inp) None = (Ok (), d1)"
    "replay_issued db sha w outputs d1 = (Ok (), d')"
    by (auto elim!: and_store_Ok split: if_splits)
  with replay_issued_objects [OF laws] write_owned_objects [OF laws] EdgeClosed show ?thesis
    by (simp add: coin_object_def)
next
  case (CoinsReshaped inputs outputs)
  with assms(2) obtain d1 where "replay_spent db sha w inputs d = (Ok (), d1)"
    "replay_issued db sha w outputs d1 = (Ok (), d')"
    by (auto elim!: and_store_Ok)
  with replay_spent_objects [OF laws] replay_issued_objects [OF laws] CoinsReshaped show ?thesis
    by (simp add: coin_object_def)
qed

definition registry_changes :: "registry_diff \<Rightarrow> object_changes" where
  "registry_changes d = map (\<lambda>m. (registry_chunk_object_id (rm_id m), map_option ObjRegistryChunk (rm_chunk m))) d"

lemma is_owner_data_registry [simp]: "\<not> is_owner_data (map_option ObjRegistryChunk c)"
  by (cases c) simp_all

lemma replay_registry_objects:
  assumes "db_laws db" "replay_kernel_registry db d w ms = (Ok (), d')"
  shows "db_objects db d' = apply_changes (registry_changes ms) (db_objects db d)"
  using assms(2)
proof (induction ms arbitrary: d)
  case (Cons m ms)
  from Cons.prems have "replay_kernel_registry db (db_write db d (registry_chunk_object_id (rm_id m))
      (map_option ObjRegistryChunk (rm_chunk m))) w ms = (Ok (), d')"
    by (auto simp: replay_kernel_registry_def elim!: and_store_Ok split: if_splits)
  from Cons.IH [OF this] show ?case by (simp add: registry_changes_def db_objects_write [OF assms(1)] fun_upd_def)
qed (simp add: registry_changes_def replay_kernel_registry_def)

text \<open>The steps of an accepted transaction.\<close>

lemma observed_Ok:
  assumes "apply_kernel_transaction_observed b3 vf sha db d context t changes = ((Ok (), d'), changes')"
  obtains w w' outcome d1 where "check_open context t = Ok ()" "load_kernel_slots b3 db d context t = Ok w"
    "state_apply b3 vf bws_store w context t = (Ok outcome, w')"
    "(case ao_public_event outcome of Some ev \<Rightarrow> replay_kernel_event db sha d w' (ev_kind ev) | None \<Rightarrow> (Ok (), d)) = (Ok (), d1)"
    "replay_kernel_registry db d1 w' (ao_registry outcome) = (Ok (), d')"
    "changes' = map_option (\<lambda>cs. cs @ outcome_changes w' outcome) changes"
  using assms unfolding apply_kernel_transaction_observed_def
  by (auto split: result.splits prod.splits elim!: and_store_Ok)

lemma outcome_objects:
  assumes "db_laws db"
    "(case ao_public_event outcome of Some ev \<Rightarrow> replay_kernel_event db sha d w (ev_kind ev) | None \<Rightarrow> (Ok (), d)) = (Ok (), d1)"
    "replay_kernel_registry db d1 w (ao_registry outcome) = (Ok (), d')"
  shows "db_objects db d' = apply_changes (outcome_changes w outcome) (db_objects db d)"
    and "ao_public_event outcome = Some ev \<Longrightarrow> event_replayed w (ev_kind ev)"
  using replay_registry_objects [OF assms(1,3)] replay_event_objects [OF assms(1), of sha d w _ d1] assms(2)
  by (auto simp: outcome_changes_def registry_changes_def split: option.splits)

section \<open>The ledger of the database\<close>

fun object_coin :: "object option \<Rightarrow> coin option" where
  "object_coin (Some (ObjCoin c)) = Some (kernel_coin_from c)"
| "object_coin _ = None"

fun object_edge :: "object option \<Rightarrow> edge option" where
  "object_edge (Some (ObjEdge e)) = Some e"
| "object_edge _ = None"

fun object_chunk :: "object option \<Rightarrow> registry_chunk option" where
  "object_chunk (Some (ObjRegistryChunk c)) = Some c"
| "object_chunk _ = None"

definition object_ledger :: "objects \<Rightarrow> ledger" where
  "object_ledger m =
    \<lparr>l_coins = (\<lambda>i. object_coin (m i)), l_edges = (\<lambda>i. object_edge (m i)), l_registry = (\<lambda>i. object_chunk (m i))\<rparr>"

definition db_ledger :: "'d object_db \<Rightarrow> 'd \<Rightarrow> ledger" where
  "db_ledger db d = object_ledger (db_objects db d)"

text \<open>A ledger is itself a batch: the abstract store the kernel's rules are stated on.\<close>

definition map_insert :: "('k \<Rightarrow> 'v option) \<Rightarrow> 'k \<Rightarrow> 'v \<Rightarrow> ('k \<Rightarrow> 'v option, insert_error) result" where
  "map_insert m k v = (if m k \<noteq> None then Err Exists else Ok (m(k \<mapsto> v)))"

definition ledger_ops :: "ledger batch_ops" where
  "ledger_ops =
    \<lparr>b_coin = l_coins,
     b_insert_coin = (\<lambda>l i c. and_then (map_insert (l_coins l) i c) (\<lambda>m. Ok (l\<lparr>l_coins := m\<rparr>))),
     b_remove_coin = (\<lambda>l i. (l_coins l i, l\<lparr>l_coins := (l_coins l)(i := None)\<rparr>)),
     b_edge = l_edges,
     b_insert_edge = (\<lambda>l i e. and_then (map_insert (l_edges l) i e) (\<lambda>m. Ok (l\<lparr>l_edges := m\<rparr>))),
     b_remove_edge = (\<lambda>l i. (l_edges l i, l\<lparr>l_edges := (l_edges l)(i := None)\<rparr>)),
     b_registry_chunk = l_registry,
     b_insert_registry_chunk = (\<lambda>l i c. and_then (map_insert (l_registry l) i c) (\<lambda>m. Ok (l\<lparr>l_registry := m\<rparr>))),
     b_remove_registry_chunk = (\<lambda>l i. (l_registry l i, l\<lparr>l_registry := (l_registry l)(i := None)\<rparr>))\<rparr>"

definition ledger_finite :: "ledger \<Rightarrow> bool" where
  "ledger_finite l \<longleftrightarrow> finite (dom (l_coins l)) \<and> finite (dom (l_edges l))"

interpretation lb: batch ledger_ops ledger_finite
  by unfold_locales (auto simp: ledger_ops_def ledger_finite_def map_insert_def split: if_splits)

lemma ledger_of_ledger_ops [simp]: "ledger_of ledger_ops l = l"
  by (simp add: ledger_of_def ledger_ops_def)

lemma ledger_ops_reads [simp]:
  "b_coin ledger_ops = l_coins" "b_edge ledger_ops = l_edges" "b_registry_chunk ledger_ops = l_registry"
  by (simp_all add: ledger_ops_def)

section \<open>What the host loads\<close>

definition loaded_from :: "'d object_db \<Rightarrow> 'd \<Rightarrow> block_working_set \<Rightarrow> bool" where
  "loaded_from db d w \<longleftrightarrow> bws_inv w
    \<and> (\<forall>i v. bws_coins w i = Some v \<longrightarrow> db_get db d i = Ok (coin_object v))
    \<and> (\<forall>i v. bws_edges w i = Some v \<longrightarrow> db_get db d i = Ok (map_option ObjEdge v))
    \<and> (\<forall>i v. bws_registry w i = Some v \<longrightarrow> db_get db d i = Ok (map_option ObjRegistryChunk v))"

lemma loaded_objects:
  assumes "loaded_from db d w"
  shows "bws_coins w i = Some c \<Longrightarrow> db_objects db d i = coin_object c"
    and "bws_edges w j = Some e \<Longrightarrow> db_objects db d j = map_option ObjEdge e"
    and "bws_registry w k = Some r \<Longrightarrow> db_objects db d k = map_option ObjRegistryChunk r"
proof -
  have "\<not> is_owner_data (coin_object c)" "\<not> is_owner_data (map_option ObjEdge e)"
    by (cases c, simp_all add: coin_object_def) (cases e, simp_all)
  then show "bws_coins w i = Some c \<Longrightarrow> db_objects db d i = coin_object c"
    "bws_edges w j = Some e \<Longrightarrow> db_objects db d j = map_option ObjEdge e"
    "bws_registry w k = Some r \<Longrightarrow> db_objects db d k = map_option ObjRegistryChunk r"
    using assms by (auto simp: loaded_from_def intro!: db_objects_cases)
qed

definition declares :: "block_working_set \<Rightarrow> coin_id set \<Rightarrow> edge_id set \<Rightarrow> registry_chunk_id set \<Rightarrow> bool" where
  "declares w C E R \<longleftrightarrow> C \<subseteq> dom (bws_coins w) \<and> E \<subseteq> dom (bws_edges w) \<and> R \<subseteq> dom (bws_registry w)"

lemmas slot_defs = insert_coin_slot_def insert_edge_slot_def insert_registry_chunk_slot_def

lemma loaded_new: "loaded_from db d bws_new" "declares bws_new {} {} {}"
  by (simp_all add: loaded_from_def bws_new_def bws_inv_def declares_def)

lemma get_cases:
  fixes r :: "(object option, string) result"
  obtains (failed) e where "r = Err e" | (empty) "r = Ok None" | (coin) c where "r = Ok (Some (ObjCoin c))"
    | (edge) e where "r = Ok (Some (ObjEdge e))" | (chunk) c where "r = Ok (Some (ObjRegistryChunk c))"
    | (node) bs where "r = Ok (Some (ObjOwnerData bs))"
proof (cases r)
  case (Ok v)
  then show thesis
  proof (cases v)
    case (Some obj)
    with Ok that show thesis by (cases obj) simp_all
  qed (use that in simp)
qed (use that in simp)

lemma load_coin_slot_Ok:
  assumes "load_coin_slot db d w i = Ok w'" "loaded_from db d w" "declares w C E R"
  shows "loaded_from db d w' \<and> declares w' (insert i C) E R"
proof -
  from assms(1) have "\<exists>v. w' = insert_coin_slot w i v \<and> db_get db d i = Ok (coin_object v)"
    by (cases "db_get db d i" rule: get_cases)
      (auto simp: load_coin_slot_def coin_object_id_def coin_object_def intro: exI [of _ None] exI [of _ "Some _"])
  then obtain v where "w' = insert_coin_slot w i v" "db_get db d i = Ok (coin_object v)" by blast
  then show ?thesis
    using assms(2,3)
    by (auto simp: loaded_from_def declares_def slot_defs bws_inv_def)
qed

lemma load_edge_slot_Ok:
  assumes "load_edge_slot db d w i = Ok w'" "loaded_from db d w" "declares w C E R"
  shows "loaded_from db d w' \<and> declares w' C (insert i E) R"
proof -
  from assms(1) have "\<exists>v. w' = insert_edge_slot w i v \<and> db_get db d i = Ok (map_option ObjEdge v)"
    by (cases "db_get db d i" rule: get_cases)
      (auto simp: load_edge_slot_def edge_object_id_def intro: exI [of _ None] exI [of _ "Some _"])
  then obtain v where "w' = insert_edge_slot w i v" "db_get db d i = Ok (map_option ObjEdge v)" by blast
  then show ?thesis
    using assms(2,3)
    by (auto simp: loaded_from_def declares_def slot_defs bws_inv_def)
qed

lemma load_registry_chunk_slot_Ok:
  assumes "load_registry_chunk_slot db d w i = Ok w'" "loaded_from db d w" "declares w C E R"
  shows "loaded_from db d w' \<and> declares w' C E (insert i R)"
proof -
  from assms(1) have "\<exists>v. w' = insert_registry_chunk_slot w i v \<and> db_get db d i = Ok (map_option ObjRegistryChunk v)"
    by (cases "db_get db d i" rule: get_cases)
      (auto simp: load_registry_chunk_slot_def registry_chunk_object_id_def intro: exI [of _ None] exI [of _ "Some _"])
  then obtain v where "w' = insert_registry_chunk_slot w i v" "db_get db d i = Ok (map_option ObjRegistryChunk v)" by blast
  then show ?thesis
    using assms(2,3)
    by (auto simp: loaded_from_def declares_def slot_defs bws_inv_def)
qed

lemma load_coin_slots_Ok:
  assumes "try_fold (load_coin_slot db d) w ids = Ok w'" "loaded_from db d w" "declares w C E R"
  shows "loaded_from db d w' \<and> declares w' (set ids \<union> C) E R"
  using assms
proof (induction ids arbitrary: w C)
  case (Cons i ids)
  then obtain w1 where "load_coin_slot db d w i = Ok w1" "try_fold (load_coin_slot db d) w1 ids = Ok w'"
    by (auto simp: and_then_eq_Ok)
  with Cons load_coin_slot_Ok [of db d w i w1 C E R] show ?case by fastforce
qed simp

lemma load_registry_chunk_slots_Ok:
  assumes "try_fold (load_registry_chunk_slot db d) w ids = Ok w'" "loaded_from db d w" "declares w C E R"
  shows "loaded_from db d w' \<and> declares w' C E (set ids \<union> R)"
  using assms
proof (induction ids arbitrary: w R)
  case (Cons i ids)
  then obtain w1 where "load_registry_chunk_slot db d w i = Ok w1" "try_fold (load_registry_chunk_slot db d) w1 ids = Ok w'"
    by (auto simp: and_then_eq_Ok)
  with Cons load_registry_chunk_slot_Ok [of db d w i w1 C E R] show ?case by fastforce
qed simp

definition tx_loaded :: "blake3 \<Rightarrow> 'd object_db \<Rightarrow> 'd \<Rightarrow> ctx \<Rightarrow> tx \<Rightarrow> block_working_set \<Rightarrow> bool" where
  "tx_loaded b3 db d context t w \<longleftrightarrow> loaded_from db d w
    \<and> declares w (set (tx_coin_slots b3 context t)) (set (tx_edge_slots b3 t)) (set (tx_registry_slots b3 context t))
    \<and> (\<forall>i. tx_leased_edge b3 wb_ops (bws_begin w) context t = Some i \<longrightarrow> i \<in> dom (bws_edges w))"

lemma declares_mono: "declares w C E R \<Longrightarrow> C' \<subseteq> C \<Longrightarrow> E' \<subseteq> E \<Longrightarrow> R' \<subseteq> R \<Longrightarrow> declares w C' E' R'"
  by (auto simp: declares_def)

lemma load_open_slots:
  assumes "load_kernel_slots b3 db d context (TxOpen f terms ma ta) = Ok w"
  shows "tx_loaded b3 db d context (TxOpen f terms ma ta) w"
proof -
  from assms obtain w1 w2 where 1: "try_fold (load_coin_slot db d) bws_new (funding_maker f @ funding_taker f) = Ok w1"
    and 2: "load_edge_slot db d w1 (edge_id_of b3 f terms) = Ok w2"
    and 3: "(case terms_profile_of terms of
      ProfileWorkPayment payment \<Rightarrow> and_then (load_edge_slot db d w2 (wp_bond_edge payment)) (\<lambda>w.
        let slots = bond_lease_slots b3 (ctx_network context) (wp_bond_edge payment)
        in try_fold (load_registry_chunk_slot db d) w [fst slots, snd slots])
    | _ \<Rightarrow> Ok w2) = Ok w"
    by (auto simp: and_then_eq_Ok simp del: try_fold.simps)
  note l = load_coin_slots_Ok [OF 1 loaded_new]
  note l2 = load_edge_slot_Ok [OF 2 conjunct1 [OF l] conjunct2 [OF l]]
  show ?thesis
  proof (cases "terms_profile_of terms")
    case (ProfileWorkPayment payment)
    with 3 obtain w3 where 4: "load_edge_slot db d w2 (wp_bond_edge payment) = Ok w3"
      and 5: "try_fold (load_registry_chunk_slot db d) w3 (lease_slot_list b3 context (wp_bond_edge payment)) = Ok w"
      by (auto simp: and_then_eq_Ok lease_slot_list_def Let_def simp del: try_fold.simps)
    note l3 = load_edge_slot_Ok [OF 4 conjunct1 [OF l2] conjunct2 [OF l2]]
    from load_registry_chunk_slots_Ok [OF 5 conjunct1 [OF l3] conjunct2 [OF l3]] ProfileWorkPayment show ?thesis
      by (auto simp: tx_loaded_def elim: declares_mono)
  qed (use 3 l2 in \<open>auto simp: tx_loaded_def elim: declares_mono\<close>)
qed

lemma leased_payment_edge_read:
  "leased_payment_edge w i (bond_lease_slots b3 (ctx_network context) i) =
    (case read_bond_lease wb_ops (bws_begin w) b3 (ctx_network context) i of Ok (Some l) \<Rightarrow> Some (bl_payment_edge l) | _ \<Rightarrow> None)"
  by (auto simp: leased_payment_edge_def read_bond_lease_def Let_def parse_bond_lease_def [of "(None, None)"]
    split: lease_slots.split)

lemma is_work_bond_cases: "is_work_bond terms \<longleftrightarrow> (\<exists>b. terms_profile_of terms = ProfileWorkStakeBond b)"
  by (simp add: is_work_bond_def split: terms_profile.split)

text \<open>Loading one more edge leaves the chunks a lease is read from.\<close>

lemma load_edge_keeps_chunks: "load_edge_slot db d w i = Ok w' \<Longrightarrow> bws_registry w' = bws_registry w"
  by (cases "db_get db d i" rule: get_cases) (auto simp: load_edge_slot_def edge_object_id_def slot_defs)

lemma load_bond_timeout:
  assumes "try_fold (load_registry_chunk_slot db d) w (lease_slot_list b3 context i) = Ok w1"
    and "(case leased_payment_edge w1 i (bond_lease_slots b3 (ctx_network context) i) of
      Some e \<Rightarrow> load_edge_slot db d w1 e | None \<Rightarrow> Ok w1) = Ok w2"
    and "loaded_from db d w" "declares w C E R"
  shows "loaded_from db d w2 \<and> declares w2 C E (set (lease_slot_list b3 context i) \<union> R)
    \<and> (\<forall>l. read_bond_lease wb_ops (bws_begin w2) b3 (ctx_network context) i = Ok (Some l) \<longrightarrow> bl_payment_edge l \<in> dom (bws_edges w2))"
proof -
  note l = load_registry_chunk_slots_Ok [OF assms(1,3,4)]
  show ?thesis
  proof (cases "leased_payment_edge w1 i (bond_lease_slots b3 (ctx_network context) i)")
    case (Some e)
    with assms(2) have e: "load_edge_slot db d w1 e = Ok w2" by simp
    note l2 = load_edge_slot_Ok [OF e conjunct1 [OF l] conjunct2 [OF l]]
    have "read_bond_lease wb_ops (bws_begin w2) b3 (ctx_network context) i
        = read_bond_lease wb_ops (bws_begin w1) b3 (ctx_network context) i"
      by (simp add: read_bond_lease_def bws_registry_chunk_def load_edge_keeps_chunks [OF e])
    with Some l2 show ?thesis
      unfolding leased_payment_edge_read by (auto simp: declares_def split: result.splits option.splits)
  next
    case None
    with assms(2) l show ?thesis
      unfolding leased_payment_edge_read by (auto split: result.splits option.splits)
  qed
qed

lemma load_close_slots:
  assumes "load_kernel_slots b3 db d context (TxClose inp p outs) = Ok w"
  shows "tx_loaded b3 db d context (TxClose inp p outs) w"
proof -
  let ?pending = "proof_kind p = Freeze \<or> proof_kind p = Adjudicated"
  let ?slot = "pending_payment_close_slot b3 (ctx_network context) inp"
  from assms obtain w1 w2 w3 where 1: "load_edge_slot db d bws_new inp = Ok w1"
    and 2: "try_fold (load_coin_slot db d) w1 (close_output_ids b3 inp outs) = Ok w2"
    and 3: "(if ?pending then load_registry_chunk_slot db d w2 ?slot else Ok w2) = Ok w3"
    and 4: "(case p of TimeoutProof terms _ \<Rightarrow> (case terms_profile_of terms of
           ProfileWorkStakeBond _ \<Rightarrow>
             let slots = bond_lease_slots b3 (ctx_network context) inp in
             and_then (try_fold (load_registry_chunk_slot db d) w3 [fst slots, snd slots]) (\<lambda>w.
             case leased_payment_edge w inp slots of Some payment_edge \<Rightarrow> load_edge_slot db d w payment_edge | None \<Rightarrow> Ok w)
         | _ \<Rightarrow> Ok w3) | _ \<Rightarrow> Ok w3) = Ok w"
    by (auto simp: and_then_eq_Ok simp del: try_fold.simps)
  note l1 = load_edge_slot_Ok [OF 1 loaded_new]
  note l2 = load_coin_slots_Ok [OF 2 conjunct1 [OF l1] conjunct2 [OF l1]]
  have l3: "loaded_from db d w3 \<and> declares w3 (set (close_output_ids b3 inp outs)) {inp} (if ?pending then {?slot} else {})"
    using 3 l2 load_registry_chunk_slot_Ok [of db d w2 ?slot w3] by (fastforce split: if_splits)
  show ?thesis
  proof (cases "\<exists>terms ow. p = TimeoutProof terms ow \<and> is_work_bond terms")
    case True
    then obtain terms ow b where p: "p = TimeoutProof terms ow" "terms_profile_of terms = ProfileWorkStakeBond b"
      by (auto simp: is_work_bond_cases)
    from 4 obtain w4 where 5: "try_fold (load_registry_chunk_slot db d) w3 (lease_slot_list b3 context inp) = Ok w4"
      and 6: "(case leased_payment_edge w4 inp (bond_lease_slots b3 (ctx_network context) inp) of
        Some e \<Rightarrow> load_edge_slot db d w4 e | None \<Rightarrow> Ok w4) = Ok w"
      unfolding p by (auto simp: p(2) and_then_eq_Ok lease_slot_list_def Let_def simp del: try_fold.simps)
    from load_bond_timeout [OF 5 6 conjunct1 [OF l3] conjunct2 [OF l3]] p show ?thesis
      by (auto simp: tx_loaded_def is_work_bond_cases elim!: declares_mono split: result.splits option.splits)
  next
    case False
    with 4 have "w = w3" "tx_leased_edge b3 wb_ops (bws_begin w) context (TxClose inp p outs) = None"
      "tx_registry_slots b3 context (TxClose inp p outs) = (if ?pending then [?slot] else [])"
      by (auto simp: is_work_bond_cases split: close_proof.splits terms_profile.splits)
    with l3 show ?thesis by (auto simp: tx_loaded_def split: if_splits)
  qed
qed

lemma load_kernel_slots_Ok:
  assumes "load_kernel_slots b3 db d context t = Ok w"
  shows "tx_loaded b3 db d context t w"
proof (cases t)
  case (TxMove m)
  let ?slot = "pending_payment_close_slot b3 (ctx_network context) (move_edge m)"
  from assms TxMove obtain w1 where 1: "load_edge_slot db d bws_new (move_edge m) = Ok w1"
    and 2: "load_registry_chunk_slot db d w1 ?slot = Ok w"
    by (cases m) (auto simp: and_then_eq_Ok Let_def)
  note l = load_edge_slot_Ok [OF 1 loaded_new]
  from load_registry_chunk_slot_Ok [OF 2 conjunct1 [OF l] conjunct2 [OF l]] TxMove show ?thesis
    by (simp add: tx_loaded_def)
next
  case (TxOwner r)
  from assms TxOwner obtain w1 where 1: "try_fold (load_coin_slot db d) bws_new (rs_inputs r) = Ok w1"
    and 2: "try_fold (load_coin_slot db d) w1
      (reshape_output_ids b3 (ctx_network context) (rs_inputs r) (rs_outputs r)) = Ok w"
    by (auto simp: and_then_eq_Ok)
  note l = load_coin_slots_Ok [OF 1 loaded_new]
  from load_coin_slots_Ok [OF 2 conjunct1 [OF l] conjunct2 [OF l]] TxOwner show ?thesis
    by (simp add: tx_loaded_def Un_commute)
qed (use assms load_open_slots load_close_slots in auto)

text \<open>So the kernel on the loaded slots decides what it would decide on the whole ledger.\<close>

lemma loaded_reads:
  assumes "loaded_from db d w"
  shows "i \<in> dom (bws_coins w) \<Longrightarrow> bws_coin w i = l_coins (db_ledger db d) i"
    and "j \<in> dom (bws_edges w) \<Longrightarrow> bws_edge w j = l_edges (db_ledger db d) j"
    and "k \<in> dom (bws_registry w) \<Longrightarrow> bws_registry_chunk w k = l_registry (db_ledger db d) k"
proof -
  have [simp]: "object_coin (coin_object c) = c" for c by (cases c) (simp_all add: coin_object_def)
  have [simp]: "object_edge (map_option ObjEdge e) = e" for e by (cases e) simp_all
  have [simp]: "object_chunk (map_option ObjRegistryChunk c) = c" for c by (cases c) simp_all
  show "i \<in> dom (bws_coins w) \<Longrightarrow> bws_coin w i = l_coins (db_ledger db d) i"
    "j \<in> dom (bws_edges w) \<Longrightarrow> bws_edge w j = l_edges (db_ledger db d) j"
    "k \<in> dom (bws_registry w) \<Longrightarrow> bws_registry_chunk w k = l_registry (db_ledger db d) k"
    using loaded_objects [OF assms] by (auto simp: db_ledger_def object_ledger_def bws_coin_def bws_edge_def bws_registry_chunk_def)
qed

lemma loaded_agrees:
  assumes "tx_loaded b3 db d context t w"
  shows "reads_agree b3 context t wb_ops (bws_begin w) ledger_ops (db_ledger db d)"
proof -
  from assms have l: "loaded_from db d w" by (simp add: tx_loaded_def)
  show ?thesis using assms loaded_reads [OF l] by (auto simp: reads_agree_def tx_loaded_def declares_def subset_iff)
qed

end
