(* ===== verification/Kernel_Verdicts.thy ===== *)
theory Kernel_Verdicts
  imports Kernel_Reads Kernel_Ledger Working_Set
begin

text \<open>What the kernel can answer. A refusal is always the transaction's fault, and an accepted change always folds into
  a working set that declares the transaction's slots: the contract errors between the kernel and its host cannot
  occur unless identifiers the transaction derives by hashing collide.\<close>

section \<open>Refusals\<close>

definition errs :: "('e \<Rightarrow> bool) \<Rightarrow> ('a, 'e) result \<Rightarrow> bool" where
  "errs P m \<longleftrightarrow> (\<forall>e. m = Err e \<longrightarrow> P e)"

lemma errs_simps [simp]: "errs P (Ok x)" "errs P (Err e) \<longleftrightarrow> P e"
  by (simp_all add: errs_def)

lemma errs_and_then: "errs P m \<Longrightarrow> (\<And>x. m = Ok x \<Longrightarrow> errs P (k x)) \<Longrightarrow> errs P (and_then m k)"
  by (cases m) simp_all

lemma errs_map_err: "(\<And>e. P (f e)) \<Longrightarrow> errs P (map_err f m)"
  by (cases m) simp_all

lemma errs_ok_or: "(m = None \<Longrightarrow> P e) \<Longrightarrow> errs P (ok_or e m)"
  by (cases m) (simp_all add: ok_or_def)

lemma errs_try_map: "(\<And>x. x \<in> set xs \<Longrightarrow> errs P (f x)) \<Longrightarrow> errs P (try_map f xs)"
  by (induction xs) (auto intro!: errs_and_then)

lemma errs_try_fold: "(\<And>a x. x \<in> set xs \<Longrightarrow> errs P (f a x)) \<Longrightarrow> errs P (try_fold f a xs)"
  by (induction xs arbitrary: a) (auto intro!: errs_and_then)

lemmas errs_intros = errs_and_then errs_map_err errs_ok_or errs_try_map errs_try_fold

fun user_error :: "blake3 \<Rightarrow> 's batch_ops \<Rightarrow> 's \<Rightarrow> ctx \<Rightarrow> tx \<Rightarrow> apply_error \<Rightarrow> bool" where
  "user_error b3 ops s context t (MissingCoin i) \<longleftrightarrow> i \<in> set (tx_coin_slots b3 context t) \<and> b_coin ops s i = None"
| "user_error b3 ops s context t (MissingEdge i) \<longleftrightarrow> i \<in> set (tx_edge_slots b3 t) \<and> b_edge ops s i = None"
| "user_error b3 ops s context t (OutputExists i) \<longleftrightarrow> i \<in> set (tx_coin_slots b3 context t) \<and> b_coin ops s i \<noteq> None"
| "user_error b3 ops s context t (EdgeExists i) \<longleftrightarrow> i \<in> set (tx_edge_slots b3 t) \<and> b_edge ops s i \<noteq> None"
| "user_error b3 ops s context t (DuplicateInput _) \<longleftrightarrow> True"
| "user_error b3 ops s context t (InvalidOpen _ _) \<longleftrightarrow> True"
| "user_error b3 ops s context t (InvalidClose _ _) \<longleftrightarrow> True"
| "user_error b3 ops s context t (InvalidProof _ _) \<longleftrightarrow> True"
| "user_error b3 ops s context t (InvalidMove _ _) \<longleftrightarrow> True"
| "user_error b3 ops s context t (InvalidReshape _) \<longleftrightarrow> True"
| "user_error b3 ops s context t _ \<longleftrightarrow> False"

text \<open>The identifiers a transaction derives by hashing are different from each other.\<close>

definition ids_apart :: "blake3 \<Rightarrow> ctx \<Rightarrow> tx \<Rightarrow> bool" where
  "ids_apart b3 context t \<longleftrightarrow>
    (case t of
       TxOpen f terms _ _ \<Rightarrow> distinct (edge_id_of b3 f terms # tx_registry_slots b3 context t)
     | TxClose inp _ outs \<Rightarrow> distinct (close_output_ids b3 inp outs)
     | TxMove _ \<Rightarrow> True
     | TxOwner r \<Rightarrow> distinct (reshape_output_ids b3 (ctx_network context) (rs_inputs r) (rs_outputs r)))"

lemma errs_load_coins:
  assumes "set ids \<subseteq> set (tx_coin_slots b3 context t)"
  shows "errs (user_error b3 ops s context t) (load_coins ops s ids)"
  unfolding load_coins_def using assms by (auto intro!: errs_intros)

lemma errs_lease:
  assumes "ids_apart b3 context t" "t = TxOpen f terms ma ta"
  shows "errs (user_error b3 ops s context t) (open_bond_lease b3 ops s context out terms)"
proof (cases "terms_profile_of terms")
  case (ProfileWorkPayment payment)
  have d: "fst (bond_lease_slots b3 (ctx_network context) (wp_bond_edge payment))
      \<noteq> snd (bond_lease_slots b3 (ctx_network context) (wp_bond_edge payment))"
    using assms ProfileWorkPayment by (simp add: ids_apart_def lease_slot_list_def Let_def)
  have "errs (user_error b3 ops s context t) (push_mutations ms)"
    if "create_mutations b3 (ctx_network context) l = Some ms" "bl_bond_edge l = wp_bond_edge payment" for l ms
    using that d push_mutations_two [THEN iffD2]
    by (auto simp: create_mutations_def Let_def bind_eq_Some_conv mutation_write_def)
  then show ?thesis
    using ProfileWorkPayment assms(2)
    by (auto simp: open_bond_lease_def Let_def ok_or_eq_Ok lease_opened_def intro!: errs_intros)
qed (simp_all add: open_bond_lease_def)

lemma errs_staged:
  assumes "check_proof b3 vf ops s context close p = Ok staged"
  shows "errs P (push_mutations staged)"
proof -
  have "staged = [] \<or> (\<exists>m. staged = [m])
      \<or> (\<exists>i l. staged = delete_mutations b3 (ctx_network context) i \<and> read_bond_lease ops s b3 (ctx_network context) i = Ok (Some l))"
    using assms
    by (auto simp: check_proof_def check_mutual_def check_timeout_def one_staged_def Let_def and_then_eq_Ok map_err_eq_Ok
        split: close_proof.splits option.splits if_splits)
  then show ?thesis
    using leased_slots_distinct [of ops s b3 "ctx_network context"] push_mutations_two [THEN iffD2]
    by (fastforce simp: delete_mutations_def Let_def bond_lease_slots_def mutation_delete_def)
qed

lemma tx_apply_errors:
  assumes "ids_apart b3 context t"
  shows "errs (user_error b3 ops s context t) (tx_apply b3 vf ops s context t)"
proof (cases t)
  case (TxOpen f terms ma ta)
  have "errs (user_error b3 ops s context t) (open_coins ops s f)"
    unfolding open_coins_def by (rule errs_load_coins) (simp add: TxOpen funding_iter_def)
  with errs_lease [OF assms TxOpen] show ?thesis
    unfolding TxOpen tx_apply.simps apply_open_def Let_def
    by (auto intro!: errs_intros simp: edge_id_of_def check_funding_ownership_def check_open_auth_def Let_def split: option.split)
next
  case (TxClose inp p outs)
  have "errs (user_error b3 ops s context t) (check_close_outputs b3 ops s inp outs)"
    unfolding check_close_outputs_def by (auto intro!: errs_try_fold simp: TxClose Let_def close_output_ids_def)
  then show ?thesis
    unfolding TxClose tx_apply.simps apply_close_def Let_def
    by (auto intro!: errs_intros simp: map_err_eq_Ok) (rule errs_staged)
next
  case (TxMove m)
  then show ?thesis
    by (cases m) (auto simp: apply_start_def apply_response_def check_response_def Let_def intro!: errs_intros
        split: terms_profile.split)
next
  case (TxOwner r)
  have "errs (user_error b3 ops s context t) (load_coins ops s (rs_inputs r))"
    by (rule errs_load_coins) (simp add: TxOwner)
  moreover have "errs (user_error b3 ops s context t) (reshape_coins b3 ops s (ctx_network context) (rs_inputs r) (rs_outputs r))"
    unfolding reshape_coins_def by (auto intro!: errs_try_map simp: TxOwner Let_def reshape_output_ids_def)
  ultimately show ?thesis
    unfolding TxOwner tx_apply.simps apply_reshape_def Let_def check_reshape_outputs_def
    by (auto intro!: errs_intros split: option.split list.split)
qed

section \<open>An accepted change folds\<close>

lemma wb_remove_coins_total:
  assumes "wb_inv s" "distinct (map fst cs)" "\<forall>x \<in> set cs. b_coin wb_ops s (fst x) = Some (snd x)"
  shows "\<exists>s'. remove_coins wb_ops s cs = Ok s' \<and> wb_edges s' = wb_edges s \<and> wb_registry s' = wb_registry s
    \<and> dom (wb_coins s') = dom (wb_coins s)
    \<and> (\<forall>i. slot_get (wb_coins s') i = (if i \<in> fst ` set cs then None else slot_get (wb_coins s) i))"
  using assms
proof (induction cs arbitrary: s)
  case (Cons c cs)
  define t where "t = snd (wb_remove_coin s (fst c))"
  obtain r where r: "wb_remove_coin s (fst c) = (r, t)" by (metis prod.collapse t_def)
  note step = ws.remove_coin_result [OF Cons.prems(1), of "fst c" r t]
  have rem: "remove_coin wb_ops s c = Ok t" using step r Cons.prems(3) by (simp add: remove_coin_def)
  have t: "wb_edges t = wb_edges s" "wb_registry t = wb_registry s" "dom (wb_coins t) = dom (wb_coins s)"
    using slot_remove_result(3) [of "wb_coins s" "fst c"] by (auto simp: t_def wb_remove_coin_def split: prod.split)
  have "\<forall>x \<in> set cs. b_coin wb_ops t (fst x) = Some (snd x)" using step r Cons.prems(2,3) by (auto simp: image_iff)
  with Cons.IH [of t] step r Cons.prems(2) obtain s' where "remove_coins wb_ops t cs = Ok s'" "wb_edges s' = wb_edges t"
    "wb_registry s' = wb_registry t" "dom (wb_coins s') = dom (wb_coins t)"
    "\<forall>i. slot_get (wb_coins s') i = (if i \<in> fst ` set cs then None else slot_get (wb_coins t) i)" by auto
  with rem t step r show ?case by (auto simp: remove_coins_def)
qed (simp add: remove_coins_def)

lemma wb_insert_coins_total:
  assumes "wb_inv s" "distinct (map fst cs)" "\<forall>x \<in> set cs. fst x \<in> dom (wb_coins s) \<and> b_coin wb_ops s (fst x) = None"
  shows "\<exists>s'. insert_coins wb_ops s cs = Ok s' \<and> wb_edges s' = wb_edges s \<and> wb_registry s' = wb_registry s"
  using assms
proof (induction cs arbitrary: s)
  case (Cons c cs)
  from Cons.prems(3) have "wb_coins s (fst c) = Some None" by (auto simp: slot_get_def bind_eq_None_conv)
  define t where "t = s\<lparr>wb_coins := (wb_coins s)(fst c \<mapsto> Some (snd c))\<rparr>"
  with \<open>wb_coins s (fst c) = Some None\<close> have i: "wb_insert_coin s (fst c) (snd c) = Ok t"
    "wb_coins t = (wb_coins s)(fst c \<mapsto> Some (snd c))" "wb_edges t = wb_edges s" "wb_registry t = wb_registry s"
    by (simp_all add: wb_insert_coin_def slot_insert_def)
  note step = ws.insert_coin_Ok [OF Cons.prems(1), of "fst c" "snd c" t]
  have "\<forall>x \<in> set cs. fst x \<in> dom (wb_coins t) \<and> b_coin wb_ops t (fst x) = None" "wb_inv t"
    using step i Cons.prems(2,3) by (auto simp: image_iff)
  with Cons.IH [of t] Cons.prems(2) obtain s' where "insert_coins wb_ops t cs = Ok s'" "wb_edges s' = wb_edges t"
    "wb_registry s' = wb_registry t" by auto
  with i show ?case by (auto simp: insert_coins_def insert_coin_def)
qed (simp add: insert_coins_def)

lemma wb_diff_fold_total:
  assumes "wb_inv s" "distinct (map rm_id ms)" "\<forall>m \<in> set ms. rm_id m \<in> dom (wb_registry s)"
    and "\<forall>m \<in> set ms. rm_chunk m = None \<longrightarrow> b_registry_chunk wb_ops s (rm_id m) \<noteq> None"
  shows "\<exists>s'. diff_fold wb_ops s ms = Ok s'"
  using assms
proof (induction ms arbitrary: s)
  case (Cons m ms)
  have "\<exists>t. mutation_fold wb_ops s m = Ok t \<and> dom (wb_registry t) = dom (wb_registry s)"
  proof (cases "rm_chunk m")
    case None
    with Cons.prems(3,4) show ?thesis
      by (auto simp: mutation_fold_def wb_remove_registry_chunk_def slot_remove_def slot_get_def bind_eq_None_conv)
  next
    case (Some c)
    with Cons.prems(3) show ?thesis
      by (auto simp: mutation_fold_def Let_def wb_remove_registry_chunk_def wb_insert_registry_chunk_def
          slot_remove_def slot_insert_def)
  qed
  then obtain t where t: "mutation_fold wb_ops s m = Ok t" "dom (wb_registry t) = dom (wb_registry s)" by blast
  note step = ws.mutation_step [OF Cons.prems(1) t(1)]
  have "\<forall>x \<in> set ms. rm_chunk x = None \<longrightarrow> b_registry_chunk wb_ops t (rm_id x) \<noteq> None"
    using step Cons.prems(2,4) by (auto simp: image_iff)
  with Cons.IH [of t] step t Cons.prems(2,3) show ?case by (auto simp: diff_fold_def)
qed (simp add: diff_fold_def)

text \<open>The deletions a close stages are of records it has read.\<close>

lemma staged_present:
  assumes "check_proof b3 vf ops s context close p = Ok staged" "m \<in> set staged"
  shows "rm_chunk m = None \<and> b_registry_chunk ops s (rm_id m) \<noteq> None
    \<and> rm_id m \<in> set (tx_registry_slots b3 context (TxClose (cs_input close) p outs))"
proof -
  have pending: "b_registry_chunk ops s (pending_payment_close_slot b3 (ctx_network context) (cs_input close)) \<noteq> None"
    if "read_pending ops s b3 context (cs_input close) = Ok (Some r)" for r
    using that by (cases "b_registry_chunk ops s (pending_payment_close_slot b3 (ctx_network context) (cs_input close))")
      (simp_all add: read_pending_def read_pending_close_def parse_pending_close_def)
  show ?thesis
  proof (cases p)
    case (TimeoutProof terms ow)
    with assms obtain l where b: "is_work_bond terms" "read_bond_lease ops s b3 (ctx_network context) (cs_input close) = Ok (Some l)"
        "m \<in> set (delete_mutations b3 (ctx_network context) (cs_input close))"
      by (auto simp: check_proof_def check_timeout_def Let_def and_then_eq_Ok map_err_eq_Ok split: option.splits if_splits)
    note leased = read_bond_lease_Some(2,3) [OF b(2)]
    show ?thesis
      using TimeoutProof b leased by (auto simp: delete_mutations_def Let_def lease_slot_list_def mutation_delete_def bond_lease_slots_def)
  qed (use assms pending in \<open>auto simp: check_proof_def check_mutual_def check_freeze_def check_adjudicated_def Let_def
      and_then_eq_Ok map_err_eq_Ok ok_or_eq_Ok one_staged_def mutation_delete_def split: option.splits if_splits\<close>)
qed

text \<open>A working set that declares the slots of the transaction takes the change it accepted.\<close>

definition declares_tx :: "blake3 \<Rightarrow> ctx \<Rightarrow> tx \<Rightarrow> block_working_set \<Rightarrow> bool" where
  "declares_tx b3 context t w \<longleftrightarrow> bws_inv w \<and> set (tx_coin_slots b3 context t) \<subseteq> dom (bws_coins w)
    \<and> set (tx_edge_slots b3 t) \<subseteq> dom (bws_edges w) \<and> set (tx_registry_slots b3 context t) \<subseteq> dom (bws_registry w)"

lemma begin_fields [simp]:
  "wb_coins (bws_begin w) = bws_coins w" "wb_edges (bws_begin w) = bws_edges w" "wb_registry (bws_begin w) = bws_registry w"
  by (simp_all add: bws_begin_def)

lemma slot_get_bws [simp]:
  "slot_get (bws_coins w) = bws_coin w" "slot_get (bws_edges w) = bws_edge w"
  "slot_get (bws_registry w) = bws_registry_chunk w"
  by (simp_all add: fun_eq_iff slot_get_def bws_coin_def bws_edge_def bws_registry_chunk_def)

lemma open_lease_wf:
  assumes "open_bond_lease b3 ops s context out terms = Ok d"
  shows "distinct (map rm_id d)"
  using push_mutations_wf assms
  by (auto simp: open_bond_lease_def Let_def and_then_eq_Ok ok_or_eq_Ok wf_registry_diff_def diff_empty_def
      split: terms_profile.splits if_splits)

lemma open_registry_slots:
  assumes "open_bond_lease b3 ops s context out terms = Ok d" "x \<in> set d"
  shows "rm_id x \<in> set (tx_registry_slots b3 context (TxOpen f terms ma ta))"
proof (cases "terms_profile_of terms")
  case (ProfileWorkPayment payment)
  let ?l = "lease_opened (wp_bond_edge payment) out (terms_hash_of terms)
    (wp_private_policy_commitment payment) (wp_admission_horizon payment)"
  from ProfileWorkPayment assms(1) obtain ms where
      l: "create_mutations b3 (ctx_network context) ?l = Some ms" "push_mutations ms = Ok d"
    by (auto simp: open_bond_lease_def Let_def and_then_eq_Ok ok_or_eq_Ok split: if_splits)
  from push_mutations_set [OF l(2)] assms(2) l(1) ProfileWorkPayment show ?thesis
    by (auto simp: create_mutations_def Let_def lease_slot_list_def mutation_write_def bind_eq_Some_conv lease_opened_def)
qed (use assms in \<open>simp_all add: open_bond_lease_def diff_empty_def\<close>)

lemma open_folds:
  assumes w: "declares_tx b3 context (TxOpen f terms ma ta) w"
    and a: "apply_open b3 vf wb_ops (bws_begin w) context f terms ma ta = Ok c"
  shows "\<exists>s'. change_fold wb_ops (bws_begin w) c = Ok s'"
proof -
  let ?out = "edge_id_from b3 f (terms_hash_of terms)" and ?s = "bws_begin w"
  from a obtain coins and debits :: open_debits and d where c: "c = change_with_registry (change_open coins (?out, od_edge debits)) d"
    and o: "distinct (funding_iter f)" "b_edge wb_ops ?s ?out = None" "map fst coins = funding_iter f"
      "\<forall>x \<in> set coins. b_coin wb_ops ?s (fst x) = Some (snd x)"
    and l: "open_bond_lease b3 wb_ops ?s context ?out terms = Ok d"
    by (rule apply_open_Ok) blast
  have inv: "wb_inv ?s" using w by (simp add: declares_tx_def)
  from wb_remove_coins_total [OF inv _ o(4)] o(1,3) obtain t where t: "remove_coins wb_ops ?s coins = Ok t"
    "wb_edges t = bws_edges w" "wb_registry t = bws_registry w" by auto
  have it: "wb_inv t" using ws.remove_coins_step [OF inv t(1)] by simp
  have "bws_edges w ?out = Some None"
    using w o(2) by (auto simp: declares_tx_def edge_id_of_def slot_get_def bind_eq_None_conv bws_edge_def)
  then obtain u where u: "insert_edge wb_ops t (?out, od_edge debits) = Ok u" "wb_registry u = bws_registry w"
    using t by (simp add: insert_edge_def wb_insert_edge_def slot_insert_def)
  have iu: "wb_inv u" using ws.insert_edge_step [OF it u(1)] by simp
  have "\<forall>m \<in> set d. rm_id m \<in> dom (wb_registry u)"
    using open_registry_slots [OF l] w unfolding u(2) declares_tx_def by blast
  moreover have "\<forall>m \<in> set d. rm_chunk m = None \<longrightarrow> b_registry_chunk wb_ops u (rm_id m) \<noteq> None"
    using open_bond_lease_chunks [OF l] by (metis option.distinct(1))
  ultimately have "\<exists>s'. diff_fold wb_ops u d = Ok s'" by (rule wb_diff_fold_total [OF iu open_lease_wf [OF l]])
  then show ?thesis using c t u by (auto simp: change_open_def)
qed

lemma close_folds:
  assumes w: "declares_tx b3 context (TxClose inp p outs) w" and d: "ids_apart b3 context (TxClose inp p outs)"
    and a: "apply_close b3 vf wb_ops (bws_begin w) context inp p outs = Ok c"
  shows "\<exists>s'. change_fold wb_ops (bws_begin w) c = Ok s'"
proof -
  let ?s = "bws_begin w"
  from a obtain e funded staged registry where
    c: "c = change_with_registry (change_close (inp, e) (close_coins b3 inp outs)) registry"
    and o: "check_close_outputs b3 wb_ops ?s inp outs = Ok ()" "b_edge wb_ops ?s inp = Some e"
    and p: "check_proof b3 vf wb_ops ?s context \<lparr>cs_input = inp, cs_edge = e, cs_total = funded, cs_outputs = outs\<rparr> p = Ok staged"
    and r: "push_mutations staged = Ok registry"
    by (rule apply_close_Ok)
  have inv: "wb_inv ?s" using w by (simp add: declares_tx_def)
  have ids: "map fst (close_coins b3 inp outs) = close_output_ids b3 inp outs"
    by (auto simp: close_coins_def close_output_ids_def close_coin_def)
  from o(2) obtain t where t: "remove_edge wb_ops ?s (inp, e) = Ok t" "wb_coins t = bws_coins w" "wb_registry t = bws_registry w"
    by (auto simp: remove_edge_def wb_remove_edge_def slot_remove_def slot_get_def bws_edge_def bind_eq_Some_conv)
  have it: "wb_inv t" using ws.remove_edge_step [OF inv t(1)] by simp
  have "\<forall>x \<in> set (close_coins b3 inp outs). fst x \<in> dom (wb_coins t) \<and> b_coin wb_ops t (fst x) = None"
    using w o(1) unfolding check_close_outputs_iff ids [symmetric] declares_tx_def by (auto simp: t(2) bws_coin_def slot_get_def ids [symmetric])
  from wb_insert_coins_total [OF it _ this] d obtain u where u: "insert_coins wb_ops t (close_coins b3 inp outs) = Ok u"
    "wb_registry u = bws_registry w" by (auto simp: ids_apart_def ids t(3))
  have iu: "wb_inv u" using ws.insert_coins_step [OF it u(1)] by simp
  note st = staged_present [OF p, where outs = outs]
  have slots: "set (tx_registry_slots b3 context (TxClose inp p outs)) \<subseteq> dom (wb_registry u)"
    using w unfolding u(2) declares_tx_def by blast
  have live: "b_registry_chunk wb_ops u = b_registry_chunk wb_ops ?s" by (simp add: u(2) fun_eq_iff bws_registry_chunk_def slot_get_def)
  have "\<forall>m \<in> set registry. rm_id m \<in> dom (wb_registry u)" "\<forall>m \<in> set registry. rm_chunk m = None \<longrightarrow> b_registry_chunk wb_ops u (rm_id m) \<noteq> None"
    using st slots push_mutations_set [OF r] unfolding live close_subject.select_convs by blast+
  then have "\<exists>s'. diff_fold wb_ops u registry = Ok s'"
    using wb_diff_fold_total [OF iu] push_mutations_wf [OF r] by (simp add: wf_registry_diff_def)
  then show ?thesis using c t u by (auto simp: change_close_def)
qed

lemma reshape_folds:
  assumes w: "declares_tx b3 context (TxOwner r) w" and d: "ids_apart b3 context (TxOwner r)"
    and a: "apply_reshape b3 vf wb_ops (bws_begin w) context r = Ok c"
  shows "\<exists>s'. change_fold wb_ops (bws_begin w) c = Ok s'"
proof -
  let ?s = "bws_begin w"
  from a obtain coins issued where c: "c = change_reshape coins issued"
    and o: "distinct (rs_inputs r)" "map fst coins = rs_inputs r" "\<forall>x \<in> set coins. b_coin wb_ops ?s (fst x) = Some (snd x)"
    and i: "reshape_coins b3 wb_ops ?s (ctx_network context) (rs_inputs r) (rs_outputs r) = Ok issued"
    by (rule apply_reshape_Ok)
  have inv: "wb_inv ?s" using w by (simp add: declares_tx_def)
  have ids: "map fst issued = reshape_output_ids b3 (ctx_network context) (rs_inputs r) (rs_outputs r)"
    unfolding reshape_coins_Ok(1) [OF i] by (simp add: reshape_output_ids_def case_prod_unfold)
  have decl: "fst ` set issued \<subseteq> dom (bws_coins w)"
    using w arg_cong [OF ids, of set] by (simp add: declares_tx_def)
  from wb_remove_coins_total [OF inv _ o(3)] o(1,2) obtain t where t: "remove_coins wb_ops ?s coins = Ok t"
    "dom (wb_coins t) = dom (bws_coins w)" "\<forall>i. slot_get (wb_coins t) i = (if i \<in> fst ` set coins then None else slot_get (bws_coins w) i)"
    by auto
  have it: "wb_inv t" using ws.remove_coins_step [OF inv t(1)] by simp
  have "\<forall>x \<in> set issued. fst x \<in> dom (wb_coins t) \<and> b_coin wb_ops t (fst x) = None"
    using reshape_coins_Ok(2) [OF i] decl t(2,3) by (auto simp: bws_coin_def slot_get_def)
  from wb_insert_coins_total [OF it _ this] d obtain u where "insert_coins wb_ops t issued = Ok u"
    by (auto simp: ids_apart_def ids)
  then show ?thesis using c t by (auto simp: change_reshape_def diff_fold_def diff_empty_def)
qed

text \<open>So a working set with the transaction's slots takes every transaction the kernel accepts, and refuses with the
  kernel's own verdict.\<close>

lemma accepted_folds:
  assumes "declares_tx b3 context t w" "ids_apart b3 context t" "tx_apply b3 vf wb_ops (bws_begin w) context t = Ok c"
  shows "\<exists>w'. state_apply b3 vf bws_store w context t = (Ok (change_outcome c), w')"
proof -
  have "\<exists>s'. change_fold wb_ops (bws_begin w) c = Ok s'"
  proof (cases t)
    case (TxMove m)
    let ?slot = "pending_payment_close_slot b3 (ctx_network context) (move_edge m)"
    from assms(3) TxMove obtain chunk where "c = change_private [mutation_write ?slot chunk]"
      by (cases m) (auto elim!: apply_start_Ok apply_response_Ok)
    with wb_diff_fold_total [of "bws_begin w" "[mutation_write ?slot chunk]"] assms(1) TxMove show ?thesis
      by (auto simp: change_private_def declares_tx_def mutation_write_def)
  qed (use assms open_folds close_folds reshape_folds in auto)
  then show ?thesis using assms(3) by (auto simp: state_apply_def fold_one_def fold_change_def)
qed

lemma state_apply_refused:
  assumes "declares_tx b3 context t w" "ids_apart b3 context t" "state_apply b3 vf bws_store w context t = (Err e, w')"
  shows "w' = w \<and> tx_apply b3 vf wb_ops (bws_begin w) context t = Err e \<and> user_error b3 wb_ops (bws_begin w) context t e"
proof (cases "tx_apply b3 vf wb_ops (bws_begin w) context t")
  case (Ok c)
  with accepted_folds [OF assms(1,2)] assms(3) show ?thesis by fastforce
next
  case (Err x)
  with assms(3) tx_apply_errors [OF assms(2), of wb_ops "bws_begin w" vf] show ?thesis
    by (simp add: state_apply_def fold_one_def errs_def)
qed

end
