(* ===== verification/Chain_Refinement.thy ===== *)
theory Chain_Refinement
  imports Chain_Ledger Kernel_Verdicts
begin

text \<open>Executing a transaction on the chain's database is one step of the kernel on the ledger it stands for.\<close>

section \<open>Writing a slot of the right kind\<close>

definition coin_slot :: "objects \<Rightarrow> object_id \<Rightarrow> bool" where
  "coin_slot m i \<longleftrightarrow> (\<exists>v. m i = coin_object v)"
definition edge_slot :: "objects \<Rightarrow> object_id \<Rightarrow> bool" where
  "edge_slot m i \<longleftrightarrow> (\<exists>v. m i = map_option ObjEdge v)"
definition chunk_slot :: "objects \<Rightarrow> object_id \<Rightarrow> bool" where
  "chunk_slot m i \<longleftrightarrow> (\<exists>v. m i = map_option ObjRegistryChunk v)"

lemma object_views [simp]:
  "object_coin (coin_object c) = c" "object_edge (coin_object c) = None" "object_chunk (coin_object c) = None"
  by (cases c; simp add: coin_object_def)+

lemma edge_views [simp]:
  "object_coin (map_option ObjEdge e) = None" "object_edge (map_option ObjEdge e) = e"
  "object_chunk (map_option ObjEdge e) = None"
  by (cases e; simp)+

lemma chunk_views [simp]:
  "object_coin (map_option ObjRegistryChunk k) = None" "object_edge (map_option ObjRegistryChunk k) = None"
  "object_chunk (map_option ObjRegistryChunk k) = k"
  by (cases k; simp)+

lemma write_coin_slot:
  "coin_slot m i \<Longrightarrow> object_ledger (m(i := coin_object v))
    = (object_ledger m)\<lparr>l_coins := (l_coins (object_ledger m))(i := v)\<rparr>"
  by (auto simp: object_ledger_def coin_slot_def fun_eq_iff)

lemma write_edge_slot:
  "edge_slot m i \<Longrightarrow> object_ledger (m(i := map_option ObjEdge v))
    = (object_ledger m)\<lparr>l_edges := (l_edges (object_ledger m))(i := v)\<rparr>"
  by (auto simp: object_ledger_def edge_slot_def fun_eq_iff)

lemma write_chunk_slot:
  "chunk_slot m i \<Longrightarrow> object_ledger (m(i := map_option ObjRegistryChunk v))
    = (object_ledger m)\<lparr>l_registry := (l_registry (object_ledger m))(i := v)\<rparr>"
  by (auto simp: object_ledger_def chunk_slot_def fun_eq_iff)

lemma empty_slots [simp]: "m i = None \<Longrightarrow> coin_slot m i" "m i = None \<Longrightarrow> edge_slot m i" "m i = None \<Longrightarrow> chunk_slot m i"
  by (auto simp: coin_slot_def edge_slot_def chunk_slot_def coin_object_def intro: exI [of _ None])

text \<open>The changes of an event, kind by kind.\<close>

lemma spend_objects:
  assumes "\<forall>i \<in> set ids. coin_slot m i"
  shows "object_ledger (apply_changes (map (\<lambda>i. (i, None)) ids) m)
      = (object_ledger m)\<lparr>l_coins := (\<lambda>i. if i \<in> set ids then None else l_coins (object_ledger m) i)\<rparr>
    \<and> (\<forall>k. apply_changes (map (\<lambda>i. (i, None)) ids) m k = (if k \<in> set ids then None else m k))"
  using assms
proof (induction ids arbitrary: m)
  case (Cons i ids)
  have "\<forall>j \<in> set ids. coin_slot (m(i := None)) j" using Cons.prems by (auto simp: coin_slot_def coin_object_def)
  note IH = Cons.IH [OF this]
  have "object_ledger (m(i := None)) = (object_ledger m)\<lparr>l_coins := (l_coins (object_ledger m))(i := None)\<rparr>"
    using write_coin_slot [of m i None] Cons.prems by (simp add: coin_object_def)
  with IH show ?case by (auto simp: fun_eq_iff fun_upd_def)
qed simp

lemma issue_objects:
  assumes "\<forall>x \<in> set coins. coin_slot m (fst x)" "distinct (map fst coins)"
  shows "object_ledger (apply_changes (map (\<lambda>x. (fst x, coin_object (Some (snd x)))) coins) m)
      = (object_ledger m)\<lparr>l_coins := l_coins (object_ledger m) ++ map_of coins\<rparr>
    \<and> (\<forall>k. k \<notin> fst ` set coins \<longrightarrow> apply_changes (map (\<lambda>x. (fst x, coin_object (Some (snd x)))) coins) m k = m k)"
  using assms
proof (induction coins arbitrary: m)
  case (Cons x coins)
  define m' where "m' = m(fst x := coin_object (Some (snd x)))"
  have "\<forall>y \<in> set coins. coin_slot m' (fst y)" and other: "\<And>k. k \<noteq> fst x \<Longrightarrow> m' k = m k"
    using Cons.prems by (auto simp: coin_slot_def m'_def)
  with Cons have IH: "object_ledger (apply_changes (map (\<lambda>x. (fst x, coin_object (Some (snd x)))) coins) m')
      = (object_ledger m')\<lparr>l_coins := l_coins (object_ledger m') ++ map_of coins\<rparr>"
    "\<forall>k. k \<notin> fst ` set coins \<longrightarrow> apply_changes (map (\<lambda>x. (fst x, coin_object (Some (snd x)))) coins) m' k = m' k"
    by auto
  have step: "object_ledger m' = (object_ledger m)\<lparr>l_coins := (l_coins (object_ledger m))(fst x \<mapsto> snd x)\<rparr>"
    using write_coin_slot [of m "fst x" "Some (snd x)"] Cons.prems by (simp add: m'_def)
  have "(l_coins (object_ledger m))(fst x \<mapsto> snd x) ++ map_of coins = l_coins (object_ledger m) ++ map_of (x # coins)"
    using Cons.prems(2) by (cases x) (simp add: map_add_upd_left dom_map_of_conv_image_fst)
  with IH step other show ?case by (simp add: m'_def [symmetric] del: map_of.simps)
qed simp

lemma registry_objects:
  assumes "\<forall>x \<in> set reg. chunk_slot m (rm_id x)"
  shows "object_ledger (apply_changes (registry_changes reg) m) = diff_spec reg (object_ledger m)"
  using assms
proof (induction reg arbitrary: m)
  case (Cons x reg)
  have "\<forall>y \<in> set reg. chunk_slot (m(rm_id x := map_option ObjRegistryChunk (rm_chunk x))) (rm_id y)"
    using Cons.prems by (auto simp: chunk_slot_def)
  from Cons.IH [OF this] write_chunk_slot [of m "rm_id x" "rm_chunk x"] Cons.prems show ?case
    by (simp add: registry_changes_def registry_chunk_object_id_def diff_spec_def fun_upd_def)
qed (simp add: registry_changes_def diff_spec_def)

lemma open_objects:
  assumes "\<forall>x \<in> set coins. coin_slot m (fst x)" "edge_slot m out"
    and "\<forall>x \<in> set reg. chunk_slot m (rm_id x) \<and> rm_id x \<noteq> out"
  shows "object_ledger (apply_changes (map (\<lambda>i. (i, None)) (map fst coins) @ (out, Some (ObjEdge e)) # registry_changes reg) m)
    = change_spec (Public ev (EffectOpen coins (out, e)) reg) (object_ledger m)"
proof -
  define m1 where "m1 = apply_changes (map (\<lambda>i. (i, None)) (map fst coins)) m"
  define m2 where "m2 = m1(out := map_option ObjEdge (Some e))"
  have m1: "object_ledger m1 = (object_ledger m)\<lparr>l_coins := spend coins (l_coins (object_ledger m))\<rparr>"
    "\<And>k. m1 k = (if k \<in> fst ` set coins then None else m k)"
    using spend_objects [of "map fst coins" m] assms(1) by (auto simp: m1_def spend_def)
  have "edge_slot m1 out" using assms(2) m1(2) [of out] by (auto simp: edge_slot_def split: if_splits)
  from write_edge_slot [OF this, of "Some e"] have m2: "object_ledger m2
      = (object_ledger m)\<lparr>l_coins := spend coins (l_coins (object_ledger m)), l_edges := (l_edges (object_ledger m))(out \<mapsto> e)\<rparr>"
    by (simp add: m2_def m1(1))
  have "\<forall>x \<in> set reg. chunk_slot m2 (rm_id x)"
    using assms(3) m1(2) by (auto simp: chunk_slot_def m2_def)
  moreover have "apply_changes (map (\<lambda>i. (i, None)) (map fst coins) @ (out, Some (ObjEdge e)) # registry_changes reg) m
      = apply_changes (registry_changes reg) m2"
    by (simp add: m1_def m2_def)
  ultimately show ?thesis using registry_objects [of reg m2] m2 by simp
qed

lemma ledger_update_commute: "l\<lparr>l_edges := x, l_coins := y\<rparr> = l\<lparr>l_coins := y, l_edges := x\<rparr>" for l :: ledger
  by (cases l) simp

lemma close_objects:
  assumes "edge_slot m inp" "\<forall>x \<in> set coins. coin_slot m (fst x)" "distinct (map fst coins)"
    and "\<forall>x \<in> set reg. chunk_slot m (rm_id x) \<and> rm_id x \<notin> fst ` set coins"
  shows "object_ledger (apply_changes ((inp, None) # map (\<lambda>x. (fst x, coin_object (Some (snd x)))) coins @ registry_changes reg) m)
    = change_spec (Public ev (EffectClose (inp, e) coins) reg) (object_ledger m)"
proof -
  define m1 where "m1 = m(inp := map_option ObjEdge None)"
  define m2 where "m2 = apply_changes (map (\<lambda>x. (fst x, coin_object (Some (snd x)))) coins) m1"
  note m1 = write_edge_slot [OF assms(1), of None, folded m1_def]
  have "\<forall>x \<in> set coins. coin_slot m1 (fst x)" using assms(2) by (auto simp: coin_slot_def m1_def coin_object_def)
  note m2 = issue_objects [OF this assms(3), folded m2_def]
  have "\<forall>x \<in> set reg. chunk_slot m2 (rm_id x)"
    using assms(4) m2 by (auto simp: chunk_slot_def m1_def)
  from registry_objects [OF this] show ?thesis
    by (simp add: m1_def [simplified, symmetric] m2_def [symmetric] m1 conjunct1 [OF m2]
      ledger_update_commute)
qed

lemma reshape_objects:
  assumes "\<forall>x \<in> set inputs. coin_slot m (fst x)" "\<forall>x \<in> set outputs. coin_slot m (fst x)" "distinct (map fst outputs)"
  shows "object_ledger (apply_changes (map (\<lambda>i. (i, None)) (map fst inputs)
      @ map (\<lambda>x. (fst x, coin_object (Some (snd x)))) outputs) m)
    = change_spec (Public ev (EffectReshape inputs outputs) []) (object_ledger m)"
proof -
  define m1 where "m1 = apply_changes (map (\<lambda>i. (i, None)) (map fst inputs)) m"
  have m1: "object_ledger m1 = (object_ledger m)\<lparr>l_coins := spend inputs (l_coins (object_ledger m))\<rparr>"
    "\<And>k. m1 k = (if k \<in> fst ` set inputs then None else m k)"
    using spend_objects [of "map fst inputs" m] assms(1) by (auto simp: m1_def spend_def)
  have "\<forall>x \<in> set outputs. coin_slot m1 (fst x)"
    using assms(2) m1(2) by (auto simp: coin_slot_def coin_object_def)
  from issue_objects [OF this assms(3)] m1(1) show ?thesis by (simp add: m1_def diff_spec_def)
qed

section \<open>The slots a change touches were loaded\<close>

text \<open>A working set keeps its slots: an operation fills and empties declared slots and declares none.\<close>

definition slots_kept :: "working_batch \<Rightarrow> working_batch \<Rightarrow> bool" where
  "slots_kept b0 b \<longleftrightarrow> wb_inv b \<and> dom (wb_coins b) = dom (wb_coins b0) \<and> dom (wb_edges b) = dom (wb_edges b0)
    \<and> dom (wb_registry b) = dom (wb_registry b0)"

lemma slot_remove_dom: "dom (snd (slot_remove m k)) = dom m"
  using slot_remove_result(3) [of m k "fst (slot_remove m k)" "snd (slot_remove m k)"] by simp

lemma wb_insert_slots:
  "wb_insert_coin s i c = Ok s' \<Longrightarrow> dom (wb_coins s') = dom (wb_coins s) \<and> wb_edges s' = wb_edges s \<and> wb_registry s' = wb_registry s"
  "wb_insert_edge s i e = Ok s' \<Longrightarrow> dom (wb_edges s') = dom (wb_edges s) \<and> wb_coins s' = wb_coins s \<and> wb_registry s' = wb_registry s"
  "wb_insert_registry_chunk s i k = Ok s' \<Longrightarrow>
    dom (wb_registry s') = dom (wb_registry s) \<and> wb_coins s' = wb_coins s \<and> wb_edges s' = wb_edges s"
  by (clarsimp simp: wb_op_defs and_then_eq_Ok; erule slot_insert_Ok(3))+

lemma wb_remove_slots:
  "wb_remove_coin s i = (c, s') \<Longrightarrow> dom (wb_coins s') = dom (wb_coins s) \<and> wb_edges s' = wb_edges s \<and> wb_registry s' = wb_registry s"
  "wb_remove_edge s i = (e, s') \<Longrightarrow> dom (wb_edges s') = dom (wb_edges s) \<and> wb_coins s' = wb_coins s \<and> wb_registry s' = wb_registry s"
  "wb_remove_registry_chunk s i = (k, s') \<Longrightarrow>
    dom (wb_registry s') = dom (wb_registry s) \<and> wb_coins s' = wb_coins s \<and> wb_edges s' = wb_edges s"
  by (clarsimp simp: wb_op_defs case_prod_unfold slot_remove_dom)+

lemma slots_kept_batch: "batch wb_ops (slots_kept b0)"
proof (unfold_locales, goal_cases)
  case (1 s) then show ?case using ws.finite_live [of s] by (simp add: slots_kept_def)
next
  case (2 s i c s') then show ?case
    using ws.insert_coin_Ok [of s i c s'] wb_insert_slots(1) [of s i c s'] by (auto simp: slots_kept_def)
next
  case (3 s i c z) then show ?case
    using ws.insert_coin_Err [of s i c z] by (auto simp: slots_kept_def)
next
  case (4 s i r s') then show ?case
    using ws.remove_coin_result [of s i r s'] wb_remove_slots(1) [of s i r s'] by (auto simp: slots_kept_def)
next
  case (5 s i c s') then show ?case
    using ws.insert_edge_Ok [of s i c s'] wb_insert_slots(2) [of s i c s'] by (auto simp: slots_kept_def)
next
  case (6 s i c z) then show ?case
    using ws.insert_edge_Err [of s i c z] by (auto simp: slots_kept_def)
next
  case (7 s i r s') then show ?case
    using ws.remove_edge_result [of s i r s'] wb_remove_slots(2) [of s i r s'] by (auto simp: slots_kept_def)
next
  case (8 s i c s') then show ?case
    using ws.insert_registry_Ok [of s i c s'] wb_insert_slots(3) [of s i c s'] by (auto simp: slots_kept_def)
next
  case (9 s i c z) then show ?case
    using ws.insert_registry_Err [of s i c z] by (auto simp: slots_kept_def)
next
  case (10 s i r s') then show ?case
    using ws.remove_registry_result [of s i r s'] wb_remove_slots(3) [of s i r s'] by (auto simp: slots_kept_def)
qed

lemma applied_slots:
  assumes "bws_inv w" "change_fold wb_ops (bws_begin w) c = Ok (bws_begin w')"
  shows "dom (bws_coins w') = dom (bws_coins w)" "dom (bws_edges w') = dom (bws_edges w)"
    "dom (bws_registry w') = dom (bws_registry w)"
proof -
  have "slots_kept (bws_begin w) (bws_begin w)" using assms(1) by (simp add: slots_kept_def)
  from batch.change_step [OF slots_kept_batch this assms(2)]
  show "dom (bws_coins w') = dom (bws_coins w)" "dom (bws_edges w') = dom (bws_edges w)"
    "dom (bws_registry w') = dom (bws_registry w)"
    by (simp_all add: slots_kept_def bws_begin_def)
qed

lemma diff_fold_deleted:
  assumes "wb_inv s" "diff_fold wb_ops s ms = Ok s'" "distinct (map rm_id ms)" "x \<in> set ms" "rm_chunk x = None"
  shows "b_registry_chunk wb_ops s (rm_id x) \<noteq> None"
  using assms
proof (induction ms arbitrary: s)
  case (Cons y ms)
  then obtain t where t: "mutation_fold wb_ops s y = Ok t" "diff_fold wb_ops t ms = Ok s'"
    by (auto simp: diff_fold_def and_then_eq_Ok)
  note step = ws.mutation_step [OF Cons.prems(1) t(1)]
  show ?case
  proof (cases "x = y")
    case False
    with Cons.prems(3,4) have "rm_id x \<noteq> rm_id y" by (auto simp: image_iff)
    with Cons.IH [OF _ t(2)] step Cons.prems False show ?thesis by auto
  qed (use step Cons.prems in auto)
qed simp

lemma bws_live_declared:
  "bws_coin w i \<noteq> None \<Longrightarrow> i \<in> dom (bws_coins w)" "bws_edge w j \<noteq> None \<Longrightarrow> j \<in> dom (bws_edges w)"
  "bws_registry_chunk w k \<noteq> None \<Longrightarrow> k \<in> dom (bws_registry w)"
  by (auto simp: bws_coin_def bws_edge_def bws_registry_chunk_def bind_eq_Some_conv)

lemma registry_declared:
  assumes inv: "bws_inv w" and f: "change_fold wb_ops (bws_begin w) c = Ok (bws_begin w')"
    and coh: "change_coherent c" and x: "x \<in> set (change_registry c)"
  shows "rm_id x \<in> dom (bws_registry w) \<and> (rm_chunk x = None \<longrightarrow> bws_registry_chunk w (rm_id x) \<noteq> None)"
proof -
  have "bws_registry_chunk w (rm_id x) \<noteq> None" if "rm_chunk x = None"
  proof (cases c)
    case (Public ev eff reg)
    with f obtain t where t: "effect_fold wb_ops (bws_begin w) eff = Ok t" "diff_fold wb_ops t reg = Ok (bws_begin w')"
      by (auto simp: and_then_eq_Ok)
    note step = ws.effect_step [OF _ t(1)]
    have "b_registry_chunk wb_ops t = bws_registry_chunk w"
      using step inv by (cases eff) (simp_all add: ledger_of_def del: wb_ops_simps(7))
    with diff_fold_deleted [OF _ t(2)] step inv that x coh Public show ?thesis
      by (auto simp: wf_registry_diff_def simp del: wb_ops_simps)
  next
    case (Private reg)
    with diff_fold_deleted [of "bws_begin w" reg "bws_begin w'" x] f inv that x coh show ?thesis
      by (auto simp: wf_registry_diff_def)
  qed
  moreover have "rm_id x \<in> dom (bws_registry w)" if "rm_chunk x \<noteq> None"
  proof -
    have "ws_ledger w' = change_spec c (ws_ledger w)"
      using ws.change_step [OF _ f] inv by (simp add: ws_ledger_def)
    from arg_cong [OF this, of l_registry] change_spec_registry(1) [OF coh x, of "ws_ledger w"] that
    have "bws_registry_chunk w' (rm_id x) \<noteq> None" by simp
    then show ?thesis using applied_slots(3) [OF inv f] bws_live_declared(3) by blast
  qed
  ultimately show ?thesis using bws_live_declared(3) by blast
qed

lemma effect_live:
  assumes "bws_inv w" "change_fold wb_ops (bws_begin w) (Public ev eff reg) = Ok s'"
  shows "case eff of
      EffectOpen coins e \<Rightarrow> \<forall>x \<in> set coins. bws_coin w (fst x) \<noteq> None
    | EffectClose e coins \<Rightarrow> bws_edge w (fst e) \<noteq> None \<and> distinct (map fst coins)
    | EffectReshape inputs outputs \<Rightarrow> (\<forall>x \<in> set inputs. bws_coin w (fst x) \<noteq> None) \<and> distinct (map fst outputs)"
proof (cases eff)
  case (EffectOpen coins e)
  with assms ws.remove_coins_step [of "bws_begin w" coins] show ?thesis by (auto simp: and_then_eq_Ok)
next
  case (EffectClose e coins)
  with assms(2) obtain t u where t: "remove_edge wb_ops (bws_begin w) e = Ok t" "insert_coins wb_ops t coins = Ok u"
    by (auto simp: and_then_eq_Ok)
  note r = ws.remove_edge_step [OF _ t(1)]
  with ws.insert_coins_step [OF _ t(2)] assms(1) EffectClose show ?thesis by simp
next
  case (EffectReshape inputs outputs)
  with assms(2) obtain t u where t: "remove_coins wb_ops (bws_begin w) inputs = Ok t" "insert_coins wb_ops t outputs = Ok u"
    by (auto simp: and_then_eq_Ok)
  note r = ws.remove_coins_step [OF _ t(1)]
  with ws.insert_coins_step [OF _ t(2)] assms(1) EffectReshape show ?thesis by auto
qed

section \<open>The registry writes of a transaction\<close>

definition tx_apart :: "blake3 \<Rightarrow> ctx \<Rightarrow> tx \<Rightarrow> bool" where
  "tx_apart b3 context t \<longleftrightarrow>
    (case t of TxOpen f terms _ _ \<Rightarrow> edge_id_of b3 f terms \<notin> set (tx_registry_slots b3 context t) | _ \<Rightarrow> True)"

text \<open>Which registry writes come with which effect: an open writes lease slots, a close only deletes, a reshape has none.\<close>

lemma tx_registry_writes:
  assumes "tx_apply b3 vf ops s context t = Ok (Public ev eff reg)"
  shows "case eff of
      EffectOpen coins e \<Rightarrow> tx_apart b3 context t \<longrightarrow> fst e \<notin> rm_id ` set reg
    | EffectClose e coins \<Rightarrow> \<forall>x \<in> set reg. rm_chunk x = None
    | EffectReshape inputs outputs \<Rightarrow> reg = []"
proof (cases t)
  case (TxOpen f terms ma ta)
  from assms TxOpen have "apply_open b3 vf ops s context f terms ma ta = Ok (Public ev eff reg)" by simp
  then obtain coins and debits :: open_debits and d where "Public ev eff reg = change_with_registry (change_open coins
      (edge_id_from b3 f (terms_hash_of terms), od_edge debits)) d"
    "open_bond_lease b3 ops s context (edge_id_from b3 f (terms_hash_of terms)) terms = Ok d"
    by (rule apply_open_Ok) blast
  moreover from this(2) have "rm_id ` set d \<subseteq> set (tx_registry_slots b3 context t)"
    unfolding TxOpen by (intro image_subsetI) (rule open_registry_slots)
  ultimately show ?thesis using TxOpen by (auto simp: change_open_def tx_apart_def edge_id_of_def)
next
  case (TxClose inp p outs)
  from assms TxClose have "apply_close b3 vf ops s context inp p outs = Ok (Public ev eff reg)" by simp
  then obtain e funded staged registry where
    "Public ev eff reg = change_with_registry (change_close (inp, e) (close_coins b3 inp outs)) registry"
    and p: "check_proof b3 vf ops s context \<lparr>cs_input = inp, cs_edge = e, cs_total = funded, cs_outputs = outs\<rparr> p = Ok staged"
    and r: "push_mutations staged = Ok registry"
    by (rule apply_close_Ok)
  with check_proof_staged(1) [OF p] push_mutations_set [OF r] show ?thesis by (simp add: change_close_def)
next
  case (TxMove m)
  with assms show ?thesis
    by (cases m) (auto elim!: apply_start_Ok apply_response_Ok simp: change_private_def)
next
  case (TxOwner r)
  with assms show ?thesis by (auto elim!: apply_reshape_Ok simp: change_reshape_def diff_empty_def)
qed

section \<open>The refinement\<close>

lemma loaded_slots:
  assumes "loaded_from db d w"
  shows "i \<in> dom (bws_coins w) \<Longrightarrow> coin_slot (db_objects db d) i"
    and "j \<in> dom (bws_edges w) \<Longrightarrow> edge_slot (db_objects db d) j"
    and "k \<in> dom (bws_registry w) \<Longrightarrow> chunk_slot (db_objects db d) k"
  using loaded_objects [OF assms] by (auto simp: coin_slot_def edge_slot_def chunk_slot_def)

lemma state_apply_change:
  assumes "bws_inv w" "state_apply b3 vf bws_store w context t = (Ok outcome, w')"
  obtains c where "tx_apply b3 vf wb_ops (bws_begin w) context t = Ok c" "outcome = change_outcome c"
    "change_fold wb_ops (bws_begin w) c = Ok (bws_begin w')" "ws_ledger w' = change_spec c (ws_ledger w)" "change_coherent c"
proof -
  from assms(2) obtain c where c: "tx_apply b3 vf wb_ops (bws_begin w) context t = Ok c"
    "change_fold wb_ops (bws_begin w) c = Ok (bws_begin w')" "outcome = change_outcome c"
    by (rule state_apply_Ok)
  show thesis
    using that [OF c(1,3,2)] ws.change_step [OF _ c(2)] assms(1) tx_apply_balance(1) [OF c(1)] by (simp add: ws_ledger_def)
qed

lemma issued_values:
  assumes "ws_ledger w' = change_spec c (ws_ledger w)" "c = Public ev eff reg"
  shows "eff = EffectOpen coins (out, e) \<Longrightarrow> bws_edge w' out = Some e"
    and "eff = EffectClose ee coins \<Longrightarrow> distinct (map fst coins) \<Longrightarrow> x \<in> set coins \<Longrightarrow> bws_coin w' (fst x) = Some (snd x)"
    and "eff = EffectReshape inputs coins \<Longrightarrow> distinct (map fst coins) \<Longrightarrow> x \<in> set coins \<Longrightarrow> bws_coin w' (fst x) = Some (snd x)"
  using arg_cong [OF assms(1), of l_edges] arg_cong [OF assms(1), of l_coins] assms(2)
  by (auto simp: diff_spec_def map_add_Some_iff map_of_eq_Some_iff)

lemma issued_changes:
  assumes "\<forall>x \<in> set coins. bws_coin w (fst x) = Some (snd x)"
  shows "event_changes w (EdgeClosed inp (map fst coins)) = (inp, None) # map (\<lambda>x. (fst x, coin_object (Some (snd x)))) coins"
    and "event_changes w (CoinsReshaped ids (map fst coins))
      = map (\<lambda>i. (i, None)) ids @ map (\<lambda>x. (fst x, coin_object (Some (snd x)))) coins"
  using assms by (auto simp: coin_object_id_def edge_object_id_def coin_object_def)

text \<open>The three effects, with what the loaded slots and the fold guarantee.\<close>

definition host_change ::
  "blake3 \<Rightarrow> verifier \<Rightarrow> 'd object_db \<Rightarrow> 'd \<Rightarrow> ctx \<Rightarrow> tx \<Rightarrow> block_working_set \<Rightarrow> block_working_set \<Rightarrow> change \<Rightarrow> bool" where
  "host_change b3 vf db d context t w w' c \<longleftrightarrow> loaded_from db d w
    \<and> tx_apply b3 vf wb_ops (bws_begin w) context t = Ok c \<and> change_fold wb_ops (bws_begin w) c = Ok (bws_begin w')
    \<and> ws_ledger w' = change_spec c (ws_ledger w) \<and> change_coherent c \<and> tx_apart b3 context t"

lemma host_change_slots:
  assumes "host_change b3 vf db d context t w w' c"
  shows "x \<in> set (change_registry c) \<Longrightarrow> chunk_slot (db_objects db d) (rm_id x)"
    and "x \<in> set (change_registry c) \<Longrightarrow> rm_chunk x = None \<Longrightarrow> object_chunk (db_objects db d (rm_id x)) \<noteq> None"
    and "bws_coin w i \<noteq> None \<or> bws_coin w' i \<noteq> None \<Longrightarrow> coin_slot (db_objects db d) i"
    and "bws_edge w j \<noteq> None \<or> bws_edge w' j \<noteq> None \<Longrightarrow> edge_slot (db_objects db d) j"
proof -
  have load: "loaded_from db d w" and inv: "bws_inv w"
    and f: "change_fold wb_ops (bws_begin w) c = Ok (bws_begin w')" and coh: "change_coherent c"
    using assms by (auto simp: host_change_def loaded_from_def)
  note slots = loaded_slots [OF load] and doms = applied_slots [OF inv f] and reg = registry_declared [OF inv f coh]
  show "x \<in> set (change_registry c) \<Longrightarrow> chunk_slot (db_objects db d) (rm_id x)" using reg slots(3) by blast
  show "object_chunk (db_objects db d (rm_id x)) \<noteq> None" if "x \<in> set (change_registry c)" "rm_chunk x = None"
    using reg [OF that(1)] that(2) loaded_reads(3) [OF load, of "rm_id x"] by (simp add: db_ledger_def object_ledger_def)
  show "bws_coin w i \<noteq> None \<or> bws_coin w' i \<noteq> None \<Longrightarrow> coin_slot (db_objects db d) i"
    using slots(1) doms(1) bws_live_declared(1) by metis
  show "bws_edge w j \<noteq> None \<or> bws_edge w' j \<noteq> None \<Longrightarrow> edge_slot (db_objects db d) j"
    using slots(2) doms(2) bws_live_declared(2) by metis
qed

lemma host_change_effect:
  assumes "host_change b3 vf db d context t w w' (Public ev eff reg)"
  shows "case eff of
      EffectOpen coins e \<Rightarrow> (\<forall>x \<in> set coins. bws_coin w (fst x) \<noteq> None) \<and> bws_edge w' (fst e) = Some (snd e)
        \<and> fst e \<notin> rm_id ` set reg
    | EffectClose e coins \<Rightarrow> bws_edge w (fst e) \<noteq> None \<and> distinct (map fst coins)
        \<and> (\<forall>x \<in> set coins. bws_coin w' (fst x) = Some (snd x)) \<and> (\<forall>x \<in> set reg. rm_chunk x = None)
    | EffectReshape inputs outputs \<Rightarrow> (\<forall>x \<in> set inputs. bws_coin w (fst x) \<noteq> None) \<and> distinct (map fst outputs)
        \<and> (\<forall>x \<in> set outputs. bws_coin w' (fst x) = Some (snd x)) \<and> reg = []"
proof -
  have inv: "bws_inv w" and f: "change_fold wb_ops (bws_begin w) (Public ev eff reg) = Ok (bws_begin w')"
    and tx: "tx_apply b3 vf wb_ops (bws_begin w) context t = Ok (Public ev eff reg)"
    and l: "ws_ledger w' = change_spec (Public ev eff reg) (ws_ledger w)" and apart: "tx_apart b3 context t"
    using assms by (auto simp: host_change_def loaded_from_def)
  note e = effect_live [OF inv f] and r = tx_registry_writes [OF tx] and v = issued_values [OF l refl]
  show ?thesis using e r apart v by (cases eff) auto
qed

lemma outcome_refines:
  assumes h: "host_change b3 vf db d context t w w' c"
  shows "object_ledger (apply_changes (outcome_changes w' (change_outcome c)) (db_objects db d)) = change_spec c (db_ledger db d)"
proof (cases c)
  case (Private r)
  with registry_objects [of r "db_objects db d"] host_change_slots(1) [OF h] show ?thesis
    by (auto simp: outcome_changes_def registry_changes_def db_ledger_def)
next
  case (Public ev eff r)
  note e = host_change_effect [OF h [unfolded Public]] and slot = host_change_slots [OF h]
  have coh: "event_announces (ev_kind ev) eff" using h Public by (simp add: host_change_def)
  have chunk: "\<forall>x \<in> set r. chunk_slot (db_objects db d) (rm_id x)" using slot(1) Public by simp
  show ?thesis
  proof (cases eff)
    case (EffectOpen coins oe)
    obtain out ed where oe: "oe = (out, ed)" by fastforce
    have "\<forall>x \<in> set coins. coin_slot (db_objects db d) (fst x)" "edge_slot (db_objects db d) out"
      using e EffectOpen oe slot(3,4) by auto
    with open_objects [of coins "db_objects db d" out r ed ev] chunk e coh Public EffectOpen oe show ?thesis
      by (cases "ev_kind ev") (auto simp: outcome_changes_def registry_changes_def db_ledger_def
        coin_object_id_def edge_object_id_def)
  next
    case (EffectClose ie coins)
    obtain inp ed where ie: "ie = (inp, ed)" by fastforce
    have cs: "\<forall>x \<in> set coins. coin_slot (db_objects db d) (fst x)" "edge_slot (db_objects db d) inp"
      using e EffectClose ie slot(3,4) by auto
    have "\<forall>x \<in> set r. rm_id x \<notin> fst ` set coins"
      using cs(1) slot(2) e Public EffectClose by (fastforce simp: coin_slot_def)
    with close_objects [of "db_objects db d" inp coins r ev ed] chunk cs e coh Public EffectClose ie show ?thesis
      by (cases "ev_kind ev") (simp_all add: outcome_changes_def registry_changes_def db_ledger_def issued_changes
        del: event_changes.simps)
  next
    case (EffectReshape inputs coins)
    have "\<forall>x \<in> set inputs. coin_slot (db_objects db d) (fst x)" "\<forall>x \<in> set coins. coin_slot (db_objects db d) (fst x)"
      using e EffectReshape slot(3) by auto
    with reshape_objects [of inputs "db_objects db d" coins ev] e coh Public EffectReshape show ?thesis
      by (cases "ev_kind ev") (simp_all add: outcome_changes_def db_ledger_def issued_changes del: event_changes.simps)
  qed
qed

text \<open>The change behind an accepted transaction.\<close>

lemma accepted_change:
  assumes laws: "db_laws db" and apart: "tx_apart b3 context t"
    and tx: "apply_kernel_transaction_observed b3 vf sha db d context t changes = ((Ok (), d'), changes')"
  obtains w w' c where "check_open context t = Ok ()" "load_kernel_slots b3 db d context t = Ok w"
    "host_change b3 vf db d context t w w' c"
    "tx_apply b3 vf ledger_ops (db_ledger db d) context t = Ok c"
    "db_objects db d' = apply_changes (outcome_changes w' (change_outcome c)) (db_objects db d)"
    "db_ledger db d' = change_spec c (db_ledger db d)"
    "changes' = map_option (\<lambda>cs. cs @ outcome_changes w' (change_outcome c)) changes"
proof -
  from tx obtain w w' outcome d1 where 1: "check_open context t = Ok ()" "load_kernel_slots b3 db d context t = Ok w"
    and 2: "state_apply b3 vf bws_store w context t = (Ok outcome, w')"
    and 3: "(case ao_public_event outcome of Some ev \<Rightarrow> replay_kernel_event db sha d w' (ev_kind ev) | None \<Rightarrow> (Ok (), d)) = (Ok (), d1)"
      "replay_kernel_registry db d1 w' (ao_registry outcome) = (Ok (), d')"
    and 4: "changes' = map_option (\<lambda>cs. cs @ outcome_changes w' outcome) changes"
    by (rule observed_Ok)
  have load: "tx_loaded b3 db d context t w" using load_kernel_slots_Ok [OF 1(2)] .
  then have l: "loaded_from db d w" "bws_inv w" by (auto simp: tx_loaded_def loaded_from_def)
  from l(2) 2 obtain c where c: "tx_apply b3 vf wb_ops (bws_begin w) context t = Ok c" "outcome = change_outcome c"
    "change_fold wb_ops (bws_begin w) c = Ok (bws_begin w')" "ws_ledger w' = change_spec c (ws_ledger w)" "change_coherent c"
    by (rule state_apply_change)
  have h: "host_change b3 vf db d context t w w' c" using l(1) c apart by (simp add: host_change_def)
  note objects = outcome_objects(1) [OF laws 3, unfolded c(2)]
  have "db_ledger db d' = change_spec c (db_ledger db d)"
    using outcome_refines [OF h] by (simp add: db_ledger_def objects)
  moreover have "tx_apply b3 vf ledger_ops (db_ledger db d) context t = Ok c"
    using tx_apply_reads [OF loaded_agrees [OF load]] c(1) by simp
  ultimately show thesis using that [OF 1 h _ objects] 4 c(2) by simp
qed

end
