(* ===== verification/Chain_Blocks.thy ===== *)
theory Chain_Blocks
  imports Chain_Refinement "HOL-Library.Multiset" "HOL-Library.Sublist"
begin

text \<open>Errors, proposals and whole blocks: a refused transaction leaves no trace, a proposal contains exactly what
  re-executes, and the changes reported for a block are the changes of the database.\<close>

section \<open>Refused transactions\<close>

fun is_storage :: "execution_error \<Rightarrow> bool" where
  "is_storage (Storage _) = True"
| "is_storage _ = False"

lemma errs_and_store:
  assumes "errs P (fst m)" "\<And>x s. m = (Ok x, s) \<Longrightarrow> errs P (fst (k x s))"
  shows "errs P (fst (and_store m k))"
  using assms by (cases m; cases "fst m") (auto simp: and_store_def)

lemma errs_for_each:
  assumes "\<And>x d. x \<in> set xs \<Longrightarrow> errs P (fst (f x d))"
  shows "errs P (fst (for_each f xs d))"
  using assms by (induction xs arbitrary: d) (auto intro!: errs_and_store)

lemma errs_store_err: "(\<And>e. P (f e)) \<Longrightarrow> errs P (fst (store_err f m))"
  by (cases "fst m") (simp_all add: store_err_def)

lemma errs_mono: "errs P r \<Longrightarrow> (\<And>e. P e \<Longrightarrow> Q e) \<Longrightarrow> errs Q r"
  by (simp add: errs_def)

lemma storage_fatal: "is_storage e \<Longrightarrow> is_fatal_storage e"
  by (cases e) simp_all

text \<open>A write fails only with a storage error, and the replay of a change fails otherwise only if the working set
  does not hold what the change says.\<close>

lemma write_owned_errs: "errs is_storage (fst (write_owned db sha d i v))"
  unfolding write_owned_def
proof (rule errs_and_store, goal_cases)
  case 1
  show ?case by (cases "db_get db d i") (simp_all add: pure_store_def)
next
  case (2 old s)
  show ?case by (auto intro!: errs_and_store errs_for_each errs_store_err split: prod.split)
qed

lemma replay_event_errs:
  assumes "\<And>e. is_storage e \<Longrightarrow> P e" "event_replayed w ev \<or> (\<forall>x. P (KernelHostContract x))"
  shows "errs P (fst (replay_kernel_event db sha d w ev))"
proof -
  note wr = errs_mono [OF write_owned_errs assms(1)]
  have spent: "errs P (fst (replay_spent db sha w ids d))"
    if "(\<forall>i \<in> set ids. bws_coin w i = None) \<or> (\<forall>x. P (KernelHostContract x))" for ids d
    unfolding replay_spent_def using that by (auto intro!: errs_for_each wr)
  have issued: "errs P (fst (replay_issued db sha w ids d))"
    if "(\<forall>i \<in> set ids. bws_coin w i \<noteq> None) \<or> (\<forall>x. P (KernelHostContract x))" for ids d
    unfolding replay_issued_def using that by (auto intro!: errs_for_each wr split: option.split)
  show ?thesis
    using assms(2) by (cases ev) (auto intro!: errs_and_store spent issued wr split: option.split)
qed

lemma replay_registry_errs:
  assumes "(\<forall>m \<in> set ms. bws_registry_chunk w (rm_id m) = rm_chunk m) \<or> (\<forall>x. P (KernelHostContract x))"
  shows "errs P (fst (replay_kernel_registry db d w ms))"
  unfolding replay_kernel_registry_def using assms by (auto intro!: errs_for_each)

lemma replay_errs:
  assumes "\<And>e. is_storage e \<Longrightarrow> P e"
    and "(\<forall>ev. ao_public_event outcome = Some ev \<longrightarrow> event_replayed w (ev_kind ev))
      \<and> (\<forall>m \<in> set (ao_registry outcome). bws_registry_chunk w (rm_id m) = rm_chunk m) \<or> (\<forall>x. P (KernelHostContract x))"
  shows "errs P (fst (and_store (case ao_public_event outcome of Some ev \<Rightarrow> replay_kernel_event db sha d w (ev_kind ev) | None \<Rightarrow> (Ok (), d))
        (\<lambda>_ d. replay_kernel_registry db d w (ao_registry outcome))))"
proof (rule errs_and_store, goal_cases)
  case 1
  show ?case using assms(2) by (cases "ao_public_event outcome") (auto intro: replay_event_errs [OF assms(1)])
next
  case (2 x s)
  show ?case by (rule replay_registry_errs) (use assms(2) in auto)
qed

text \<open>The cases of a refused transaction.\<close>

lemma observed_Err:
  assumes "apply_kernel_transaction_observed b3 vf sha db d context t changes = ((Err e, d'), changes')"
  obtains "check_open context t = Err e" "d' = d"
  | "check_open context t = Ok ()" "load_kernel_slots b3 db d context t = Err e" "d' = d"
  | w w' source where "check_open context t = Ok ()" "load_kernel_slots b3 db d context t = Ok w"
      "state_apply b3 vf bws_store w context t = (Err source, w')" "e = classify_kernel_error w' source" "d' = d"
  | w w' outcome where "load_kernel_slots b3 db d context t = Ok w"
      "state_apply b3 vf bws_store w context t = (Ok outcome, w')"
      "and_store (case ao_public_event outcome of Some ev \<Rightarrow> replay_kernel_event db sha d w' (ev_kind ev) | None \<Rightarrow> (Ok (), d))
        (\<lambda>_ d. replay_kernel_registry db d w' (ao_registry outcome)) = (Err e, d')"
  using assms unfolding apply_kernel_transaction_observed_def
  by (auto split: result.splits prod.splits)

lemma refused_unchanged:
  assumes "apply_kernel_transaction_observed b3 vf sha db d context t changes = ((Err e, d'), changes')"
    and "\<not> is_fatal_storage e"
  shows "d' = d"
  using assms(1)
proof (cases rule: observed_Err)
  case (4 w w' outcome)
  with replay_errs [where P = is_fatal_storage and w = w' and outcome = outcome and db = db and sha = sha and d = d] assms(2) show ?thesis by (simp add: storage_fatal)
qed simp_all

lemma apply_transaction_observed:
  "apply_transaction b3 vf sha db context (Kernel t) d = fst (apply_kernel_transaction_observed b3 vf sha db d context t cs)"
  unfolding apply_transaction.simps apply_kernel_transaction_def apply_kernel_transaction_observed_def
  by (auto split: result.splits prod.splits)

section \<open>What a refusal says\<close>

lemma check_open_Err:
  "check_open context t = Err e \<longleftrightarrow> (\<exists>f terms ma ta. t = TxOpen f terms ma ta
    \<and> e = EdgeLifetimeExceeded (saturating_sub (terms_timeout terms) (ctx_block_height context)) MAX_EDGE_LIFETIME_BLOCKS
    \<and> MAX_EDGE_LIFETIME_BLOCKS < saturating_sub (terms_timeout terms) (ctx_block_height context))"
  by (auto simp: check_open_def Let_def split: tx.split)

text \<open>Loading fails because a read fails or because a slot holds an object of another kind.\<close>

definition load_error :: "'d object_db \<Rightarrow> 'd \<Rightarrow> execution_error \<Rightarrow> bool" where
  "load_error db d e \<longleftrightarrow> is_storage e \<or> (\<exists>i expected obj. e = WrongObjectKind i expected (object_kind_of obj)
    \<and> db_get db d i = Ok (Some obj) \<and> object_kind_of obj \<noteq> expected)"

lemma load_slot_errs:
  "errs (load_error db d) (load_coin_slot db d w i)" "errs (load_error db d) (load_edge_slot db d w i)"
  "errs (load_error db d) (load_registry_chunk_slot db d w i)"
  by (cases "db_get db d i" rule: get_cases;
    simp add: load_coin_slot_def load_edge_slot_def load_registry_chunk_slot_def load_error_def
      coin_object_id_def edge_object_id_def registry_chunk_object_id_def)+

lemma load_errs: "errs (load_error db d) (load_kernel_slots b3 db d context t)"
  by (cases t) (auto simp: Let_def intro!: errs_and_then errs_try_fold load_slot_errs
    split: terms_profile.split close_proof.split option.split move.split)

lemma reshape_issues_new:
  assumes "tx_apply b3 vf ops s context t = Ok (Public ev (EffectReshape inputs outputs) reg)" "x \<in> set outputs"
  shows "b_coin ops s (fst x) = None"
proof (cases t)
  case (TxOwner r)
  with assms(1) have "apply_reshape b3 vf ops s context r = Ok (Public ev (EffectReshape inputs outputs) reg)" by simp
  then obtain coins issued where "Public ev (EffectReshape inputs outputs) reg = change_reshape coins issued"
    "reshape_coins b3 ops s (ctx_network context) (rs_inputs r) (rs_outputs r) = Ok issued" by (rule apply_reshape_Ok)
  with reshape_coins_Ok(2) assms(2) show ?thesis by (fastforce simp: change_reshape_def)
next
  case (TxMove m)
  with assms(1) show ?thesis by (cases m) (auto elim!: apply_start_Ok apply_response_Ok simp: change_private_def)
qed (use assms(1) in \<open>auto elim!: apply_open_Ok apply_close_Ok simp: change_open_def change_close_def\<close>)

text \<open>An accepted change leaves the working set holding what it says.\<close>

lemma change_replayed:
  assumes inv: "bws_inv w" and tx: "tx_apply b3 vf wb_ops (bws_begin w) context t = Ok c"
    and f: "change_fold wb_ops (bws_begin w) c = Ok (bws_begin w')"
    and l: "ws_ledger w' = change_spec c (ws_ledger w)" and coh: "change_coherent c"
  shows "(\<forall>ev. ao_public_event (change_outcome c) = Some ev \<longrightarrow> event_replayed w' (ev_kind ev))
    \<and> (\<forall>m \<in> set (ao_registry (change_outcome c)). bws_registry_chunk w' (rm_id m) = rm_chunk m)"
proof -
  have "\<forall>m \<in> set (change_registry c). bws_registry_chunk w' (rm_id m) = rm_chunk m"
    using change_spec_registry(1) [OF coh, of _ "ws_ledger w"] arg_cong [OF l, of l_registry] by simp
  moreover have "event_replayed w' (ev_kind ev)" if c: "c = Public ev eff reg" for ev eff reg
  proof -
    note v = issued_values [OF l c] and e = effect_live [OF inv f [unfolded c]]
    have ev: "event_announces (ev_kind ev) eff" using coh c by simp
    have m: "bws_coin w' = l_coins (change_spec c (ws_ledger w))" "bws_edge w' = l_edges (change_spec c (ws_ledger w))"
      using l by (simp_all flip: l)
    show ?thesis
    proof (cases eff)
      case (EffectOpen coins e)
      with m ev c show ?thesis by (cases "ev_kind ev"; cases e) (auto simp: diff_spec_def spend_def)
    next
      case (EffectClose ee coins)
      with m ev c v(2) e show ?thesis by (cases "ev_kind ev"; cases ee) (auto simp: diff_spec_def)
    next
      case (EffectReshape inputs outputs)
      have "\<forall>x \<in> set outputs. bws_coin w (fst x) = None"
        using reshape_issues_new [OF tx [unfolded c EffectReshape]] by simp
      with e EffectReshape have "fst ` set inputs \<inter> fst ` set outputs = {}" by fastforce
      then have "\<forall>i \<in> fst ` set inputs. map_of outputs i = None" by (auto simp: map_of_eq_None_iff)
      with m ev c EffectReshape v(3) e show ?thesis
        by (cases "ev_kind ev") (auto simp: diff_spec_def spend_def map_add_None)
    qed
  qed
  ultimately show ?thesis by (cases c) auto
qed

lemma tx_loaded_declares: "tx_loaded b3 db d context t w \<Longrightarrow> declares_tx b3 context t w"
  by (simp add: tx_loaded_def loaded_from_def declares_def declares_tx_def)

lemma ids_apart_tx_apart: "ids_apart b3 context t \<Longrightarrow> tx_apart b3 context t"
  by (auto simp: ids_apart_def tx_apart_def split: tx.splits)

definition refusal_explained :: "blake3 \<Rightarrow> verifier \<Rightarrow> 'd object_db \<Rightarrow> 'd \<Rightarrow> ctx \<Rightarrow> tx \<Rightarrow> execution_error \<Rightarrow> bool" where
  "refusal_explained b3 vf db d context t e \<longleftrightarrow>
    (case e of
       ObjectNotFound i \<Rightarrow> db_get db d i = Ok None
     | WrongObjectKind i expected actual \<Rightarrow>
         actual \<noteq> expected \<and> (\<exists>obj. db_get db d i = Ok (Some obj) \<and> object_kind_of obj = actual)
     | EdgeLifetimeExceeded blocks limit \<Rightarrow> limit = MAX_EDGE_LIFETIME_BLOCKS \<and> limit < blocks
     | KernelApply x \<Rightarrow> tx_apply b3 vf ledger_ops (db_ledger db d) context t = Err x
     | Storage _ \<Rightarrow> True
     | KernelHostContract _ \<Rightarrow> False
     | RootMismatch _ \<Rightarrow> False)"

lemma load_error_explained: "load_error db d e \<Longrightarrow> refusal_explained b3 vf db d context t e"
  by (cases e) (auto simp: load_error_def refusal_explained_def)

lemma classify_explained:
  assumes load: "tx_loaded b3 db d context t w" and tx: "tx_apply b3 vf wb_ops (bws_begin w) context t = Err x"
    and user: "user_error b3 wb_ops (bws_begin w) context t x"
  shows "refusal_explained b3 vf db d context t (classify_kernel_error w x)"
proof -
  have l: "loaded_from db d w" and decl: "declares w (set (tx_coin_slots b3 context t)) (set (tx_edge_slots b3 t))
      (set (tx_registry_slots b3 context t))" using load by (auto simp: tx_loaded_def)
  have "tx_apply b3 vf ledger_ops (db_ledger db d) context t = Err x"
    using tx tx_apply_reads [OF loaded_agrees [OF load], of vf] by simp
  moreover have "db_get db d i = Ok None" if "i \<in> set (tx_coin_slots b3 context t)" "bws_coin w i = None" for i
  proof -
    from that decl obtain v where "bws_coins w i = Some v" by (auto simp: declares_def)
    with l that(2) show ?thesis by (auto simp: loaded_from_def bws_coin_def coin_object_def)
  qed
  moreover have "db_get db d i = Ok None" if "i \<in> set (tx_edge_slots b3 t)" "bws_edge w i = None" for i
  proof -
    from that decl obtain v where "bws_edges w i = Some v" by (auto simp: declares_def)
    with l that(2) show ?thesis by (auto simp: loaded_from_def bws_edge_def)
  qed
  ultimately show ?thesis
    using user by (cases x) (auto simp: classify_kernel_error_def refusal_explained_def coin_object_id_def edge_object_id_def)
qed

lemma observed_refusal:
  assumes apart: "ids_apart b3 context t"
    and r: "apply_kernel_transaction_observed b3 vf sha db d context t changes = ((Err e, d'), changes')"
  shows "(is_storage e \<or> d' = d) \<and> refusal_explained b3 vf db d context t e"
  using r
proof (cases rule: observed_Err)
  case 1
  then show ?thesis by (auto simp: check_open_Err refusal_explained_def)
next
  case 2
  with load_errs [of db d b3 "context" t] load_error_explained show ?thesis by (auto simp: errs_def)
next
  case (3 w w' source)
  note load = load_kernel_slots_Ok [OF 3(2)]
  from state_apply_refused [OF tx_loaded_declares [OF load] apart 3(3)] classify_explained [OF load] 3 show ?thesis by auto
next
  case (4 w w' outcome)
  note load = load_kernel_slots_Ok [OF 4(1)]
  then have inv: "bws_inv w" by (simp add: tx_loaded_def loaded_from_def)
  from inv 4(2) obtain c where c: "tx_apply b3 vf wb_ops (bws_begin w) context t = Ok c" "outcome = change_outcome c"
    "change_fold wb_ops (bws_begin w) c = Ok (bws_begin w')" "ws_ledger w' = change_spec c (ws_ledger w)" "change_coherent c"
    by (rule state_apply_change)
  note rep = change_replayed [OF inv c(1,3-5)]
  from replay_errs [where P = is_storage and w = w' and outcome = outcome and db = db and sha = sha and d = d] rep 4(3) c(2)
  have "is_storage e" by simp
  then show ?thesis by (cases e) (simp_all add: refusal_explained_def)
qed

section \<open>Proposals\<close>

definition proposal_bytes :: "(nat \<Rightarrow> nat) \<Rightarrow> transaction list \<Rightarrow> nat" where
  "proposal_bytes vsize txs = (\<Sum>t\<leftarrow>txs. transaction_encode_size vsize t)"

lemma apply_kernel_observed:
  "apply_kernel_transaction b3 vf sha db d context t = (r, d') \<longleftrightarrow>
    (\<exists>cs. apply_kernel_transaction_observed b3 vf sha db d context t None = ((r, d'), cs))"
  by (cases "apply_kernel_transaction_observed b3 vf sha db d context t None") (simp add: apply_kernel_transaction_def)

lemma apply_transaction_refused:
  assumes "apply_transaction b3 vf sha db context t d = (Err e, d')" "\<not> is_fatal_storage e"
  shows "d' = d"
proof (cases t)
  case (Kernel k)
  with assms(1) obtain cs where "apply_kernel_transaction_observed b3 vf sha db d context k None = ((Err e, d'), cs)"
    by (auto simp: apply_kernel_observed)
  from refused_unchanged [OF this assms(2)] show ?thesis .
qed

lemma transient_not_fatal: "is_transient_for_mempool e \<Longrightarrow> \<not> is_fatal_storage e"
  by (cases e rule: is_transient_for_mempool.cases) simp_all

definition proposal_sound ::
  "blake3 \<Rightarrow> verifier \<Rightarrow> sha256 \<Rightarrow> 'd object_db \<Rightarrow> ctx \<Rightarrow> transaction list \<Rightarrow> 'd \<Rightarrow> 'd \<Rightarrow> transaction list \<Rightarrow> transaction list \<Rightarrow> bool" where
  "proposal_sound b3 vf sha db context candidates d d' inc ret \<longleftrightarrow>
    for_each (apply_transaction b3 vf sha db context) inc d = (Ok (), d')
    \<and> subseq inc candidates \<and> subseq ret candidates \<and> mset inc + mset ret \<subseteq># mset candidates"

lemma proposal_loop_Ok:
  assumes "proposal_loop b3 vf sha vsize db context max_txs max_bytes candidates d included retained bytes = Ok (d', inc', ret')"
    and "max_bytes < 2 ^ 64 - 1" "length included \<le> max_txs" "bytes \<le> max_bytes"
  shows "\<exists>inc ret. inc' = included @ inc \<and> ret' = retained @ ret \<and> length inc' \<le> max_txs
    \<and> bytes + proposal_bytes vsize inc \<le> max_bytes \<and> proposal_sound b3 vf sha db context candidates d d' inc ret"
  using assms
proof (induction candidates arbitrary: d included retained bytes)
  case Nil
  then show ?case by (simp add: proposal_bytes_def proposal_sound_def)
next
  case (Cons t ts)
  let ?next = "saturating_add_usize bytes (transaction_encode_size vsize t)"
  let ?loop = "proposal_loop b3 vf sha vsize db context max_txs max_bytes ts"
  show ?case
  proof (cases "max_txs \<le> length included \<or> max_bytes < ?next")
    case True
    with Cons.prems show ?thesis
      by (auto simp: Let_def proposal_bytes_def proposal_sound_def intro!: exI [of _ "t # ts"])
  next
    case False
    then have room: "length included < max_txs" "?next \<le> max_bytes" by auto
    then have next': "?next = bytes + transaction_encode_size vsize t"
      using Cons.prems(2) by (auto simp: saturating_add_usize_def min_def split: if_splits)
    obtain r d1 where app: "apply_transaction b3 vf sha db context t d = (r, d1)" by fastforce
    show ?thesis
    proof (cases r)
      case (Ok u)
      with Cons.prems(1) app False have "?loop d1 (included @ [t]) retained ?next = Ok (d', inc', ret')" by (simp add: Let_def)
      from Cons.IH [OF this Cons.prems(2)] room next' obtain inc ret where "inc' = (included @ [t]) @ inc" "ret' = retained @ ret"
        "length inc' \<le> max_txs" "bytes + transaction_encode_size vsize t + proposal_bytes vsize inc \<le> max_bytes"
        "proposal_sound b3 vf sha db context ts d1 d' inc ret" by auto
      with app Ok show ?thesis
        by (intro exI [of _ "t # inc"] exI [of _ ret]) (auto simp: proposal_bytes_def proposal_sound_def)
    next
      case (Err e)
      define keep where "keep = (is_transient_for_mempool e \<and> \<not> response_contest_was_removed t e)"
      from Err Cons.prems(1) app False have "keep \<or> \<not> is_fatal_storage e"
        and l: "?loop d1 included (if keep then retained @ [t] else retained) bytes = Ok (d', inc', ret')"
        by (auto simp: Let_def keep_def split: if_splits)
      then have "d1 = d" using apply_transaction_refused [OF app [unfolded Err]] transient_not_fatal keep_def by blast
      with Cons.IH [OF l Cons.prems(2-4)] obtain inc ret where "inc' = included @ inc"
        "ret' = (if keep then retained @ [t] else retained) @ ret" "length inc' \<le> max_txs"
        "bytes + proposal_bytes vsize inc \<le> max_bytes" "proposal_sound b3 vf sha db context ts d d' inc ret" by auto
      then show ?thesis
        by (intro exI [of _ inc] exI [of _ "if keep then t # ret else ret"])
          (auto simp: proposal_sound_def subset_mset.add_increasing intro: subseq_Cons' subset_mset.order_trans)
    qed
  qed
qed

lemma proposal_loop_Err:
  assumes "proposal_loop b3 vf sha vsize db context max_txs max_bytes candidates d included retained bytes = Err e"
  shows "is_fatal_storage e"
  using assms
proof (induction candidates arbitrary: d included retained bytes)
  case (Cons t ts)
  obtain r d1 where "apply_transaction b3 vf sha db context t d = (r, d1)" by fastforce
  with Cons show ?case by (cases r) (auto simp: Let_def split: if_splits)
qed simp

section \<open>Observed execution\<close>

lemma seed_genesis_objects:
  assumes "db_laws db" "maybe_seed_genesis sha w16 db context allocations d = (Ok (), d')"
  shows "db_objects db d' = apply_changes (genesis_changes sha w16 context allocations) (db_objects db d)"
proof (cases "ctx_block_height context = 1")
  case True
  with assms(2) have "for_each (\<lambda>(i, c) d. write_owned db sha d i (Some (ObjCoin c))) (genesis_coins sha w16 allocations) d = (Ok (), d')"
    by (simp add: maybe_seed_genesis_def)
  from for_each_changes [where M = "db_objects db" and g = "\<lambda>(i, c). [(i, Some (ObjCoin c))]", OF _ this]
  show ?thesis using write_owned_objects [OF assms(1)] True by (auto simp: genesis_changes_def case_prod_unfold concat_map_singleton)
qed (use assms(2) in \<open>simp add: maybe_seed_genesis_def genesis_changes_def\<close>)

text \<open>Observing never changes what is executed, and what it reports is what changed.\<close>

lemma observed_result:
  assumes "db_laws db"
  shows "case apply_transaction b3 vf sha db cx (Kernel t) d of
      (Ok _, d') \<Rightarrow> \<exists>cs. apply_kernel_transaction_observed b3 vf sha db d cx t (Some changes) = ((Ok (), d'), Some (changes @ cs))
        \<and> db_objects db d' = apply_changes cs (db_objects db d)
    | (Err e, d') \<Rightarrow> \<exists>cs. apply_kernel_transaction_observed b3 vf sha db d cx t (Some changes) = ((Err e, d'), cs)"
proof -
  obtain r d' cs where o: "apply_kernel_transaction_observed b3 vf sha db d cx t (Some changes) = ((r, d'), cs)"
    by (metis prod.collapse)
  note eq = apply_transaction_observed [of b3 vf sha db cx t d "Some changes", unfolded o]
  show ?thesis
  proof (cases r)
    case (Ok u)
    with o have o': "apply_kernel_transaction_observed b3 vf sha db d cx t (Some changes) = ((Ok (), d'), cs)" by simp
    then obtain w w' outcome d1 where
      3: "(case ao_public_event outcome of Some ev \<Rightarrow> replay_kernel_event db sha d w' (ev_kind ev) | None \<Rightarrow> (Ok (), d)) = (Ok (), d1)"
        "replay_kernel_registry db d1 w' (ao_registry outcome) = (Ok (), d')"
        "cs = map_option (\<lambda>cs. cs @ outcome_changes w' outcome) (Some changes)"
      by (rule observed_Ok)
    with outcome_objects(1) [OF assms 3(1,2)] o' Ok show ?thesis unfolding eq by auto
  next
    case (Err e)
    with o show ?thesis unfolding eq by simp
  qed
qed

lemma observe_transactions_result:
  assumes laws: "db_laws db"
  shows "case for_each (apply_transaction b3 vf sha db cx) txs d of
      (Ok _, d') \<Rightarrow> \<exists>cs. observe_transactions b3 vf sha db cx txs changes d = Ok (d', changes @ cs)
        \<and> db_objects db d' = apply_changes cs (db_objects db d)
    | (Err e, _) \<Rightarrow> observe_transactions b3 vf sha db cx txs changes d = Err e"
proof (induction txs arbitrary: d changes)
  case (Cons t txs)
  obtain k where t: "t = Kernel k" by (cases t)
  obtain r d1 where a: "apply_transaction b3 vf sha db cx (Kernel k) d = (r, d1)" by fastforce
  note o = observed_result [OF laws, where ?b3.0 = b3 and vf = vf and sha = sha and cx = cx and t = k and d = d and changes = changes, unfolded a]
  show ?case
  proof (cases r)
    case (Ok u)
    with o obtain cs where cs: "apply_kernel_transaction_observed b3 vf sha db d cx k (Some changes) = ((Ok (), d1), Some (changes @ cs))"
      "db_objects db d1 = apply_changes cs (db_objects db d)" by auto
    from Cons.IH [of "changes @ cs" d1] cs Ok a t show ?thesis by (auto split: prod.splits result.splits)
  next
    case (Err e)
    with o a t show ?thesis by auto
  qed
qed simp

lemma execute_all_observed_result:
  assumes laws: "db_laws db"
  shows "case execute_all b3 vf sha w16 db context txs allocations d of
      (Ok _, d') \<Rightarrow> \<exists>cs. execute_all_observed b3 vf sha w16 db context txs allocations d = Ok (d', cs)
        \<and> db_objects db d' = apply_changes cs (db_objects db d)
    | (Err e, _) \<Rightarrow> execute_all_observed b3 vf sha w16 db context txs allocations d = Err e"
proof -
  obtain r d1 where g: "maybe_seed_genesis sha w16 db context allocations d = (r, d1)" by fastforce
  show ?thesis
  proof (cases r)
    case (Ok u)
    with g seed_genesis_objects [OF laws, of sha w16 "context" allocations d d1]
      observe_transactions_result [OF laws, where ?b3.0 = b3 and vf = vf and sha = sha and cx = "context" and txs = txs
        and d = d1 and changes = "genesis_changes sha w16 context allocations"]
    show ?thesis by (auto simp: execute_all_def execute_all_observed_def split: prod.splits result.splits)
  next
    case (Err e)
    with g show ?thesis by (simp add: execute_all_def execute_all_observed_def)
  qed
qed

end
