(* ===== verification/Chain_Block.thy ===== *)
theory Chain_Block
  imports Chain_Execution
begin

text \<open>Blocks and the root checks (src/crates/chain/src/block.rs, execution/finalized.rs). A block commits to the
  transactions it carries and to the roots their execution leaves. The consensus context of a block and the sync
  target of the database are values of external types, so they are type parameters; the digest of a block, the
  merkleization of a batch, its root and its sync target are external functions.\<close>

section \<open>Blocks\<close>

definition SYNCHRONY_BOUND :: u64 where "SYNCHRONY_BOUND = 5000"

datatype validation_error =
    ContextMismatch
  | ParentMismatch bytes32 bytes32  \<comment> \<open>parsed, expected\<close>
  | HeightMismatch u64 u64  \<comment> \<open>parsed, expected\<close>
  | FutureTimestamp u64 u64  \<comment> \<open>timestamp, now\<close>
  | TimestampRegression u64 u64  \<comment> \<open>timestamp, parent's\<close>

record ('c, 't) hellas_block =
  hb_context :: 'c
  hb_parent :: bytes32
  hb_height :: u64
  hb_timestamp :: u64
  hb_state_root :: bytes32
  hb_owner_root :: bytes32
  hb_sync_target :: 't
  hb_txs :: "transaction list"

definition with_owner_root :: "('c, 't) hellas_block \<Rightarrow> bytes32 \<Rightarrow> ('c, 't) hellas_block" where
  "with_owner_root blk root = blk\<lparr>hb_owner_root := root\<rparr>"

text \<open>The context of the genesis block is the zero round of its leader, with an empty parent.\<close>

definition hb_genesis :: "('leader \<Rightarrow> 'c) \<Rightarrow> 'leader \<Rightarrow> bytes32 \<Rightarrow> 't \<Rightarrow> bytes32 \<Rightarrow> ('c, 't) hellas_block" where
  "hb_genesis zero_round leader state_root sync_target genesis =
    \<lparr>hb_context = zero_round leader, hb_parent = genesis, hb_height = 0, hb_timestamp = 0, hb_state_root = state_root,
     hb_owner_root = 0, hb_sync_target = sync_target, hb_txs = []\<rparr>"

definition hb_new ::
  "'c \<Rightarrow> bytes32 \<Rightarrow> u64 \<Rightarrow> u64 \<Rightarrow> bytes32 \<Rightarrow> 't \<Rightarrow> transaction list \<Rightarrow> ('c, 't) hellas_block" where
  "hb_new cx parent height timestamp state_root sync_target txs =
    \<lparr>hb_context = cx, hb_parent = parent, hb_height = height, hb_timestamp = timestamp, hb_state_root = state_root,
     hb_owner_root = 0, hb_sync_target = sync_target, hb_txs = txs\<rparr>"

definition hb_validate ::
  "('c, 't) hellas_block \<Rightarrow> 'c \<Rightarrow> u64 \<Rightarrow> bytes32 \<Rightarrow> u64 \<Rightarrow> u64 \<Rightarrow> (unit, validation_error) result" where
  "hb_validate blk expected_context expected_height expected_parent now parent_timestamp =
    (if hb_context blk \<noteq> expected_context then Err ContextMismatch
     else if hb_parent blk \<noteq> expected_parent then Err (ParentMismatch (hb_parent blk) expected_parent)
     else if hb_height blk \<noteq> expected_height then Err (HeightMismatch (hb_height blk) expected_height)
     else if saturating_add now SYNCHRONY_BOUND < hb_timestamp blk then Err (FutureTimestamp (hb_timestamp blk) now)
     else if hb_timestamp blk < parent_timestamp then Err (TimestampRegression (hb_timestamp blk) parent_timestamp)
     else Ok ())"

section \<open>Executing a block and checking its roots\<close>

definition kernel_context :: "network_id \<Rightarrow> u64 \<Rightarrow> bytes32 \<Rightarrow> ctx" where
  "kernel_context network height previous_hash = context_with_fees network height previous_hash KERNEL_FEES"

record ('d, 'm, 't) merkle =
  mk_merkleize :: "'d \<Rightarrow> ('m, string) result"
  mk_root :: "'m \<Rightarrow> bytes32"
  mk_sync_target :: "'m \<Rightarrow> 't"

definition finalized_check ::
  "sha256 \<Rightarrow> 'd object_db \<Rightarrow> ('d, 'm, 't) merkle \<Rightarrow> ('c, 't) hellas_block \<Rightarrow> 'd \<Rightarrow> ('m, execution_error) result" where
  "finalized_check sha db mk blk d =
    and_then (map_err (\<lambda>e. Storage (owner_error_text e)) (owner_tree_root db sha d)) (\<lambda>root.
    if root \<noteq> hb_owner_root blk then Err (RootMismatch ''owner'')
    else and_then (map_err Storage (mk_merkleize mk d)) (\<lambda>executed.
    if mk_root mk executed \<noteq> hb_state_root blk \<or> mk_sync_target mk executed \<noteq> hb_sync_target blk
    then Err (RootMismatch ''state'') else Ok executed))"

definition finalized_execute ::
  "blake3 \<Rightarrow> verifier \<Rightarrow> sha256 \<Rightarrow> (u16 \<Rightarrow> bytes) \<Rightarrow> 'd object_db \<Rightarrow> ('d, 'm, 't) merkle \<Rightarrow> ('c, 't) hellas_block
    \<Rightarrow> network_id \<Rightarrow> (settlement_key \<times> u64) list \<Rightarrow> 'd \<Rightarrow> ('m, execution_error) result" where
  "finalized_execute b3 vf sha w16 db mk blk network allocations d =
    (case execute_all b3 vf sha w16 db (kernel_context network (hb_height blk) (hb_parent blk)) (hb_txs blk) allocations d of
       (Ok _, d) \<Rightarrow> finalized_check sha db mk blk d
     | (Err e, _) \<Rightarrow> Err e)"

section \<open>What an accepted block says\<close>

lemma hb_validate_Ok:
  "hb_validate blk cx height parent now earliest = Ok () \<longleftrightarrow>
    hb_context blk = cx \<and> hb_parent blk = parent \<and> hb_height blk = height \<and> earliest \<le> hb_timestamp blk
    \<and> hb_timestamp blk \<le> saturating_add now SYNCHRONY_BOUND"
  by (auto simp: hb_validate_def not_less)

lemma finalized_check_Ok:
  "finalized_check sha db mk blk d = Ok executed \<longleftrightarrow>
    owner_tree_root db sha d = Ok (hb_owner_root blk) \<and> mk_merkleize mk d = Ok executed
    \<and> mk_root mk executed = hb_state_root blk \<and> mk_sync_target mk executed = hb_sync_target blk"
  by (auto simp: finalized_check_def and_then_eq_Ok map_err_eq_Ok)

lemma finalized_execute_Ok:
  "finalized_execute b3 vf sha w16 db mk blk network allocations d = Ok executed \<longleftrightarrow>
    (\<exists>d'. execute_all b3 vf sha w16 db (kernel_context network (hb_height blk) (hb_parent blk)) (hb_txs blk) allocations d = (Ok (), d')
      \<and> finalized_check sha db mk blk d' = Ok executed)"
  by (auto simp: finalized_execute_def split: prod.splits result.splits)

end
