(* ===== verification/Chain_Supply.thy ===== *)
theory Chain_Supply
  imports Chain_Blocks Chain_Block
begin

text \<open>The ledger across blocks. A finalized state is what a chain of accepted blocks leaves, starting from an empty
  database. The chain charges no fees, so the coins and edges of every finalized state are worth exactly the
  genesis allocations, and the kernel's ledger invariant holds in it.\<close>

section \<open>The value of the whole database\<close>

definition ledger_total :: "ledger \<Rightarrow> nat" where
  "ledger_total l = coin_supply (l_coins l) + edge_supply (l_edges l)"

lemma sum_dom_split:
  assumes "finite (dom m)"
  shows "(\<Sum>i \<in> dom m. f (the (m i))) = (\<Sum>i \<in> dom (m |` D). f (the ((m |` D) i))) + (\<Sum>i \<in> dom (m |` (- D)). f (the ((m |` (- D)) i)))"
proof -
  have "(\<Sum>i \<in> dom m. f (the (m i))) = (\<Sum>i \<in> dom m \<inter> D. f (the (m i))) + (\<Sum>i \<in> dom m \<inter> - D. f (the (m i)))"
    using assms by (subst sum.union_disjoint [symmetric]) (auto intro!: sum.cong)
  then show ?thesis by (simp cong: sum.cong_simp)
qed

lemma supply_split:
  "finite (dom m) \<Longrightarrow> coin_supply m = coin_supply (m |` D) + coin_supply (m |` (- D))"
  "finite (dom n) \<Longrightarrow> edge_supply n = edge_supply (n |` D) + edge_supply (n |` (- D))"
  unfolding coin_supply_def edge_supply_def by (rule sum_dom_split, assumption)+

text \<open>What a transaction leaves outside its slots is untouched, inside them it is the working set.\<close>

lemma change_spec_pointwise:
  "l_coins l i = l_coins k i \<Longrightarrow> l_coins (change_spec c l) i = l_coins (change_spec c k) i"
  "l_edges l j = l_edges k j \<Longrightarrow> l_edges (change_spec c l) j = l_edges (change_spec c k) j"
  by (cases c; cases "case c of Public _ eff _ \<Rightarrow> eff";
    auto simp: diff_spec_def spend_def map_add_def split: option.split)+

lemma undeclared_none:
  "i \<notin> dom (bws_coins w) \<Longrightarrow> bws_coin w i = None" "j \<notin> dom (bws_edges w) \<Longrightarrow> bws_edge w j = None"
  by (simp_all add: bws_coin_def bws_edge_def domIff)

lemma dom_cover: "m |` D = r \<Longrightarrow> m |` (- D) = n |` (- D) \<Longrightarrow> dom m \<subseteq> dom n \<union> dom r"
  by (metis ComplI UnI1 UnI2 domIff restrict_in subsetI)

lemma map_add_untouched: "i \<notin> fst ` set cs \<Longrightarrow> (m ++ map_of cs) i = m i"
  by (metis map_add_dom_app_simps(3) dom_map_of_conv_image_fst)

lemma host_change_frame:
  assumes h: "host_change b3 vf db d context t w w' c"
  shows "i \<notin> dom (bws_coins w) \<Longrightarrow> l_coins (change_spec c l) i = l_coins l i"
    and "j \<notin> dom (bws_edges w) \<Longrightarrow> l_edges (change_spec c l) j = l_edges l j"
proof -
  have inv: "bws_inv w" and f: "change_fold wb_ops (bws_begin w) c = Ok (bws_begin w')"
    using assms by (auto simp: host_change_def loaded_from_def)
  note none = undeclared_none [of _ w] undeclared_none [of _ w', unfolded applied_slots [OF inv f]]
  have coins: "fst ` set coins \<subseteq> dom (bws_coins w)"
    if "(\<forall>x \<in> set coins. bws_coin w (fst x) \<noteq> None) \<or> (\<forall>x \<in> set coins. bws_coin w' (fst x) = Some (snd x))" for coins
    using that none(1,3) by (metis image_subsetI option.distinct(1))
  have eff: "case eff of EffectOpen coins e \<Rightarrow> fst ` set coins \<subseteq> dom (bws_coins w) \<and> fst e \<in> dom (bws_edges w)
      | EffectClose e coins \<Rightarrow> fst e \<in> dom (bws_edges w) \<and> fst ` set coins \<subseteq> dom (bws_coins w)
      | EffectReshape inputs outputs \<Rightarrow> fst ` set inputs \<subseteq> dom (bws_coins w) \<and> fst ` set outputs \<subseteq> dom (bws_coins w)"
    if "c = Public ev eff reg" for ev eff reg
  proof (cases eff)
    case (EffectOpen cs e)
    with host_change_effect [OF h [unfolded that]] coins [of cs] none(4) [of "fst e"] show ?thesis by auto
  next
    case (EffectClose e cs)
    with host_change_effect [OF h [unfolded that]] coins [of cs] none(2) [of "fst e"] show ?thesis by (auto simp del: domIff dest: domI)
  next
    case (EffectReshape inputs outputs)
    with host_change_effect [OF h [unfolded that]] coins [of inputs] coins [of outputs] show ?thesis by auto
  qed
  show "l_coins (change_spec c l) i = l_coins l i" if "i \<notin> dom (bws_coins w)"
  proof (cases c)
    case (Public ev e reg)
    have out: "i \<notin> fst ` set cs" if "fst ` set cs \<subseteq> dom (bws_coins w)" for cs :: "(coin_id \<times> coin) list"
      using that \<open>i \<notin> dom (bws_coins w)\<close> by blast
    from eff [OF Public] Public show ?thesis
      by (cases e) (simp_all add: diff_spec_def spend_def map_add_untouched out del: domIff)
  qed (simp add: diff_spec_def)
  show "l_edges (change_spec c l) j = l_edges l j" if "j \<notin> dom (bws_edges w)"
  proof (cases c)
    case (Public ev e reg)
    with eff [OF Public] that show ?thesis by (cases e) (auto simp: diff_spec_def)
  qed (simp add: diff_spec_def)
qed

lemma host_change_restrict:
  assumes h: "host_change b3 vf db d context t w w' c"
  defines "l \<equiv> db_ledger db d"
  shows "l_coins l |` dom (bws_coins w) = bws_coin w" "l_edges l |` dom (bws_edges w) = bws_edge w"
    "l_coins (change_spec c l) |` dom (bws_coins w) = bws_coin w'" "l_edges (change_spec c l) |` dom (bws_edges w) = bws_edge w'"
    "l_coins (change_spec c l) |` (- dom (bws_coins w)) = l_coins l |` (- dom (bws_coins w))"
    "l_edges (change_spec c l) |` (- dom (bws_edges w)) = l_edges l |` (- dom (bws_edges w))"
proof -
  have load: "loaded_from db d w" and inv: "bws_inv w" and f: "change_fold wb_ops (bws_begin w) c = Ok (bws_begin w')"
    and led: "ws_ledger w' = change_spec c (ws_ledger w)"
    using h by (auto simp: host_change_def loaded_from_def)
  note r = loaded_reads [OF load] and doms = applied_slots [OF inv f]
  show 1: "l_coins l |` dom (bws_coins w) = bws_coin w" "l_edges l |` dom (bws_edges w) = bws_edge w"
    using r undeclared_none [of _ w] by (auto simp: restrict_map_def fun_eq_iff l_def domIff)
  have "l_coins (change_spec c l) i = bws_coin w' i" if "i \<in> dom (bws_coins w)" for i
    using change_spec_pointwise(1) [of l i "ws_ledger w" c] r(1) [OF that] by (simp add: l_def flip: led)
  moreover have "l_edges (change_spec c l) i = bws_edge w' i" if "i \<in> dom (bws_edges w)" for i
    using change_spec_pointwise(2) [of l i "ws_ledger w" c] r(2) [OF that] by (simp add: l_def flip: led)
  ultimately show "l_coins (change_spec c l) |` dom (bws_coins w) = bws_coin w'" "l_edges (change_spec c l) |` dom (bws_edges w) = bws_edge w'"
    using undeclared_none [of _ w', unfolded doms] by (auto simp: restrict_map_def fun_eq_iff)
  show "l_coins (change_spec c l) |` (- dom (bws_coins w)) = l_coins l |` (- dom (bws_coins w))"
    "l_edges (change_spec c l) |` (- dom (bws_edges w)) = l_edges l |` (- dom (bws_edges w))"
    using host_change_frame [OF h, of _ l] by (auto simp: restrict_map_def fun_eq_iff)
qed

lemma host_change_total:
  assumes h: "host_change b3 vf db d context t w w' c" and fin: "ledger_finite (db_ledger db d)"
  shows "ledger_finite (change_spec c (db_ledger db d))
    \<and> ledger_total (change_spec c (db_ledger db d)) + tx_burn context (bws_edge w) t = ledger_total (db_ledger db d)"
proof -
  let ?l = "db_ledger db d" and ?k = "change_spec c (db_ledger db d)"
  have inv: "bws_inv w" and f: "change_fold wb_ops (bws_begin w) c = Ok (bws_begin w')"
    and tx: "tx_apply b3 vf wb_ops (bws_begin w) context t = Ok c" using h by (auto simp: host_change_def loaded_from_def)
  note r = host_change_restrict [OF h]
  have total: "bws_inv w' \<and> bws_total w' + tx_burn context (bws_edge w) t = bws_total w"
    using ws.change_step [OF _ f] tx_apply_balance(2) [OF tx] inv by (simp add: bws_total_begin del: wb_ops_simps)
  have fin': "ledger_finite ?k"
  proof -
    have "dom (l_coins ?k) \<subseteq> dom (l_coins ?l) \<union> dom (bws_coin w')" "dom (l_edges ?k) \<subseteq> dom (l_edges ?l) \<union> dom (bws_edge w')"
      using dom_cover [OF r(3,5)] dom_cover [OF r(4,6)] by simp_all
    moreover have "finite (dom (bws_coin w'))" "finite (dom (bws_edge w'))" using total by (auto simp: bws_inv_def)
    ultimately show ?thesis using fin by (auto simp: ledger_finite_def intro: finite_subset)
  qed
  then show ?thesis using fin total
    supply_split(1) [of "l_coins ?l" "dom (bws_coins w)"] supply_split(1) [of "l_coins ?k" "dom (bws_coins w)"]
    supply_split(2) [of "l_edges ?l" "dom (bws_edges w)"] supply_split(2) [of "l_edges ?k" "dom (bws_edges w)"]
    by (simp add: ledger_total_def ledger_finite_def bws_total_def r)
qed

section \<open>No fees\<close>

definition free_ledger :: "ledger \<Rightarrow> bool" where
  "free_ledger l \<longleftrightarrow> (\<forall>i e. l_edges l i = Some e \<longrightarrow> edge_close_fees e = KERNEL_FEES)"

lemma cost_price_free: "cost_price KERNEL_FEES c = 0"
  by (simp add: cost_price_def KERNEL_FEES_def fees_zero_def fees_new_def)

lemma tx_burn_free:
  assumes "ctx_fees context = KERNEL_FEES" "\<forall>i e. edges i = Some e \<longrightarrow> edge_close_fees e = KERNEL_FEES"
  shows "tx_burn context edges t = 0"
proof -
  have "fees_lifetime KERNEL_FEES = 0" by (simp add: KERNEL_FEES_def fees_zero_def fees_new_def)
  with assms show ?thesis by (cases t) (auto simp: cost_price_free split: option.split)
qed

lemma free_apply:
  assumes "free_ledger l" "ctx_fees context = KERNEL_FEES" "tx_apply b3 vf ledger_ops l context t = Ok c"
  shows "free_ledger (change_spec c l)"
proof (cases t)
  case (TxOpen f terms ma ta)
  with assms(3) have "apply_open b3 vf ledger_ops l context f terms ma ta = Ok c" by simp
  then obtain coins and debits :: open_debits and reg where
    c: "c = change_with_registry (change_open coins (edge_id_from b3 f (terms_hash_of terms), od_edge debits)) reg"
    and d: "compute_open_debits (ctx_block_height context) (ctx_fees context) (funding_len f)
      (checked_sum (\<lambda>(_, c). coin_value c) 0 coins) terms = Ok debits"
    by (rule apply_open_Ok)
  from compute_open_debits_Ok(5) [OF d] assms(1,2) show ?thesis by (auto simp: c free_ledger_def change_edges)
next
  case (TxMove m)
  with assms show ?thesis by (cases m) (auto elim!: apply_start_Ok apply_response_Ok simp: free_ledger_def change_edges)
qed (use assms in \<open>auto elim!: apply_close_Ok apply_reshape_Ok simp: free_ledger_def change_edges split: if_splits\<close>)

section \<open>Transactions and blocks\<close>

definition tx_admissible :: "blake3 \<Rightarrow> terms_body set \<Rightarrow> ctx \<Rightarrow> transaction \<Rightarrow> bool" where
  "tx_admissible b3 T context tx \<longleftrightarrow> (case tx of Kernel t \<Rightarrow> tx_apart b3 context t \<and> tx_known b3 T t)"

definition chain_ok :: "blake3 \<Rightarrow> network_id \<Rightarrow> terms_body set \<Rightarrow> nat \<Rightarrow> ledger \<Rightarrow> bool" where
  "chain_ok b3 network T supply l \<longleftrightarrow>
    ledger_finite l \<and> free_ledger l \<and> ledger_ok b3 network T l \<and> ledger_total l = supply"

lemma apply_transaction_chain_ok:
  assumes laws: "db_laws db" and inj: "inj_on (compute_hash b3) T" and fees: "ctx_fees context = KERNEL_FEES"
    and adm: "tx_admissible b3 T context tx" and ok: "chain_ok b3 (ctx_network context) T supply (db_ledger db d)"
    and run: "apply_transaction b3 vf sha db context tx d = (Ok (), d')"
  shows "chain_ok b3 (ctx_network context) T supply (db_ledger db d')"
proof (cases tx)
  case (Kernel t)
  with run obtain cs where tx: "apply_kernel_transaction_observed b3 vf sha db d context t None = ((Ok (), d'), cs)"
    by (auto simp: apply_kernel_observed)
  have apart: "tx_apart b3 context t" and known: "tx_known b3 T t" using adm Kernel by (auto simp: tx_admissible_def)
  from laws apart tx obtain w w' c where h: "host_change b3 vf db d context t w w' c"
    and c: "tx_apply b3 vf ledger_ops (db_ledger db d) context t = Ok c" and l: "db_ledger db d' = change_spec c (db_ledger db d)"
    by (rule accepted_change)
  have fin: "ledger_finite (db_ledger db d)" and free: "free_ledger (db_ledger db d)"
    and lok: "ledger_ok b3 (ctx_network context) T (db_ledger db d)" and total: "ledger_total (db_ledger db d) = supply"
    using ok by (auto simp: chain_ok_def)
  have "edge_close_fees e = KERNEL_FEES" if "bws_edge w i = Some e" for i e
    using that free fun_cong [OF host_change_restrict(2) [OF h], of i]
    by (auto simp: free_ledger_def restrict_map_def split: if_splits)
  then have "tx_burn context (bws_edge w) t = 0" using tx_burn_free [OF fees, of "bws_edge w"] by blast
  with host_change_total [OF h fin] free_apply [OF free fees c] ledger_ok_apply [of b3 "context" T ledger_ops "db_ledger db d", OF _ inj known c]
  show ?thesis using lok total by (simp add: l chain_ok_def)
qed

lemma for_each_chain_ok:
  assumes "db_laws db" "inj_on (compute_hash b3) T" "ctx_fees context = KERNEL_FEES"
    and "\<forall>tx \<in> set txs. tx_admissible b3 T context tx" "chain_ok b3 (ctx_network context) T supply (db_ledger db d)"
    and "for_each (apply_transaction b3 vf sha db context) txs d = (Ok (), d')"
  shows "chain_ok b3 (ctx_network context) T supply (db_ledger db d')"
  using assms
proof (induction txs arbitrary: d)
  case (Cons tx txs)
  from Cons.prems(6) obtain d1 where d1: "apply_transaction b3 vf sha db context tx d = (Ok (), d1)"
    "for_each (apply_transaction b3 vf sha db context) txs d1 = (Ok (), d')" by (auto elim: and_store_Ok)
  from apply_transaction_chain_ok [OF Cons.prems(1-3) _ Cons.prems(5) d1(1)] Cons.prems(4)
  have "chain_ok b3 (ctx_network context) T supply (db_ledger db d1)" by simp
  from Cons.IH [OF Cons.prems(1-3) _ this d1(2)] Cons.prems(4) show ?case by simp
qed simp

section \<open>Genesis\<close>

definition genesis_supply :: "(settlement_key \<times> u64) list \<Rightarrow> nat" where
  "genesis_supply allocations = (\<Sum>(_, balance) \<leftarrow> take (2 ^ 16) allocations. unat balance)"

lemma takeWhile_enumerate: "takeWhile (\<lambda>(i, _). i < N) (enumerate n xs) = enumerate n (take (N - n) xs)"
  by (induction xs arbitrary: n) (auto simp: take_Cons' Suc_diff_Suc not_less)

lemma genesis_values:
  "(\<Sum>(i, c) \<leftarrow> genesis_coins sha w16 allocations. unat (cc_value c)) = genesis_supply allocations"
proof -
  have "(\<Sum>(i, c) \<leftarrow> map (\<lambda>(index, owner, balance). (f index, chain_coin_owned owner balance)) (enumerate n xs). unat (cc_value c))
      = (\<Sum>(_, balance) \<leftarrow> xs. unat balance)" for f :: "nat \<Rightarrow> object_id" and n and xs :: "(settlement_key \<times> u64) list"
    by (induction xs arbitrary: n) (auto simp: chain_coin_owned_def)
  from this [of "\<lambda>index. genesis_object_id sha w16 (of_nat index)" 0 "take (2 ^ 16) allocations"] show ?thesis
    by (simp add: genesis_coins_def genesis_supply_def takeWhile_enumerate [of "2 ^ 16" 0 allocations, simplified])
qed

text \<open>Genesis coins laid into a database without objects.\<close>

lemma genesis_ledger:
  assumes "distinct (map fst cs)" "\<forall>x \<in> set cs. m (fst x) = None" "ledger_finite (object_ledger m)"
  defines "m' \<equiv> apply_changes (map (\<lambda>(i, c). (i, Some (ObjCoin c))) cs) m"
  shows "ledger_finite (object_ledger m') \<and> ledger_total (object_ledger m') = ledger_total (object_ledger m) + (\<Sum>(i, c) \<leftarrow> cs. unat (cc_value c))
    \<and> l_edges (object_ledger m') = l_edges (object_ledger m) \<and> l_registry (object_ledger m') = l_registry (object_ledger m)"
  using assms(1-3) unfolding m'_def
proof (induction cs arbitrary: m)
  case (Cons x cs)
  obtain i c where x: "x = (i, c)" by fastforce
  define m1 where "m1 = m(i \<mapsto> ObjCoin c)"
  let ?l = "object_ledger m"
  have none: "m i = None" using Cons.prems(2) x by simp
  have l: "object_ledger m1 = ?l\<lparr>l_coins := (l_coins ?l)(i \<mapsto> kernel_coin_from c)\<rparr>"
    using none by (auto simp: object_ledger_def fun_eq_iff m1_def)
  have "l_coins ?l i = None" using none by (simp add: object_ledger_def)
  with Cons.prems(3) have "ledger_finite (object_ledger m1)"
    "ledger_total (object_ledger m1) = ledger_total ?l + unat (cc_value c)"
    by (simp_all add: l ledger_finite_def ledger_total_def coin_supply_insert kernel_coin_from_def coin_issue_def)
  moreover have "\<forall>x \<in> set cs. m1 (fst x) = None" using Cons.prems(1,2) x by (auto simp: m1_def)
  ultimately show ?case using Cons.IH [of m1] Cons.prems(1) by (simp add: x l flip: m1_def)
qed simp

section \<open>Finalized states\<close>

text \<open>What a batch leaves becomes the database the next block starts from. A height is the successor of its parent's.\<close>

inductive finalized_state ::
  "blake3 \<Rightarrow> verifier \<Rightarrow> sha256 \<Rightarrow> (u16 \<Rightarrow> bytes) \<Rightarrow> 'd object_db \<Rightarrow> ('d, 'm, 't) merkle \<Rightarrow> network_id
    \<Rightarrow> (settlement_key \<times> u64) list \<Rightarrow> terms_body set \<Rightarrow> 'c itself \<Rightarrow> u64 \<Rightarrow> 'd \<Rightarrow> bool"
  for b3 vf sha w16 db mk network allocations T and cty :: "'c itself" where
  finalized_start: "(\<And>k. db_get db d k = Ok None) \<Longrightarrow> finalized_state b3 vf sha w16 db mk network allocations T cty 0 d"
| finalized_block:
    "finalized_state b3 vf sha w16 db mk network allocations T cty height d \<Longrightarrow> height \<noteq> - 1 \<Longrightarrow>
     hb_height (blk :: ('c, 't) hellas_block) = height + 1 \<Longrightarrow>
     \<forall>tx \<in> set (hb_txs blk). tx_admissible b3 T (kernel_context network (hb_height blk) (hb_parent blk)) tx \<Longrightarrow>
     execute_all b3 vf sha w16 db (kernel_context network (hb_height blk) (hb_parent blk)) (hb_txs blk) allocations d = (Ok (), d') \<Longrightarrow>
     finalized_check sha db mk blk d' = Ok executed \<Longrightarrow>
     finalized_state b3 vf sha w16 db mk network allocations T cty (height + 1) d'"

lemma kernel_context_fields [simp]:
  "ctx_network (kernel_context network height parent) = network" "ctx_fees (kernel_context network height parent) = KERNEL_FEES"
  "ctx_block_height (kernel_context network height parent) = height"
  by (simp_all add: kernel_context_def context_with_fees_def)

lemma empty_chain_ok:
  assumes "\<And>k. db_get db d k = Ok None"
  shows "chain_ok b3 network T 0 (db_ledger db d)" "db_objects db d = (\<lambda>_. None)"
  using assms by (simp_all add: chain_ok_def db_ledger_def object_ledger_def db_objects_def object_at_def ledger_finite_def
      free_ledger_def ledger_ok_def pending_at_def parse_pending_close_def ledger_total_def coin_supply_def edge_supply_def)

lemma seeded_chain_ok:
  assumes laws: "db_laws db" and dist: "distinct (map fst (genesis_coins sha w16 allocations))"
    and empty: "db_objects db d = (\<lambda>_. None)" and ok: "chain_ok b3 network T 0 (db_ledger db d)"
    and run: "maybe_seed_genesis sha w16 db (kernel_context network 1 parent) allocations d = (Ok (), d')"
  shows "chain_ok b3 network T (genesis_supply allocations) (db_ledger db d')"
proof -
  from seed_genesis_objects [OF laws run] have "db_objects db d'
      = apply_changes (map (\<lambda>(i, c). (i, Some (ObjCoin c))) (genesis_coins sha w16 allocations)) (db_objects db d)"
    by (simp add: genesis_changes_def)
  with genesis_ledger [OF dist, of "db_objects db d"] genesis_values [of sha w16 allocations] ok
  show ?thesis by (simp add: chain_ok_def db_ledger_def empty free_ledger_def ledger_ok_def pending_at_def)
qed

lemma execute_all_Ok:
  assumes "execute_all b3 vf sha w16 db context txs allocations d = (Ok (), d')"
  obtains d1 where "maybe_seed_genesis sha w16 db context allocations d = (Ok (), d1)"
    "for_each (apply_transaction b3 vf sha db context) txs d1 = (Ok (), d')"
  using assms that by (auto simp: execute_all_def elim: and_store_Ok)

lemma finalized_chain_ok:
  assumes laws: "db_laws db" and dist: "distinct (map fst (genesis_coins sha w16 allocations))"
    and inj: "inj_on (compute_hash b3) T"
    and run: "finalized_state b3 vf sha w16 db mk network allocations T cty height d"
  shows "chain_ok b3 network T (if height = 0 then 0 else genesis_supply allocations) (db_ledger db d)
    \<and> (height = 0 \<longrightarrow> db_objects db d = (\<lambda>_. None))"
  using run
proof induction
  case (finalized_start d)
  show ?case using empty_chain_ok [OF finalized_start] by simp
next
  case (finalized_block height d blk d' executed)
  let ?cx = "kernel_context network (height + 1) (hb_parent blk)"
  have nz: "height + 1 \<noteq> 0" using finalized_block(2) by (metis add.commute add_eq_0_iff)
  from finalized_block(3,5) obtain d1 where d1: "maybe_seed_genesis sha w16 db ?cx allocations d = (Ok (), d1)"
    "for_each (apply_transaction b3 vf sha db ?cx) (hb_txs blk) d1 = (Ok (), d')" by (auto elim: execute_all_Ok)
  have "chain_ok b3 network T (genesis_supply allocations) (db_ledger db d1)"
  proof (cases "height = 0")
    case True
    with finalized_block.IH d1(1) seeded_chain_ok [OF laws dist, of d b3 network T "hb_parent blk" d1] show ?thesis by simp
  next
    case False
    then have "height + 1 \<noteq> 1" by simp
    with d1(1) have "d1 = d" by (simp add: maybe_seed_genesis_def)
    with False finalized_block.IH show ?thesis by simp
  qed
  with for_each_chain_ok [OF laws inj, of ?cx "hb_txs blk"] d1(2) finalized_block(3,4) nz show ?case by simp
qed

end
