(* ===== verification/Owner_Prover.thy ===== *)
theory Owner_Prover
  imports Owner_Pages
begin

text \<open>The page prover is complete: on a store that holds the owners' forest, the walk finds exactly the holdings
  at the requested ranks, and the page it builds is accepted at the digest of those holdings.\<close>

section \<open>Ranges of a list by rank\<close>

definition select :: "nat \<Rightarrow> nat \<Rightarrow> nat \<Rightarrow> 'a list \<Rightarrow> 'a list" where
  "select offset stop rank xs = drop (offset - rank) (take (stop - rank) xs)"

lemma select_append: "select a b r (xs @ ys) = select a b r xs @ select a b (r + length xs) ys"
proof (cases "length xs \<le> b - r")
  case True
  then show ?thesis by (simp add: select_def)
next
  case False
  then show ?thesis by (simp add: select_def)
qed

lemma select_Nil [simp]: "select a b r [] = []" by (simp add: select_def)

lemma select_none: "b \<le> r \<or> r + length xs \<le> a \<Longrightarrow> select a b r xs = []"
  by (auto simp: select_def)

lemma select_one: "r < b \<Longrightarrow> a < r + 1 \<Longrightarrow> select a b r [x] = [x]"
  by (simp add: select_def)

definition node_keys :: "(bytes32 \<Rightarrow> owner_leaf option) \<Rightarrow> nat \<Rightarrow> bytes32 \<Rightarrow> bytes32 list" where
  "node_keys M n p = sorted_list_of_set (keys_at M n p)"

lemma length_node_keys [simp]: "length (node_keys M n p) = card (keys_at M n p)"
  by (simp add: node_keys_def)

lemma node_keys_Suc:
  assumes "n < 256" "pref (Suc n) p = p"
  shows "node_keys M (Suc n) p = node_keys M n p @ node_keys M n (set_bit n p)"
proof -
  have "x < y" if x: "x \<in> keys_at M n p" and y: "y \<in> keys_at M n (set_bit n p)" for x y
  proof (rule left_before_right)
    have px: "pref n x = p" and py: "pref n y = set_bit n p" using x y by (auto simp: keys_at_def)
    have "pref (Suc n) x = p" "pref (Suc n) y = p"
      using pref_below [OF assms(1), of x p] pref_below [OF assms(1), of y p] px py assms(2) by auto
    then show "pref (Suc n) x = pref (Suc n) y" by simp
    have b: "\<not> bit p n" using assms(2) by (metis bit_pref not_less_eq_eq order_refl)
    show "\<not> bit x n" using b px bit_pref [of n x n] by auto
    have "bit (set_bit n p) n" using assms(1) by (simp add: bit_set_bit_iff)
    then show "bit y n" using py bit_pref [of n y n] by auto
  qed
  then have "sorted_wrt (<) (node_keys M n p @ node_keys M n (set_bit n p))"
    by (simp add: node_keys_def sorted_wrt_append)
  moreover have "set (node_keys M n p @ node_keys M n (set_bit n p)) = keys_at M (Suc n) p"
    using keys_at_Suc(1) [OF assms, of M] by (simp add: node_keys_def)
  ultimately show ?thesis
    unfolding node_keys_def by (intro strict_sorted_equal [symmetric]) auto
qed

section \<open>The walk\<close>

definition stored_path :: "sha256 \<Rightarrow> bytes32 \<Rightarrow> (bytes32 \<Rightarrow> owner_leaf option) \<Rightarrow> bytes32 \<Rightarrow> owner_path_proof" where
  "stored_path sha scope M k = \<lparr>pp_leaf = M k, pp_siblings = sib_list (sib_commit sha scope M k) [0..<256]\<rparr>"

definition tree_stored :: "'s owner_store \<Rightarrow> sha256 \<Rightarrow> 's \<Rightarrow> bytes32 \<Rightarrow> (bytes32 \<Rightarrow> owner_leaf option) \<Rightarrow> bool" where
  "tree_stored st sha s scope M \<longleftrightarrow>
    tree_ok sha scope M \<and> (\<forall>k l. M k = Some l \<longrightarrow> path_stored st sha s scope M k \<and> leaf_wf l)"

definition frame_ok :: "sha256 \<Rightarrow> bytes32 \<Rightarrow> (bytes32 \<Rightarrow> owner_leaf option) \<Rightarrow> page_frame \<Rightarrow> bool" where
  "frame_ok sha scope M f = (case f of (key, depth, rank, c) \<Rightarrow>
    depth \<le> 256 \<and> pref (256 - depth) key = key \<and> commit_at sha scope M (256 - depth) key = Ok c
    \<and> unat rank + unat (oc_count c) < 2 ^ 64)"

definition frame_keys :: "(bytes32 \<Rightarrow> owner_leaf option) \<Rightarrow> u64 \<Rightarrow> u64 \<Rightarrow> page_frame \<Rightarrow> bytes32 list" where
  "frame_keys M offset stop f = (case f of (key, depth, rank, c) \<Rightarrow>
    select (unat offset) (unat stop) (unat rank) (node_keys M (256 - depth) key))"

lemma frame_count:
  assumes "frame_ok sha scope M (key, depth, rank, c)"
  shows "card (keys_at M (256 - depth) key) = unat (oc_count c)"
  using assms commit_at_counts(1) [of "256 - depth" key sha scope M c] by (auto simp: frame_ok_def)

lemma skip_frame_keys:
  assumes "frame_ok sha scope M (key, depth, rank, c)" "skip_frame offset stop rank c"
  shows "frame_keys M offset stop (key, depth, rank, c) = []"
proof -
  have "unat (saturating_add rank (oc_count c)) = unat rank + unat (oc_count c)"
    using assms(1) by (simp add: unat_saturating_add frame_ok_def)
  then consider "oc_count c = 0" | "unat stop \<le> unat rank \<or> unat rank + unat (oc_count c) \<le> unat offset"
    using assms(2) by (auto simp: skip_frame_def word_le_nat_alt)
  then show ?thesis
  proof cases
    case 1
    then show ?thesis using frame_count [OF assms(1)] by (simp add: frame_keys_def node_keys_def)
  next
    case 2
    then show ?thesis using frame_count [OF assms(1)] by (auto simp: frame_keys_def intro!: select_none)
  qed
qed

lemma frame_leaf:
  assumes "frame_ok sha scope M (key, 256, rank, c)" "\<not> skip_frame offset stop rank c"
  shows "M key \<noteq> None" "frame_keys M offset stop (key, 256, rank, c) = [key]"
proof -
  have n: "card (keys_at M 0 key) = unat (oc_count c)" using frame_count [OF assms(1)] by simp
  have ne: "oc_count c \<noteq> 0" using assms(2) by (simp add: skip_frame_def)
  then have "keys_at M 0 key \<noteq> {}" using n by (auto simp: unat_eq_0)
  then show k: "M key \<noteq> None" by (auto simp: keys_at_def)
  then have e: "keys_at M 0 key = {key}" by (auto simp: keys_at_def)
  have "unat (saturating_add rank (oc_count c)) = unat rank + unat (oc_count c)"
    using assms(1) by (simp add: unat_saturating_add frame_ok_def)
  then have "unat (saturating_add rank (oc_count c)) = unat rank + 1" using n e by simp
  then show "frame_keys M offset stop (key, 256, rank, c) = [key]" using assms(2) e
    by (auto simp: frame_keys_def node_keys_def skip_frame_def word_le_nat_alt not_le intro!: select_one)
qed

lemma frame_branch:
  assumes "tree_stored st sha s scope M" "frame_ok sha scope M (key, depth, rank, c)" "depth < 256" "oc_count c \<noteq> 0"
  obtains l r rank' where "and_then (ow_get st s (node_key sha scope key depth)) decode_branch = Ok (l, r)"
    "combine sha l r = Ok c" "checked_add rank (oc_count l) = Some rank'"
    "frame_ok sha scope M (key, depth + 1, rank, l)" "frame_ok sha scope M (set_bit (255 - depth) key, depth + 1, rank', r)"
    "frame_keys M offset stop (key, depth, rank, c) = frame_keys M offset stop (key, depth + 1, rank, l)
      @ frame_keys M offset stop (set_bit (255 - depth) key, depth + 1, rank', r)"
proof -
  define n where "n = 255 - depth"
  have n: "n < 256" "256 - depth = Suc n" "255 - n = depth" "256 - (depth + 1) = n" using assms(3) by (auto simp: n_def)
  have f: "pref (Suc n) key = key" "commit_at sha scope M (Suc n) key = Ok c" "unat rank + unat (oc_count c) < 2 ^ 64"
    using assms(2) n(2) by (auto simp: frame_ok_def)
  have "keys_at M (Suc n) key \<noteq> {}" using frame_count [OF assms(2)] assms(4) n(2) by (auto simp: unat_eq_0)
  then obtain k where k: "pref (Suc n) k = key" "M k \<noteq> None" by (auto simp: keys_at_def)
  have ps: "path_stored st sha s scope M k" using assms(1) k(2) by (auto simp: tree_stored_def)
  have nk: "node_key sha scope k depth = node_key sha scope key depth"
    using k(1) f(1) n(2) assms(3) by (intro node_key_cong) auto
  obtain l r where lr: "commit_at sha scope M n key = Ok l" "commit_at sha scope M n (set_bit n key) = Ok r"
    "commit_valid l" "commit_valid r" "ow_get st s (node_key sha scope key depth) = Ok (encode_branch l r)"
    using ps n(1,3) k(1) nk unfolding path_stored_def by metis
  have c: "combine sha l r = Ok c" using f(2) lr(1,2) by simp
  have cnt: "unat (oc_count c) = unat (oc_count l) + unat (oc_count r)" by (rule combine_Ok(1) [OF c])
  have rk: "checked_add rank (oc_count l) = Some (rank + oc_count l)" using f(3) cnt by (simp add: checked_add_def)
  have rku: "unat (rank + oc_count l) = unat rank + unat (oc_count l)" using checked_add_Some [OF rk] .
  note ch = child_pref [OF n(1) f(1)]
  have fl: "frame_ok sha scope M (key, depth + 1, rank, l)"
    "frame_ok sha scope M (set_bit (255 - depth) key, depth + 1, rank + oc_count l, r)"
    using ch lr(1,2) f(3) cnt n rku assms(3) by (auto simp: frame_ok_def n_def)
  have "card (keys_at M n key) = unat (oc_count l)" using frame_count [OF fl(1)] n(4) by simp
  then have "frame_keys M offset stop (key, depth, rank, c) = frame_keys M offset stop (key, depth + 1, rank, l)
      @ frame_keys M offset stop (set_bit (255 - depth) key, depth + 1, rank + oc_count l, r)"
    unfolding frame_keys_def split_conv n(2,4) node_keys_Suc [OF n(1) f(1)] select_append rku
    by (simp add: n_def)
  then show thesis using that [of l r] c rk fl lr(3-5) by (simp add: decode_encode_branch)
qed

lemma page_loop_complete:
  assumes "tree_stored st sha s scope M" "\<forall>f \<in> set stack. frame_ok sha scope M f"
  shows "page_loop st sha s scope offset stop stack
    = Ok (map (\<lambda>k. \<lparr>hp_object_id = k, hp_path = stored_path sha scope M k\<rparr>) (concat (map (frame_keys M offset stop) stack)))"
  using assms
proof (induction st sha s scope offset stop stack rule: page_loop.induct)
  case (2 st sha s scope offset stop key depth rank commit stack)
  let ?f = "(key, depth, rank, commit)"
  have f: "frame_ok sha scope M ?f" and rest: "\<forall>f \<in> set stack. frame_ok sha scope M f" using "2.prems"(2) by auto
  consider "skip_frame offset stop rank commit" | "\<not> skip_frame offset stop rank commit" "depth = 256"
    | "\<not> skip_frame offset stop rank commit" "depth < 256" using f by (auto simp: frame_ok_def order.order_iff_strict)
  then show ?case
  proof cases
    case 1
    then show ?thesis using "2.IH"(1) [OF 1 "2.prems"(1) rest] skip_frame_keys [OF f 1] by simp
  next
    case 2
    have k: "M key \<noteq> None" "frame_keys M offset stop ?f = [key]" using frame_leaf [of sha scope M key rank commit] f 2 by auto
    then have "owner_path st sha s scope key = Ok (stored_path sha scope M key)"
      using "2.prems"(1) owner_path_stored [of st sha s scope M key] by (auto simp: tree_stored_def stored_path_def)
    then show ?thesis using "2.IH"(2) [OF 2(1) _ "2.prems"(1) rest] 2 k by simp
  next
    case 3
    then have ne: "oc_count commit \<noteq> 0" by (simp add: skip_frame_def)
    obtain l r rank' where g: "and_then (ow_get st s (node_key sha scope key depth)) decode_branch = Ok (l, r)"
      and b: "combine sha l r = Ok commit" "checked_add rank (oc_count l) = Some rank'"
      "frame_ok sha scope M (key, depth + 1, rank, l)" "frame_ok sha scope M (set_bit (255 - depth) key, depth + 1, rank', r)"
      "frame_keys M offset stop ?f = frame_keys M offset stop (key, depth + 1, rank, l)
        @ frame_keys M offset stop (set_bit (255 - depth) key, depth + 1, rank', r)"
      using frame_branch [OF "2.prems"(1) f 3(2) ne] by metis
    from g obtain raw where raw: "ow_get st s (node_key sha scope key depth) = Ok raw" "decode_branch raw = Ok (l, r)"
      by (auto simp: and_then_eq_Ok)
    let ?stack = "(key, depth + 1, rank, l) # (set_bit (255 - depth) key, depth + 1, rank', r) # stack"
    have "page_loop st sha s scope offset stop ?stack
      = Ok (map (\<lambda>k. \<lparr>hp_object_id = k, hp_path = stored_path sha scope M k\<rparr>) (concat (map (frame_keys M offset stop) ?stack)))"
      by (rule "2.IH"(3)) (use 3 b "2.prems"(1) rest in auto)
    then show ?thesis using 3 b raw by simp
  qed
qed simp

section \<open>The page\<close>

lemma owners_tree_stored:
  assumes "owners_stored st sha Os Is s H" "owners_apart sha Os"
  shows "tree_stored st sha s 0 (summaries sha Os H)"
    "o' \<in> Os \<Longrightarrow> tree_stored st sha s (holding_scope sha o') (hold_map H o')"
proof -
  have ok: "holdings_ok sha Os Is H" and fo: "forest_ok st sha s (owner_uses sha Os Is) (owner_forest sha Os H)"
    using assms(1) by (auto simp: owners_stored_def)
  have st: "path_stored st sha s sc (owner_forest sha Os H sc) k \<and> leaf_wf l" if "owner_forest sha Os H sc k = Some l" for sc k l
    using fo that by (fastforce simp: forest_ok_def)
  show "tree_stored st sha s 0 (summaries sha Os H)"
    using st [of 0] summaries_tree_ok [OF ok assms(2)] by (simp add: tree_stored_def)
  show "o' \<in> Os \<Longrightarrow> tree_stored st sha s (holding_scope sha o') (hold_map H o')"
    using st [of "holding_scope sha o'"] holdings_tree_ok(1) [OF ok assms(2)] assms(2) by (simp add: tree_stored_def)
qed

lemma summary_path:
  assumes "owners_stored st sha Os Is s H" "owners_apart sha Os" "owner \<in> Os"
  shows "\<exists>p c rank. owner_path st sha s 0 (owner_key sha owner) = Ok p \<and> pp_leaf p = summary_of sha H owner
    \<and> verify_path sha 0 (owner_key sha owner) p = Ok (c, rank) \<and> oc_hash c = owner_digest sha Os H"
proof -
  have ok: "holdings_ok sha Os Is H" and fo: "forest_ok st sha s (owner_uses sha Os Is) (owner_forest sha Os H)"
    using assms(1) by (auto simp: owners_stored_def)
  obtain r where r: "commit_at sha 0 (summaries sha Os H) 256 0 = Ok r"
    using summaries_tree_ok [OF ok assms(2)] by (auto simp: tree_ok_def)
  have "(0, owner_key sha owner) \<in> owner_uses sha Os Is" using assms(3) by (auto simp: owner_uses_def)
  then have "path_stored st sha s 0 (owner_forest sha Os H 0) (owner_key sha owner)" using fo unfolding forest_ok_def by blast
  then have ps: "path_stored st sha s 0 (summaries sha Os H) (owner_key sha owner)" by simp
  have wf: "leaf_wf l" if "summaries sha Os H (owner_key sha owner) = Some l" for l
    using owners_tree_stored(1) [OF assms(1,2)] that by (simp add: tree_stored_def)
  show ?thesis using owner_path_complete [OF ps wf r] r assms(2,3) by (auto simp: owner_digest_def)
qed

lemma summary_total:
  assumes "holdings_ok sha Os Is H" "owners_apart sha Os" "owner \<in> Os"
  shows "\<exists>summary. summary_commit (summary_of sha H owner) = Ok summary"
  using holdings_tree_ok(2) [OF assms] by (auto simp: summary_of_def)

lemma card_below_nth:
  fixes K :: "bytes32 set"
  assumes "i < card K"
  shows "card {x \<in> K. x < sorted_list_of_set K ! i} = i"
proof -
  let ?xs = "sorted_list_of_set K"
  have i: "i < length ?xs" using assms by simp
  have "?xs ! i \<in> set ?xs" by (rule nth_mem [OF i])
  then have "?xs ! i \<in> K" by simp
  note r = rank_nth [OF this]
  then have "card {x \<in> K. x < ?xs ! i} < length ?xs" by simp
  then show ?thesis using r(1) i nth_eq_iff_index_eq [of ?xs "card {x \<in> K. x < ?xs ! i}" i] by simp
qed

lemma verify_holdings_intro:
  assumes "\<forall>j < length hs. is_holding (pp_leaf (hp_path (hs ! j))) \<and>
    verify_path sha (holding_scope sha owner) (hp_object_id (hs ! j)) (hp_path (hs ! j))
      = Ok (summary, offset + of_nat (position + j))"
  shows "verify_holdings sha owner summary offset position hs = Ok ()"
  using assms
proof (induction hs arbitrary: position)
  case (Cons h hs)
  have "\<forall>j < length hs. is_holding (pp_leaf (hp_path (hs ! j))) \<and>
    verify_path sha (holding_scope sha owner) (hp_object_id (hs ! j)) (hp_path (hs ! j))
      = Ok (summary, offset + of_nat (position + 1 + j))"
  proof (intro allI impI)
    fix j assume "j < length hs"
    then show "is_holding (pp_leaf (hp_path (hs ! j))) \<and>
      verify_path sha (holding_scope sha owner) (hp_object_id (hs ! j)) (hp_path (hs ! j))
        = Ok (summary, offset + of_nat (position + 1 + j))"
      using Cons.prems [rule_format, of "Suc j"] by simp
  qed
  from Cons.IH [OF this] Cons.prems [rule_format, of 0] show ?case by simp
qed simp

lemma page_holdings_verify:
  assumes "owners_stored st sha Os Is s H" "owners_apart sha Os" "owner \<in> Os"
    and "commit_at sha (holding_scope sha owner) (hold_map H owner) 256 0 = Ok summary"
    and "ks = take n (drop (unat offset) (sorted_list_of_set (dom (H owner))))"
  shows "verify_holdings sha owner summary offset 0
    (map (\<lambda>k. \<lparr>hp_object_id = k, hp_path = stored_path sha (holding_scope sha owner) (hold_map H owner) k\<rparr>) ks) = Ok ()"
proof (rule verify_holdings_intro, intro allI impI)
  let ?sc = "holding_scope sha owner" and ?M = "hold_map H owner" and ?K = "sorted_list_of_set (dom (H owner))"
  let ?hs = "map (\<lambda>k. \<lparr>hp_object_id = k, hp_path = stored_path sha ?sc ?M k\<rparr>) ks"
  fix j assume "j < length ?hs"
  then have j: "j < length ks" by simp
  then have i: "unat offset + j < card (dom (H owner))" and k: "ks ! j = ?K ! (unat offset + j)" using assms(5) by auto
  let ?k = "?K ! (unat offset + j)"
  have "?k \<in> set ?K" using i by (intro nth_mem) simp
  then obtain kd b where kb: "H owner ?k = Some (kd, b)" by auto
  then have ml: "?M ?k = Some (Holding kd b)" by (simp add: hold_map_def)
  then have ps: "path_stored st sha s ?sc ?M ?k" and wf: "\<And>l. ?M ?k = Some l \<Longrightarrow> leaf_wf l"
    using owners_tree_stored(2) [OF assms(1-3)] by (auto simp: tree_stored_def)
  have "{x. ?M x \<noteq> None \<and> x < ?k} = {x \<in> dom (H owner). x < ?k}" by (auto simp: hold_map_def)
  then have "verify_path sha ?sc ?k (stored_path sha ?sc ?M ?k) = Ok (summary, of_nat (unat offset + j))"
    using owner_path_complete [OF ps wf assms(4)] owner_path_stored [OF ps wf] card_below_nth [OF i]
    by (auto simp: stored_path_def)
  then show "is_holding (pp_leaf (hp_path (?hs ! j))) \<and>
    verify_path sha ?sc (hp_object_id (?hs ! j)) (hp_path (?hs ! j)) = Ok (summary, offset + of_nat (0 + j))"
    using j k ml by (simp add: stored_path_def)
qed

definition valid_limit :: "u32 \<Rightarrow> bool" where
  "valid_limit limit \<longleftrightarrow> limit \<noteq> 0 \<and> limit \<le> OWNER_PAGE_LIMIT"

lemma walk_page:
  assumes "owners_stored st sha Os Is s H" "owners_apart sha Os" "owner \<in> Os"
    and "commit_at sha (holding_scope sha owner) (hold_map H owner) 256 0 = Ok summary"
    and "unat (oc_count summary) = card (dom (H owner))"
    and "unat stop = min (unat offset + n) (card (dom (H owner)))"
  shows "page_loop st sha s (holding_scope sha owner) offset stop [(0, 0, 0, summary)]
    = Ok (map (\<lambda>k. \<lparr>hp_object_id = k, hp_path = stored_path sha (holding_scope sha owner) (hold_map H owner) k\<rparr>)
        (take n (drop (unat offset) (sorted_list_of_set (dom (H owner))))))"
proof -
  let ?sc = "holding_scope sha owner" and ?M = "hold_map H owner" and ?K = "sorted_list_of_set (dom (H owner))"
  have fr: "frame_ok sha ?sc ?M (0, 0, 0, summary)"
    using assms(4) unsigned_less [of "oc_count summary", where 'a = nat] by (simp add: frame_ok_def)
  have "node_keys ?M 256 0 = ?K" by (simp add: node_keys_def dom_hold_map)
  then have "frame_keys ?M offset stop (0, 0, 0, summary) = drop (unat offset) (take (unat stop) ?K)"
    by (simp add: frame_keys_def select_def)
  also have "take (unat stop) ?K = take (unat offset + n) ?K" by (auto simp: assms(6) min_def)
  also have "drop (unat offset) \<dots> = take n (drop (unat offset) ?K)" by (simp add: drop_take)
  finally show ?thesis
    using page_loop_complete [OF owners_tree_stored(2) [OF assms(1-3)], of "[(0, 0, 0, summary)]" offset stop] fr by simp
qed

lemma prove_page_complete:
  assumes "owners_stored st sha Os Is s H" "owners_apart sha Os" "owner \<in> Os" "valid_limit limit"
    and "unat offset \<le> card (dom (H owner))"
  shows "\<exists>p summary. prove_owner_page st sha b58 s owner offset limit = Ok p
    \<and> verify_owner_page_at sha b58 (owner_digest sha Os H) owner offset limit p = Ok summary
    \<and> summary_commit (summary_of sha H owner) = Ok summary \<and> pp_leaf (op_summary p) = summary_of sha H owner
    \<and> op_after_key p = None \<and> op_after_path p = None \<and> page_entries p = page_of H owner (unat offset) (unat limit)"
proof -
  have ok: "holdings_ok sha Os Is H" using assms(1) by (simp add: owners_stored_def)
  let ?sc = "holding_scope sha owner" and ?M = "hold_map H owner" and ?K = "sorted_list_of_set (dom (H owner))"
  obtain sp c rank where sp: "owner_path st sha s 0 (owner_key sha owner) = Ok sp" "pp_leaf sp = summary_of sha H owner"
    "verify_path sha 0 (owner_key sha owner) sp = Ok (c, rank)" "oc_hash c = owner_digest sha Os H"
    using summary_path [OF assms(1-3)] by blast
  obtain summary where sm: "summary_commit (summary_of sha H owner) = Ok summary"
    using summary_total [OF ok assms(2,3)] by blast
  note b = summary_binds [OF ok assms(2,3) sm]
  have off: "offset \<le> oc_count summary" using assms(5) b(2) by (simp add: word_le_nat_alt)
  define stop where "stop = min (saturating_add offset (ucast limit)) (oc_count summary)"
  have "unat limit \<le> 32" using assms(4) by (simp add: valid_limit_def OWNER_PAGE_LIMIT_def word_le_nat_alt)
  then have lim: "unat (ucast limit :: u64) = unat limit" by (simp add: unsigned_ucast_eq take_bit_nat_eq_self)
  have st: "unat stop = min (unat offset + unat limit) (card (dom (H owner)))"
    using unsigned_less [of "oc_count summary", where 'a = nat] b(2)
    by (auto simp: stop_def min_def word_le_nat_alt unat_saturating_add lim)
  let ?ks = "take (unat limit) (drop (unat offset) ?K)"
  let ?hs = "map (\<lambda>k. \<lparr>hp_object_id = k, hp_path = stored_path sha ?sc ?M k\<rparr>) ?ks"
  note loop = walk_page [OF assms(1-3) b(1,2) st]
  let ?p = "\<lparr>op_owner = b58 owner, op_summary = sp, op_offset = offset, op_limit = limit,
    op_holdings = ?hs, op_after_key = None, op_after_path = None\<rparr>"
  have lm: "\<not> (limit = 0 \<or> OWNER_PAGE_LIMIT < limit)" using assms(4) by (simp add: valid_limit_def not_less)
  have p: "prove_owner_page st sha b58 s owner offset limit = Ok ?p"
    using sp(1,2) sm off lm loop by (simp add: prove_owner_page_def stop_def Let_def not_less)
  have "unat (oc_count summary - offset) = card (dom (H owner)) - unat offset" using off b(2) by (simp add: unat_sub)
  then have "unat (min (ucast limit) (oc_count summary - offset)) = min (unat limit) (card (dom (H owner)) - unat offset)"
    by (auto simp: min_def word_le_nat_alt lim)
  then have len: "of_nat (length ?hs) = min (ucast limit) (oc_count summary - offset)"
    by (simp add: word_unat_eq_iff [where 'a = 64] unat_of_nat min.commute) (use \<open>unat limit \<le> 32\<close> in simp)
  have v: "verify_owner_page_at sha b58 (owner_digest sha Os H) owner offset limit ?p = Ok summary"
    using sp(2-4) sm off lm len page_holdings_verify [OF assms(1-3) b(1) refl, where n = "unat limit" and offset = offset]
    by (simp add: verify_owner_page_at_def not_less)
  have "page_entries ?p = page_of H owner (unat offset) (unat limit)"
    by (simp add: page_entries_def page_of_def stored_path_def)
  then show ?thesis using p v sm sp(2) by auto
qed

section \<open>Pages after a cursor\<close>

lemma drop_to_cursor:
  fixes K :: "bytes32 set"
  shows "drop (card {x \<in> K. x < k} + of_bool (k \<in> K)) (sorted_list_of_set K) = filter (\<lambda>x. k < x) (sorted_list_of_set K)"
proof -
  let ?xs = "sorted_list_of_set K"
  have sd: "sorted_wrt (<) ?xs" by simp
  have "sorted_wrt (<) (filter (\<lambda>x. x \<le> k) ?xs @ filter (\<lambda>x. k < x) ?xs)"
    using sorted_wrt_filter [OF sd] by (auto simp: sorted_wrt_append)
  moreover have "set (filter (\<lambda>x. x \<le> k) ?xs @ filter (\<lambda>x. k < x) ?xs) = set ?xs" by auto
  ultimately have e: "?xs = filter (\<lambda>x. x \<le> k) ?xs @ filter (\<lambda>x. k < x) ?xs"
    using sd by (intro strict_sorted_equal) auto
  have "{x \<in> K. x \<le> k} = {x \<in> K. x < k} \<union> (if k \<in> K then {k} else {})" by (auto simp: le_less)
  then have "card {x \<in> K. x \<le> k} = card {x \<in> K. x < k} + of_bool (k \<in> K)" by (auto simp: card_insert_if)
  moreover have "length (filter (\<lambda>x. x \<le> k) ?xs) = card {x \<in> K. x \<le> k}"
    using distinct_card [of "filter (\<lambda>x. x \<le> k) ?xs"] by (simp add: Collect_conj_eq inf_commute)
  ultimately show ?thesis by (subst e) simp
qed

definition page_after :: "holdings \<Rightarrow> settlement_key \<Rightarrow> bytes32 option \<Rightarrow> nat \<Rightarrow> (object_id \<times> owner_leaf option) list" where
  "page_after H owner after limit =
    map (\<lambda>k. (k, hold_map H owner k))
      (take limit (filter (\<lambda>k. case after of None \<Rightarrow> True | Some c \<Rightarrow> c < k) (sorted_list_of_set (dom (H owner)))))"

lemma page_after_cursor:
  "page_of H owner (card {x. hold_map H owner x \<noteq> None \<and> x < k} + of_bool (hold_map H owner k \<noteq> None)) n
    = page_after H owner (Some k) n"
proof -
  have "{x. hold_map H owner x \<noteq> None \<and> x < k} = {x \<in> dom (H owner). x < k}"
    "hold_map H owner k \<noteq> None \<longleftrightarrow> k \<in> dom (H owner)" by (auto simp: hold_map_def)
  then show ?thesis unfolding page_of_def page_after_def using drop_to_cursor [of "dom (H owner)" k] by simp
qed

lemma page_after_start: "page_of H owner 0 n = page_after H owner None n"
  by (simp add: page_of_def page_after_def)

lemma unat_of_bool: "unat (of_bool b :: u64) = of_bool b" by (cases b) simp_all

lemma page_after_sound:
  assumes "verify_owner_page_after sha b58 (owner_digest sha Os H) owner after limit p = Ok summary"
    and "holdings_ok sha Os Is H" "owners_apart sha Os" "owner \<in> Os" "length (op_holdings p) < 2 ^ 64"
    and "inj_on sha B" "0 \<notin> sha ` B" "owner_preimages sha Os H \<subseteq> B" "set (page_preimages sha owner p) \<subseteq> B"
  shows "summary_commit (summary_of sha H owner) = Ok summary" "page_entries p = page_after H owner after (unat limit)"
proof -
  from assms(1) obtain offset where at: "verify_owner_page_at sha b58 (owner_digest sha Os H) owner offset limit p = Ok summary"
    by (auto simp: verify_owner_page_after_def and_then_eq_Ok)
  note snd = page_at_sound [OF at assms(2-9)]
  then show "summary_commit (summary_of sha H owner) = Ok summary" by blast
  note b = summary_binds [OF assms(2-4) snd(2)]
  show "page_entries p = page_after H owner after (unat limit)"
  proof (cases after)
    case None
    then have "verify_owner_page_at sha b58 (owner_digest sha Os H) owner 0 limit p = Ok summary"
      using assms(1) by (auto simp: verify_owner_page_after_def and_then_eq_Ok split: option.splits)
    then show ?thesis using page_at_sound(3) [OF _ assms(2-9), of b58 0] None by (simp add: page_after_start)
  next
    case (Some k)
    then obtain path c rank offset where v: "op_after_key p = Some k" "op_after_path p = Some path"
        "verify_path sha (holding_scope sha owner) k path = Ok (c, rank)"
        "summary_commit (pp_leaf (op_summary p)) = Ok c" "checked_add rank (of_bool (pp_leaf path \<noteq> None)) = Some offset"
        "verify_owner_page_at sha b58 (owner_digest sha Os H) owner offset limit p = Ok summary"
      using assms(1) by (auto simp: verify_owner_page_after_def and_then_eq_Ok ok_or_eq_Ok split: option.splits if_splits)
    have "c = summary" using v(4) snd(1,2) by simp
    have "set (path_preimages sha (holding_scope sha owner) k path) \<subseteq> B" "tree_preimages sha (holding_scope sha owner) (hold_map H owner) \<subseteq> B"
      using assms(4,8,9) v(1,2) by (auto simp: page_preimages_def owner_preimages_def)
    from verify_path_sound [OF v(3) _ assms(6) this(2,1)] \<open>c = summary\<close> b(1)
    have "pp_leaf path = hold_map H owner k" "unat rank = card {x. hold_map H owner x \<noteq> None \<and> x < k}" by auto
    then have "unat offset = card {x. hold_map H owner x \<noteq> None \<and> x < k} + of_bool (hold_map H owner k \<noteq> None)"
      using checked_add_Some [OF v(5)] by (simp add: unat_of_bool)
    then show ?thesis using page_at_sound(3) [OF v(6) assms(2-9)] Some page_after_cursor [of H owner k] by simp
  qed
qed

lemma verify_page_at_cursor [simp]:
  "verify_owner_page_at sha b58 root owner offset limit (p\<lparr>op_after_key := k, op_after_path := c\<rparr>)
    = verify_owner_page_at sha b58 root owner offset limit p"
  by (simp add: verify_owner_page_at_def case_prod_unfold cong: if_cong)

lemma cursor_path:
  assumes "owners_stored st sha Os Is s H" "owners_apart sha Os" "owner \<in> Os" "k \<in> Is"
    and "summary_commit (summary_of sha H owner) = Ok summary"
  obtains cp rank offset where "owner_path st sha s (holding_scope sha owner) k = Ok cp"
    "verify_path sha (holding_scope sha owner) k cp = Ok (summary, rank)"
    "checked_add rank (of_bool (pp_leaf cp \<noteq> None)) = Some offset" "unat offset \<le> card (dom (H owner))"
    "unat offset = card {x. hold_map H owner x \<noteq> None \<and> x < k} + of_bool (hold_map H owner k \<noteq> None)"
proof -
  let ?sc = "holding_scope sha owner" and ?M = "hold_map H owner"
  let ?r = "card {x. ?M x \<noteq> None \<and> x < k}" and ?b = "of_bool (?M k \<noteq> None)"
  have ok: "holdings_ok sha Os Is H" and fo: "forest_ok st sha s (owner_uses sha Os Is) (owner_forest sha Os H)"
    using assms(1) by (auto simp: owners_stored_def)
  have "(?sc, k) \<in> owner_uses sha Os Is" using assms(3,4) by (auto simp: owner_uses_def)
  then have "path_stored st sha s ?sc (owner_forest sha Os H ?sc) k" using fo unfolding forest_ok_def by blast
  then have ps: "path_stored st sha s ?sc ?M k" using assms(2,3) by simp
  have wf: "leaf_wf l" if "?M k = Some l" for l using that by (auto simp: hold_map_def)
  note b = summary_binds [OF ok assms(2,3,5)]
  obtain cp where cp: "owner_path st sha s ?sc k = Ok cp" "pp_leaf cp = ?M k" "verify_path sha ?sc k cp = Ok (summary, of_nat ?r)"
    using owner_path_complete [OF ps wf b(1)] by blast
  have "?r + ?b = card ({x. ?M x \<noteq> None \<and> x < k} \<union> (if ?M k \<noteq> None then {k} else {}))" by auto
  also have "\<dots> \<le> card (dom (H owner))" by (intro card_mono) (auto simp: hold_map_def)
  finally have le: "?r + ?b \<le> card (dom (H owner))" .
  then have lt: "?r + ?b < 2 ^ 64" using b(2) unsigned_less [of "oc_count summary", where 'a = nat] by simp
  then have u: "unat (of_nat ?r :: u64) = ?r" by (simp add: unat_of_nat)
  then have off: "checked_add (of_nat ?r) (of_bool (?M k \<noteq> None)) = Some (of_nat ?r + of_bool (?M k \<noteq> None))"
    using lt by (simp add: checked_add_def unat_of_bool)
  have "unat (of_nat ?r + of_bool (?M k \<noteq> None) :: u64) = ?r + ?b" using checked_add_Some [OF off] u by (simp add: unat_of_bool)
  then show thesis using that [OF cp(1,3)] off le cp(2) by simp
qed

lemma prove_after_complete:
  assumes "owners_stored st sha Os Is s H" "owners_apart sha Os" "owner \<in> Os" "valid_limit limit"
    and "case after of None \<Rightarrow> True | Some k \<Rightarrow> k \<in> Is"
  shows "\<exists>p summary. prove_owner_page_after st sha b58 s owner after limit = Ok p
    \<and> verify_owner_page_after sha b58 (owner_digest sha Os H) owner after limit p = Ok summary
    \<and> page_entries p = page_after H owner after (unat limit)"
proof (cases after)
  case None
  then show ?thesis using prove_page_complete [OF assms(1-4), of 0 b58]
    by (auto simp: prove_owner_page_after_def verify_owner_page_after_def page_after_start)
next
  case (Some k)
  have "holdings_ok sha Os Is H" using assms(1) by (simp add: owners_stored_def)
  then obtain summary where sm: "summary_commit (summary_of sha H owner) = Ok summary"
    using summary_total assms(2,3) by blast
  have ki: "k \<in> Is" using assms(5) Some by simp
  obtain cp rank offset where cp:
    "owner_path st sha s (holding_scope sha owner) k = Ok cp"
    "verify_path sha (holding_scope sha owner) k cp = Ok (summary, rank)"
    "checked_add rank (of_bool (pp_leaf cp \<noteq> None)) = Some offset" "unat offset \<le> card (dom (H owner))"
    "unat offset = card {x. hold_map H owner x \<noteq> None \<and> x < k} + of_bool (hold_map H owner k \<noteq> None)"
    by (rule cursor_path [OF assms(1-3) ki sm])
  obtain p where p: "prove_owner_page st sha b58 s owner offset limit = Ok p"
    "verify_owner_page_at sha b58 (owner_digest sha Os H) owner offset limit p = Ok summary"
    "pp_leaf (op_summary p) = summary_of sha H owner" "page_entries p = page_of H owner (unat offset) (unat limit)"
    using prove_page_complete [OF assms(1-4) cp(4), of b58] sm by auto
  let ?p = "p\<lparr>op_after_key := Some k, op_after_path := Some cp\<rparr>"
  have "prove_owner_page_after st sha b58 s owner after limit = Ok ?p"
    using Some cp(1-3) p(1) by (simp add: prove_owner_page_after_def)
  moreover have "verify_owner_page_after sha b58 (owner_digest sha Os H) owner after limit ?p = Ok summary"
    using Some cp(1-3) p(2,3) sm by (simp add: verify_owner_page_after_def)
  moreover have "page_entries ?p = page_after H owner after (unat limit)"
    using p(4) cp(5) page_after_cursor [of H owner k] Some by (simp add: page_entries_def)
  ultimately show ?thesis by blast
qed

end
