(* ===== verification/Owner_Examples.thy ===== *)
theory Owner_Examples
  imports Owner_Prover
begin

text \<open>A concrete run of the owner tree: one owner, holding one coin of seven units under the object zero, with a
  hash that is free of collisions on the inputs of that run. Inputs are told apart by their lengths, and a branch
  hashes to one more than the sum of its halves' digests.\<close>

definition ex_sha :: sha256 where
  "ex_sha bs =
    (if length bs = 134 then from_be_bytes (take 32 (drop 22 bs)) + from_be_bytes (take 32 (drop 78 bs)) + 1
     else if length bs = 94 then 2
     else if length bs = 141 then 1000
     else if length bs = 57 then 5
     else if length bs = 86 then 10000 + 1000 * from_be_bytes (take 32 (drop 20 bs)) + ucast (from_be_bytes (take 2 (drop 52 bs)) :: u16)
     else 0)"

definition ex_owner :: settlement_key where "ex_owner = 1"

definition ex_holdings :: holdings where
  "ex_holdings = (\<lambda>_ _. None)(ex_owner := [0 \<mapsto> (HOLDING_COIN, 7)])"

definition ex_worth :: "u128 \<Rightarrow> bytes32 \<Rightarrow> nat \<Rightarrow> owner_commitment" where
  "ex_worth b h n = \<lparr>oc_hash = h + of_nat n, oc_count = 1, oc_balance = b\<rparr>"

abbreviation ex_chain :: "bytes32 \<Rightarrow> nat \<Rightarrow> owner_commitment" where
  "ex_chain \<equiv> ex_worth 7"

lemma ex_sha_branch: "ex_sha (branch_preimage l r) = oc_hash l + oc_hash r + 1"
  by (simp add: ex_sha_def branch_preimage_def write_commit_def length_to_be_bytes from_be_bytes_to_be)

lemma ex_sha_leaf:
  "ex_sha (leaf_preimage scope k (Holding kd b)) = 2" "ex_sha (leaf_preimage scope k (Summary root)) = 1000"
  by (simp_all add: ex_sha_def leaf_preimage_def length_to_be_bytes)

lemma ex_sha_owner: "owner_key ex_sha o' = 0" "holding_scope ex_sha o' = 5"
  by (simp_all add: ex_sha_def owner_key_def holding_scope_def length_to_be_bytes)

lemma ex_sha_node: "d \<le> 256 \<Longrightarrow> ex_sha (node_preimage scope k d) = 10000 + 1000 * scope + of_nat d"
proof -
  assume "d \<le> 256"
  then have "ucast (of_nat d :: u16) = (of_nat d :: bytes32)"
    by (simp add: word_unat_eq_iff unsigned_ucast_eq unat_of_nat take_bit_nat_eq_self)
  then show ?thesis by (simp add: ex_sha_def node_preimage_def length_to_be_bytes from_be_bytes_to_be)
qed

lemma ex_combine: "combine ex_sha (ex_worth b h n) oc_default = Ok (ex_worth b h (Suc n))"
  using unsigned_less [of b, where 'a = nat] by (simp add: combine_def checked_add_def checked_add_u128_def ex_worth_def oc_default_def ex_sha_branch)

section \<open>Maps with one key\<close>

lemma commit_at_nothing: "commit_at sha scope (\<lambda>_. None) n p = Ok oc_default"
  by (induction n arbitrary: p) (simp_all add: leaf_commit_def combine_def checked_add_def checked_add_u128_def oc_default_def)

lemma commit_at_beside:
  assumes "n \<le> 256" "pref n p = p" "p \<noteq> 0"
  shows "commit_at sha scope [0 \<mapsto> l] n p = Ok oc_default"
proof -
  have "commit_at sha scope [0 \<mapsto> l] n p = commit_at sha scope (\<lambda>_. None) n p"
    using assms by (intro commit_at_frame) (auto simp: pref_def)
  then show ?thesis by (simp add: commit_at_nothing)
qed

lemma commit_at_single:
  assumes "leaf_commit ex_sha scope 0 (Some l) = Ok (ex_worth b h 0)" "n \<le> 256"
  shows "commit_at ex_sha scope [0 \<mapsto> l] n 0 = Ok (ex_worth b h n)"
  using assms(2)
proof (induction n)
  case (Suc n)
  have "pref n (set_bit n 0) = set_bit n 0" "set_bit n 0 \<noteq> (0 :: bytes32)"
    using child_pref [of n 0] Suc.prems by (auto simp: pref_def)
  then have r: "commit_at ex_sha scope [0 \<mapsto> l] n (set_bit n 0) = Ok oc_default"
    using Suc.prems by (intro commit_at_beside) auto
  have l: "commit_at ex_sha scope [0 \<mapsto> l] n 0 = Ok (ex_worth b h n)" using Suc.prems by (intro Suc.IH) simp
  show ?case unfolding commit_at.simps l r by (simp add: ex_combine)
qed (use assms(1) in simp)

lemma tree_preimages_single:
  assumes "leaf_commit ex_sha scope 0 (Some l) = Ok (ex_worth b h 0)"
  shows "tree_preimages ex_sha scope [0 \<mapsto> l] \<subseteq> {leaf_preimage scope 0 l, branch_preimage oc_default oc_default}
    \<union> {branch_preimage (ex_worth b h n) oc_default | n. n < 256}"
proof -
  have br: "branch_preimage a c \<in> {leaf_preimage scope 0 l, branch_preimage oc_default oc_default}
      \<union> {branch_preimage (ex_worth b h n) oc_default | n. n < 256}"
    if "n < 256" "pref (Suc n) p = p" "commit_at ex_sha scope [0 \<mapsto> l] n p = Ok a"
      "commit_at ex_sha scope [0 \<mapsto> l] n (set_bit n p) = Ok c" for n p a c
  proof -
    note ch = child_pref [OF that(1,2)]
    have nz: "set_bit n p \<noteq> 0"
    proof
      assume "set_bit n p = 0"
      moreover have "bit (set_bit n p) n" using that(1) by (simp add: bit_set_bit_iff)
      ultimately show False by simp
    qed
    have "c = oc_default" using commit_at_beside [OF _ ch(2) nz, of ex_sha scope l] that(1,4) by simp
    moreover have "a = (if p = 0 then ex_worth b h n else oc_default)"
      using commit_at_single [OF assms, of n] commit_at_beside [OF _ ch(1), of ex_sha scope l] that(1,3) by auto
    ultimately show ?thesis using that(1) by auto
  qed
  show ?thesis unfolding tree_preimages_def
  proof (intro Un_least subsetI)
    fix x assume "x \<in> {leaf_preimage scope k la | k la. [0 \<mapsto> l] k = Some la}"
    then show "x \<in> {leaf_preimage scope 0 l, branch_preimage oc_default oc_default}
      \<union> {branch_preimage (ex_worth b h n) oc_default | n. n < 256}" by (auto split: if_splits)
  next
    fix x assume "x \<in> {branch_preimage a b | a b. \<exists>n < 256. \<exists>p. pref (Suc n) p = p
      \<and> commit_at ex_sha scope [0 \<mapsto> l] n p = Ok a \<and> commit_at ex_sha scope [0 \<mapsto> l] n (set_bit n p) = Ok b}"
    then show "x \<in> {leaf_preimage scope 0 l, branch_preimage oc_default oc_default}
      \<union> {branch_preimage (ex_worth b h n) oc_default | n. n < 256}" using br by blast
  qed
qed

section \<open>The example's trees\<close>

definition ex_leaf :: owner_leaf where "ex_leaf = Holding HOLDING_COIN 7"
definition ex_summary :: owner_leaf where "ex_summary = Summary (ex_chain 2 256)"

lemma ex_leaf_commit:
  "leaf_commit ex_sha 5 0 (Some ex_leaf) = Ok (ex_chain 2 0)" "leaf_commit ex_sha 0 0 (Some ex_summary) = Ok (ex_chain 1000 0)"
  by (simp_all add: leaf_commit_def ex_leaf_def ex_summary_def ex_sha_leaf ex_worth_def holding_valid_def)

lemma ex_hold_map: "hold_map ex_holdings ex_owner = [0 \<mapsto> ex_leaf]"
  by (auto simp: hold_map_def ex_holdings_def ex_leaf_def)

lemma ex_holdings_root: "commit_at ex_sha 5 [0 \<mapsto> ex_leaf] 256 0 = Ok (ex_chain 2 256)"
  by (rule commit_at_single [OF ex_leaf_commit(1) order_refl])

lemma ex_summary_of: "summary_of ex_sha ex_holdings ex_owner = Some ex_summary"
  unfolding summary_of_def ex_sha_owner ex_hold_map ex_holdings_root by (simp add: ex_summary_def ex_worth_def)

lemma ex_summaries: "summaries ex_sha {ex_owner} ex_holdings = [0 \<mapsto> ex_summary]"
proof
  fix k show "summaries ex_sha {ex_owner} ex_holdings k = [0 \<mapsto> ex_summary] k"
    by (cases "k = 0") (simp_all add: summaries_def ex_sha_owner inv_into_def ex_summary_of)
qed

lemma ex_apart: "owners_apart ex_sha {ex_owner}" by (simp add: owners_apart_def ex_sha_owner)

text \<open>The inputs hashed in the two trees, and the digest each has.\<close>

definition ex_inputs :: "bytes set" where
  "ex_inputs = {leaf_preimage 5 0 ex_leaf, leaf_preimage 0 0 ex_summary, branch_preimage oc_default oc_default}
    \<union> {branch_preimage (ex_chain 2 n) oc_default | n. n < 256} \<union> {branch_preimage (ex_chain 1000 n) oc_default | n. n < 256}"

lemma ex_tree_inputs:
  "tree_preimages ex_sha 5 [0 \<mapsto> ex_leaf] \<subseteq> ex_inputs" "tree_preimages ex_sha 0 [0 \<mapsto> ex_summary] \<subseteq> ex_inputs"
  using tree_preimages_single [OF ex_leaf_commit(1)] tree_preimages_single [OF ex_leaf_commit(2)]
  unfolding ex_inputs_def by blast+

lemma ex_owner_inputs: "owner_preimages ex_sha {ex_owner} ex_holdings \<subseteq> ex_inputs"
  using ex_tree_inputs by (simp add: owner_preimages_def ex_summaries ex_hold_map ex_sha_owner)

lemma ex_digest:
  "unat (ex_sha (leaf_preimage 5 0 ex_leaf)) = 2" "unat (ex_sha (leaf_preimage 0 0 ex_summary)) = 1000"
  "unat (ex_sha (branch_preimage oc_default oc_default)) = 1"
  "n < 256 \<Longrightarrow> unat (ex_sha (branch_preimage (ex_chain 2 n) oc_default)) = n + 3"
  "n < 256 \<Longrightarrow> unat (ex_sha (branch_preimage (ex_chain 1000 n) oc_default)) = n + 1001"
  by (simp_all add: ex_leaf_def ex_summary_def ex_sha_leaf ex_sha_branch oc_default_def ex_worth_def unat_word_ariths unat_of_nat)

lemma ex_nonzero: "0 \<notin> ex_sha ` ex_inputs"
proof
  assume "0 \<in> ex_sha ` ex_inputs"
  then obtain x where "x \<in> ex_inputs" "unat (ex_sha x) = 0" by (metis imageE unsigned_0)
  then show False unfolding ex_inputs_def using ex_digest by fastforce
qed

lemma ex_inj: "inj_on ex_sha ex_inputs"
proof (rule inj_onI)
  fix x y assume xy: "x \<in> ex_inputs" "y \<in> ex_inputs" "ex_sha x = ex_sha y"
  then have "unat (ex_sha x) = unat (ex_sha y)" by simp
  with xy(1,2) show "x = y" unfolding ex_inputs_def
    by (elim UnE insertE emptyE CollectE exE conjE) (simp_all add: ex_digest)
qed

lemma ex_holdings_ok: "holdings_ok ex_sha {ex_owner} {0} ex_holdings"
proof -
  have d: "dom (ex_holdings ex_owner) = {0}" by (simp add: ex_holdings_def)
  have "0 \<notin> ex_sha ` tree_preimages ex_sha 5 [0 \<mapsto> ex_leaf]" "0 \<notin> ex_sha ` tree_preimages ex_sha 0 [0 \<mapsto> ex_summary]"
    using ex_nonzero ex_tree_inputs by blast+
  moreover have "holdings_total ex_holdings {ex_owner} = 7" by (simp add: holdings_total_def d) (simp add: ex_holdings_def)
  moreover have "\<forall>o' i k b. ex_holdings o' i = Some (k, b) \<longrightarrow> o' \<in> {ex_owner} \<and> i \<in> {0} \<and> holding_valid k b"
    by (auto simp: ex_holdings_def holding_valid_def split: if_splits)
  ultimately show ?thesis by (simp add: holdings_ok_def ex_hold_map ex_summaries ex_sha_owner)
qed

section \<open>The example's page\<close>

definition ex_path :: "owner_leaf \<Rightarrow> owner_path_proof" where
  "ex_path l = \<lparr>pp_leaf = Some l, pp_siblings = []\<rparr>"

definition ex_b58 :: "settlement_key \<Rightarrow> string" where "ex_b58 k = (if k = ex_owner then ''owner'' else ''other'')"

definition ex_page :: owner_page_proof where
  "ex_page = \<lparr>op_owner = ''owner'', op_summary = ex_path ex_summary, op_offset = 0, op_limit = 32,
    op_holdings = [\<lparr>hp_object_id = 0, hp_path = ex_path ex_leaf\<rparr>], op_after_key = None, op_after_path = None\<rparr>"

lemma ex_climb:
  assumes "m \<le> 256"
  shows "verify_loop ex_sha 0 (replicate 256 oc_default) (rev [0..<m]) (ex_chain h (256 - m)) 0 = Ok (ex_chain h 256, 0)
    \<and> set (loop_preimages ex_sha 0 (replicate 256 oc_default) (rev [0..<m]) (ex_chain h (256 - m)))
      \<subseteq> {branch_preimage (ex_chain h n) oc_default | n. n < 256}"
  using assms
proof (induction m)
  case (Suc m)
  have n: "256 - m = Suc (256 - Suc m)" "256 - Suc m < 256" using Suc.prems by simp_all
  have v: "commit_valid oc_default" by (simp add: commit_valid_def oc_default_def)
  note c = ex_combine [of 7 h "256 - Suc m", folded n(1)]
  have "m \<le> 256" using Suc.prems by simp
  note IH = Suc.IH [OF this]
  have "verify_loop ex_sha 0 (replicate 256 oc_default) (m # rev [0..<m]) (ex_chain h (256 - Suc m)) 0 = Ok (ex_chain h 256, 0)"
    using IH c v Suc.prems by (simp add: read_write_commit key_bit_def)
  moreover have "set (loop_preimages ex_sha 0 (replicate 256 oc_default) (m # rev [0..<m]) (ex_chain h (256 - Suc m)))
      = insert (branch_preimage (ex_chain h (256 - Suc m)) oc_default)
        (set (loop_preimages ex_sha 0 (replicate 256 oc_default) (rev [0..<m]) (ex_chain h (256 - m))))"
    using c Suc.prems by (simp add: key_bit_def)
  ultimately show ?case using IH n(2) by (simp del: loop_preimages.simps verify_loop.simps) blast
qed simp

lemma ex_verify_path:
  assumes "leaf_commit ex_sha scope 0 (Some l) = Ok (ex_chain h 0)"
  shows "verify_path ex_sha scope 0 (ex_path l) = Ok (ex_chain h 256, 0)"
    and "set (path_preimages ex_sha scope 0 (ex_path l))
      \<subseteq> {leaf_preimage scope 0 l} \<union> {branch_preimage (ex_chain h n) oc_default | n. n < 256}"
  using assms ex_climb [of 256 h] by (simp_all add: verify_path_def path_preimages_def ex_path_def expand_siblings_def) blast

lemma ex_digest_of: "owner_digest ex_sha {ex_owner} ex_holdings = oc_hash (ex_chain 1000 256)"
  unfolding owner_digest_def ex_summaries commit_at_single [OF ex_leaf_commit(2) order_refl] by simp

lemma ex_page_verifies:
  "verify_owner_page ex_sha ex_b58 (owner_digest ex_sha {ex_owner} ex_holdings) ex_owner 0 32 ex_page = Ok (ex_chain 2 256)"
  "verify_owner_page_after ex_sha ex_b58 (owner_digest ex_sha {ex_owner} ex_holdings) ex_owner None 32 ex_page = Ok (ex_chain 2 256)"
proof -
  have "verify_owner_page_at ex_sha ex_b58 (owner_digest ex_sha {ex_owner} ex_holdings) ex_owner 0 32 ex_page = Ok (ex_chain 2 256)"
    unfolding verify_owner_page_at_def ex_digest_of ex_sha_owner
    using ex_verify_path(1) [OF ex_leaf_commit(1)] ex_verify_path(1) [OF ex_leaf_commit(2)]
    by (simp add: ex_page_def ex_b58_def OWNER_PAGE_LIMIT_def ex_sha_owner) (simp add: ex_page_def ex_sha_owner ex_path_def ex_summary_def ex_leaf_def ex_worth_def)
  then show "verify_owner_page ex_sha ex_b58 (owner_digest ex_sha {ex_owner} ex_holdings) ex_owner 0 32 ex_page = Ok (ex_chain 2 256)"
    "verify_owner_page_after ex_sha ex_b58 (owner_digest ex_sha {ex_owner} ex_holdings) ex_owner None 32 ex_page = Ok (ex_chain 2 256)"
    by (simp_all add: verify_owner_page_def verify_owner_page_after_def) (simp_all add: ex_page_def)
qed

lemma ex_page_inputs: "set (page_preimages ex_sha ex_owner ex_page) \<subseteq> ex_inputs"
  using ex_verify_path(2) [OF ex_leaf_commit(1)] ex_verify_path(2) [OF ex_leaf_commit(2)]
  by (auto simp: page_preimages_def ex_page_def ex_sha_owner ex_inputs_def)

end
