(* ===== verification/Owner_Properties.thy ===== *)
theory Owner_Properties
  imports Owner_Examples
begin

text \<open>What the owner tree promises to its clients: the digest it publishes is that of the holdings recorded in
  it, a page accepted at that digest is the owner's page, and a prover always has an acceptable page.\<close>

section \<open>The published digest\<close>

lemma owner_root_digest:
  assumes "owners_stored st sha Os Is s H" "owners_apart sha Os" "o' \<in> Os"
  shows "owner_root st sha s = Ok (owner_digest sha Os H)"
proof -
  have ok: "holdings_ok sha Os Is H" and fo: "forest_ok st sha s (owner_uses sha Os Is) (owner_forest sha Os H)"
    using assms(1) by (auto simp: owners_stored_def)
  let ?S = "summaries sha Os H" and ?k = "owner_key sha o'"
  have "(0, ?k) \<in> owner_uses sha Os Is" using assms(3) by (auto simp: owner_uses_def)
  then have "path_stored st sha s 0 (owner_forest sha Os H 0) ?k" using fo unfolding forest_ok_def by blast
  then have ps: "path_stored st sha s 0 ?S ?k" by simp
  define n :: nat where "n = 255"
  have n: "n < 256" "Suc n = 256" "255 - n = 0" by (simp_all add: n_def)
  have nk: "node_key sha 0 ?k 0 = node_key sha 0 0 0" by (rule node_key_cong) (simp_all add: pref_def)
  obtain l r where lr: "commit_at sha 0 ?S n 0 = Ok l" "commit_at sha 0 ?S n (set_bit n 0) = Ok r" "commit_valid l"
    "commit_valid r" "ow_get st s (node_key sha 0 0 0) = Ok (encode_branch l r)"
    using ps n nk unfolding path_stored_def by (metis pref_256)
  obtain c where c: "commit_at sha 0 ?S 256 0 = Ok c" using summaries_tree_ok [OF ok assms(2)] by (auto simp: tree_ok_def)
  moreover have "commit_at sha 0 ?S 256 0 = combine sha l r" using lr(1,2) by (simp add: n(2) [symmetric])
  ultimately have "combine sha l r = Ok c" by simp
  then show ?thesis using c lr(3-5) by (simp add: owner_root_def owner_digest_def decode_encode_branch)
qed

text \<open>An empty store holds no one's holdings.\<close>

lemma no_holdings_ok:
  assumes "finite Os" "card Os < 2 ^ 64" "card Is < 2 ^ 64" "sha (branch_preimage oc_default oc_default) \<noteq> 0"
  shows "holdings_ok sha Os Is (\<lambda>_ _. None)" "owner_forest sha Os (\<lambda>_ _. None) = (\<lambda>_ _. None)"
proof -
  have h: "hold_map (\<lambda>_ _. None) o' = (\<lambda>_. None)" for o' by (simp add: hold_map_def)
  have s: "summaries sha Os (\<lambda>_ _. None) = (\<lambda>_. None)"
    by (auto simp: summaries_def summary_of_def h commit_at_nothing oc_default_def)
  have "tree_preimages sha scope (\<lambda>_. None) \<subseteq> {branch_preimage oc_default oc_default}" for scope
    by (auto simp: tree_preimages_def commit_at_nothing)
  then have "0 \<notin> sha ` tree_preimages sha scope (\<lambda>_. None)" for scope using assms(4) by fastforce
  then show "holdings_ok sha Os Is (\<lambda>_ _. None)" using assms(1-3) by (simp add: holdings_ok_def h s holdings_total_def)
  show "owner_forest sha Os (\<lambda>_ _. None) = (\<lambda>_ _. None)" by (auto simp: owner_forest_def h s)
qed

lemma empty_store:
  assumes "finite Os" "card Os < 2 ^ 64" "card Is < 2 ^ 64" "sha (branch_preimage oc_default oc_default) \<noteq> 0"
    and "\<And>j. ow_get st s j = Ok None"
  shows "owners_stored st sha Os Is s (\<lambda>_ _. None)"
proof -
  have "path_stored st sha s scope (\<lambda>_. None) k" for scope k
    using assms(5) by (simp add: path_stored_def commit_at_nothing commit_valid_def encode_branch_def oc_default_def)
  then show ?thesis using no_holdings_ok [of Os Is sha] assms(1-4) by (auto simp: owners_stored_def forest_ok_def)
qed

lemma ex_hash_apart: "hash_apart ex_sha {ex_owner} {0}"
proof -
  have u: "owner_uses ex_sha {ex_owner} {0} = {(5, 0), (0, 0)}" by (auto simp: owner_uses_def ex_sha_owner)
  have "inj_on ex_sha (node_preimages {(5, 0), (0, 0)})"
  proof (rule inj_onI)
    fix x y assume "x \<in> node_preimages {(5, 0), (0, 0)}" "y \<in> node_preimages {(5, 0), (0, 0)}" and e: "ex_sha x = ex_sha y"
    then obtain a b d f where x: "x = node_preimage a 0 d" "d \<le> 256" "a = 5 \<or> a = 0" and y: "y = node_preimage b 0 f" "f \<le> 256" "b = 5 \<or> b = 0"
      by (auto simp: node_preimages_def)
    have "unat (10000 + 1000 * a + of_nat d) = unat (10000 + 1000 * b + of_nat f)"
      using e x(2) y(2) unfolding x(1) y(1) by (simp only: ex_sha_node)
    then show "x = y" using x y by (auto simp: unat_word_ariths unat_of_nat)
  qed
  then show ?thesis using ex_apart by (simp add: hash_apart_def u)
qed

definition ex_empty :: memory_owner_tree where "ex_empty = \<lparr>mot_nodes = Map.empty\<rparr>"

lemma ex_empty_stored: "owners_stored mem_store ex_sha {ex_owner} {0} ex_empty (\<lambda>_ _. None)"
  by (rule empty_store) (simp_all add: ex_sha_branch oc_default_def mem_store_def mem_get_node_def ex_empty_def)

lemma ex_set_holding: "set_holding (\<lambda>_ _. None) ex_owner 0 (Some (HOLDING_COIN, 7)) = ex_holdings"
  by (simp add: set_holding_def ex_holdings_def)

lemma ex_stored: "\<exists>s. owners_stored mem_store ex_sha {ex_owner} {0} s ex_holdings"
  using mem.update_holding_stored [OF ex_empty_stored ex_hash_apart, of ex_owner 0 "Some (HOLDING_COIN, 7)"] ex_holdings_ok
  by (auto simp: ex_set_holding)

section \<open>Recording holdings\<close>

text \<open>C20. Recording a holding in the owner tree refines the change of one entry of an abstract table. Take any
  store that obeys the laws of the node interface and that holds the table of who holds what, and any owner and
  object in use. If the changed table can be committed to, the update succeeds, the store then holds exactly the
  changed table, the digest it publishes is the digest of the changed table, and no node outside the tree's own
  keys has changed. Hash collisions are excluded only among the node keys of the owners and objects in use.\<close>

theorem update_holding_refines:
  assumes "owner_store_laws st" "owners_stored st sha Os Is s H" "hash_apart sha Os Is" "owner \<in> Os" "i \<in> Is"
    and "holdings_ok sha Os Is (set_holding H owner i v)"
  shows "\<exists>s'. update_holding st sha s owner i v = (Ok (), s')
    \<and> owners_stored st sha Os Is s' (set_holding H owner i v)
    \<and> owner_root st sha s' = Ok (owner_digest sha Os (set_holding H owner i v))
    \<and> (\<forall>j. j \<notin> sha ` node_preimages (owner_uses sha Os Is) \<longrightarrow> ow_get st s' j = ow_get st s j)"
proof -
  obtain s' where s': "update_holding st sha s owner i v = (Ok (), s')" "owners_stored st sha Os Is s' (set_holding H owner i v)"
    "\<forall>j. j \<notin> sha ` node_preimages (owner_uses sha Os Is) \<longrightarrow> ow_get st s' j = ow_get st s j"
    using owner_store_laws.update_holding_stored [OF assms] by blast
  then show ?thesis using owner_root_digest [OF s'(2) _ assms(4)] assms(3) by (auto simp: hash_apart_def)
qed

theorem update_holding_refines_witness:
  "\<exists>s'. update_holding mem_store ex_sha ex_empty ex_owner 0 (Some (HOLDING_COIN, 7)) = (Ok (), s')
    \<and> owners_stored mem_store ex_sha {ex_owner} {0} s' ex_holdings
    \<and> owner_root mem_store ex_sha s' = Ok (owner_digest ex_sha {ex_owner} ex_holdings)"
  using update_holding_refines [OF mem.owner_store_laws_axioms ex_empty_stored ex_hash_apart, of ex_owner 0 "Some (HOLDING_COIN, 7)"]
    ex_holdings_ok by (auto simp: ex_set_holding)

section \<open>Pages\<close>

text \<open>C19. An accepted page is the truth. If \<^verbatim>\<open>verify_owner_page\<close> accepts a page for an owner at the digest of a
  table of holdings, then the summary it returns has the owner's exact number of holdings and their exact spendable
  total, and the page lists exactly the holdings at the requested positions in object order, with none left out,
  none added and none altered. The hash is only assumed free of collisions, and of a preimage of zero, on the
  inputs hashed for the table and for the page itself.\<close>

theorem owner_page_sound:
  assumes "verify_owner_page sha b58 (owner_digest sha Os H) owner offset limit p = Ok summary"
    and "holdings_ok sha Os Is H" "owners_apart sha Os" "owner \<in> Os" "length (op_holdings p) < 2 ^ 64"
    and "inj_on sha B" "0 \<notin> sha ` B" "owner_preimages sha Os H \<subseteq> B" "set (page_preimages sha owner p) \<subseteq> B"
  shows "unat (oc_count summary) = card (dom (H owner))
    \<and> unat (oc_balance summary) = (\<Sum>i \<in> dom (H owner). unat (snd (the (H owner i))))
    \<and> page_entries p = page_of H owner (unat offset) (unat limit)"
proof -
  have "verify_owner_page_at sha b58 (owner_digest sha Os H) owner offset limit p = Ok summary"
    using assms(1) by (simp add: verify_owner_page_def split: if_splits)
  note snd = page_at_sound [OF this assms(2-9)]
  then show ?thesis using summary_binds(2,3) [OF assms(2-4) snd(2)] by blast
qed

theorem owner_page_sound_witness:
  "unat (oc_count (ex_chain 2 256)) = card (dom (ex_holdings ex_owner))
    \<and> unat (oc_balance (ex_chain 2 256)) = (\<Sum>i \<in> dom (ex_holdings ex_owner). unat (snd (the (ex_holdings ex_owner i))))
    \<and> page_entries ex_page = page_of ex_holdings ex_owner 0 32"
  using owner_page_sound [OF ex_page_verifies(1) ex_holdings_ok ex_apart _ _ ex_inj ex_nonzero ex_owner_inputs ex_page_inputs]
  by (simp add: ex_page_def)

text \<open>C22. Paging by cursor is complete at every step. If \<^verbatim>\<open>verify_owner_page_after\<close> accepts a page after a
  cursor, the page lists exactly the first holdings whose object comes strictly after the cursor, as many as the
  limit allows, whether or not the cursor itself is still held.\<close>

theorem owner_page_after_sound:
  assumes "verify_owner_page_after sha b58 (owner_digest sha Os H) owner after limit p = Ok summary"
    and "holdings_ok sha Os Is H" "owners_apart sha Os" "owner \<in> Os" "length (op_holdings p) < 2 ^ 64"
    and "inj_on sha B" "0 \<notin> sha ` B" "owner_preimages sha Os H \<subseteq> B" "set (page_preimages sha owner p) \<subseteq> B"
  shows "unat (oc_count summary) = card (dom (H owner))
    \<and> page_entries p = page_after H owner after (unat limit)"
  using page_after_sound [OF assms] summary_binds(2) [OF assms(2-4)] by blast

theorem owner_page_after_sound_witness:
  "unat (oc_count (ex_chain 2 256)) = card (dom (ex_holdings ex_owner))
    \<and> page_entries ex_page = page_after ex_holdings ex_owner None 32"
  using owner_page_after_sound [OF ex_page_verifies(2) ex_holdings_ok ex_apart _ _ ex_inj ex_nonzero ex_owner_inputs ex_page_inputs]
  by (simp add: ex_page_def)

text \<open>C21. An honest node can always answer. From a store that holds the table, for any owner in use, any cursor in
  use and any limit between one and the page limit, \<^verbatim>\<open>prove_owner_page_after\<close> terminates with a page; the page
  is accepted by \<^verbatim>\<open>verify_owner_page_after\<close> at the published digest and lists the holdings after the cursor.\<close>

theorem owner_page_complete:
  assumes "owners_stored st sha Os Is s H" "owners_apart sha Os" "owner \<in> Os" "limit \<noteq> 0" "limit \<le> OWNER_PAGE_LIMIT"
    and "after = None \<or> (\<exists>k \<in> Is. after = Some k)"
  shows "\<exists>p summary root. owner_root st sha s = Ok root \<and> prove_owner_page_after st sha b58 s owner after limit = Ok p
    \<and> verify_owner_page_after sha b58 root owner after limit p = Ok summary
    \<and> page_entries p = page_after H owner after (unat limit)"
  using prove_after_complete [OF assms(1-3), of limit after b58] assms(4-6) owner_root_digest [OF assms(1-3)]
  by (auto simp: valid_limit_def)

theorem owner_page_complete_witness:
  "\<exists>s p summary root. owners_stored mem_store ex_sha {ex_owner} {0} s ex_holdings \<and> owner_root mem_store ex_sha s = Ok root
    \<and> prove_owner_page_after mem_store ex_sha ex_b58 s ex_owner None 32 = Ok p
    \<and> verify_owner_page_after ex_sha ex_b58 root ex_owner None 32 p = Ok summary \<and> page_entries p = [(0, Some ex_leaf)]"
proof -
  obtain s where s: "owners_stored mem_store ex_sha {ex_owner} {0} s ex_holdings" using ex_stored by blast
  have "page_after ex_holdings ex_owner None 32 = [(0, Some ex_leaf)]"
    by (simp add: page_after_def ex_hold_map) (simp add: ex_holdings_def)
  then show ?thesis using s owner_page_complete [OF s ex_apart, of ex_owner 32 None ex_b58]
    by (auto simp: OWNER_PAGE_LIMIT_def)
qed

end
