(* ===== verification/Chain_Owners.thy ===== *)
theory Chain_Owners
  imports Chain_Supply Owner_Properties
begin

text \<open>The owner tree is the index of the ledger. Every object write also updates the tree, inside the same database;
  this theory shows that whatever a block writes, the digest the block carries is the digest of the table of who
  holds what in the objects it leaves, so a page proved against a block lists the holdings of its ledger.\<close>

section \<open>The table of the objects\<close>

definition object_holdings :: "objects \<Rightarrow> holdings" where
  "object_holdings m = (\<lambda>owner i. map_of (ownership (m i)) owner)"

definition holding_balance :: "(byte \<times> u64) option \<Rightarrow> nat" where
  "holding_balance v = (case v of None \<Rightarrow> 0 | Some (_, b) \<Rightarrow> unat b)"

text \<open>A table fits the owners and objects in use if it lists only those, with valid entries, and no object counts
  more than one balance.\<close>

definition table_fits :: "settlement_key set \<Rightarrow> object_id set \<Rightarrow> holdings \<Rightarrow> bool" where
  "table_fits Os Is H \<longleftrightarrow>
    (\<forall>owner i k b. H owner i = Some (k, b) \<longrightarrow> owner \<in> Os \<and> i \<in> Is \<and> holding_valid k b)
    \<and> (\<forall>i. (\<Sum>owner \<in> Os. holding_balance (H owner i)) < 2 ^ 64)"

text \<open>The owners and objects in use: few enough to count, told apart by the hash in the node keys, and no object has
  the identifier of a node.\<close>

definition owner_universe :: "sha256 \<Rightarrow> settlement_key set \<Rightarrow> object_id set \<Rightarrow> bool" where
  "owner_universe sha Os Is \<longleftrightarrow>
    card Os < 2 ^ 64 \<and> card Is < 2 ^ 64 \<and> hash_apart sha Os Is \<and> Is \<inter> sha ` node_preimages (owner_uses sha Os Is) = {}"

text \<open>The inputs hashed for one table: none of them has the digest that stands for the empty tree.\<close>

definition table_hashes :: "sha256 \<Rightarrow> settlement_key set \<Rightarrow> holdings \<Rightarrow> bool" where
  "table_hashes sha Os H \<longleftrightarrow>
    (\<forall>owner \<in> Os. 0 \<notin> sha ` tree_preimages sha (holding_scope sha owner) (hold_map H owner))
    \<and> 0 \<notin> sha ` tree_preimages sha 0 (summaries sha Os H)"

lemma table_fits_total:
  assumes "table_fits Os Is H" "card Is < 2 ^ 64"
  shows "holdings_total H Os < 2 ^ 128"
proof -
  have inner: "(\<Sum>i \<in> dom (H owner). unat (snd (the (H owner i)))) = (\<Sum>i \<in> Is. holding_balance (H owner i))" if "owner \<in> Os" for owner
    using assms(1) that
    by (intro sum.mono_neutral_cong_left) (auto simp: table_fits_def holding_balance_def split: option.splits)
  have "holdings_total H Os = (\<Sum>owner \<in> Os. \<Sum>i \<in> Is. holding_balance (H owner i))"
    unfolding holdings_total_def by (rule sum.cong [OF refl]) (rule inner)
  also have "\<dots> = (\<Sum>i \<in> Is. \<Sum>owner \<in> Os. holding_balance (H owner i))" by (rule sum.swap)
  also have "\<dots> \<le> of_nat (card Is) * 2 ^ 64" using assms(1) by (intro sum_bounded_above) (simp add: table_fits_def less_imp_le)
  also have "\<dots> < 2 ^ 64 * (2 ^ 64 :: nat)" using assms(2) by simp
  finally show ?thesis by simp
qed

lemma table_holdings_ok:
  assumes "owner_universe sha Os Is" "table_fits Os Is H" "table_hashes sha Os H"
  shows "holdings_ok sha Os Is H"
  using assms table_fits_total [OF assms(2)] by (auto simp: owner_universe_def table_hashes_def holdings_ok_def table_fits_def)

lemma batch_store_laws: "db_laws db \<Longrightarrow> owner_store_laws (batch_store db)"
  by unfold_locales (auto simp: batch_store_def batch_put_node_def batch_get_node_Ok and_store_def pure_store_def
    batch_get_node_def db_get_write split: option.splits result.splits object.splits)

section \<open>Rows\<close>

definition table_row :: "holdings \<Rightarrow> object_id \<Rightarrow> (settlement_key \<Rightarrow> (byte \<times> u64) option) \<Rightarrow> holdings" where
  "table_row H i r = (\<lambda>owner j. if j = i then r owner else H owner j)"

lemma set_table_row: "set_holding (table_row H i r) owner i v = table_row H i (r(owner := v))"
  by (auto simp: set_holding_def table_row_def fun_eq_iff)

lemma object_holdings_row: "object_holdings (m(i := v)) = table_row (object_holdings m) i (map_of (ownership v))"
  "table_row (object_holdings m) i (map_of (ownership (m i))) = object_holdings m"
  by (auto simp: object_holdings_def table_row_def fun_eq_iff)

definition row_fits :: "settlement_key set \<Rightarrow> (settlement_key \<Rightarrow> (byte \<times> u64) option) \<Rightarrow> bool" where
  "row_fits Os r \<longleftrightarrow> (\<forall>owner k b. r owner = Some (k, b) \<longrightarrow> owner \<in> Os \<and> holding_valid k b)
    \<and> (\<Sum>owner \<in> Os. holding_balance (r owner)) < 2 ^ 64"

lemma table_row_fits: "table_fits Os Is H \<Longrightarrow> i \<in> Is \<Longrightarrow> row_fits Os r \<Longrightarrow> table_fits Os Is (table_row H i r)"
  unfolding table_fits_def
proof (intro conjI allI impI)
  fix j
  assume "(\<forall>owner i k b. H owner i = Some (k, b) \<longrightarrow> owner \<in> Os \<and> i \<in> Is \<and> holding_valid k b)
    \<and> (\<forall>i. (\<Sum>owner \<in> Os. holding_balance (H owner i)) < 2 ^ 64)" "row_fits Os r"
  then show "(\<Sum>owner \<in> Os. holding_balance (table_row H i r owner j)) < 2 ^ 64"
    by (cases "j = i") (simp_all add: row_fits_def table_row_def)
qed (auto simp: row_fits_def table_row_def split: if_splits)

lemma row_of_table: "table_fits Os Is H \<Longrightarrow> row_fits Os (\<lambda>owner. H owner i)"
  by (auto simp: table_fits_def row_fits_def)

lemma row_fits_less:
  assumes "row_fits Os r" "\<And>owner. r' owner = r owner \<or> r' owner = None"
  shows "row_fits Os r'"
proof -
  have "r' owner = Some x \<Longrightarrow> r owner = Some x" for owner x using assms(2) [of owner] by auto
  moreover have "(\<Sum>owner \<in> Os. holding_balance (r' owner)) \<le> (\<Sum>owner \<in> Os. holding_balance (r owner))"
  proof (rule sum_mono)
    fix owner
    show "holding_balance (r' owner) \<le> holding_balance (r owner)" using assms(2) [of owner] by (auto simp: holding_balance_def)
  qed
  ultimately show ?thesis using assms(1) unfolding row_fits_def by fastforce
qed

lemma row_fits_entries:
  assumes "distinct (map fst xs)" "\<forall>(owner, k, b) \<in> set xs. owner \<in> Os \<and> holding_valid k b" "(\<Sum>(owner, k, b) \<leftarrow> xs. unat b) < 2 ^ 64"
  shows "row_fits Os (map_of xs)"
proof -
  have "(\<Sum>owner \<in> Os. holding_balance (map_of xs owner)) = (\<Sum>owner \<in> fst ` set xs. holding_balance (map_of xs owner))"
    using assms(2) by (intro sum.mono_neutral_right)
      (auto simp: holding_balance_def map_of_eq_None_iff split: option.splits, metis fst_conv image_eqI map_of_SomeD)
  also have "\<dots> = (\<Sum>(owner, k, b) \<leftarrow> xs. unat b)"
    using assms(1)
  proof (induction xs)
    case (Cons x xs)
    have "(\<Sum>owner \<in> fst ` set xs. holding_balance (map_of (x # xs) owner)) = (\<Sum>owner \<in> fst ` set xs. holding_balance (map_of xs owner))"
      using Cons.prems by (intro sum.cong) (cases x, auto simp: image_iff)
    with Cons show ?case by (cases x) (auto simp: holding_balance_def)
  qed simp
  finally show ?thesis using assms(2,3) map_of_SomeD [of xs] by (fastforce simp: row_fits_def)
qed

section \<open>Updating a row\<close>

definition update_row ::
  "('a \<Rightarrow> settlement_key) \<Rightarrow> ('a \<Rightarrow> (byte \<times> u64) option) \<Rightarrow> (settlement_key \<Rightarrow> (byte \<times> u64) option) \<Rightarrow> 'a list
    \<Rightarrow> settlement_key \<Rightarrow> (byte \<times> u64) option" where
  "update_row own val r xs = foldl (\<lambda>r x. r(own x := val x)) r xs"

lemma update_row_stored:
  assumes laws: "owner_store_laws st" and uni: "owner_universe sha Os Is" and i: "i \<in> Is" and fits: "table_fits Os Is H"
    and st: "owners_stored st sha Os Is d (table_row H i r)" and own: "\<forall>x \<in> set xs. own x \<in> Os"
    and rows: "\<forall>ys zs. xs = ys @ zs \<longrightarrow> row_fits Os (update_row own val r ys) \<and> table_hashes sha Os (table_row H i (update_row own val r ys))"
  shows "\<exists>d'. for_each (\<lambda>x d. store_err f (update_holding st sha d (own x) i (val x))) xs d = (Ok (), d')
    \<and> owners_stored st sha Os Is d' (table_row H i (update_row own val r xs))
    \<and> (\<forall>j. j \<notin> sha ` node_preimages (owner_uses sha Os Is) \<longrightarrow> ow_get st d' j = ow_get st d j)"
  using st own rows
proof (induction xs arbitrary: d r)
  case (Cons x xs)
  let ?r = "r(own x := val x)"
  have rf: "row_fits Os ?r" "table_hashes sha Os (table_row H i ?r)"
    using Cons.prems(3) [rule_format, of "[x]" xs] by (simp_all add: update_row_def fun_upd_def)
  have "hash_apart sha Os Is" using uni by (simp add: owner_universe_def)
  from owner_store_laws.update_holding_stored [OF laws Cons.prems(1) this _ i, of "own x" "val x"]
    table_holdings_ok [OF uni table_row_fits [OF fits i rf(1)] rf(2)] Cons.prems(2)
  obtain d1 where d1: "update_holding st sha d (own x) i (val x) = (Ok (), d1)"
    "owners_stored st sha Os Is d1 (table_row H i ?r)"
    "\<forall>j. j \<notin> sha ` node_preimages (owner_uses sha Os Is) \<longrightarrow> ow_get st d1 j = ow_get st d j"
    by (auto simp: set_table_row)
  have rows: "\<forall>ys zs. xs = ys @ zs \<longrightarrow> row_fits Os (update_row own val ?r ys)
      \<and> table_hashes sha Os (table_row H i (update_row own val ?r ys))"
    using Cons.prems(3) [rule_format, of "x # _"] by (simp add: update_row_def)
  from Cons.prems(2) have "\<forall>x \<in> set xs. own x \<in> Os" by simp
  from Cons.IH [OF d1(2) this rows] obtain d' where
    "for_each (\<lambda>x d. store_err f (update_holding st sha d (own x) i (val x))) xs d1 = (Ok (), d')"
    "owners_stored st sha Os Is d' (table_row H i (update_row own val ?r xs))"
    "\<forall>j. j \<notin> sha ` node_preimages (owner_uses sha Os Is) \<longrightarrow> ow_get st d' j = ow_get st d1 j" by blast
  with d1(1,3) show ?case
    by (intro exI [of _ d']) (simp add: store_err_def and_store_def update_row_def)
qed (simp add: update_row_def)

lemma update_row_remove: "update_row own (\<lambda>_. None) r xs = (\<lambda>owner. if owner \<in> own ` set xs then None else r owner)"
  by (induction xs arbitrary: r) (auto simp: update_row_def)

lemma update_row_drop:
  assumes "distinct (map fst (ys @ zs))"
  shows "update_row fst (\<lambda>_. None) (map_of (ys @ zs)) ys = map_of zs"
proof
  fix owner
  show "update_row fst (\<lambda>_. None) (map_of (ys @ zs)) ys owner = map_of zs owner"
  proof (cases "owner \<in> fst ` set ys")
    case True
    then have "map_of zs owner = None" using assms by (auto simp: map_of_eq_None_iff)
    with True show ?thesis by (simp add: update_row_remove)
  next
    case False
    then have "map_of ys owner = None" by (simp add: map_of_eq_None_iff)
    with False show ?thesis by (auto simp: update_row_remove map_add_def split: option.split)
  qed
qed

lemma update_row_insert: "distinct (map fst xs) \<Longrightarrow> update_row fst (\<lambda>x. Some (snd x)) r xs = r ++ map_of xs"
proof (induction xs arbitrary: r)
  case (Cons x xs)
  have "r(fst x \<mapsto> snd x) ++ map_of xs = r ++ map_of (x # xs)"
    using Cons.prems by (cases x) (simp add: map_add_upd_left dom_map_of_conv_image_fst)
  moreover have "update_row fst (\<lambda>x. Some (snd x)) r (x # xs) = update_row fst (\<lambda>x. Some (snd x)) (r(fst x \<mapsto> snd x)) xs"
    by (simp add: update_row_def)
  ultimately show ?case using Cons.IH [of "r(fst x \<mapsto> snd x)"] Cons.prems by (simp only: list.map distinct.simps simp_thms)
qed (simp add: update_row_def)

section \<open>One object write\<close>

lemma ownership_entries:
  "distinct (map fst (ownership v))" "\<forall>(owner, k, b) \<in> set (ownership v). holding_valid k b"
  "(\<Sum>(owner, k, b) \<leftarrow> ownership v. unat b) < 2 ^ 64"
proof -
  have zero: "(\<Sum>(owner, k, b) \<leftarrow> map (\<lambda>k. (k, HOLDING_EDGE, 0 :: u64)) ks. unat b) = 0" for ks :: "settlement_key list"
    by (induction ks) auto
  have v: "holding_valid HOLDING_COIN b" "holding_valid HOLDING_EDGE 0" "holding_valid HOLDING_DELEGATED 0" for b
    by (simp_all add: holding_valid_def HOLDING_COIN_def HOLDING_EDGE_def HOLDING_DELEGATED_def)
  have "distinct (map fst (ownership v)) \<and> (\<forall>(owner, k, b) \<in> set (ownership v). holding_valid k b)
    \<and> (\<Sum>(owner, k, b) \<leftarrow> ownership v. unat b) < 2 ^ 64"
  proof (cases v rule: ownership.cases)
    case (1 c)
    with v show ?thesis using unsigned_less [of "cc_value c", where 'a = nat] by (auto simp: coin_holdings_def split: option.split)
  next
    case (2 e)
    with v zero show ?thesis by (auto simp: edge_keys_def comp_def)
  qed simp_all
  then show "distinct (map fst (ownership v))" "\<forall>(owner, k, b) \<in> set (ownership v). holding_valid k b"
    "(\<Sum>(owner, k, b) \<leftarrow> ownership v. unat b) < 2 ^ 64" by blast+
qed

definition owners_of :: "object option \<Rightarrow> settlement_key set" where
  "owners_of v = fst ` set (ownership v)"

lemma ownership_row: "owners_of v \<subseteq> Os \<Longrightarrow> ownership v = ys @ zs \<Longrightarrow> row_fits Os (map_of ys)"
proof (rule row_fits_entries)
  assume v: "owners_of v \<subseteq> Os" "ownership v = ys @ zs"
  note e = ownership_entries [of v, unfolded v(2)]
  show "distinct (map fst ys)" "(\<Sum>(owner, k, b) \<leftarrow> ys. unat b) < 2 ^ 64" using e(1,3) by simp_all
  show "\<forall>(owner, k, b) \<in> set ys. owner \<in> Os \<and> holding_valid k b"
    using e(2) v by (auto simp: owners_of_def case_prod_unfold)
qed

lemma object_table_fits:
  assumes "holdings_ok sha Os Is (object_holdings m)"
  shows "table_fits Os Is (object_holdings m)"
proof -
  have "owners_of (m i) \<subseteq> Os" for i
  proof
    fix owner assume "owner \<in> owners_of (m i)"
    then obtain k b where "object_holdings m owner i = Some (k, b)"
      using ownership_entries(1) [of "m i"] by (force simp: owners_of_def object_holdings_def)
    then show "owner \<in> Os" using assms by (auto simp: holdings_ok_def)
  qed
  from ownership_row [OF this, of _ _ "[]"] have "row_fits Os (map_of (ownership (m i)))" for i by simp
  then show ?thesis using assms by (auto simp: table_fits_def holdings_ok_def row_fits_def object_holdings_def)
qed

lemma owners_stored_frame:
  assumes "owners_stored st sha Os Is s H" "\<And>j. j \<in> sha ` node_preimages (owner_uses sha Os Is) \<Longrightarrow> ow_get st s' j = ow_get st s j"
  shows "owners_stored st sha Os Is s' H"
proof -
  have "ow_get st s' (node_key sha scope k d) = ow_get st s (node_key sha scope k d)"
    if "(scope, k) \<in> owner_uses sha Os Is" "d \<le> 256" for scope k d
    using that by (intro assms(2)) (auto simp: node_key_def node_preimages_def)
  then have "path_stored st sha s' scope M k = path_stored st sha s scope M k" if "(scope, k) \<in> owner_uses sha Os Is" for scope k M
    using that by (simp add: path_stored_def)
  then show ?thesis using assms(1) by (auto simp: owners_stored_def forest_ok_def)
qed

abbreviation index_ok :: "'d object_db \<Rightarrow> sha256 \<Rightarrow> settlement_key set \<Rightarrow> object_id set \<Rightarrow> 'd \<Rightarrow> bool" where
  "index_ok db sha Os Is d \<equiv> owners_stored (batch_store db) sha Os Is d (object_holdings (db_objects db d))"

lemma batch_get_write: "db_laws db \<Longrightarrow> j \<noteq> i \<Longrightarrow> ow_get (batch_store db) (db_write db d i v) j = ow_get (batch_store db) d j"
  by (simp add: batch_store_def batch_get_node_def db_get_write)

text \<open>The tables one object write passes through: the entries of the old object are removed one at a time, then those
  of the new one are entered one at a time.\<close>

definition write_tables :: "objects \<Rightarrow> object_id \<Rightarrow> object option \<Rightarrow> holdings list" where
  "write_tables m i v =
    (let row = table_row (object_holdings m) i; old = ownership (m i); new = ownership v
     in map (\<lambda>n. row (map_of (drop n old))) [0..<Suc (length old)] @ map (\<lambda>n. row (map_of (take n new))) [0..<Suc (length new)])"

lemma write_tables_mem:
  "ownership (m i) = ys @ zs \<Longrightarrow> table_row (object_holdings m) i (map_of zs) \<in> set (write_tables m i v)"
  "ownership v = ys @ zs \<Longrightarrow> table_row (object_holdings m) i (map_of ys) \<in> set (write_tables m i v)"
proof -
  assume "ownership (m i) = ys @ zs"
  then show "table_row (object_holdings m) i (map_of zs) \<in> set (write_tables m i v)"
    unfolding write_tables_def Let_def set_append set_map by (intro UnI1 image_eqI [of _ _ "length ys"]) auto
next
  assume "ownership v = ys @ zs"
  then show "table_row (object_holdings m) i (map_of ys) \<in> set (write_tables m i v)"
    unfolding write_tables_def Let_def set_append set_map by (intro UnI2 image_eqI [of _ _ "length ys"]) auto
qed

lemma write_owned_stored:
  assumes laws: "db_laws db" and uni: "owner_universe sha Os Is" and st: "index_ok db sha Os Is d" and i: "i \<in> Is"
    and get: "db_get db d i = Ok old" "\<not> is_owner_data old" and v: "\<not> is_owner_data v" "owners_of v \<subseteq> Os"
    and hash: "\<forall>H \<in> set (write_tables (db_objects db d) i v). table_hashes sha Os H"
  shows "\<exists>d'. write_owned db sha d i v = (Ok (), d') \<and> index_ok db sha Os Is d'"
proof -
  let ?m = "db_objects db d" and ?st = "batch_store db" and ?f = "\<lambda>e. Storage (owner_error_text e)"
  let ?H = "object_holdings ?m" and ?N = "sha ` node_preimages (owner_uses sha Os Is)"
  have old: "?m i = old" using get by (simp add: db_objects_def object_at_def)
  have fits: "table_fits Os Is ?H" using st object_table_fits by (auto simp: owners_stored_def)
  note lw = batch_store_laws [OF laws]
  have row: "row_fits Os (map_of (ownership old))" using row_of_table [OF fits, of i] old by (simp add: object_holdings_def)
  have sub: "\<forall>x \<in> set (ownership old). fst x \<in> Os"
    using row ownership_entries(1) [of old] by (fastforce simp: row_fits_def)
  have "owners_stored ?st sha Os Is d (table_row ?H i (map_of (ownership old)))"
    using st object_holdings_row(2) [of ?m i] old by simp
  moreover have "\<forall>ys zs. ownership old = ys @ zs \<longrightarrow> row_fits Os (update_row fst (\<lambda>_. None) (map_of (ownership old)) ys)
      \<and> table_hashes sha Os (table_row ?H i (update_row fst (\<lambda>_. None) (map_of (ownership old)) ys))"
  proof (intro allI impI conjI)
    fix ys zs assume e: "ownership old = ys @ zs"
    show "row_fits Os (update_row fst (\<lambda>_. None) (map_of (ownership old)) ys)"
      by (rule row_fits_less [OF row]) (simp add: update_row_remove)
    have "update_row fst (\<lambda>_. None) (map_of (ownership old)) ys = map_of zs"
      using update_row_drop [of ys zs] ownership_entries(1) [of old] e by simp
    with write_tables_mem(1) [of ?m i ys zs v] hash e old
    show "table_hashes sha Os (table_row ?H i (update_row fst (\<lambda>_. None) (map_of (ownership old)) ys))" by simp
  qed
  ultimately obtain d1 where d1: "for_each (\<lambda>x d. store_err ?f (update_holding ?st sha d (fst x) i None)) (ownership old) d = (Ok (), d1)"
    "owners_stored ?st sha Os Is d1 (table_row ?H i (update_row fst (\<lambda>_. None) (map_of (ownership old)) (ownership old)))"
    using update_row_stored [OF lw uni i fits _ sub, of _ _ "\<lambda>_. None" ?f] by blast
  have clear: "update_row fst (\<lambda>_. None) (map_of (ownership old)) (ownership old) = Map.empty"
    by (auto simp: update_row_remove map_of_eq_None_iff)
  have ins: "\<forall>x \<in> set (ownership v). fst x \<in> Os" using v(2) by (auto simp: owners_of_def)
  have rows: "\<forall>ys zs. ownership v = ys @ zs \<longrightarrow> row_fits Os (update_row fst (\<lambda>x. Some (snd x)) Map.empty ys)
      \<and> table_hashes sha Os (table_row ?H i (update_row fst (\<lambda>x. Some (snd x)) Map.empty ys))"
  proof (intro allI impI)
    fix ys zs assume e: "ownership v = ys @ zs"
    then have "distinct (map fst ys)" using ownership_entries(1) [of v] by simp
    with ownership_row [OF v(2) e] write_tables_mem(2) [OF e, of ?m i] hash
    show "row_fits Os (update_row fst (\<lambda>x. Some (snd x)) Map.empty ys)
        \<and> table_hashes sha Os (table_row ?H i (update_row fst (\<lambda>x. Some (snd x)) Map.empty ys))"
      by (simp add: update_row_insert)
  qed
  from update_row_stored [OF lw uni i fits d1(2) [unfolded clear] ins rows, of ?f]
  obtain d2 where d2: "for_each (\<lambda>x d. store_err ?f (update_holding ?st sha d (fst x) i (Some (snd x)))) (ownership v) d1 = (Ok (), d2)"
    "owners_stored ?st sha Os Is d2 (table_row ?H i (map_of (ownership v)))"
    using ownership_entries(1) [of v] by (auto simp: update_row_insert)
  have run: "write_owned db sha d i v = (Ok (), db_write db d2 i v)"
    using get v(1) d1(1) d2(1) by (simp add: write_owned_def pure_store_def and_store_def case_prod_unfold)
  have "i \<notin> ?N" using uni i by (auto simp: owner_universe_def)
  then have "owners_stored ?st sha Os Is (db_write db d2 i v) (object_holdings (?m(i := v)))"
    using owners_stored_frame [OF d2(2)] batch_get_write [OF laws] by (metis object_holdings_row(1))
  with run write_owned_objects [OF laws run] show ?thesis by simp
qed

section \<open>One transaction\<close>

text \<open>A sequence of object writes stays within the owners and objects in use, and no table it passes through has an
  input hashed to zero.\<close>

fun changes_within :: "sha256 \<Rightarrow> settlement_key set \<Rightarrow> object_id set \<Rightarrow> objects \<Rightarrow> object_changes \<Rightarrow> bool" where
  "changes_within sha Os Is m [] \<longleftrightarrow> True"
| "changes_within sha Os Is m ((i, v) # cs) \<longleftrightarrow> i \<in> Is \<and> owners_of v \<subseteq> Os
    \<and> (\<forall>H \<in> set (write_tables m i v). table_hashes sha Os H) \<and> changes_within sha Os Is (m(i := v)) cs"

lemma changes_within_append [simp]:
  "changes_within sha Os Is m (cs @ cs') \<longleftrightarrow> changes_within sha Os Is m cs \<and> changes_within sha Os Is (apply_changes cs m) cs'"
  by (induction cs arbitrary: m) auto

lemma changes_within_ids: "changes_within sha Os Is m cs \<Longrightarrow> x \<in> set cs \<Longrightarrow> fst x \<in> Is"
  by (induction sha Os Is m cs rule: changes_within.induct) auto

lemma write_owned_index:
  assumes "db_laws db" "owner_universe sha Os Is" "index_ok db sha Os Is d" "changes_within sha Os Is (db_objects db d) [(i, v)]"
    and w: "write_owned db sha d i v = (Ok (), d')"
  shows "index_ok db sha Os Is d'"
proof -
  from w obtain old where "db_get db d i = Ok old" "\<not> is_owner_data old" "\<not> is_owner_data v"
    unfolding write_owned_def by (auto elim!: and_store_Ok simp: pure_store_def map_err_eq_Ok split: if_splits)
  from write_owned_stored [OF assms(1-3) _ this] assms(4) w show ?thesis by auto
qed

lemma replay_index:
  assumes laws: "db_laws db" and uni: "owner_universe sha Os Is"
  shows "replay_spent db sha w ids d = (Ok (), d') \<Longrightarrow> index_ok db sha Os Is d
      \<Longrightarrow> changes_within sha Os Is (db_objects db d) (map (\<lambda>i. (coin_object_id i, None)) ids) \<Longrightarrow> index_ok db sha Os Is d'"
    and "replay_issued db sha w ids d = (Ok (), d') \<Longrightarrow> index_ok db sha Os Is d
      \<Longrightarrow> changes_within sha Os Is (db_objects db d) (map (\<lambda>i. (coin_object_id i, coin_object (bws_coin w i))) ids) \<Longrightarrow> index_ok db sha Os Is d'"
proof -
  note wr = write_owned_index [OF laws uni]
  show "replay_spent db sha w ids d = (Ok (), d') \<Longrightarrow> index_ok db sha Os Is d
      \<Longrightarrow> changes_within sha Os Is (db_objects db d) (map (\<lambda>i. (coin_object_id i, None)) ids) \<Longrightarrow> index_ok db sha Os Is d'"
  proof (induction ids arbitrary: d)
    case (Cons i ids)
    from Cons.prems(1) obtain d1 where d1: "write_owned db sha d (coin_object_id i) None = (Ok (), d1)"
      "replay_spent db sha w ids d1 = (Ok (), d')"
      unfolding replay_spent_def by (auto elim!: and_store_Ok split: if_splits)
    from Cons.IH [OF d1(2) wr [OF Cons.prems(2) _ d1(1)]] Cons.prems(3) write_owned_objects [OF laws d1(1)] show ?case by (simp add: fun_upd_def)
  qed (simp add: replay_spent_def)
  show "replay_issued db sha w ids d = (Ok (), d') \<Longrightarrow> index_ok db sha Os Is d
      \<Longrightarrow> changes_within sha Os Is (db_objects db d) (map (\<lambda>i. (coin_object_id i, coin_object (bws_coin w i))) ids) \<Longrightarrow> index_ok db sha Os Is d'"
  proof (induction ids arbitrary: d)
    case (Cons i ids)
    from Cons.prems(1) obtain c d1 where c: "bws_coin w i = Some c" and
      d1: "write_owned db sha d (coin_object_id i) (Some (ObjCoin (chain_coin_from c))) = (Ok (), d1)"
      "replay_issued db sha w ids d1 = (Ok (), d')"
      unfolding replay_issued_def by (auto elim!: and_store_Ok split: option.splits)
    from Cons.IH [OF d1(2) wr [OF Cons.prems(2) _ d1(1)]] Cons.prems(3) c write_owned_objects [OF laws d1(1)]
    show ?case by (simp add: coin_object_def fun_upd_def)
  qed (simp add: replay_issued_def)
qed

lemma replay_event_index:
  assumes laws: "db_laws db" and uni: "owner_universe sha Os Is" and st: "index_ok db sha Os Is d"
    and run: "replay_kernel_event db sha d w ev = (Ok (), d')" and within: "changes_within sha Os Is (db_objects db d) (event_changes w ev)"
  shows "index_ok db sha Os Is d'"
proof (cases ev)
  case (EdgeOpened inputs out)
  with run obtain d1 e where d1: "replay_spent db sha w inputs d = (Ok (), d1)" "bws_edge w out = Some e"
    "write_owned db sha d1 (edge_object_id out) (Some (ObjEdge e)) = (Ok (), d')"
    by (auto elim!: and_store_Ok split: option.splits)
  from write_owned_index [OF laws uni replay_index(1) [OF laws uni d1(1) st] _ d1(3)] within EdgeOpened d1(2)
    replay_spent_objects [OF laws d1(1)]
  show ?thesis by simp
next
  case (EdgeClosed inp outputs)
  with run obtain d1 where d1: "write_owned db sha d (edge_object_id inp) None = (Ok (), d1)"
    "replay_issued db sha w outputs d1 = (Ok (), d')" by (auto elim!: and_store_Ok split: if_splits)
  from replay_index(2) [OF laws uni d1(2) write_owned_index [OF laws uni st _ d1(1)]] within EdgeClosed
    write_owned_objects [OF laws d1(1)] show ?thesis by (simp add: coin_object_def fun_upd_def)
next
  case (CoinsReshaped inputs outputs)
  with run obtain d1 where d1: "replay_spent db sha w inputs d = (Ok (), d1)"
    "replay_issued db sha w outputs d1 = (Ok (), d')" by (auto elim!: and_store_Ok)
  from replay_index(2) [OF laws uni d1(2) replay_index(1) [OF laws uni d1(1) st]] within CoinsReshaped
    replay_spent_objects [OF laws d1(1)] show ?thesis by (simp add: coin_object_def)
qed

lemma ownership_chunk [simp]: "ownership (map_option ObjRegistryChunk c) = []"
  by (cases c) simp_all

lemma replay_registry_index:
  assumes laws: "db_laws db" and uni: "owner_universe sha Os Is"
  shows "replay_kernel_registry db d w ms = (Ok (), d') \<Longrightarrow> index_ok db sha Os Is d
    \<Longrightarrow> \<forall>x \<in> set ms. rm_id x \<in> Is \<and> ownership (db_objects db d (rm_id x)) = [] \<Longrightarrow> index_ok db sha Os Is d'"
proof (induction ms arbitrary: d)
  case (Cons x ms)
  define v where "v = map_option ObjRegistryChunk (rm_chunk x)"
  define d1 where "d1 = db_write db d (rm_id x) v"
  let ?m = "db_objects db d"
  from Cons.prems(1) have run: "replay_kernel_registry db d1 w ms = (Ok (), d')"
    by (auto simp: replay_kernel_registry_def d1_def v_def registry_chunk_object_id_def elim!: and_store_Ok split: if_splits)
  have m1: "db_objects db d1 = ?m(rm_id x := v)" using db_objects_write [OF laws] by (simp add: d1_def v_def)
  have "rm_id x \<notin> sha ` node_preimages (owner_uses sha Os Is)" using Cons.prems(3) uni by (auto simp: owner_universe_def)
  then have "owners_stored (batch_store db) sha Os Is d1 (object_holdings ?m)"
    using owners_stored_frame [OF Cons.prems(2)] batch_get_write [OF laws] d1_def by metis
  moreover have "object_holdings (db_objects db d1) = object_holdings ?m"
    using Cons.prems(3) by (auto simp: m1 object_holdings_def fun_eq_iff v_def)
  ultimately have "index_ok db sha Os Is d1" by simp
  from Cons.IH [OF run this] Cons.prems(3) show ?case by (auto simp: m1 v_def)
qed (simp add: replay_kernel_registry_def)

lemma event_objects:
  assumes h: "host_change b3 vf db d context t w w' (Public ev eff reg)"
  shows "object_ledger (apply_changes (event_changes w' (ev_kind ev)) (db_objects db d)) = effect_spec eff (db_ledger db d)"
proof -
  note e = host_change_effect [OF h] and slot = host_change_slots [OF h]
  have coh: "event_announces (ev_kind ev) eff" using h by (simp add: host_change_def)
  have nil: "registry_changes [] = []" "change_spec (Public ev eff []) l = effect_spec eff l" for l
    by (simp_all add: registry_changes_def diff_spec_def)
  show ?thesis
  proof (cases eff)
    case (EffectOpen coins oe)
    obtain out ed where oe: "oe = (out, ed)" by fastforce
    have "\<forall>x \<in> set coins. coin_slot (db_objects db d) (fst x)" "edge_slot (db_objects db d) out"
      using e EffectOpen oe slot(3,4) by auto
    with open_objects [of coins "db_objects db d" out "[]" ed ev] nil e coh EffectOpen oe show ?thesis
      by (cases "ev_kind ev") (auto simp: db_ledger_def coin_object_id_def edge_object_id_def)
  next
    case (EffectClose ie coins)
    obtain inp ed where ie: "ie = (inp, ed)" by fastforce
    have cs: "\<forall>x \<in> set coins. coin_slot (db_objects db d) (fst x)" "edge_slot (db_objects db d) inp"
      using e EffectClose ie slot(3,4) by auto
    with close_objects [of "db_objects db d" inp coins "[]" ev ed] nil e coh EffectClose ie show ?thesis
      by (cases "ev_kind ev") (simp_all add: db_ledger_def issued_changes del: event_changes.simps effect_spec.simps)
  next
    case (EffectReshape inputs coins)
    have "\<forall>x \<in> set inputs. coin_slot (db_objects db d) (fst x)" "\<forall>x \<in> set coins. coin_slot (db_objects db d) (fst x)"
      using e EffectReshape slot(3) by auto
    with reshape_objects [of inputs "db_objects db d" coins ev] nil e coh EffectReshape show ?thesis
      by (cases "ev_kind ev") (simp_all add: db_ledger_def issued_changes del: event_changes.simps effect_spec.simps)
  qed
qed

lemma registry_written:
  "x \<in> set reg \<Longrightarrow> \<exists>c. apply_changes (registry_changes reg) m (rm_id x) = map_option ObjRegistryChunk c"
proof (induction reg rule: rev_induct)
  case (snoc y reg)
  then show ?case by (cases "rm_id x = rm_id y") (auto simp: registry_changes_def registry_chunk_object_id_def)
qed simp

lemma unowned: "object_coin v = None \<Longrightarrow> object_edge v = None \<Longrightarrow> ownership v = []"
  by (cases v rule: ownership.cases) simp_all

lemma registry_unowned:
  assumes h: "host_change b3 vf db d context t w w' c" and x: "x \<in> set (change_registry c)"
  shows "ownership (apply_changes (case c of Public ev eff reg \<Rightarrow> event_changes w' (ev_kind ev) | Private reg \<Rightarrow> [])
    (db_objects db d) (rm_id x)) = []"
proof (cases c)
  case (Private reg)
  with host_change_slots(1) [OF h x] show ?thesis by (auto simp: chunk_slot_def intro: unowned)
next
  case (Public ev eff reg)
  define m1 where "m1 = apply_changes (event_changes w' (ev_kind ev)) (db_objects db d)"
  define m' where "m' = apply_changes (registry_changes reg) m1"
  have "outcome_changes w' (change_outcome c) = event_changes w' (ev_kind ev) @ registry_changes reg"
    using Public by (simp add: outcome_changes_def registry_changes_def)
  then have "object_ledger m' = change_spec c (db_ledger db d)" using outcome_refines [OF h] by (simp add: m'_def m1_def)
  then have "l_coins (object_ledger m') = l_coins (object_ledger m1)" "l_edges (object_ledger m') = l_edges (object_ledger m1)"
    using event_objects [OF h [unfolded Public]] Public by (simp_all add: m1_def diff_spec_def)
  then have "object_coin (m1 (rm_id x)) = object_coin (m' (rm_id x))" "object_edge (m1 (rm_id x)) = object_edge (m' (rm_id x))"
    by (simp_all add: object_ledger_def fun_eq_iff)
  moreover obtain ch where "m' (rm_id x) = map_option ObjRegistryChunk ch"
    using registry_written [of x reg m1] x Public by (auto simp: m'_def)
  ultimately show ?thesis using Public by (cases ch) (auto simp: m1_def intro!: unowned)
qed

lemma transaction_index:
  assumes laws: "db_laws db" and uni: "owner_universe sha Os Is" and st: "index_ok db sha Os Is d" and apart: "tx_apart b3 context t"
    and tx: "apply_kernel_transaction_observed b3 vf sha db d context t (Some changes) = ((Ok (), d'), changes')"
  shows "\<exists>cs. changes' = Some (changes @ cs) \<and> db_objects db d' = apply_changes cs (db_objects db d)
    \<and> (changes_within sha Os Is (db_objects db d) cs \<longrightarrow> index_ok db sha Os Is d')"
proof -
  from tx obtain w w' outcome d1 where 1: "load_kernel_slots b3 db d context t = Ok w"
    and 2: "state_apply b3 vf bws_store w context t = (Ok outcome, w')"
    and 3: "(case ao_public_event outcome of Some ev \<Rightarrow> replay_kernel_event db sha d w' (ev_kind ev) | None \<Rightarrow> (Ok (), d)) = (Ok (), d1)"
      "replay_kernel_registry db d1 w' (ao_registry outcome) = (Ok (), d')"
    and 4: "changes' = map_option (\<lambda>cs. cs @ outcome_changes w' outcome) (Some changes)" by (rule observed_Ok)
  have l: "loaded_from db d w" "bws_inv w" using load_kernel_slots_Ok [OF 1] by (auto simp: tx_loaded_def loaded_from_def)
  from l(2) 2 obtain c where c: "tx_apply b3 vf wb_ops (bws_begin w) context t = Ok c" "outcome = change_outcome c"
    "change_fold wb_ops (bws_begin w) c = Ok (bws_begin w')" "ws_ledger w' = change_spec c (ws_ledger w)" "change_coherent c"
    by (rule state_apply_change)
  have h: "host_change b3 vf db d context t w w' c" using l(1) c apart by (simp add: host_change_def)
  have "index_ok db sha Os Is d'" if within: "changes_within sha Os Is (db_objects db d) (outcome_changes w' outcome)"
  proof -
    have reg: "\<forall>x \<in> set (change_registry c). rm_id x \<in> Is"
      using changes_within_ids [OF within] c(2) by (fastforce simp: outcome_changes_def registry_chunk_object_id_def)
    have d1: "index_ok db sha Os Is d1
        \<and> db_objects db d1 = apply_changes (case c of Public ev eff reg \<Rightarrow> event_changes w' (ev_kind ev) | Private reg \<Rightarrow> []) (db_objects db d)"
    proof (cases c)
      case (Public ev eff r)
      with 3(1) c(2) have "replay_kernel_event db sha d w' (ev_kind ev) = (Ok (), d1)" by simp
      from replay_event_index [OF laws uni st this] replay_event_objects [OF laws this] within c(2) Public show ?thesis
        by (simp add: outcome_changes_def)
    qed (use 3(1) c(2) st in simp)
    from replay_registry_index [OF laws uni 3(2) conjunct1 [OF d1]] registry_unowned [OF h] reg d1 c(2) show ?thesis by simp
  qed
  moreover have "db_objects db d' = apply_changes (outcome_changes w' outcome) (db_objects db d)"
    by (rule outcome_objects(1) [OF laws 3])
  ultimately show ?thesis using 4 by auto
qed

section \<open>Whole blocks\<close>

definition txs_apart :: "blake3 \<Rightarrow> ctx \<Rightarrow> transaction list \<Rightarrow> bool" where
  "txs_apart b3 context txs \<longleftrightarrow> list_all (\<lambda>tx. case tx of Kernel t \<Rightarrow> tx_apart b3 context t) txs"

lemma seed_genesis_index:
  assumes laws: "db_laws db" and uni: "owner_universe sha Os Is" and st: "index_ok db sha Os Is d"
    and run: "maybe_seed_genesis sha w16 db context allocations d = (Ok (), d')"
    and within: "changes_within sha Os Is (db_objects db d) (genesis_changes sha w16 context allocations)"
  shows "index_ok db sha Os Is d'"
proof (cases "ctx_block_height context = 1")
  case True
  define cs where "cs = genesis_coins sha w16 allocations"
  have "for_each (\<lambda>(i, c) d. write_owned db sha d i (Some (ObjCoin c))) cs d = (Ok (), d')"
    "changes_within sha Os Is (db_objects db d) (map (\<lambda>(i, c). (i, Some (ObjCoin c))) cs)"
    using run within True by (simp_all add: maybe_seed_genesis_def genesis_changes_def cs_def)
  then show ?thesis using st
  proof (induction cs arbitrary: d)
    case (Cons x cs)
    obtain i c where x: "x = (i, c)" by fastforce
    from Cons.prems(1) obtain d1 where d1: "write_owned db sha d i (Some (ObjCoin c)) = (Ok (), d1)"
      "for_each (\<lambda>(i, c) d. write_owned db sha d i (Some (ObjCoin c))) cs d1 = (Ok (), d')"
      by (auto simp: x elim!: and_store_Ok)
    from Cons.IH [OF d1(2) _ write_owned_index [OF laws uni Cons.prems(3) _ d1(1)]] Cons.prems(2) x
      write_owned_objects [OF laws d1(1)] show ?case by (simp add: fun_upd_def)
  qed simp
qed (use run st in \<open>simp add: maybe_seed_genesis_def\<close>)

lemma observe_transactions_index:
  assumes laws: "db_laws db" and uni: "owner_universe sha Os Is" and st: "index_ok db sha Os Is d" and apart: "txs_apart b3 cx txs"
    and run: "observe_transactions b3 vf sha db cx txs changes d = Ok (d', changes')"
  shows "\<exists>cs. changes' = changes @ cs \<and> (changes_within sha Os Is (db_objects db d) cs \<longrightarrow> index_ok db sha Os Is d')"
  using st apart run
proof (induction txs arbitrary: d changes)
  case (Cons tx txs)
  obtain t where t: "tx = Kernel t" by (cases tx)
  with Cons.prems(3) obtain d1 mid where o: "apply_kernel_transaction_observed b3 vf sha db d cx t (Some changes) = ((Ok (), d1), mid)"
    and r: "observe_transactions b3 vf sha db cx txs (the mid) d1 = Ok (d', changes')"
    by (auto split: prod.splits result.splits)
  have "tx_apart b3 cx t" "txs_apart b3 cx txs" using Cons.prems(2) t by (auto simp: txs_apart_def)
  from transaction_index [OF laws uni Cons.prems(1) this(1) o] obtain cs where
    cs: "mid = Some (changes @ cs)" "changes_within sha Os Is (db_objects db d) cs \<Longrightarrow> index_ok db sha Os Is d1"
      "db_objects db d1 = apply_changes cs (db_objects db d)" by blast
  show ?case
  proof (cases "changes_within sha Os Is (db_objects db d) cs")
    case True
    from Cons.IH [OF cs(2) [OF True] \<open>txs_apart b3 cx txs\<close> r] cs(1,3) True show ?thesis by auto
  next
    case False
    from observe_transactions_result [OF laws, where ?b3.0 = b3 and vf = vf and sha = sha and cx = cx and txs = txs and d = d1
        and changes = "changes @ cs"] r cs(1)
    have "\<exists>cs'. changes' = changes @ cs @ cs'" by (auto split: prod.splits result.splits)
    with False show ?thesis by auto
  qed
qed simp

lemma execute_index:
  assumes "db_laws db" "owner_universe sha Os Is" "index_ok db sha Os Is d" "txs_apart b3 cx txs"
    and run: "execute_all_observed b3 vf sha w16 db cx txs allocations d = Ok (d', cs)" 
    and within: "changes_within sha Os Is (db_objects db d) cs"
  shows "index_ok db sha Os Is d'"
proof -
  from run obtain d1 where d1: "maybe_seed_genesis sha w16 db cx allocations d = (Ok (), d1)"
    "observe_transactions b3 vf sha db cx txs (genesis_changes sha w16 cx allocations) d1 = Ok (d', cs)"
    by (auto simp: execute_all_observed_def split: prod.splits result.splits)
  have g: "changes_within sha Os Is (db_objects db d) (genesis_changes sha w16 cx allocations)"
    using observe_transactions_result [OF assms(1), where ?b3.0 = b3 and vf = vf and sha = sha and cx = cx and txs = txs and d = d1
        and changes = "genesis_changes sha w16 cx allocations"] d1(2) within by (auto split: prod.splits result.splits)
  from observe_transactions_index [OF assms(1,2) seed_genesis_index [OF assms(1-3) d1(1) g] assms(4) d1(2)] within
    seed_genesis_objects [OF assms(1) d1(1)]
  show ?thesis by auto
qed

lemma index_root:
  assumes "index_ok db sha Os Is d" "owner_universe sha Os Is" "owner \<in> Os"
  shows "owner_tree_root db sha d = Ok (owner_digest sha Os (object_holdings (db_objects db d)))"
proof -
  have "owner_tree_root db sha d = owner_root (batch_store db) sha d"
    by (simp add: owner_tree_root_def owner_root_def stored_owner_tree_def batch_store_def)
  with owner_root_digest [OF assms(1) _ assms(3)] assms(2) show ?thesis by (simp add: owner_universe_def hash_apart_def)
qed

section \<open>What an owner's entries are worth\<close>

lemma map_of_ownership:
  "map_of (ownership v) owner = Some (k, b) \<Longrightarrow>
    unat b = (case object_coin v of Some c \<Rightarrow> if coin_owner c = owner then unat (coin_value c) else 0 | None \<Rightarrow> 0)"
  "object_coin v = Some c \<Longrightarrow> coin_owner c = owner \<Longrightarrow> map_of (ownership v) owner = Some (HOLDING_COIN, coin_value c)"
  by (cases v rule: ownership.cases;
    auto simp: coin_holdings_def kernel_coin_from_def coin_issue_def dest!: map_of_SomeD split: option.splits if_splits)+

definition owner_coins :: "ledger \<Rightarrow> settlement_key \<Rightarrow> coin_id set" where
  "owner_coins l owner = {i. \<exists>c. l_coins l i = Some c \<and> coin_owner c = owner}"

lemma owner_entries_worth:
  "(\<Sum>i \<in> dom (object_holdings m owner). unat (snd (the (object_holdings m owner i))))
    = (\<Sum>i \<in> owner_coins (object_ledger m) owner. unat (coin_value (the (l_coins (object_ledger m) i))))"
proof (rule sum.mono_neutral_cong_right)
  show "finite (dom (object_holdings m owner))" by (rule finite)
  show "owner_coins (object_ledger m) owner \<subseteq> dom (object_holdings m owner)"
    using map_of_ownership(2) by (fastforce simp: owner_coins_def object_ledger_def object_holdings_def)
  show "\<forall>i \<in> dom (object_holdings m owner) - owner_coins (object_ledger m) owner. unat (snd (the (object_holdings m owner i))) = 0"
    using map_of_ownership(1) by (fastforce simp: owner_coins_def object_ledger_def object_holdings_def split: option.splits)
  show "unat (snd (the (object_holdings m owner i))) = unat (coin_value (the (l_coins (object_ledger m) i)))"
    if "i \<in> owner_coins (object_ledger m) owner" for i
    using that map_of_ownership(2) by (fastforce simp: owner_coins_def object_ledger_def object_holdings_def)
qed

end
