(* ===== verification/Chain_Examples.thy ===== *)
theory Chain_Examples
  imports Chain_Owners Ledger_Authority
begin

text \<open>A concrete database on which the properties of the host are evaluated: the objects as a map, with a payment
  edge under contest and the response that answers it. Nothing here models code.\<close>

definition mem_db :: "objects object_db" where
  "mem_db = \<lparr>db_get = (\<lambda>d k. Ok (d k)), db_write = (\<lambda>d k v. d(k := v))\<rparr>"

definition ex_sha0 :: sha256 where "ex_sha0 bs = 0"

lemma mem_db_simps [simp]: "db_get mem_db d k = Ok (d k)" "db_write mem_db d k v = d(k := v)"
  by (simp_all add: mem_db_def)

lemma mem_db_laws: "db_laws mem_db"
  by (simp add: db_laws_def)

definition ex_objects :: objects where
  "ex_objects = [4 \<mapsto> ObjEdge ex_payment_edge, 0 \<mapsto> ObjRegistryChunk (the (pending_to_chunk ex_pending))]"

definition ex_answer :: tx where "ex_answer = TxMove (RespondPaymentClose ex_response)"

definition ex_answered :: objects where
  "ex_answered = ex_objects(0 \<mapsto> ObjRegistryChunk (the (pending_to_chunk (with_accepted_response ex_pending ex_response))))"

lemma ex_answer_apart: "ids_apart b3 context ex_answer" "tx_apart b3 context ex_answer"
  by (simp_all add: ids_apart_def tx_apart_def ex_answer_def)

definition ex_loaded :: block_working_set where
  "ex_loaded = \<lparr>bws_coins = Map.empty, bws_edges = [4 \<mapsto> Some ex_payment_edge], bws_registry = [0 \<mapsto> pending_to_chunk ex_pending]\<rparr>"

lemma ex_answer_load: "load_kernel_slots ex_b3 mem_db ex_objects context ex_answer = Ok ex_loaded"
proof -
  obtain c where "pending_to_chunk ex_pending = Some c" using pending_to_chunk_parse by blast
  then show ?thesis
    by (simp add: ex_answer_def ex_response_def load_edge_slot_def load_registry_chunk_slot_def ex_pending_slot ex_objects_def
        edge_object_id_def registry_chunk_object_id_def bws_new_def insert_edge_slot_def insert_registry_chunk_slot_def ex_loaded_def)
qed

lemma ex_answer_change:
  "\<exists>c. pending_to_chunk (with_accepted_response ex_pending ex_response) = Some c
    \<and> tx_apply ex_b3 ex_vf wb_ops (bws_begin ex_loaded) ex_ctx ex_answer = Ok (change_private [mutation_write 0 c])"
proof -
  have agree: "reads_agree ex_b3 ex_ctx ex_answer wb_ops (bws_begin ex_loaded) wb_ops (bws_begin ex_contest)"
    by (auto simp: reads_agree_def ex_answer_def ex_loaded_def ex_contest_def bws_begin_def slot_get_def ex_response_def
        ex_pending_slot)
  obtain c where ok: "apply_response ex_b3 ex_vf wb_ops (bws_begin ex_contest) ex_ctx ex_response = Ok c"
    using ex_response_accepted by blast
  from ok obtain p chunk where p: "check_response ex_b3 ex_vf wb_ops (bws_begin ex_contest) ex_ctx ex_response = Ok p"
    "pending_to_chunk p = Some chunk"
    "c = change_private [mutation_write (pending_payment_close_slot ex_b3 (ctx_network ex_ctx) (pr_payment_edge ex_response)) chunk]"
    by (rule apply_response_Ok)
  from p(1) obtain rec where "read_pending wb_ops (bws_begin ex_contest) ex_b3 ex_ctx (pr_payment_edge ex_response) = Ok (Some rec)"
    "p = with_accepted_response rec ex_response" by (rule check_response_Ok)
  moreover have "pr_payment_edge ex_response = 4" by (simp add: ex_response_def)
  ultimately have "p = with_accepted_response ex_pending ex_response" by (simp add: read_pending_def ex_contest_read del: wb_ops_simps)
  with p(2,3) ok tx_apply_reads [OF agree] show ?thesis by (simp add: ex_answer_def ex_pending_slot)
qed

definition ex_replied :: block_working_set where
  "ex_replied = ex_loaded\<lparr>bws_registry := [0 \<mapsto> pending_to_chunk (with_accepted_response ex_pending ex_response)]\<rparr>"

lemma ex_answer_state:
  "\<exists>c. pending_to_chunk (with_accepted_response ex_pending ex_response) = Some c
    \<and> state_apply ex_b3 ex_vf bws_store ex_loaded ex_ctx ex_answer = (Ok (change_outcome (change_private [mutation_write 0 c])), ex_replied)"
proof -
  from ex_answer_change obtain c where c: "pending_to_chunk (with_accepted_response ex_pending ex_response) = Some c"
    "tx_apply ex_b3 ex_vf wb_ops (bws_begin ex_loaded) ex_ctx ex_answer = Ok (change_private [mutation_write 0 c])" by blast
  obtain c0 where "pending_to_chunk ex_pending = Some c0" using pending_to_chunk_parse by blast
  with c show ?thesis
    by (simp add: state_apply_def fold_one_def fold_change_def change_private_def)
      (simp add: ex_ledger_defs ex_fold_defs bws_begin_def wb_commit_def ex_loaded_def ex_replied_def mutation_write_def fun_eq_iff)
qed

lemma ex_answer_host:
  "\<exists>cs. apply_kernel_transaction_observed ex_b3 ex_vf ex_sha0 mem_db ex_objects ex_ctx ex_answer (Some [])
    = ((Ok (), ex_answered), Some cs)"
proof -
  from ex_answer_state obtain c where c: "pending_to_chunk (with_accepted_response ex_pending ex_response) = Some c"
    "state_apply ex_b3 ex_vf bws_store ex_loaded ex_ctx ex_answer = (Ok (change_outcome (change_private [mutation_write 0 c])), ex_replied)"
    by blast
  have "check_open ex_ctx ex_answer = Ok ()" by (simp add: check_open_def ex_answer_def)
  with c ex_answer_load show ?thesis
    by (simp add: apply_kernel_transaction_observed_def change_private_def replay_kernel_registry_def ex_replied_def
        bws_registry_chunk_def mutation_write_def registry_chunk_object_id_def ex_answered_def)
qed

section \<open>A genesis block\<close>

text \<open>One allocation of seven units to one owner, under the hash of the owner tree's example.\<close>

abbreviation gen_owner :: settlement_key where "gen_owner \<equiv> Owner_Examples.ex_owner"

definition gen_allocations :: "(settlement_key \<times> u64) list" where "gen_allocations = [(gen_owner, 7)]"

definition gen_w16 :: "u16 \<Rightarrow> bytes" where "gen_w16 i = to_be_bytes i"

definition gen_start :: objects where "gen_start = (\<lambda>_. None)"

lemma gen_coins: "genesis_coins ex_sha gen_w16 gen_allocations = [(0, chain_coin_owned gen_owner 7)]"
  by (simp add: genesis_coins_def gen_allocations_def genesis_object_id_def gen_w16_def ex_sha_def length_to_be_bytes ascii_def)

lemma gen_hashes:
  assumes "leaf_commit ex_sha scope 0 (Some l) = Ok (ex_worth b h 0)" "ex_sha (leaf_preimage scope 0 l) \<noteq> 0" "unat h < 2000"
  shows "0 \<notin> ex_sha ` tree_preimages ex_sha scope [0 \<mapsto> l]"
proof
  assume "0 \<in> ex_sha ` tree_preimages ex_sha scope [0 \<mapsto> l]"
  then obtain x where x: "x \<in> tree_preimages ex_sha scope [0 \<mapsto> l]" "0 = ex_sha x" by (rule imageE)
  have "ex_sha (branch_preimage oc_default oc_default) \<noteq> 0" by (simp add: ex_sha_branch oc_default_def)
  moreover have "x = leaf_preimage scope 0 l \<or> x = branch_preimage oc_default oc_default
      \<or> (\<exists>n < 256. x = branch_preimage (ex_worth b h n) oc_default)"
    using subsetD [OF tree_preimages_single [OF assms(1)] x(1)] by blast
  ultimately obtain n where n: "n < 256" "x = branch_preimage (ex_worth b h n) oc_default" using x(2) assms(2) by auto
  with x(2) have "unat (h + of_nat n + 1) = 0" by (simp add: ex_sha_branch ex_worth_def oc_default_def)
  with assms(3) n(1) show False by (simp add: unat_word_ariths unat_of_nat)
qed

lemma gen_table_hashes:
  "table_hashes ex_sha {gen_owner} (\<lambda>_ _. None)"
  "holding_valid k b \<Longrightarrow> table_hashes ex_sha {gen_owner} ((\<lambda>_ _. None)(gen_owner := [0 \<mapsto> (k, b)]))"
proof -
  show "table_hashes ex_sha {gen_owner} (\<lambda>_ _. None)"
    using no_holdings_ok(1) [of "{gen_owner}" "{0}" ex_sha]
    by (simp add: table_hashes_def holdings_ok_def ex_sha_owner ex_sha_branch oc_default_def)
  assume v: "holding_valid k b"
  let ?l = "Holding k b" and ?s = "Summary (ex_worth (ucast b) 2 256)" and ?H = "(\<lambda>_ _. None)(gen_owner := [0 \<mapsto> (k, b)])"
  have m: "hold_map ?H gen_owner = [0 \<mapsto> ?l]" by (auto simp: hold_map_def)
  have l: "leaf_commit ex_sha 5 0 (Some ?l) = Ok (ex_worth (ucast b) 2 0)"
    "leaf_commit ex_sha 0 0 (Some ?s) = Ok (ex_worth (ucast b) 1000 0)"
    using v by (simp_all add: leaf_commit_def ex_sha_leaf ex_worth_def)
  have root: "commit_at ex_sha 5 [0 \<mapsto> ?l] 256 0 = Ok (ex_worth (ucast b) 2 256)" by (rule commit_at_single [OF l(1) order_refl])
  have "summary_of ex_sha ?H gen_owner = Some ?s"
    unfolding summary_of_def ex_sha_owner m root by (simp add: ex_worth_def)
  then have "summaries ex_sha {gen_owner} ?H = [0 \<mapsto> ?s]"
    by (auto simp: summaries_def ex_sha_owner inv_into_def fun_eq_iff)
  with gen_hashes [OF l(1)] gen_hashes [OF l(2)] m show "table_hashes ex_sha {gen_owner} ?H"
    by (simp add: table_hashes_def ex_sha_leaf ex_sha_owner)
qed

lemma gen_universe: "owner_universe ex_sha {gen_owner} {0}"
proof -
  have "n + of_nat d \<noteq> (0 :: bytes32)" if "d \<le> 256" "n = 10000 \<or> n = 15000" for n d
  proof
    assume "n + of_nat d = (0 :: bytes32)"
    then have "unat (n + of_nat d :: bytes32) = 0" by simp
    with that show False by (auto simp: unat_word_ariths unat_of_nat dest!: dvd_imp_le)
  qed
  then have "0 \<notin> ex_sha ` node_preimages (owner_uses ex_sha {gen_owner} {0})"
    by (auto simp: node_preimages_def owner_uses_def ex_sha_owner ex_sha_node)
  then show ?thesis using ex_hash_apart by (simp add: owner_universe_def ex_sha_owner)
qed

interpretation mdb: owner_store_laws "batch_store mem_db"
  by (rule batch_store_laws [OF mem_db_laws])

lemma gen_start_index: "index_ok mem_db ex_sha {gen_owner} {0} gen_start"
proof -
  have "object_holdings (db_objects mem_db gen_start) = (\<lambda>_ _. None)"
    by (simp add: object_holdings_def db_objects_def object_at_def gen_start_def fun_eq_iff)
  then show ?thesis
    using empty_store [of "{gen_owner}" "{0}" ex_sha "batch_store mem_db" gen_start]
    by (simp add: ex_sha_branch oc_default_def batch_store_def batch_get_node_def gen_start_def)
qed

definition gen_changes :: object_changes where "gen_changes = [(0, Some (ObjCoin (chain_coin_owned gen_owner 7)))]"

lemma gen_start_objects: "db_objects mem_db gen_start = (\<lambda>_. None)"
  by (simp add: db_objects_def object_at_def gen_start_def)

lemma gen_within: "changes_within ex_sha {gen_owner} {0} (db_objects mem_db gen_start) gen_changes"
proof -
  have "table_row (object_holdings (\<lambda>_. None)) 0 (map_of []) = (\<lambda>_ _. None)"
    "table_row (object_holdings (\<lambda>_. None)) 0 [gen_owner \<mapsto> (HOLDING_COIN, 7)] = (\<lambda>_ _. None)(gen_owner := [0 \<mapsto> (HOLDING_COIN, 7)])"
    by (auto simp: table_row_def object_holdings_def fun_eq_iff)
  moreover have "holding_valid HOLDING_COIN 7" by (simp add: holding_valid_def HOLDING_COIN_def)
  ultimately show ?thesis using gen_table_hashes
    by (simp add: gen_changes_def owners_of_def coin_holdings_def chain_coin_owned_def gen_start_objects write_tables_def)
qed

abbreviation gen_ctx :: "bytes32 \<Rightarrow> ctx" where "gen_ctx parent \<equiv> kernel_context (ascii ''net'') 1 parent"

lemma gen_run:
  "\<exists>d. execute_all_observed ex_b3 ex_vf ex_sha gen_w16 mem_db (gen_ctx parent) [] gen_allocations gen_start = Ok (d, gen_changes)
    \<and> execute_all ex_b3 ex_vf ex_sha gen_w16 mem_db (gen_ctx parent) [] gen_allocations gen_start = (Ok (), d)
    \<and> index_ok mem_db ex_sha {gen_owner} {0} d \<and> db_objects mem_db d = [0 \<mapsto> ObjCoin (chain_coin_owned gen_owner 7)]"
proof -
  let ?v = "Some (ObjCoin (chain_coin_owned gen_owner 7))"
  have v: "owners_of ?v \<subseteq> {gen_owner}" "\<not> is_owner_data ?v"
    "\<forall>H \<in> set (write_tables (db_objects mem_db gen_start) 0 ?v). table_hashes ex_sha {gen_owner} H"
    using gen_within by (simp_all add: gen_changes_def)
  obtain d where d: "write_owned mem_db ex_sha gen_start 0 ?v = (Ok (), d)" "index_ok mem_db ex_sha {gen_owner} {0} d"
    using write_owned_stored [OF mem_db_laws gen_universe gen_start_index, of 0 None ?v] v by (auto simp: gen_start_def)
  with gen_start_objects write_owned_objects [OF mem_db_laws d(1)] have "db_objects mem_db d = [0 \<mapsto> ObjCoin (chain_coin_owned gen_owner 7)]" by simp
  moreover have "maybe_seed_genesis ex_sha gen_w16 mem_db (gen_ctx parent) gen_allocations gen_start = (Ok (), d)"
    using d(1) by (simp add: maybe_seed_genesis_def gen_coins and_store_def)
  moreover have "genesis_changes ex_sha gen_w16 (gen_ctx parent) gen_allocations = gen_changes"
    by (simp add: genesis_changes_def gen_coins gen_changes_def)
  ultimately show ?thesis using d(2)
    by (auto simp: execute_all_observed_def execute_all_def and_store_def)
qed

definition gen_merkle :: "(objects, unit, unit) merkle" where
  "gen_merkle = \<lparr>mk_merkleize = (\<lambda>_. Ok ()), mk_root = (\<lambda>_. 0), mk_sync_target = (\<lambda>_. ())\<rparr>"

definition gen_block :: "(unit, unit) hellas_block" where
  "gen_block = with_owner_root (hb_new () 0 1 0 0 () []) (owner_digest ex_sha {gen_owner} ex_holdings)"

lemma gen_holdings: "object_holdings [0 \<mapsto> ObjCoin (chain_coin_owned gen_owner 7)] = ex_holdings"
  by (auto simp: object_holdings_def ex_holdings_def coin_holdings_def chain_coin_owned_def fun_eq_iff)

lemma gen_block_fields [simp]: "hb_height gen_block = 1" "hb_parent gen_block = 0" "hb_txs gen_block = []"
  by (simp_all add: gen_block_def with_owner_root_def hb_new_def)

lemma gen_check:
  assumes "index_ok mem_db ex_sha {gen_owner} {0} d" "db_objects mem_db d = [0 \<mapsto> ObjCoin (chain_coin_owned gen_owner 7)]"
  shows "finalized_check ex_sha mem_db gen_merkle gen_block d = Ok ()"
  using index_root [OF assms(1) gen_universe, of gen_owner] gen_holdings
  by (simp add: finalized_check_Ok assms(2) gen_block_def with_owner_root_def hb_new_def gen_merkle_def)

end
