(* ===== verification/BTree_Map.thy ===== *)
theory BTree_Map
  imports Kernel_Prelude "HOL-Library.Product_Lexorder"
begin

text \<open>The ordered maps and sets of the standard library that the chain's indices and queues are made of. A \<^verbatim>\<open>BTreeMap\<close>
  is the list of its entries in strictly ascending key order, which is also the order it is iterated in; a
  \<^verbatim>\<open>BTreeSet\<close> is such a map to the unit value. The contract a client relies on is the locale \<open>ordered_map\<close>.\<close>

type_synonym ('k, 'v) btree_map = "('k \<times> 'v) list"
type_synonym 'k btree_set = "('k \<times> unit) list"

definition bt_wf :: "('k::linorder, 'v) btree_map \<Rightarrow> bool" where
  "bt_wf m \<longleftrightarrow> sorted_wrt (<) (map fst m)"

definition bt_empty :: "('k, 'v) btree_map" where "bt_empty = []"

definition bt_get :: "('k, 'v) btree_map \<Rightarrow> 'k \<Rightarrow> 'v option" where "bt_get m k = map_of m k"

fun bt_insert :: "('k::linorder) \<Rightarrow> 'v \<Rightarrow> ('k, 'v) btree_map \<Rightarrow> ('k, 'v) btree_map" where
  "bt_insert k v [] = [(k, v)]"
| "bt_insert k v ((k', v') # m) =
    (if k < k' then (k, v) # (k', v') # m else if k = k' then (k, v) # m else (k', v') # bt_insert k v m)"

definition bt_remove :: "'k \<Rightarrow> ('k, 'v) btree_map \<Rightarrow> ('k, 'v) btree_map" where
  "bt_remove k m = filter (\<lambda>(k', _). k' \<noteq> k) m"

definition bt_retain :: "('k \<Rightarrow> 'v \<Rightarrow> bool) \<Rightarrow> ('k, 'v) btree_map \<Rightarrow> ('k, 'v) btree_map" where
  "bt_retain P m = filter (\<lambda>(k, v). P k v) m"

section \<open>The contract\<close>

locale ordered_map =
  fixes get :: "'m \<Rightarrow> 'k::linorder \<Rightarrow> 'v option"
    and empty :: 'm
    and insert :: "'k \<Rightarrow> 'v \<Rightarrow> 'm \<Rightarrow> 'm"
    and remove :: "'k \<Rightarrow> 'm \<Rightarrow> 'm"
    and entries :: "'m \<Rightarrow> ('k \<times> 'v) list"
    and wf :: "'m \<Rightarrow> bool"
  assumes wf_empty: "wf empty" and get_empty: "get empty k = None"
    and wf_insert: "wf m \<Longrightarrow> wf (insert k v m)"
    and get_insert: "wf m \<Longrightarrow> get (insert k v m) = (get m)(k \<mapsto> v)"
    and wf_remove: "wf m \<Longrightarrow> wf (remove k m)"
    and get_remove: "wf m \<Longrightarrow> get (remove k m) = (get m)(k := None)"
    and get_entries: "wf m \<Longrightarrow> get m = map_of (entries m)"
    and sorted_entries: "wf m \<Longrightarrow> sorted_wrt (<) (map fst (entries m))"
begin

text \<open>Two maps with the same lookups list the same entries, so the contents determine the iteration.\<close>

lemma entries_unique:
  assumes "wf m" "wf n" "get m = get n"
  shows "entries m = entries n"
proof -
  have sd: "sorted (map fst (entries x))" "distinct (map fst (entries x))" if "wf x" for x
    using sorted_entries [OF that] by (auto simp: strict_sorted_iff)
  have "map_of (entries m) = map_of (entries n)" using assms by (simp add: get_entries)
  then have "set (entries m) = set (entries n)" using sd assms(1,2) by (metis map_of_inject_set)
  then show ?thesis
    using sd assms(1,2) by (intro map_sorted_distinct_set_unique [of fst]) (auto simp: distinct_map intro: inj_on_subset)
qed

lemma insert_fresh_length: "wf m \<Longrightarrow> get m k = None \<Longrightarrow> length (entries (insert k v m)) = Suc (length (entries m))"
proof -
  assume m: "wf m" "get m k = None"
  have card: "card (dom (get x)) = length (entries x)" if "wf x" for x
  proof -
    have "distinct (map fst (entries x))" using sorted_entries [OF that] by (simp add: strict_sorted_iff)
    then show ?thesis using get_entries [OF that]
      by (simp add: dom_map_of_conv_image_fst distinct_card flip: set_map)
  qed
  have "finite (dom (get m))" using get_entries [OF m(1)] by (simp add: finite_dom_map_of)
  then have "card (dom (get (insert k v m))) = Suc (card (dom (get m)))"
    using m by (simp add: get_insert domIff)
  with card m(1) wf_insert show ?thesis by metis
qed

end

section \<open>Sorted lists meet it\<close>

lemma set_bt_insert: "fst ` set (bt_insert k v m) = {k} \<union> fst ` set m"
  by (induction k v m rule: bt_insert.induct) auto

lemma bt_wf_Cons: "bt_wf (x # m) \<longleftrightarrow> (\<forall>k \<in> fst ` set m. fst x < k) \<and> bt_wf m"
  by (simp add: bt_wf_def)

lemma bt_wf_insert: "bt_wf m \<Longrightarrow> bt_wf (bt_insert k v m)"
proof (induction k v m rule: bt_insert.induct)
  case (2 k v k' v' m)
  consider "k < k'" | "k = k'" | "k' < k" by (rule linorder_cases)
  then show ?case
  proof cases
    case 1
    with 2(2) show ?thesis by (auto simp: bt_wf_Cons)
  next
    case 3
    with 2 show ?thesis by (auto simp: bt_wf_Cons set_bt_insert)
  qed (use 2(2) in \<open>simp add: bt_wf_Cons\<close>)
qed (simp add: bt_wf_def)

lemma bt_get_insert: "bt_wf m \<Longrightarrow> bt_get (bt_insert k v m) = (bt_get m)(k \<mapsto> v)"
  unfolding bt_get_def
proof (induction k v m rule: bt_insert.induct)
  case (2 k v k' v' m)
  then show ?case by (auto simp: bt_wf_Cons fun_eq_iff)
qed (simp add: fun_eq_iff)

lemma map_of_filter_key: "map_of (filter (\<lambda>(k', _). k' \<noteq> k) m) = (map_of m)(k := None)"
  by (induction m) (auto simp: fun_eq_iff)

interpretation bt: ordered_map bt_get bt_empty bt_insert bt_remove "\<lambda>m. m" bt_wf
proof (unfold_locales, goal_cases)
  case (4 m k v)
  then show ?case by (rule bt_get_insert)
next
  case (5 m k)
  then show ?case by (simp add: bt_wf_def bt_remove_def sorted_wrt_map sorted_wrt_filter)
next
  case (6 m k)
  show ?case by (simp add: bt_get_def [abs_def] bt_remove_def map_of_filter_key fun_eq_iff)
next
  case (7 m)
  show ?case by (simp add: bt_get_def [abs_def])
qed (simp_all add: bt_wf_def bt_empty_def bt_get_def bt_wf_insert [unfolded bt_wf_def])

lemmas bt_simps [simp] = bt.wf_empty bt.get_empty bt.wf_insert bt.get_insert bt.wf_remove bt.get_remove

lemma bt_wf_retain [simp]: "bt_wf m \<Longrightarrow> bt_wf (bt_retain P m)"
  by (simp add: bt_wf_def bt_retain_def sorted_wrt_map sorted_wrt_filter)

lemma bt_entry: "bt_wf m \<Longrightarrow> bt_get m k = Some v \<longleftrightarrow> (k, v) \<in> set m"
  by (auto simp: bt_get_def bt_wf_def strict_sorted_iff)

lemma bt_get_retain: "bt_wf m \<Longrightarrow> bt_get (bt_retain P m) k = (case bt_get m k of Some v \<Rightarrow> if P k v then Some v else None | None \<Rightarrow> None)"
proof (cases "bt_get m k")
  case None
  moreover assume "bt_wf m"
  ultimately have "(k, v) \<notin> set (bt_retain P m)" for v using bt_entry [of m k] by (auto simp: bt_retain_def)
  with \<open>bt_wf m\<close> bt_entry [of "bt_retain P m" k] None show ?thesis by (metis bt_wf_retain not_None_eq option.simps(4))
next
  case (Some v)
  assume wf: "bt_wf m"
  have "(k, u) \<in> set m \<longleftrightarrow> u = v" for u using bt_entry [OF wf, of k u] Some by auto
  then have "(k, u) \<in> set (bt_retain P m) \<longleftrightarrow> u = v \<and> P k v" for u by (auto simp: bt_retain_def)
  with wf bt_entry [of "bt_retain P m" k] Some show ?thesis by (cases "bt_get (bt_retain P m) k") auto
qed

lemma bt_length_retain: "length (bt_retain P m) \<le> length m"
  by (simp add: bt_retain_def)

lemma bt_empty_iff: "bt_wf m \<Longrightarrow> m = [] \<longleftrightarrow> (\<forall>k. bt_get m k = None)"
proof
  assume "\<forall>k. bt_get m k = None"
  then show "m = []" by (cases m) (auto simp: bt_get_def split: if_splits)
qed (simp add: bt_get_def)

end
