(* ===== verification/Chain_Index.thy ===== *)
theory Chain_Index
  imports Chain_Block BTree_Map
begin

text \<open>The replayed owner index (src/crates/chain/src/owner_index.rs): who holds which coins and edges, rebuilt from the
  transactions of finalized blocks alone, without executing them. The state under the lock is a record; an update
  works on a copy, so an error leaves the index as it was. The digest of a block is a parameter. A violated
  \<^verbatim>\<open>expect\<close> or \<^verbatim>\<open>assert\<close> of the code is the error value \<open>IndexPanic\<close>.\<close>

record owner_cursor =
  cur_height :: u64
  cur_payload :: bytes32
  cur_state_root :: bytes32

datatype index_outcome = IndexApplied | IndexDuplicate

datatype owner_index_error =
    HeightGap u64 u64
  | ConflictingHeight u64
  | IndexParentMismatch u64
  | IndexObjectNotFound object_id
  | OutputCollision object_id
  | IndexWrongObjectKind object_id object_kind object_kind
  | IndexPanic string

record owner_index =
  ix_network :: network_id
  ix_cursor :: owner_cursor
  ix_allocations :: "(settlement_key \<times> u64) list"
  ix_coins :: "(object_id, chain_coin) btree_map"
  ix_by_owner :: "(settlement_key, (byte \<times> object_id, u64) btree_map) btree_map"
  ix_edges :: "(object_id, parties) btree_map"
  ix_edges_by_owner :: "(settlement_key, object_id btree_set) btree_map"

definition block_cursor :: "(('c, 't) hellas_block \<Rightarrow> bytes32) \<Rightarrow> ('c, 't) hellas_block \<Rightarrow> owner_cursor" where
  "block_cursor digest blk = \<lparr>cur_height = hb_height blk, cur_payload = digest blk, cur_state_root = hb_state_root blk\<rparr>"

definition ix_new ::
  "(('c, 't) hellas_block \<Rightarrow> bytes32) \<Rightarrow> network_id \<Rightarrow> ('c, 't) hellas_block \<Rightarrow> (settlement_key \<times> u64) list \<Rightarrow> owner_index" where
  "ix_new digest network genesis allocations =
    \<lparr>ix_network = network, ix_cursor = block_cursor digest genesis, ix_allocations = allocations, ix_coins = bt_empty,
     ix_by_owner = bt_empty, ix_edges = bt_empty, ix_edges_by_owner = bt_empty\<rparr>"

definition ix_publish_cursor :: "(('c, 't) hellas_block \<Rightarrow> bytes32) \<Rightarrow> ('c, 't) hellas_block \<Rightarrow> owner_index \<Rightarrow> owner_index" where
  "ix_publish_cursor digest blk ix = ix\<lparr>ix_cursor := block_cursor digest blk\<rparr>"

definition ix_kind_of :: "owner_index \<Rightarrow> object_id \<Rightarrow> object_kind option" where
  "ix_kind_of ix i =
    (if bt_get (ix_coins ix) i \<noteq> None then Some KindCoin
     else if bt_get (ix_edges ix) i \<noteq> None then Some KindEdge else None)"

definition ix_get_coin :: "owner_index \<Rightarrow> object_id \<Rightarrow> (chain_coin option, owner_index_error) result" where
  "ix_get_coin ix i =
    (case bt_get (ix_coins ix) i of
       Some c \<Rightarrow> Ok (Some c)
     | None \<Rightarrow>
         (case ix_kind_of ix i of
            Some KindCoin \<Rightarrow> Ok None
          | Some actual \<Rightarrow> Err (IndexWrongObjectKind i KindCoin actual)
          | None \<Rightarrow> Ok None))"

section \<open>Inserting and removing\<close>

text \<open>\<^verbatim>\<open>entry(key).or_default().insert(..)\<close> on a map of maps.\<close>

definition nested_insert ::
  "('a::linorder) \<Rightarrow> ('b::linorder) \<Rightarrow> 'v \<Rightarrow> ('a, ('b, 'v) btree_map) btree_map \<Rightarrow> ('a, ('b, 'v) btree_map) btree_map" where
  "nested_insert a b v m = bt_insert a (bt_insert b v (case bt_get m a of Some inner \<Rightarrow> inner | None \<Rightarrow> bt_empty)) m"

text \<open>Removing the entry, and the inner map once it is empty.\<close>

definition nested_remove ::
  "('a::linorder) \<Rightarrow> ('b::linorder) \<Rightarrow> ('a, ('b, 'v) btree_map) btree_map \<Rightarrow> ('a, ('b, 'v) btree_map) btree_map" where
  "nested_remove a b m =
    (case bt_get m a of
       None \<Rightarrow> m
     | Some inner \<Rightarrow>
         let left = bt_remove b inner in if left = [] then bt_remove a m else bt_insert a left m)"

definition nested_get :: "('a, ('b, 'v) btree_map) btree_map \<Rightarrow> 'a \<Rightarrow> 'b \<Rightarrow> 'v option" where
  "nested_get m a b = Option.bind (bt_get m a) (\<lambda>inner. bt_get inner b)"

definition ix_insert_coin :: "owner_index \<Rightarrow> object_id \<Rightarrow> chain_coin \<Rightarrow> (owner_index, owner_index_error) result" where
  "ix_insert_coin ix i c =
    (if ix_kind_of ix i \<noteq> None then Err (OutputCollision i)
     else Ok (ix\<lparr>ix_by_owner := foldl (\<lambda>m (key, kind, balance). nested_insert key (kind, i) balance m) (ix_by_owner ix) (coin_holdings c),
                ix_coins := bt_insert i c (ix_coins ix)\<rparr>))"

definition ix_remove_coin :: "owner_index \<Rightarrow> object_id \<Rightarrow> (owner_index, owner_index_error) result" where
  "ix_remove_coin ix i =
    (case bt_get (ix_coins ix) i of
       None \<Rightarrow> Err (IndexObjectNotFound i)
     | Some c \<Rightarrow>
         and_then (try_fold (\<lambda>m (key, kind, _).
             if nested_get m key (kind, i) = None then Err (IndexObjectNotFound i)
             else Ok (nested_remove key (kind, i) m)) (ix_by_owner ix) (coin_holdings c)) (\<lambda>m.
         Ok (ix\<lparr>ix_coins := bt_remove i (ix_coins ix), ix_by_owner := m\<rparr>)))"

definition ix_insert_edge :: "owner_index \<Rightarrow> object_id \<Rightarrow> parties \<Rightarrow> (owner_index, owner_index_error) result" where
  "ix_insert_edge ix i ps =
    (if ix_kind_of ix i \<noteq> None then Err (OutputCollision i)
     else Ok (ix\<lparr>ix_edges_by_owner := foldl (\<lambda>m key. nested_insert key i () m) (ix_edges_by_owner ix) (edge_keys ps),
                ix_edges := bt_insert i ps (ix_edges ix)\<rparr>))"

definition ix_remove_edge :: "owner_index \<Rightarrow> object_id \<Rightarrow> (owner_index, owner_index_error) result" where
  "ix_remove_edge ix i =
    (case bt_get (ix_edges ix) i of
       None \<Rightarrow>
         (case ix_kind_of ix i of
            Some KindEdge \<Rightarrow> Err (IndexObjectNotFound i)
          | Some actual \<Rightarrow> Err (IndexWrongObjectKind i KindEdge actual)
          | None \<Rightarrow> Err (IndexObjectNotFound i))
     | Some ps \<Rightarrow>
         and_then (try_fold (\<lambda>m key.
             if bt_get m key = None then Err (IndexPanic ''owner index missing active edge owner'')
             else if nested_get m key i = None then Err (IndexPanic ''owner index active edge missing from owner set'')
             else Ok (nested_remove key i m)) (ix_edges_by_owner ix) (edge_keys ps)) (\<lambda>m.
         Ok (ix\<lparr>ix_edges := bt_remove i (ix_edges ix), ix_edges_by_owner := m\<rparr>)))"

section \<open>Replaying transactions and blocks\<close>

definition ix_issue :: "owner_index \<Rightarrow> (coin_id \<times> payout) list \<Rightarrow> (owner_index, owner_index_error) result" where
  "ix_issue ix outs = try_fold (\<lambda>ix (i, p). ix_insert_coin ix (coin_object_id i) (chain_coin_from (payout_coin p))) ix outs"

definition ix_spend :: "owner_index \<Rightarrow> coin_id list \<Rightarrow> (owner_index, owner_index_error) result" where
  "ix_spend ix ids = try_fold (\<lambda>ix i. ix_remove_coin ix (coin_object_id i)) ix ids"

fun ix_apply_kernel :: "blake3 \<Rightarrow> owner_index \<Rightarrow> tx \<Rightarrow> (owner_index, owner_index_error) result" where
  "ix_apply_kernel b3 ix (TxOpen f terms _ _) =
    (let i = edge_object_id (edge_id_of b3 f terms) in
     if ix_kind_of ix i \<noteq> None then Err (OutputCollision i)
     else and_then (ix_spend ix (funding_maker f @ funding_taker f)) (\<lambda>ix. ix_insert_edge ix i (terms_parties terms)))"
| "ix_apply_kernel b3 ix (TxClose inp _ outs) =
    and_then (ix_remove_edge ix (edge_object_id inp)) (\<lambda>ix. ix_issue ix (zip (close_output_ids b3 inp outs) outs))"
| "ix_apply_kernel b3 ix (TxOwner r) =
    and_then (ix_spend ix (rs_inputs r)) (\<lambda>ix.
    ix_issue ix (zip (reshape_output_ids b3 (ix_network ix) (rs_inputs r) (rs_outputs r)) (rs_outputs r)))"
| "ix_apply_kernel b3 ix (TxMove _) = Ok ix"

fun ix_apply_transaction :: "blake3 \<Rightarrow> owner_index \<Rightarrow> transaction \<Rightarrow> (owner_index, owner_index_error) result" where
  "ix_apply_transaction b3 ix (Kernel t) = ix_apply_kernel b3 ix t"

definition ix_seed_genesis :: "sha256 \<Rightarrow> (u16 \<Rightarrow> bytes) \<Rightarrow> owner_index \<Rightarrow> (owner_index, owner_index_error) result" where
  "ix_seed_genesis sha w16 ix =
    try_fold (\<lambda>ix (index, owner, v). ix_insert_coin ix (genesis_object_id sha w16 (of_nat index)) (chain_coin_owned owner v)) ix
      (takeWhile (\<lambda>(index, _). index < 2 ^ 16) (enumerate 0 (ix_allocations ix)))"

definition ix_apply_finalized ::
  "blake3 \<Rightarrow> sha256 \<Rightarrow> (u16 \<Rightarrow> bytes) \<Rightarrow> (('c, 't) hellas_block \<Rightarrow> bytes32) \<Rightarrow> owner_index \<Rightarrow> ('c, 't) hellas_block
    \<Rightarrow> (index_outcome \<times> owner_index, owner_index_error) result" where
  "ix_apply_finalized b3 sha w16 digest ix blk =
    (let height = hb_height blk; payload = digest blk; cursor = ix_cursor ix in
     if height = cur_height cursor then
       if payload = cur_payload cursor then Ok (IndexDuplicate, ix) else Err (ConflictingHeight height)
     else if height < cur_height cursor then Ok (IndexDuplicate, ix)
     else if height \<noteq> saturating_add (cur_height cursor) 1 then Err (HeightGap (cur_height cursor) height)
     else if hb_parent blk \<noteq> cur_payload cursor then Err (IndexParentMismatch height)
     else and_then (if cur_height cursor = 0 then ix_seed_genesis sha w16 ix else Ok ix) (\<lambda>next_ix.
       and_then (try_fold (ix_apply_transaction b3) next_ix (hb_txs blk)) (\<lambda>next_ix.
       Ok (IndexApplied, next_ix\<lparr>ix_cursor := block_cursor digest blk\<rparr>))))"

section \<open>Queries\<close>

definition ix_edges_by_owner_snapshot :: "owner_index \<Rightarrow> settlement_key \<Rightarrow> owner_cursor \<times> (object_id \<times> parties) list" where
  "ix_edges_by_owner_snapshot ix owner =
    (ix_cursor ix, List.map_filter (\<lambda>(i, _). map_option (Pair i) (bt_get (ix_edges ix) i))
      (case bt_get (ix_edges_by_owner ix) owner of Some ids \<Rightarrow> ids | None \<Rightarrow> []))"

definition ix_coins_by_owner_snapshot :: "owner_index \<Rightarrow> settlement_key \<Rightarrow> owner_cursor \<times> (object_id \<times> u64) list" where
  "ix_coins_by_owner_snapshot ix owner =
    (ix_cursor ix, case bt_get (ix_by_owner ix) owner of
       Some coins \<Rightarrow> List.map_filter (\<lambda>((kind, i), v). if kind = HOLDING_COIN then Some (i, v) else None) coins
     | None \<Rightarrow> [])"

definition ix_coin_snapshot :: "owner_index \<Rightarrow> object_id \<Rightarrow> owner_cursor \<times> (chain_coin option, owner_index_error) result" where
  "ix_coin_snapshot ix i = (ix_cursor ix, ix_get_coin ix i)"

end
