(* ===== verification/Chain_Index_Ledger.thy ===== *)
theory Chain_Index_Ledger
  imports Chain_Index Chain_Owners
begin

text \<open>The replayed index is the ledger's index. Whatever blocks the host accepts, replaying their transactions
  succeeds, never violates an assertion, and keeps the index equal to the coins and edges of the database.\<close>

section \<open>Maps of maps\<close>

definition nested_wf :: "('a::linorder, ('b::linorder, 'v) btree_map) btree_map \<Rightarrow> bool" where
  "nested_wf m \<longleftrightarrow> bt_wf m \<and> (\<forall>a inner. bt_get m a = Some inner \<longrightarrow> bt_wf inner \<and> inner \<noteq> [])"

lemma nested_empty [simp]: "nested_wf bt_empty" "nested_get bt_empty a b = None"
  by (simp_all add: nested_wf_def nested_get_def bt_get_def bt_empty_def bt_wf_def)

lemma bt_insert_nonempty [simp]: "bt_insert k v m \<noteq> []"
  by (cases "(k, v, m)" rule: bt_insert.cases) auto

lemma nested_insert_laws:
  assumes "nested_wf m"
  shows "nested_wf (nested_insert a b v m)"
    and "nested_get (nested_insert a b v m) a' b' = (if a' = a \<and> b' = b then Some v else nested_get m a' b')"
proof -
  let ?inner = "case bt_get m a of Some inner \<Rightarrow> inner | None \<Rightarrow> bt_empty"
  have inner: "bt_wf ?inner" "bt_get ?inner b' = nested_get m a b'" for b'
    using assms by (auto simp: nested_wf_def nested_get_def split: option.split)
  then show "nested_wf (nested_insert a b v m)" using assms by (auto simp: nested_wf_def nested_insert_def)
  show "nested_get (nested_insert a b v m) a' b' = (if a' = a \<and> b' = b then Some v else nested_get m a' b')"
    using assms inner by (auto simp: nested_wf_def nested_insert_def nested_get_def)
qed

lemma nested_remove_laws:
  assumes "nested_wf m"
  shows "nested_wf (nested_remove a b m)"
    and "nested_get (nested_remove a b m) a' b' = (if a' = a \<and> b' = b then None else nested_get m a' b')"
proof -
  have *: "nested_wf (nested_remove a b m)
      \<and> nested_get (nested_remove a b m) a' b' = (if a' = a \<and> b' = b then None else nested_get m a' b')"
  proof (cases "bt_get m a")
    case None
    then show ?thesis using assms by (auto simp: nested_remove_def nested_get_def)
  next
    case (Some inner)
    with assms have wf: "bt_wf m" "bt_wf inner" by (auto simp: nested_wf_def)
    show ?thesis
    proof (cases "bt_remove b inner = []")
      case True
      then have "bt_get (bt_remove b inner) b' = None" by (simp add: bt_get_def)
      with wf(2) have "b' = b \<or> bt_get inner b' = None" by (cases "b' = b") auto
      with True Some wf assms show ?thesis
        by (auto simp: nested_remove_def nested_get_def nested_wf_def split: if_splits)
    next
      case False
      with Some wf assms show ?thesis
        by (auto simp: nested_remove_def nested_get_def nested_wf_def Let_def split: if_splits)
    qed
  qed
  then show "nested_wf (nested_remove a b m)"
    "nested_get (nested_remove a b m) a' b' = (if a' = a \<and> b' = b then None else nested_get m a' b')" by blast+
qed

lemma nested_insert_all:
  assumes "nested_wf m"
    and m': "m' = foldl (\<lambda>m x. nested_insert (k x) (g x) (h x) m) m xs"
  shows "nested_wf m'"
    and "distinct (map (\<lambda>x. (k x, g x)) xs) \<Longrightarrow>
      nested_get m' a b = (case map_of (map (\<lambda>x. ((k x, g x), h x)) xs) (a, b) of Some v \<Rightarrow> Some v | None \<Rightarrow> nested_get m a b)"
proof -
  have *: "nested_wf (foldl (\<lambda>m x. nested_insert (k x) (g x) (h x) m) m xs)
      \<and> (distinct (map (\<lambda>x. (k x, g x)) xs) \<longrightarrow> nested_get (foldl (\<lambda>m x. nested_insert (k x) (g x) (h x) m) m xs) a b
        = (case map_of (map (\<lambda>x. ((k x, g x), h x)) xs) (a, b) of Some v \<Rightarrow> Some v | None \<Rightarrow> nested_get m a b))" for a b
    using assms(1)
  proof (induction xs arbitrary: m)
    case (Cons x xs)
    note n = nested_insert_laws [OF Cons.prems]
    have "map_of (map (\<lambda>x. ((k x, g x), h x)) xs) (k x, g x) = None" if "(k x, g x) \<notin> set (map (\<lambda>x. (k x, g x)) xs)"
      using that by (simp add: map_of_eq_None_iff image_image)
    with Cons.IH [OF n(1)] n(2) show ?case by (auto split: option.split)
  qed simp
  then show "nested_wf m'" "distinct (map (\<lambda>x. (k x, g x)) xs) \<Longrightarrow>
      nested_get m' a b = (case map_of (map (\<lambda>x. ((k x, g x), h x)) xs) (a, b) of Some v \<Rightarrow> Some v | None \<Rightarrow> nested_get m a b)"
    unfolding m' by blast+
qed

lemma nested_remove_all:
  assumes "nested_wf m" "distinct (map (\<lambda>x. (k x, g x)) xs)" "\<forall>x \<in> set xs. nested_get m (k x) (g x) \<noteq> None"
    and "\<And>m x. nested_get m (k x) (g x) \<noteq> None \<Longrightarrow> f m x = Ok (nested_remove (k x) (g x) m)"
  shows "\<exists>m'. try_fold f m xs = Ok m' \<and> nested_wf m'
    \<and> (\<forall>a b. nested_get m' a b = (if (a, b) \<in> (\<lambda>x. (k x, g x)) ` set xs then None else nested_get m a b))"
  using assms(1-3)
proof (induction xs arbitrary: m)
  case (Cons x xs)
  note n = nested_remove_laws [OF Cons.prems(1), of "k x" "g x"]
  have "\<forall>y \<in> set xs. nested_get (nested_remove (k x) (g x) m) (k y) (g y) \<noteq> None"
    using Cons.prems(2,3) by (auto simp: n(2) image_iff)
  from Cons.IH [OF n(1) _ this] Cons.prems(2) obtain m' where "try_fold f (nested_remove (k x) (g x) m) xs = Ok m'" "nested_wf m'"
    "\<forall>a b. nested_get m' a b = (if (a, b) \<in> (\<lambda>x. (k x, g x)) ` set xs then None else nested_get (nested_remove (k x) (g x) m) a b)"
    by auto
  with assms(4) [of m x] Cons.prems(3) n(2) show ?case by auto
qed simp

section \<open>An index that agrees with the ledger\<close>

definition index_wf :: "owner_index \<Rightarrow> bool" where
  "index_wf ix \<longleftrightarrow>
    bt_wf (ix_coins ix) \<and> bt_wf (ix_edges ix) \<and> nested_wf (ix_by_owner ix) \<and> nested_wf (ix_edges_by_owner ix)
    \<and> (\<forall>key kind i. nested_get (ix_by_owner ix) key (kind, i)
        = Option.bind (bt_get (ix_coins ix) i) (\<lambda>c. map_of (map (\<lambda>(key, kind, b). ((key, kind), b)) (coin_holdings c)) (key, kind)))
    \<and> (\<forall>key i. nested_get (ix_edges_by_owner ix) key i
        = Option.bind (bt_get (ix_edges ix) i) (\<lambda>ps. if key \<in> set (edge_keys ps) then Some () else None))"

text \<open>The coins and edges of the index are those of a ledger, of which it keeps an edge's parties only.\<close>

definition index_matches :: "owner_index \<Rightarrow> (coin_id \<Rightarrow> coin option) \<Rightarrow> (edge_id \<Rightarrow> edge option) \<Rightarrow> bool" where
  "index_matches ix coins edges \<longleftrightarrow>
    index_wf ix \<and> (\<forall>i. bt_get (ix_coins ix) i = map_option chain_coin_from (coins i))
    \<and> (\<forall>i. bt_get (ix_edges ix) i = map_option edge_parties (edges i))"

text \<open>What replaying a transaction leaves alone.\<close>

definition same_chain :: "owner_index \<Rightarrow> owner_index \<Rightarrow> bool" where
  "same_chain ix ix' \<longleftrightarrow>
    ix_network ix' = ix_network ix \<and> ix_allocations ix' = ix_allocations ix \<and> ix_cursor ix' = ix_cursor ix"

lemma same_chain_refl [simp]: "same_chain ix ix" and same_chain_trans: "same_chain a b \<Longrightarrow> same_chain b c \<Longrightarrow> same_chain a c"
  by (simp_all add: same_chain_def)

lemma coin_holdings_keys: "distinct (map (\<lambda>(key, kind, b). (key, kind)) (coin_holdings c))"
  by (auto simp: coin_holdings_def split: option.split)

lemma edge_keys_distinct [simp]: "distinct (edge_keys ps)"
  by (simp add: edge_keys_def)

lemma index_kind: "index_matches ix coins edges \<Longrightarrow> ix_kind_of ix i = None \<longleftrightarrow> coins i = None \<and> edges i = None"
  by (simp add: index_matches_def ix_kind_of_def)

lemma map_of_tagged: "map_of (map (\<lambda>(key, kind, b). ((key, kind, i), b)) xs) (k, d, j)
    = (if j = i then map_of (map (\<lambda>(key, kind, b). ((key, kind), b)) xs) (k, d) else None)"
  by (induction xs) auto

lemma index_insert_coin:
  assumes m: "index_matches ix coins edges" and "coins i = None" "edges i = None"
  shows "\<exists>ix'. ix_insert_coin ix i (chain_coin_from c) = Ok ix' \<and> index_matches ix' (coins(i \<mapsto> c)) edges \<and> same_chain ix ix'"
proof -
  let ?hs = "coin_holdings (chain_coin_from c)"
  define m' where "m' = foldl (\<lambda>m x. nested_insert (fst x) ((\<lambda>(_, kind, _). (kind, i)) x) ((\<lambda>(_, _, b). b) x) m) (ix_by_owner ix) ?hs"
  have wf: "nested_wf (ix_by_owner ix)" using m by (simp add: index_matches_def index_wf_def)
  have "distinct (map (\<lambda>x. (fst x, (\<lambda>(_, kind, _). (kind, i)) x)) ?hs)"
    using coin_holdings_keys [of "chain_coin_from c"] by (auto simp: distinct_map inj_on_def case_prod_unfold)
  note n = nested_insert_all [OF wf m'_def] this
  have "nested_get m' key (kind, j) = (case map_of (map (\<lambda>(key, kind, b). ((key, kind, i), b)) ?hs) (key, kind, j) of
      Some v \<Rightarrow> Some v | None \<Rightarrow> nested_get (ix_by_owner ix) key (kind, j))" for key kind j
    using n(2) [OF n(3), of key "(kind, j)"] by (simp add: case_prod_unfold)
  then have get: "nested_get m' key (kind, j) = (if j = i then map_of (map (\<lambda>(key, kind, b). ((key, kind), b)) ?hs) (key, kind)
      else nested_get (ix_by_owner ix) key (kind, j))" for key kind j
    using m assms(2) by (auto simp: map_of_tagged index_matches_def index_wf_def split: option.split)
  have run: "ix_insert_coin ix i (chain_coin_from c) = Ok (ix\<lparr>ix_by_owner := m', ix_coins := bt_insert i (chain_coin_from c) (ix_coins ix)\<rparr>)"
    using assms by (simp add: ix_insert_coin_def index_kind m'_def case_prod_unfold)
  have "index_matches (ix\<lparr>ix_by_owner := m', ix_coins := bt_insert i (chain_coin_from c) (ix_coins ix)\<rparr>) (coins(i \<mapsto> c)) edges"
    using m n(1) by (auto simp: index_matches_def index_wf_def get)
  with run show ?thesis by (simp add: same_chain_def)
qed

lemma index_remove_coin:
  assumes m: "index_matches ix coins edges" and c: "coins i = Some c"
  shows "\<exists>ix'. ix_remove_coin ix i = Ok ix' \<and> index_matches ix' (coins(i := None)) edges \<and> same_chain ix ix'"
proof -
  let ?hs = "coin_holdings (chain_coin_from c)"
  let ?g = "\<lambda>(_, kind, _). (kind, i)"
  let ?f = "\<lambda>m (key, kind, _). if nested_get m key (kind, i) = None then Err (IndexObjectNotFound i) else Ok (nested_remove key (kind, i) m)"
  have wf: "nested_wf (ix_by_owner ix)" using m by (simp add: index_matches_def index_wf_def)
  have get: "nested_get (ix_by_owner ix) key (kind, j)
      = Option.bind (map_option chain_coin_from (coins j)) (\<lambda>c. map_of (map (\<lambda>(key, kind, b). ((key, kind), b)) (coin_holdings c)) (key, kind))"
    for key kind j using m by (simp add: index_matches_def index_wf_def)
  have d: "distinct (map (\<lambda>x. (fst x, ?g x)) ?hs)"
    using coin_holdings_keys [of "chain_coin_from c"] by (auto simp: distinct_map inj_on_def case_prod_unfold)
  have present: "\<forall>x \<in> set ?hs. nested_get (ix_by_owner ix) (fst x) (?g x) \<noteq> None"
  proof
    fix x
    assume "x \<in> set ?hs"
    then have "fst ((\<lambda>(key, kind, b). ((key, kind), b)) x) \<in> fst ` set (map (\<lambda>(key, kind, b). ((key, kind), b)) ?hs)"
      by (simp only: set_map) (intro imageI)
    then show "nested_get (ix_by_owner ix) (fst x) (?g x) \<noteq> None" by (cases x) (simp add: get c map_of_eq_None_iff)
  qed
  have step: "?f m x = Ok (nested_remove (fst x) (?g x) m)" if "nested_get m (fst x) (?g x) \<noteq> None"
    for m and x :: "settlement_key \<times> byte \<times> u64" using that by (cases x) simp
  from nested_remove_all [OF wf d present step] obtain m' where m': "try_fold ?f (ix_by_owner ix) ?hs = Ok m'" "nested_wf m'"
    "\<forall>a b. nested_get m' a b = (if (a, b) \<in> (\<lambda>x. (fst x, ?g x)) ` set ?hs then None else nested_get (ix_by_owner ix) a b)"
    by blast
  have left: "nested_get m' key (kind, j) = (if j = i then None else nested_get (ix_by_owner ix) key (kind, j))" for key kind j
  proof (cases "j = i \<and> nested_get (ix_by_owner ix) key (kind, j) \<noteq> None")
    case True
    then have "(key, kind) \<in> (\<lambda>(key, kind, b). (key, kind)) ` set ?hs"
      by (force simp: get c dest!: map_of_SomeD)
    with True m'(3) show ?thesis by (force simp: image_iff)
  qed (use m'(3) in \<open>auto split: if_splits\<close>)
  have "index_matches (ix\<lparr>ix_coins := bt_remove i (ix_coins ix), ix_by_owner := m'\<rparr>) (coins(i := None)) edges"
    using m m'(2) by (auto simp: index_matches_def index_wf_def left)
  moreover have "bt_get (ix_coins ix) i = Some (chain_coin_from c)" using m c by (simp add: index_matches_def)
  ultimately show ?thesis using m'(1) by (simp add: ix_remove_coin_def same_chain_def)
qed

lemma index_insert_edge:
  assumes m: "index_matches ix coins edges" and "coins i = None" "edges i = None"
  shows "\<exists>ix'. ix_insert_edge ix i (edge_parties e) = Ok ix' \<and> index_matches ix' coins (edges(i \<mapsto> e)) \<and> same_chain ix ix'"
proof -
  let ?ks = "edge_keys (edge_parties e)"
  define m' where "m' = foldl (\<lambda>m key. nested_insert key i () m) (ix_edges_by_owner ix) ?ks"
  have wf: "nested_wf (ix_edges_by_owner ix)" using m by (simp add: index_matches_def index_wf_def)
  have m'_alt: "m' = foldl (\<lambda>m x. nested_insert (id x) ((\<lambda>_. i) x) ((\<lambda>_. ()) x) m) (ix_edges_by_owner ix) ?ks"
    by (simp add: m'_def)
  have "distinct (map (\<lambda>x. (id x, (\<lambda>_. i) x)) ?ks)" by (simp add: distinct_map inj_on_def)
  note n = nested_insert_all [OF wf m'_alt] this
  have keyed: "map_of (map (\<lambda>x. ((x, i), ())) ks) (key, j) = (if j = i \<and> key \<in> set ks then Some () else None)" for ks key j
    by (induction ks) auto
  have get: "nested_get m' key j = (if j = i then if key \<in> set ?ks then Some () else None
      else nested_get (ix_edges_by_owner ix) key j)" for key j
    using n(2) [OF n(3), of key j] m assms(3) by (auto simp: keyed index_matches_def index_wf_def split: if_splits)
  have "ix_insert_edge ix i (edge_parties e) = Ok (ix\<lparr>ix_edges_by_owner := m', ix_edges := bt_insert i (edge_parties e) (ix_edges ix)\<rparr>)"
    using assms by (simp add: ix_insert_edge_def index_kind m'_def)
  moreover have "index_matches (ix\<lparr>ix_edges_by_owner := m', ix_edges := bt_insert i (edge_parties e) (ix_edges ix)\<rparr>) coins (edges(i \<mapsto> e))"
    using m n(1) by (auto simp: index_matches_def index_wf_def get)
  ultimately show ?thesis by (simp add: same_chain_def)
qed

lemma index_remove_edge:
  assumes m: "index_matches ix coins edges" and e: "edges i = Some e"
  shows "\<exists>ix'. ix_remove_edge ix i = Ok ix' \<and> index_matches ix' coins (edges(i := None)) \<and> same_chain ix ix'"
proof -
  let ?ks = "edge_keys (edge_parties e)"
  let ?f = "\<lambda>m key. if bt_get m key = None then Err (IndexPanic ''owner index missing active edge owner'')
    else if nested_get m key i = None then Err (IndexPanic ''owner index active edge missing from owner set'')
    else Ok (nested_remove key i m)"
  have wf: "nested_wf (ix_edges_by_owner ix)" using m by (simp add: index_matches_def index_wf_def)
  have get: "nested_get (ix_edges_by_owner ix) key j
      = Option.bind (map_option edge_parties (edges j)) (\<lambda>ps. if key \<in> set (edge_keys ps) then Some () else None)"
    for key j using m by (simp add: index_matches_def index_wf_def)
  have d: "distinct (map (\<lambda>x. (id x, (\<lambda>_. i) x)) ?ks)" by (simp add: distinct_map inj_on_def)
  have present: "\<forall>x \<in> set ?ks. nested_get (ix_edges_by_owner ix) (id x) ((\<lambda>_. i) x) \<noteq> None" by (simp add: get e)
  have step: "?f m key = Ok (nested_remove (id key) i m)" if "nested_get m (id key) i \<noteq> None" for m key
    using that by (cases "bt_get m key") (auto simp: nested_get_def)
  from nested_remove_all [OF wf d present step] obtain m' where m': "try_fold ?f (ix_edges_by_owner ix) ?ks = Ok m'" "nested_wf m'"
    "\<forall>a b. nested_get m' a b = (if (a, b) \<in> (\<lambda>x. (id x, i)) ` set ?ks then None else nested_get (ix_edges_by_owner ix) a b)"
    by blast
  have left: "nested_get m' key j = (if j = i then None else nested_get (ix_edges_by_owner ix) key j)" for key j
    using m'(3) get [of key i] e by (auto simp: image_iff)
  have "index_matches (ix\<lparr>ix_edges := bt_remove i (ix_edges ix), ix_edges_by_owner := m'\<rparr>) coins (edges(i := None))"
    using m m'(2) by (auto simp: index_matches_def index_wf_def left)
  moreover have "bt_get (ix_edges ix) i = Some (edge_parties e)" using m e by (simp add: index_matches_def)
  ultimately show ?thesis using m'(1) by (simp add: ix_remove_edge_def same_chain_def)
qed

section \<open>Lists of coins\<close>

lemma index_spend:
  assumes "index_matches ix coins edges" "distinct ids" "\<forall>i \<in> set ids. coins i \<noteq> None"
  shows "\<exists>ix'. ix_spend ix ids = Ok ix' \<and> index_matches ix' (\<lambda>i. if i \<in> set ids then None else coins i) edges \<and> same_chain ix ix'"
  using assms
proof (induction ids arbitrary: ix coins)
  case (Cons i ids)
  define coins1 where "coins1 = coins(i := None)"
  from Cons.prems obtain c where "coins i = Some c" by auto
  from index_remove_coin [OF Cons.prems(1) this] obtain ix1 where
    1: "ix_remove_coin ix i = Ok ix1" "index_matches ix1 coins1 edges" "same_chain ix ix1" unfolding coins1_def by blast
  have "\<forall>j \<in> set ids. coins1 j \<noteq> None" using Cons.prems(2,3) by (auto simp: coins1_def)
  from Cons.IH [OF 1(2) _ this] Cons.prems(2) obtain ix' where
    2: "ix_spend ix1 ids = Ok ix'" "index_matches ix' (\<lambda>j. if j \<in> set ids then None else coins1 j) edges" "same_chain ix1 ix'" by auto
  have "(\<lambda>j. if j \<in> set ids then None else coins1 j) = (\<lambda>j. if j \<in> set (i # ids) then None else coins j)"
    by (auto simp: coins1_def)
  with 1(1) 2(1,2) same_chain_trans [OF 1(3) 2(3)] show ?case by (simp add: ix_spend_def coin_object_id_def)
qed (simp add: ix_spend_def)

lemma index_issue:
  assumes "index_matches ix coins edges" "distinct (map fst outs)" "\<forall>i \<in> fst ` set outs. coins i = None \<and> edges i = None"
  shows "\<exists>ix'. ix_issue ix outs = Ok ix' \<and> index_matches ix' (coins ++ map_of (map (\<lambda>(i, p). (i, payout_coin p)) outs)) edges \<and> same_chain ix ix'"
  using assms
proof (induction outs arbitrary: ix coins)
  case (Cons x outs)
  obtain i p where x: "x = (i, p)" by fastforce
  define coins1 where "coins1 = coins(i \<mapsto> payout_coin p)"
  from index_insert_coin [OF Cons.prems(1), of i "payout_coin p"] Cons.prems(3) x obtain ix1 where
    1: "ix_insert_coin ix i (chain_coin_from (payout_coin p)) = Ok ix1" "index_matches ix1 coins1 edges" "same_chain ix ix1"
    unfolding coins1_def by auto
  have "\<forall>j \<in> fst ` set outs. coins1 j = None \<and> edges j = None" using Cons.prems(2,3) x by (auto simp: coins1_def image_iff)
  from Cons.IH [OF 1(2) _ this] Cons.prems(2) obtain ix' where
    2: "ix_issue ix1 outs = Ok ix'" "index_matches ix' (coins1 ++ map_of (map (\<lambda>(i, p). (i, payout_coin p)) outs)) edges" "same_chain ix1 ix'"
    by auto
  have "map_of (map (\<lambda>(i, p). (i, payout_coin p)) outs) i = None"
    using Cons.prems(2) x by (force simp: map_of_eq_None_iff)
  then have "coins1 ++ map_of (map (\<lambda>(i, p). (i, payout_coin p)) outs) = coins ++ map_of (map (\<lambda>(i, p). (i, payout_coin p)) (x # outs))"
    by (auto simp: coins1_def x map_add_def fun_eq_iff split: option.split)
  then have "index_matches ix' (coins ++ map_of (map (\<lambda>(i, p). (i, payout_coin p)) (x # outs))) edges" using 2(2) by (simp only:)
  moreover have "ix_issue ix (x # outs) = Ok ix'" using 1(1) 2(1) by (simp add: x ix_issue_def coin_object_id_def)
  ultimately show ?case using same_chain_trans [OF 1(3) 2(3)] by blast
qed (simp add: ix_issue_def)

section \<open>Transactions\<close>

lemma zip_outputs:
  "map (\<lambda>(i, p). (i, payout_coin p)) (zip (close_output_ids b3 inp outs) outs) = close_coins b3 inp outs"
  "map (\<lambda>(i, p). (i, payout_coin p)) (zip (reshape_output_ids b3 network inputs outs) outs)
    = map (\<lambda>(index, p). (coin_id_reshape b3 network inputs index (payout_owner p), payout_coin p)) (enumerate 0 outs)"
  by (auto simp: list_eq_iff_nth_eq close_output_ids_def close_coins_def close_coin_def reshape_output_ids_def case_prod_unfold
      nth_enumerate_eq)

lemma ledger_slots:
  "edge_slot (db_objects db d) i \<Longrightarrow> l_coins (db_ledger db d) i = None"
  "coin_slot (db_objects db d) i \<Longrightarrow> l_edges (db_ledger db d) i = None"
  by (auto simp: edge_slot_def coin_slot_def db_ledger_def object_ledger_def)

abbreviation ledger_index :: "owner_index \<Rightarrow> ledger \<Rightarrow> bool" where
  "ledger_index ix l \<equiv> index_matches ix (l_coins l) (l_edges l)"

lemma replay_open:
  assumes h: "host_change b3 vf db d cx (TxOpen f terms ma ta) w w' c"
    and tx: "tx_apply b3 vf ledger_ops (db_ledger db d) cx (TxOpen f terms ma ta) = Ok c"
    and m: "ledger_index ix (db_ledger db d)"
  shows "\<exists>ix'. ix_apply_kernel b3 ix (TxOpen f terms ma ta) = Ok ix' \<and> ledger_index ix' (change_spec c (db_ledger db d)) \<and> same_chain ix ix'"
proof -
  let ?l = "db_ledger db d"
  from tx have "apply_open b3 vf ledger_ops ?l cx f terms ma ta = Ok c" by simp
  then obtain coins and debits :: open_debits and reg where
    c: "c = change_with_registry (change_open coins (edge_id_from b3 f (terms_hash_of terms), od_edge debits)) reg"
    and o: "distinct (funding_iter f)" "b_edge ledger_ops ?l (edge_id_from b3 f (terms_hash_of terms)) = None"
      "map fst coins = funding_iter f" "\<forall>x \<in> set coins. b_coin ledger_ops ?l (fst x) = Some (snd x)"
    and deb: "compute_open_debits (ctx_block_height cx) (ctx_fees cx) (funding_len f)
      (checked_sum (\<lambda>(_, c). coin_value c) 0 coins) terms = Ok debits"
    by (rule apply_open_Ok)
  define out where "out = edge_id_from b3 f (terms_hash_of terms)"
  have eff: "\<exists>ev. c = Public ev (EffectOpen coins (out, od_edge debits)) reg" by (simp add: c out_def change_open_def)
  then have slot: "edge_slot (db_objects db d) out" using host_change_effect [of b3 vf db d cx _ w w'] host_change_slots(4) [OF h] h by fastforce
  have free: "l_coins ?l out = None" "l_edges ?l out = None" using ledger_slots(1) [OF slot] o(2) by (simp_all add: out_def)
  have ids: "funding_maker f @ funding_taker f = funding_iter f" by (simp add: funding_iter_def)
  have "\<forall>i \<in> set (funding_iter f). l_coins ?l i \<noteq> None" using o(4) by (auto simp flip: o(3))
  from index_spend [OF m o(1) this] obtain ix1 where 1: "ix_spend ix (funding_iter f) = Ok ix1"
    "index_matches ix1 (\<lambda>i. if i \<in> set (funding_iter f) then None else l_coins ?l i) (l_edges ?l)" "same_chain ix ix1" by blast
  have "(if out \<in> set (funding_iter f) then None else l_coins ?l out) = None" using free by simp
  from index_insert_edge [OF 1(2) this free(2), of "od_edge debits"] compute_open_debits_Ok [OF deb] obtain ix' where
    2: "ix_insert_edge ix1 out (terms_parties terms) = Ok ix'" "index_matches ix' (\<lambda>i. if i \<in> set (funding_iter f) then None else l_coins ?l i)
      ((l_edges ?l)(out \<mapsto> od_edge debits))" "same_chain ix1 ix'" by auto
  have "fst ` set coins = set (funding_iter f)" using o(3) by (metis list.set_map)
  with eff have "l_coins (change_spec c ?l) = (\<lambda>i. if i \<in> set (funding_iter f) then None else l_coins ?l i)"
    "l_edges (change_spec c ?l) = (l_edges ?l)(out \<mapsto> od_edge debits)"
    by (auto simp: diff_spec_def spend_def)
  moreover have "ix_kind_of ix out = None" using index_kind [OF m] free by blast
  ultimately show ?thesis using 1(1) 2(1,2) ids same_chain_trans [OF 1(3) 2(3)]
    by (simp add: edge_object_id_def edge_id_of_def Let_def flip: out_def)
qed

lemma replay_close:
  assumes h: "host_change b3 vf db d cx (TxClose inp p outs) w w' c"
    and tx: "tx_apply b3 vf ledger_ops (db_ledger db d) cx (TxClose inp p outs) = Ok c"
    and m: "ledger_index ix (db_ledger db d)"
  shows "\<exists>ix'. ix_apply_kernel b3 ix (TxClose inp p outs) = Ok ix' \<and> ledger_index ix' (change_spec c (db_ledger db d)) \<and> same_chain ix ix'"
proof -
  let ?l = "db_ledger db d" and ?coins = "close_coins b3 inp outs"
  from tx have "apply_close b3 vf ledger_ops ?l cx inp p outs = Ok c" by simp
  then obtain e reg where c: "c = change_with_registry (change_close (inp, e) ?coins) reg"
    and o: "check_close_outputs b3 ledger_ops ?l inp outs = Ok ()" "b_edge ledger_ops ?l inp = Some e" by (rule apply_close_Ok)
  then obtain ev where eff: "c = Public ev (EffectClose (inp, e) ?coins) reg" by (simp add: change_close_def)
  have ids: "map fst (zip (close_output_ids b3 inp outs) outs) = close_output_ids b3 inp outs" "map fst ?coins = close_output_ids b3 inp outs"
    by (simp_all add: close_output_ids_def close_coins_def close_coin_def case_prod_unfold)
  have fresh: "distinct (map fst ?coins)" "\<forall>x \<in> set ?coins. coin_slot (db_objects db d) (fst x)"
    using host_change_effect [OF h [unfolded eff]] host_change_slots(3) [OF h] by auto
  from index_remove_edge [OF m] o(2) obtain ix1 where 1: "ix_remove_edge ix inp = Ok ix1"
    "index_matches ix1 (l_coins ?l) ((l_edges ?l)(inp := None))" "same_chain ix ix1" by auto
  have "\<forall>i \<in> set (close_output_ids b3 inp outs). l_coins ?l i = None \<and> ((l_edges ?l)(inp := None)) i = None"
    using o(1) ledger_slots(2) [OF bspec [OF fresh(2)]] by (auto simp: check_close_outputs_iff simp flip: ids(2))
  then have "\<forall>i \<in> fst ` set (zip (close_output_ids b3 inp outs) outs). l_coins ?l i = None \<and> ((l_edges ?l)(inp := None)) i = None"
    by (metis ids(1) list.set_map)
  from index_issue [OF 1(2) _ this] fresh(1) obtain ix' where 2: "ix_issue ix1 (zip (close_output_ids b3 inp outs) outs) = Ok ix'"
    "index_matches ix' (l_coins ?l ++ map_of ?coins) ((l_edges ?l)(inp := None))" "same_chain ix1 ix'"
    unfolding ids(1) zip_outputs fresh(1) [unfolded ids(2)] by (metis ids(2))
  then show ?thesis using 1(1) same_chain_trans [OF 1(3) 2(3)] eff
    by (simp add: edge_object_id_def diff_spec_def del: fun_upd_apply)
qed

lemma replay_reshape:
  assumes h: "host_change b3 vf db d cx (TxOwner r) w w' c"
    and tx: "tx_apply b3 vf ledger_ops (db_ledger db d) cx (TxOwner r) = Ok c"
    and m: "ledger_index ix (db_ledger db d)" and net: "ix_network ix = ctx_network cx"
  shows "\<exists>ix'. ix_apply_kernel b3 ix (TxOwner r) = Ok ix' \<and> ledger_index ix' (change_spec c (db_ledger db d)) \<and> same_chain ix ix'"
proof -
  let ?l = "db_ledger db d" and ?outs = "zip (reshape_output_ids b3 (ctx_network cx) (rs_inputs r) (rs_outputs r)) (rs_outputs r)"
  from tx have "apply_reshape b3 vf ledger_ops ?l cx r = Ok c" by simp
  then obtain coins issued where o: "distinct (rs_inputs r)" "map fst coins = rs_inputs r"
      "\<forall>x \<in> set coins. b_coin ledger_ops ?l (fst x) = Some (snd x)"
    and i: "reshape_coins b3 ledger_ops ?l (ctx_network cx) (rs_inputs r) (rs_outputs r) = Ok issued"
    and c: "c = change_reshape coins issued" by (rule apply_reshape_Ok)
  then obtain ev where eff: "c = Public ev (EffectReshape coins issued) []" by (simp add: change_reshape_def diff_empty_def)
  have issued: "map (\<lambda>(i, p). (i, payout_coin p)) ?outs = issued" using reshape_coins_Ok(1) [OF i] by (simp add: zip_outputs)
  have ids: "map fst ?outs = map fst issued" by (simp add: case_prod_unfold comp_def flip: issued)
  have fresh: "distinct (map fst issued)" "\<forall>x \<in> set issued. coin_slot (db_objects db d) (fst x)"
    using host_change_effect [OF h [unfolded eff]] host_change_slots(3) [OF h] by auto
  have ins: "fst ` set coins = set (rs_inputs r)" using o(2) by (metis list.set_map)
  have "\<forall>i \<in> set (rs_inputs r). l_coins ?l i \<noteq> None" using o(3) by (auto simp flip: ins)
  from index_spend [OF m o(1) this] obtain ix1 where 1: "ix_spend ix (rs_inputs r) = Ok ix1"
    "index_matches ix1 (spend coins (l_coins ?l)) (l_edges ?l)" "same_chain ix ix1" by (auto simp: spend_def ins)
  have "\<forall>i \<in> fst ` set issued. spend coins (l_coins ?l) i = None \<and> l_edges ?l i = None"
    using reshape_coins_Ok(2) [OF i] ledger_slots(2) [OF bspec [OF fresh(2)]] by (auto simp: spend_def)
  then have "\<forall>i \<in> fst ` set ?outs. spend coins (l_coins ?l) i = None \<and> l_edges ?l i = None" by (metis ids list.set_map)
  from index_issue [OF 1(2) _ this] fresh(1) obtain ix' where 2: "ix_issue ix1 ?outs = Ok ix'"
    "index_matches ix' (spend coins (l_coins ?l) ++ map_of issued) (l_edges ?l)" "same_chain ix1 ix'"
    by (auto simp: ids issued)
  have "ix_network ix1 = ctx_network cx" using net 1(3) by (simp add: same_chain_def)
  with 1(1) 2(1,2) same_chain_trans [OF 1(3) 2(3)] eff show ?thesis by (simp add: diff_spec_def)
qed

lemma replay_transaction:
  assumes laws: "db_laws db" and apart: "txs_apart b3 cx [tx]" and run: "apply_transaction b3 vf sha db cx tx d = (Ok (), d')"
    and m: "ledger_index ix (db_ledger db d)" and net: "ix_network ix = ctx_network cx"
  shows "\<exists>ix'. ix_apply_transaction b3 ix tx = Ok ix' \<and> ledger_index ix' (db_ledger db d') \<and> same_chain ix ix'"
proof -
  obtain t where t: "tx = Kernel t" by (cases tx)
  with run obtain cs where obs: "apply_kernel_transaction_observed b3 vf sha db d cx t None = ((Ok (), d'), cs)"
    by (auto simp: apply_kernel_observed)
  have "tx_apart b3 cx t" using apart t by (simp add: txs_apart_def)
  from laws this obs obtain w w' c where h: "host_change b3 vf db d cx t w w' c"
    and c: "tx_apply b3 vf ledger_ops (db_ledger db d) cx t = Ok c" and l: "db_ledger db d' = change_spec c (db_ledger db d)"
    by (rule accepted_change)
  show ?thesis
  proof (cases t)
    case (TxMove mv)
    with c have "l_coins (db_ledger db d') = l_coins (db_ledger db d)" "l_edges (db_ledger db d') = l_edges (db_ledger db d)"
      by (cases mv; auto elim!: apply_start_Ok apply_response_Ok simp: l change_private_def diff_spec_def)+
    with m show ?thesis using t TxMove by simp
  qed (use h c l m net t replay_open replay_close replay_reshape in fastforce)+
qed

section \<open>Blocks\<close>

lemma replay_transactions:
  assumes laws: "db_laws db" and "txs_apart b3 cx txs" "for_each (apply_transaction b3 vf sha db cx) txs d = (Ok (), d')"
    "ledger_index ix (db_ledger db d)" "ix_network ix = ctx_network cx"
  shows "\<exists>ix'. try_fold (ix_apply_transaction b3) ix txs = Ok ix' \<and> ledger_index ix' (db_ledger db d') \<and> same_chain ix ix'"
  using assms(2-)
proof (induction txs arbitrary: ix d)
  case (Cons tx txs)
  from Cons.prems(2) obtain d1 where d1: "apply_transaction b3 vf sha db cx tx d = (Ok (), d1)"
    "for_each (apply_transaction b3 vf sha db cx) txs d1 = (Ok (), d')" by (auto elim: and_store_Ok)
  have "txs_apart b3 cx [tx]" and rest: "txs_apart b3 cx txs" using Cons.prems(1) by (simp_all add: txs_apart_def)
  from replay_transaction [OF laws this(1) d1(1) Cons.prems(3,4)] obtain ix1 where
    1: "ix_apply_transaction b3 ix tx = Ok ix1" "ledger_index ix1 (db_ledger db d1)" "same_chain ix ix1" by blast
  have "ix_network ix1 = ctx_network cx" using Cons.prems(4) 1(3) by (simp add: same_chain_def)
  from Cons.IH [OF rest d1(2) 1(2) this] obtain ix' where
    2: "try_fold (ix_apply_transaction b3) ix1 txs = Ok ix'" "ledger_index ix' (db_ledger db d')" "same_chain ix1 ix'" by blast
  from 1(1) 2(1,2) same_chain_trans [OF 1(3) 2(3)] show ?case by simp
qed simp

lemma replay_genesis:
  assumes m: "index_matches ix coins edges" and "distinct (map fst (genesis_coins sha w16 (ix_allocations ix)))"
    and "\<forall>i \<in> fst ` set (genesis_coins sha w16 (ix_allocations ix)). coins i = None \<and> edges i = None"
  shows "\<exists>ix'. ix_seed_genesis sha w16 ix = Ok ix' \<and> same_chain ix ix'
    \<and> index_matches ix' (coins ++ map_of (map (\<lambda>(i, c). (i, kernel_coin_from c)) (genesis_coins sha w16 (ix_allocations ix)))) edges"
proof -
  define cs where "cs = genesis_coins sha w16 (ix_allocations ix)"
  have "try_fold (\<lambda>ix (index, owner, v). ix_insert_coin ix (f index) (chain_coin_owned owner v)) ix xs
      = try_fold (\<lambda>ix (i, c). ix_insert_coin ix i c) ix (map (\<lambda>(index, owner, v). (f index, chain_coin_owned owner v)) xs)"
    for f and ix and xs :: "(nat \<times> settlement_key \<times> u64) list"
    by (induction xs arbitrary: ix) (auto intro!: arg_cong [where f = "and_then _"])
  then have seed: "ix_seed_genesis sha w16 ix = try_fold (\<lambda>ix (i, c). ix_insert_coin ix i c) ix cs"
    by (simp add: ix_seed_genesis_def cs_def genesis_coins_def)
  from assms have "\<exists>ix'. try_fold (\<lambda>ix (i, c). ix_insert_coin ix i c) ix cs = Ok ix' \<and> same_chain ix ix'
      \<and> index_matches ix' (coins ++ map_of (map (\<lambda>(i, c). (i, kernel_coin_from c)) cs)) edges"
    unfolding cs_def [symmetric]
  proof (induction cs arbitrary: ix coins)
    case (Cons x cs)
    obtain i c where x: "x = (i, c)" by fastforce
    define coins1 where "coins1 = coins(i \<mapsto> kernel_coin_from c)"
    from index_insert_coin [OF Cons.prems(1), of i "kernel_coin_from c"] Cons.prems(3) x obtain ix1 where
      1: "ix_insert_coin ix i c = Ok ix1" "index_matches ix1 coins1 edges" "same_chain ix ix1" unfolding coins1_def by auto
    have "\<forall>j \<in> fst ` set cs. coins1 j = None \<and> edges j = None" using Cons.prems(2,3) x by (auto simp: coins1_def image_iff)
    from Cons.IH [OF 1(2) _ this] Cons.prems(2) obtain ix' where 2: "try_fold (\<lambda>ix (i, c). ix_insert_coin ix i c) ix1 cs = Ok ix'"
      "same_chain ix1 ix'" "index_matches ix' (coins1 ++ map_of (map (\<lambda>(i, c). (i, kernel_coin_from c)) cs)) edges" by auto
    have "map_of (map (\<lambda>(i, c). (i, kernel_coin_from c)) cs) i = None" using Cons.prems(2) x by (force simp: map_of_eq_None_iff)
    then have "coins1 ++ map_of (map (\<lambda>(i, c). (i, kernel_coin_from c)) cs) = coins ++ map_of (map (\<lambda>(i, c). (i, kernel_coin_from c)) (x # cs))"
      by (auto simp: coins1_def x map_add_def fun_eq_iff split: option.split)
    then have "index_matches ix' (coins ++ map_of (map (\<lambda>(i, c). (i, kernel_coin_from c)) (x # cs))) edges" using 2(3) by (simp only:)
    with 1(1) 2(1) same_chain_trans [OF 1(3) 2(2)] show ?case by (auto simp: x simp del: list.map map_of.simps)
  qed simp
  with seed show ?thesis by (simp add: cs_def)
qed

lemma genesis_coins_ledger:
  assumes "distinct (map fst cs)" "\<forall>x \<in> set cs. m (fst x) = None"
  shows "l_coins (object_ledger (apply_changes (map (\<lambda>(i, c). (i, Some (ObjCoin c))) cs) m))
      = l_coins (object_ledger m) ++ map_of (map (\<lambda>(i, c). (i, kernel_coin_from c)) cs)"
    and "l_edges (object_ledger (apply_changes (map (\<lambda>(i, c). (i, Some (ObjCoin c))) cs) m)) = l_edges (object_ledger m)"
proof -
  have "l_coins (object_ledger (apply_changes (map (\<lambda>(i, c). (i, Some (ObjCoin c))) cs) m)) j
      = (l_coins (object_ledger m) ++ map_of (map (\<lambda>(i, c). (i, kernel_coin_from c)) cs)) j
    \<and> l_edges (object_ledger (apply_changes (map (\<lambda>(i, c). (i, Some (ObjCoin c))) cs) m)) j = l_edges (object_ledger m) j" for j
    using assms
  proof (induction cs arbitrary: m)
    case (Cons x cs)
    obtain i c where x: "x = (i, c)" by fastforce
    define m1 where "m1 = m(i \<mapsto> ObjCoin c)"
    have "\<forall>y \<in> set cs. m1 (fst y) = None" using Cons.prems x by (auto simp: m1_def)
    moreover have "map_of (map (\<lambda>(i, c). (i, kernel_coin_from c)) cs) i = None" using Cons.prems(1) x by (force simp: map_of_eq_None_iff)
    moreover have "l_coins (object_ledger m1) = (l_coins (object_ledger m))(i \<mapsto> kernel_coin_from c)"
      "l_edges (object_ledger m1) = l_edges (object_ledger m)"
      using Cons.prems(2) x by (auto simp: object_ledger_def m1_def fun_eq_iff)
    ultimately show ?case using Cons.IH [of m1] Cons.prems(1) x
      by (auto simp: map_add_def simp flip: m1_def split: option.split)
  qed simp
  then show "l_coins (object_ledger (apply_changes (map (\<lambda>(i, c). (i, Some (ObjCoin c))) cs) m))
      = l_coins (object_ledger m) ++ map_of (map (\<lambda>(i, c). (i, kernel_coin_from c)) cs)"
    "l_edges (object_ledger (apply_changes (map (\<lambda>(i, c). (i, Some (ObjCoin c))) cs) m)) = l_edges (object_ledger m)"
    by (auto simp: fun_eq_iff)
qed

lemma next_height:
  assumes "(h :: u64) \<noteq> - 1"
  shows "unat (h + 1) = Suc (unat h)" "\<not> h + 1 < h" "saturating_add h 1 = h + 1"
proof -
  have "1 + h \<noteq> 0" using assms by (simp add: add_eq_0_iff)
  then show s: "unat (h + 1) = Suc (unat h)" using unatSuc [of h] by (subst add.commute)
  then show "\<not> h + 1 < h" by (simp add: word_less_nat_alt)
  have "Suc (unat h) < 2 ^ 64" using unsigned_less [of "h + 1", where 'a = nat] by (simp add: s)
  then show "saturating_add h 1 = h + 1" by (simp add: saturating_add_def checked_add_def)
qed

text \<open>A block that extends the cursor. Its first block also lays down the genesis coins, in an empty database.\<close>

lemma replay_block:
  assumes laws: "db_laws db" and dist: "distinct (map fst (genesis_coins sha w16 (ix_allocations ix)))"
    and m: "ledger_index ix (db_ledger db d)" and empty: "cur_height (ix_cursor ix) = 0 \<Longrightarrow> db_objects db d = (\<lambda>_. None)"
    and nxt: "cur_height (ix_cursor ix) \<noteq> - 1" "hb_height blk = cur_height (ix_cursor ix) + 1" "hb_parent blk = cur_payload (ix_cursor ix)"
    and apart: "txs_apart b3 (kernel_context (ix_network ix) (hb_height blk) (hb_parent blk)) (hb_txs blk)"
    and run: "execute_all b3 vf sha w16 db (kernel_context (ix_network ix) (hb_height blk) (hb_parent blk)) (hb_txs blk)
      (ix_allocations ix) d = (Ok (), d')"
  shows "\<exists>ix'. ix_apply_finalized b3 sha w16 digest ix blk = Ok (IndexApplied, ix') \<and> ledger_index ix' (db_ledger db d')
    \<and> ix_cursor ix' = block_cursor digest blk \<and> ix_network ix' = ix_network ix \<and> ix_allocations ix' = ix_allocations ix"
proof -
  let ?cx = "kernel_context (ix_network ix) (hb_height blk) (hb_parent blk)" and ?h = "cur_height (ix_cursor ix)"
  from run obtain d1 where d1: "maybe_seed_genesis sha w16 db ?cx (ix_allocations ix) d = (Ok (), d1)"
    "for_each (apply_transaction b3 vf sha db ?cx) (hb_txs blk) d1 = (Ok (), d')" by (rule execute_all_Ok)
  have "\<exists>ix1. (if ?h = 0 then ix_seed_genesis sha w16 ix else Ok ix) = Ok ix1 \<and> ledger_index ix1 (db_ledger db d1) \<and> same_chain ix ix1"
  proof (cases "?h = 0")
    case True
    let ?cs = "genesis_coins sha w16 (ix_allocations ix)"
    have "db_objects db d1 = apply_changes (map (\<lambda>(i, c). (i, Some (ObjCoin c))) ?cs) (db_objects db d)"
      using seed_genesis_objects [OF laws d1(1)] True nxt(2) by (simp add: genesis_changes_def)
    moreover have "\<forall>i \<in> fst ` set ?cs. l_coins (db_ledger db d) i = None \<and> l_edges (db_ledger db d) i = None"
      by (simp add: db_ledger_def empty [OF True] object_ledger_def)
    ultimately show ?thesis
      using replay_genesis [OF m dist] genesis_coins_ledger [OF dist, of "db_objects db d"] empty [OF True] True
      by (simp add: db_ledger_def) blast
  next
    case False
    with nxt(2) d1(1) have "d1 = d" by (simp add: maybe_seed_genesis_def)
    with False m show ?thesis by simp
  qed
  then obtain ix1 where 1: "(if ?h = 0 then ix_seed_genesis sha w16 ix else Ok ix) = Ok ix1" "ledger_index ix1 (db_ledger db d1)"
    "same_chain ix ix1" by blast
  have "ix_network ix1 = ctx_network ?cx" using 1(3) by (simp add: same_chain_def)
  from replay_transactions [OF laws apart d1(2) 1(2) this] obtain ix2 where
    2: "try_fold (ix_apply_transaction b3) ix1 (hb_txs blk) = Ok ix2" "ledger_index ix2 (db_ledger db d')" "same_chain ix1 ix2" by blast
  have h: "?h + 1 \<noteq> ?h" "\<not> ?h + 1 < ?h" "saturating_add ?h 1 = ?h + 1"  using next_height [OF nxt(1)] by auto
  have "ix_apply_finalized b3 sha w16 digest ix blk = Ok (IndexApplied, ix2\<lparr>ix_cursor := block_cursor digest blk\<rparr>)"
    using nxt 1(1) 2(1) h by (simp add: ix_apply_finalized_def Let_def)
  with 2(2) same_chain_trans [OF 1(3) 2(3)] show ?thesis by (simp add: index_matches_def index_wf_def same_chain_def)
qed

section \<open>Chains of blocks\<close>

text \<open>Each block names its parent's digest and the next height.\<close>

primrec linked :: "(('c, 't) hellas_block \<Rightarrow> bytes32) \<Rightarrow> ('c, 't) hellas_block \<Rightarrow> ('c, 't) hellas_block list \<Rightarrow> bool" where
  "linked digest parent [] \<longleftrightarrow> True"
| "linked digest parent (blk # blks) \<longleftrightarrow>
    hb_height parent \<noteq> - 1 \<and> hb_height blk = hb_height parent + 1 \<and> hb_parent blk = digest parent \<and> linked digest blk blks"

definition execute_blocks ::
  "blake3 \<Rightarrow> verifier \<Rightarrow> sha256 \<Rightarrow> (u16 \<Rightarrow> bytes) \<Rightarrow> 'd object_db \<Rightarrow> network_id \<Rightarrow> (settlement_key \<times> u64) list
    \<Rightarrow> ('c, 't) hellas_block list \<Rightarrow> 'd \<Rightarrow> 'd exec" where
  "execute_blocks b3 vf sha w16 db network allocations blks d =
    for_each (\<lambda>blk. execute_all b3 vf sha w16 db (kernel_context network (hb_height blk) (hb_parent blk)) (hb_txs blk) allocations) blks d"

definition replay_blocks ::
  "blake3 \<Rightarrow> sha256 \<Rightarrow> (u16 \<Rightarrow> bytes) \<Rightarrow> (('c, 't) hellas_block \<Rightarrow> bytes32) \<Rightarrow> owner_index \<Rightarrow> ('c, 't) hellas_block list
    \<Rightarrow> (owner_index, owner_index_error) result" where
  "replay_blocks b3 sha w16 digest ix blks =
    try_fold (\<lambda>ix blk. and_then (ix_apply_finalized b3 sha w16 digest ix blk) (\<lambda>(_, ix). Ok ix)) ix blks"

definition blocks_apart :: "blake3 \<Rightarrow> network_id \<Rightarrow> ('c, 't) hellas_block list \<Rightarrow> bool" where
  "blocks_apart b3 network blks \<longleftrightarrow>
    list_all (\<lambda>blk. txs_apart b3 (kernel_context network (hb_height blk) (hb_parent blk)) (hb_txs blk)) blks"

lemma replay_chain:
  assumes laws: "db_laws db" and "distinct (map fst (genesis_coins sha w16 (ix_allocations ix)))"
    and "ledger_index ix (db_ledger db d)" "ix_cursor ix = block_cursor digest parent" "hb_height parent = 0 \<longrightarrow> db_objects db d = (\<lambda>_. None)"
    and "linked digest parent blks" "blocks_apart b3 (ix_network ix) blks"
    and "execute_blocks b3 vf sha w16 db (ix_network ix) (ix_allocations ix) blks d = (Ok (), d')"
  shows "\<exists>ix'. replay_blocks b3 sha w16 digest ix blks = Ok ix' \<and> ledger_index ix' (db_ledger db d')
    \<and> ix_cursor ix' = block_cursor digest (last (parent # blks))"
  using assms(2-)
proof (induction blks arbitrary: ix d parent)
  case (Cons blk blks)
  let ?cx = "kernel_context (ix_network ix) (hb_height blk) (hb_parent blk)"
  from Cons.prems(7) obtain d1 where d1: "execute_all b3 vf sha w16 db ?cx (hb_txs blk) (ix_allocations ix) d = (Ok (), d1)"
    "execute_blocks b3 vf sha w16 db (ix_network ix) (ix_allocations ix) blks d1 = (Ok (), d')"
    by (auto simp: execute_blocks_def elim: and_store_Ok)
  have link: "cur_height (ix_cursor ix) \<noteq> - 1" "hb_height blk = cur_height (ix_cursor ix) + 1" "hb_parent blk = cur_payload (ix_cursor ix)"
    and apart: "txs_apart b3 ?cx (hb_txs blk)"
    using Cons.prems(3,5,6) by (auto simp: block_cursor_def blocks_apart_def)
  have "cur_height (ix_cursor ix) = 0 \<Longrightarrow> db_objects db d = (\<lambda>_. None)" using Cons.prems(3,4) by (simp add: block_cursor_def)
  from replay_block [OF laws Cons.prems(1,2) this link apart d1(1), of digest] obtain ix1 where
    1: "ix_apply_finalized b3 sha w16 digest ix blk = Ok (IndexApplied, ix1)" "ledger_index ix1 (db_ledger db d1)"
      "ix_cursor ix1 = block_cursor digest blk" "ix_network ix1 = ix_network ix" "ix_allocations ix1 = ix_allocations ix" by blast
  have "hb_height blk \<noteq> 0" using next_height(1) [of "hb_height parent"] Cons.prems(5) by auto
  with Cons.IH [of ix1 d1 blk] Cons.prems(1,5,6) 1 d1(2) show ?case by (auto simp: replay_blocks_def blocks_apart_def)
qed (simp add: replay_blocks_def execute_blocks_def)

lemma new_index_matches: "(\<And>k. db_get db d k = Ok None) \<Longrightarrow> ledger_index (ix_new digest network genesis allocations) (db_ledger db d)"
  by (simp add: index_matches_def index_wf_def ix_new_def db_ledger_def db_objects_def object_ledger_def object_at_def)

section \<open>Queries\<close>

lemma sorted_keys_unique:
  assumes "sorted_wrt (<) (map fst xs)" "set xs = (\<lambda>i. (i, f i)) ` S"
  shows "xs = map (\<lambda>i. (i, f i)) (sorted_list_of_set (S :: ('a :: linorder) set))"
proof -
  have "fst ` set xs = S" using assms(2) by force
  then have fin: "finite S" "map fst xs = sorted_list_of_set S"
    using assms(1) by (auto simp: strict_sorted_iff sorted_list_of_set.idem_if_sorted_distinct simp flip: set_map)
  have "map (\<lambda>i. (i, f i)) (map fst xs) = xs" using assms(2) by (auto simp: comp_def intro!: map_idI)
  with fin show ?thesis by metis
qed

lemma set_map_filter: "set (List.map_filter f xs) = {y. \<exists>x \<in> set xs. f x = Some y}"
  by (induction xs) (auto simp: map_filter_simps split: option.split)

text \<open>Filtering entries in key order leaves the remaining keys in order.\<close>

lemma sorted_map_filter:
  assumes "sorted_wrt (<) (map fst xs)"
    and "\<And>x y. x \<in> set xs \<Longrightarrow> y \<in> set xs \<Longrightarrow> fst x < fst y \<Longrightarrow> f x \<noteq> None \<Longrightarrow> f y \<noteq> None \<Longrightarrow> fst (the (f x)) < fst (the (f y))"
  shows "sorted_wrt (<) (map fst (List.map_filter f xs))"
  using assms
proof (induction xs)
  case (Cons x xs)
  have "fst (the (f x)) < k" if "k \<in> fst ` set (List.map_filter f xs)" "f x \<noteq> None" for k
    using that Cons.prems(1) Cons.prems(2) [of x] by (fastforce simp: set_map_filter)
  moreover have "sorted_wrt (<) (map fst (List.map_filter f xs))" using Cons.IH Cons.prems by simp
  ultimately show ?case by (force simp: map_filter_simps split: option.split)
qed (simp add: map_filter_simps)

lemma coin_holding_owner:
  "map_of (map (\<lambda>(key, kind, b). ((key, kind), b)) (coin_holdings c)) (owner, HOLDING_COIN) = Some v
    \<longleftrightarrow> cc_owner c = owner \<and> v = cc_value c"
  by (auto simp: coin_holdings_def HOLDING_COIN_def HOLDING_DELEGATED_def split: option.split)

lemma nested_inner:
  assumes "nested_wf m" and inner_def: "inner = (case bt_get m a of Some inner \<Rightarrow> inner | None \<Rightarrow> [])"
  shows "bt_wf inner" "(b, v) \<in> set inner \<longleftrightarrow> nested_get m a b = Some v"
proof -
  show "bt_wf inner" using assms by (auto simp: inner_def nested_wf_def bt_wf_def split: option.split)
  then show "(b, v) \<in> set inner \<longleftrightarrow> nested_get m a b = Some v"
    using bt_entry [of inner b v] by (auto simp: inner_def nested_get_def split: option.splits)
qed

text \<open>The coins of an owner come out in the order of their identifiers, each with its value; so do the edges.\<close>

lemma coins_snapshot:
  assumes m: "index_matches ix coins edges"
  shows "ix_coins_by_owner_snapshot ix owner = (ix_cursor ix,
    map (\<lambda>i. (i, coin_value (the (coins i)))) (sorted_list_of_set {i. \<exists>c. coins i = Some c \<and> coin_owner c = owner}))"
proof -
  define inner where "inner = (case bt_get (ix_by_owner ix) owner of Some inner \<Rightarrow> inner | None \<Rightarrow> [])"
  let ?f = "\<lambda>((kind, i), v). if kind = HOLDING_COIN then Some (i, v) else None"
  have snap: "ix_coins_by_owner_snapshot ix owner = (ix_cursor ix, List.map_filter ?f inner)"
    by (simp add: ix_coins_by_owner_snapshot_def inner_def split: option.split)
  have "nested_wf (ix_by_owner ix)" using m by (simp add: index_matches_def index_wf_def)
  note inner = nested_inner [OF this inner_def]
  have entry: "((HOLDING_COIN, i), v) \<in> set inner \<longleftrightarrow> (\<exists>c. coins i = Some c \<and> coin_owner c = owner \<and> v = coin_value c)" for i v
    using m unfolding inner(2) by (auto simp: index_matches_def index_wf_def coin_holding_owner chain_coin_from_def bind_eq_Some_conv)
  have "sorted_wrt (<) (map fst (List.map_filter ?f inner))"
    using inner(1) by (intro sorted_map_filter) (auto simp: bt_wf_def split: if_splits)
  moreover have "set (List.map_filter ?f inner)
      = (\<lambda>i. (i, coin_value (the (coins i)))) ` {i. \<exists>c. coins i = Some c \<and> coin_owner c = owner}"
    using entry by (force simp: set_map_filter split: if_splits)
  ultimately show ?thesis unfolding snap by (simp add: sorted_keys_unique)
qed

lemma edges_snapshot:
  assumes m: "index_matches ix coins edges"
  shows "ix_edges_by_owner_snapshot ix owner = (ix_cursor ix,
    map (\<lambda>i. (i, edge_parties (the (edges i)))) (sorted_list_of_set {i. \<exists>e. edges i = Some e \<and> owner \<in> set (edge_keys (edge_parties e))}))"
proof -
  define inner where "inner = (case bt_get (ix_edges_by_owner ix) owner of Some inner \<Rightarrow> inner | None \<Rightarrow> [])"
  let ?f = "\<lambda>(i, _). map_option (Pair i) (bt_get (ix_edges ix) i)"
  have snap: "ix_edges_by_owner_snapshot ix owner = (ix_cursor ix, List.map_filter ?f inner)"
    by (simp add: ix_edges_by_owner_snapshot_def inner_def)
  have "nested_wf (ix_edges_by_owner ix)" using m by (simp add: index_matches_def index_wf_def)
  note inner = nested_inner [OF this inner_def]
  have get: "bt_get (ix_edges ix) i = map_option edge_parties (edges i)" for i using m by (simp add: index_matches_def)
  have entry: "(i, ()) \<in> set inner \<longleftrightarrow> (\<exists>e. edges i = Some e \<and> owner \<in> set (edge_keys (edge_parties e)))" for i
    using m unfolding inner(2) by (auto simp: index_matches_def index_wf_def bind_eq_Some_conv)
  have "sorted_wrt (<) (map fst (List.map_filter ?f inner))"
    using inner(1) by (intro sorted_map_filter) (auto simp: bt_wf_def)
  moreover have "set (List.map_filter ?f inner)
      = (\<lambda>i. (i, edge_parties (the (edges i)))) ` {i. \<exists>e. edges i = Some e \<and> owner \<in> set (edge_keys (edge_parties e))}"
    using entry by (force simp: set_map_filter get)
  ultimately show ?thesis unfolding snap by (simp add: sorted_keys_unique)
qed

end
