(* ===== verification/Chain_Index_Properties.thy ===== *)
theory Chain_Index_Properties
  imports Chain_Index_Ledger Chain_Examples
begin

text \<open>What the replayed index answers, for any chain of blocks the host accepts.\<close>

section \<open>The queries agree with the ledger\<close>

text \<open>C7. The owner index tells the truth about the ledger. Whatever chain of blocks the host executes from an empty
  database, replaying the same blocks with \<^verbatim>\<open>apply_finalized\<close>, which never executes a transaction nor checks a
  signature, succeeds at every block: no gap, no collision, no missing object and no violated assertion. Afterwards the
  cursor stands at the last block and the three queries answer with the ledger of the database: an owner's coins with
  their values and the edges a key takes part in, each in the order of the identifiers, and the coin at any
  identifier, an edge there being reported as such. Hypotheses: the genesis coins have distinct identifiers and no new
  edge has the identifier of a lease slot of the same transaction.\<close>

theorem replayed_index_agrees:
  assumes "db_laws db" "distinct (map fst (genesis_coins sha w16 allocations))" "\<And>k. db_get db d k = Ok None"
    and "hb_height genesis = 0" "linked digest genesis blks" "blocks_apart b3 network blks"
    and "execute_blocks b3 vf sha w16 db network allocations blks d = (Ok (), d')"
  defines "l \<equiv> db_ledger db d'" and "cursor \<equiv> block_cursor digest (last (genesis # blks))"
  shows "\<exists>ix. replay_blocks b3 sha w16 digest (ix_new digest network genesis allocations) blks = Ok ix
    \<and> (\<forall>owner. ix_coins_by_owner_snapshot ix owner
        = (cursor, map (\<lambda>i. (i, coin_value (the (l_coins l i)))) (sorted_list_of_set (owner_coins l owner))))
    \<and> (\<forall>key. ix_edges_by_owner_snapshot ix key
        = (cursor, map (\<lambda>i. (i, edge_parties (the (l_edges l i))))
            (sorted_list_of_set {i. \<exists>e. l_edges l i = Some e \<and> key \<in> set (edge_keys (edge_parties e))})))
    \<and> (\<forall>i. ix_coin_snapshot ix i
        = (cursor, case l_coins l i of
            Some c \<Rightarrow> Ok (Some (chain_coin_from c))
          | None \<Rightarrow> if l_edges l i = None then Ok None else Err (IndexWrongObjectKind i KindCoin KindEdge)))"
proof -
  let ?ix = "ix_new digest network genesis allocations"
  have "ix_cursor ?ix = block_cursor digest genesis" "ix_network ?ix = network" "ix_allocations ?ix = allocations"
    by (simp_all add: ix_new_def)
  then obtain ix where ix: "replay_blocks b3 sha w16 digest ?ix blks = Ok ix" "ledger_index ix l" "ix_cursor ix = cursor"
    using replay_chain [OF assms(1), of sha w16 ?ix d digest genesis blks b3 vf d'] new_index_matches [of db d digest network genesis allocations]
      empty_chain_ok(2) [of db d] assms by (auto simp: l_def cursor_def)
  have "ix_coin_snapshot ix i = (cursor, case l_coins l i of Some c \<Rightarrow> Ok (Some (chain_coin_from c))
      | None \<Rightarrow> if l_edges l i = None then Ok None else Err (IndexWrongObjectKind i KindCoin KindEdge))" for i
    using ix(2,3) by (auto simp: ix_coin_snapshot_def ix_get_coin_def ix_kind_of_def index_matches_def split: option.split)
  with ix coins_snapshot [OF ix(2)] edges_snapshot [OF ix(2)] show ?thesis by (auto simp: owner_coins_def)
qed

definition gen_genesis :: "(unit, unit) hellas_block" where
  "gen_genesis = hb_new () 0 0 0 0 () []"

theorem replayed_index_agrees_witness:
  "\<exists>ix. replay_blocks ex_b3 ex_sha gen_w16 (\<lambda>_. 0) (ix_new (\<lambda>_. 0) (ascii ''net'') gen_genesis gen_allocations) [gen_block] = Ok ix
    \<and> snd (ix_coins_by_owner_snapshot ix gen_owner) = [(0, 7)]"
proof -
  obtain d where d: "execute_all ex_b3 ex_vf ex_sha gen_w16 mem_db (gen_ctx 0) [] gen_allocations gen_start = (Ok (), d)"
    "db_objects mem_db d = [0 \<mapsto> ObjCoin (chain_coin_owned gen_owner 7)]" using gen_run [of 0] by blast
  have l: "l_coins (db_ledger mem_db d) = [0 \<mapsto> kernel_coin_from (chain_coin_owned gen_owner 7)]"
    by (auto simp: db_ledger_def object_ledger_def d(2) fun_eq_iff)
  then have "owner_coins (db_ledger mem_db d) gen_owner = {0}"
    by (auto simp: owner_coins_def kernel_coin_from_def coin_issue_def chain_coin_owned_def split: if_splits)
  moreover have "execute_blocks ex_b3 ex_vf ex_sha gen_w16 mem_db (ascii ''net'') gen_allocations [gen_block] gen_start = (Ok (), d)"
    using d(1) by (simp add: execute_blocks_def and_store_def)
  ultimately show ?thesis
    using replayed_index_agrees [OF mem_db_laws, of ex_sha gen_w16 gen_allocations gen_start gen_genesis "\<lambda>_. 0" "[gen_block]" ex_b3
        "ascii ''net''" ex_vf d] l
    by (auto simp: gen_coins gen_start_def gen_genesis_def hb_new_def blocks_apart_def txs_apart_def
        kernel_coin_from_def coin_issue_def chain_coin_owned_def)
qed

end
