(* ===== verification/Chain_Mempool.thy ===== *)
theory Chain_Mempool
  imports Chain_Index Kernel_Apply
begin

text \<open>The transaction pool of a validator (src/crates/chain/src/app.rs, src/crates/chain/src/rpc.rs): a bounded queue of
  general transactions and a bounded map with at most one answer per contest. The state behind the mutex is a record;
  each operation below takes the lock once, so it is a function on that record. The canonical length prefix of
  the encoding, the finality archive and the root of the durable database are parameters.\<close>

section \<open>Entries\<close>

definition GENERAL_MEMPOOL_CAPACITY :: nat where "GENERAL_MEMPOOL_CAPACITY = 120"
definition GENERAL_MEMPOOL_MAX_STRIKES :: u32 where "GENERAL_MEMPOOL_MAX_STRIKES = 8"
definition RESPONSE_MEMPOOL_CAPACITY :: nat where "RESPONSE_MEMPOOL_CAPACITY = 64"
definition RESPONSE_TRANSACTION_BYTES :: nat where "RESPONSE_TRANSACTION_BYTES = 274"
definition MAX_CANONICAL_TRANSACTION_BYTES :: nat where "MAX_CANONICAL_TRANSACTION_BYTES = 65536"
definition RECONCILED_PER_BLOCK :: nat where "RECONCILED_PER_BLOCK = 32"

datatype submit_tx_outcome = Enqueued | SubmitDuplicate | SubmitFull | ValidationRejected

definition transaction_bytes :: "(nat \<Rightarrow> bytes) \<Rightarrow> transaction \<Rightarrow> bytes" where
  "transaction_bytes vlen tx = (let (tag, n, payload) = transaction_write tx in tag # vlen n @ payload)"

definition tx_digest :: "sha256 \<Rightarrow> (nat \<Rightarrow> bytes) \<Rightarrow> transaction \<Rightarrow> bytes32" where
  "tx_digest sha vlen tx = sha (transaction_bytes vlen tx)"

record mempool_entry =
  me_digest :: bytes32
  me_transaction :: transaction
  me_strikes :: u32

definition entry_new :: "sha256 \<Rightarrow> (nat \<Rightarrow> bytes) \<Rightarrow> transaction \<Rightarrow> mempool_entry" where
  "entry_new sha vlen tx = \<lparr>me_digest = tx_digest sha vlen tx, me_transaction = tx, me_strikes = 0\<rparr>"

type_synonym response_slot_id = "edge_id \<times> start_id"

record mempool_state =
  mp_general :: "mempool_entry list"
  mp_responses :: "(response_slot_id, mempool_entry) btree_map"

definition mempool_default :: mempool_state where
  "mempool_default = \<lparr>mp_general = [], mp_responses = bt_empty\<rparr>"

fun payment_close_response_of :: "transaction \<Rightarrow> payment_close_response option" where
  "payment_close_response_of (Kernel (TxMove (RespondPaymentClose response))) = Some response"
| "payment_close_response_of _ = None"

fun response_slot :: "transaction \<Rightarrow> response_slot_id option" where
  "response_slot (Kernel (TxMove (RespondPaymentClose response))) = Some (pr_payment_edge response, pr_start_id response)"
| "response_slot _ = None"

section \<open>The pool's operations\<close>

primrec list_position :: "('a \<Rightarrow> bool) \<Rightarrow> 'a list \<Rightarrow> nat option" where
  "list_position P [] = None"
| "list_position P (x # xs) = (if P x then Some 0 else map_option Suc (list_position P xs))"

definition list_remove :: "nat \<Rightarrow> 'a list \<Rightarrow> 'a list" where
  "list_remove i xs = take i xs @ drop (Suc i) xs"

definition admit_general :: "mempool_state \<Rightarrow> mempool_entry \<Rightarrow> submit_tx_outcome \<times> mempool_state" where
  "admit_general mp entry =
    (let general = mp_general mp in
     if list_ex (\<lambda>resident. me_digest resident = me_digest entry) general then (SubmitDuplicate, mp)
     else if GENERAL_MEMPOOL_CAPACITY \<le> length general then
       (case list_position (\<lambda>resident. 0 < me_strikes resident) general of
          None \<Rightarrow> (SubmitFull, mp)
        | Some index \<Rightarrow> (Enqueued, mp\<lparr>mp_general := list_remove index general @ [entry]\<rparr>))
     else (Enqueued, mp\<lparr>mp_general := general @ [entry]\<rparr>))"

definition mempool_snapshot :: "mempool_state \<Rightarrow> mempool_entry list" where
  "mempool_snapshot mp = map snd (mp_responses mp) @ mp_general mp"

definition saturating_inc :: "u32 \<Rightarrow> u32" where
  "saturating_inc n = (if n = - 1 then n else n + 1)"

definition mempool_strike :: "bytes32 set \<Rightarrow> mempool_state \<Rightarrow> mempool_state" where
  "mempool_strike digests mp = mp\<lparr>mp_general := map (\<lambda>entry.
    if me_digest entry \<in> digests then entry\<lparr>me_strikes := saturating_inc (me_strikes entry)\<rparr> else entry) (mp_general mp)\<rparr>"

definition clear_strikes :: "bytes32 set \<Rightarrow> mempool_state \<Rightarrow> mempool_state" where
  "clear_strikes digests mp = mp\<lparr>mp_general := map (\<lambda>entry.
    if me_digest entry \<in> digests then entry\<lparr>me_strikes := 0\<rparr> else entry) (mp_general mp)\<rparr>"

definition evict_orphans :: "mempool_state \<Rightarrow> mempool_state" where
  "evict_orphans mp = mp\<lparr>mp_general := filter (\<lambda>entry. me_strikes entry < GENERAL_MEMPOOL_MAX_STRIKES) (mp_general mp)\<rparr>"

definition mempool_remove :: "bytes32 set \<Rightarrow> mempool_state \<Rightarrow> mempool_state" where
  "mempool_remove digests mp =
    mp\<lparr>mp_general := filter (\<lambda>entry. me_digest entry \<notin> digests) (mp_general mp),
       mp_responses := bt_retain (\<lambda>_ entry. me_digest entry \<notin> digests) (mp_responses mp)\<rparr>"

section \<open>Submission\<close>

fun canonical_submission_size :: "transaction \<Rightarrow> nat" where
  "canonical_submission_size (Kernel t) = encoded_size_tx t"

definition submit_general :: "sha256 \<Rightarrow> (nat \<Rightarrow> bytes) \<Rightarrow> transaction \<Rightarrow> mempool_state \<Rightarrow> submit_tx_outcome \<times> mempool_state" where
  "submit_general sha vlen tx mp = admit_general mp (entry_new sha vlen tx)"

datatype query_error =
    StateUnavailable string
  | QueryWrongObjectKind object_kind object_kind  \<comment> \<open>expected, actual\<close>
  | InvalidTransaction string
  | QueryFailed string  \<comment> \<open>an error of the finality archive\<close>

text \<open>The read-only batch the kernel's response check runs on.\<close>

record admission_batch =
  ab_edges :: "edge_id \<Rightarrow> edge option"
  ab_registry :: "registry_chunk_id \<Rightarrow> registry_chunk option"

definition admission_empty :: admission_batch where
  "admission_empty = \<lparr>ab_edges = (\<lambda>_. None), ab_registry = (\<lambda>_. None)\<rparr>"

definition admission_ops :: "admission_batch batch_ops" where
  "admission_ops =
    \<lparr>b_coin = (\<lambda>_ _. None), b_insert_coin = (\<lambda>_ _ _. Err Unavailable), b_remove_coin = (\<lambda>s _. (None, s)),
     b_edge = ab_edges, b_insert_edge = (\<lambda>_ _ _. Err Unavailable), b_remove_edge = (\<lambda>s _. (None, s)),
     b_registry_chunk = ab_registry, b_insert_registry_chunk = (\<lambda>_ _ _. Err Unavailable),
     b_remove_registry_chunk = (\<lambda>s _. (None, s))\<rparr>"

text \<open>One finalized edge and one finalized registry chunk, read into the batch unless it has them.\<close>

definition admit_edge :: "'d object_db \<Rightarrow> 'd \<Rightarrow> edge_id \<Rightarrow> admission_batch \<Rightarrow> (admission_batch, query_error) result" where
  "admit_edge db d i adm =
    (if ab_edges adm i \<noteq> None then Ok adm
     else and_then (map_err (\<lambda>_. StateUnavailable ''edge read failed'') (db_get db d (edge_object_id i))) (\<lambda>found.
       case found of
         Some (ObjEdge e) \<Rightarrow> Ok (adm\<lparr>ab_edges := (ab_edges adm)(i \<mapsto> e)\<rparr>)
       | Some obj \<Rightarrow> Err (QueryWrongObjectKind KindEdge (object_kind_of obj))
       | None \<Rightarrow> Ok adm))"

definition admit_chunk ::
  "'d object_db \<Rightarrow> 'd \<Rightarrow> registry_chunk_id \<Rightarrow> admission_batch \<Rightarrow> (admission_batch, query_error) result" where
  "admit_chunk db d i adm =
    (if ab_registry adm i \<noteq> None then Ok adm
     else and_then (map_err (\<lambda>_. StateUnavailable ''registry read failed'') (db_get db d (registry_chunk_object_id i))) (\<lambda>found.
       case found of
         Some (ObjRegistryChunk c) \<Rightarrow> Ok (adm\<lparr>ab_registry := (ab_registry adm)(i \<mapsto> c)\<rparr>)
       | Some obj \<Rightarrow> Err (QueryWrongObjectKind KindRegistryChunk (object_kind_of obj))
       | None \<Rightarrow> Ok adm))"

definition admit_slots ::
  "blake3 \<Rightarrow> 'd object_db \<Rightarrow> 'd \<Rightarrow> network_id \<Rightarrow> admission_batch \<Rightarrow> edge_id \<Rightarrow> (admission_batch, query_error) result" where
  "admit_slots b3 db d network adm i =
    and_then (admit_edge db d i adm) (admit_chunk db d (pending_payment_close_slot b3 network i))"

definition response_stands ::
  "blake3 \<Rightarrow> verifier \<Rightarrow> ctx \<Rightarrow> admission_batch \<Rightarrow> mempool_entry \<Rightarrow> bool" where
  "response_stands b3 vf cx adm resident =
    (case payment_close_response_of (me_transaction resident) of
       Some response \<Rightarrow> (case check_response b3 vf admission_ops adm cx response of Ok _ \<Rightarrow> True | Err _ \<Rightarrow> False)
     | None \<Rightarrow> False)"

text \<open>The sweep of the residents and the insertion, once the newcomer has been authenticated.\<close>

definition admit_response ::
  "blake3 \<Rightarrow> verifier \<Rightarrow> 'd object_db \<Rightarrow> 'd \<Rightarrow> ctx \<Rightarrow> response_slot_id \<Rightarrow> mempool_entry \<Rightarrow> admission_batch \<Rightarrow> mempool_state
    \<Rightarrow> (submit_tx_outcome, query_error) result \<times> mempool_state" where
  "admit_response b3 vf db d cx slot incoming adm mp =
    (let residents = List.map_filter (\<lambda>(_, entry). payment_close_response_of (me_transaction entry)) (mp_responses mp) in
     case try_fold (\<lambda>adm response. admit_slots b3 db d (ctx_network cx) adm (pr_payment_edge response)) adm residents of
       Err e \<Rightarrow> (Err e, mp)
     | Ok adm \<Rightarrow>
         let swept = bt_retain (\<lambda>_. response_stands b3 vf cx adm) (mp_responses mp);
             mp = mp\<lparr>mp_responses := swept\<rparr>
         in if map_option me_digest (bt_get swept slot) = Some (me_digest incoming) then (Ok SubmitDuplicate, mp)
            else if bt_get swept slot \<noteq> None \<or> RESPONSE_MEMPOOL_CAPACITY \<le> length swept then (Ok SubmitFull, mp)
            else (Ok Enqueued, mp\<lparr>mp_responses := bt_insert slot incoming swept\<rparr>))"

definition submit_response ::
  "blake3 \<Rightarrow> verifier \<Rightarrow> sha256 \<Rightarrow> (nat \<Rightarrow> bytes) \<Rightarrow> 'd object_db \<Rightarrow> ('d \<Rightarrow> bytes32) \<Rightarrow> (bytes32 \<Rightarrow> (bool, string) result)
    \<Rightarrow> network_id option \<Rightarrow> 'd \<Rightarrow> owner_cursor \<Rightarrow> payment_close_response \<Rightarrow> mempool_state
    \<Rightarrow> (submit_tx_outcome, query_error) result \<times> mempool_state" where
  "submit_response b3 vf sha vlen db root get_finalization network_id d cursor response mp =
    (case network_id of
       None \<Rightarrow> (Err (StateUnavailable ''network id does not fit a kernel NetworkId''), mp)
     | Some network \<Rightarrow>
         let slot = (pr_payment_edge response, pr_start_id response);
             incoming = entry_new sha vlen (Kernel (TxMove (RespondPaymentClose response)))
         in if cur_height cursor = 0 then (Err (StateUnavailable ''no finalized application state is available''), mp)
            else if cur_state_root cursor \<noteq> root d
            then (Err (StateUnavailable ''owner index and application state are not synchronized''), mp)
            else case get_finalization (cur_payload cursor) of
              Err e \<Rightarrow> (Err (QueryFailed e), mp)
            | Ok False \<Rightarrow> (Err (StateUnavailable ''owner index cursor finalization is unavailable''), mp)
            | Ok True \<Rightarrow>
                (case checked_add (cur_height cursor) 1 of
                   None \<Rightarrow> (Err (StateUnavailable ''finalized height has no successor for response admission''), mp)
                 | Some height \<Rightarrow>
                     let cx = kernel_context network height (cur_payload cursor) in
                     case admit_slots b3 db d network admission_empty (pr_payment_edge response) of
                       Err e \<Rightarrow> (Err e, mp)
                     | Ok adm \<Rightarrow>
                         (case check_response b3 vf admission_ops adm cx response of
                            Err _ \<Rightarrow> (Ok ValidationRejected, mp)
                          | Ok _ \<Rightarrow> admit_response b3 vf db d cx slot incoming adm mp)))"

text \<open>The submission endpoint of a validator: answers to contests are authenticated, everything else is only bounded.\<close>

definition submit_tx ::
  "blake3 \<Rightarrow> verifier \<Rightarrow> sha256 \<Rightarrow> (nat \<Rightarrow> bytes) \<Rightarrow> 'd object_db \<Rightarrow> ('d \<Rightarrow> bytes32) \<Rightarrow> (bytes32 \<Rightarrow> (bool, string) result)
    \<Rightarrow> network_id option \<Rightarrow> 'd \<Rightarrow> owner_cursor \<Rightarrow> transaction \<Rightarrow> mempool_state
    \<Rightarrow> (submit_tx_outcome, query_error) result \<times> mempool_state" where
  "submit_tx b3 vf sha vlen db root get_finalization network_id d cursor tx mp =
    (if MAX_CANONICAL_TRANSACTION_BYTES < canonical_submission_size tx
     then (Err (InvalidTransaction ''canonical transaction is too large''), mp)
     else case payment_close_response_of tx of
       Some response \<Rightarrow> submit_response b3 vf sha vlen db root get_finalization network_id d cursor response mp
     | None \<Rightarrow> apfst Ok (submit_general sha vlen tx mp))"

end
