(* ===== verification/Chain_App.thy ===== *)
theory Chain_App
  imports Chain_Mempool
begin

text \<open>The application consensus drives (src/crates/chain/src/app.rs): proposing a block on an ancestry, verifying and
  applying a block, and what a validator does when a block is finalized. A stream of ancestors is the list it yields,
  newest first. The clock and the consensus context are arguments. A flag says whether the build checks debug
  assertions and arithmetic overflow; \<open>Panics\<close> stands for any failed assertion or \<^verbatim>\<open>expect\<close>. Metrics, logging
  and the publication of the finalized block to indexers leave the state modelled here alone and are left out.\<close>

datatype 'a reply = Panics | Declines | Answers 'a

record app_config =
  app_network :: network_id
  app_allocations :: "(settlement_key \<times> u64) list"
  app_debug :: bool

section \<open>Proposing\<close>

text \<open>The digests of resident transactions found in ancestors above the finalized height.\<close>

fun ancestor_transactions ::
  "(transaction \<Rightarrow> bytes32) \<Rightarrow> u64 \<Rightarrow> bytes32 set \<Rightarrow> ('c, 't) hellas_block list \<Rightarrow> bytes32 set \<Rightarrow> bytes32 set" where
  "ancestor_transactions dg finalized_height resident [] seen = seen"
| "ancestor_transactions dg finalized_height resident (blk # ancestry) seen =
    (if hb_height blk \<le> finalized_height then seen
     else let seen = seen \<union> {x \<in> dg ` set (hb_txs blk). x \<in> resident} in
       if card seen = card resident then seen
       else ancestor_transactions dg finalized_height resident ancestry seen)"

text \<open>The general transactions taken after the responses, within the count and byte budgets.\<close>

fun general_candidates :: "(transaction \<Rightarrow> nat) \<Rightarrow> nat \<Rightarrow> nat \<Rightarrow> nat \<Rightarrow> nat \<Rightarrow> mempool_entry list \<Rightarrow> transaction list" where
  "general_candidates sz count_budget byte_budget count bytes [] = []"
| "general_candidates sz count_budget byte_budget count bytes (entry # general) =
    (let next_bytes = saturating_add_usize bytes (sz (me_transaction entry)) in
     if count_budget \<le> count \<or> byte_budget < next_bytes then []
     else me_transaction entry # general_candidates sz count_budget byte_budget (Suc count) next_bytes general)"

definition saturating_mul_usize :: "nat \<Rightarrow> nat \<Rightarrow> nat" where
  "saturating_mul_usize a b = min (a * b) (2 ^ 64 - 1)"

definition proposal_pending ::
  "(transaction \<Rightarrow> bytes32) \<Rightarrow> u64 \<Rightarrow> ('c, 't) hellas_block list \<Rightarrow> mempool_state \<Rightarrow> mempool_entry list" where
  "proposal_pending dg finalized_height ancestry mp =
    (let snapshot = mempool_snapshot mp;
         resident = set (map me_digest snapshot);
         seen = (if snapshot = [] then {} else ancestor_transactions dg finalized_height resident ancestry {})
     in filter (\<lambda>entry. me_digest entry \<notin> seen) snapshot)"

definition response_count_of :: "mempool_entry list \<Rightarrow> nat" where
  "response_count_of pending = length (takeWhile (\<lambda>entry. response_slot (me_transaction entry) \<noteq> None) pending)"

text \<open>The debug assertion on the size of the pending responses.\<close>

definition responses_sized :: "mempool_entry list \<Rightarrow> bool" where
  "responses_sized pending =
    list_all (\<lambda>entry. canonical_submission_size (me_transaction entry) = RESPONSE_TRANSACTION_BYTES)
      (take (response_count_of pending) pending)"

definition proposal_candidates :: "(transaction \<Rightarrow> nat) \<Rightarrow> mempool_entry list \<Rightarrow> transaction list" where
  "proposal_candidates sz pending =
    (let response_count = response_count_of pending;
         response_bytes = saturating_mul_usize response_count RESPONSE_TRANSACTION_BYTES
     in map me_transaction (take response_count pending)
        @ general_candidates sz (MAX_TXS_PER_BLOCK - response_count) (MAX_BLOCK_TX_BYTES - response_bytes) 0 0
            (drop response_count pending))"

definition propose ::
  "blake3 \<Rightarrow> verifier \<Rightarrow> sha256 \<Rightarrow> (u16 \<Rightarrow> bytes) \<Rightarrow> (nat \<Rightarrow> bytes) \<Rightarrow> (nat \<Rightarrow> nat) \<Rightarrow> 'd object_db \<Rightarrow> ('d, 'm, 't) merkle
    \<Rightarrow> (('c, 't) hellas_block \<Rightarrow> bytes32) \<Rightarrow> app_config \<Rightarrow> owner_cursor \<Rightarrow> u64 \<Rightarrow> 'c \<Rightarrow> ('c, 't) hellas_block list \<Rightarrow> 'd
    \<Rightarrow> mempool_state option \<Rightarrow> (('c, 't) hellas_block \<times> 'm) reply" where
  "propose b3 vf sha w16 vlen vsize db mk digest cfg cursor now cx ancestry d inp =
    (case ancestry of
       [] \<Rightarrow> Declines
     | parent # _ \<Rightarrow>
    (case inp of
       None \<Rightarrow> Declines
     | Some mp \<Rightarrow>
         let pending = proposal_pending (tx_digest sha vlen) (cur_height cursor) ancestry mp in
         if app_debug cfg \<and> \<not> responses_sized pending then Panics
         else if app_debug cfg \<and> hb_height parent = - 1 then Panics
         else
           let candidates = proposal_candidates (transaction_encode_size vsize) pending;
               block_height = hb_height parent + 1;
               block_parent = digest parent
           in (case execute_proposal b3 vf sha w16 vsize db (kernel_context (app_network cfg) block_height block_parent)
                candidates (app_allocations cfg) MAX_TXS_PER_BLOCK MAX_BLOCK_TX_BYTES d of
             Err _ \<Rightarrow> Declines
           | Ok (d', txs, _) \<Rightarrow>
               (case owner_tree_root db sha d' of
                  Err _ \<Rightarrow> Declines
                | Ok root \<Rightarrow>
                    (case mk_merkleize mk d' of
                       Err _ \<Rightarrow> Panics
                     | Ok merkleized \<Rightarrow>
                         let timestamp = max now (hb_timestamp parent);
                             blk = with_owner_root (hb_new cx block_parent block_height timestamp (mk_root mk merkleized)
                               (mk_sync_target mk merkleized) txs) root
                         in Answers (blk, merkleized))))))"

section \<open>Verifying and applying\<close>

definition verify_block ::
  "blake3 \<Rightarrow> verifier \<Rightarrow> sha256 \<Rightarrow> (u16 \<Rightarrow> bytes) \<Rightarrow> 'd object_db \<Rightarrow> ('d, 'm, 't) merkle \<Rightarrow> (('c, 't) hellas_block \<Rightarrow> bytes32)
    \<Rightarrow> app_config \<Rightarrow> u64 \<Rightarrow> 'c \<Rightarrow> ('c, 't) hellas_block list \<Rightarrow> 'd \<Rightarrow> 'm reply" where
  "verify_block b3 vf sha w16 db mk digest cfg now cx ancestry d =
    (case ancestry of
       blk # parent # _ \<Rightarrow>
         if app_debug cfg \<and> hb_height parent = - 1 then Panics
         else (case hb_validate blk cx (hb_height parent + 1) (digest parent) now (hb_timestamp parent) of
            Err _ \<Rightarrow> Declines
          | Ok _ \<Rightarrow>
              (case finalized_execute b3 vf sha w16 db mk blk (app_network cfg) (app_allocations cfg) d of
                 Err _ \<Rightarrow> Declines
               | Ok merkleized \<Rightarrow> Answers merkleized))
     | _ \<Rightarrow> Declines)"

text \<open>With an index attached the changes are collected and handed to it before the block is applied; whether it
  persists them is up to the index.\<close>

definition apply_block ::
  "blake3 \<Rightarrow> verifier \<Rightarrow> sha256 \<Rightarrow> (u16 \<Rightarrow> bytes) \<Rightarrow> 'd object_db \<Rightarrow> ('d, 'm, 't) merkle
    \<Rightarrow> (('c, 't) hellas_block \<Rightarrow> object_changes \<Rightarrow> bool) option \<Rightarrow> app_config \<Rightarrow> ('c, 't) hellas_block \<Rightarrow> 'd \<Rightarrow> 'm reply" where
  "apply_block b3 vf sha w16 db mk index cfg blk d =
    (case index of
       Some prepare \<Rightarrow>
         (case execute_all_observed b3 vf sha w16 db (kernel_context (app_network cfg) (hb_height blk) (hb_parent blk))
            (hb_txs blk) (app_allocations cfg) d of
            Err _ \<Rightarrow> Panics
          | Ok (d', changes) \<Rightarrow>
              (case finalized_check sha db mk blk d' of
                 Err _ \<Rightarrow> Panics
               | Ok executed \<Rightarrow> if prepare blk changes then Answers executed else Panics))
     | None \<Rightarrow>
         (case finalized_execute b3 vf sha w16 db mk blk (app_network cfg) (app_allocations cfg) d of
            Err _ \<Rightarrow> Panics
          | Ok executed \<Rightarrow> Answers executed))"

section \<open>Finality\<close>

text \<open>The pool is behind a mutex that \<^verbatim>\<open>finalized\<close> takes anew for every operation, and between two of them it awaits
  the database. So the handler is not one step on the pool: a point says where it stands, and each step below runs from
  one await to the next. Submissions, which take the same mutex, come between any two steps.\<close>

datatype ('c, 't) finality_point =
    FinalityIdle
  | FinalityRemove "('c, 't) hellas_block"  \<comment> \<open>about to remove the block's transactions\<close>
  | FinalityCheck "('c, 't) hellas_block"  \<comment> \<open>about to compare cursor and database with the block\<close>
  | FinalitySnapshot "('c, 't) hellas_block"  \<comment> \<open>about to copy the residents\<close>
  | FinalityExamine "('c, 't) hellas_block" "mempool_entry list" "bytes32 set" "bytes32 set" "bytes32 set"
      \<comment> \<open>candidates left, then the digests found executable, transient and rejected\<close>
  | FinalityClear "bytes32 set" "bytes32 set" "bytes32 set"
  | FinalityStrike "bytes32 set" "bytes32 set"
  | FinalityEvict "bytes32 set"
  | FinalityReject "bytes32 set"

text \<open>The residents examined at a height: a window that starts at the height modulo the number of residents.\<close>

definition reconcile_candidates :: "u64 \<Rightarrow> mempool_entry list \<Rightarrow> mempool_entry list" where
  "reconcile_candidates height candidates =
    (let examined = min (length candidates) RECONCILED_PER_BLOCK;
         start = (if candidates = [] then 0 else unat height mod length candidates)
     in map (\<lambda>offset. candidates ! ((start + offset) mod length candidates)) [0..<examined])"

text \<open>One disposable execution of one resident, on the database as it is then; an error ends the examination.\<close>

definition reconcile_candidate ::
  "blake3 \<Rightarrow> verifier \<Rightarrow> sha256 \<Rightarrow> (u16 \<Rightarrow> bytes) \<Rightarrow> (nat \<Rightarrow> nat) \<Rightarrow> 'd object_db \<Rightarrow> (('c, 't) hellas_block \<Rightarrow> bytes32) \<Rightarrow> app_config
    \<Rightarrow> 'd \<Rightarrow> ('c, 't) hellas_block \<Rightarrow> mempool_entry \<Rightarrow> mempool_entry list \<Rightarrow> bytes32 set \<Rightarrow> bytes32 set \<Rightarrow> bytes32 set
    \<Rightarrow> ('c, 't) finality_point" where
  "reconcile_candidate b3 vf sha w16 vsize db digest cfg d blk candidate candidates executable transient rejected =
    (case execute_proposal b3 vf sha w16 vsize db (kernel_context (app_network cfg) (hb_height blk + 1) (digest blk))
       [me_transaction candidate] (app_allocations cfg) MAX_TXS_PER_BLOCK MAX_BLOCK_TX_BYTES d of
       Err _ \<Rightarrow> FinalityClear executable transient rejected
     | Ok (_, included, retained) \<Rightarrow>
         if retained \<noteq> [] then FinalityExamine blk candidates executable (insert (me_digest candidate) transient) rejected
         else if included \<noteq> [] then FinalityExamine blk candidates (insert (me_digest candidate) executable) transient rejected
         else FinalityExamine blk candidates executable transient (insert (me_digest candidate) rejected))"

text \<open>One step of the handler once the block's cursor is published.\<close>

fun finality_step ::
  "blake3 \<Rightarrow> verifier \<Rightarrow> sha256 \<Rightarrow> (u16 \<Rightarrow> bytes) \<Rightarrow> (nat \<Rightarrow> bytes) \<Rightarrow> (nat \<Rightarrow> nat) \<Rightarrow> 'd object_db \<Rightarrow> ('d \<Rightarrow> bytes32)
    \<Rightarrow> (('c, 't) hellas_block \<Rightarrow> bytes32) \<Rightarrow> app_config \<Rightarrow> owner_cursor \<Rightarrow> 'd \<Rightarrow> ('c, 't) finality_point \<Rightarrow> mempool_state
    \<Rightarrow> (('c, 't) finality_point \<times> mempool_state) reply" where
  "finality_step b3 vf sha w16 vlen vsize db root digest cfg cursor d FinalityIdle mp = Answers (FinalityIdle, mp)"
| "finality_step b3 vf sha w16 vlen vsize db root digest cfg cursor d (FinalityRemove blk) mp =
    Answers (FinalityCheck blk, mempool_remove (set (map (tx_digest sha vlen) (hb_txs blk))) mp)"
| "finality_step b3 vf sha w16 vlen vsize db root digest cfg cursor d (FinalityCheck blk) mp =
    Answers (if cur_height cursor = hb_height blk \<and> root d = hb_state_root blk then FinalitySnapshot blk else FinalityIdle, mp)"
| "finality_step b3 vf sha w16 vlen vsize db root digest cfg cursor d (FinalitySnapshot blk) mp =
    Answers (FinalityExamine blk (reconcile_candidates (hb_height blk) (mempool_snapshot mp)) {} {} {}, mp)"
| "finality_step b3 vf sha w16 vlen vsize db root digest cfg cursor d (FinalityExamine blk [] executable transient rejected) mp =
    Answers (FinalityClear executable transient rejected, mp)"
| "finality_step b3 vf sha w16 vlen vsize db root digest cfg cursor d
      (FinalityExamine blk (candidate # candidates) executable transient rejected) mp =
    (if app_debug cfg \<and> hb_height blk = - 1 then Panics
     else Answers (reconcile_candidate b3 vf sha w16 vsize db digest cfg d blk candidate candidates executable transient rejected, mp))"
| "finality_step b3 vf sha w16 vlen vsize db root digest cfg cursor d (FinalityClear executable transient rejected) mp =
    Answers (FinalityStrike transient rejected, clear_strikes executable mp)"
| "finality_step b3 vf sha w16 vlen vsize db root digest cfg cursor d (FinalityStrike transient rejected) mp =
    Answers (FinalityEvict rejected, mempool_strike transient mp)"
| "finality_step b3 vf sha w16 vlen vsize db root digest cfg cursor d (FinalityEvict rejected) mp =
    Answers (FinalityReject rejected, evict_orphans mp)"
| "finality_step b3 vf sha w16 vlen vsize db root digest cfg cursor d (FinalityReject rejected) mp =
    Answers (FinalityIdle, mempool_remove rejected mp)"

record ('c, 't) app_state =
  as_index :: owner_index
  as_mempool :: "mempool_state option"
  as_finality :: "('c, 't) finality_point"

text \<open>The handler up to its first use of the pool, and then one step of it.\<close>

definition finalized ::
  "sha256 \<Rightarrow> 'd object_db \<Rightarrow> ('d \<Rightarrow> bytes32) \<Rightarrow> (('c, 't) hellas_block \<Rightarrow> bytes32) \<Rightarrow> ('c, 't) hellas_block \<Rightarrow> 'd
    \<Rightarrow> ('c, 't) app_state \<Rightarrow> ('c, 't) app_state reply" where
  "finalized sha db root digest blk d st =
    (if root d \<noteq> hb_state_root blk then Answers st
     else if owner_tree_root db sha d \<noteq> Ok (hb_owner_root blk) then Panics
     else
       let st = st\<lparr>as_index := ix_publish_cursor digest blk (as_index st)\<rparr> in
       Answers (case as_mempool st of None \<Rightarrow> st | Some _ \<Rightarrow> st\<lparr>as_finality := FinalityRemove blk\<rparr>))"

definition finalized_resume ::
  "blake3 \<Rightarrow> verifier \<Rightarrow> sha256 \<Rightarrow> (u16 \<Rightarrow> bytes) \<Rightarrow> (nat \<Rightarrow> bytes) \<Rightarrow> (nat \<Rightarrow> nat) \<Rightarrow> 'd object_db \<Rightarrow> ('d \<Rightarrow> bytes32)
    \<Rightarrow> (('c, 't) hellas_block \<Rightarrow> bytes32) \<Rightarrow> app_config \<Rightarrow> 'd \<Rightarrow> ('c, 't) app_state \<Rightarrow> ('c, 't) app_state reply" where
  "finalized_resume b3 vf sha w16 vlen vsize db root digest cfg d st =
    (case as_mempool st of
       None \<Rightarrow> Answers st
     | Some mp \<Rightarrow>
         (case finality_step b3 vf sha w16 vlen vsize db root digest cfg (ix_cursor (as_index st)) d (as_finality st) mp of
            Answers (point, mp') \<Rightarrow> Answers (st\<lparr>as_mempool := Some mp', as_finality := point\<rparr>)
          | Panics \<Rightarrow> Panics
          | Declines \<Rightarrow> Declines))"

end
