(* ===== verification/Chain_App_Invariant.thy ===== *)
theory Chain_App_Invariant
  imports Chain_App Chain_Blocks
begin

text \<open>What the pool always satisfies, and what a proposal takes from it.\<close>

section \<open>The pool invariant\<close>

definition entry_ok :: "(transaction \<Rightarrow> bytes32) \<Rightarrow> mempool_entry \<Rightarrow> bool" where
  "entry_ok dg entry \<longleftrightarrow> me_digest entry = dg (me_transaction entry)"

definition mempool_ok :: "(transaction \<Rightarrow> bytes32) \<Rightarrow> mempool_state \<Rightarrow> bool" where
  "mempool_ok dg mp \<longleftrightarrow>
    length (mp_general mp) \<le> GENERAL_MEMPOOL_CAPACITY \<and> distinct (map me_digest (mp_general mp))
    \<and> (\<forall>entry \<in> set (mp_general mp). entry_ok dg entry \<and> response_slot (me_transaction entry) = None)
    \<and> bt_wf (mp_responses mp) \<and> length (mp_responses mp) \<le> RESPONSE_MEMPOOL_CAPACITY
    \<and> (\<forall>(slot, entry) \<in> set (mp_responses mp). entry_ok dg entry \<and> response_slot (me_transaction entry) = Some slot)"

text \<open>Strikes, by where the handler of a finalized block stands: between striking and evicting, a resident may have
  reached the limit.\<close>

fun strikes_ok :: "('c, 't) finality_point \<Rightarrow> mempool_state \<Rightarrow> bool" where
  "strikes_ok (FinalityEvict _) mp \<longleftrightarrow> (\<forall>entry \<in> set (mp_general mp). me_strikes entry \<le> GENERAL_MEMPOOL_MAX_STRIKES)"
| "strikes_ok _ mp \<longleftrightarrow> (\<forall>entry \<in> set (mp_general mp). me_strikes entry < GENERAL_MEMPOOL_MAX_STRIKES)"

lemma strikes_ok_if:
  assumes "\<And>entry. entry \<in> set (mp_general mp') \<Longrightarrow> entry \<in> set (mp_general mp) \<or> me_strikes entry = 0" "strikes_ok point mp"
  shows "strikes_ok point mp'"
proof -
  have z: "(0 :: u32) < GENERAL_MEMPOOL_MAX_STRIKES" by (simp add: GENERAL_MEMPOOL_MAX_STRIKES_def)
  have lt: "me_strikes e < GENERAL_MEMPOOL_MAX_STRIKES"
    if "e \<in> set (mp_general mp')" "\<forall>e \<in> set (mp_general mp). me_strikes e < GENERAL_MEMPOOL_MAX_STRIKES" for e
    using assms(1) [OF that(1)] that(2) z by auto
  have le: "me_strikes e \<le> GENERAL_MEMPOOL_MAX_STRIKES"
    if "e \<in> set (mp_general mp')" "\<forall>e \<in> set (mp_general mp). me_strikes e \<le> GENERAL_MEMPOOL_MAX_STRIKES" for e
    using assms(1) [OF that(1)] that(2) by auto
  show ?thesis using assms(2) lt le by (cases point) simp_all
qed

lemma strikes_ok_le: "strikes_ok point mp \<Longrightarrow> entry \<in> set (mp_general mp) \<Longrightarrow> me_strikes entry \<le> GENERAL_MEMPOOL_MAX_STRIKES"
  by (cases point) (auto intro: less_imp_le)

lemma strikes_ok_less:
  "strikes_ok point mp \<Longrightarrow> \<forall>rejected. point \<noteq> FinalityEvict rejected \<Longrightarrow> entry \<in> set (mp_general mp)
    \<Longrightarrow> me_strikes entry < GENERAL_MEMPOOL_MAX_STRIKES"
  by (cases point) auto

lemma set_list_remove: "set (list_remove i xs) \<subseteq> set xs"
  unfolding list_remove_def by (auto dest: in_set_takeD in_set_dropD)

lemma map_list_remove: "map f (list_remove i xs) = list_remove i (map f xs)"
  by (simp add: list_remove_def take_map drop_map)

lemma length_list_remove: "i < length xs \<Longrightarrow> Suc (length (list_remove i xs)) = length xs"
  by (simp add: list_remove_def)

lemma distinct_list_remove: "distinct xs \<Longrightarrow> distinct (list_remove i xs)"
  using set_take_disj_set_drop_if_distinct [of xs i "Suc i"] by (simp add: list_remove_def)

lemma list_position_Some:
  "list_position P xs = Some i \<Longrightarrow> i < length xs \<and> P (xs ! i) \<and> (\<forall>j < i. \<not> P (xs ! j))"
proof (induction xs arbitrary: i)
  case (Cons x xs)
  then show ?case by (cases i) (auto split: if_splits simp: less_Suc_eq_0_disj)
qed simp

lemma list_position_None: "list_position P xs = None \<longleftrightarrow> (\<forall>x \<in> set xs. \<not> P x)"
  by (induction xs) auto

lemma kept_list_remove: "x \<in> set xs \<Longrightarrow> x \<noteq> xs ! i \<Longrightarrow> x \<in> set (list_remove i xs)"
proof -
  assume x: "x \<in> set xs" "x \<noteq> xs ! i"
  then obtain j where j: "j < length xs" "x = xs ! j" "j \<noteq> i" by (auto simp: in_set_conv_nth)
  then consider "j < i" | "i < j" by (meson linorder_neqE_nat)
  then show ?thesis
  proof cases
    case 1
    with j show ?thesis by (auto simp: list_remove_def in_set_conv_nth intro!: exI [of _ j])
  next
    case 2
    with j have "drop (Suc i) xs ! (j - Suc i) = x" "j - Suc i < length (drop (Suc i) xs)" by auto
    then show ?thesis unfolding list_remove_def by (metis UnI2 nth_mem set_append)
  qed
qed

text \<open>Admission to the general lane, on every branch.\<close>

lemma admit_general_cases:
  assumes "mempool_ok dg mp" "admit_general mp entry = (outcome, mp')"
  obtains (dup) "outcome = SubmitDuplicate" "mp' = mp" "me_digest entry \<in> me_digest ` set (mp_general mp)"
  | (full) "outcome = SubmitFull" "mp' = mp" "length (mp_general mp) = GENERAL_MEMPOOL_CAPACITY"
      "\<forall>e \<in> set (mp_general mp). me_strikes e = 0" "me_digest entry \<notin> me_digest ` set (mp_general mp)"
  | (room) "outcome = Enqueued" "mp' = mp\<lparr>mp_general := mp_general mp @ [entry]\<rparr>" "length (mp_general mp) < GENERAL_MEMPOOL_CAPACITY"
      "me_digest entry \<notin> me_digest ` set (mp_general mp)"
  | (displaced) i where "outcome = Enqueued" "mp' = mp\<lparr>mp_general := list_remove i (mp_general mp) @ [entry]\<rparr>"
      "length (mp_general mp) = GENERAL_MEMPOOL_CAPACITY" "i < length (mp_general mp)" "0 < me_strikes (mp_general mp ! i)"
      "\<forall>j < i. me_strikes (mp_general mp ! j) = 0" "me_digest entry \<notin> me_digest ` set (mp_general mp)"
proof -
  have cap: "length (mp_general mp) \<le> GENERAL_MEMPOOL_CAPACITY" using assms(1) by (simp add: mempool_ok_def)
  have ex: "list_ex (\<lambda>r. me_digest r = me_digest entry) (mp_general mp) \<longleftrightarrow> me_digest entry \<in> me_digest ` set (mp_general mp)"
    unfolding list_ex_iff image_iff by metis
  show thesis
  proof (cases "list_position (\<lambda>resident. 0 < me_strikes resident) (mp_general mp)")
    case None
    then have "\<forall>e \<in> set (mp_general mp). me_strikes e = 0" by (simp add: list_position_None word_greater_zero_iff)
    with None show thesis using assms(2) cap ex dup full room by (auto simp: admit_general_def Let_def split: if_splits)
  next
    case (Some i)
    from list_position_Some [OF this] assms(2) cap ex dup room displaced [of i] Some show thesis
      by (auto simp: admit_general_def Let_def word_greater_zero_iff split: if_splits)
  qed
qed

lemma admit_general_ok:
  assumes ok: "mempool_ok dg mp" and e: "entry_ok dg entry" "response_slot (me_transaction entry) = None"
    and run: "admit_general mp entry = (outcome, mp')"
  shows "mempool_ok dg mp'"
  using ok run
proof (cases rule: admit_general_cases)
  case room
  with ok e show ?thesis by (auto simp: mempool_ok_def)
next
  case (displaced i)
  have "distinct (map me_digest (list_remove i (mp_general mp)))"
    using ok by (simp add: map_list_remove distinct_list_remove mempool_ok_def)
  moreover have "length (list_remove i (mp_general mp)) < GENERAL_MEMPOOL_CAPACITY"
    using length_list_remove [OF displaced(4)] displaced(3) by simp
  ultimately show ?thesis
    using ok e displaced(2,7) set_list_remove [of i "mp_general mp"]
    by (auto simp: mempool_ok_def)
qed (use ok in simp_all)

lemma retained_responses_ok:
  assumes "mempool_ok dg mp"
  shows "mempool_ok dg (mp\<lparr>mp_responses := bt_retain P (mp_responses mp)\<rparr>)"
proof -
  have "set (bt_retain P (mp_responses mp)) \<subseteq> set (mp_responses mp)" by (auto simp: bt_retain_def)
  with assms bt_length_retain [of P "mp_responses mp"] show ?thesis by (fastforce simp: mempool_ok_def)
qed

lemma entry_new_ok [simp]: "entry_ok (tx_digest sha vlen) (entry_new sha vlen tx)" "me_strikes (entry_new sha vlen tx) = 0"
  "me_transaction (entry_new sha vlen tx) = tx"
  by (simp_all add: entry_ok_def entry_new_def)

lemma bt_insert_set: "set (bt_insert k v m) \<subseteq> insert (k, v) (set m)"
  by (induction k v m rule: bt_insert.induct) auto

lemma admit_response_ok:
  assumes ok: "mempool_ok dg mp" and e: "entry_ok dg incoming" "response_slot (me_transaction incoming) = Some slot"
    and run: "admit_response b3 vf db d cx slot incoming adm mp = (outcome, mp')"
  shows "mempool_ok dg mp'"
proof -
  define P where "P adm = (\<lambda>_ :: response_slot_id. response_stands b3 vf cx adm)" for adm
  from run obtain adm where "mp' = mp \<or> mp' = mp\<lparr>mp_responses := bt_retain (P adm) (mp_responses mp)\<rparr>
      \<or> mp' = mp\<lparr>mp_responses := bt_insert slot incoming (bt_retain (P adm) (mp_responses mp))\<rparr>
        \<and> bt_get (bt_retain (P adm) (mp_responses mp)) slot = None \<and> length (bt_retain (P adm) (mp_responses mp)) < RESPONSE_MEMPOOL_CAPACITY"
    by (auto simp: admit_response_def Let_def not_le simp flip: P_def split: result.splits if_splits)
  moreover have "mempool_ok dg (mp\<lparr>mp_responses := bt_insert slot incoming (bt_retain P (mp_responses mp))\<rparr>)"
    if "bt_get (bt_retain P (mp_responses mp)) slot = None" "length (bt_retain P (mp_responses mp)) < RESPONSE_MEMPOOL_CAPACITY" for P
  proof -
    define m where "m = bt_retain P (mp_responses mp)"
    have m: "mempool_ok dg (mp\<lparr>mp_responses := m\<rparr>)" using retained_responses_ok [OF ok] by (simp add: m_def)
    then have "bt_wf m" by (simp add: mempool_ok_def)
    then have "length (bt_insert slot incoming m) \<le> RESPONSE_MEMPOOL_CAPACITY"
      using bt.insert_fresh_length [of m slot incoming] that by (simp add: m_def)
    with m e bt_insert_set [of slot incoming m] show ?thesis unfolding m_def [symmetric] by (fastforce simp: mempool_ok_def)
  qed
  ultimately show ?thesis using ok retained_responses_ok [OF ok] by metis
qed

lemma submit_response_ok:
  assumes "mempool_ok (tx_digest sha vlen) mp"
    and "submit_response b3 vf sha vlen db root get_finalization network d cursor response mp = (outcome, mp')"
  shows "mempool_ok (tx_digest sha vlen) mp'"
proof (cases "mp' = mp")
  case False
  with assms(2) obtain cx adm where "admit_response b3 vf db d cx (pr_payment_edge response, pr_start_id response)
      (entry_new sha vlen (Kernel (TxMove (RespondPaymentClose response)))) adm mp = (outcome, mp')"
    by (auto simp: submit_response_def Let_def split: option.splits result.splits bool.splits if_splits)
  from admit_response_ok [OF assms(1) _ _ this] show ?thesis by simp
qed (use assms in simp)

lemma response_slot_None: "response_slot tx = None \<longleftrightarrow> payment_close_response_of tx = None"
  by (cases tx rule: response_slot.cases) simp_all

lemma submit_tx_ok:
  assumes "mempool_ok (tx_digest sha vlen) mp"
    and "submit_tx b3 vf sha vlen db root get_finalization network d cursor tx mp = (answer, mp')"
  shows "mempool_ok (tx_digest sha vlen) mp'"
proof (cases "payment_close_response_of tx")
  case None
  with assms(2) have "mp' = mp \<or> (\<exists>outcome. admit_general mp (entry_new sha vlen tx) = (outcome, mp'))"
    by (auto simp: submit_tx_def submit_general_def apfst_def map_prod_def split: if_splits prod.splits)
  moreover have "response_slot (me_transaction (entry_new sha vlen tx)) = None" using None by (simp add: response_slot_None)
  ultimately show ?thesis using admit_general_ok [OF assms(1) entry_new_ok(1)] assms(1) by blast
next
  case (Some response)
  with assms submit_response_ok [OF assms(1)] show ?thesis by (auto simp: submit_tx_def split: if_splits)
qed

lemma mempool_remove_ok: "mempool_ok dg mp \<Longrightarrow> mempool_ok dg (mempool_remove digests mp)"
proof -
  assume ok: "mempool_ok dg mp"
  let ?P = "\<lambda>_ entry. me_digest entry \<notin> digests"
  let ?g = "filter (\<lambda>entry. me_digest entry \<notin> digests) (mp_general mp)"
  have "mempool_ok dg (mp\<lparr>mp_general := ?g\<rparr>)"
    using ok le_trans [OF length_filter_le, of "mp_general mp"] by (auto simp: mempool_ok_def distinct_map_filter)
  from retained_responses_ok [OF this, of ?P] show ?thesis by (simp add: mempool_remove_def)
qed

lemma submit_tx_strikes:
  assumes "mempool_ok (tx_digest sha vlen) mp" "strikes_ok point mp"
    and run: "submit_tx b3 vf sha vlen db root get_finalization network d cursor tx mp = (answer, mp')"
  shows "strikes_ok point mp'"
proof -
  consider "mp_general mp' = mp_general mp" | outcome where "admit_general mp (entry_new sha vlen tx) = (outcome, mp')"
  proof (cases "payment_close_response_of tx")
    case None
    then show thesis using run that
      by (auto simp: submit_tx_def submit_general_def apfst_def map_prod_def split: if_splits prod.splits)
  next
    case (Some response)
    have "mp_general (snd (admit_response b3 vf db d cx slot incoming adm mp)) = mp_general mp" for cx slot incoming adm
      by (simp add: admit_response_def Let_def split: result.split)
    then have "mp_general mp' = mp_general mp" using run Some
      by (auto simp: submit_tx_def submit_response_def Let_def split: option.splits result.splits bool.splits if_splits dest!: arg_cong [of _ _ snd])
    then show thesis by (rule that(1))
  qed
  then show ?thesis
  proof cases
    case 1
    then show ?thesis using assms(2) by (intro strikes_ok_if [of mp']) simp_all
  next
    case 2
    from assms(1) 2 show ?thesis
    proof (cases rule: admit_general_cases)
      case (displaced i)
      then show ?thesis using set_list_remove [of i "mp_general mp"] by (intro strikes_ok_if [OF _ assms(2)]) auto
    qed (use assms(2) in \<open>auto intro!: strikes_ok_if [of _ mp]\<close>)
  qed
qed

text \<open>One step of the handler of a finalized block, whatever the pool has become since the step before.\<close>

lemma mempool_map_ok:
  assumes "\<And>entry. me_digest (f entry) = me_digest entry \<and> me_transaction (f entry) = me_transaction entry" "mempool_ok dg mp"
  shows "mempool_ok dg (mp\<lparr>mp_general := map f (mp_general mp)\<rparr>)"
  using assms by (auto simp: mempool_ok_def entry_ok_def comp_def)

lemma finality_step_ok:
  assumes "mempool_ok dg mp"
    and "finality_step b3 vf sha w16 vlen vsize db root digest cfg cursor d point mp = Answers (point', mp')"
  shows "mempool_ok dg mp'"
proof -
  have "mempool_ok dg (evict_orphans mp)"
    using assms(1) le_trans [OF length_filter_le, of "mp_general mp"] by (auto simp: mempool_ok_def evict_orphans_def distinct_map_filter)
  moreover have "mempool_ok dg (mempool_strike digests mp)" "mempool_ok dg (clear_strikes digests mp)" for digests
    unfolding mempool_strike_def clear_strikes_def by (rule mempool_map_ok; simp add: assms(1))+
  ultimately show ?thesis using assms mempool_remove_ok [OF assms(1)]
    by (cases "(b3, vf, sha, w16, vlen, vsize, db, root, digest, cfg, cursor, d, point, mp)" rule: finality_step.cases)
      (auto split: if_splits)
qed

lemma strike_limit:
  "0 < GENERAL_MEMPOOL_MAX_STRIKES" "n < GENERAL_MEMPOOL_MAX_STRIKES \<Longrightarrow> n \<le> GENERAL_MEMPOOL_MAX_STRIKES"
  "n < GENERAL_MEMPOOL_MAX_STRIKES \<Longrightarrow> saturating_inc n \<le> GENERAL_MEMPOOL_MAX_STRIKES"
  unfolding saturating_inc_def by (auto simp: GENERAL_MEMPOOL_MAX_STRIKES_def intro: inc_le)

lemma reconcile_candidate_point:
  "\<forall>gone. reconcile_candidate b3 vf sha w16 vsize db digest cfg d blk candidate candidates executable transient rejected \<noteq> FinalityEvict gone"
  by (simp add: reconcile_candidate_def split: result.split prod.split)

lemma strikes_ok_general:
  "\<forall>rejected. point \<noteq> FinalityEvict rejected \<Longrightarrow> strikes_ok point mp
    \<longleftrightarrow> (\<forall>entry \<in> set (mp_general mp). me_strikes entry < GENERAL_MEMPOOL_MAX_STRIKES)"
  by (cases point) auto

lemma finality_step_strikes:
  assumes "strikes_ok point mp"
    and "finality_step b3 vf sha w16 vlen vsize db root digest cfg cursor d point mp = Answers (point', mp')"
  shows "strikes_ok point' mp'"
  using assms strike_limit
  by (cases "(b3, vf, sha, w16, vlen, vsize, db, root, digest, cfg, cursor, d, point, mp)" rule: finality_step.cases)
    (auto simp: mempool_remove_def clear_strikes_def mempool_strike_def evict_orphans_def
      strikes_ok_general [OF reconcile_candidate_point] split: if_splits)

text \<open>Every state of the pool and of the handler: from empty, by submissions and by the steps of one finalized block
  after another, submissions falling between any two of them. Consensus awaits each block's handler, so a handler starts
  only once the one before it has ended. Whatever else works on the owner index may do so between any two steps.\<close>

inductive mempool_reachable ::
  "blake3 \<Rightarrow> verifier \<Rightarrow> sha256 \<Rightarrow> (u16 \<Rightarrow> bytes) \<Rightarrow> (nat \<Rightarrow> bytes) \<Rightarrow> (nat \<Rightarrow> nat) \<Rightarrow> 'd object_db \<Rightarrow> ('d \<Rightarrow> bytes32)
    \<Rightarrow> (('c, 't) hellas_block \<Rightarrow> bytes32) \<Rightarrow> app_config \<Rightarrow> ('c, 't) app_state \<Rightarrow> bool"
  for b3 vf sha w16 vlen vsize db root and digest :: "('c, 't) hellas_block \<Rightarrow> bytes32" and cfg where
  pool_start: "mempool_reachable b3 vf sha w16 vlen vsize db root digest cfg
    \<lparr>as_index = ix, as_mempool = Some mempool_default, as_finality = FinalityIdle\<rparr>"
| pool_index: "mempool_reachable b3 vf sha w16 vlen vsize db root digest cfg st
    \<Longrightarrow> mempool_reachable b3 vf sha w16 vlen vsize db root digest cfg (st\<lparr>as_index := ix\<rparr>)"
| pool_submit:
    "mempool_reachable b3 vf sha w16 vlen vsize db root digest cfg st \<Longrightarrow> as_mempool st = Some mp
      \<Longrightarrow> submit_tx b3 vf sha vlen db root get_finalization network d cursor tx mp = (answer, mp')
      \<Longrightarrow> mempool_reachable b3 vf sha w16 vlen vsize db root digest cfg (st\<lparr>as_mempool := Some mp'\<rparr>)"
| pool_finalized:
    "mempool_reachable b3 vf sha w16 vlen vsize db root digest cfg st \<Longrightarrow> as_finality st = FinalityIdle
      \<Longrightarrow> finalized sha db root digest blk d st = Answers st'
      \<Longrightarrow> mempool_reachable b3 vf sha w16 vlen vsize db root digest cfg st'"
| pool_resume:
    "mempool_reachable b3 vf sha w16 vlen vsize db root digest cfg st
      \<Longrightarrow> finalized_resume b3 vf sha w16 vlen vsize db root digest cfg d st = Answers st'
      \<Longrightarrow> mempool_reachable b3 vf sha w16 vlen vsize db root digest cfg st'"

lemma reachable_ok:
  assumes "mempool_reachable b3 vf sha w16 vlen vsize db root digest cfg st"
  shows "\<exists>mp. as_mempool st = Some mp \<and> mempool_ok (tx_digest sha vlen) mp \<and> strikes_ok (as_finality st) mp"
  using assms
proof (induction rule: mempool_reachable.induct)
  case (pool_start ix)
  show ?case by (simp add: mempool_ok_def mempool_default_def bt_empty_def bt_wf_def)
next
  case (pool_submit st mp get_finalization network d cursor tx answer mp')
  then have ok: "mempool_ok (tx_digest sha vlen) mp" "strikes_ok (as_finality st) mp" by auto
  from submit_tx_ok [OF ok(1) pool_submit.hyps(3)] submit_tx_strikes [OF ok pool_submit.hyps(3)] show ?case by simp
next
  case (pool_finalized st blk d st')
  then show ?case by (auto simp: finalized_def Let_def split: if_splits option.splits)
next
  case (pool_resume st d st')
  from pool_resume.IH obtain mp where mp: "as_mempool st = Some mp" "mempool_ok (tx_digest sha vlen) mp" "strikes_ok (as_finality st) mp"
    by blast
  with pool_resume.hyps(2) obtain point mp' where
    step: "finality_step b3 vf sha w16 vlen vsize db root digest cfg (ix_cursor (as_index st)) d (as_finality st) mp = Answers (point, mp')"
    and st': "st' = st\<lparr>as_mempool := Some mp', as_finality := point\<rparr>"
    by (auto simp: finalized_resume_def split: reply.splits)
  from finality_step_ok [OF mp(2) step] finality_step_strikes [OF mp(3) step] st' show ?case by simp
qed simp

text \<open>The handler of one finalized block ends, within the steps its window allows.\<close>

fun finality_left :: "('c, 't) finality_point \<Rightarrow> nat" where
  "finality_left FinalityIdle = 0"
| "finality_left (FinalityReject _) = 1"
| "finality_left (FinalityEvict _) = 2"
| "finality_left (FinalityStrike _ _) = 3"
| "finality_left (FinalityClear _ _ _) = 4"
| "finality_left (FinalityExamine _ candidates _ _ _) = 5 + length candidates"
| "finality_left (FinalitySnapshot _) = 6 + RECONCILED_PER_BLOCK"
| "finality_left (FinalityCheck _) = 7 + RECONCILED_PER_BLOCK"
| "finality_left (FinalityRemove _) = 8 + RECONCILED_PER_BLOCK"

lemma finality_step_ends:
  assumes "finality_step b3 vf sha w16 vlen vsize db root digest cfg cursor d point mp = Answers (point', mp')" "point \<noteq> FinalityIdle"
  shows "finality_left point' < finality_left point"
  using assms
  by (cases "(b3, vf, sha, w16, vlen, vsize, db, root, digest, cfg, cursor, d, point, mp)" rule: finality_step.cases)
    (auto simp: reconcile_candidates_def reconcile_candidate_def RECONCILED_PER_BLOCK_def Let_def split: if_splits result.splits prod.splits)

section \<open>Proposals\<close>

text \<open>No pending transaction is in an ancestor above the finalized height.\<close>

lemma ancestor_transactions_mono: "seen \<subseteq> ancestor_transactions dg h resident ancestry seen"
proof (induction ancestry arbitrary: seen)
  case (Cons a ancestry)
  from Cons.IH [of "seen \<union> {x \<in> dg ` set (hb_txs a). x \<in> resident}"] show ?case by (auto simp: Let_def)
qed simp

lemma ancestor_transactions_covers:
  assumes "finite resident" "seen \<subseteq> resident" "blk \<in> set (takeWhile (\<lambda>a. h < hb_height a) ancestry)" "tx \<in> set (hb_txs blk)"
    "dg tx \<in> resident"
  shows "dg tx \<in> ancestor_transactions dg h resident ancestry seen"
  using assms
proof (induction ancestry arbitrary: seen)
  case (Cons a ancestry)
  let ?seen = "seen \<union> {x \<in> dg ` set (hb_txs a). x \<in> resident}"
  have sub: "?seen \<subseteq> resident" using Cons.prems(2) by auto
  have above: "\<not> hb_height a \<le> h" using Cons.prems(3) by (auto simp: not_le split: if_splits)
  show ?case
  proof (cases "card ?seen = card resident")
    case True
    then have "?seen = resident" using card_subset_eq [OF Cons.prems(1) sub] by simp
    with Cons.prems(5) True above show ?thesis by (simp add: Let_def)
  next
    case False
    show ?thesis
    proof (cases "blk = a")
      case True
      then have "dg tx \<in> ?seen" using Cons.prems(4,5) by auto
      with False above ancestor_transactions_mono [of ?seen dg h resident ancestry] show ?thesis by (auto simp: Let_def)
    next
      case False
      then have "blk \<in> set (takeWhile (\<lambda>a. h < hb_height a) ancestry)" using Cons.prems(3) above by auto
      from Cons.IH [OF Cons.prems(1) sub this Cons.prems(4,5)] \<open>card ?seen \<noteq> card resident\<close> above show ?thesis by (simp add: Let_def)
    qed
  qed
qed simp

lemma pending_fresh:
  assumes "mempool_ok dg mp" "entry \<in> set (proposal_pending dg h ancestry mp)" "blk \<in> set (takeWhile (\<lambda>a. h < hb_height a) ancestry)"
  shows "dg (me_transaction entry) \<notin> dg ` set (hb_txs blk)"
proof
  let ?res = "set (map me_digest (mempool_snapshot mp))"
  assume "dg (me_transaction entry) \<in> dg ` set (hb_txs blk)"
  then obtain tx where tx: "tx \<in> set (hb_txs blk)" "dg tx = dg (me_transaction entry)" by force
  have e: "entry \<in> set (mempool_snapshot mp)" "me_digest entry \<notin> ancestor_transactions dg h ?res ancestry {}"
    using assms(2) by (auto simp: proposal_pending_def Let_def split: if_splits)
  then have dig: "me_digest entry = dg tx"
    using assms(1) tx(2) by (auto simp: mempool_ok_def mempool_snapshot_def entry_ok_def)
  have "dg tx \<in> ?res" using e(1) by (simp flip: dig)
  from ancestor_transactions_covers [of ?res "{}" blk h ancestry tx dg, OF _ _ assms(3) tx(1) this] e(2) dig show False by simp
qed

lemma general_candidates_subset: "set (general_candidates sz c b n m entries) \<subseteq> me_transaction ` set entries"
  by (induction entries arbitrary: n m) (auto simp: Let_def)

lemma proposal_candidates_subset: "set (proposal_candidates sz pending) \<subseteq> me_transaction ` set pending"
  using general_candidates_subset unfolding proposal_candidates_def Let_def
  by (fastforce dest: in_set_takeD in_set_dropD)

end
