(* ===== verification/Chain_App_Properties.thy ===== *)
theory Chain_App_Properties
  imports Chain_App_Invariant Chain_Index_Properties
begin

text \<open>What the application promises to consensus and to those who submit transactions: a block it proposes is a block
  every honest validator accepts, the pool stays within its bounds, and an admitted answer to a contest executes.\<close>

section \<open>Proposing\<close>

lemma proposal_sound_execute:
  assumes "execute_proposal b3 vf sha w16 vsize db cx candidates allocations max_txs max_bytes d = Ok (d', txs, retained)"
    and "max_bytes < 2 ^ 64 - 1"
  shows "execute_all b3 vf sha w16 db cx txs allocations d = (Ok (), d')" "length txs \<le> max_txs" "proposal_bytes vsize txs \<le> max_bytes"
    "subseq txs candidates"
proof -
  from assms(1) obtain d1 where d1: "maybe_seed_genesis sha w16 db cx allocations d = (Ok (), d1)"
    "proposal_loop b3 vf sha vsize db cx max_txs max_bytes candidates d1 [] [] 0 = Ok (d', txs, retained)"
    by (auto simp: execute_proposal_def split: prod.splits result.splits)
  from proposal_loop_Ok [OF d1(2) assms(2)] d1(1)
  show "execute_all b3 vf sha w16 db cx txs allocations d = (Ok (), d')" "length txs \<le> max_txs" "proposal_bytes vsize txs \<le> max_bytes"
    "subseq txs candidates"
    by (auto simp: proposal_sound_def execute_all_def and_store_def)
qed

lemma propose_Answers:
  assumes "propose b3 vf sha w16 vlen vsize db mk digest cfg cursor now cx (parent # rest) d inp = Answers (blk, merkleized)"
  obtains mp d' retained root where "inp = Some mp"
    "execute_proposal b3 vf sha w16 vsize db (kernel_context (app_network cfg) (hb_height parent + 1) (digest parent))
      (proposal_candidates (transaction_encode_size vsize)
        (proposal_pending (tx_digest sha vlen) (cur_height cursor) (parent # rest) mp))
      (app_allocations cfg) MAX_TXS_PER_BLOCK MAX_BLOCK_TX_BYTES d = Ok (d', hb_txs blk, retained)"
    "owner_tree_root db sha d' = Ok root" "mk_merkleize mk d' = Ok merkleized"
    "blk = with_owner_root (hb_new cx (digest parent) (hb_height parent + 1) (max now (hb_timestamp parent)) (mk_root mk merkleized)
      (mk_sync_target mk merkleized) (hb_txs blk)) root"
  using assms that
  by (auto simp: propose_def Let_def hb_new_def with_owner_root_def split: option.splits result.splits prod.splits if_splits)

text \<open>C6. A proposal is a block every validator accepts. Suppose a validator's \<^verbatim>\<open>propose\<close> answers with a block on some
  ancestry and batch. Then another validator of the same network, given the block, the same parent and the same batch, and a
  clock that is at most the synchrony bound behind the proposer's clock and the parent's timestamp, verifies it and
  arrives at the same merkleized state; applying the block when it is certified succeeds, without an index and with one
  that prepares the block, so the assertions that a certified block executes and reproduces its roots hold. The block respects the limits on transactions
  and bytes, and no transaction of it stands in an ancestor above the finalized height.\<close>

theorem proposed_block_verifies:
  assumes propose: "propose b3 vf sha w16 vlen vsize db mk digest cfg cursor now cx (parent # rest) d (Some mp) = Answers (blk, merkleized)"
    and "db_laws db" "mempool_ok (tx_digest sha vlen) mp"
    and peer: "app_network cfg' = app_network cfg" "app_allocations cfg' = app_allocations cfg"
      "app_debug cfg' \<longrightarrow> hb_height parent \<noteq> - 1"
    and clock: "now \<le> saturating_add now' SYNCHRONY_BOUND" "hb_timestamp parent \<le> saturating_add now' SYNCHRONY_BOUND"
  shows "verify_block b3 vf sha w16 db mk digest cfg' now' cx (blk # parent # rest') d = Answers merkleized
    \<and> apply_block b3 vf sha w16 db mk None cfg' blk d = Answers merkleized
    \<and> (\<forall>prepare. (\<forall>changes. prepare blk changes) \<longrightarrow>
        apply_block b3 vf sha w16 db mk (Some prepare) cfg' blk d = Answers merkleized)
    \<and> length (hb_txs blk) \<le> MAX_TXS_PER_BLOCK \<and> proposal_bytes vsize (hb_txs blk) \<le> MAX_BLOCK_TX_BYTES
    \<and> (\<forall>ancestor \<in> set (takeWhile (\<lambda>a. cur_height cursor < hb_height a) (parent # rest)).
        tx_digest sha vlen ` set (hb_txs blk) \<inter> tx_digest sha vlen ` set (hb_txs ancestor) = {})"
proof -
  let ?pending = "proposal_pending (tx_digest sha vlen) (cur_height cursor) (parent # rest) mp"
  let ?kx = "kernel_context (app_network cfg) (hb_height parent + 1) (digest parent)"
  from propose obtain d' retained root where
    p: "execute_proposal b3 vf sha w16 vsize db ?kx (proposal_candidates (transaction_encode_size vsize) ?pending) (app_allocations cfg)
        MAX_TXS_PER_BLOCK MAX_BLOCK_TX_BYTES d = Ok (d', hb_txs blk, retained)"
    and roots: "owner_tree_root db sha d' = Ok root" "mk_merkleize mk d' = Ok merkleized"
    and blk: "blk = with_owner_root (hb_new cx (digest parent) (hb_height parent + 1) (max now (hb_timestamp parent)) (mk_root mk merkleized)
      (mk_sync_target mk merkleized) (hb_txs blk)) root"
    by (rule propose_Answers) simp
  have fields: "hb_context blk = cx" "hb_parent blk = digest parent" "hb_height blk = hb_height parent + 1"
    "hb_timestamp blk = max now (hb_timestamp parent)" "hb_owner_root blk = root" "hb_state_root blk = mk_root mk merkleized"
    "hb_sync_target blk = mk_sync_target mk merkleized"
    by (subst blk, simp add: with_owner_root_def hb_new_def)+
  note e = proposal_sound_execute [OF p]
  have run: "execute_all b3 vf sha w16 db ?kx (hb_txs blk) (app_allocations cfg) d = (Ok (), d')"
    and limits: "length (hb_txs blk) \<le> MAX_TXS_PER_BLOCK" "proposal_bytes vsize (hb_txs blk) \<le> MAX_BLOCK_TX_BYTES"
    and sub: "subseq (hb_txs blk) (proposal_candidates (transaction_encode_size vsize) ?pending)"
    using e by (simp_all add: MAX_BLOCK_TX_BYTES_def)
  have check: "finalized_check sha db mk blk d' = Ok merkleized" using roots fields by (simp add: finalized_check_Ok)
  have "finalized_execute b3 vf sha w16 db mk blk (app_network cfg') (app_allocations cfg') d = Ok merkleized"
    using run check fields peer by (simp add: finalized_execute_Ok)
  moreover have "hb_validate blk cx (hb_height parent + 1) (digest parent) now' (hb_timestamp parent) = Ok ()"
    using clock fields by (simp add: hb_validate_Ok)
  moreover obtain cs where "execute_all_observed b3 vf sha w16 db ?kx (hb_txs blk) (app_allocations cfg) d = Ok (d', cs)"
    using execute_all_observed_result [OF assms(2), of b3 vf sha w16 ?kx "hb_txs blk" "app_allocations cfg" d] run by auto
  moreover have "tx_digest sha vlen ` set (hb_txs blk) \<inter> tx_digest sha vlen ` set (hb_txs ancestor) = {}"
    if "ancestor \<in> set (takeWhile (\<lambda>a. cur_height cursor < hb_height a) (parent # rest))" for ancestor
  proof -
    have "\<exists>entry \<in> set ?pending. tx = me_transaction entry" if "tx \<in> set (hb_txs blk)" for tx
      using list_emb_set [OF sub that] proposal_candidates_subset [of "transaction_encode_size vsize" ?pending] by blast
    with pending_fresh [OF assms(3) _ that] show ?thesis by (fastforce simp: image_iff)
  qed
  ultimately show ?thesis using check fields peer limits
    by (simp add: verify_block_def apply_block_def)
qed

definition gen_config :: app_config where
  "gen_config = \<lparr>app_network = ascii ''net'', app_allocations = gen_allocations, app_debug = True\<rparr>"

definition gen_cursor :: owner_cursor where "gen_cursor = \<lparr>cur_height = 0, cur_payload = 0, cur_state_root = 0\<rparr>"

lemma gen_proposal:
  "\<exists>blk. propose ex_b3 ex_vf ex_sha gen_w16 (\<lambda>_. []) (\<lambda>_. 0) mem_db gen_merkle (\<lambda>_. 0) gen_config gen_cursor 3 () [gen_genesis] gen_start
    (Some mempool_default) = Answers (blk, ())"
proof -
  obtain d where d: "execute_all ex_b3 ex_vf ex_sha gen_w16 mem_db (gen_ctx 0) [] gen_allocations gen_start = (Ok (), d)"
    "index_ok mem_db ex_sha {gen_owner} {0} d" using gen_run [of 0] by blast
  have "execute_proposal ex_b3 ex_vf ex_sha gen_w16 (\<lambda>_. 0) mem_db (gen_ctx 0) [] gen_allocations MAX_TXS_PER_BLOCK MAX_BLOCK_TX_BYTES gen_start
      = Ok (d, [], [])"
    using d(1) by (auto simp: execute_all_def execute_proposal_def and_store_def split: prod.splits result.splits)
  moreover have "proposal_candidates sz (proposal_pending dg h ancestry mempool_default) = []" for sz dg h and ancestry :: "(unit, unit) hellas_block list"
    by (simp add: proposal_pending_def mempool_snapshot_def mempool_default_def bt_empty_def proposal_candidates_def response_count_of_def)
  moreover have "responses_sized (proposal_pending dg h ancestry mempool_default)" for dg h and ancestry :: "(unit, unit) hellas_block list"
    by (simp add: proposal_pending_def mempool_snapshot_def mempool_default_def bt_empty_def responses_sized_def response_count_of_def)
  ultimately show ?thesis
    using index_root [OF d(2) gen_universe, of gen_owner]
    by (simp add: propose_def gen_config_def gen_genesis_def hb_new_def gen_merkle_def)
qed

theorem proposed_block_verifies_witness:
  "\<exists>blk. propose ex_b3 ex_vf ex_sha gen_w16 (\<lambda>_. []) (\<lambda>_. 0) mem_db gen_merkle (\<lambda>_. 0) gen_config gen_cursor 3 () [gen_genesis] gen_start
      (Some mempool_default) = Answers (blk, ())
    \<and> verify_block ex_b3 ex_vf ex_sha gen_w16 mem_db gen_merkle (\<lambda>_. 0) gen_config 1 () [blk, gen_genesis] gen_start = Answers ()"
proof -
  obtain blk where p: "propose ex_b3 ex_vf ex_sha gen_w16 (\<lambda>_. []) (\<lambda>_. 0) mem_db gen_merkle (\<lambda>_. 0) gen_config gen_cursor 3 ()
      [gen_genesis] gen_start (Some mempool_default) = Answers (blk, ())" using gen_proposal by blast
  have ok: "mempool_ok (tx_digest ex_sha (\<lambda>_. [])) mempool_default"
    by (simp add: mempool_ok_def mempool_default_def bt_empty_def bt_wf_def)
  from proposed_block_verifies [OF p mem_db_laws ok, of gen_config 1 "[]"] p show ?thesis
    by (auto simp: gen_genesis_def hb_new_def saturating_add_def checked_add_def SYNCHRONY_BOUND_def word_le_nat_alt)
qed

section \<open>The pool\<close>

text \<open>C17. The pool stays within its bounds and admits fairly, submissions falling between any two critical sections of
  the handlers of finalized blocks. In every state reached so: both lanes are within their capacities, no two general
  residents have the same digest, every resident carries the digest of its own transaction, each resident response sits in
  the slot of the contest it answers, and the general lane holds no response. No resident has more strikes than the limit,
  and one has as many only while a handler has struck and not yet evicted. Submitting a transaction that is no response
  and not too large then has one of three outcomes. A duplicate is reported only for a resident digest, and the pool is
  full only when the lane is at capacity with no resident that reconciliation has struck; neither changes the pool.
  Otherwise the newcomer is queued last, every resident without a strike is kept, and the lane does not shrink.\<close>

theorem pool_bounded:
  assumes "mempool_reachable b3 vf sha w16 vlen vsize db root digest cfg st" and mp: "as_mempool st = Some mp"
    and tx: "payment_close_response_of tx = None" "canonical_submission_size tx \<le> MAX_CANONICAL_TRANSACTION_BYTES"
  shows "mempool_ok (tx_digest sha vlen) mp
    \<and> (\<forall>resident \<in> set (mp_general mp). me_strikes resident \<le> GENERAL_MEMPOOL_MAX_STRIKES
        \<and> (me_strikes resident = GENERAL_MEMPOOL_MAX_STRIKES \<longrightarrow> (\<exists>rejected. as_finality st = FinalityEvict rejected)))
    \<and> (case submit_tx b3 vf sha vlen db root get_finalization network d cursor tx mp of
        (Ok SubmitDuplicate, mp') \<Rightarrow> mp' = mp \<and> tx_digest sha vlen tx \<in> me_digest ` set (mp_general mp)
      | (Ok SubmitFull, mp') \<Rightarrow> mp' = mp \<and> length (mp_general mp) = GENERAL_MEMPOOL_CAPACITY
          \<and> (\<forall>resident \<in> set (mp_general mp). me_strikes resident = 0)
      | (Ok Enqueued, mp') \<Rightarrow> mp_responses mp' = mp_responses mp \<and> (\<exists>kept. mp_general mp' = kept @ [entry_new sha vlen tx]
          \<and> set kept \<subseteq> set (mp_general mp) \<and> length (mp_general mp) \<le> Suc (length kept)
          \<and> (\<forall>resident \<in> set (mp_general mp). me_strikes resident = 0 \<longrightarrow> resident \<in> set kept))
      | _ \<Rightarrow> False)"
proof -
  from reachable_ok [OF assms(1)] mp
  have ok: "mempool_ok (tx_digest sha vlen) mp" and strikes: "strikes_ok (as_finality st) mp" by auto
  have bound: "\<forall>resident \<in> set (mp_general mp). me_strikes resident \<le> GENERAL_MEMPOOL_MAX_STRIKES
      \<and> (me_strikes resident = GENERAL_MEMPOOL_MAX_STRIKES \<longrightarrow> (\<exists>rejected. as_finality st = FinalityEvict rejected))"
    using strikes_ok_le [OF strikes] strikes_ok_less [OF strikes] by fastforce
  obtain outcome mp' where run: "admit_general mp (entry_new sha vlen tx) = (outcome, mp')" by fastforce
  have submit: "submit_tx b3 vf sha vlen db root get_finalization network d cursor tx mp = (Ok outcome, mp')"
    using tx run by (simp add: submit_tx_def submit_general_def not_less)
  note dig = entry_new_def [of sha vlen tx]
  from ok run show ?thesis
  proof (cases rule: admit_general_cases)
    case (displaced i)
    have "\<forall>resident \<in> set (mp_general mp). me_strikes resident = 0 \<longrightarrow> resident \<in> set (list_remove i (mp_general mp))"
      using kept_list_remove displaced(5) by (metis less_irrefl)
    with displaced ok bound submit set_list_remove length_list_remove [OF displaced(4)] show ?thesis by simp
  qed (use ok bound submit in \<open>simp_all add: dig\<close>)
qed

theorem pool_bounded_witness:
  "\<exists>mp. submit_tx ex_b3 ex_vf ex_sha (\<lambda>_. []) mem_db (\<lambda>_. 0) (\<lambda>_. Ok True) None gen_start gen_cursor (Kernel ex_reshape) mempool_default
      = (Ok Enqueued, mp) \<and> length (mp_general mp) = 1 \<and> mempool_ok (tx_digest ex_sha (\<lambda>_. [])) mp
    \<and> submit_tx ex_b3 ex_vf ex_sha (\<lambda>_. []) mem_db (\<lambda>_. 0) (\<lambda>_. Ok True) None gen_start gen_cursor (Kernel ex_reshape) mp
      = (Ok SubmitDuplicate, mp)"
proof -
  let ?submit = "submit_tx ex_b3 ex_vf ex_sha (\<lambda>_. []) mem_db (\<lambda>_. 0) (\<lambda>_. Ok True) None gen_start gen_cursor (Kernel ex_reshape)"
  let ?reach = "mempool_reachable ex_b3 ex_vf ex_sha gen_w16 (\<lambda>_. []) (\<lambda>_. 0) mem_db (\<lambda>_. 0) (\<lambda>_ :: (unit, unit) hellas_block. 0) gen_config"
  let ?st = "\<lparr>as_index = ix_new (\<lambda>_. 0) (ascii ''net'') gen_genesis gen_allocations, as_mempool = Some mempool_default, as_finality = FinalityIdle\<rparr>"
  define mp where "mp = mempool_default\<lparr>mp_general := [entry_new ex_sha (\<lambda>_. []) (Kernel ex_reshape)]\<rparr>"
  have tx: "payment_close_response_of (Kernel ex_reshape) = None"
    "canonical_submission_size (Kernel ex_reshape) \<le> MAX_CANONICAL_TRANSACTION_BYTES"
    by (simp_all add: ex_reshape_def MAX_CANONICAL_TRANSACTION_BYTES_def encoded_size_tx_def encoded_size_reshape_def
      encoded_size_edge_inputs_def encoded_size_payouts_def encoded_size_auth_def encoded_size_payout_def encoded_size_list_def
      fixed_sizes primitive_sizes id_sizes bound_defs payout_new_def payout_delegated_def)
  have 1: "?submit mempool_default = (Ok Enqueued, mp)"
    using tx by (simp add: submit_tx_def submit_general_def admit_general_def mempool_default_def GENERAL_MEMPOOL_CAPACITY_def mp_def not_less)
  have 2: "?submit mp = (Ok SubmitDuplicate, mp)"
    using tx by (simp add: submit_tx_def submit_general_def admit_general_def mp_def not_less)
  have "?reach ?st" by (rule pool_start)
  from pool_submit [OF this _ 1] have reach: "?reach (?st\<lparr>as_mempool := Some mp\<rparr>)" by simp
  have "mempool_ok (tx_digest ex_sha (\<lambda>_. [])) mp" using pool_bounded [OF reach _ tx] by simp
  with 1 2 show ?thesis by (intro exI [of _ mp]) (simp add: mp_def)
qed

section \<open>Answers to contests\<close>

lemma check_response_cong:
  assumes "b_edge ops s (pr_payment_edge response) = b_edge ops' s' (pr_payment_edge response)"
    and "b_registry_chunk ops s (pending_payment_close_slot b3 (ctx_network cx) (pr_payment_edge response))
      = b_registry_chunk ops' s' (pending_payment_close_slot b3 (ctx_network cx) (pr_payment_edge response))"
    and "ctx_network cx' = ctx_network cx" "ctx_block_height cx' = ctx_block_height cx"
  shows "check_response b3 vf ops s cx response = check_response b3 vf ops' s' cx' response"
proof -
  have "read_pending ops s b3 cx (pr_payment_edge response) = read_pending ops' s' b3 cx' (pr_payment_edge response)"
    using read_pending_cong [OF assms(2)] assms(3) by (simp add: read_pending_def)
  with assms show ?thesis by (simp add: check_response_def Let_def cong: if_cong)
qed

lemma checked_response_applies:
  assumes "check_response b3 vf ops s cx response = Ok p"
  shows "\<exists>c. tx_apply b3 vf ops s cx (TxMove (RespondPaymentClose response)) = Ok c"
  using assms pending_to_chunk_parse [of p] by (auto simp: apply_response_def Let_def)

text \<open>The batch of an admission holds only what the ledger holds, and at the slots read, all of it.\<close>

definition admission_sound :: "ledger \<Rightarrow> admission_batch \<Rightarrow> bool" where
  "admission_sound l adm \<longleftrightarrow>
    (\<forall>i e. ab_edges adm i = Some e \<longrightarrow> l_edges l i = Some e) \<and> (\<forall>i c. ab_registry adm i = Some c \<longrightarrow> l_registry l i = Some c)"

definition admission_reads :: "blake3 \<Rightarrow> network_id \<Rightarrow> ledger \<Rightarrow> admission_batch \<Rightarrow> edge_id \<Rightarrow> bool" where
  "admission_reads b3 network l adm i \<longleftrightarrow> ab_edges adm i = l_edges l i
    \<and> ab_registry adm (pending_payment_close_slot b3 network i) = l_registry l (pending_payment_close_slot b3 network i)"

lemma admit_edge_reads:
  assumes "admit_edge db d i adm = Ok adm'" "admission_sound (db_ledger db d) adm"
  shows "ab_registry adm' = ab_registry adm \<and> (ab_edges adm' = ab_edges adm \<and> ab_edges adm i = l_edges (db_ledger db d) i
      \<or> (\<exists>e. l_edges (db_ledger db d) i = Some e \<and> ab_edges adm' = (ab_edges adm)(i \<mapsto> e)))"
proof (cases "ab_edges adm i")
  case None
  with assms(1) obtain found where found: "db_get db d i = Ok found"
    by (auto simp: admit_edge_def and_then_eq_Ok map_err_eq_Ok edge_object_id_def)
  then have "l_edges (db_ledger db d) i = object_edge found"
    by (cases found rule: object_edge.cases) (simp_all add: db_ledger_def object_ledger_def db_objects_def object_at_def)
  with assms(1) None found show ?thesis
    by (cases found rule: object_edge.cases) (auto simp: admit_edge_def edge_object_id_def split: object.splits)
next
  case (Some e)
  with assms have "adm' = adm" "l_edges (db_ledger db d) i = Some e"
    by (auto simp: admit_edge_def admission_sound_def)
  with Some show ?thesis by simp
qed

lemma admit_chunk_reads:
  assumes "admit_chunk db d i adm = Ok adm'" "\<forall>i c. ab_registry adm i = Some c \<longrightarrow> l_registry (db_ledger db d) i = Some c"
  shows "ab_edges adm' = ab_edges adm \<and> (ab_registry adm' = ab_registry adm \<and> ab_registry adm i = l_registry (db_ledger db d) i
      \<or> (\<exists>c. l_registry (db_ledger db d) i = Some c \<and> ab_registry adm' = (ab_registry adm)(i \<mapsto> c)))"
proof (cases "ab_registry adm i")
  case None
  with assms(1) obtain found where found: "db_get db d i = Ok found"
    by (auto simp: admit_chunk_def and_then_eq_Ok map_err_eq_Ok registry_chunk_object_id_def)
  then have "l_registry (db_ledger db d) i = object_chunk found"
    by (cases found rule: object_chunk.cases) (simp_all add: db_ledger_def object_ledger_def db_objects_def object_at_def)
  with assms(1) None found show ?thesis
    by (cases found rule: object_chunk.cases) (auto simp: admit_chunk_def registry_chunk_object_id_def split: object.splits)
next
  case (Some c)
  with assms have "adm' = adm" "l_registry (db_ledger db d) i = Some c"
    by (auto simp: admit_chunk_def)
  with Some show ?thesis by simp
qed

lemma admit_slots_reads:
  assumes "admit_slots b3 db d network adm i = Ok adm'" "admission_sound (db_ledger db d) adm"
  shows "admission_sound (db_ledger db d) adm'" "admission_reads b3 network (db_ledger db d) adm' i"
    "admission_reads b3 network (db_ledger db d) adm j \<Longrightarrow> admission_reads b3 network (db_ledger db d) adm' j"
proof -
  let ?l = "db_ledger db d"
  from assms(1) obtain mid where 1: "admit_edge db d i adm = Ok mid"
    and 2: "admit_chunk db d (pending_payment_close_slot b3 network i) mid = Ok adm'"
    by (auto simp: admit_slots_def and_then_eq_Ok)
  have e: "ab_registry mid = ab_registry adm \<and> (ab_edges mid = ab_edges adm \<and> ab_edges adm i = l_edges ?l i
      \<or> (\<exists>e. l_edges ?l i = Some e \<and> ab_edges mid = (ab_edges adm)(i \<mapsto> e)))"
    by (rule admit_edge_reads [OF 1 assms(2)])
  have c: "ab_edges adm' = ab_edges mid \<and> (ab_registry adm' = ab_registry mid
        \<and> ab_registry mid (pending_payment_close_slot b3 network i) = l_registry ?l (pending_payment_close_slot b3 network i)
      \<or> (\<exists>c. l_registry ?l (pending_payment_close_slot b3 network i) = Some c
          \<and> ab_registry adm' = (ab_registry mid)(pending_payment_close_slot b3 network i \<mapsto> c)))"
    using admit_chunk_reads [OF 2] e assms(2) by (simp add: admission_sound_def)
  show "admission_sound ?l adm'" using e c assms(2) by (auto simp: admission_sound_def split: if_splits)
  show "admission_reads b3 network ?l adm' i" using e c by (auto simp: admission_reads_def)
  show "admission_reads b3 network ?l adm' j" if "admission_reads b3 network ?l adm j" using e c that by (auto simp: admission_reads_def)
qed

lemma admit_all_reads:
  assumes "try_fold (\<lambda>adm response. admit_slots b3 db d network adm (pr_payment_edge response)) adm responses = Ok adm'"
    and "admission_sound (db_ledger db d) adm"
  shows "admission_sound (db_ledger db d) adm'
    \<and> (\<forall>i. admission_reads b3 network (db_ledger db d) adm i \<or> i \<in> pr_payment_edge ` set responses
        \<longrightarrow> admission_reads b3 network (db_ledger db d) adm' i)"
  using assms
proof (induction responses arbitrary: adm)
  case (Cons r rs)
  from Cons.prems(1) obtain mid where mid: "admit_slots b3 db d network adm (pr_payment_edge r) = Ok mid"
    "try_fold (\<lambda>adm response. admit_slots b3 db d network adm (pr_payment_edge response)) mid rs = Ok adm'"
    by (auto simp: and_then_eq_Ok)
  note r = admit_slots_reads [OF mid(1) Cons.prems(2)]
  from Cons.IH [OF mid(2) r(1)] r(2,3) show ?case by auto
qed simp

lemma response_stands_iff:
  "response_stands b3 vf cx adm entry \<longleftrightarrow>
    (\<exists>response p. me_transaction entry = Kernel (TxMove (RespondPaymentClose response))
      \<and> check_response b3 vf admission_ops adm cx response = Ok p)"
  by (cases "me_transaction entry" rule: payment_close_response_of.cases)
    (auto simp: response_stands_def split: result.splits)

lemma standing_response_applies:
  assumes "response_stands b3 vf cx adm entry" "me_transaction entry = Kernel (TxMove (RespondPaymentClose response))"
    and "admission_reads b3 (ctx_network cx) l adm (pr_payment_edge response)"
  shows "\<exists>c. tx_apply b3 vf ledger_ops l cx (TxMove (RespondPaymentClose response)) = Ok c"
proof -
  from assms(1,2) obtain p where "check_response b3 vf admission_ops adm cx response = Ok p" by (auto simp: response_stands_iff)
  moreover have "check_response b3 vf admission_ops adm cx response = check_response b3 vf ledger_ops l cx response"
    using assms(3) by (intro check_response_cong) (simp_all add: admission_reads_def admission_ops_def)
  ultimately show ?thesis using checked_response_applies by metis
qed

lemma residents_listed:
  assumes "entry \<in> snd ` set m" "me_transaction entry = Kernel (TxMove (RespondPaymentClose response))"
  shows "response \<in> set (List.map_filter (\<lambda>(_, entry). payment_close_response_of (me_transaction entry)) m)"
  using assms by (force simp: set_map_filter)

lemma submit_response_Enqueued:
  assumes "submit_response b3 vf sha vlen db root get_finalization network_id d cursor response mp = (Ok Enqueued, mp')"
  obtains network height adm p where "network_id = Some network" "checked_add (cur_height cursor) 1 = Some height"
    "admit_slots b3 db d network admission_empty (pr_payment_edge response) = Ok adm"
    "check_response b3 vf admission_ops adm (kernel_context network height (cur_payload cursor)) response = Ok p"
    "admit_response b3 vf db d (kernel_context network height (cur_payload cursor)) (pr_payment_edge response, pr_start_id response)
      (entry_new sha vlen (Kernel (TxMove (RespondPaymentClose response)))) adm mp = (Ok Enqueued, mp')"
  using assms that
  by (auto simp: submit_response_def Let_def split: option.splits result.splits bool.splits if_splits)

text \<open>C16. An admitted answer executes. When \<^verbatim>\<open>submit_response\<close> queues the answer to a contest, it is resident in the
  slot of its contest, and every resident answer, the newcomer's and those the sweep kept, is accepted by the
  kernel on the ledger of the finalized database in the context of the next block. The admission check reads only two
  slots per answer from the reader; that is all the kernel's verdict depends on.\<close>

theorem admitted_responses_execute:
  assumes ok: "mempool_ok (tx_digest sha vlen) mp"
    and run: "submit_response b3 vf sha vlen db root get_finalization (Some network) d cursor response mp = (Ok Enqueued, mp')"
  shows "bt_get (mp_responses mp') (pr_payment_edge response, pr_start_id response)
      = Some (entry_new sha vlen (Kernel (TxMove (RespondPaymentClose response))))
    \<and> (\<forall>entry \<in> snd ` set (mp_responses mp'). \<exists>answer c.
        me_transaction entry = Kernel (TxMove (RespondPaymentClose answer))
        \<and> tx_apply b3 vf ledger_ops (db_ledger db d) (kernel_context network (cur_height cursor + 1) (cur_payload cursor))
            (TxMove (RespondPaymentClose answer)) = Ok c)"
proof -
  let ?l = "db_ledger db d" and ?slot = "(pr_payment_edge response, pr_start_id response)"
  let ?incoming = "entry_new sha vlen (Kernel (TxMove (RespondPaymentClose response)))"
  from run obtain height adm p where h: "checked_add (cur_height cursor) 1 = Some height"
    and a: "admit_slots b3 db d network admission_empty (pr_payment_edge response) = Ok adm"
      "check_response b3 vf admission_ops adm (kernel_context network height (cur_payload cursor)) response = Ok p"
      "admit_response b3 vf db d (kernel_context network height (cur_payload cursor)) ?slot ?incoming adm mp = (Ok Enqueued, mp')"
    by (rule submit_response_Enqueued) auto
  define cx where "cx = kernel_context network (cur_height cursor + 1) (cur_payload cursor)"
  define residents where "residents = List.map_filter (\<lambda>(_, entry). payment_close_response_of (me_transaction entry)) (mp_responses mp)"
  have cx: "kernel_context network height (cur_payload cursor) = cx" "ctx_network cx = network"
    using h by (auto simp: cx_def checked_add_def split: if_splits)
  have "admission_sound ?l admission_empty" by (simp add: admission_sound_def admission_empty_def)
  note r1 = admit_slots_reads [OF a(1) this]
  from a(3) obtain adm' where fold: "try_fold (\<lambda>adm response. admit_slots b3 db d network adm (pr_payment_edge response)) adm residents = Ok adm'"
    and ins: "mp_responses mp' = bt_insert ?slot ?incoming (bt_retain (\<lambda>_. response_stands b3 vf cx adm') (mp_responses mp))"
    by (auto simp: admit_response_def Let_def cx residents_def split: result.splits if_splits)
  note r2 = admit_all_reads [OF fold r1(1)]
  have wf: "bt_wf (mp_responses mp)" using ok by (simp add: mempool_ok_def)
  have new: "\<exists>c. tx_apply b3 vf ledger_ops ?l cx (TxMove (RespondPaymentClose response)) = Ok c"
    using standing_response_applies [of b3 vf cx adm ?incoming response ?l] a(2) r1(2) by (simp add: response_stands_iff cx)
  have "\<exists>answer c. me_transaction entry = Kernel (TxMove (RespondPaymentClose answer))
      \<and> tx_apply b3 vf ledger_ops ?l cx (TxMove (RespondPaymentClose answer)) = Ok c"
    if entry: "entry \<in> snd ` set (mp_responses mp')" for entry
  proof (cases "entry = ?incoming")
    case False
    with entry ins bt_insert_set [of ?slot ?incoming "bt_retain (\<lambda>_. response_stands b3 vf cx adm') (mp_responses mp)"]
    have "entry \<in> snd ` set (bt_retain (\<lambda>_. response_stands b3 vf cx adm') (mp_responses mp))" by auto
    then have kept: "entry \<in> snd ` set (mp_responses mp)" "response_stands b3 vf cx adm' entry"
      by (auto simp: bt_retain_def)
    then obtain answer where t: "me_transaction entry = Kernel (TxMove (RespondPaymentClose answer))"
      by (auto simp: response_stands_iff)
    have "admission_reads b3 (ctx_network cx) ?l adm' (pr_payment_edge answer)"
      using r2 residents_listed [OF kept(1) t] by (auto simp: cx residents_def)
    from standing_response_applies [OF kept(2) t this] t show ?thesis by blast
  qed (use new in simp)
  with ins wf show ?thesis by (simp add: cx_def)
qed

lemma ex_response_checks:
  assumes "ab_edges adm 4 = Some ex_payment_edge" "ab_registry adm 0 = pending_to_chunk ex_pending"
  shows "\<exists>p. check_response ex_b3 ex_vf admission_ops adm (kernel_context (ascii ''net'') 5 0) ex_response = Ok p"
proof -
  obtain c where "apply_response ex_b3 ex_vf wb_ops (bws_begin ex_contest) ex_ctx ex_response = Ok c" using ex_response_accepted by blast
  then obtain p where p: "check_response ex_b3 ex_vf wb_ops (bws_begin ex_contest) ex_ctx ex_response = Ok p" by (rule apply_response_Ok)
  have "check_response ex_b3 ex_vf wb_ops (bws_begin ex_contest) ex_ctx ex_response
      = check_response ex_b3 ex_vf admission_ops adm (kernel_context (ascii ''net'') 5 0) ex_response"
    using assms by (intro check_response_cong)
      (auto simp: admission_ops_def ex_contest_def bws_begin_def slot_get_def ex_response_def ex_pending_slot ex_ctx_def context_with_fees_def)
  with p show ?thesis by metis
qed

theorem admitted_responses_execute_witness:
  "\<exists>c. tx_apply ex_b3 ex_vf ledger_ops (db_ledger mem_db ex_objects) (kernel_context (ascii ''net'') 5 0) ex_answer = Ok c"
proof -
  let ?cursor = "\<lparr>cur_height = 4, cur_payload = 0, cur_state_root = 0\<rparr>"
  let ?submit = "submit_response ex_b3 ex_vf ex_sha (\<lambda>_. []) mem_db (\<lambda>_. 0) (\<lambda>_. Ok True) (Some (ascii ''net'')) ex_objects ?cursor ex_response"
  obtain chunk where chunk: "pending_to_chunk ex_pending = Some chunk" using pending_to_chunk_parse by blast
  define adm where "adm = \<lparr>ab_edges = [4 \<mapsto> ex_payment_edge], ab_registry = [0 \<mapsto> chunk]\<rparr>"
  have edge: "pr_payment_edge ex_response = 4" by (simp add: ex_response_def)
  have slots: "admit_slots ex_b3 mem_db ex_objects (ascii ''net'') admission_empty 4 = Ok adm"
    using ex_pending_slot
    by (simp add: admit_slots_def admit_edge_def admit_chunk_def admission_empty_def edge_object_id_def registry_chunk_object_id_def
        ex_objects_def chunk adm_def fun_eq_iff)
  obtain p where "check_response ex_b3 ex_vf admission_ops adm (kernel_context (ascii ''net'') 5 0) ex_response = Ok p"
    using ex_response_checks [of adm] by (auto simp: adm_def chunk)
  then obtain mp' where run: "?submit mempool_default = (Ok Enqueued, mp')"
    using slots by (auto simp: submit_response_def Let_def edge checked_add_def admit_response_def mempool_default_def bt_empty_def
        map_filter_simps bt_retain_def bt_get_def RESPONSE_MEMPOOL_CAPACITY_def)
  have "mempool_ok (tx_digest ex_sha (\<lambda>_. [])) mempool_default"
    by (simp add: mempool_ok_def mempool_default_def bt_empty_def bt_wf_def)
  from admitted_responses_execute [OF this run]
  have "entry_new ex_sha (\<lambda>_. []) (Kernel ex_answer) \<in> snd ` set (mp_responses mp')"
    "\<forall>entry \<in> snd ` set (mp_responses mp'). \<exists>answer c. me_transaction entry = Kernel (TxMove (RespondPaymentClose answer))
      \<and> tx_apply ex_b3 ex_vf ledger_ops (db_ledger mem_db ex_objects) (kernel_context (ascii ''net'') 5 0) (TxMove (RespondPaymentClose answer)) = Ok c"
    by (auto simp: bt_get_def ex_answer_def dest!: map_of_SomeD intro: rev_image_eqI)
  then show ?thesis by (fastforce simp: ex_answer_def)
qed

section \<open>The size of a response\<close>

lemma response_size: "286 \<le> canonical_submission_size (Kernel (TxMove (RespondPaymentClose response)))"
proof -
  have "70 \<le> encoded_size_party_auth p" for p
    by (cases "pa_auth p") (simp_all add: encoded_size_party_auth_def encoded_size_authority_def encoded_size_auth_def
        encoded_size_webauthn_assertion_def max_encoded_size_authority_def fixed_sizes primitive_sizes id_sizes bound_defs)
  from this [of "pr_certificate_auth response"] this [of "pr_action response"] show ?thesis
    by (simp add: encoded_size_tx_def encoded_size_move_def encoded_size_payment_close_response_def EARNED_CERTIFICATE_SIZE_def
        max_encoded_size_start_id_def max_encoded_size_payment_close_response_def fixed_sizes primitive_sizes id_sizes bound_defs)
qed

text \<open>C40. The size the proposer assumes for a response is wrong. Every response transaction takes at least 286 bytes in its
  canonical encoding, while \<^verbatim>\<open>RESPONSE_TRANSACTION_BYTES\<close> is 274: a build that checks debug assertions panics in
  \<^verbatim>\<open>propose\<close> as soon as the first pending transaction is an answer to a contest, whatever else the pool holds, and a
  release build reserves too little room for the responses when it picks general transactions.\<close>

theorem pending_response_panics:
  assumes "app_debug cfg" "proposal_pending (tx_digest sha vlen) (cur_height cursor) (parent # rest) mp = entry # pending"
    and "response_slot (me_transaction entry) \<noteq> None"
  shows "RESPONSE_TRANSACTION_BYTES < canonical_submission_size (me_transaction entry)
    \<and> propose b3 vf sha w16 vlen vsize db mk digest cfg cursor now cx (parent # rest) d (Some mp) = Panics"
proof -
  obtain response where "me_transaction entry = Kernel (TxMove (RespondPaymentClose response))"
    using assms(3) by (cases "me_transaction entry" rule: response_slot.cases) auto
  then have size: "RESPONSE_TRANSACTION_BYTES < canonical_submission_size (me_transaction entry)"
    using response_size [of response] by (simp add: RESPONSE_TRANSACTION_BYTES_def)
  moreover have "take (response_count_of (entry # pending)) (entry # pending) = entry # takeWhile (\<lambda>e. response_slot (me_transaction e) \<noteq> None) pending"
    using assms(3) by (simp add: response_count_of_def takeWhile_eq_take [symmetric])
  ultimately have "\<not> responses_sized (entry # pending)" by (simp add: responses_sized_def)
  with size assms(1,2) show ?thesis by (simp add: propose_def Let_def)
qed

theorem pending_response_panics_witness:
  "propose ex_b3 ex_vf ex_sha gen_w16 (\<lambda>_. []) (\<lambda>_. 0) mem_db gen_merkle (\<lambda>_. 0) gen_config gen_cursor 3 () [gen_genesis] gen_start
    (Some \<lparr>mp_general = [], mp_responses = [((4, 0), entry_new ex_sha (\<lambda>_. []) (Kernel ex_answer))]\<rparr>) = Panics"
proof -
  let ?entry = "entry_new ex_sha (\<lambda>_. []) (Kernel ex_answer)"
  have "proposal_pending (tx_digest ex_sha (\<lambda>_. [])) (cur_height gen_cursor) [gen_genesis]
      \<lparr>mp_general = [], mp_responses = [((4, 0), ?entry)]\<rparr> = [?entry]"
    by (simp add: proposal_pending_def mempool_snapshot_def gen_cursor_def gen_genesis_def hb_new_def Let_def)
  from pending_response_panics [OF _ this, of gen_config ex_b3 ex_vf gen_w16 "\<lambda>_. 0" mem_db gen_merkle "\<lambda>_. 0" 3 "()" gen_start]
  show ?thesis by (simp add: gen_config_def ex_answer_def)
qed

end
