(* ===== verification/Channel_Records.thy ===== *)
theory Channel_Records
  imports Kernel_Work
begin

text \<open>The private records of a paid channel (src/crates/channel/src/model/work.rs): the fixed-width envelope codec,
  the five record bodies, the digests the parties sign, the channel identity derived from its two edges, and the
  arithmetic that turns an authorized price into the next cumulative certificate.

  A record body is its encoder and a reader that returns the value and the unread bytes; the locale \<open>private_record\<close>
  is what a body promises the envelope, and every body is interpreted in it. The error text of a nested canonical
  body or transcript is a string, as \<^verbatim>\<open>PaidWorkError\<close> renders it.\<close>

section \<open>Errors\<close>

datatype paid_work_error =
    UnknownFormatVersion byte
  | WrongRecordTag byte byte  \<comment> \<open>expected, actual\<close>
  | RecordLength nat nat  \<comment> \<open>expected, actual\<close>
  | Mismatch string
  | PriceOutOfRange u64 u64  \<comment> \<open>price, max_job_price\<close>
  | DeadlineOrder u64 u64 u64 u64  \<comment> \<open>acceptance, terminal, payment, horizon\<close>
  | AcceptanceExpired u64 u64  \<comment> \<open>height, deadline\<close>
  | PolicyZero string
  | OverEnvelope string u64 u64  \<comment> \<open>field, actual, limit\<close>
  | Body string
  | Overflow string
  | OverCapacity u64 u64  \<comment> \<open>cumulative, capacity\<close>
  | Transcript string

text \<open>A loop over named conditions that stops at the first one that does not hold.\<close>

fun check_fields :: "(string \<Rightarrow> 'e) \<Rightarrow> (string \<times> bool) list \<Rightarrow> (unit, 'e) result" where
  "check_fields err [] = Ok ()"
| "check_fields err ((field, holds) # rest) = (if \<not> holds then Err (err field) else check_fields err rest)"

section \<open>Reading and writing bodies\<close>

definition put_u64 :: "u64 \<Rightarrow> bytes" where "put_u64 v = to_be_bytes v"

type_synonym 'a body_reader = "bytes \<Rightarrow> ('a \<times> bytes, paid_work_error) result"

definition reader_take :: "nat \<Rightarrow> bytes body_reader" where
  "reader_take n bs =
    (if n \<le> length bs then Ok (take n bs, drop n bs) else Err (RecordLength n (length bs)))"

definition reader_bytes32 :: "bytes32 body_reader" where
  "reader_bytes32 bs = and_then (reader_take 32 bs) (\<lambda>(head, rest). Ok (from_be_bytes head, rest))"

definition reader_u64 :: "u64 body_reader" where
  "reader_u64 bs = and_then (reader_take 8 bs) (\<lambda>(head, rest). Ok (from_be_bytes head, rest))"

section \<open>The envelope\<close>

definition RECORD_FORMAT_VERSION :: byte where "RECORD_FORMAT_VERSION = 1"
definition RECORD_ENVELOPE_SIZE :: nat where "RECORD_ENVELOPE_SIZE = 2"

definition tag_PAID_CHANNEL_POLICY :: byte where "tag_PAID_CHANNEL_POLICY = 0"
definition tag_PAID_JOB_RESULT :: byte where "tag_PAID_JOB_RESULT = 3"
definition tag_PAYMENT_BINDING :: byte where "tag_PAYMENT_BINDING = 4"
definition tag_JOB_PAYMENT_POLICY_V2 :: byte where "tag_JOB_PAYMENT_POLICY_V2 = 8"
definition tag_PAID_JOB_AUTHORIZATION_V2 :: byte where "tag_PAID_JOB_AUTHORIZATION_V2 = 9"

definition record_encode :: "byte \<Rightarrow> ('a \<Rightarrow> bytes) \<Rightarrow> 'a \<Rightarrow> bytes" where
  "record_encode t encode_body x = RECORD_FORMAT_VERSION # t # encode_body x"

definition record_decode :: "byte \<Rightarrow> nat \<Rightarrow> 'a body_reader \<Rightarrow> bytes \<Rightarrow> ('a, paid_work_error) result" where
  "record_decode t body_size decode_body bs =
    (let wrong = RecordLength (RECORD_ENVELOPE_SIZE + body_size) (length bs) in
     if length bs \<noteq> RECORD_ENVELOPE_SIZE + body_size then Err wrong
     else case take RECORD_ENVELOPE_SIZE bs of
         [version, actual] \<Rightarrow>
           if version \<noteq> RECORD_FORMAT_VERSION then Err (UnknownFormatVersion version)
           else if actual \<noteq> t then Err (WrongRecordTag t actual)
           else and_then (decode_body (drop RECORD_ENVELOPE_SIZE bs)) (\<lambda>(record, rest).
             if rest = [] then Ok record else Err wrong)
       | _ \<Rightarrow> Err wrong)"

section \<open>The records\<close>

subsection \<open>The channel's credit policy\<close>

record paid_channel_policy =
  cp_compute_credit_limit :: u64
  cp_delivery_credit_limit :: u64

definition POLICY_BODY_SIZE :: nat where "POLICY_BODY_SIZE = 2 * 8"

definition encode_policy_body :: "paid_channel_policy \<Rightarrow> bytes" where
  "encode_policy_body p = put_u64 (cp_compute_credit_limit p) @ put_u64 (cp_delivery_credit_limit p)"

definition decode_policy_body :: "paid_channel_policy body_reader" where
  "decode_policy_body bs =
    and_then (reader_u64 bs) (\<lambda>(compute, bs).
    and_then (reader_u64 bs) (\<lambda>(delivery, bs).
    Ok (\<lparr>cp_compute_credit_limit = compute, cp_delivery_credit_limit = delivery\<rparr>, bs)))"

subsection \<open>The authorization\<close>

record content_ref =
  cr_id :: bytes32
  cr_bytes :: u64

definition encode_reference :: "content_ref \<Rightarrow> bytes" where
  "encode_reference r = to_be_bytes (cr_id r) @ to_be_bytes (cr_bytes r)"

datatype retention = Ephemeral | Retain

definition should_retain :: "retention \<Rightarrow> bool" where
  "should_retain r = (case r of Ephemeral \<Rightarrow> False | Retain \<Rightarrow> True)"

record paid_job_authorization =
  pj_channel_id :: bytes32
  pj_work_policy_digest :: bytes32
  pj_payment_policy_digest :: bytes32
  pj_input_content :: content_ref
  pj_prepared_input_digest :: bytes32
  pj_proposal_nonce :: u64
  pj_acceptance_deadline :: u64
  pj_request_commitment :: bytes32
  pj_environment_commitment :: bytes32
  pj_price :: u64
  pj_terminal_deadline :: u64
  pj_payment_deadline :: u64
  pj_retention :: retention

definition AUTHORIZATION_BODY_SIZE :: nat where "AUTHORIZATION_BODY_SIZE = 6 * 32 + 5 * 8 + 40 + 1"

definition encode_authorization_body :: "paid_job_authorization \<Rightarrow> bytes" where
  "encode_authorization_body a =
    to_be_bytes (pj_channel_id a) @ to_be_bytes (pj_work_policy_digest a)
    @ to_be_bytes (pj_payment_policy_digest a) @ encode_reference (pj_input_content a)
    @ to_be_bytes (pj_prepared_input_digest a) @ put_u64 (pj_proposal_nonce a)
    @ put_u64 (pj_acceptance_deadline a) @ to_be_bytes (pj_request_commitment a)
    @ to_be_bytes (pj_environment_commitment a) @ put_u64 (pj_price a)
    @ put_u64 (pj_terminal_deadline a) @ put_u64 (pj_payment_deadline a)
    @ [case pj_retention a of Ephemeral \<Rightarrow> 0 | Retain \<Rightarrow> 1]"

definition decode_retention :: "retention body_reader" where
  "decode_retention bs = and_then (reader_take 1 bs) (\<lambda>(head, bs).
    if head ! 0 = 0 then Ok (Ephemeral, bs) else if head ! 0 = 1 then Ok (Retain, bs)
    else Err (Mismatch ''retention''))"

definition decode_authorization_body :: "paid_job_authorization body_reader" where
  "decode_authorization_body bs =
    and_then (reader_bytes32 bs) (\<lambda>(channel_id, bs).
    and_then (reader_bytes32 bs) (\<lambda>(work_policy, bs).
    and_then (reader_bytes32 bs) (\<lambda>(payment_policy, bs).
    and_then (reader_bytes32 bs) (\<lambda>(content_id, bs).
    and_then (reader_u64 bs) (\<lambda>(content_bytes, bs).
    and_then (reader_bytes32 bs) (\<lambda>(prepared, bs).
    and_then (reader_u64 bs) (\<lambda>(nonce, bs).
    and_then (reader_u64 bs) (\<lambda>(acceptance, bs).
    and_then (reader_bytes32 bs) (\<lambda>(request, bs).
    and_then (reader_bytes32 bs) (\<lambda>(environment, bs).
    and_then (reader_u64 bs) (\<lambda>(price, bs).
    and_then (reader_u64 bs) (\<lambda>(terminal, bs).
    and_then (reader_u64 bs) (\<lambda>(payment, bs).
    and_then (decode_retention bs) (\<lambda>(r, bs).
    Ok (\<lparr>pj_channel_id = channel_id, pj_work_policy_digest = work_policy,
         pj_payment_policy_digest = payment_policy,
         pj_input_content = \<lparr>cr_id = content_id, cr_bytes = content_bytes\<rparr>,
         pj_prepared_input_digest = prepared, pj_proposal_nonce = nonce,
         pj_acceptance_deadline = acceptance, pj_request_commitment = request,
         pj_environment_commitment = environment, pj_price = price,
         pj_terminal_deadline = terminal, pj_payment_deadline = payment, pj_retention = r\<rparr>, bs)))))))))))))))"

subsection \<open>The result\<close>

datatype result_outcome = Finished | OutcomeFailed

record paid_job_result =
  jr_work_id :: bytes32
  jr_terminal_transcript_commitment :: bytes32
  jr_canonical_output_digest :: bytes32
  jr_outcome :: result_outcome
  jr_transcript_content :: content_ref

definition RESULT_BODY_SIZE :: nat where "RESULT_BODY_SIZE = 3 * 32 + 1 + 40"

definition encode_result_body :: "paid_job_result \<Rightarrow> bytes" where
  "encode_result_body r =
    to_be_bytes (jr_work_id r) @ to_be_bytes (jr_terminal_transcript_commitment r)
    @ to_be_bytes (jr_canonical_output_digest r)
    @ [case jr_outcome r of Finished \<Rightarrow> 0 | OutcomeFailed \<Rightarrow> 1]
    @ encode_reference (jr_transcript_content r)"

definition decode_outcome_byte :: "result_outcome body_reader" where
  "decode_outcome_byte bs = and_then (reader_take 1 bs) (\<lambda>(head, bs).
    if head ! 0 = 0 then Ok (Finished, bs) else if head ! 0 = 1 then Ok (OutcomeFailed, bs)
    else Err (Mismatch ''result outcome''))"

definition decode_result_body :: "paid_job_result body_reader" where
  "decode_result_body bs =
    and_then (reader_bytes32 bs) (\<lambda>(work, bs).
    and_then (reader_bytes32 bs) (\<lambda>(terminal, bs).
    and_then (reader_bytes32 bs) (\<lambda>(output, bs).
    and_then (decode_outcome_byte bs) (\<lambda>(outcome, bs).
    and_then (reader_bytes32 bs) (\<lambda>(content_id, bs).
    and_then (reader_u64 bs) (\<lambda>(content_bytes, bs).
    Ok (\<lparr>jr_work_id = work, jr_terminal_transcript_commitment = terminal,
         jr_canonical_output_digest = output, jr_outcome = outcome,
         jr_transcript_content = \<lparr>cr_id = content_id, cr_bytes = content_bytes\<rparr>\<rparr>, bs)))))))"

subsection \<open>The payment binding\<close>

record payment_binding =
  pb_work_id :: bytes32
  pb_result_digest :: bytes32
  pb_certificate_digest :: payload_hash

definition BINDING_BODY_SIZE :: nat where "BINDING_BODY_SIZE = 3 * 32"

definition encode_binding_body :: "payment_binding \<Rightarrow> bytes" where
  "encode_binding_body b = to_be_bytes (pb_work_id b) @ to_be_bytes (pb_result_digest b)
    @ to_be_bytes (pb_certificate_digest b)"

definition decode_binding_body :: "payment_binding body_reader" where
  "decode_binding_body bs =
    and_then (reader_bytes32 bs) (\<lambda>(work, bs).
    and_then (reader_bytes32 bs) (\<lambda>(res, bs).
    and_then (reader_bytes32 bs) (\<lambda>(certificate, bs).
    Ok (\<lparr>pb_work_id = work, pb_result_digest = res, pb_certificate_digest = certificate\<rparr>, bs))))"

subsection \<open>The job payment policy\<close>

record job_payment_policy =
  jp_fixed_price :: u64
  jp_dispatch_margin_blocks :: u64
  jp_delivery_margin_blocks :: u64
  jp_oracle_grace_blocks :: u64

definition PAYMENT_POLICY_BODY_SIZE :: nat where "PAYMENT_POLICY_BODY_SIZE = 4 * 8"

definition encode_payment_policy_body :: "job_payment_policy \<Rightarrow> bytes" where
  "encode_payment_policy_body p = put_u64 (jp_fixed_price p) @ put_u64 (jp_dispatch_margin_blocks p)
    @ put_u64 (jp_delivery_margin_blocks p) @ put_u64 (jp_oracle_grace_blocks p)"

definition decode_payment_policy_body :: "job_payment_policy body_reader" where
  "decode_payment_policy_body bs =
    and_then (reader_u64 bs) (\<lambda>(price, bs).
    and_then (reader_u64 bs) (\<lambda>(dispatch, bs).
    and_then (reader_u64 bs) (\<lambda>(delivery, bs).
    and_then (reader_u64 bs) (\<lambda>(grace, bs).
    Ok (\<lparr>jp_fixed_price = price, jp_dispatch_margin_blocks = dispatch,
         jp_delivery_margin_blocks = delivery, jp_oracle_grace_blocks = grace\<rparr>, bs)))))"

fun check_nonzero :: "(string \<times> u64) list \<Rightarrow> (unit, paid_work_error) result" where
  "check_nonzero [] = Ok ()"
| "check_nonzero ((field, v) # rest) = (if v = 0 then Err (PolicyZero field) else check_nonzero rest)"

definition payment_policy_check :: "job_payment_policy \<Rightarrow> (unit, paid_work_error) result" where
  "payment_policy_check p = check_nonzero
    [(''fixed_price'', jp_fixed_price p), (''dispatch_margin_blocks'', jp_dispatch_margin_blocks p),
     (''delivery_margin_blocks'', jp_delivery_margin_blocks p), (''oracle_grace_blocks'', jp_oracle_grace_blocks p)]"

subsection \<open>The complete encodings\<close>

definition encode_channel_policy :: "paid_channel_policy \<Rightarrow> bytes" where
  "encode_channel_policy = record_encode tag_PAID_CHANNEL_POLICY encode_policy_body"
definition decode_channel_policy :: "bytes \<Rightarrow> (paid_channel_policy, paid_work_error) result" where
  "decode_channel_policy = record_decode tag_PAID_CHANNEL_POLICY POLICY_BODY_SIZE decode_policy_body"

definition encode_authorization :: "paid_job_authorization \<Rightarrow> bytes" where
  "encode_authorization = record_encode tag_PAID_JOB_AUTHORIZATION_V2 encode_authorization_body"
definition decode_authorization :: "bytes \<Rightarrow> (paid_job_authorization, paid_work_error) result" where
  "decode_authorization = record_decode tag_PAID_JOB_AUTHORIZATION_V2 AUTHORIZATION_BODY_SIZE decode_authorization_body"

definition encode_result :: "paid_job_result \<Rightarrow> bytes" where
  "encode_result = record_encode tag_PAID_JOB_RESULT encode_result_body"
definition decode_result :: "bytes \<Rightarrow> (paid_job_result, paid_work_error) result" where
  "decode_result = record_decode tag_PAID_JOB_RESULT RESULT_BODY_SIZE decode_result_body"

definition encode_binding :: "payment_binding \<Rightarrow> bytes" where
  "encode_binding = record_encode tag_PAYMENT_BINDING encode_binding_body"
definition decode_binding :: "bytes \<Rightarrow> (payment_binding, paid_work_error) result" where
  "decode_binding = record_decode tag_PAYMENT_BINDING BINDING_BODY_SIZE decode_binding_body"

definition encode_payment_policy :: "job_payment_policy \<Rightarrow> bytes" where
  "encode_payment_policy = record_encode tag_JOB_PAYMENT_POLICY_V2 encode_payment_policy_body"
definition decode_payment_policy :: "bytes \<Rightarrow> (job_payment_policy, paid_work_error) result" where
  "decode_payment_policy = record_decode tag_JOB_PAYMENT_POLICY_V2 PAYMENT_POLICY_BODY_SIZE decode_payment_policy_body"

section \<open>Domains and digests\<close>

definition WORK_CHANNEL :: bytes where "WORK_CHANNEL = ascii ''hellas.work.channel.v2''"
definition PAID_CHANNEL_POLICY :: bytes where "PAID_CHANNEL_POLICY = ascii ''hellas.work.paid-channel-policy.v1''"
definition JOB_PAYMENT_POLICY :: bytes where "JOB_PAYMENT_POLICY = ascii ''hellas.work.job-payment-policy.v2''"
definition PAID_JOB_AUTHORIZE :: bytes where "PAID_JOB_AUTHORIZE = ascii ''hellas.work.paid-job-authorize.v2''"
definition PAID_JOB_RESULT :: bytes where "PAID_JOB_RESULT = ascii ''hellas.work.paid-job-result.v1''"
definition PAYMENT_BINDING :: bytes where "PAYMENT_BINDING = ascii ''hellas.work.payment-binding.v1''"
definition DELIVERY_REQUEST :: bytes where "DELIVERY_REQUEST = ascii ''hellas.work.delivery-request.v1''"

definition xh_preimage :: "bytes \<Rightarrow> bytes list \<Rightarrow> bytes" where
  "xh_preimage domain parts = domain @ concat parts"

definition xh :: "blake3 \<Rightarrow> bytes \<Rightarrow> bytes list \<Rightarrow> bytes32" where
  "xh b3 domain parts = xet_commit b3 (xh_preimage domain parts)"

definition versioned_record_digest :: "blake3 \<Rightarrow> bytes \<Rightarrow> network_id \<Rightarrow> bytes32 \<Rightarrow> bytes \<Rightarrow> bytes32" where
  "versioned_record_digest b3 domain network channel bs =
    xh b3 domain [encode_network_id network, to_be_bytes channel, bs]"

definition private_policy_commitment :: "blake3 \<Rightarrow> network_id \<Rightarrow> bytes32 \<Rightarrow> paid_channel_policy \<Rightarrow> bytes32" where
  "private_policy_commitment b3 network salt policy =
    xh b3 PAID_CHANNEL_POLICY [encode_network_id network, to_be_bytes salt, encode_channel_policy policy]"

definition job_payment_policy_digest :: "blake3 \<Rightarrow> network_id \<Rightarrow> bytes32 \<Rightarrow> job_payment_policy \<Rightarrow> bytes32" where
  "job_payment_policy_digest b3 network channel policy =
    versioned_record_digest b3 JOB_PAYMENT_POLICY network channel (encode_payment_policy policy)"

definition paid_work_v2_id :: "blake3 \<Rightarrow> network_id \<Rightarrow> bytes32 \<Rightarrow> paid_job_authorization \<Rightarrow> bytes32" where
  "paid_work_v2_id b3 network channel authorization =
    versioned_record_digest b3 PAID_JOB_AUTHORIZE network channel (encode_authorization authorization)"

definition bound_result_digest :: "blake3 \<Rightarrow> network_id \<Rightarrow> bytes32 \<Rightarrow> paid_job_result \<Rightarrow> bytes32" where
  "bound_result_digest b3 network channel r =
    xh b3 PAID_JOB_RESULT [encode_network_id network, to_be_bytes channel, encode_result r]"

definition bound_delivery_request_digest :: "blake3 \<Rightarrow> network_id \<Rightarrow> bytes32 \<Rightarrow> bytes32 \<Rightarrow> bytes32 \<Rightarrow> bytes32" where
  "bound_delivery_request_digest b3 network channel work exporter =
    xh b3 DELIVERY_REQUEST [encode_network_id network, to_be_bytes channel, to_be_bytes work, to_be_bytes exporter]"

text \<open>The widest record and the longest domain over the sets the source lists; the grant authorization and its
  domain belong to src/crates/channel/src/model/grant.rs, whose width and length are arguments.\<close>

definition WIDEST_RECORD :: "nat \<Rightarrow> nat" where
  "WIDEST_RECORD grant_size = fold max [RECORD_ENVELOPE_SIZE + POLICY_BODY_SIZE,
    RECORD_ENVELOPE_SIZE + PAYMENT_POLICY_BODY_SIZE, RECORD_ENVELOPE_SIZE + AUTHORIZATION_BODY_SIZE,
    grant_size, RECORD_ENVELOPE_SIZE + RESULT_BODY_SIZE, RECORD_ENVELOPE_SIZE + BINDING_BODY_SIZE] 0"

definition LONGEST_DOMAIN :: "nat \<Rightarrow> nat" where
  "LONGEST_DOMAIN grant_domain = fold max [length PAID_CHANNEL_POLICY, length JOB_PAYMENT_POLICY,
    grant_domain, length PAID_JOB_AUTHORIZE, length PAID_JOB_RESULT, length PAYMENT_BINDING] 0"

definition WIDEST_XH_PREIMAGE :: "nat \<Rightarrow> nat \<Rightarrow> nat" where
  "WIDEST_XH_PREIMAGE grant_size grant_domain =
    LONGEST_DOMAIN grant_domain + max_encoded_size_network_id + 32 + WIDEST_RECORD grant_size"

section \<open>The channel\<close>

record paid_channel =
  ch_network :: network_id
  ch_payment_edge :: edge_id
  ch_payment_terms :: work_payment_terms
  ch_payment_terms_hash :: terms_hash
  ch_policy :: paid_channel_policy
  ch_id :: bytes32

definition paid_channel_new ::
  "blake3 \<Rightarrow> network_id \<Rightarrow> edge_id \<Rightarrow> work_payment_terms \<Rightarrow> bytes32 \<Rightarrow> paid_channel_policy
    \<Rightarrow> (paid_channel, paid_work_error) result" where
  "paid_channel_new b3 network payment_edge terms salt policy =
    (if private_policy_commitment b3 network salt policy \<noteq> wp_private_policy_commitment terms
     then Err (Mismatch ''private_policy_commitment'')
     else let terms_hash = terms_hash_of (terms_work_payment b3 terms);
              bond_hash = bond_terms_hash b3 terms;
              id = xh b3 WORK_CHANNEL [encode_network_id network, to_be_bytes payment_edge, to_be_bytes terms_hash,
                to_be_bytes (wp_bond_edge terms), to_be_bytes bond_hash]
          in Ok \<lparr>ch_network = network, ch_payment_edge = payment_edge, ch_payment_terms = terms,
               ch_payment_terms_hash = terms_hash, ch_policy = policy, ch_id = id\<rparr>)"

definition client_key :: "paid_channel \<Rightarrow> key" where
  "client_key c = pk_signer (parties_maker (wp_parties (ch_payment_terms c)))"

definition provider_key :: "paid_channel \<Rightarrow> key" where
  "provider_key c = pk_signer (parties_taker (wp_parties (ch_payment_terms c)))"

definition work_id :: "blake3 \<Rightarrow> paid_channel \<Rightarrow> paid_job_authorization \<Rightarrow> bytes32" where
  "work_id b3 c authorization = paid_work_v2_id b3 (ch_network c) (ch_id c) authorization"

definition result_digest :: "blake3 \<Rightarrow> paid_channel \<Rightarrow> paid_job_result \<Rightarrow> bytes32" where
  "result_digest b3 c r = bound_result_digest b3 (ch_network c) (ch_id c) r"

definition payment_binding_digest :: "blake3 \<Rightarrow> paid_channel \<Rightarrow> payment_binding \<Rightarrow> bytes32" where
  "payment_binding_digest b3 c binding =
    xh b3 PAYMENT_BINDING [encode_network_id (ch_network c), to_be_bytes (ch_id c), encode_binding binding]"

definition delivery_request_digest :: "blake3 \<Rightarrow> paid_channel \<Rightarrow> bytes32 \<Rightarrow> bytes32 \<Rightarrow> bytes32" where
  "delivery_request_digest b3 c work exporter = bound_delivery_request_digest b3 (ch_network c) (ch_id c) work exporter"

text \<open>A digest and the payload hash it is signed as are the same 32 bytes.\<close>

definition signing_hash :: "bytes32 \<Rightarrow> payload_hash" where "signing_hash digest = digest"

section \<open>The checks\<close>

definition check_authorization_core ::
  "blake3 \<Rightarrow> paid_channel \<Rightarrow> paid_job_authorization \<Rightarrow> bytes32 \<Rightarrow> job_payment_policy \<Rightarrow> u64
    \<Rightarrow> (bytes32, paid_work_error) result" where
  "check_authorization_core b3 c a policy_digest payment finalized_height =
    and_then (payment_policy_check payment) (\<lambda>_.
    let terms = ch_payment_terms c in
    and_then (check_fields Mismatch
      [(''channel_id'', pj_channel_id a = ch_id c),
       (''work_policy_digest'', pj_work_policy_digest a = policy_digest),
       (''payment_policy_digest'',
          pj_payment_policy_digest a = job_payment_policy_digest b3 (ch_network c) (ch_id c) payment)]) (\<lambda>_.
    let max_job_price = wsb_max_job_price (wp_bond_terms terms) in
    if pj_price a = 0 \<or> max_job_price < pj_price a then Err (PriceOutOfRange (pj_price a) max_job_price)
    else if pj_price a \<noteq> jp_fixed_price payment then Err (Mismatch ''price'')
    else let credit = ch_policy c in
      if cp_compute_credit_limit credit < pj_price a
      then Err (OverEnvelope ''price against compute_credit_limit'' (pj_price a) (cp_compute_credit_limit credit))
      else if cp_delivery_credit_limit credit < pj_price a
      then Err (OverEnvelope ''price against delivery_credit_limit'' (pj_price a) (cp_delivery_credit_limit credit))
      else if pj_acceptance_deadline a < finalized_height
      then Err (AcceptanceExpired finalized_height (pj_acceptance_deadline a))
      else let horizon = wp_admission_horizon terms in
        if \<not> (pj_acceptance_deadline a < pj_terminal_deadline a
              \<and> pj_terminal_deadline a < pj_payment_deadline a \<and> pj_payment_deadline a < horizon)
        then Err (DeadlineOrder (pj_acceptance_deadline a) (pj_terminal_deadline a) (pj_payment_deadline a) horizon)
        else Ok (work_id b3 c a)))"

definition check_payment_policy_binding ::
  "blake3 \<Rightarrow> paid_channel \<Rightarrow> paid_job_authorization \<Rightarrow> job_payment_policy \<Rightarrow> (unit, paid_work_error) result" where
  "check_payment_policy_binding b3 c a payment =
    and_then (payment_policy_check payment) (\<lambda>_.
    if pj_payment_policy_digest a \<noteq> job_payment_policy_digest b3 (ch_network c) (ch_id c) payment
    then Err (Mismatch ''payment_policy_digest'')
    else if pj_price a \<noteq> jp_fixed_price payment then Err (Mismatch ''price'') else Ok ())"

definition check_work_result ::
  "blake3 \<Rightarrow> paid_channel \<Rightarrow> bytes32 \<Rightarrow> paid_job_result \<Rightarrow> (bytes32, paid_work_error) result" where
  "check_work_result b3 c work r =
    (if jr_work_id r \<noteq> work then Err (Mismatch ''work_id'') else Ok (result_digest b3 c r))"

section \<open>The next payment and the credit ledger\<close>

definition next_payment ::
  "blake3 \<Rightarrow> paid_channel \<Rightarrow> paid_job_authorization \<Rightarrow> paid_job_result \<Rightarrow> u64 \<Rightarrow> settlement
    \<Rightarrow> (earned_certificate \<times> payment_binding, paid_work_error) result" where
  "next_payment b3 c a r credited st =
    (if jr_outcome r \<noteq> Finished then Err (Mismatch ''failed result is not payable'')
     else let work = work_id b3 c a in
       and_then (check_work_result b3 c work r) (\<lambda>digest.
       and_then (ok_or (Overflow ''earned cumulative'') (checked_add credited (pj_price a))) (\<lambda>cumulative.
       if st_capacity st < cumulative then Err (OverCapacity cumulative (st_capacity st))
       else let certificate = \<lparr>ec_payment_edge = ch_payment_edge c,
                  ec_payment_terms_hash = ch_payment_terms_hash c, ec_earned_cumulative = cumulative\<rparr>
         in Ok (certificate, \<lparr>pb_work_id = work, pb_result_digest = digest,
              pb_certificate_digest = certificate_digest b3 (ch_network c) certificate\<rparr>))))"

record credit_ledger =
  credited_cumulative :: u64

definition credit_ledger_new :: credit_ledger where
  "credit_ledger_new = \<lparr>credited_cumulative = 0\<rparr>"

definition from_credited_cumulative :: "u64 \<Rightarrow> credit_ledger" where
  "from_credited_cumulative v = \<lparr>credited_cumulative = v\<rparr>"

definition credit_payment ::
  "blake3 \<Rightarrow> credit_ledger \<Rightarrow> paid_channel \<Rightarrow> paid_job_authorization \<Rightarrow> paid_job_result \<Rightarrow> payment_binding
    \<Rightarrow> earned_certificate \<Rightarrow> settlement \<Rightarrow> (credit_ledger, paid_work_error) result" where
  "credit_payment b3 lg c a r binding certificate st =
    and_then (next_payment b3 c a r (credited_cumulative lg) st) (\<lambda>(expected_certificate, expected_binding).
    and_then (check_fields Mismatch
      [(''certificate payment_edge'', ec_payment_edge certificate = ec_payment_edge expected_certificate),
       (''certificate payment_terms_hash'',
          ec_payment_terms_hash certificate = ec_payment_terms_hash expected_certificate),
       (''certificate earned_cumulative'',
          ec_earned_cumulative certificate = ec_earned_cumulative expected_certificate),
       (''binding work_id'', pb_work_id binding = pb_work_id expected_binding),
       (''binding result_digest'', pb_result_digest binding = pb_result_digest expected_binding),
       (''binding certificate_digest'', pb_certificate_digest binding = pb_certificate_digest expected_binding)]) (\<lambda>_.
    Ok (lg\<lparr>credited_cumulative := ec_earned_cumulative expected_certificate\<rparr>)))"

section \<open>The record interface\<close>

lemma check_fields_Ok [result_elims]: "check_fields err fs = Ok u \<longleftrightarrow> (\<forall>(f, b) \<in> set fs. b)"
  by (induction err fs rule: check_fields.induct) auto

lemma reader_word:
  assumes "8 dvd LENGTH('a::len)" "n = LENGTH('a) div 8"
  shows "and_then (reader_take n (to_be_bytes (v :: 'a word) @ rest)) (\<lambda>(head, rest). Ok (from_be_bytes head :: 'a word, rest))
    = Ok (v, rest)"
  using assms by (simp add: reader_take_def length_to_be_bytes from_be_bytes_to_be)

lemma reader_word_canonical:
  assumes "and_then (reader_take n bs) (\<lambda>(head, rest). Ok (from_be_bytes head :: 'a::len word, rest)) = Ok (v, rest)"
    and "8 dvd LENGTH('a::len)" "n = LENGTH('a) div 8"
  shows "bs = to_be_bytes v @ rest"
proof -
  from assms(1) have "n \<le> length bs" and v: "v = from_be_bytes (take n bs)" "rest = drop n bs"
    by (auto simp: reader_take_def and_then_eq_Ok split: if_splits)
  then have "to_be_bytes v = take n bs" using to_be_bytes_from_be [of "take n bs", where 'a = 'a] assms(2,3) by simp
  with v show ?thesis by simp
qed

lemma reader_bytes32_put [codec_simps]: "reader_bytes32 (to_be_bytes v @ rest) = Ok (v, rest)"
  unfolding reader_bytes32_def by (rule reader_word) simp_all

lemma reader_u64_put [codec_simps]: "reader_u64 (to_be_bytes v @ rest) = Ok (v, rest)"
  unfolding reader_u64_def by (rule reader_word) simp_all

lemma reader_bytes32_canonical [codec_dests]: "reader_bytes32 bs = Ok (v, rest) \<Longrightarrow> bs = to_be_bytes v @ rest"
  unfolding reader_bytes32_def by (erule reader_word_canonical) simp_all

lemma reader_u64_canonical [codec_dests]: "reader_u64 bs = Ok (v, rest) \<Longrightarrow> bs = to_be_bytes v @ rest"
  unfolding reader_u64_def by (erule reader_word_canonical) simp_all

lemma reader_take_1 [codec_dests]: "reader_take (Suc 0) bs = Ok (head, rest) \<Longrightarrow> bs = head ! 0 # rest"
  by (cases bs) (auto simp: reader_take_def split: if_splits)

lemma retention_byte [codec_simps]:
  "decode_retention ((case r of Ephemeral \<Rightarrow> 0 | Retain \<Rightarrow> 1) # rest) = Ok (r, rest)"
  by (cases r) (simp_all add: decode_retention_def reader_take_def)

lemma retention_byte_canonical [codec_dests]:
  "decode_retention bs = Ok (r, rest) \<Longrightarrow> bs = (case r of Ephemeral \<Rightarrow> 0 | Retain \<Rightarrow> 1) # rest"
  by (auto simp: decode_retention_def and_then_eq_Ok split: if_splits dest!: reader_take_1)

lemma outcome_byte [codec_simps]:
  "decode_outcome_byte ((case r of Finished \<Rightarrow> 0 | OutcomeFailed \<Rightarrow> 1) # rest) = Ok (r, rest)"
  by (cases r) (simp_all add: decode_outcome_byte_def reader_take_def)

lemma outcome_byte_canonical [codec_dests]:
  "decode_outcome_byte bs = Ok (r, rest) \<Longrightarrow> bs = (case r of Finished \<Rightarrow> 0 | OutcomeFailed \<Rightarrow> 1) # rest"
  by (auto simp: decode_outcome_byte_def and_then_eq_Ok split: if_splits dest!: reader_take_1)

locale private_record =
  fixes t :: byte
    and body_size :: nat
    and encode_body :: "'a \<Rightarrow> bytes"
    and decode_body :: "'a body_reader"
  assumes body_length: "length (encode_body x) = body_size"
    and body_round_trip: "decode_body (encode_body x @ rest) = Ok (x, rest)"
    and body_canonical: "decode_body bs = Ok (x, rest) \<Longrightarrow> bs = encode_body x @ rest"
begin

lemma encode_length: "length (record_encode t encode_body x) = RECORD_ENVELOPE_SIZE + body_size"
  by (simp add: record_encode_def body_length RECORD_ENVELOPE_SIZE_def)

text \<open>The decoder accepts exactly the encodings, so a record has one spelling.\<close>

lemma decode_iff: "record_decode t body_size decode_body bs = Ok x \<longleftrightarrow> bs = record_encode t encode_body x"
proof
  assume d: "record_decode t body_size decode_body bs = Ok x"
  then have "length bs = RECORD_ENVELOPE_SIZE + body_size" by (auto simp: record_decode_def Let_def split: if_splits)
  then obtain v u body where bs: "bs = v # u # body"
    by (cases bs; cases "tl bs") (auto simp: RECORD_ENVELOPE_SIZE_def)
  with d show "bs = record_encode t encode_body x"
    by (auto simp: record_decode_def record_encode_def RECORD_ENVELOPE_SIZE_def Let_def numeral_2_eq_2 and_then_eq_Ok
        split: if_splits dest!: body_canonical)
next
  assume "bs = record_encode t encode_body x"
  with body_length [of x] body_round_trip [of x "[]"] show "record_decode t body_size decode_body bs = Ok x"
    by (simp add: record_decode_def record_encode_def RECORD_ENVELOPE_SIZE_def Let_def numeral_2_eq_2)
qed

lemma round_trip: "record_decode t body_size decode_body (record_encode t encode_body x) = Ok x"
  by (simp add: decode_iff)

lemma encode_inject: "record_encode t encode_body x = record_encode t encode_body y \<longleftrightarrow> x = y"
  by (metis decode_iff result.inject(1))

lemma other_tag:
  assumes "t' \<noteq> t" "length body = body_size"
  shows "record_decode t body_size decode_body (RECORD_FORMAT_VERSION # t' # body) = Err (WrongRecordTag t t')"
  using assms by (simp add: record_decode_def RECORD_ENVELOPE_SIZE_def Let_def numeral_2_eq_2)

end

lemmas record_body_simps = put_u64_def encode_reference_def codec_simps length_to_be_bytes

interpretation policy_record: private_record tag_PAID_CHANNEL_POLICY POLICY_BODY_SIZE encode_policy_body decode_policy_body
proof
  fix x and bs rest :: bytes
  show "length (encode_policy_body x) = POLICY_BODY_SIZE"
    by (simp add: encode_policy_body_def POLICY_BODY_SIZE_def record_body_simps)
  show "decode_policy_body (encode_policy_body x @ rest) = Ok (x, rest)"
    by (simp add: encode_policy_body_def decode_policy_body_def record_body_simps)
  show "bs = encode_policy_body x @ rest" if "decode_policy_body bs = Ok (x, rest)"
    using that by (auto simp: encode_policy_body_def decode_policy_body_def record_body_simps and_then_eq_Ok dest!: codec_dests)
qed

interpretation authorization_record: private_record tag_PAID_JOB_AUTHORIZATION_V2 AUTHORIZATION_BODY_SIZE encode_authorization_body decode_authorization_body
proof
  fix x and bs rest :: bytes
  show "length (encode_authorization_body x) = AUTHORIZATION_BODY_SIZE"
    by (simp add: encode_authorization_body_def AUTHORIZATION_BODY_SIZE_def record_body_simps)
  show "decode_authorization_body (encode_authorization_body x @ rest) = Ok (x, rest)"
    by (simp add: encode_authorization_body_def decode_authorization_body_def record_body_simps)
  show "bs = encode_authorization_body x @ rest" if "decode_authorization_body bs = Ok (x, rest)"
    using that by (auto simp: encode_authorization_body_def decode_authorization_body_def record_body_simps and_then_eq_Ok dest!: codec_dests)
qed

interpretation result_record: private_record tag_PAID_JOB_RESULT RESULT_BODY_SIZE encode_result_body decode_result_body
proof
  fix x and bs rest :: bytes
  show "length (encode_result_body x) = RESULT_BODY_SIZE"
    by (simp add: encode_result_body_def RESULT_BODY_SIZE_def record_body_simps)
  show "decode_result_body (encode_result_body x @ rest) = Ok (x, rest)"
    by (simp add: encode_result_body_def decode_result_body_def record_body_simps)
  show "bs = encode_result_body x @ rest" if "decode_result_body bs = Ok (x, rest)"
    using that by (auto simp: encode_result_body_def decode_result_body_def record_body_simps and_then_eq_Ok dest!: codec_dests)
qed

interpretation binding_record: private_record tag_PAYMENT_BINDING BINDING_BODY_SIZE encode_binding_body decode_binding_body
proof
  fix x and bs rest :: bytes
  show "length (encode_binding_body x) = BINDING_BODY_SIZE"
    by (simp add: encode_binding_body_def BINDING_BODY_SIZE_def record_body_simps)
  show "decode_binding_body (encode_binding_body x @ rest) = Ok (x, rest)"
    by (simp add: encode_binding_body_def decode_binding_body_def record_body_simps)
  show "bs = encode_binding_body x @ rest" if "decode_binding_body bs = Ok (x, rest)"
    using that by (auto simp: encode_binding_body_def decode_binding_body_def record_body_simps and_then_eq_Ok dest!: codec_dests)
qed

interpretation payment_policy_record: private_record tag_JOB_PAYMENT_POLICY_V2 PAYMENT_POLICY_BODY_SIZE encode_payment_policy_body decode_payment_policy_body
proof
  fix x and bs rest :: bytes
  show "length (encode_payment_policy_body x) = PAYMENT_POLICY_BODY_SIZE"
    by (simp add: encode_payment_policy_body_def PAYMENT_POLICY_BODY_SIZE_def record_body_simps)
  show "decode_payment_policy_body (encode_payment_policy_body x @ rest) = Ok (x, rest)"
    by (simp add: encode_payment_policy_body_def decode_payment_policy_body_def record_body_simps)
  show "bs = encode_payment_policy_body x @ rest" if "decode_payment_policy_body bs = Ok (x, rest)"
    using that by (auto simp: encode_payment_policy_body_def decode_payment_policy_body_def record_body_simps and_then_eq_Ok dest!: codec_dests)
qed

section \<open>The digests stay inside one chunk\<close>

lemma encoded_record_lengths [codec_lengths]:
  "length (encode_channel_policy p) = RECORD_ENVELOPE_SIZE + POLICY_BODY_SIZE"
  "length (encode_authorization a) = RECORD_ENVELOPE_SIZE + AUTHORIZATION_BODY_SIZE"
  "length (encode_result r) = RECORD_ENVELOPE_SIZE + RESULT_BODY_SIZE"
  "length (encode_binding b) = RECORD_ENVELOPE_SIZE + BINDING_BODY_SIZE"
  "length (encode_payment_policy q) = RECORD_ENVELOPE_SIZE + PAYMENT_POLICY_BODY_SIZE"
  by (simp_all add: encode_channel_policy_def encode_authorization_def encode_result_def encode_binding_def
      encode_payment_policy_def policy_record.encode_length authorization_record.encode_length
      result_record.encode_length binding_record.encode_length payment_policy_record.encode_length)

lemmas record_decode_iffs [codec_simps] =
  policy_record.decode_iff [folded decode_channel_policy_def encode_channel_policy_def]
  authorization_record.decode_iff [folded decode_authorization_def encode_authorization_def]
  result_record.decode_iff [folded decode_result_def encode_result_def]
  binding_record.decode_iff [folded decode_binding_def encode_binding_def]
  payment_policy_record.decode_iff [folded decode_payment_policy_def encode_payment_policy_def]

text \<open>The assertion of the incremental hasher never fires on a preimage the compile-time bound covers, and the
  digest is then the commitment to the whole preimage.\<close>

lemma xh_streamed:
  assumes "length domain + (\<Sum>f\<leftarrow>parts. length f) < MIN_CHUNK_SIZE"
  shows "map_option (sch_finalize b3) (sch_updates sch_new (domain # parts)) = Some (xh b3 domain parts)"
  using sch_updates_commit [of "domain # parts"] assms by (simp add: xh_def xh_preimage_def length_concat)

section \<open>What a payment says\<close>

lemma next_payment_Ok:
  assumes "next_payment b3 c a r credited st = Ok (certificate, binding)"
  shows "jr_outcome r = Finished" "jr_work_id r = work_id b3 c a"
    "unat (ec_earned_cumulative certificate) = unat credited + unat (pj_price a)"
    "ec_earned_cumulative certificate \<le> st_capacity st"
    "ec_payment_edge certificate = ch_payment_edge c" "ec_payment_terms_hash certificate = ch_payment_terms_hash c"
    "binding = \<lparr>pb_work_id = work_id b3 c a, pb_result_digest = result_digest b3 c r,
       pb_certificate_digest = certificate_digest b3 (ch_network c) certificate\<rparr>"
  using assms
  by (auto simp: next_payment_def check_work_result_def Let_def and_then_eq_Ok ok_or_eq_Ok split: if_splits
      dest!: checked_add_Some)

lemma credit_payment_Ok:
  assumes "credit_payment b3 lg c a r binding certificate st = Ok lg'"
  shows "next_payment b3 c a r (credited_cumulative lg) st = Ok (certificate, binding)"
    and "lg' = from_credited_cumulative (ec_earned_cumulative certificate)"
proof -
  from assms obtain ec eb where n: "next_payment b3 c a r (credited_cumulative lg) st = Ok (ec, eb)"
    and f: "ec_payment_edge certificate = ec_payment_edge ec" "ec_payment_terms_hash certificate = ec_payment_terms_hash ec"
      "ec_earned_cumulative certificate = ec_earned_cumulative ec" "pb_work_id binding = pb_work_id eb"
      "pb_result_digest binding = pb_result_digest eb" "pb_certificate_digest binding = pb_certificate_digest eb"
    and l: "lg' = lg\<lparr>credited_cumulative := ec_earned_cumulative ec\<rparr>"
    by (auto simp: credit_payment_def and_then_eq_Ok check_fields_Ok split: if_splits)
  have e: "certificate = ec" "binding = eb"
    using f by (auto intro: earned_certificate.equality payment_binding.equality)
  show "next_payment b3 c a r (credited_cumulative lg) st = Ok (certificate, binding)" using n e by simp
  show "lg' = from_credited_cumulative (ec_earned_cumulative certificate)"
    using l e by (simp add: from_credited_cumulative_def)
qed

text \<open>The client builds with \<open>next_payment\<close> exactly what the provider's ledger credits.\<close>

lemma credit_next_payment:
  assumes "next_payment b3 c a r (credited_cumulative lg) st = Ok (certificate, binding)"
  shows "credit_payment b3 lg c a r binding certificate st
    = Ok (from_credited_cumulative (ec_earned_cumulative certificate))"
  using assms by (simp add: credit_payment_def from_credited_cumulative_def)

end
