(* ===== verification/Channel_Book.thy ===== *)
theory Channel_Book
  imports Channel_Records BTree_Map
begin

text \<open>The job book every channel journal keeps (src/crates/channel/src/work_store/channel/book.rs and the job types of
  src/crates/channel/src/work_store/channel.rs): the phases of a job, the open jobs, the retained terminals, the nonce
  high-water mark and the one unanswered proposal. The book is generic in the funding model, as \<^verbatim>\<open>JobBook<F>\<close> is: the
  trait's items the book reads are the record \<open>job_funding\<close>. An operation returns whether it changed the book and the new
  book; a refused operation leaves the book as it was, since every mutation of the source follows its last check.\<close>

section \<open>Types\<close>

text \<open>A diagnostic clock reading: the value and its unit.\<close>

type_synonym clock_reading = "u64 \<times> string"

datatype channel_state_error =
    Ch_Record paid_work_error
  | Ch_BadSignature string string  \<comment> \<open>slot, party\<close>
  | Ch_WrongPhase string string  \<comment> \<open>step, phase\<close>
  | Ch_WrongRole string string  \<comment> \<open>step, expected\<close>
  | Ch_WrongChannel string
  | Ch_Terminated string string  \<comment> \<open>step, outcome\<close>
  | Ch_OverCredit string u64 u64 u64 u64  \<comment> \<open>ledger, used, reserved, price, limit\<close>
  | Ch_Indeterminate
  | Ch_AcceptanceLate clock_reading clock_reading  \<comment> \<open>now, deadline\<close>
  | Ch_DispatchLate clock_reading clock_reading  \<comment> \<open>now, deadline\<close>
  | Ch_ReceiptLate u64 u64  \<comment> \<open>height, deadline\<close>
  | Ch_PaymentLate u64 u64  \<comment> \<open>height, deadline\<close>
  | Ch_CursorNotNext u64 u64  \<comment> \<open>held, actual\<close>
  | Ch_CursorNotContiguous u64
  | Ch_Closing string
  | Ch_Conflict string
  | Ch_Malformed

datatype role = Client | Provider

datatype applied = Changed | Redundant

datatype job_phase = HalfSigned | Accepted | Running | Streaming | Ready | Verified | Delivered

fun phase_name :: "job_phase \<Rightarrow> string" where
  "phase_name HalfSigned = ''half-signed''"
| "phase_name Accepted = ''accepted''"
| "phase_name Running = ''running''"
| "phase_name Streaming = ''streaming''"
| "phase_name Ready = ''ready''"
| "phase_name Verified = ''verified''"
| "phase_name Delivered = ''delivered''"

definition phase_delivered :: "job_phase \<Rightarrow> bool" where
  "phase_delivered p = (case p of Delivered \<Rightarrow> True | Streaming \<Rightarrow> True | _ \<Rightarrow> False)"

fun phase_code :: "job_phase \<Rightarrow> byte" where
  "phase_code HalfSigned = 0"
| "phase_code Accepted = 1"
| "phase_code Running = 2"
| "phase_code Ready = 3"
| "phase_code Verified = 4"
| "phase_code Delivered = 5"
| "phase_code Streaming = 6"

definition phase_from_code :: "byte \<Rightarrow> (job_phase, channel_state_error) result" where
  "phase_from_code code =
    (if code = 0 then Ok HalfSigned else if code = 1 then Ok Accepted else if code = 2 then Ok Running
     else if code = 3 then Ok Ready else if code = 4 then Ok Verified else if code = 5 then Ok Delivered
     else if code = 6 then Ok Streaming else Err Ch_Malformed)"

definition phase_only_role :: "job_phase \<Rightarrow> role option" where
  "phase_only_role p = (case p of Running \<Rightarrow> Some Provider | Streaming \<Rightarrow> Some Provider | Delivered \<Rightarrow> Some Provider
    | Verified \<Rightarrow> Some Client | _ \<Rightarrow> None)"

definition phase_has_result :: "job_phase \<Rightarrow> bool" where
  "phase_has_result p = (case p of Ready \<Rightarrow> True | Verified \<Rightarrow> True | Delivered \<Rightarrow> True | _ \<Rightarrow> False)"

record ('a, 's, 'r) job_state =
  js_authorization :: 'a
  js_work_id :: bytes32
  js_prepared_input :: bytes
  js_client_signature :: 's
  js_provider_signature :: "'s option"
  js_phase :: job_phase
  js_result :: "('r \<times> 's) option"
  js_transcript :: bytes

record 't job_terminal =
  jt_work_id :: bytes32
  jt_phase :: job_phase
  jt_outcome :: 't

record ('a, 's, 'r, 't) job_book =
  jb_pending_proposal :: "bytes32 option"
  jb_jobs :: "(bytes32, ('a, 's, 'r) job_state) btree_map"
  jb_terminals :: "(bytes32, 't job_terminal) btree_map"
  jb_proposal_nonce_high_water :: u64
  jb_indeterminate :: "bytes32 btree_set"

text \<open>What the book reads of its funding model: the lifecycle fields of an authorization, the unit of its clock, and
  the name of a terminal outcome.\<close>

record ('a, 't) job_funding =
  fd_proposal_nonce :: "'a \<Rightarrow> u64"
  fd_acceptance_deadline :: "'a \<Rightarrow> u64"
  fd_terminal_deadline :: "'a \<Rightarrow> u64"
  fd_unit :: string
  fd_outcome_name :: "'t \<Rightarrow> string"

section \<open>Operations\<close>

definition job_book_default :: "('a, 's, 'r, 't) job_book" where
  "job_book_default = \<lparr>jb_pending_proposal = None, jb_jobs = bt_empty, jb_terminals = bt_empty,
    jb_proposal_nonce_high_water = 0, jb_indeterminate = bt_empty\<rparr>"

definition job_by_id :: "('a, 's, 'r, 't) job_book \<Rightarrow> bytes32 \<Rightarrow> ('a, 's, 'r) job_state option" where
  "job_by_id b i = bt_get (jb_jobs b) i"

definition terminal_by_id :: "('a, 's, 'r, 't) job_book \<Rightarrow> bytes32 \<Rightarrow> 't job_terminal option" where
  "terminal_by_id b i = bt_get (jb_terminals b) i"

definition is_indeterminate_job :: "('a, 's, 'r, 't) job_book \<Rightarrow> bytes32 \<Rightarrow> bool" where
  "is_indeterminate_job b i \<longleftrightarrow> bt_get (jb_indeterminate b) i \<noteq> None"

definition refuse_if_terminated ::
  "('a, 't) job_funding \<Rightarrow> ('a, 's, 'r, 't) job_book \<Rightarrow> bytes32 \<Rightarrow> string \<Rightarrow> (unit, channel_state_error) result" where
  "refuse_if_terminated fd b i step =
    (case terminal_by_id b i of
       Some t \<Rightarrow> Err (Ch_Terminated step (fd_outcome_name fd (jt_outcome t)))
     | None \<Rightarrow> Ok ())"

definition open_job ::
  "('a, 't) job_funding \<Rightarrow> ('a, 's, 'r, 't) job_book \<Rightarrow> bytes32 \<Rightarrow> string
    \<Rightarrow> (('a, 's, 'r) job_state, channel_state_error) result" where
  "open_job fd b i step =
    (case job_by_id b i of
       Some job \<Rightarrow> Ok job
     | None \<Rightarrow> and_then (refuse_if_terminated fd b i step) (\<lambda>_. Err (Ch_WrongPhase step ''none'')))"

text \<open>\<^verbatim>\<open>open_job_mut\<close> answers as \<^verbatim>\<open>open_job\<close> does and hands out the entry to update, which the model writes back with
  \<open>put_job\<close>.\<close>

definition open_job_mut ::
  "('a, 't) job_funding \<Rightarrow> ('a, 's, 'r, 't) job_book \<Rightarrow> bytes32 \<Rightarrow> string
    \<Rightarrow> (('a, 's, 'r) job_state, channel_state_error) result" where
  "open_job_mut fd b i step =
    (case job_by_id b i of
       Some job \<Rightarrow> Ok job
     | None \<Rightarrow> (case terminal_by_id b i of
           Some t \<Rightarrow> Err (Ch_Terminated step (fd_outcome_name fd (jt_outcome t)))
         | None \<Rightarrow> Err (Ch_WrongPhase step ''none'')))"

definition put_job ::
  "bytes32 \<Rightarrow> ('a, 's, 'r) job_state \<Rightarrow> ('a, 's, 'r, 't) job_book \<Rightarrow> ('a, 's, 'r, 't) job_book" where
  "put_job i job b = b\<lparr>jb_jobs := bt_insert i job (jb_jobs b)\<rparr>"

type_synonym 'b step_result = "(applied \<times> 'b, channel_state_error) result"

definition proposal_exchange ::
  "('a, 't) job_funding \<Rightarrow> ('a, 's, 'r, 't) job_book \<Rightarrow> bytes32 \<Rightarrow> bool \<Rightarrow> ('a, 's, 'r, 't) job_book step_result" where
  "proposal_exchange fd b i pending =
    and_then (open_job fd b i ''recording proposal exchange'') (\<lambda>job.
    if js_phase job \<noteq> HalfSigned
    then Err (Ch_WrongPhase ''recording proposal exchange'' (phase_name (js_phase job)))
    else if \<exists>held. jb_pending_proposal b = Some held \<and> held \<noteq> i then Err (Ch_Conflict ''unanswered proposal'')
    else let n = (if pending then Some i else None) in
      if jb_pending_proposal b = n then Ok (Redundant, b)
      else Ok (Changed, b\<lparr>jb_pending_proposal := n\<rparr>))"

definition revalidate_exchange ::
  "('a, 't) job_funding \<Rightarrow> ('a, 's, 'r, 't) job_book \<Rightarrow> role \<Rightarrow> (unit, channel_state_error) result" where
  "revalidate_exchange fd b r =
    (case jb_pending_proposal b of
       None \<Rightarrow> Ok ()
     | Some i \<Rightarrow>
         if r \<noteq> Client then Err (Ch_WrongRole ''pending proposal'' ''client'')
         else and_then (open_job fd b i ''replaying pending proposal'') (\<lambda>job.
           if js_phase job \<noteq> HalfSigned
           then Err (Ch_WrongPhase ''replaying pending proposal'' (phase_name (js_phase job)))
           else Ok ()))"

definition book_propose ::
  "('a, 't) job_funding \<Rightarrow> ('a, 's, 'r, 't) job_book \<Rightarrow> ('a, 's, 'r) job_state \<Rightarrow> role \<Rightarrow> ('a, 's, 'r, 't) job_book step_result" where
  "book_propose fd b job r =
    (case job_by_id b (js_work_id job) of
       Some held \<Rightarrow> if held = job then Ok (Redundant, b) else Err (Ch_Conflict ''job proposal'')
     | None \<Rightarrow>
         and_then (refuse_if_terminated fd b (js_work_id job) ''proposing a job'') (\<lambda>_.
         let nonce = fd_proposal_nonce fd (js_authorization job) in
         if nonce \<le> jb_proposal_nonce_high_water b then Err (Ch_WrongChannel ''proposal_nonce'')
         else if r = Client \<and> jb_pending_proposal b \<noteq> None then Err (Ch_Conflict ''unanswered proposal'')
         else let b = (if r = Client then b\<lparr>jb_pending_proposal := Some (js_work_id job)\<rparr> else b);
                  b = put_job (js_work_id job) job b
              in Ok (Changed, b\<lparr>jb_proposal_nonce_high_water := nonce\<rparr>)))"

definition book_accept ::
  "('a, 't) job_funding \<Rightarrow> ('a, 's, 'r, 't) job_book \<Rightarrow> bytes32 \<Rightarrow> 's \<Rightarrow> u64 \<Rightarrow> role \<Rightarrow> ('a, 's, 'r, 't) job_book step_result" where
  "book_accept fd b i signature now r =
    and_then (open_job_mut fd b i ''co-signing a job'') (\<lambda>job.
    if js_provider_signature job = Some signature then Ok (Redundant, b)
    else if js_phase job \<noteq> HalfSigned then Err (Ch_WrongPhase ''co-signing a job'' (phase_name (js_phase job)))
    else if r = Provider \<and> fd_acceptance_deadline fd (js_authorization job) < now
    then Err (Ch_AcceptanceLate (now, fd_unit fd) (fd_acceptance_deadline fd (js_authorization job), fd_unit fd))
    else let b = put_job i (job\<lparr>js_provider_signature := Some signature, js_phase := Accepted\<rparr>) b in
      Ok (Changed, if jb_pending_proposal b = Some i then b\<lparr>jb_pending_proposal := None\<rparr> else b))"

definition book_run ::
  "('a, 't) job_funding \<Rightarrow> ('a, 's, 'r, 't) job_book \<Rightarrow> bytes32 \<Rightarrow> u64 \<Rightarrow> ('a, 's, 'r, 't) job_book step_result" where
  "book_run fd b i now =
    and_then (open_job_mut fd b i ''a running marker'') (\<lambda>job.
    if js_phase job = Running \<or> js_phase job = Streaming then Ok (Redundant, b)
    else if js_phase job \<noteq> Accepted then Err (Ch_WrongPhase ''a running marker'' (phase_name (js_phase job)))
    else if fd_terminal_deadline fd (js_authorization job) < now
    then Err (Ch_DispatchLate (now, fd_unit fd) (fd_terminal_deadline fd (js_authorization job), fd_unit fd))
    else Ok (Changed, put_job i (job\<lparr>js_phase := Running\<rparr>) b))"

definition book_record_result ::
  "('a, 't) job_funding \<Rightarrow> ('a, 's, 'r, 't) job_book \<Rightarrow> bytes32 \<Rightarrow> 'r \<Rightarrow> 's \<Rightarrow> bytes \<Rightarrow> ('a, 's, 'r, 't) job_book step_result" where
  "book_record_result fd b i r signature transcript =
    (if is_indeterminate_job b i then Err Ch_Indeterminate
     else and_then (open_job_mut fd b i ''recording a result'') (\<lambda>job.
     if js_phase job \<notin> {Accepted, Running, Streaming}
     then Err (Ch_WrongPhase ''recording a result'' (phase_name (js_phase job)))
     else Ok (Changed, put_job i (job\<lparr>js_result := Some (r, signature), js_transcript := transcript,
       js_phase := if js_phase job = Streaming then Delivered else Ready\<rparr>) b)))"

definition mark_verified ::
  "('a, 't) job_funding \<Rightarrow> ('a, 's, 'r, 't) job_book \<Rightarrow> bytes32 \<Rightarrow> ('a, 's, 'r, 't) job_book step_result" where
  "mark_verified fd b i =
    and_then (open_job_mut fd b i ''recording a verified result'') (\<lambda>job.
    if js_phase job = Verified then Ok (Redundant, b)
    else if js_phase job \<noteq> Ready then Err (Ch_WrongPhase ''recording a verified result'' (phase_name (js_phase job)))
    else Ok (Changed, put_job i (job\<lparr>js_phase := Verified\<rparr>) b))"

definition book_release ::
  "('a, 't) job_funding \<Rightarrow> ('a, 's, 'r, 't) job_book \<Rightarrow> bytes32 \<Rightarrow> ('a, 's, 'r, 't) job_book step_result" where
  "book_release fd b i =
    and_then (open_job_mut fd b i ''releasing plaintext'') (\<lambda>job.
    if phase_delivered (js_phase job) then Ok (Redundant, b)
    else if js_phase job = Running then Ok (Changed, put_job i (job\<lparr>js_phase := Streaming\<rparr>) b)
    else if js_phase job = Ready then Ok (Changed, put_job i (job\<lparr>js_phase := Delivered\<rparr>) b)
    else Err (Ch_WrongPhase ''releasing plaintext'' (phase_name (js_phase job))))"

definition rest_at :: "'t job_terminal \<Rightarrow> ('a, 's, 'r, 't) job_book \<Rightarrow> ('a, 's, 'r, 't) job_book" where
  "rest_at terminal b =
    (let i = jt_work_id terminal;
         b = (if jb_pending_proposal b = Some i then b\<lparr>jb_pending_proposal := None\<rparr> else b)
     in b\<lparr>jb_jobs := bt_remove i (jb_jobs b), jb_indeterminate := bt_remove i (jb_indeterminate b),
          jb_terminals := bt_insert i terminal (jb_terminals b)\<rparr>)"

section \<open>The book's invariant\<close>

text \<open>What one entry of the book must look like: it sits under its own work id, both signatures and the result are
  there exactly when the phase says so, its nonce is below the high-water mark, and it has no terminal.\<close>

definition job_ok ::
  "('a, 't) job_funding \<Rightarrow> ('a, 's, 'r, 't) job_book \<Rightarrow> bytes32 \<Rightarrow> ('a, 's, 'r) job_state \<Rightarrow> bool" where
  "job_ok fd b i job \<longleftrightarrow> js_work_id job = i \<and> terminal_by_id b i = None
    \<and> fd_proposal_nonce fd (js_authorization job) \<le> jb_proposal_nonce_high_water b
    \<and> (js_provider_signature job \<noteq> None \<longleftrightarrow> js_phase job \<noteq> HalfSigned)
    \<and> (js_result job \<noteq> None \<longleftrightarrow> phase_has_result (js_phase job))"

definition book_ok :: "('a, 't) job_funding \<Rightarrow> ('a, 's, 'r, 't) job_book \<Rightarrow> bool" where
  "book_ok fd b \<longleftrightarrow> bt_wf (jb_jobs b) \<and> bt_wf (jb_terminals b) \<and> bt_wf (jb_indeterminate b)
    \<and> (\<forall>i job. job_by_id b i = Some job \<longrightarrow> job_ok fd b i job)
    \<and> (\<forall>i t. terminal_by_id b i = Some t \<longrightarrow> jt_work_id t = i)
    \<and> (\<forall>i. jb_pending_proposal b = Some i \<longrightarrow> (\<exists>job. job_by_id b i = Some job \<and> js_phase job = HalfSigned))
    \<and> (\<forall>i. is_indeterminate_job b i \<longrightarrow> (\<exists>job. job_by_id b i = Some job \<and> js_phase job \<in> {Running, Streaming}))"

text \<open>The parts of the invariant.\<close>

lemma book_okI:
  assumes "bt_wf (jb_jobs b)" "bt_wf (jb_terminals b)" "bt_wf (jb_indeterminate b)"
    and "\<And>i job. job_by_id b i = Some job \<Longrightarrow> job_ok fd b i job"
    and "\<And>i t. terminal_by_id b i = Some t \<Longrightarrow> jt_work_id t = i"
    and "\<And>i. jb_pending_proposal b = Some i \<Longrightarrow> \<exists>job. job_by_id b i = Some job \<and> js_phase job = HalfSigned"
    and "\<And>i. is_indeterminate_job b i \<Longrightarrow> \<exists>job. job_by_id b i = Some job \<and> js_phase job \<in> {Running, Streaming}"
  shows "book_ok fd b"
  using assms by (simp add: book_ok_def)

lemma book_okD:
  assumes "book_ok fd b"
  shows "bt_wf (jb_jobs b)" "bt_wf (jb_terminals b)" "bt_wf (jb_indeterminate b)"
    and "job_by_id b i = Some job \<Longrightarrow> job_ok fd b i job"
    and "terminal_by_id b i = Some t \<Longrightarrow> jt_work_id t = i"
    and "jb_pending_proposal b = Some i \<Longrightarrow> \<exists>job. job_by_id b i = Some job \<and> js_phase job = HalfSigned"
    and "is_indeterminate_job b i \<Longrightarrow> \<exists>job. job_by_id b i = Some job \<and> js_phase job \<in> {Running, Streaming}"
  using assms by (simp_all add: book_ok_def)

lemma book_ok_default: "book_ok fd job_book_default"
  by (simp add: book_ok_def job_book_default_def job_by_id_def terminal_by_id_def is_indeterminate_job_def)

lemma open_job_mut_eq: "open_job_mut fd b i step = open_job fd b i step"
  by (simp add: open_job_mut_def open_job_def refuse_if_terminated_def split: option.split)

lemma open_job_Ok [result_elims]: "open_job fd b i step = Ok job \<longleftrightarrow> job_by_id b i = Some job"
  by (auto simp: open_job_def and_then_eq_Ok split: option.splits)

lemma refuse_if_terminated_Ok [result_elims]:
  "refuse_if_terminated fd b i step = Ok u \<longleftrightarrow> terminal_by_id b i = None"
  by (auto simp: refuse_if_terminated_def split: option.splits)

lemma put_job_sel [simp]:
  "jb_terminals (put_job i job b) = jb_terminals b" "jb_pending_proposal (put_job i job b) = jb_pending_proposal b"
  "jb_proposal_nonce_high_water (put_job i job b) = jb_proposal_nonce_high_water b"
  "jb_indeterminate (put_job i job b) = jb_indeterminate b" "jb_jobs (put_job i job b) = bt_insert i job (jb_jobs b)"
  by (simp_all add: put_job_def)

lemma job_by_id_put: "bt_wf (jb_jobs b) \<Longrightarrow> job_by_id (put_job i job b) j = (if j = i then Some job else job_by_id b j)"
  by (simp add: job_by_id_def)

lemma terminal_by_id_put [simp]: "terminal_by_id (put_job i job b) = terminal_by_id b"
  by (simp add: terminal_by_id_def fun_eq_iff)

lemma indeterminate_put [simp]: "is_indeterminate_job (put_job i job b) = is_indeterminate_job b"
  by (simp add: is_indeterminate_job_def fun_eq_iff)

text \<open>Replacing an open job by one with the same identity keeps the invariant, as long as the new phase carries its
  evidence, a job named by the pending proposal stays half-signed and an indeterminate one keeps running.\<close>

lemma book_ok_put:
  assumes ok: "book_ok fd b" and held: "job_by_id b i = Some job"
    and same: "js_work_id job' = js_work_id job" "js_authorization job' = js_authorization job"
    and shape: "js_provider_signature job' \<noteq> None \<longleftrightarrow> js_phase job' \<noteq> HalfSigned"
      "js_result job' \<noteq> None \<longleftrightarrow> phase_has_result (js_phase job')"
    and pending: "jb_pending_proposal b = Some i \<Longrightarrow> js_phase job' = HalfSigned"
    and running: "is_indeterminate_job b i \<Longrightarrow> js_phase job' \<in> {Running, Streaming}"
  shows "book_ok fd (put_job i job' b)"
proof (rule book_okI)
  show "job_ok fd (put_job i job' b) j x" if "job_by_id (put_job i job' b) j = Some x" for j x
    using that book_okD(4) [OF ok held] book_okD(4) [OF ok, of j x] book_okD(1) [OF ok] same shape
    by (auto simp: job_ok_def job_by_id_put split: if_splits)
qed (use book_okD [OF ok] pending running in \<open>auto simp: job_by_id_put\<close>)

lemma proposal_exchange_ok:
  assumes "proposal_exchange fd b i pending = Ok (ap, b')" "book_ok fd b"
  shows "book_ok fd b'"
proof -
  have "book_ok fd (b\<lparr>jb_pending_proposal := n\<rparr>)"
    if "\<And>j. n = Some j \<Longrightarrow> \<exists>job. job_by_id b j = Some job \<and> js_phase job = HalfSigned" for n
    using that assms(2) by (auto simp: book_ok_def job_ok_def job_by_id_def terminal_by_id_def is_indeterminate_job_def)
  then show ?thesis using assms
    by (auto simp: proposal_exchange_def and_then_eq_Ok open_job_Ok Let_def split: if_splits)
qed

lemma book_propose_ok:
  assumes "book_propose fd b job r = Ok (ap, b')" "book_ok fd b"
    and "js_phase job = HalfSigned" "js_provider_signature job = None" "js_result job = None"
  shows "book_ok fd b'"
proof (cases "job_by_id b (js_work_id job)")
  case None
  from assms(1) None have t: "terminal_by_id b (js_work_id job) = None"
    and n: "jb_proposal_nonce_high_water b < fd_proposal_nonce fd (js_authorization job)"
    and b': "jb_jobs b' = bt_insert (js_work_id job) job (jb_jobs b)" "jb_terminals b' = jb_terminals b"
      "jb_indeterminate b' = jb_indeterminate b"
      "jb_proposal_nonce_high_water b' = fd_proposal_nonce fd (js_authorization job)"
      "jb_pending_proposal b' = jb_pending_proposal b \<or> jb_pending_proposal b' = Some (js_work_id job)"
    by (auto simp: book_propose_def and_then_eq_Ok refuse_if_terminated_Ok Let_def split: if_splits)
  have j: "job_by_id b' k = (if k = js_work_id job then Some job else job_by_id b k)" for k
    using book_okD(1) [OF assms(2)] by (simp add: job_by_id_def b')
  have tm: "terminal_by_id b' = terminal_by_id b" by (simp add: terminal_by_id_def fun_eq_iff b')
  show ?thesis
  proof (rule book_okI)
    show "job_ok fd b' k x" if "job_by_id b' k = Some x" for k x
      using that book_okD(4) [OF assms(2), of k x] n t assms(3-5)
      by (auto simp: job_ok_def j tm b'(4) phase_has_result_def split: if_splits)
    show "\<exists>x. job_by_id b' k = Some x \<and> js_phase x = HalfSigned" if "jb_pending_proposal b' = Some k" for k
      using that b'(5) book_okD(6) [OF assms(2), of k] assms(3) by (auto simp: j)
    show "\<exists>x. job_by_id b' k = Some x \<and> js_phase x \<in> {Running, Streaming}" if "is_indeterminate_job b' k" for k
      using that book_okD(7) [OF assms(2), of k] None by (auto simp: j is_indeterminate_job_def b')
  qed (use book_okD [OF assms(2)] in \<open>auto simp: b' tm\<close>)
qed (use assms in \<open>auto simp: book_propose_def split: if_splits\<close>)

lemma rest_at_sel [simp]:
  "jb_jobs (rest_at t b) = bt_remove (jt_work_id t) (jb_jobs b)"
  "jb_terminals (rest_at t b) = bt_insert (jt_work_id t) t (jb_terminals b)"
  "jb_indeterminate (rest_at t b) = bt_remove (jt_work_id t) (jb_indeterminate b)"
  "jb_proposal_nonce_high_water (rest_at t b) = jb_proposal_nonce_high_water b"
  "jb_pending_proposal (rest_at t b)
    = (if jb_pending_proposal b = Some (jt_work_id t) then None else jb_pending_proposal b)"
  by (simp_all add: rest_at_def Let_def)

lemma rest_at_lookup:
  assumes "book_ok fd b"
  shows "job_by_id (rest_at t b) i = (if i = jt_work_id t then None else job_by_id b i)"
    and "terminal_by_id (rest_at t b) i = (if i = jt_work_id t then Some t else terminal_by_id b i)"
  using book_okD(1,2) [OF assms] by (simp_all add: job_by_id_def terminal_by_id_def)

lemma rest_at_ok:
  assumes ok: "book_ok fd b"
  shows "book_ok fd (rest_at t b)"
proof (rule book_okI)
  show "job_ok fd (rest_at t b) i job" if "job_by_id (rest_at t b) i = Some job" for i job
    using that book_okD(4) [OF ok, of i job] by (auto simp: job_ok_def rest_at_lookup [OF ok] split: if_splits)
  show "jt_work_id u = i" if "terminal_by_id (rest_at t b) i = Some u" for i u
    using that book_okD(5) [OF ok, of i u] by (auto simp: rest_at_lookup [OF ok] split: if_splits)
  show "\<exists>job. job_by_id (rest_at t b) i = Some job \<and> js_phase job = HalfSigned"
    if "jb_pending_proposal (rest_at t b) = Some i" for i
    using that book_okD(6) [OF ok, of i] by (auto simp: rest_at_lookup [OF ok] split: if_splits)
  show "\<exists>job. job_by_id (rest_at t b) i = Some job \<and> js_phase job \<in> {Running, Streaming}"
    if "is_indeterminate_job (rest_at t b) i" for i
    using that book_okD(3,7) [OF ok] by (auto simp: is_indeterminate_job_def rest_at_lookup [OF ok])
qed (use book_okD(1-3) [OF ok] in simp_all)

lemma book_ok_clear: "book_ok fd b \<Longrightarrow> book_ok fd (b\<lparr>jb_pending_proposal := None\<rparr>)"
  by (simp add: book_ok_def job_ok_def job_by_id_def terminal_by_id_def is_indeterminate_job_def)

text \<open>What each step that succeeded did.\<close>

lemma book_accept_Ok:
  assumes "book_accept fd b i signature now r = Ok (ap, b')"
  obtains "ap = Redundant" "b' = b" "\<exists>job. job_by_id b i = Some job \<and> js_provider_signature job = Some signature"
  | job where "ap = Changed" "job_by_id b i = Some job" "js_phase job = HalfSigned"
      "r = Provider \<Longrightarrow> now \<le> fd_acceptance_deadline fd (js_authorization job)"
      "b' = put_job i (job\<lparr>js_provider_signature := Some signature, js_phase := Accepted\<rparr>)
        (if jb_pending_proposal b = Some i then b\<lparr>jb_pending_proposal := None\<rparr> else b)"
proof -
  from assms obtain job where j: "job_by_id b i = Some job" and
    s: "(if js_provider_signature job = Some signature then Ok (Redundant, b)
      else if js_phase job \<noteq> HalfSigned then Err (Ch_WrongPhase ''co-signing a job'' (phase_name (js_phase job)))
      else if r = Provider \<and> fd_acceptance_deadline fd (js_authorization job) < now
      then Err (Ch_AcceptanceLate (now, fd_unit fd) (fd_acceptance_deadline fd (js_authorization job), fd_unit fd))
      else let b = put_job i (job\<lparr>js_provider_signature := Some signature, js_phase := Accepted\<rparr>) b in
        Ok (Changed, if jb_pending_proposal b = Some i then b\<lparr>jb_pending_proposal := None\<rparr> else b)) = Ok (ap, b')"
    unfolding book_accept_def and_then_eq_Ok open_job_mut_eq open_job_Ok by blast
  show ?thesis
  proof (cases "js_provider_signature job = Some signature")
    case True with that(1) j s show ?thesis by simp
  next
    case False
    with s have "js_phase job = HalfSigned" "ap = Changed"
      "r = Provider \<Longrightarrow> now \<le> fd_acceptance_deadline fd (js_authorization job)"
      "b' = put_job i (job\<lparr>js_provider_signature := Some signature, js_phase := Accepted\<rparr>)
        (if jb_pending_proposal b = Some i then b\<lparr>jb_pending_proposal := None\<rparr> else b)"
      by (auto simp: Let_def put_job_def not_less split: if_splits)
    with that(2) j show ?thesis by blast
  qed
qed

lemma book_run_Ok:
  "book_run fd b i now = Ok (ap, b') \<longleftrightarrow> (\<exists>job. job_by_id b i = Some job
    \<and> (if js_phase job \<in> {Running, Streaming} then ap = Redundant \<and> b' = b
       else js_phase job = Accepted \<and> now \<le> fd_terminal_deadline fd (js_authorization job)
         \<and> ap = Changed \<and> b' = put_job i (job\<lparr>js_phase := Running\<rparr>) b))"
  unfolding book_run_def and_then_eq_Ok open_job_mut_eq open_job_Ok
  by (cases "job_by_id b i"; cases "js_phase (the (job_by_id b i))") (auto simp: not_less phase_delivered_def)

lemma book_record_result_Ok:
  "book_record_result fd b i r signature transcript = Ok (ap, b') \<longleftrightarrow> (\<exists>job. job_by_id b i = Some job
    \<and> \<not> is_indeterminate_job b i \<and> js_phase job \<in> {Accepted, Running, Streaming} \<and> ap = Changed
    \<and> b' = put_job i (job\<lparr>js_result := Some (r, signature), js_transcript := transcript,
       js_phase := if js_phase job = Streaming then Delivered else Ready\<rparr>) b)"
  unfolding book_record_result_def if_Err_eq_Ok and_then_eq_Ok open_job_mut_eq open_job_Ok
  by (cases "job_by_id b i"; cases "js_phase (the (job_by_id b i))") (auto simp: not_less phase_delivered_def)

lemma mark_verified_Ok:
  "mark_verified fd b i = Ok (ap, b') \<longleftrightarrow> (\<exists>job. job_by_id b i = Some job
    \<and> (if js_phase job = Verified then ap = Redundant \<and> b' = b
       else js_phase job = Ready \<and> ap = Changed \<and> b' = put_job i (job\<lparr>js_phase := Verified\<rparr>) b))"
  unfolding mark_verified_def and_then_eq_Ok open_job_mut_eq open_job_Ok
  by (cases "job_by_id b i"; cases "js_phase (the (job_by_id b i))") (auto simp: not_less phase_delivered_def)

lemma book_release_Ok:
  "book_release fd b i = Ok (ap, b') \<longleftrightarrow> (\<exists>job. job_by_id b i = Some job
    \<and> (if phase_delivered (js_phase job) then ap = Redundant \<and> b' = b
       else js_phase job \<in> {Running, Ready} \<and> ap = Changed
         \<and> b' = put_job i (job\<lparr>js_phase := if js_phase job = Running then Streaming else Delivered\<rparr>) b))"
  unfolding book_release_def and_then_eq_Ok open_job_mut_eq open_job_Ok
  by (cases "job_by_id b i"; cases "js_phase (the (job_by_id b i))") (auto simp: not_less phase_delivered_def)

lemma book_accept_ok:
  assumes "book_accept fd b i signature now r = Ok (ap, b')" "book_ok fd b"
  shows "book_ok fd b'"
  using assms(1)
proof (cases rule: book_accept_Ok)
  case (2 job)
  let ?b = "if jb_pending_proposal b = Some i then b\<lparr>jb_pending_proposal := None\<rparr> else b"
  have b: "book_ok fd ?b" using assms(2) book_ok_clear by auto
  have j: "job_by_id ?b i = Some job" using 2(2) by (simp add: job_by_id_def)
  have n: "\<not> is_indeterminate_job ?b i"
    using book_okD(7) [OF assms(2), of i] 2(2,3) by (auto simp: is_indeterminate_job_def)
  have "js_result job = None" using book_okD(4) [OF b j] 2(3) by (cases "js_result job") (auto simp: job_ok_def phase_has_result_def)
  with n show ?thesis unfolding 2(5)
    by (intro book_ok_put [OF b j]) (simp_all add: phase_has_result_def split: if_splits)
qed (use assms(2) in simp)

lemma not_pending:
  assumes "book_ok fd b" "job_by_id b i = Some job" "js_phase job \<noteq> HalfSigned"
  shows "jb_pending_proposal b \<noteq> Some i"
  using book_okD(6) [OF assms(1), of i] assms(2,3) by auto

lemma not_indeterminate:
  assumes "book_ok fd b" "job_by_id b i = Some job" "js_phase job \<notin> {Running, Streaming}"
  shows "\<not> is_indeterminate_job b i"
  using book_okD(7) [OF assms(1), of i] assms(2,3) by auto

text \<open>Every other step replaces one open job by its next phase.\<close>

lemma book_ok_advance:
  assumes ok: "book_ok fd b" and held: "job_by_id b i = Some job" "js_phase job \<noteq> HalfSigned"
    and same: "js_work_id job' = js_work_id job" "js_authorization job' = js_authorization job"
      "js_provider_signature job' = js_provider_signature job"
    and shape: "js_phase job' \<noteq> HalfSigned" "js_result job' \<noteq> None \<longleftrightarrow> phase_has_result (js_phase job')"
    and running: "is_indeterminate_job b i \<Longrightarrow> js_phase job' \<in> {Running, Streaming}"
  shows "book_ok fd (put_job i job' b)"
  using book_okD(4) [OF ok held(1)] not_pending [OF ok held] held(2) same shape running
  by (intro book_ok_put [OF ok held(1)]) (simp_all add: job_ok_def)

lemma book_ok_phase:
  assumes ok: "book_ok fd b" and held: "job_by_id b i = Some job"
    and "js_phase job \<noteq> HalfSigned" "p \<noteq> HalfSigned" "phase_has_result p = phase_has_result (js_phase job)"
    and "js_phase job \<in> {Running, Streaming} \<Longrightarrow> p \<in> {Running, Streaming}"
  shows "book_ok fd (put_job i (job\<lparr>js_phase := p\<rparr>) b)"
proof (rule book_ok_advance [OF ok held assms(3)])
  show "js_result (job\<lparr>js_phase := p\<rparr>) \<noteq> None \<longleftrightarrow> phase_has_result (js_phase (job\<lparr>js_phase := p\<rparr>))"
    using book_okD(4) [OF ok held] assms(5) by (simp add: job_ok_def)
  show "js_phase (job\<lparr>js_phase := p\<rparr>) \<in> {Running, Streaming}" if "is_indeterminate_job b i"
    using not_indeterminate [OF ok held] that assms(6) by auto
qed (use assms(4) in simp_all)

lemma book_run_ok: "book_run fd b i now = Ok (ap, b') \<Longrightarrow> book_ok fd b \<Longrightarrow> book_ok fd b'"
  unfolding book_run_Ok by (auto simp: phase_has_result_def intro!: book_ok_phase split: if_splits)

lemma mark_verified_ok: "mark_verified fd b i = Ok (ap, b') \<Longrightarrow> book_ok fd b \<Longrightarrow> book_ok fd b'"
  unfolding mark_verified_Ok by (auto simp: phase_has_result_def intro!: book_ok_phase split: if_splits)

lemma book_release_ok: "book_release fd b i = Ok (ap, b') \<Longrightarrow> book_ok fd b \<Longrightarrow> book_ok fd b'"
  unfolding book_release_Ok by (auto simp: phase_has_result_def intro!: book_ok_phase split: if_splits)

lemma book_record_result_ok:
  assumes "book_record_result fd b i r signature transcript = Ok (ap, b')" "book_ok fd b"
  shows "book_ok fd b'"
proof -
  from assms(1) obtain job where j: "job_by_id b i = Some job" "js_phase job \<noteq> HalfSigned" "\<not> is_indeterminate_job b i"
    and b': "b' = put_job i (job\<lparr>js_result := Some (r, signature), js_transcript := transcript,
       js_phase := if js_phase job = Streaming then Delivered else Ready\<rparr>) b"
    unfolding book_record_result_Ok by auto
  show ?thesis unfolding b'
    by (rule book_ok_advance [OF assms(2) j(1,2)]) (use j(3) in \<open>simp_all add: phase_has_result_def\<close>)
qed

end
