(* ===== verification/Channel_Job.thy ===== *)
theory Channel_Job
  imports Channel_Book
begin

text \<open>How a job's prepared input and its transcript are bound to the authorization both parties sign
  (src/crates/channel/src/job.rs, and the transcript rules of src/crates/channel/src/model/work.rs). What the invocation
  protocol of src/crates/rpc/src/protocol does with an input, a policy and a list of events is the record \<open>invocation\<close>,
  a parameter of every definition below: its parsers and canonical encoders, the fields of a request the channel reads,
  the policy's admission, the verification of an output, and the streaming Xet hash. No law is assumed of it.\<close>

datatype public_key = Secp256k1 key | Ed25519 bytes32 | P256 bytes33

record admission_facts =
  af_retention :: retention
  af_max_spool_bytes :: u64

record verified_output =
  vo_output_id :: bytes32
  vo_is_success :: bool
  vo_transcript :: content_ref

record ('p, 'q, 'e) invocation =
  iv_from_canonical_bytes :: "bytes \<Rightarrow> nat \<Rightarrow> ('p, paid_work_error) result"
  iv_policy_from_canonical_bytes :: "bytes \<Rightarrow> ('q, paid_work_error) result"
  iv_canonical_bytes :: "'p \<Rightarrow> (bytes, paid_work_error) result"
  iv_policy_canonical_bytes :: "'q \<Rightarrow> (bytes, paid_work_error) result"
  iv_request_commitment :: "'p \<Rightarrow> (bytes32, paid_work_error) result"
  iv_execution_environment :: "'p \<Rightarrow> bytes32"
  iv_runner_public_key :: "'p \<Rightarrow> public_key"
  iv_retain :: "'p \<Rightarrow> bool"
  iv_application_policy :: "'p \<Rightarrow> bytes"
  iv_admit :: "'q \<Rightarrow> 'p \<Rightarrow> public_key \<Rightarrow> (admission_facts, paid_work_error) result"
  iv_verify_output :: "'p \<Rightarrow> 'q \<Rightarrow> public_key \<Rightarrow> public_key \<Rightarrow> 'e list \<Rightarrow> (verified_output, paid_work_error) result"
  iv_event_commitment :: "'e \<Rightarrow> bytes32"
  iv_decode_events :: "bytes \<Rightarrow> ('e list, paid_work_error) result"
  iv_content_id :: "bytes \<Rightarrow> bytes32"
  iv_file_hash :: "bytes \<Rightarrow> bytes32"

definition MAX_CONTENT_BYTES :: nat where "MAX_CONTENT_BYTES = 64 * 2 ^ 20"

section \<open>Contexts and bindings\<close>

record work_context =
  wc_network :: network_id
  wc_channel :: bytes32
  wc_client :: key
  wc_provider :: key

definition work_context_of :: "paid_channel \<Rightarrow> work_context" where
  "work_context_of c = \<lparr>wc_network = ch_network c, wc_channel = ch_id c, wc_client = client_key c, wc_provider = provider_key c\<rparr>"

record job_input_binding =
  ib_work_policy_digest :: bytes32
  ib_input_content :: content_ref
  ib_prepared_input_digest :: bytes32
  ib_request_commitment :: bytes32
  ib_environment_commitment :: bytes32
  ib_retention :: retention

definition input_binding_of :: "paid_job_authorization \<Rightarrow> job_input_binding" where
  "input_binding_of a = \<lparr>ib_work_policy_digest = pj_work_policy_digest a, ib_input_content = pj_input_content a,
    ib_prepared_input_digest = pj_prepared_input_digest a, ib_request_commitment = pj_request_commitment a,
    ib_environment_commitment = pj_environment_commitment a, ib_retention = pj_retention a\<rparr>"

definition INVOCATION_POLICY :: bytes where "INVOCATION_POLICY = ascii ''hellas.work.invocation-policy.v1''"
definition PREPARED_INPUT :: bytes where "PREPARED_INPUT = ascii ''hellas.work.prepared-input.v1''"

definition xfh :: "('p, 'q, 'e) invocation \<Rightarrow> bytes \<Rightarrow> bytes list \<Rightarrow> bytes32" where
  "xfh iv domain parts = iv_file_hash iv (domain @ concat parts)"

definition content_for_bytes :: "('p, 'q, 'e) invocation \<Rightarrow> bytes \<Rightarrow> content_ref" where
  "content_for_bytes iv bs = \<lparr>cr_id = iv_content_id iv bs, cr_bytes = of_nat (length bs)\<rparr>"

definition policy_digest ::
  "('p, 'q, 'e) invocation \<Rightarrow> network_id \<Rightarrow> bytes32 \<Rightarrow> 'q \<Rightarrow> (bytes32, paid_work_error) result" where
  "policy_digest iv network channel policy =
    and_then (iv_policy_canonical_bytes iv policy) (\<lambda>bs.
    Ok (xfh iv INVOCATION_POLICY [encode_network_id network, to_be_bytes channel, bs]))"

definition bound_prepared_input_digest ::
  "('p, 'q, 'e) invocation \<Rightarrow> network_id \<Rightarrow> bytes32 \<Rightarrow> 'p \<Rightarrow> (bytes32, paid_work_error) result" where
  "bound_prepared_input_digest iv network channel inp =
    and_then (iv_canonical_bytes iv inp) (\<lambda>bs.
    Ok (xfh iv PREPARED_INPUT [encode_network_id network, to_be_bytes channel, bs]))"

record job_deadlines =
  jd_acceptance :: u64
  jd_terminal :: u64
  jd_payment :: u64

definition job_propose ::
  "('p, 'q, 'e) invocation \<Rightarrow> blake3 \<Rightarrow> paid_channel \<Rightarrow> 'q \<Rightarrow> job_payment_policy \<Rightarrow> 'p \<Rightarrow> u64 \<Rightarrow> job_deadlines
    \<Rightarrow> (paid_job_authorization, paid_work_error) result" where
  "job_propose iv b3 c policy payment inp nonce deadlines =
    and_then (policy_digest iv (ch_network c) (ch_id c) policy) (\<lambda>work_policy.
    and_then (iv_canonical_bytes iv inp) (\<lambda>bs.
    and_then (bound_prepared_input_digest iv (ch_network c) (ch_id c) inp) (\<lambda>prepared.
    and_then (iv_request_commitment iv inp) (\<lambda>request.
    Ok \<lparr>pj_channel_id = ch_id c, pj_work_policy_digest = work_policy,
        pj_payment_policy_digest = job_payment_policy_digest b3 (ch_network c) (ch_id c) payment,
        pj_input_content = content_for_bytes iv bs, pj_prepared_input_digest = prepared,
        pj_proposal_nonce = nonce, pj_acceptance_deadline = jd_acceptance deadlines,
        pj_request_commitment = request, pj_environment_commitment = iv_execution_environment iv inp,
        pj_price = jp_fixed_price payment, pj_terminal_deadline = jd_terminal deadlines,
        pj_payment_deadline = jd_payment deadlines,
        pj_retention = if iv_retain iv inp then Retain else Ephemeral\<rparr>))))"

definition job_check_authorization ::
  "('p, 'q, 'e) invocation \<Rightarrow> blake3 \<Rightarrow> paid_channel \<Rightarrow> paid_job_authorization \<Rightarrow> 'q \<Rightarrow> job_payment_policy \<Rightarrow> u64
    \<Rightarrow> (bytes32, paid_work_error) result" where
  "job_check_authorization iv b3 c a policy payment height =
    and_then (policy_digest iv (ch_network c) (ch_id c) policy) (\<lambda>digest.
    check_authorization_core b3 c a digest payment height)"

section \<open>Checking an input and its output\<close>

definition check_input ::
  "('p, 'q, 'e) invocation \<Rightarrow> work_context \<Rightarrow> job_input_binding \<Rightarrow> 'q \<Rightarrow> 'p \<Rightarrow> (admission_facts, paid_work_error) result" where
  "check_input iv cx binding policy inp =
    and_then (iv_canonical_bytes iv inp) (\<lambda>bs.
    and_then (policy_digest iv (wc_network cx) (wc_channel cx) policy) (\<lambda>work_policy.
    and_then (bound_prepared_input_digest iv (wc_network cx) (wc_channel cx) inp) (\<lambda>prepared.
    and_then (iv_request_commitment iv inp) (\<lambda>request.
    and_then (iv_policy_canonical_bytes iv policy) (\<lambda>policy_bytes.
    and_then (check_fields Mismatch
      [(''work_policy_digest'', ib_work_policy_digest binding = work_policy),
       (''input_content'', ib_input_content binding = content_for_bytes iv bs),
       (''prepared_input_digest'', ib_prepared_input_digest binding = prepared),
       (''request_commitment'', ib_request_commitment binding = request),
       (''environment_commitment'', ib_environment_commitment binding = iv_execution_environment iv inp),
       (''runner_public_key'', iv_runner_public_key iv inp = Secp256k1 (wc_provider cx)),
       (''retention'', iv_retain iv inp = should_retain (ib_retention binding)),
       (''application_policy'', iv_application_policy iv inp = policy_bytes)]) (\<lambda>_.
    iv_admit iv policy inp (Secp256k1 (wc_client cx))))))))"

definition check_paid_input ::
  "('p, 'q, 'e) invocation \<Rightarrow> paid_channel \<Rightarrow> paid_job_authorization \<Rightarrow> 'q \<Rightarrow> 'p \<Rightarrow> (admission_facts, paid_work_error) result" where
  "check_paid_input iv c a policy inp =
    and_then (check_input iv (work_context_of c) (input_binding_of a) policy inp) (\<lambda>facts.
    if pj_retention a \<noteq> af_retention facts then Err (Mismatch ''paid content retention'') else Ok facts)"

definition terminal_result ::
  "('p, 'q, 'e) invocation \<Rightarrow> work_context \<Rightarrow> bytes32 \<Rightarrow> job_input_binding \<Rightarrow> 'q \<Rightarrow> 'p \<Rightarrow> 'e list
    \<Rightarrow> (paid_job_result, paid_work_error) result" where
  "terminal_result iv cx work binding policy inp events =
    and_then (check_input iv cx binding policy inp) (\<lambda>_.
    and_then (iv_verify_output iv inp policy (Secp256k1 (wc_client cx)) (Secp256k1 (wc_provider cx)) events) (\<lambda>verified.
    and_then (if events = [] then Err (Transcript ''missing terminal'') else Ok (last events)) (\<lambda>terminal.
    Ok \<lparr>jr_work_id = work, jr_terminal_transcript_commitment = iv_event_commitment iv terminal,
        jr_canonical_output_digest = vo_output_id verified,
        jr_outcome = if vo_is_success verified then Finished else OutcomeFailed,
        jr_transcript_content = vo_transcript verified\<rparr>)))"

definition paid_terminal_result ::
  "('p, 'q, 'e) invocation \<Rightarrow> blake3 \<Rightarrow> paid_channel \<Rightarrow> paid_job_authorization \<Rightarrow> 'q \<Rightarrow> 'p \<Rightarrow> 'e list
    \<Rightarrow> (paid_job_result, paid_work_error) result" where
  "paid_terminal_result iv b3 c a policy inp events =
    and_then (check_paid_input iv c a policy inp) (\<lambda>_.
    terminal_result iv (work_context_of c) (work_id b3 c a) (input_binding_of a) policy inp events)"

definition job_check_result ::
  "('p, 'q, 'e) invocation \<Rightarrow> work_context \<Rightarrow> bytes32 \<Rightarrow> job_input_binding \<Rightarrow> 'q \<Rightarrow> 'p \<Rightarrow> 'e list \<Rightarrow> paid_job_result
    \<Rightarrow> (unit, paid_work_error) result" where
  "job_check_result iv cx work binding policy inp events r =
    and_then (terminal_result iv cx work binding policy inp events) (\<lambda>built.
    if built \<noteq> r then Err (Mismatch ''result against its transcript'') else Ok ())"

text \<open>\<^verbatim>\<open>usize\<close> has 64 bits, so the two conversions of the source cannot fail on a slice's length or a budget.\<close>

definition decode_transcript ::
  "('p, 'q, 'e) invocation \<Rightarrow> bytes \<Rightarrow> nat \<Rightarrow> ('e list, paid_work_error) result" where
  "decode_transcript iv bs budget =
    (if budget < length bs then Err (OverEnvelope ''transcript length'' (u64_of_usize (length bs)) (u64_of_usize budget))
     else iv_decode_events iv bs)"

section \<open>Lemmas\<close>

lemma terminal_result_work: "terminal_result iv cx work binding policy inp events = Ok r \<Longrightarrow> jr_work_id r = work"
  by (auto simp: terminal_result_def and_then_eq_Ok)

text \<open>A proposal derived from an input passes the binding checks the receiver runs on the same input, up to the
  application's own admission.\<close>

lemma propose_binds:
  assumes "job_propose iv b3 c policy payment inp nonce deadlines = Ok a"
    and "iv_runner_public_key iv inp = Secp256k1 (provider_key c)"
    and "iv_policy_canonical_bytes iv policy = Ok (iv_application_policy iv inp)"
  shows "check_paid_input iv c a policy inp =
    and_then (iv_admit iv policy inp (Secp256k1 (client_key c))) (\<lambda>facts.
      if pj_retention a \<noteq> af_retention facts then Err (Mismatch ''paid content retention'') else Ok facts)"
proof -
  from assms(1) obtain wp bs pd req where
    p: "policy_digest iv (ch_network c) (ch_id c) policy = Ok wp" "iv_canonical_bytes iv inp = Ok bs"
      "bound_prepared_input_digest iv (ch_network c) (ch_id c) inp = Ok pd" "iv_request_commitment iv inp = Ok req"
    and a: "pj_work_policy_digest a = wp" "pj_input_content a = content_for_bytes iv bs" "pj_prepared_input_digest a = pd"
      "pj_request_commitment a = req" "pj_environment_commitment a = iv_execution_environment iv inp"
      "pj_retention a = (if iv_retain iv inp then Retain else Ephemeral)"
    by (auto simp: job_propose_def and_then_eq_Ok)
  show ?thesis
    by (simp add: check_paid_input_def check_input_def work_context_of_def input_binding_of_def p assms(2,3)
        a should_retain_def)
qed

end
