(* ===== verification/Channel_State.thy ===== *)
theory Channel_State
  imports Channel_Job
begin

text \<open>What one endpoint durably knows about one payment channel, and every step it may record
  (src/crates/channel/src/work_store/channel/state.rs, with the types of src/crates/channel/src/work_store/channel.rs and
  the digest of src/crates/channel/src/work_close.rs it compares answers with). \<open>b3\<close> is the keyed hash, \<open>vf\<close> the host's
  verifier, \<open>iv\<close> the invocation protocol. A step is \<open>channel_apply\<close>; its last argument is \<^verbatim>\<open>metadata_only\<close>, true on
  replay. A refused step returns the error alone: the store applies a record to a copy, and a replay that refuses a
  record does not open.\<close>

section \<open>Types\<close>

datatype terminal_outcome =
    Certified "paid_job_result \<times> sig" earned_certificate payment_binding sig sig
      \<comment> \<open>signed result, certificate, binding, binding signature, certificate signature\<close>
  | Rejected bytes32 bytes32  \<comment> \<open>result digest, evidence digest\<close>
  | Expired u64 u64 bytes32  \<comment> \<open>deadline, height, payload\<close>
  | Failed u32
  | Indeterminate

fun outcome_name :: "terminal_outcome \<Rightarrow> string" where
  "outcome_name (Certified _ _ _ _ _) = ''certified''"
| "outcome_name (Rejected _ _) = ''rejected''"
| "outcome_name (Expired _ _ _) = ''expired''"
| "outcome_name (Failed _) = ''failed''"
| "outcome_name Indeterminate = ''indeterminate''"

type_synonym payment_job = "(paid_job_authorization, sig, paid_job_result) job_state"
type_synonym payment_terminal = "terminal_outcome job_terminal"
type_synonym payment_book = "(paid_job_authorization, sig, paid_job_result, terminal_outcome) job_book"

definition payment_funding :: "(paid_job_authorization, terminal_outcome) job_funding" where
  "payment_funding = \<lparr>fd_proposal_nonce = pj_proposal_nonce, fd_acceptance_deadline = pj_acceptance_deadline,
    fd_terminal_deadline = pj_terminal_deadline, fd_unit = ''finalized height'', fd_outcome_name = outcome_name\<rparr>"

record open_contest =
  oc_start_id :: start_id
  oc_opener :: party
  oc_response_deadline :: u64
  oc_claimed :: u64

record close_history =
  hi_height :: u64
  hi_payload :: bytes32
  hi_pending :: pending_close

record responded_contest =
  ra_start_id :: start_id
  ra_response_digest :: payload_hash

record close_settlement =
  cl_height :: u64
  cl_payload :: bytes32
  cl_provider_payout :: u64

record payment_state =
  fs_channel :: paid_channel
  fs_settlement :: settlement
  fs_cursor :: "u64 \<times> bytes32"
  fs_origin_observed :: bool
  fs_close_prepared :: "payment_close_start option"
  fs_close_opened :: "open_contest option"
  fs_close_history :: "close_history option"
  fs_close_responded :: "responded_contest option"
  fs_close_settled :: "close_settlement option"

record channel =
  cn_funding :: payment_state
  cn_ledger :: credit_ledger
  cn_role :: role
  cn_book :: payment_book

record paid_certificate =
  pd_work_id :: bytes32
  pd_certificate :: earned_certificate
  pd_binding :: payment_binding
  pd_binding_signature :: sig
  pd_certificate_signature :: sig

datatype channel_record =
    OriginObserved
  | ProposalExchange bytes32 bool
  | CursorAdvanced u64 bytes32 bytes32  \<comment> \<open>height, parent, payload\<close>
  | JobProposed paid_job_authorization sig bytes
  | JobAccepted bytes32 sig
  | JobRunning bytes32
  | JobResult bytes32 paid_job_result sig bytes
  | PlaintextReleased bytes32
  | ResultVerified bytes32
  | JobTerminated bytes32 terminal_outcome
  | ClosePrepared payment_close_start
  | CloseOpened start_id party u64 u64  \<comment> \<open>start id, opener, response deadline, claimed\<close>
  | CloseResponded start_id payload_hash
  | CloseSettled u64 bytes32 u64  \<comment> \<open>height, payload, provider payout\<close>
  | CloseHistoryAdvanced bytes32 close_history

record setup_origin =
  so_payment_edge :: edge_id
  so_height :: u64
  so_payload :: bytes32
  so_parent :: bytes32

section \<open>Reading the state\<close>

definition channel_new :: "paid_channel \<Rightarrow> settlement \<Rightarrow> role \<Rightarrow> setup_origin \<Rightarrow> channel" where
  "channel_new c st r origin =
    \<lparr>cn_funding = \<lparr>fs_channel = c, fs_settlement = st, fs_cursor = (so_height origin, so_payload origin),
       fs_origin_observed = False, fs_close_prepared = None, fs_close_opened = None, fs_close_history = None,
       fs_close_responded = None, fs_close_settled = None\<rparr>,
     cn_ledger = credit_ledger_new, cn_role = r, cn_book = job_book_default\<rparr>"

abbreviation chan :: "channel \<Rightarrow> paid_channel" where "chan s \<equiv> fs_channel (cn_funding s)"
abbreviation cursor_height :: "channel \<Rightarrow> u64" where "cursor_height s \<equiv> fst (fs_cursor (cn_funding s))"
abbreviation open_jobs :: "channel \<Rightarrow> payment_job list" where "open_jobs s \<equiv> map snd (jb_jobs (cn_book s))"
abbreviation retained_terminals :: "channel \<Rightarrow> payment_terminal list" where
  "retained_terminals s \<equiv> map snd (jb_terminals (cn_book s))"

text \<open>\<^verbatim>\<open>Iterator::max_by_key\<close>: the last of the elements with the largest key.\<close>

definition max_by_key :: "('a \<Rightarrow> 'k::linorder) \<Rightarrow> 'a list \<Rightarrow> 'a option" where
  "max_by_key f xs = foldl (\<lambda>acc x. case acc of None \<Rightarrow> Some x | Some m \<Rightarrow> if f m \<le> f x then Some x else Some m) None xs"

fun payment_from_terminal :: "payment_terminal \<Rightarrow> paid_certificate option" where
  "payment_from_terminal t = (case jt_outcome t of
      Certified _ certificate binding binding_signature certificate_signature \<Rightarrow>
        Some \<lparr>pd_work_id = jt_work_id t, pd_certificate = certificate, pd_binding = binding,
          pd_binding_signature = binding_signature, pd_certificate_signature = certificate_signature\<rparr>
    | _ \<Rightarrow> None)"

definition last_payment :: "channel \<Rightarrow> paid_certificate option" where
  "last_payment s = max_by_key (\<lambda>p. ec_earned_cumulative (pd_certificate p))
    (List.map_filter payment_from_terminal (retained_terminals s))"

definition payment_of :: "channel \<Rightarrow> bytes32 \<Rightarrow> paid_certificate option" where
  "payment_of s i = Option.bind (terminal_by_id (cn_book s) i) payment_from_terminal"

definition max_executable_certificate :: "channel \<Rightarrow> u64" where
  "max_executable_certificate s = (case last_payment s of None \<Rightarrow> 0 | Some p \<Rightarrow> ec_earned_cumulative (pd_certificate p))"

definition executable_certificate :: "channel \<Rightarrow> (earned_certificate \<times> sig) option" where
  "executable_certificate s = map_option (\<lambda>p. (pd_certificate p, pd_certificate_signature p)) (last_payment s)"

definition includable_close_start :: "channel \<Rightarrow> u64 \<Rightarrow> payment_close_start option" where
  "includable_close_start s height = (case fs_close_prepared (cn_funding s) of
      Some start \<Rightarrow> if height \<le> ps_valid_through_height start then Some start else None
    | None \<Rightarrow> None)"

definition answerable_contest :: "channel \<Rightarrow> (open_contest \<times> earned_certificate \<times> sig) option" where
  "answerable_contest s =
    (let f = cn_funding s in
     if cn_role s \<noteq> Provider \<or> fs_close_settled f \<noteq> None
        \<or> (\<exists>h. fs_close_history f = Some h \<and> pc_responded (hi_pending h)) then None
     else Option.bind (fs_close_opened f) (\<lambda>contest.
       if oc_opener contest \<noteq> Maker \<or> oc_response_deadline contest \<le> cursor_height s then None
       else Option.bind (executable_certificate s) (\<lambda>(certificate, signature).
         if oc_claimed contest < ec_earned_cumulative certificate then Some (contest, certificate, signature) else None)))"

definition is_closing :: "channel \<Rightarrow> bool" where
  "is_closing s \<longleftrightarrow> fs_close_opened (cn_funding s) \<noteq> None \<or> fs_close_settled (cn_funding s) \<noteq> None
    \<or> includable_close_start s (cursor_height s) \<noteq> None"

definition refuse_if_closing :: "channel \<Rightarrow> string \<Rightarrow> (unit, channel_state_error) result" where
  "refuse_if_closing s step = (if is_closing s then Err (Ch_Closing step) else Ok ())"

definition require_role :: "channel \<Rightarrow> string \<Rightarrow> role \<Rightarrow> (unit, channel_state_error) result" where
  "require_role s step r =
    (if cn_role s = r then Ok ()
     else Err (Ch_WrongRole step (case r of Client \<Rightarrow> ''client'' | Provider \<Rightarrow> ''provider'')))"

definition refuse_open_job :: "channel \<Rightarrow> string \<Rightarrow> (unit, channel_state_error) result" where
  "refuse_open_job s step = (case open_jobs s of
      job # _ \<Rightarrow> Err (Ch_WrongPhase step (phase_name (js_phase job)))
    | [] \<Rightarrow> Ok ())"

text \<open>\<^verbatim>\<open>SigVerifier::verify_sig\<close> on a native signature is the native case of the verifier.\<close>

definition verify_sig :: "verifier \<Rightarrow> sig \<Rightarrow> key \<Rightarrow> payload_hash \<Rightarrow> bool" where
  "verify_sig vf s k h = vf (Native s) k h"

definition response_body_digest :: "blake3 \<Rightarrow> paid_channel \<Rightarrow> start_id \<Rightarrow> earned_certificate \<Rightarrow> payload_hash" where
  "response_body_digest b3 c start certificate =
    response_digest b3 (ch_network c) (ch_payment_edge c) (ch_payment_terms_hash c) start Taker
      (certificate_digest b3 (ch_network c) certificate)"

section \<open>Checks\<close>

definition chan_check_authorization ::
  "('p, 'q, 'e) invocation \<Rightarrow> channel \<Rightarrow> paid_job_authorization \<Rightarrow> bytes \<Rightarrow> bool \<Rightarrow> (unit, channel_state_error) result" where
  "chan_check_authorization iv s a prepared_input replaying =
    (if pj_channel_id a \<noteq> ch_id (chan s) then Err (Ch_WrongChannel ''channel_id'')
     else if replaying then (if prepared_input = [] then Ok () else Err Ch_Malformed)
     else map_err Ch_Record (
       and_then (iv_from_canonical_bytes iv prepared_input MAX_CONTENT_BYTES) (\<lambda>inp.
       and_then (iv_policy_from_canonical_bytes iv (iv_application_policy iv inp)) (\<lambda>policy.
       and_then (check_paid_input iv (chan s) a policy inp) (\<lambda>_. Ok ())))))"

definition check_result_payload ::
  "('p, 'q, 'e) invocation \<Rightarrow> blake3 \<Rightarrow> channel \<Rightarrow> payment_job \<Rightarrow> paid_job_result \<Rightarrow> bytes \<Rightarrow> bool
    \<Rightarrow> (unit, channel_state_error) result" where
  "check_result_payload iv b3 s job r transcript replaying =
    (if jr_work_id r \<noteq> js_work_id job then Err (Ch_WrongChannel ''result work_id'')
     else if replaying then (if transcript = [] then Ok () else Err Ch_Malformed)
     else and_then (map_err Ch_Record (
       and_then (iv_from_canonical_bytes iv (js_prepared_input job) MAX_CONTENT_BYTES) (\<lambda>inp.
       and_then (iv_policy_from_canonical_bytes iv (iv_application_policy iv inp)) (\<lambda>policy.
       and_then (check_paid_input iv (chan s) (js_authorization job) policy inp) (\<lambda>facts.
       and_then (decode_transcript iv transcript (unat (af_max_spool_bytes facts))) (\<lambda>events.
       paid_terminal_result iv b3 (chan s) (js_authorization job) policy inp events)))))) (\<lambda>built.
     if built \<noteq> r then Err (Ch_WrongChannel ''result against its transcript'') else Ok ()))"

definition restore_client_input ::
  "('p, 'q, 'e) invocation \<Rightarrow> channel \<Rightarrow> bytes32 \<Rightarrow> bytes \<Rightarrow> (channel, channel_state_error) result" where
  "restore_client_input iv s i inp =
    and_then (require_role s ''restoring caller input'' Client) (\<lambda>_.
    and_then (open_job payment_funding (cn_book s) i ''restoring caller input'') (\<lambda>job.
    and_then (chan_check_authorization iv s (js_authorization job) inp False) (\<lambda>_.
    Ok (s\<lparr>cn_book := put_job i (job\<lparr>js_prepared_input := inp\<rparr>) (cn_book s)\<rparr>))))"

definition check_close_start :: "channel \<Rightarrow> payment_close_start \<Rightarrow> (unit, channel_state_error) result" where
  "check_close_start s start =
    and_then (case executable_certificate s of
        None \<Rightarrow> Ok None
      | Some (certificate, signature) \<Rightarrow>
          and_then (ok_or (Ch_WrongChannel ''close start certificate signer'')
            (authority_of (parties_maker (wp_parties (ch_payment_terms (chan s)))) (client_key (chan s)))) (\<lambda>a.
          Ok (Some (certificate, \<lparr>pa_authority = a, pa_auth = Native signature\<rparr>)))) (\<lambda>certificate.
    check_fields Ch_WrongChannel
      [(''close start payment_edge'', ps_payment_edge start = ch_payment_edge (chan s)),
       (''close start payment_terms_hash'', terms_hash_of (ps_terms start) = ch_payment_terms_hash (chan s)),
       (''close start opener_role'', ps_opener_role start = (case cn_role s of Client \<Rightarrow> Maker | Provider \<Rightarrow> Taker)),
       (''close start certificate'', ps_certificate start = certificate)])"

definition check_close_history :: "channel \<Rightarrow> close_history \<Rightarrow> (unit, channel_state_error) result" where
  "check_close_history s h =
    and_then (ok_or Ch_Malformed (fs_close_opened (cn_funding s))) (\<lambda>contest.
    let pending = hi_pending h; terms = ch_payment_terms (chan s) in
    and_then (ok_or Ch_Malformed (checked_sub (oc_response_deadline contest) (wp_omit_response_blocks terms))) (\<lambda>inclusion.
    if hi_height h < inclusion \<or> oc_response_deadline contest < hi_height h
       \<or> saturating_add (cursor_height s) 1 < hi_height h
       \<or> pc_payment_edge pending \<noteq> ch_payment_edge (chan s)
       \<or> pc_start_id pending \<noteq> oc_start_id contest
       \<or> pc_opener_role pending \<noteq> oc_opener contest
       \<or> pc_response_deadline pending \<noteq> oc_response_deadline contest
       \<or> pc_start_cumulative pending \<noteq> oc_claimed contest
       \<or> pc_final_cumulative pending < oc_claimed contest
       \<or> st_capacity (fs_settlement (cn_funding s)) < pc_final_cumulative pending
       \<or> pc_penalty_amount pending \<noteq> wp_omission_bond terms
       \<or> (\<not> pc_responded pending \<and> (pc_final_cumulative pending \<noteq> oc_claimed contest \<or> pc_penalty_due pending))
       \<or> (pc_responded pending \<and> (pc_final_cumulative pending \<le> oc_claimed contest
            \<or> pc_penalty_due pending \<noteq> (oc_opener contest = Maker)))
    then Err Ch_Malformed else Ok ()))"

definition check_compute_limit :: "channel \<Rightarrow> u64 \<Rightarrow> (unit, channel_state_error) result" where
  "check_compute_limit s price =
    (let limit = cp_compute_credit_limit (ch_policy (chan s));
         reserved = foldl saturating_add 0 (map (\<lambda>job. pj_price (js_authorization job)) (open_jobs s))
     in if limit < saturating_add reserved price then Err (Ch_OverCredit ''compute'' 0 reserved price limit) else Ok ())"

definition check_delivery_limit :: "channel \<Rightarrow> u64 \<Rightarrow> (unit, channel_state_error) result" where
  "check_delivery_limit s price =
    (let limit = cp_delivery_credit_limit (ch_policy (chan s));
         reserved = foldl saturating_add 0 (map (\<lambda>job. pj_price (js_authorization job))
           (filter (\<lambda>job. phase_delivered (js_phase job)) (open_jobs s)))
     in if limit < saturating_add reserved price then Err (Ch_OverCredit ''delivery'' 0 reserved price limit) else Ok ())"

text \<open>A loop over signatures of one party, stopping at the first that does not verify.\<close>

fun check_signatures ::
  "verifier \<Rightarrow> key \<Rightarrow> string \<Rightarrow> (string \<times> sig \<times> payload_hash) list \<Rightarrow> (unit, channel_state_error) result" where
  "check_signatures vf k who [] = Ok ()"
| "check_signatures vf k who ((slot, signature, hash) # rest) =
    (if \<not> verify_sig vf signature k hash then Err (Ch_BadSignature slot who) else check_signatures vf k who rest)"

definition payment_signatures ::
  "blake3 \<Rightarrow> channel \<Rightarrow> payment_binding \<Rightarrow> sig \<Rightarrow> earned_certificate \<Rightarrow> sig \<Rightarrow> (string \<times> sig \<times> payload_hash) list" where
  "payment_signatures b3 s binding binding_signature certificate certificate_signature =
    [(''binding'', binding_signature, signing_hash (payment_binding_digest b3 (chan s) binding)),
     (''certificate'', certificate_signature, certificate_digest b3 (ch_network (chan s)) certificate)]"

section \<open>The steps\<close>

type_synonym channel_step = "channel step_result"

text \<open>Writes a book step back into the channel.\<close>

definition with_book :: "channel \<Rightarrow> payment_book step_result \<Rightarrow> channel_step" where
  "with_book s r = and_then r (\<lambda>(ap, b). Ok (ap, s\<lparr>cn_book := b\<rparr>))"

definition update_funding :: "(payment_state \<Rightarrow> payment_state) \<Rightarrow> channel \<Rightarrow> channel" where
  "update_funding f s = s\<lparr>cn_funding := f (cn_funding s)\<rparr>"

definition apply_origin_observed :: "channel \<Rightarrow> channel_step" where
  "apply_origin_observed s =
    (if fs_origin_observed (cn_funding s) then Ok (Redundant, s)
     else Ok (Changed, update_funding (fs_origin_observed_update (\<lambda>_. True)) s))"

definition apply_proposal_exchange :: "channel \<Rightarrow> bytes32 \<Rightarrow> bool \<Rightarrow> channel_step" where
  "apply_proposal_exchange s i pending =
    and_then (require_role s ''recording proposal exchange'' Client) (\<lambda>_.
    with_book s (proposal_exchange payment_funding (cn_book s) i pending))"

definition reading :: "channel \<Rightarrow> u64 \<Rightarrow> bytes32 \<Rightarrow> bytes32 \<Rightarrow> (applied, channel_state_error) result" where
  "reading s height parent payload =
    (let (held_height, held_payload) = fs_cursor (cn_funding s) in
     if (height, payload) = (held_height, held_payload) then Ok Redundant
     else if height \<noteq> saturating_add held_height 1 then Err (Ch_CursorNotNext held_height height)
     else if parent \<noteq> held_payload then Err (Ch_CursorNotContiguous height)
     else Ok Changed)"

definition apply_cursor :: "channel \<Rightarrow> u64 \<Rightarrow> bytes32 \<Rightarrow> bytes32 \<Rightarrow> channel_step" where
  "apply_cursor s height parent payload =
    and_then (reading s height parent payload) (\<lambda>ap. case ap of
        Redundant \<Rightarrow> Ok (Redundant, s)
      | Changed \<Rightarrow> Ok (Changed, update_funding (fs_cursor_update (\<lambda>_. (height, payload))) s))"

definition history_follows :: "close_history \<Rightarrow> bytes32 \<Rightarrow> close_history \<Rightarrow> (unit, channel_state_error) result" where
  "history_follows previous parent h =
    (let old = hi_pending previous; new = hi_pending h in
     and_then (ok_or Ch_Malformed (checked_add (hi_height previous) 1)) (\<lambda>following.
     if hi_height h \<noteq> following \<or> parent \<noteq> hi_payload previous
        \<or> (pc_responded new \<and> \<not> pc_responded old \<and> pc_response_deadline new \<le> hi_height h)
        \<or> fst (pc_owner_signed new) \<noteq> fst (pc_owner_signed old)
        \<or> ((pc_responded old \<or> \<not> pc_responded new) \<and> new \<noteq> old)
        \<or> pc_final_cumulative new < pc_final_cumulative old
        \<or> (fst (pc_owner_signed old) \<and> \<not> fst (pc_owner_signed new))
        \<or> (snd (pc_owner_signed old) \<and> \<not> snd (pc_owner_signed new))
     then Err Ch_Malformed else Ok ()))"

definition apply_close_history :: "channel \<Rightarrow> bytes32 \<Rightarrow> close_history \<Rightarrow> channel_step" where
  "apply_close_history s parent h =
    and_then (check_close_history s h) (\<lambda>_.
    if fs_close_history (cn_funding s) = Some h then Ok (Redundant, s)
    else and_then (case fs_close_history (cn_funding s) of
        Some previous \<Rightarrow> history_follows previous parent h
      | None \<Rightarrow>
          and_then (ok_or Ch_Malformed (checked_sub (pc_response_deadline (hi_pending h))
            (wp_omit_response_blocks (ch_payment_terms (chan s))))) (\<lambda>inclusion.
          if hi_height h \<noteq> inclusion then Err Ch_Malformed else Ok ())) (\<lambda>_.
    Ok (Changed, update_funding (fs_close_history_update (\<lambda>_. Some h)) s)))"

definition apply_close_prepared :: "channel \<Rightarrow> payment_close_start \<Rightarrow> channel_step" where
  "apply_close_prepared s start =
    (if fs_close_prepared (cn_funding s) = Some start then Ok (Redundant, s)
     else if fs_close_opened (cn_funding s) \<noteq> None \<or> fs_close_settled (cn_funding s) \<noteq> None
     then Err (Ch_Closing ''signing a close start'')
     else and_then (refuse_open_job s ''signing a close start'') (\<lambda>_.
     and_then (check_close_start s start) (\<lambda>_.
     if includable_close_start s (cursor_height s) \<noteq> None
     then Err (Ch_Conflict ''a close start that can still be included'')
     else Ok (Changed, update_funding (fs_close_prepared_update (\<lambda>_. Some start)) s))))"

definition apply_close_opened :: "channel \<Rightarrow> open_contest \<Rightarrow> channel_step" where
  "apply_close_opened s contest =
    (if fs_close_opened (cn_funding s) = Some contest then Ok (Redundant, s)
     else if fs_close_settled (cn_funding s) \<noteq> None then Err (Ch_Closing ''opening a close contest'')
     else if fs_close_opened (cn_funding s) \<noteq> None then Err (Ch_Conflict ''this edge's close contest'')
     else and_then (refuse_open_job s ''opening a close contest'') (\<lambda>_.
     Ok (Changed, update_funding (fs_close_opened_update (\<lambda>_. Some contest)) s)))"

definition apply_close_responded :: "blake3 \<Rightarrow> channel \<Rightarrow> responded_contest \<Rightarrow> channel_step" where
  "apply_close_responded b3 s answer =
    (if fs_close_responded (cn_funding s) = Some answer then Ok (Redundant, s)
     else if fs_close_responded (cn_funding s) \<noteq> None then Err (Ch_Conflict ''this contest's answer'')
     else and_then (require_role s ''answering a close contest'' Provider) (\<lambda>_.
     if fs_close_settled (cn_funding s) \<noteq> None then Err (Ch_Closing ''answering a close contest'')
     else case answerable_contest s of
         None \<Rightarrow> Err (Ch_WrongPhase ''answering a close contest'' ''owed no answer'')
       | Some (contest, certificate, _) \<Rightarrow>
           if oc_start_id contest \<noteq> ra_start_id answer then Err (Ch_WrongChannel ''close response start_id'')
           else if ra_response_digest answer \<noteq> response_body_digest b3 (chan s) (ra_start_id answer) certificate
           then Err (Ch_WrongChannel ''close response digest'')
           else Ok (Changed, update_funding (fs_close_responded_update (\<lambda>_. Some answer)) s)))"

definition apply_close_settled :: "channel \<Rightarrow> close_settlement \<Rightarrow> channel_step" where
  "apply_close_settled s settled =
    (if fs_close_settled (cn_funding s) = Some settled then Ok (Redundant, s)
     else if fs_close_settled (cn_funding s) \<noteq> None then Err (Ch_Conflict ''this edge's close'')
     else and_then (refuse_open_job s ''closing the payment edge'') (\<lambda>_.
     Ok (Changed, update_funding (fs_close_settled_update (\<lambda>_. Some settled)) s)))"

definition apply_proposed ::
  "('p, 'q, 'e) invocation \<Rightarrow> blake3 \<Rightarrow> verifier \<Rightarrow> channel \<Rightarrow> paid_job_authorization \<Rightarrow> sig \<Rightarrow> bytes \<Rightarrow> bool \<Rightarrow> channel_step" where
  "apply_proposed iv b3 vf s a client_signature prepared_input metadata_only =
    (let i = work_id b3 (chan s) a in
     case job_by_id (cn_book s) i of
       Some job \<Rightarrow>
         if js_authorization job = a \<and> js_client_signature job = client_signature \<and> js_prepared_input job = prepared_input
         then Ok (Redundant, s)
         else Err (Ch_WrongPhase ''proposing a job'' (phase_name (js_phase job)))
     | None \<Rightarrow>
         and_then (refuse_if_terminated payment_funding (cn_book s) i ''proposing a job'') (\<lambda>_.
         and_then (refuse_if_closing s ''proposing a job'') (\<lambda>_.
         and_then (chan_check_authorization iv s a prepared_input metadata_only) (\<lambda>_.
         if pj_proposal_nonce a \<le> jb_proposal_nonce_high_water (cn_book s)
         then Err (Ch_WrongChannel ''proposal_nonce'')
         else if \<not> verify_sig vf client_signature (client_key (chan s)) (signing_hash i)
         then Err (Ch_BadSignature ''authorization'' ''the client'')
         else and_then (if cn_role s = Provider then check_compute_limit s (pj_price a) else Ok ()) (\<lambda>_.
         with_book s (book_propose payment_funding (cn_book s)
           \<lparr>js_authorization = a, js_work_id = i, js_prepared_input = prepared_input,
            js_client_signature = client_signature, js_provider_signature = None, js_phase = HalfSigned,
            js_result = None, js_transcript = []\<rparr> (cn_role s)))))))"

definition apply_accepted :: "verifier \<Rightarrow> channel \<Rightarrow> bytes32 \<Rightarrow> sig \<Rightarrow> channel_step" where
  "apply_accepted vf s i provider_signature =
    and_then (open_job payment_funding (cn_book s) i ''co-signing a job'') (\<lambda>job.
    if js_provider_signature job = Some provider_signature then Ok (Redundant, s)
    else if js_phase job \<noteq> HalfSigned then Err (Ch_WrongPhase ''co-signing a job'' (phase_name (js_phase job)))
    else if cn_role s = Provider \<and> pj_acceptance_deadline (js_authorization job) < cursor_height s
    then Err (Ch_AcceptanceLate (cursor_height s, ''finalized height'')
      (pj_acceptance_deadline (js_authorization job), ''finalized height''))
    else if \<not> verify_sig vf provider_signature (provider_key (chan s)) (signing_hash (js_work_id job))
    then Err (Ch_BadSignature ''authorization'' ''the provider'')
    else with_book s (book_accept payment_funding (cn_book s) i provider_signature (cursor_height s) (cn_role s)))"

definition apply_running :: "channel \<Rightarrow> bytes32 \<Rightarrow> channel_step" where
  "apply_running s i =
    and_then (require_role s ''a running marker'' Provider) (\<lambda>_.
    with_book s (book_run payment_funding (cn_book s) i (cursor_height s)))"

definition apply_result ::
  "('p, 'q, 'e) invocation \<Rightarrow> blake3 \<Rightarrow> verifier \<Rightarrow> channel \<Rightarrow> bytes32 \<Rightarrow> paid_job_result \<Rightarrow> sig \<Rightarrow> bytes \<Rightarrow> bool \<Rightarrow> channel_step" where
  "apply_result iv b3 vf s i r provider_signature transcript metadata_only =
    and_then (open_job payment_funding (cn_book s) i ''recording a result'') (\<lambda>job.
    case js_result job of
      Some (held, signature) \<Rightarrow>
        if held = r \<and> signature = provider_signature \<and> js_transcript job = transcript then Ok (Redundant, s)
        else if cn_role s = Client \<and> \<not> metadata_only \<and> held = r \<and> signature = provider_signature \<and> js_transcript job = []
        then and_then (check_result_payload iv b3 s job r transcript False) (\<lambda>_.
          Ok (Changed, s\<lparr>cn_book := put_job i (job\<lparr>js_transcript := transcript\<rparr>) (cn_book s)\<rparr>))
        else Err (Ch_Conflict ''this job's result'')
    | None \<Rightarrow>
        if is_indeterminate_job (cn_book s) i then Err Ch_Indeterminate
        else let expected = (case cn_role s of Provider \<Rightarrow> Running | Client \<Rightarrow> Accepted) in
          if js_phase job \<noteq> expected \<and> \<not> (cn_role s = Provider \<and> js_phase job = Streaming)
          then Err (Ch_WrongPhase ''recording a result'' (phase_name (js_phase job)))
          else if pj_terminal_deadline (js_authorization job) < cursor_height s
          then Err (Ch_ReceiptLate (cursor_height s) (pj_terminal_deadline (js_authorization job)))
          else and_then (check_result_payload iv b3 s job r transcript metadata_only) (\<lambda>_.
            if \<not> verify_sig vf provider_signature (provider_key (chan s)) (signing_hash (result_digest b3 (chan s) r))
            then Err (Ch_BadSignature ''result'' ''the provider'')
            else with_book s (book_record_result payment_funding (cn_book s) i r provider_signature transcript)))"

definition apply_verified ::
  "('p, 'q, 'e) invocation \<Rightarrow> blake3 \<Rightarrow> channel \<Rightarrow> bytes32 \<Rightarrow> bool \<Rightarrow> channel_step" where
  "apply_verified iv b3 s i replaying =
    and_then (require_role s ''recording a verified result'' Client) (\<lambda>_.
    and_then (open_job payment_funding (cn_book s) i ''recording a verified result'') (\<lambda>job.
    case js_result job of
      None \<Rightarrow> Err (Ch_WrongPhase ''recording a verified result'' (phase_name (js_phase job)))
    | Some (r, _) \<Rightarrow>
        if jr_outcome r \<noteq> Finished then Err (Ch_WrongChannel ''verified failed result'')
        else if js_phase job = Verified then Ok (Redundant, s)
        else and_then (if replaying then Ok () else check_result_payload iv b3 s job r (js_transcript job) False) (\<lambda>_.
          with_book s (mark_verified payment_funding (cn_book s) i))))"

definition apply_plaintext :: "channel \<Rightarrow> bytes32 \<Rightarrow> channel_step" where
  "apply_plaintext s i =
    and_then (require_role s ''releasing plaintext'' Provider) (\<lambda>_.
    and_then (open_job payment_funding (cn_book s) i ''releasing plaintext'') (\<lambda>job.
    if phase_delivered (js_phase job) then Ok (Redundant, s)
    else if js_phase job \<notin> {Ready, Running} then Err (Ch_WrongPhase ''releasing plaintext'' (phase_name (js_phase job)))
    else and_then (check_delivery_limit s (pj_price (js_authorization job))) (\<lambda>_.
      with_book s (book_release payment_funding (cn_book s) i))))"

definition terminate_certified ::
  "blake3 \<Rightarrow> verifier \<Rightarrow> channel \<Rightarrow> payment_job \<Rightarrow> paid_job_result \<times> sig \<Rightarrow> earned_certificate \<Rightarrow> payment_binding \<Rightarrow> sig \<Rightarrow> sig
    \<Rightarrow> channel_step" where
  "terminate_certified b3 vf s job signed_result certificate binding binding_signature certificate_signature =
    (let wrong_phase = Ch_WrongPhase ''crediting a payment'' (phase_name (js_phase job));
         payable = (case cn_role s of Provider \<Rightarrow> js_phase job = Delivered | Client \<Rightarrow> js_phase job = Verified)
     in if \<not> payable then Err wrong_phase
     else case js_result job of
       None \<Rightarrow> Err wrong_phase
     | Some (r, result_signature) \<Rightarrow>
         if signed_result \<noteq> (r, result_signature) then Err (Ch_WrongChannel ''certified receipt'')
         else if cn_role s = Client \<and> pj_payment_deadline (js_authorization job) < cursor_height s
         then Err (Ch_PaymentLate (cursor_height s) (pj_payment_deadline (js_authorization job)))
         else and_then (check_signatures vf (client_key (chan s)) ''the client''
             (payment_signatures b3 s binding binding_signature certificate certificate_signature)) (\<lambda>_.
           and_then (map_err Ch_Record (credit_payment b3 (cn_ledger s) (chan s) (js_authorization job) r binding
             certificate (fs_settlement (cn_funding s)))) (\<lambda>ledger.
           Ok (Changed, s\<lparr>cn_ledger := ledger, cn_book := rest_at
             \<lparr>jt_work_id = js_work_id job, jt_phase = js_phase job,
              jt_outcome = Certified signed_result certificate binding binding_signature certificate_signature\<rparr>
             (cn_book s)\<rparr>))))"

definition apply_terminated :: "blake3 \<Rightarrow> verifier \<Rightarrow> channel \<Rightarrow> bytes32 \<Rightarrow> terminal_outcome \<Rightarrow> channel_step" where
  "apply_terminated b3 vf s i outcome =
    (case terminal_by_id (cn_book s) i of
       Some held \<Rightarrow>
         if jt_outcome held = outcome then Ok (Redundant, s)
         else Err (Ch_Terminated ''terminating the job'' (outcome_name (jt_outcome held)))
     | None \<Rightarrow>
         if (case outcome of Certified _ _ _ _ _ \<Rightarrow> True | _ \<Rightarrow> False) \<and> job_by_id (cn_book s) i = None
         then Err (Ch_WrongChannel ''binding work_id'')
         else and_then (open_job payment_funding (cn_book s) i ''terminating the job'') (\<lambda>job.
           let rest = Ok (Changed, s\<lparr>cn_book := rest_at
                 \<lparr>jt_work_id = js_work_id job, jt_phase = js_phase job, jt_outcome = outcome\<rparr> (cn_book s)\<rparr>)
           in case outcome of
             Certified signed_result certificate binding binding_signature certificate_signature \<Rightarrow>
               terminate_certified b3 vf s job signed_result certificate binding binding_signature certificate_signature
           | Rejected named evidence \<Rightarrow>
               and_then (require_role s ''refuting a result'' Client) (\<lambda>_.
               if js_phase job \<noteq> Ready then Err (Ch_WrongPhase ''refuting a result'' (phase_name (js_phase job)))
               else case js_result job of
                   None \<Rightarrow> Err (Ch_WrongPhase ''refuting a result'' (phase_name (js_phase job)))
                 | Some (r, _) \<Rightarrow>
                     if named \<noteq> result_digest b3 (chan s) r then Err (Ch_WrongChannel ''rejected result_digest'') else rest)
           | Expired _ _ _ \<Rightarrow> rest
           | Failed _ \<Rightarrow> rest
           | Indeterminate \<Rightarrow> rest))"

fun channel_apply ::
  "('p, 'q, 'e) invocation \<Rightarrow> blake3 \<Rightarrow> verifier \<Rightarrow> channel \<Rightarrow> channel_record \<Rightarrow> bool \<Rightarrow> channel_step" where
  "channel_apply iv b3 vf s OriginObserved metadata_only = apply_origin_observed s"
| "channel_apply iv b3 vf s (ProposalExchange i pending) metadata_only = apply_proposal_exchange s i pending"
| "channel_apply iv b3 vf s (CursorAdvanced height parent payload) metadata_only = apply_cursor s height parent payload"
| "channel_apply iv b3 vf s (JobProposed a client_signature prepared_input) metadata_only =
    apply_proposed iv b3 vf s a client_signature prepared_input metadata_only"
| "channel_apply iv b3 vf s (JobAccepted i provider_signature) metadata_only = apply_accepted vf s i provider_signature"
| "channel_apply iv b3 vf s (JobRunning i) metadata_only = apply_running s i"
| "channel_apply iv b3 vf s (JobResult i r provider_signature transcript) metadata_only =
    apply_result iv b3 vf s i r provider_signature transcript metadata_only"
| "channel_apply iv b3 vf s (PlaintextReleased i) metadata_only = apply_plaintext s i"
| "channel_apply iv b3 vf s (ResultVerified i) metadata_only = apply_verified iv b3 s i metadata_only"
| "channel_apply iv b3 vf s (JobTerminated i outcome) metadata_only = apply_terminated b3 vf s i outcome"
| "channel_apply iv b3 vf s (CloseHistoryAdvanced parent h) metadata_only = apply_close_history s parent h"
| "channel_apply iv b3 vf s (ClosePrepared start) metadata_only = apply_close_prepared s start"
| "channel_apply iv b3 vf s (CloseOpened start opener deadline claimed) metadata_only =
    apply_close_opened s \<lparr>oc_start_id = start, oc_opener = opener, oc_response_deadline = deadline, oc_claimed = claimed\<rparr>"
| "channel_apply iv b3 vf s (CloseResponded start digest) metadata_only =
    apply_close_responded b3 s \<lparr>ra_start_id = start, ra_response_digest = digest\<rparr>"
| "channel_apply iv b3 vf s (CloseSettled height payload payout) metadata_only =
    apply_close_settled s \<lparr>cl_height = height, cl_payload = payload, cl_provider_payout = payout\<rparr>"

fun is_redundant :: "channel \<Rightarrow> channel_record \<Rightarrow> bool" where
  "is_redundant s (PlaintextReleased i) \<longleftrightarrow> cn_role s = Provider
    \<and> (\<exists>job. job_by_id (cn_book s) i = Some job \<and> phase_delivered (js_phase job))"
| "is_redundant s _ \<longleftrightarrow> False"

section \<open>Revalidating a checkpoint\<close>

definition revalidate_job ::
  "('p, 'q, 'e) invocation \<Rightarrow> blake3 \<Rightarrow> verifier \<Rightarrow> channel \<Rightarrow> bool \<Rightarrow> payment_job \<Rightarrow> (unit, channel_state_error) result" where
  "revalidate_job iv b3 vf s metadata_only job =
    (if js_work_id job \<noteq> work_id b3 (chan s) (js_authorization job) then Err (Ch_WrongChannel ''work_id'')
     else and_then (chan_check_authorization iv s (js_authorization job) (js_prepared_input job) metadata_only) (\<lambda>_.
     if (\<exists>r. phase_only_role (js_phase job) = Some r \<and> r \<noteq> cn_role s)
        \<or> (js_provider_signature job \<noteq> None) \<noteq> (js_phase job \<noteq> HalfSigned)
        \<or> (js_result job \<noteq> None) \<noteq> phase_has_result (js_phase job)
     then Err (Ch_WrongPhase ''replaying a checkpoint'' (phase_name (js_phase job)))
     else if \<not> verify_sig vf (js_client_signature job) (client_key (chan s)) (signing_hash (js_work_id job))
     then Err (Ch_BadSignature ''authorization'' ''the client'')
     else if (\<exists>signature. js_provider_signature job = Some signature
         \<and> \<not> verify_sig vf signature (provider_key (chan s)) (signing_hash (js_work_id job)))
     then Err (Ch_BadSignature ''authorization'' ''the provider'')
     else case js_result job of
         None \<Rightarrow> Ok ()
       | Some (r, signature) \<Rightarrow>
           if js_phase job = Verified \<and> jr_outcome r \<noteq> Finished then Err (Ch_WrongChannel ''verified failed result'')
           else and_then (check_result_payload iv b3 s job r (js_transcript job) metadata_only) (\<lambda>_.
             if \<not> verify_sig vf signature (provider_key (chan s)) (signing_hash (result_digest b3 (chan s) r))
             then Err (Ch_BadSignature ''result'' ''the provider'') else Ok ())))"

definition revalidate_terminal ::
  "blake3 \<Rightarrow> verifier \<Rightarrow> channel \<Rightarrow> payment_terminal \<Rightarrow> (unit, channel_state_error) result" where
  "revalidate_terminal b3 vf s t =
    (if job_by_id (cn_book s) (jt_work_id t) \<noteq> None
     then Err (Ch_Terminated ''replaying a checkpoint with a job still open'' (outcome_name (jt_outcome t)))
     else case jt_outcome t of
         Certified (r, signature) certificate binding binding_signature certificate_signature \<Rightarrow>
           if jr_outcome r \<noteq> Finished \<or> jr_work_id r \<noteq> jt_work_id t \<or> pb_work_id binding \<noteq> jt_work_id t
              \<or> pb_result_digest binding \<noteq> result_digest b3 (chan s) r
              \<or> \<not> verify_sig vf signature (provider_key (chan s)) (signing_hash (result_digest b3 (chan s) r))
           then Err (Ch_WrongChannel ''certified success receipt'')
           else check_signatures vf (client_key (chan s)) ''the client''
             (payment_signatures b3 s binding binding_signature certificate certificate_signature)
       | _ \<Rightarrow> Ok ())"

fun check_each :: "('a \<Rightarrow> (unit, 'e) result) \<Rightarrow> 'a list \<Rightarrow> (unit, 'e) result" where
  "check_each f [] = Ok ()"
| "check_each f (x # xs) = and_then (f x) (\<lambda>_. check_each f xs)"

definition revalidate ::
  "('p, 'q, 'e) invocation \<Rightarrow> blake3 \<Rightarrow> verifier \<Rightarrow> channel \<Rightarrow> bool \<Rightarrow> (unit, channel_state_error) result" where
  "revalidate iv b3 vf s metadata_only =
    (let f = cn_funding s in
     and_then (revalidate_exchange payment_funding (cn_book s) (cn_role s)) (\<lambda>_.
     and_then (case fs_close_history f of Some h \<Rightarrow> check_close_history s h | None \<Rightarrow> Ok ()) (\<lambda>_.
     if credited_cumulative (cn_ledger s) \<noteq> max_executable_certificate s
     then Err (Ch_WrongChannel ''credited cumulative against the terminal'')
     else and_then (check_each (revalidate_job iv b3 vf s metadata_only) (open_jobs s)) (\<lambda>_.
     and_then (check_each (revalidate_terminal b3 vf s) (retained_terminals s)) (\<lambda>_.
     and_then (case fs_close_prepared f of Some start \<Rightarrow> check_close_start s start | None \<Rightarrow> Ok ()) (\<lambda>_.
     case fs_close_responded f of
       None \<Rightarrow> Ok ()
     | Some answer \<Rightarrow>
         (case fs_close_opened f of
            Some contest \<Rightarrow>
              if oc_start_id contest \<noteq> ra_start_id answer then Err (Ch_WrongChannel ''close response start_id'')
              else (case executable_certificate s of
                  None \<Rightarrow> Err (Ch_WrongPhase ''replaying a fixed contest answer'' ''owed no answer'')
                | Some (certificate, _) \<Rightarrow>
                    if ra_response_digest answer \<noteq> response_body_digest b3 (chan s) (oc_start_id contest) certificate
                    then Err (Ch_WrongChannel ''close response digest'') else Ok ())
          | None \<Rightarrow> Err (Ch_WrongChannel ''close response start_id''))))))))"

end
