(* ===== verification/Channel_Invariant.thy ===== *)
theory Channel_Invariant
  imports Channel_State "HOL-Library.Multiset"
begin

text \<open>The invariant of a channel journal and that every record the journal accepts keeps it, on commit and on replay:
  the book is consistent, every signature it ever verified still verifies, the credited amount is the largest
  certificate it holds, a closing channel has no open job, and the provider's exposure stays inside its limits.\<close>

section \<open>Totals over ordered maps\<close>

lemma mset_bt_insert: "bt_wf m \<Longrightarrow> mset (bt_insert k v m) = add_mset (k, v) (mset (bt_remove k m))"
proof (induction k v m rule: bt_insert.induct)
  case (2 k v k' v' m)
  have "bt_remove k m = m" if "k < k'"
    using 2(2) that by (force simp: bt_remove_def bt_wf_Cons filter_id_conv)
  moreover have "bt_remove k m = m" if "k = k'"
    using 2(2) that by (force simp: bt_remove_def bt_wf_Cons filter_id_conv)
  ultimately show ?case using 2 by (auto simp: bt_remove_def bt_wf_Cons)
qed (simp add: bt_remove_def)

lemma mset_bt_remove: "bt_wf m \<Longrightarrow> bt_get m k = Some v \<Longrightarrow> mset m = add_mset (k, v) (mset (bt_remove k m))"
proof (induction m)
  case (Cons x m)
  obtain k' v' where x: "x = (k', v')" by force
  have "bt_remove k m = m" if "k' = k"
    using Cons.prems(1) that by (force simp: bt_remove_def bt_wf_Cons filter_id_conv x)
  with Cons show ?case by (auto simp: bt_remove_def bt_wf_Cons bt_get_def x split: if_splits)
qed (simp add: bt_get_def)

lemma bt_remove_absent: "bt_get m k = None \<Longrightarrow> bt_remove k m = m"
  by (force simp: bt_get_def bt_remove_def map_of_eq_None_iff filter_id_conv)

definition bt_total :: "('v \<Rightarrow> nat) \<Rightarrow> ('k \<times> 'v) list \<Rightarrow> nat" where
  "bt_total f m = (\<Sum>v\<leftarrow>map snd m. f v)"

lemma bt_total_mset: "bt_total f m = (\<Sum>(k, v)\<in>#mset m. f v)"
  by (induction m) (auto simp: bt_total_def)

lemma bt_total_insert_new: "bt_wf m \<Longrightarrow> bt_get m k = None \<Longrightarrow> bt_total f (bt_insert k v m) = f v + bt_total f m"
  by (simp add: bt_total_mset mset_bt_insert bt_remove_absent)

lemma bt_total_remove: "bt_wf m \<Longrightarrow> bt_get m k = Some v \<Longrightarrow> bt_total f m = f v + bt_total f (bt_remove k m)"
  by (simp add: bt_total_mset mset_bt_remove)

lemma bt_total_remove_le: "bt_wf m \<Longrightarrow> bt_total f (bt_remove k m) \<le> bt_total f m"
  by (cases "bt_get m k") (simp_all add: bt_remove_absent bt_total_remove)

lemma bt_total_insert:
  "bt_wf m \<Longrightarrow> bt_get m k = Some u \<Longrightarrow> bt_total f (bt_insert k v m) + f u = bt_total f m + f v"
  using bt_total_remove [of m k u f] by (simp add: bt_total_mset mset_bt_insert)

lemma bt_total_filter: "(\<Sum>v\<leftarrow>filter P (map snd m). f v) = bt_total (\<lambda>v. if P v then f v else 0) m"
  by (induction m) (auto simp: bt_total_def)

lemma unat_saturating_sum:
  "unat (foldl saturating_add a xs) = min (unat a + (\<Sum>x\<leftarrow>xs. unat x)) (2 ^ 64 - 1)"
proof (induction xs arbitrary: a)
  case Nil then show ?case using unat_u64_less [of a] by (simp add: min_def)
next
  case (Cons x xs) then show ?case by (simp add: unat_saturating_add min_def)
qed

section \<open>The largest payment\<close>

lemma max_by_key_fold:
  fixes f :: "'a \<Rightarrow> 'k::linorder"
  shows "foldl (\<lambda>acc x. case acc of None \<Rightarrow> Some x | Some m \<Rightarrow> if f m \<le> f x then Some x else Some m) (Some m) xs = Some y
    \<Longrightarrow> y \<in> insert m (set xs) \<and> f m \<le> f y \<and> (\<forall>x \<in> set xs. f x \<le> f y)"
proof (induction xs arbitrary: m)
  case (Cons x xs)
  show ?case
  proof (cases "f m \<le> f x")
    case True with Cons.prems Cons.IH [of x] show ?thesis by auto
  next
    case False with Cons.prems Cons.IH [of m] show ?thesis by auto
  qed
qed simp

lemma max_by_key_Some: "max_by_key f xs = Some y \<Longrightarrow> y \<in> set xs \<and> (\<forall>x \<in> set xs. f x \<le> f y)"
proof (cases xs)
  case (Cons x ys)
  assume "max_by_key f xs = Some y"
  then show ?thesis using max_by_key_fold [of f x ys y] by (auto simp: max_by_key_def Cons)
qed (simp add: max_by_key_def)

lemma max_by_key_None: "max_by_key f xs = None \<longleftrightarrow> xs = []"
proof -
  have "foldl (\<lambda>acc x. case acc of None \<Rightarrow> Some x | Some m \<Rightarrow> if f m \<le> f x then Some x else Some m) (Some m) ys \<noteq> None" for m ys
    by (induction ys arbitrary: m) auto
  then show ?thesis by (cases xs) (auto simp: max_by_key_def)
qed

text \<open>The certificates a channel holds, one per certified terminal.\<close>

definition held_certificate :: "channel \<Rightarrow> bytes32 \<Rightarrow> earned_certificate \<Rightarrow> bool" where
  "held_certificate s i certificate \<longleftrightarrow> (\<exists>t sr binding bs cs. terminal_by_id (cn_book s) i = Some t
    \<and> jt_outcome t = Certified sr certificate binding bs cs)"

lemma set_map_filter_iff: "y \<in> set (List.map_filter f xs) \<longleftrightarrow> (\<exists>x \<in> set xs. f x = Some y)"
  by (induction xs) (auto simp: split: option.splits)

lemma retained_terminals_iff:
  "book_ok fd (cn_book s) \<Longrightarrow> t \<in> set (retained_terminals s) \<longleftrightarrow> (\<exists>i. terminal_by_id (cn_book s) i = Some t)"
  using bt_entry [OF book_okD(2)] by (force simp: terminal_by_id_def)

lemma open_jobs_iff:
  "book_ok fd (cn_book s) \<Longrightarrow> job \<in> set (open_jobs s) \<longleftrightarrow> (\<exists>i. job_by_id (cn_book s) i = Some job)"
  using bt_entry [OF book_okD(1)] by (force simp: job_by_id_def)

lemma payment_of_Some:
  "payment_of s i = Some p \<longleftrightarrow> (\<exists>t. terminal_by_id (cn_book s) i = Some t \<and> payment_from_terminal t = Some p)"
  by (simp add: payment_of_def bind_eq_Some_conv del: payment_from_terminal.simps)

lemma payments_held:
  "book_ok fd (cn_book s) \<Longrightarrow> p \<in> set (List.map_filter payment_from_terminal (retained_terminals s)) \<longleftrightarrow>
    (\<exists>i. payment_of s i = Some p)"
  unfolding set_map_filter_iff payment_of_Some Bex_def retained_terminals_iff by blast

lemma payment_of_held:
  "held_certificate s i certificate \<longleftrightarrow> (\<exists>p. payment_of s i = Some p \<and> pd_certificate p = certificate)"
proof -
  have "(\<exists>sr binding bs cs. jt_outcome t = Certified sr certificate binding bs cs) \<longleftrightarrow>
    (\<exists>p. payment_from_terminal t = Some p \<and> pd_certificate p = certificate)" for t
    by (cases "jt_outcome t") auto
  then show ?thesis unfolding held_certificate_def payment_of_Some by blast
qed

text \<open>The largest certificate bounds every one held, and is one of them unless there is none.\<close>

lemma max_executable_bound:
  assumes "book_ok fd (cn_book s)" "held_certificate s i certificate"
  shows "ec_earned_cumulative certificate \<le> max_executable_certificate s"
proof -
  let ?ps = "List.map_filter payment_from_terminal (retained_terminals s)"
  from assms(2) obtain p where p: "payment_of s i = Some p" "pd_certificate p = certificate"
    unfolding payment_of_held by blast
  then have m: "p \<in> set ?ps" using payments_held [OF assms(1)] by blast
  then have "last_payment s \<noteq> None" unfolding last_payment_def max_by_key_None by auto
  then obtain q where q: "last_payment s = Some q" by blast
  from max_by_key_Some [OF q [unfolded last_payment_def]] m p(2)
  show ?thesis by (auto simp: q max_executable_certificate_def)
qed

lemma last_payment_held:
  assumes "book_ok fd (cn_book s)" "last_payment s = Some p"
  shows "payment_of s (pd_work_id p) = Some p"
proof -
  from max_by_key_Some [OF assms(2) [unfolded last_payment_def]] payments_held [OF assms(1)]
  obtain i where i: "payment_of s i = Some p" by blast
  then obtain t where t: "terminal_by_id (cn_book s) i = Some t" "payment_from_terminal t = Some p"
    unfolding payment_of_Some by blast
  have "pd_work_id p = jt_work_id t" using t(2) by (cases "jt_outcome t") auto
  then show ?thesis using book_okD(5) [OF assms(1) t(1)] i by simp
qed

lemma last_payment_None:
  assumes "book_ok fd (cn_book s)"
  shows "last_payment s = None \<longleftrightarrow> (\<forall>i c. \<not> held_certificate s i c)"
proof -
  have "last_payment s = None \<longleftrightarrow> set (List.map_filter payment_from_terminal (retained_terminals s)) = {}"
    by (simp add: last_payment_def max_by_key_None)
  also have "\<dots> \<longleftrightarrow> (\<forall>p i. payment_of s i \<noteq> Some p)"
    unfolding set_eq_iff payments_held [OF assms] by simp
  finally show ?thesis unfolding payment_of_held by auto
qed

text \<open>The largest certificate is fixed by the certificates held.\<close>

lemma max_executable_eq:
  assumes ok: "book_ok fd (cn_book s)" and held: "held_certificate s i c"
    and top: "\<And>j d. held_certificate s j d \<Longrightarrow> ec_earned_cumulative d \<le> ec_earned_cumulative c"
  shows "max_executable_certificate s = ec_earned_cumulative c"
proof -
  obtain p where p: "last_payment s = Some p" using last_payment_None [OF ok] held by (cases "last_payment s") auto
  then have "held_certificate s (pd_work_id p) (pd_certificate p)"
    using last_payment_held [OF ok] unfolding payment_of_held by blast
  with top p have "max_executable_certificate s \<le> ec_earned_cumulative c" by (auto simp: max_executable_certificate_def)
  with max_executable_bound [OF ok held] show ?thesis by simp
qed

section \<open>The invariant\<close>

text \<open>What a job's record still proves: it is authorized on this channel under its own work id, its phase belongs to
  the role, and every signature it carries verifies.\<close>

definition job_signed :: "blake3 \<Rightarrow> verifier \<Rightarrow> channel \<Rightarrow> payment_job \<Rightarrow> bool" where
  "job_signed b3 vf s job \<longleftrightarrow> js_work_id job = work_id b3 (chan s) (js_authorization job)
    \<and> pj_channel_id (js_authorization job) = ch_id (chan s)
    \<and> (\<forall>r. phase_only_role (js_phase job) = Some r \<longrightarrow> cn_role s = r)
    \<and> verify_sig vf (js_client_signature job) (client_key (chan s)) (signing_hash (js_work_id job))
    \<and> (\<forall>g. js_provider_signature job = Some g \<longrightarrow> verify_sig vf g (provider_key (chan s)) (signing_hash (js_work_id job)))
    \<and> (\<forall>r g. js_result job = Some (r, g) \<longrightarrow> jr_work_id r = js_work_id job
        \<and> (js_phase job = Verified \<longrightarrow> jr_outcome r = Finished)
        \<and> verify_sig vf g (provider_key (chan s)) (signing_hash (result_digest b3 (chan s) r)))"

text \<open>What a payment proves on its own: the provider signed that this job finished, the client signed the certificate
  for this edge and its terms, and the client's binding ties the certificate to the job and to that result.\<close>

definition payment_signed ::
  "blake3 \<Rightarrow> verifier \<Rightarrow> channel \<Rightarrow> bytes32 \<Rightarrow> paid_job_result \<times> sig \<Rightarrow> earned_certificate \<Rightarrow> payment_binding \<Rightarrow> sig \<Rightarrow> sig \<Rightarrow> bool" where
  "payment_signed b3 vf s i sr certificate binding binding_signature certificate_signature \<longleftrightarrow>
    jr_outcome (fst sr) = Finished \<and> jr_work_id (fst sr) = i
    \<and> verify_sig vf (snd sr) (provider_key (chan s)) (signing_hash (result_digest b3 (chan s) (fst sr)))
    \<and> binding = \<lparr>pb_work_id = i, pb_result_digest = result_digest b3 (chan s) (fst sr),
        pb_certificate_digest = certificate_digest b3 (ch_network (chan s)) certificate\<rparr>
    \<and> ec_payment_edge certificate = ch_payment_edge (chan s)
    \<and> ec_payment_terms_hash certificate = ch_payment_terms_hash (chan s)
    \<and> ec_earned_cumulative certificate \<le> st_capacity (fs_settlement (cn_funding s))
    \<and> verify_sig vf binding_signature (client_key (chan s)) (signing_hash (payment_binding_digest b3 (chan s) binding))
    \<and> verify_sig vf certificate_signature (client_key (chan s)) (certificate_digest b3 (ch_network (chan s)) certificate)"

definition terminal_signed :: "blake3 \<Rightarrow> verifier \<Rightarrow> channel \<Rightarrow> payment_terminal \<Rightarrow> bool" where
  "terminal_signed b3 vf s t \<longleftrightarrow> (case jt_outcome t of
      Certified sr certificate binding bs cs \<Rightarrow> payment_signed b3 vf s (jt_work_id t) sr certificate binding bs cs
    | _ \<Rightarrow> True)"

text \<open>The prices of the open jobs, and of those whose plaintext left the provider.\<close>

definition reserved_price :: "payment_job \<Rightarrow> nat" where "reserved_price job = unat (pj_price (js_authorization job))"

definition delivered_price :: "payment_job \<Rightarrow> nat" where
  "delivered_price job = (if phase_delivered (js_phase job) then reserved_price job else 0)"

definition within_limit :: "nat \<Rightarrow> u64 \<Rightarrow> bool" where
  "within_limit n limit \<longleftrightarrow> limit = -1 \<or> n \<le> unat limit"

definition exposure_ok :: "channel \<Rightarrow> bool" where
  "exposure_ok s \<longleftrightarrow> (cn_role s = Provider \<longrightarrow>
    within_limit (bt_total reserved_price (jb_jobs (cn_book s))) (cp_compute_credit_limit (ch_policy (chan s)))
    \<and> within_limit (bt_total delivered_price (jb_jobs (cn_book s))) (cp_delivery_credit_limit (ch_policy (chan s))))"

definition account_ok :: "blake3 \<Rightarrow> verifier \<Rightarrow> channel \<Rightarrow> bool" where
  "account_ok b3 vf s \<longleftrightarrow> book_ok payment_funding (cn_book s)
    \<and> (\<forall>i job. job_by_id (cn_book s) i = Some job \<longrightarrow> job_signed b3 vf s job)
    \<and> (\<forall>i t. terminal_by_id (cn_book s) i = Some t \<longrightarrow> terminal_signed b3 vf s t)
    \<and> credited_cumulative (cn_ledger s) = max_executable_certificate s
    \<and> (jb_pending_proposal (cn_book s) \<noteq> None \<longrightarrow> cn_role s = Client)
    \<and> exposure_ok s"

definition answer_ok :: "blake3 \<Rightarrow> channel \<Rightarrow> responded_contest \<Rightarrow> bool" where
  "answer_ok b3 s answer \<longleftrightarrow> (\<exists>contest certificate g. fs_close_opened (cn_funding s) = Some contest
    \<and> oc_start_id contest = ra_start_id answer \<and> executable_certificate s = Some (certificate, g)
    \<and> ra_response_digest answer = response_body_digest b3 (chan s) (oc_start_id contest) certificate)"

definition close_ok :: "blake3 \<Rightarrow> channel \<Rightarrow> bool" where
  "close_ok b3 s \<longleftrightarrow> (is_closing s \<longrightarrow> jb_jobs (cn_book s) = [])
    \<and> (\<forall>h. fs_close_history (cn_funding s) = Some h \<longrightarrow> check_close_history s h = Ok ())
    \<and> (\<forall>answer. fs_close_responded (cn_funding s) = Some answer \<longrightarrow> answer_ok b3 s answer)"

definition channel_ok :: "blake3 \<Rightarrow> verifier \<Rightarrow> channel \<Rightarrow> bool" where
  "channel_ok b3 vf s \<longleftrightarrow> account_ok b3 vf s \<and> close_ok b3 s"

section \<open>Steps on the funding state\<close>

lemma update_funding_sel [simp]:
  "cn_funding (update_funding f s) = f (cn_funding s)" "cn_ledger (update_funding f s) = cn_ledger s"
  "cn_role (update_funding f s) = cn_role s" "cn_book (update_funding f s) = cn_book s"
  by (simp_all add: update_funding_def)

text \<open>What is read of the book alone.\<close>

lemma book_reads:
  assumes "cn_book s' = cn_book s"
  shows "last_payment s' = last_payment s" "max_executable_certificate s' = max_executable_certificate s"
    "executable_certificate s' = executable_certificate s" "payment_of s' i = payment_of s i"
    "held_certificate s' i c = held_certificate s i c"
  by (simp_all add: assms last_payment_def max_executable_certificate_def executable_certificate_def payment_of_def
      held_certificate_def)

lemma account_ok_funding:
  assumes "fs_channel (f (cn_funding s)) = chan s" "fs_settlement (f (cn_funding s)) = fs_settlement (cn_funding s)"
  shows "account_ok b3 vf (update_funding f s) = account_ok b3 vf s"
proof -
  have "job_signed b3 vf (update_funding f s) = job_signed b3 vf s"
    "terminal_signed b3 vf (update_funding f s) = terminal_signed b3 vf s"
    using assms by (auto simp: job_signed_def terminal_signed_def payment_signed_def fun_eq_iff split: terminal_outcome.split)
  then show ?thesis using assms book_reads [of "update_funding f s" s] by (simp add: account_ok_def exposure_ok_def)
qed

lemma is_closing_funding:
  "is_closing s = (fs_close_opened (cn_funding s) \<noteq> None \<or> fs_close_settled (cn_funding s) \<noteq> None
    \<or> (\<exists>start. fs_close_prepared (cn_funding s) = Some start \<and> cursor_height s \<le> ps_valid_through_height start))"
  by (auto simp: is_closing_def includable_close_start_def split: option.splits)

lemma refuse_open_job_Ok [result_elims]: "refuse_open_job s step = Ok u \<longleftrightarrow> jb_jobs (cn_book s) = []"
  by (cases "jb_jobs (cn_book s)") (auto simp: refuse_open_job_def)

lemma check_close_history_opened: "check_close_history s h = Ok () \<Longrightarrow> fs_close_opened (cn_funding s) \<noteq> None"
  by (auto simp: check_close_history_def and_then_eq_Ok ok_or_eq_Ok)

lemma check_close_history_cong:
  assumes "fs_close_opened (cn_funding s') = fs_close_opened (cn_funding s)" "chan s' = chan s"
    "fs_settlement (cn_funding s') = fs_settlement (cn_funding s)" "cursor_height s \<le> cursor_height s'"
    and "check_close_history s h = Ok ()"
  shows "check_close_history s' h = Ok ()"
proof -
  have "saturating_add (cursor_height s) 1 \<le> saturating_add (cursor_height s') 1"
    using assms(4) by (simp add: word_le_nat_alt unat_saturating_add)
  with assms show ?thesis
    by (auto simp: check_close_history_def Let_def and_then_eq_Ok ok_or_eq_Ok split: if_splits dest: order.strict_trans1)
qed

lemma answer_ok_opened: "answer_ok b3 s answer \<Longrightarrow> fs_close_opened (cn_funding s) \<noteq> None"
  by (auto simp: answer_ok_def)

text \<open>A step on the funding state may only add a history entry or an answer that was checked, may only open a contest
  where there was none, and may not close over an open job.\<close>

lemma close_ok_funding:
  assumes ok: "close_ok b3 s" and same: "cn_book s' = cn_book s" "chan s' = chan s"
      "fs_settlement (cn_funding s') = fs_settlement (cn_funding s)"
    and cursor: "cursor_height s \<le> cursor_height s'"
    and opened: "fs_close_opened (cn_funding s') = fs_close_opened (cn_funding s) \<or> fs_close_opened (cn_funding s) = None"
    and history: "\<And>h. fs_close_history (cn_funding s') = Some h \<Longrightarrow>
      fs_close_history (cn_funding s) = Some h \<or> check_close_history s h = Ok ()"
    and responded: "\<And>a. fs_close_responded (cn_funding s') = Some a \<Longrightarrow>
      fs_close_responded (cn_funding s) = Some a \<or> answer_ok b3 s a"
    and closing: "is_closing s' \<Longrightarrow> is_closing s \<or> jb_jobs (cn_book s) = []"
  shows "close_ok b3 s'"
  unfolding close_ok_def
proof (intro conjI allI impI)
  show "jb_jobs (cn_book s') = []" if "is_closing s'" using closing [OF that] ok same(1) by (auto simp: close_ok_def)
next
  fix h assume "fs_close_history (cn_funding s') = Some h"
  with history ok have c: "check_close_history s h = Ok ()" by (auto simp: close_ok_def)
  with opened have "fs_close_opened (cn_funding s') = fs_close_opened (cn_funding s)"
    using check_close_history_opened by blast
  then show "check_close_history s' h = Ok ()" by (rule check_close_history_cong [OF _ same(2,3) cursor c])
next
  fix a assume "fs_close_responded (cn_funding s') = Some a"
  with responded ok have a: "answer_ok b3 s a" by (auto simp: close_ok_def)
  with opened have "fs_close_opened (cn_funding s') = fs_close_opened (cn_funding s)"
    using answer_ok_opened by blast
  with a show "answer_ok b3 s' a" using book_reads(3) [OF same(1)] same(2) by (simp add: answer_ok_def)
qed

lemma channel_ok_funding:
  assumes "channel_ok b3 vf s" "fs_channel (f (cn_funding s)) = chan s"
    "fs_settlement (f (cn_funding s)) = fs_settlement (cn_funding s)"
    "close_ok b3 s \<Longrightarrow> close_ok b3 (update_funding f s)"
  shows "channel_ok b3 vf (update_funding f s)"
  using assms account_ok_funding [of f s b3 vf] by (simp add: channel_ok_def)

lemma apply_origin_observed_ok:
  "apply_origin_observed s = Ok (ap, s') \<Longrightarrow> channel_ok b3 vf s \<Longrightarrow> channel_ok b3 vf s'"
  by (auto simp: apply_origin_observed_def split: if_splits intro!: channel_ok_funding elim!: close_ok_funding
      simp: is_closing_funding)

lemma saturating_add_ge: "(a :: u64) \<le> saturating_add a b"
  using unat_u64_less [of a] by (simp add: word_le_nat_alt unat_saturating_add)

lemma reading_Changed:
  assumes "reading s height parent payload = Ok Changed"
  shows "cursor_height s \<le> height"
  using assms saturating_add_ge [of "cursor_height s" 1] by (auto simp: reading_def split: if_splits prod.splits)

lemma apply_cursor_ok:
  assumes "apply_cursor s height parent payload = Ok (ap, s')" "channel_ok b3 vf s"
  shows "channel_ok b3 vf s'"
proof -
  obtain r where "reading s height parent payload = Ok r" using assms(1) by (auto simp: apply_cursor_def and_then_eq_Ok)
  with assms(1) consider "s' = s" | "reading s height parent payload = Ok Changed"
    "s' = update_funding (fs_cursor_update (\<lambda>_. (height, payload))) s"
    by (cases r) (auto simp: apply_cursor_def)
  then show ?thesis
  proof cases
    case 2
    from reading_Changed [OF 2(1)] show ?thesis unfolding 2(2)
      by (intro channel_ok_funding [OF assms(2)])
        (auto elim!: close_ok_funding simp: is_closing_funding dest: order_trans)
  qed (use assms(2) in simp)
qed

lemma apply_close_history_ok:
  "apply_close_history s parent h = Ok (ap, s') \<Longrightarrow> channel_ok b3 vf s \<Longrightarrow> channel_ok b3 vf s'"
  by (auto simp: apply_close_history_def and_then_eq_Ok is_closing_funding split: if_splits
      intro!: channel_ok_funding elim!: close_ok_funding)

lemma apply_close_prepared_ok:
  "apply_close_prepared s start = Ok (ap, s') \<Longrightarrow> channel_ok b3 vf s \<Longrightarrow> channel_ok b3 vf s'"
  by (auto simp: apply_close_prepared_def and_then_eq_Ok refuse_open_job_Ok split: if_splits
      intro!: channel_ok_funding elim!: close_ok_funding)

lemma apply_close_opened_ok:
  "apply_close_opened s contest = Ok (ap, s') \<Longrightarrow> channel_ok b3 vf s \<Longrightarrow> channel_ok b3 vf s'"
  by (auto simp: apply_close_opened_def and_then_eq_Ok refuse_open_job_Ok split: if_splits
      intro!: channel_ok_funding elim!: close_ok_funding)

lemma apply_close_settled_ok:
  "apply_close_settled s settled = Ok (ap, s') \<Longrightarrow> channel_ok b3 vf s \<Longrightarrow> channel_ok b3 vf s'"
  by (auto simp: apply_close_settled_def and_then_eq_Ok refuse_open_job_Ok split: if_splits
      intro!: channel_ok_funding elim!: close_ok_funding)

lemma answerable_contest_Some:
  "answerable_contest s = Some (contest, certificate, g) \<longleftrightarrow> cn_role s = Provider \<and> fs_close_settled (cn_funding s) = None
    \<and> (\<forall>h. fs_close_history (cn_funding s) = Some h \<longrightarrow> \<not> pc_responded (hi_pending h))
    \<and> fs_close_opened (cn_funding s) = Some contest \<and> oc_opener contest = Maker
    \<and> cursor_height s < oc_response_deadline contest \<and> executable_certificate s = Some (certificate, g)
    \<and> oc_claimed contest < ec_earned_cumulative certificate"
  by (auto simp: answerable_contest_def Let_def bind_eq_Some_conv not_le split: if_splits)

lemma apply_close_responded_Ok:
  assumes "apply_close_responded b3 s answer = Ok (ap, s')"
  shows "(ap = Redundant \<and> s' = s \<and> fs_close_responded (cn_funding s) = Some answer)
    \<or> (ap = Changed \<and> s' = update_funding (fs_close_responded_update (\<lambda>_. Some answer)) s
      \<and> fs_close_responded (cn_funding s) = None \<and> answer_ok b3 s answer
      \<and> (\<exists>contest certificate g. answerable_contest s = Some (contest, certificate, g)))"
proof (cases "answerable_contest s")
  case (Some x)
  obtain contest certificate g where x: "x = (contest, certificate, g)" by (metis prod_cases3)
  show ?thesis using assms Some answerable_contest_Some [of s contest certificate g]
    by (auto simp: apply_close_responded_def and_then_eq_Ok x answer_ok_def split: if_splits)
qed (use assms in \<open>auto simp: apply_close_responded_def and_then_eq_Ok split: if_splits\<close>)

lemma apply_close_responded_ok:
  assumes "apply_close_responded b3 s answer = Ok (ap, s')" "channel_ok b3 vf s"
  shows "channel_ok b3 vf s'"
proof -
  from apply_close_responded_Ok [OF assms(1)] show ?thesis using assms(2)
    by (auto simp: is_closing_funding intro!: channel_ok_funding elim!: close_ok_funding)
qed

section \<open>Steps on the book\<close>

text \<open>A step on the book of a channel that is not closing leaves nothing to check about the close.\<close>

lemma close_ok_idle:
  assumes "close_ok b3 s" "\<not> is_closing s" "cn_funding s' = cn_funding s"
  shows "close_ok b3 s'"
proof -
  have "\<not> is_closing s'" using assms(2,3) by (simp add: is_closing_funding)
  moreover have "fs_close_opened (cn_funding s) = None" using assms(2) by (simp add: is_closing_funding)
  then have "\<And>h. check_close_history s h \<noteq> Ok ()" "\<And>a. \<not> answer_ok b3 s a"
    using check_close_history_opened answer_ok_opened by blast+
  then have "fs_close_history (cn_funding s) = None" "fs_close_responded (cn_funding s) = None"
    using assms(1) by (simp_all add: close_ok_def)
  ultimately show ?thesis using assms(3) by (simp add: close_ok_def)
qed

lemma open_job_not_closing:
  assumes "close_ok b3 s" "job_by_id (cn_book s) i = Some job"
  shows "\<not> is_closing s"
  using assms by (auto simp: close_ok_def job_by_id_def bt_get_def)

lemma max_executable_terminals:
  "jb_terminals (cn_book s') = jb_terminals (cn_book s) \<Longrightarrow> max_executable_certificate s' = max_executable_certificate s"
  by (simp add: max_executable_certificate_def last_payment_def)

text \<open>A step that keeps the terminals keeps the ledger's part, given that each job it wrote is signed and the exposure
  is still inside the limits.\<close>

lemma account_ok_book:
  assumes ok: "account_ok b3 vf s" and book: "book_ok payment_funding b'"
    and same: "jb_terminals b' = jb_terminals (cn_book s)"
    and jobs: "\<And>i job. job_by_id b' i = Some job \<Longrightarrow> job_by_id (cn_book s) i = Some job \<or> job_signed b3 vf s job"
    and pending: "jb_pending_proposal b' \<noteq> None \<Longrightarrow> jb_pending_proposal (cn_book s) \<noteq> None \<or> cn_role s = Client"
    and exposure: "exposure_ok s \<Longrightarrow> exposure_ok (s\<lparr>cn_book := b'\<rparr>)"
  shows "account_ok b3 vf (s\<lparr>cn_book := b'\<rparr>)"
proof -
  have signed: "job_signed b3 vf (s\<lparr>cn_book := b'\<rparr>) = job_signed b3 vf s"
    "terminal_signed b3 vf (s\<lparr>cn_book := b'\<rparr>) = terminal_signed b3 vf s"
    by (auto simp: job_signed_def terminal_signed_def payment_signed_def fun_eq_iff split: terminal_outcome.split)
  have "job_signed b3 vf s job" if "job_by_id b' i = Some job" for i job
    using jobs [OF that] ok by (auto simp: account_ok_def)
  moreover have "terminal_signed b3 vf s t" if "terminal_by_id b' i = Some t" for i t
    using that ok same by (auto simp: account_ok_def terminal_by_id_def)
  moreover have "max_executable_certificate (s\<lparr>cn_book := b'\<rparr>) = max_executable_certificate s"
    using same by (intro max_executable_terminals) simp
  ultimately show ?thesis using ok book pending exposure by (auto simp: account_ok_def signed)
qed

lemma channel_ok_book:
  assumes "channel_ok b3 vf s" "\<not> is_closing s" "account_ok b3 vf s \<Longrightarrow> account_ok b3 vf s'" "cn_funding s' = cn_funding s"
  shows "channel_ok b3 vf s'"
  using assms close_ok_idle by (auto simp: channel_ok_def)

lemma within_limit_saturating:
  assumes "saturating_add (foldl saturating_add 0 xs) v \<le> limit"
  shows "within_limit ((\<Sum>x\<leftarrow>xs. unat x) + unat v) limit"
proof (cases "limit = -1")
  case False
  then have "unat limit \<noteq> unat (-1 :: u64)" by (simp add: word_unat_eq_iff)
  then have "unat limit \<noteq> 2 ^ 64 - 1" by (simp add: unsigned_minus_1_eq_mask mask_eq_exp_minus_1)
  then have "unat limit < 2 ^ 64 - 1" using unat_u64_less [of limit] by simp
  moreover have "unat (saturating_add (foldl saturating_add 0 xs) v) \<le> unat limit" using assms by (simp add: word_le_nat_alt)
  ultimately show ?thesis by (simp add: within_limit_def unat_saturating_add unat_saturating_sum min_def split: if_splits)
qed (simp add: within_limit_def)

lemma check_compute_limit_Ok:
  assumes "check_compute_limit s price = Ok ()"
  shows "within_limit (bt_total reserved_price (jb_jobs (cn_book s)) + unat price) (cp_compute_credit_limit (ch_policy (chan s)))"
proof -
  let ?xs = "map (\<lambda>job. pj_price (js_authorization job)) (open_jobs s)"
  have "(\<Sum>x\<leftarrow>?xs. unat x) = bt_total reserved_price (jb_jobs (cn_book s))"
    by (simp add: bt_total_def reserved_price_def [abs_def] comp_def)
  with within_limit_saturating [of ?xs price] assms show ?thesis
    by (simp add: check_compute_limit_def Let_def not_less split: if_splits)
qed

lemma check_delivery_limit_Ok:
  assumes "check_delivery_limit s price = Ok ()"
  shows "within_limit (bt_total delivered_price (jb_jobs (cn_book s)) + unat price) (cp_delivery_credit_limit (ch_policy (chan s)))"
proof -
  let ?xs = "map (\<lambda>job. pj_price (js_authorization job)) (filter (\<lambda>job. phase_delivered (js_phase job)) (open_jobs s))"
  have "(\<Sum>x\<leftarrow>?xs. unat x) = (\<Sum>job\<leftarrow>filter (\<lambda>job. phase_delivered (js_phase job)) (open_jobs s). reserved_price job)"
    by (simp add: reserved_price_def [abs_def] comp_def)
  also have "\<dots> = bt_total delivered_price (jb_jobs (cn_book s))"
    unfolding bt_total_filter by (simp add: delivered_price_def [abs_def])
  finally show ?thesis using within_limit_saturating [of ?xs price] assms
    by (simp add: check_delivery_limit_def Let_def not_less split: if_splits)
qed

lemma within_limit_mono: "within_limit n limit \<Longrightarrow> m \<le> n \<Longrightarrow> within_limit m limit"
  by (auto simp: within_limit_def)

text \<open>Replacing an open job by one with the same authorization keeps the exposure, unless it is newly delivered: then
  the delivery limit must have been checked.\<close>

lemma exposure_ok_put:
  assumes ok: "exposure_ok s" and wf: "bt_wf (jb_jobs (cn_book s))" and held: "job_by_id (cn_book s) i = Some job"
    and jobs: "jb_jobs b' = bt_insert i job' (jb_jobs (cn_book s))" and same: "js_authorization job' = js_authorization job"
    and delivered: "phase_delivered (js_phase job') \<Longrightarrow> \<not> phase_delivered (js_phase job)
      \<Longrightarrow> cn_role s = Provider \<Longrightarrow> check_delivery_limit s (pj_price (js_authorization job)) = Ok ()"
  shows "exposure_ok (s\<lparr>cn_book := b'\<rparr>)"
proof (cases "cn_role s")
  case Provider
  have g: "bt_get (jb_jobs (cn_book s)) i = Some job" using held by (simp add: job_by_id_def)
  have r: "bt_total reserved_price (jb_jobs b') = bt_total reserved_price (jb_jobs (cn_book s))"
    using bt_total_insert [OF wf g, of reserved_price job'] same by (simp add: jobs reserved_price_def)
  have d: "bt_total delivered_price (jb_jobs b') + delivered_price job = bt_total delivered_price (jb_jobs (cn_book s)) + delivered_price job'"
    using bt_total_insert [OF wf g, of delivered_price job'] by (simp add: jobs)
  have "within_limit (bt_total delivered_price (jb_jobs b')) (cp_delivery_credit_limit (ch_policy (chan s)))"
  proof (cases "phase_delivered (js_phase job') \<and> \<not> phase_delivered (js_phase job)")
    case True
    with d same have "bt_total delivered_price (jb_jobs b')
        = bt_total delivered_price (jb_jobs (cn_book s)) + unat (pj_price (js_authorization job))"
      by (simp add: delivered_price_def reserved_price_def)
    then show ?thesis using check_delivery_limit_Ok delivered True Provider by simp
  next
    case False
    with d same have "bt_total delivered_price (jb_jobs b') \<le> bt_total delivered_price (jb_jobs (cn_book s))"
      by (auto simp: delivered_price_def reserved_price_def split: if_splits)
    then show ?thesis using ok Provider within_limit_mono by (auto simp: exposure_ok_def)
  qed
  then show ?thesis using ok Provider r by (simp add: exposure_ok_def)
qed (simp add: exposure_ok_def)

lemma channel_ok_put:
  assumes ok: "channel_ok b3 vf s" and held: "job_by_id (cn_book s) i = Some job"
    and book: "book_ok payment_funding b'" "jb_jobs b' = bt_insert i job' (jb_jobs (cn_book s))"
      "jb_terminals b' = jb_terminals (cn_book s)"
      "jb_pending_proposal b' = jb_pending_proposal (cn_book s) \<or> jb_pending_proposal b' = None"
    and job: "js_authorization job' = js_authorization job" "job_signed b3 vf s job'"
    and delivered: "phase_delivered (js_phase job') \<Longrightarrow> \<not> phase_delivered (js_phase job)
      \<Longrightarrow> cn_role s = Provider \<Longrightarrow> check_delivery_limit s (pj_price (js_authorization job)) = Ok ()"
  shows "channel_ok b3 vf (s\<lparr>cn_book := b'\<rparr>)"
proof (rule channel_ok_book [OF ok])
  show "\<not> is_closing s" using ok held open_job_not_closing by (auto simp: channel_ok_def)
  show "account_ok b3 vf (s\<lparr>cn_book := b'\<rparr>)" if l: "account_ok b3 vf s"
  proof (rule account_ok_book [OF l book(1,3)])
    have wf: "bt_wf (jb_jobs (cn_book s))" using l book_okD(1) by (auto simp: account_ok_def)
    show "job_by_id (cn_book s) j = Some x \<or> job_signed b3 vf s x" if "job_by_id b' j = Some x" for j x
      using that wf job(2) by (auto simp: job_by_id_def book(2) split: if_splits)
    show "exposure_ok (s\<lparr>cn_book := b'\<rparr>)" if "exposure_ok s"
      using exposure_ok_put [OF that wf held book(2) job(1)] delivered by blast
  qed (use book(4) in auto)
qed simp

lemma with_book_Ok [result_elims]: "with_book s r = Ok (ap, s') \<longleftrightarrow> (\<exists>b'. r = Ok (ap, b') \<and> s' = s\<lparr>cn_book := b'\<rparr>)"
  by (auto simp: with_book_def and_then_eq_Ok)

lemma require_role_Ok [result_elims]: "require_role s step r = Ok u \<longleftrightarrow> cn_role s = r"
  by (auto simp: require_role_def)

lemma channel_okD:
  assumes "channel_ok b3 vf s"
  shows "book_ok payment_funding (cn_book s)" "job_by_id (cn_book s) i = Some job \<Longrightarrow> job_signed b3 vf s job"
    "terminal_by_id (cn_book s) i = Some t \<Longrightarrow> terminal_signed b3 vf s t"
    "credited_cumulative (cn_ledger s) = max_executable_certificate s"
    "job_by_id (cn_book s) i = Some job \<Longrightarrow> \<not> is_closing s"
  using assms open_job_not_closing by (auto simp: channel_ok_def account_ok_def)

lemma apply_proposal_exchange_ok:
  assumes "apply_proposal_exchange s i pending = Ok (ap, s')" "channel_ok b3 vf s"
  shows "channel_ok b3 vf s'"
proof -
  from assms(1) obtain b' job where r: "cn_role s = Client" "job_by_id (cn_book s) i = Some job"
    "proposal_exchange payment_funding (cn_book s) i pending = Ok (ap, b')" "s' = s\<lparr>cn_book := b'\<rparr>"
    by (auto simp: apply_proposal_exchange_def and_then_eq_Ok require_role_Ok with_book_Ok proposal_exchange_def open_job_Ok)
  have b': "jb_jobs b' = jb_jobs (cn_book s)" "jb_terminals b' = jb_terminals (cn_book s)"
    using r(3) by (auto simp: proposal_exchange_def and_then_eq_Ok Let_def split: if_splits)
  have "account_ok b3 vf s'" if "account_ok b3 vf s" unfolding r(4)
    by (rule account_ok_book [OF that proposal_exchange_ok [OF r(3) channel_okD(1) [OF assms(2)]] b'(2)])
      (use r(1) b' in \<open>auto simp: job_by_id_def exposure_ok_def\<close>)
  then show ?thesis using channel_ok_book [OF assms(2) channel_okD(5) [OF assms(2) r(2)]] r(4) by simp
qed

lemma apply_accepted_ok:
  assumes "apply_accepted vf s i g = Ok (ap, s')" "channel_ok b3 vf s"
  shows "channel_ok b3 vf s'"
proof (cases "s' = s")
  case False
  with assms(1) obtain job b' where job: "job_by_id (cn_book s) i = Some job" "js_phase job = HalfSigned"
    "js_provider_signature job \<noteq> Some g"
    "verify_sig vf g (provider_key (chan s)) (signing_hash (js_work_id job))"
    and b': "book_accept payment_funding (cn_book s) i g (cursor_height s) (cn_role s) = Ok (ap, b')" "s' = s\<lparr>cn_book := b'\<rparr>"
    by (auto simp: apply_accepted_def and_then_eq_Ok open_job_Ok with_book_Ok split: if_splits)
  have ok: "book_ok payment_funding b'" using book_accept_ok [OF b'(1) channel_okD(1) [OF assms(2)]] .
  have signed: "job_signed b3 vf s (job\<lparr>js_provider_signature := Some g, js_phase := Accepted\<rparr>)"
    using channel_okD(2) [OF assms(2) job(1)] job(4) by (auto simp: job_signed_def phase_only_role_def)
  from b'(1) show ?thesis
  proof (cases rule: book_accept_Ok)
    case (2 job2)
    with job(1) signed show ?thesis unfolding b'(2)
      by (intro channel_ok_put [OF assms(2) job(1) ok]) (auto simp: phase_delivered_def)
  qed (use job in auto)
qed (use assms(2) in simp)

lemma job_signed_phase:
  assumes "job_signed b3 vf s job" "\<And>r. phase_only_role p = Some r \<Longrightarrow> cn_role s = r" "p \<noteq> Verified"
  shows "job_signed b3 vf s (job\<lparr>js_phase := p\<rparr>)"
  using assms by (auto simp: job_signed_def)

lemma apply_running_ok:
  assumes "apply_running s i = Ok (ap, s')" "channel_ok b3 vf s"
  shows "channel_ok b3 vf s'"
proof -
  from assms(1) obtain b' where r: "cn_role s = Provider" and b': "book_run payment_funding (cn_book s) i (cursor_height s) = Ok (ap, b')"
    "s' = s\<lparr>cn_book := b'\<rparr>"
    by (auto simp: apply_running_def and_then_eq_Ok require_role_Ok with_book_Ok)
  have ok: "book_ok payment_funding b'" using book_run_ok [OF b'(1) channel_okD(1) [OF assms(2)]] .
  from b'(1) obtain job where job: "job_by_id (cn_book s) i = Some job"
    "b' = cn_book s \<or> b' = put_job i (job\<lparr>js_phase := Running\<rparr>) (cn_book s)"
    unfolding book_run_Ok by (auto split: if_splits)
  have "job_signed b3 vf s (job\<lparr>js_phase := Running\<rparr>)"
    using channel_okD(2) [OF assms(2) job(1)] r by (intro job_signed_phase) (auto simp: phase_only_role_def)
  with job(2) show ?thesis unfolding b'(2) using ok assms(2)
    by (auto simp: phase_delivered_def intro: channel_ok_put [OF assms(2) job(1)])
qed

lemma apply_plaintext_ok:
  assumes "apply_plaintext s i = Ok (ap, s')" "channel_ok b3 vf s"
  shows "channel_ok b3 vf s'"
proof (cases "s' = s")
  case False
  with assms(1) obtain b' job where r: "cn_role s = Provider" "job_by_id (cn_book s) i = Some job"
    "check_delivery_limit s (pj_price (js_authorization job)) = Ok ()"
    and b': "book_release payment_funding (cn_book s) i = Ok (ap, b')" "s' = s\<lparr>cn_book := b'\<rparr>"
    by (auto simp: apply_plaintext_def and_then_eq_Ok require_role_Ok with_book_Ok open_job_Ok split: if_splits)
  have ok: "book_ok payment_funding b'" using book_release_ok [OF b'(1) channel_okD(1) [OF assms(2)]] .
  from b'(1) r(2) obtain p where p: "b' = cn_book s \<or> b' = put_job i (job\<lparr>js_phase := p\<rparr>) (cn_book s)"
    "p = Streaming \<or> p = Delivered"
    unfolding book_release_Ok by (auto split: if_splits)
  have "job_signed b3 vf s (job\<lparr>js_phase := p\<rparr>)"
    using channel_okD(2) [OF assms(2) r(2)] r(1) p(2) by (intro job_signed_phase) (auto simp: phase_only_role_def)
  with p(1) r show ?thesis unfolding b'(2) using ok assms(2)
    by (auto intro: channel_ok_put [OF assms(2) r(2)])
qed (use assms(2) in simp)

lemma check_result_payload_work: "check_result_payload iv b3 s job r transcript replaying = Ok () \<Longrightarrow> jr_work_id r = js_work_id job"
  by (auto simp: check_result_payload_def split: if_splits)

text \<open>What a recorded result did: nothing, a transcript a replaying client had dropped came back, or a running job became
  ready, or delivered where its stream had already left.\<close>

lemma apply_result_Ok:
  assumes "apply_result iv b3 vf s i r g transcript metadata_only = Ok (ap, s')"
  obtains "ap = Redundant" "s' = s"
  | job where "ap = Changed" "job_by_id (cn_book s) i = Some job" "js_result job = Some (r, g)" "cn_role s = Client"
      "s' = s\<lparr>cn_book := put_job i (job\<lparr>js_transcript := transcript\<rparr>) (cn_book s)\<rparr>"
  | job b' where "ap = Changed" "job_by_id (cn_book s) i = Some job" "js_result job = None"
      "jr_work_id r = js_work_id job" "verify_sig vf g (provider_key (chan s)) (signing_hash (result_digest b3 (chan s) r))"
      "book_record_result payment_funding (cn_book s) i r g transcript = Ok (ap, b')" "s' = s\<lparr>cn_book := b'\<rparr>"
proof -
  from assms obtain job where job: "job_by_id (cn_book s) i = Some job"
    by (auto simp: apply_result_def and_then_eq_Ok open_job_Ok)
  then have o: "open_job payment_funding (cn_book s) i step = Ok job" for step by (simp add: open_job_Ok)
  show ?thesis
  proof (cases "js_result job")
    case None
    with assms o obtain b' where c: "check_result_payload iv b3 s job r transcript metadata_only = Ok ()"
      and r: "verify_sig vf g (provider_key (chan s)) (signing_hash (result_digest b3 (chan s) r))"
      "book_record_result payment_funding (cn_book s) i r g transcript = Ok (ap, b')" "s' = s\<lparr>cn_book := b'\<rparr>"
      by (auto simp: apply_result_def and_then_eq_Ok with_book_Ok Let_def split: if_splits)
    have "ap = Changed" using r(2) unfolding book_record_result_Ok by blast
    then show ?thesis by (rule that(3) [OF _ job None check_result_payload_work [OF c] r])
  next
    case (Some held)
    with assms o have "ap = Redundant \<and> s' = s \<or> ap = Changed \<and> held = (r, g) \<and> cn_role s = Client
      \<and> s' = s\<lparr>cn_book := put_job i (job\<lparr>js_transcript := transcript\<rparr>) (cn_book s)\<rparr>"
      by (cases held) (auto simp: apply_result_def and_then_eq_Ok split: if_splits)
    then show ?thesis using that(1) that(2) [OF _ job] Some by blast
  qed
qed

lemma apply_result_ok:
  assumes "apply_result iv b3 vf s i r g transcript metadata_only = Ok (ap, s')" "channel_ok b3 vf s"
  shows "channel_ok b3 vf s'"
  using assms(1)
proof (cases rule: apply_result_Ok)
  case (2 job)
  have j: "job_ok payment_funding (cn_book s) i job" using book_okD(4) [OF channel_okD(1) [OF assms(2)] 2(2)] .
  have b: "book_ok payment_funding (put_job i (job\<lparr>js_transcript := transcript\<rparr>) (cn_book s))"
    using j book_okD(6,7) [OF channel_okD(1) [OF assms(2)], of i] 2(2)
    by (intro book_ok_put [OF channel_okD(1) [OF assms(2)] 2(2)]) (auto simp: job_ok_def)
  have "job_signed b3 vf s (job\<lparr>js_transcript := transcript\<rparr>)"
    using channel_okD(2) [OF assms(2) 2(2)] by (auto simp: job_signed_def)
  then show ?thesis unfolding 2(5) by (intro channel_ok_put [OF assms(2) 2(2) b]) auto
next
  case (3 job b')
  have ok: "book_ok payment_funding b'" using book_record_result_ok [OF 3(6) channel_okD(1) [OF assms(2)]] .
  from 3(2,6) have b': "b' = put_job i (job\<lparr>js_result := Some (r, g), js_transcript := transcript,
      js_phase := if js_phase job = Streaming then Delivered else Ready\<rparr>) (cn_book s)"
    unfolding book_record_result_Ok by auto
  have "job_signed b3 vf s (job\<lparr>js_result := Some (r, g), js_transcript := transcript,
      js_phase := if js_phase job = Streaming then Delivered else Ready\<rparr>)"
    using channel_okD(2) [OF assms(2) 3(2)] 3(4,5) by (auto simp: job_signed_def phase_only_role_def)
  then show ?thesis unfolding 3(7)
    by (intro channel_ok_put [OF assms(2) 3(2) ok]) (auto simp: b' phase_delivered_def split: if_splits)
qed (use assms(2) in simp)

lemma apply_verified_ok:
  assumes "apply_verified iv b3 s i replaying = Ok (ap, s')" "channel_ok b3 vf s"
  shows "channel_ok b3 vf s'"
proof (cases "s' = s")
  case False
  from assms(1) obtain job where r: "cn_role s = Client" "job_by_id (cn_book s) i = Some job" and
    "(case js_result job of None \<Rightarrow> Err (Ch_WrongPhase ''recording a verified result'' (phase_name (js_phase job)))
    | Some (r, _) \<Rightarrow> if jr_outcome r \<noteq> Finished then Err (Ch_WrongChannel ''verified failed result'')
        else if js_phase job = Verified then Ok (Redundant, s)
        else and_then (if replaying then Ok () else check_result_payload iv b3 s job r (js_transcript job) False) (\<lambda>_.
          with_book s (mark_verified payment_funding (cn_book s) i))) = Ok (ap, s')"
    unfolding apply_verified_def and_then_eq_Ok require_role_Ok open_job_Ok by blast
  with False obtain x g b' where x: "js_result job = Some (x, g)" "jr_outcome x = Finished"
    and b': "mark_verified payment_funding (cn_book s) i = Ok (ap, b')" "s' = s\<lparr>cn_book := b'\<rparr>"
    by (cases "js_result job") (auto simp: and_then_eq_Ok with_book_Ok split: if_splits)
  have ok: "book_ok payment_funding b'" using mark_verified_ok [OF b'(1) channel_okD(1) [OF assms(2)]] .
  from b'(1) r(2) have p: "b' = cn_book s \<or> b' = put_job i (job\<lparr>js_phase := Verified\<rparr>) (cn_book s)"
    unfolding mark_verified_Ok by (auto split: if_splits)
  have "job_signed b3 vf s (job\<lparr>js_phase := Verified\<rparr>)"
    using channel_okD(2) [OF assms(2) r(2)] r x by (auto simp: job_signed_def phase_only_role_def)
  with p r show ?thesis unfolding b'(2) using ok assms(2)
    by (auto simp: phase_delivered_def intro: channel_ok_put [OF assms(2) r(2)])
qed (use assms(2) in simp)

section \<open>Opening a job\<close>

lemma refuse_if_closing_Ok [result_elims]: "refuse_if_closing s step = Ok u \<longleftrightarrow> \<not> is_closing s"
  by (auto simp: refuse_if_closing_def)

lemma chan_check_authorization_channel:
  "chan_check_authorization iv s a prepared_input replaying = Ok () \<Longrightarrow> pj_channel_id a = ch_id (chan s)"
  by (auto simp: chan_check_authorization_def split: if_splits)

definition proposed_job :: "blake3 \<Rightarrow> channel \<Rightarrow> paid_job_authorization \<Rightarrow> sig \<Rightarrow> bytes \<Rightarrow> payment_job" where
  "proposed_job b3 s a g prepared_input = \<lparr>js_authorization = a, js_work_id = work_id b3 (chan s) a,
    js_prepared_input = prepared_input, js_client_signature = g, js_provider_signature = None, js_phase = HalfSigned,
    js_result = None, js_transcript = []\<rparr>"

lemma apply_proposed_Ok:
  assumes "apply_proposed iv b3 vf s a g prepared_input metadata_only = Ok (ap, s')"
  obtains job where "ap = Redundant" "s' = s" "job_by_id (cn_book s) (work_id b3 (chan s) a) = Some job"
      "js_authorization job = a" "js_client_signature job = g" "js_prepared_input job = prepared_input"
  | b' where "ap = Changed" "job_by_id (cn_book s) (work_id b3 (chan s) a) = None"
      "terminal_by_id (cn_book s) (work_id b3 (chan s) a) = None" "\<not> is_closing s"
      "chan_check_authorization iv s a prepared_input metadata_only = Ok ()"
      "jb_proposal_nonce_high_water (cn_book s) < pj_proposal_nonce a"
      "verify_sig vf g (client_key (chan s)) (signing_hash (work_id b3 (chan s) a))"
      "cn_role s = Provider \<Longrightarrow> check_compute_limit s (pj_price a) = Ok ()"
      "book_propose payment_funding (cn_book s) (proposed_job b3 s a g prepared_input) (cn_role s) = Ok (ap, b')"
      "s' = s\<lparr>cn_book := b'\<rparr>"
proof (cases "job_by_id (cn_book s) (work_id b3 (chan s) a)")
  case None
  from assms None obtain b' where n: "terminal_by_id (cn_book s) (work_id b3 (chan s) a) = None" "\<not> is_closing s"
      "chan_check_authorization iv s a prepared_input metadata_only = Ok ()"
      "jb_proposal_nonce_high_water (cn_book s) < pj_proposal_nonce a"
      "verify_sig vf g (client_key (chan s)) (signing_hash (work_id b3 (chan s) a))"
      "(if cn_role s = Provider then check_compute_limit s (pj_price a) else Ok ()) = Ok ()"
    and b': "book_propose payment_funding (cn_book s) (proposed_job b3 s a g prepared_input) (cn_role s) = Ok (ap, b')"
      "s' = s\<lparr>cn_book := b'\<rparr>"
    by (simp add: apply_proposed_def Let_def and_then_eq_Ok refuse_if_terminated_Ok refuse_if_closing_Ok if_Err_eq_Ok
        with_book_Ok flip: proposed_job_def) (auto simp: not_le)
  have "ap = Changed" using b'(1) None
    by (auto simp: book_propose_def proposed_job_def and_then_eq_Ok Let_def split: if_splits)
  then show ?thesis by (rule that(2) [OF _ None n(1-5) _ b']) (use n(6) in simp)
next
  case (Some job)
  with assms that(1) show ?thesis by (auto simp: apply_proposed_def Let_def split: if_splits)
qed

text \<open>The new job is the only entry the step writes, and its nonce becomes the mark.\<close>

lemma book_propose_new:
  assumes "book_propose fd b job r = Ok (ap, b')" "job_by_id b (js_work_id job) = None"
  shows "ap = Changed" "jb_jobs b' = bt_insert (js_work_id job) job (jb_jobs b)" "jb_terminals b' = jb_terminals b"
    "jb_indeterminate b' = jb_indeterminate b"
    "jb_proposal_nonce_high_water b' = fd_proposal_nonce fd (js_authorization job)"
    "jb_pending_proposal b' = (if r = Client then Some (js_work_id job) else jb_pending_proposal b)"
  using assms by (auto simp: book_propose_def and_then_eq_Ok refuse_if_terminated_Ok Let_def split: if_splits)

lemma apply_proposed_ok:
  assumes "apply_proposed iv b3 vf s a g prepared_input metadata_only = Ok (ap, s')" "channel_ok b3 vf s"
  shows "channel_ok b3 vf s'"
  using assms(1)
proof (cases rule: apply_proposed_Ok)
  case (2 b')
  let ?job = "proposed_job b3 s a g prepared_input"
  have w: "js_work_id ?job = work_id b3 (chan s) a" by (simp add: proposed_job_def)
  note new = book_propose_new [OF 2(9), unfolded w, OF 2(2)]
  have book: "book_ok payment_funding b'"
    using book_propose_ok [OF 2(9) channel_okD(1) [OF assms(2)]] by (simp add: proposed_job_def)
  have wf: "bt_wf (jb_jobs (cn_book s))" using book_okD(1) [OF channel_okD(1) [OF assms(2)]] .
  have signed: "job_signed b3 vf s ?job"
    using chan_check_authorization_channel [OF 2(5)] 2(7) by (simp add: job_signed_def proposed_job_def phase_only_role_def)
  show ?thesis unfolding 2(10)
  proof (rule channel_ok_book [OF assms(2) 2(4)])
    assume l: "account_ok b3 vf s"
    show "account_ok b3 vf (s\<lparr>cn_book := b'\<rparr>)"
    proof (rule account_ok_book [OF l book new(3)])
      show "job_by_id (cn_book s) i = Some job \<or> job_signed b3 vf s job" if "job_by_id b' i = Some job" for i job
        using that wf signed by (auto simp: job_by_id_def new(2) split: if_splits)
      have "bt_total f (jb_jobs b') = f ?job + bt_total f (jb_jobs (cn_book s))" for f
        using bt_total_insert_new [OF wf 2(2) [unfolded job_by_id_def]] by (simp add: new(2))
      moreover have "delivered_price ?job = 0" "reserved_price ?job = unat (pj_price a)"
        by (simp_all add: delivered_price_def reserved_price_def proposed_job_def phase_delivered_def)
      ultimately show "exposure_ok (s\<lparr>cn_book := b'\<rparr>)" if "exposure_ok s"
        using that check_compute_limit_Ok 2(8) by (auto simp: exposure_ok_def add.commute)
    qed (use new(6) in \<open>auto split: if_splits\<close>)
  qed simp
qed (use assms(2) in simp)

section \<open>Ending a job\<close>

lemma check_signatures_Ok [result_elims]:
  "check_signatures vf k who xs = Ok u \<longleftrightarrow> (\<forall>(slot, g, h) \<in> set xs. verify_sig vf g k h)"
  by (induction vf k who xs rule: check_signatures.induct) auto

definition ended :: "channel \<Rightarrow> payment_job \<Rightarrow> terminal_outcome \<Rightarrow> credit_ledger \<Rightarrow> channel" where
  "ended s job outcome ledger = s\<lparr>cn_ledger := ledger, cn_book := rest_at
    \<lparr>jt_work_id = js_work_id job, jt_phase = js_phase job, jt_outcome = outcome\<rparr> (cn_book s)\<rparr>"

text \<open>What paying a job checked.\<close>

lemma terminate_certified_Ok:
  assumes "terminate_certified b3 vf s job sr certificate binding bs cs = Ok (ap, s')"
  obtains ledger where "ap = Changed" "js_result job = Some sr"
    "js_phase job = (case cn_role s of Provider \<Rightarrow> Delivered | Client \<Rightarrow> Verified)"
    "cn_role s = Client \<Longrightarrow> cursor_height s \<le> pj_payment_deadline (js_authorization job)"
    "verify_sig vf bs (client_key (chan s)) (signing_hash (payment_binding_digest b3 (chan s) binding))"
    "verify_sig vf cs (client_key (chan s)) (certificate_digest b3 (ch_network (chan s)) certificate)"
    "credit_payment b3 (cn_ledger s) (chan s) (js_authorization job) (fst sr) binding certificate (fs_settlement (cn_funding s)) = Ok ledger"
    "s' = ended s job (Certified sr certificate binding bs cs) ledger"
proof -
  have p: "(case cn_role s of Provider \<Rightarrow> js_phase job = Delivered | Client \<Rightarrow> js_phase job = Verified)"
    using assms by (auto simp: terminate_certified_def Let_def split: if_splits)
  then have p': "js_phase job = (case cn_role s of Provider \<Rightarrow> Delivered | Client \<Rightarrow> Verified)" by (cases "cn_role s") auto
  obtain r g where r: "js_result job = Some (r, g)" using assms p
    by (cases "js_result job") (auto simp: terminate_certified_def Let_def)
  have e: "sr = (r, g)" using assms p by (auto simp: terminate_certified_def Let_def r split: if_splits)
  have late: "cursor_height s \<le> pj_payment_deadline (js_authorization job)" if "cn_role s = Client"
    using assms p that by (auto simp: terminate_certified_def Let_def r e not_less split: if_splits)
  with assms p obtain ledger where "check_signatures vf (client_key (chan s)) ''the client'' (payment_signatures b3 s binding bs certificate cs) = Ok ()"
    "credit_payment b3 (cn_ledger s) (chan s) (js_authorization job) (fst sr) binding certificate (fs_settlement (cn_funding s)) = Ok ledger"
    "ap = Changed" "s' = ended s job (Certified sr certificate binding bs cs) ledger"
    by (auto simp: terminate_certified_def Let_def r e and_then_eq_Ok map_err_eq_Ok ended_def split: if_splits)
  with p' r e late show ?thesis by (intro that) (simp_all add: check_signatures_Ok payment_signatures_def del: check_signatures.simps)
qed

lemma apply_terminated_Ok:
  assumes "apply_terminated b3 vf s i outcome = Ok (ap, s')"
  obtains t where "ap = Redundant" "s' = s" "terminal_by_id (cn_book s) i = Some t" "jt_outcome t = outcome"
  | job where "ap = Changed" "terminal_by_id (cn_book s) i = None" "job_by_id (cn_book s) i = Some job"
      "\<And>sr c b bs cs. outcome \<noteq> Certified sr c b bs cs" "s' = ended s job outcome (cn_ledger s)"
  | job sr certificate binding bs cs where "terminal_by_id (cn_book s) i = None" "job_by_id (cn_book s) i = Some job"
      "outcome = Certified sr certificate binding bs cs"
      "terminate_certified b3 vf s job sr certificate binding bs cs = Ok (ap, s')"
proof (cases "terminal_by_id (cn_book s) i")
  case None
  show ?thesis
  proof (cases "job_by_id (cn_book s) i")
    case (Some job)
    then have o: "open_job payment_funding (cn_book s) i ''terminating the job'' = Ok job" by (simp add: open_job_Ok)
    show ?thesis
    proof (cases outcome)
      case (Certified sr certificate binding bs cs)
      with assms None Some o show ?thesis by (intro that(3)) (auto simp: apply_terminated_def)
    qed (use assms None Some o that(2) in \<open>auto simp: apply_terminated_def and_then_eq_Ok ended_def Let_def split: if_splits option.splits\<close>)
  qed (use assms None in \<open>auto simp: apply_terminated_def and_then_eq_Ok open_job_Ok split: if_splits\<close>)
qed (use assms that(1) in \<open>auto simp: apply_terminated_def split: if_splits\<close>)

lemma ended_sel [simp]:
  "cn_funding (ended s job outcome ledger) = cn_funding s" "cn_role (ended s job outcome ledger) = cn_role s"
  "cn_ledger (ended s job outcome ledger) = ledger"
  "cn_book (ended s job outcome ledger) = rest_at \<lparr>jt_work_id = js_work_id job, jt_phase = js_phase job, jt_outcome = outcome\<rparr> (cn_book s)"
  by (simp_all add: ended_def)

lemma ended_held:
  assumes "book_ok payment_funding (cn_book s)" "job_by_id (cn_book s) i = Some job"
  shows "held_certificate (ended s job outcome ledger) j c \<longleftrightarrow>
    (if j = i then (\<exists>sr binding bs cs. outcome = Certified sr c binding bs cs) else held_certificate s j c)"
  using book_okD(4) [OF assms] by (auto simp: held_certificate_def rest_at_lookup [OF assms(1)] job_ok_def)

lemma not_held_open:
  assumes "book_ok payment_funding (cn_book s)" "job_by_id (cn_book s) i = Some job"
  shows "\<not> held_certificate s i c"
  using book_okD(4) [OF assms] by (simp add: held_certificate_def job_ok_def)

lemma max_executable_same:
  assumes "book_ok fd (cn_book s)" "book_ok fd (cn_book s')" "\<And>i c. held_certificate s' i c = held_certificate s i c"
  shows "max_executable_certificate s' = max_executable_certificate s"
proof (cases "last_payment s")
  case None
  then have "last_payment s' = None" using last_payment_None [OF assms(1)] last_payment_None [OF assms(2)] assms(3) by simp
  with None show ?thesis by (simp add: max_executable_certificate_def)
next
  case (Some p)
  then have h: "held_certificate s' (pd_work_id p) (pd_certificate p)"
    using last_payment_held [OF assms(1)] assms(3) unfolding payment_of_held by blast
  have "max_executable_certificate s' = ec_earned_cumulative (pd_certificate p)"
    using max_executable_bound [OF assms(1)] Some assms(3)
    by (intro max_executable_eq [OF assms(2) h]) (simp add: max_executable_certificate_def)
  with Some show ?thesis by (simp add: max_executable_certificate_def)
qed

lemma ended_ok:
  assumes ok: "channel_ok b3 vf s" and job: "job_by_id (cn_book s) i = Some job"
    and t: "terminal_signed b3 vf s \<lparr>jt_work_id = js_work_id job, jt_phase = js_phase job, jt_outcome = outcome\<rparr>"
    and credited: "credited_cumulative ledger = max_executable_certificate (ended s job outcome ledger)"
  shows "channel_ok b3 vf (ended s job outcome ledger)"
proof (rule channel_ok_book [OF ok channel_okD(5) [OF ok job]])
  let ?s = "ended s job outcome ledger"
  note b = channel_okD(1) [OF ok]
  have wf: "bt_wf (jb_jobs (cn_book s))" using book_okD(1) [OF b] .
  have signed: "job_signed b3 vf ?s = job_signed b3 vf s" "terminal_signed b3 vf ?s = terminal_signed b3 vf s"
    by (auto simp: job_signed_def terminal_signed_def payment_signed_def fun_eq_iff split: terminal_outcome.split)
  assume l: "account_ok b3 vf s"
  then have x: "exposure_ok ?s"
    using bt_total_remove_le [OF wf] within_limit_mono by (fastforce simp: account_ok_def exposure_ok_def)
  show "account_ok b3 vf ?s" unfolding account_ok_def signed
  proof (intro conjI allI impI x)
    show "job_signed b3 vf s x" if "job_by_id (cn_book ?s) j = Some x" for j x
      using that l by (auto simp: account_ok_def rest_at_lookup [OF b] split: if_splits)
    show "terminal_signed b3 vf s x" if "terminal_by_id (cn_book ?s) j = Some x" for j x
      using that l t by (auto simp: account_ok_def rest_at_lookup [OF b] split: if_splits)
    show "cn_role ?s = Client" if "jb_pending_proposal (cn_book ?s) \<noteq> None"
      using that l by (auto simp: account_ok_def split: if_splits)
  qed (use credited rest_at_ok [OF b] in simp_all)
qed simp

text \<open>A payment becomes the largest certificate, because it adds its price to what was credited.\<close>

lemma ended_certified_max:
  assumes ok: "channel_ok b3 vf s" and job: "job_by_id (cn_book s) i = Some job"
    and ge: "max_executable_certificate s \<le> ec_earned_cumulative certificate"
  shows "max_executable_certificate (ended s job (Certified sr certificate binding bs cs) ledger) = ec_earned_cumulative certificate"
proof (rule max_executable_eq [of payment_funding])
  note b = channel_okD(1) [OF ok]
  let ?s = "ended s job (Certified sr certificate binding bs cs) ledger"
  show "book_ok payment_funding (cn_book ?s)" using rest_at_ok [OF b] by simp
  show "held_certificate ?s i certificate" by (simp add: ended_held [OF b job])
  show "ec_earned_cumulative d \<le> ec_earned_cumulative certificate" if "held_certificate ?s j d" for j d
    using that max_executable_bound [OF b, of j d] ge by (auto simp: ended_held [OF b job] split: if_splits)
qed

lemma terminate_certified_signed:
  assumes ok: "channel_ok b3 vf s" and job: "job_by_id (cn_book s) i = Some job"
    and t: "terminate_certified b3 vf s job sr certificate binding bs cs = Ok (ap, s')"
  shows "payment_signed b3 vf s i sr certificate binding bs cs"
    and "unat (ec_earned_cumulative certificate) = unat (credited_cumulative (cn_ledger s)) + unat (pj_price (js_authorization job))"
    and "s' = ended s job (Certified sr certificate binding bs cs) (from_credited_cumulative (ec_earned_cumulative certificate))"
proof -
  obtain ledger where c: "js_result job = Some sr"
    "verify_sig vf bs (client_key (chan s)) (signing_hash (payment_binding_digest b3 (chan s) binding))"
    "verify_sig vf cs (client_key (chan s)) (certificate_digest b3 (ch_network (chan s)) certificate)"
    "credit_payment b3 (cn_ledger s) (chan s) (js_authorization job) (fst sr) binding certificate (fs_settlement (cn_funding s)) = Ok ledger"
    "s' = ended s job (Certified sr certificate binding bs cs) ledger"
    using t by (rule terminate_certified_Ok)
  note n = next_payment_Ok [OF credit_payment_Ok(1) [OF c(4)]]
  have j: "job_signed b3 vf s job" using channel_okD(2) [OF ok job] .
  have w: "js_work_id job = i" using book_okD(4) [OF channel_okD(1) [OF ok] job] by (simp add: job_ok_def)
  have i: "work_id b3 (chan s) (js_authorization job) = i" using j w by (simp add: job_signed_def)
  have "verify_sig vf (snd sr) (provider_key (chan s)) (signing_hash (result_digest b3 (chan s) (fst sr)))"
    using j c(1) by (cases sr) (simp add: job_signed_def)
  then show "payment_signed b3 vf s i sr certificate binding bs cs" using n c(2,3) i by (simp add: payment_signed_def)
  show "unat (ec_earned_cumulative certificate) = unat (credited_cumulative (cn_ledger s)) + unat (pj_price (js_authorization job))"
    using n(3) .
  show "s' = ended s job (Certified sr certificate binding bs cs) (from_credited_cumulative (ec_earned_cumulative certificate))"
    using c(5) credit_payment_Ok(2) [OF c(4)] by simp
qed

lemma apply_terminated_ok:
  assumes "apply_terminated b3 vf s i outcome = Ok (ap, s')" and ok: "channel_ok b3 vf s"
  shows "channel_ok b3 vf s'"
  using assms(1)
proof (cases rule: apply_terminated_Ok)
  case (2 job)
  note b = channel_okD(1) [OF ok]
  have "max_executable_certificate s' = max_executable_certificate s" unfolding 2(5)
    using rest_at_ok [OF b] not_held_open [OF b 2(3)] 2(4)
    by (intro max_executable_same [OF b]) (auto simp: ended_held [OF b 2(3)])
  then show ?thesis using channel_okD(4) [OF ok] 2(4) unfolding 2(5)
    by (intro ended_ok [OF ok 2(3)]) (auto simp: terminal_signed_def split: terminal_outcome.split)
next
  case (3 job sr certificate binding bs cs)
  note p = terminate_certified_signed [OF ok 3(2,4)]
  have w: "js_work_id job = i" using book_okD(4) [OF channel_okD(1) [OF ok] 3(2)] by (simp add: job_ok_def)
  have "max_executable_certificate s \<le> ec_earned_cumulative certificate"
    using p(2) channel_okD(4) [OF ok] by (simp add: word_le_nat_alt)
  from ended_certified_max [OF ok 3(2) this] show ?thesis unfolding p(3)
    by (intro ended_ok [OF ok 3(2)]) (use p(1) w in \<open>simp_all add: terminal_signed_def from_credited_cumulative_def\<close>)
qed (use ok in simp)

section \<open>Every step keeps it\<close>

lemma channel_apply_ok:
  assumes "channel_apply iv b3 vf s r metadata_only = Ok (ap, s')" "channel_ok b3 vf s"
  shows "channel_ok b3 vf s'"
  using assms
  by (cases r) (auto intro: apply_origin_observed_ok apply_proposal_exchange_ok apply_cursor_ok apply_proposed_ok apply_accepted_ok
      apply_running_ok apply_result_ok apply_plaintext_ok apply_verified_ok apply_terminated_ok apply_close_history_ok
      apply_close_prepared_ok apply_close_opened_ok apply_close_responded_ok apply_close_settled_ok)

lemma channel_new_ok: "channel_ok b3 vf (channel_new c st r origin)"
  by (simp add: channel_ok_def account_ok_def close_ok_def channel_new_def book_ok_default is_closing_funding exposure_ok_def
      max_executable_certificate_def last_payment_def max_by_key_def credit_ledger_new_def within_limit_def bt_total_def)
    (simp add: job_book_default_def job_by_id_def terminal_by_id_def bt_empty_def bt_get_def List.map_filter_simps)

end
