(* ===== verification/Channel_Replay.thy ===== *)
theory Channel_Replay
  imports Channel_Invariant
begin

text \<open>Journals keep no bodies: \<^verbatim>\<open>encode_for_storage\<close> and \<^verbatim>\<open>checkpoint_for_storage\<close> of
  src/crates/channel/src/work_store/channel/codec.rs write a record and a state without the prepared inputs and the
  transcripts. This theory shows that replaying the stored form of every committed step reaches the stored form of the
  state, and that a checkpoint of any state the journal can reach is accepted again, but for one retained close start.\<close>

section \<open>What is stored\<close>

definition strip_job :: "payment_job \<Rightarrow> payment_job" where
  "strip_job job = job\<lparr>js_prepared_input := [], js_transcript := []\<rparr>"

definition strip_book :: "bytes32 btree_set \<Rightarrow> payment_book \<Rightarrow> payment_book" where
  "strip_book ind b = b\<lparr>jb_jobs := map (\<lambda>(i, job). (i, strip_job job)) (jb_jobs b), jb_indeterminate := ind\<rparr>"

text \<open>The stored form of a state, with the set of indeterminate jobs the reader knows of.\<close>

definition strip_with :: "bytes32 btree_set \<Rightarrow> channel \<Rightarrow> channel" where
  "strip_with ind s = s\<lparr>cn_book := strip_book ind (cn_book s)\<rparr>"

definition strip :: "channel \<Rightarrow> channel" where
  "strip s = strip_with (jb_indeterminate (cn_book s)) s"

fun strip_record :: "channel_record \<Rightarrow> channel_record" where
  "strip_record (JobProposed a g _) = JobProposed a g []"
| "strip_record (JobResult i r g _) = JobResult i r g []"
| "strip_record r = r"

definition map_step :: "('b \<Rightarrow> 'c) \<Rightarrow> 'b step_result \<Rightarrow> 'c step_result" where
  "map_step f r = and_then r (\<lambda>(ap, b). Ok (ap, f b))"

lemma map_step_simps [simp]: "map_step f (Ok (ap, b)) = Ok (ap, f b)" "map_step f (Err e) = Err e"
  by (simp_all add: map_step_def)

lemma strip_job_sel [simp]:
  "js_authorization (strip_job job) = js_authorization job" "js_work_id (strip_job job) = js_work_id job"
  "js_client_signature (strip_job job) = js_client_signature job"
  "js_provider_signature (strip_job job) = js_provider_signature job" "js_phase (strip_job job) = js_phase job"
  "js_result (strip_job job) = js_result job" "js_prepared_input (strip_job job) = []" "js_transcript (strip_job job) = []"
  by (simp_all add: strip_job_def)

lemma strip_job_updates [simp]:
  "strip_job (job\<lparr>js_phase := p\<rparr>) = (strip_job job)\<lparr>js_phase := p\<rparr>"
  "strip_job (job\<lparr>js_provider_signature := g\<rparr>) = (strip_job job)\<lparr>js_provider_signature := g\<rparr>"
  "strip_job (job\<lparr>js_result := x\<rparr>) = (strip_job job)\<lparr>js_result := x\<rparr>"
  "strip_job (job\<lparr>js_transcript := ts\<rparr>) = strip_job job" "strip_job (job\<lparr>js_prepared_input := ts\<rparr>) = strip_job job"
  "(strip_job job)\<lparr>js_transcript := []\<rparr> = strip_job job"
  by (simp_all add: strip_job_def)

lemma bt_insert_map: "bt_insert k (f v) (map (\<lambda>(i, x). (i, f x)) m) = map (\<lambda>(i, x). (i, f x)) (bt_insert k v m)"
  by (induction k v m rule: bt_insert.induct) auto

lemma bt_remove_map: "bt_remove k (map (\<lambda>(i, x). (i, f x)) m) = map (\<lambda>(i, x). (i, f x)) (bt_remove k m)"
  by (induction m) (auto simp: bt_remove_def)

lemma bt_get_map: "bt_get (map (\<lambda>(i, x). (i, f x)) m) k = map_option f (bt_get m k)"
  by (simp add: bt_get_def map_of_map)

lemma strip_book_sel [simp]:
  "jb_jobs (strip_book ind b) = map (\<lambda>(i, job). (i, strip_job job)) (jb_jobs b)" "jb_indeterminate (strip_book ind b) = ind"
  "jb_terminals (strip_book ind b) = jb_terminals b" "jb_pending_proposal (strip_book ind b) = jb_pending_proposal b"
  "jb_proposal_nonce_high_water (strip_book ind b) = jb_proposal_nonce_high_water b"
  by (simp_all add: strip_book_def)

lemma strip_book_lookup [simp]:
  "job_by_id (strip_book ind b) i = map_option strip_job (job_by_id b i)" "terminal_by_id (strip_book ind b) i = terminal_by_id b i"
  "is_indeterminate_job (strip_book ind b) i \<longleftrightarrow> bt_get ind i \<noteq> None"
  by (simp_all add: job_by_id_def terminal_by_id_def is_indeterminate_job_def bt_get_map)

lemma strip_book_put: "put_job i (strip_job job) (strip_book ind b) = strip_book ind (put_job i job b)"
  by (simp add: put_job_def strip_book_def bt_insert_map)

lemma strip_book_pending: "(strip_book ind b)\<lparr>jb_pending_proposal := p\<rparr> = strip_book ind (b\<lparr>jb_pending_proposal := p\<rparr>)"
  by (simp add: strip_book_def)

lemma strip_book_nonce:
  "(strip_book ind b)\<lparr>jb_proposal_nonce_high_water := n\<rparr> = strip_book ind (b\<lparr>jb_proposal_nonce_high_water := n\<rparr>)"
  by (simp add: strip_book_def)

lemma strip_book_put_pending:
  "strip_book ind ((put_job i job b)\<lparr>jb_pending_proposal := p\<rparr>) = (put_job i (strip_job job) (strip_book ind b))\<lparr>jb_pending_proposal := p\<rparr>"
  by (simp add: strip_book_put strip_book_pending)

lemma rest_at_strip: "rest_at t (strip_book ind b) = strip_book (bt_remove (jt_work_id t) ind) (rest_at t b)"
  by (simp add: rest_at_def Let_def strip_book_def bt_remove_map)

section \<open>The book's operations on the stored form\<close>

lemma proposal_exchange_strip:
  "proposal_exchange payment_funding (strip_book ind b) i pending = map_step (strip_book ind) (proposal_exchange payment_funding b i pending)"
  by (cases "job_by_id b i") (auto simp: proposal_exchange_def open_job_def refuse_if_terminated_def Let_def strip_book_pending
      split: option.splits)

lemma book_propose_strip:
  "book_propose payment_funding b job r = Ok (ap, b') \<Longrightarrow> book_propose payment_funding (strip_book ind b) (strip_job job) r = Ok (ap, strip_book ind b')"
  by (cases "job_by_id b (js_work_id job)") (auto simp: book_propose_def refuse_if_terminated_Ok and_then_eq_Ok Let_def strip_book_pending
      strip_book_put strip_book_nonce refuse_if_terminated_def split: if_splits option.splits)

lemma book_accept_strip:
  "book_accept payment_funding (strip_book ind b) i g now r = map_step (strip_book ind) (book_accept payment_funding b i g now r)"
  by (cases "job_by_id b i") (auto simp: book_accept_def open_job_mut_def Let_def strip_book_put_pending
      simp flip: strip_book_put split: option.splits)

lemma book_run_strip:
  "book_run payment_funding (strip_book ind b) i now = map_step (strip_book ind) (book_run payment_funding b i now)"
  by (cases "job_by_id b i") (auto simp: book_run_def open_job_mut_def simp flip: strip_book_put split: option.splits)

lemma mark_verified_strip:
  "mark_verified payment_funding (strip_book ind b) i = map_step (strip_book ind) (mark_verified payment_funding b i)"
  by (cases "job_by_id b i") (auto simp: mark_verified_def open_job_mut_def simp flip: strip_book_put split: option.splits)

lemma book_release_strip:
  "book_release payment_funding (strip_book ind b) i = map_step (strip_book ind) (book_release payment_funding b i)"
  by (cases "job_by_id b i") (auto simp: book_release_def open_job_mut_def simp flip: strip_book_put split: option.splits)

lemma book_record_result_strip:
  assumes "book_record_result payment_funding b i r g transcript = Ok (ap, b')" "bt_get ind i \<noteq> None \<Longrightarrow> is_indeterminate_job b i"
  shows "book_record_result payment_funding (strip_book ind b) i r g [] = Ok (ap, strip_book ind b')"
proof -
  from assms(1) obtain job where job: "job_by_id b i = Some job" "\<not> is_indeterminate_job b i"
    "js_phase job \<in> {Accepted, Running, Streaming}" "ap = Changed"
    and b': "b' = put_job i (job\<lparr>js_result := Some (r, g), js_transcript := transcript,
       js_phase := if js_phase job = Streaming then Delivered else Ready\<rparr>) b"
    unfolding book_record_result_Ok by blast
  have "bt_get ind i = None" using assms(2) job(2) by blast
  moreover have "strip_job (job\<lparr>js_result := Some (r, g), js_transcript := transcript, js_phase := p\<rparr>)
      = (strip_job job)\<lparr>js_result := Some (r, g), js_transcript := [], js_phase := p\<rparr>" for p
    by (rule job_state.equality) (simp_all add: strip_job_def)
  then have "strip_book ind b' = put_job i ((strip_job job)\<lparr>js_result := Some (r, g), js_transcript := [],
       js_phase := if js_phase (strip_job job) = Streaming then Delivered else Ready\<rparr>) (strip_book ind b)"
    unfolding b' strip_book_put [symmetric] by (simp only: strip_job_sel)
  ultimately show ?thesis unfolding book_record_result_Ok
    by (intro exI [of _ "strip_job job"]) (use job in simp)
qed

section \<open>Every step on the stored form\<close>

lemma strip_with_sel [simp]:
  "cn_funding (strip_with ind s) = cn_funding s" "cn_ledger (strip_with ind s) = cn_ledger s"
  "cn_role (strip_with ind s) = cn_role s" "cn_book (strip_with ind s) = strip_book ind (cn_book s)"
  by (simp_all add: strip_with_def)

lemma strip_with_book: "(strip_with ind s)\<lparr>cn_book := strip_book ind' b\<rparr> = strip_with ind' (s\<lparr>cn_book := b\<rparr>)"
  by (simp add: strip_with_def)

lemma strip_with_funding: "update_funding f (strip_with ind s) = strip_with ind (update_funding f s)"
  by (simp add: strip_with_def update_funding_def)

text \<open>What a step reads of the state it reads alike in the stored form.\<close>

lemma strip_reads [simp]:
  "last_payment (strip_with ind s) = last_payment s" "max_executable_certificate (strip_with ind s) = max_executable_certificate s"
  "executable_certificate (strip_with ind s) = executable_certificate s"
  "includable_close_start (strip_with ind s) = includable_close_start s" "is_closing (strip_with ind s) = is_closing s"
  "answerable_contest (strip_with ind s) = answerable_contest s" "reading (strip_with ind s) = reading s"
  "check_close_start (strip_with ind s) = check_close_start s" "check_close_history (strip_with ind s) = check_close_history s"
  "check_compute_limit (strip_with ind s) = check_compute_limit s" "require_role (strip_with ind s) = require_role s"
  "payment_signatures b3 (strip_with ind s) = payment_signatures b3 s"
proof -
  show "check_compute_limit (strip_with ind s) = check_compute_limit s"
    by (simp add: check_compute_limit_def fun_eq_iff comp_def case_prod_beta)
  show "last_payment (strip_with ind s) = last_payment s" by (simp add: last_payment_def)
  then show "max_executable_certificate (strip_with ind s) = max_executable_certificate s"
    and e: "executable_certificate (strip_with ind s) = executable_certificate s"
    by (simp_all add: max_executable_certificate_def executable_certificate_def)
  then show "answerable_contest (strip_with ind s) = answerable_contest s" "check_close_start (strip_with ind s) = check_close_start s"
    by (simp_all add: answerable_contest_def check_close_start_def fun_eq_iff Let_def cong: if_cong option.case_cong)
  show i: "includable_close_start (strip_with ind s) = includable_close_start s" by (simp add: includable_close_start_def fun_eq_iff)
  show "is_closing (strip_with ind s) = is_closing s" by (simp add: is_closing_def i)
qed (simp_all add: reading_def check_close_history_def require_role_def payment_signatures_def fun_eq_iff)

lemma strip_delivery_limit [simp]: "check_delivery_limit (strip_with ind s) = check_delivery_limit s"
proof -
  have "filter (\<lambda>job. phase_delivered (js_phase job)) (open_jobs (strip_with ind s))
      = map strip_job (filter (\<lambda>job. phase_delivered (js_phase job)) (open_jobs s))"
    by (simp add: filter_map comp_def case_prod_beta)
  then show ?thesis by (simp add: check_delivery_limit_def fun_eq_iff comp_def)
qed

lemma strip_refuse_open_job [simp]: "refuse_open_job (strip_with ind s) = refuse_open_job s"
  by (cases "jb_jobs (cn_book s)") (auto simp: refuse_open_job_def fun_eq_iff)

lemma strip_open_job [simp]:
  "open_job payment_funding (strip_book ind b) i step = and_then (open_job payment_funding b i step) (\<lambda>job. Ok (strip_job job))"
  by (auto simp: open_job_def refuse_if_terminated_def split: option.splits)

lemma with_book_strip: "with_book (strip_with ind s) (map_step (strip_book ind) r) = map_step (strip_with ind) (with_book s r)"
  by (cases r) (auto simp: with_book_def strip_with_book split: prod.splits)

text \<open>Steps that read no body do the same on the stored form, refusals included.\<close>

lemma map_step_if: "map_step f (if c then x else y) = (if c then map_step f x else map_step f y)"
  by simp

lemma map_step_and_then: "map_step f (and_then r k) = and_then r (\<lambda>x. map_step f (k x))"
  by (cases r) auto

lemmas strip_step = map_step_if map_step_and_then strip_with_funding with_book_strip

lemma funding_steps_strip:
  "apply_origin_observed (strip_with ind s) = map_step (strip_with ind) (apply_origin_observed s)"
  "apply_cursor (strip_with ind s) height parent payload = map_step (strip_with ind) (apply_cursor s height parent payload)"
  "apply_close_history (strip_with ind s) parent h = map_step (strip_with ind) (apply_close_history s parent h)"
  "apply_close_prepared (strip_with ind s) start = map_step (strip_with ind) (apply_close_prepared s start)"
  "apply_close_opened (strip_with ind s) contest = map_step (strip_with ind) (apply_close_opened s contest)"
  "apply_close_settled (strip_with ind s) settled = map_step (strip_with ind) (apply_close_settled s settled)"
proof -
  show "apply_origin_observed (strip_with ind s) = map_step (strip_with ind) (apply_origin_observed s)"
    by (simp add: apply_origin_observed_def strip_step)
  show "apply_cursor (strip_with ind s) height parent payload = map_step (strip_with ind) (apply_cursor s height parent payload)"
    by (cases "reading s height parent payload") (auto simp: apply_cursor_def strip_step split: applied.split)
  show "apply_close_history (strip_with ind s) parent h = map_step (strip_with ind) (apply_close_history s parent h)"
    by (simp add: apply_close_history_def strip_step cong: option.case_cong)
  show "apply_close_prepared (strip_with ind s) start = map_step (strip_with ind) (apply_close_prepared s start)"
    by (simp add: apply_close_prepared_def strip_step)
  show "apply_close_opened (strip_with ind s) contest = map_step (strip_with ind) (apply_close_opened s contest)"
    by (simp add: apply_close_opened_def strip_step)
  show "apply_close_settled (strip_with ind s) settled = map_step (strip_with ind) (apply_close_settled s settled)"
    by (simp add: apply_close_settled_def strip_step)
qed

lemma apply_close_responded_strip:
  "apply_close_responded b3 (strip_with ind s) answer = map_step (strip_with ind) (apply_close_responded b3 s answer)"
  by (auto simp: apply_close_responded_def strip_step split: option.split)

lemma book_steps_strip:
  "apply_proposal_exchange (strip_with ind s) i pending = map_step (strip_with ind) (apply_proposal_exchange s i pending)"
  "apply_running (strip_with ind s) i = map_step (strip_with ind) (apply_running s i)"
  "apply_plaintext (strip_with ind s) i = map_step (strip_with ind) (apply_plaintext s i)"
  "apply_accepted vf (strip_with ind s) i g = map_step (strip_with ind) (apply_accepted vf s i g)"
  by (simp_all add: apply_proposal_exchange_def apply_running_def apply_plaintext_def apply_accepted_def proposal_exchange_strip
      book_run_strip book_release_strip book_accept_strip and_then_assoc strip_step cong: if_cong)

section \<open>Replay follows the commits\<close>

text \<open>The jobs the reader takes for indeterminate are so in the state it follows.\<close>

definition knows :: "bytes32 btree_set \<Rightarrow> channel \<Rightarrow> bool" where
  "knows ind s \<longleftrightarrow> bt_wf ind \<and> (\<forall>i. bt_get ind i \<noteq> None \<longrightarrow> is_indeterminate_job (cn_book s) i)"

lemma knowsI:
  "knows ind s \<Longrightarrow> jb_indeterminate (cn_book s') = jb_indeterminate (cn_book s) \<Longrightarrow> knows ind s'"
  by (simp add: knows_def is_indeterminate_job_def)

lemma apply_proposed_strip:
  assumes "apply_proposed iv b3 vf s a g prepared_input metadata_only = Ok (ap, s')"
  shows "apply_proposed iv b3 vf (strip_with ind s) a g [] True = Ok (ap, strip_with ind s')"
  using assms
proof (cases rule: apply_proposed_Ok)
  case (1 job)
  then show ?thesis by (simp add: apply_proposed_def)
next
  case (2 b')
  have c: "chan_check_authorization iv (strip_with ind s) a [] True = Ok ()"
    using chan_check_authorization_channel [OF 2(5)] by (simp add: chan_check_authorization_def)
  have "strip_job (proposed_job b3 s a g prepared_input) = \<lparr>js_authorization = a, js_work_id = work_id b3 (chan s) a,
      js_prepared_input = [], js_client_signature = g, js_provider_signature = None, js_phase = HalfSigned,
      js_result = None, js_transcript = []\<rparr>"
    by (simp add: strip_job_def proposed_job_def)
  with book_propose_strip [OF 2(9), of ind] have "with_book (strip_with ind s) (book_propose payment_funding (strip_book ind (cn_book s))
      \<lparr>js_authorization = a, js_work_id = work_id b3 (chan s) a, js_prepared_input = [], js_client_signature = g,
       js_provider_signature = None, js_phase = HalfSigned, js_result = None, js_transcript = []\<rparr> (cn_role s))
      = Ok (ap, strip_with ind s')"
    by (simp add: with_book_Ok strip_with_book 2(10))
  then show ?thesis using 2 c
    by (simp add: apply_proposed_def Let_def refuse_if_terminated_def refuse_if_closing_def not_le)
qed

lemma bt_insert_same: "bt_wf m \<Longrightarrow> bt_get m k = Some v \<Longrightarrow> bt_insert k v m = m"
  by (rule bt.entries_unique) auto

lemma strip_put_same:
  assumes "bt_wf (jb_jobs b)" "job_by_id b i = Some job" "strip_job job' = strip_job job"
  shows "strip_book ind (put_job i job' b) = strip_book ind b"
proof -
  have "strip_book ind (put_job i job' b) = put_job i (strip_job job) (strip_book ind b)" by (simp add: strip_book_put assms(3) flip: strip_book_put)
  also have "\<dots> = strip_book ind (put_job i job b)" by (rule strip_book_put)
  also have "put_job i job b = b" using assms(1,2) by (simp add: put_job_def job_by_id_def bt_insert_same)
  finally show ?thesis .
qed

lemma apply_result_strip:
  assumes r: "apply_result iv b3 vf s i r g transcript False = Ok (ap, s')" and k: "knows ind s"
    and wf: "bt_wf (jb_jobs (cn_book s))"
  shows "\<exists>ap'. apply_result iv b3 vf (strip_with ind s) i r g [] True = Ok (ap', strip_with ind s')"
proof -
  from r obtain job where job: "job_by_id (cn_book s) i = Some job"
    by (auto simp: apply_result_def and_then_eq_Ok open_job_Ok)
  then have o: "open_job payment_funding (cn_book s) i step = Ok job" for step by (simp add: open_job_Ok)
  show ?thesis
  proof (cases "js_result job")
    case None
    with r o obtain b' where c: "check_result_payload iv b3 s job r transcript False = Ok ()"
      and d: "\<not> is_indeterminate_job (cn_book s) i" "js_phase job = (case cn_role s of Provider \<Rightarrow> Running | Client \<Rightarrow> Accepted) \<or> (cn_role s = Provider \<and> js_phase job = Streaming)"
      "\<not> pj_terminal_deadline (js_authorization job) < cursor_height s"
      "verify_sig vf g (provider_key (chan s)) (signing_hash (result_digest b3 (chan s) r))"
      and b: "book_record_result payment_funding (cn_book s) i r g transcript = Ok (ap, b')" "s' = s\<lparr>cn_book := b'\<rparr>"
      by (auto simp: apply_result_def and_then_eq_Ok with_book_Ok Let_def split: if_splits)
    have n: "bt_get ind i = None" using k d(1) by (cases "bt_get ind i") (auto simp: knows_def)
    have "with_book (strip_with ind s) (book_record_result payment_funding (strip_book ind (cn_book s)) i r g []) = Ok (ap, strip_with ind s')"
      using book_record_result_strip [OF b(1), of ind] n by (simp add: with_book_Ok strip_with_book b(2))
    then show ?thesis using d(2-4) n None check_result_payload_work [OF c]
      by (auto simp: apply_result_def o Let_def check_result_payload_def)
  next
    case (Some held)
    have "strip_with ind (s\<lparr>cn_book := put_job i (job\<lparr>js_transcript := transcript\<rparr>) (cn_book s)\<rparr>) = strip_with ind s"
      using strip_put_same [OF wf job] by (simp add: strip_with_def)
    then show ?thesis using r Some o
      by (cases held) (auto simp: apply_result_def and_then_eq_Ok split: if_splits)
  qed
qed

lemma apply_verified_strip:
  assumes "apply_verified iv b3 s i False = Ok (ap, s')"
  shows "apply_verified iv b3 (strip_with ind s) i True = Ok (ap, strip_with ind s')"
proof -
  from assms obtain job where r: "cn_role s = Client" "job_by_id (cn_book s) i = Some job" and
    c: "(case js_result job of None \<Rightarrow> Err (Ch_WrongPhase ''recording a verified result'' (phase_name (js_phase job)))
    | Some (r, _) \<Rightarrow> if jr_outcome r \<noteq> Finished then Err (Ch_WrongChannel ''verified failed result'')
        else if js_phase job = Verified then Ok (Redundant, s)
        else and_then (if False then Ok () else check_result_payload iv b3 s job r (js_transcript job) False) (\<lambda>_.
          with_book s (mark_verified payment_funding (cn_book s) i))) = Ok (ap, s')"
    unfolding apply_verified_def and_then_eq_Ok require_role_Ok open_job_Ok by blast
  have o: "open_job payment_funding (cn_book s) i step = Ok job" for step using r(2) by (simp add: open_job_Ok)
  from c show ?thesis using r(1)
    by (cases "js_result job") (auto simp: apply_verified_def require_role_def o and_then_eq_Ok mark_verified_strip with_book_strip
        split: if_splits)
qed

lemma ended_strip:
  "ended (strip_with ind s) (strip_job job) outcome ledger = strip_with (bt_remove (js_work_id job) ind) (ended s job outcome ledger)"
  by (simp add: ended_def strip_with_def rest_at_strip)

lemma terminate_certified_strip:
  "terminate_certified b3 vf (strip_with ind s) (strip_job job) sr c b bs cs
    = map_step (strip_with (bt_remove (js_work_id job) ind)) (terminate_certified b3 vf s job sr c b bs cs)"
  by (cases "cn_role s"; cases "js_result job")
    (auto simp: terminate_certified_def Let_def map_step_and_then strip_with_def rest_at_strip payment_signatures_def)

lemma apply_terminated_strip:
  assumes t: "apply_terminated b3 vf s i outcome = Ok (ap, s')" and b: "book_ok payment_funding (cn_book s)"
  shows "apply_terminated b3 vf (strip_with ind s) i outcome
    = Ok (ap, strip_with (if ap = Changed then bt_remove i ind else ind) s')"
proof (cases "terminal_by_id (cn_book s) i")
  case (Some held)
  with t show ?thesis by (auto simp: apply_terminated_def split: if_splits)
next
  case None
  with t obtain job where job: "job_by_id (cn_book s) i = Some job"
    by (cases "job_by_id (cn_book s) i") (auto simp: apply_terminated_def and_then_eq_Ok open_job_Ok split: if_splits)
  then have o: "open_job payment_funding (cn_book s) i step = Ok job" for step by (simp add: open_job_Ok)
  have w: "js_work_id job = i" using book_okD(4) [OF b job] by (simp add: job_ok_def)
  show ?thesis
  proof (cases outcome)
    case (Certified sr certificate binding bs cs)
    with t None job o have c: "terminate_certified b3 vf s job sr certificate binding bs cs = Ok (ap, s')"
      by (simp add: apply_terminated_def)
    then have "ap = Changed" by (rule terminate_certified_Ok)
    with c None job o show ?thesis by (simp add: apply_terminated_def Certified terminate_certified_strip w)
  next
    case (Rejected named evidence)
    with t None job o show ?thesis
      by (cases "js_result job") (auto simp: apply_terminated_def and_then_eq_Ok require_role_def strip_with_def rest_at_strip w split: if_splits)
  qed (use t None job o w in \<open>auto simp: apply_terminated_def strip_with_def rest_at_strip\<close>)
qed

lemma bt_get_remove_any: "bt_get (bt_remove i m) j = (if j = i then None else bt_get m j)"
  by (simp add: bt_get_def bt_remove_def map_of_filter_key)

lemma indeterminate_after_end:
  assumes "knows ind s" "jb_indeterminate (cn_book s') = bt_remove i (jb_indeterminate (cn_book s))"
  shows "knows (bt_remove i ind) s'"
  using assms by (auto simp: knows_def is_indeterminate_job_def bt_get_remove_any)

text \<open>Only the end of a job takes it out of the indeterminate set.\<close>

lemma book_steps_indeterminate:
  "proposal_exchange fd b i pending = Ok (ap, b') \<Longrightarrow> jb_indeterminate b' = jb_indeterminate b"
  "book_propose fd b job role = Ok (ap, b') \<Longrightarrow> jb_indeterminate b' = jb_indeterminate b"
  "book_run fd b i now = Ok (ap, b') \<Longrightarrow> jb_indeterminate b' = jb_indeterminate b"
  "mark_verified fd b i = Ok (ap, b') \<Longrightarrow> jb_indeterminate b' = jb_indeterminate b"
  "book_release fd b i = Ok (ap, b') \<Longrightarrow> jb_indeterminate b' = jb_indeterminate b"
  "book_record_result fd b i r g ts = Ok (ap, b') \<Longrightarrow> jb_indeterminate b' = jb_indeterminate b"
proof -
  show "proposal_exchange fd b i pending = Ok (ap, b') \<Longrightarrow> jb_indeterminate b' = jb_indeterminate b"
    by (auto simp: proposal_exchange_def and_then_eq_Ok Let_def split: if_splits)
  show "book_propose fd b job role = Ok (ap, b') \<Longrightarrow> jb_indeterminate b' = jb_indeterminate b"
    by (auto simp: book_propose_def and_then_eq_Ok Let_def split: if_splits option.splits)
  show "book_run fd b i now = Ok (ap, b') \<Longrightarrow> jb_indeterminate b' = jb_indeterminate b"
    unfolding book_run_Ok by (auto split: if_splits)
  show "mark_verified fd b i = Ok (ap, b') \<Longrightarrow> jb_indeterminate b' = jb_indeterminate b"
    unfolding mark_verified_Ok by (auto split: if_splits)
  show "book_release fd b i = Ok (ap, b') \<Longrightarrow> jb_indeterminate b' = jb_indeterminate b"
    unfolding book_release_Ok by (auto split: if_splits)
  show "book_record_result fd b i r g ts = Ok (ap, b') \<Longrightarrow> jb_indeterminate b' = jb_indeterminate b"
    unfolding book_record_result_Ok by auto
qed

lemma book_accept_indeterminate: "book_accept fd b i g now role = Ok (ap, b') \<Longrightarrow> jb_indeterminate b' = jb_indeterminate b"
  by (erule book_accept_Ok) auto

lemma funding_steps_book:
  "apply_origin_observed s = Ok (ap, s') \<Longrightarrow> cn_book s' = cn_book s"
  "apply_cursor s height parent payload = Ok (ap, s') \<Longrightarrow> cn_book s' = cn_book s"
  "apply_close_history s parent h = Ok (ap, s') \<Longrightarrow> cn_book s' = cn_book s"
  "apply_close_prepared s start = Ok (ap, s') \<Longrightarrow> cn_book s' = cn_book s"
  "apply_close_opened s contest = Ok (ap, s') \<Longrightarrow> cn_book s' = cn_book s"
  "apply_close_settled s settled = Ok (ap, s') \<Longrightarrow> cn_book s' = cn_book s"
  "apply_close_responded b3 s answer = Ok (ap, s') \<Longrightarrow> cn_book s' = cn_book s"
proof -
  show "apply_cursor s height parent payload = Ok (ap, s') \<Longrightarrow> cn_book s' = cn_book s"
    by (cases "reading s height parent payload"; cases "case reading s height parent payload of Ok x \<Rightarrow> x | Err _ \<Rightarrow> Changed")
      (auto simp: apply_cursor_def)
  show "apply_close_responded b3 s answer = Ok (ap, s') \<Longrightarrow> cn_book s' = cn_book s" by (drule apply_close_responded_Ok) auto
qed (auto simp: apply_origin_observed_def apply_close_history_def apply_close_prepared_def apply_close_opened_def
    apply_close_settled_def and_then_eq_Ok split: if_splits)

lemma apply_proposed_indeterminate:
  assumes "apply_proposed iv b3 vf s a g prepared_input m = Ok (ap, s')"
  shows "jb_indeterminate (cn_book s') = jb_indeterminate (cn_book s)"
  using assms by (cases rule: apply_proposed_Ok) (auto dest: book_steps_indeterminate(2))

lemma apply_result_indeterminate:
  assumes "apply_result iv b3 vf s i r g ts m = Ok (ap, s')"
  shows "jb_indeterminate (cn_book s') = jb_indeterminate (cn_book s)"
  using assms by (cases rule: apply_result_Ok) (auto dest: book_steps_indeterminate(6))

lemma apply_terminated_indeterminate:
  assumes "apply_terminated b3 vf s i outcome = Ok (ap, s')" "book_ok payment_funding (cn_book s)"
  shows "jb_indeterminate (cn_book s') = (if ap = Changed then bt_remove i (jb_indeterminate (cn_book s)) else jb_indeterminate (cn_book s))"
  using assms(1)
proof (cases rule: apply_terminated_Ok)
  case (2 job)
  with book_okD(4) [OF assms(2) 2(3)] show ?thesis by (simp add: job_ok_def)
next
  case (3 job sr certificate binding bs cs)
  from 3(4) obtain ledger where "ap = Changed" "s' = ended s job (Certified sr certificate binding bs cs) ledger"
    by (rule terminate_certified_Ok)
  with book_okD(4) [OF assms(2) 3(2)] show ?thesis by (simp add: job_ok_def)
qed simp

lemma book_steps_channel_indeterminate:
  "apply_proposal_exchange s i pending = Ok (ap, s') \<Longrightarrow> jb_indeterminate (cn_book s') = jb_indeterminate (cn_book s)"
  "apply_running s i = Ok (ap, s') \<Longrightarrow> jb_indeterminate (cn_book s') = jb_indeterminate (cn_book s)"
  "apply_plaintext s i = Ok (ap, s') \<Longrightarrow> jb_indeterminate (cn_book s') = jb_indeterminate (cn_book s)"
  "apply_accepted vf s i g = Ok (ap, s') \<Longrightarrow> jb_indeterminate (cn_book s') = jb_indeterminate (cn_book s)"
  by (auto simp: apply_proposal_exchange_def apply_running_def apply_plaintext_def apply_accepted_def and_then_eq_Ok with_book_Ok
      dest: book_steps_indeterminate book_accept_indeterminate split: if_splits)

lemma apply_verified_indeterminate:
  assumes "apply_verified iv b3 s i replaying = Ok (ap, s')"
  shows "jb_indeterminate (cn_book s') = jb_indeterminate (cn_book s)"
proof -
  from assms obtain job where
    "(case js_result job of None \<Rightarrow> Err (Ch_WrongPhase ''recording a verified result'' (phase_name (js_phase job)))
    | Some (r, _) \<Rightarrow> if jr_outcome r \<noteq> Finished then Err (Ch_WrongChannel ''verified failed result'')
        else if js_phase job = Verified then Ok (Redundant, s)
        else and_then (if replaying then Ok () else check_result_payload iv b3 s job r (js_transcript job) False) (\<lambda>_.
          with_book s (mark_verified payment_funding (cn_book s) i))) = Ok (ap, s')"
    unfolding apply_verified_def and_then_eq_Ok by blast
  then have "s' = s \<or> (\<exists>b'. mark_verified payment_funding (cn_book s) i = Ok (ap, b') \<and> s' = s\<lparr>cn_book := b'\<rparr>)"
    by (cases "js_result job") (auto simp: and_then_eq_Ok with_book_Ok split: if_splits)
  then show ?thesis using book_steps_indeterminate(4) [of payment_funding "cn_book s" i ap] by auto
qed

text \<open>One committed step, replayed from its stored form on the stored state.\<close>

lemma replay_step:
  assumes step: "channel_apply iv b3 vf s r False = Ok (ap, s')" and ok: "channel_ok b3 vf s" and k: "knows ind s"
  shows "\<exists>ap' ind'. channel_apply iv b3 vf (strip_with ind s) (strip_record r) True = Ok (ap', strip_with ind' s') \<and> knows ind' s'"
proof -
  note b = channel_okD(1) [OF ok]
  have same: ?thesis if "jb_indeterminate (cn_book s') = jb_indeterminate (cn_book s)"
    "\<exists>ap'. channel_apply iv b3 vf (strip_with ind s) (strip_record r) True = Ok (ap', strip_with ind s')"
    using that knowsI [OF k] by blast
  show ?thesis
  proof (cases r)
    case (JobProposed a g inp)
    then have p: "apply_proposed iv b3 vf s a g inp False = Ok (ap, s')" using step by simp
    show ?thesis by (rule same [OF apply_proposed_indeterminate [OF p]]) (simp add: JobProposed apply_proposed_strip [OF p])
  next
    case (JobResult i x g ts)
    then have p: "apply_result iv b3 vf s i x g ts False = Ok (ap, s')" using step by simp
    show ?thesis
      by (rule same [OF apply_result_indeterminate [OF p]]) (simp add: JobResult apply_result_strip [OF p k book_okD(1) [OF b]])
  next
    case (ResultVerified i)
    then have p: "apply_verified iv b3 s i False = Ok (ap, s')" using step by simp
    show ?thesis by (rule same [OF apply_verified_indeterminate [OF p]]) (simp add: ResultVerified apply_verified_strip [OF p])
  next
    case (JobTerminated i outcome)
    then have p: "apply_terminated b3 vf s i outcome = Ok (ap, s')" using step by simp
    have "knows (if ap = Changed then bt_remove i ind else ind) s'"
      using indeterminate_after_end [OF k] knowsI [OF k] apply_terminated_indeterminate [OF p b] by simp
    then show ?thesis using apply_terminated_strip [OF p b, of ind] by (auto simp: JobTerminated)
  qed (use step in \<open>auto intro!: exI [of _ ind] knowsI [OF k] simp: funding_steps_strip apply_close_responded_strip book_steps_strip
      dest: funding_steps_book book_steps_channel_indeterminate\<close>)
qed

section \<open>The stored form keeps the invariant\<close>

lemma job_signed_strip: "job_signed b3 vf (strip_with ind s) (strip_job job) = job_signed b3 vf s job"
  by (simp add: job_signed_def)

lemma terminal_signed_strip: "terminal_signed b3 vf (strip_with ind s) = terminal_signed b3 vf s"
  by (auto simp: terminal_signed_def payment_signed_def fun_eq_iff split: terminal_outcome.split)

lemma bt_total_strip:
  "bt_total f (map (\<lambda>(i, job). (i, strip_job job)) m) = bt_total (\<lambda>job. f (strip_job job)) m"
  by (simp add: bt_total_def comp_def case_prod_beta)

lemma exposure_ok_strip: "exposure_ok (strip_with ind s) = exposure_ok s"
proof -
  have "(\<lambda>job. reserved_price (strip_job job)) = reserved_price" "(\<lambda>job. delivered_price (strip_job job)) = delivered_price"
    by (simp_all add: fun_eq_iff reserved_price_def delivered_price_def)
  then show ?thesis by (simp add: exposure_ok_def bt_total_strip)
qed

lemma bt_wf_map: "bt_wf (map (\<lambda>(i, x). (i, f x)) m) = bt_wf m"
  by (simp add: bt_wf_def comp_def case_prod_beta)

lemma book_ok_strip:
  assumes ok: "book_ok payment_funding (cn_book s)" and k: "knows ind s"
  shows "book_ok payment_funding (strip_book ind (cn_book s))"
proof (rule book_okI)
  show "job_ok payment_funding (strip_book ind (cn_book s)) i job" if "job_by_id (strip_book ind (cn_book s)) i = Some job" for i job
    using that book_okD(4) [OF ok, of i] by (auto simp: job_ok_def)
  show "\<exists>job. job_by_id (strip_book ind (cn_book s)) i = Some job \<and> js_phase job = HalfSigned"
    if "jb_pending_proposal (strip_book ind (cn_book s)) = Some i" for i
    using that book_okD(6) [OF ok, of i] by auto
  show "\<exists>job. job_by_id (strip_book ind (cn_book s)) i = Some job \<and> js_phase job \<in> {Running, Streaming}"
    if "is_indeterminate_job (strip_book ind (cn_book s)) i" for i
  proof -
    have "is_indeterminate_job (cn_book s) i" using that k unfolding knows_def strip_book_lookup(3) by blast
    then show ?thesis using book_okD(7) [OF ok, of i] by auto
  qed
qed (use book_okD(1,2,5) [OF ok] k in \<open>auto simp: bt_wf_map knows_def\<close>)

lemma close_ok_strip: "close_ok b3 (strip_with ind s) = close_ok b3 s"
  by (simp add: close_ok_def answer_ok_def)

lemma channel_ok_strip:
  assumes ok: "channel_ok b3 vf s" and k: "knows ind s"
  shows "channel_ok b3 vf (strip_with ind s)"
proof -
  have "job_signed b3 vf (strip_with ind s) job" if "job_by_id (strip_book ind (cn_book s)) i = Some job" for i job
    using that channel_okD(2) [OF ok, of i] by (auto simp: job_signed_strip)
  then show ?thesis using ok book_ok_strip [OF channel_okD(1) [OF ok] k]
    by (auto simp: channel_ok_def account_ok_def close_ok_strip exposure_ok_strip terminal_signed_strip)
qed

section \<open>A checkpoint is accepted again\<close>

lemma check_each_Ok: "(\<And>x. x \<in> set xs \<Longrightarrow> f x = Ok ()) \<Longrightarrow> check_each f xs = Ok ()"
  by (induction xs) auto

lemma revalidate_job_ok:
  assumes ok: "channel_ok b3 vf s" and job: "job_by_id (cn_book s) i = Some job"
    and bodies: "js_prepared_input job = []" "js_transcript job = []"
  shows "revalidate_job iv b3 vf s True job = Ok ()"
proof -
  have j: "job_signed b3 vf s job" "job_ok payment_funding (cn_book s) i job"
    using channel_okD(1,2) [OF ok] job book_okD(4) by auto
  show ?thesis
  proof (cases "js_result job")
    case None
    then show ?thesis using j bodies by (auto simp: revalidate_job_def job_signed_def job_ok_def chan_check_authorization_def)
  next
    case (Some x)
    then show ?thesis using j bodies
      by (cases x) (auto simp: revalidate_job_def job_signed_def job_ok_def chan_check_authorization_def check_result_payload_def)
  qed
qed

lemma revalidate_terminal_ok:
  assumes ok: "channel_ok b3 vf s" and t: "terminal_by_id (cn_book s) i = Some t"
  shows "revalidate_terminal b3 vf s t = Ok ()"
proof -
  have w: "jt_work_id t = i" using book_okD(5) [OF channel_okD(1) [OF ok] t] .
  have "job_by_id (cn_book s) i = None"
    using book_okD(4) [OF channel_okD(1) [OF ok], of i] t by (cases "job_by_id (cn_book s) i") (auto simp: job_ok_def)
  then show ?thesis using channel_okD(3) [OF ok t] w
    by (cases "jt_outcome t") (auto simp: revalidate_terminal_def terminal_signed_def payment_signed_def payment_signatures_def)
qed

text \<open>Every state the journal can reach is accepted again from its checkpoint, up to one check: the start retained for
  a close that was prepared must still carry the certificate in force.\<close>

lemma revalidate_eq:
  assumes ok: "channel_ok b3 vf s" and bodies: "\<And>i job. job_by_id (cn_book s) i = Some job \<Longrightarrow> strip_job job = job"
  shows "revalidate iv b3 vf s True = (case fs_close_prepared (cn_funding s) of Some start \<Rightarrow> check_close_start s start | None \<Rightarrow> Ok ())"
proof -
  note b = channel_okD(1) [OF ok]
  have c: "close_ok b3 s" "account_ok b3 vf s" using ok by (simp_all add: channel_ok_def)
  have "revalidate_exchange payment_funding (cn_book s) (cn_role s) = Ok ()"
    using book_okD(6) [OF b] c(2) by (fastforce simp: revalidate_exchange_def account_ok_def open_job_def split: option.split)
  moreover have "(case fs_close_history (cn_funding s) of Some h \<Rightarrow> check_close_history s h | None \<Rightarrow> Ok ()) = Ok ()"
    using c(1) by (auto simp: close_ok_def split: option.split)
  moreover have "check_each (revalidate_job iv b3 vf s True) (open_jobs s) = Ok ()"
  proof (rule check_each_Ok)
    fix job assume "job \<in> set (open_jobs s)"
    then obtain i where i: "job_by_id (cn_book s) i = Some job" unfolding open_jobs_iff [OF b] by blast
    show "revalidate_job iv b3 vf s True job = Ok ()"
      using bodies [OF i] by (intro revalidate_job_ok [OF ok i]) (metis strip_job_sel(7), metis strip_job_sel(8))
  qed
  moreover have "check_each (revalidate_terminal b3 vf s) (retained_terminals s) = Ok ()"
    using retained_terminals_iff [OF b] revalidate_terminal_ok [OF ok] by (intro check_each_Ok) blast
  moreover have "(case fs_close_responded (cn_funding s) of None \<Rightarrow> Ok () | Some answer \<Rightarrow> (case fs_close_opened (cn_funding s) of
      Some contest \<Rightarrow> if oc_start_id contest \<noteq> ra_start_id answer then Err (Ch_WrongChannel ''close response start_id'')
        else (case executable_certificate s of
            None \<Rightarrow> Err (Ch_WrongPhase ''replaying a fixed contest answer'' ''owed no answer'')
          | Some (certificate, _) \<Rightarrow>
              if ra_response_digest answer \<noteq> response_body_digest b3 (chan s) (oc_start_id contest) certificate
              then Err (Ch_WrongChannel ''close response digest'') else Ok ())
    | None \<Rightarrow> Err (Ch_WrongChannel ''close response start_id''))) = Ok ()"
    using c(1) by (cases "fs_close_responded (cn_funding s)") (auto simp: close_ok_def answer_ok_def)
  ultimately show ?thesis using channel_okD(4) [OF ok]
    by (cases "fs_close_prepared (cn_funding s)"; cases "check_close_start s (the (fs_close_prepared (cn_funding s)))") (simp_all add: revalidate_def Let_def)
qed

end
