(* ===== verification/Channel_Run.thy ===== *)
theory Channel_Run
  imports Channel_Replay
begin

text \<open>Every state of a payment channel (src/crates/channel/src/work_store/channel/state.rs and store.rs) and the account it
  keeps: a state is any that a new channel reaches by records it accepted, live or on replay, by the restoring of bodies
  and by the marking of running jobs when a journal is opened.\<close>

section \<open>Opening marks the jobs that were running\<close>

definition running_ids :: "payment_book \<Rightarrow> bytes32 list" where
  "running_ids b = map js_work_id (filter (\<lambda>job. js_phase job \<in> {Running, Streaming}) (map snd (jb_jobs b)))"

definition mark_indeterminate :: "channel \<Rightarrow> channel" where
  "mark_indeterminate s = s\<lparr>cn_book := (cn_book s)\<lparr>jb_indeterminate :=
    foldl (\<lambda>m i. bt_insert i () m) bt_empty (running_ids (cn_book s))\<rparr>\<rparr>"

lemma bt_collect:
  "bt_wf m \<Longrightarrow> bt_wf (foldl (\<lambda>m i. bt_insert i () m) m xs) \<and>
    (\<forall>i. bt_get (foldl (\<lambda>m i. bt_insert i () m) m xs) i \<noteq> None \<longleftrightarrow> i \<in> set xs \<or> bt_get m i \<noteq> None)"
proof (induction xs arbitrary: m)
  case (Cons x xs)
  from Cons.IH [of "bt_insert x () m"] Cons.prems show ?case by auto
qed simp

lemma mark_indeterminate_sel [simp]:
  "cn_funding (mark_indeterminate s) = cn_funding s" "cn_ledger (mark_indeterminate s) = cn_ledger s"
  "cn_role (mark_indeterminate s) = cn_role s" "jb_jobs (cn_book (mark_indeterminate s)) = jb_jobs (cn_book s)"
  "jb_terminals (cn_book (mark_indeterminate s)) = jb_terminals (cn_book s)"
  "jb_pending_proposal (cn_book (mark_indeterminate s)) = jb_pending_proposal (cn_book s)"
  "jb_proposal_nonce_high_water (cn_book (mark_indeterminate s)) = jb_proposal_nonce_high_water (cn_book s)"
  by (simp_all add: mark_indeterminate_def)

lemma mark_indeterminate_lookup [simp]:
  "job_by_id (cn_book (mark_indeterminate s)) = job_by_id (cn_book s)"
  "terminal_by_id (cn_book (mark_indeterminate s)) = terminal_by_id (cn_book s)"
  by (simp_all add: job_by_id_def terminal_by_id_def fun_eq_iff)

lemma mark_indeterminate_iff:
  assumes "book_ok payment_funding (cn_book s)"
  shows "is_indeterminate_job (cn_book (mark_indeterminate s)) i \<longleftrightarrow>
    (\<exists>job. job_by_id (cn_book s) i = Some job \<and> js_phase job \<in> {Running, Streaming})"
proof -
  have "is_indeterminate_job (cn_book (mark_indeterminate s)) i \<longleftrightarrow> i \<in> set (running_ids (cn_book s))"
    using bt_collect [of bt_empty "running_ids (cn_book s)"] by (simp add: is_indeterminate_job_def mark_indeterminate_def)
  also have "\<dots> \<longleftrightarrow> (\<exists>job \<in> set (open_jobs s). js_work_id job = i \<and> js_phase job \<in> {Running, Streaming})"
    by (auto simp: running_ids_def)
  also have "\<dots> \<longleftrightarrow> (\<exists>job. job_by_id (cn_book s) i = Some job \<and> js_phase job \<in> {Running, Streaming})"
    unfolding Bex_def open_jobs_iff [OF assms] using book_okD(4) [OF assms] by (fastforce simp: job_ok_def)
  finally show ?thesis .
qed

text \<open>What reads neither the indeterminate set nor a body.\<close>

lemma book_ok_mark: "book_ok payment_funding (cn_book s) \<Longrightarrow> book_ok payment_funding (cn_book (mark_indeterminate s))"
proof (rule book_okI)
  assume ok: "book_ok payment_funding (cn_book s)"
  show "bt_wf (jb_indeterminate (cn_book (mark_indeterminate s)))"
    using bt_collect [of bt_empty "running_ids (cn_book s)"] by (simp add: mark_indeterminate_def)
  show "job_ok payment_funding (cn_book (mark_indeterminate s)) i job" if "job_by_id (cn_book (mark_indeterminate s)) i = Some job" for i job
    using that book_okD(4) [OF ok, of i job] by (simp add: job_ok_def)
  show "\<exists>job. job_by_id (cn_book (mark_indeterminate s)) i = Some job \<and> js_phase job \<in> {Running, Streaming}"
    if "is_indeterminate_job (cn_book (mark_indeterminate s)) i" for i
    using that mark_indeterminate_iff [OF ok] by simp
qed (use book_okD [of payment_funding "cn_book s"] in auto)

lemma channel_ok_mark:
  assumes ok: "channel_ok b3 vf s"
  shows "channel_ok b3 vf (mark_indeterminate s)"
proof -
  have "job_signed b3 vf (mark_indeterminate s) = job_signed b3 vf s" "terminal_signed b3 vf (mark_indeterminate s) = terminal_signed b3 vf s"
    by (auto simp: job_signed_def terminal_signed_def payment_signed_def fun_eq_iff split: terminal_outcome.split)
  moreover have "last_payment (mark_indeterminate s) = last_payment s" by (simp add: last_payment_def)
  then have "max_executable_certificate (mark_indeterminate s) = max_executable_certificate s"
    "executable_certificate (mark_indeterminate s) = executable_certificate s"
    by (simp_all add: max_executable_certificate_def executable_certificate_def)
  moreover have "check_close_history (mark_indeterminate s) = check_close_history s" by (simp add: check_close_history_def fun_eq_iff)
  ultimately show ?thesis using ok book_ok_mark [OF channel_okD(1) [OF ok]]
    by (auto simp: channel_ok_def account_ok_def close_ok_def exposure_ok_def is_closing_funding answer_ok_def)
qed

section \<open>Restoring bodies\<close>

lemma restore_client_input_Ok:
  assumes "restore_client_input iv s i inp = Ok s'"
  obtains job where "job_by_id (cn_book s) i = Some job" "cn_role s = Client"
    "s' = s\<lparr>cn_book := put_job i (job\<lparr>js_prepared_input := inp\<rparr>) (cn_book s)\<rparr>"
  using assms by (auto simp: restore_client_input_def and_then_eq_Ok require_role_Ok open_job_Ok)

lemma restore_bodies_ok:
  assumes job: "job_by_id (cn_book s) i = Some job" and ok: "channel_ok b3 vf s"
  shows "channel_ok b3 vf (s\<lparr>cn_book := put_job i (job\<lparr>js_prepared_input := inp, js_transcript := ts\<rparr>) (cn_book s)\<rparr>)"
proof -
  note b = channel_okD(1) [OF ok]
  have "book_ok payment_funding (put_job i (job\<lparr>js_prepared_input := inp, js_transcript := ts\<rparr>) (cn_book s))"
    using book_okD(4) [OF b job] book_okD(6,7) [OF b, of i] job by (intro book_ok_put [OF b job]) (auto simp: job_ok_def)
  moreover have "job_signed b3 vf s (job\<lparr>js_prepared_input := inp, js_transcript := ts\<rparr>)"
    using channel_okD(2) [OF ok job] by (auto simp: job_signed_def)
  ultimately show ?thesis by (intro channel_ok_put [OF ok job]) auto
qed

lemma restore_client_input_bodies:
  assumes "restore_client_input iv s i inp = Ok s'"
  obtains job ts where "job_by_id (cn_book s) i = Some job"
    "s' = s\<lparr>cn_book := put_job i (job\<lparr>js_prepared_input := inp, js_transcript := ts\<rparr>) (cn_book s)\<rparr>"
proof -
  from assms obtain job where job: "job_by_id (cn_book s) i = Some job"
    "s' = s\<lparr>cn_book := put_job i (job\<lparr>js_prepared_input := inp\<rparr>) (cn_book s)\<rparr>" by (rule restore_client_input_Ok)
  moreover have "job\<lparr>js_prepared_input := inp\<rparr> = job\<lparr>js_prepared_input := inp, js_transcript := js_transcript job\<rparr>"
    by (rule job_state.equality) simp_all
  ultimately show thesis using that [of job "js_transcript job"] by simp
qed

section \<open>Runs\<close>

text \<open>Every state of a channel with the payments credited on the way, which only the model keeps. Besides the records
  it applies, a channel is given back bodies: a caller's input, and when a journal is opened the retained inputs and
  transcripts, of which nothing is assumed. Opening also drops the bodies and marks the running jobs.\<close>

text \<open>The payment a step credits, if it credits one: the job and its price.\<close>

definition credits :: "channel \<Rightarrow> channel_record \<Rightarrow> applied \<Rightarrow> (bytes32 \<times> u64) list" where
  "credits s r ap = (case r of
      JobTerminated i (Certified sr certificate binding bs cs) \<Rightarrow>
        (case job_by_id (cn_book s) i of Some job \<Rightarrow> if ap = Changed then [(i, pj_price (js_authorization job))] else [] | None \<Rightarrow> [])
    | _ \<Rightarrow> [])"

inductive channel_run ::
  "('p, 'q, 'e) invocation \<Rightarrow> blake3 \<Rightarrow> verifier \<Rightarrow> paid_channel \<Rightarrow> settlement \<Rightarrow> role \<Rightarrow> setup_origin
    \<Rightarrow> (bytes32 \<times> u64) list \<Rightarrow> channel \<Rightarrow> bool"
  for iv b3 vf c st role origin where
  run_new: "channel_run iv b3 vf c st role origin [] (channel_new c st role origin)"
| run_step: "channel_run iv b3 vf c st role origin ps s \<Longrightarrow> channel_apply iv b3 vf s r metadata_only = Ok (ap, s')
    \<Longrightarrow> channel_run iv b3 vf c st role origin (credits s r ap @ ps) s'"
| run_restore: "channel_run iv b3 vf c st role origin ps s \<Longrightarrow> restore_client_input iv s i inp = Ok s'
    \<Longrightarrow> channel_run iv b3 vf c st role origin ps s'"
| run_bodies: "channel_run iv b3 vf c st role origin ps s \<Longrightarrow> job_by_id (cn_book s) i = Some job
    \<Longrightarrow> channel_run iv b3 vf c st role origin ps
      (s\<lparr>cn_book := put_job i (job\<lparr>js_prepared_input := inp, js_transcript := ts\<rparr>) (cn_book s)\<rparr>)"
| run_strip: "channel_run iv b3 vf c st role origin ps s \<Longrightarrow> channel_run iv b3 vf c st role origin ps (strip s)"
| run_mark: "channel_run iv b3 vf c st role origin ps s \<Longrightarrow> channel_run iv b3 vf c st role origin ps (mark_indeterminate s)"

lemma knows_self: "book_ok payment_funding (cn_book s) \<Longrightarrow> knows (jb_indeterminate (cn_book s)) s"
  using book_okD(3) by (auto simp: knows_def is_indeterminate_job_def)

lemma run_ok: "channel_run iv b3 vf c st role origin ps s \<Longrightarrow> channel_ok b3 vf s"
proof (induction rule: channel_run.induct)
  case (run_strip ps s)
  then show ?case unfolding strip_def by (intro channel_ok_strip knows_self channel_okD(1))
next
  case (run_restore ps s i inp s')
  from run_restore.hyps(2) show ?case by (rule restore_client_input_bodies) (auto intro: restore_bodies_ok run_restore.IH)
qed (auto intro: channel_new_ok channel_apply_ok restore_bodies_ok channel_ok_mark)

section \<open>What a step leaves alone\<close>

definition same_channel :: "channel \<Rightarrow> channel \<Rightarrow> bool" where
  "same_channel s s' \<longleftrightarrow> chan s' = chan s \<and> fs_settlement (cn_funding s') = fs_settlement (cn_funding s) \<and> cn_role s' = cn_role s"

definition same_account :: "channel \<Rightarrow> channel \<Rightarrow> bool" where
  "same_account s s' \<longleftrightarrow> same_channel s s' \<and> cn_ledger s' = cn_ledger s \<and> jb_terminals (cn_book s') = jb_terminals (cn_book s)"

lemma same_accountI:
  "fs_channel (f (cn_funding s)) = chan s \<Longrightarrow> fs_settlement (f (cn_funding s)) = fs_settlement (cn_funding s)
    \<Longrightarrow> same_account s (update_funding f s)"
  by (simp add: same_account_def same_channel_def)

lemma same_account_book: "jb_terminals b = jb_terminals (cn_book s) \<Longrightarrow> same_account s (s\<lparr>cn_book := b\<rparr>)"
  by (simp add: same_account_def same_channel_def)

lemma same_account_refl [simp]: "same_account s s"
  by (simp add: same_account_def same_channel_def)

lemma funding_steps_account:
  "apply_origin_observed s = Ok (ap, s') \<Longrightarrow> same_account s s'"
  "apply_cursor s height parent payload = Ok (ap, s') \<Longrightarrow> same_account s s'"
  "apply_close_history s parent h = Ok (ap, s') \<Longrightarrow> same_account s s'"
  "apply_close_prepared s start = Ok (ap, s') \<Longrightarrow> same_account s s'"
  "apply_close_opened s contest = Ok (ap, s') \<Longrightarrow> same_account s s'"
  "apply_close_settled s settled = Ok (ap, s') \<Longrightarrow> same_account s s'"
  "apply_close_responded b3 s answer = Ok (ap, s') \<Longrightarrow> same_account s s'"
proof -
  show "apply_cursor s height parent payload = Ok (ap, s') \<Longrightarrow> same_account s s'"
    by (cases "reading s height parent payload"; cases "case reading s height parent payload of Ok x \<Rightarrow> x | Err _ \<Rightarrow> Changed")
      (auto simp: apply_cursor_def intro: same_accountI)
  show "apply_close_responded b3 s answer = Ok (ap, s') \<Longrightarrow> same_account s s'"
    by (drule apply_close_responded_Ok) (auto intro: same_accountI)
qed (auto simp: apply_origin_observed_def apply_close_history_def apply_close_prepared_def apply_close_opened_def
    apply_close_settled_def and_then_eq_Ok intro: same_accountI split: if_splits)

lemma book_steps_terminals:
  "proposal_exchange fd b i pending = Ok (ap, b') \<Longrightarrow> jb_terminals b' = jb_terminals b"
  "book_propose fd b job role = Ok (ap, b') \<Longrightarrow> jb_terminals b' = jb_terminals b"
  "book_run fd b i now = Ok (ap, b') \<Longrightarrow> jb_terminals b' = jb_terminals b"
  "mark_verified fd b i = Ok (ap, b') \<Longrightarrow> jb_terminals b' = jb_terminals b"
  "book_release fd b i = Ok (ap, b') \<Longrightarrow> jb_terminals b' = jb_terminals b"
  "book_record_result fd b i r g ts = Ok (ap, b') \<Longrightarrow> jb_terminals b' = jb_terminals b"
proof -
  show "proposal_exchange fd b i pending = Ok (ap, b') \<Longrightarrow> jb_terminals b' = jb_terminals b"
    by (auto simp: proposal_exchange_def and_then_eq_Ok Let_def split: if_splits)
  show "book_propose fd b job role = Ok (ap, b') \<Longrightarrow> jb_terminals b' = jb_terminals b"
    by (auto simp: book_propose_def and_then_eq_Ok Let_def split: if_splits option.splits)
  show "book_run fd b i now = Ok (ap, b') \<Longrightarrow> jb_terminals b' = jb_terminals b"
    unfolding book_run_Ok by (auto split: if_splits)
  show "mark_verified fd b i = Ok (ap, b') \<Longrightarrow> jb_terminals b' = jb_terminals b"
    unfolding mark_verified_Ok by (auto split: if_splits)
  show "book_release fd b i = Ok (ap, b') \<Longrightarrow> jb_terminals b' = jb_terminals b"
    unfolding book_release_Ok by (auto split: if_splits)
  show "book_record_result fd b i r g ts = Ok (ap, b') \<Longrightarrow> jb_terminals b' = jb_terminals b"
    unfolding book_record_result_Ok by auto
qed

lemma book_accept_terminals: "book_accept fd b i g now role = Ok (ap, b') \<Longrightarrow> jb_terminals b' = jb_terminals b"
  by (erule book_accept_Ok) auto

lemma book_steps_account:
  "apply_proposal_exchange s i pending = Ok (ap, s') \<Longrightarrow> same_account s s'"
  "apply_running s i = Ok (ap, s') \<Longrightarrow> same_account s s'"
  "apply_plaintext s i = Ok (ap, s') \<Longrightarrow> same_account s s'"
  "apply_accepted vf s i g = Ok (ap, s') \<Longrightarrow> same_account s s'"
  by (auto simp: apply_proposal_exchange_def apply_running_def apply_plaintext_def apply_accepted_def and_then_eq_Ok with_book_Ok
      intro!: same_account_book dest: book_steps_terminals book_accept_terminals split: if_splits)

lemma apply_proposed_account: "apply_proposed iv b3 vf s a g inp m = Ok (ap, s') \<Longrightarrow> same_account s s'"
  by (erule apply_proposed_Ok) (auto intro!: same_account_book dest: book_steps_terminals(2))

lemma apply_result_account: "apply_result iv b3 vf s i r g ts m = Ok (ap, s') \<Longrightarrow> same_account s s'"
  by (erule apply_result_Ok) (auto intro!: same_account_book dest: book_steps_terminals(6))

lemma apply_verified_Ok:
  assumes "apply_verified iv b3 s i replaying = Ok (ap, s')"
  shows "s' = s \<or> (\<exists>b'. mark_verified payment_funding (cn_book s) i = Ok (ap, b') \<and> s' = s\<lparr>cn_book := b'\<rparr>)"
proof -
  from assms obtain job where
    "(case js_result job of None \<Rightarrow> Err (Ch_WrongPhase ''recording a verified result'' (phase_name (js_phase job)))
    | Some (r, _) \<Rightarrow> if jr_outcome r \<noteq> Finished then Err (Ch_WrongChannel ''verified failed result'')
        else if js_phase job = Verified then Ok (Redundant, s)
        else and_then (if replaying then Ok () else check_result_payload iv b3 s job r (js_transcript job) False) (\<lambda>_.
          with_book s (mark_verified payment_funding (cn_book s) i))) = Ok (ap, s')"
    unfolding apply_verified_def and_then_eq_Ok by blast
  then show ?thesis by (cases "js_result job") (auto simp: and_then_eq_Ok with_book_Ok split: if_splits)
qed

lemma apply_verified_account: "apply_verified iv b3 s i m = Ok (ap, s') \<Longrightarrow> same_account s s'"
  by (drule apply_verified_Ok) (auto intro!: same_account_book dest: book_steps_terminals(4))

lemma step_account:
  assumes "channel_apply iv b3 vf s r m = Ok (ap, s')" "\<And>i outcome. r \<noteq> JobTerminated i outcome"
  shows "same_account s s'"
  using assms by (cases r) (auto dest: funding_steps_account book_steps_account apply_proposed_account apply_result_account apply_verified_account)

text \<open>Every step keeps the channel, the settlement and the role; only a payment that was not credited before moves the
  ledger, and only the end of a job adds a terminal.\<close>

lemma terminated_held:
  assumes step: "apply_terminated b3 vf s i outcome = Ok (ap, s')" and ok: "channel_ok b3 vf s"
  shows "same_channel s s' \<and> (\<forall>j c. held_certificate s' j c \<longleftrightarrow>
      held_certificate s j c \<or> (j = i \<and> ap = Changed \<and> (\<exists>sr b bs cs. outcome = Certified sr c b bs cs)))"
  using step
proof (cases rule: apply_terminated_Ok)
  case (2 job)
  then show ?thesis using not_held_open [OF channel_okD(1) [OF ok] 2(3)]
    by (auto simp: same_channel_def ended_held [OF channel_okD(1) [OF ok] 2(3)])
next
  case (3 job sr certificate binding bs cs)
  from 3(4) have ch: "ap = Changed" by (rule terminate_certified_Ok)
  show ?thesis using not_held_open [OF channel_okD(1) [OF ok] 3(2)]
    by (auto simp: same_channel_def terminate_certified_signed(3) [OF ok 3(2,4)] ended_held [OF channel_okD(1) [OF ok] 3(2)] 3(3) ch)
qed (simp add: same_channel_def)

section \<open>The account\<close>

lemma same_account_held: "same_account s s' \<Longrightarrow> held_certificate s' = held_certificate s"
  by (simp add: same_account_def held_certificate_def terminal_by_id_def fun_eq_iff)

text \<open>The account of a run: each job is paid at most once, and what is credited is the sum of the prices.\<close>

definition run_account :: "paid_channel \<Rightarrow> settlement \<Rightarrow> role \<Rightarrow> (bytes32 \<times> u64) list \<Rightarrow> channel \<Rightarrow> bool" where
  "run_account c st role ps s \<longleftrightarrow> chan s = c \<and> fs_settlement (cn_funding s) = st \<and> cn_role s = role
    \<and> distinct (map fst ps) \<and> (\<forall>i. i \<in> fst ` set ps \<longleftrightarrow> (\<exists>certificate. held_certificate s i certificate))
    \<and> unat (credited_cumulative (cn_ledger s)) = (\<Sum>(i, price) \<leftarrow> ps. unat price)"

lemma run_account_same: "run_account c st role ps s \<Longrightarrow> same_account s s' \<Longrightarrow> run_account c st role ps s'"
  using same_account_held [of s s'] by (simp add: run_account_def same_account_def same_channel_def)

lemma run_account_step:
  assumes acc: "run_account c st role ps s" and ok: "channel_ok b3 vf s" and step: "channel_apply iv b3 vf s r m = Ok (ap, s')"
  shows "run_account c st role (credits s r ap @ ps) s'"
proof (cases "\<exists>i outcome. r = JobTerminated i outcome")
  case False
  then have "credits s r ap = []" by (auto simp: credits_def split: channel_record.split)
  with run_account_same [OF acc step_account [OF step]] False show ?thesis by simp
next
  case True
  then obtain i outcome where r: "r = JobTerminated i outcome" by blast
  with step have t: "apply_terminated b3 vf s i outcome = Ok (ap, s')" by simp
  note h = terminated_held [OF t ok] and b = channel_okD(1) [OF ok]
  from t show ?thesis
  proof (cases rule: apply_terminated_Ok)
    case 1
    then show ?thesis using acc by (auto simp: credits_def r split: terminal_outcome.split option.split)
  next
    case (2 job)
    then have "credits s r ap = []" by (auto simp: credits_def r split: terminal_outcome.split)
    moreover have "held_certificate s' = held_certificate s" using h 2(4) by (auto simp: fun_eq_iff)
    ultimately show ?thesis using acc h 2(5) by (simp add: run_account_def same_channel_def ended_def)
  next
    case (3 job sr certificate binding bs cs)
    from 3(4) have ch: "ap = Changed" by (rule terminate_certified_Ok)
    note signed = terminate_certified_signed [OF ok 3(2,4)]
    have new: "i \<notin> fst ` set ps" using acc not_held_open [OF b 3(2)] by (simp add: run_account_def)
    have "held_certificate s' j c \<longleftrightarrow> held_certificate s j c \<or> j = i \<and> c = certificate" for j c using h 3(3) ch by auto
    then show ?thesis using acc h signed(2,3) new 3(2,3) ch
      by (auto simp: run_account_def same_channel_def credits_def r ended_def from_credited_cumulative_def)
  qed
qed

lemma run_account_run: "channel_run iv b3 vf c st role origin ps s \<Longrightarrow> run_account c st role ps s"
proof (induction rule: channel_run.induct)
  case run_new
  show ?case by (simp add: run_account_def channel_new_def credit_ledger_new_def held_certificate_def terminal_by_id_def
      job_book_default_def bt_get_def bt_empty_def)
next
  case (run_step ps s r m ap s')
  from run_account_step [OF run_step.IH run_ok [OF run_step.hyps(1)] run_step.hyps(2)] show ?case .
next
  case (run_restore ps s i inp s')
  from run_restore.hyps(2) show ?case
    by (rule restore_client_input_bodies) (auto intro!: run_account_same [OF run_restore.IH] same_account_book simp: put_job_def)
next
  case (run_bodies ps s i job inp ts)
  show ?case by (rule run_account_same [OF run_bodies.IH]) (auto intro!: same_account_book simp: put_job_def)
next
  case (run_strip ps s)
  have "same_account s (strip s)" by (simp add: strip_def same_account_def same_channel_def)
  then show ?case by (rule run_account_same [OF run_strip.IH])
next
  case (run_mark ps s)
  have "same_account s (mark_indeterminate s)" by (simp add: same_account_def same_channel_def)
  then show ?case by (rule run_account_same [OF run_mark.IH])
qed

end
