(* ===== verification/Channel_Codec.thy ===== *)
theory Channel_Codec
  imports Channel_State
begin

text \<open>The bytes of a channel journal (src/crates/channel/src/work_store/channel/codec.rs, with the cursor of
  src/crates/kernel/src/canonical.rs and the shared writers of src/crates/channel/src/work_store/mod.rs): the fifteen
  records and the checkpoint, each in full and in the body-less form that is stored. A cursor is the list of bytes still
  unread; a reader returns the value and the rest. \<open>b3\<close> is the keyed hash a close start's terms are checked with. A
  \<^verbatim>\<open>usize\<close> has 64 bits. The locale \<open>journal_field\<close> is what a field's writer and reader promise the records.\<close>

section \<open>The cursor\<close>

type_synonym 'a journal_reader = "bytes \<Rightarrow> ('a \<times> bytes, channel_state_error) result"

definition cursor_byte :: "bytes \<Rightarrow> (byte \<times> bytes) option" where
  "cursor_byte bs = (case bs of [] \<Rightarrow> None | head # rest \<Rightarrow> Some (head, rest))"

definition cursor_take :: "nat \<Rightarrow> bytes \<Rightarrow> (bytes \<times> bytes) option" where
  "cursor_take n bs = (if n \<le> length bs then Some (take n bs, drop n bs) else None)"

definition cursor_array :: "nat \<Rightarrow> bytes \<Rightarrow> ('a::len word \<times> bytes) option" where
  "cursor_array n bs = map_option (\<lambda>(head, rest). (from_be_bytes head, rest)) (cursor_take n bs)"

definition take_byte :: "byte journal_reader" where "take_byte bs = ok_or Ch_Malformed (cursor_byte bs)"
definition take_u64 :: "u64 journal_reader" where "take_u64 bs = ok_or Ch_Malformed (cursor_array 8 bs)"
definition take_u32 :: "u32 journal_reader" where "take_u32 bs = ok_or Ch_Malformed (cursor_array 4 bs)"
definition take_digest :: "bytes32 journal_reader" where "take_digest bs = ok_or Ch_Malformed (cursor_array 32 bs)"
definition take_signature :: "sig journal_reader" where "take_signature bs = ok_or Ch_Malformed (cursor_array 64 bs)"

definition put_bool :: "bool \<Rightarrow> bytes" where "put_bool b = [if b then 1 else 0]"

definition take_bool :: "bool journal_reader" where
  "take_bool bs = (case cursor_byte bs of
      Some (c, rest) \<Rightarrow> if c = 0 then Ok (False, rest) else if c = 1 then Ok (True, rest) else Err Ch_Malformed
    | None \<Rightarrow> Err Ch_Malformed)"

definition put_option :: "('a \<Rightarrow> bytes) \<Rightarrow> 'a option \<Rightarrow> bytes" where
  "put_option body v = (case v of None \<Rightarrow> [0] | Some x \<Rightarrow> 1 # body x)"

definition take_option :: "'a journal_reader \<Rightarrow> 'a option journal_reader" where
  "take_option body bs = (case cursor_byte bs of
      Some (c, rest) \<Rightarrow>
        if c = 0 then Ok (None, rest)
        else if c = 1 then and_then (body rest) (\<lambda>(x, rest). Ok (Some x, rest)) else Err Ch_Malformed
    | None \<Rightarrow> Err Ch_Malformed)"

definition put_bytes :: "bytes \<Rightarrow> bytes" where
  "put_bytes bs = put_u64 (of_nat (length bs)) @ bs"

definition take_bytes :: "bytes journal_reader" where
  "take_bytes bs = and_then (take_u64 bs) (\<lambda>(n, bs). ok_or Ch_Malformed (cursor_take (unat n) bs))"

section \<open>Fields\<close>

definition party_code :: "party \<Rightarrow> byte" where "party_code p = (case p of Maker \<Rightarrow> 0 | Taker \<Rightarrow> 1)"

definition party_from_code :: "byte \<Rightarrow> (party, channel_state_error) result" where
  "party_from_code c = (if c = 0 then Ok Maker else if c = 1 then Ok Taker else Err Ch_Malformed)"

definition role_code :: "role \<Rightarrow> byte" where "role_code r = (case r of Client \<Rightarrow> 1 | Provider \<Rightarrow> 2)"

definition role_from_code :: "byte \<Rightarrow> (role, channel_state_error) result" where
  "role_from_code c = (if c = 1 then Ok Client else if c = 2 then Ok Provider else Err Ch_Malformed)"

definition take_party :: "party journal_reader" where
  "take_party bs = and_then (take_byte bs) (\<lambda>(c, bs). and_then (party_from_code c) (\<lambda>p. Ok (p, bs)))"

definition take_phase :: "job_phase journal_reader" where
  "take_phase bs = and_then (take_byte bs) (\<lambda>(c, bs). and_then (phase_from_code c) (\<lambda>p. Ok (p, bs)))"

text \<open>A private record is fixed-width: its bytes are taken first and then decoded.\<close>

definition take_record :: "nat \<Rightarrow> (bytes \<Rightarrow> ('a, paid_work_error) result) \<Rightarrow> 'a journal_reader" where
  "take_record n dec bs =
    and_then (ok_or Ch_Malformed (cursor_take n bs)) (\<lambda>(head, rest).
    and_then (map_err Ch_Record (dec head)) (\<lambda>x. Ok (x, rest)))"

abbreviation take_authorization :: "paid_job_authorization journal_reader" where
  "take_authorization \<equiv> take_record (RECORD_ENVELOPE_SIZE + AUTHORIZATION_BODY_SIZE) decode_authorization"
abbreviation take_result :: "paid_job_result journal_reader" where
  "take_result \<equiv> take_record (RECORD_ENVELOPE_SIZE + RESULT_BODY_SIZE) decode_result"
abbreviation take_binding :: "payment_binding journal_reader" where
  "take_binding \<equiv> take_record (RECORD_ENVELOPE_SIZE + BINDING_BODY_SIZE) decode_binding"

definition take_certificate :: "earned_certificate journal_reader" where
  "take_certificate bs =
    and_then (ok_or Ch_Malformed (cursor_take EARNED_CERTIFICATE_SIZE bs)) (\<lambda>(head, rest).
    and_then (map_err (\<lambda>_. Ch_Malformed) (decode_earned_certificate head)) (\<lambda>(certificate, consumed).
    if consumed = length head then Ok (certificate, rest) else Err Ch_Malformed))"

definition decode_kernel :: "'a decoder \<Rightarrow> bytes \<Rightarrow> ('a, channel_state_error) result" where
  "decode_kernel dec bs = map_err (\<lambda>_. Ch_Malformed) (decode_exact dec bs)"

text \<open>A kernel value behind its own length.\<close>

definition take_kernel :: "'a decoder \<Rightarrow> 'a journal_reader" where
  "take_kernel dec bs = and_then (take_bytes bs) (\<lambda>(body, rest). and_then (decode_kernel dec body) (\<lambda>x. Ok (x, rest)))"

fun put_outcome :: "terminal_outcome \<Rightarrow> bytes" where
  "put_outcome (Certified sr certificate binding binding_signature certificate_signature) =
    0 # encode_result (fst sr) @ to_be_bytes (snd sr) @ encode_earned_certificate certificate @ encode_binding binding
      @ to_be_bytes binding_signature @ to_be_bytes certificate_signature"
| "put_outcome (Rejected digest evidence) = 1 # to_be_bytes digest @ to_be_bytes evidence"
| "put_outcome (Expired deadline height payload) = 2 # put_u64 deadline @ put_u64 height @ to_be_bytes payload"
| "put_outcome (Failed code) = 3 # to_be_bytes code"
| "put_outcome Indeterminate = [4]"

definition take_outcome :: "terminal_outcome journal_reader" where
  "take_outcome bs = and_then (take_byte bs) (\<lambda>(code, bs).
    if code = 0 then
      and_then (take_result bs) (\<lambda>(r, bs). and_then (take_signature bs) (\<lambda>(g, bs).
      and_then (take_certificate bs) (\<lambda>(certificate, bs). and_then (take_binding bs) (\<lambda>(binding, bs).
      and_then (take_signature bs) (\<lambda>(binding_signature, bs). and_then (take_signature bs) (\<lambda>(certificate_signature, bs).
      Ok (Certified (r, g) certificate binding binding_signature certificate_signature, bs)))))))
    else if code = 1 then
      and_then (take_digest bs) (\<lambda>(digest, bs). and_then (take_digest bs) (\<lambda>(evidence, bs). Ok (Rejected digest evidence, bs)))
    else if code = 2 then
      and_then (take_u64 bs) (\<lambda>(deadline, bs). and_then (take_u64 bs) (\<lambda>(height, bs). and_then (take_digest bs) (\<lambda>(payload, bs).
      Ok (Expired deadline height payload, bs))))
    else if code = 3 then and_then (take_u32 bs) (\<lambda>(code, bs). Ok (Failed code, bs))
    else if code = 4 then Ok (Indeterminate, bs)
    else Err Ch_Malformed)"

definition put_close_history :: "close_history \<Rightarrow> bytes" where
  "put_close_history h = put_u64 (hi_height h) @ to_be_bytes (hi_payload h) @ put_bytes (encode_pending_close (hi_pending h))"

definition take_close_history :: "close_history journal_reader" where
  "take_close_history bs =
    and_then (take_u64 bs) (\<lambda>(height, bs). and_then (take_digest bs) (\<lambda>(payload, bs).
    and_then (take_kernel decode_pending_close bs) (\<lambda>(pending, bs).
    Ok (\<lparr>hi_height = height, hi_payload = payload, hi_pending = pending\<rparr>, bs))))"

section \<open>The interface of a field\<close>


locale journal_field =
  fixes put :: "'a \<Rightarrow> bytes"
    and rd :: "'a journal_reader"
    and wf :: "'a \<Rightarrow> bool"
  assumes put_rd: "wf x \<Longrightarrow> rd (put x @ rest) = Ok (x, rest)"
    and rd_put: "rd bs = Ok (x, rest) \<Longrightarrow> wf x \<and> bs = put x @ rest"
begin

text \<open>An optional field, and a field that ends its record.\<close>

lemma option_put_rd: "pred_option wf v \<Longrightarrow> take_option rd (put_option put v @ rest) = Ok (v, rest)"
  by (cases v) (simp_all add: take_option_def put_option_def cursor_byte_def put_rd)

lemma option_rd_put: "take_option rd bs = Ok (v, rest) \<Longrightarrow> pred_option wf v \<and> bs = put_option put v @ rest"
  by (cases bs) (auto simp: take_option_def put_option_def cursor_byte_def and_then_eq_Ok split: if_splits dest!: rd_put)

lemma put_inj: "wf x \<Longrightarrow> wf y \<Longrightarrow> put x @ r = put y @ q \<longleftrightarrow> x = y \<and> r = q"
  by (metis put_rd Pair_inject result.inject(1))

end

lemma word_field:
  assumes "8 dvd LENGTH('a::len)" "n = LENGTH('a) div 8" "\<And>bs. rd bs = ok_or Ch_Malformed (cursor_array n bs)"
  shows "journal_field (to_be_bytes :: 'a word \<Rightarrow> bytes) rd (\<lambda>_. True)"
proof
  fix x :: "'a word" and rest bs :: bytes
  show "rd (to_be_bytes x @ rest) = Ok (x, rest)"
    using assms by (simp add: cursor_array_def cursor_take_def length_to_be_bytes from_be_bytes_to_be)
  show "True \<and> bs = to_be_bytes x @ rest" if "rd bs = Ok (x, rest)"
  proof -
    from that have n: "n \<le> length bs" "x = from_be_bytes (take n bs)" "rest = drop n bs"
      by (auto simp: assms(3) cursor_array_def cursor_take_def ok_or_eq_Ok split: if_splits)
    then have "to_be_bytes x = take n bs" using to_be_bytes_from_be [of "take n bs", where 'a = 'a] assms(1,2) by simp
    with n show ?thesis by simp
  qed
qed

interpretation u64_field: journal_field put_u64 take_u64 "\<lambda>_. True"
  unfolding put_u64_def by (rule word_field) (simp_all add: take_u64_def)

interpretation u32_field: journal_field to_be_bytes take_u32 "\<lambda>_. True"
  by (rule word_field) (simp_all add: take_u32_def)

interpretation digest_field: journal_field to_be_bytes take_digest "\<lambda>_. True"
  by (rule word_field) (simp_all add: take_digest_def)

interpretation signature_field: journal_field to_be_bytes take_signature "\<lambda>_. True"
  by (rule word_field) (simp_all add: take_signature_def)

interpretation bool_field: journal_field put_bool take_bool "\<lambda>_. True"
proof
  show "take_bool (put_bool x @ rest) = Ok (x, rest)" for x rest by (simp add: take_bool_def put_bool_def cursor_byte_def)
  show "True \<and> bs = put_bool x @ rest" if "take_bool bs = Ok (x, rest)" for bs x rest
    using that by (cases bs) (auto simp: take_bool_def put_bool_def cursor_byte_def split: if_splits)
qed

interpretation party_field: journal_field "\<lambda>p. [party_code p]" take_party "\<lambda>_. True"
proof
  show "take_party ([party_code x] @ rest) = Ok (x, rest)" for x rest
    by (cases x) (simp_all add: take_party_def take_byte_def cursor_byte_def party_code_def party_from_code_def)
  show "True \<and> bs = [party_code x] @ rest" if "take_party bs = Ok (x, rest)" for bs x rest
    using that by (cases bs) (auto simp: take_party_def take_byte_def cursor_byte_def party_code_def party_from_code_def
        and_then_eq_Ok split: if_splits)
qed

interpretation phase_field: journal_field "\<lambda>p. [phase_code p]" take_phase "\<lambda>_. True"
proof
  show "take_phase ([phase_code x] @ rest) = Ok (x, rest)" for x rest
    by (cases x) (simp_all add: take_phase_def take_byte_def cursor_byte_def phase_from_code_def)
  show "True \<and> bs = [phase_code x] @ rest" if "take_phase bs = Ok (x, rest)" for bs x rest
    using that by (cases bs) (auto simp: take_phase_def take_byte_def cursor_byte_def phase_from_code_def
        and_then_eq_Ok split: if_splits)
qed

interpretation bytes_field: journal_field put_bytes take_bytes "\<lambda>bs. length bs < 2 ^ 64"
proof
  show "take_bytes (put_bytes x @ rest) = Ok (x, rest)" if "length x < 2 ^ 64" for x rest
    using that by (simp add: take_bytes_def put_bytes_def u64_field.put_rd cursor_take_def unat_of_nat)
  show "length x < 2 ^ 64 \<and> bs = put_bytes x @ rest" if "take_bytes bs = Ok (x, rest)" for bs x rest
  proof -
    from that obtain n tl where n: "take_u64 bs = Ok (n, tl)" "unat n \<le> length tl" "x = take (unat n) tl" "rest = drop (unat n) tl"
      by (auto simp: take_bytes_def and_then_eq_Ok ok_or_eq_Ok cursor_take_def split: if_splits)
    have "length x = unat n" using n by simp
    with n u64_field.rd_put [OF n(1)] unat_u64_less [of n] show ?thesis by (auto simp: put_bytes_def)
  qed
qed

lemma cursor_take_append: "length x = n \<Longrightarrow> cursor_take n (x @ rest) = Some (x, rest)"
  by (simp add: cursor_take_def)

lemma cursor_take_Some: "cursor_take n bs = Some (x, rest) \<longleftrightarrow> bs = x @ rest \<and> length x = n"
  by (auto simp: cursor_take_def)

lemma record_field:
  assumes "\<And>x. length (enc x) = n" "\<And>bs x. dec bs = Ok x \<longleftrightarrow> bs = enc x"
  shows "journal_field enc (take_record n dec) (\<lambda>_. True)"
proof
  show "take_record n dec (enc x @ rest) = Ok (x, rest)" for x rest
    using assms(2) [of "enc x" x] by (simp add: take_record_def cursor_take_append assms(1))
  show "True \<and> bs = enc x @ rest" if "take_record n dec bs = Ok (x, rest)" for bs x rest
    using that by (auto simp: take_record_def and_then_eq_Ok ok_or_eq_Ok map_err_eq_Ok cursor_take_Some assms(2))
qed

interpretation authorization_field: journal_field encode_authorization take_authorization "\<lambda>_. True"
  by (rule record_field) (simp_all add: encoded_record_lengths record_decode_iffs)

interpretation result_field: journal_field encode_result take_result "\<lambda>_. True"
  by (rule record_field) (simp_all add: encoded_record_lengths record_decode_iffs)

interpretation binding_field: journal_field encode_binding take_binding "\<lambda>_. True"
  by (rule record_field) (simp_all add: encoded_record_lengths record_decode_iffs)

interpretation certificate_field: journal_field encode_earned_certificate take_certificate "\<lambda>_. True"
proof
  have l: "length (encode_earned_certificate x) = EARNED_CERTIFICATE_SIZE" for x
    using earned_certificate_codec.sized [of x] by (simp add: encoded_size_earned_certificate_def)
  show "take_certificate (encode_earned_certificate x @ rest) = Ok (x, rest)" for x rest
    using earned_certificate_codec.round_trip_end [of x] by (simp add: take_certificate_def cursor_take_append l)
  show "True \<and> bs = encode_earned_certificate x @ rest" if "take_certificate bs = Ok (x, rest)" for bs x rest
    using that by (auto simp: take_certificate_def and_then_eq_Ok ok_or_eq_Ok map_err_eq_Ok cursor_take_Some split: if_splits
        dest!: earned_certificate_codec.canonical)
qed

lemma kernel_field:
  assumes "codec enc dec size_of max_size ok" "max_size < 2 ^ 64"
  shows "journal_field (\<lambda>x. put_bytes (enc x)) (take_kernel dec) ok"
proof
  note exact = codec.exact_iff [OF assms(1)]
  have l: "length (enc x) < 2 ^ 64" if "ok x" for x using codec.enc_le [OF assms(1) that] assms(2) by simp
  show "take_kernel dec (put_bytes (enc x) @ rest) = Ok (x, rest)" if "ok x" for x rest
    using bytes_field.put_rd [OF l [OF that], of rest] exact [of "enc x" x] that
    by (simp add: take_kernel_def decode_kernel_def)
  show "ok x \<and> bs = put_bytes (enc x) @ rest" if "take_kernel dec bs = Ok (x, rest)" for bs x rest
    using that by (auto simp: take_kernel_def decode_kernel_def and_then_eq_Ok map_err_eq_Ok exact dest!: bytes_field.rd_put)
qed

lemmas kernel_size_defs = max_encoded_size_payment_close_start_def max_encoded_size_terms_def max_encoded_size_terms_body_def
  BASIC_BODY_SIZE_def EARNED_CERTIFICATE_SIZE_def ENVELOPE_SIZE_def HASH_LENGTH_def ID_LENGTH_def KEY_LENGTH_def
  SIG_LENGTH_def MAX_EDGE_OUTPUTS_def MAX_WEBAUTHN_DATA_LENGTH_def P256_COORDINATE_LENGTH_def PENDING_CLOSE_SIZE_def
  max_encoded_size_auth_def max_encoded_size_authority_def max_encoded_size_block_height_def
  max_encoded_size_bytes32_def max_encoded_size_edge_id_def max_encoded_size_key_def max_encoded_size_list_def
  max_encoded_size_option_def max_encoded_size_parties_def max_encoded_size_party_def max_encoded_size_party_auth_def
  max_encoded_size_party_keys_def max_encoded_size_payload_hash_def max_encoded_size_payout_def
  max_encoded_size_payouts_def max_encoded_size_pending_close_def max_encoded_size_protocol_code_def
  max_encoded_size_start_id_def max_encoded_size_terms_hash_def max_encoded_size_u64_def max_encoded_size_u8_def
  max_encoded_size_usize_def max_encoded_size_webauthn_assertion_def max_encoded_size_work_payment_terms_def
  max_encoded_size_work_stake_bond_terms_def max_encoded_size_work_stake_bond_witness_def max_encoded_size_u32_def
  max_encoded_size_u16_def max_encoded_size_coin_id_def

lemma max_close_start_size: "max_encoded_size_payment_close_start < 2 ^ 64"
  by (simp add: kernel_size_defs)

lemma max_pending_size: "max_encoded_size_pending_close < 2 ^ 64"
  by (simp add: kernel_size_defs)

interpretation start_field: journal_field "\<lambda>x. put_bytes (encode_payment_close_start x)"
  "take_kernel (decode_payment_close_start b3)" "wf_payment_close_start b3" for b3 :: blake3
  by (rule kernel_field [OF payment_close_start_codec.codec_axioms max_close_start_size])

interpretation pending_field: journal_field "\<lambda>x. put_bytes (encode_pending_close x)" "take_kernel decode_pending_close" "\<lambda>_. True"
  by (rule kernel_field [OF pending_close_codec.codec_axioms max_pending_size])

lemmas field_reads = u64_field.put_rd u32_field.put_rd digest_field.put_rd signature_field.put_rd bool_field.put_rd party_field.put_rd
  phase_field.put_rd bytes_field.put_rd authorization_field.put_rd result_field.put_rd binding_field.put_rd certificate_field.put_rd
  start_field.put_rd pending_field.put_rd

lemmas field_writes = u64_field.rd_put u32_field.rd_put digest_field.rd_put signature_field.rd_put bool_field.rd_put party_field.rd_put
  phase_field.rd_put bytes_field.rd_put authorization_field.rd_put result_field.rd_put binding_field.rd_put certificate_field.rd_put
  start_field.rd_put pending_field.rd_put

lemma take_byte_Cons [simp]: "take_byte (c # rest) = Ok (c, rest)"
  by (simp add: take_byte_def cursor_byte_def)

lemma take_byte_Ok: "take_byte bs = Ok (c, rest) \<longleftrightarrow> bs = c # rest"
  by (cases bs) (auto simp: take_byte_def cursor_byte_def)

interpretation history_field: journal_field put_close_history take_close_history "\<lambda>_. True"
proof
  show "take_close_history (put_close_history x @ rest) = Ok (x, rest)" for x rest
    by (simp add: take_close_history_def put_close_history_def field_reads)
  show "True \<and> bs = put_close_history x @ rest" if "take_close_history bs = Ok (x, rest)" for bs x rest
    using that by (auto simp: take_close_history_def put_close_history_def and_then_eq_Ok dest!: field_writes)
qed

interpretation outcome_field: journal_field put_outcome take_outcome "\<lambda>_. True"
proof
  show "take_outcome (put_outcome x @ rest) = Ok (x, rest)" for x rest
    by (cases x) (simp_all add: take_outcome_def field_reads)
  show "True \<and> bs = put_outcome x @ rest" if "take_outcome bs = Ok (x, rest)" for bs x rest
    using that by (auto simp: take_outcome_def and_then_eq_Ok take_byte_Ok split: if_splits dest!: field_writes)
qed

section \<open>Records\<close>

definition tag_CLOSE_HISTORY :: byte where "tag_CLOSE_HISTORY = 14"
definition tag_ORIGIN_OBSERVED :: byte where "tag_ORIGIN_OBSERVED = 13"
definition tag_PROPOSAL_EXCHANGE :: byte where "tag_PROPOSAL_EXCHANGE = 12"
definition tag_CURSOR :: byte where "tag_CURSOR = 0"
definition tag_PROPOSED :: byte where "tag_PROPOSED = 1"
definition tag_ACCEPTED :: byte where "tag_ACCEPTED = 2"
definition tag_RUNNING :: byte where "tag_RUNNING = 3"
definition tag_RESULT :: byte where "tag_RESULT = 4"
definition tag_PLAINTEXT :: byte where "tag_PLAINTEXT = 5"
definition tag_VERIFIED :: byte where "tag_VERIFIED = 6"
definition tag_TERMINATED :: byte where "tag_TERMINATED = 7"
definition tag_CLOSE_PREPARED :: byte where "tag_CLOSE_PREPARED = 8"
definition tag_CLOSE_OPENED :: byte where "tag_CLOSE_OPENED = 9"
definition tag_CLOSE_SETTLED :: byte where "tag_CLOSE_SETTLED = 10"
definition tag_CLOSE_RESPONDED :: byte where "tag_CLOSE_RESPONDED = 11"

lemmas channel_tags = tag_CLOSE_HISTORY_def tag_ORIGIN_OBSERVED_def tag_PROPOSAL_EXCHANGE_def tag_CURSOR_def tag_PROPOSED_def
  tag_ACCEPTED_def tag_RUNNING_def tag_RESULT_def tag_PLAINTEXT_def tag_VERIFIED_def tag_TERMINATED_def tag_CLOSE_PREPARED_def
  tag_CLOSE_OPENED_def tag_CLOSE_SETTLED_def tag_CLOSE_RESPONDED_def

fun encode_inner :: "bool \<Rightarrow> channel_record \<Rightarrow> bytes" where
  "encode_inner metadata_only OriginObserved = [tag_ORIGIN_OBSERVED]"
| "encode_inner metadata_only (ProposalExchange i pending) = tag_PROPOSAL_EXCHANGE # to_be_bytes i @ put_bool pending"
| "encode_inner metadata_only (CursorAdvanced height parent payload) =
    tag_CURSOR # put_u64 height @ to_be_bytes parent @ to_be_bytes payload"
| "encode_inner metadata_only (JobProposed a client_signature prepared_input) =
    tag_PROPOSED # encode_authorization a @ to_be_bytes client_signature @ (if metadata_only then [] else prepared_input)"
| "encode_inner metadata_only (JobAccepted i provider_signature) = tag_ACCEPTED # to_be_bytes i @ to_be_bytes provider_signature"
| "encode_inner metadata_only (JobRunning i) = tag_RUNNING # to_be_bytes i"
| "encode_inner metadata_only (JobResult i r provider_signature transcript) =
    tag_RESULT # to_be_bytes i @ encode_result r @ to_be_bytes provider_signature @ (if metadata_only then [] else transcript)"
| "encode_inner metadata_only (PlaintextReleased i) = tag_PLAINTEXT # to_be_bytes i"
| "encode_inner metadata_only (ResultVerified i) = tag_VERIFIED # to_be_bytes i"
| "encode_inner metadata_only (JobTerminated i outcome) = tag_TERMINATED # to_be_bytes i @ put_outcome outcome"
| "encode_inner metadata_only (ClosePrepared start) = tag_CLOSE_PREPARED # encode_payment_close_start start"
| "encode_inner metadata_only (CloseHistoryAdvanced parent h) = tag_CLOSE_HISTORY # to_be_bytes parent @ put_close_history h"
| "encode_inner metadata_only (CloseOpened start opener deadline claimed) =
    tag_CLOSE_OPENED # to_be_bytes start @ [party_code opener] @ put_u64 deadline @ put_u64 claimed"
| "encode_inner metadata_only (CloseResponded start digest) = tag_CLOSE_RESPONDED # to_be_bytes start @ to_be_bytes digest"
| "encode_inner metadata_only (CloseSettled height payload payout) =
    tag_CLOSE_SETTLED # put_u64 height @ to_be_bytes payload @ put_u64 payout"

definition encode_channel_record :: "channel_record \<Rightarrow> bytes" where "encode_channel_record = encode_inner False"
definition encode_for_storage :: "channel_record \<Rightarrow> bytes" where "encode_for_storage = encode_inner True"

definition take_record_body :: "blake3 \<Rightarrow> byte \<Rightarrow> channel_record journal_reader" where
  "take_record_body b3 t bs =
    (if t = tag_PROPOSAL_EXCHANGE then
       and_then (take_digest bs) (\<lambda>(i, bs). and_then (take_bool bs) (\<lambda>(pending, bs). Ok (ProposalExchange i pending, bs)))
     else if t = tag_ORIGIN_OBSERVED then Ok (OriginObserved, bs)
     else if t = tag_CURSOR then
       and_then (take_u64 bs) (\<lambda>(height, bs). and_then (take_digest bs) (\<lambda>(parent, bs). and_then (take_digest bs) (\<lambda>(payload, bs).
       Ok (CursorAdvanced height parent payload, bs))))
     else if t = tag_PROPOSED then
       and_then (take_authorization bs) (\<lambda>(a, bs). and_then (take_signature bs) (\<lambda>(g, bs). Ok (JobProposed a g bs, [])))
     else if t = tag_ACCEPTED then
       and_then (take_digest bs) (\<lambda>(i, bs). and_then (take_signature bs) (\<lambda>(g, bs). Ok (JobAccepted i g, bs)))
     else if t = tag_RUNNING then and_then (take_digest bs) (\<lambda>(i, bs). Ok (JobRunning i, bs))
     else if t = tag_RESULT then
       and_then (take_digest bs) (\<lambda>(i, bs). and_then (take_result bs) (\<lambda>(r, bs). and_then (take_signature bs) (\<lambda>(g, bs).
       Ok (JobResult i r g bs, []))))
     else if t = tag_PLAINTEXT then and_then (take_digest bs) (\<lambda>(i, bs). Ok (PlaintextReleased i, bs))
     else if t = tag_VERIFIED then and_then (take_digest bs) (\<lambda>(i, bs). Ok (ResultVerified i, bs))
     else if t = tag_TERMINATED then
       and_then (take_digest bs) (\<lambda>(i, bs). and_then (take_outcome bs) (\<lambda>(outcome, bs). Ok (JobTerminated i outcome, bs)))
     else if t = tag_CLOSE_PREPARED then
       and_then (decode_kernel (decode_payment_close_start b3) bs) (\<lambda>start. Ok (ClosePrepared start, []))
     else if t = tag_CLOSE_HISTORY then
       and_then (take_digest bs) (\<lambda>(parent, bs). and_then (take_close_history bs) (\<lambda>(h, bs). Ok (CloseHistoryAdvanced parent h, bs)))
     else if t = tag_CLOSE_OPENED then
       and_then (take_digest bs) (\<lambda>(start, bs). and_then (take_party bs) (\<lambda>(opener, bs). and_then (take_u64 bs) (\<lambda>(deadline, bs).
       and_then (take_u64 bs) (\<lambda>(claimed, bs). Ok (CloseOpened start opener deadline claimed, bs)))))
     else if t = tag_CLOSE_RESPONDED then
       and_then (take_digest bs) (\<lambda>(start, bs). and_then (take_digest bs) (\<lambda>(digest, bs). Ok (CloseResponded start digest, bs)))
     else if t = tag_CLOSE_SETTLED then
       and_then (take_u64 bs) (\<lambda>(height, bs). and_then (take_digest bs) (\<lambda>(payload, bs). and_then (take_u64 bs) (\<lambda>(payout, bs).
       Ok (CloseSettled height payload payout, bs))))
     else Err Ch_Malformed)"

definition decode_channel_record :: "blake3 \<Rightarrow> bytes \<Rightarrow> (channel_record, channel_state_error) result" where
  "decode_channel_record b3 bs =
    and_then (take_byte bs) (\<lambda>(t, bs). and_then (take_record_body b3 t bs) (\<lambda>(record, bs).
    if bs = [] then Ok record else Err Ch_Malformed))"

text \<open>A close start is a value of its type: its terms carry their own hash and its assertions fit.\<close>

definition wf_channel_record :: "blake3 \<Rightarrow> channel_record \<Rightarrow> bool" where
  "wf_channel_record b3 r \<longleftrightarrow> (case r of ClosePrepared start \<Rightarrow> wf_payment_close_start b3 start | _ \<Rightarrow> True)"

lemma decode_kernel_start: "decode_kernel (decode_payment_close_start b3) bs = Ok start \<longleftrightarrow>
    wf_payment_close_start b3 start \<and> bs = encode_payment_close_start start"
  by (simp add: decode_kernel_def map_err_eq_Ok payment_close_start_codec.exact_iff)

lemma decode_kernel_put: "wf_payment_close_start b3 start \<Longrightarrow>
    decode_kernel (decode_payment_close_start b3) (encode_payment_close_start start) = Ok start"
  by (simp add: decode_kernel_start)

lemmas record_reads = field_reads party_field.put_rd [simplified] phase_field.put_rd [simplified] history_field.put_rd outcome_field.put_rd
lemmas record_writes = field_writes history_field.rd_put outcome_field.rd_put

lemma reads_at_end:
  "take_u64 (put_u64 v) = Ok (v, [])" "take_digest (to_be_bytes i) = Ok (i, [])" "take_signature (to_be_bytes g) = Ok (g, [])"
  "take_bool (put_bool b) = Ok (b, [])" "take_outcome (put_outcome x) = Ok (x, [])"
  "take_close_history (put_close_history h) = Ok (h, [])"
  using u64_field.put_rd [of v "[]"] digest_field.put_rd [of i "[]"] signature_field.put_rd [of g "[]"] bool_field.put_rd [of b "[]"]
    outcome_field.put_rd [of x "[]"] history_field.put_rd [of h "[]"] by simp_all

text \<open>A record has one spelling: the decoder accepts exactly the encodings.\<close>

lemma decode_encode: "wf_channel_record b3 r \<Longrightarrow> decode_channel_record b3 (encode_channel_record r) = Ok r"
  by (cases r) (simp_all add: decode_channel_record_def encode_channel_record_def take_record_body_def channel_tags record_reads
      reads_at_end decode_kernel_put wf_channel_record_def)

lemma encode_decode:
  assumes "decode_channel_record b3 bs = Ok r"
  shows "wf_channel_record b3 r \<and> bs = encode_channel_record r"
proof -
  from assms obtain t body where t: "bs = t # body" "take_record_body b3 t body = Ok (r, [])"
    by (auto simp: decode_channel_record_def and_then_eq_Ok take_byte_Ok split: if_splits)
  from t(2) show ?thesis unfolding t(1) take_record_body_def
    by (auto simp: wf_channel_record_def encode_channel_record_def and_then_eq_Ok decode_kernel_start split: if_splits dest!: record_writes)
qed

section \<open>The checkpoint\<close>

definition put_job_state :: "bool \<Rightarrow> payment_job \<Rightarrow> bytes" where
  "put_job_state metadata_only job =
    encode_authorization (js_authorization job) @ to_be_bytes (js_work_id job) @ to_be_bytes (js_client_signature job)
    @ put_option to_be_bytes (js_provider_signature job) @ [phase_code (js_phase job)]
    @ put_option (\<lambda>(r, g). encode_result r @ to_be_bytes g) (js_result job)
    @ put_bytes (if metadata_only then [] else js_prepared_input job)
    @ put_bytes (if metadata_only then [] else js_transcript job)"

definition put_terminal :: "payment_terminal \<Rightarrow> bytes" where
  "put_terminal t = to_be_bytes (jt_work_id t) @ [phase_code (jt_phase t)] @ put_outcome (jt_outcome t)"

definition put_contest :: "open_contest \<Rightarrow> bytes" where
  "put_contest c = to_be_bytes (oc_start_id c) @ [party_code (oc_opener c)] @ put_u64 (oc_response_deadline c) @ put_u64 (oc_claimed c)"

definition put_answer :: "responded_contest \<Rightarrow> bytes" where
  "put_answer a = to_be_bytes (ra_start_id a) @ to_be_bytes (ra_response_digest a)"

definition put_settled :: "close_settlement \<Rightarrow> bytes" where
  "put_settled c = put_u64 (cl_height c) @ to_be_bytes (cl_payload c) @ put_u64 (cl_provider_payout c)"

definition checkpoint_inner :: "bool \<Rightarrow> channel \<Rightarrow> bytes" where
  "checkpoint_inner metadata_only s =
    (let f = cn_funding s; b = cn_book s; st = fs_settlement f in
     to_be_bytes (ch_id (fs_channel f))
     @ put_u64 (st_freeze_total st) @ put_u64 (st_adjudicated_total st) @ put_u64 (st_capacity st) @ put_u64 (st_omission_bond st)
     @ [role_code (cn_role s)] @ put_u64 (credited_cumulative (cn_ledger s))
     @ put_u64 (of_nat (length (jb_jobs b))) @ concat (map (\<lambda>(i, job). put_job_state metadata_only job) (jb_jobs b))
     @ put_u64 (of_nat (length (jb_terminals b))) @ concat (map (\<lambda>(i, t). put_terminal t) (jb_terminals b))
     @ put_u64 (jb_proposal_nonce_high_water b) @ put_bool (fs_origin_observed f)
     @ put_u64 (fst (fs_cursor f)) @ to_be_bytes (snd (fs_cursor f))
     @ put_u64 (of_nat (length (jb_indeterminate b))) @ concat (map (\<lambda>(i, u). to_be_bytes i) (jb_indeterminate b))
     @ put_option (\<lambda>start. put_bytes (encode_payment_close_start start)) (fs_close_prepared f)
     @ put_option put_contest (fs_close_opened f) @ put_option put_answer (fs_close_responded f)
     @ put_option put_settled (fs_close_settled f) @ put_option to_be_bytes (jb_pending_proposal b)
     @ (if fs_close_history f \<noteq> None then put_option put_close_history (fs_close_history f) else []))"

definition checkpoint :: "channel \<Rightarrow> bytes" where "checkpoint = checkpoint_inner False"
definition checkpoint_for_storage :: "channel \<Rightarrow> bytes" where "checkpoint_for_storage = checkpoint_inner True"

definition take_signed_result :: "(paid_job_result \<times> sig) journal_reader" where
  "take_signed_result bs = and_then (take_result bs) (\<lambda>(r, bs). and_then (take_signature bs) (\<lambda>(g, bs). Ok ((r, g), bs)))"

definition take_job_state :: "payment_job journal_reader" where
  "take_job_state bs =
    and_then (take_authorization bs) (\<lambda>(a, bs). and_then (take_digest bs) (\<lambda>(i, bs). and_then (take_signature bs) (\<lambda>(g, bs).
    and_then (take_option take_signature bs) (\<lambda>(provider_signature, bs). and_then (take_phase bs) (\<lambda>(phase, bs).
    and_then (take_option take_signed_result bs) (\<lambda>(r, bs). and_then (take_bytes bs) (\<lambda>(prepared_input, bs).
    and_then (take_bytes bs) (\<lambda>(transcript, bs).
    Ok (\<lparr>js_authorization = a, js_work_id = i, js_prepared_input = prepared_input, js_client_signature = g,
         js_provider_signature = provider_signature, js_phase = phase, js_result = r, js_transcript = transcript\<rparr>, bs)))))))))"

definition take_terminal :: "payment_terminal journal_reader" where
  "take_terminal bs =
    and_then (take_digest bs) (\<lambda>(i, bs). and_then (take_phase bs) (\<lambda>(phase, bs). and_then (take_outcome bs) (\<lambda>(outcome, bs).
    Ok (\<lparr>jt_work_id = i, jt_phase = phase, jt_outcome = outcome\<rparr>, bs))))"

definition take_contest :: "open_contest journal_reader" where
  "take_contest bs =
    and_then (take_digest bs) (\<lambda>(start, bs). and_then (take_party bs) (\<lambda>(opener, bs). and_then (take_u64 bs) (\<lambda>(deadline, bs).
    and_then (take_u64 bs) (\<lambda>(claimed, bs).
    Ok (\<lparr>oc_start_id = start, oc_opener = opener, oc_response_deadline = deadline, oc_claimed = claimed\<rparr>, bs)))))"

definition take_answer :: "responded_contest journal_reader" where
  "take_answer bs = and_then (take_digest bs) (\<lambda>(start, bs). and_then (take_digest bs) (\<lambda>(digest, bs).
    Ok (\<lparr>ra_start_id = start, ra_response_digest = digest\<rparr>, bs)))"

definition take_settled :: "close_settlement journal_reader" where
  "take_settled bs = and_then (take_u64 bs) (\<lambda>(height, bs). and_then (take_digest bs) (\<lambda>(payload, bs).
    and_then (take_u64 bs) (\<lambda>(payout, bs). Ok (\<lparr>cl_height = height, cl_payload = payload, cl_provider_payout = payout\<rparr>, bs))))"

text \<open>A counted run of entries; an entry under a key already read is malformed.\<close>

fun take_entries ::
  "('v \<Rightarrow> bytes32) \<Rightarrow> 'v journal_reader \<Rightarrow> nat \<Rightarrow> (bytes32, 'v) btree_map \<Rightarrow> (bytes32, 'v) btree_map journal_reader" where
  "take_entries key rd 0 m bs = Ok (m, bs)"
| "take_entries key rd (Suc n) m bs = and_then (rd bs) (\<lambda>(v, bs).
    if bt_get m (key v) \<noteq> None then Err Ch_Malformed else take_entries key rd n (bt_insert (key v) v m) bs)"

fun take_ids :: "nat \<Rightarrow> bytes32 btree_set \<Rightarrow> bytes32 btree_set journal_reader" where
  "take_ids 0 m bs = Ok (m, bs)"
| "take_ids (Suc n) m bs = and_then (take_digest bs) (\<lambda>(i, bs).
    if bt_get m i \<noteq> None then Err Ch_Malformed else take_ids n (bt_insert i () m) bs)"

text \<open>The settlement a checkpoint pins must be the opener's, field by field.\<close>

fun take_pinned :: "(string \<times> u64) list \<Rightarrow> unit journal_reader" where
  "take_pinned [] bs = Ok ((), bs)"
| "take_pinned ((field, held) # rest) bs = and_then (take_u64 bs) (\<lambda>(v, bs).
    if v \<noteq> held then Err (Ch_WrongChannel field) else take_pinned rest bs)"

definition decode_checkpoint ::
  "blake3 \<Rightarrow> bytes \<Rightarrow> paid_channel \<Rightarrow> settlement \<Rightarrow> role \<Rightarrow> (channel, channel_state_error) result" where
  "decode_checkpoint b3 bs c st role =
    and_then (take_digest bs) (\<lambda>(i, bs).
    if i \<noteq> ch_id c then Err (Ch_WrongChannel ''checkpoint channel_id'') else
    and_then (take_pinned [(''freeze_total'', st_freeze_total st), (''adjudicated_total'', st_adjudicated_total st),
      (''capacity'', st_capacity st), (''omission_bond'', st_omission_bond st)] bs) (\<lambda>(_, bs).
    and_then (take_byte bs) (\<lambda>(code, bs). and_then (role_from_code code) (\<lambda>held.
    if held \<noteq> role
    then Err (Ch_WrongRole ''replaying a checkpoint'' (case role of Client \<Rightarrow> ''client'' | Provider \<Rightarrow> ''provider'')) else
    and_then (take_u64 bs) (\<lambda>(credited, bs).
    and_then (take_u64 bs) (\<lambda>(n, bs). and_then (take_entries js_work_id take_job_state (unat n) bt_empty bs) (\<lambda>(jobs, bs).
    and_then (take_u64 bs) (\<lambda>(n, bs). and_then (take_entries jt_work_id take_terminal (unat n) bt_empty bs) (\<lambda>(terminals, bs).
    and_then (take_u64 bs) (\<lambda>(nonce, bs). and_then (take_bool bs) (\<lambda>(origin_observed, bs).
    and_then (take_u64 bs) (\<lambda>(height, bs). and_then (take_digest bs) (\<lambda>(payload, bs).
    and_then (take_u64 bs) (\<lambda>(n, bs). and_then (take_ids (unat n) bt_empty bs) (\<lambda>(indeterminate, bs).
    and_then (take_option (take_kernel (decode_payment_close_start b3)) bs) (\<lambda>(close_prepared, bs).
    and_then (take_option take_contest bs) (\<lambda>(close_opened, bs). and_then (take_option take_answer bs) (\<lambda>(close_responded, bs).
    and_then (take_option take_settled bs) (\<lambda>(close_settled, bs). and_then (take_option take_digest bs) (\<lambda>(pending, bs).
    and_then (if bs = [] then Ok (None, bs)
      else and_then (take_option take_close_history bs) (\<lambda>(h, bs). and_then (ok_or Ch_Malformed h) (\<lambda>h. Ok (Some h, bs)))) (\<lambda>(close_history, bs).
    if bs \<noteq> [] then Err Ch_Malformed else
    Ok \<lparr>cn_funding = \<lparr>fs_channel = c, fs_settlement = st, fs_cursor = (height, payload), fs_origin_observed = origin_observed,
          fs_close_prepared = close_prepared, fs_close_opened = close_opened, fs_close_history = close_history,
          fs_close_responded = close_responded, fs_close_settled = close_settled\<rparr>,
        cn_ledger = from_credited_cumulative credited, cn_role = role,
        cn_book = \<lparr>jb_pending_proposal = pending, jb_jobs = jobs, jb_terminals = terminals,
          jb_proposal_nonce_high_water = nonce, jb_indeterminate = indeterminate\<rparr>\<rparr>)))))))))))))))))))))"

section \<open>The checkpoint reads back\<close>

interpretation signed_result_field: journal_field "\<lambda>(r, g). encode_result r @ to_be_bytes g" take_signed_result "\<lambda>_. True"
proof
  show "take_signed_result ((case x of (r, g) \<Rightarrow> encode_result r @ to_be_bytes g) @ rest) = Ok (x, rest)" for x rest
    by (cases x) (simp add: take_signed_result_def record_reads)
  show "True \<and> bs = (case x of (r, g) \<Rightarrow> encode_result r @ to_be_bytes g) @ rest" if "take_signed_result bs = Ok (x, rest)" for bs x rest
    using that by (auto simp: take_signed_result_def and_then_eq_Ok dest!: record_writes)
qed

interpretation job_field: journal_field "put_job_state False" take_job_state
  "\<lambda>job. length (js_prepared_input job) < 2 ^ 64 \<and> length (js_transcript job) < 2 ^ 64"
proof
  show "take_job_state (put_job_state False x @ rest) = Ok (x, rest)"
    if "length (js_prepared_input x) < 2 ^ 64 \<and> length (js_transcript x) < 2 ^ 64" for x rest
    using that by (simp add: take_job_state_def put_job_state_def record_reads signature_field.option_put_rd
        signed_result_field.option_put_rd option.pred_True)
  show "(length (js_prepared_input x) < 2 ^ 64 \<and> length (js_transcript x) < 2 ^ 64) \<and> bs = put_job_state False x @ rest"
    if "take_job_state bs = Ok (x, rest)" for bs x rest
    using that by (auto simp: take_job_state_def put_job_state_def and_then_eq_Ok
        dest!: record_writes signature_field.option_rd_put signed_result_field.option_rd_put)
qed

interpretation terminal_field: journal_field put_terminal take_terminal "\<lambda>_. True"
proof
  show "take_terminal (put_terminal x @ rest) = Ok (x, rest)" for x rest
    by (simp add: take_terminal_def put_terminal_def record_reads)
  show "True \<and> bs = put_terminal x @ rest" if "take_terminal bs = Ok (x, rest)" for bs x rest
    using that by (auto simp: take_terminal_def put_terminal_def and_then_eq_Ok dest!: record_writes)
qed

interpretation contest_field: journal_field put_contest take_contest "\<lambda>_. True"
proof
  show "take_contest (put_contest x @ rest) = Ok (x, rest)" for x rest
    by (simp add: take_contest_def put_contest_def record_reads)
  show "True \<and> bs = put_contest x @ rest" if "take_contest bs = Ok (x, rest)" for bs x rest
    using that by (auto simp: take_contest_def put_contest_def and_then_eq_Ok dest!: record_writes)
qed

interpretation answer_field: journal_field put_answer take_answer "\<lambda>_. True"
proof
  show "take_answer (put_answer x @ rest) = Ok (x, rest)" for x rest
    by (simp add: take_answer_def put_answer_def record_reads)
  show "True \<and> bs = put_answer x @ rest" if "take_answer bs = Ok (x, rest)" for bs x rest
    using that by (auto simp: take_answer_def put_answer_def and_then_eq_Ok dest!: record_writes)
qed

interpretation settled_field: journal_field put_settled take_settled "\<lambda>_. True"
proof
  show "take_settled (put_settled x @ rest) = Ok (x, rest)" for x rest
    by (simp add: take_settled_def put_settled_def record_reads)
  show "True \<and> bs = put_settled x @ rest" if "take_settled bs = Ok (x, rest)" for bs x rest
    using that by (auto simp: take_settled_def put_settled_def and_then_eq_Ok dest!: record_writes)
qed

lemma bt_insert_last: "\<forall>k' \<in> fst ` set m. k' < k \<Longrightarrow> bt_insert k v m = m @ [(k, v)]"
  by (induction k v m rule: bt_insert.induct) auto

lemma bt_wf_last: "bt_wf (m @ (k, v) # rest) \<Longrightarrow> (\<forall>k' \<in> fst ` set m. k' < k) \<and> bt_get m k = None"
  by (force simp: bt_wf_def sorted_wrt_append bt_get_def map_of_eq_None_iff)

lemma take_entries_put:
  assumes f: "journal_field put rd ok" and "\<And>i v. (i, v) \<in> set m \<Longrightarrow> ok v \<and> key v = i" and "bt_wf (acc @ m)"
  shows "take_entries key rd (length m) acc (concat (map (\<lambda>(i, v). put v) m) @ rest) = Ok (acc @ m, rest)"
  using assms(2,3)
proof (induction m arbitrary: acc)
  case (Cons x m)
  obtain i v where x: "x = (i, v)" by force
  have v: "ok v" "key v = i" using Cons.prems(1) by (auto simp: x)
  have w: "\<forall>k' \<in> fst ` set acc. k' < i" "bt_get acc i = None" using bt_wf_last [OF Cons.prems(2) [unfolded x]] by auto
  have "take_entries key rd (length m) (acc @ [(i, v)]) (concat (map (\<lambda>(i, v). put v) m) @ rest) = Ok ((acc @ [(i, v)]) @ m, rest)"
    using Cons.prems by (intro Cons.IH) (auto simp: x)
  then show ?case by (simp add: x journal_field.put_rd [OF f v(1)] v(2) w(2) bt_insert_last [OF w(1)])
qed simp

lemma take_ids_put:
  assumes "bt_wf (acc @ m)"
  shows "take_ids (length m) acc (concat (map (\<lambda>(i, u). to_be_bytes i) m) @ rest) = Ok (acc @ m, rest)"
  using assms
proof (induction m arbitrary: acc)
  case (Cons x m)
  obtain i where x: "x = (i, ())" by (cases x) auto
  have w: "\<forall>k' \<in> fst ` set acc. k' < i" "bt_get acc i = None" using bt_wf_last [OF Cons.prems [unfolded x]] by auto
  have "take_ids (length m) (acc @ [(i, ())]) (concat (map (\<lambda>(i, u). to_be_bytes i) m) @ rest) = Ok ((acc @ [(i, ())]) @ m, rest)"
    using Cons.prems by (intro Cons.IH) (auto simp: x)
  then show ?case by (simp add: x digest_field.put_rd w(2) bt_insert_last [OF w(1)])
qed simp

lemma role_code_read: "role_from_code (role_code r) = Ok r"
  by (cases r) (simp_all add: role_from_code_def role_code_def)

text \<open>What a state must satisfy to be written and read back: its maps are ordered under their own keys, they and its
  bodies fit their length prefixes, and its close start is a value of its type.\<close>

definition storable :: "blake3 \<Rightarrow> channel \<Rightarrow> bool" where
  "storable b3 s \<longleftrightarrow> bt_wf (jb_jobs (cn_book s)) \<and> bt_wf (jb_terminals (cn_book s)) \<and> bt_wf (jb_indeterminate (cn_book s))
    \<and> (\<forall>(i, job) \<in> set (jb_jobs (cn_book s)). js_work_id job = i \<and> length (js_prepared_input job) < 2 ^ 64
        \<and> length (js_transcript job) < 2 ^ 64)
    \<and> (\<forall>(i, t) \<in> set (jb_terminals (cn_book s)). jt_work_id t = i)
    \<and> length (jb_jobs (cn_book s)) < 2 ^ 64 \<and> length (jb_terminals (cn_book s)) < 2 ^ 64
    \<and> length (jb_indeterminate (cn_book s)) < 2 ^ 64
    \<and> pred_option (wf_payment_close_start b3) (fs_close_prepared (cn_funding s))"

lemma take_history_tail:
  "put_option put_close_history (Some h) \<noteq> []" "take_option take_close_history (put_option put_close_history (Some h)) = Ok (Some h, [])"
  "take_option take_digest (put_option to_be_bytes v) = Ok (v, [])"
  using history_field.option_put_rd [of "Some h" "[]"] digest_field.option_put_rd [of v "[]"]
  by (auto simp: put_option_def option.pred_True)

lemma decode_checkpoint_put:
  assumes "storable b3 s"
  shows "decode_checkpoint b3 (checkpoint s) (chan s) (fs_settlement (cn_funding s)) (cn_role s) = Ok s"
proof -
  let ?b = "cn_book s"
  have jobs: "take_entries js_work_id take_job_state (length (jb_jobs ?b)) bt_empty
      (concat (map (\<lambda>(i, job). put_job_state False job) (jb_jobs ?b)) @ rest) = Ok (jb_jobs ?b, rest)" for rest
    using take_entries_put [OF job_field.journal_field_axioms, of "jb_jobs ?b" js_work_id "[]" rest] assms
    by (fastforce simp: storable_def bt_empty_def)
  have terminals: "take_entries jt_work_id take_terminal (length (jb_terminals ?b)) bt_empty
      (concat (map (\<lambda>(i, t). put_terminal t) (jb_terminals ?b)) @ rest) = Ok (jb_terminals ?b, rest)" for rest
    using take_entries_put [OF terminal_field.journal_field_axioms, of "jb_terminals ?b" jt_work_id "[]" rest] assms
    by (fastforce simp: storable_def bt_empty_def)
  have ids: "take_ids (length (jb_indeterminate ?b)) bt_empty (concat (map (\<lambda>(i, u). to_be_bytes i) (jb_indeterminate ?b)) @ rest)
      = Ok (jb_indeterminate ?b, rest)" for rest
    using take_ids_put [of "[]" "jb_indeterminate ?b" rest] assms by (simp add: storable_def bt_empty_def)
  have lens: "unat (of_nat (length (jb_jobs ?b)) :: u64) = length (jb_jobs ?b)"
    "unat (of_nat (length (jb_terminals ?b)) :: u64) = length (jb_terminals ?b)"
    "unat (of_nat (length (jb_indeterminate ?b)) :: u64) = length (jb_indeterminate ?b)"
    using assms by (simp_all add: storable_def unat_of_nat)
  have start: "pred_option (wf_payment_close_start b3) (fs_close_prepared (cn_funding s))" using assms by (simp add: storable_def)
  show ?thesis unfolding decode_checkpoint_def checkpoint_def checkpoint_inner_def Let_def
    by (cases "fs_close_history (cn_funding s)")
      (simp_all add: record_reads jobs terminals ids lens role_code_read start_field.option_put_rd [OF start] contest_field.option_put_rd
        answer_field.option_put_rd settled_field.option_put_rd digest_field.option_put_rd option.pred_True take_history_tail
        from_credited_cumulative_def channel.equality payment_state.equality)
qed

end
