(* ===== verification/Channel_Journal.thy ===== *)
theory Channel_Journal
  imports Channel_Run Channel_Codec
begin

text \<open>A channel journal across restarts (src/crates/channel/src/work_store/channel/store.rs): what is on disk is the last
  checkpoint and the stored form of every record committed since, and opening the store replays them. The SQL file the
  journal keeps them in (src/crates/channel/src/work_store/journal.rs) gives back what was appended, in order.\<close>

section \<open>Opening a journal\<close>

definition MAX_CHECKPOINT_BYTES :: nat where "MAX_CHECKPOINT_BYTES = 4 * 2 ^ 20"

definition from_checkpoint ::
  "('p, 'q, 'e) invocation \<Rightarrow> blake3 \<Rightarrow> verifier \<Rightarrow> bytes \<Rightarrow> paid_channel \<Rightarrow> settlement \<Rightarrow> role
    \<Rightarrow> (channel, channel_state_error) result" where
  "from_checkpoint iv b3 vf bs c st role =
    and_then (decode_checkpoint b3 bs c st role) (\<lambda>s. and_then (revalidate iv b3 vf s True) (\<lambda>_. Ok s))"

definition replay_record ::
  "('p, 'q, 'e) invocation \<Rightarrow> blake3 \<Rightarrow> verifier \<Rightarrow> channel \<Rightarrow> bytes \<Rightarrow> (channel, channel_state_error) result" where
  "replay_record iv b3 vf s bs =
    and_then (decode_channel_record b3 bs) (\<lambda>r. and_then (channel_apply iv b3 vf s r True) (\<lambda>(_, s'). Ok s'))"

text \<open>The state a store is opened with, before the retained bodies are read back and the running jobs marked.\<close>

definition replay_state ::
  "('p, 'q, 'e) invocation \<Rightarrow> blake3 \<Rightarrow> verifier \<Rightarrow> bytes option \<Rightarrow> bytes list \<Rightarrow> paid_channel \<Rightarrow> settlement \<Rightarrow> role \<Rightarrow> setup_origin
    \<Rightarrow> (channel, channel_state_error) result" where
  "replay_state iv b3 vf held records c st role origin =
    (if so_payment_edge origin \<noteq> ch_payment_edge c then Err (Ch_WrongChannel ''setup origin payment_edge'')
     else and_then (case held of
         Some bs \<Rightarrow> from_checkpoint iv b3 vf bs c st role
       | None \<Rightarrow> Ok (channel_new c st role origin)) (\<lambda>s.
     try_fold (replay_record iv b3 vf) s records))"

section \<open>Histories\<close>

text \<open>Whether the close start a state retains still carries the certificate in force.\<close>

definition start_current :: "channel \<Rightarrow> bool" where
  "start_current s \<longleftrightarrow> (case fs_close_prepared (cn_funding s) of Some start \<Rightarrow> check_close_start s start = Ok () | None \<Rightarrow> True)"

text \<open>What can be on disk, and the state in memory beside it: a record that changed the state is appended in its stored
  form; a rotation replaces the records by a checkpoint; a store is opened again at any moment, with the bodies it finds;
  a client is handed back the input of a job. A record is a value of its type. A checkpoint taken while a retained close
  start no longer carries the certificate in force is left out: it is never accepted again.\<close>

inductive journal_history ::
  "('p, 'q, 'e) invocation \<Rightarrow> blake3 \<Rightarrow> verifier \<Rightarrow> paid_channel \<Rightarrow> settlement \<Rightarrow> role \<Rightarrow> setup_origin
    \<Rightarrow> bytes option \<Rightarrow> bytes list \<Rightarrow> channel \<Rightarrow> bool"
  for iv b3 vf c st role origin where
  history_new: "so_payment_edge origin = ch_payment_edge c
    \<Longrightarrow> journal_history iv b3 vf c st role origin None [] (channel_new c st role origin)"
| history_commit: "journal_history iv b3 vf c st role origin held records s \<Longrightarrow> wf_channel_record b3 r
    \<Longrightarrow> channel_apply iv b3 vf s r False = Ok (Changed, s')
    \<Longrightarrow> journal_history iv b3 vf c st role origin held (records @ [encode_for_storage r]) s'"
| history_rotate: "journal_history iv b3 vf c st role origin held records s
    \<Longrightarrow> length (checkpoint_for_storage s) \<le> MAX_CHECKPOINT_BYTES \<Longrightarrow> start_current s
    \<Longrightarrow> journal_history iv b3 vf c st role origin (Some (checkpoint_for_storage s)) [] s"
| history_open: "journal_history iv b3 vf c st role origin held records s
    \<Longrightarrow> journal_history iv b3 vf c st role origin held records (mark_indeterminate (strip s))"
| history_bodies: "journal_history iv b3 vf c st role origin held records s \<Longrightarrow> job_by_id (cn_book s) i = Some job
    \<Longrightarrow> journal_history iv b3 vf c st role origin held records
      (s\<lparr>cn_book := put_job i (job\<lparr>js_prepared_input := inp, js_transcript := ts\<rparr>) (cn_book s)\<rparr>)"
| history_restore: "journal_history iv b3 vf c st role origin held records s \<Longrightarrow> restore_client_input iv s i inp = Ok s'
    \<Longrightarrow> journal_history iv b3 vf c st role origin held records s'"

section \<open>The stored form of a record and of a state\<close>

lemma encode_for_storage_strip: "encode_for_storage r = encode_channel_record (strip_record r)"
  by (cases r) (simp_all add: encode_for_storage_def encode_channel_record_def)

lemma wf_strip_record: "wf_channel_record b3 (strip_record r) = wf_channel_record b3 r"
  by (cases r) (simp_all add: wf_channel_record_def)

lemma checkpoint_strip: "checkpoint_for_storage s = checkpoint (strip s)"
proof -
  have "put_job_state True job = put_job_state False (strip_job job)" for job by (simp add: put_job_state_def)
  then have "concat (map (\<lambda>(i, job). put_job_state True job) m)
      = concat (map (\<lambda>(i, job). put_job_state False job) (map (\<lambda>(i, job). (i, strip_job job)) m))" for m :: "(bytes32, payment_job) btree_map"
    by (induction m) auto
  then show ?thesis
    by (simp add: checkpoint_for_storage_def checkpoint_def checkpoint_inner_def Let_def strip_def)
qed

lemma entries_bound: "(\<And>v. put v \<noteq> []) \<Longrightarrow> length m \<le> length (concat (map (\<lambda>(i, v). put v) m))"
proof (induction m)
  case (Cons x m)
  obtain i v where x: "x = (i, v)" by force
  have "1 \<le> length (put v)" using Cons.prems [of v] by (cases "put v") auto
  moreover have "length m \<le> length (concat (map (\<lambda>(i, v). put v) m))" using Cons by blast
  ultimately show ?case by (simp add: x)
qed simp

lemma checkpoint_bounds:
  "length (jb_jobs (cn_book s)) \<le> length (checkpoint s)" "length (jb_terminals (cn_book s)) \<le> length (checkpoint s)"
  "length (jb_indeterminate (cn_book s)) \<le> length (checkpoint s)"
proof -
  have "put_job_state False job \<noteq> []" "put_terminal t \<noteq> []" for job t by (simp_all add: put_job_state_def put_terminal_def)
  then have "length (jb_jobs (cn_book s)) \<le> length (concat (map (\<lambda>(i, job). put_job_state False job) (jb_jobs (cn_book s))))"
    "length (jb_terminals (cn_book s)) \<le> length (concat (map (\<lambda>(i, t). put_terminal t) (jb_terminals (cn_book s))))"
    by (simp_all add: entries_bound)
  then show "length (jb_jobs (cn_book s)) \<le> length (checkpoint s)" "length (jb_terminals (cn_book s)) \<le> length (checkpoint s)"
    by (simp_all add: checkpoint_def checkpoint_inner_def Let_def)
  have "length m \<le> length (concat (map (\<lambda>(i, u). to_be_bytes i) m))" for m :: "bytes32 btree_set"
    by (induction m) (auto simp: length_to_be_bytes)
  from this [of "jb_indeterminate (cn_book s)"] show "length (jb_indeterminate (cn_book s)) \<le> length (checkpoint s)"
    by (simp add: checkpoint_def checkpoint_inner_def Let_def)
qed

lemma storable_strip:
  assumes ok: "channel_ok b3 vf s" and wf: "pred_option (wf_payment_close_start b3) (fs_close_prepared (cn_funding s))"
    and len: "length (checkpoint_for_storage s) \<le> MAX_CHECKPOINT_BYTES"
  shows "storable b3 (strip s)"
proof -
  note b = channel_okD(1) [OF ok]
  have l: "length (checkpoint (strip s)) < 2 ^ 64" using len by (simp add: checkpoint_strip MAX_CHECKPOINT_BYTES_def)
  have "js_work_id job = i" if "(i, job) \<in> set (jb_jobs (cn_book s))" for i job
    using that book_okD(4) [OF b, of i job] book_okD(1) [OF b] by (auto simp: job_ok_def job_by_id_def bt_entry)
  moreover have "jt_work_id t = i" if "(i, t) \<in> set (jb_terminals (cn_book s))" for i t
    using that book_okD(5) [OF b, of i t] book_okD(2) [OF b] by (auto simp: terminal_by_id_def bt_entry)
  ultimately show ?thesis using book_okD(1-3) [OF b] wf checkpoint_bounds [of "strip s"] l
    by (auto simp: storable_def strip_def bt_wf_map)
qed

section \<open>What a history keeps\<close>

lemma history_run: "journal_history iv b3 vf c st role origin held records s \<Longrightarrow> \<exists>ps. channel_run iv b3 vf c st role origin ps s"
  by (induction rule: journal_history.induct) (blast intro: channel_run.intros)+

lemma funding_steps_prepared:
  "apply_origin_observed s = Ok (ap, s') \<Longrightarrow> fs_close_prepared (cn_funding s') = fs_close_prepared (cn_funding s)"
  "apply_cursor s height parent payload = Ok (ap, s') \<Longrightarrow> fs_close_prepared (cn_funding s') = fs_close_prepared (cn_funding s)"
  "apply_close_history s parent h = Ok (ap, s') \<Longrightarrow> fs_close_prepared (cn_funding s') = fs_close_prepared (cn_funding s)"
  "apply_close_opened s contest = Ok (ap, s') \<Longrightarrow> fs_close_prepared (cn_funding s') = fs_close_prepared (cn_funding s)"
  "apply_close_settled s settled = Ok (ap, s') \<Longrightarrow> fs_close_prepared (cn_funding s') = fs_close_prepared (cn_funding s)"
  "apply_close_responded b3 s answer = Ok (ap, s') \<Longrightarrow> fs_close_prepared (cn_funding s') = fs_close_prepared (cn_funding s)"
proof -
  show "apply_cursor s height parent payload = Ok (ap, s') \<Longrightarrow> fs_close_prepared (cn_funding s') = fs_close_prepared (cn_funding s)"
    by (cases "reading s height parent payload"; cases "case reading s height parent payload of Ok x \<Rightarrow> x | Err _ \<Rightarrow> Changed")
      (auto simp: apply_cursor_def)
  show "apply_close_responded b3 s answer = Ok (ap, s') \<Longrightarrow> fs_close_prepared (cn_funding s') = fs_close_prepared (cn_funding s)"
    by (drule apply_close_responded_Ok) auto
qed (auto simp: apply_origin_observed_def apply_close_history_def apply_close_opened_def apply_close_settled_def and_then_eq_Ok
    split: if_splits)

lemma book_steps_funding:
  "apply_proposal_exchange s i pending = Ok (ap, s') \<Longrightarrow> cn_funding s' = cn_funding s"
  "apply_running s i = Ok (ap, s') \<Longrightarrow> cn_funding s' = cn_funding s"
  "apply_plaintext s i = Ok (ap, s') \<Longrightarrow> cn_funding s' = cn_funding s"
  "apply_accepted vf s i g = Ok (ap, s') \<Longrightarrow> cn_funding s' = cn_funding s"
  by (auto simp: apply_proposal_exchange_def apply_running_def apply_plaintext_def apply_accepted_def and_then_eq_Ok with_book_Ok
      split: if_splits)

lemma job_steps_funding:
  "apply_proposed iv b3 vf s a g inp m = Ok (ap, s') \<Longrightarrow> cn_funding s' = cn_funding s"
  "apply_result iv b3 vf s i r g ts m = Ok (ap, s') \<Longrightarrow> cn_funding s' = cn_funding s"
  "apply_verified iv b3 s i m = Ok (ap, s') \<Longrightarrow> cn_funding s' = cn_funding s"
proof -
  show "apply_proposed iv b3 vf s a g inp m = Ok (ap, s') \<Longrightarrow> cn_funding s' = cn_funding s" by (erule apply_proposed_Ok) auto
  show "apply_result iv b3 vf s i r g ts m = Ok (ap, s') \<Longrightarrow> cn_funding s' = cn_funding s" by (erule apply_result_Ok) auto
  show "apply_verified iv b3 s i m = Ok (ap, s') \<Longrightarrow> cn_funding s' = cn_funding s" by (drule apply_verified_Ok) auto
qed

lemma apply_terminated_funding:
  assumes "apply_terminated b3 vf s i outcome = Ok (ap, s')" and ok: "channel_ok b3 vf s"
  shows "cn_funding s' = cn_funding s"
  using assms(1)
proof (cases rule: apply_terminated_Ok)
  case (3 job sr certificate binding bs cs)
  then show ?thesis using terminate_certified_signed(3) [OF ok 3(2,4)] by (simp add: ended_def)
qed (simp_all add: ended_def)

lemma step_prepared:
  assumes step: "channel_apply iv b3 vf s r m = Ok (ap, s')" and ok: "channel_ok b3 vf s"
  shows "fs_close_prepared (cn_funding s') = fs_close_prepared (cn_funding s)
    \<or> (\<exists>start. r = ClosePrepared start \<and> fs_close_prepared (cn_funding s') = Some start)"
proof (cases r)
  case (ClosePrepared start)
  then show ?thesis using step by (auto simp: apply_close_prepared_def and_then_eq_Ok split: if_splits)
qed (use step ok in \<open>auto dest: funding_steps_prepared book_steps_funding job_steps_funding apply_terminated_funding\<close>)

lemma history_start_wf:
  "journal_history iv b3 vf c st role origin held records s \<Longrightarrow> pred_option (wf_payment_close_start b3) (fs_close_prepared (cn_funding s))"
proof (induction rule: journal_history.induct)
  case (history_commit held records s r s')
  from history_run [OF history_commit.hyps(1)] have ok: "channel_ok b3 vf s" using run_ok by blast
  from step_prepared [OF history_commit.hyps(3) ok] history_commit.IH history_commit.hyps(2) show ?case
    by (auto simp: wf_channel_record_def)
next
  case (history_restore held records s i inp s')
  from history_restore.hyps(2) show ?case by (rule restore_client_input_Ok) (use history_restore.IH in simp)
qed (simp_all add: channel_new_def strip_def)

section \<open>A journal opens to the state that was committed\<close>

lemma from_checkpoint_eq:
  assumes ok: "channel_ok b3 vf s" and wf: "pred_option (wf_payment_close_start b3) (fs_close_prepared (cn_funding s))"
    and len: "length (checkpoint_for_storage s) \<le> MAX_CHECKPOINT_BYTES"
  shows "from_checkpoint iv b3 vf (checkpoint_for_storage s) (chan s) (fs_settlement (cn_funding s)) (cn_role s)
    = and_then (case fs_close_prepared (cn_funding s) of Some start \<Rightarrow> check_close_start s start | None \<Rightarrow> Ok ()) (\<lambda>_. Ok (strip s))"
proof -
  have "decode_checkpoint b3 (checkpoint_for_storage s) (chan s) (fs_settlement (cn_funding s)) (cn_role s) = Ok (strip s)"
    using decode_checkpoint_put [OF storable_strip [OF assms]] by (simp add: checkpoint_strip) (simp add: strip_def)
  moreover have "channel_ok b3 vf (strip s)"
    unfolding strip_def by (intro channel_ok_strip ok knows_self channel_okD(1) [OF ok])
  then have "revalidate iv b3 vf (strip s) True
      = (case fs_close_prepared (cn_funding s) of Some start \<Rightarrow> check_close_start s start | None \<Rightarrow> Ok ())"
    using revalidate_eq [of b3 vf "strip s" iv] by (fastforce simp: strip_def strip_job_def split: option.split)
  ultimately show ?thesis by (simp add: from_checkpoint_def)
qed

lemma strip_with_bodies:
  assumes "book_ok payment_funding (cn_book s)" "job_by_id (cn_book s) i = Some job"
  shows "strip_with ind (s\<lparr>cn_book := put_job i (job\<lparr>js_prepared_input := inp, js_transcript := ts\<rparr>) (cn_book s)\<rparr>) = strip_with ind s"
  using strip_put_same [OF book_okD(1) [OF assms(1)] assms(2), of "job\<lparr>js_prepared_input := inp, js_transcript := ts\<rparr>" ind]
  by (simp add: strip_with_def)

lemma knows_put [simp]: "knows ind (s\<lparr>cn_book := put_job i job (cn_book s)\<rparr>) = knows ind s"
  by (simp add: knows_def)

lemma strip_with_mark: "strip_with ind (mark_indeterminate (strip s)) = strip_with ind s"
  by (simp add: strip_with_def strip_def mark_indeterminate_def strip_book_def comp_def case_prod_beta strip_job_def)

lemma mark_strip_with: "mark_indeterminate (strip_with ind s) = mark_indeterminate (strip s)"
  by (simp add: strip_with_def strip_def mark_indeterminate_def strip_book_def running_ids_def)

lemma knows_mark:
  assumes "knows ind s" "book_ok payment_funding (cn_book s)"
  shows "knows ind (mark_indeterminate (strip s))"
proof -
  have b: "book_ok payment_funding (cn_book (strip s))"
    using book_ok_strip [OF assms(2) knows_self [OF assms(2)]] by (simp add: strip_def)
  have "is_indeterminate_job (cn_book (mark_indeterminate (strip s))) i" if "is_indeterminate_job (cn_book s) i" for i
    unfolding mark_indeterminate_iff [OF b] using book_okD(7) [OF assms(2) that] by (auto simp: strip_def)
  then show ?thesis using assms(1) by (simp add: knows_def)
qed

lemma replay_state_snoc:
  "replay_state iv b3 vf held (records @ [bs]) c st role origin
    = and_then (replay_state iv b3 vf held records c st role origin) (\<lambda>s. replay_record iv b3 vf s bs)"
proof -
  have snoc: "try_fold f s (xs @ [x]) = and_then (try_fold f s xs) (\<lambda>s. f s x)" for f and s :: channel and xs and x :: bytes
    by (cases "try_fold f s xs"; cases "case try_fold f s xs of Ok t \<Rightarrow> f t x | Err e \<Rightarrow> Err e") (auto simp: try_fold_append)
  show ?thesis
    by (cases held; cases "from_checkpoint iv b3 vf (the held) c st role") (simp_all add: replay_state_def snoc)
qed

text \<open>The reader knows at least nothing wrong of the jobs it will mark; apart from that set and the bodies it holds the
  state of the writer.\<close>

lemma history_replays:
  assumes "journal_history iv b3 vf c st role origin held records s"
  shows "\<exists>ind. replay_state iv b3 vf held records c st role origin = Ok (strip_with ind s) \<and> knows ind s"
  using assms
proof (induction rule: journal_history.induct)
  case history_new
  then show ?case
    by (intro exI [of _ bt_empty]) (simp add: replay_state_def strip_with_def strip_book_def channel_new_def job_book_default_def knows_def bt_empty_def bt_wf_def bt_get_def)
next
  case (history_commit held records s r s')
  from history_run [OF history_commit.hyps(1)] have ok: "channel_ok b3 vf s" using run_ok by blast
  from history_commit.IH obtain ind where i: "replay_state iv b3 vf held records c st role origin = Ok (strip_with ind s)" "knows ind s" by blast
  from replay_step [OF history_commit.hyps(3) ok i(2)] show ?case
    using history_commit.hyps(2)
    by (auto simp: replay_state_snoc i(1) replay_record_def encode_for_storage_strip decode_encode wf_strip_record)
next
  case (history_rotate held records s)
  from history_run [OF history_rotate.hyps(1)] obtain ps where run: "channel_run iv b3 vf c st role origin ps s" by blast
  have ok: "channel_ok b3 vf s" by (rule run_ok [OF run])
  have "from_checkpoint iv b3 vf (checkpoint_for_storage s) c st role = Ok (strip s)"
    using from_checkpoint_eq [OF ok history_start_wf [OF history_rotate.hyps(1)] history_rotate.hyps(2)] history_rotate.hyps(3)
      run_account_run [OF run] by (auto simp: run_account_def start_current_def split: option.splits)
  moreover have "so_payment_edge origin = ch_payment_edge c" using history_rotate.IH by (auto simp: replay_state_def split: if_splits)
  ultimately show ?case using knows_self [OF channel_okD(1) [OF ok]]
    by (intro exI [of _ "jb_indeterminate (cn_book s)"]) (simp add: replay_state_def strip_def)
next
  case (history_open held records s)
  from history_run [OF history_open.hyps] have "channel_ok b3 vf s" using run_ok by blast
  with history_open.IH show ?case using knows_mark [OF _ channel_okD(1)] by (auto simp: strip_with_mark)
next
  case (history_bodies held records s i job inp ts)
  from history_run [OF history_bodies.hyps(1)] have ok: "channel_ok b3 vf s" using run_ok by blast
  with history_bodies show ?case
    by (simp add: strip_with_bodies [OF channel_okD(1) [OF ok]])
next
  case (history_restore held records s i inp s')
  from history_run [OF history_restore.hyps(1)] have ok: "channel_ok b3 vf s" using run_ok by blast
  from history_restore.hyps(2) show ?case
    by (rule restore_client_input_bodies) (use history_restore.IH in \<open>simp add: strip_with_bodies [OF channel_okD(1) [OF ok]]\<close>)
qed

section \<open>A start that outlives its certificate\<close>

text \<open>A client may sign a close start, let it lapse and buy another job. Paying for it changes the certificate in force
  and, since a job ends, rotates the journal; the retained start is checked against the new certificate when the
  checkpoint is read, so that journal never opens again.\<close>

lemma paid_certificate_grows:
  assumes ok: "channel_ok b3 vf s" and job: "job_by_id (cn_book s) i = Some job" "pj_price (js_authorization job) \<noteq> 0"
    and pay: "apply_terminated b3 vf s i (Certified sr certificate binding bs cs) = Ok (Changed, s')"
  shows "channel_ok b3 vf s'" "max_executable_certificate s < max_executable_certificate s'" "cn_funding s' = cn_funding s" "cn_role s' = cn_role s"
proof -
  show ok': "channel_ok b3 vf s'" using channel_apply_ok [OF _ ok, of _ "JobTerminated i (Certified sr certificate binding bs cs)"] pay by simp
  show "cn_funding s' = cn_funding s" by (rule apply_terminated_funding [OF pay ok])
  show "cn_role s' = cn_role s" using terminated_held [OF pay ok] by (simp add: same_channel_def)
  have "unat (credited_cumulative (cn_ledger s')) = unat (credited_cumulative (cn_ledger s)) + unat (pj_price (js_authorization job))"
    using pay
  proof (cases rule: apply_terminated_Ok)
    case (3 job' sr certificate binding bs cs)
    then show ?thesis using terminate_certified_signed(2,3) [OF ok 3(2,4)] job(1)
      by (simp add: ended_def from_credited_cumulative_def)
  next
    case (2 held)
    from 2(4) [of sr certificate binding bs cs] show ?thesis by simp
  qed auto
  moreover have "unat (pj_price (js_authorization job)) \<noteq> 0" using job(2) by (simp add: unat_eq_0)
  ultimately have "credited_cumulative (cn_ledger s) < credited_cumulative (cn_ledger s')" by (simp add: word_less_nat_alt)
  then show "max_executable_certificate s < max_executable_certificate s'"
    using channel_okD(4) [OF ok] channel_okD(4) [OF ok'] by simp
qed

lemma lapsed_start_refused:
  assumes ok: "channel_ok b3 vf s" and job: "job_by_id (cn_book s) i = Some job" "pj_price (js_authorization job) \<noteq> 0"
    and start: "fs_close_prepared (cn_funding s) = Some start" "check_close_start s start = Ok ()" "wf_payment_close_start b3 start"
    and pay: "apply_terminated b3 vf s i (Certified sr certificate binding bs cs) = Ok (Changed, s')"
    and len: "length (checkpoint_for_storage s') \<le> MAX_CHECKPOINT_BYTES"
  shows "from_checkpoint iv b3 vf (checkpoint_for_storage s') (chan s) (fs_settlement (cn_funding s)) (cn_role s)
    = Err (Ch_WrongChannel ''close start certificate'')"
proof -
  note g = paid_certificate_grows [OF ok job pay]
  from g(2) have "max_executable_certificate s' \<noteq> 0" by auto
  then obtain p' where p': "last_payment s' = Some p'" by (auto simp: max_executable_certificate_def split: option.splits)
  have "ps_certificate start \<noteq> Some (pd_certificate p', a)" for a
    using start(2) g(2) p' by (auto simp: check_close_start_def and_then_eq_Ok ok_or_eq_Ok executable_certificate_def
        max_executable_certificate_def split: option.splits if_splits)
  then have "check_close_start s' start = Err (Ch_WrongChannel ''close start certificate'')"
    using start(2) p' g(3,4) by (auto simp: check_close_start_def and_then_eq_Ok executable_certificate_def
        client_key_def authority_of_def ok_or_def split: option.splits if_splits)
  then show ?thesis using from_checkpoint_eq [OF g(1) _ len, of iv] start(1,3) g(3,4) by simp
qed

end
