(* ===== verification/Channel_Properties.thy ===== *)
theory Channel_Properties
  imports Channel_Journal Kernel_Examples
begin

text \<open>What a payment channel's journal promises (src/crates/channel/src/work_store/channel): the account it keeps is
  the sum of the jobs paid, each paid once; a journal read back after a restart is the state that was committed, but for
  the bodies it does not store; and a record has one spelling.\<close>

section \<open>A paid job\<close>

text \<open>A provider's journal of one job of price 5: proposed, accepted, run, answered, delivered and paid. The invocation
  protocol knows one input and one transcript.\<close>

definition ex_invocation :: "(unit, unit, unit) invocation" where
  "ex_invocation = \<lparr>iv_from_canonical_bytes = \<lambda>bs _. if bs = [7] then Ok () else Err (Mismatch ''input''),
    iv_policy_from_canonical_bytes = \<lambda>bs. if bs = [8] then Ok () else Err (Mismatch ''policy''),
    iv_canonical_bytes = \<lambda>_. Ok [7], iv_policy_canonical_bytes = \<lambda>_. Ok [8], iv_request_commitment = \<lambda>_. Ok 0,
    iv_execution_environment = \<lambda>_. 0, iv_runner_public_key = \<lambda>_. Secp256k1 2, iv_retain = \<lambda>_. False,
    iv_application_policy = \<lambda>_. [8], iv_admit = \<lambda>_ _ _. Ok \<lparr>af_retention = Ephemeral, af_max_spool_bytes = 1\<rparr>,
    iv_verify_output = \<lambda>_ _ _ _ _. Ok \<lparr>vo_output_id = 0, vo_is_success = True, vo_transcript = \<lparr>cr_id = 0, cr_bytes = 1\<rparr>\<rparr>,
    iv_event_commitment = \<lambda>_. 0, iv_decode_events = \<lambda>bs. if bs = [9] then Ok [()] else Err (Mismatch ''transcript''),
    iv_content_id = \<lambda>_. 0, iv_file_hash = \<lambda>_. 0\<rparr>"

definition ex_channel :: paid_channel where
  "ex_channel = \<lparr>ch_network = ascii ''net'', ch_payment_edge = 4, ch_payment_terms = ex_payment, ch_payment_terms_hash = 3,
    ch_policy = \<lparr>cp_compute_credit_limit = 9, cp_delivery_credit_limit = 5\<rparr>, ch_id = 1\<rparr>"

definition ex_capacity :: settlement where
  "ex_capacity = \<lparr>st_freeze_total = 85, st_adjudicated_total = 86, st_capacity = 82, st_omission_bond = 3\<rparr>"

definition ex_origin :: setup_origin where
  "ex_origin = \<lparr>so_payment_edge = 4, so_height = 5, so_payload = 0, so_parent = 0\<rparr>"

definition ex_job :: paid_job_authorization where
  "ex_job = \<lparr>pj_channel_id = 1, pj_work_policy_digest = 0, pj_payment_policy_digest = 0,
    pj_input_content = \<lparr>cr_id = 0, cr_bytes = 1\<rparr>, pj_prepared_input_digest = 0, pj_proposal_nonce = 1,
    pj_acceptance_deadline = 8, pj_request_commitment = 0, pj_environment_commitment = 0, pj_price = 5,
    pj_terminal_deadline = 9, pj_payment_deadline = 10, pj_retention = Ephemeral\<rparr>"

definition ex_work :: bytes32 where "ex_work = work_id ex_b3 ex_channel ex_job"

definition ex_result :: paid_job_result where
  "ex_result = \<lparr>jr_work_id = ex_work, jr_terminal_transcript_commitment = 0, jr_canonical_output_digest = 0,
    jr_outcome = Finished, jr_transcript_content = \<lparr>cr_id = 0, cr_bytes = 1\<rparr>\<rparr>"

definition ex_earned :: earned_certificate where
  "ex_earned = \<lparr>ec_payment_edge = 4, ec_payment_terms_hash = 3, ec_earned_cumulative = 5\<rparr>"

definition ex_binding :: payment_binding where
  "ex_binding = \<lparr>pb_work_id = ex_work, pb_result_digest = result_digest ex_b3 ex_channel ex_result,
    pb_certificate_digest = certificate_digest ex_b3 (ascii ''net'') ex_earned\<rparr>"

definition ex_paid :: terminal_outcome where
  "ex_paid = Certified (ex_result, 0) ex_earned ex_binding 0 0"

text \<open>The states on the way: the job in a phase, with the provider's signature, the result and the transcript it holds by
  then, the input it holds, and the set of indeterminate jobs.\<close>

definition ex_open_job ::
  "job_phase \<Rightarrow> sig option \<Rightarrow> (paid_job_result \<times> sig) option \<Rightarrow> bytes \<Rightarrow> bytes \<Rightarrow> bytes32 btree_set \<Rightarrow> channel" where
  "ex_open_job phase signature r transcript inp ind = (channel_new ex_channel ex_capacity Provider ex_origin)\<lparr>cn_book :=
    \<lparr>jb_pending_proposal = None,
     jb_jobs = [(ex_work, \<lparr>js_authorization = ex_job, js_work_id = ex_work, js_prepared_input = inp, js_client_signature = 0,
       js_provider_signature = signature, js_phase = phase, js_result = r, js_transcript = transcript\<rparr>)],
     jb_terminals = [], jb_proposal_nonce_high_water = 1, jb_indeterminate = ind\<rparr>\<rparr>"

definition ex_paid_state :: channel where
  "ex_paid_state = (channel_new ex_channel ex_capacity Provider ex_origin)\<lparr>cn_ledger := \<lparr>credited_cumulative = 5\<rparr>, cn_book :=
    \<lparr>jb_pending_proposal = None, jb_jobs = [],
     jb_terminals = [(ex_work, \<lparr>jt_work_id = ex_work, jt_phase = Delivered, jt_outcome = ex_paid\<rparr>)],
     jb_proposal_nonce_high_water = 1, jb_indeterminate = []\<rparr>\<rparr>"

lemmas ex_run_simps = ex_open_job_def channel_new_def ex_channel_def ex_capacity_def ex_origin_def ex_job_def
  job_by_id_def terminal_by_id_def job_book_default_def is_indeterminate_job_def open_job_def open_job_mut_eq
  refuse_if_terminated_def with_book_def put_job_def verify_sig_def ex_vf_def require_role_def payment_funding_def bt_empty_def bt_get_def

lemma ex_input: "check_paid_input ex_invocation ex_channel ex_job () () = Ok \<lparr>af_retention = Ephemeral, af_max_spool_bytes = 1\<rparr>"
  by (simp add: check_paid_input_def check_input_def ex_invocation_def policy_digest_def bound_prepared_input_digest_def xfh_def
      content_for_bytes_def work_context_of_def input_binding_of_def ex_job_def ex_channel_def provider_key_def ex_payment_def
      ex_bond_def wp_parties_def parties_new_def party_keys_sole_def party_keys_new_def should_retain_def)

lemma ex_result_built: "paid_terminal_result ex_invocation ex_b3 ex_channel ex_job () () [()] = Ok ex_result"
proof -
  have "check_input ex_invocation (work_context_of ex_channel) (input_binding_of ex_job) () () = Ok \<lparr>af_retention = Ephemeral, af_max_spool_bytes = 1\<rparr>"
    using ex_input by (auto simp: check_paid_input_def and_then_eq_Ok split: if_splits)
  then show ?thesis
    by (simp add: paid_terminal_result_def ex_input terminal_result_def) (simp add: ex_invocation_def ex_result_def ex_work_def)
qed

lemma ex_propose:
  "channel_apply ex_invocation ex_b3 ex_vf (channel_new ex_channel ex_capacity Provider ex_origin) (JobProposed ex_job 0 [7]) False
    = Ok (Changed, ex_open_job HalfSigned None None [] [7] [])"
proof -
  let ?s = "channel_new ex_channel ex_capacity Provider ex_origin"
  have "chan_check_authorization ex_invocation ?s ex_job [7] False = Ok ()"
    by (simp add: chan_check_authorization_def channel_new_def ex_input)
      (simp add: ex_invocation_def ex_job_def ex_channel_def)
  moreover have "refuse_if_closing ?s step = Ok ()" for step
    by (simp add: refuse_if_closing_def is_closing_def includable_close_start_def channel_new_def)
  moreover have "check_compute_limit ?s (pj_price ex_job) = Ok ()"
    by (simp add: check_compute_limit_def Let_def saturating_add_def ex_run_simps)
  ultimately show ?thesis unfolding channel_apply.simps apply_proposed_def
    by (simp add: Let_def book_propose_def job_by_id_def terminal_by_id_def channel_new_def job_book_default_def bt_get_def bt_empty_def
        refuse_if_terminated_def verify_sig_def ex_vf_def with_book_def put_job_def payment_funding_def ex_open_job_def
        flip: ex_work_def) (simp add: ex_job_def)
qed

lemma ex_steps:
  "channel_apply ex_invocation ex_b3 ex_vf (ex_open_job HalfSigned None None [] [7] []) (JobAccepted ex_work 0) False
    = Ok (Changed, ex_open_job Accepted (Some 0) None [] [7] [])"
  "channel_apply ex_invocation ex_b3 ex_vf (ex_open_job Accepted (Some 0) None [] [7] []) (JobRunning ex_work) False
    = Ok (Changed, ex_open_job Running (Some 0) None [] [7] [])"
  "channel_apply ex_invocation ex_b3 ex_vf (ex_open_job Ready (Some 0) (Some (ex_result, 0)) [9] [7] []) (PlaintextReleased ex_work) False
    = Ok (Changed, ex_open_job Delivered (Some 0) (Some (ex_result, 0)) [9] [7] [])"
  by (simp_all add: ex_run_simps apply_accepted_def book_accept_def apply_running_def book_run_def apply_plaintext_def book_release_def
      check_delivery_limit_def phase_delivered_def saturating_add_def Let_def)

lemma ex_result_step:
  "channel_apply ex_invocation ex_b3 ex_vf (ex_open_job Running (Some 0) None [] [7] []) (JobResult ex_work ex_result 0 [9]) False
    = Ok (Changed, ex_open_job Ready (Some 0) (Some (ex_result, 0)) [9] [7] [])"
proof -
  let ?job = "\<lparr>js_authorization = ex_job, js_work_id = ex_work, js_prepared_input = [7], js_client_signature = 0,
    js_provider_signature = Some 0, js_phase = Running, js_result = None, js_transcript = []\<rparr> :: payment_job"
  have "decode_transcript ex_invocation [9] 1 = Ok [()]" by (simp add: decode_transcript_def ex_invocation_def)
  then have "check_result_payload ex_invocation ex_b3 (ex_open_job Running (Some 0) None [] [7] []) ?job ex_result [9] False = Ok ()"
    by (simp add: check_result_payload_def ex_open_job_def channel_new_def)
      (simp add: ex_invocation_def [THEN arg_cong, of iv_from_canonical_bytes] ex_invocation_def [THEN arg_cong, of iv_policy_from_canonical_bytes]
        ex_invocation_def [THEN arg_cong, of iv_application_policy] ex_input ex_result_built ex_result_def [THEN arg_cong, of jr_work_id])
  then show ?thesis
    by (simp add: apply_result_def ex_open_job_def channel_new_def job_by_id_def bt_get_def open_job_def open_job_mut_eq is_indeterminate_job_def
        verify_sig_def ex_vf_def with_book_def book_record_result_def put_job_def Let_def)
      (simp add: ex_job_def ex_origin_def)
qed

lemma ex_payment_step:
  "channel_apply ex_invocation ex_b3 ex_vf (ex_open_job Delivered (Some 0) (Some (ex_result, 0)) [9] [7] []) (JobTerminated ex_work ex_paid) False
    = Ok (Changed, ex_paid_state)"
proof -
  have "next_payment ex_b3 ex_channel ex_job ex_result 0 ex_capacity = Ok (ex_earned, ex_binding)"
    by (simp add: next_payment_def ex_result_def ex_work_def check_work_result_def Let_def checked_add_def ex_job_def
        ex_capacity_def ex_earned_def ex_binding_def) (simp add: ex_channel_def)
  then have "credit_payment ex_b3 credit_ledger_new ex_channel ex_job ex_result ex_binding ex_earned ex_capacity
      = Ok \<lparr>credited_cumulative = 5\<rparr>"
    using credit_next_payment [of ex_b3 ex_channel ex_job ex_result credit_ledger_new ex_capacity ex_earned ex_binding]
    by (simp add: credit_ledger_new_def from_credited_cumulative_def ex_earned_def)
  then show ?thesis
    by (simp add: apply_terminated_def terminate_certified_def ex_open_job_def channel_new_def job_by_id_def terminal_by_id_def
        open_job_def ex_paid_def ex_paid_state_def payment_signatures_def verify_sig_def ex_vf_def rest_at_def Let_def bt_remove_def
        bt_empty_def bt_get_def)
qed

lemma ex_run: "channel_run ex_invocation ex_b3 ex_vf ex_channel ex_capacity Provider ex_origin [(ex_work, 5)] ex_paid_state"
proof -
  note run = run_step [of ex_invocation ex_b3 ex_vf ex_channel ex_capacity Provider ex_origin]
  have "channel_run ex_invocation ex_b3 ex_vf ex_channel ex_capacity Provider ex_origin []
      (ex_open_job Delivered (Some 0) (Some (ex_result, 0)) [9] [7] [])"
    using run [OF run [OF run [OF run [OF run [OF run_new ex_propose] ex_steps(1)] ex_steps(2)] ex_result_step] ex_steps(3)]
    by (simp add: credits_def)
  from run [OF this ex_payment_step] show ?thesis
    by (simp add: credits_def ex_paid_def ex_open_job_def channel_new_def job_by_id_def ex_job_def bt_get_def)
qed

text \<open>The same journal, closed while the job runs.\<close>

definition ex_records :: "channel_record list" where
  "ex_records = [JobProposed ex_job 0 [7], JobAccepted ex_work 0, JobRunning ex_work]"

lemma ex_history:
  "journal_history ex_invocation ex_b3 ex_vf ex_channel ex_capacity Provider ex_origin None (map encode_for_storage ex_records)
    (ex_open_job Running (Some 0) None [] [7] [])"
proof -
  note commit = history_commit [of ex_invocation ex_b3 ex_vf ex_channel ex_capacity Provider ex_origin]
  have "journal_history ex_invocation ex_b3 ex_vf ex_channel ex_capacity Provider ex_origin None [] (channel_new ex_channel ex_capacity Provider ex_origin)"
    by (rule history_new) (simp add: ex_origin_def ex_channel_def)
  from commit [OF commit [OF commit [OF this _ ex_propose] _ ex_steps(1)] _ ex_steps(2)] show ?thesis
    by (simp add: ex_records_def wf_channel_record_def)
qed

section \<open>Properties\<close>

text \<open>C14. The account of a payment channel. In every state a channel's journal can hold, on either side, the credited
  total is the sum of the prices of the jobs paid so far, as unbounded naturals, and no job is among them twice. Unless
  none was paid, the channel holds a certificate for exactly that total, for its own edge and terms, within the
  settlement's capacity and signed by the client, which is the one a close would present. A provider's open jobs never
  cost more than the compute credit limit, and those whose plaintext has left never more than the delivery credit limit,
  where a limit of the largest 64-bit value is no limit. A closing channel has no open job.\<close>

theorem channel_account:
  assumes "channel_run iv b3 vf c st role origin ps s"
  shows "unat (credited_cumulative (cn_ledger s)) = (\<Sum>(i, price) \<leftarrow> ps. unat price) \<and> distinct (map fst ps)
    \<and> (case executable_certificate s of
        None \<Rightarrow> ps = []
      | Some (certificate, signature) \<Rightarrow> ec_earned_cumulative certificate = credited_cumulative (cn_ledger s)
          \<and> ec_payment_edge certificate = ch_payment_edge c \<and> ec_payment_terms_hash certificate = ch_payment_terms_hash c
          \<and> ec_earned_cumulative certificate \<le> st_capacity st
          \<and> verify_sig vf signature (client_key c) (certificate_digest b3 (ch_network c) certificate))
    \<and> (role = Provider \<longrightarrow>
        within_limit (\<Sum>job \<leftarrow> open_jobs s. unat (pj_price (js_authorization job))) (cp_compute_credit_limit (ch_policy c))
        \<and> within_limit (\<Sum>job \<leftarrow> filter (\<lambda>job. phase_delivered (js_phase job)) (open_jobs s). unat (pj_price (js_authorization job)))
            (cp_delivery_credit_limit (ch_policy c)))
    \<and> (is_closing s \<longrightarrow> open_jobs s = [])"
proof -
  have ok: "channel_ok b3 vf s" by (rule run_ok [OF assms])
  have acc: "run_account c st role ps s" by (rule run_account_run [OF assms])
  note b = channel_okD(1) [OF ok]
  have l: "account_ok b3 vf s" "close_ok b3 s" using ok by (simp_all add: channel_ok_def)
  have "case executable_certificate s of
        None \<Rightarrow> ps = []
      | Some (certificate, signature) \<Rightarrow> ec_earned_cumulative certificate = credited_cumulative (cn_ledger s)
          \<and> ec_payment_edge certificate = ch_payment_edge c \<and> ec_payment_terms_hash certificate = ch_payment_terms_hash c
          \<and> ec_earned_cumulative certificate \<le> st_capacity st
          \<and> verify_sig vf signature (client_key c) (certificate_digest b3 (ch_network c) certificate)"
  proof (cases "last_payment s")
    case None
    then have "fst ` set ps = {}" using last_payment_None [OF b] acc by (auto simp: run_account_def)
    then show ?thesis using None by (simp add: executable_certificate_def)
  next
    case (Some p)
    from last_payment_held [OF b Some] obtain t where t: "terminal_by_id (cn_book s) (pd_work_id p) = Some t"
      "payment_from_terminal t = Some p" unfolding payment_of_Some by blast
    then have "payment_signed b3 vf s (jt_work_id t) sr (pd_certificate p) (pd_binding p) (pd_binding_signature p)
        (pd_certificate_signature p)" if "jt_outcome t = Certified sr (pd_certificate p) (pd_binding p) (pd_binding_signature p)
        (pd_certificate_signature p)" for sr
      using l(1) that by (force simp: account_ok_def terminal_signed_def)
    moreover have "\<exists>sr. jt_outcome t = Certified sr (pd_certificate p) (pd_binding p) (pd_binding_signature p) (pd_certificate_signature p)"
      using t(2) by (cases "jt_outcome t") auto
    ultimately show ?thesis using Some acc l(1)
      by (auto simp: executable_certificate_def payment_signed_def run_account_def account_ok_def max_executable_certificate_def)
  qed
  moreover have "bt_total reserved_price (jb_jobs (cn_book s)) = (\<Sum>job \<leftarrow> open_jobs s. unat (pj_price (js_authorization job)))"
    by (simp add: bt_total_def reserved_price_def [abs_def] comp_def)
  moreover have "bt_total delivered_price (jb_jobs (cn_book s))
      = (\<Sum>job \<leftarrow> filter (\<lambda>job. phase_delivered (js_phase job)) (open_jobs s). unat (pj_price (js_authorization job)))"
    unfolding bt_total_def sum_list_map_filter' by (simp add: delivered_price_def [abs_def] reserved_price_def comp_def cong: if_cong)
  ultimately show ?thesis using acc l by (simp add: run_account_def account_ok_def exposure_ok_def close_ok_def)
qed

theorem channel_account_witness:
  "channel_run ex_invocation ex_b3 ex_vf ex_channel ex_capacity Provider ex_origin [(ex_work, 5)] ex_paid_state
    \<and> unat (credited_cumulative (cn_ledger ex_paid_state)) = 5
    \<and> executable_certificate ex_paid_state = Some (ex_earned, 0) \<and> ec_earned_cumulative ex_earned = credited_cumulative (cn_ledger ex_paid_state)
    \<and> ec_earned_cumulative ex_earned \<le> st_capacity ex_capacity"
proof -
  have e: "executable_certificate ex_paid_state = Some (ex_earned, 0)"
    by (simp add: executable_certificate_def last_payment_def max_by_key_def ex_paid_state_def channel_new_def ex_paid_def
        map_filter_simps)
  from channel_account [OF ex_run] show ?thesis using ex_run by (auto simp: e)
qed

text \<open>C15. A channel survives a restart. Whatever was committed, rotated and restored before, and however often the store
  was opened, replaying the checkpoint and the records on disk is never refused and gives the state that was committed:
  the account, the certificates, the terminals, the cursor, the close facts and every open job but for its two bodies,
  with exactly the jobs that were running marked as indeterminate. The one checkpoint left out of the histories is one taken
  while the retained close start carries an older certificate: a checkpoint of the state is accepted again exactly when
  it does not.\<close>

theorem journal_reopens:
  assumes "journal_history iv b3 vf c st role origin held records s"
  shows "\<exists>s'. replay_state iv b3 vf held records c st role origin = Ok s'
    \<and> mark_indeterminate s' = mark_indeterminate (strip s)
    \<and> cn_ledger s' = cn_ledger s \<and> cn_funding s' = cn_funding s \<and> executable_certificate s' = executable_certificate s
    \<and> (\<forall>i. terminal_by_id (cn_book s') i = terminal_by_id (cn_book s) i
        \<and> job_by_id (cn_book s') i = map_option strip_job (job_by_id (cn_book s) i)
        \<and> (is_indeterminate_job (cn_book (mark_indeterminate s')) i \<longleftrightarrow>
            (\<exists>job. job_by_id (cn_book s) i = Some job \<and> js_phase job \<in> {Running, Streaming})))
    \<and> (length (checkpoint_for_storage s) \<le> MAX_CHECKPOINT_BYTES \<longrightarrow>
        (from_checkpoint iv b3 vf (checkpoint_for_storage s) c st role = Ok (strip s) \<longleftrightarrow> start_current s))"
proof -
  from history_replays [OF assms] obtain ind where r: "replay_state iv b3 vf held records c st role origin = Ok (strip_with ind s)"
    and k: "knows ind s" by blast
  from history_run [OF assms] obtain ps where run: "channel_run iv b3 vf c st role origin ps s" by blast
  have ok: "channel_ok b3 vf s" by (rule run_ok [OF run])
  have checkpoint: "from_checkpoint iv b3 vf (checkpoint_for_storage s) c st role = Ok (strip s) \<longleftrightarrow> start_current s"
    if "length (checkpoint_for_storage s) \<le> MAX_CHECKPOINT_BYTES"
    using from_checkpoint_eq [OF ok history_start_wf [OF assms] that, of iv] run_account_run [OF run]
    by (auto simp: run_account_def start_current_def and_then_eq_Ok split: option.splits)
  note b = channel_okD(1) [OF channel_ok_strip [OF ok k]]
  have "is_indeterminate_job (cn_book (mark_indeterminate (strip_with ind s))) i \<longleftrightarrow>
      (\<exists>job. job_by_id (cn_book s) i = Some job \<and> js_phase job \<in> {Running, Streaming})" for i
    unfolding mark_indeterminate_iff [OF b] by auto
  then show ?thesis by (intro exI [of _ "strip_with ind s"]) (simp add: r mark_strip_with checkpoint)
qed

theorem journal_reopens_witness:
  "journal_history ex_invocation ex_b3 ex_vf ex_channel ex_capacity Provider ex_origin None (map encode_for_storage ex_records)
      (ex_open_job Running (Some 0) None [] [7] [])
    \<and> and_then (replay_state ex_invocation ex_b3 ex_vf None (map encode_for_storage ex_records) ex_channel ex_capacity Provider ex_origin)
        (\<lambda>s'. Ok (mark_indeterminate s')) = Ok (ex_open_job Running (Some 0) None [] [] [(ex_work, ())])"
proof -
  have "mark_indeterminate (strip (ex_open_job Running (Some 0) None [] [7] [])) = ex_open_job Running (Some 0) None [] [] [(ex_work, ())]"
    by (simp add: mark_indeterminate_def running_ids_def strip_def strip_with_def strip_book_def strip_job_def ex_open_job_def bt_empty_def)
  then show ?thesis using journal_reopens [OF ex_history] ex_history by auto
qed

text \<open>A journal record has one spelling: the decoder accepts a byte string exactly when it is the encoding of a record,
  and returns that record, so no journal can be read as two different histories. A record that carries a close start is one
  whose start is a value of its type, with terms under their own hash.\<close>

theorem channel_record_exact:
  "decode_channel_record b3 bs = Ok r \<longleftrightarrow> wf_channel_record b3 r \<and> bs = encode_channel_record r"
  using decode_encode encode_decode by blast

end
