(* ===== verification/Spec2Isabelle.thy ===== *)
theory Spec2Isabelle
  imports Ledger_Authority Ledger_Exits Kernel_Messages Kernel_View Owner_Proto Chain_Properties Chain_Index_Properties Chain_App_Properties Channel_Properties
begin

text \<open>
  Verification of Hellas, a settlement chain for paid inference work.

  \<^bold>\<open>The program.\<close> The kernel (src/crates/kernel/src) is a pure state machine over coins, edges (two-party
  channels) and registry chunks. A transaction opens an edge from coins, closes one by one of its proofs, moves
  its payment contest (start, response, freeze, adjudication) or reshapes an owner's coins. The chain host
  (src/crates/chain/src) loads what a transaction names into a block working set, runs the kernel on it and
  writes the outcome back to an authenticated database, in which it also records who holds what in an owner tree,
  from which light clients verify pages. On top of it the application keeps a pool of submitted transactions,
  proposes, verifies and applies blocks for consensus, and replays finalized blocks into an owner index. Off the
  chain, the two ends of a payment edge (src/crates/channel/src) each keep a journal of the jobs proposed, run and paid
  over it and of the certificate a close would present.

  \<^bold>\<open>Conventions.\<close> A machine integer is a word of its width, with checked, saturating and wrapping arithmetic
  written out; a fixed byte array is a word of that many bytes; \<^verbatim>\<open>Result\<close> is \<open>result\<close> and \<^verbatim>\<open>?\<close> is
  \<open>and_then\<close>; a trait is a record of operations and its contract a locale; a function that takes
  \<^verbatim>\<open>&mut\<close> returns the state it leaves. Code outside the repository is a parameter: \<open>b3\<close> (BLAKE3),
  \<open>sha\<close> (SHA-256), \<open>vf\<close> (signature verification), \<open>b58\<close> (the text of a key). No theorem assumes such a function
  to be injective outright: the hypotheses name the finite set of inputs on which it must not collide.

  \<^bold>\<open>Kernel.\<close>
  \<^item> Kernel_Prelude: results, words, bytes, lists, and the lemma collections the rest uses.
  \<^item> Kernel_Canonical: the canonical encoding (canonical.rs) and the locale \<open>codec\<close>, interpreted for every type.
  \<^item> Xet_Hash: the single-chunk commitment of src/crates/xet.
  \<^item> Kernel_Primitive, Kernel_Error, Kernel_Object, Kernel_Terms, Kernel_Registry: the data of the kernel.
  \<^item> Kernel_Store: the Batch trait and the locale \<open>batch\<close>; Working_Set: the host's store, which interprets it.
  \<^item> Kernel_Event, Kernel_Work, Kernel_Lease, Kernel_Tx, Kernel_Tx_Work, Kernel_Tx_Open, Kernel_Apply,
    Kernel_State: changes and their folds, the payment contest, bond leases, transactions, the transition
    functions, and the application of one operation, a batch, a block or an iterator.
  \<^item> Kernel_View: sorted views and the reassembly of registry values (view.rs).
  \<^item> Kernel_Ledger: the abstract ledger, the abstract change and the ledger invariant.
  \<^item> Ledger_Safety: conservation of value, refinement of the abstract change, the invariant, no replay, atomicity
    of batches. Ledger_Authority: who must sign what, what each close pays, the contest window, bond leases.
    Ledger_Exits: affordable exits, projections and record round trips. Kernel_Messages: signed messages are
    told apart, and transactions have one encoding. Kernel_Examples: the concrete inputs of the witnesses.

  \<^bold>\<open>Owner tree\<close> (owner_proof.rs).
  \<^item> Owner_Proof: commitments, node encodings, the store interface, reading, writing and verifying a path, the
    in-memory store. Owner_Pages: proving and verifying pages. Owner_Proto: the wire messages.
  \<^item> Owner_Tree: prefixes of keys and the commitment of a map at every height, with its count, balance and order.
  \<^item> Owner_Verify: a path that verifies to the commitment of a map shows that map's leaf and the key's rank.
  \<^item> Owner_Forest, Owner_Update, Owner_State: the locale \<open>owner_store_laws\<close>, the forest a store holds, and that
    updates keep it; Owner_Prover: the prover finds and proves every page.
  \<^item> Owner_Properties: the theorems a client relies on. Owner_Examples: the concrete run of their witnesses.

  \<^bold>\<open>Chain host\<close> (domain.rs, execution/kernel.rs, execution/owner_tree.rs, execution/finalized.rs, block.rs). The
  database is a record \<open>object_db\<close> of a read and a write with the law \<open>db_laws\<close>; merkleization, its root and sync
  target are the record \<open>merkle\<close>; block digests are a parameter.
  \<^item> Chain_Domain: constants, identifiers, coins, objects and their stored form, transactions.
  \<^item> Chain_Execution: loading slots, running the kernel, replaying events, genesis, plain, observed and proposal
    execution, the owner tree in the database. Chain_Block: blocks, their validation and the root checks.
  \<^item> Chain_Ledger: the ledger a whole database stands for, and that the loaded slots are a part of it. Kernel_Reads:
    what a transaction's verdict depends on. Kernel_Verdicts: which errors the kernel gives on a declared working set.
  \<^item> Chain_Refinement, Chain_Blocks, Chain_Supply, Chain_Owners: one accepted transaction is one kernel step on that
    ledger; refusals, proposals and whole blocks; the supply across blocks; the owner tree indexes the objects.
  \<^item> Chain_Examples: the concrete database of the witnesses. Chain_Properties: what the host promises.

  \<^bold>\<open>Application\<close> (app.rs, rpc.rs, owner_index.rs).
  \<^item> BTree_Map: the ordered maps of the standard library and the locale \<open>ordered_map\<close>, interpreted for sorted lists.
  \<^item> Chain_Index: the replayed owner index. Chain_Index_Ledger: replaying what the host executed never fails and
    keeps the index equal to the ledger. Chain_Index_Properties: what its queries answer.
  \<^item> Chain_Mempool: the two lanes of the pool and submission. Chain_App: propose, verify, apply, and
    finalized as the sequence of steps between which it gives up the pool's lock.
    Chain_App_Invariant: the pool invariant over every interleaving of submissions with those steps, that the handler
    ends, and what a proposal takes from the pool.
    Chain_App_Properties: proposals verify, the pool is bounded, admitted answers execute, and the size of a response.

  \<^bold>\<open>Channel\<close> (src/crates/channel/src).
  \<^item> Channel_Records: the private records of a paid channel and the locale \<open>private_record\<close> interpreted for each, the
    signed digests, the channel identity, the next payment and the credit ledger (model/work.rs).
  \<^item> Channel_Job: how an authorization binds an input and a result (job.rs); the invocation protocol is a parameter.
  \<^item> Channel_Book: the job book and its invariant (work_store/channel/book.rs).
  \<^item> Channel_State: every step a channel journal records and the revalidation of a checkpoint
    (work_store/channel/state.rs).
  \<^item> Channel_Codec: the bytes of records and checkpoints and the locale \<open>journal_field\<close> their fields keep
    (work_store/channel/codec.rs): the decoder of records accepts exactly the encodings, a checkpoint reads back.
  \<^item> Channel_Invariant: the invariant every step keeps: evidence and signatures of each job and terminal, the account,
    the credit limits, the close facts. Channel_Replay: replaying the stored form of a step reaches the stored form
    of the state, and a checkpoint is accepted again, but for one retained close start.
  \<^item> Channel_Run: every state a channel reaches, with the payments credited on the way. Channel_Journal: what can be on
    disk across commits, rotations and restarts, what opening it gives (work_store/channel/store.rs), and the
    checkpoint that no longer opens. Channel_Properties: the account of a channel, and that it survives a restart.

  \<^bold>\<open>Bounds.\<close> The kernel's loops are bounded folds over its own lists, so no fuel is needed. The page walk of the
  owner tree terminates by a measure on the depths of its pending nodes. Asynchronous code is the sequence of steps
  it takes; what runs under a lock is one step. The handler of a finalized block is the one modelled function that
  takes the pool's lock more than once: its steps interleave with submissions and with work on the owner index, and
  a handler starts when the one before it has ended.

  \<^bold>\<open>Not modelled.\<close> Signature backends and WebAuthn (external curve libraries, a parameter here); the
  authenticated database, consensus and block codec (external packages); networking, RPC, HTTP, the command line, the
  executor and its providers (input and output); the channel's endpoints, close watcher, uploads, the SQLite file
  under its journals, the setup and grant journals, and the node's services.
\<close>

end
